(* ===== verification/Ldap_Prelude.thy ===== *)
theory Ldap_Prelude imports Main "HOL-Library.Word" begin

text \<open>
  What the components of the development share: the integer types of the target (OS/2 and every
  other ILP32 platform the SDK is built for: \<open>char\<close> has 8 bits, \<open>int\<close> and
  \<open>long\<close> have 32), octet strings, the big-endian reading and writing of a 32-bit word, and
  the collections the component proofs draw on.
\<close>

unbundle bit_operations_syntax

type_synonym u8 = "8 word"
type_synonym u32 = "32 word"
type_synonym octets = "u8 list"

named_theorems codec_simps "equations of the byte-level encoders and decoders"
named_theorems avl_simps "equations of the balanced-tree operations"

section \<open>Big-endian octets of a word\<close>

text \<open>
  \<open>be_bytes n w\<close> are the \<open>n\<close> low-order octets of \<open>w\<close>, most significant first: what a loop
  \<open>net[last - i] = w & 0xff; w >>= 8\<close> leaves in the last \<open>n\<close> cells of \<open>net\<close>.
  \<open>of_be\<close> is the reading loop \<open>x = (x << 8) | b\<close>.
\<close>

fun be_bytes :: "nat \<Rightarrow> u32 \<Rightarrow> octets" where
  "be_bytes 0 w = []"
| "be_bytes (Suc n) w = be_bytes n (drop_bit 8 w) @ [ucast w]"

definition shift_in :: "u32 \<Rightarrow> u8 \<Rightarrow> u32" where
  "shift_in acc b = (push_bit 8 acc OR ucast b)"

definition of_be_from :: "u32 \<Rightarrow> octets \<Rightarrow> u32" where
  "of_be_from acc bs = foldl shift_in acc bs"

abbreviation of_be :: "octets \<Rightarrow> u32" where
  "of_be bs \<equiv> of_be_from 0 bs"

lemma length_be_bytes [simp]: "length (be_bytes n w) = n"
  by (induction n arbitrary: w) auto

lemma of_be_from_Nil [simp]: "of_be_from acc [] = acc"
  by (simp add: of_be_from_def)

lemma of_be_from_append [simp]: "of_be_from acc (xs @ ys) = of_be_from (of_be_from acc xs) ys"
  by (simp add: of_be_from_def)

lemma of_be_from_Cons [simp]: "of_be_from acc (b # bs) = of_be_from (shift_in acc b) bs"
  by (simp add: of_be_from_def)

lemma shift_in_take_bit:
  "shift_in (take_bit (8 * n) (drop_bit 8 w)) (ucast w) = take_bit (8 * Suc n) w"
  by (rule bit_word_eqI) (auto simp: shift_in_def bit_simps)

lemma of_be_be_bytes: "of_be (be_bytes n w) = take_bit (8 * n) w"
  by (induction n arbitrary: w) (simp_all only: be_bytes.simps of_be_from_append of_be_from_Cons
      of_be_from_Nil shift_in_take_bit take_bit_0 mult_0_right)

lemma of_be_be_bytes_id: "drop_bit (8 * n) w = 0 \<Longrightarrow> of_be (be_bytes n w) = w"
  by (metis of_be_be_bytes bits_ident push_bit_of_0 add_0)

lemma drop_bit_less: "drop_bit n w = 0 \<longleftrightarrow> unat w < 2 ^ n" for w :: u32
proof -
  have "drop_bit n w = 0 \<longleftrightarrow> unat (drop_bit n w) = 0" by (simp add: unat_eq_0)
  also have "\<dots> \<longleftrightarrow> unat w div 2 ^ n = 0" by (simp only: unat_drop_bit_eq) (simp only: drop_bit_eq_div)
  finally show ?thesis by (simp add: div_eq_0_iff)
qed

lemma of_nat_unat_id [simp]: "of_nat (unat w) = w" for w :: "'a::len word"
  by (simp add: of_nat_unat)

lemma nonneg_word: "0 \<le> sint w \<longleftrightarrow> unat w < 2 ^ 31" for w :: u32
proof -
  have "0 \<le> sint w \<longleftrightarrow> \<not> bit w 31" using bit_last_iff [of w] by auto
  also have "\<dots> \<longleftrightarrow> drop_bit 31 w = 0"
  proof -
    have "bit w (31 + n) \<longleftrightarrow> n = 0 \<and> bit w 31" for n
      using bit_imp_le_length [of w "31 + n"] by (cases n) auto
    then have "bit (drop_bit 31 w) n \<longleftrightarrow> n = 0 \<and> bit w 31" for n by (simp add: bit_drop_bit_eq)
    then show ?thesis by (metis bit_0_eq bit_word_eqI bot_apply bot_bool_def)
  qed
  finally show ?thesis by (simp add: drop_bit_less)
qed

lemma short_len_octet:
  assumes "len \<le> (127 :: u32)"
  shows "(ucast len :: u8) AND 0x80 = 0" "(ucast (ucast len :: u8) :: u32) = len"
proof -
  have "unat len \<le> 127" using assms by (simp add: word_le_nat_alt)
  then have d: "drop_bit 7 len = 0"
    by (intro word_unat_eq_iff [THEN iffD2]) (simp add: drop_bit_eq_div unat_div)
  have b: "\<not> bit len n" if "7 \<le> n" for n
  proof -
    have "bit (drop_bit 7 len) (n - 7) = bit len n" using that by (simp add: bit_drop_bit_eq)
    then show ?thesis using d by simp
  qed
  show "(ucast len :: u8) AND 0x80 = 0"
  proof -
    have "(0x80 :: u8) = push_bit 7 1" by simp
    then show ?thesis
      by (metis (no_types, lifting) b and_exp_eq_0_iff_not_bit bit_unsigned_iff push_bit_of_1 order_refl)
  qed
  show "(ucast (ucast len :: u8) :: u32) = len"
  proof -
    have "n < 8" if "bit len n" for n
      using b [of n] that by (cases "7 \<le> n") auto
    then show ?thesis by (intro bit_word_eqI) (auto simp: bit_simps)
  qed
qed

end
