(* ===== verification/Ber_Element.thy ===== *)
theory Ber_Element imports Ldap_Prelude begin

text \<open>
  The BER element of libraries/liblber/lber-int.h and the buffer operations of
  libraries/liblber/io.c.

  A pointer into the buffer is its offset from \<open>ber_buf\<close>; while \<open>ber_buf\<close> is null the offsets are
  0.  The block \<open>ber_buf\<close> points to is the list of its octets, with its real size as length, so an
  access outside the block is visible: the result of such a run is \<open>None\<close> (undefined behaviour), as
  is that of a failed assertion.  Return values are integers, -1 for an error, with the element the
  call leaves.
\<close>

type_synonym u16 = "16 word"

section \<open>Constants\<close>

definition LBER_BIG_TAG_MASK :: u32 where "LBER_BIG_TAG_MASK = 0x1f"
definition LBER_MORE_TAG_MASK :: u32 where "LBER_MORE_TAG_MASK = 0x80"
definition LBER_DEFAULT :: u32 where "LBER_DEFAULT = 0xffffffff"
definition LBER_BOOLEAN :: u32 where "LBER_BOOLEAN = 0x01"
definition LBER_INTEGER :: u32 where "LBER_INTEGER = 0x02"
definition LBER_BITSTRING :: u32 where "LBER_BITSTRING = 0x03"
definition LBER_OCTETSTRING :: u32 where "LBER_OCTETSTRING = 0x04"
definition LBER_NULL :: u32 where "LBER_NULL = 0x05"
definition LBER_ENUMERATED :: u32 where "LBER_ENUMERATED = 0x0a"
definition LBER_SEQUENCE :: u32 where "LBER_SEQUENCE = 0x30"
definition LBER_SET :: u32 where "LBER_SET = 0x31"
definition LBER_USE_DER :: u16 where "LBER_USE_DER = 0x01"

section \<open>State\<close>

text \<open>An open sequence or set; \<open>sos_next\<close> is the rest of the list in \<open>ber_sos\<close>.\<close>

record seqorset =
  sos_clen :: u32
  sos_tag :: u32
  sos_first :: nat
  sos_ptr :: nat

text \<open>
  \<open>ber_rwptr\<close> points into the tag, at the user tag, into the length or into the buffer: the code
  uses where it points as the state of \<open>ber_get_next\<close>.
\<close>

datatype rwptr = RwNull | RwTag nat | RwUsertag | RwLen nat | RwBuf nat

record berelement =
  ber_options :: u16
  ber_usertag :: u32
  ber_tag :: u32
  ber_len :: u32
  ber_buf :: "octets option"
  ber_ptr :: nat
  ber_end :: nat
  ber_sos :: "seqorset list"
  ber_rwptr :: rwptr

type_synonym put_result = "(int \<times> berelement) option"

definition ber_block :: "berelement \<Rightarrow> octets" where
  "ber_block ber = (case ber_buf ber of None \<Rightarrow> [] | Some block \<Rightarrow> block)"

definition ber_pvt_ber_remaining :: "berelement \<Rightarrow> u32" where
  "ber_pvt_ber_remaining ber = of_nat (ber_end ber) - of_nat (ber_ptr ber)"

definition ber_pvt_ber_total :: "berelement \<Rightarrow> u32" where
  "ber_pvt_ber_total ber = of_nat (ber_end ber)"

definition ber_pvt_ber_write :: "berelement \<Rightarrow> u32" where
  "ber_pvt_ber_write ber = of_nat (ber_ptr ber)"

section \<open>Blocks\<close>

text \<open>
  The allocator is a parameter: the octets found in a fresh block of the given size, or \<open>None\<close>.
  The documented behaviour relied on is \<open>alloc_fits\<close>.  \<open>store\<close> copies octets to an offset.
\<close>

type_synonym allocator = "nat \<Rightarrow> octets option"

definition alloc_fits :: "allocator \<Rightarrow> bool" where
  "alloc_fits alloc \<longleftrightarrow> (\<forall>n bs. alloc n = Some bs \<longrightarrow> length bs = n)"

definition realloc_block :: "allocator \<Rightarrow> octets \<Rightarrow> nat \<Rightarrow> octets option" where
  "realloc_block alloc old n = map_option (\<lambda>fresh. take n old @ drop (length old) fresh) (alloc n)"

definition store :: "nat \<Rightarrow> octets \<Rightarrow> octets \<Rightarrow> octets option" where
  "store off bs block =
    (if off + length bs \<le> length block
     then Some (take off block @ bs @ drop (off + length bs) block) else None)"

text \<open>Copying to the block of an element; nothing is touched when there is nothing to copy.\<close>

definition ber_store :: "nat \<Rightarrow> octets \<Rightarrow> berelement \<Rightarrow> berelement option" where
  "ber_store off bs ber =
    (if bs = [] then Some ber
     else map_option (\<lambda>block. ber\<lparr>ber_buf := Some block\<rparr>) (store off bs (ber_block ber)))"

section \<open>Growing, reading and writing\<close>

definition EXBUFSIZ :: u32 where "EXBUFSIZ = 1024"

definition realloc_total :: "u32 \<Rightarrow> u32 \<Rightarrow> u32" where
  "realloc_total tot len =
    (let have = tot div EXBUFSIZ;
         need = (if len < EXBUFSIZ then 1 else (len + (EXBUFSIZ - 1)) div EXBUFSIZ)
     in have * EXBUFSIZ + need * EXBUFSIZ)"

text \<open>
  The pointers are offsets, so nothing has to be reset when the block moves.  A total that wraps to
  0 makes the reallocation free the block the element keeps pointing to.
\<close>

definition ber_realloc :: "allocator \<Rightarrow> berelement \<Rightarrow> u32 \<Rightarrow> put_result" where
  "ber_realloc alloc ber len =
    (if len = 0 then None
     else let total = unat (realloc_total (ber_pvt_ber_total ber) len) in
       if total = 0 then None
       else case realloc_block alloc (ber_block ber) total of
           None \<Rightarrow> Some (-1, ber)
         | Some block \<Rightarrow> Some (0, ber\<lparr>ber_buf := Some block, ber_end := total\<rparr>))"

definition ber_read :: "berelement \<Rightarrow> u32 \<Rightarrow> (octets \<times> berelement) option" where
  "ber_read ber len =
    (let nleft = ber_pvt_ber_remaining ber;
         actuallen = unat (if nleft < len then nleft else len)
     in if ber_ptr ber + actuallen \<le> length (ber_block ber) \<or> actuallen = 0
        then Some (take actuallen (drop (ber_ptr ber) (ber_block ber)),
                   ber\<lparr>ber_ptr := ber_ptr ber + actuallen\<rparr>)
        else None)"

definition ber_write :: "allocator \<Rightarrow> berelement \<Rightarrow> octets \<Rightarrow> bool \<Rightarrow> put_result" where
  "ber_write alloc ber buf nosos =
    (let len = length buf in
     if nosos \<or> ber_sos ber = [] then
       (case (if ber_ptr ber + len > ber_end ber then ber_realloc alloc ber (of_nat len)
              else Some (0, ber)) of
          None \<Rightarrow> None
        | Some (rc, ber1) \<Rightarrow>
           (if rc \<noteq> 0 then Some (-1, ber1)
            else map_option (\<lambda>ber2. (int len, ber2\<lparr>ber_ptr := ber_ptr ber2 + len\<rparr>))
                   (ber_store (ber_ptr ber1) buf ber1)))
     else
       (case (if sos_ptr (hd (ber_sos ber)) + len > ber_end ber
              then ber_realloc alloc ber (of_nat len) else Some (0, ber)) of
          None \<Rightarrow> None
        | Some (rc, ber1) \<Rightarrow>
           (if rc \<noteq> 0 then Some (-1, ber1)
            else let sos = hd (ber_sos ber1);
                     sos' = sos\<lparr>sos_ptr := sos_ptr sos + len, sos_clen := sos_clen sos + of_nat len\<rparr>
                 in map_option (\<lambda>ber2. (int len, ber2\<lparr>ber_sos := sos' # tl (ber_sos ber2)\<rparr>))
                      (ber_store (sos_ptr sos) buf ber1))))"

section \<open>Creating, resetting and flattening\<close>

definition ber_alloc_t :: "u16 \<Rightarrow> bool \<Rightarrow> berelement option" where
  "ber_alloc_t options calloc_ok =
    (if \<not> calloc_ok then None
     else Some \<lparr>ber_options = options, ber_usertag = 0, ber_tag = LBER_DEFAULT, ber_len = 0,
       ber_buf = None, ber_ptr = 0, ber_end = 0, ber_sos = [], ber_rwptr = RwNull\<rparr>)"

definition ber_alloc :: "bool \<Rightarrow> berelement option" where
  "ber_alloc calloc_ok = ber_alloc_t 0 calloc_ok"

definition der_alloc :: "bool \<Rightarrow> berelement option" where
  "der_alloc calloc_ok = ber_alloc_t LBER_USE_DER calloc_ok"

text \<open>\<open>ber_init_w_nullc\<close> narrows the options to a (signed) character.\<close>

definition ber_init_w_nullc :: "int \<Rightarrow> berelement" where
  "ber_init_w_nullc options =
    \<lparr>ber_options = scast (of_int options :: u8), ber_usertag = 0, ber_tag = LBER_DEFAULT,
     ber_len = 0, ber_buf = None, ber_ptr = 0, ber_end = 0, ber_sos = [], ber_rwptr = RwNull\<rparr>"

definition ber_reset :: "berelement \<Rightarrow> bool \<Rightarrow> berelement" where
  "ber_reset ber was_writing =
    (if was_writing then ber\<lparr>ber_end := ber_ptr ber, ber_ptr := 0, ber_rwptr := RwNull\<rparr>
     else ber\<lparr>ber_ptr := ber_end ber, ber_rwptr := RwNull\<rparr>)"

text \<open>
  \<open>ber_init\<close> returns the null pointer (\<open>Some None\<close>) when an allocation fails.
\<close>

definition ber_init :: "allocator \<Rightarrow> bool \<Rightarrow> octets \<Rightarrow> berelement option option" where
  "ber_init alloc calloc_ok bv =
    (case ber_alloc_t 0 calloc_ok of
       None \<Rightarrow> Some None
     | Some ber \<Rightarrow>
        (case ber_write alloc ber bv False of
           None \<Rightarrow> None
         | Some (rc, ber1) \<Rightarrow>
            (if rc \<noteq> int (length bv) then Some None else Some (Some (ber_reset ber1 True)))))"

text \<open>
  \<open>ber_flatten\<close> returns the return value and the new value with its length; the copy carries a
  terminating null octet.  A null element (\<open>None\<close>) gives a null value.
\<close>

definition ber_flatten :: "allocator \<Rightarrow> bool \<Rightarrow> berelement option
    \<Rightarrow> (int \<times> (octets option \<times> u32) option) option" where
  "ber_flatten alloc bv_ok ber =
    (if \<not> bv_ok then Some (-1, None)
     else case ber of
         None \<Rightarrow> Some (0, Some (None, 0))
       | Some b \<Rightarrow>
          (let len = ber_pvt_ber_write b in
           case alloc (unat (len + 1)) of
             None \<Rightarrow> Some (-1, None)
           | Some _ \<Rightarrow>
              (if unat len \<le> length (ber_block b)
               then Some (0, Some (Some (take (unat len) (ber_block b) @ [0]), len))
               else None)))"

section \<open>Writing to the transport\<close>

text \<open>
  The transport \<open>sb_write\<close> takes the remaining octets and returns how many it took (or a value
  \<open>\<le> 0\<close>) and its new state.  The result carries the offset reached.
\<close>

function flush_loop :: "('s \<Rightarrow> octets \<Rightarrow> int \<times> 's) \<Rightarrow> octets \<Rightarrow> 's \<Rightarrow> nat \<Rightarrow> (int \<times> nat \<times> 's) option" where
  "flush_loop sb_write towrite s off =
    (let (rc, s') = sb_write s towrite in
     if rc \<le> 0 then Some (-1, off, s')
     else if nat rc > length towrite then None
     else let rest = drop (nat rc) towrite in
       if rest = [] then Some (0, off + nat rc, s')
       else flush_loop sb_write rest s' (off + nat rc))"
  by pat_completeness auto
termination
  by (relation "measure (\<lambda>(w, d, s, off). length d)") auto

text \<open>
  The element is \<open>None\<close> once it has been freed.  A null write pointer starts at the buffer.
\<close>

definition ber_flush :: "('s \<Rightarrow> octets \<Rightarrow> int \<times> 's) \<Rightarrow> 's \<Rightarrow> berelement \<Rightarrow> bool
    \<Rightarrow> (int \<times> berelement option \<times> 's) option" where
  "ber_flush sb_write s ber freeit =
    (case (case ber_rwptr ber of RwNull \<Rightarrow> Some 0 | RwBuf off \<Rightarrow> Some off | _ \<Rightarrow> None) of
       None \<Rightarrow> None
     | Some off \<Rightarrow>
        (if off > ber_ptr ber \<or> ber_ptr ber > length (ber_block ber) then None
         else case flush_loop sb_write (take (ber_ptr ber - off) (drop off (ber_block ber))) s off of
             None \<Rightarrow> None
           | Some (rc, off', s') \<Rightarrow>
              (if rc = 0 \<and> freeit then Some (0, None, s')
               else Some (rc, Some (ber\<lparr>ber_rwptr := RwBuf off'\<rparr>), s'))))"

end
