(* ===== verification/Ber_Decode.thy ===== *)
theory Ber_Decode imports Ber_Element begin

text \<open>
  The decoders of libraries/liblber/decode.c.  A decoder returns the tag (\<open>LBER_DEFAULT\<close> for an
  error), what it wrote through its output pointers, and the element; an output left unset is
  \<open>None\<close>.  \<open>None\<close> as the whole result is an undefined run.
\<close>

section \<open>Tags and lengths\<close>

text \<open>
  The loop for the further octets of a tag; \<open>i\<close> octets have been read.  Four octets without an end
  make the tag too big.
\<close>

function get_tag_more :: "berelement \<Rightarrow> nat \<Rightarrow> u32 \<Rightarrow> (u32 \<times> berelement) option" where
  "get_tag_more ber i tag =
    (if i \<ge> 4 then Some (LBER_DEFAULT, ber)
     else case ber_read ber 1 of None \<Rightarrow> None
       | Some ([xbyte], ber1) \<Rightarrow>
          (let tag' = push_bit 8 tag OR (0x00ff AND ucast xbyte) in
           if (ucast xbyte :: u32) AND LBER_MORE_TAG_MASK = 0 then Some (tag', ber1)
           else get_tag_more ber1 (Suc i) tag')
       | Some (_, ber1) \<Rightarrow> Some (LBER_DEFAULT, ber1))"
  by pat_completeness auto
termination
  by (relation "measure (\<lambda>(ber, i, tag). 4 - i)") auto

definition ber_get_tag :: "berelement \<Rightarrow> (u32 \<times> berelement) option" where
  "ber_get_tag ber =
    (case ber_read ber 1 of None \<Rightarrow> None
     | Some ([xbyte], ber1) \<Rightarrow>
        (let tag = ucast xbyte in
         if tag AND LBER_BIG_TAG_MASK \<noteq> LBER_BIG_TAG_MASK then Some (tag, ber1)
         else get_tag_more ber1 1 tag)
     | Some (_, ber1) \<Rightarrow> Some (LBER_DEFAULT, ber1))"

definition skip_tag_checked :: "u32 \<Rightarrow> u32 \<Rightarrow> berelement \<Rightarrow> (u32 \<times> u32 \<times> berelement) option" where
  "skip_tag_checked tag len ber =
    (if len > ber_pvt_ber_remaining ber then Some (LBER_DEFAULT, len, ber) else Some (tag, len, ber))"

definition ber_skip_tag :: "berelement \<Rightarrow> (u32 \<times> u32 \<times> berelement) option" where
  "ber_skip_tag ber =
    (case ber_get_tag ber of None \<Rightarrow> None
     | Some (tag, ber1) \<Rightarrow>
        (if tag = LBER_DEFAULT then Some (LBER_DEFAULT, 0, ber1)
         else case ber_read ber1 1 of None \<Rightarrow> None
           | Some ([lc], ber2) \<Rightarrow>
              (if lc AND 0x80 \<noteq> 0 then
                 (let noctets = (ucast (lc AND 0x7f) :: u32) in
                  if noctets > 4 then Some (LBER_DEFAULT, 0, ber2)
                  else case ber_read ber2 noctets of None \<Rightarrow> None
                    | Some (netlen, ber3) \<Rightarrow>
                       (if of_nat (length netlen) \<noteq> noctets then Some (LBER_DEFAULT, 0, ber3)
                        else skip_tag_checked tag (of_be netlen) ber3))
               else skip_tag_checked tag (ucast lc) ber2)
           | Some (_, ber2) \<Rightarrow> Some (LBER_DEFAULT, 0, ber2)))"

definition ber_peek_tag :: "berelement \<Rightarrow> (u32 \<times> u32 \<times> berelement) option" where
  "ber_peek_tag ber =
    map_option (\<lambda>(tag, len, ber1). (tag, len, ber1\<lparr>ber_ptr := ber_ptr ber\<rparr>)) (ber_skip_tag ber)"

section \<open>Primitive values\<close>

text \<open>\<open>ber_getnint\<close> returns the length, or -1 with the number unset.\<close>

definition ber_getnint :: "berelement \<Rightarrow> u32 \<Rightarrow> (u32 \<times> u32 option \<times> berelement) option" where
  "ber_getnint ber len =
    (if len > 4 then Some (-1, None, ber)
     else case ber_read ber len of None \<Rightarrow> None
       | Some (buf, ber1) \<Rightarrow>
          (if of_nat (length buf) \<noteq> len then Some (-1, None, ber1)
           else if len \<noteq> 0 then
             Some (len, Some (of_be_from (if 0x80 AND hd buf \<noteq> 0 then -1 else 0) buf), ber1)
           else Some (len, Some 0, ber1)))"

definition ber_get_int :: "berelement \<Rightarrow> (u32 \<times> u32 option \<times> berelement) option" where
  "ber_get_int ber =
    (case ber_skip_tag ber of None \<Rightarrow> None
     | Some (tag, len, ber1) \<Rightarrow>
        (if tag = LBER_DEFAULT then Some (LBER_DEFAULT, None, ber1)
         else map_option (\<lambda>(n, num, ber2). (if n \<noteq> len then LBER_DEFAULT else tag, num, ber2))
                (ber_getnint ber1 len)))"

definition ber_get_enum :: "berelement \<Rightarrow> (u32 \<times> u32 option \<times> berelement) option" where
  "ber_get_enum ber = ber_get_int ber"

text \<open>
  \<open>ber_get_stringb\<close> reads into the caller's buffer of \<open>len\<close> octets and sets the length; the output is
  the contents with the terminating null, and the new length.
\<close>

definition ber_get_stringb :: "berelement \<Rightarrow> u32 \<Rightarrow> (u32 \<times> (octets \<times> u32) option \<times> berelement) option" where
  "ber_get_stringb ber len =
    (case ber_skip_tag ber of None \<Rightarrow> None
     | Some (tag, datalen, ber1) \<Rightarrow>
        (if tag = LBER_DEFAULT then Some (LBER_DEFAULT, None, ber1)
         else if datalen \<ge> len then Some (LBER_DEFAULT, None, ber1)
         else map_option (\<lambda>(buf, ber2).
                if of_nat (length buf) \<noteq> datalen then (LBER_DEFAULT, None, ber2)
                else (tag, Some (buf @ [0], datalen), ber2))
              (ber_read ber1 datalen)))"

text \<open>
  The decoders below allocate; \<open>alloc n\<close> says whether \<open>n\<close> octets can be had.  \<open>ber_memalloc\<close> gives the
  null pointer for 0 octets.
\<close>

definition memalloc_ok :: "(u32 \<Rightarrow> bool) \<Rightarrow> u32 \<Rightarrow> bool" where
  "memalloc_ok alloc n \<longleftrightarrow> n \<noteq> 0 \<and> alloc n"

definition ber_get_stringa :: "(u32 \<Rightarrow> bool) \<Rightarrow> berelement
    \<Rightarrow> (u32 \<times> octets option \<times> berelement) option" where
  "ber_get_stringa alloc ber =
    (case ber_skip_tag ber of None \<Rightarrow> None
     | Some (tag, datalen, ber1) \<Rightarrow>
        (if tag = LBER_DEFAULT then Some (LBER_DEFAULT, None, ber1)
         else if \<not> memalloc_ok alloc (datalen + 1) then Some (LBER_DEFAULT, None, ber1)
         else map_option (\<lambda>(buf, ber2).
                if of_nat (length buf) \<noteq> datalen then (LBER_DEFAULT, None, ber2)
                else (tag, Some (buf @ [0]), ber2))
              (ber_read ber1 datalen)))"

text \<open>The allocated value: \<open>bv_val\<close> (null when empty) and \<open>bv_len\<close>.\<close>

definition BERVAL_SIZE :: u32 where "BERVAL_SIZE = 8"

definition ber_get_stringal :: "(u32 \<Rightarrow> bool) \<Rightarrow> berelement
    \<Rightarrow> (u32 \<times> (octets option \<times> u32) option \<times> berelement) option" where
  "ber_get_stringal alloc ber =
    (case ber_skip_tag ber of None \<Rightarrow> None
     | Some (tag, len, ber1) \<Rightarrow>
        (if tag = LBER_DEFAULT then Some (LBER_DEFAULT, None, ber1)
         else if \<not> memalloc_ok alloc BERVAL_SIZE then Some (LBER_DEFAULT, None, ber1)
         else if len = 0 then Some (tag, Some (None, 0), ber1)
         else if \<not> memalloc_ok alloc (len + 1) then Some (LBER_DEFAULT, None, ber1)
         else map_option (\<lambda>(buf, ber2).
                if of_nat (length buf) \<noteq> len then (LBER_DEFAULT, None, ber2)
                else (tag, Some (Some (buf @ [0]), len), ber2))
              (ber_read ber1 len)))"

text \<open>
  \<open>ber_get_bitstringa\<close>: the two error paths after the allocation free the address of the caller's
  variable instead of the block, so they are undefined.
\<close>

definition ber_get_bitstringa :: "(u32 \<Rightarrow> bool) \<Rightarrow> berelement
    \<Rightarrow> (u32 \<times> (octets \<times> u32) option \<times> berelement) option" where
  "ber_get_bitstringa alloc ber =
    (case ber_skip_tag ber of None \<Rightarrow> None
     | Some (tag, skipped, ber1) \<Rightarrow>
        (if tag = LBER_DEFAULT then Some (LBER_DEFAULT, None, ber1)
         else let datalen = skipped - 1 in
           if \<not> memalloc_ok alloc datalen then Some (LBER_DEFAULT, None, ber1)
           else case ber_read ber1 1 of None \<Rightarrow> None
             | Some ([unusedbits], ber2) \<Rightarrow>
                (case ber_read ber2 datalen of None \<Rightarrow> None
                 | Some (buf, ber3) \<Rightarrow>
                    (if of_nat (length buf) \<noteq> datalen then None
                     else Some (tag, Some (buf, datalen * 8 - ucast unusedbits), ber3)))
             | Some (_, ber2) \<Rightarrow> None))"

definition ber_get_null :: "berelement \<Rightarrow> (u32 \<times> berelement) option" where
  "ber_get_null ber =
    map_option (\<lambda>(tag, len, ber1).
        (if tag = LBER_DEFAULT then LBER_DEFAULT else if len \<noteq> 0 then LBER_DEFAULT else tag, ber1))
      (ber_skip_tag ber)"

text \<open>
  \<open>ber_get_boolean\<close> copies its local integer to the output even when \<open>ber_get_int\<close> failed and left
  it unset.
\<close>

definition ber_get_boolean :: "berelement \<Rightarrow> (u32 \<times> u32 option \<times> berelement) option" where
  "ber_get_boolean ber = ber_get_int ber"

section \<open>The elements of a sequence\<close>

text \<open>The output \<open>last\<close>, here \<open>stop\<close>, is the offset where the sequence ends (\<open>None\<close> for the null pointer).\<close>

definition ber_first_element :: "berelement \<Rightarrow> (u32 \<times> u32 \<times> nat option \<times> berelement) option" where
  "ber_first_element ber =
    (case ber_skip_tag ber of None \<Rightarrow> None
     | Some (tag, len, ber1) \<Rightarrow>
        (if tag = LBER_DEFAULT then Some (LBER_DEFAULT, len, None, ber1)
         else let stop = ber_ptr ber1 + unat len in
           if stop = ber_ptr ber1 then Some (LBER_DEFAULT, len, Some stop, ber1)
           else map_option (\<lambda>(t, l, ber2). (t, l, Some stop, ber2)) (ber_peek_tag ber1)))"

definition ber_next_element :: "berelement \<Rightarrow> nat \<Rightarrow> (u32 \<times> u32 option \<times> berelement) option" where
  "ber_next_element ber stop =
    (if ber_ptr ber = stop then Some (LBER_DEFAULT, None, ber)
     else map_option (\<lambda>(t, l, ber1). (t, Some l, ber1)) (ber_peek_tag ber))"

section \<open>Formatted decoding\<close>

text \<open>
  What \<open>ber_scanf\<close> wrote through the pointers of one conversion.  A character or berval pointer is
  \<open>None\<close> when null; an integer or a caller's buffer is \<open>None\<close> while it keeps its old contents.
\<close>

datatype scanf_out =
    OStr "octets option"
  | OInt "u32 option"
  | OLen u32
  | OTag u32
  | OBuf "(octets \<times> u32) option"
  | OBval u32 "octets option"
  | OBerval "(octets option \<times> u32) option"
  | OBits "octets option" u32
  | OStrVec "octets option list option"
  | OBvVec "(octets option \<times> u32) option list option"
  | OHook
  | ONone

text \<open>
  The arguments a conversion reads: the room in a caller's buffer and the hook with its parameter,
  which is called a second time, with \<open>True\<close>, to clean up after an error.
\<close>

datatype scanf_arg =
    SPtr
  | SBuf u32
  | SHook "berelement \<Rightarrow> bool \<Rightarrow> (u32 \<times> berelement) option"

text \<open>
  The loops of the \<open>v\<close> and \<open>V\<close> conversions.  The code grows the vector without checking the
  allocation; \<open>j\<close> elements have been stored.  Every element that is read takes at least one octet,
  so the size of the block bounds the iterations.
\<close>

type_synonym 'a getter = "berelement \<Rightarrow> (u32 \<times> 'a \<times> berelement) option"

fun vector_loop :: "nat \<Rightarrow> (u32 \<Rightarrow> bool) \<Rightarrow> 'a getter \<Rightarrow> nat \<Rightarrow> u32 \<Rightarrow> 'a list \<Rightarrow> u32 \<Rightarrow> berelement
    \<Rightarrow> (u32 \<times> 'a list \<times> berelement) option" where
  "vector_loop 0 alloc get stop tag xs rc ber = None"
| "vector_loop (Suc fuel) alloc get stop tag xs rc ber =
    (if tag = LBER_DEFAULT \<or> rc = LBER_DEFAULT then Some (rc, xs, ber)
     else if \<not> memalloc_ok alloc (of_nat ((length xs + 2) * 4)) then None
     else case get ber of None \<Rightarrow> None
       | Some (rc', x, ber1) \<Rightarrow>
          (case ber_next_element ber1 stop of None \<Rightarrow> None
           | Some (tag', _, ber2) \<Rightarrow> vector_loop fuel alloc get stop tag' (xs @ [x]) rc' ber2))"

definition scan_vector :: "(u32 \<Rightarrow> bool) \<Rightarrow> 'a getter \<Rightarrow> u32 \<Rightarrow> berelement
    \<Rightarrow> (u32 \<times> 'a list \<times> berelement) option" where
  "scan_vector alloc get rc ber =
    (case ber_first_element ber of None \<Rightarrow> None
     | Some (tag, _, stop, ber1) \<Rightarrow>
        (if tag = LBER_DEFAULT then Some (rc, [], ber1)
         else case stop of None \<Rightarrow> None
           | Some stop' \<Rightarrow>
              vector_loop (Suc (Suc (length (ber_block ber)))) alloc get stop' tag [] rc ber1))"

definition nonempty_vector :: "'a list \<Rightarrow> 'a list option" where
  "nonempty_vector xs = (if xs = [] then None else Some xs)"

type_synonym conv_result = "(u32 \<times> scanf_out \<times> berelement \<times> scanf_arg list) option"

text \<open>
  One conversion; \<open>fmt\<close> is the format after it, which the brackets look at.
\<close>

definition scanf_conv :: "(u32 \<Rightarrow> bool) \<Rightarrow> char \<Rightarrow> string \<Rightarrow> scanf_arg list \<Rightarrow> u32 \<Rightarrow> berelement
    \<Rightarrow> conv_result" where
  "scanf_conv alloc c fmt args rc ber =
    (let ptr = (\<lambda>r. case args of SPtr # rest \<Rightarrow> map_option (\<lambda>(t, out, b). (t, out, b, rest)) r
                     | _ \<Rightarrow> None)
     in
     if c = CHR ''!'' then
       (case args of SHook f # rest \<Rightarrow> map_option (\<lambda>(t, b). (t, OHook, b, rest)) (f ber False)
        | _ \<Rightarrow> None)
     else if c = CHR ''a'' then
       ptr (map_option (\<lambda>(t, s, b). (t, OStr s, b)) (ber_get_stringa alloc ber))
     else if c = CHR ''b'' then
       ptr (map_option (\<lambda>(t, i, b). (t, OInt i, b)) (ber_get_boolean ber))
     else if c = CHR ''e'' \<or> c = CHR ''i'' then
       ptr (map_option (\<lambda>(t, i, b). (t, OInt i, b)) (ber_get_int ber))
     else if c = CHR ''l'' then
       ptr (map_option (\<lambda>(t, l, b). (t, OLen l, b)) (ber_peek_tag ber))
     else if c = CHR ''n'' then
       map_option (\<lambda>(t, b). (t, ONone, b, args)) (ber_get_null ber)
     else if c = CHR ''s'' then
       (case args of SBuf room # rest \<Rightarrow>
          map_option (\<lambda>(t, s, b). (t, OBuf s, b, rest)) (ber_get_stringb ber room) | _ \<Rightarrow> None)
     else if c = CHR ''o'' then
       ptr (case ber_peek_tag ber of None \<Rightarrow> None
            | Some (_, l, b1) \<Rightarrow> map_option (\<lambda>(t, s, b). (t, OBval l s, b)) (ber_get_stringa alloc b1))
     else if c = CHR ''O'' then
       ptr (map_option (\<lambda>(t, bv, b). (t, OBerval bv, b)) (ber_get_stringal alloc ber))
     else if c = CHR ''B'' then
       ptr (map_option (\<lambda>(t, r, b).
              (t, (case r of None \<Rightarrow> OBits None 0 | Some (s, l) \<Rightarrow> OBits (Some s) l), b))
            (ber_get_bitstringa alloc ber))
     else if c = CHR ''t'' then
       ptr (map_option (\<lambda>(t, l, b). (t, OTag t, b)) (ber_peek_tag ber))
     else if c = CHR ''T'' then
       ptr (map_option (\<lambda>(t, l, b). (t, OTag t, b)) (ber_skip_tag ber))
     else if c = CHR ''v'' then
       ptr (map_option (\<lambda>(t, xs, b). (t, OStrVec (nonempty_vector xs), b))
              (scan_vector alloc (ber_get_stringa alloc) rc ber))
     else if c = CHR ''V'' then
       ptr (map_option (\<lambda>(t, xs, b). (t, OBvVec (nonempty_vector xs), b))
              (scan_vector alloc (ber_get_stringal alloc) rc ber))
     else if c = CHR ''x'' then
       map_option (\<lambda>(t, l, b). (t, ONone,
           if t = LBER_DEFAULT then b else b\<lparr>ber_ptr := ber_ptr b + unat l\<rparr>, args))
         (ber_skip_tag ber)
     else if c = CHR ''{'' \<or> c = CHR ''['' then
       (if fmt \<noteq> [] \<and> (hd fmt = CHR ''v'' \<or> hd fmt = CHR ''V'')
        then Some (rc, ONone, ber, args)
        else map_option (\<lambda>(t, l, b). (t, ONone, b, args)) (ber_skip_tag ber))
     else if c = CHR ''}'' \<or> c = CHR '']'' then Some (rc, ONone, ber, args)
     else Some (LBER_DEFAULT, ONone, ber, args))"

text \<open>
  The first loop: it stops after the conversion that fails.  The outputs are in order, with the
  conversions they belong to.
\<close>

fun scanf_loop :: "(u32 \<Rightarrow> bool) \<Rightarrow> string \<Rightarrow> scanf_arg list \<Rightarrow> u32 \<Rightarrow> berelement
    \<Rightarrow> (char \<times> scanf_arg list \<times> scanf_out) list
    \<Rightarrow> (u32 \<times> (char \<times> scanf_arg list \<times> scanf_out) list \<times> berelement) option" where
  "scanf_loop alloc [] args rc ber outs = Some (rc, outs, ber)"
| "scanf_loop alloc (c # fmt) args rc ber outs =
    (if rc = LBER_DEFAULT then Some (rc, outs, ber)
     else case scanf_conv alloc c fmt args rc ber of None \<Rightarrow> None
       | Some (rc', out, ber', args') \<Rightarrow>
          scanf_loop alloc fmt args' rc' ber' (outs @ [(c, args, out)]))"

text \<open>
  The second loop reclaims what the conversions up to the failing one allocated; an unknown
  conversion runs into its \<open>assert (0)\<close>.  What \<open>reclaim\<close> gives is what is still allocated: the
  elements of a vector are released from the first one to the first null pointer, and what is behind it
  is not.
\<close>

definition unreleased :: "'a option list \<Rightarrow> 'a option list option" where
  "unreleased xs = (let rest = dropWhile (\<lambda>x. x \<noteq> None) xs in if list_all (\<lambda>x. x = None) rest then None else Some rest)"

fun reclaim :: "scanf_out \<Rightarrow> scanf_out" where
  "reclaim (OStr s) = OStr None"
| "reclaim (OBval l s) = OBval 0 None"
| "reclaim (OBerval bv) = OBerval None"
| "reclaim (OBits s l) = OBits None 0"
| "reclaim (OStrVec v) = OStrVec (case v of None \<Rightarrow> None | Some xs \<Rightarrow> unreleased xs)"
| "reclaim (OBvVec v) = OBvVec (case v of None \<Rightarrow> None | Some xs \<Rightarrow> unreleased xs)"
| "reclaim out = out"

fun scanf_cleanup :: "(char \<times> scanf_arg list \<times> scanf_out) list \<Rightarrow> berelement
    \<Rightarrow> (scanf_out list \<times> berelement) option" where
  "scanf_cleanup [] ber = Some ([], ber)"
| "scanf_cleanup ((c, args, out) # outs) ber =
    (if c \<notin> set ''!abeislotTOBvVnx{[}]'' then None
     else case (if c = CHR ''!'' then
                  (case args of SHook f # _ \<Rightarrow> map_option snd (f ber True) | _ \<Rightarrow> None)
                else Some ber) of
        None \<Rightarrow> None
      | Some ber' \<Rightarrow> map_option (\<lambda>(rest, b). (reclaim out # rest, b)) (scanf_cleanup outs ber'))"

definition ber_scanf :: "(u32 \<Rightarrow> bool) \<Rightarrow> berelement \<Rightarrow> string \<Rightarrow> scanf_arg list
    \<Rightarrow> (u32 \<times> scanf_out list \<times> berelement) option" where
  "ber_scanf alloc ber fmt args =
    (case scanf_loop alloc fmt args 0 ber [] of None \<Rightarrow> None
     | Some (rc, outs, ber') \<Rightarrow>
        (if rc = LBER_DEFAULT
         then map_option (\<lambda>(os, b). (rc, os, b)) (scanf_cleanup outs ber')
         else Some (rc, map (snd \<circ> snd) outs, ber')))"

end
