(* ===== verification/Ber_Encode.thy ===== *)
theory Ber_Encode imports Ber_Element begin

text \<open>
  The encoders of libraries/liblber/encode.c.  Every encoder takes the allocator and the element and
  returns the code's return value with the new element; \<open>on_ok\<close> is the idiom
  \<open>if ((rc = f(ber)) == -1) return -1\<close>.
\<close>

definition on_ok :: "put_result \<Rightarrow> (int \<Rightarrow> berelement \<Rightarrow> put_result) \<Rightarrow> put_result" where
  "on_ok m k = (case m of None \<Rightarrow> None
    | Some (rc, ber) \<Rightarrow> if rc = -1 then Some (-1, ber) else k rc ber)"

section \<open>Tags and lengths\<close>

text \<open>
  The loop \<open>for (i = n; i > 0; i--) { mask = 0xff << (i * 8); if (stop) break; }\<close>.
\<close>

fun leading_octet :: "(u32 \<Rightarrow> bool) \<Rightarrow> nat \<Rightarrow> nat" where
  "leading_octet stop 0 = 0"
| "leading_octet stop (Suc i) =
    (if stop (push_bit (8 * Suc i) 0xff) then Suc i else leading_octet stop i)"

definition ber_calc_taglen :: "u32 \<Rightarrow> nat" where
  "ber_calc_taglen tag = leading_octet (\<lambda>mask. tag AND mask \<noteq> 0) 3 + 1"

definition ber_put_tag :: "allocator \<Rightarrow> berelement \<Rightarrow> u32 \<Rightarrow> bool \<Rightarrow> put_result" where
  "ber_put_tag alloc ber tag nosos = ber_write alloc ber (be_bytes (ber_calc_taglen tag) tag) nosos"

definition ber_calc_lenlen :: "u32 \<Rightarrow> nat" where
  "ber_calc_lenlen len =
    (if len \<le> 0x7F then 1 else if len \<le> 0xff then 2 else if len \<le> 0xffff then 3
     else if len \<le> 0xffffff then 4 else 5)"

definition ber_put_len :: "allocator \<Rightarrow> berelement \<Rightarrow> u32 \<Rightarrow> bool \<Rightarrow> put_result" where
  "ber_put_len alloc ber len nosos =
    (if len \<le> 127 then ber_write alloc ber [ucast len] nosos
     else let i = leading_octet (\<lambda>mask. len AND mask \<noteq> 0) 3 + 1 in
       if i > 4 then Some (-1, ber)
       else case ber_write alloc ber [of_nat i OR 0x80] nosos of
           None \<Rightarrow> None
         | Some (rc, ber1) \<Rightarrow>
            (if rc \<noteq> 1 then Some (-1, ber1)
             else map_option (\<lambda>(rc, ber2). (if rc = int i then int i + 1 else -1, ber2))
                    (ber_write alloc ber1 (be_bytes i len) nosos)))"

section \<open>Primitive values\<close>

definition ber_put_int_or_enum :: "allocator \<Rightarrow> berelement \<Rightarrow> u32 \<Rightarrow> u32 \<Rightarrow> put_result" where
  "ber_put_int_or_enum alloc ber num tag =
    (let sign = (sint num < 0);
         i = leading_octet (\<lambda>mask. if sign then num AND mask \<noteq> mask else num AND mask \<noteq> 0) 3;
         mask = num AND push_bit (8 * i) 0x80;
         len = (if mask \<noteq> 0 \<and> \<not> sign \<or> sign \<and> mask = 0 then i + 1 else i) + 1
     in on_ok (ber_put_tag alloc ber tag False) (\<lambda>taglen ber1.
        on_ok (ber_put_len alloc ber1 (of_nat len) False) (\<lambda>lenlen ber2.
        if len > 4 then None
        else map_option (\<lambda>(rc, ber3). (if rc = int len then taglen + lenlen + int len else -1, ber3))
               (ber_write alloc ber2 (be_bytes len num) False))))"

definition ber_put_enum :: "allocator \<Rightarrow> berelement \<Rightarrow> u32 \<Rightarrow> u32 \<Rightarrow> put_result" where
  "ber_put_enum alloc ber num tag =
    ber_put_int_or_enum alloc ber num (if tag = LBER_DEFAULT then LBER_ENUMERATED else tag)"

definition ber_put_int :: "allocator \<Rightarrow> berelement \<Rightarrow> u32 \<Rightarrow> u32 \<Rightarrow> put_result" where
  "ber_put_int alloc ber num tag =
    ber_put_int_or_enum alloc ber num (if tag = LBER_DEFAULT then LBER_INTEGER else tag)"

text \<open>
  The caller owns \<open>str\<close>: reading beyond it is undefined.  The sums are of unsigned lengths and are
  converted to the signed return type.
\<close>

definition ber_put_ostring :: "allocator \<Rightarrow> berelement \<Rightarrow> octets \<Rightarrow> u32 \<Rightarrow> u32 \<Rightarrow> put_result" where
  "ber_put_ostring alloc ber str len tag =
    (let tag = (if tag = LBER_DEFAULT then LBER_OCTETSTRING else tag) in
     on_ok (ber_put_tag alloc ber tag False) (\<lambda>taglen ber1.
     on_ok (ber_put_len alloc ber1 len False) (\<lambda>lenlen ber2.
     if unat len > length str then None
     else map_option (\<lambda>(rc, ber3). (if (of_int rc :: u32) \<noteq> len then -1
              else sint (of_int taglen + of_int lenlen + len :: u32), ber3))
            (ber_write alloc ber2 (take (unat len) str) False))))"

record berval =
  bv_len :: u32
  bv_val :: "octets option"

definition ber_put_berval :: "allocator \<Rightarrow> berelement \<Rightarrow> berval option \<Rightarrow> u32 \<Rightarrow> put_result" where
  "ber_put_berval alloc ber bv tag =
    (case bv of None \<Rightarrow> ber_put_ostring alloc ber [] 0 tag
     | Some v \<Rightarrow>
        (if bv_len v = 0 then ber_put_ostring alloc ber [] 0 tag
         else case bv_val v of None \<Rightarrow> None
           | Some s \<Rightarrow> ber_put_ostring alloc ber s (bv_len v) tag))"

definition ber_put_string :: "allocator \<Rightarrow> berelement \<Rightarrow> octets \<Rightarrow> u32 \<Rightarrow> put_result" where
  "ber_put_string alloc ber str tag = ber_put_ostring alloc ber str (of_nat (length str)) tag"

definition ber_put_bitstring :: "allocator \<Rightarrow> berelement \<Rightarrow> octets \<Rightarrow> u32 \<Rightarrow> u32 \<Rightarrow> put_result" where
  "ber_put_bitstring alloc ber str blen tag =
    (let tag = (if tag = LBER_DEFAULT then LBER_BITSTRING else tag) in
     on_ok (ber_put_tag alloc ber tag False) (\<lambda>taglen ber1.
     let len = (blen + 7) div 8; unusedbits = (ucast (len * 8 - blen) :: u8) in
     on_ok (ber_put_len alloc ber1 (len + 1) False) (\<lambda>lenlen ber2.
     case ber_write alloc ber2 [unusedbits] False of None \<Rightarrow> None
     | Some (rc, ber3) \<Rightarrow>
        (if rc \<noteq> 1 then Some (-1, ber3)
         else if unat len > length str then None
         else map_option (\<lambda>(rc, ber4). (if (of_int rc :: u32) \<noteq> len then -1
                  else sint (of_int taglen + 1 + of_int lenlen + len :: u32), ber4))
                (ber_write alloc ber3 (take (unat len) str) False)))))"

definition ber_put_null :: "allocator \<Rightarrow> berelement \<Rightarrow> u32 \<Rightarrow> put_result" where
  "ber_put_null alloc ber tag =
    (let tag = (if tag = LBER_DEFAULT then LBER_NULL else tag) in
     on_ok (ber_put_tag alloc ber tag False) (\<lambda>taglen ber1.
     map_option (\<lambda>(rc, ber2). (if rc \<noteq> 1 then -1 else taglen + 1, ber2))
       (ber_put_len alloc ber1 0 False)))"

definition ber_put_boolean :: "allocator \<Rightarrow> berelement \<Rightarrow> u32 \<Rightarrow> u32 \<Rightarrow> put_result" where
  "ber_put_boolean alloc ber boolval tag =
    (let tag = (if tag = LBER_DEFAULT then LBER_BOOLEAN else tag);
         trueval = (0xff :: u8); falseval = (0 :: u8) in
     on_ok (ber_put_tag alloc ber tag False) (\<lambda>taglen ber1.
     case ber_put_len alloc ber1 1 False of None \<Rightarrow> None
     | Some (rc, ber2) \<Rightarrow>
        (if rc \<noteq> 1 then Some (-1, ber2)
         else map_option (\<lambda>(rc, ber3). (if rc \<noteq> 1 then -1 else taglen + 2, ber3))
                (ber_write alloc ber2 [if boolval \<noteq> 0 then trueval else falseval] False))))"

section \<open>Sequences and sets\<close>

definition FOUR_BYTE_LEN :: nat where "FOUR_BYTE_LEN = 5"

text \<open>\<open>SEQORSET_SIZE\<close> is the size of the structure allocated for an open sequence.\<close>

definition SEQORSET_SIZE :: nat where "SEQORSET_SIZE = 24"

definition ber_start_seqorset :: "allocator \<Rightarrow> berelement \<Rightarrow> u32 \<Rightarrow> put_result" where
  "ber_start_seqorset alloc ber tag =
    (if alloc SEQORSET_SIZE = None then Some (-1, ber)
     else let first = (case ber_sos ber of [] \<Rightarrow> ber_ptr ber | sos # _ \<Rightarrow> sos_ptr sos);
              new = \<lparr>sos_clen = 0, sos_tag = tag, sos_first = first,
                     sos_ptr = first + ber_calc_taglen tag + FOUR_BYTE_LEN\<rparr>
          in Some (0, ber\<lparr>ber_sos := new # ber_sos ber\<rparr>))"

definition ber_start_seq :: "allocator \<Rightarrow> berelement \<Rightarrow> u32 \<Rightarrow> put_result" where
  "ber_start_seq alloc ber tag =
    ber_start_seqorset alloc ber (if tag = LBER_DEFAULT then LBER_SEQUENCE else tag)"

definition ber_start_set :: "allocator \<Rightarrow> berelement \<Rightarrow> u32 \<Rightarrow> put_result" where
  "ber_start_set alloc ber tag =
    ber_start_seqorset alloc ber (if tag = LBER_DEFAULT then LBER_SET else tag)"

text \<open>Moving octets within the block of an element; source and target may overlap.\<close>

definition ber_move :: "nat \<Rightarrow> nat \<Rightarrow> nat \<Rightarrow> berelement \<Rightarrow> berelement option" where
  "ber_move dst src n ber =
    (if src + n \<le> length (ber_block ber) \<or> n = 0
     then ber_store dst (take n (drop src (ber_block ber))) ber else None)"

definition ber_use_der :: "berelement \<Rightarrow> bool" where
  "ber_use_der ber \<longleftrightarrow> ber_options ber AND LBER_USE_DER \<noteq> 0"

text \<open>
  Closing the outermost sequence: the tag and the length are written at \<open>ber_ptr\<close>, in front of the
  contents already in the buffer, which move down when the length takes less than five octets.
\<close>

definition put_toplevel :: "allocator \<Rightarrow> berelement \<Rightarrow> seqorset \<Rightarrow> nat \<Rightarrow> put_result" where
  "put_toplevel alloc ber sos lenlen =
    (let len = sos_clen sos in
     on_ok (ber_put_tag alloc ber (sos_tag sos) True) (\<lambda>taglen ber1.
     on_ok (if ber_use_der ber then
              on_ok (ber_put_len alloc ber1 len True) (\<lambda>_ ber2.
                if lenlen \<noteq> FOUR_BYTE_LEN
                then map_option (\<lambda>b. (0, b))
                       (ber_move (sos_first sos + nat taglen + lenlen)
                         (sos_first sos + nat taglen + FOUR_BYTE_LEN) (unat len) ber2)
                else Some (0, ber2))
            else
              (case ber_write alloc ber1 [0x80 + of_nat (FOUR_BYTE_LEN - 1)] True of None \<Rightarrow> None
               | Some (rc, ber2) \<Rightarrow>
                  (if rc \<noteq> 1 then Some (-1, ber2)
                   else map_option (\<lambda>(rc, ber3). (if rc \<noteq> int (FOUR_BYTE_LEN - 1) then -1 else 0, ber3))
                          (ber_write alloc ber2 (be_bytes (FOUR_BYTE_LEN - 1) len) True))))
       (\<lambda>_ ber4. Some (sint (of_int taglen + of_nat lenlen + len :: u32),
          ber4\<lparr>ber_ptr := ber_ptr ber4 + unat len, ber_sos := []\<rparr>))))"

text \<open>
  Closing an inner sequence: its header is stored in the room set aside, with the first octet of the
  length always at \<open>sos_first[1]\<close>, and the enclosing sequence \<open>next\<close> grows.
\<close>

definition put_nested :: "allocator \<Rightarrow> berelement \<Rightarrow> seqorset \<Rightarrow> seqorset \<Rightarrow> seqorset list \<Rightarrow> nat
    \<Rightarrow> put_result" where
  "put_nested alloc ber sos nxt rest lenlen =
    (let len = sos_clen sos; first = sos_first sos in
     case (if sos_ptr sos > ber_end ber
           then ber_realloc alloc ber (of_nat (sos_ptr sos - ber_end ber)) else Some (0, ber)) of
       None \<Rightarrow> None
     | Some (rc, ber1) \<Rightarrow>
        (if rc \<noteq> 0 then Some (-1, ber1)
         else let taglen = ber_calc_taglen (sos_tag sos);
                  ltag = (if ber_use_der ber
                          then (if lenlen = 1 then ucast len else 0x80 + of_nat (lenlen - 1))
                          else (0x80 + of_nat (FOUR_BYTE_LEN - 1) :: u8));
                  size = of_nat taglen + of_nat lenlen + len
           in case Option.bind (ber_store first (be_bytes taglen (sos_tag sos)) ber1) (\<lambda>ber2.
                Option.bind (ber_store (first + 1) [ltag] ber2) (\<lambda>ber3.
                if ber_use_der ber then
                  Option.bind (if lenlen > 1 then ber_store (first + 2) (be_bytes (lenlen - 1) len) ber3
                               else Some ber3) (\<lambda>ber4.
                  if lenlen \<noteq> FOUR_BYTE_LEN
                  then ber_move (first + taglen + lenlen) (first + taglen + FOUR_BYTE_LEN)
                         (unat len) ber4
                  else Some ber4)
                else ber_store (first + taglen + 1) (be_bytes (FOUR_BYTE_LEN - 1) len) ber3)) of
                None \<Rightarrow> None
              | Some ber5 \<Rightarrow>
                 Some (sint size, ber5\<lparr>ber_sos :=
                   nxt\<lparr>sos_clen := sos_clen nxt + size, sos_ptr := sos_ptr nxt + unat size\<rparr> # rest\<rparr>)))"

definition ber_put_seqorset :: "allocator \<Rightarrow> berelement \<Rightarrow> put_result" where
  "ber_put_seqorset alloc ber =
    (case ber_sos ber of
       [] \<Rightarrow> None
     | sos # outer \<Rightarrow>
        (let lenlen = (if ber_use_der ber then ber_calc_lenlen (sos_clen sos) else FOUR_BYTE_LEN) in
         case outer of
           [] \<Rightarrow> put_toplevel alloc ber sos lenlen
         | nxt # rest \<Rightarrow> put_nested alloc ber sos nxt rest lenlen))"

definition ber_put_seq :: "allocator \<Rightarrow> berelement \<Rightarrow> put_result" where
  "ber_put_seq alloc ber = ber_put_seqorset alloc ber"

definition ber_put_set :: "allocator \<Rightarrow> berelement \<Rightarrow> put_result" where
  "ber_put_set alloc ber = ber_put_seqorset alloc ber"

section \<open>Formatted encoding\<close>

text \<open>
  The variable arguments of \<open>ber_printf\<close> are a list; taking one of the wrong kind, or more than
  there are, is undefined.  A hook is the function its two arguments stand for.
\<close>

datatype printf_arg =
    PInt u32
  | PLen u32
  | PTag u32
  | PStr octets
  | PBerval "berval option"
  | PStrVec "octets list option"
  | PBvVec "berval list option"
  | PHook "berelement \<Rightarrow> put_result"

fun put_vector :: "(berelement \<Rightarrow> 'a \<Rightarrow> put_result) \<Rightarrow> 'a list \<Rightarrow> int \<Rightarrow> berelement \<Rightarrow> put_result" where
  "put_vector put [] rc ber = Some (rc, ber)"
| "put_vector put (x # xs) rc ber =
    (case put ber x of None \<Rightarrow> None
     | Some (rc', ber') \<Rightarrow> if rc' = -1 then Some (-1, ber') else put_vector put xs rc' ber')"

text \<open>\<open>lber_int_null\<close> is a static variable no statement assigns.\<close>

definition lber_int_null :: u32 where "lber_int_null = 0"

definition printf_conv :: "allocator \<Rightarrow> char \<Rightarrow> printf_arg list \<Rightarrow> int \<Rightarrow> berelement
    \<Rightarrow> (int \<times> berelement \<times> printf_arg list) option" where
  "printf_conv alloc c args rc ber =
    (let done = (\<lambda>m rest. map_option (\<lambda>(rc', ber'). (rc', ber', rest)) m); tag = ber_tag ber in
     if c = CHR ''!'' then
       (case args of PHook f # rest \<Rightarrow> done (f ber) rest | _ \<Rightarrow> None)
     else if c = CHR ''b'' then
       (case args of PInt i # rest \<Rightarrow> done (ber_put_boolean alloc ber i tag) rest | _ \<Rightarrow> None)
     else if c = CHR ''i'' then
       (case args of PInt i # rest \<Rightarrow> done (ber_put_int alloc ber i tag) rest | _ \<Rightarrow> None)
     else if c = CHR ''e'' then
       (case args of PInt i # rest \<Rightarrow> done (ber_put_enum alloc ber i tag) rest | _ \<Rightarrow> None)
     else if c = CHR ''n'' then done (ber_put_null alloc ber tag) args
     else if c = CHR ''N'' then
       (if lber_int_null \<noteq> 0 then done (ber_put_null alloc ber lber_int_null) args
        else Some (0, ber, args))
     else if c = CHR ''o'' then
       (case args of PStr s # PLen len # rest \<Rightarrow> done (ber_put_ostring alloc ber s len tag) rest
        | _ \<Rightarrow> None)
     else if c = CHR ''O'' then
       (case args of PBerval bv # rest \<Rightarrow>
          (if bv = None then Some (rc, ber, rest) else done (ber_put_berval alloc ber bv tag) rest)
        | _ \<Rightarrow> None)
     else if c = CHR ''s'' then
       (case args of PStr s # rest \<Rightarrow> done (ber_put_string alloc ber s tag) rest | _ \<Rightarrow> None)
     else if c = CHR ''B'' \<or> c = CHR ''X'' then
       (case args of PStr s # PInt len # rest \<Rightarrow> done (ber_put_bitstring alloc ber s len tag) rest
        | _ \<Rightarrow> None)
     else if c = CHR ''t'' then
       (case args of PTag t # rest \<Rightarrow> Some (rc, ber\<lparr>ber_tag := t, ber_usertag := 1\<rparr>, rest)
        | _ \<Rightarrow> None)
     else if c = CHR ''v'' then
       (case args of PStrVec ss # rest \<Rightarrow>
          (case ss of None \<Rightarrow> Some (rc, ber, rest)
           | Some v \<Rightarrow> done (put_vector (\<lambda>b s. ber_put_string alloc b s tag) v rc ber) rest)
        | _ \<Rightarrow> None)
     else if c = CHR ''V'' then
       (case args of PBvVec bvs # rest \<Rightarrow>
          (case bvs of None \<Rightarrow> Some (rc, ber, rest)
           | Some v \<Rightarrow> done (put_vector (\<lambda>b x. ber_put_berval alloc b (Some x) tag) v rc ber) rest)
        | _ \<Rightarrow> None)
     else if c = CHR ''{'' then done (ber_start_seq alloc ber tag) args
     else if c = CHR ''}'' then done (ber_put_seqorset alloc ber) args
     else if c = CHR ''['' then done (ber_start_set alloc ber tag) args
     else if c = CHR '']'' then done (ber_put_seqorset alloc ber) args
     else Some (-1, ber, args))"

fun printf_loop :: "allocator \<Rightarrow> string \<Rightarrow> printf_arg list \<Rightarrow> int \<Rightarrow> berelement \<Rightarrow> put_result" where
  "printf_loop alloc [] args rc ber = Some (rc, ber)"
| "printf_loop alloc (c # fmt) args rc ber =
    (if rc = -1 then Some (rc, ber)
     else case printf_conv alloc c args rc ber of None \<Rightarrow> None
       | Some (rc', ber', args') \<Rightarrow>
          printf_loop alloc fmt args' rc'
            (if ber_usertag ber' = 0 then ber'\<lparr>ber_tag := LBER_DEFAULT\<rparr>
             else ber'\<lparr>ber_usertag := 0\<rparr>))"

definition ber_printf :: "allocator \<Rightarrow> berelement \<Rightarrow> string \<Rightarrow> printf_arg list \<Rightarrow> put_result" where
  "ber_printf alloc ber fmt args = printf_loop alloc fmt args 0 ber"

end
