(* ===== verification/Ber_Reading.thy ===== *)
theory Ber_Reading imports Ber_Decode Ber_Encode begin

text \<open>
  Reading facts: what a decoder does depends only on the octets between \<open>ber_ptr\<close> and \<open>ber_end\<close>
  (\<open>unread\<close>), and moves \<open>ber_ptr\<close> within them (\<open>advance\<close>).  Below are the wire formats of tags and
  lengths, and the round trip of the header every value starts with.
\<close>

section \<open>Unread octets\<close>

definition readable :: "berelement \<Rightarrow> bool" where
  "readable ber \<longleftrightarrow> ber_ptr ber \<le> ber_end ber \<and> ber_end ber \<le> length (ber_block ber)
    \<and> ber_end ber < 2 ^ 32"

definition unread :: "berelement \<Rightarrow> octets" where
  "unread ber = take (ber_end ber - ber_ptr ber) (drop (ber_ptr ber) (ber_block ber))"

definition advance :: "nat \<Rightarrow> berelement \<Rightarrow> berelement" where
  "advance n ber = ber\<lparr>ber_ptr := ber_ptr ber + n\<rparr>"

lemma advance_simps [simp]:
  "ber_block (advance n b) = ber_block b" "ber_end (advance n b) = ber_end b"
  "ber_ptr (advance n b) = ber_ptr b + n" "advance 0 b = b"
  by (simp_all add: advance_def ber_block_def)

lemma advance_advance: "advance m (advance n b) = advance (n + m) b"
  by (simp add: advance_def add.assoc)

lemma length_unread: "readable b \<Longrightarrow> length (unread b) = ber_end b - ber_ptr b"
  by (auto simp: readable_def unread_def)

lemma length_unread_less: "readable b \<Longrightarrow> length (unread b) < 2 ^ 32"
  by (auto simp: length_unread) (auto simp: readable_def)

lemma readable_advance [simp]: "readable b \<Longrightarrow> n \<le> length (unread b) \<Longrightarrow> readable (advance n b)"
  by (auto simp: length_unread) (auto simp: readable_def)

lemma unread_advance [simp]: "n \<le> length (unread b) \<Longrightarrow> unread (advance n b) = drop n (unread b)"
  by (simp add: unread_def drop_take add.commute)

lemma unat_of_nat_u32 [simp]: "n < 2 ^ 32 \<Longrightarrow> unat (of_nat n :: u32) = n"
  by (simp add: unat_of_nat take_bit_nat_eq_self)

lemma ber_pvt_ber_remaining_eq:
  assumes "readable b"
  shows "ber_pvt_ber_remaining b = of_nat (length (unread b))"
  using assms by (simp add: ber_pvt_ber_remaining_def length_unread readable_def)

lemma ber_read_eq:
  assumes "readable b"
  shows "ber_read b n = Some (take (unat n) (unread b), advance (min (unat n) (length (unread b))) b)"
proof -
  let ?l = "length (unread b)"
  have l: "unat (of_nat ?l :: u32) = ?l" using length_unread_less [OF assms] by simp
  have m: "unat (if of_nat ?l < n then of_nat ?l else n) = min (unat n) ?l"
    using l by (auto simp: word_less_nat_alt)
  have t: "take (min (unat n) ?l) (drop (ber_ptr b) (ber_block b)) = take (unat n) (unread b)"
    using length_unread [OF assms] by (simp add: unread_def min.commute)
  have "ber_ptr b + min (unat n) ?l \<le> length (ber_block b)"
    using assms length_unread [OF assms] by (auto simp: readable_def)
  then show ?thesis
    using m t by (simp add: ber_read_def ber_pvt_ber_remaining_eq [OF assms] advance_def Let_def)
qed

lemma ber_read_enough:
  "readable b \<Longrightarrow> unread b = xs @ ys \<Longrightarrow> unat n = length xs \<Longrightarrow> ber_read b n = Some (xs, advance (length xs) b)"
  by (simp add: ber_read_eq)

section \<open>Octets of a word\<close>

lemma be_bytes_numeral [simp]:
  "be_bytes (numeral k) w = be_bytes (pred_numeral k) (drop_bit 8 w) @ [ucast w]"
  by (simp add: numeral_eq_Suc)

lemma leading_octet_numeral:
  "leading_octet stop (numeral k) =
    (if stop (push_bit (8 * numeral k) 0xff) then numeral k else leading_octet stop (pred_numeral k))"
  by (simp add: numeral_eq_Suc)

lemma octet_and_zero: "(w AND push_bit (8 * i) 0xff = 0) = (take_bit 8 (drop_bit (8 * i) w) = 0)"
  for w :: u32
proof -
  have ff: "(0xff :: u32) = mask 8" by (simp add: mask_eq_exp_minus_1)
  have "w AND push_bit (8 * i) (mask 8) = push_bit (8 * i) (take_bit 8 (drop_bit (8 * i) w))"
    by (rule bit_word_eqI) (auto simp: bit_simps)
  moreover have "drop_bit (8 * i) (push_bit (8 * i) (take_bit 8 (drop_bit (8 * i) w)))
      = take_bit 8 (drop_bit (8 * i) w)"
    by (rule bit_word_eqI) (auto simp: bit_simps dest: bit_imp_le_length)
  ultimately show ?thesis unfolding ff by (metis push_bit_of_0 drop_bit_of_0)
qed

lemma drop_octets_zero:
  "(drop_bit (8 * i) w = 0) = (take_bit 8 (drop_bit (8 * i) w) = 0 \<and> drop_bit (8 * Suc i) w = 0)"
  for w :: u32
proof -
  have "drop_bit (8 * i) w = take_bit 8 (drop_bit (8 * i) w) + push_bit 8 (drop_bit 8 (drop_bit (8 * i) w))"
    by (metis bits_ident add.commute)
  moreover have "drop_bit 8 (drop_bit (8 * i) w) = drop_bit (8 * Suc i) w"
    by (simp add: add.commute)
  ultimately show ?thesis by (metis push_bit_of_0 add_0 drop_bit_of_0 take_bit_of_0)
qed

lemma leading_octet_le: "leading_octet stop n \<le> n"
  by (induction n) auto

lemma leading_octet_zero:
  "drop_bit (8 * Suc n) w = 0 \<Longrightarrow>
    drop_bit (8 * Suc (leading_octet (\<lambda>mask. w AND mask \<noteq> 0) n)) w = 0" for w :: u32
proof (induction n)
  case (Suc n)
  then show ?case
    using octet_and_zero [of w "Suc n"] drop_octets_zero [of "Suc n" w] by auto
qed simp

lemma drop_bit_32 [simp]: "drop_bit 32 (w :: u32) = 0"
  by (rule bit_word_eqI) (simp add: bit_simps)

lemma leading_octet_3_zero:
  "drop_bit (8 * Suc (leading_octet (\<lambda>mask. w AND mask \<noteq> 0) 3)) w = 0" for w :: u32
  by (rule leading_octet_zero) simp

lemma shift_in_alt: "push_bit 8 tag OR (0x00ff AND ucast x) = shift_in tag x"
proof -
  have ff: "(0x00ff :: u32) = mask 8" by (simp add: mask_eq_exp_minus_1)
  have "0x00ff AND ucast x = (ucast x :: u32)"
    unfolding ff by (intro bit_word_eqI) (auto simp: bit_simps dest: bit_imp_le_length)
  then show ?thesis by (simp add: shift_in_def)
qed

section \<open>Wire format of tags and lengths\<close>

definition tag_octets :: "u32 \<Rightarrow> octets" where
  "tag_octets tag = be_bytes (ber_calc_taglen tag) tag"

definition len_octets :: "u32 \<Rightarrow> octets" where
  "len_octets len =
    (if len \<le> 127 then [ucast len]
     else let i = leading_octet (\<lambda>mask. len AND mask \<noteq> 0) 3 + 1 in (of_nat i OR 0x80) # be_bytes i len)"

definition more_octets :: "u8 \<Rightarrow> bool" where
  "more_octets b \<longleftrightarrow> (ucast b :: u32) AND LBER_MORE_TAG_MASK \<noteq> 0"

definition big_tag :: "u8 \<Rightarrow> bool" where
  "big_tag b \<longleftrightarrow> (ucast b :: u32) AND LBER_BIG_TAG_MASK = LBER_BIG_TAG_MASK"

text \<open>A tag value the decoder can return: its octets are a complete tag.\<close>

fun complete_tag :: "octets \<Rightarrow> bool" where
  "complete_tag [] = False"
| "complete_tag [b] = (\<not> big_tag b)"
| "complete_tag (b # bs) = (big_tag b \<and> (\<forall>x\<in>set (butlast bs). more_octets x) \<and> \<not> more_octets (List.last bs))"

definition valid_tag :: "u32 \<Rightarrow> bool" where
  "valid_tag tag \<longleftrightarrow> complete_tag (tag_octets tag)"

lemma taglen_bounds: "1 \<le> ber_calc_taglen tag" "ber_calc_taglen tag \<le> 4"
  using leading_octet_le [of "\<lambda>mask. tag AND mask \<noteq> 0" 3] by (auto simp: ber_calc_taglen_def)

lemma of_be_tag_octets: "of_be (tag_octets tag) = tag"
  by (simp only: tag_octets_def ber_calc_taglen_def Suc_eq_plus1 [symmetric]
      of_be_be_bytes_id [OF leading_octet_3_zero])

lemma length_tag_octets: "1 \<le> length (tag_octets tag)" "length (tag_octets tag) \<le> 4"
  using taglen_bounds by (simp_all add: tag_octets_def)

declare get_tag_more.simps [simp del]

lemma get_tag_more_eq:
  assumes "readable b" "unread b = bs @ rest" "bs \<noteq> []" "i + length bs \<le> 4"
    and "\<forall>x\<in>set (butlast bs). more_octets x" "\<not> more_octets (List.last bs)"
  shows "get_tag_more b i tag = Some (of_be_from tag bs, advance (length bs) b)"
  using assms
proof (induction bs arbitrary: b i tag)
  case (Cons x xs)
  have r: "ber_read b 1 = Some ([x], advance 1 b)"
    using ber_read_enough [OF Cons.prems(1), of "[x]" "xs @ rest" 1] Cons.prems(2) by simp
  have i: "\<not> i \<ge> 4" using Cons.prems(4) by simp
  show ?case
  proof (cases xs)
    case Nil
    then show ?thesis
      using r i Cons.prems by (simp add: get_tag_more.simps shift_in_alt more_octets_def)
  next
    case (Cons y ys)
    have "get_tag_more (advance 1 b) (Suc i) (shift_in tag x)
        = Some (of_be_from (shift_in tag x) xs, advance (length xs) (advance 1 b))"
      by (rule Cons.IH) (use Cons.prems \<open>xs = y # ys\<close> in auto)
    then show ?thesis
      using r i Cons.prems Cons by (simp add: get_tag_more.simps [of b] shift_in_alt more_octets_def advance_advance)
  qed
qed simp

lemma ber_get_tag_eq:
  assumes "readable b" "unread b = bs @ rest" "complete_tag bs" "length bs \<le> 4"
  shows "ber_get_tag b = Some (of_be bs, advance (length bs) b)"
proof (cases bs)
  case Nil
  with assms(3) show ?thesis by simp
next
  case (Cons x xs)
  have r: "ber_read b 1 = Some ([x], advance 1 b)"
    using ber_read_enough [OF assms(1), of "[x]" "xs @ rest" 1] assms(2) Cons by simp
  have x0: "shift_in 0 x = ucast x" by (simp add: shift_in_def)
  show ?thesis
  proof (cases xs)
    case Nil
    then show ?thesis
      using assms(3) Cons r x0 by (simp add: ber_get_tag_def big_tag_def)
  next
    case (Cons y ys)
    then have c: "big_tag x" "\<forall>z\<in>set (butlast xs). more_octets z" "\<not> more_octets (List.last xs)"
      using assms(3) \<open>bs = x # xs\<close> by auto
    have "get_tag_more (advance 1 b) 1 (ucast x) = Some (of_be_from (ucast x) xs, advance (length xs) (advance 1 b))"
      by (rule get_tag_more_eq) (use assms \<open>bs = x # xs\<close> c Cons in auto)
    then show ?thesis
      using c(1) \<open>bs = x # xs\<close> r x0 by (simp add: ber_get_tag_def big_tag_def advance_advance)
  qed
qed

lemma valid_tag_not_default: "valid_tag tag \<Longrightarrow> tag \<noteq> LBER_DEFAULT"
proof
  assume v: "valid_tag tag" and "tag = LBER_DEFAULT"
  then have "tag_octets tag = [0xff, 0xff, 0xff, 0xff]"
    by (simp add: LBER_DEFAULT_def tag_octets_def ber_calc_taglen_def leading_octet_numeral)
  with v show False by (simp add: valid_tag_def more_octets_def LBER_MORE_TAG_MASK_def)
qed

lemma len_octets_long:
  assumes "\<not> len \<le> 127"
  obtains i where "len_octets len = (of_nat i OR 0x80) # be_bytes i len" "1 \<le> i" "i \<le> 4"
    "of_be (be_bytes i len) = len"
proof -
  let ?i = "Suc (leading_octet (\<lambda>mask. len AND mask \<noteq> 0) 3)"
  have "len_octets len = (of_nat ?i OR 0x80) # be_bytes ?i len"
    using assms by (simp add: len_octets_def Let_def)
  moreover have "?i \<le> 4"
    using leading_octet_le [of "\<lambda>mask. len AND mask \<noteq> 0" 3] by simp
  ultimately show ?thesis
    using that [of ?i] of_be_be_bytes_id [OF leading_octet_3_zero [of len]] by simp
qed

lemma lenlen_octet:
  assumes "1 \<le> i" "i \<le> 4"
  shows "((of_nat i OR 0x80) :: u8) AND 0x80 \<noteq> 0"
    and "(ucast (((of_nat i OR 0x80) :: u8) AND 0x7f) :: u32) = of_nat i"
proof -
  from assms have "i = 1 \<or> i = 2 \<or> i = 3 \<or> i = 4" by auto
  then show "((of_nat i OR 0x80) :: u8) AND 0x80 \<noteq> 0"
    and "(ucast (((of_nat i OR 0x80) :: u8) AND 0x7f) :: u32) = of_nat i"
    by (elim disjE; simp)+
qed

lemma skip_tag_checked_ok:
  assumes "readable b" "unread b = contents @ rest" "length contents = unat len"
  shows "skip_tag_checked tag len b = Some (tag, len, b)"
proof -
  let ?n = "length (unread b)"
  have "unat (of_nat ?n :: u32) = ?n" using length_unread_less [OF assms(1)] by (rule unat_of_nat_u32)
  moreover have "unat len \<le> ?n" using assms(2,3) by simp
  ultimately have "\<not> len > of_nat ?n" by (simp only: word_less_nat_alt not_less)
  then show ?thesis
    by (simp only: skip_tag_checked_def ber_pvt_ber_remaining_eq [OF assms(1)] if_False)
qed

lemma get_tag_valid:
  assumes "readable b" "unread b = tag_octets tag @ rest" "valid_tag tag"
  shows "ber_get_tag b = Some (tag, advance (length (tag_octets tag)) b)"
  using ber_get_tag_eq [OF assms(1,2)] assms(3) length_tag_octets(2) [of tag]
  by (simp add: valid_tag_def of_be_tag_octets)

text \<open>The long form of a length, with any sufficient number of octets.\<close>

lemma ber_skip_tag_long:
  assumes "readable b" "unread b = tag_octets tag @ ((of_nat i OR 0x80) # be_bytes i len) @ contents @ rest"
    and "valid_tag tag" "length contents = unat len" "1 \<le> i" "i \<le> 4" "of_be (be_bytes i len) = len"
  shows "ber_skip_tag b = Some (tag, len, advance (length (tag_octets tag) + Suc i) b)"
proof -
  let ?b1 = "advance (length (tag_octets tag)) b"
  have t: "ber_get_tag b = Some (tag, ?b1)" by (rule get_tag_valid [OF assms(1,2,3)])
  have b1: "readable ?b1" "unread ?b1 = ((of_nat i OR 0x80) # be_bytes i len) @ contents @ rest"
    using assms(1,2) by simp_all
  let ?lc = "(of_nat i OR 0x80) :: u8" and ?b2 = "advance 1 ?b1"
  have r: "ber_read ?b1 1 = Some ([?lc], ?b2)"
    using ber_read_enough [OF b1(1), of "[?lc]" "be_bytes i len @ contents @ rest" 1] b1(2) by simp
  have b2: "readable ?b2" "unread ?b2 = be_bytes i len @ contents @ rest"
    using b1 by simp_all
  have n: "unat (of_nat i :: u32) = i" "\<not> (of_nat i :: u32) > 4"
    using assms(5,6) by (simp_all add: word_less_nat_alt)
  have r2: "ber_read ?b2 (of_nat i) = Some (be_bytes i len, advance i ?b2)"
    using ber_read_enough [OF b2, of "of_nat i"] n by simp
  have c: "skip_tag_checked tag len (advance i ?b2) = Some (tag, len, advance i ?b2)"
    by (rule skip_tag_checked_ok [of _ contents rest]) (use b2 assms(4) in auto)
  show ?thesis
    using t valid_tag_not_default [OF assms(3)] r r2 c assms(7) n lenlen_octet [OF assms(5,6)]
    by (simp add: ber_skip_tag_def Let_def advance_advance)
qed

lemma ber_skip_tag_eq:
  assumes "readable b" "unread b = tag_octets tag @ len_octets len @ contents @ rest"
    and "valid_tag tag" "length contents = unat len"
  shows "ber_skip_tag b = Some (tag, len, advance (length (tag_octets tag @ len_octets len)) b)"
proof (cases "len \<le> 127")
  case True
  let ?b1 = "advance (length (tag_octets tag)) b"
  have t: "ber_get_tag b = Some (tag, ?b1)" by (rule get_tag_valid [OF assms(1,2,3)])
  have l: "len_octets len = [ucast len]" using True by (simp add: len_octets_def)
  have b1: "readable ?b1" "unread ?b1 = [ucast len] @ contents @ rest"
    using assms(1,2) l by simp_all
  have r: "ber_read ?b1 1 = Some ([ucast len], advance 1 ?b1)"
    using ber_read_enough [OF b1, of 1] by simp
  have c: "skip_tag_checked tag len (advance 1 ?b1) = Some (tag, len, advance 1 ?b1)"
    by (rule skip_tag_checked_ok [of _ contents rest]) (use b1 l assms(4) in auto)
  show ?thesis
    using t valid_tag_not_default [OF assms(3)] r c l short_len_octet [OF True]
    by (simp add: ber_skip_tag_def advance_advance)
next
  case False
  then obtain i where i: "len_octets len = (of_nat i OR 0x80) # be_bytes i len" "1 \<le> i"
      "i \<le> 4" "of_be (be_bytes i len) = len"
    by (rule len_octets_long)
  show ?thesis
    using ber_skip_tag_long [of b tag i len contents rest] assms i by simp
qed

end
