(* ===== verification/Ber_Values.thy ===== *)
theory Ber_Values imports Ber_Reading begin

text \<open>
  The wire format of the primitive values, and what the decoders do when they stand in front of one.
\<close>

section \<open>Integers\<close>

definition int_len :: "u32 \<Rightarrow> nat" where
  "int_len num =
    (let sign = (sint num < 0);
         i = leading_octet (\<lambda>mask. if sign then num AND mask \<noteq> mask else num AND mask \<noteq> 0) 3;
         mask = num AND push_bit (8 * i) 0x80
     in (if mask \<noteq> 0 \<and> \<not> sign \<or> sign \<and> mask = 0 then i + 1 else i) + 1)"

definition int_octets :: "u32 \<Rightarrow> octets" where
  "int_octets num = be_bytes (int_len num) num"

text \<open>The bits that differ from the sign bit.\<close>

definition magnitude :: "u32 \<Rightarrow> u32" where
  "magnitude num = (if bit num 31 then NOT num else num)"

lemma sint_neg_iff: "(sint num < 0) = bit num 31" for num :: u32
  using bit_last_iff [of num] by simp

lemma magnitude_bit: "k < 32 \<Longrightarrow> bit (magnitude num) k = (bit num k \<noteq> bit num 31)"
  by (auto simp: magnitude_def bit_not_iff)

lemma not_and_eq: "(num AND m \<noteq> m) = (NOT num AND m \<noteq> 0)" for num :: u32
  by (auto simp: bit_eq_iff bit_simps)

lemma leading_octet_stops:
  "0 < leading_octet stop n \<Longrightarrow> stop (push_bit (8 * leading_octet stop n) 0xff)"
  by (induction n) (auto split: if_splits)

definition lead :: "u32 \<Rightarrow> nat" where
  "lead num = leading_octet (\<lambda>mask. magnitude num AND mask \<noteq> 0) 3"

lemma lead_le: "lead num \<le> 3"
  unfolding lead_def by (rule leading_octet_le)

lemma mask_bit: "(num AND push_bit (8 * i) 0x80 \<noteq> 0) = bit num (8 * i + 7)" for num :: u32
proof -
  have a: "(0x80 :: u32) = push_bit 7 1" by simp
  have "push_bit (8 * i) (0x80 :: u32) = push_bit (8 * i + 7) 1"
    by (simp only: a push_bit_push_bit)
  then show ?thesis by (metis and_exp_eq_0_iff_not_bit push_bit_of_1)
qed

lemma int_len_eq:
  "int_len num = (if bit (magnitude num) (8 * lead num + 7) then lead num + 2 else lead num + 1)"
proof -
  have l: "leading_octet (\<lambda>m. if bit num 31 then num AND m \<noteq> m else num AND m \<noteq> 0) 3 = lead num"
    unfolding lead_def magnitude_def not_and_eq by (cases "bit num 31") (simp_all only: if_True if_False)
  have "8 * lead num + 7 < 32" using lead_le [of num] by simp
  then have b: "bit (magnitude num) (8 * lead num + 7) = (bit num (8 * lead num + 7) \<noteq> bit num 31)"
    by (rule magnitude_bit)
  show ?thesis
    unfolding int_len_def Let_def sint_neg_iff l b
    using mask_bit [of num "lead num"]
    by auto
qed

lemma lead_zero: "drop_bit (8 * Suc (lead num)) (magnitude num) = 0"
  unfolding lead_def by (rule leading_octet_3_zero)

lemma drop_zero_bits: "drop_bit n w = 0 \<Longrightarrow> n \<le> k \<Longrightarrow> \<not> bit w k"
  by (metis bit_0_eq bit_drop_bit_eq bot_apply bot_bool_def comp_apply le_add_diff_inverse)

text \<open>The octets chosen hold every bit that differs from the sign, and the sign itself.\<close>

lemma int_len_bits: "8 * int_len num - 1 \<le> k \<Longrightarrow> \<not> bit (magnitude num) k"
proof (cases "bit (magnitude num) (8 * lead num + 7)")
  case False
  then show "\<not> bit (magnitude num) k" if "8 * int_len num - 1 \<le> k"
  proof (cases "k = 8 * lead num + 7")
    case False
    with that \<open>\<not> bit (magnitude num) (8 * lead num + 7)\<close> show ?thesis
      by (intro drop_zero_bits [OF lead_zero]) (simp add: int_len_eq)
  qed simp
qed (auto simp: int_len_eq intro!: drop_zero_bits [OF lead_zero])

lemma int_len_bounds: "1 \<le> int_len num" "int_len num \<le> 4"
proof -
  have "\<not> bit (magnitude num) 31" by (simp add: magnitude_bit)
  then have "lead num = 3 \<Longrightarrow> \<not> bit (magnitude num) (8 * lead num + 7)" by simp
  then show "1 \<le> int_len num" "int_len num \<le> 4"
    using lead_le [of num] by (cases "lead num = 3"; simp add: int_len_eq)+
qed

lemma of_be_from_be_bytes:
  "of_be_from acc (be_bytes n w) = push_bit (8 * n) acc OR take_bit (8 * n) w"
proof (induction n arbitrary: w)
  case (Suc n)
  have "shift_in (push_bit (8 * n) acc OR take_bit (8 * n) (drop_bit 8 w)) (ucast w)
      = push_bit (8 * Suc n) acc OR take_bit (8 * Suc n) w"
    by (rule bit_word_eqI) (auto simp: shift_in_def bit_simps)
  with Suc show ?case by simp
qed simp

lemma hd_be_bytes: "0 < n \<Longrightarrow> hd (be_bytes n w) = ucast (drop_bit (8 * (n - 1)) w)"
proof (induction n arbitrary: w)
  case (Suc n)
  show ?case
  proof (cases "n = 0")
    case False
    then have "be_bytes n (drop_bit 8 w) \<noteq> []" by (metis length_be_bytes list.size(3))
    moreover have "8 * (n - 1) + 8 = 8 * n" using False by (cases n) auto
    ultimately show ?thesis
      using Suc.IH [of "drop_bit 8 w"] False by simp
  qed simp
qed simp

lemma sign_octet: "(0x80 AND b \<noteq> 0) = bit b 7" for b :: u8
proof -
  have a: "(0x80 :: u8) = push_bit 7 1" by simp
  show ?thesis unfolding a by (metis and.commute and_exp_eq_0_iff_not_bit push_bit_of_1)
qed

lemma int_octets_round_trip:
  "of_be_from (if 0x80 AND hd (int_octets num) \<noteq> 0 then -1 else 0) (int_octets num) = num"
proof -
  let ?n = "int_len num"
  have n: "1 \<le> ?n" "?n \<le> 4" by (rule int_len_bounds)+
  have same: "bit num k = bit num 31" if "8 * ?n - 1 \<le> k" "k < 32" for k
    using int_len_bits [OF that(1)] magnitude_bit [OF that(2)] by simp
  have "bit (hd (int_octets num)) 7 = bit num (8 * ?n - 1)"
    using n by (auto simp: int_octets_def hd_be_bytes bit_simps diff_mult_distrib2)
  then have sign: "(0x80 AND hd (int_octets num) \<noteq> 0) = bit num 31"
    using same [of "8 * ?n - 1"] n by (simp add: sign_octet)
  show ?thesis
    unfolding sign
    unfolding int_octets_def of_be_from_be_bytes
  proof (rule bit_word_eqI)
    fix k assume "k < LENGTH(32)"
    then have k: "k < 32" by simp
    then have "bit (push_bit (8 * ?n) (if bit num 31 then -1 else 0) OR take_bit (8 * ?n) num) k
        = (8 * ?n \<le> k \<and> bit num 31 \<or> k < 8 * ?n \<and> bit num k)"
      by (auto simp: bit_or_iff bit_push_bit_iff bit_take_bit_iff)
    also have "\<dots> = bit num k"
      using same [of k] k by (cases "k < 8 * ?n") auto
    finally show "bit (push_bit (8 * ?n) (if bit num 31 then -1 else 0) OR take_bit (8 * ?n) num) k
        = bit num k" .
  qed
qed

text \<open>No shorter run of octets reads back as the same number.\<close>

lemma int_octets_shortest:
  assumes "1 \<le> n" "n < int_len num"
  shows "of_be_from (if 0x80 AND hd (be_bytes n num) \<noteq> 0 then -1 else 0) (be_bytes n num) \<noteq> num"
proof
  let ?s = "bit num (8 * n - 1)"
  assume eq: "of_be_from (if 0x80 AND hd (be_bytes n num) \<noteq> 0 then -1 else 0) (be_bytes n num) = num"
  have n4: "n < 4" using assms int_len_bounds(2) [of num] by simp
  have "bit (hd (be_bytes n num)) 7 = ?s"
    using assms(1) by (auto simp: hd_be_bytes bit_simps diff_mult_distrib2)
  then have w: "num = push_bit (8 * n) (if ?s then -1 else 0) OR take_bit (8 * n) num"
    using eq by (simp add: sign_octet of_be_from_be_bytes)
  have high: "bit num k = ?s" if "8 * n \<le> k" "k < 32" for k
  proof -
    have "bit num k = bit (push_bit (8 * n) (if ?s then -1 else 0) OR take_bit (8 * n) num) k"
      by (rule arg_cong [OF w])
    also have "\<dots> = ?s"
      using that by (auto simp: bit_or_iff bit_push_bit_iff bit_take_bit_iff)
    finally show ?thesis .
  qed
  have all: "\<not> bit (magnitude num) k" if "8 * n - 1 \<le> k" "k < 32" for k
    using that n4 high [of 31] high [of k] magnitude_bit [of k num]
    by (cases "k = 8 * n - 1") auto
  show False
  proof (cases "bit (magnitude num) (8 * lead num + 7)")
    case True
    then have "n \<le> lead num + 1" using assms by (simp add: int_len_eq)
    then have "8 * n - 1 \<le> 8 * lead num + 7" "8 * lead num + 7 < 32"
      using lead_le [of num] by linarith+
    then show False using all True by blast
  next
    case False
    then have l: "n \<le> lead num" using assms by (simp add: int_len_eq)
    have "\<not> bit (magnitude num) (8 * lead num + k)" for k
      using all [of "8 * lead num + k"] l bit_imp_le_length [of "magnitude num" "8 * lead num + k"]
      by (cases "8 * lead num + k < 32") auto
    then have "drop_bit (8 * lead num) (magnitude num) = 0"
      by (intro bit_word_eqI) (simp add: bit_drop_bit_eq)
    then have "magnitude num AND push_bit (8 * lead num) 0xff = 0"
      using octet_and_zero [of "magnitude num" "lead num"] by simp
    moreover have "magnitude num AND push_bit (8 * lead num) 0xff \<noteq> 0"
      using leading_octet_stops [of "\<lambda>m. magnitude num AND m \<noteq> 0" 3] l assms(1)
      by (simp add: lead_def)
    ultimately show False by contradiction
  qed
qed

end
