(* ===== verification/Ber_Writing.thy ===== *)
theory Ber_Writing imports Ber_Values begin

text \<open>
  Writing facts.  \<open>cursor\<close> is where the next octets go: behind the open sequence, or at \<open>ber_ptr\<close>.
  \<open>writes b bs b'\<close> says that \<open>b'\<close> is \<open>b\<close> with \<open>bs\<close> written there, in a block that may have grown;
  what lay in front of the cursor is unchanged.
\<close>

section \<open>The state while writing\<close>

definition cursor :: "berelement \<Rightarrow> nat" where
  "cursor b = (case ber_sos b of [] \<Rightarrow> ber_ptr b | sos # _ \<Rightarrow> sos_ptr sos)"

text \<open>
  The block is as large as \<open>ber_end\<close> says, in steps of 1024 octets.  The cursor may be behind the end
  by the room set aside for the headers of the open sequences, which the next small write makes good
  as long as it is less than one step: with at most 113 sequences open.
\<close>

definition writable :: "berelement \<Rightarrow> bool" where
  "writable b \<longleftrightarrow> length (ber_block b) = ber_end b \<and> ber_end b mod 1024 = 0 \<and> ber_end b \<le> 2 ^ 31
    \<and> cursor b \<le> ber_end b + 9 * length (ber_sos b) \<and> length (ber_sos b) \<le> 113
    \<and> (ber_sos b = [] \<longrightarrow> ber_ptr b \<le> ber_end b)"

definition write_limit :: nat where
  "write_limit = 2 ^ 30 - 1024"

definition always_allocates :: "allocator \<Rightarrow> bool" where
  "always_allocates alloc \<longleftrightarrow> (\<forall>n. \<exists>block. alloc n = Some block \<and> length block = n)"

fun bump :: "nat \<Rightarrow> seqorset list \<Rightarrow> seqorset list" where
  "bump n [] = []"
| "bump n (sos # ss) = sos\<lparr>sos_ptr := sos_ptr sos + n, sos_clen := sos_clen sos + of_nat n\<rparr> # ss"

definition moved :: "berelement \<Rightarrow> nat \<Rightarrow> octets \<Rightarrow> berelement" where
  "moved b n block = b\<lparr>ber_buf := Some block, ber_end := length block,
    ber_ptr := (if ber_sos b = [] then ber_ptr b + n else ber_ptr b), ber_sos := bump n (ber_sos b)\<rparr>"

definition good_size :: "nat \<Rightarrow> bool" where
  "good_size n \<longleftrightarrow> n mod 1024 = 0 \<and> n \<le> 2 ^ 31"

definition writes :: "berelement \<Rightarrow> octets \<Rightarrow> berelement \<Rightarrow> bool" where
  "writes b bs b' \<longleftrightarrow> (bs = [] \<and> b' = b) \<or> (bs \<noteq> [] \<and> (\<exists>P R. b' = moved b (length bs) (P @ bs @ R)
    \<and> length P = cursor b \<and> take (ber_end b) P = take (cursor b) (ber_block b)
    \<and> good_size (length (P @ bs @ R)) \<and> ber_end b \<le> length (P @ bs @ R)))"

lemma cursor_moved [simp]: "cursor (moved b n block) = cursor b + n"
  by (cases "ber_sos b") (simp_all add: cursor_def moved_def)

lemma moved_simps [simp]:
  "ber_block (moved b n block) = block" "ber_end (moved b n block) = length block"
  "ber_sos (moved b n block) = bump n (ber_sos b)" "ber_options (moved b n block) = ber_options b"
  "ber_tag (moved b n block) = ber_tag b" "ber_usertag (moved b n block) = ber_usertag b"
  by (simp_all add: moved_def ber_block_def)

lemma length_bump [simp]: "length (bump n ss) = length ss" "(bump n ss = []) = (ss = [])"
  by (cases ss; simp)+

lemma bump_bump [simp]: "bump m (bump n ss) = bump (n + m) ss"
  by (cases ss) (simp_all add: add.assoc)

lemma moved_moved: "moved (moved b n B) m B' = moved b (n + m) B'"
  by (simp add: moved_def add.assoc)

lemma writes_writable:
  assumes "writes b bs b'" "writable b"
  shows "writable b'"
  using assms
  by (auto simp: writes_def writable_def good_size_def) (auto simp: moved_def cursor_def)

lemma writes_end: "writes b bs b' \<Longrightarrow> bs \<noteq> [] \<Longrightarrow> cursor b' \<le> ber_end b'"
  by (auto simp: writes_def)

lemma writes_cursor: "writes b bs b' \<Longrightarrow> cursor b' = cursor b + length bs"
  by (auto simp: writes_def)

lemma writes_Nil [simp]: "writes b [] b' = (b' = b)"
  by (auto simp: writes_def)

lemma writes_trans:
  assumes "writes b xs b1" "writes b1 ys b2"
  shows "writes b (xs @ ys) b2"
proof (cases "xs = [] \<or> ys = []")
  case True
  then show ?thesis using assms by auto
next
  case False
  obtain P R where 1: "b1 = moved b (length xs) (P @ xs @ R)" "length P = cursor b"
      "take (ber_end b) P = take (cursor b) (ber_block b)" "ber_end b \<le> length (P @ xs @ R)"
    using assms(1) False by (auto simp: writes_def)
  obtain P' R' where 2: "b2 = moved b1 (length ys) (P' @ ys @ R')" "length P' = cursor b1"
      "take (ber_end b1) P' = take (cursor b1) (ber_block b1)" "good_size (length (P' @ ys @ R'))"
      "ber_end b1 \<le> length (P' @ ys @ R')"
    using assms(2) False by (auto simp: writes_def)
  have "P' = P @ xs" using 1 2 by simp
  then show ?thesis
    unfolding writes_def using 1 2 False
    by (intro disjI2 conjI exI [of _ P] exI [of _ R']) (simp_all add: moved_moved)
qed

section \<open>Raw writes\<close>

lemma u32_div: "a < 2 ^ 32 \<Longrightarrow> (of_nat a :: u32) div 1024 = of_nat (a div 1024)"
  by (rule word_unat_eq_iff [THEN iffD2]) (simp add: unat_div)

lemma realloc_total_eq:
  assumes "0 < n" "n < 2 ^ 30" "e mod 1024 = 0" "e \<le> 2 ^ 31"
  shows "unat (realloc_total (of_nat e) (of_nat n)) = e + (n + 1023) div 1024 * 1024"
proof -
  have e: "e div 1024 * 1024 = e" using assms(3) by auto
  have d: "(n + 1023) div 1024 = 1" if "n < 1024"
    using assms(1) that by (auto simp: div_nat_eqI)
  have "(if (of_nat n :: u32) < 1024 then 1 else (of_nat n + (1024 - 1)) div 1024)
      = (of_nat ((n + 1023) div 1024) :: u32)"
  proof (cases "n < 1024")
    case True
    then have "(of_nat n :: u32) < 1024" by (simp add: word_less_nat_alt)
    with d True show ?thesis by simp
  next
    case False
    then have "\<not> (of_nat n :: u32) < 1024" using assms(2) by (simp add: word_less_nat_alt)
    moreover have "(of_nat n + (1024 - 1)) div 1024 = (of_nat ((n + 1023) div 1024) :: u32)"
      using u32_div [of "n + 1023"] assms(2) by simp
    ultimately show ?thesis by simp
  qed
  then have "realloc_total (of_nat e) (of_nat n) = of_nat (e div 1024 * 1024 + (n + 1023) div 1024 * 1024)"
    unfolding realloc_total_def EXBUFSIZ_def Let_def using u32_div [of e] assms(4) by simp
  moreover have "(n + 1023) div 1024 * 1024 \<le> n + 1023" by simp
  then have "e + (n + 1023) div 1024 * 1024 < 2 ^ 32" using assms(2,4) by simp
  ultimately show ?thesis unfolding e by (simp only: unat_of_nat_u32)
qed

lemma ber_realloc_ok:
  assumes "always_allocates alloc" "0 < n" "n < 2 ^ 30" "ber_end b mod 1024 = 0" "ber_end b \<le> 2 ^ 31"
    and "length (ber_block b) = ber_end b"
  shows "\<exists>ext. ber_realloc alloc b (of_nat n) = Some (0, b\<lparr>ber_buf := Some (ber_block b @ ext),
      ber_end := length (ber_block b @ ext)\<rparr>) \<and> length ext = (n + 1023) div 1024 * 1024"
proof -
  let ?t = "ber_end b + (n + 1023) div 1024 * 1024"
  obtain fresh where f: "alloc ?t = Some fresh" "length fresh = ?t"
    using assms(1) by (auto simp: always_allocates_def)
  have "unat (realloc_total (ber_pvt_ber_total b) (of_nat n)) = ?t"
    unfolding ber_pvt_ber_total_def by (rule realloc_total_eq [OF assms(2-5)])
  moreover have "(of_nat n :: u32) \<noteq> 0"
    using assms(2,3) by (simp add: word_of_nat_eq_0_iff nat_dvd_not_less)
  moreover have "0 < (n + 1023) div 1024" using assms(2) by (simp add: div_greater_zero_iff)
  ultimately show ?thesis
    using f assms(6) by (intro exI [of _ "drop (length (ber_block b)) fresh"])
      (simp add: ber_realloc_def realloc_block_def)
qed

text \<open>
  \<open>overwritten off bs B B'\<close>: \<open>B'\<close> is \<open>B\<close>, perhaps with octets behind it, with \<open>bs\<close> stored at \<open>off\<close>.
\<close>

definition overwritten :: "nat \<Rightarrow> octets \<Rightarrow> octets \<Rightarrow> octets \<Rightarrow> bool" where
  "overwritten off bs B B' \<longleftrightarrow> off + length bs \<le> length B' \<and> length B \<le> length B'
    \<and> take off B = take (min off (length B)) B' \<and> take (length bs) (drop off B') = bs
    \<and> drop (off + length bs) B = take (length B - (off + length bs)) (drop (off + length bs) B')
    \<and> good_size (length B')"

lemma ber_write_raw:
  assumes "always_allocates alloc" "writable b" "bs \<noteq> []" "cursor b + length bs \<le> write_limit"
    and "cursor b \<le> ber_end b \<or> length bs \<le> 4"
  shows "\<exists>B'. ber_write alloc b bs False = Some (int (length bs), moved b (length bs) B')
    \<and> overwritten (cursor b) bs (ber_block b) B'"
proof -
  let ?c = "cursor b" and ?n = "length bs" and ?B = "ber_block b"
  have n: "0 < ?n" "?n < 2 ^ 30" using assms(3,4) by (simp_all add: write_limit_def)
  have w: "length ?B = ber_end b" "ber_end b mod 1024 = 0" "ber_end b \<le> 2 ^ 31"
      "?c \<le> ber_end b + 9 * length (ber_sos b)" "length (ber_sos b) \<le> 113"
    using assms(2) by (simp_all add: writable_def)
  define r where "r = (if ?c + ?n > ber_end b then ber_realloc alloc b (of_nat ?n) else Some (0, b))"
  have lim: "?c + ?n \<le> 2 ^ 30 - 1024" using assms(4) by (simp add: write_limit_def)
  have up: "?n \<le> (?n + 1023) div 1024 * 1024" "(?n + 1023) div 1024 * 1024 \<le> ?n + 1023"
    by linarith simp
  obtain B b1 where r: "r = Some (0, b1)" "b1 = b\<lparr>ber_buf := ber_buf b1, ber_end := length B\<rparr>" "ber_block b1 = B"
      "take (length ?B) B = ?B" "?c + ?n \<le> length B" "good_size (length B)"
  proof (cases "?c + ?n > ber_end b")
    case True
    obtain ext where e: "ber_realloc alloc b (of_nat ?n) = Some (0, b\<lparr>ber_buf := Some (?B @ ext),
        ber_end := length (?B @ ext)\<rparr>)" "length ext = (?n + 1023) div 1024 * 1024"
      using ber_realloc_ok [OF assms(1) n w(2,3,1)] by blast
    have "?c + ?n \<le> length (?B @ ext)"
    proof (cases "?c \<le> ber_end b")
      case False
      then have "?n \<le> 4" using assms(5) by simp
      moreover have "1 \<le> (?n + 1023) div 1024" using n(1) by linarith
      ultimately have "1024 \<le> (?n + 1023) div 1024 * 1024" by simp
      then show ?thesis using e(2) w \<open>?n \<le> 4\<close> by simp
    qed (use e(2) up w(1) in simp)
    moreover have "good_size (length (?B @ ext))"
      using e(2) w lim up True by (simp add: good_size_def)
    ultimately show thesis
      using that [of "b\<lparr>ber_buf := Some (?B @ ext), ber_end := length (?B @ ext)\<rparr>" "?B @ ext"] e True
      by (simp add: r_def ber_block_def)
  next
    case False
    then show thesis using that [of b ?B] w by (simp add: r_def good_size_def)
  qed
  let ?B' = "take ?c B @ bs @ drop (?c + ?n) B"
  have st: "store ?c bs B = Some ?B'" using r(5) by (simp add: store_def)
  have BB: "length ?B \<le> length B" "length ?B' = length B"
    using r(4,5) by (metis length_take min.absorb_iff1 min.commute, simp)
  have "overwritten ?c bs ?B ?B'"
  proof -
    have "take (length ?B - (?c + ?n)) (drop (?c + ?n) B) = drop (?c + ?n) ?B"
      by (metis drop_take r(4))
    moreover have "take (min ?c (length ?B)) B = take ?c ?B" by (metis r(4) take_take)
    moreover have "?c < length B" using r(5) n(1) by linarith
    ultimately show ?thesis
      unfolding overwritten_def BB(2) using r(5,6) BB(1) by (simp add: min_def)
  qed
  moreover have "ber_write alloc b bs False = Some (int ?n, moved b ?n ?B')"
  proof -
    have b1: "ber_ptr b1 = ber_ptr b" "ber_sos b1 = ber_sos b" by (subst r(2), simp)+
    have put: "ber_store ?c bs b1 = Some (b\<lparr>ber_buf := Some ?B', ber_end := length B\<rparr>)"
      using st assms(3) unfolding ber_store_def r(3) by (subst r(2)) simp
    show ?thesis
    proof (cases "ber_sos b")
      case Nil
      then have c: "?c = ber_ptr b" by (simp add: cursor_def)
      show ?thesis
        using r(1) put b1 Nil BB(2) unfolding ber_write_def r_def Let_def c
        by (simp add: moved_def)
    next
      case (Cons sos ss)
      then have c: "?c = sos_ptr sos" by (simp add: cursor_def)
      show ?thesis
        using r(1) put b1 Cons BB(2) unfolding ber_write_def r_def Let_def c
        by (simp add: moved_def)
    qed
  qed
  ultimately show ?thesis by blast
qed

definition raw_writes :: "berelement \<Rightarrow> octets \<Rightarrow> berelement \<Rightarrow> bool" where
  "raw_writes b bs b' \<longleftrightarrow> bs \<noteq> [] \<and> length (ber_block b) = ber_end b
    \<and> (\<exists>B'. b' = moved b (length bs) B' \<and> overwritten (cursor b) bs (ber_block b) B')"

lemma overwritten_split:
  assumes "overwritten off bs B B'"
  shows "B' = take off B' @ bs @ drop (off + length bs) B'"
proof -
  have "B' = take off B' @ take (length bs) (drop off B') @ drop (length bs) (drop off B')"
    by (simp only: append_take_drop_id)
  then show ?thesis using assms by (simp add: overwritten_def add.commute)
qed

lemma overwritten_trans:
  assumes "overwritten off xs B B1" "overwritten (off + length xs) ys B1 B2" "xs \<noteq> []"
  shows "overwritten off (xs @ ys) B B2"
proof -
  let ?m = "off + length xs"
  have 1: "?m \<le> length B1" "length B \<le> length B1" "take off B = take (min off (length B)) B1"
      "take (length xs) (drop off B1) = xs"
      "drop ?m B = take (length B - ?m) (drop ?m B1)"
    using assms(1) by (simp_all add: overwritten_def)
  have 2: "?m + length ys \<le> length B2" "length B1 \<le> length B2" "take ?m B1 = take ?m B2"
      "take (length ys) (drop ?m B2) = ys"
      "drop (?m + length ys) B1 = take (length B1 - (?m + length ys)) (drop (?m + length ys) B2)"
      "good_size (length B2)"
    using assms(2) 1(1) by (simp_all add: overwritten_def min_absorb1)
  have "take (min off (length B)) B1 = take (min off (length B)) B2"
    using arg_cong [OF 2(3), of "take (min off (length B))"] by simp
  moreover have "take (length (xs @ ys)) (drop off B2) = xs @ ys"
  proof -
    have "take (length xs) (drop off B2) = take (length xs) (drop off B1)"
      using arg_cong [OF 2(3), of "drop off"] by (simp add: drop_take)
    then show ?thesis using 1(4) 2(4) by (simp add: take_add add.commute)
  qed
  moreover have "drop (?m + length ys) B = take (length B - (?m + length ys)) (drop (?m + length ys) B2)"
  proof -
    have "drop (?m + length ys) B = drop (length ys) (drop ?m B)" by (simp add: add.commute)
    also have "\<dots> = take (length B - (?m + length ys)) (drop (?m + length ys) B1)"
      unfolding 1(5) by (simp add: drop_take add.commute)
    also have "\<dots> = take (length B - (?m + length ys)) (drop (?m + length ys) B2)"
      unfolding 2(5) using 1(2) by (simp add: min_def)
    finally show ?thesis .
  qed
  ultimately show ?thesis
    unfolding overwritten_def using 1(2,3) 2(1,2,6) by (simp add: add.assoc)
qed

lemma raw_writes_trans:
  assumes "raw_writes b xs b1" "raw_writes b1 ys b2"
  shows "raw_writes b (xs @ ys) b2"
proof -
  obtain B1 B2 where "b1 = moved b (length xs) B1" "overwritten (cursor b) xs (ber_block b) B1" "xs \<noteq> []"
      "b2 = moved b1 (length ys) B2" "overwritten (cursor b1) ys B1 B2" "length (ber_block b) = ber_end b"
    using assms by (auto simp: raw_writes_def)
  then show ?thesis
    using overwritten_trans [of "cursor b" xs "ber_block b" B1 ys B2]
    by (auto simp: raw_writes_def moved_moved)
qed

lemma raw_writes_writes:
  assumes "raw_writes b bs b'" shows "writes b bs b'"
proof -
  obtain B' where B': "b' = moved b (length bs) B'" "overwritten (cursor b) bs (ber_block b) B'" "bs \<noteq> []"
      "length (ber_block b) = ber_end b"
    using assms by (auto simp: raw_writes_def)
  let ?c = "cursor b" and ?P = "take (cursor b) B'" and ?R = "drop (cursor b + length bs) B'"
  have o: "?c + length bs \<le> length B'" "take ?c (ber_block b) = take (min ?c (ber_end b)) B'"
      "good_size (length B')" "ber_end b \<le> length B'"
    using B'(2,4) by (simp_all add: overwritten_def)
  have "take (ber_end b) ?P = take ?c (ber_block b)" using o(2) by (simp add: min.commute)
  then show ?thesis
    unfolding writes_def B'(1) using B'(3) o overwritten_split [OF B'(2)]
    by (intro disjI2 conjI exI [of _ ?P] exI [of _ ?R]) simp_all
qed

lemma ber_write_ok_raw:
  assumes "always_allocates alloc" "writable b" "bs \<noteq> []" "cursor b + length bs \<le> write_limit"
    and "cursor b \<le> ber_end b \<or> length bs \<le> 4"
  shows "\<exists>b'. ber_write alloc b bs False = Some (int (length bs), b') \<and> raw_writes b bs b'"
  using ber_write_raw [OF assms] assms(2,3) unfolding raw_writes_def by (fastforce simp: writable_def)

lemma ber_write_ok:
  assumes "always_allocates alloc" "writable b" "bs \<noteq> []" "cursor b + length bs \<le> write_limit"
    and "cursor b \<le> ber_end b \<or> length bs \<le> 4"
  shows "\<exists>b'. ber_write alloc b bs False = Some (int (length bs), b') \<and> writes b bs b'"
  using ber_write_ok_raw [OF assms] raw_writes_writes by blast

section \<open>Encoders\<close>

text \<open>
  What an encoder promises: in any writable state, it returns the number of octets it wrote, and
  they are these.
\<close>

definition puts :: "(berelement \<Rightarrow> put_result) \<Rightarrow> octets \<Rightarrow> bool" where
  "puts put bs \<longleftrightarrow> (\<forall>b. writable b \<and> cursor b + length bs \<le> write_limit \<longrightarrow>
    (\<exists>b'. put b = Some (int (length bs), b') \<and> writes b bs b'))"

lemma ber_put_tag_raw:
  assumes "always_allocates alloc" "writable b" "cursor b + length (tag_octets tag) \<le> write_limit"
  shows "\<exists>b'. ber_put_tag alloc b tag False = Some (int (length (tag_octets tag)), b')
    \<and> raw_writes b (tag_octets tag) b'"
proof -
  have "tag_octets tag \<noteq> []" "length (tag_octets tag) \<le> 4" using length_tag_octets [of tag] by auto
  then show ?thesis
    using ber_write_ok_raw [OF assms(1,2) _ assms(3)] by (simp add: ber_put_tag_def tag_octets_def)
qed

lemma ber_put_len_raw:
  assumes "always_allocates alloc" "writable b" "cursor b + length (len_octets len) \<le> write_limit"
    and "cursor b \<le> ber_end b"
  shows "\<exists>b'. ber_put_len alloc b len False = Some (int (length (len_octets len)), b')
    \<and> raw_writes b (len_octets len) b'"
proof (cases "len \<le> 127")
  case True
  then have l: "len_octets len = [ucast len]" by (simp add: len_octets_def)
  show ?thesis
    using ber_write_ok_raw [OF assms(1,2), of "[ucast len]"] assms(3,4) True
    unfolding l by (auto simp: ber_put_len_def)
next
  case False
  define i where "i = Suc (leading_octet (\<lambda>mask. len AND mask \<noteq> 0) 3)"
  have i: "1 \<le> i" "i \<le> 4"
    using leading_octet_le [of "\<lambda>mask. len AND mask \<noteq> 0" 3] by (simp_all add: i_def)
  have l: "len_octets len = [of_nat i OR 0x80] @ be_bytes i len"
    using False by (simp add: len_octets_def Let_def i_def)
  obtain b1 where b1: "ber_write alloc b [of_nat i OR 0x80] False = Some (1, b1)"
      "raw_writes b [of_nat i OR 0x80] b1"
    using ber_write_ok_raw [OF assms(1,2), of "[of_nat i OR 0x80]"] assms(3,4) l by auto
  note w = raw_writes_writes [OF b1(2)]
  have w1: "writable b1" "cursor b1 = cursor b + 1" "cursor b1 \<le> ber_end b1"
    using writes_writable [OF w assms(2)] writes_cursor [OF w] writes_end [OF w] by simp_all
  have "be_bytes i len \<noteq> []" using i by (metis length_be_bytes list.size(3) not_one_le_zero)
  then obtain b2 where b2: "ber_write alloc b1 (be_bytes i len) False = Some (int i, b2)"
      "raw_writes b1 (be_bytes i len) b2"
    using ber_write_ok_raw [OF assms(1) w1(1), of "be_bytes i len"] w1 assms(3) l i by auto
  have "ber_put_len alloc b len False = Some (int (length (len_octets len)), b2)"
    using False b1 b2(1) i unfolding l by (simp add: ber_put_len_def Let_def i_def)
  then show ?thesis
    using raw_writes_trans [OF b1(2) b2(2)] unfolding l by blast
qed

text \<open>What holds behind a write of something.\<close>

lemma writes_props:
  assumes "writes b bs b'" "writable b" "bs \<noteq> []"
  shows "writable b'" "cursor b' = cursor b + length bs" "cursor b' \<le> ber_end b'"
  using writes_writable [OF assms(1,2)] writes_cursor [OF assms(1)] writes_end [OF assms(1,3)] by simp_all

lemma tag_octets_not_Nil [simp]: "tag_octets tag \<noteq> []"
  using length_tag_octets(1) [of tag] by auto

lemma len_octets_not_Nil [simp]: "len_octets len \<noteq> []"
  by (simp add: len_octets_def Let_def)

lemma ber_put_tag_ok:
  assumes "always_allocates alloc" "writable b" "cursor b + length (tag_octets tag) \<le> write_limit"
  obtains b' where "ber_put_tag alloc b tag False = Some (int (length (tag_octets tag)), b')"
    "writes b (tag_octets tag) b'" "writable b'" "cursor b' = cursor b + length (tag_octets tag)"
    "cursor b' \<le> ber_end b'"
  using ber_put_tag_raw [OF assms] raw_writes_writes writes_props [OF _ assms(2)] tag_octets_not_Nil by metis

lemma ber_put_len_ok:
  assumes "always_allocates alloc" "writable b" "cursor b + length (len_octets len) \<le> write_limit"
    and "cursor b \<le> ber_end b"
  obtains b' where "ber_put_len alloc b len False = Some (int (length (len_octets len)), b')"
    "writes b (len_octets len) b'" "writable b'" "cursor b' = cursor b + length (len_octets len)"
    "cursor b' \<le> ber_end b'"
  using ber_put_len_raw [OF assms] raw_writes_writes writes_props [OF _ assms(2)] len_octets_not_Nil by metis

definition tlv :: "u32 \<Rightarrow> octets \<Rightarrow> octets" where
  "tlv tag contents = tag_octets tag @ len_octets (of_nat (length contents)) @ contents"

text \<open>The shape all primitive encoders share: tag, length, and a continuation for the contents.\<close>

lemma puts_tlv:
  assumes "always_allocates alloc"
    and "\<And>b. put b = on_ok (ber_put_tag alloc b tag False)
      (\<lambda>t b1. k t (ber_put_len alloc b1 (of_nat (length contents)) False))"
    and "\<And>t l b. writable b \<Longrightarrow> cursor b \<le> ber_end b \<Longrightarrow> cursor b + length contents \<le> write_limit \<Longrightarrow>
      l = length (len_octets (of_nat (length contents))) \<Longrightarrow> t + l + length contents < 2 ^ 31 \<Longrightarrow>
      \<exists>b'. k (int t) (Some (int l, b)) = Some (int (t + l + length contents), b') \<and> writes b contents b'"
  shows "puts put (tlv tag contents)"
  unfolding puts_def
proof (intro allI impI)
  fix b
  let ?T = "tag_octets tag" and ?L = "len_octets (of_nat (length contents))"
  assume b: "writable b \<and> cursor b + length (tlv tag contents) \<le> write_limit"
  then have lim: "cursor b + length ?T + length ?L + length contents \<le> write_limit"
    by (simp add: tlv_def)
  then have small: "length ?T + length ?L + length contents < 2 ^ 31" by (simp add: write_limit_def)
  obtain b1 where 1: "ber_put_tag alloc b tag False = Some (int (length ?T), b1)" "writes b ?T b1"
      "writable b1" "cursor b1 = cursor b + length ?T" "cursor b1 \<le> ber_end b1"
    using ber_put_tag_ok [OF assms(1), of b tag] b lim by auto
  obtain b2 where 2: "ber_put_len alloc b1 (of_nat (length contents)) False = Some (int (length ?L), b2)"
      "writes b1 ?L b2" "writable b2" "cursor b2 = cursor b1 + length ?L" "cursor b2 \<le> ber_end b2"
    using ber_put_len_ok [OF assms(1) 1(3), of "of_nat (length contents)"] 1(4,5) lim by auto
  obtain b' where 3: "k (int (length ?T)) (Some (int (length ?L), b2))
        = Some (int (length ?T + length ?L + length contents), b')" "writes b2 contents b'"
    using assms(3) [OF 2(3,5) _ refl small] 1(4) 2(4) lim by auto
  have "put b = Some (int (length (tlv tag contents)), b')"
    using 1(1) 2(1) 3(1) length_tag_octets(1) [of tag] by (simp add: assms(2) on_ok_def tlv_def)
  moreover have "writes b (tlv tag contents) b'"
    unfolding tlv_def by (rule writes_trans [OF 1(2) writes_trans [OF 2(2) 3(2)]])
  ultimately show "\<exists>b'. put b = Some (int (length (tlv tag contents)), b') \<and> writes b (tlv tag contents) b'"
    by blast
qed

lemma puts_empty_contents:
  "writable b \<Longrightarrow> \<exists>b'. Some (r, b) = Some (r, b') \<and> writes b [] b'"
  by simp

lemma ber_write_contents:
  assumes "always_allocates alloc" "writable b" "cursor b \<le> ber_end b" "cursor b + length bs \<le> write_limit"
  shows "\<exists>b'. ber_write alloc b bs False = Some (int (length bs), b') \<and> writes b bs b'"
proof (cases "bs = []")
  case False
  then show ?thesis using ber_write_ok [OF assms(1,2) _ assms(4)] assms(3) by blast
next
  case True
  then show ?thesis
    using assms(2,3)
    by (cases "ber_sos b") (simp_all add: ber_write_def ber_store_def cursor_def Let_def)
qed

lemma len_octets_small: "n \<le> 127 \<Longrightarrow> len_octets (of_nat n) = [of_nat n]"
  by (simp add: len_octets_def word_le_nat_alt unsigned_of_nat take_bit_nat_eq_self)

lemma ber_put_int_or_enum_puts:
  assumes "always_allocates alloc"
  shows "puts (\<lambda>b. ber_put_int_or_enum alloc b num tag) (tlv tag (int_octets num))"
proof (rule puts_tlv [OF assms])
  let ?len = "int_len num"
  have len: "length (int_octets num) = ?len" "?len \<le> 4" using int_len_bounds by (simp_all add: int_octets_def)
  show "ber_put_int_or_enum alloc b num tag = on_ok (ber_put_tag alloc b tag False)
      (\<lambda>t b1. on_ok (ber_put_len alloc b1 (of_nat (length (int_octets num))) False) (\<lambda>l b2.
        if ?len > 4 then None
        else map_option (\<lambda>(rc, b3). (if rc = int ?len then t + l + int ?len else -1, b3))
          (ber_write alloc b2 (int_octets num) False)))" for b
    unfolding len(1) unfolding int_octets_def ber_put_int_or_enum_def int_len_def Let_def by (rule refl)
  fix t l b
  assume b: "writable b" "cursor b \<le> ber_end b" "cursor b + length (int_octets num) \<le> write_limit"
  show "\<exists>b'. on_ok (Some (int l, b)) (\<lambda>l b2. if ?len > 4 then None
        else map_option (\<lambda>(rc, b3). (if rc = int ?len then int t + l + int ?len else -1, b3))
          (ber_write alloc b2 (int_octets num) False))
      = Some (int (t + l + length (int_octets num)), b') \<and> writes b (int_octets num) b'"
    using ber_write_contents [OF assms b] len by (auto simp: on_ok_def)
qed

lemma sint_of_nat: "n < 2 ^ 31 \<Longrightarrow> sint (of_nat n :: u32) = int n"
  by (simp add: signed_of_nat signed_take_bit_int_eq_self)

lemma ber_put_ostring_puts:
  assumes "always_allocates alloc" "unat len \<le> length str" "tag \<noteq> LBER_DEFAULT"
  shows "puts (\<lambda>b. ber_put_ostring alloc b str len tag) (tlv tag (take (unat len) str))"
proof (rule puts_tlv [OF assms(1)])
  let ?bs = "take (unat len) str"
  have len: "length ?bs = unat len" "of_nat (length ?bs) = len" using assms(2) by simp_all
  show "ber_put_ostring alloc b str len tag = on_ok (ber_put_tag alloc b tag False)
      (\<lambda>t b1. on_ok (ber_put_len alloc b1 (of_nat (length ?bs)) False) (\<lambda>l b2.
        if unat len > length str then None
        else map_option (\<lambda>(rc, b3). (if (of_int rc :: u32) \<noteq> len then -1
              else sint (of_int t + of_int l + len :: u32), b3)) (ber_write alloc b2 ?bs False)))" for b
    unfolding len(2) ber_put_ostring_def Let_def using assms(3) by simp
  fix t l b
  assume b: "writable b" "cursor b \<le> ber_end b" "cursor b + length ?bs \<le> write_limit"
    and s: "t + l + length ?bs < 2 ^ 31"
  have "sint (of_int (int t) + of_int (int l) + len :: u32) = int (t + l + length ?bs)"
  proof -
    have "of_int (int t) + of_int (int l) + len = (of_nat (t + l + length ?bs) :: u32)"
      using len(2) by simp
    then show ?thesis using s by (simp only: sint_of_nat)
  qed
  moreover obtain b' where "ber_write alloc b ?bs False = Some (int (length ?bs), b')" "writes b ?bs b'"
    using ber_write_contents [OF assms(1) b] by blast
  moreover have "(of_int (int (length ?bs)) :: u32) = len" using len(2) by simp
  ultimately show "\<exists>b'. on_ok (Some (int l, b)) (\<lambda>l b2. if unat len > length str then None
        else map_option (\<lambda>(rc, b3). (if (of_int rc :: u32) \<noteq> len then -1
              else sint (of_int (int t) + of_int l + len :: u32), b3)) (ber_write alloc b2 ?bs False))
      = Some (int (t + l + length ?bs), b') \<and> writes b ?bs b'"
    using assms(2) by (intro exI [of _ b']) (simp add: on_ok_def del: of_int_of_nat_eq)
qed

lemma ber_put_null_puts:
  assumes "always_allocates alloc" "tag \<noteq> LBER_DEFAULT"
  shows "puts (\<lambda>b. ber_put_null alloc b tag) (tlv tag [])"
  by (rule puts_tlv [OF assms(1), where k = "\<lambda>t. map_option (\<lambda>(rc, b2). (if rc \<noteq> 1 then -1 else t + 1, b2))"])
    (use len_octets_small [of 0] assms(2) in \<open>auto simp: ber_put_null_def Let_def\<close>)

lemma ber_put_boolean_puts:
  assumes "always_allocates alloc" "tag \<noteq> LBER_DEFAULT"
  shows "puts (\<lambda>b. ber_put_boolean alloc b boolval tag) (tlv tag [if boolval \<noteq> 0 then 0xff else 0])"
proof (rule puts_tlv [OF assms(1)])
  let ?v = "[if boolval \<noteq> 0 then 0xff else 0] :: octets"
  let ?k = "\<lambda>t m. case m of None \<Rightarrow> None
     | Some (rc, ber2) \<Rightarrow>
        (if rc \<noteq> 1 then Some (-1, ber2)
         else map_option (\<lambda>(rc, ber3). (if rc \<noteq> 1 then -1 else t + 2, ber3))
                (ber_write alloc ber2 ?v False))"
  show "ber_put_boolean alloc b boolval tag = on_ok (ber_put_tag alloc b tag False)
      (\<lambda>t b1. ?k t (ber_put_len alloc b1 (of_nat (length ?v)) False))" for b
    using assms(2) by (simp add: ber_put_boolean_def Let_def)
  fix t l b
  assume b: "writable b" "cursor b \<le> ber_end b" "cursor b + length ?v \<le> write_limit"
    and l: "l = length (len_octets (of_nat (length ?v)))"
  have "l = 1" using l len_octets_small [of 1] by simp
  then show "\<exists>b'. ?k (int t) (Some (int l, b)) = Some (int (t + l + length ?v), b') \<and> writes b ?v b'"
    using ber_write_contents [OF assms(1) b] by auto
qed

lemma ber_put_bitstring_puts:
  assumes "always_allocates alloc" "unat ((blen + 7) div 8) \<le> length str" "tag \<noteq> LBER_DEFAULT"
  shows "puts (\<lambda>b. ber_put_bitstring alloc b str blen tag)
    (tlv tag (ucast ((blen + 7) div 8 * 8 - blen) # take (unat ((blen + 7) div 8)) str))"
proof (rule puts_tlv [OF assms(1)])
  define len where "len = (blen + 7) div 8"
  define u :: u8 where "u = ucast (len * 8 - blen)"
  let ?bs = "take (unat len) str"
  have len: "length ?bs = unat len" "of_nat (length (u # ?bs)) = len + 1"
    using assms(2) by (simp_all add: len_def)
  define k where "k = (\<lambda>t m. on_ok m (\<lambda>l b2.
     case ber_write alloc b2 [u] False of None \<Rightarrow> None
     | Some (rc, ber3) \<Rightarrow>
        (if rc \<noteq> 1 then Some (-1, ber3)
         else if unat len > length str then None
         else map_option (\<lambda>(rc, ber4). (if (of_int rc :: u32) \<noteq> len then -1
                  else sint (of_int t + 1 + of_int l + len :: u32), ber4))
                (ber_write alloc ber3 ?bs False))))"
  show "ber_put_bitstring alloc b str blen tag = on_ok (ber_put_tag alloc b tag False)
      (\<lambda>t b1. k t (ber_put_len alloc b1 (of_nat (length (ucast ((blen + 7) div 8 * 8 - blen) # take (unat ((blen + 7) div 8)) str))) False))" for b
    unfolding len(2) [unfolded len_def u_def]
    unfolding k_def len_def u_def ber_put_bitstring_def Let_def if_not_P [OF assms(3)] by (rule refl)
  fix t l b
  assume b: "writable b" "cursor b \<le> ber_end b"
      "cursor b + length (ucast ((blen + 7) div 8 * 8 - blen) # take (unat ((blen + 7) div 8)) str) \<le> write_limit"
    and s: "t + l + length (ucast ((blen + 7) div 8 * 8 - blen) # take (unat ((blen + 7) div 8)) str) < 2 ^ 31"
  note b = b [folded len_def, folded u_def] and s = s [folded len_def, folded u_def]
  obtain b1 where 1: "ber_write alloc b [u] False = Some (1, b1)" "writes b [u] b1"
    using ber_write_contents [OF assms(1) b(1,2), of "[u]"] b(3) by auto
  have c1: "writable b1" "cursor b1 \<le> ber_end b1" "cursor b1 + length ?bs \<le> write_limit"
    using writes_writable [OF 1(2) b(1)] writes_end [OF 1(2)] writes_cursor [OF 1(2)] b(3) by simp_all
  obtain b' where 2: "ber_write alloc b1 ?bs False = Some (int (length ?bs), b')" "writes b1 ?bs b'"
    using ber_write_contents [OF assms(1) c1] by blast
  have "of_int (int t) + 1 + of_int (int l) + len = (of_nat (t + l + length (u # ?bs)) :: u32)"
    using len(1) by simp
  then have "sint (of_int (int t) + 1 + of_int (int l) + len :: u32) = int (t + l + length (u # ?bs))"
    using s by (simp only: sint_of_nat)
  moreover have "(of_int (int (length ?bs)) :: u32) = len" using len(1) by simp
  ultimately have "k (int t) (Some (int l, b)) = Some (int (t + l + length (u # ?bs)), b')"
    using assms(2) 1(1) 2(1) by (simp add: on_ok_def k_def len_def del: of_int_of_nat_eq)
  moreover have "writes b (u # ?bs) b'" using writes_trans [OF 1(2) 2(2)] by simp
  ultimately show "\<exists>b'. k (int t) (Some (int l, b)) = Some (int (t + l + length
      (ucast ((blen + 7) div 8 * 8 - blen) # take (unat ((blen + 7) div 8)) str)), b')
      \<and> writes b (ucast ((blen + 7) div 8 * 8 - blen) # take (unat ((blen + 7) div 8)) str) b'"
    unfolding len_def [symmetric] u_def [symmetric] by blast
qed

end
