(* ===== verification/Ber_Sequences.thy ===== *)
theory Ber_Sequences imports Ber_Writing begin

text \<open>
  Opening and closing a sequence or set: what was written in between ends up behind a header, and for
  the enclosing sequence the whole is one write.
\<close>

section \<open>Lengths\<close>

lemma leading_octet_bounds:
  fixes len :: u32 and i :: nat
  defines "i \<equiv> leading_octet (\<lambda>mask. len AND mask \<noteq> 0) 3"
  shows "unat len < 2 ^ (8 * Suc i)" "0 < i \<Longrightarrow> 2 ^ (8 * i) \<le> unat len" "i \<le> 3"
proof -
  show "unat len < 2 ^ (8 * Suc i)"
    using leading_octet_3_zero [of len] unfolding drop_bit_less i_def .
  show "i \<le> 3" unfolding i_def by (rule leading_octet_le)
  assume "0 < i"
  then have "len AND push_bit (8 * i) 0xff \<noteq> 0"
    using leading_octet_stops [of "\<lambda>mask. len AND mask \<noteq> 0" 3] by (simp add: i_def)
  then have "drop_bit (8 * i) len \<noteq> 0" using octet_and_zero [of len i] by auto
  then show "2 ^ (8 * i) \<le> unat len" by (simp add: drop_bit_less)
qed

lemma length_len_octets: "length (len_octets len) = ber_calc_lenlen len"
proof (cases "len \<le> 127")
  case True
  then show ?thesis by (simp add: len_octets_def ber_calc_lenlen_def)
next
  case False
  define i where "i = leading_octet (\<lambda>mask. len AND mask \<noteq> 0) 3"
  note b = leading_octet_bounds [of len, folded i_def]
  have "length (len_octets len) = i + 2" using False by (simp add: len_octets_def Let_def i_def)
  moreover have "ber_calc_lenlen len = i + 2"
  proof -
    consider "i = 0" | "i = 1" | "i = 2" | "i = 3" using b(3) by linarith
    then show ?thesis
      using b(1,2) False by cases (simp_all add: ber_calc_lenlen_def word_le_nat_alt)
  qed
  ultimately show ?thesis by simp
qed

lemma len_octets_calc:
  "len_octets len = (if ber_calc_lenlen len = 1 then [ucast len]
     else (0x80 + of_nat (ber_calc_lenlen len - 1)) # be_bytes (ber_calc_lenlen len - 1) len)"
proof (cases "len \<le> 127")
  case True
  then show ?thesis by (simp add: len_octets_def ber_calc_lenlen_def)
next
  case False
  define i where "i = leading_octet (\<lambda>mask. len AND mask \<noteq> 0) 3"
  have i: "i \<le> 3" unfolding i_def by (rule leading_octet_le)
  have l: "len_octets len = (of_nat (i + 1) OR 0x80) # be_bytes (i + 1) len"
    using False by (simp add: len_octets_def Let_def i_def)
  have c: "ber_calc_lenlen len = i + 2" using l length_len_octets [of len] by simp
  have "i = 0 \<or> i = 1 \<or> i = 2 \<or> i = 3" using i by linarith
  then have "(of_nat (i + 1) OR 0x80 :: u8) = 0x80 + of_nat (i + 1)" by (elim disjE) simp_all
  then show ?thesis using l c by simp
qed

lemma ber_calc_lenlen_bounds: "1 \<le> ber_calc_lenlen len" "ber_calc_lenlen len \<le> 5"
  by (simp_all add: ber_calc_lenlen_def)

section \<open>Closing\<close>

definition header :: "bool \<Rightarrow> u32 \<Rightarrow> u32 \<Rightarrow> octets" where
  "header der tag len = tag_octets tag @ (if der then len_octets len else 0x84 # be_bytes 4 len)"

text \<open>The state \<open>ber_start_seqorset\<close> leaves.\<close>

definition opened :: "u32 \<Rightarrow> berelement \<Rightarrow> berelement" where
  "opened tag b = b\<lparr>ber_sos := \<lparr>sos_clen = 0, sos_tag = tag, sos_first = cursor b,
     sos_ptr = cursor b + ber_calc_taglen tag + FOUR_BYTE_LEN\<rparr> # ber_sos b\<rparr>"

lemma ber_start_seqorset_eq:
  assumes "always_allocates alloc"
  shows "ber_start_seqorset alloc b tag = Some (0, opened tag b)"
proof -
  have "alloc SEQORSET_SIZE \<noteq> None" using assms by (auto simp: always_allocates_def)
  then show ?thesis
    by (cases "ber_sos b") (simp_all add: ber_start_seqorset_def opened_def cursor_def Let_def)
qed

lemma cursor_opened [simp]: "cursor (opened tag b) = cursor b + ber_calc_taglen tag + 5"
  by (simp add: opened_def cursor_def FOUR_BYTE_LEN_def)

lemma opened_simps [simp]:
  "ber_block (opened tag b) = ber_block b" "ber_end (opened tag b) = ber_end b"
  "ber_sos (opened tag b) \<noteq> []" "ber_options (opened tag b) = ber_options b"
  by (simp_all add: opened_def ber_block_def)

lemma writable_opened:
  assumes "writable b" "length (ber_sos b) < 113" shows "writable (opened tag b)"
  using assms taglen_bounds [of tag]
  by (simp add: writable_def opened_def) (simp add: cursor_def ber_block_def FOUR_BYTE_LEN_def)

lemma store_at:
  assumes "length old = length bs" "off = length Q"
  shows "store off bs (Q @ old @ rest) = Some (Q @ bs @ rest)"
  using assms by (simp add: store_def)

lemma ber_store_at:
  assumes "ber_block b = Q @ old @ rest" "length old = length bs" "off = length Q" "ber_buf b \<noteq> None"
  shows "ber_store off bs b = Some (b\<lparr>ber_buf := Some (Q @ bs @ rest)\<rparr>)"
proof (cases "bs = []")
  case True
  then have "ber_buf b = Some (Q @ bs @ rest)" using assms by (auto simp: ber_block_def)
  then have "b = b\<lparr>ber_buf := Some (Q @ bs @ rest)\<rparr>" by simp
  then show ?thesis using True by (simp add: ber_store_def)
next
  case False
  then show ?thesis using store_at [OF assms(2,3)] assms(1) by (simp add: ber_store_def)
qed

text \<open>Moving the contents over the room the header did not need.\<close>

lemma ber_move_at:
  assumes "ber_block b = Q @ room @ cs @ R" "dst = length Q" "src = length (Q @ room)" "ber_buf b \<noteq> None"
  shows "\<exists>R'. ber_move dst src (length cs) b = Some (b\<lparr>ber_buf := Some (Q @ cs @ R')\<rparr>)
    \<and> length R' = length room + length R"
proof -
  let ?old = "take (length cs) (room @ cs)" and ?R' = "drop (length cs) (room @ cs) @ R"
  have "take (length cs) (drop src (ber_block b)) = cs" using assms(1,3) by simp
  moreover have "Q @ ?old @ ?R' = ber_block b"
    unfolding assms(1) by (metis append.assoc append_take_drop_id)
  then have "ber_store dst cs b = Some (b\<lparr>ber_buf := Some (Q @ cs @ ?R')\<rparr>)"
    by (intro ber_store_at [of b Q ?old]) (use assms(2,4) in simp_all)
  ultimately show ?thesis
    using assms(1,3) by (intro exI [of _ ?R']) (simp add: ber_move_def)
qed

text \<open>
  The state in which an open sequence is closed: its contents \<open>cs\<close> are in the block, behind the room
  for the header.
\<close>

lemma moved_opened:
  "moved (opened tag b) n B
    = b\<lparr>ber_buf := Some B, ber_end := length B, ber_sos := bump n (ber_sos (opened tag b))\<rparr>"
  unfolding moved_def opened_def by simp

lemma contents_in_block:
  assumes "writes (opened tag b) cs b2" "cs \<noteq> []"
  obtains P R where "b2 = b\<lparr>ber_buf := Some (P @ cs @ R), ber_end := length (P @ cs @ R),
      ber_sos := bump (length cs) (ber_sos (opened tag b))\<rparr>"
    "length P = cursor b + ber_calc_taglen tag + 5"
    "take (ber_end b) P = take (length P) (ber_block b)"
    "good_size (length (P @ cs @ R))" "ber_end b \<le> length (P @ cs @ R)"
proof -
  obtain P R where "b2 = moved (opened tag b) (length cs) (P @ cs @ R)" "length P = cursor (opened tag b)"
      "take (ber_end (opened tag b)) P = take (cursor (opened tag b)) (ber_block (opened tag b))"
      "good_size (length (P @ cs @ R))" "ber_end (opened tag b) \<le> length (P @ cs @ R)"
    using assms(1,2) unfolding writes_def by blast
  then show thesis
    by (intro that [of P R]) (simp_all only: moved_opened cursor_opened opened_simps)
qed

text \<open>The same for an inner sequence, whose room may have to be made first.\<close>

lemma prepared:
  assumes "always_allocates alloc" "writes (opened tag b) cs b2" "writable (opened tag b)"
    and "cursor (opened tag b) \<le> write_limit"
  obtains P R where "(if sos_ptr (hd (ber_sos b2)) > ber_end b2
      then ber_realloc alloc b2 (of_nat (sos_ptr (hd (ber_sos b2)) - ber_end b2)) else Some (0, b2))
    = Some (0, b\<lparr>ber_buf := Some (P @ cs @ R), ber_end := length (P @ cs @ R),
        ber_sos := bump (length cs) (ber_sos (opened tag b))\<rparr>)"
    "length P = cursor b + ber_calc_taglen tag + 5"
    "take (ber_end b) P = take (length P) (ber_block b)"
    "good_size (length (P @ cs @ R))" "ber_end b \<le> length (P @ cs @ R)"
proof (cases "cs = []")
  case False
  obtain P R where PR: "b2 = b\<lparr>ber_buf := Some (P @ cs @ R), ber_end := length (P @ cs @ R),
      ber_sos := bump (length cs) (ber_sos (opened tag b))\<rparr>"
    "length P = cursor b + ber_calc_taglen tag + 5"
    "take (ber_end b) P = take (length P) (ber_block b)"
    "good_size (length (P @ cs @ R))" "ber_end b \<le> length (P @ cs @ R)"
    using contents_in_block [OF assms(2) False] by metis
  have "sos_ptr (hd (ber_sos b2)) = length P + length cs"
    unfolding PR(1) by (simp add: opened_def PR(2) FOUR_BYTE_LEN_def)
  then have "\<not> sos_ptr (hd (ber_sos b2)) > ber_end b2" unfolding PR(1) by simp
  then show thesis using that [of P R] PR by simp
next
  case True
  let ?o = "opened tag b" and ?c = "cursor (opened tag b)"
  have b2: "b2 = ?o" using assms(2) True by simp
  have p: "sos_ptr (hd (ber_sos b2)) = ?c" unfolding b2 by (simp add: opened_def cursor_def)
  have w: "length (ber_block b) = ber_end b" "ber_end b mod 1024 = 0" "ber_end b \<le> 2 ^ 31"
      "?c \<le> ber_end b + 9 * length (ber_sos ?o)" "length (ber_sos ?o) \<le> 113"
    using assms(3) unfolding writable_def by simp_all
  show thesis
  proof (cases "?c > ber_end b")
    case grow: True
    let ?n = "?c - ber_end b"
    have n: "0 < ?n" "?n < 2 ^ 30" "?n \<le> 1017" using grow w(4,5) by simp_all
    obtain ext where e: "ber_realloc alloc ?o (of_nat ?n) = Some (0, ?o\<lparr>ber_buf := Some (ber_block ?o @ ext),
        ber_end := length (ber_block ?o @ ext)\<rparr>)" "length ext = (?n + 1023) div 1024 * 1024"
      using ber_realloc_ok [OF assms(1) n(1,2), of ?o] w by auto
    have "(?n + 1023) div 1024 = 1" using n by (intro div_nat_eqI) simp_all
    then have ext: "length ext = 1024" using e(2) by simp
    let ?B = "ber_block b @ ext"
    have "?o\<lparr>ber_buf := Some ?B, ber_end := length ?B\<rparr>
        = b\<lparr>ber_buf := Some ?B, ber_end := length ?B, ber_sos := bump 0 (ber_sos ?o)\<rparr>"
      unfolding opened_def by simp
    moreover have "?c \<le> length ?B" using w ext n by simp
    moreover have "good_size (length ?B)"
      using w ext grow assms(4) by (simp add: good_size_def write_limit_def)
    moreover have "take (ber_end b) (take ?c ?B) = take ?c (ber_block b)"
      using w(1) grow by (simp add: min_def)
    ultimately show thesis
      using that [of "take ?c ?B" "drop ?c ?B"] e(1) grow True w(1) by (simp add: b2 p [unfolded b2])
  next
    case False
    have "good_size (length (ber_block b))" using w by (simp add: good_size_def)
    moreover have "take (ber_end b) (take ?c (ber_block b)) = take ?c (ber_block b)"
      using w(1) False by (simp add: min_def)
    moreover have "?o = b\<lparr>ber_buf := Some (ber_block b), ber_end := length (ber_block b),
        ber_sos := bump 0 (ber_sos ?o)\<rparr>"
    proof -
      have "ber_block b \<noteq> []" using False w(1) by (cases "ber_block b") simp_all
      then have "ber_buf b = Some (ber_block b)" by (cases "ber_buf b") (simp_all add: ber_block_def)
      moreover have "bump 0 (ber_sos ?o) = ber_sos ?o" by (cases "ber_sos ?o") simp_all
      moreover have "?o = b\<lparr>ber_buf := ber_buf b, ber_end := ber_end b, ber_sos := ber_sos ?o\<rparr>"
        unfolding opened_def by simp
      ultimately show ?thesis using w(1) by simp
    qed
    ultimately show thesis
      using that [of "take ?c (ber_block b)" "drop ?c (ber_block b)"] False True w(1)
      by (simp add: b2 p [unfolded b2])
  qed
qed

text \<open>Storing the header of an inner sequence, in both forms.\<close>

definition store_header :: "bool \<Rightarrow> nat \<Rightarrow> u32 \<Rightarrow> u32 \<Rightarrow> nat \<Rightarrow> nat \<Rightarrow> berelement \<Rightarrow> berelement option" where
  "store_header der first tag len taglen lenlen ber1 =
    (let ltag = (if der then (if lenlen = 1 then ucast len else 0x80 + of_nat (lenlen - 1))
                 else (0x80 + of_nat (FOUR_BYTE_LEN - 1) :: u8))
     in Option.bind (ber_store first (be_bytes taglen tag) ber1) (\<lambda>ber2.
                Option.bind (ber_store (first + 1) [ltag] ber2) (\<lambda>ber3.
                if der then
                  Option.bind (if lenlen > 1 then ber_store (first + 2) (be_bytes (lenlen - 1) len) ber3
                               else Some ber3) (\<lambda>ber4.
                  if lenlen \<noteq> FOUR_BYTE_LEN
                  then ber_move (first + taglen + lenlen) (first + taglen + FOUR_BYTE_LEN)
                         (unat len) ber4
                  else Some ber4)
                else ber_store (first + taglen + 1) (be_bytes (FOUR_BYTE_LEN - 1) len) ber3)))"

lemma put_nested_eq:
  "put_nested alloc ber sos nxt rest lenlen =
    (case (if sos_ptr sos > ber_end ber
           then ber_realloc alloc ber (of_nat (sos_ptr sos - ber_end ber)) else Some (0, ber)) of
       None \<Rightarrow> None
     | Some (rc, ber1) \<Rightarrow>
        (if rc \<noteq> 0 then Some (-1, ber1)
         else let taglen = ber_calc_taglen (sos_tag sos);
                  size = of_nat taglen + of_nat lenlen + sos_clen sos
           in case store_header (ber_use_der ber) (sos_first sos) (sos_tag sos) (sos_clen sos) taglen
                lenlen ber1 of
                None \<Rightarrow> None
              | Some ber5 \<Rightarrow>
                 Some (sint size, ber5\<lparr>ber_sos :=
                   nxt\<lparr>sos_clen := sos_clen nxt + size, sos_ptr := sos_ptr nxt + unat size\<rparr> # rest\<rparr>)))"
  unfolding put_nested_def store_header_def Let_def by (rule refl)

lemma store_header_ok:
  assumes "ber_buf c = Some (Q @ gap @ cs @ R)" "length gap = 6" "length Q = first"
    and "ber_calc_taglen tag = 1" "unat len = length cs"
    and "lenlen = (if der then ber_calc_lenlen len else 5)"
  shows "\<exists>R'. store_header der first tag len 1 lenlen c
      = Some (c\<lparr>ber_buf := Some (Q @ header der tag len @ cs @ R')\<rparr>)
    \<and> length (header der tag len) + length R' = 6 + length R"
proof -
  obtain g0 g1 more where gap: "gap = g0 # g1 # more" "length more = 4"
    using assms(2) by (cases gap; cases "tl gap") auto
  obtain t where t: "be_bytes 1 tag = [t]" "tag_octets tag = [t]"
    using assms(4) by (simp add: tag_octets_def)
  define l where "l = (if der then (if lenlen = 1 then ucast len else 0x80 + of_nat (lenlen - 1))
                 else (0x80 + of_nat (FOUR_BYTE_LEN - 1) :: u8))"
  let ?c = "\<lambda>B. c\<lparr>ber_buf := Some B\<rparr>"
  have s1: "ber_store first [t] c = Some (?c (Q @ [t] @ (g1 # more) @ cs @ R))"
    by (rule ber_store_at [of _ Q "[g0]"]) (use assms gap in \<open>simp_all add: ber_block_def\<close>)
  have s2: "ber_store (first + 1) [l] (?c (Q @ [t] @ (g1 # more) @ cs @ R))
      = Some (?c ((Q @ [t]) @ [l] @ more @ cs @ R))"
    using ber_store_at [of "?c (Q @ [t] @ (g1 # more) @ cs @ R)" "Q @ [t]" "[g1]" "more @ cs @ R" "[l]"]
      assms(3) by (simp add: ber_block_def)
  show ?thesis
  proof (cases der)
    case False
    have "ber_store (first + 1 + 1) (be_bytes 4 len) (?c ((Q @ [t]) @ [l] @ more @ cs @ R))
        = Some (?c ((Q @ [t] @ [l]) @ be_bytes 4 len @ cs @ R))"
      using ber_store_at [of "?c ((Q @ [t]) @ [l] @ more @ cs @ R)" "Q @ [t] @ [l]" more "cs @ R" "be_bytes 4 len"]
        assms(3) gap(2) by (simp add: ber_block_def del: be_bytes_numeral)
    moreover have "l = 0x84" using False by (simp add: l_def FOUR_BYTE_LEN_def)
    ultimately show ?thesis
      using s1 s2 False t
      by (intro exI [of _ R]) (simp add: store_header_def header_def l_def [symmetric] FOUR_BYTE_LEN_def del: be_bytes_numeral)
  next
    case True
    then have ll: "lenlen = ber_calc_lenlen len" using assms(6) by simp
    note lb = ber_calc_lenlen_bounds [of len, folded ll]
    have L: "len_octets len = [l] @ (if lenlen = 1 then [] else be_bytes (lenlen - 1) len)"
      using True by (simp add: len_octets_calc ll [symmetric] l_def)
    let ?rest = "drop (lenlen - 1) more"
    have s3: "(if lenlen > 1 then ber_store (first + 2) (be_bytes (lenlen - 1) len)
          (?c ((Q @ [t]) @ [l] @ more @ cs @ R)) else Some (?c ((Q @ [t]) @ [l] @ more @ cs @ R)))
        = Some (?c ((Q @ [t] @ len_octets len) @ ?rest @ cs @ R))"
    proof (cases "lenlen = 1")
      case False
      then show ?thesis
        using ber_store_at [of "?c ((Q @ [t]) @ [l] @ more @ cs @ R)" "Q @ [t] @ [l]" "take (lenlen - 1) more"
            "?rest @ cs @ R" "be_bytes (lenlen - 1) len"] assms(3) gap(2) lb L
        by (simp add: ber_block_def append_assoc [symmetric] del: append_assoc)
    qed (use L in simp)
    have H: "length (Q @ [t] @ len_octets len) = first + 1 + lenlen" "length ?rest = 5 - lenlen"
      using assms(3) gap(2) length_len_octets [of len] ll lb by auto
    show ?thesis
    proof (cases "lenlen = 5")
      case True
      then have "l = 0x84" using \<open>der\<close> by (simp add: l_def)
      then show ?thesis
        using s1 s2 s3 \<open>der\<close> t gap(2) H length_len_octets [of len] ll True
        by (intro exI [of _ R]) (simp add: store_header_def header_def l_def [symmetric] FOUR_BYTE_LEN_def)
    next
      case False
      obtain R' where m: "ber_move (first + 1 + lenlen) (first + 1 + 5) (length cs)
            (?c ((Q @ [t] @ len_octets len) @ ?rest @ cs @ R))
          = Some (?c ((Q @ [t] @ len_octets len) @ cs @ R'))" "length R' = length ?rest + length R"
      proof -
        have "first + 1 + 5 = length ((Q @ [t] @ len_octets len) @ ?rest)"
          unfolding length_append [of "Q @ [t] @ len_octets len"] H using lb by simp
        moreover have "ber_block (?c X) = X" "ber_buf (?c X) \<noteq> None" for X by (simp_all add: ber_block_def)
        ultimately have "\<exists>R'. ber_move (first + 1 + lenlen) (first + 1 + 5) (length cs)
              (?c ((Q @ [t] @ len_octets len) @ ?rest @ cs @ R))
            = Some (?c ((Q @ [t] @ len_octets len) @ ?rest @ cs @ R)\<lparr>ber_buf := Some ((Q @ [t] @ len_octets len) @ cs @ R')\<rparr>)
            \<and> length R' = length ?rest + length R"
          by (intro ber_move_at H(1) [symmetric])
        then show thesis using that by auto
      qed
      have "store_header der first tag len 1 lenlen c = Some (?c ((Q @ [t] @ len_octets len) @ cs @ R'))"
        unfolding store_header_def Let_def
        unfolding l_def [symmetric]
        unfolding t(1) s1 Option.bind_lunit s2 if_P [OF \<open>der\<close>] s3
        using m(1) False assms(5) by (simp add: FOUR_BYTE_LEN_def)
      then show ?thesis
        using m(2) H(2) lb length_len_octets [of len] ll t \<open>der\<close> by (auto simp: header_def)
    qed
  qed
qed

lemma length_header: "length (header der tag len) = ber_calc_taglen tag + (if der then ber_calc_lenlen len else 5)"
  by (simp add: header_def tag_octets_def length_len_octets del: be_bytes_numeral)

lemma writesI:
  assumes "bs \<noteq> []" "b' = moved b (length bs) (P @ bs @ R)" "length P = cursor b"
    and "take (ber_end b) P = take (cursor b) (ber_block b)"
    and "good_size (length (P @ bs @ R))" "ber_end b \<le> length (P @ bs @ R)"
  shows "writes b bs b'"
  unfolding writes_def using assms by blast

lemma close_nested:
  assumes "always_allocates alloc" "writes (opened tag b) cs b2" "writable (opened tag b)"
    and "cursor (opened tag b) + length cs \<le> write_limit" "ber_calc_taglen tag = 1" "ber_sos b \<noteq> []"
  shows "\<exists>b3. ber_put_seqorset alloc b2
      = Some (int (length (header (ber_use_der b) tag (of_nat (length cs)) @ cs)), b3)
    \<and> writes b (header (ber_use_der b) tag (of_nat (length cs)) @ cs) b3"
proof -
  let ?len = "of_nat (length cs) :: u32" and ?der = "ber_use_der b"
  let ?H = "header ?der tag ?len" and ?first = "cursor b"
  define lenlen where "lenlen = (if ?der then ber_calc_lenlen ?len else 5)"
  obtain nxt rest where nxt: "ber_sos b = nxt # rest" using assms(6) by (cases "ber_sos b") auto
  obtain P R where PR: "(if sos_ptr (hd (ber_sos b2)) > ber_end b2
      then ber_realloc alloc b2 (of_nat (sos_ptr (hd (ber_sos b2)) - ber_end b2)) else Some (0, b2))
    = Some (0, b\<lparr>ber_buf := Some (P @ cs @ R), ber_end := length (P @ cs @ R),
        ber_sos := bump (length cs) (ber_sos (opened tag b))\<rparr>)"
    "length P = cursor b + ber_calc_taglen tag + 5"
    "take (ber_end b) P = take (length P) (ber_block b)"
    "good_size (length (P @ cs @ R))" "ber_end b \<le> length (P @ cs @ R)"
    using prepared [OF assms(1-3)] assms(4) by (metis add_leD1)
  let ?b1 = "b\<lparr>ber_buf := Some (P @ cs @ R), ber_end := length (P @ cs @ R),
        ber_sos := bump (length cs) (ber_sos (opened tag b))\<rparr>"
  let ?Q = "take ?first P" and ?gap = "drop ?first P"
  have Q: "length ?Q = ?first" "length ?gap = 6" "P = ?Q @ ?gap" using PR(2) assms(5) by simp_all
  have small: "length cs < 2 ^ 31" "unat ?len = length cs" using assms(4) by (simp_all add: write_limit_def)
  obtain R' where st: "store_header ?der ?first tag ?len 1 lenlen ?b1
      = Some (?b1\<lparr>ber_buf := Some (?Q @ ?H @ cs @ R')\<rparr>)" "length ?H + length R' = 6 + length R"
    using store_header_ok [of ?b1 ?Q ?gap cs R ?first tag ?len lenlen ?der] Q small(2) assms(5) lenlen_def
    by (auto simp: append_assoc [symmetric] simp del: append_assoc)
  let ?B = "?Q @ ?H @ cs @ R'" and ?n = "length (?H @ cs)"
  have size: "length ?B = length (P @ cs @ R)" using st(2) Q(1,2) PR(2) assms(5) by simp
  define sos where "sos = hd (ber_sos b2)"
  have sosb2: "ber_sos b2 = bump (length cs) (ber_sos (opened tag b))" "ber_use_der b2 = ?der"
    using assms(2) by (cases "cs = []"; auto simp: writes_def ber_use_der_def moved_def opened_def)+
  then have sos: "ber_sos b2 = sos # nxt # rest" "sos_clen sos = ?len" "sos_tag sos = tag"
      "sos_first sos = ?first"
    by (simp_all add: sos_def opened_def nxt)
  define n where "n = ?n"
  have n: "(of_nat 1 + of_nat lenlen + ?len :: u32) = of_nat n"
    by (simp add: n_def length_header assms(5) lenlen_def)
  have n31: "n < 2 ^ 31" using assms(4) ber_calc_lenlen_bounds [of ?len]
    by (simp add: n_def length_header assms(5) write_limit_def)
  have "ber_put_seqorset alloc b2 = put_nested alloc b2 sos nxt rest lenlen"
    using sos(1,2) sosb2(2) by (simp add: ber_put_seqorset_def FOUR_BYTE_LEN_def lenlen_def)
  also have "\<dots> = Some (int n, ?b1\<lparr>ber_buf := Some ?B, ber_sos :=
      nxt\<lparr>sos_clen := sos_clen nxt + of_nat n, sos_ptr := sos_ptr nxt + n\<rparr> # rest\<rparr>)"
    unfolding put_nested_eq sos(2-4) PR(1) [folded sos_def] sosb2(2) assms(5) Let_def n
    using n31 st(1) by (simp add: sint_of_nat)
  also have "?b1\<lparr>ber_buf := Some ?B, ber_sos :=
      nxt\<lparr>sos_clen := sos_clen nxt + of_nat n, sos_ptr := sos_ptr nxt + n\<rparr> # rest\<rparr> = moved b n ?B"
    using size nxt by (simp add: moved_def)
  finally have put: "ber_put_seqorset alloc b2 = Some (int ?n, moved b ?n ?B)" by (simp only: n_def)
  have pre: "take (ber_end b) ?Q = take ?first (ber_block b)"
  proof -
    have "take (ber_end b) ?Q = take ?first (take (ber_end b) P)" by (simp add: min.commute)
    then show ?thesis unfolding PR(3) using PR(2) by (simp add: min_def)
  qed
  have "?H @ cs \<noteq> []" by (simp add: header_def)
  then have "writes b (?H @ cs) (moved b ?n ?B)"
    using writesI [of "?H @ cs" "moved b ?n ?B" b ?Q R'] Q(1) pre PR(4,5)
    unfolding size [symmetric] by (simp only: append_assoc HOL.simp_thms)
  with put show ?thesis by blast
qed

section \<open>The outermost sequence\<close>

definition with_sos :: "seqorset list \<Rightarrow> put_result \<Rightarrow> put_result" where
  "with_sos ss = map_option (\<lambda>(rc, b). (rc, b\<lparr>ber_sos := ss\<rparr>))"

lemma ber_write_nosos:
  "ber_write alloc (b\<lparr>ber_sos := ss\<rparr>) bs True = with_sos ss (ber_write alloc (b\<lparr>ber_sos := []\<rparr>) bs False)"
proof -
  have r: "ber_realloc alloc (b\<lparr>ber_sos := ss\<rparr>) n = with_sos ss (ber_realloc alloc (b\<lparr>ber_sos := []\<rparr>) n)" for n
    by (simp add: ber_realloc_def with_sos_def ber_block_def ber_pvt_ber_total_def Let_def split: option.split)
  let ?c = "b\<lparr>ber_sos := []\<rparr>"
  show ?thesis
  proof (cases "ber_ptr b + length bs > ber_end b")
    case False
    then show ?thesis
      by (cases "store (ber_ptr b) bs (ber_block b)")
        (simp_all add: ber_write_def with_sos_def Let_def ber_store_def ber_block_def)
  next
    case True
    show ?thesis
    proof (cases "ber_realloc alloc ?c (of_nat (length bs))")
      case None
      then show ?thesis using True r by (simp add: ber_write_def with_sos_def Let_def)
    next
      case (Some x)
      obtain rc c1 where x: "x = (rc, c1)" by (cases x)
      have "ber_block (c1\<lparr>ber_sos := ss\<rparr>) = ber_block c1" by (simp add: ber_block_def)
      then show ?thesis
        using True r Some x
        by (cases "store (ber_ptr c1) bs (ber_block c1)")
          (simp_all add: ber_write_def with_sos_def Let_def ber_store_def)
    qed
  qed
qed

lemma ber_put_tag_nosos:
  "ber_put_tag alloc (b\<lparr>ber_sos := ss\<rparr>) tag True = with_sos ss (ber_put_tag alloc (b\<lparr>ber_sos := []\<rparr>) tag False)"
  by (simp add: ber_put_tag_def ber_write_nosos)

lemma ber_write_sos_Nil:
  "ber_sos b = [] \<Longrightarrow> ber_write alloc b bs False = Some (rc, b') \<Longrightarrow> b'\<lparr>ber_sos := []\<rparr> = b'"
  by (auto simp: ber_write_def ber_store_def ber_realloc_def Let_def split: option.splits if_splits)

lemma ber_put_len_nosos:
  "ber_put_len alloc (b\<lparr>ber_sos := ss\<rparr>) len True = with_sos ss (ber_put_len alloc (b\<lparr>ber_sos := []\<rparr>) len False)"
proof (cases "len \<le> 127")
  case True
  then show ?thesis by (simp add: ber_put_len_def ber_write_nosos)
next
  case False
  define i where "i = leading_octet (\<lambda>mask. len AND mask \<noteq> 0) 3 + 1"
  have "i \<le> 4" using leading_octet_le [of "\<lambda>mask. len AND mask \<noteq> 0" 3] by (simp add: i_def)
  then have e: "ber_put_len alloc c len n = (case ber_write alloc c [of_nat i OR 0x80] n of
           None \<Rightarrow> None
         | Some (rc, ber1) \<Rightarrow>
            (if rc \<noteq> 1 then Some (-1, ber1)
             else map_option (\<lambda>(rc, ber2). (if rc = int i then int i + 1 else -1, ber2))
                    (ber_write alloc ber1 (be_bytes i len) n)))" for c n
    unfolding ber_put_len_def Let_def i_def [symmetric] using False by simp
  let ?c = "b\<lparr>ber_sos := []\<rparr>"
  show ?thesis
  proof (cases "ber_write alloc ?c [of_nat i OR 0x80] False")
    case None
    then show ?thesis unfolding e ber_write_nosos by (simp add: with_sos_def)
  next
    case (Some x)
    obtain rc c1 where x: "x = (rc, c1)" by (cases x)
    have c1: "c1\<lparr>ber_sos := []\<rparr> = c1" using ber_write_sos_Nil [of ?c] Some x by simp
    have n: "ber_write alloc (c1\<lparr>ber_sos := ss\<rparr>) bs True = with_sos ss (ber_write alloc c1 bs False)" for bs
      using ber_write_nosos [where b = c1] unfolding c1 .
    show ?thesis
      unfolding e ber_write_nosos [where b = b] Some x
      by (cases "ber_write alloc c1 (be_bytes i len) False") (auto simp: with_sos_def n)
  qed
qed

definition put_header_length :: "allocator \<Rightarrow> bool \<Rightarrow> u32 \<Rightarrow> bool \<Rightarrow> berelement \<Rightarrow> put_result" where
  "put_header_length alloc der len nosos ber1 =
    (if der then ber_put_len alloc ber1 len nosos
     else case ber_write alloc ber1 [0x84] nosos of None \<Rightarrow> None
               | Some (rc, ber2) \<Rightarrow>
                  (if rc \<noteq> 1 then Some (-1, ber2)
                   else map_option (\<lambda>(rc, ber3). (if rc \<noteq> 4 then -1 else 5, ber3))
                          (ber_write alloc ber2 (be_bytes 4 len) nosos)))"

lemma put_header_length_nosos:
  "put_header_length alloc der len True (b\<lparr>ber_sos := ss\<rparr>)
    = with_sos ss (put_header_length alloc der len False (b\<lparr>ber_sos := []\<rparr>))"
proof (cases der)
  case True
  then show ?thesis by (simp add: put_header_length_def ber_put_len_nosos)
next
  case False
  let ?c = "b\<lparr>ber_sos := []\<rparr>"
  show ?thesis
  proof (cases "ber_write alloc ?c [0x84] False")
    case None
    then show ?thesis using False by (simp add: put_header_length_def ber_write_nosos with_sos_def)
  next
    case (Some x)
    obtain rc c1 where x: "x = (rc, c1)" by (cases x)
    have c1: "c1\<lparr>ber_sos := []\<rparr> = c1" using ber_write_sos_Nil [of ?c] Some x by simp
    have n: "ber_write alloc (c1\<lparr>ber_sos := ss\<rparr>) bs True = with_sos ss (ber_write alloc c1 bs False)" for bs
      using ber_write_nosos [where b = c1] unfolding c1 .
    show ?thesis
      using False Some x
      by (cases "ber_write alloc c1 (be_bytes 4 len) False")
        (auto simp: put_header_length_def ber_write_nosos [where b = b] n with_sos_def simp del: be_bytes_numeral)
  qed
qed

lemma put_header_length_raw:
  assumes "always_allocates alloc" "writable c" "cursor c \<le> ber_end c"
    and "L = (if der then len_octets len else 0x84 # be_bytes 4 len)" "cursor c + length L \<le> write_limit"
  shows "\<exists>c'. put_header_length alloc der len False c = Some (int (length L), c') \<and> raw_writes c L c'"
proof (cases der)
  case True
  then show ?thesis
    using ber_put_len_raw [OF assms(1,2) _ assms(3)] assms(4,5) by (simp add: put_header_length_def)
next
  case False
  then have L: "L = [0x84] @ be_bytes 4 len" using assms(4) by simp
  obtain c1 where 1: "ber_write alloc c [0x84] False = Some (1, c1)" "raw_writes c [0x84] c1"
    using ber_write_ok_raw [OF assms(1,2), of "[0x84]"] assms(3,5) L by auto
  note w = writes_props [OF raw_writes_writes [OF 1(2)] assms(2)]
  obtain c2 where 2: "ber_write alloc c1 (be_bytes 4 len) False = Some (4, c2)" "raw_writes c1 (be_bytes 4 len) c2"
    using ber_write_ok_raw [OF assms(1), of c1 "be_bytes 4 len"] w assms(5) L by auto
  show ?thesis
    using False 1(1) 2(1) raw_writes_trans [OF 1(2) 2(2)] unfolding L [symmetric]
    by (auto simp: put_header_length_def L simp del: be_bytes_numeral)
qed

lemma put_toplevel_eq:
  assumes "ber_put_tag alloc ber (sos_tag sos) True = Some (int t, ber1)"
    and "put_header_length alloc (ber_use_der ber) (sos_clen sos) True ber1 = Some (int l, ber2)"
    and "l \<noteq> 0" "\<not> ber_use_der ber \<longrightarrow> l = 5"
  shows "put_toplevel alloc ber sos lenlen =
    (case (if ber_use_der ber \<and> lenlen \<noteq> 5
           then ber_move (sos_first sos + t + lenlen) (sos_first sos + t + 5) (unat (sos_clen sos)) ber2
           else Some ber2) of None \<Rightarrow> None
     | Some ber4 \<Rightarrow> Some (sint (of_nat t + of_nat lenlen + sos_clen sos :: u32),
          ber4\<lparr>ber_ptr := ber_ptr ber4 + unat (sos_clen sos), ber_sos := []\<rparr>))"
proof (cases "ber_use_der ber")
  case True
  then have "ber_put_len alloc ber1 (sos_clen sos) True = Some (int l, ber2)"
    using assms(2) by (simp add: put_header_length_def)
  then show ?thesis
    using assms(1,3) True
    by (cases "ber_move (sos_first sos + t + lenlen) (sos_first sos + t + 5) (unat (sos_clen sos)) ber2")
      (simp_all add: put_toplevel_def on_ok_def Let_def FOUR_BYTE_LEN_def)
next
  case False
  then obtain ber' where w: "ber_write alloc ber1 [0x84] True = Some (1, ber')"
      "ber_write alloc ber' (be_bytes 4 (sos_clen sos)) True = Some (4, ber2)"
    using assms(2,4) by (auto simp: put_header_length_def simp del: be_bytes_numeral split: option.splits if_splits)
  then show ?thesis
    using assms(1) False by (simp add: put_toplevel_def on_ok_def Let_def FOUR_BYTE_LEN_def del: be_bytes_numeral)
qed

lemma bump_0 [simp]: "bump 0 ss = ss"
  by (cases ss) simp_all

lemma writes_state:
  assumes "writes b bs b'"
  shows "ber_sos b' = bump (length bs) (ber_sos b)" "ber_options b' = ber_options b" "ber_end b \<le> ber_end b'"
    "ber_ptr b' = (if ber_sos b = [] then ber_ptr b + length bs else ber_ptr b)"
  using assms unfolding writes_def by (auto simp: moved_def)

lemma close_toplevel:
  assumes "always_allocates alloc" "writes (opened tag b) cs b2" "writable b"
    and "cursor (opened tag b) + length cs \<le> write_limit" "ber_sos b = []"
  shows "\<exists>b3. ber_put_seqorset alloc b2
      = Some (int (length (header (ber_use_der b) tag (of_nat (length cs)) @ cs)), b3)
    \<and> writes b (header (ber_use_der b) tag (of_nat (length cs)) @ cs) b3"
proof -
  let ?len = "of_nat (length cs) :: u32" and ?der = "ber_use_der b"
  define L where "L = (if ?der then len_octets ?len else 0x84 # be_bytes 4 ?len)"
  let ?T = "tag_octets tag" and ?H = "header ?der tag ?len" and ?first = "cursor b"
  define lenlen where "lenlen = (if ?der then ber_calc_lenlen ?len else 5)"
  have H: "?H = ?T @ L" by (simp add: header_def L_def)
  have lL: "length L = lenlen" "lenlen \<le> 5" "1 \<le> lenlen"
    using ber_calc_lenlen_bounds [of ?len] by (simp_all add: L_def lenlen_def length_len_octets del: be_bytes_numeral)
  have first: "?first = ber_ptr b" using assms(5) by (simp add: cursor_def)
  have sosb: "ber_sos (opened tag b) = [\<lparr>sos_clen = 0, sos_tag = tag, sos_first = ?first,
      sos_ptr = ?first + ber_calc_taglen tag + 5\<rparr>]"
    by (simp add: opened_def assms(5) FOUR_BYTE_LEN_def)
  define sos where "sos = hd (ber_sos b2)"
  have b2: "ber_sos b2 = [sos]" "sos_clen sos = ?len" "sos_tag sos = tag" "sos_first sos = ?first"
      "ber_use_der b2 = ?der" "ber_ptr b2 = ?first" "ber_end b \<le> ber_end b2"
    using writes_state [OF assms(2)] by (simp_all add: sos_def sosb ber_use_der_def) (simp_all add: opened_def first)
  let ?c = "b2\<lparr>ber_sos := []\<rparr>"
  have c: "writable ?c" "cursor ?c = ?first" "cursor ?c \<le> ber_end ?c" "ber_block ?c = ber_block b2"
  proof -
    have "writable b2"
      by (rule writes_writable [OF assms(2) writable_opened]) (use assms(3,5) in simp_all)
    moreover have "ber_ptr b2 \<le> ber_end b2"
      using assms(3,5) b2(6,7) first by (simp add: writable_def)
    ultimately show "writable ?c" "cursor ?c = ?first" "cursor ?c \<le> ber_end ?c" "ber_block ?c = ber_block b2"
      using b2(6) by (simp_all add: writable_def cursor_def ber_block_def)
  qed
  have lim: "?first + length ?T + length L \<le> write_limit"
    using assms(4) lL by (simp add: tag_octets_def)
  obtain c1 where c1: "ber_put_tag alloc ?c tag False = Some (int (length ?T), c1)" "raw_writes ?c ?T c1"
    using ber_put_tag_raw [OF assms(1) c(1), of tag] c(2) lim by auto
  note w1 = writes_props [OF raw_writes_writes [OF c1(2)] c(1) tag_octets_not_Nil]
  have s1: "c1\<lparr>ber_sos := []\<rparr> = c1"
    using writes_state(1) [OF raw_writes_writes [OF c1(2)]] by simp
  obtain c2 where c2: "put_header_length alloc ?der ?len False c1 = Some (int (length L), c2)" "raw_writes c1 L c2"
    using put_header_length_raw [OF assms(1) w1(1,3) L_def] w1(2) c(2) lim by auto
  have HL: "raw_writes ?c ?H c2" unfolding H by (rule raw_writes_trans [OF c1(2) c2(2)])
  obtain B' where B': "c2 = moved ?c (length ?H) B'" "overwritten ?first ?H (ber_block b2) B'"
    using HL c(2,4) by (auto simp: raw_writes_def)
  have "ber_put_tag alloc (b2\<lparr>ber_sos := [sos]\<rparr>) tag True = Some (int (length ?T), c1\<lparr>ber_sos := [sos]\<rparr>)"
    unfolding ber_put_tag_nosos c1(1) by (simp add: with_sos_def)
  moreover have "b2\<lparr>ber_sos := [sos]\<rparr> = b2" using b2(1) by simp
  ultimately have tag: "ber_put_tag alloc b2 (sos_tag sos) True = Some (int (length ?T), c1\<lparr>ber_sos := [sos]\<rparr>)"
    using b2(3) by simp
  have len: "put_header_length alloc (ber_use_der b2) (sos_clen sos) True (c1\<lparr>ber_sos := [sos]\<rparr>)
      = Some (int (length L), c2\<lparr>ber_sos := [sos]\<rparr>)"
    unfolding put_header_length_nosos b2(2,5) s1 c2(1) by (simp add: with_sos_def)
  have put: "ber_put_seqorset alloc b2 = put_toplevel alloc b2 sos lenlen"
    using b2(1,2,5) by (simp add: ber_put_seqorset_def FOUR_BYTE_LEN_def lenlen_def)
  have l0: "length L \<noteq> 0" "\<not> ber_use_der b2 \<longrightarrow> length L = 5"
    using lL b2(5) by (auto simp: lenlen_def)
  note top = put_toplevel_eq [OF tag len l0(1) l0(2), of lenlen, unfolded b2(2,4,5)]
  have t: "length ?T = ber_calc_taglen tag" by (simp add: tag_octets_def)
  have size: "of_nat (length ?T) + of_nat lenlen + ?len = (of_nat (length (?H @ cs)) :: u32)"
    by (simp add: H lL(1))
  have small: "length (?H @ cs) < 2 ^ 31" "unat ?len = length cs"
    using assms(4) lL t by (simp_all add: H write_limit_def)
  have c2_ptr: "ber_ptr c2 = ?first + length ?H" using B'(1) b2(6) by (simp add: moved_def)
  show ?thesis
  proof (cases "cs = []")
    case True
    have "b2\<lparr>ber_sos := []\<rparr> = b" using assms(2,5) True by (simp add: opened_def)
    then have c2w: "writes b ?H c2" using raw_writes_writes [OF HL] by simp
    have "ber_move d s (unat ?len) x = Some x" for d s x using True by (simp add: ber_move_def ber_store_def)
    moreover have "c2\<lparr>ber_sos := [sos]\<rparr>\<lparr>ber_ptr := ber_ptr (c2\<lparr>ber_sos := [sos]\<rparr>) + unat ?len, ber_sos := []\<rparr> = c2"
      using True writes_state(1) [OF c2w] assms(5) by simp
    ultimately have "ber_put_seqorset alloc b2 = Some (int (length (?H @ cs)), c2)"
      unfolding put top size sint_of_nat [OF small(1)] by simp
    then show ?thesis using c2w True by auto
  next
    case False
    obtain P R where PR: "b2 = b\<lparr>ber_buf := Some (P @ cs @ R), ber_end := length (P @ cs @ R),
      ber_sos := bump (length cs) (ber_sos (opened tag b))\<rparr>"
    "length P = ?first + ber_calc_taglen tag + 5"
    "take (ber_end b) P = take (length P) (ber_block b)"
    "good_size (length (P @ cs @ R))" "ber_end b \<le> length (P @ cs @ R)"
      using contents_in_block [OF assms(2) False] by metis
    let ?m = "?first + length ?H" and ?Q = "take ?first P" and ?gap = "drop (?first + length ?H) P"
    have lens: "?m \<le> length P" "length ?gap = 5 - lenlen" "length ?Q = ?first"
      using PR(2) lL t by (simp_all add: H)
    have blk: "ber_block b2 = P @ cs @ R" unfolding PR(1) by (simp add: ber_block_def)
    obtain E where E: "B' = ?Q @ ?H @ ?gap @ cs @ R @ E"
    proof -
      have o: "take ?first (P @ cs @ R) = take ?first B'"
          "?gap @ cs @ R = take (length (P @ cs @ R) - ?m) (drop ?m B')"
        using B'(2) lens unfolding blk overwritten_def by (simp_all add: min_def)
      have "drop ?m B' = (?gap @ cs @ R) @ drop (length (P @ cs @ R) - ?m) (drop ?m B')"
        unfolding o(2) by (rule append_take_drop_id [symmetric])
      moreover have "take ?first B' = ?Q" using o(1) lens by simp
      ultimately show thesis using overwritten_split [OF B'(2)] that by (metis append.assoc)
    qed
    have "good_size (length B')" "length (P @ cs @ R) \<le> length B'"
      using B'(2) unfolding overwritten_def blk by simp_all
    note B'size = this
    obtain R' where R': "(if ?der \<and> lenlen \<noteq> 5
           then ber_move (?first + length ?T + lenlen) (?first + length ?T + 5) (unat ?len) (c2\<lparr>ber_sos := [sos]\<rparr>)
           else Some (c2\<lparr>ber_sos := [sos]\<rparr>))
        = Some (c2\<lparr>ber_sos := [sos], ber_buf := Some ((?Q @ ?H) @ cs @ R')\<rparr>)"
        "length ((?Q @ ?H) @ cs @ R') = length B'"
    proof (cases "?der \<and> lenlen \<noteq> 5")
      case True
      let ?x = "c2\<lparr>ber_sos := [sos]\<rparr>"
      have x: "ber_block ?x = (?Q @ ?H) @ ?gap @ cs @ R @ E" "ber_buf ?x \<noteq> None"
        using B'(1) E by (simp_all add: moved_def ber_block_def)
      have d: "?first + length ?T + lenlen = length (?Q @ ?H)"
        unfolding length_append lens(3) by (simp add: H lL(1))
      have s: "?first + length ?T + 5 = length ((?Q @ ?H) @ ?gap)"
        unfolding length_append [of "?Q @ ?H"] d [symmetric] lens(2) using lL(2) by simp
      obtain R' where "ber_move (?first + length ?T + lenlen) (?first + length ?T + 5) (length cs) ?x
          = Some (?x\<lparr>ber_buf := Some ((?Q @ ?H) @ cs @ R')\<rparr>)" "length R' = length ?gap + length (R @ E)"
        using ber_move_at [OF x(1) d s x(2)] by blast
      moreover have "length ((?Q @ ?H) @ cs @ R') = length B'" using calculation(2) by (simp add: E)
      ultimately show thesis using that [of R'] True small(2) by simp
    next
      case no: False
      then have "lenlen = 5" by (auto simp: lenlen_def)
      then have "?gap = []" using lens(2) by simp
      then have "B' = (?Q @ ?H) @ cs @ R @ E" using E by simp
      then show thesis
        using that [of "R @ E"] no B'(1) by (simp add: moved_def)
    qed
    let ?B3 = "?Q @ (?H @ cs) @ R'"
    have B3: "length ?B3 = length B'" using R'(2) by simp
    have "ber_put_seqorset alloc b2 = Some (int (length (?H @ cs)),
        c2\<lparr>ber_sos := [sos], ber_buf := Some ?B3\<rparr>\<lparr>ber_ptr := ber_ptr c2 + length cs, ber_sos := []\<rparr>)"
      unfolding put top R'(1) option.case size sint_of_nat [OF small(1)] using small(2) by simp
    also have "c2\<lparr>ber_sos := [sos], ber_buf := Some ?B3\<rparr>\<lparr>ber_ptr := ber_ptr c2 + length cs, ber_sos := []\<rparr>
        = moved b (length (?H @ cs)) ?B3"
      unfolding moved_def B3 using B'(1) PR(1) assms(5) first by (simp add: moved_def)
    finally have put3: "ber_put_seqorset alloc b2 = Some (int (length (?H @ cs)), moved b (length (?H @ cs)) ?B3)" .
    have pre: "take (ber_end b) ?Q = take ?first (ber_block b)"
    proof -
      have "take (ber_end b) ?Q = take ?first (take (ber_end b) P)" by (simp add: min.commute)
      then show ?thesis unfolding PR(3) using PR(2) by (simp add: min_def)
    qed
    have "?H @ cs \<noteq> []" using False by simp
    then have "writes b (?H @ cs) (moved b (length (?H @ cs)) ?B3)"
      using writesI [of "?H @ cs" "moved b (length (?H @ cs)) ?B3" b ?Q R'] lens(3) pre B'size PR(5)
      unfolding B3 by simp
    with put3 show ?thesis by blast
  qed
qed

end
