(* ===== verification/Ber_Safety.thy ===== *)
theory Ber_Safety imports Ber_Values begin

text \<open>
  What the decoders do with octets nobody vouches for: on every readable element they return, and
  never look outside the unread octets.  \<open>bounded_getter\<close> is the interface between a decoder and the
  loops of \<open>ber_scanf\<close>; \<open>ber_scanf_safe\<close> is the result, for whatever the allocator does: a vector needs
  its allocations, which the code does not check, and a bit string that the one its length wraps to fails.
\<close>

section \<open>No decoder leaves the unread octets\<close>

text \<open>
  \<open>within b n tag m\<close>: the decoder that returned \<open>tag\<close> moved by \<open>n\<close> octets, which were there, with
  \<open>m\<close> more behind them; a success moved at least one.
\<close>

definition within :: "berelement \<Rightarrow> nat \<Rightarrow> u32 \<Rightarrow> nat \<Rightarrow> bool" where
  "within b n tag m \<longleftrightarrow> n \<le> length (unread b) \<and> (tag \<noteq> LBER_DEFAULT \<longrightarrow> 0 < n \<and> n + m \<le> length (unread b))"

lemma read_one:
  assumes "readable b"
  shows "ber_read b 1 = (if unread b = [] then Some ([], b) else Some ([hd (unread b)], advance 1 b))"
  using assms by (cases "unread b") (simp_all add: ber_read_eq)

lemma get_tag_more_within:
  "readable b \<Longrightarrow> \<exists>t n. get_tag_more b i tag = Some (t, advance n b) \<and> n \<le> length (unread b)"
proof (induction "4 - i" arbitrary: b i tag)
  case 0
  then show ?case by (intro exI [of _ LBER_DEFAULT] exI [of _ 0]) (simp add: get_tag_more.simps)
next
  case (Suc k)
  show ?case
  proof (cases "unread b = []")
    case True
    then show ?thesis using Suc
      by (intro exI [of _ LBER_DEFAULT] exI [of _ 0]) (simp add: get_tag_more.simps [of b i] read_one)
  next
    case False
    let ?x = "hd (unread b)" and ?b = "advance 1 b"
    have one: "1 \<le> length (unread b)" using False by (cases "unread b") auto
    obtain t n where tn: "get_tag_more ?b (Suc i) (shift_in tag ?x) = Some (t, advance n ?b)"
        "n \<le> length (unread ?b)"
      using Suc.hyps(1) [of "Suc i" ?b] Suc.hyps(2) Suc.prems one by fastforce
    have i: "\<not> 4 \<le> i" using Suc.hyps(2) by simp
    show ?thesis
    proof (cases "more_octets ?x")
      case True
      then show ?thesis
        using tn i one False Suc.prems
        by (intro exI [of _ t] exI [of _ "1 + n"])
          (simp add: get_tag_more.simps [of b i] read_one shift_in_alt more_octets_def advance_advance)
    next
      case False
      then show ?thesis
        using i one \<open>unread b \<noteq> []\<close> Suc.prems
        by (intro exI [of _ "shift_in tag ?x"] exI [of _ 1])
          (simp add: get_tag_more.simps [of b i] read_one shift_in_alt more_octets_def)
    qed
  qed
qed

lemma ber_get_tag_within:
  assumes "readable b"
  shows "\<exists>t n. ber_get_tag b = Some (t, advance n b) \<and> within b n t 0"
proof (cases "unread b = []")
  case True
  with assms show ?thesis
    by (intro exI [of _ LBER_DEFAULT] exI [of _ 0]) (simp add: ber_get_tag_def read_one within_def)
next
  case False
  let ?x = "hd (unread b)" and ?b = "advance 1 b"
  have one: "1 \<le> length (unread b)" using False by (cases "unread b") auto
  obtain t n where tn: "get_tag_more ?b 1 (ucast ?x) = Some (t, advance n ?b)" "n \<le> length (unread ?b)"
    using get_tag_more_within [of ?b 1 "ucast ?x"] assms one by auto
  show ?thesis
  proof (cases "big_tag ?x")
    case True
    then show ?thesis
      using tn one False assms
      by (intro exI [of _ t] exI [of _ "1 + n"])
        (auto simp: ber_get_tag_def read_one big_tag_def within_def advance_advance)
  next
    case False
    then show ?thesis
      using one \<open>unread b \<noteq> []\<close> assms
      by (intro exI [of _ "ucast ?x"] exI [of _ 1])
        (auto simp: ber_get_tag_def read_one big_tag_def within_def)
  qed
qed

lemma skip_tag_checked_within:
  assumes "readable b"
  shows "\<exists>t. skip_tag_checked tag len b = Some (t, len, b)
    \<and> (t \<noteq> LBER_DEFAULT \<longrightarrow> t = tag \<and> unat len \<le> length (unread b))"
proof -
  let ?n = "length (unread b)"
  have "unat (of_nat ?n :: u32) = ?n" using length_unread_less [OF assms] by (rule unat_of_nat_u32)
  then show ?thesis
    by (auto simp: skip_tag_checked_def ber_pvt_ber_remaining_eq [OF assms] word_less_nat_alt not_less)
qed

lemma ber_skip_tag_within:
  assumes "readable b"
  shows "\<exists>t l n. ber_skip_tag b = Some (t, l, advance n b) \<and> within b n t (unat l)"
proof -
  obtain tag n where tag: "ber_get_tag b = Some (tag, advance n b)" "within b n tag 0"
    using ber_get_tag_within [OF assms] by blast
  let ?b1 = "advance n b"
  have b1: "readable ?b1" using tag(2) assms by (simp add: within_def)
  have u1: "unread ?b1 = drop n (unread b)" using tag(2) by (simp add: within_def)
  show ?thesis
  proof (cases "tag = LBER_DEFAULT \<or> unread ?b1 = []")
    case True
    then show ?thesis
      using tag b1 by (intro exI [of _ LBER_DEFAULT] exI [of _ 0] exI [of _ n])
        (auto simp: ber_skip_tag_def read_one within_def)
  next
    case False
    let ?lc = "hd (unread ?b1)" and ?b2 = "advance 1 ?b1"
    have one: "1 \<le> length (unread ?b1)" using False by (cases "unread ?b1") auto
    have b2: "readable ?b2" using b1 one by simp
    have u2: "length (unread ?b2) + Suc n = length (unread b)" using one u1 by simp
    let ?k = "ucast (?lc AND 0x7f) :: u32"
    have r: "ber_read ?b1 1 = Some ([?lc], ?b2)" using False b1 by (simp add: read_one)
    show ?thesis
    proof (cases "?lc AND 0x80 = 0")
      case True
      obtain t where t: "skip_tag_checked tag (ucast ?lc) ?b2 = Some (t, ucast ?lc, ?b2)"
          "t \<noteq> LBER_DEFAULT \<longrightarrow> t = tag \<and> unat (ucast ?lc :: u32) \<le> length (unread ?b2)"
        using skip_tag_checked_within [OF b2] by blast
      then have "ber_skip_tag b = Some (t, ucast ?lc, advance (Suc n) b)"
          "within b (Suc n) t (unat (ucast ?lc :: u32))"
        using tag(1) r True False u2 by (auto simp: ber_skip_tag_def within_def advance_advance)
      then show ?thesis by blast
    next
      case long: False
      let ?got = "take (unat ?k) (unread ?b2)" and ?b3 = "advance (min (unat ?k) (length (unread ?b2))) ?b2"
      have r2: "ber_read ?b2 ?k = Some (?got, ?b3)" by (rule ber_read_eq [OF b2])
      show ?thesis
      proof (cases "?k > 4 \<or> of_nat (length ?got) \<noteq> ?k")
        case True
        then have "ber_skip_tag b = Some (LBER_DEFAULT, 0, if ?k > 4 then ?b2 else ?b3)"
          using tag(1) r r2 long False by (auto simp: ber_skip_tag_def Let_def)
        moreover have "within b (Suc n) LBER_DEFAULT (unat (0 :: u32))"
            "within b (Suc n + min (unat ?k) (length (unread ?b2))) LBER_DEFAULT (unat (0 :: u32))"
          using u2 by (auto simp: within_def)
        ultimately show ?thesis by (cases "?k > 4") (auto simp: advance_advance)
      next
        case ok: False
        let ?m = "min (unat ?k) (length (unread ?b2))"
        have b3: "readable ?b3" using b2 by simp
        have u3: "length (unread ?b3) + (Suc n + ?m) = length (unread b)" using u2 by simp
        obtain t where t: "skip_tag_checked tag (of_be ?got) ?b3 = Some (t, of_be ?got, ?b3)"
            "t \<noteq> LBER_DEFAULT \<longrightarrow> t = tag \<and> unat (of_be ?got) \<le> length (unread ?b3)"
          using skip_tag_checked_within [OF b3] by blast
        have "ber_skip_tag b = Some (t, of_be ?got, ?b3)"
          using tag(1) r r2 long False ok t(1) by (simp add: ber_skip_tag_def Let_def)
        moreover have "within b (Suc n + ?m) t (unat (of_be ?got))"
          using u3 t(2) by (auto simp: within_def)
        ultimately show ?thesis by (auto simp: advance_advance)
      qed
    qed
  qed
qed

lemma ber_skip_tag_cases:
  assumes "readable b"
  obtains (bad) l n where "ber_skip_tag b = Some (LBER_DEFAULT, l, advance n b)" "n \<le> length (unread b)"
  | (ok) t l n contents where "ber_skip_tag b = Some (t, l, advance n b)" "t \<noteq> LBER_DEFAULT"
      "0 < n" "n + unat l \<le> length (unread b)" "length contents = unat l"
      "contents = take (unat l) (drop n (unread b))"
      "\<And>k. unat k \<le> unat l \<Longrightarrow> ber_read (advance n b) k
        = Some (take (unat k) (drop n (unread b)), advance (n + unat k) b)"
proof -
  obtain t l n where s: "ber_skip_tag b = Some (t, l, advance n b)" "within b n t (unat l)"
    using ber_skip_tag_within [OF assms] by blast
  show thesis
  proof (cases "t = LBER_DEFAULT")
    case True
    with s show thesis by (intro bad [of l n]) (simp_all add: within_def)
  next
    case False
    with s have n: "0 < n" "n + unat l \<le> length (unread b)" by (simp_all add: within_def)
    then have r: "readable (advance n b)" using assms by simp
    show thesis
      using s False n ber_read_eq [OF r] by (intro ok [of t l n]) (auto simp: advance_advance min_def)
  qed
qed

text \<open>What every decoder promises: it returns, and moves within the unread octets.\<close>

locale bounded_getter =
  fixes get :: "'a getter"
  assumes bounded: "readable b \<Longrightarrow> \<exists>t x n. get b = Some (t, x, advance n b) \<and> within b n t 0"

lemma within_default [simp]: "within b n LBER_DEFAULT m = (n \<le> length (unread b))"
  by (simp add: within_def)

lemma ber_getnint_within:
  assumes "unat len \<le> length (unread b)" "readable b"
  shows "\<exists>r x n. ber_getnint b len = Some (r, x, advance n b) \<and> n \<le> unat len"
  using assms by (cases "len > 4") (auto simp: ber_getnint_def ber_read_eq min_def intro: exI [of _ 0])

lemma ber_get_int_within:
  assumes "readable b"
  shows "\<exists>t x n. ber_get_int b = Some (t, x, advance n b) \<and> within b n t 0"
  using assms
proof (cases b rule: ber_skip_tag_cases)
  case (ok t l n contents)
  let ?b = "advance n b"
  have "readable ?b" "unat l \<le> length (unread ?b)" using assms ok by simp_all
  then obtain r x m where "ber_getnint ?b l = Some (r, x, advance m ?b)" "m \<le> unat l"
    using ber_getnint_within by blast
  then show ?thesis
    using ok by (auto simp: ber_get_int_def within_def advance_advance)
qed (auto simp: ber_get_int_def)

interpretation get_int: bounded_getter ber_get_int
  by unfold_locales (rule ber_get_int_within)

interpretation get_boolean: bounded_getter ber_get_boolean
  by unfold_locales (auto simp: ber_get_boolean_def ber_get_int_within)

interpretation get_stringb: bounded_getter "\<lambda>b. ber_get_stringb b room" for room
proof unfold_locales
  fix b :: berelement
  assume "readable b"
  then show "\<exists>t x n. ber_get_stringb b room = Some (t, x, advance n b) \<and> within b n t 0"
  proof (cases b rule: ber_skip_tag_cases)
    case (ok t l n contents)
    then show ?thesis by (auto simp: ber_get_stringb_def within_def min_def)
  qed (auto simp: ber_get_stringb_def)
qed

interpretation get_stringa: bounded_getter "ber_get_stringa alloc" for alloc
proof unfold_locales
  fix b :: berelement
  assume "readable b"
  then show "\<exists>t x n. ber_get_stringa alloc b = Some (t, x, advance n b) \<and> within b n t 0"
  proof (cases b rule: ber_skip_tag_cases)
    case (ok t l n contents)
    then show ?thesis by (auto simp: ber_get_stringa_def within_def min_def)
  qed (auto simp: ber_get_stringa_def)
qed

interpretation get_stringal: bounded_getter "ber_get_stringal alloc" for alloc
proof unfold_locales
  fix b :: berelement
  assume "readable b"
  then show "\<exists>t x n. ber_get_stringal alloc b = Some (t, x, advance n b) \<and> within b n t 0"
  proof (cases b rule: ber_skip_tag_cases)
    case (ok t l n contents)
    then show ?thesis by (auto simp: ber_get_stringal_def within_def min_def)
  qed (auto simp: ber_get_stringal_def)
qed

lemma ber_get_null_within:
  "readable b \<Longrightarrow> \<exists>t n. ber_get_null b = Some (t, advance n b) \<and> within b n t 0"
  by (cases b rule: ber_skip_tag_cases) (auto simp: ber_get_null_def within_def)

lemma ber_peek_tag_within:
  assumes "readable b"
  shows "\<exists>t l. ber_peek_tag b = Some (t, l, b) \<and> (t \<noteq> LBER_DEFAULT \<longrightarrow> unread b \<noteq> [])"
  using assms
proof (cases b rule: ber_skip_tag_cases)
  case (bad l n)
  then show ?thesis by (auto simp: ber_peek_tag_def advance_def)
next
  case (ok t l n contents)
  then show ?thesis by (auto simp: ber_peek_tag_def advance_def)
qed

text \<open>
  The length of a bit string is decremented before it is looked at: without contents it becomes 2^32 - 1,
  and only an allocator that has no such block keeps the decoder from its error path.
\<close>

lemma ber_get_bitstringa_within:
  assumes "\<not> alloc (-1)" "readable b"
  shows "\<exists>t x n. ber_get_bitstringa alloc b = Some (t, x, advance n b) \<and> within b n t 0"
  using assms(2)
proof (cases b rule: ber_skip_tag_cases)
  case (ok t l n contents)
  let ?b = "advance n b"
  show ?thesis
  proof (cases "memalloc_ok alloc (l - 1)")
    case True
    then have "l \<noteq> 0" using assms(1) by (auto simp: memalloc_ok_def)
    then have l: "unat (l - 1) = unat l - 1" "0 < unat l" by (simp_all add: unat_minus_one unat_gt_0)
    have b: "readable ?b" "1 + unat (l - 1) \<le> length (unread ?b)" using assms(2) ok l by simp_all
    then have r: "ber_read ?b 1 = Some ([hd (unread ?b)], advance 1 ?b)" "readable (advance 1 ?b)"
      by (cases "unread ?b"; simp add: read_one)+
    have "ber_read (advance 1 ?b) (l - 1) = Some (take (unat (l - 1)) (unread (advance 1 ?b)), advance (unat (l - 1)) (advance 1 ?b))"
      using ber_read_eq [OF r(2)] b by simp
    moreover have "length (take (unat (l - 1)) (unread (advance 1 ?b))) = unat (l - 1)" using b by simp
    ultimately have "\<exists>x. ber_get_bitstringa alloc b = Some (t, x, advance (n + unat l) b)"
      using ok(1,2) True r(1) l by (simp add: ber_get_bitstringa_def advance_advance)
    then show ?thesis using ok by (auto simp: within_def)
  qed (use ok in \<open>auto simp: ber_get_bitstringa_def\<close>)
qed (auto simp: ber_get_bitstringa_def)

section \<open>Vectors\<close>

lemma within_start: "within b n t m \<Longrightarrow> n \<le> length (unread b)"
  by (simp add: within_def)

context bounded_getter begin

lemma moves: "readable b \<Longrightarrow> \<exists>t x n. get b = Some (t, x, advance n b) \<and> n \<le> length (unread b)"
  using bounded within_start by blast

end

text \<open>The getters of vectors, which moreover store something when they succeed.\<close>

locale string_getter = bounded_getter get for get :: "'a option getter" +
  assumes stores: "get b = Some (t, x, b') \<Longrightarrow> t \<noteq> LBER_DEFAULT \<Longrightarrow> x \<noteq> None"

interpretation stringas: string_getter "ber_get_stringa alloc" for alloc
  by unfold_locales (auto simp: ber_get_stringa_def split: option.splits prod.splits if_splits)

interpretation stringals: string_getter "ber_get_stringal alloc" for alloc
  by unfold_locales (auto simp: ber_get_stringal_def split: option.splits prod.splits if_splits)

text \<open>Only the last element of a vector, the one that failed, can be a null pointer.\<close>

abbreviation all_stored :: "'a option list \<Rightarrow> bool" where
  "all_stored xs \<equiv> list_all (\<lambda>x. x \<noteq> None) xs"

context string_getter begin

lemma vector_loop_within:
  assumes "\<forall>n. n \<noteq> -1 \<longrightarrow> alloc n" "readable b" "length (unread b) + 1 < fuel"
    and "length xs + length (unread b) < 2 ^ 29" "rc \<noteq> LBER_DEFAULT \<longrightarrow> all_stored xs" "all_stored (butlast xs)"
  shows "\<exists>rc' xs' n. vector_loop fuel alloc get stop tag xs rc b = Some (rc', xs', advance n b)
    \<and> n \<le> length (unread b) \<and> all_stored (butlast xs')"
  using assms
proof (induction fuel arbitrary: tag xs rc b)
  case (Suc fuel)
  show ?case
  proof (cases "tag = LBER_DEFAULT \<or> rc = LBER_DEFAULT")
    case True
    then show ?thesis using Suc.prems(6) by (auto intro: exI [of _ 0])
  next
    case False
    have l: "unat (of_nat ((length xs + 2) * 4) :: u32) = (length xs + 2) * 4"
      using Suc.prems by (intro unat_of_nat_u32) simp
    have "unat (-1 :: u32) = 2 ^ 32 - 1" by (simp add: unsigned_minus_1_eq_mask mask_eq_exp_minus_1)
    have "w \<noteq> 0 \<and> w \<noteq> -1" if "w = of_nat ((length xs + 2) * 4)" for w :: u32
    proof -
      have "unat w = (length xs + 2) * 4" unfolding that by (rule l)
      moreover have "(length xs + 2) * 4 < 2 ^ 32 - 1" "0 < (length xs + 2) * 4" using Suc.prems(4) by simp_all
      moreover have "unat (-1 :: u32) = 2 ^ 32 - 1" "unat (0 :: u32) = 0" by fact simp
      ultimately show ?thesis by (metis nat_less_le)
    qed
    then have ok: "memalloc_ok alloc (of_nat ((length xs + 2) * 4))"
      using Suc.prems(1) by (simp add: memalloc_ok_def)
    obtain t x n where g: "get b = Some (t, x, advance n b)" "within b n t 0"
      using bounded [OF Suc.prems(2)] by blast
    let ?b = "advance n b"
    have b: "readable ?b" "n \<le> length (unread b)" using g(2) Suc.prems(2) by (simp_all add: within_start)
    obtain tag' l where ne: "ber_next_element ?b stop = Some (tag', l, ?b)"
      using ber_peek_tag_within [OF b(1)] by (cases "ber_ptr ?b = stop") (auto simp: ber_next_element_def)
    have xs: "all_stored xs" using Suc.prems(5) False by simp
    have "\<exists>rc' xs' m. vector_loop fuel alloc get stop tag' (xs @ [x]) t ?b = Some (rc', xs', advance m ?b)
      \<and> m \<le> length (unread ?b) \<and> all_stored (butlast xs')"
    proof (cases "t = LBER_DEFAULT")
      case True
      then have "vector_loop fuel alloc get stop tag' (xs @ [x]) t ?b = Some (t, xs @ [x], advance 0 ?b)"
        using Suc.prems(3) by (cases fuel) auto
      then show ?thesis using xs by (intro exI [of _ t] exI [of _ "xs @ [x]"] exI [of _ 0]) simp
    next
      case False
      then have "0 < n" "n \<le> length (unread b)" "x \<noteq> None" using g(2) stores [OF g(1)] by (simp_all add: within_def)
      then show ?thesis using Suc.prems b(1) xs by (intro Suc.IH) (auto simp: butlast_append)
    qed
    then obtain rc' xs' m where "vector_loop fuel alloc get stop tag' (xs @ [x]) t ?b
        = Some (rc', xs', advance m ?b)" "m \<le> length (unread ?b)" "all_stored (butlast xs')" by blast
    then show ?thesis
      using False ok g(1) ne b(2) by (auto simp: advance_advance)
  qed
qed simp

declare vector_loop.simps(2) [simp del]

lemma scan_vector_within:
  assumes "\<forall>n. n \<noteq> -1 \<longrightarrow> alloc n" "readable b" "length (unread b) < 2 ^ 29"
  shows "\<exists>rc' xs n. scan_vector alloc get rc b = Some (rc', xs, advance n b) \<and> n \<le> length (unread b) \<and> all_stored (butlast xs)"
  using assms(2)
proof (cases b rule: ber_skip_tag_cases)
  case (bad l n)
  then show ?thesis by (auto simp: scan_vector_def ber_first_element_def)
next
  case (ok t l n contents)
  let ?b = "advance n b"
  have b: "readable ?b" "n \<le> length (unread b)" using assms(2) ok by simp_all
  show ?thesis
  proof (cases "unat l = 0")
    case True
    then show ?thesis using ok by (auto simp: scan_vector_def ber_first_element_def)
  next
    case False
    obtain t' l' where p: "ber_peek_tag ?b = Some (t', l', ?b)"
      using ber_peek_tag_within [OF b(1)] by blast
    have "length (unread ?b) + 1 < Suc (Suc (length (ber_block b)))"
      using b(1) by (auto simp: length_unread) (auto simp: readable_def)
    moreover have "length [] + length (unread ?b) < 2 ^ 29"
      using assms(3) b(2) by simp
    ultimately obtain rc' xs m where v: "vector_loop (Suc (Suc (length (ber_block b)))) alloc get
        (ber_ptr ?b + unat l) t' [] rc ?b = Some (rc', xs, advance m ?b)" "m \<le> length (unread ?b)" "all_stored (butlast xs)"
      using vector_loop_within [OF assms(1) b(1), where xs = "[]" and fuel = "Suc (Suc (length (ber_block b)))"
        and stop = "ber_ptr ?b + unat l" and tag = t' and rc = rc] by auto
    show ?thesis
    proof (cases "t' = LBER_DEFAULT")
      case True
      then show ?thesis
        using ok False p b(2) by (auto simp: scan_vector_def ber_first_element_def)
    next
      case t': False
      then have "scan_vector alloc get rc b = Some (rc', xs, advance (n + m) b)"
        using ok(1,2) False p v(1) by (simp add: scan_vector_def ber_first_element_def advance_advance)
      then show ?thesis using v(2,3) b(2) by auto
    qed
  qed
qed

end

section \<open>Formatted decoding\<close>

definition pointer_convs :: "char set" where "pointer_convs = set ''abeiloOBtTvV''"
definition plain_convs :: "char set" where "plain_convs = set ''nx{[}]''"

fun scan_ready :: "string \<Rightarrow> scanf_arg list \<Rightarrow> bool" where
  "scan_ready [] args = True"
| "scan_ready (c # fmt) args =
    (if c \<in> pointer_convs then (case args of SPtr # rest \<Rightarrow> scan_ready fmt rest | _ \<Rightarrow> False)
     else if c = CHR ''s'' then (case args of SBuf room # rest \<Rightarrow> scan_ready fmt rest | _ \<Rightarrow> False)
     else c \<in> plain_convs \<and> scan_ready fmt args)"

lemma scanf_conv_pointer:
  "scanf_conv alloc CHR ''a'' fmt (SPtr # rest) rc ber =
    map_option (\<lambda>(t, s, b). (t, OStr s, b, rest)) (ber_get_stringa alloc ber)"
  "scanf_conv alloc CHR ''b'' fmt (SPtr # rest) rc ber =
    map_option (\<lambda>(t, i, b). (t, OInt i, b, rest)) (ber_get_boolean ber)"
  "scanf_conv alloc CHR ''e'' fmt (SPtr # rest) rc ber =
    map_option (\<lambda>(t, i, b). (t, OInt i, b, rest)) (ber_get_int ber)"
  "scanf_conv alloc CHR ''i'' fmt (SPtr # rest) rc ber =
    map_option (\<lambda>(t, i, b). (t, OInt i, b, rest)) (ber_get_int ber)"
  "scanf_conv alloc CHR ''l'' fmt (SPtr # rest) rc ber =
    map_option (\<lambda>(t, l, b). (t, OLen l, b, rest)) (ber_peek_tag ber)"
  "scanf_conv alloc CHR ''o'' fmt (SPtr # rest) rc ber =
    (case ber_peek_tag ber of None \<Rightarrow> None
     | Some (_, l, b1) \<Rightarrow> map_option (\<lambda>(t, s, b). (t, OBval l s, b, rest)) (ber_get_stringa alloc b1))"
  by (simp_all add: scanf_conv_def option.map_comp comp_def case_prod_unfold split: option.split)

lemma scanf_conv_vector:
  "scanf_conv alloc CHR ''O'' fmt (SPtr # rest) rc ber =
    map_option (\<lambda>(t, bv, b). (t, OBerval bv, b, rest)) (ber_get_stringal alloc ber)"
  "scanf_conv alloc CHR ''B'' fmt (SPtr # rest) rc ber =
    map_option (\<lambda>(t, r, b). (t, (case r of None \<Rightarrow> OBits None 0 | Some (s, l) \<Rightarrow> OBits (Some s) l), b, rest)) (ber_get_bitstringa alloc ber)"
  "scanf_conv alloc CHR ''t'' fmt (SPtr # rest) rc ber =
    map_option (\<lambda>(t, l, b). (t, OTag t, b, rest)) (ber_peek_tag ber)"
  "scanf_conv alloc CHR ''T'' fmt (SPtr # rest) rc ber =
    map_option (\<lambda>(t, l, b). (t, OTag t, b, rest)) (ber_skip_tag ber)"
  "scanf_conv alloc CHR ''v'' fmt (SPtr # rest) rc ber =
    map_option (\<lambda>(t, xs, b). (t, OStrVec (nonempty_vector xs), b, rest))
      (scan_vector alloc (ber_get_stringa alloc) rc ber)"
  "scanf_conv alloc CHR ''V'' fmt (SPtr # rest) rc ber =
    map_option (\<lambda>(t, xs, b). (t, OBvVec (nonempty_vector xs), b, rest))
      (scan_vector alloc (ber_get_stringal alloc) rc ber)"
  by (simp_all add: scanf_conv_def option.map_comp comp_def case_prod_unfold)

lemma scanf_conv_plain:
  "scanf_conv alloc CHR ''s'' fmt (SBuf room # rest) rc ber =
    map_option (\<lambda>(t, s, b). (t, OBuf s, b, rest)) (ber_get_stringb ber room)"
  "scanf_conv alloc CHR ''n'' fmt args rc ber =
    map_option (\<lambda>(t, b). (t, ONone, b, args)) (ber_get_null ber)"
  "scanf_conv alloc CHR ''x'' fmt args rc ber =
    map_option (\<lambda>(t, l, b). (t, ONone,
      if t = LBER_DEFAULT then b else b\<lparr>ber_ptr := ber_ptr b + unat l\<rparr>, args)) (ber_skip_tag ber)"
  "scanf_conv alloc CHR ''{'' fmt args rc ber =
    (if fmt \<noteq> [] \<and> (hd fmt = CHR ''v'' \<or> hd fmt = CHR ''V'') then Some (rc, ONone, ber, args)
     else map_option (\<lambda>(t, l, b). (t, ONone, b, args)) (ber_skip_tag ber))"
  "scanf_conv alloc CHR ''['' fmt args rc ber =
    (if fmt \<noteq> [] \<and> (hd fmt = CHR ''v'' \<or> hd fmt = CHR ''V'') then Some (rc, ONone, ber, args)
     else map_option (\<lambda>(t, l, b). (t, ONone, b, args)) (ber_skip_tag ber))"
  "scanf_conv alloc CHR ''}'' fmt args rc ber = Some (rc, ONone, ber, args)"
  "scanf_conv alloc CHR '']'' fmt args rc ber = Some (rc, ONone, ber, args)"
  by (simp_all add: scanf_conv_def)

lemmas scanf_conv_simps = scanf_conv_pointer scanf_conv_vector scanf_conv_plain

text \<open>What the second loop releases altogether.\<close>

fun releasable :: "scanf_out \<Rightarrow> bool" where
  "releasable (OStrVec (Some xs)) = all_stored (butlast xs)"
| "releasable (OBvVec (Some xs)) = all_stored (butlast xs)"
| "releasable out = True"

definition conv_ok :: "berelement \<Rightarrow> string \<Rightarrow> conv_result \<Rightarrow> bool" where
  "conv_ok b fmt r \<longleftrightarrow> (\<exists>rc out n args. r = Some (rc, out, advance n b, args)
    \<and> n \<le> length (unread b) \<and> scan_ready fmt args \<and> releasable out)"

lemma conv_okI:
  assumes "\<exists>t x n. r = Some (t, x, advance n b) \<and> n \<le> length (unread b)" "scan_ready fmt rest" "\<And>t x. releasable (f t x)"
  shows "conv_ok b fmt (map_option (\<lambda>(t, x, b). (t, f t x, b, rest)) r)"
  using assms by (auto simp: conv_ok_def)

lemma conv_okI_vector:
  assumes "\<exists>t x n. r = Some (t, x, advance n b) \<and> n \<le> length (unread b) \<and> all_stored (butlast x)" "scan_ready fmt rest"
    and "\<And>x. all_stored (butlast x) \<Longrightarrow> releasable (f x)"
  shows "conv_ok b fmt (map_option (\<lambda>(t, x, b). (t, f x, b, rest)) r)"
  using assms by (auto simp: conv_ok_def)

lemma releasable_vector: "all_stored (butlast xs) \<Longrightarrow> releasable (OStrVec (nonempty_vector xs))"
  "all_stored (butlast ys) \<Longrightarrow> releasable (OBvVec (nonempty_vector ys))"
  by (simp_all add: nonempty_vector_def)

lemma conv_ok_same: "scan_ready fmt args \<Longrightarrow> releasable out \<Longrightarrow> conv_ok b fmt (Some (rc, out, b, args))"
  by (auto simp: conv_ok_def intro: exI [of _ 0])

lemma skip_moves: "readable b \<Longrightarrow> \<exists>t l n. ber_skip_tag b = Some (t, l, advance n b) \<and> n \<le> length (unread b)"
  using ber_skip_tag_within within_start by blast

lemma peek_moves: "readable b \<Longrightarrow> \<exists>t l n. ber_peek_tag b = Some (t, l, advance n b) \<and> n \<le> length (unread b)"
  using ber_peek_tag_within [of b] by (metis advance_simps(4) le0)

lemma conv_ok_skip: "readable b \<Longrightarrow> scan_ready fmt rest \<Longrightarrow>
    conv_ok b fmt (map_option (\<lambda>(t, l, b). (t, ONone, b, rest)) (ber_skip_tag b))"
  by (rule conv_okI [OF skip_moves]) simp_all

text \<open>
  What a format needs of the allocator: for a vector every block it asks for; for a bit string that there is no block
  of 2^32 - 1 octets.  Nothing else depends on it.
\<close>

definition memory_for :: "(u32 \<Rightarrow> bool) \<Rightarrow> string \<Rightarrow> bool" where
  "memory_for alloc fmt \<longleftrightarrow> (CHR ''v'' \<in> set fmt \<or> CHR ''V'' \<in> set fmt \<longrightarrow> (\<forall>n. n \<noteq> -1 \<longrightarrow> alloc n))
    \<and> (CHR ''B'' \<in> set fmt \<longrightarrow> \<not> alloc (-1))"

lemma scanf_conv_within:
  assumes "memory_for alloc (c # fmt)" "readable b" "length (unread b) < 2 ^ 29" "scan_ready (c # fmt) args"
  shows "conv_ok b fmt (scanf_conv alloc c fmt args rc b)"
proof -
  consider (ptr) rest where "args = SPtr # rest" "scan_ready fmt rest" "c \<in> pointer_convs"
    | (buf) room rest where "args = SBuf room # rest" "scan_ready fmt rest" "c = CHR ''s''"
    | (no) "scan_ready fmt args" "c \<in> plain_convs"
    using assms(4) by (auto split: if_splits list.splits scanf_arg.splits)
  then show ?thesis
  proof cases
    case ptr
    note rest = ptr(2) and b = assms(2)
    have "c = CHR ''a'' \<or> c = CHR ''b'' \<or> c = CHR ''e'' \<or> c = CHR ''i'' \<or> c = CHR ''l''
      \<or> c = CHR ''o'' \<or> c = CHR ''O'' \<or> c = CHR ''B'' \<or> c = CHR ''t'' \<or> c = CHR ''T'' \<or> c = CHR ''v'' \<or> c = CHR ''V''"
      using ptr(3) by (simp only: pointer_convs_def list.set insert_iff empty_iff HOL.simp_thms)
    moreover have "conv_ok b fmt (scanf_conv alloc CHR ''o'' fmt args rc b)"
    proof -
      obtain t l where "ber_peek_tag b = Some (t, l, b)" using ber_peek_tag_within [OF b] by blast
      then show ?thesis
        unfolding ptr(1) scanf_conv_simps
        using conv_okI [OF get_stringa.moves [OF b, of alloc] rest, of "\<lambda>t s. OBval l s"] by simp
    qed
    moreover have "conv_ok b fmt (scanf_conv alloc CHR ''B'' fmt args rc b)" if "c = CHR ''B''"
    proof -
      have "\<not> alloc (-1)" using assms(1) that by (simp add: memory_for_def)
      then have "\<exists>t x n. ber_get_bitstringa alloc b = Some (t, x, advance n b) \<and> n \<le> length (unread b)"
        using ber_get_bitstringa_within [OF _ b] within_start by blast
      from conv_okI [OF this rest, of "\<lambda>t r. case r of None \<Rightarrow> OBits None 0 | Some (s, l) \<Rightarrow> OBits (Some s) l"]
      show ?thesis unfolding ptr(1) scanf_conv_simps by (simp split: option.split)
    qed
    moreover have "conv_ok b fmt (scanf_conv alloc c fmt args rc b)" if "c = CHR ''v'' \<or> c = CHR ''V''"
    proof -
      have m: "\<forall>n. n \<noteq> -1 \<longrightarrow> alloc n" using assms(1) that by (auto simp: memory_for_def)
      show ?thesis
        using that conv_okI_vector [OF stringas.scan_vector_within [OF m b assms(3)] rest releasable_vector(1)]
          conv_okI_vector [OF stringals.scan_vector_within [OF m b assms(3)] rest releasable_vector(2)]
        unfolding ptr(1) by (elim disjE) (simp_all only: scanf_conv_simps)
    qed
    ultimately show ?thesis
      by (elim disjE) (simp_all only: ptr(1) scanf_conv_simps conv_okI [OF get_stringa.moves [OF b] rest]
        conv_okI [OF get_boolean.moves [OF b] rest] conv_okI [OF get_int.moves [OF b] rest]
        conv_okI [OF peek_moves [OF b] rest] conv_okI [OF skip_moves [OF b] rest]
        conv_okI [OF get_stringal.moves [OF b] rest] releasable.simps HOL.simp_thms)
  next
    case buf
    show ?thesis
      unfolding buf(1,3) scanf_conv_simps by (rule conv_okI [OF get_stringb.moves [OF assms(2)] buf(2)]) simp
  next
    case no
    note b = assms(2) and skip = conv_ok_skip [OF assms(2) no(1)]
    have "c = CHR ''n'' \<or> c = CHR ''x'' \<or> c = CHR ''{'' \<or> c = CHR ''['' \<or> c = CHR ''}'' \<or> c = CHR '']''"
      using no(2) by (simp only: plain_convs_def list.set insert_iff empty_iff HOL.simp_thms)
    moreover have "conv_ok b fmt (scanf_conv alloc CHR ''n'' fmt args rc b)"
      using ber_get_null_within [OF b] no(1) by (auto simp: scanf_conv_simps conv_ok_def dest: within_start)
    moreover have "conv_ok b fmt (scanf_conv alloc CHR ''x'' fmt args rc b)"
    proof -
      obtain t l n where s: "ber_skip_tag b = Some (t, l, advance n b)" "within b n t (unat l)"
        using ber_skip_tag_within [OF b] by blast
      show ?thesis
      proof (cases "t = LBER_DEFAULT")
        case True
        then show ?thesis using s no(1) by (auto simp: scanf_conv_simps conv_ok_def)
      next
        case False
        have "(advance n b)\<lparr>ber_ptr := ber_ptr (advance n b) + unat l\<rparr> = advance (n + unat l) b"
          by (simp add: advance_def add.assoc)
        moreover have "n + unat l \<le> length (unread b)" using s(2) False by (simp add: within_def)
        ultimately show ?thesis
          unfolding scanf_conv_simps s(1) option.map prod.case using False no(1)
          by (auto simp: conv_ok_def)
      qed
    qed
    ultimately show ?thesis
      by (elim disjE) (simp_all add: scanf_conv_simps skip conv_ok_same [OF no(1)])
  qed
qed

lemma memory_for_Cons: "memory_for alloc (c # fmt) \<Longrightarrow> memory_for alloc fmt"
  by (simp add: memory_for_def)

fun holds_memory :: "scanf_out \<Rightarrow> bool" where
  "holds_memory (OStr s) = (s \<noteq> None)"
| "holds_memory (OBval l s) = (s \<noteq> None)"
| "holds_memory (OBerval bv) = (bv \<noteq> None)"
| "holds_memory (OBits s l) = (s \<noteq> None)"
| "holds_memory (OStrVec v) = (v \<noteq> None)"
| "holds_memory (OBvVec v) = (v \<noteq> None)"
| "holds_memory out = False"

lemma unreleased_stored: "all_stored (butlast xs) \<Longrightarrow> unreleased xs = None"
  by (cases xs rule: rev_cases) (auto simp: unreleased_def list_all_iff dropWhile_append)

lemma reclaim_holds_memory: "releasable out \<Longrightarrow> \<not> holds_memory (reclaim out)"
  by (cases out) (auto simp: unreleased_stored split: option.split)

definition known_convs :: "char set" where "known_convs = pointer_convs \<union> plain_convs \<union> {CHR ''s''}"

lemma convs_known:
  "c \<in> known_convs \<Longrightarrow> c \<in> set ''!abeislotTOBvVnx{[}]'' \<and> c \<noteq> CHR ''!''"
  by (simp only: known_convs_def pointer_convs_def plain_convs_def list.set insert_iff empty_iff Un_iff HOL.simp_thms)
    (elim disjE; simp)

lemma scan_ready_convs:
  "scan_ready (c # fmt) args \<Longrightarrow> c \<in> known_convs"
  by (auto simp: known_convs_def split: if_splits)

declare scan_ready.simps(2) [simp del]

lemma scanf_loop_within:
  assumes "memory_for alloc fmt" "readable b" "length (unread b) < 2 ^ 29" "scan_ready fmt args"
    and "list_all (\<lambda>r. fst r \<in> known_convs \<and> releasable (snd (snd r))) outs"
  shows "\<exists>rc' outs' n. scanf_loop alloc fmt args rc b outs = Some (rc', outs', advance n b)
    \<and> n \<le> length (unread b) \<and> list_all (\<lambda>r. fst r \<in> known_convs \<and> releasable (snd (snd r))) outs'
    \<and> (rc' \<noteq> LBER_DEFAULT \<longrightarrow> length outs' = length outs + length fmt)"
  using assms
proof (induction fmt arbitrary: args rc b outs)
  case Nil
  then show ?case by (auto intro: exI [of _ 0])
next
  case (Cons c fmt)
  show ?case
  proof (cases "rc = LBER_DEFAULT")
    case True
    then show ?thesis using Cons.prems(5) by (auto intro: exI [of _ 0])
  next
    case False
    obtain rc1 out n args1 where c: "scanf_conv alloc c fmt args rc b = Some (rc1, out, advance n b, args1)"
        "n \<le> length (unread b)" "scan_ready fmt args1" "releasable out"
      using scanf_conv_within [OF Cons.prems(1-4)] unfolding conv_ok_def by blast
    obtain rc' outs' m where l: "scanf_loop alloc fmt args1 rc1 (advance n b) (outs @ [(c, args, out)])
          = Some (rc', outs', advance m (advance n b))" "m \<le> length (unread (advance n b))"
        "list_all (\<lambda>r. fst r \<in> known_convs \<and> releasable (snd (snd r))) outs'"
        "rc' \<noteq> LBER_DEFAULT \<longrightarrow> length outs' = length (outs @ [(c, args, out)]) + length fmt"
      using Cons.IH [of "advance n b" args1 "outs @ [(c, args, out)]" rc1] Cons.prems c(2-4)
        scan_ready_convs [OF Cons.prems(4)] memory_for_Cons by fastforce
    then show ?thesis
      using False c by (auto simp: advance_advance)
  qed
qed

lemma scanf_cleanup_eq:
  "list_all (\<lambda>r. fst r \<in> known_convs \<and> releasable (snd (snd r))) outs \<Longrightarrow>
    scanf_cleanup outs b = Some (map (reclaim \<circ> snd \<circ> snd) outs, b)"
proof (induction outs arbitrary: b)
  case (Cons o1 outs)
  obtain c args out where o1: "o1 = (c, args, out)" by (cases o1)
  have "c \<in> known_convs" using Cons.prems o1 by simp
  then have "c \<in> set ''!abeislotTOBvVnx{[}]''" "c \<noteq> CHR ''!''" using convs_known by blast+
  then show ?case using Cons.IH [of b] Cons.prems o1 by (simp del: list.set)
qed simp

text \<open>
  C6: on any element of fewer than 2^29 octets, however malformed its contents and whichever allocations fail,
  \<open>ber_scanf\<close> returns with every format that has no hook and arguments that fit it: it never reads outside the
  unread octets and ends within them; after an error no output still holds memory, the elements of
  vectors included, and after a success every conversion has been done.  Two conversions are safe with some
  allocators only (\<open>memory_for\<close>): a vector where every block can be had, because its block is used unchecked, and a bit string
  where none of 2^32 - 1 octets can, because otherwise its error path frees a wrong pointer.
\<close>

theorem ber_scanf_safe:
  assumes "memory_for alloc fmt" "readable b" "length (unread b) < 2 ^ 29" "scan_ready fmt args"
  shows "\<exists>rc outs n. ber_scanf alloc b fmt args = Some (rc, outs, advance n b) \<and> n \<le> length (unread b)
    \<and> (if rc = LBER_DEFAULT then \<forall>out\<in>set outs. \<not> holds_memory out else length outs = length fmt)"
proof -
  obtain rc outs n where l: "scanf_loop alloc fmt args 0 b [] = Some (rc, outs, advance n b)"
      "n \<le> length (unread b)" "list_all (\<lambda>r. fst r \<in> known_convs \<and> releasable (snd (snd r))) outs"
      "rc \<noteq> LBER_DEFAULT \<longrightarrow> length outs = length ([] :: (char \<times> scanf_arg list \<times> scanf_out) list) + length fmt"
    using scanf_loop_within [OF assms, of "[]" 0] by auto
  then show ?thesis
    by (cases "rc = LBER_DEFAULT")
      (auto simp: ber_scanf_def scanf_cleanup_eq list_all_iff intro!: exI [of _ n] dest: reclaim_holds_memory)
qed

text \<open>With other allocators they are not: an element without contents, and a vector without its block.\<close>

lemma ber_scanf_unsafe:
  "ber_scanf (\<lambda>_. True) \<lparr>ber_options = 0, ber_usertag = 0, ber_tag = LBER_DEFAULT, ber_len = 0,
     ber_buf = Some [0x03, 0x00], ber_ptr = 0, ber_end = 2, ber_sos = [], ber_rwptr = RwNull\<rparr> ''B'' [SPtr] = None"
  "ber_scanf (\<lambda>n. n \<noteq> 8) \<lparr>ber_options = 0, ber_usertag = 0, ber_tag = LBER_DEFAULT, ber_len = 0,
     ber_buf = Some [0x30, 0x02, 0x04, 0x00], ber_ptr = 0, ber_end = 4, ber_sos = [], ber_rwptr = RwNull\<rparr> ''{v}'' [SPtr] = None"
  by code_simp+

theorem ber_scanf_safe_witness:
  "\<exists>rc outs n. ber_scanf (\<lambda>n. n \<noteq> -1)
      \<lparr>ber_options = 0, ber_usertag = 0, ber_tag = LBER_DEFAULT, ber_len = 0,
       ber_buf = Some [0x30, 0x7f, 0x04, 0x84, 0xff], ber_ptr = 0, ber_end = 5, ber_sos = [], ber_rwptr = RwNull\<rparr>
      ''{aBiV}'' [SPtr, SPtr, SPtr, SPtr] = Some (rc, outs, n)
    \<and> (rc = LBER_DEFAULT \<longrightarrow> (\<forall>out\<in>set outs. \<not> holds_memory out))"
proof -
  let ?b = "\<lparr>ber_options = 0, ber_usertag = 0, ber_tag = LBER_DEFAULT, ber_len = 0,
    ber_buf = Some [0x30, 0x7f, 0x04, 0x84, 0xff], ber_ptr = 0, ber_end = 5, ber_sos = [], ber_rwptr = RwNull\<rparr>"
  have "readable ?b" "length (unread ?b) < 2 ^ 29"
    by (simp_all add: readable_def unread_def ber_block_def)
  moreover have "scan_ready ''{aBiV}'' [SPtr, SPtr, SPtr, SPtr]"
    by (simp add: scan_ready.simps(2) pointer_convs_def plain_convs_def)
  moreover have "memory_for (\<lambda>n. n \<noteq> -1) ''{aBiV}''" by (simp add: memory_for_def)
  ultimately show ?thesis
    using ber_scanf_safe [of "\<lambda>n. n \<noteq> -1" "''{aBiV}''" ?b "[SPtr, SPtr, SPtr, SPtr]"]
    by (fastforce split: if_splits)
qed

end
