(* ===== verification/Ber_Codec.thy ===== *)
theory Ber_Codec imports Ber_Sequences Ber_Safety begin

text \<open>
  Round trips of single values and of vectors of them.  \<open>ber_codec\<close> is the interface between an
  encoder, the decoder that reads what it wrote, and the loops of \<open>ber_printf\<close> and \<open>ber_scanf\<close> over
  vectors.
\<close>

section \<open>Decoders in front of a value\<close>

lemma of_nat_u32_nonzero: "0 < n \<Longrightarrow> n < 2 ^ 32 \<Longrightarrow> (of_nat n :: u32) \<noteq> 0"
  by (simp add: word_of_nat_eq_0_iff nat_dvd_not_less)

lemma of_nat_u32_Suc_nonzero: "n < 2 ^ 32 - 1 \<Longrightarrow> (of_nat n + 1 :: u32) \<noteq> 0"
  using of_nat_u32_nonzero [of "Suc n"] by (simp add: add.commute)

lemma ucast_minus_1: "(ucast (-1 :: u32) :: u8) = 0xff"
  by code_simp

lemma read_tlv:
  assumes "readable b" "unread b = tlv tag cs @ rest" "valid_tag tag"
  obtains h where "ber_skip_tag b = Some (tag, of_nat (length cs), advance h b)"
    "ber_read (advance h b) (of_nat (length cs)) = Some (cs, advance (length (tlv tag cs)) b)"
    "readable (advance h b)" "unread (advance h b) = cs @ rest" "unat (of_nat (length cs) :: u32) = length cs"
    "h + length cs = length (tlv tag cs)"
proof -
  let ?H = "tag_octets tag @ len_octets (of_nat (length cs))" and ?len = "of_nat (length cs) :: u32"
  have u: "unread b = ?H @ cs @ rest" using assms(2) by (simp add: tlv_def)
  have "length cs < 2 ^ 32" using length_unread_less [OF assms(1)] u by simp
  then have l: "unat ?len = length cs" by simp
  have s: "ber_skip_tag b = Some (tag, ?len, advance (length ?H) b)"
    by (rule ber_skip_tag_eq [of _ _ _ cs rest]) (use assms(1,3) u l in simp_all)
  have r: "readable (advance (length ?H) b)" "unread (advance (length ?H) b) = cs @ rest"
    using assms(1) u by simp_all
  have "ber_read (advance (length ?H) b) ?len = Some (cs, advance (length cs) (advance (length ?H) b))"
    by (rule ber_read_enough [OF r l])
  then show thesis
    using that [of "length ?H"] s r l by (simp add: advance_advance tlv_def add.assoc)
qed

lemma ber_get_int_tlv:
  assumes "readable b" "unread b = tlv tag (int_octets num) @ rest" "valid_tag tag"
  shows "ber_get_int b = Some (tag, Some num, advance (length (tlv tag (int_octets num))) b)"
proof -
  let ?cs = "int_octets num"
  obtain h where h: "ber_skip_tag b = Some (tag, of_nat (length ?cs), advance h b)"
    "ber_read (advance h b) (of_nat (length ?cs)) = Some (?cs, advance (length (tlv tag ?cs)) b)"
    by (rule read_tlv [OF assms])
  have l: "1 \<le> length ?cs" "length ?cs \<le> 4" using int_len_bounds by (simp_all add: int_octets_def)
  then have "\<not> (of_nat (length ?cs) :: u32) > 4" by (simp add: word_less_nat_alt)
  moreover have "(of_nat (length ?cs) :: u32) \<noteq> 0"
    by (rule of_nat_u32_nonzero) (use l in \<open>simp_all add: Suc_le_eq\<close>)
  ultimately have n: "\<not> (of_nat (length ?cs) :: u32) > 4" "(of_nat (length ?cs) :: u32) \<noteq> 0" by blast+
  have "ber_getnint (advance h b) (of_nat (length ?cs))
      = Some (of_nat (length ?cs), Some num, advance (length (tlv tag ?cs)) b)"
    using h(2) n int_octets_round_trip [of num] by (simp add: ber_getnint_def)
  then show ?thesis
    using h(1) valid_tag_not_default [OF assms(3)] by (simp add: ber_get_int_def)
qed

lemma ber_get_stringa_tlv:
  assumes "readable b" "unread b = tlv tag cs @ rest" "valid_tag tag" "\<forall>n. alloc n"
    and "length cs < 2 ^ 32 - 1"
  shows "ber_get_stringa alloc b = Some (tag, Some (cs @ [0]), advance (length (tlv tag cs)) b)"
proof -
  obtain h where h: "ber_skip_tag b = Some (tag, of_nat (length cs), advance h b)"
    "ber_read (advance h b) (of_nat (length cs)) = Some (cs, advance (length (tlv tag cs)) b)"
    by (rule read_tlv [OF assms(1-3)])
  note of_nat_u32_Suc_nonzero [OF assms(5)]
  then have "memalloc_ok alloc (of_nat (length cs) + 1)" using assms(4) by (simp add: memalloc_ok_def)
  then show ?thesis
    using h valid_tag_not_default [OF assms(3)] by (simp add: ber_get_stringa_def)
qed

text \<open>The berval \<open>ber_get_stringal\<close> makes of octets: the empty value has no string.\<close>

definition berval_of :: "octets \<Rightarrow> octets option \<times> u32" where
  "berval_of cs = (if cs = [] then (None, 0) else (Some (cs @ [0]), of_nat (length cs)))"

lemma ber_get_stringal_tlv:
  assumes "readable b" "unread b = tlv tag cs @ rest" "valid_tag tag" "\<forall>n. alloc n"
    and "length cs < 2 ^ 32 - 1"
  shows "ber_get_stringal alloc b = Some (tag, Some (berval_of cs), advance (length (tlv tag cs)) b)"
proof -
  obtain h where h: "ber_skip_tag b = Some (tag, of_nat (length cs), advance h b)"
    "ber_read (advance h b) (of_nat (length cs)) = Some (cs, advance (length (tlv tag cs)) b)"
    "unat (of_nat (length cs) :: u32) = length cs" "h + length cs = length (tlv tag cs)"
    using read_tlv [OF assms(1-3)] by metis
  note of_nat_u32_Suc_nonzero [OF assms(5)]
  then have m: "memalloc_ok alloc (of_nat (length cs) + 1)" "memalloc_ok alloc BERVAL_SIZE"
    using assms(4) by (simp_all add: memalloc_ok_def BERVAL_SIZE_def)
  have z: "(of_nat (length cs) :: u32) = 0 \<longleftrightarrow> cs = []"
    using of_nat_u32_nonzero [of "length cs"] assms(5) by (cases "cs = []") simp_all
  show ?thesis
  proof (cases "cs = []")
    case True
    then show ?thesis
      using h m valid_tag_not_default [OF assms(3)] by (simp add: ber_get_stringal_def berval_of_def)
  next
    case False
    then show ?thesis
      using h m z valid_tag_not_default [OF assms(3)] by (simp add: ber_get_stringal_def berval_of_def)
  qed
qed

lemma ber_get_null_tlv:
  assumes "readable b" "unread b = tlv tag [] @ rest" "valid_tag tag"
  shows "ber_get_null b = Some (tag, advance (length (tlv tag [])) b)"
  using read_tlv [OF assms] valid_tag_not_default [OF assms(3)] by (auto simp: ber_get_null_def)

lemma ber_get_boolean_tlv:
  assumes "readable b" "unread b = tlv tag [if v then 0xff else 0] @ rest" "valid_tag tag"
  shows "ber_get_boolean b = Some (tag, Some (if v then -1 else 0), advance (length (tlv tag [0])) b)"
proof -
  have "[if v then 0xff else 0] = int_octets (if v then -1 else 0)"
    by (auto simp: int_octets_def int_len_def Let_def leading_octet_numeral ucast_minus_1)
  moreover have "length (tlv tag [if v then 0xff else 0]) = length (tlv tag [0])" by (simp add: tlv_def)
  ultimately show ?thesis
    using ber_get_int_tlv [of b tag "if v then -1 else 0" rest] assms by (simp add: ber_get_boolean_def)
qed

lemma ber_peek_tag_tlv:
  assumes "readable b" "unread b = tlv tag cs @ rest" "valid_tag tag"
  shows "ber_peek_tag b = Some (tag, of_nat (length cs), b)"
  by (rule read_tlv [OF assms]) (simp add: ber_peek_tag_def advance_def)

lemma read_header:
  assumes "readable b" "unread b = header der tag len @ cs @ rest" "valid_tag tag" "length cs = unat len"
  shows "ber_skip_tag b = Some (tag, len, advance (length (header der tag len)) b)"
proof (cases der)
  case True
  then show ?thesis
    using ber_skip_tag_eq [OF assms(1) _ assms(3,4)] assms(2) by (simp add: header_def)
next
  case False
  have "of_be (be_bytes 4 len) = len" by (simp add: of_be_be_bytes_id del: be_bytes_numeral)
  moreover have "(of_nat 4 OR 0x80 :: u8) = 0x84" by simp
  ultimately show ?thesis
    using ber_skip_tag_long [of b tag 4 len cs rest] assms False by (simp add: header_def del: be_bytes_numeral)
qed

section \<open>Vectors\<close>

locale ber_codec =
  fixes put :: "berelement \<Rightarrow> 'a \<Rightarrow> put_result" and get :: "'b getter" and tag :: u32
    and contents :: "'a \<Rightarrow> octets" and result :: "'a \<Rightarrow> 'b" and valid :: "'a \<Rightarrow> bool"
  assumes put_tlv: "valid x \<Longrightarrow> puts (\<lambda>b. put b x) (tlv tag (contents x))"
    and get_tlv: "valid x \<Longrightarrow> readable b \<Longrightarrow> unread b = tlv tag (contents x) @ rest \<Longrightarrow>
      get b = Some (tag, result x, advance (length (tlv tag (contents x))) b)"
    and tag_valid: "valid_tag tag"
begin

definition tlvs :: "'a list \<Rightarrow> octets" where
  "tlvs xs = concat (map (\<lambda>x. tlv tag (contents x)) xs)"

lemma tlvs_simps [simp]:
  "tlvs [] = []" "tlvs (x # xs) = tlv tag (contents x) @ tlvs xs"
  by (simp_all add: tlvs_def)

lemma put_vector_writes:
  assumes "list_all valid xs" "writable b" "cursor b + length (tlvs xs) \<le> write_limit" "rc \<noteq> -1"
  shows "\<exists>rc' b'. put_vector put xs rc b = Some (rc', b') \<and> rc' \<noteq> -1 \<and> writes b (tlvs xs) b'"
  using assms
proof (induction xs arbitrary: b rc)
  case (Cons x xs)
  obtain b1 where b1: "put b x = Some (int (length (tlv tag (contents x))), b1)" "writes b (tlv tag (contents x)) b1"
    using put_tlv [of x] Cons.prems by (auto simp: puts_def)
  obtain rc' b' where "put_vector put xs (int (length (tlv tag (contents x)))) b1 = Some (rc', b')"
      "rc' \<noteq> -1" "writes b1 (tlvs xs) b'"
    using Cons.IH [of b1 "int (length (tlv tag (contents x)))"] Cons.prems writes_writable [OF b1(2)] writes_cursor [OF b1(2)] by auto
  then show ?case using b1 writes_trans [OF b1(2)] by auto
qed simp

lemma vector_loop_reads:
  assumes "list_all valid ys" "ys \<noteq> []" "readable b" "unread b = tlvs ys @ rest" "\<forall>n. alloc n"
    and "stop = ber_ptr b + length (tlvs ys)" "length ys < fuel" "length acc + length ys < 2 ^ 29"
    and "t \<noteq> LBER_DEFAULT" "rc \<noteq> LBER_DEFAULT"
  shows "vector_loop fuel alloc get stop t acc rc b
    = Some (tag, acc @ map result ys, advance (length (tlvs ys)) b)"
  using assms
proof (induction ys arbitrary: b fuel acc t rc)
  case (Cons y ys)
  let ?n = "length (tlv tag (contents y))"
  obtain f where f: "fuel = Suc f" using Cons.prems(7) by (cases fuel) auto
  have g: "get b = Some (tag, result y, advance ?n b)"
    by (rule get_tlv) (use Cons.prems in auto)
  have b: "readable (advance ?n b)" "unread (advance ?n b) = tlvs ys @ rest"
    using Cons.prems(3,4) by simp_all
  have ok: "memalloc_ok alloc (of_nat ((length acc + 2) * 4))"
    using of_nat_u32_nonzero [of "(length acc + 2) * 4"] Cons.prems(5,8) by (simp add: memalloc_ok_def)
  note nd = valid_tag_not_default [OF tag_valid]
  show ?case
  proof (cases ys)
    case Nil
    have "ber_next_element (advance ?n b) stop = Some (LBER_DEFAULT, None, advance ?n b)"
      using Cons.prems(6) Nil by (simp add: ber_next_element_def)
    then show ?thesis
      using Nil f g ok Cons.prems(7,9,10) by (cases f) (auto simp: vector_loop.simps(2))
  next
    case (Cons z zs)
    have "ber_ptr (advance ?n b) \<noteq> stop"
      using Cons.prems(6) Cons by (simp add: tlv_def)
    moreover have "ber_peek_tag (advance ?n b) = Some (tag, of_nat (length (contents z)), advance ?n b)"
      by (rule ber_peek_tag_tlv [OF b(1) _ tag_valid]) (use b(2) Cons in simp)
    ultimately have ne: "ber_next_element (advance ?n b) stop
        = Some (tag, Some (of_nat (length (contents z))), advance ?n b)"
      by (simp add: ber_next_element_def)
    have "vector_loop f alloc get stop tag (acc @ [result y]) tag (advance ?n b)
        = Some (tag, (acc @ [result y]) @ map result ys, advance (length (tlvs ys)) (advance ?n b))"
      by (rule Cons.IH) (use Cons.prems f Cons b nd in auto)
    then show ?thesis
      using f g ok ne Cons.prems(9,10) by (simp add: vector_loop.simps(2) advance_advance)
  qed
qed simp

lemma scan_vector_reads:
  assumes "list_all valid xs" "xs \<noteq> []" "readable b" "valid_tag stag" "\<forall>n. alloc n" "rc \<noteq> LBER_DEFAULT"
    and "unread b = header der stag (of_nat (length (tlvs xs))) @ tlvs xs @ rest"
    and "length (unread b) < 2 ^ 29"
  shows "scan_vector alloc get rc b = Some (tag, map result xs,
    advance (length (header der stag (of_nat (length (tlvs xs))) @ tlvs xs)) b)"
proof -
  let ?H = "header der stag (of_nat (length (tlvs xs)))" and ?n = "length (tlvs xs)"
  have n: "unat (of_nat ?n :: u32) = ?n" using assms(7,8) by simp
  have pos: "length ys \<le> length (tlvs ys)" for ys :: "'a list"
  proof (induction ys)
    case (Cons y ys)
    have "1 \<le> length (tlv tag (contents y))" using length_tag_octets(1) [of tag] by (simp add: tlv_def)
    with Cons show ?case by simp
  qed simp
  then have "0 < ?n" using assms(2) by (metis length_greater_0_conv order_less_le_trans)
  let ?b = "advance (length ?H) b"
  have s: "ber_skip_tag b = Some (stag, of_nat ?n, ?b)"
    by (rule read_header [OF assms(3,7,4)]) (simp add: n)
  have b: "readable ?b" "unread ?b = tlvs xs @ rest" using assms(3,7) by simp_all
  obtain y ys where xs: "xs = y # ys" using assms(2) by (cases xs) auto
  have p: "ber_peek_tag ?b = Some (tag, of_nat (length (contents y)), ?b)"
    by (rule ber_peek_tag_tlv [OF b(1) _ tag_valid]) (use b(2) xs in simp)
  have "length (unread ?b) \<le> length (ber_block b)"
    using b(1) by (auto simp: length_unread) (auto simp: readable_def)
  then have fuel: "length xs < Suc (Suc (length (ber_block b)))" using b(2) pos [of xs] by simp
  have "vector_loop (Suc (Suc (length (ber_block b)))) alloc get (ber_ptr ?b + ?n) tag [] rc ?b
      = Some (tag, [] @ map result xs, advance ?n ?b)"
    by (rule vector_loop_reads [OF assms(1,2) b assms(5) refl fuel])
      (use assms(6,8,7) pos [of xs] valid_tag_not_default [OF tag_valid] in auto)
  then show ?thesis
    using s p n \<open>0 < ?n\<close> valid_tag_not_default [OF tag_valid] valid_tag_not_default [OF assms(4)]
    by (simp add: scan_vector_def ber_first_element_def advance_advance)
qed

end

section \<open>The codecs of the program\<close>

text \<open>A string without its terminating null, as \<open>ber_put_string\<close> takes it.\<close>

lemma ber_put_string_puts:
  assumes "always_allocates alloc" "tag \<noteq> LBER_DEFAULT" "length str < 2 ^ 32"
  shows "puts (\<lambda>b. ber_put_string alloc b str tag) (tlv tag str)"
  using ber_put_ostring_puts [OF assms(1), of "of_nat (length str)" str tag] assms(2,3)
  by (simp add: ber_put_string_def)

lemma ber_put_berval_puts:
  assumes "always_allocates alloc" "tag \<noteq> LBER_DEFAULT" "length str < 2 ^ 32"
  shows "puts (\<lambda>b. ber_put_berval alloc b (Some \<lparr>bv_len = of_nat (length str), bv_val = Some str\<rparr>) tag)
    (tlv tag str)"
proof (cases "str = []")
  case True
  then show ?thesis
    using ber_put_ostring_puts [OF assms(1), of 0 "[]" tag] assms(2) by (simp add: ber_put_berval_def)
next
  case False
  then have "(of_nat (length str) :: u32) \<noteq> 0" using of_nat_u32_nonzero assms(3) by auto
  then show ?thesis
    using ber_put_string_puts [OF assms] by (simp add: ber_put_berval_def ber_put_string_def)
qed

lemma ber_put_int_puts:
  assumes "always_allocates alloc" "tag \<noteq> LBER_DEFAULT"
  shows "puts (\<lambda>b. ber_put_int alloc b num tag) (tlv tag (int_octets num))"
    "puts (\<lambda>b. ber_put_enum alloc b num tag) (tlv tag (int_octets num))"
  using ber_put_int_or_enum_puts [OF assms(1)] assms(2) by (simp_all add: ber_put_int_def ber_put_enum_def)

text \<open>Allocators that never fail: what the round trips assume of the memory functions.\<close>

definition ready_alloc :: allocator where
  "ready_alloc n = Some (replicate n 0)"

lemma ready_alloc [simp]: "always_allocates ready_alloc"
  by (simp add: always_allocates_def ready_alloc_def)

abbreviation ready :: "u32 \<Rightarrow> bool" where
  "ready \<equiv> \<lambda>_. True"

lemma valid_octetstring: "valid_tag LBER_OCTETSTRING" "valid_tag LBER_INTEGER" "valid_tag LBER_BOOLEAN"
    "valid_tag LBER_ENUMERATED" "valid_tag LBER_NULL" "valid_tag LBER_SEQUENCE" "valid_tag LBER_SET"
  by (simp_all add: valid_tag_def tag_octets_def ber_calc_taglen_def leading_octet_numeral big_tag_def
      LBER_OCTETSTRING_def LBER_INTEGER_def LBER_BOOLEAN_def LBER_ENUMERATED_def LBER_NULL_def
      LBER_SEQUENCE_def LBER_SET_def LBER_BIG_TAG_MASK_def)

interpretation string_codec: ber_codec "\<lambda>b s. ber_put_string ready_alloc b s LBER_OCTETSTRING"
  "ber_get_stringa ready" LBER_OCTETSTRING "\<lambda>s. s" "\<lambda>s. Some (s @ [0])" "\<lambda>s. length s < 2 ^ 31"
  by unfold_locales (simp_all add: ber_put_string_puts valid_tag_not_default ber_get_stringa_tlv valid_octetstring)

interpretation berval_codec: ber_codec
  "\<lambda>b s. ber_put_berval ready_alloc b (Some \<lparr>bv_len = of_nat (length s), bv_val = Some s\<rparr>) LBER_OCTETSTRING"
  "ber_get_stringal ready" LBER_OCTETSTRING "\<lambda>s. s" "\<lambda>s. Some (berval_of s)" "\<lambda>s. length s < 2 ^ 31"
  by unfold_locales (simp_all add: ber_put_berval_puts valid_tag_not_default ber_get_stringal_tlv valid_octetstring)

interpretation int_codec: ber_codec "\<lambda>b n. ber_put_int ready_alloc b n LBER_INTEGER" ber_get_int
  LBER_INTEGER int_octets Some "\<lambda>_. True"
  by unfold_locales (simp_all add: ber_put_int_puts valid_tag_not_default ber_get_int_tlv valid_octetstring)

end
