(* ===== verification/Ber_Items.thy ===== *)
theory Ber_Items imports Ber_Codec begin

text \<open>
  Whole messages.  An item is a value or a sequence or set of items; its format and arguments are what
  a caller of \<open>ber_printf\<close> writes for it, and \<open>encoded\<close> is what X.690 says about it.
\<close>

section \<open>Items\<close>

datatype ber_item =
    IInt "u32 option" u32
  | IEnum "u32 option" u32
  | IBool "u32 option" u32
  | INull "u32 option"
  | IString "u32 option" octets
  | ISeq "u32 option" "ber_item list"
  | ISet "u32 option" "ber_item list"

definition tag_or :: "u32 \<Rightarrow> u32 option \<Rightarrow> u32" where
  "tag_or d t = (case t of None \<Rightarrow> d | Some v \<Rightarrow> v)"

definition constructed :: "bool \<Rightarrow> u32 \<Rightarrow> octets \<Rightarrow> octets" where
  "constructed der tag cs = header der tag (of_nat (length cs)) @ cs"

fun encoded :: "bool \<Rightarrow> ber_item \<Rightarrow> octets" where
  "encoded der (IInt t n) = tlv (tag_or LBER_INTEGER t) (int_octets n)"
| "encoded der (IEnum t n) = tlv (tag_or LBER_ENUMERATED t) (int_octets n)"
| "encoded der (IBool t n) = tlv (tag_or LBER_BOOLEAN t) [if n \<noteq> 0 then 0xff else 0]"
| "encoded der (INull t) = tlv (tag_or LBER_NULL t) []"
| "encoded der (IString t s) = tlv (tag_or LBER_OCTETSTRING t) s"
| "encoded der (ISeq t xs) = constructed der (tag_or LBER_SEQUENCE t) (concat (map (encoded der) xs))"
| "encoded der (ISet t xs) = constructed der (tag_or LBER_SET t) (concat (map (encoded der) xs))"

definition with_tag :: "u32 option \<Rightarrow> char \<Rightarrow> string" where
  "with_tag t c = (case t of None \<Rightarrow> [c] | Some _ \<Rightarrow> [CHR ''t'', c])"

definition tag_arg :: "u32 option \<Rightarrow> printf_arg list" where
  "tag_arg t = (case t of None \<Rightarrow> [] | Some v \<Rightarrow> [PTag v])"

fun item_format :: "ber_item \<Rightarrow> string" where
  "item_format (IInt t n) = with_tag t CHR ''i''"
| "item_format (IEnum t n) = with_tag t CHR ''e''"
| "item_format (IBool t n) = with_tag t CHR ''b''"
| "item_format (INull t) = with_tag t CHR ''n''"
| "item_format (IString t s) = with_tag t CHR ''o''"
| "item_format (ISeq t xs) = with_tag t CHR ''{'' @ concat (map item_format xs) @ ''}''"
| "item_format (ISet t xs) = with_tag t CHR ''['' @ concat (map item_format xs) @ '']''"

fun item_args :: "ber_item \<Rightarrow> printf_arg list" where
  "item_args (IInt t n) = tag_arg t @ [PInt n]"
| "item_args (IEnum t n) = tag_arg t @ [PInt n]"
| "item_args (IBool t n) = tag_arg t @ [PInt n]"
| "item_args (INull t) = tag_arg t"
| "item_args (IString t s) = tag_arg t @ [PStr s, PLen (of_nat (length s))]"
| "item_args (ISeq t xs) = tag_arg t @ concat (map item_args xs)"
| "item_args (ISet t xs) = tag_arg t @ concat (map item_args xs)"

text \<open>
  Tags are complete; those of sequences and sets have one octet, which the encoder needs as soon as
  they are nested.
\<close>

definition tag_ok :: "u32 option \<Rightarrow> bool" where
  "tag_ok t \<longleftrightarrow> (case t of None \<Rightarrow> True | Some v \<Rightarrow> valid_tag v)"

definition short_tag :: "u32 option \<Rightarrow> bool" where
  "short_tag t \<longleftrightarrow> (case t of None \<Rightarrow> True | Some v \<Rightarrow> valid_tag v \<and> ber_calc_taglen v = 1)"

fun item_ok :: "ber_item \<Rightarrow> bool" where
  "item_ok (IInt t n) = tag_ok t"
| "item_ok (IEnum t n) = tag_ok t"
| "item_ok (IBool t n) = tag_ok t"
| "item_ok (INull t) = tag_ok t"
| "item_ok (IString t s) = tag_ok t"
| "item_ok (ISeq t xs) = (short_tag t \<and> list_all item_ok xs)"
| "item_ok (ISet t xs) = (short_tag t \<and> list_all item_ok xs)"

fun depth :: "ber_item \<Rightarrow> nat" where
  "depth (ISeq t xs) = Suc (fold max (map depth xs) 0)"
| "depth (ISet t xs) = Suc (fold max (map depth xs) 0)"
| "depth _ = 0"

lemma fold_max_ge: "a \<le> fold max xs a" for a :: nat
proof (induction xs arbitrary: a)
  case (Cons x xs)
  show ?case using Cons [of "max x a"] by simp
qed simp

lemma fold_max: "x \<in> set xs \<Longrightarrow> x \<le> fold max xs a" for x :: nat
proof (induction xs arbitrary: a)
  case (Cons y xs)
  then show ?case using fold_max_ge [of "max y a" xs] by auto
qed simp

section \<open>Conversions\<close>

lemma put_default_tags:
  "ber_put_int alloc b n LBER_DEFAULT = ber_put_int alloc b n LBER_INTEGER"
  "ber_put_enum alloc b n LBER_DEFAULT = ber_put_enum alloc b n LBER_ENUMERATED"
  "ber_put_boolean alloc b n LBER_DEFAULT = ber_put_boolean alloc b n LBER_BOOLEAN"
  "ber_put_null alloc b LBER_DEFAULT = ber_put_null alloc b LBER_NULL"
  "ber_put_ostring alloc b s len LBER_DEFAULT = ber_put_ostring alloc b s len LBER_OCTETSTRING"
  "ber_start_seq alloc b LBER_DEFAULT = ber_start_seq alloc b LBER_SEQUENCE"
  "ber_start_set alloc b LBER_DEFAULT = ber_start_set alloc b LBER_SET"
  using valid_octetstring [THEN valid_tag_not_default]
  by (simp_all add: ber_put_int_def ber_put_enum_def ber_put_boolean_def ber_put_null_def ber_put_ostring_def
      ber_start_seq_def ber_start_set_def)

lemma printf_conv_simps:
  "printf_conv alloc CHR ''i'' (PInt i # rest) rc ber
    = map_option (\<lambda>(rc', ber'). (rc', ber', rest)) (ber_put_int alloc ber i (ber_tag ber))"
  "printf_conv alloc CHR ''e'' (PInt i # rest) rc ber
    = map_option (\<lambda>(rc', ber'). (rc', ber', rest)) (ber_put_enum alloc ber i (ber_tag ber))"
  "printf_conv alloc CHR ''b'' (PInt i # rest) rc ber
    = map_option (\<lambda>(rc', ber'). (rc', ber', rest)) (ber_put_boolean alloc ber i (ber_tag ber))"
  "printf_conv alloc CHR ''n'' rest rc ber
    = map_option (\<lambda>(rc', ber'). (rc', ber', rest)) (ber_put_null alloc ber (ber_tag ber))"
  "printf_conv alloc CHR ''o'' (PStr s # PLen len # rest) rc ber
    = map_option (\<lambda>(rc', ber'). (rc', ber', rest)) (ber_put_ostring alloc ber s len (ber_tag ber))"
  "printf_conv alloc CHR ''t'' (PTag v # rest) rc ber = Some (rc, ber\<lparr>ber_tag := v, ber_usertag := 1\<rparr>, rest)"
  "printf_conv alloc CHR ''{'' rest rc ber
    = map_option (\<lambda>(rc', ber'). (rc', ber', rest)) (ber_start_seq alloc ber (ber_tag ber))"
  "printf_conv alloc CHR ''['' rest rc ber
    = map_option (\<lambda>(rc', ber'). (rc', ber', rest)) (ber_start_set alloc ber (ber_tag ber))"
  "printf_conv alloc CHR ''}'' rest rc ber
    = map_option (\<lambda>(rc', ber'). (rc', ber', rest)) (ber_put_seqorset alloc ber)"
  "printf_conv alloc CHR '']'' rest rc ber
    = map_option (\<lambda>(rc', ber'). (rc', ber', rest)) (ber_put_seqorset alloc ber)"
  by (simp_all add: printf_conv_def)

definition idle :: "berelement \<Rightarrow> bool" where
  "idle b \<longleftrightarrow> ber_tag b = LBER_DEFAULT \<and> ber_usertag b = 0"

text \<open>The optional tag in front of a conversion.\<close>

lemma printf_with_tag:
  assumes "idle b" "rc \<noteq> -1"
  shows "printf_loop alloc (with_tag t c @ fmt) (tag_arg t @ args) rc b
    = printf_loop alloc (c # fmt) args rc (b\<lparr>ber_tag := tag_or LBER_DEFAULT t\<rparr>)"
proof (cases t)
  case None
  then have "b\<lparr>ber_tag := tag_or LBER_DEFAULT t\<rparr> = b"
    using assms(1) by (simp add: idle_def tag_or_def)
  then show ?thesis using None by (simp add: with_tag_def tag_arg_def del: printf_loop.simps)
next
  case (Some v)
  have "b\<lparr>ber_tag := v, ber_usertag := 0\<rparr> = b\<lparr>ber_tag := v\<rparr>"
    using assms(1) by (simp add: idle_def)
  then show ?thesis
    using Some assms(2) by (simp add: with_tag_def tag_arg_def tag_or_def printf_conv_simps)
qed

lemma cursor_tag [simp]: "cursor (b\<lparr>ber_tag := v\<rparr>) = cursor b"
  by (cases "ber_sos b") (simp_all add: cursor_def)

lemma block_tag [simp]: "ber_block (b\<lparr>ber_tag := v\<rparr>) = ber_block b"
  by (simp add: ber_block_def)

lemma writable_tag [simp]: "writable (b\<lparr>ber_tag := v\<rparr>) = writable b"
  by (simp add: writable_def)

lemma moved_tag: "moved (b\<lparr>ber_tag := v\<rparr>) n B = (moved b n B)\<lparr>ber_tag := v\<rparr>"
  by (simp add: moved_def)

lemma writes_tagged:
  assumes "writes (b\<lparr>ber_tag := v\<rparr>) bs b'" "idle b"
  shows "writes b bs (b'\<lparr>ber_tag := LBER_DEFAULT\<rparr>)" "idle (b'\<lparr>ber_tag := LBER_DEFAULT\<rparr>)" "ber_usertag b' = 0"
proof -
  have i: "ber_tag b = LBER_DEFAULT" "ber_usertag b = 0" using assms(2) by (simp_all add: idle_def)
  then show "ber_usertag b' = 0" using assms(1) unfolding writes_def by auto
  then show "idle (b'\<lparr>ber_tag := LBER_DEFAULT\<rparr>)" by (simp add: idle_def)
  have m: "(moved b n B)\<lparr>ber_tag := LBER_DEFAULT\<rparr> = moved b n B" for n B
    using i(1) by (simp add: moved_def)
  show "writes b bs (b'\<lparr>ber_tag := LBER_DEFAULT\<rparr>)"
  proof (cases "bs = []")
    case True
    then show ?thesis using assms(1) i(1) by simp
  next
    case False
    then obtain P R where "b' = (moved b (length bs) (P @ bs @ R))\<lparr>ber_tag := v\<rparr>" "length P = cursor b"
        "take (ber_end b) P = take (cursor b) (ber_block b)"
        "good_size (length (P @ bs @ R))" "ber_end b \<le> length (P @ bs @ R)"
      using assms(1) unfolding writes_def moved_tag by auto
    then show ?thesis using False m by (intro writesI [of bs _ b P R]) simp_all
  qed
qed

lemma writes_idle: "writes b bs b' \<Longrightarrow> idle b \<Longrightarrow> idle b'"
  unfolding writes_def idle_def by auto

text \<open>What it means for a format with its arguments to print octets.\<close>

definition prints :: "allocator \<Rightarrow> berelement \<Rightarrow> string \<Rightarrow> printf_arg list \<Rightarrow> octets \<Rightarrow> bool" where
  "prints alloc b f as bs \<longleftrightarrow> (\<forall>rc. rc \<noteq> -1 \<longrightarrow>
    (\<exists>rc' b'. (\<forall>fmt args. printf_loop alloc (f @ fmt) (as @ args) rc b = printf_loop alloc fmt args rc' b')
      \<and> rc' \<noteq> -1 \<and> writes b bs b' \<and> idle b'))"

lemma prints_value:
  assumes "puts put bs" "idle b" "writable b" "cursor b + length bs \<le> write_limit"
    and "\<And>b rc args. ber_tag b = tag_or LBER_DEFAULT t \<Longrightarrow>
      printf_conv alloc c (as @ args) rc b = map_option (\<lambda>(rc', b'). (rc', b', args)) (put b)"
  shows "prints alloc b (with_tag t c) (tag_arg t @ as) bs"
  unfolding prints_def
proof (intro allI impI)
  fix rc :: int assume rc: "rc \<noteq> -1"
  let ?v = "tag_or LBER_DEFAULT t"
  obtain b1 where b1: "put (b\<lparr>ber_tag := ?v\<rparr>) = Some (int (length bs), b1)" "writes (b\<lparr>ber_tag := ?v\<rparr>) bs b1"
    using assms(1,3,4) unfolding puts_def by (metis cursor_tag writable_tag)
  note t = writes_tagged [OF b1(2) assms(2)]
  have "printf_loop alloc (with_tag t c @ fmt) ((tag_arg t @ as) @ args) rc b
      = printf_loop alloc fmt args (int (length bs)) (b1\<lparr>ber_tag := LBER_DEFAULT\<rparr>)" for fmt args
    unfolding append_assoc printf_with_tag [OF assms(2) rc]
    using rc b1(1) t(3) assms(5) [of "b\<lparr>ber_tag := ?v\<rparr>"] by simp
  moreover have "int (length bs) \<noteq> -1" by simp
  ultimately show "\<exists>rc' b'. (\<forall>fmt args. printf_loop alloc (with_tag t c @ fmt) ((tag_arg t @ as) @ args) rc b
      = printf_loop alloc fmt args rc' b') \<and> rc' \<noteq> -1 \<and> writes b bs b' \<and> idle b'"
    using t by blast
qed

lemma prints_Nil: "idle b \<Longrightarrow> prints alloc b [] [] []"
  unfolding prints_def by auto

lemma prints_append:
  assumes "prints alloc b f as xs" "\<And>b'. writes b xs b' \<Longrightarrow> idle b' \<Longrightarrow> prints alloc b' g bs ys"
  shows "prints alloc b (f @ g) (as @ bs) (xs @ ys)"
  unfolding prints_def
proof (intro allI impI)
  fix rc :: int assume "rc \<noteq> -1"
  then obtain rc1 b1 where 1: "\<And>fmt args. printf_loop alloc (f @ fmt) (as @ args) rc b = printf_loop alloc fmt args rc1 b1"
      "rc1 \<noteq> -1" "writes b xs b1" "idle b1"
    using assms(1) unfolding prints_def by blast
  then obtain rc2 b2 where 2: "\<And>fmt args. printf_loop alloc (g @ fmt) (bs @ args) rc1 b1 = printf_loop alloc fmt args rc2 b2"
      "rc2 \<noteq> -1" "writes b1 ys b2" "idle b2"
    using assms(2) [OF 1(3,4)] unfolding prints_def by blast
  then show "\<exists>rc' b'. (\<forall>fmt args. printf_loop alloc ((f @ g) @ fmt) ((as @ bs) @ args) rc b
      = printf_loop alloc fmt args rc' b') \<and> rc' \<noteq> -1 \<and> writes b (xs @ ys) b' \<and> idle b'"
    using 1(1) writes_trans [OF 1(3) 2(3)] by (metis append.assoc)
qed

text \<open>A sequence or set around what is printed.\<close>

lemma prints_constructed:
  assumes "always_allocates alloc" "idle b" "writable b" "length (ber_sos b) < 113"
    and "cursor b + ber_calc_taglen tag + 5 + length cs \<le> write_limit" "ber_calc_taglen tag = 1"
    and "\<And>b'. writable b' \<Longrightarrow> idle b' \<Longrightarrow> ber_use_der b' = ber_use_der b \<Longrightarrow>
      length (ber_sos b') = Suc (length (ber_sos b)) \<Longrightarrow> cursor b' = cursor b + 6 \<Longrightarrow> prints alloc b' f as cs"
    and "\<And>b rc args. ber_tag b = tag_or LBER_DEFAULT t \<Longrightarrow>
      printf_conv alloc c args rc b = map_option (\<lambda>(rc', b'). (rc', b', args)) (ber_start_seqorset alloc b tag)"
    and "\<And>b rc args. printf_conv alloc d args rc b = map_option (\<lambda>(rc', b'). (rc', b', args)) (ber_put_seqorset alloc b)"
  shows "prints alloc b (with_tag t c @ f @ [d]) (tag_arg t @ as) (constructed (ber_use_der b) tag cs)"
  unfolding prints_def
proof (intro allI impI)
  fix rc :: int assume rc: "rc \<noteq> -1"
  let ?v = "tag_or LBER_DEFAULT t" and ?o = "opened tag b"
  have i: "ber_tag b = LBER_DEFAULT" "ber_usertag b = 0" using assms(2) by (simp_all add: idle_def)
  have o: "writable ?o" "idle ?o" "ber_use_der ?o = ber_use_der b" "length (ber_sos ?o) = Suc (length (ber_sos b))"
      "cursor ?o = cursor b + 6"
    using writable_opened [OF assms(3,4), of tag] i assms(6) by (simp_all add: idle_def ber_use_der_def) (simp_all add: opened_def)
  have start: "printf_loop alloc (with_tag t c @ fmt) (tag_arg t @ args) rc b = printf_loop alloc fmt args 0 ?o" for fmt args
  proof -
    have "(opened tag (b\<lparr>ber_tag := ?v\<rparr>))\<lparr>ber_tag := LBER_DEFAULT\<rparr> = ?o" "ber_usertag (opened tag (b\<lparr>ber_tag := ?v\<rparr>)) = 0"
      using i by (simp_all add: opened_def)
    then show ?thesis
      unfolding printf_with_tag [OF assms(2) rc]
      using rc assms(8) [of "b\<lparr>ber_tag := ?v\<rparr>"] ber_start_seqorset_eq [OF assms(1), of "b\<lparr>ber_tag := ?v\<rparr>" tag]
      by simp
  qed
  obtain rc1 b1 where 1: "\<And>fmt args. printf_loop alloc (f @ fmt) (as @ args) 0 ?o = printf_loop alloc fmt args rc1 b1"
      "rc1 \<noteq> -1" "writes ?o cs b1" "idle b1"
    using assms(7) [OF o] unfolding prints_def by (metis zero_neq_neg_one)
  have lim: "cursor ?o + length cs \<le> write_limit" using assms(5) by simp
  let ?enc = "constructed (ber_use_der b) tag cs"
  obtain b3 where 3: "ber_put_seqorset alloc b1 = Some (int (length ?enc), b3)" "writes b ?enc b3"
    using close_nested [OF assms(1) 1(3) o(1) lim assms(6)] close_toplevel [OF assms(1) 1(3) assms(3) lim]
    unfolding constructed_def by blast
  have b3: "idle b3" by (rule writes_idle [OF 3(2) assms(2)])
  have "printf_loop alloc ((with_tag t c @ f @ [d]) @ fmt) ((tag_arg t @ as) @ args) rc b
      = printf_loop alloc fmt args (int (length ?enc)) b3" for fmt args
  proof -
    have r: "b3\<lparr>ber_tag := LBER_DEFAULT\<rparr> = b3" "ber_usertag b3 = 0" using b3 by (simp_all add: idle_def)
    show ?thesis
      using 1(2) 3(1) by (simp add: start 1(1) assms(9) r)
  qed
  moreover have "int (length ?enc) \<noteq> -1" by simp
  ultimately show "\<exists>rc' b'. (\<forall>fmt args. printf_loop alloc ((with_tag t c @ f @ [d]) @ fmt) ((tag_arg t @ as) @ args) rc b
      = printf_loop alloc fmt args rc' b') \<and> rc' \<noteq> -1 \<and> writes b ?enc b' \<and> idle b'"
    using 3(2) b3 by blast
qed

section \<open>Printing items\<close>

lemma length_constructed: "length (constructed der tag cs) \<le> ber_calc_taglen tag + 5 + length cs"
    "length (constructed False tag cs) = ber_calc_taglen tag + 5 + length cs"
  using ber_calc_lenlen_bounds [of "of_nat (length cs)"] by (simp_all add: constructed_def length_header)

lemma length_concat_mono:
  assumes "\<And>x. x \<in> set xs \<Longrightarrow> length (f x) \<le> length (g x)"
  shows "length (concat (map f xs)) \<le> length (concat (map g xs))"
  using assms by (induction xs) (auto intro: add_mono)

lemma length_encoded: "length (encoded der x) \<le> length (encoded False x)"
proof (induction x)
  case (ISeq t xs)
  then show ?case
    using length_concat_mono [of xs "encoded der" "encoded False"]
      length_constructed(1) [of der "tag_or LBER_SEQUENCE t" "concat (map (encoded der) xs)"]
    by (simp add: length_constructed(2))
next
  case (ISet t xs)
  then show ?case
    using length_concat_mono [of xs "encoded der" "encoded False"]
      length_constructed(1) [of der "tag_or LBER_SET t" "concat (map (encoded der) xs)"]
    by (simp add: length_constructed(2))
qed simp_all

lemma valid_tags: "tag_ok t \<Longrightarrow> valid_tag d \<Longrightarrow> valid_tag (tag_or d t) \<and> tag_or d t \<noteq> LBER_DEFAULT"
  by (cases t) (auto simp: tag_ok_def tag_or_def dest: valid_tag_not_default)

lemma short_tags:
  "short_tag t \<Longrightarrow> ber_calc_taglen (tag_or LBER_SEQUENCE t) = 1"
  "short_tag t \<Longrightarrow> ber_calc_taglen (tag_or LBER_SET t) = 1"
  "short_tag (Some v) \<Longrightarrow> v \<noteq> LBER_DEFAULT"
  by (cases t; simp add: short_tag_def tag_or_def ber_calc_taglen_def leading_octet_numeral
      LBER_SEQUENCE_def LBER_SET_def; fail)+
    (simp add: short_tag_def valid_tag_not_default)

lemma prints_items:
  assumes "\<And>x b. x \<in> set xs \<Longrightarrow> idle b \<Longrightarrow> writable b \<Longrightarrow> length (ber_sos b) = k \<Longrightarrow> ber_use_der b = der \<Longrightarrow>
      cursor b + length (encoded False x) \<le> write_limit \<Longrightarrow>
      prints alloc b (item_format x) (item_args x) (encoded der x)"
    and "idle b" "writable b" "length (ber_sos b) = k" "ber_use_der b = der"
    and "cursor b + length (concat (map (encoded False) xs)) \<le> write_limit"
  shows "prints alloc b (concat (map item_format xs)) (concat (map item_args xs)) (concat (map (encoded der) xs))"
  using assms
proof (induction xs arbitrary: b)
  case Nil
  then show ?case by (simp add: prints_Nil)
next
  case (Cons x xs)
  have "prints alloc b (item_format x) (item_args x) (encoded der x)"
    by (rule Cons.prems(1)) (use Cons.prems in auto)
  moreover have "prints alloc b' (concat (map item_format xs)) (concat (map item_args xs)) (concat (map (encoded der) xs))"
    if w: "writes b (encoded der x) b'" "idle b'" for b'
  proof (rule Cons.IH)
    show "writable b'" by (rule writes_writable [OF w(1) Cons.prems(3)])
    show "length (ber_sos b') = k" using writes_state(1) [OF w(1)] Cons.prems(4) by simp
    show "ber_use_der b' = der" using writes_state(2) [OF w(1)] Cons.prems(5) by (simp add: ber_use_der_def)
    show "cursor b' + length (concat (map (encoded False) xs)) \<le> write_limit"
      using writes_cursor [OF w(1)] Cons.prems(6) length_encoded [of der x] by simp
  qed (use Cons.prems(1) w(2) in auto)
  ultimately show ?case
    using prints_append by (simp only: list.map concat.simps)
qed

lemma prints_item:
  assumes "always_allocates alloc" "item_ok x" "idle b" "writable b"
    and "length (ber_sos b) + depth x \<le> 113" "cursor b + length (encoded False x) \<le> write_limit"
  shows "prints alloc b (item_format x) (item_args x) (encoded (ber_use_der b) x)"
  using assms(2-6)
proof (induction x arbitrary: b)
  case (IInt t n)
  let ?T = "tag_or LBER_INTEGER t"
  have v: "?T \<noteq> LBER_DEFAULT" using IInt.prems(1) valid_tags valid_octetstring by simp
  show ?case
    unfolding item_format.simps item_args.simps encoded.simps
  proof (rule prints_value [OF ber_put_int_puts(1) [OF assms(1) v]])
    show "printf_conv alloc CHR ''i'' ([PInt n] @ args) rc b
        = map_option (\<lambda>(rc', b'). (rc', b', args)) (ber_put_int alloc b n ?T)"
      if "ber_tag b = tag_or LBER_DEFAULT t" for b rc args
      using that by (cases t) (simp_all add: printf_conv_simps tag_or_def put_default_tags)
  qed (use IInt.prems in simp_all)
next
  case (IEnum t n)
  let ?T = "tag_or LBER_ENUMERATED t"
  have v: "?T \<noteq> LBER_DEFAULT" using IEnum.prems(1) valid_tags valid_octetstring by simp
  show ?case
    unfolding item_format.simps item_args.simps encoded.simps
  proof (rule prints_value [OF ber_put_int_puts(2) [OF assms(1) v]])
    show "printf_conv alloc CHR ''e'' ([PInt n] @ args) rc b
        = map_option (\<lambda>(rc', b'). (rc', b', args)) (ber_put_enum alloc b n ?T)"
      if "ber_tag b = tag_or LBER_DEFAULT t" for b rc args
      using that by (cases t) (simp_all add: printf_conv_simps tag_or_def put_default_tags)
  qed (use IEnum.prems in simp_all)
next
  case (IBool t n)
  let ?T = "tag_or LBER_BOOLEAN t"
  have v: "?T \<noteq> LBER_DEFAULT" using IBool.prems(1) valid_tags valid_octetstring by simp
  show ?case
    unfolding item_format.simps item_args.simps encoded.simps
  proof (rule prints_value [OF ber_put_boolean_puts [OF assms(1) v]])
    show "printf_conv alloc CHR ''b'' ([PInt n] @ args) rc b
        = map_option (\<lambda>(rc', b'). (rc', b', args)) (ber_put_boolean alloc b n ?T)"
      if "ber_tag b = tag_or LBER_DEFAULT t" for b rc args
      using that by (cases t) (simp_all add: printf_conv_simps tag_or_def put_default_tags)
  qed (use IBool.prems in simp_all)
next
  case (INull t)
  let ?T = "tag_or LBER_NULL t"
  have v: "?T \<noteq> LBER_DEFAULT" using INull.prems(1) valid_tags valid_octetstring by simp
  have "prints alloc b (with_tag t CHR ''n'') (tag_arg t @ []) (tlv ?T [])"
  proof (rule prints_value [OF ber_put_null_puts [OF assms(1) v]])
    show "printf_conv alloc CHR ''n'' ([] @ args) rc b
        = map_option (\<lambda>(rc', b'). (rc', b', args)) (ber_put_null alloc b ?T)"
      if "ber_tag b = tag_or LBER_DEFAULT t" for b rc args
      using that by (cases t) (simp_all add: printf_conv_simps tag_or_def put_default_tags)
  qed (use INull.prems in simp_all)
  then show ?case by simp
next
  case (IString t s)
  let ?T = "tag_or LBER_OCTETSTRING t"
  have v: "?T \<noteq> LBER_DEFAULT" using IString.prems(1) valid_tags valid_octetstring by simp
  have "length s \<le> write_limit" using IString.prems(5) by (simp add: tlv_def)
  then have l: "unat (of_nat (length s) :: u32) = length s" by (simp add: write_limit_def)
  then have p: "puts (\<lambda>b. ber_put_ostring alloc b s (of_nat (length s)) ?T) (tlv ?T s)"
    using ber_put_ostring_puts [OF assms(1) _ v, of "of_nat (length s)" s] by simp
  show ?case
    unfolding item_format.simps item_args.simps encoded.simps
  proof (rule prints_value [OF p])
    show "printf_conv alloc CHR ''o'' ([PStr s, PLen (of_nat (length s))] @ args) rc b
        = map_option (\<lambda>(rc', b'). (rc', b', args)) (ber_put_ostring alloc b s (of_nat (length s)) ?T)"
      if "ber_tag b = tag_or LBER_DEFAULT t" for b rc args
      using that by (cases t) (simp_all add: printf_conv_simps tag_or_def put_default_tags)
  qed (use IString.prems in simp_all)
next
  case (ISeq t xs)
  let ?T = "tag_or LBER_SEQUENCE t" and ?cs = "concat (map (encoded (ber_use_der b)) xs)"
  have T: "ber_calc_taglen ?T = 1" "short_tag t" using ISeq.prems(1) short_tags by simp_all
  have c: "length ?cs \<le> length (concat (map (encoded False) xs))"
    by (rule length_concat_mono [OF length_encoded])
  have lim: "cursor b + 6 + length (concat (map (encoded False) xs)) \<le> write_limit"
    using ISeq.prems(5) T by (simp add: length_constructed(2))
  show ?case
    unfolding item_format.simps item_args.simps encoded.simps
  proof (rule prints_constructed [OF assms(1) ISeq.prems(2,3) _ _ T(1)])
    show "cursor b + ber_calc_taglen ?T + 5 + length ?cs \<le> write_limit" using T lim c by simp
    show "prints alloc b' (concat (map item_format xs)) (concat (map item_args xs)) ?cs"
      if "writable b'" "idle b'" "ber_use_der b' = ber_use_der b" "length (ber_sos b') = Suc (length (ber_sos b))"
        "cursor b' = cursor b + 6" for b'
    proof (rule prints_items [OF _ that(2,1,4,3)])
      show "prints alloc b2 (item_format x) (item_args x) (encoded (ber_use_der b) x)"
        if x: "x \<in> set xs" "idle b2" "writable b2" "length (ber_sos b2) = Suc (length (ber_sos b))"
          "ber_use_der b2 = ber_use_der b" "cursor b2 + length (encoded False x) \<le> write_limit" for x b2
      proof -
        have "depth x \<le> fold max (map depth xs) 0" using x(1) by (intro fold_max) simp
        then show ?thesis
          using ISeq.IH [OF x(1) _ x(2,3) _ x(6)] x(1,4,5) ISeq.prems(1,4) by (simp add: list_all_iff)
      qed
    qed (use lim that(5) in simp)
  next
    show "printf_conv alloc CHR ''{'' args rc b
        = map_option (\<lambda>(rc', b'). (rc', b', args)) (ber_start_seqorset alloc b ?T)"
      if "ber_tag b = tag_or LBER_DEFAULT t" for b rc args
      using that T(2) short_tags by (cases t) (auto simp: printf_conv_simps tag_or_def ber_start_seq_def)
  qed (use ISeq.prems(4) in \<open>simp_all add: printf_conv_simps\<close>)
next
  case (ISet t xs)
  let ?T = "tag_or LBER_SET t" and ?cs = "concat (map (encoded (ber_use_der b)) xs)"
  have T: "ber_calc_taglen ?T = 1" "short_tag t" using ISet.prems(1) short_tags by simp_all
  have c: "length ?cs \<le> length (concat (map (encoded False) xs))"
    by (rule length_concat_mono [OF length_encoded])
  have lim: "cursor b + 6 + length (concat (map (encoded False) xs)) \<le> write_limit"
    using ISet.prems(5) T by (simp add: length_constructed(2))
  show ?case
    unfolding item_format.simps item_args.simps encoded.simps
  proof (rule prints_constructed [OF assms(1) ISet.prems(2,3) _ _ T(1)])
    show "cursor b + ber_calc_taglen ?T + 5 + length ?cs \<le> write_limit" using T lim c by simp
    show "prints alloc b' (concat (map item_format xs)) (concat (map item_args xs)) ?cs"
      if "writable b'" "idle b'" "ber_use_der b' = ber_use_der b" "length (ber_sos b') = Suc (length (ber_sos b))"
        "cursor b' = cursor b + 6" for b'
    proof (rule prints_items [OF _ that(2,1,4,3)])
      show "prints alloc b2 (item_format x) (item_args x) (encoded (ber_use_der b) x)"
        if x: "x \<in> set xs" "idle b2" "writable b2" "length (ber_sos b2) = Suc (length (ber_sos b))"
          "ber_use_der b2 = ber_use_der b" "cursor b2 + length (encoded False x) \<le> write_limit" for x b2
      proof -
        have "depth x \<le> fold max (map depth xs) 0" using x(1) by (intro fold_max) simp
        then show ?thesis
          using ISet.IH [OF x(1) _ x(2,3) _ x(6)] x(1,4,5) ISet.prems(1,4) by (simp add: list_all_iff)
      qed
    qed (use lim that(5) in simp)
  next
    show "printf_conv alloc CHR ''['' args rc b
        = map_option (\<lambda>(rc', b'). (rc', b', args)) (ber_start_seqorset alloc b ?T)"
      if "ber_tag b = tag_or LBER_DEFAULT t" for b rc args
      using that T(2) short_tags by (cases t) (auto simp: printf_conv_simps tag_or_def ber_start_set_def)
  qed (use ISet.prems(4) in \<open>simp_all add: printf_conv_simps\<close>)
qed

section \<open>Scanning items\<close>

fun item_scan :: "ber_item \<Rightarrow> string" where
  "item_scan (IInt t n) = ''i''"
| "item_scan (IEnum t n) = ''e''"
| "item_scan (IBool t n) = ''b''"
| "item_scan (INull t) = ''n''"
| "item_scan (IString t s) = ''O''"
| "item_scan (ISeq t xs) = ''{'' @ concat (map item_scan xs) @ ''}''"
| "item_scan (ISet t xs) = ''['' @ concat (map item_scan xs) @ '']''"

fun item_pointers :: "ber_item \<Rightarrow> scanf_arg list" where
  "item_pointers (INull t) = []"
| "item_pointers (ISeq t xs) = concat (map item_pointers xs)"
| "item_pointers (ISet t xs) = concat (map item_pointers xs)"
| "item_pointers x = [SPtr]"

fun item_outs :: "ber_item \<Rightarrow> scanf_out list" where
  "item_outs (IInt t n) = [OInt (Some n)]"
| "item_outs (IEnum t n) = [OInt (Some n)]"
| "item_outs (IBool t n) = [OInt (Some (if n \<noteq> 0 then -1 else 0))]"
| "item_outs (INull t) = [ONone]"
| "item_outs (IString t s) = [OBerval (Some (berval_of s))]"
| "item_outs (ISeq t xs) = ONone # concat (map item_outs xs) @ [ONone]"
| "item_outs (ISet t xs) = ONone # concat (map item_outs xs) @ [ONone]"

text \<open>A bracket behaves differently in front of a vector conversion, which items do not use.\<close>

definition plain :: "string \<Rightarrow> bool" where
  "plain fmt \<longleftrightarrow> fmt = [] \<or> hd fmt \<noteq> CHR ''v'' \<and> hd fmt \<noteq> CHR ''V''"

definition scans :: "(u32 \<Rightarrow> bool) \<Rightarrow> string \<Rightarrow> scanf_arg list \<Rightarrow> octets \<Rightarrow> scanf_out list \<Rightarrow> bool" where
  "scans alloc f as bs outs \<longleftrightarrow> (\<forall>b rest rc fmt args acc. readable b \<longrightarrow> unread b = bs @ rest \<longrightarrow>
    rc \<noteq> LBER_DEFAULT \<longrightarrow> plain fmt \<longrightarrow>
    (\<exists>rc' tr. rc' \<noteq> LBER_DEFAULT \<and> map (snd \<circ> snd) tr = outs
      \<and> scanf_loop alloc (f @ fmt) (as @ args) rc b acc
        = scanf_loop alloc fmt args rc' (advance (length bs) b) (acc @ tr)))"

lemma scans_conv:
  assumes "\<And>b rest rc fmt args. readable b \<Longrightarrow> unread b = bs @ rest \<Longrightarrow> rc \<noteq> LBER_DEFAULT \<Longrightarrow> plain fmt \<Longrightarrow>
      \<exists>t. t \<noteq> LBER_DEFAULT \<and> scanf_conv alloc c fmt (as @ args) rc b = Some (t, out, advance (length bs) b, args)"
  shows "scans alloc [c] as bs [out]"
  unfolding scans_def
proof (intro allI impI)
  fix b rest rc fmt args acc
  assume a: "readable b" "unread b = bs @ rest" "rc \<noteq> LBER_DEFAULT" "plain fmt"
  obtain t where "t \<noteq> LBER_DEFAULT" "scanf_conv alloc c fmt (as @ args) rc b = Some (t, out, advance (length bs) b, args)"
    using assms [OF a] by blast
  then show "\<exists>rc' tr. rc' \<noteq> LBER_DEFAULT \<and> map (snd \<circ> snd) tr = [out]
      \<and> scanf_loop alloc ([c] @ fmt) (as @ args) rc b acc
        = scanf_loop alloc fmt args rc' (advance (length bs) b) (acc @ tr)"
    using a(3) by (intro exI [of _ t], intro exI [of _ "[(c, as @ args, out)]"]) simp
qed

lemma scans_Nil: "scans alloc [] [] [] []"
  unfolding scans_def by (auto intro!: exI [of _ "[]"])

lemma scans_append:
  assumes "scans alloc f as xs os" "scans alloc g bs ys ps" "\<And>fmt. plain fmt \<Longrightarrow> plain (g @ fmt)"
  shows "scans alloc (f @ g) (as @ bs) (xs @ ys) (os @ ps)"
  unfolding scans_def
proof (intro allI impI)
  fix b rest rc fmt args acc
  assume a: "readable b" "unread b = (xs @ ys) @ rest" "rc \<noteq> LBER_DEFAULT" "plain fmt"
  obtain rc1 tr1 where 1: "rc1 \<noteq> LBER_DEFAULT" "map (snd \<circ> snd) tr1 = os"
      "scanf_loop alloc (f @ g @ fmt) (as @ bs @ args) rc b acc
        = scanf_loop alloc (g @ fmt) (bs @ args) rc1 (advance (length xs) b) (acc @ tr1)"
    using assms(1) a assms(3) [OF a(4)] unfolding scans_def by (metis append.assoc)
  have "readable (advance (length xs) b)" "unread (advance (length xs) b) = ys @ rest"
    using a(1,2) by simp_all
  then obtain rc2 tr2 where 2: "rc2 \<noteq> LBER_DEFAULT" "map (snd \<circ> snd) tr2 = ps"
      "scanf_loop alloc (g @ fmt) (bs @ args) rc1 (advance (length xs) b) (acc @ tr1)
        = scanf_loop alloc fmt args rc2 (advance (length ys) (advance (length xs) b)) ((acc @ tr1) @ tr2)"
    using assms(2) 1(1) a(4) unfolding scans_def by metis
  show "\<exists>rc' tr. rc' \<noteq> LBER_DEFAULT \<and> map (snd \<circ> snd) tr = os @ ps
      \<and> scanf_loop alloc ((f @ g) @ fmt) ((as @ bs) @ args) rc b acc
        = scanf_loop alloc fmt args rc' (advance (length (xs @ ys)) b) (acc @ tr)"
    using 1(2) 2(1,2) by (intro exI [of _ rc2], intro exI [of _ "tr1 @ tr2"])
      (simp only: append_assoc 1(3) 2(3), simp add: advance_advance)
qed

lemma plain_item: "plain (item_scan x @ fmt)"
  by (cases x) (simp_all add: plain_def)

lemma plain_items: "plain fmt \<Longrightarrow> plain (concat (map item_scan xs) @ fmt)"
  by (cases xs) (simp_all add: plain_item)

lemma scans_items:
  assumes "\<And>x. x \<in> set xs \<Longrightarrow> scans alloc (item_scan x) (item_pointers x) (encoded der x) (item_outs x)"
  shows "scans alloc (concat (map item_scan xs)) (concat (map item_pointers xs))
    (concat (map (encoded der) xs)) (concat (map item_outs xs))"
  using assms
proof (induction xs)
  case (Cons x xs)
  then show ?case
    using scans_append [OF Cons.prems(1) [of x] Cons.IH] plain_items by (simp only: list.map concat.simps) auto
qed (simp add: scans_Nil)

lemma scans_constructed:
  assumes "scans alloc f as cs os" "\<And>fmt. plain fmt \<Longrightarrow> plain (f @ fmt)" "valid_tag tag"
    and "c = CHR ''{'' \<and> d = CHR ''}'' \<or> c = CHR ''['' \<and> d = CHR '']''"
  shows "scans alloc ([c] @ f @ [d]) as (constructed der tag cs) (ONone # os @ [ONone])"
  unfolding scans_def
proof (intro allI impI)
  fix b rest rc fmt args acc
  assume a: "readable b" "unread b = constructed der tag cs @ rest" "rc \<noteq> LBER_DEFAULT" "plain fmt"
  let ?H = "header der tag (of_nat (length cs))" and ?b = "advance (length (header der tag (of_nat (length cs)))) b"
  have "length cs < 2 ^ 32" using length_unread_less [OF a(1)] a(2) by (simp add: constructed_def)
  then have "ber_skip_tag b = Some (tag, of_nat (length cs), ?b)"
    by (intro read_header [OF a(1) _ assms(3), of _ _ cs rest]) (use a(2) in \<open>simp_all add: constructed_def\<close>)
  moreover have p: "plain ([d] @ fmt)" using assms(4) by (auto simp: plain_def)
  then have "plain (f @ [d] @ fmt)" using assms(2) by blast
  ultimately have c: "scanf_conv alloc c (f @ [d] @ fmt) (as @ args) rc b = Some (tag, ONone, ?b, as @ args)"
    using assms(4) by (auto simp: scanf_conv_simps plain_def)
  have nd: "tag \<noteq> LBER_DEFAULT" by (rule valid_tag_not_default [OF assms(3)])
  have "readable ?b" "unread ?b = cs @ rest" using a(1,2) by (simp_all add: constructed_def)
  then obtain rc1 tr where 1: "rc1 \<noteq> LBER_DEFAULT" "map (snd \<circ> snd) tr = os"
      "scanf_loop alloc (f @ [d] @ fmt) (as @ args) tag ?b (acc @ [(c, as @ args, ONone)])
        = scanf_loop alloc ([d] @ fmt) args rc1 (advance (length cs) ?b) ((acc @ [(c, as @ args, ONone)]) @ tr)"
    using assms(1) nd p unfolding scans_def by metis
  have "scanf_loop alloc ([d] @ fmt) args rc1 (advance (length cs) ?b) ((acc @ [(c, as @ args, ONone)]) @ tr)
      = scanf_loop alloc fmt args rc1 (advance (length cs) ?b) (((acc @ [(c, as @ args, ONone)]) @ tr) @ [(d, args, ONone)])"
    using 1(1) assms(4) by (auto simp: scanf_conv_simps)
  then show "\<exists>rc' tr. rc' \<noteq> LBER_DEFAULT \<and> map (snd \<circ> snd) tr = ONone # os @ [ONone]
      \<and> scanf_loop alloc (([c] @ f @ [d]) @ fmt) (as @ args) rc b acc
        = scanf_loop alloc fmt args rc' (advance (length (constructed der tag cs)) b) (acc @ tr)"
    using 1 a(3) c nd
    by (intro exI [of _ rc1], intro exI [of _ "(c, as @ args, ONone) # tr @ [(d, args, ONone)]"])
      (simp add: constructed_def advance_advance)
qed

lemma scans_item:
  assumes "\<forall>n. alloc n" "item_ok x"
  shows "scans alloc (item_scan x) (item_pointers x) (encoded der x) (item_outs x)"
  using assms(2)
proof (induction x)
  case (IInt t n)
  have v: "valid_tag (tag_or LBER_INTEGER t)" using IInt valid_tags valid_octetstring by simp
  then show ?case
    by (auto simp: scanf_conv_simps ber_get_int_tlv [OF _ _ v] valid_tag_not_default intro!: scans_conv)
next
  case (IEnum t n)
  have v: "valid_tag (tag_or LBER_ENUMERATED t)" using IEnum valid_tags valid_octetstring by simp
  then show ?case
    by (auto simp: scanf_conv_simps ber_get_int_tlv [OF _ _ v] valid_tag_not_default intro!: scans_conv)
next
  case (IBool t n)
  have v: "valid_tag (tag_or LBER_BOOLEAN t)" using IBool valid_tags valid_octetstring by simp
  have l: "length (tlv T [if n \<noteq> 0 then 0xff else 0]) = length (tlv T [0])" for T by (simp add: tlv_def)
  show ?case
    using v unfolding item_scan.simps item_pointers.simps encoded.simps item_outs.simps
    by (intro scans_conv) (simp add: scanf_conv_simps ber_get_boolean_tlv [OF _ _ v] valid_tag_not_default l)
next
  case (INull t)
  have v: "valid_tag (tag_or LBER_NULL t)" using INull valid_tags valid_octetstring by simp
  then show ?case
    by (auto simp: scanf_conv_simps ber_get_null_tlv [OF _ _ v] valid_tag_not_default intro!: scans_conv)
next
  case (IString t s)
  have v: "valid_tag (tag_or LBER_OCTETSTRING t)" using IString valid_tags valid_octetstring by simp
  have "length s < 2 ^ 32 - 1" if "readable b" "unread b = tlv (tag_or LBER_OCTETSTRING t) s @ rest" for b rest
    using length_unread_less [OF that(1)] that(2) length_tag_octets(1) [of "tag_or LBER_OCTETSTRING t"]
    by (simp add: tlv_def)
  then show ?case
    using v assms(1)
    by (auto simp: scanf_conv_simps ber_get_stringal_tlv [OF _ _ v] valid_tag_not_default intro!: scans_conv)
next
  case (ISeq t xs)
  have "valid_tag (tag_or LBER_SEQUENCE t)"
    using ISeq.prems valid_octetstring by (cases t) (simp_all add: short_tag_def tag_or_def)
  then show ?case
    using ISeq scans_constructed [OF scans_items [of xs alloc der] plain_items, of "tag_or LBER_SEQUENCE t"]
    by (simp add: list_all_iff)
next
  case (ISet t xs)
  have "valid_tag (tag_or LBER_SET t)"
    using ISet.prems valid_octetstring by (cases t) (simp_all add: short_tag_def tag_or_def)
  then show ?case
    using ISet scans_constructed [OF scans_items [of xs alloc der] plain_items, of "tag_or LBER_SET t"]
    by (simp add: list_all_iff)
qed

section \<open>Whole messages\<close>

definition fresh :: "u16 \<Rightarrow> berelement" where
  "fresh options = the (ber_alloc_t options True)"

lemma fresh_simps [simp]:
  "idle (fresh options)" "writable (fresh options)" "ber_sos (fresh options) = []" "cursor (fresh options) = 0"
  "ber_ptr (fresh options) = 0" "ber_use_der (fresh options) = (options AND LBER_USE_DER \<noteq> 0)"
  by (simp_all add: fresh_def ber_alloc_t_def idle_def writable_def cursor_def ber_block_def ber_use_der_def)

lemma printed:
  assumes "always_allocates alloc" "item_ok x" "depth x \<le> 113" "length (encoded False x) \<le> write_limit"
  obtains rc b where "ber_printf alloc (fresh options) (item_format x) (item_args x) = Some (rc, b)" "rc \<noteq> -1"
    "writes (fresh options) (encoded (options AND LBER_USE_DER \<noteq> 0) x) b"
proof -
  let ?enc = "encoded (options AND LBER_USE_DER \<noteq> 0) x"
  have "prints alloc (fresh options) (item_format x) (item_args x) ?enc"
    using prints_item [OF assms(1,2), of "fresh options"] assms(3,4) by simp
  then obtain rc b where "\<forall>fmt args. printf_loop alloc (item_format x @ fmt) (item_args x @ args) 0 (fresh options)
      = printf_loop alloc fmt args rc b" "rc \<noteq> -1" "writes (fresh options) ?enc b"
    unfolding prints_def by (metis zero_neq_neg_one)
  moreover from this(1) have "printf_loop alloc (item_format x @ []) (item_args x @ []) 0 (fresh options)
      = printf_loop alloc [] [] rc b" by blast
  ultimately show thesis using that by (simp add: ber_printf_def)
qed

lemma encoded_not_Nil: "encoded der x \<noteq> []"
  by (cases x) (simp_all add: tlv_def constructed_def header_def)

lemma written_block:
  assumes "writes (fresh options) bs b" "bs \<noteq> []"
  obtains R where "ber_buf b = Some (bs @ R)" "ber_ptr b = length bs" "ber_end b = length (bs @ R)"
  using assms unfolding writes_def by (auto simp: moved_def)

lemma flatten_written:
  assumes "writes (fresh options) bs b" "bs \<noteq> []" "length bs \<le> write_limit" "always_allocates alloc"
  shows "ber_flatten alloc True (Some b) = Some (0, Some (Some (bs @ [0]), of_nat (length bs)))"
proof -
  obtain R where R: "ber_buf b = Some (bs @ R)" "ber_ptr b = length bs"
    by (rule written_block [OF assms(1,2)])
  have l: "unat (of_nat (length bs) :: u32) = length bs" using assms(3) by (simp add: write_limit_def)
  obtain block where "alloc (unat (of_nat (length bs) + 1 :: u32)) = Some block"
    using assms(4) by (auto simp: always_allocates_def)
  then show ?thesis
    using R l by (simp add: ber_flatten_def ber_pvt_ber_write_def ber_block_def)
qed

lemma reset_written:
  assumes "writes (fresh options) bs b" "bs \<noteq> []" "length bs \<le> write_limit"
  shows "readable (ber_reset b True)" "unread (ber_reset b True) = bs"
proof -
  obtain R where R: "ber_buf b = Some (bs @ R)" "ber_ptr b = length bs"
    by (rule written_block [OF assms(1,2)])
  then show "readable (ber_reset b True)" "unread (ber_reset b True) = bs"
    using assms(3) by (simp_all add: ber_reset_def readable_def unread_def ber_block_def write_limit_def)
qed

lemma encoded_limit: "length (encoded False x) \<le> write_limit \<Longrightarrow> length (encoded der x) \<le> write_limit"
  using length_encoded [of der x] by simp

text \<open>
  C7: \<open>ber_printf\<close> with the format and arguments of an item writes exactly the X.690 encoding of the
  item into a new element, with shortest lengths under \<open>LBER_USE_DER\<close> and four-octet lengths otherwise,
  and \<open>ber_flatten\<close> hands it out with a terminating null; no write leaves the block.
\<close>

theorem ber_printf_encodes:
  assumes "always_allocates alloc" "item_ok x" "depth x \<le> 113" "length (encoded False x) \<le> write_limit"
  shows "\<exists>rc b. ber_printf alloc (fresh options) (item_format x) (item_args x) = Some (rc, b) \<and> rc \<noteq> -1
    \<and> ber_flatten alloc True (Some b) = Some (0, Some
        (Some (encoded (options AND LBER_USE_DER \<noteq> 0) x @ [0]),
         of_nat (length (encoded (options AND LBER_USE_DER \<noteq> 0) x))))"
  using printed [OF assms, of options]
    flatten_written [OF _ encoded_not_Nil encoded_limit [OF assms(4)] assms(1)] by metis

definition bind_request :: ber_item where
  "bind_request = ISeq None [IInt None 1, ISeq (Some 0x60) [IInt None 3, IString None [], IString (Some 0x80) [0x73]]]"

lemma bind_request_encoded:
  "encoded True bind_request = [0x30, 0x0d, 0x02, 0x01, 0x01, 0x60, 0x08, 0x02, 0x01, 0x03, 0x04, 0x00, 0x80, 0x01, 0x73]"
  "encoded False bind_request = [0x30, 0x84, 0, 0, 0, 0x11, 0x02, 0x01, 0x01, 0x60, 0x84, 0, 0, 0, 0x08,
    0x02, 0x01, 0x03, 0x04, 0x00, 0x80, 0x01, 0x73]"
  by code_simp+

lemma bind_request_printf:
  "item_format bind_request = ''{it{ioto}}''"
  "item_args bind_request = [PInt 1, PTag 0x60, PInt 3, PStr [], PLen 0, PTag 0x80, PStr [0x73], PLen 1]"
  "item_scan bind_request = ''{i{iOO}}''" "item_pointers bind_request = [SPtr, SPtr, SPtr, SPtr]"
  "item_outs bind_request = [ONone, OInt (Some 1), ONone, OInt (Some 3), OBerval (Some (None, 0)),
    OBerval (Some (Some [0x73, 0], 1)), ONone, ONone]"
  by (simp_all add: bind_request_def with_tag_def tag_arg_def berval_of_def)

lemma bind_request_ok:
  "item_ok bind_request" "depth bind_request \<le> 113" "length (encoded False bind_request) \<le> write_limit"
proof -
  show "item_ok bind_request" by code_simp
  show "depth bind_request \<le> 113" by (simp add: bind_request_def)
  show "length (encoded False bind_request) \<le> write_limit"
    by (simp add: bind_request_encoded write_limit_def)
qed

theorem ber_printf_encodes_witness:
  "\<exists>rc b. ber_printf ready_alloc (fresh 1) ''{it{ioto}}'' [PInt 1, PTag 0x60, PInt 3, PStr [], PLen 0,
      PTag 0x80, PStr [0x73], PLen 1] = Some (rc, b) \<and> rc \<noteq> -1
    \<and> ber_flatten ready_alloc True (Some b) = Some (0, Some (Some
        [0x30, 0x0d, 0x02, 0x01, 0x01, 0x60, 0x08, 0x02, 0x01, 0x03, 0x04, 0x00, 0x80, 0x01, 0x73, 0], 15))"
  using ber_printf_encodes [OF ready_alloc bind_request_ok, of 1]
  by (simp add: bind_request_printf LBER_USE_DER_def bind_request_encoded)

text \<open>
  C5: what \<open>ber_printf\<close> wrote, \<open>ber_scanf\<close> reads back: on the reset element, with the format of the
  item without its tags, it succeeds and its outputs are the values that were written.
\<close>

theorem ber_scanf_round_trip:
  assumes "always_allocates alloc" "item_ok x" "depth x \<le> 113" "length (encoded False x) \<le> write_limit"
    and "\<forall>n. memory n"
  shows "\<exists>rc b rc' b'. ber_printf alloc (fresh options) (item_format x) (item_args x) = Some (rc, b)
    \<and> ber_scanf memory (ber_reset b True) (item_scan x) (item_pointers x) = Some (rc', item_outs x, b')
    \<and> rc' \<noteq> LBER_DEFAULT"
proof -
  let ?enc = "encoded (options AND LBER_USE_DER \<noteq> 0) x"
  obtain rc b where 1: "ber_printf alloc (fresh options) (item_format x) (item_args x) = Some (rc, b)"
      "writes (fresh options) ?enc b"
    by (rule printed [OF assms(1-4)])
  have r: "readable (ber_reset b True)" "unread (ber_reset b True) = ?enc @ []"
    using reset_written [OF 1(2) encoded_not_Nil encoded_limit [OF assms(4)]] by simp_all
  have "plain []" "(0 :: u32) \<noteq> LBER_DEFAULT" by (simp_all add: plain_def LBER_DEFAULT_def)
  then obtain rc' tr where "rc' \<noteq> LBER_DEFAULT" "map (snd \<circ> snd) tr = item_outs x"
      "scanf_loop memory (item_scan x @ []) (item_pointers x @ []) 0 (ber_reset b True) []
        = scanf_loop memory [] [] rc' (advance (length ?enc) (ber_reset b True)) ([] @ tr)"
    using scans_item [OF assms(5,2)] r unfolding scans_def by metis
  then show ?thesis using 1(1) by (auto simp: ber_scanf_def)
qed

theorem ber_scanf_round_trip_witness:
  "\<exists>rc b rc' b'. ber_printf ready_alloc (fresh 0) ''{it{ioto}}'' [PInt 1, PTag 0x60, PInt 3, PStr [], PLen 0,
      PTag 0x80, PStr [0x73], PLen 1] = Some (rc, b)
    \<and> ber_scanf ready (ber_reset b True) ''{i{iOO}}'' [SPtr, SPtr, SPtr, SPtr] = Some (rc',
        [ONone, OInt (Some 1), ONone, OInt (Some 3), OBerval (Some (None, 0)),
         OBerval (Some (Some [0x73, 0], 1)), ONone, ONone], b')
    \<and> rc' \<noteq> LBER_DEFAULT"
  using ber_scanf_round_trip [OF ready_alloc bind_request_ok, of ready 0]
  by (simp add: bind_request_printf)

end
