(* ===== verification/Ber_Messages.thy ===== *)
theory Ber_Messages imports Ber_Items begin

text \<open>
  Vectors in whole messages, and the depth at which the room set aside for headers outruns the buffer.
\<close>

section \<open>Vectors\<close>

lemma put_vector_default:
  "put_vector (\<lambda>b s. ber_put_string alloc b s LBER_DEFAULT) = put_vector (\<lambda>b s. ber_put_string alloc b s LBER_OCTETSTRING)"
  by (simp add: ber_put_string_def put_default_tags)

lemma printf_conv_vector:
  "printf_conv alloc CHR ''v'' (PStrVec (Some ss) # rest) rc ber
    = map_option (\<lambda>(rc', ber'). (rc', ber', rest)) (put_vector (\<lambda>b s. ber_put_string alloc b s (ber_tag ber)) ss rc ber)"
  by (simp add: printf_conv_def)

lemma prints_vector:
  assumes "list_all (\<lambda>s. length s < 2 ^ 31) ss" "idle b" "writable b"
    and "cursor b + length (string_codec.tlvs ss) \<le> write_limit"
  shows "prints ready_alloc b ''v'' [PStrVec (Some ss)] (string_codec.tlvs ss)"
  unfolding prints_def
proof (intro allI impI)
  fix rc :: int assume rc: "rc \<noteq> -1"
  obtain rc' b' where w: "put_vector (\<lambda>b s. ber_put_string ready_alloc b s LBER_OCTETSTRING) ss rc b = Some (rc', b')"
      "rc' \<noteq> -1" "writes b (string_codec.tlvs ss) b'"
    using string_codec.put_vector_writes [OF assms(1,3,4) rc] by blast
  have i: "idle b'" by (rule writes_idle [OF w(3) assms(2)])
  have r: "b'\<lparr>ber_tag := LBER_DEFAULT\<rparr> = b'" "ber_usertag b' = 0" "ber_tag b = LBER_DEFAULT"
    using i assms(2) by (simp_all add: idle_def)
  have "printf_loop ready_alloc (''v'' @ fmt) ([PStrVec (Some ss)] @ args) rc b = printf_loop ready_alloc fmt args rc' b'"
    for fmt args
    using rc w(1) by (simp add: printf_conv_vector r put_vector_default)
  then show "\<exists>rc' b'. (\<forall>fmt args. printf_loop ready_alloc (''v'' @ fmt) ([PStrVec (Some ss)] @ args) rc b
      = printf_loop ready_alloc fmt args rc' b') \<and> rc' \<noteq> -1 \<and> writes b (string_codec.tlvs ss) b' \<and> idle b'"
    using w(2,3) i by blast
qed

lemma prints_printf:
  assumes "prints alloc b f as bs"
  obtains rc b' where "ber_printf alloc b f as = Some (rc, b')" "writes b bs b'" "rc \<noteq> -1"
proof -
  obtain rc b' where "\<forall>fmt args. printf_loop alloc (f @ fmt) (as @ args) 0 b = printf_loop alloc fmt args rc b'"
      "rc \<noteq> -1" "writes b bs b'"
    using assms unfolding prints_def by (metis zero_neq_neg_one)
  moreover from this(1) have "printf_loop alloc (f @ []) (as @ []) 0 b = printf_loop alloc [] [] rc b'" by blast
  ultimately show thesis using that by (simp add: ber_printf_def)
qed

lemma valid_sequence: "ber_calc_taglen LBER_SEQUENCE = 1"
  using short_tags(1) [of None] by (simp add: short_tag_def tag_or_def)

lemma prints_string_sequence:
  assumes "list_all (\<lambda>s. length s < 2 ^ 31) ss" "length (string_codec.tlvs ss) + 6 \<le> write_limit"
  shows "prints ready_alloc (fresh options) ''{v}'' [PStrVec (Some ss)]
    (constructed (options AND LBER_USE_DER \<noteq> 0) LBER_SEQUENCE (string_codec.tlvs ss))"
proof -
  have "prints ready_alloc (fresh options) (with_tag None CHR ''{'' @ ''v'' @ [CHR ''}'']) (tag_arg None @ [PStrVec (Some ss)])
      (constructed (ber_use_der (fresh options)) LBER_SEQUENCE (string_codec.tlvs ss))"
  proof (rule prints_constructed [OF ready_alloc])
    show "prints ready_alloc b' ''v'' [PStrVec (Some ss)] (string_codec.tlvs ss)"
      if "writable b'" "idle b'" "cursor b' = cursor (fresh options) + 6" for b'
      by (rule prints_vector [OF assms(1) that(2,1)]) (use that(3) assms(2) in simp)
  qed (use assms(2) valid_sequence in
      \<open>simp_all add: printf_conv_simps ber_start_seq_def tag_or_def\<close>)
  then show ?thesis by (simp add: with_tag_def tag_arg_def)
qed

text \<open>
  A list of strings written with the format \<open>{v}\<close> and read back with the format \<open>{v}\<close> comes back as
  the vector of the same strings, each with its terminating null.
\<close>

theorem ber_vector_round_trip:
  assumes "ss \<noteq> []" "list_all (\<lambda>s. length s < 2 ^ 31) ss"
    and "length (concat (map (tlv LBER_OCTETSTRING) ss)) < 2 ^ 28"
  shows "\<exists>rc b rc' b'. ber_printf ready_alloc (fresh options) ''{v}'' [PStrVec (Some ss)] = Some (rc, b)
    \<and> ber_scanf ready (ber_reset b True) ''{v}'' [SPtr]
      = Some (rc', [ONone, OStrVec (Some (map (\<lambda>s. Some (s @ [0])) ss)), ONone], b')
    \<and> rc' \<noteq> LBER_DEFAULT"
proof -
  let ?der = "options AND LBER_USE_DER \<noteq> 0" and ?cs = "string_codec.tlvs ss"
  let ?enc = "constructed ?der LBER_SEQUENCE ?cs"
  note size = assms(3) [folded string_codec.tlvs_def]
  have lim: "length ?cs + 6 \<le> write_limit" using size by (simp add: write_limit_def)
  have enc: "length ?enc \<le> length ?cs + 6" using length_constructed(1) [of ?der LBER_SEQUENCE ?cs] valid_sequence by simp
  obtain rc b where w: "ber_printf ready_alloc (fresh options) ''{v}'' [PStrVec (Some ss)] = Some (rc, b)"
      "writes (fresh options) ?enc b"
    by (rule prints_printf [OF prints_string_sequence [OF assms(2) lim, of options]])
  have "?enc \<noteq> []" by (simp add: constructed_def header_def)
  then have r: "readable (ber_reset b True)" "unread (ber_reset b True) = ?enc"
    using reset_written [OF w(2)] enc lim by simp_all
  have z: "(0 :: u32) \<noteq> LBER_DEFAULT" by (simp add: LBER_DEFAULT_def)
  have u: "unread (ber_reset b True) = header ?der LBER_SEQUENCE (of_nat (length ?cs)) @ ?cs @ []"
    unfolding r(2) constructed_def by simp
  have sz: "length (unread (ber_reset b True)) < 2 ^ 29" using r(2) enc size by simp
  have "scan_vector ready (ber_get_stringa ready) 0 (ber_reset b True)
      = Some (LBER_OCTETSTRING, map (\<lambda>s. Some (s @ [0])) ss,
          advance (length (header ?der LBER_SEQUENCE (of_nat (length ?cs)) @ ?cs)) (ber_reset b True))"
    by (rule string_codec.scan_vector_reads [OF assms(2,1) r(1) valid_octetstring(6) _ z u sz]) simp
  then obtain s where "scan_vector ready (ber_get_stringa ready) 0 (ber_reset b True)
      = Some (LBER_OCTETSTRING, map (\<lambda>s. Some (s @ [0])) ss, s)" by blast
  then have "ber_scanf ready (ber_reset b True) ''{v}'' [SPtr]
      = Some (LBER_OCTETSTRING, [ONone, OStrVec (Some (map (\<lambda>s. Some (s @ [0])) ss)), ONone], s)"
    using z valid_octetstring(1) [THEN valid_tag_not_default] assms(1)
    by (simp add: ber_scanf_def scanf_conv_simps nonempty_vector_def)
  then show ?thesis
    using w(1) valid_octetstring(1) [THEN valid_tag_not_default] by auto
qed

theorem ber_vector_round_trip_witness:
  "\<exists>rc b rc' b'. ber_printf ready_alloc (fresh 0) ''{v}'' [PStrVec (Some [[0x63, 0x6e], []])] = Some (rc, b)
    \<and> ber_scanf ready (ber_reset b True) ''{v}'' [SPtr]
      = Some (rc', [ONone, OStrVec (Some [Some [0x63, 0x6e, 0], Some [0]]), ONone], b')
    \<and> rc' \<noteq> LBER_DEFAULT"
proof -
  have "length (concat (map (tlv LBER_OCTETSTRING) [[0x63, 0x6e], []])) < 2 ^ 28"
    by (simp add: tlv_def tag_octets_def ber_calc_taglen_def leading_octet_numeral LBER_OCTETSTRING_def len_octets_def)
  then show ?thesis using ber_vector_round_trip [of "[[0x63, 0x6e], []]" 0] by simp
qed

section \<open>Too many open sequences\<close>

lemma printf_opens:
  assumes "always_allocates alloc" "idle b" "rc \<noteq> -1" "n \<noteq> 0"
  shows "printf_loop alloc (replicate n CHR ''{'' @ fmt) args rc b
    = printf_loop alloc fmt args 0 ((opened LBER_SEQUENCE ^^ n) b)"
  using assms(2-4)
proof (induction n arbitrary: b rc)
  case (Suc n)
  let ?o = "opened LBER_SEQUENCE b"
  have i: "idle ?o" "?o\<lparr>ber_tag := LBER_DEFAULT\<rparr> = ?o" "ber_usertag ?o = 0" "ber_tag b = LBER_DEFAULT"
    using Suc.prems(1) by (simp_all add: idle_def opened_def)
  have "printf_loop alloc (CHR ''{'' # replicate n CHR ''{'' @ fmt) args rc b = printf_loop alloc (replicate n CHR ''{'' @ fmt) args 0 ?o"
    using Suc.prems(2) i ber_start_seqorset_eq [OF assms(1)] by (simp add: printf_conv_simps ber_start_seq_def)
  also have "\<dots> = printf_loop alloc fmt args 0 ((opened LBER_SEQUENCE ^^ n) ?o)"
    using Suc.IH [OF i(1)] by (cases "n = 0") simp_all
  finally show ?case by (simp add: funpow_swap1)
qed simp

text \<open>
  C40: \<open>ber_realloc\<close> counts from the end of the buffer, not from the place the next octet goes: with 171
  or more sequences open and nothing written yet, the first octet is stored outside the block.
\<close>

theorem ber_printf_deep_overflow:
  assumes "always_allocates alloc" "171 \<le> n"
  shows "ber_printf alloc (fresh options) (replicate n CHR ''{'' @ ''i'') [PInt v] = None"
proof -
  let ?b = "(opened LBER_SEQUENCE ^^ n) (fresh options)"
  have n: "n \<noteq> 0" using assms(2) by simp
  have st: "ber_buf ?b = None" "ber_end ?b = 0" "cursor ?b = 6 * n" "idle ?b" "length (ber_sos ?b) = n"
    by (induction n) (simp_all add: fresh_def ber_alloc_t_def valid_sequence cursor_def,
        simp_all add: opened_def valid_sequence cursor_def idle_def FOUR_BYTE_LEN_def)
  obtain sos ss where sos: "ber_sos ?b = sos # ss" "sos_ptr sos = 6 * n"
    using st(3,5) n by (cases "ber_sos ?b") (simp_all add: cursor_def)
  obtain ext where e: "ber_realloc alloc ?b (of_nat 1) = Some (0, ?b\<lparr>ber_buf := Some (ber_block ?b @ ext),
      ber_end := length (ber_block ?b @ ext)\<rparr>)" "length ext = (1 + 1023) div 1024 * 1024"
    using ber_realloc_ok [OF assms(1), of 1 ?b] st(1,2) by (auto simp: ber_block_def)
  have "ber_write alloc ?b [2] False = None"
    using e st(1) sos assms(2) by (simp add: ber_write_def Let_def ber_store_def store_def ber_block_def)
  moreover have "be_bytes (ber_calc_taglen LBER_INTEGER) LBER_INTEGER = [2]"
    by (simp add: ber_calc_taglen_def leading_octet_numeral LBER_INTEGER_def)
  ultimately have "ber_put_int alloc ?b v LBER_DEFAULT = None"
    by (simp add: put_default_tags ber_put_int_def valid_octetstring(2) [THEN valid_tag_not_default]
        ber_put_int_or_enum_def Let_def ber_put_tag_def on_ok_def)
  moreover have "ber_tag ?b = LBER_DEFAULT" using st(4) by (simp add: idle_def)
  ultimately have "printf_loop alloc ''i'' [PInt v] 0 ?b = None" by (simp add: printf_conv_simps)
  then show ?thesis
    using printf_opens [OF assms(1) fresh_simps(1) _ n, of 0 "''i''" "[PInt v]" options] by (simp add: ber_printf_def)
qed

theorem ber_printf_deep_overflow_witness:
  "ber_printf ready_alloc (fresh 0) (replicate 171 CHR ''{'' @ ''i'') [PInt 1] = None"
  by (rule ber_printf_deep_overflow [OF ready_alloc order_refl])

end
