(* ===== verification/Ber_Building.thy ===== *)
theory Ber_Building imports Ber_Messages begin

text \<open>
  Messages written by several calls of \<open>ber_printf\<close>.  A sequence opened in one call may be closed in
  another; what is being built is a stack of open sequences and sets with the items they hold so far.  \<open>builds\<close>
  says what a format with its arguments does to that stack, and the code is shown to do the same.
\<close>

section \<open>Items under construction\<close>

datatype opener = Opens_seq | Opens_set

type_synonym building = "(opener \<times> u32 option \<times> ber_item list) list \<times> ber_item list"

fun opener_tag :: "opener \<Rightarrow> u32 option \<Rightarrow> u32" where
  "opener_tag Opens_seq t = tag_or LBER_SEQUENCE t"
| "opener_tag Opens_set t = tag_or LBER_SET t"

fun group :: "opener \<Rightarrow> u32 option \<Rightarrow> ber_item list \<Rightarrow> ber_item" where
  "group Opens_seq t xs = ISeq t xs"
| "group Opens_set t xs = ISet t xs"

fun add_items :: "ber_item list \<Rightarrow> building \<Rightarrow> building" where
  "add_items ys ([], base) = ([], base @ ys)"
| "add_items ys ((k, t, xs) # F, base) = ((k, t, xs @ ys) # F, base)"

definition open_group :: "opener \<Rightarrow> u32 option \<Rightarrow> building \<Rightarrow> building" where
  "open_group k t st = ((k, t, []) # fst st, snd st)"

fun close_group :: "building \<Rightarrow> building option" where
  "close_group ([], base) = None"
| "close_group ((k, t, xs) # F, base) = Some (add_items [group k t xs] (F, base))"

definition value_octets :: "berval \<Rightarrow> octets option" where
  "value_octets v = (if bv_len v = 0 then Some []
     else case bv_val v of None \<Rightarrow> None | Some s \<Rightarrow> if unat (bv_len v) \<le> length s then Some (take (unat (bv_len v)) s) else None)"

fun all_values :: "berval list \<Rightarrow> octets list option" where
  "all_values [] = Some []"
| "all_values (v # vs) = (case value_octets v of None \<Rightarrow> None | Some s \<Rightarrow> map_option ((#) s) (all_values vs))"

text \<open>What a conversion other than a bracket or a tag adds, and the arguments it leaves.\<close>

definition primitive :: "char \<Rightarrow> printf_arg list \<Rightarrow> u32 option \<Rightarrow> (ber_item list \<times> printf_arg list) option" where
  "primitive c args t =
    (if c = CHR ''n'' then Some ([INull t], args)
     else if c = CHR ''i'' then (case args of PInt i # rest \<Rightarrow> Some ([IInt t i], rest) | _ \<Rightarrow> None)
     else if c = CHR ''e'' then (case args of PInt i # rest \<Rightarrow> Some ([IEnum t i], rest) | _ \<Rightarrow> None)
     else if c = CHR ''b'' then (case args of PInt i # rest \<Rightarrow> Some ([IBool t i], rest) | _ \<Rightarrow> None)
     else if c = CHR ''s'' then (case args of PStr s # rest \<Rightarrow> Some ([IString t s], rest) | _ \<Rightarrow> None)
     else if c = CHR ''o'' then (case args of PStr s # PLen len # rest \<Rightarrow>
         if unat len \<le> length s then Some ([IString t (take (unat len) s)], rest) else None | _ \<Rightarrow> None)
     else if c = CHR ''O'' then (case args of PBerval None # rest \<Rightarrow> Some ([], rest)
         | PBerval (Some v) # rest \<Rightarrow> map_option (\<lambda>s. ([IString t s], rest)) (value_octets v) | _ \<Rightarrow> None)
     else if c = CHR ''v'' then (case args of PStrVec None # rest \<Rightarrow> Some ([], rest)
         | PStrVec (Some ss) # rest \<Rightarrow> Some (map (IString t) ss, rest) | _ \<Rightarrow> None)
     else if c = CHR ''V'' then (case args of PBvVec None # rest \<Rightarrow> Some ([], rest)
         | PBvVec (Some vs) # rest \<Rightarrow> map_option (\<lambda>ss. (map (IString t) ss, rest)) (all_values vs) | _ \<Rightarrow> None)
     else None)"

fun builds :: "string \<Rightarrow> printf_arg list \<Rightarrow> u32 option \<Rightarrow> building \<Rightarrow> building option" where
  "builds [] args t st = (if t = None then Some st else None)"
| "builds (c # fmt) args t st =
    (if c = CHR ''t'' then (case args of PTag v # rest \<Rightarrow> builds fmt rest (Some v) st | _ \<Rightarrow> None)
     else if c = CHR ''N'' then builds fmt args None st
     else if c = CHR ''{'' then builds fmt args None (open_group Opens_seq t st)
     else if c = CHR ''['' then builds fmt args None (open_group Opens_set t st)
     else if c = CHR ''}'' \<or> c = CHR '']'' then (if t \<noteq> None then None else case close_group st of None \<Rightarrow> None | Some st' \<Rightarrow> builds fmt args None st')
     else case primitive c args t of None \<Rightarrow> None | Some (items, rest) \<Rightarrow> builds fmt rest None (add_items items st))"

section \<open>Sizes and tags\<close>

abbreviation coded :: "bool \<Rightarrow> ber_item list \<Rightarrow> octets" where
  "coded der xs \<equiv> concat (map (encoded der) xs)"

definition weight :: "building \<Rightarrow> nat" where
  "weight st = length (coded False (snd st)) + sum_list (map (\<lambda>(k, t, xs). 6 + length (coded False xs)) (fst st))"

definition building_ok :: "building \<Rightarrow> bool" where
  "building_ok st \<longleftrightarrow> list_all item_ok (snd st) \<and> list_all (\<lambda>(k, t, xs). short_tag t \<and> list_all item_ok xs) (fst st)"

lemma weight_simps [simp]:
  "weight ([], base) = length (coded False base)"
  "weight ((k, t, xs) # F, base) = 6 + length (coded False xs) + weight (F, base)"
  by (simp_all add: weight_def)

lemma building_ok_simps [simp]:
  "building_ok ([], base) = list_all item_ok base"
  "building_ok ((k, t, xs) # F, base) = (short_tag t \<and> list_all item_ok xs \<and> building_ok (F, base))"
  by (auto simp: building_ok_def)

lemma weight_add [simp]: "weight (add_items ys st) = weight st + length (coded False ys)"
  by (cases "(ys, st)" rule: add_items.cases) simp_all

lemma building_ok_add [simp]: "building_ok (add_items ys st) = (building_ok st \<and> list_all item_ok ys)"
  by (cases "(ys, st)" rule: add_items.cases) auto

lemma frames_add [simp]: "length (fst (add_items ys st)) = length (fst st)"
  by (cases "(ys, st)" rule: add_items.cases) simp_all

lemma add_items_Nil [simp]: "add_items [] st = st"
  by (cases "([] :: ber_item list, st)" rule: add_items.cases) simp_all

lemma add_items_append [simp]: "add_items ys (add_items xs st) = add_items (xs @ ys) st"
  by (cases "(xs, st)" rule: add_items.cases) simp_all

lemma weight_open [simp]: "weight (open_group k t st) = weight st + 6"
  by (cases st) (simp add: open_group_def)

lemma building_ok_open [simp]: "building_ok (open_group k t st) = (short_tag t \<and> building_ok st)"
  by (cases st) (simp add: open_group_def)

lemma short_opener: "short_tag t \<Longrightarrow> ber_calc_taglen (opener_tag k t) = 1"
  by (cases k) (simp_all add: short_tags)

lemma close_mono: "close_group st = Some st' \<Longrightarrow> (building_ok st' \<longrightarrow> building_ok st \<and> weight st \<le> weight st') \<and> length (fst st) = Suc (length (fst st'))"
proof (cases st rule: close_group.cases)
  case (2 k t xs F base)
  moreover assume "close_group st = Some st'"
  ultimately show ?thesis using short_opener [of t k] by (cases k) (auto simp: length_constructed(2))
qed simp

lemma builds_mono: "builds fmt args t st = Some st' \<Longrightarrow> building_ok st' \<Longrightarrow> building_ok st \<and> weight st \<le> weight st'"
proof (induction fmt arbitrary: args t st)
  case (Cons c fmt)
  show ?case
  proof (cases "c = CHR ''}'' \<or> c = CHR '']''")
    case True
    then obtain st1 where "close_group st = Some st1" "builds fmt args None st1 = Some st'"
      using Cons.prems(1) by (auto split: option.splits if_splits)
    then show ?thesis using Cons.IH Cons.prems(2) close_mono [of st st1] by fastforce
  next
    case False
    then show ?thesis using Cons.prems
      by (auto split: if_splits option.splits list.splits printf_arg.splits dest!: Cons.IH)
  qed
qed (auto split: if_splits)

text \<open>A generous estimate of the octets an item takes, in which nothing has to be encoded.\<close>

fun bulk :: "ber_item \<Rightarrow> nat" where
  "bulk (IInt t n) = 13"
| "bulk (IEnum t n) = 13"
| "bulk (IBool t n) = 10"
| "bulk (INull t) = 9"
| "bulk (IString t s) = 9 + length s"
| "bulk (ISeq t xs) = 9 + sum_list (map bulk xs)"
| "bulk (ISet t xs) = 9 + sum_list (map bulk xs)"

lemma length_tlv_le: "length (tlv tag s) \<le> 9 + length s"
  using taglen_bounds [of tag] length_len_octets [of "of_nat (length s)"] ber_calc_lenlen_bounds [of "of_nat (length s)"]
  by (simp add: tlv_def tag_octets_def)

lemma length_concat_le:
  assumes "\<And>x. x \<in> set xs \<Longrightarrow> length (f x) \<le> g x" shows "length (concat (map f xs)) \<le> sum_list (map g xs)"
  using assms by (induction xs) (auto intro: add_mono)

lemma length_encoded_le: "length (encoded der x) \<le> bulk x"
proof (induction x)
  case (ISeq t xs)
  then show ?case
    using length_concat_le [of xs "encoded der" bulk] taglen_bounds [of "tag_or LBER_SEQUENCE t"]
      length_constructed(1) [of der "tag_or LBER_SEQUENCE t" "coded der xs"] by simp
next
  case (ISet t xs)
  then show ?case
    using length_concat_le [of xs "encoded der" bulk] taglen_bounds [of "tag_or LBER_SET t"]
      length_constructed(1) [of der "tag_or LBER_SET t" "coded der xs"] by simp
next
  case (IInt t n)
  show ?case using length_tlv_le [of "tag_or LBER_INTEGER t" "int_octets n"] int_len_bounds(2) [of n] by (simp add: int_octets_def)
next
  case (IEnum t n)
  show ?case using length_tlv_le [of "tag_or LBER_ENUMERATED t" "int_octets n"] int_len_bounds(2) [of n] by (simp add: int_octets_def)
next
  case (IBool t n)
  show ?case using length_tlv_le [of "tag_or LBER_BOOLEAN t" "[if n \<noteq> 0 then 0xff else 0]"] by simp
next
  case (INull t)
  show ?case using length_tlv_le [of "tag_or LBER_NULL t" "[]"] by simp
qed (simp add: length_tlv_le)

definition bulk_building :: "building \<Rightarrow> nat" where
  "bulk_building st = sum_list (map bulk (snd st)) + sum_list (map (\<lambda>(k, t, xs). 6 + sum_list (map bulk xs)) (fst st))"

lemma weight_le: "weight st \<le> bulk_building st"
proof -
  have "length (coded False xs) \<le> sum_list (map bulk xs)" for xs by (rule length_concat_le [OF length_encoded_le])
  moreover from this have "sum_list (map (\<lambda>(k, t, xs). 6 + length (coded False xs)) F) \<le> sum_list (map (\<lambda>(k, t, xs). 6 + sum_list (map bulk xs)) F)"
    for F :: "(opener \<times> u32 option \<times> ber_item list) list"
    by (intro sum_list_mono) auto
  ultimately show ?thesis unfolding weight_def bulk_building_def by (metis add_mono)
qed

section \<open>Primitive conversions\<close>

lemma put_vector_puts:
  assumes "\<And>x. x \<in> set xs \<Longrightarrow> puts (\<lambda>b. put b x) (f x)" "writable b" "cursor b + length (concat (map f xs)) \<le> write_limit" "0 \<le> rc"
  shows "\<exists>rc' b'. put_vector put xs rc b = Some (rc', b') \<and> 0 \<le> rc' \<and> writes b (concat (map f xs)) b'"
  using assms
proof (induction xs arbitrary: b rc)
  case (Cons x xs)
  obtain b1 where b1: "put b x = Some (int (length (f x)), b1)" "writes b (f x) b1"
    using Cons.prems(1) [of x] Cons.prems(2,3) by (auto simp: puts_def)
  obtain rc' b' where "put_vector put xs (int (length (f x))) b1 = Some (rc', b')" "0 \<le> rc'" "writes b1 (concat (map f xs)) b'"
    using Cons.IH [of b1 "int (length (f x))"] Cons.prems writes_writable [OF b1(2)] writes_cursor [OF b1(2)] by auto
  then show ?case using b1 writes_trans [OF b1(2)] by auto
qed simp

text \<open>A conversion, with the tag it was given, ends in a state that stands for the items.\<close>

definition converts :: "allocator \<Rightarrow> berelement \<Rightarrow> char \<Rightarrow> printf_arg list \<Rightarrow> u32 option \<Rightarrow> printf_arg list \<Rightarrow> octets \<Rightarrow> bool" where
  "converts alloc b c args t rest bs \<longleftrightarrow> (\<forall>rc. 0 \<le> rc \<longrightarrow> (\<exists>rc' b'.
    (\<forall>fmt. printf_loop alloc (c # fmt) args rc (b\<lparr>ber_tag := tag_or LBER_DEFAULT t\<rparr>) = printf_loop alloc fmt rest rc' b')
      \<and> 0 \<le> rc' \<and> writes b bs b' \<and> idle b'))"

lemma converts_put:
  assumes "puts put bs" "idle b" "writable b" "cursor b + length bs \<le> write_limit"
    and "\<And>b rc. ber_tag b = tag_or LBER_DEFAULT t \<Longrightarrow> printf_conv alloc c args rc b = map_option (\<lambda>(rc', b'). (rc', b', rest)) (put b)"
  shows "converts alloc b c args t rest bs"
  unfolding converts_def
proof (intro allI impI)
  fix rc :: int assume rc: "0 \<le> rc"
  let ?b = "b\<lparr>ber_tag := tag_or LBER_DEFAULT t\<rparr>"
  obtain b1 where b1: "put ?b = Some (int (length bs), b1)" "writes ?b bs b1"
    using assms(1,3,4) unfolding puts_def by (metis cursor_tag writable_tag)
  note w = writes_tagged [OF b1(2) assms(2)]
  have "printf_loop alloc (c # fmt) args rc ?b = printf_loop alloc fmt rest (int (length bs)) (b1\<lparr>ber_tag := LBER_DEFAULT\<rparr>)" for fmt
    using rc b1(1) w(3) assms(5) [of ?b] by simp
  moreover have "0 \<le> int (length bs)" by simp
  ultimately show "\<exists>rc' b'. (\<forall>fmt. printf_loop alloc (c # fmt) args rc ?b = printf_loop alloc fmt rest rc' b')
      \<and> 0 \<le> rc' \<and> writes b bs b' \<and> idle b'"
    using w(1,2) by blast
qed

lemma converts_nothing:
  assumes "idle b" "\<And>b rc. printf_conv alloc c args rc b = Some (rc, b, rest)"
  shows "converts alloc b c args t rest []"
proof -
  have "b\<lparr>ber_tag := LBER_DEFAULT\<rparr> = b" "ber_usertag b = 0" using assms(1) by (simp_all add: idle_def)
  then show ?thesis using assms unfolding converts_def by (auto intro!: exI [of _ b])
qed

lemma converts_vector:
  assumes "\<And>x. x \<in> set xs \<Longrightarrow> puts (\<lambda>b. put b x) (f x)" "idle b" "writable b" "cursor b + length (concat (map f xs)) \<le> write_limit"
    and "\<And>b rc. ber_tag b = tag_or LBER_DEFAULT t \<Longrightarrow>
      printf_conv alloc c args rc b = map_option (\<lambda>(rc', b'). (rc', b', rest)) (put_vector put xs rc b)"
  shows "converts alloc b c args t rest (concat (map f xs))"
  unfolding converts_def
proof (intro allI impI)
  fix rc :: int assume rc: "0 \<le> rc"
  let ?b = "b\<lparr>ber_tag := tag_or LBER_DEFAULT t\<rparr>"
  obtain rc1 b1 where b1: "put_vector put xs rc ?b = Some (rc1, b1)" "0 \<le> rc1" "writes ?b (concat (map f xs)) b1"
    using put_vector_puts [of xs put f ?b rc] assms(1,3,4) rc by auto
  note w = writes_tagged [OF b1(3) assms(2)]
  have "printf_loop alloc (c # fmt) args rc ?b = printf_loop alloc fmt rest rc1 (b1\<lparr>ber_tag := LBER_DEFAULT\<rparr>)" for fmt
    using rc b1(1) w(3) assms(5) [of ?b] by simp
  then show "\<exists>rc' b'. (\<forall>fmt. printf_loop alloc (c # fmt) args rc ?b = printf_loop alloc fmt rest rc' b')
      \<and> 0 \<le> rc' \<and> writes b (concat (map f xs)) b' \<and> idle b'"
    using w(1,2) b1(2) by blast
qed

lemma of_nat_back: "length s \<le> write_limit \<Longrightarrow> unat (of_nat (length s) :: u32) = length s"
  by (simp add: write_limit_def)

lemma string_puts:
  assumes "always_allocates alloc" "tag_ok t" "length s \<le> write_limit"
  shows "puts (\<lambda>b. ber_put_string alloc b s (tag_or LBER_OCTETSTRING t)) (tlv (tag_or LBER_OCTETSTRING t) s)"
  using ber_put_ostring_puts [OF assms(1), of "of_nat (length s)" s "tag_or LBER_OCTETSTRING t"] valid_tags [OF assms(2) valid_octetstring(1)]
    of_nat_back [OF assms(3)]
  by (simp add: ber_put_string_def)

lemma berval_puts:
  assumes "always_allocates alloc" "tag_ok t" "value_octets v = Some s" "length s \<le> write_limit"
  shows "puts (\<lambda>b. ber_put_berval alloc b (Some v) (tag_or LBER_OCTETSTRING t)) (tlv (tag_or LBER_OCTETSTRING t) s)"
proof -
  note T = valid_tags [OF assms(2) valid_octetstring(1), THEN conjunct2]
  show ?thesis
  proof (cases "bv_len v = 0")
    case True
    then show ?thesis using assms(3) ber_put_ostring_puts [OF assms(1) _ T, of 0 "[]"] by (simp add: value_octets_def ber_put_berval_def)
  next
    case False
    then obtain x where x: "bv_val v = Some x" "unat (bv_len v) \<le> length x" "s = take (unat (bv_len v)) x"
      using assms(3) by (auto simp: value_octets_def split: option.splits if_splits)
    then show ?thesis using False ber_put_ostring_puts [OF assms(1) x(2) T] by (simp add: ber_put_berval_def)
  qed
qed

lemma length_in_limit: "x \<in> set xs \<Longrightarrow> k + length (concat (map f xs)) \<le> n \<Longrightarrow> length (f x) \<le> n"
proof -
  have "x \<in> set xs \<Longrightarrow> length (f x) \<le> length (concat (map f xs))" by (induction xs) auto
  then show "x \<in> set xs \<Longrightarrow> k + length (concat (map f xs)) \<le> n \<Longrightarrow> length (f x) \<le> n" by linarith
qed

lemma length_tlv_contents: "length s \<le> length (tlv tag s)" by (simp add: tlv_def)

lemma all_values_set: "all_values vs = Some ss \<Longrightarrow> length ss = length vs \<and> (\<forall>v \<in> set vs. \<exists>s. value_octets v = Some s \<and> s \<in> set ss)
    \<and> map (\<lambda>v. the (value_octets v)) vs = ss"
proof (induction vs arbitrary: ss)
  case (Cons v vs)
  then obtain s ss' where "value_octets v = Some s" "all_values vs = Some ss'" "ss = s # ss'" by (auto split: option.splits)
  then show ?case using Cons.IH by fastforce
qed simp

lemma coded_strings: "coded der (map (IString t) ss) = concat (map (tlv (tag_or LBER_OCTETSTRING t)) ss)"
  by (induction ss) simp_all


lemma tagged_puts:
  "ber_put_int alloc b n (tag_or LBER_DEFAULT t) = ber_put_int alloc b n (tag_or LBER_INTEGER t)"
  "ber_put_enum alloc b n (tag_or LBER_DEFAULT t) = ber_put_enum alloc b n (tag_or LBER_ENUMERATED t)"
  "ber_put_boolean alloc b n (tag_or LBER_DEFAULT t) = ber_put_boolean alloc b n (tag_or LBER_BOOLEAN t)"
  "ber_put_null alloc b (tag_or LBER_DEFAULT t) = ber_put_null alloc b (tag_or LBER_NULL t)"
  "ber_put_ostring alloc b s len (tag_or LBER_DEFAULT t) = ber_put_ostring alloc b s len (tag_or LBER_OCTETSTRING t)"
  "ber_put_string alloc b s (tag_or LBER_DEFAULT t) = ber_put_string alloc b s (tag_or LBER_OCTETSTRING t)"
  "ber_put_berval alloc b v (tag_or LBER_DEFAULT t) = ber_put_berval alloc b v (tag_or LBER_OCTETSTRING t)"
  by (cases t; simp add: tag_or_def put_default_tags ber_put_string_def ber_put_berval_def split: option.split)+

lemma converts_value:
  assumes "always_allocates alloc" "idle b" "writable b" "tag_ok t"
  shows "cursor b + length (encoded der (INull t)) \<le> write_limit \<Longrightarrow> converts alloc b CHR ''n'' rest t rest (encoded der (INull t))"
    "cursor b + length (encoded der (IInt t i)) \<le> write_limit \<Longrightarrow> converts alloc b CHR ''i'' (PInt i # rest) t rest (encoded der (IInt t i))"
    "cursor b + length (encoded der (IEnum t i)) \<le> write_limit \<Longrightarrow> converts alloc b CHR ''e'' (PInt i # rest) t rest (encoded der (IEnum t i))"
    "cursor b + length (encoded der (IBool t i)) \<le> write_limit \<Longrightarrow> converts alloc b CHR ''b'' (PInt i # rest) t rest (encoded der (IBool t i))"
proof -
  note V = valid_octetstring [THEN valid_tags [OF assms(4), THEN conjunct2]]
  have eqs: "encoded der (INull t) = tlv (tag_or LBER_NULL t) []"
    "encoded der (IInt t i) = tlv (tag_or LBER_INTEGER t) (int_octets i)"
    "encoded der (IEnum t i) = tlv (tag_or LBER_ENUMERATED t) (int_octets i)"
    "encoded der (IBool t i) = tlv (tag_or LBER_BOOLEAN t) [if i \<noteq> 0 then 0xff else 0]" by simp_all
  show "converts alloc b CHR ''n'' rest t rest (encoded der (INull t))" if "cursor b + length (encoded der (INull t)) \<le> write_limit"
    using that unfolding eqs
    by (intro converts_put [OF ber_put_null_puts [OF assms(1) V(5)] assms(2,3)]) (simp_all add: printf_conv_simps tagged_puts)
  show "converts alloc b CHR ''i'' (PInt i # rest) t rest (encoded der (IInt t i))" if "cursor b + length (encoded der (IInt t i)) \<le> write_limit"
    using that unfolding eqs
    by (intro converts_put [OF ber_put_int_puts(1) [OF assms(1) V(2)] assms(2,3)]) (simp_all add: printf_conv_simps tagged_puts)
  show "converts alloc b CHR ''e'' (PInt i # rest) t rest (encoded der (IEnum t i))" if "cursor b + length (encoded der (IEnum t i)) \<le> write_limit"
    using that unfolding eqs
    by (intro converts_put [OF ber_put_int_puts(2) [OF assms(1) V(4)] assms(2,3)]) (simp_all add: printf_conv_simps tagged_puts)
  show "converts alloc b CHR ''b'' (PInt i # rest) t rest (encoded der (IBool t i))" if "cursor b + length (encoded der (IBool t i)) \<le> write_limit"
    using that unfolding eqs
    by (intro converts_put [OF ber_put_boolean_puts [OF assms(1) V(3)] assms(2,3)]) (simp_all add: printf_conv_simps tagged_puts)
qed

lemma primitive_converts:
  assumes "always_allocates alloc" "primitive c args t = Some (items, rest)" "list_all item_ok items"
    and "idle b" "writable b" "cursor b + length (coded False items) \<le> write_limit"
  shows "converts alloc b c args t rest (coded der items)"
proof -
  have tag: "tag_or LBER_DEFAULT t = (if t = None then LBER_DEFAULT else tag_or d t)" for d
    by (cases t) (simp_all add: tag_or_def)
  note V = valid_tags [OF _ valid_octetstring(1), THEN conjunct2]
  consider
      "c = CHR ''n''" "items = [INull t]" "rest = args"
    | i where "c = CHR ''i''" "args = PInt i # rest" "items = [IInt t i]"
    | i where "c = CHR ''e''" "args = PInt i # rest" "items = [IEnum t i]"
    | i where "c = CHR ''b''" "args = PInt i # rest" "items = [IBool t i]"
    | s where "c = CHR ''s''" "args = PStr s # rest" "items = [IString t s]"
    | s len where "c = CHR ''o''" "args = PStr s # PLen len # rest" "unat len \<le> length s" "items = [IString t (take (unat len) s)]"
    | "c = CHR ''O''" "args = PBerval None # rest" "items = []"
    | v s where "c = CHR ''O''" "args = PBerval (Some v) # rest" "value_octets v = Some s" "items = [IString t s]"
    | "c = CHR ''v''" "args = PStrVec None # rest" "items = []"
    | ss where "c = CHR ''v''" "args = PStrVec (Some ss) # rest" "items = map (IString t) ss"
    | "c = CHR ''V''" "args = PBvVec None # rest" "items = []"
    | vs ss where "c = CHR ''V''" "args = PBvVec (Some vs) # rest" "all_values vs = Some ss" "items = map (IString t) ss"
    using assms(2) by (auto simp: primitive_def split: if_splits list.splits printf_arg.splits option.splits)
  then show ?thesis
  proof cases
    case 1
    then show ?thesis using converts_value(1) [OF assms(1,4,5), of t der args] assms(3,6) by simp
  next
    case (2 i)
    then show ?thesis using converts_value(2) [OF assms(1,4,5), of t der i rest] assms(3,6) by simp
  next
    case (3 i)
    then show ?thesis using converts_value(3) [OF assms(1,4,5), of t der i rest] assms(3,6) by simp
  next
    case (4 i)
    then show ?thesis using converts_value(4) [OF assms(1,4,5), of t der i rest] assms(3,6) by simp
  next
    case (5 s)
    then have "tag_ok t" "cursor b + length (tlv (tag_or LBER_OCTETSTRING t) s) \<le> write_limit" using assms(3,6) by simp_all
    moreover from this(2) have "length s \<le> write_limit" using length_tlv_contents [of s "tag_or LBER_OCTETSTRING t"] by linarith
    ultimately have "converts alloc b c args t rest (tlv (tag_or LBER_OCTETSTRING t) s)"
      using 5 by (intro converts_put [OF string_puts [OF assms(1)] assms(4,5)]) (simp_all add: printf_conv_def tagged_puts)
    then show ?thesis using 5 by simp
  next
    case (6 s len)
    then have ok: "tag_ok t" "cursor b + length (tlv (tag_or LBER_OCTETSTRING t) (take (unat len) s)) \<le> write_limit" using assms(3,6) by simp_all
    then have "converts alloc b c args t rest (tlv (tag_or LBER_OCTETSTRING t) (take (unat len) s))"
      using 6(1,2) by (intro converts_put [OF ber_put_ostring_puts [OF assms(1) 6(3) V [OF ok(1)]] assms(4,5)])
        (simp_all add: printf_conv_simps tagged_puts)
    then show ?thesis using 6 by simp
  next
    case 7
    then show ?thesis using converts_nothing [OF assms(4), of alloc c args rest t] by (simp add: printf_conv_def)
  next
    case (8 v s)
    then have "tag_ok t" "cursor b + length (tlv (tag_or LBER_OCTETSTRING t) s) \<le> write_limit" using assms(3,6) by simp_all
    moreover from this(2) have "length s \<le> write_limit" using length_tlv_contents [of s "tag_or LBER_OCTETSTRING t"] by linarith
    ultimately have "converts alloc b c args t rest (tlv (tag_or LBER_OCTETSTRING t) s)"
      using 8 by (intro converts_put [OF berval_puts [OF assms(1)] assms(4,5)]) (simp_all add: printf_conv_def tagged_puts)
    then show ?thesis using 8 by simp
  next
    case 9
    then show ?thesis using converts_nothing [OF assms(4), of alloc c args rest t] by (simp add: printf_conv_def)
  next
    case (10 ss)
    have ok: "s \<in> set ss \<Longrightarrow> tag_ok t" for s using 10 assms(3) by (auto simp: list_all_iff)
    have lim: "cursor b + length (concat (map (tlv (tag_or LBER_OCTETSTRING t)) ss)) \<le> write_limit" using assms(6) unfolding 10(3) coded_strings .
    have "converts alloc b c args t rest (concat (map (tlv (tag_or LBER_OCTETSTRING t)) ss))"
    proof (rule converts_vector [OF _ assms(4,5) lim])
      show "puts (\<lambda>b. ber_put_string alloc b s (tag_or LBER_OCTETSTRING t)) (tlv (tag_or LBER_OCTETSTRING t) s)" if "s \<in> set ss" for s
        using length_in_limit [OF that lim] length_tlv_contents [of s "tag_or LBER_OCTETSTRING t"]
        by (intro string_puts [OF assms(1) ok [OF that]]) linarith
    qed (use 10 in \<open>simp add: printf_conv_def tagged_puts\<close>)
    then show ?thesis by (simp only: 10(3) coded_strings)
  next
    case 11
    then show ?thesis using converts_nothing [OF assms(4), of alloc c args rest t] by (simp add: printf_conv_def)
  next
    case (12 vs ss)
    note ss = all_values_set [OF 12(3)]
    let ?f = "\<lambda>v. tlv (tag_or LBER_OCTETSTRING t) (the (value_octets v))"
    have eq: "coded d items = concat (map ?f vs)" for d
      unfolding 12(4) coded_strings by (subst ss [THEN conjunct2, THEN conjunct2, symmetric]) (simp add: comp_def)
    have ok: "tag_ok t" if v: "v \<in> set vs" for v
    proof -
      obtain s where "s \<in> set ss" using ss v by blast
      then have "IString t s \<in> set items" unfolding 12(4) by simp
      then show ?thesis using assms(3) by (auto simp only: list_all_iff item_ok.simps)
    qed
    have lim: "cursor b + length (concat (map ?f vs)) \<le> write_limit" using assms(6) by (simp only: eq)
    have "converts alloc b c args t rest (concat (map ?f vs))"
    proof (rule converts_vector [OF _ assms(4,5) lim])
      show "puts (\<lambda>b. ber_put_berval alloc b (Some v) (tag_or LBER_OCTETSTRING t)) (?f v)" if v: "v \<in> set vs" for v
      proof -
        obtain s where s: "value_octets v = Some s" using ss v by blast
        then have "length s \<le> write_limit"
          using length_in_limit [OF v lim] length_tlv_contents [of s "tag_or LBER_OCTETSTRING t"] by simp
        then show ?thesis using berval_puts [OF assms(1) ok [OF v] s] s by simp
      qed
    qed (use 12 in \<open>simp add: printf_conv_def tagged_puts\<close>)
    then show ?thesis by (simp only: eq)
  qed
qed

section \<open>Elements under construction\<close>

text \<open>The element holds what is being built: under each open group its items, and above it the next group.\<close>

fun stacked :: "bool \<Rightarrow> berelement \<Rightarrow> (opener \<times> u32 option \<times> ber_item list) list \<Rightarrow> ber_item list \<Rightarrow> berelement \<Rightarrow> bool" where
  "stacked der b0 [] base b = writes b0 (coded der base) b"
| "stacked der b0 ((k, t, xs) # F) base b
    = (\<exists>b1. stacked der b0 F base b1 \<and> writes (opened (opener_tag k t) b1) (coded der xs) b)"

definition holds :: "berelement \<Rightarrow> building \<Rightarrow> berelement \<Rightarrow> bool" where
  "holds b0 st b \<longleftrightarrow> stacked (ber_use_der b0) b0 (fst st) (snd st) b"

definition room_for :: "berelement \<Rightarrow> nat \<Rightarrow> building \<Rightarrow> bool" where
  "room_for b0 n st \<longleftrightarrow> idle b0 \<and> writable b0 \<and> building_ok st \<and> length (ber_sos b0) + length (fst st) + n \<le> 113
    \<and> cursor b0 + weight st \<le> write_limit"

lemma holds_simps:
  "holds b0 ([], base) b = writes b0 (coded (ber_use_der b0) base) b"
  "holds b0 ((k, t, xs) # F, base) b = (\<exists>b1. holds b0 (F, base) b1 \<and> writes (opened (opener_tag k t) b1) (coded (ber_use_der b0) xs) b)"
  by (simp_all add: holds_def)

lemma length_coded: "length (coded der xs) \<le> length (coded False xs)"
  by (rule length_concat_mono [OF length_encoded])

lemma holds_state:
  assumes "holds b0 st b" "room_for b0 0 st"
  shows "writable b \<and> idle b \<and> ber_use_der b = ber_use_der b0 \<and> length (ber_sos b) = length (ber_sos b0) + length (fst st)
    \<and> cursor b \<le> cursor b0 + weight st"
  using assms
proof (induction "fst st" arbitrary: st b)
  case Nil
  then obtain base where st: "st = ([], base)" by (cases st) simp
  have w: "writes b0 (coded (ber_use_der b0) base) b" using Nil.prems(1) by (simp only: st holds_simps)
  then show ?case
    using writes_writable [OF w] writes_idle [OF w] writes_state [OF w] writes_cursor [OF w] Nil.prems(2)
      length_coded [of "ber_use_der b0" base]
    by (simp add: room_for_def st ber_use_der_def)
next
  case (Cons f F)
  then obtain k t xs base where st: "st = ((k, t, xs) # F, base)" by (cases st; cases f) auto
  obtain b1 where b1: "holds b0 (F, base) b1" "writes (opened (opener_tag k t) b1) (coded (ber_use_der b0) xs) b"
    using Cons.prems(1) by (auto simp only: st holds_simps)
  have r: "room_for b0 0 (F, base)" "short_tag t" using Cons.prems(2) by (simp_all add: room_for_def st)
  note 1 = Cons.hyps(1) [of "(F, base)", OF _ b1(1) r(1), simplified]
  have w: "writable (opened (opener_tag k t) b1)" by (rule writable_opened) (use 1 Cons.prems(2) in \<open>simp_all add: room_for_def st\<close>)
  have i: "idle (opened (opener_tag k t) b1)" using 1 by (simp add: idle_def opened_def)
  have "ber_use_der (opened (opener_tag k t) b1) = ber_use_der b1" by (simp add: ber_use_der_def)
  then show ?case
    using writes_writable [OF b1(2) w] writes_idle [OF b1(2) i] writes_state [OF b1(2)] writes_cursor [OF b1(2)] 1
      length_coded [of "ber_use_der b0" xs] short_opener [OF r(2), of k]
    by (simp add: st ber_use_der_def) (simp add: opened_def)
qed

lemma holds_add:
  assumes "holds b0 st b" "writes b (coded (ber_use_der b0) ys) b'"
  shows "holds b0 (add_items ys st) b'"
proof (cases "(ys, st)" rule: add_items.cases)
  case (1 ys base)
  then show ?thesis using assms writes_trans by (auto simp: holds_simps)
next
  case (2 ys k t xs F base)
  then show ?thesis using assms writes_trans by (fastforce simp: holds_simps)
qed

lemma holds_close:
  assumes "always_allocates alloc" "holds b0 st b" "room_for b0 0 st" "close_group st = Some st'" "room_for b0 0 st'"
  shows "\<exists>rc b'. ber_put_seqorset alloc b = Some (rc, b') \<and> 0 \<le> rc \<and> holds b0 st' b'"
proof -
  obtain k t xs F base where st: "st = ((k, t, xs) # F, base)" using assms(4) by (cases st rule: close_group.cases) auto
  let ?T = "opener_tag k t" and ?cs = "coded (ber_use_der b0) xs"
  obtain b1 where b1: "holds b0 (F, base) b1" "writes (opened ?T b1) ?cs b"
    using assms(2) by (auto simp only: st holds_simps)
  have r: "room_for b0 0 (F, base)" "short_tag t" using assms(3) by (simp_all add: room_for_def st)
  note 1 = holds_state [OF b1(1) r(1)]
  have w: "writable (opened ?T b1)" by (rule writable_opened) (use 1 assms(3) in \<open>simp_all add: room_for_def st\<close>)
  have lim: "cursor (opened ?T b1) + length ?cs \<le> write_limit"
    using 1 assms(3) short_opener [OF r(2), of k] length_coded [of "ber_use_der b0" xs] by (simp add: room_for_def st)
  let ?enc = "constructed (ber_use_der b1) ?T ?cs"
  obtain b3 where 3: "ber_put_seqorset alloc b = Some (int (length ?enc), b3)" "writes b1 ?enc b3"
    using close_nested [OF assms(1) b1(2) w lim short_opener [OF r(2)]] close_toplevel [OF assms(1) b1(2) _ lim] 1
    unfolding constructed_def by blast
  have "coded (ber_use_der b0) [group k t xs] = ?enc" using 1 by (cases k) simp_all
  then have "holds b0 st' b3" using holds_add [OF b1(1), of "[group k t xs]" b3] 3(2) assms(4) by (simp add: st)
  then show ?thesis using 3(1) by auto
qed

lemma holds_open:
  assumes "holds b0 st b" shows "holds b0 (open_group k t st) (opened (opener_tag k t) b)"
proof (cases st)
  case (Pair F base)
  then show ?thesis using assms by (auto simp: open_group_def holds_simps)
qed

section \<open>Formats\<close>

definition openers :: "string \<Rightarrow> nat" where
  "openers fmt = length (filter (\<lambda>c. c = CHR ''{'' \<or> c = CHR ''['') fmt)"

lemma openers_simps [simp]:
  "openers [] = 0" "openers (c # fmt) = (if c = CHR ''{'' \<or> c = CHR ''['' then Suc (openers fmt) else openers fmt)"
  by (simp_all add: openers_def)

lemma open_conv:
  assumes "always_allocates alloc" "idle b" "short_tag t" "0 \<le> rc"
  shows "printf_loop alloc (CHR ''{'' # fmt) args rc (b\<lparr>ber_tag := tag_or LBER_DEFAULT t\<rparr>)
      = printf_loop alloc fmt args 0 (opened (opener_tag Opens_seq t) b)"
    "printf_loop alloc (CHR ''['' # fmt) args rc (b\<lparr>ber_tag := tag_or LBER_DEFAULT t\<rparr>)
      = printf_loop alloc fmt args 0 (opened (opener_tag Opens_set t) b)"
proof -
  have i: "ber_tag b = LBER_DEFAULT" "ber_usertag b = 0" using assms(2) by (simp_all add: idle_def)
  have o: "(opened tag (b\<lparr>ber_tag := v\<rparr>))\<lparr>ber_tag := LBER_DEFAULT\<rparr> = opened tag b" "ber_usertag (opened tag (b\<lparr>ber_tag := v\<rparr>)) = 0"
    for tag v using i by (simp_all add: opened_def)
  show "printf_loop alloc (CHR ''{'' # fmt) args rc (b\<lparr>ber_tag := tag_or LBER_DEFAULT t\<rparr>)
      = printf_loop alloc fmt args 0 (opened (opener_tag Opens_seq t) b)"
    "printf_loop alloc (CHR ''['' # fmt) args rc (b\<lparr>ber_tag := tag_or LBER_DEFAULT t\<rparr>)
      = printf_loop alloc fmt args 0 (opened (opener_tag Opens_set t) b)"
    using assms(3,4) short_tags(3)
    by (cases t; simp add: printf_conv_simps ber_start_seq_def ber_start_set_def tag_or_def ber_start_seqorset_eq [OF assms(1)] o)+
qed

lemma printf_loop_builds:
  assumes "always_allocates alloc" "builds fmt args t st = Some st'" "holds b0 st b" "0 \<le> rc" "room_for b0 0 st'"
    and "length (ber_sos b0) + length (fst st) + openers fmt \<le> 113"
  shows "\<exists>rc' b'. printf_loop alloc fmt args rc (b\<lparr>ber_tag := tag_or LBER_DEFAULT t\<rparr>) = Some (rc', b') \<and> 0 \<le> rc' \<and> holds b0 st' b'"
  using assms(2-4,6)
proof (induction fmt arbitrary: args t st b rc)
  case Nil
  have r: "room_for b0 0 st" "t = None" "st' = st" using Nil.prems(1) assms(5) by (auto split: if_splits)
  then have "b\<lparr>ber_tag := tag_or LBER_DEFAULT t\<rparr> = b" using holds_state [OF Nil.prems(2)] by (simp add: idle_def tag_or_def)
  then show ?case using Nil.prems(2,3) r by simp
next
  case (Cons c fmt)
  have ok: "idle b0" "writable b0" "building_ok st'" "cursor b0 + weight st' \<le> write_limit" using assms(5) by (simp_all add: room_for_def)
  have room: "room_for b0 0 st2" if "builds fmt2 args2 t2 st2 = Some st'" "length (ber_sos b0) + length (fst st2) \<le> 113" for fmt2 args2 t2 st2
    using builds_mono [OF that(1) ok(3)] that(2) ok by (simp add: room_for_def)
  note h = holds_state [OF Cons.prems(2) room [OF Cons.prems(1)]]
  have i: "ber_tag b = LBER_DEFAULT" "ber_usertag b = 0" "idle b" "b\<lparr>ber_tag := LBER_DEFAULT\<rparr> = b"
    using h Cons.prems(4) by (simp_all add: idle_def)
  have untagged: "b\<lparr>ber_tag := tag_or LBER_DEFAULT None\<rparr> = b" if "idle b" for b
    using that by (simp add: idle_def tag_or_def)
  consider "c = CHR ''t''" | "c = CHR ''N''" | "c = CHR ''{'' \<or> c = CHR ''[''" | "c = CHR ''}'' \<or> c = CHR '']''"
    | "c \<noteq> CHR ''t''" "c \<noteq> CHR ''N''" "c \<noteq> CHR ''{''" "c \<noteq> CHR ''[''" "c \<noteq> CHR ''}''" "c \<noteq> CHR '']''" by blast
  then show ?case
  proof cases
    case 1
    then obtain v rest where a: "args = PTag v # rest" "builds fmt rest (Some v) st = Some st'"
      using Cons.prems(1) by (auto split: list.splits printf_arg.splits)
    have "b\<lparr>ber_tag := v, ber_usertag := 0\<rparr> = b\<lparr>ber_tag := tag_or LBER_DEFAULT (Some v)\<rparr>" using i by (simp add: tag_or_def)
    then show ?thesis using Cons.IH [OF a(2) Cons.prems(2,3)] Cons.prems(3,4) 1 a(1) by (simp add: printf_conv_simps)
  next
    case 2
    then have "builds fmt args None st = Some st'" using Cons.prems(1) by simp
    from Cons.IH [OF this Cons.prems(2), of 0] show ?thesis
      using 2 i(2) Cons.prems(3,4) by (simp add: printf_conv_def lber_int_null_def tag_or_def i(4))
  next
    case 3
    obtain k where k: "printf_loop alloc (c # fmt) args rc (b\<lparr>ber_tag := tag_or LBER_DEFAULT t\<rparr>)
          = printf_loop alloc fmt args 0 (opened (opener_tag k t) b)"
        "builds fmt args None (open_group k t st) = Some st'"
    proof -
      have "builds fmt args None (open_group (if c = CHR ''{'' then Opens_seq else Opens_set) t st) = Some st'"
        using 3 Cons.prems(1) by auto
      moreover from builds_mono [OF this ok(3)] have "short_tag t" by simp
      ultimately show thesis
        using 3 that [of Opens_seq] that [of Opens_set] open_conv [OF assms(1) i(3) _ Cons.prems(3)]
        by (cases "c = CHR ''{''") (simp_all del: printf_loop.simps opener_tag.simps)
    qed
    have "idle (opened (opener_tag k t) b)" using i by (simp add: idle_def opened_def)
    then show ?thesis
      using Cons.IH [OF k(2) holds_open [OF Cons.prems(2)], of 0] Cons.prems(4) 3 unfolding k(1)
      by (auto simp: untagged open_group_def)
  next
    case 4
    then obtain st1 where a: "t = None" "close_group st = Some st1" "builds fmt args None st1 = Some st'"
      using Cons.prems(1) by (auto split: option.splits if_splits)
    have l: "length (fst st) = Suc (length (fst st1))" using close_mono [OF a(2)] by simp
    have r: "room_for b0 0 st1" by (rule room [OF a(3)]) (use Cons.prems(4) l in simp)
    obtain rc1 b1 where b1: "ber_put_seqorset alloc b = Some (rc1, b1)" "0 \<le> rc1" "holds b0 st1 b1"
      using holds_close [OF assms(1) Cons.prems(2) room [OF Cons.prems(1)] a(2) r] Cons.prems(4) by auto
    have i1: "idle b1" "b1\<lparr>ber_tag := LBER_DEFAULT\<rparr> = b1" "ber_usertag b1 = 0"
      using holds_state [OF b1(3) r] by (simp_all add: idle_def)
    have "printf_loop alloc (c # fmt) args rc (b\<lparr>ber_tag := tag_or LBER_DEFAULT t\<rparr>) = printf_loop alloc fmt args rc1 b1"
      using 4 b1(1) i1 untagged [OF i(3)] a(1) Cons.prems(3) by (auto simp: printf_conv_simps)
    then show ?thesis using Cons.IH [OF a(3) b1(3,2)] Cons.prems(4) l 4 untagged [OF i1(1)] by auto
  next
    case 5
    then obtain items rest where a: "primitive c args t = Some (items, rest)" "builds fmt rest None (add_items items st) = Some st'"
      using Cons.prems(1) by (auto split: option.splits)
    note m = builds_mono [OF a(2) ok(3)]
    have lim: "cursor b + length (coded False items) \<le> write_limit" "list_all item_ok items" using m h ok(4) Cons.prems(4) by simp_all
    have "converts alloc b c args t rest (coded (ber_use_der b0) items)"
      by (rule primitive_converts [OF assms(1) a(1) lim(2) i(3) _ lim(1)]) (use h Cons.prems(4) in simp)
    then obtain rc1 b1 where b1: "\<And>fmt. printf_loop alloc (c # fmt) args rc (b\<lparr>ber_tag := tag_or LBER_DEFAULT t\<rparr>) = printf_loop alloc fmt rest rc1 b1"
        "0 \<le> rc1" "writes b (coded (ber_use_der b0) items) b1" "idle b1"
      using Cons.prems(3) unfolding converts_def by metis
    show ?thesis
      using Cons.IH [OF a(2) holds_add [OF Cons.prems(2) b1(3)] b1(2)] Cons.prems(4) 5 unfolding b1(1) untagged [OF b1(4)] by simp
  qed
qed

lemma printf_holds:
  assumes "always_allocates alloc" "holds b0 st b" "builds fmt args None st = Some st'" "room_for b0 0 st'"
    and "length (ber_sos b0) + length (fst st) + openers fmt \<le> 113"
  shows "\<exists>rc b'. ber_printf alloc b fmt args = Some (rc, b') \<and> 0 \<le> rc \<and> holds b0 st' b'"
proof -
  have ok: "building_ok st'" "cursor b0 + weight st' \<le> write_limit" using assms(4) by (simp_all add: room_for_def)
  have "room_for b0 0 st" using builds_mono [OF assms(3) ok(1)] assms(4,5) by (simp add: room_for_def)
  from holds_state [OF assms(2) this] have "b\<lparr>ber_tag := tag_or LBER_DEFAULT None\<rparr> = b" by (simp add: idle_def tag_or_def)
  then show ?thesis using printf_loop_builds [OF assms(1,3,2) _ assms(4,5), of 0] unfolding ber_printf_def by simp
qed

text \<open>The octets an element has been given, from the start of its buffer to the place the next one goes.\<close>

definition written :: "berelement \<Rightarrow> octets" where
  "written b = take (ber_ptr b) (ber_block b)"

lemma fresh_room:
  assumes "building_ok st" "length (fst st) \<le> 113" "bulk_building st \<le> write_limit" shows "room_for (fresh options) 0 st"
  using assms weight_le [of st] by (simp add: room_for_def)

lemma holds_fresh: "holds (fresh options) ([], []) (fresh options)"
  by (simp add: holds_simps)

lemma written_fresh:
  assumes "holds (fresh options) ([], base) b"
  shows "written b = coded (options AND LBER_USE_DER \<noteq> 0) base \<and> ber_sos b = []"
proof -
  have "ber_options (fresh options) = options" by (simp add: fresh_def ber_alloc_t_def)
  then have w: "writes (fresh options) (coded (options AND LBER_USE_DER \<noteq> 0) base) b"
    using assms by (simp add: holds_simps ber_use_der_def)
  show ?thesis
  proof (cases "coded (options AND LBER_USE_DER \<noteq> 0) base = []")
    case True
    then have "b = fresh options" using w by (simp only: writes_Nil)
    then show ?thesis unfolding True by (simp add: written_def fresh_def ber_alloc_t_def)
  next
    case False
    then show ?thesis using w unfolding writes_def
      by (auto simp: written_def moved_def ber_block_def cursor_def fresh_def ber_alloc_t_def)
  qed
qed

text \<open>
  C37: in an element that holds a stack of open sequences and sets, whatever calls left them open, a call
  of \<open>ber_printf\<close> whose format opens, closes and fills them within the limits succeeds, and leaves the
  element holding the stack that the format describes.
\<close>

theorem printf_builds:
  assumes "always_allocates alloc" "holds b0 st b" "builds fmt args None st = Some st'" "room_for b0 0 st'"
    and "length (ber_sos b0) + length (fst st) + openers fmt \<le> 113"
  shows "\<exists>rc b'. ber_printf alloc b fmt args = Some (rc, b') \<and> 0 \<le> rc \<and> holds b0 st' b'"
  by (rule printf_holds [OF assms])

theorem printf_builds_witness:
  "\<exists>rc b. ber_printf ready_alloc (fresh 0) ''{it{s'' [PInt 5, PTag 0x68, PStr [0x63, 0x6e]] = Some (rc, b) \<and> 0 \<le> rc
    \<and> holds (fresh 0) ([(Opens_seq, Some 0x68, [IString None [0x63, 0x6e]]), (Opens_seq, None, [IInt None 5])], []) b"
proof -
  have t: "valid_tag 0x68" "ber_calc_taglen 0x68 = 1"
    by (simp_all add: valid_tag_def tag_octets_def ber_calc_taglen_def leading_octet_numeral big_tag_def LBER_BIG_TAG_MASK_def)
  have "builds ''{it{s'' [PInt 5, PTag 0x68, PStr [0x63, 0x6e]] None ([], [])
      = Some ([(Opens_seq, Some 0x68, [IString None [0x63, 0x6e]]), (Opens_seq, None, [IInt None 5])], [])"
    by (simp add: primitive_def open_group_def)
  moreover have "room_for (fresh 0) 0 ([(Opens_seq, Some 0x68, [IString None [0x63, 0x6e]]), (Opens_seq, None, [IInt None 5])], [])"
    by (rule fresh_room) (use t in \<open>simp_all add: tag_ok_def short_tag_def write_limit_def bulk_building_def\<close>)
  ultimately show ?thesis
    by (rule printf_builds [OF ready_alloc holds_fresh]) simp
qed

end
