(* ===== verification/Ldap_Codes.thy ===== *)
theory Ldap_Codes imports Ldap_Prelude begin

text \<open>Protocol versions and result codes of include/ldap.h, as the int values the functions return.\<close>

definition LDAP_VERSION2 :: int where "LDAP_VERSION2 = 2"
definition LDAP_VERSION3 :: int where "LDAP_VERSION3 = 3"

definition LDAP_SUCCESS :: int where "LDAP_SUCCESS = 0"
definition LDAP_ENCODING_ERROR :: int where "LDAP_ENCODING_ERROR = 0x53"
definition LDAP_DECODING_ERROR :: int where "LDAP_DECODING_ERROR = 0x54"
definition LDAP_FILTER_ERROR :: int where "LDAP_FILTER_ERROR = 0x57"
definition LDAP_PARAM_ERROR :: int where "LDAP_PARAM_ERROR = 0x59"
definition LDAP_NO_MEMORY :: int where "LDAP_NO_MEMORY = 0x5a"
definition LDAP_NOT_SUPPORTED :: int where "LDAP_NOT_SUPPORTED = 0x5c"

lemmas ldap_codes = LDAP_SUCCESS_def LDAP_ENCODING_ERROR_def LDAP_DECODING_ERROR_def LDAP_FILTER_ERROR_def
  LDAP_PARAM_ERROR_def LDAP_NO_MEMORY_def LDAP_NOT_SUPPORTED_def LDAP_VERSION2_def LDAP_VERSION3_def

end
