(* ===== verification/Ldap_Controls.thy ===== *)
theory Ldap_Controls imports Ber_Building Ldap_Codes begin

text \<open>
  The session handle and libraries/libldap/controls.c.  A function that sets \<open>ld_errno\<close> returns the new
  handle; \<open>None\<close> is an undefined run.  Constants are those of include/ldap.h.
\<close>

section \<open>Constants and the handle\<close>

definition LDAP_TAG_CONTROLS :: u32 where "LDAP_TAG_CONTROLS = 0xa0"
definition LDAP_TAG_REFERRAL :: u32 where "LDAP_TAG_REFERRAL = 0xa3"
definition LDAP_TAG_NEWSUPERIOR :: u32 where "LDAP_TAG_NEWSUPERIOR = 0x80"
definition LDAP_TAG_EXOP_REQ_OID :: u32 where "LDAP_TAG_EXOP_REQ_OID = 0x80"
definition LDAP_TAG_EXOP_REQ_VALUE :: u32 where "LDAP_TAG_EXOP_REQ_VALUE = 0x81"
definition LDAP_TAG_EXOP_RES_OID :: u32 where "LDAP_TAG_EXOP_RES_OID = 0x8a"
definition LDAP_TAG_EXOP_RES_VALUE :: u32 where "LDAP_TAG_EXOP_RES_VALUE = 0x8b"
definition LDAP_TAG_SASL_RES_CREDS :: u32 where "LDAP_TAG_SASL_RES_CREDS = 0x87"

definition LDAP_REQ_BIND :: u32 where "LDAP_REQ_BIND = 0x60"
definition LDAP_REQ_UNBIND :: u32 where "LDAP_REQ_UNBIND = 0x42"
definition LDAP_REQ_SEARCH :: u32 where "LDAP_REQ_SEARCH = 0x63"
definition LDAP_REQ_MODIFY :: u32 where "LDAP_REQ_MODIFY = 0x66"
definition LDAP_REQ_ADD :: u32 where "LDAP_REQ_ADD = 0x68"
definition LDAP_REQ_DELETE :: u32 where "LDAP_REQ_DELETE = 0x4a"
definition LDAP_REQ_MODDN :: u32 where "LDAP_REQ_MODDN = 0x6c"
definition LDAP_REQ_COMPARE :: u32 where "LDAP_REQ_COMPARE = 0x6e"
definition LDAP_REQ_ABANDON :: u32 where "LDAP_REQ_ABANDON = 0x50"
definition LDAP_REQ_EXTENDED :: u32 where "LDAP_REQ_EXTENDED = 0x77"

definition LDAP_AUTH_SIMPLE :: u32 where "LDAP_AUTH_SIMPLE = 0x80"
definition LDAP_AUTH_SASL :: u32 where "LDAP_AUTH_SASL = 0xa3"

lemmas ldap_tags = LDAP_TAG_CONTROLS_def LDAP_TAG_REFERRAL_def LDAP_TAG_NEWSUPERIOR_def LDAP_TAG_EXOP_REQ_OID_def
  LDAP_TAG_EXOP_REQ_VALUE_def LDAP_TAG_EXOP_RES_OID_def LDAP_TAG_EXOP_RES_VALUE_def LDAP_TAG_SASL_RES_CREDS_def
  LDAP_REQ_BIND_def LDAP_REQ_UNBIND_def LDAP_REQ_SEARCH_def LDAP_REQ_MODIFY_def LDAP_REQ_ADD_def LDAP_REQ_DELETE_def
  LDAP_REQ_MODDN_def LDAP_REQ_COMPARE_def LDAP_REQ_ABANDON_def LDAP_REQ_EXTENDED_def LDAP_AUTH_SIMPLE_def LDAP_AUTH_SASL_def

text \<open>Strings are given without their terminating null; a null pointer is \<open>None\<close>.\<close>

record ldapcontrol =
  ldctl_oid :: "octets option"
  ldctl_value :: berval
  ldctl_iscritical :: u8

text \<open>
  Vectors of controls end with a null pointer, which the lists leave out.  The fields are those the
  request functions use.
\<close>

record ldap =
  ld_version :: u32
  ld_lberoptions :: u16
  ld_errno :: int
  ld_error :: "octets option"
  ld_matched :: "octets option"
  ld_msgid :: u32
  ld_deref :: u32
  ld_sizelimit :: u32
  ld_timelimit :: u32
  ld_defbinddn :: "octets option"
  ld_defbase :: "octets option"
  ld_sctrls :: "ldapcontrol list option"
  ld_cctrls :: "ldapcontrol list option"

definition set_errno :: "int \<Rightarrow> ldap \<Rightarrow> ldap" where
  "set_errno code ld = ld\<lparr>ld_errno := code\<rparr>"

definition is_critical :: "ldapcontrol \<Rightarrow> bool" where
  "is_critical c \<longleftrightarrow> ldctl_iscritical c \<noteq> 0"

section \<open>Encoding controls\<close>

text \<open>
  \<open>printf_or bad m next\<close> is the guard around every call of \<open>ber_printf\<close>: \<open>bad\<close> when it returned -1, with
  the element as it was left, \<open>next\<close> otherwise.
\<close>

definition printf_or :: "(berelement \<Rightarrow> 'r option) \<Rightarrow> put_result \<Rightarrow> (berelement \<Rightarrow> 'r option) \<Rightarrow> 'r option" where
  "printf_or bad m next = (case m of None \<Rightarrow> None | Some (rc, ber) \<Rightarrow> if rc = -1 then bad ber else next ber)"

type_synonym controls_result = "(int \<times> ldap \<times> berelement) option"

definition controls_failed :: "ldap \<Rightarrow> berelement \<Rightarrow> controls_result" where
  "controls_failed ld ber = Some (LDAP_ENCODING_ERROR, set_errno LDAP_ENCODING_ERROR ld, ber)"

text \<open>The octets of a character that counts as true do not matter to \<open>ber_put_boolean\<close>.\<close>

fun put_control_list :: "allocator \<Rightarrow> ldap \<Rightarrow> ldapcontrol list \<Rightarrow> berelement \<Rightarrow> controls_result" where
  "put_control_list alloc ld [] ber = Some (LDAP_SUCCESS, ld, ber)"
| "put_control_list alloc ld (c # cs) ber =
    (case ldctl_oid c of None \<Rightarrow> None
     | Some oid \<Rightarrow>
        printf_or (controls_failed ld) (ber_printf alloc ber ''{s'' [PStr oid]) (\<lambda>ber1.
        printf_or (controls_failed ld)
          (if is_critical c then ber_printf alloc ber1 ''b'' [PInt (scast (ldctl_iscritical c))] else Some (0, ber1)) (\<lambda>ber2.
        printf_or (controls_failed ld)
          (if bv_val (ldctl_value c) \<noteq> None then ber_printf alloc ber2 ''O'' [PBerval (Some (ldctl_value c))]
           else Some (0, ber2)) (\<lambda>ber3.
        printf_or (controls_failed ld) (ber_printf alloc ber3 ''N}'' []) (\<lambda>ber4.
          put_control_list alloc ld cs ber4)))))"

definition ldap_int_put_controls :: "allocator \<Rightarrow> ldap \<Rightarrow> ldapcontrol list option \<Rightarrow> berelement \<Rightarrow> controls_result" where
  "ldap_int_put_controls alloc ld ctrls ber =
    (let ctrls' = (if ctrls = None then ld_sctrls ld else ctrls) in
     if ctrls' = None \<or> ctrls' = Some [] then Some (LDAP_SUCCESS, ld, ber)
     else if sint (ld_version ld) < LDAP_VERSION3 then
       (if list_ex is_critical (the ctrls') then Some (LDAP_NOT_SUPPORTED, set_errno LDAP_NOT_SUPPORTED ld, ber)
        else Some (LDAP_SUCCESS, ld, ber))
     else
       printf_or (controls_failed ld) (ber_printf alloc ber ''t{'' [PTag LDAP_TAG_CONTROLS]) (\<lambda>ber1.
         case put_control_list alloc ld (the ctrls') ber1 of None \<Rightarrow> None
         | Some (rc, ld', ber2) \<Rightarrow>
            (if rc \<noteq> LDAP_SUCCESS then Some (rc, ld', ber2)
             else printf_or (controls_failed ld') (ber_printf alloc ber2 ''}'' []) (\<lambda>ber3. Some (LDAP_SUCCESS, ld', ber3)))))"

definition ldap_int_client_controls :: "ldap \<Rightarrow> ldapcontrol list option \<Rightarrow> int \<times> ldap" where
  "ldap_int_client_controls ld ctrls =
    (case (if ctrls = None then ld_cctrls ld else ctrls) of
       None \<Rightarrow> (LDAP_SUCCESS, ld)
     | Some cs \<Rightarrow> (if list_ex is_critical cs then (LDAP_NOT_SUPPORTED, set_errno LDAP_NOT_SUPPORTED ld)
                   else (LDAP_SUCCESS, ld)))"

section \<open>Decoding controls\<close>

definition LDAPCONTROL_SIZE :: u32 where "LDAPCONTROL_SIZE = 16"
definition POINTER_SIZE :: u32 where "POINTER_SIZE = 4"

text \<open>
  The strings of a decoded control are the blocks \<open>ber_scanf\<close> allocated for them, with the null they end in.
  What the body of the loop reads from one element, the tag it ends with, and the control.  A failed
  \<open>b\<close> conversion leaves \<open>crit\<close> unset; the control is given up then.
\<close>

definition get_control :: "(u32 \<Rightarrow> bool) \<Rightarrow> berelement \<Rightarrow> (u32 \<times> ldapcontrol \<times> berelement) option" where
  "get_control alloc ber =
    (case ber_scanf alloc ber ''{a'' [SPtr] of
       Some (tag, [ONone, OStr oid], ber1) \<Rightarrow>
        (case (if tag \<noteq> LBER_DEFAULT then map_option (\<lambda>(t, l, b). (t, b)) (ber_peek_tag ber1) else Some (tag, ber1)) of
           None \<Rightarrow> None
         | Some (tag1, ber2) \<Rightarrow>
            (case (if tag1 = LBER_BOOLEAN then
                     (case ber_scanf alloc ber2 ''b'' [SPtr] of
                        Some (t, [OInt crit], b) \<Rightarrow> Some (t, (if crit = Some 0 then -1 else 0), b)
                      | _ \<Rightarrow> None)
                   else Some (tag1, 0, ber2)) of
               None \<Rightarrow> None
             | Some (tag2, crit, ber3) \<Rightarrow>
                (case (if tag2 \<noteq> LBER_DEFAULT then map_option (\<lambda>(t, l, b). (t, b)) (ber_peek_tag ber3) else Some (tag2, ber3)) of
                   None \<Rightarrow> None
                 | Some (tag3, ber4) \<Rightarrow>
                    (if tag3 = LBER_OCTETSTRING then
                       (case ber_scanf alloc ber4 ''o'' [SPtr] of
                          Some (t, [OBval len s], b) \<Rightarrow>
                            Some (t, \<lparr>ldctl_oid = oid, ldctl_value = \<lparr>bv_len = len, bv_val = s\<rparr>, ldctl_iscritical = crit\<rparr>, b)
                        | _ \<Rightarrow> None)
                     else Some (tag3, \<lparr>ldctl_oid = oid, ldctl_value = \<lparr>bv_len = 0, bv_val = None\<rparr>, ldctl_iscritical = crit\<rparr>, ber4)))))
     | Some (tag, [ONone], ber1) \<Rightarrow>
        Some (tag, \<lparr>ldctl_oid = None, ldctl_value = \<lparr>bv_len = 0, bv_val = None\<rparr>, ldctl_iscritical = 0\<rparr>, ber1)
     | _ \<Rightarrow> None)"

text \<open>
  The loop over the elements, with the controls read so far.  Every control takes at least one octet, so
  the octets of the block bound the iterations; without memory for the next control all are freed.
\<close>

type_synonym get_controls_result = "(int \<times> ldapcontrol list option \<times> berelement) option"

fun get_controls_loop :: "nat \<Rightarrow> (u32 \<Rightarrow> bool) \<Rightarrow> nat \<Rightarrow> u32 \<Rightarrow> ldapcontrol list \<Rightarrow> berelement \<Rightarrow> get_controls_result" where
  "get_controls_loop 0 alloc stop tag cs ber = None"
| "get_controls_loop (Suc fuel) alloc stop tag cs ber =
    (if tag = LBER_DEFAULT then Some (LDAP_SUCCESS, Some cs, ber)
     else if \<not> memalloc_ok alloc LDAPCONTROL_SIZE \<or> \<not> memalloc_ok alloc ((of_nat (length cs) + 2) * POINTER_SIZE)
     then Some (LDAP_NO_MEMORY, None, ber)
     else case get_control alloc ber of None \<Rightarrow> None
       | Some (tag1, c, ber1) \<Rightarrow>
          (if tag1 = LBER_DEFAULT then Some (LDAP_DECODING_ERROR, None, ber1)
           else case ber_next_element ber1 stop of None \<Rightarrow> None
             | Some (tag2, _, ber2) \<Rightarrow> get_controls_loop fuel alloc stop tag2 (cs @ [c]) ber2))"

text \<open>\<open>wanted\<close> says whether the caller passed a place for the controls.\<close>

definition ldap_int_get_controls :: "(u32 \<Rightarrow> bool) \<Rightarrow> bool \<Rightarrow> berelement \<Rightarrow> get_controls_result" where
  "ldap_int_get_controls alloc wanted ber =
    (if \<not> wanted then Some (LDAP_SUCCESS, None, ber)
     else if ber_pvt_ber_remaining ber = 0 then Some (LDAP_SUCCESS, None, ber)
     else case ber_peek_tag ber of None \<Rightarrow> None
       | Some (tag, _, ber1) \<Rightarrow>
          (if tag \<noteq> LDAP_TAG_CONTROLS
           then Some (if tag = LBER_DEFAULT then LDAP_DECODING_ERROR else LDAP_SUCCESS, None, ber1)
           else if \<not> memalloc_ok alloc POINTER_SIZE then Some (LDAP_NO_MEMORY, None, ber1)
           else case ber_first_element ber1 of None \<Rightarrow> None
             | Some (tag1, _, stop, ber2) \<Rightarrow>
                (if tag1 = LBER_DEFAULT then Some (LDAP_SUCCESS, Some [], ber2)
                 else case stop of None \<Rightarrow> None
                   | Some stop' \<Rightarrow> get_controls_loop (Suc (Suc (length (ber_block ber)))) alloc stop' tag1 [] ber2)))"

section \<open>Copies\<close>

text \<open>
  \<open>memory n\<close> says whether the \<open>n\<close>-th call of the allocator, in the order of the calls, succeeds; the third
  component of the result counts the calls.  A control is copied with the terminating null of its value.
\<close>

definition ldap_control_dup :: "(nat \<Rightarrow> bool) \<Rightarrow> nat \<Rightarrow> ldapcontrol option \<Rightarrow> (ldapcontrol option \<times> nat) option" where
  "ldap_control_dup memory n c =
    (case c of None \<Rightarrow> Some (None, n)
     | Some c \<Rightarrow>
        (if \<not> memory n then Some (None, n + 1)
         else if ldctl_oid c \<noteq> None \<and> \<not> memory (n + 1) then Some (None, n + 2)
         else
           let n1 = (if ldctl_oid c = None then n + 1 else n + 2) in
           case bv_val (ldctl_value c) of
             None \<Rightarrow> Some (Some (c\<lparr>ldctl_value := \<lparr>bv_len = 0, bv_val = None\<rparr>\<rparr>), n1)
           | Some s \<Rightarrow>
              (if \<not> memory n1 then Some (None, n1 + 1)
               else if unat (bv_len (ldctl_value c)) \<le> length s
               then Some (Some (c\<lparr>ldctl_value := (ldctl_value c)\<lparr>bv_val := Some (take (unat (bv_len (ldctl_value c))) s @ [0])\<rparr>\<rparr>), n1 + 1)
               else None)))"

text \<open>
  The vector has room for the controls but not for the null pointer after them, so the last store runs out of
  the block.  When a copy fails, the null pointer it returned ends the vector that is given up.
\<close>

fun dup_controls :: "(nat \<Rightarrow> bool) \<Rightarrow> nat \<Rightarrow> nat \<Rightarrow> ldapcontrol list \<Rightarrow> ldapcontrol list \<Rightarrow> ldapcontrol list option option" where
  "dup_controls memory n room [] new = (if length new < room then Some (Some new) else None)"
| "dup_controls memory n room (c # cs) new =
    (case ldap_control_dup memory n (Some c) of None \<Rightarrow> None
     | Some (None, n') \<Rightarrow> Some None
     | Some (Some c', n') \<Rightarrow> if length new < room then dup_controls memory n' room cs (new @ [c']) else None)"

definition ldap_controls_dup :: "(nat \<Rightarrow> bool) \<Rightarrow> ldapcontrol list option \<Rightarrow> ldapcontrol list option option" where
  "ldap_controls_dup memory controls =
    (case controls of None \<Rightarrow> Some None
     | Some [] \<Rightarrow> Some None
     | Some cs \<Rightarrow> if \<not> memory 0 then Some None else dup_controls memory 1 (length cs) cs [])"

definition ldap_create_control :: "allocator \<Rightarrow> (nat \<Rightarrow> bool) \<Rightarrow> octets option \<Rightarrow> berelement option \<Rightarrow> u8
    \<Rightarrow> (int \<times> ldapcontrol option) option" where
  "ldap_create_control alloc memory requestOID ber iscritical =
    (case requestOID of None \<Rightarrow> Some (LDAP_PARAM_ERROR, None)
     | Some oid \<Rightarrow>
        (if \<not> memory 0 then Some (LDAP_NO_MEMORY, None)
         else case ber_flatten alloc (memory 1) ber of None \<Rightarrow> None
           | Some (rc, bv) \<Rightarrow>
              (if rc = -1 then Some (LDAP_NO_MEMORY, None)
               else case bv of None \<Rightarrow> None
                 | Some (val, len) \<Rightarrow>
                    (if \<not> memory 2 then Some (LDAP_NO_MEMORY, None)
                     else Some (LDAP_SUCCESS, Some \<lparr>ldctl_oid = Some oid, ldctl_value = \<lparr>bv_len = len, bv_val = val\<rparr>,
                       ldctl_iscritical = iscritical\<rparr>)))))"

end
