(* ===== verification/Ldap_Requests.thy ===== *)
theory Ldap_Requests imports Ldap_Controls begin

text \<open>
  The request functions of libraries/libldap (add.c, compare.c, delete.c, modify.c, modrdn.c, extended.c,
  sasl.c, and the messages of abandon.c and unbind.c), up to the call that hands the message to
  \<open>ldap_send_initial_request\<close>, with no cache (\<open>ld_cache\<close> null, as \<open>ldap_create\<close> leaves it).  A string argument
  the code passes to \<open>ber_put_string\<close> unchecked is not null: null runs into its \<open>assert\<close>.
\<close>

section \<open>Results\<close>

datatype issued =
    Refused int
  | Issued u32 "octets option" berelement

type_synonym request_result = "(issued \<times> ldap) option"

definition encoding_failed :: "ldap \<Rightarrow> berelement \<Rightarrow> request_result" where
  "encoding_failed ld ber = Some (Refused LDAP_ENCODING_ERROR, set_errno LDAP_ENCODING_ERROR ld)"

definition next_msgid :: "ldap \<Rightarrow> ldap" where
  "next_msgid ld = ld\<lparr>ld_msgid := ld_msgid ld + 1\<rparr>"

definition ldap_alloc_ber_with_options :: "bool \<Rightarrow> ldap \<Rightarrow> berelement option \<times> ldap" where
  "ldap_alloc_ber_with_options calloc_ok ld =
    (case ber_alloc_t (ld_lberoptions ld) calloc_ok of
       None \<Rightarrow> (None, set_errno LDAP_NO_MEMORY ld)
     | Some ber \<Rightarrow> (Some ber, ld))"

definition ldap_set_ber_options :: "ldap \<Rightarrow> berelement \<Rightarrow> berelement" where
  "ldap_set_ber_options ld ber = ber\<lparr>ber_options := ld_lberoptions ld\<rparr>"

text \<open>The two steps every request begins with, and the ones it ends with.\<close>

definition checking_clients :: "ldap \<Rightarrow> ldapcontrol list option \<Rightarrow> (ldap \<Rightarrow> request_result) \<Rightarrow> request_result" where
  "checking_clients ld cctrls next =
    (let (rc, ld') = ldap_int_client_controls ld cctrls in
     if rc \<noteq> LDAP_SUCCESS then Some (Refused rc, ld') else next ld')"

definition with_element :: "bool \<Rightarrow> ldap \<Rightarrow> (ldap \<Rightarrow> berelement \<Rightarrow> request_result) \<Rightarrow> request_result" where
  "with_element calloc_ok ld next =
    (case ldap_alloc_ber_with_options calloc_ok ld of
       (None, ld') \<Rightarrow> Some (Refused LDAP_NO_MEMORY, ld')
     | (Some ber, ld') \<Rightarrow> next ld' ber)"

definition finish_request :: "allocator \<Rightarrow> ldap \<Rightarrow> ldapcontrol list option \<Rightarrow> u32 \<Rightarrow> octets option \<Rightarrow> berelement \<Rightarrow> request_result" where
  "finish_request alloc ld sctrls msgtype dn ber =
    (case ldap_int_put_controls alloc ld sctrls ber of None \<Rightarrow> None
     | Some (rc, ld1, ber1) \<Rightarrow>
        (if rc \<noteq> LDAP_SUCCESS then Some (Refused (ld_errno ld1), ld1)
         else printf_or (encoding_failed ld1) (ber_printf alloc ber1 ''N}'' []) (\<lambda>ber2.
           Some (Issued msgtype dn ber2, ld1))))"

section \<open>Adding and modifying\<close>

datatype mod_vals = Modv_strvals "octets list option" | Modv_bvals "berval list option"

record ldapmod =
  mod_op :: u32
  mod_type :: octets
  mod_vals :: mod_vals

definition LDAP_MOD_BVALUES :: u32 where "LDAP_MOD_BVALUES = 0x80"

text \<open>Reading the other member of the union than was stored is undefined.\<close>

definition put_modification :: "allocator \<Rightarrow> bool \<Rightarrow> ldapmod \<Rightarrow> berelement \<Rightarrow> put_result" where
  "put_modification alloc modify m ber =
    (if mod_op m AND LDAP_MOD_BVALUES \<noteq> 0 then
       (case mod_vals m of
          Modv_bvals vs \<Rightarrow>
            (if modify then ber_printf alloc ber ''{e{s[V]N}N}'' [PInt (mod_op m AND NOT LDAP_MOD_BVALUES), PStr (mod_type m), PBvVec vs]
             else ber_printf alloc ber ''{s[V]N}'' [PStr (mod_type m), PBvVec vs])
        | Modv_strvals _ \<Rightarrow> None)
     else
       (case mod_vals m of
          Modv_strvals ss \<Rightarrow>
            (if modify then ber_printf alloc ber ''{e{s[v]N}N}'' [PInt (mod_op m), PStr (mod_type m), PStrVec ss]
             else ber_printf alloc ber ''{s[v]N}'' [PStr (mod_type m), PStrVec ss])
        | Modv_bvals _ \<Rightarrow> None))"

fun put_modifications :: "allocator \<Rightarrow> bool \<Rightarrow> ldapmod list \<Rightarrow> berelement \<Rightarrow> put_result" where
  "put_modifications alloc modify [] ber = Some (0, ber)"
| "put_modifications alloc modify (m # ms) ber =
    (case put_modification alloc modify m ber of None \<Rightarrow> None
     | Some (rc, ber1) \<Rightarrow> if rc = -1 then Some (-1, ber1) else put_modifications alloc modify ms ber1)"

definition ldap_add_ext :: "allocator \<Rightarrow> bool \<Rightarrow> ldap \<Rightarrow> octets \<Rightarrow> ldapmod list \<Rightarrow> ldapcontrol list option
    \<Rightarrow> ldapcontrol list option \<Rightarrow> request_result" where
  "ldap_add_ext alloc calloc_ok ld dn attrs sctrls cctrls =
    checking_clients ld cctrls (\<lambda>ld1.
    with_element calloc_ok ld1 (\<lambda>ld2 ber.
      let ld3 = next_msgid ld2 in
      printf_or (encoding_failed ld3) (ber_printf alloc ber ''{it{s{'' [PInt (ld_msgid ld3), PTag LDAP_REQ_ADD, PStr dn]) (\<lambda>ber1.
      printf_or (encoding_failed ld3) (put_modifications alloc False attrs ber1) (\<lambda>ber2.
      printf_or (encoding_failed ld3) (ber_printf alloc ber2 ''N}N}'' []) (\<lambda>ber3.
      finish_request alloc ld3 sctrls LDAP_REQ_ADD (Some dn) ber3)))))"

definition ldap_modify_ext :: "allocator \<Rightarrow> bool \<Rightarrow> ldap \<Rightarrow> octets \<Rightarrow> ldapmod list \<Rightarrow> ldapcontrol list option
    \<Rightarrow> ldapcontrol list option \<Rightarrow> request_result" where
  "ldap_modify_ext alloc calloc_ok ld dn mods sctrls cctrls =
    checking_clients ld cctrls (\<lambda>ld1.
    with_element calloc_ok ld1 (\<lambda>ld2 ber.
      let ld3 = next_msgid ld2 in
      printf_or (encoding_failed ld3) (ber_printf alloc ber ''{it{s{'' [PInt (ld_msgid ld3), PTag LDAP_REQ_MODIFY, PStr dn]) (\<lambda>ber1.
      printf_or (encoding_failed ld3) (put_modifications alloc True mods ber1) (\<lambda>ber2.
      printf_or (encoding_failed ld3) (ber_printf alloc ber2 ''N}N}'' []) (\<lambda>ber3.
      finish_request alloc ld3 sctrls LDAP_REQ_MODIFY (Some dn) ber3)))))"

section \<open>The other operations\<close>

definition ldap_delete_ext :: "allocator \<Rightarrow> bool \<Rightarrow> ldap \<Rightarrow> octets \<Rightarrow> ldapcontrol list option
    \<Rightarrow> ldapcontrol list option \<Rightarrow> request_result" where
  "ldap_delete_ext alloc calloc_ok ld dn sctrls cctrls =
    checking_clients ld cctrls (\<lambda>ld1.
    with_element calloc_ok ld1 (\<lambda>ld2 ber.
      let ld3 = next_msgid ld2 in
      printf_or (encoding_failed ld3) (ber_printf alloc ber ''{its'' [PInt (ld_msgid ld3), PTag LDAP_REQ_DELETE, PStr dn]) (\<lambda>ber1.
      finish_request alloc ld3 sctrls LDAP_REQ_DELETE (Some dn) ber1)))"

definition ldap_compare_ext :: "allocator \<Rightarrow> bool \<Rightarrow> ldap \<Rightarrow> octets \<Rightarrow> octets \<Rightarrow> berval option \<Rightarrow> ldapcontrol list option
    \<Rightarrow> ldapcontrol list option \<Rightarrow> request_result" where
  "ldap_compare_ext alloc calloc_ok ld dn attr bvalue sctrls cctrls =
    checking_clients ld cctrls (\<lambda>ld1.
    with_element calloc_ok ld1 (\<lambda>ld2 ber.
      let ld3 = next_msgid ld2 in
      printf_or (encoding_failed ld3) (ber_printf alloc ber ''{it{s{sON}N}''
          [PInt (ld_msgid ld3), PTag LDAP_REQ_COMPARE, PStr dn, PStr attr, PBerval bvalue]) (\<lambda>ber1.
      finish_request alloc ld3 sctrls LDAP_REQ_COMPARE (Some dn) ber1)))"

text \<open>\<open>ldap_rename\<close> takes every negative return value for a failure.\<close>

definition printf_neg :: "(berelement \<Rightarrow> 'r option) \<Rightarrow> put_result \<Rightarrow> (berelement \<Rightarrow> 'r option) \<Rightarrow> 'r option" where
  "printf_neg bad m next = (case m of None \<Rightarrow> None | Some (rc, ber) \<Rightarrow> if rc < 0 then bad ber else next ber)"

definition ldap_rename :: "allocator \<Rightarrow> bool \<Rightarrow> ldap \<Rightarrow> octets \<Rightarrow> octets \<Rightarrow> octets option \<Rightarrow> u32 \<Rightarrow> ldapcontrol list option
    \<Rightarrow> ldapcontrol list option \<Rightarrow> request_result" where
  "ldap_rename alloc calloc_ok ld dn newrdn newSuperior deleteoldrdn sctrls cctrls =
    checking_clients ld cctrls (\<lambda>ld1.
    with_element calloc_ok ld1 (\<lambda>ld2 ber.
      if newSuperior \<noteq> None \<and> sint (ld_version ld2) < LDAP_VERSION3
      then Some (Refused LDAP_NOT_SUPPORTED, set_errno LDAP_NOT_SUPPORTED ld2)
      else let ld3 = next_msgid ld2 in
      printf_neg (encoding_failed ld3)
        (case newSuperior of
           Some superior \<Rightarrow> ber_printf alloc ber ''{it{ssbtsN}''
             [PInt (ld_msgid ld3), PTag LDAP_REQ_MODDN, PStr dn, PStr newrdn, PInt deleteoldrdn, PTag LDAP_TAG_NEWSUPERIOR, PStr superior]
         | None \<Rightarrow> ber_printf alloc ber ''{it{ssbN}''
             [PInt (ld_msgid ld3), PTag LDAP_REQ_MODDN, PStr dn, PStr newrdn, PInt deleteoldrdn]) (\<lambda>ber1.
      case ldap_int_put_controls alloc ld3 sctrls ber1 of None \<Rightarrow> None
      | Some (rc, ld4, ber2) \<Rightarrow>
         (if rc \<noteq> LDAP_SUCCESS then Some (Refused (ld_errno ld4), ld4)
          else printf_neg (encoding_failed ld4) (ber_printf alloc ber2 ''N}'' []) (\<lambda>ber3.
            Some (Issued LDAP_REQ_MODDN (Some dn) ber3, ld4))))))"

text \<open>The client controls of an extended operation are not looked at.\<close>

definition ldap_extended_operation :: "allocator \<Rightarrow> bool \<Rightarrow> ldap \<Rightarrow> octets option \<Rightarrow> berval option \<Rightarrow> ldapcontrol list option
    \<Rightarrow> ldapcontrol list option \<Rightarrow> request_result" where
  "ldap_extended_operation alloc calloc_ok ld reqoid reqdata sctrls cctrls =
    (case reqoid of None \<Rightarrow> None
     | Some oid \<Rightarrow>
        (if sint (ld_version ld) < LDAP_VERSION3 then Some (Refused LDAP_NOT_SUPPORTED, set_errno LDAP_NOT_SUPPORTED ld)
         else if oid = [] then Some (Refused LDAP_PARAM_ERROR, set_errno LDAP_PARAM_ERROR ld)
         else with_element calloc_ok ld (\<lambda>ld2 ber.
           let ld3 = next_msgid ld2 in
           printf_or (encoding_failed ld3)
             (if reqdata \<noteq> None then ber_printf alloc ber ''{it{tstON}''
                [PInt (ld_msgid ld3), PTag LDAP_REQ_EXTENDED, PTag LDAP_TAG_EXOP_REQ_OID, PStr oid, PTag LDAP_TAG_EXOP_REQ_VALUE, PBerval reqdata]
              else ber_printf alloc ber ''{it{tsN}''
                [PInt (ld_msgid ld3), PTag LDAP_REQ_EXTENDED, PTag LDAP_TAG_EXOP_REQ_OID, PStr oid]) (\<lambda>ber1.
           finish_request alloc ld3 sctrls LDAP_REQ_EXTENDED None ber1))))"

text \<open>No mechanism (\<open>LDAP_SASL_SIMPLE\<close>) is a simple bind.  A failure to encode the body returns -1.\<close>

definition ldap_sasl_bind :: "allocator \<Rightarrow> bool \<Rightarrow> ldap \<Rightarrow> octets option \<Rightarrow> octets option \<Rightarrow> berval option
    \<Rightarrow> ldapcontrol list option \<Rightarrow> ldapcontrol list option \<Rightarrow> request_result" where
  "ldap_sasl_bind alloc calloc_ok ld dn mechanism cred sctrls cctrls =
    checking_clients ld cctrls (\<lambda>ld1.
      if mechanism \<noteq> None \<and> sint (ld_version ld1) < LDAP_VERSION3
      then Some (Refused LDAP_NOT_SUPPORTED, set_errno LDAP_NOT_SUPPORTED ld1)
      else
        let dn1 = (if mechanism = None \<and> dn = None \<and> cred \<noteq> None then ld_defbinddn ld1 else dn);
            dn2 = (case dn1 of None \<Rightarrow> [] | Some d \<Rightarrow> d)
        in with_element calloc_ok ld1 (\<lambda>ld2 ber.
          let ld3 = next_msgid ld2 in
          printf_or (\<lambda>_. Some (Refused (-1), set_errno LDAP_ENCODING_ERROR ld3))
            (case mechanism of
               None \<Rightarrow> ber_printf alloc ber ''{it{istON}''
                 [PInt (ld_msgid ld3), PTag LDAP_REQ_BIND, PInt (ld_version ld3), PStr dn2, PTag LDAP_AUTH_SIMPLE, PBerval cred]
             | Some mech \<Rightarrow>
                 (if cred = None \<or> bv_len (the cred) = 0
                  then ber_printf alloc ber ''{it{ist{sN}N}''
                    [PInt (ld_msgid ld3), PTag LDAP_REQ_BIND, PInt (ld_version ld3), PStr dn2, PTag LDAP_AUTH_SASL, PStr mech]
                  else ber_printf alloc ber ''{it{ist{sON}N}''
                    [PInt (ld_msgid ld3), PTag LDAP_REQ_BIND, PInt (ld_version ld3), PStr dn2, PTag LDAP_AUTH_SASL, PStr mech, PBerval cred])) (\<lambda>ber1.
          finish_request alloc ld3 sctrls LDAP_REQ_BIND (Some dn2) ber1)))"

definition ldap_simple_bind :: "allocator \<Rightarrow> bool \<Rightarrow> ldap \<Rightarrow> octets option \<Rightarrow> octets option \<Rightarrow> request_result" where
  "ldap_simple_bind alloc calloc_ok ld dn passwd =
    (let cred = (case passwd of None \<Rightarrow> \<lparr>bv_len = 0, bv_val = Some []\<rparr> | Some p \<Rightarrow> \<lparr>bv_len = of_nat (length p), bv_val = Some p\<rparr>)
     in ldap_sasl_bind alloc calloc_ok ld dn None (Some cred) None None)"

text \<open>The message of \<open>do_abandon\<close>, and that of \<open>ldap_send_unbind\<close>; neither is queued as a request.\<close>

definition abandon_message :: "allocator \<Rightarrow> bool \<Rightarrow> ldap \<Rightarrow> u32 \<Rightarrow> ldapcontrol list option \<Rightarrow> request_result" where
  "abandon_message alloc calloc_ok ld msgid sctrls =
    with_element calloc_ok ld (\<lambda>ld2 ber.
      let ld3 = next_msgid ld2 in
      printf_or (encoding_failed ld3) (ber_printf alloc ber ''{iti'' [PInt (ld_msgid ld3), PTag LDAP_REQ_ABANDON, PInt msgid]) (\<lambda>ber1.
      finish_request alloc ld3 sctrls LDAP_REQ_ABANDON None ber1))"

definition ldap_send_unbind :: "allocator \<Rightarrow> bool \<Rightarrow> ldap \<Rightarrow> ldapcontrol list option \<Rightarrow> request_result" where
  "ldap_send_unbind alloc calloc_ok ld sctrls =
    with_element calloc_ok ld (\<lambda>ld2 ber.
      let ld3 = next_msgid ld2 in
      printf_or (encoding_failed ld3) (ber_printf alloc ber ''{itn'' [PInt (ld_msgid ld3), PTag LDAP_REQ_UNBIND]) (\<lambda>ber1.
      finish_request alloc ld3 sctrls LDAP_REQ_UNBIND None ber1))"

end
