(* ===== verification/Ldap_Filter.thy ===== *)
theory Ldap_Filter imports Ldap_Requests begin

text \<open>
  Search filters and search requests: libraries/libldap/search.c.  A string is the list of its octets before
  the terminating null; a position in it is an index.  The functions that cut their argument and mend it
  again are given the pieces.  Errors that the code returns as -1 are \<open>None\<close> where the result is a value and
  the return value -1 where it is an element.
\<close>

section \<open>Constants\<close>

definition LDAP_FILTER_AND :: u32 where "LDAP_FILTER_AND = 0xa0"
definition LDAP_FILTER_OR :: u32 where "LDAP_FILTER_OR = 0xa1"
definition LDAP_FILTER_NOT :: u32 where "LDAP_FILTER_NOT = 0xa2"
definition LDAP_FILTER_EQUALITY :: u32 where "LDAP_FILTER_EQUALITY = 0xa3"
definition LDAP_FILTER_SUBSTRINGS :: u32 where "LDAP_FILTER_SUBSTRINGS = 0xa4"
definition LDAP_FILTER_GE :: u32 where "LDAP_FILTER_GE = 0xa5"
definition LDAP_FILTER_LE :: u32 where "LDAP_FILTER_LE = 0xa6"
definition LDAP_FILTER_PRESENT :: u32 where "LDAP_FILTER_PRESENT = 0x87"
definition LDAP_FILTER_APPROX :: u32 where "LDAP_FILTER_APPROX = 0xa8"
definition LDAP_FILTER_EXT :: u32 where "LDAP_FILTER_EXT = 0xa9"
definition LDAP_FILTER_EXT_OID :: u32 where "LDAP_FILTER_EXT_OID = 0x81"
definition LDAP_FILTER_EXT_TYPE :: u32 where "LDAP_FILTER_EXT_TYPE = 0x82"
definition LDAP_FILTER_EXT_VALUE :: u32 where "LDAP_FILTER_EXT_VALUE = 0x83"
definition LDAP_FILTER_EXT_DNATTRS :: u32 where "LDAP_FILTER_EXT_DNATTRS = 0x84"
definition LDAP_SUBSTRING_INITIAL :: u32 where "LDAP_SUBSTRING_INITIAL = 0x80"
definition LDAP_SUBSTRING_ANY :: u32 where "LDAP_SUBSTRING_ANY = 0x81"
definition LDAP_SUBSTRING_FINAL :: u32 where "LDAP_SUBSTRING_FINAL = 0x82"

lemmas filter_tags = LDAP_FILTER_AND_def LDAP_FILTER_OR_def LDAP_FILTER_NOT_def LDAP_FILTER_EQUALITY_def
  LDAP_FILTER_SUBSTRINGS_def LDAP_FILTER_GE_def LDAP_FILTER_LE_def LDAP_FILTER_PRESENT_def LDAP_FILTER_APPROX_def
  LDAP_FILTER_EXT_def LDAP_FILTER_EXT_OID_def LDAP_FILTER_EXT_TYPE_def LDAP_FILTER_EXT_VALUE_def LDAP_FILTER_EXT_DNATTRS_def
  LDAP_SUBSTRING_INITIAL_def LDAP_SUBSTRING_ANY_def LDAP_SUBSTRING_FINAL_def

abbreviation lparen :: u8 where "lparen \<equiv> 0x28"
abbreviation rparen :: u8 where "rparen \<equiv> 0x29"
abbreviation star :: u8 where "star \<equiv> 0x2a"
abbreviation backslash :: u8 where "backslash \<equiv> 0x5c"
abbreviation colon :: u8 where "colon \<equiv> 0x3a"
abbreviation equals :: u8 where "equals \<equiv> 0x3d"

section \<open>Characters and strings\<close>

definition digit :: "u8 \<Rightarrow> bool" where "digit c \<longleftrightarrow> 0x30 \<le> c \<and> c \<le> 0x39"

text \<open>The second argument is the variable \<open>digit\<close>: the last character was one.\<close>

fun is_attr_oid :: "octets \<Rightarrow> bool \<Rightarrow> bool" where
  "is_attr_oid [] d = d"
| "is_attr_oid (c # cs) d =
    (if digit c then is_attr_oid cs True
     else if c \<noteq> 0x2e then False
     else if \<not> d then False
     else is_attr_oid cs False)"

definition ldap_is_attr_oid :: "octets \<Rightarrow> bool" where
  "ldap_is_attr_oid attr = is_attr_oid attr False"

definition attr_char :: "u8 \<Rightarrow> bool" where
  "attr_char c \<longleftrightarrow> digit c \<or> (0x41 \<le> c \<and> c \<le> 0x5a) \<or> (0x61 \<le> c \<and> c \<le> 0x7a) \<or> c = 0x2e \<or> c = 0x2d \<or> c = 0x3b"

definition ldap_is_attr_desc :: "octets \<Rightarrow> bool" where
  "ldap_is_attr_desc attr \<longleftrightarrow> list_all attr_char attr \<and> attr \<noteq> []"

text \<open>The offset of the parenthesis that closes \<open>balance\<close> open ones.\<close>

fun right_paren :: "nat \<Rightarrow> bool \<Rightarrow> octets \<Rightarrow> nat option" where
  "right_paren balance escape [] = None"
| "right_paren balance escape (c # cs) =
    (let balance' = (if escape then balance else if c = lparen then balance + 1
                     else if c = rparen then balance - 1 else balance)
     in if balance' = 0 then Some 0
        else map_option Suc (right_paren balance' (c = backslash \<and> \<not> escape) cs))"

definition find_right_paren :: "octets \<Rightarrow> nat option" where
  "find_right_paren s = right_paren 1 False s"

definition hex2value :: "u8 \<Rightarrow> u8 option" where
  "hex2value c =
    (if digit c then Some (c - 0x30)
     else if 0x41 \<le> c \<and> c \<le> 0x46 then Some (c + 10 - 0x41)
     else if 0x61 \<le> c \<and> c \<le> 0x66 then Some (c + 10 - 0x61)
     else None)"

fun ldap_pvt_find_wildcard :: "octets \<Rightarrow> nat option" where
  "ldap_pvt_find_wildcard [] = None"
| "ldap_pvt_find_wildcard (c # cs) =
    (if c = star then Some 0
     else if c = backslash then (case cs of [] \<Rightarrow> None | _ # cs' \<Rightarrow> map_option (\<lambda>n. n + 2) (ldap_pvt_find_wildcard cs'))
     else map_option Suc (ldap_pvt_find_wildcard cs))"

fun ldap_pvt_filter_value_unescape :: "octets \<Rightarrow> octets option" where
  "ldap_pvt_filter_value_unescape [] = Some []"
| "ldap_pvt_filter_value_unescape (c # cs) =
    (if c = backslash then
       (case cs of [] \<Rightarrow> None
        | d # cs1 \<Rightarrow>
           (case hex2value d of
              None \<Rightarrow> map_option ((#) d) (ldap_pvt_filter_value_unescape cs1)
            | Some v1 \<Rightarrow>
               (case cs1 of [] \<Rightarrow> None
                | e # cs2 \<Rightarrow>
                   (case hex2value e of None \<Rightarrow> None
                    | Some v2 \<Rightarrow> map_option ((#) (v1 * 16 + v2)) (ldap_pvt_filter_value_unescape cs2)))))
     else map_option ((#) c) (ldap_pvt_filter_value_unescape cs))"

definition index_of :: "u8 \<Rightarrow> octets \<Rightarrow> nat option" where
  "index_of c s = (if c \<in> set s then Some (length (takeWhile (\<lambda>x. x \<noteq> c) s)) else None)"

section \<open>Simple filters\<close>

text \<open>A result of -1, with the element as it was left, and the calls of \<open>ber_printf\<close> that lead to it.\<close>

abbreviation bad :: "berelement \<Rightarrow> put_result" where
  "bad ber \<equiv> Some (-1, ber)"

lemma find_wildcard_less: "ldap_pvt_find_wildcard s = Some n \<Longrightarrow> n < length s"
  by (induction s arbitrary: n rule: ldap_pvt_find_wildcard.induct) (auto split: if_splits list.splits)

definition substring_piece :: "allocator \<Rightarrow> u32 \<Rightarrow> octets \<Rightarrow> berelement \<Rightarrow> put_result" where
  "substring_piece alloc ftype val ber =
    (if val = [] then Some (0, ber)
     else case ldap_pvt_filter_value_unescape val of
         None \<Rightarrow> bad ber
       | Some v \<Rightarrow> ber_printf alloc ber ''to'' [PTag ftype, PStr v, PLen (of_nat (length v))])"

function put_substrings :: "allocator \<Rightarrow> bool \<Rightarrow> octets \<Rightarrow> berelement \<Rightarrow> put_result" where
  "put_substrings alloc gotstar val ber =
    (case ldap_pvt_find_wildcard val of
       None \<Rightarrow> printf_or bad (substring_piece alloc (if gotstar then LDAP_SUBSTRING_FINAL else LDAP_SUBSTRING_INITIAL) val ber)
                 (\<lambda>ber1. Some (0, ber1))
     | Some n \<Rightarrow> printf_or bad (substring_piece alloc (if gotstar then LDAP_SUBSTRING_ANY else LDAP_SUBSTRING_INITIAL) (take n val) ber)
                 (\<lambda>ber1. put_substrings alloc True (drop (Suc n) val) ber1))"
  by pat_completeness auto
termination
  by (relation "measure (\<lambda>(alloc, gotstar, val, ber). length val)") (auto dest: find_wildcard_less)

declare put_substrings.simps [simp del]

definition put_substring_filter :: "allocator \<Rightarrow> octets \<Rightarrow> octets \<Rightarrow> berelement \<Rightarrow> put_result" where
  "put_substring_filter alloc type val ber =
    printf_or bad (ber_printf alloc ber ''t{s{'' [PTag LDAP_FILTER_SUBSTRINGS, PStr type]) (\<lambda>ber1.
    printf_or bad (put_substrings alloc False val ber1) (\<lambda>ber2.
    printf_or bad (ber_printf alloc ber2 ''N}N}'' []) (\<lambda>ber3. Some (0, ber3))))"

text \<open>
  The parts of an extensible match before its \<open>:=\<close>: the type, the rule (\<open>None\<close> for the null pointer) and
  whether the DN's attributes count.
\<close>

definition extended_parts :: "octets \<Rightarrow> (octets \<times> octets option \<times> bool) option" where
  "extended_parts str =
    (case index_of colon str of
       None \<Rightarrow> (if ldap_is_attr_desc str then Some (str, None, False) else None)
     | Some j \<Rightarrow>
        (let typ = take j str; dn = drop (Suc j) str in
         case index_of colon dn of
           None \<Rightarrow> (if dn = [0x64, 0x6e] then (if ldap_is_attr_desc typ then Some (typ, Some [], True) else None)
                    else Some (typ, Some dn, False))
         | Some k \<Rightarrow> (if take k dn = [0x64, 0x6e] then Some (typ, Some (drop (Suc k) dn), True) else None)))"

definition put_extended_filter :: "allocator \<Rightarrow> octets \<Rightarrow> octets \<Rightarrow> berelement \<Rightarrow> put_result" where
  "put_extended_filter alloc str val ber =
    (case extended_parts str of None \<Rightarrow> bad ber
     | Some (typ, rule, dn) \<Rightarrow>
        (let has_rule = (rule \<noteq> None \<and> rule \<noteq> Some []) in
         if typ = [] \<and> \<not> has_rule then bad ber
         else if typ \<noteq> [] \<and> \<not> ldap_is_attr_desc typ then bad ber
         else if has_rule \<and> \<not> ldap_is_attr_oid (the rule) then bad ber
         else
           printf_or bad (ber_printf alloc ber ''t{'' [PTag LDAP_FILTER_EXT]) (\<lambda>ber1.
           printf_or bad (if has_rule then ber_printf alloc ber1 ''ts'' [PTag LDAP_FILTER_EXT_OID, PStr (the rule)] else Some (0, ber1)) (\<lambda>ber2.
           printf_or bad (if typ \<noteq> [] then ber_printf alloc ber2 ''ts'' [PTag LDAP_FILTER_EXT_TYPE, PStr typ] else Some (0, ber2)) (\<lambda>ber3.
             case ldap_pvt_filter_value_unescape val of None \<Rightarrow> bad ber3
             | Some v \<Rightarrow> ber_printf alloc ber3 ''totbN}'' [PTag LDAP_FILTER_EXT_VALUE, PStr v, PLen (of_nat (length v)),
                 PTag LDAP_FILTER_EXT_DNATTRS, PInt (if dn then 1 else 0)])))))"

definition put_assertion :: "allocator \<Rightarrow> u32 \<Rightarrow> octets \<Rightarrow> octets \<Rightarrow> berelement \<Rightarrow> put_result" where
  "put_assertion alloc ftype str val ber =
    (case ldap_pvt_filter_value_unescape val of None \<Rightarrow> bad ber
     | Some v \<Rightarrow> printf_or bad (ber_printf alloc ber ''t{soN}'' [PTag ftype, PStr str, PStr v, PLen (of_nat (length v))])
         (\<lambda>ber1. Some (0, ber1)))"

text \<open>
  The copy of the string may fail.  With nothing before the equals sign the code looks at the octet before
  the copy, which is not part of the block.
\<close>

definition put_simple_filter :: "allocator \<Rightarrow> octets \<Rightarrow> berelement \<Rightarrow> put_result" where
  "put_simple_filter alloc str ber =
    (if alloc (length str + 1) = None then bad ber
     else case index_of equals str of None \<Rightarrow> bad ber
       | Some i \<Rightarrow>
          (let attr = take i str; val = drop (Suc i) str; body = butlast attr;
               typed = (\<lambda>ftype. if ldap_is_attr_desc body then put_assertion alloc ftype body val ber else bad ber)
           in if attr = [] then None
              else if last attr = 0x3c then typed LDAP_FILTER_LE
              else if last attr = 0x3e then typed LDAP_FILTER_GE
              else if last attr = 0x7e then typed LDAP_FILTER_APPROX
              else if last attr = colon then put_extended_filter alloc body val ber
              else if ldap_pvt_find_wildcard val = None then put_assertion alloc LDAP_FILTER_EQUALITY attr val ber
              else if val = [star] then
                printf_or bad (ber_printf alloc ber ''ts'' [PTag LDAP_FILTER_PRESENT, PStr attr]) (\<lambda>ber1. Some (0, ber1))
              else put_substring_filter alloc attr val ber))"

section \<open>Filters\<close>

definition filter_space :: "u8 \<Rightarrow> bool" where
  "filter_space c \<longleftrightarrow> c = 0x20 \<or> c = 0x09 \<or> c = 0x0a"

lemma right_paren_less: "right_paren b e s = Some n \<Longrightarrow> n < length s"
  by (induction s arbitrary: b e n) (auto simp: Let_def split: if_splits)

lemma space_less:
  "x \<in> set s \<Longrightarrow> length (dropWhile filter_space s) - Suc k < length s"
  "2 * (length (dropWhile filter_space s) - k) < Suc (Suc (2 * length s))"
  "n < length (dropWhile filter_space s) - Suc 0 \<Longrightarrow> Suc (Suc (Suc (2 * n))) < 2 * length s"
  using length_dropWhile_le [of filter_space s] by (cases s; auto)+

definition complex_tag :: "u8 \<Rightarrow> u32" where
  "complex_tag c = (if c = 0x26 then LDAP_FILTER_AND else if c = 0x7c then LDAP_FILTER_OR else LDAP_FILTER_NOT)"

text \<open>
  \<open>put_filter_loop\<close> is the loop of \<open>put_filter\<close> with the variable \<open>parens\<close>; the scan for the end of a simple
  filter in parentheses is the loop of \<open>find_right_paren\<close>.
\<close>

function put_filter_loop :: "allocator \<Rightarrow> int \<Rightarrow> octets \<Rightarrow> berelement \<Rightarrow> put_result"
  and put_complex_filter :: "allocator \<Rightarrow> octets \<Rightarrow> u32 \<Rightarrow> berelement \<Rightarrow> put_result"
  and put_filter_list :: "allocator \<Rightarrow> octets \<Rightarrow> berelement \<Rightarrow> put_result" where
  "put_filter_loop alloc parens [] ber = Some (if parens \<noteq> 0 then -1 else 0, ber)"
| "put_filter_loop alloc parens (c # cs) ber =
    (if c = lparen then
       (let s = dropWhile filter_space cs in
        if s \<noteq> [] \<and> (hd s = 0x26 \<or> hd s = 0x7c \<or> hd s = 0x21) then
          printf_or bad (put_complex_filter alloc (tl s) (complex_tag (hd s)) ber) (\<lambda>ber1.
            case find_right_paren (tl s) of None \<Rightarrow> bad ber1
            | Some n \<Rightarrow> put_filter_loop alloc parens (drop (Suc n) (tl s)) ber1)
        else case find_right_paren s of None \<Rightarrow> bad ber
          | Some n \<Rightarrow> printf_or bad (put_simple_filter alloc (take n s) ber) (\<lambda>ber1.
              put_filter_loop alloc parens (drop (Suc n) s) ber1))
     else if c = rparen then
       printf_or bad (ber_printf alloc ber '']'' []) (\<lambda>ber1. put_filter_loop alloc (parens - 1) cs ber1)
     else if c = 0x20 then put_filter_loop alloc parens cs ber
     else printf_or bad (put_simple_filter alloc (c # cs) ber) (\<lambda>ber1. put_filter_loop alloc parens [] ber1))"
| "put_complex_filter alloc str tag ber =
    printf_or bad (ber_printf alloc ber ''t{'' [PTag tag]) (\<lambda>ber1.
    case find_right_paren str of None \<Rightarrow> bad ber1
    | Some n \<Rightarrow> printf_or bad (put_filter_list alloc (take n str) ber1) (\<lambda>ber2. ber_printf alloc ber2 ''N}'' []))"
| "put_filter_list alloc str ber =
    (let s = dropWhile filter_space str in
     if s = [] then Some (0, ber)
     else case find_right_paren (tl s) of None \<Rightarrow> bad ber
       | Some n \<Rightarrow> printf_or bad (put_filter_loop alloc 0 (take (n + 2) s) ber) (\<lambda>ber1. put_filter_list alloc (drop (n + 2) s) ber1))"
  by pat_completeness auto
termination
  by (relation "measure (\<lambda>x. case x of Inl (alloc, parens, s, ber) \<Rightarrow> 2 * length s
      | Inr (Inl (alloc, s, tag, ber)) \<Rightarrow> 2 * length s + 2 | Inr (Inr (alloc, s, ber)) \<Rightarrow> 2 * length s + 1)")
    (auto simp: find_right_paren_def intro: space_less dest!: right_paren_less)

declare put_filter_loop.simps [simp del] put_complex_filter.simps [simp del] put_filter_list.simps [simp del]

definition put_filter :: "allocator \<Rightarrow> octets \<Rightarrow> berelement \<Rightarrow> put_result" where
  "put_filter alloc str ber = put_filter_loop alloc 0 str ber"

section \<open>Search requests\<close>

text \<open>The filter \<open>(objectclass=*)\<close>.\<close>

definition default_filter :: octets where
  "default_filter = [0x28, 0x6f, 0x62, 0x6a, 0x65, 0x63, 0x74, 0x63, 0x6c, 0x61, 0x73, 0x73, 0x3d, 0x2a, 0x29]"

text \<open>
  A limit below zero, as a signed number, asks for the handle's.  The copy of the filter is not checked: a
  null pointer is read.  No element is a null pointer, and \<open>ld_errno\<close> says why.
\<close>

definition ldap_build_search_req :: "allocator \<Rightarrow> bool \<Rightarrow> ldap \<Rightarrow> octets option \<Rightarrow> u32 \<Rightarrow> octets option \<Rightarrow> octets list option
    \<Rightarrow> u32 \<Rightarrow> ldapcontrol list option \<Rightarrow> u32 \<Rightarrow> u32 \<Rightarrow> (berelement option \<times> ldap) option" where
  "ldap_build_search_req alloc calloc_ok ld base scope filter_in attrs attrsonly sctrls timelimit sizelimit =
    (case ldap_alloc_ber_with_options calloc_ok ld of
       (None, ld1) \<Rightarrow> Some (None, ld1)
     | (Some ber, ld1) \<Rightarrow>
        (let base1 = (if base = None then ld_defbase ld1 else base);
             base2 = (case base1 of None \<Rightarrow> [] | Some b \<Rightarrow> b);
             str = (case filter_in of Some f \<Rightarrow> f | None \<Rightarrow> default_filter);
             ld2 = next_msgid ld1;
             fail = (\<lambda>code _. Some (None, set_errno code ld2))
         in printf_or (fail LDAP_ENCODING_ERROR) (ber_printf alloc ber ''{it{seeiib''
              [PInt (ld_msgid ld2), PTag LDAP_REQ_SEARCH, PStr base2, PInt scope, PInt (ld_deref ld2),
               PInt (if sint sizelimit < 0 then ld_sizelimit ld2 else sizelimit),
               PInt (if sint timelimit < 0 then ld_timelimit ld2 else timelimit), PInt attrsonly]) (\<lambda>ber1.
            if alloc (length str + 1) = None then None
            else printf_or (fail LDAP_FILTER_ERROR) (put_filter alloc str ber1) (\<lambda>ber2.
            printf_or (fail LDAP_ENCODING_ERROR) (ber_printf alloc ber2 ''{v}N}'' [PStrVec attrs]) (\<lambda>ber3.
            case ldap_int_put_controls alloc ld2 sctrls ber3 of None \<Rightarrow> None
            | Some (rc, ld3, ber4) \<Rightarrow>
               (if rc \<noteq> LDAP_SUCCESS then Some (None, ld3)
                else printf_or (\<lambda>_. Some (None, set_errno LDAP_ENCODING_ERROR ld3)) (ber_printf alloc ber4 ''N}'' []) (\<lambda>ber5.
                  Some (Some ber5, ld3))))))))"

text \<open>The timeout is its seconds and microseconds.\<close>

definition ldap_search_ext :: "allocator \<Rightarrow> bool \<Rightarrow> ldap \<Rightarrow> octets option \<Rightarrow> u32 \<Rightarrow> octets option \<Rightarrow> octets list option
    \<Rightarrow> u32 \<Rightarrow> ldapcontrol list option \<Rightarrow> ldapcontrol list option \<Rightarrow> (u32 \<times> u32) option \<Rightarrow> u32 \<Rightarrow> request_result" where
  "ldap_search_ext alloc calloc_ok ld base scope filter_in attrs attrsonly sctrls cctrls timeout sizelimit =
    checking_clients ld cctrls (\<lambda>ld1.
      if timeout = Some (0, 0) then Some (Refused LDAP_PARAM_ERROR, ld1)
      else let timelimit = (case timeout of None \<Rightarrow> -1 | Some (sec, usec) \<Rightarrow> if sec \<noteq> 0 then sec else 1) in
        case ldap_build_search_req alloc calloc_ok ld1 base scope filter_in attrs attrsonly sctrls timelimit sizelimit of
          None \<Rightarrow> None
        | Some (None, ld2) \<Rightarrow> Some (Refused (ld_errno ld2), ld2)
        | Some (Some ber, ld2) \<Rightarrow> Some (Issued LDAP_REQ_SEARCH base ber, ld2))"

definition ldap_search :: "allocator \<Rightarrow> bool \<Rightarrow> ldap \<Rightarrow> octets option \<Rightarrow> u32 \<Rightarrow> octets option \<Rightarrow> octets list option
    \<Rightarrow> u32 \<Rightarrow> request_result" where
  "ldap_search alloc calloc_ok ld base scope filter_in attrs attrsonly =
    (case ldap_build_search_req alloc calloc_ok ld base scope filter_in attrs attrsonly None (-1) (-1) of
       None \<Rightarrow> None
     | Some (None, ld1) \<Rightarrow> Some (Refused (-1), ld1)
     | Some (Some ber, ld1) \<Rightarrow> Some (Issued LDAP_REQ_SEARCH base ber, ld1))"

end
