(* ===== verification/Ldap_Requests_Facts.thy ===== *)
theory Ldap_Requests_Facts imports Ldap_Requests begin

text \<open>
  The request functions write the messages of RFC 2251.  A request is described by the value it stands for;
  the proofs run each function's calls of \<open>ber_printf\<close> on the stack of open sequences they build.
\<close>

section \<open>Growing buildings\<close>

definition grows :: "building \<Rightarrow> building \<Rightarrow> bool" where
  "grows st st' \<longleftrightarrow> (building_ok st' \<longrightarrow> building_ok st \<and> weight st \<le> weight st')"

lemma grows_builds: "builds fmt args t st = Some st' \<Longrightarrow> grows st st'"
  unfolding grows_def using builds_mono by blast

lemma grows_add: "grows st (add_items ys st)"
  by (simp add: grows_def)

lemma grows_trans: "grows st st1 \<Longrightarrow> grows st1 st2 \<Longrightarrow> grows st st2"
  unfolding grows_def by force

lemma room_grows:
  assumes "room_for b0 0 st'" "grows st st'" "length (ber_sos b0) + length (fst st) \<le> 113" shows "room_for b0 0 st"
  using assms by (auto simp: room_for_def grows_def)

lemma printf_or_holds:
  assumes "always_allocates alloc" "holds b0 st b" "builds fmt args None st = Some st1" "grows st1 st'" "room_for b0 0 st'"
    and "length (ber_sos b0) + length (fst st) + openers fmt \<le> 113" "length (ber_sos b0) + length (fst st1) \<le> 113"
    and "\<And>b1. holds b0 st1 b1 \<Longrightarrow> \<exists>r. next b1 = Some r \<and> P r"
  shows "\<exists>r. printf_or bad (ber_printf alloc b fmt args) next = Some r \<and> P r"
proof -
  obtain rc b1 where "ber_printf alloc b fmt args = Some (rc, b1)" "0 \<le> rc" "holds b0 st1 b1"
    using printf_holds [OF assms(1-3) room_grows [OF assms(5,4,7)] assms(6)] by blast
  then show ?thesis using assms(8) [of b1] by (simp add: printf_or_def)
qed

section \<open>Controls\<close>

definition octets_of :: "berval \<Rightarrow> octets" where
  "octets_of v = (case value_octets v of None \<Rightarrow> [] | Some s \<Rightarrow> s)"

definition control_ok :: "ldapcontrol \<Rightarrow> bool" where
  "control_ok c \<longleftrightarrow> ldctl_oid c \<noteq> None \<and> (bv_val (ldctl_value c) \<noteq> None \<longrightarrow> value_octets (ldctl_value c) \<noteq> None)"

definition control_item :: "ldapcontrol \<Rightarrow> ber_item" where
  "control_item c = ISeq None ([IString None (the (ldctl_oid c))]
    @ (if is_critical c then [IBool None (scast (ldctl_iscritical c))] else [])
    @ (if bv_val (ldctl_value c) \<noteq> None then [IString None (octets_of (ldctl_value c))] else []))"

text \<open>The controls that go with a request: those given, or else those of the handle; none before version 3.\<close>

definition server_controls :: "ldap \<Rightarrow> ldapcontrol list option \<Rightarrow> ldapcontrol list" where
  "server_controls ld sctrls = (case (if sctrls = None then ld_sctrls ld else sctrls) of None \<Rightarrow> [] | Some cs \<Rightarrow> cs)"

definition control_items :: "ldap \<Rightarrow> ldapcontrol list option \<Rightarrow> ber_item list" where
  "control_items ld sctrls =
    (if server_controls ld sctrls = [] \<or> sint (ld_version ld) < LDAP_VERSION3 then []
     else [ISeq (Some LDAP_TAG_CONTROLS) (map control_item (server_controls ld sctrls))])"

lemma printf_or_Some: "printf_or bad (Some (0, b)) next = next b"
  by (simp add: printf_or_def)

lemma printf_or_if_holds:
  assumes "always_allocates alloc" "holds b0 st b" "p \<Longrightarrow> builds fmt args None st = Some st1" "\<not> p \<Longrightarrow> st1 = st" "grows st1 st'"
    and "room_for b0 0 st'" "length (ber_sos b0) + length (fst st) + openers fmt \<le> 113"
    and "length (ber_sos b0) + length (fst st1) \<le> 113"
    and "\<And>b1. holds b0 st1 b1 \<Longrightarrow> \<exists>r. next b1 = Some r \<and> P r"
  shows "\<exists>r. printf_or bad (if p then ber_printf alloc b fmt args else Some (0, b)) next = Some r \<and> P r"
proof (cases p)
  case True
  then show ?thesis using printf_or_holds [OF assms(1,2) assms(3) [OF True] assms(5-9)] by simp
next
  case False
  then show ?thesis using assms(2,4,9) by (simp add: printf_or_Some)
qed

abbreviation in_seq :: "ber_item list \<Rightarrow> building \<Rightarrow> building" where
  "in_seq xs st \<equiv> ((Opens_seq, None, xs) # fst st, snd st)"

lemma grows_in_seq: "grows (in_seq xs st) (in_seq (xs @ ys) st)"
  using grows_add [of "in_seq xs st" ys] by simp

lemma grows_close: "grows (in_seq xs st) (add_items [ISeq None xs] st)"
  by (rule grows_builds [of "''}''" "[]" None]) (cases st, simp)

lemma put_control_holds:
  assumes "always_allocates alloc" "holds b0 st b" "control_ok c" "grows (add_items [control_item c] st) st'"
    and "room_for b0 0 st'" "length (ber_sos b0) + length (fst st) + 1 \<le> 113"
    and "\<And>b1. holds b0 (add_items [control_item c] st) b1 \<Longrightarrow>
      \<exists>r. put_control_list alloc ld cs b1 = Some r \<and> P r"
  shows "\<exists>r. put_control_list alloc ld (c # cs) b = Some r \<and> P r"
proof -
  obtain oid where oid: "ldctl_oid c = Some oid" using assms(3) by (auto simp: control_ok_def)
  let ?v = "ldctl_value c"
  let ?x0 = "[IString None oid]"
  let ?x1 = "?x0 @ (if is_critical c then [IBool None (scast (ldctl_iscritical c))] else [])"
  let ?x2 = "?x1 @ (if bv_val ?v \<noteq> None then [IString None (octets_of ?v)] else [])"
  have item: "ISeq None ?x2 = control_item c" by (simp add: control_item_def oid)
  have g2: "grows (in_seq ?x2 st) st'" by (rule grows_trans [OF grows_close]) (unfold item, rule assms(4))
  have g1: "grows (in_seq ?x1 st) st'" by (rule grows_trans [OF grows_in_seq g2])
  have g0: "grows (in_seq ?x0 st) st'" by (rule grows_trans [OF grows_in_seq g1])
  have v: "builds ''O'' [PBerval (Some ?v)] None (in_seq ?x1 st) = Some (in_seq ?x2 st)" if "bv_val ?v \<noteq> None"
    using that assms(3) by (auto simp: primitive_def control_ok_def octets_of_def)
  have d: "length (ber_sos b0) + length (fst (in_seq xs st)) \<le> 113" for xs using assms(6) by simp
  show ?thesis
    unfolding put_control_list.simps oid option.case
  proof (rule printf_or_holds [OF assms(1,2) _ g0 assms(5) _ d])
    fix b1 assume "holds b0 (in_seq ?x0 st) b1"
    then show "\<exists>r. printf_or (controls_failed ld)
          (if is_critical c then ber_printf alloc b1 ''b'' [PInt (scast (ldctl_iscritical c))] else Some (0, b1)) (\<lambda>ber2.
        printf_or (controls_failed ld)
          (if bv_val ?v \<noteq> None then ber_printf alloc ber2 ''O'' [PBerval (Some ?v)] else Some (0, ber2)) (\<lambda>ber3.
        printf_or (controls_failed ld) (ber_printf alloc ber3 ''N}'' []) (\<lambda>ber4. put_control_list alloc ld cs ber4))) = Some r \<and> P r"
    proof (rule printf_or_if_holds [OF assms(1) _ _ _ g1 assms(5) _ d])
      fix b2 assume "holds b0 (in_seq ?x1 st) b2"
      then show "\<exists>r. printf_or (controls_failed ld)
          (if bv_val ?v \<noteq> None then ber_printf alloc b2 ''O'' [PBerval (Some ?v)] else Some (0, b2)) (\<lambda>ber3.
        printf_or (controls_failed ld) (ber_printf alloc ber3 ''N}'' []) (\<lambda>ber4. put_control_list alloc ld cs ber4)) = Some r \<and> P r"
      proof (rule printf_or_if_holds [OF assms(1) _ v _ g2 assms(5) _ d])
        fix b3 assume "holds b0 (in_seq ?x2 st) b3"
        then show "\<exists>r. printf_or (controls_failed ld) (ber_printf alloc b3 ''N}'' []) (\<lambda>ber4. put_control_list alloc ld cs ber4) = Some r \<and> P r"
        proof (rule printf_or_holds [OF assms(1) _ _ assms(4,5) _ _ assms(7)])
          show "builds ''N}'' [] None (in_seq ?x2 st) = Some (add_items [control_item c] st)"
            unfolding item [symmetric] by (cases st) simp
        qed (use assms(6) in simp_all)
      qed (use assms(6) in simp_all)
    qed (use assms(6) in \<open>simp_all add: primitive_def\<close>)
  qed (use assms(6) in \<open>simp_all add: primitive_def open_group_def\<close>)
qed

lemma put_control_list_holds:
  assumes "always_allocates alloc" "holds b0 st b" "list_all control_ok cs" "grows (add_items (map control_item cs) st) st'"
    and "room_for b0 0 st'" "length (ber_sos b0) + length (fst st) + 1 \<le> 113"
  shows "\<exists>b'. put_control_list alloc ld cs b = Some (LDAP_SUCCESS, ld, b') \<and> holds b0 (add_items (map control_item cs) st) b'"
  using assms(2-4,6)
proof (induction cs arbitrary: st b)
  case (Cons c cs)
  have g: "grows (add_items [control_item c] st) st'"
    using grows_trans [OF _ Cons.prems(3)] grows_add [of "add_items [control_item c] st" "map control_item cs"] by simp
  have "\<exists>r. put_control_list alloc ld (c # cs) b = Some r
      \<and> (\<exists>b'. r = (LDAP_SUCCESS, ld, b') \<and> holds b0 (add_items (map control_item (c # cs)) st) b')"
    by (rule put_control_holds [OF assms(1) Cons.prems(1) _ g assms(5) Cons.prems(4)])
      (use Cons.prems Cons.IH [of "add_items [control_item c] st"] in auto)
  then show ?case by auto
qed simp

definition controls_ok :: "ldap \<Rightarrow> ldapcontrol list option \<Rightarrow> bool" where
  "controls_ok ld sctrls \<longleftrightarrow> list_all control_ok (server_controls ld sctrls)
    \<and> (sint (ld_version ld) < LDAP_VERSION3 \<longrightarrow> \<not> list_ex is_critical (server_controls ld sctrls))"

lemma context_tags:
  "short_tag (Some LDAP_TAG_CONTROLS)" "short_tag (Some LDAP_REQ_BIND)" "short_tag (Some LDAP_REQ_SEARCH)"
  "short_tag (Some LDAP_REQ_MODIFY)" "short_tag (Some LDAP_REQ_ADD)" "short_tag (Some LDAP_REQ_MODDN)"
  "short_tag (Some LDAP_REQ_COMPARE)" "short_tag (Some LDAP_REQ_EXTENDED)" "short_tag (Some LDAP_AUTH_SASL)"
  "tag_ok (Some LDAP_REQ_DELETE)" "tag_ok (Some LDAP_REQ_ABANDON)" "tag_ok (Some LDAP_REQ_UNBIND)"
  "tag_ok (Some LDAP_TAG_NEWSUPERIOR)" "tag_ok (Some LDAP_TAG_EXOP_REQ_OID)" "tag_ok (Some LDAP_TAG_EXOP_REQ_VALUE)"
  "tag_ok (Some LDAP_AUTH_SIMPLE)"
  by (simp_all add: short_tag_def tag_ok_def ldap_tags valid_tag_def tag_octets_def ber_calc_taglen_def
      leading_octet_numeral big_tag_def LBER_BIG_TAG_MASK_def)

lemma tag_ok_None [simp]: "tag_ok None" "short_tag None"
  by (simp_all add: tag_ok_def short_tag_def)

lemma put_controls_holds:
  assumes "always_allocates alloc" "holds b0 st b" "controls_ok ld sctrls" "room_for b0 0 (add_items (control_items ld sctrls) st)"
    and "length (ber_sos b0) + length (fst st) + 2 \<le> 113"
  shows "\<exists>b'. ldap_int_put_controls alloc ld sctrls b = Some (LDAP_SUCCESS, ld, b')
    \<and> holds b0 (add_items (control_items ld sctrls) st) b'"
proof -
  define cs where "cs = server_controls ld sctrls"
  let ?ctrls = "if sctrls = None then ld_sctrls ld else sctrls"
  have cs: "?ctrls = None \<or> ?ctrls = Some [] \<longleftrightarrow> cs = []" "cs \<noteq> [] \<Longrightarrow> the ?ctrls = cs"
    by (auto simp: cs_def server_controls_def split: option.splits)
  consider "cs = []" | "cs \<noteq> []" "sint (ld_version ld) < LDAP_VERSION3" | "cs \<noteq> []" "\<not> sint (ld_version ld) < LDAP_VERSION3"
    by blast
  then show ?thesis
  proof cases
    case 1
    then show ?thesis using assms(2) cs by (simp add: ldap_int_put_controls_def control_items_def cs_def [symmetric] Let_def)
  next
    case 2
    then show ?thesis
      using assms(2,3) cs by (simp add: ldap_int_put_controls_def control_items_def controls_ok_def cs_def [symmetric] Let_def)
  next
    case 3
    let ?seq = "\<lambda>xs. ((Opens_seq, Some LDAP_TAG_CONTROLS, xs) # fst st, snd st)"
    let ?st' = "add_items (control_items ld sctrls) st"
    have items: "control_items ld sctrls = [ISeq (Some LDAP_TAG_CONTROLS) (map control_item cs)]"
      using 3 by (simp add: control_items_def cs_def)
    have close: "builds ''}'' [] None (?seq (map control_item cs)) = Some ?st'" unfolding items by (cases st) simp
    have g: "grows (?seq (map control_item cs)) ?st'" by (rule grows_builds [OF close])
    have g0: "grows (?seq []) ?st'"
      using grows_trans [OF _ g] grows_add [of "?seq []" "map control_item cs"] by simp
    have no_cs: "\<not> (?ctrls = None \<or> ?ctrls = Some [])" using cs(1) 3(1) by blast
    have "\<exists>r. ldap_int_put_controls alloc ld sctrls b = Some r
      \<and> (\<exists>b'. r = (LDAP_SUCCESS, ld, b') \<and> holds b0 ?st' b')"
      unfolding ldap_int_put_controls_def Let_def cs(2) [OF 3(1)] if_not_P [OF 3(2)]
        if_not_P [OF no_cs]
    proof (rule printf_or_holds [OF assms(1,2) _ g0 assms(4)])
      fix b1 assume "holds b0 (?seq []) b1"
      from put_control_list_holds [OF assms(1) this, of cs ?st' ld] obtain b2 where
        b2: "put_control_list alloc ld cs b1 = Some (LDAP_SUCCESS, ld, b2)" "holds b0 (?seq (map control_item cs)) b2"
        using assms(3,4,5) g by (auto simp: controls_ok_def cs_def)
      have "\<exists>r. printf_or (controls_failed ld) (ber_printf alloc b2 ''}'' []) (\<lambda>ber3. Some (LDAP_SUCCESS, ld, ber3)) = Some r
          \<and> (\<exists>b'. r = (LDAP_SUCCESS, ld, b') \<and> holds b0 ?st' b')"
        by (rule printf_or_holds [OF assms(1) b2(2) close _ assms(4)])
          (use assms(5) in \<open>auto simp: grows_def\<close>)
      then show "\<exists>r. (case put_control_list alloc ld cs b1 of None \<Rightarrow> None
         | Some (rc, ld', ber2) \<Rightarrow>
            (if rc \<noteq> LDAP_SUCCESS then Some (rc, ld', ber2)
             else printf_or (controls_failed ld') (ber_printf alloc ber2 ''}'' []) (\<lambda>ber3. Some (LDAP_SUCCESS, ld', ber3)))) = Some r
          \<and> (\<exists>b'. r = (LDAP_SUCCESS, ld, b') \<and> holds b0 ?st' b')"
        using b2(1) by simp
    qed (use assms(5) in \<open>simp_all add: open_group_def\<close>)
    then show ?thesis by blast
  qed
qed

section \<open>Modifications\<close>

definition modification_values :: "ldapmod \<Rightarrow> octets list option" where
  "modification_values m =
    (if mod_op m AND LDAP_MOD_BVALUES \<noteq> 0
     then (case mod_vals m of Modv_bvals None \<Rightarrow> Some [] | Modv_bvals (Some vs) \<Rightarrow> all_values vs | Modv_strvals _ \<Rightarrow> None)
     else (case mod_vals m of Modv_strvals None \<Rightarrow> Some [] | Modv_strvals (Some ss) \<Rightarrow> Some ss | Modv_bvals _ \<Rightarrow> None))"

definition attribute_item :: "ldapmod \<Rightarrow> ber_item" where
  "attribute_item m = ISeq None [IString None (mod_type m), ISet None (map (IString None) (the (modification_values m)))]"

definition modification_item :: "bool \<Rightarrow> ldapmod \<Rightarrow> ber_item" where
  "modification_item modify m =
    (if modify then ISeq None [IEnum None (mod_op m AND NOT LDAP_MOD_BVALUES), attribute_item m] else attribute_item m)"

lemma without_bvalues:
  assumes "op AND LDAP_MOD_BVALUES = (0 :: u32)" shows "op AND NOT LDAP_MOD_BVALUES = op"
proof (rule bit_word_eqI)
  fix n assume "n < LENGTH(32)"
  moreover have "\<not> bit (op AND LDAP_MOD_BVALUES) n" using assms by simp
  ultimately show "bit (op AND NOT LDAP_MOD_BVALUES) n = bit op n" by (auto simp: bit_simps)
qed

lemma put_modification_holds:
  assumes "always_allocates alloc" "holds b0 st b" "modification_values m \<noteq> None" "grows (add_items [modification_item modify m] st) st'"
    and "room_for b0 0 st'" "length (ber_sos b0) + length (fst st) + 3 \<le> 113"
  shows "\<exists>rc b'. put_modification alloc modify m b = Some (rc, b') \<and> 0 \<le> rc \<and> holds b0 (add_items [modification_item modify m] st) b'"
proof -
  have r: "room_for b0 0 (add_items [modification_item modify m] st)"
    by (rule room_grows [OF assms(5,4)]) (use assms(6) in simp)
  have "\<exists>fmt args. put_modification alloc modify m b = ber_printf alloc b fmt args \<and> openers fmt \<le> 3
    \<and> builds fmt args None st = Some (add_items [modification_item modify m] st)"
  proof (cases "mod_op m AND LDAP_MOD_BVALUES = 0")
    case True
    then obtain ss where ss: "mod_vals m = Modv_strvals ss" using assms(3) by (auto simp: modification_values_def split: mod_vals.splits)
    have "builds (if modify then ''{e{s[v]N}N}'' else ''{s[v]N}'') (if modify then [PInt (mod_op m), PStr (mod_type m), PStrVec ss]
        else [PStr (mod_type m), PStrVec ss]) None st = Some (add_items [modification_item modify m] st)"
      using True ss without_bvalues [OF True]
      by (cases st; cases ss; cases modify)
        (simp_all add: primitive_def open_group_def modification_item_def attribute_item_def modification_values_def)
    then show ?thesis using True ss
      by (intro exI [of _ "if modify then ''{e{s[v]N}N}'' else ''{s[v]N}''"]
          exI [of _ "if modify then [PInt (mod_op m), PStr (mod_type m), PStrVec ss] else [PStr (mod_type m), PStrVec ss]"])
        (simp add: put_modification_def)
  next
    case False
    then obtain vs where vs: "mod_vals m = Modv_bvals vs" using assms(3) by (auto simp: modification_values_def split: mod_vals.splits)
    have "builds (if modify then ''{e{s[V]N}N}'' else ''{s[V]N}'')
        (if modify then [PInt (mod_op m AND NOT LDAP_MOD_BVALUES), PStr (mod_type m), PBvVec vs]
         else [PStr (mod_type m), PBvVec vs]) None st = Some (add_items [modification_item modify m] st)"
      using False vs assms(3)
      by (cases st; cases vs; cases modify)
        (auto simp: primitive_def open_group_def modification_item_def attribute_item_def modification_values_def)
    then show ?thesis using False vs
      by (intro exI [of _ "if modify then ''{e{s[V]N}N}'' else ''{s[V]N}''"]
          exI [of _ "if modify then [PInt (mod_op m AND NOT LDAP_MOD_BVALUES), PStr (mod_type m), PBvVec vs] else [PStr (mod_type m), PBvVec vs]"])
        (simp add: put_modification_def)
  qed
  then obtain fmt args where f: "put_modification alloc modify m b = ber_printf alloc b fmt args" "openers fmt \<le> 3"
      "builds fmt args None st = Some (add_items [modification_item modify m] st)" by blast
  show ?thesis unfolding f(1) by (rule printf_holds [OF assms(1,2) f(3) r]) (use f(2) assms(6) in simp)
qed

lemma put_modifications_holds:
  assumes "always_allocates alloc" "holds b0 st b" "list_all (\<lambda>m. modification_values m \<noteq> None) ms"
    and "grows (add_items (map (modification_item modify) ms) st) st'"
    and "room_for b0 0 st'" "length (ber_sos b0) + length (fst st) + 3 \<le> 113"
  shows "\<exists>b'. put_modifications alloc modify ms b = Some (0, b') \<and> holds b0 (add_items (map (modification_item modify) ms) st) b'"
  using assms(2-4,6)
proof (induction ms arbitrary: st b)
  case (Cons m ms)
  have g: "grows (add_items [modification_item modify m] st) st'"
    using grows_trans [OF _ Cons.prems(3)] grows_add [of "add_items [modification_item modify m] st" "map (modification_item modify) ms"] by simp
  obtain rc b1 where b1: "put_modification alloc modify m b = Some (rc, b1)" "0 \<le> rc" "holds b0 (add_items [modification_item modify m] st) b1"
    using put_modification_holds [OF assms(1) Cons.prems(1) _ g assms(5) Cons.prems(4)] Cons.prems(2) by auto
  then show ?case using Cons.IH [OF b1(3)] Cons.prems by simp
qed simp

section \<open>Requests\<close>

datatype request =
    Add octets "ldapmod list"
  | Modify octets "ldapmod list"
  | Delete octets
  | Compare octets octets "berval option"
  | Rename octets octets "octets option" u32
  | Extended "octets option" "berval option"
  | Bind "octets option" "octets option" "berval option"
  | Abandon u32
  | Unbind

fun issue :: "allocator \<Rightarrow> bool \<Rightarrow> ldap \<Rightarrow> request \<Rightarrow> ldapcontrol list option \<Rightarrow> ldapcontrol list option \<Rightarrow> request_result" where
  "issue alloc calloc_ok ld (Add dn attrs) sctrls cctrls = ldap_add_ext alloc calloc_ok ld dn attrs sctrls cctrls"
| "issue alloc calloc_ok ld (Modify dn mods) sctrls cctrls = ldap_modify_ext alloc calloc_ok ld dn mods sctrls cctrls"
| "issue alloc calloc_ok ld (Delete dn) sctrls cctrls = ldap_delete_ext alloc calloc_ok ld dn sctrls cctrls"
| "issue alloc calloc_ok ld (Compare dn attr v) sctrls cctrls = ldap_compare_ext alloc calloc_ok ld dn attr v sctrls cctrls"
| "issue alloc calloc_ok ld (Rename dn rdn sup' del) sctrls cctrls = ldap_rename alloc calloc_ok ld dn rdn sup' del sctrls cctrls"
| "issue alloc calloc_ok ld (Extended oid v) sctrls cctrls = ldap_extended_operation alloc calloc_ok ld oid v sctrls cctrls"
| "issue alloc calloc_ok ld (Bind dn mech cred) sctrls cctrls = ldap_sasl_bind alloc calloc_ok ld dn mech cred sctrls cctrls"
| "issue alloc calloc_ok ld (Abandon msgid) sctrls cctrls = abandon_message alloc calloc_ok ld msgid sctrls"
| "issue alloc calloc_ok ld Unbind sctrls cctrls = ldap_send_unbind alloc calloc_ok ld sctrls"

text \<open>The protocol operation each request stands for (RFC 2251, section 4).\<close>

definition bind_name :: "ldap \<Rightarrow> octets option \<Rightarrow> octets option \<Rightarrow> octets" where
  "bind_name ld dn mech = (case (if mech = None \<and> dn = None then ld_defbinddn ld else dn) of None \<Rightarrow> [] | Some d \<Rightarrow> d)"

definition optional_value :: "u32 option \<Rightarrow> berval option \<Rightarrow> ber_item list" where
  "optional_value t v = (case v of None \<Rightarrow> [] | Some x \<Rightarrow> [IString t (octets_of x)])"

fun operation :: "ldap \<Rightarrow> request \<Rightarrow> ber_item" where
  "operation ld (Add dn attrs) = ISeq (Some LDAP_REQ_ADD) [IString None dn, ISeq None (map (modification_item False) attrs)]"
| "operation ld (Modify dn mods) = ISeq (Some LDAP_REQ_MODIFY) [IString None dn, ISeq None (map (modification_item True) mods)]"
| "operation ld (Delete dn) = IString (Some LDAP_REQ_DELETE) dn"
| "operation ld (Compare dn attr v) = ISeq (Some LDAP_REQ_COMPARE) [IString None dn, ISeq None (IString None attr # optional_value None v)]"
| "operation ld (Rename dn rdn sup' del) = ISeq (Some LDAP_REQ_MODDN) ([IString None dn, IString None rdn, IBool None del]
     @ (case sup' of None \<Rightarrow> [] | Some s \<Rightarrow> [IString (Some LDAP_TAG_NEWSUPERIOR) s]))"
| "operation ld (Extended oid v) = ISeq (Some LDAP_REQ_EXTENDED)
     (IString (Some LDAP_TAG_EXOP_REQ_OID) (the oid) # optional_value (Some LDAP_TAG_EXOP_REQ_VALUE) v)"
| "operation ld (Bind dn mech cred) = ISeq (Some LDAP_REQ_BIND) [IInt None (ld_version ld), IString None (bind_name ld dn mech),
     (case mech of None \<Rightarrow> IString (Some LDAP_AUTH_SIMPLE) (octets_of (the cred))
      | Some m \<Rightarrow> ISeq (Some LDAP_AUTH_SASL) (IString None m # optional_value None (if cred = None \<or> bv_len (the cred) = 0 then None else cred)))]"
| "operation ld (Abandon msgid) = IInt (Some LDAP_REQ_ABANDON) msgid"
| "operation ld Unbind = INull (Some LDAP_REQ_UNBIND)"

definition message :: "ldap \<Rightarrow> request \<Rightarrow> ldapcontrol list option \<Rightarrow> ber_item" where
  "message ld req sctrls = ISeq None ([IInt None (ld_msgid ld), operation ld req] @ control_items ld sctrls)"

definition value_ok :: "berval option \<Rightarrow> bool" where
  "value_ok v \<longleftrightarrow> (case v of None \<Rightarrow> True | Some x \<Rightarrow> value_octets x \<noteq> None)"

fun request_ok :: "ldap \<Rightarrow> request \<Rightarrow> bool" where
  "request_ok ld (Add dn attrs) = list_all (\<lambda>m. modification_values m \<noteq> None) attrs"
| "request_ok ld (Modify dn mods) = list_all (\<lambda>m. modification_values m \<noteq> None) mods"
| "request_ok ld (Delete dn) = True"
| "request_ok ld (Compare dn attr v) = (v \<noteq> None \<and> value_ok v)"
| "request_ok ld (Rename dn rdn sup' del) = (sup' = None \<or> LDAP_VERSION3 \<le> sint (ld_version ld))"
| "request_ok ld (Extended oid v) = (LDAP_VERSION3 \<le> sint (ld_version ld) \<and> oid \<noteq> None \<and> oid \<noteq> Some [] \<and> value_ok v)"
| "request_ok ld (Bind dn mech cred) = (value_ok cred \<and> (if mech = None then cred \<noteq> None else LDAP_VERSION3 \<le> sint (ld_version ld)))"
| "request_ok ld (Abandon msgid) = True"
| "request_ok ld Unbind = True"

lemma next_msgid_simps [simp]:
  "ld_version (next_msgid ld) = ld_version ld" "ld_lberoptions (next_msgid ld) = ld_lberoptions ld"
  "ld_msgid (next_msgid ld) = ld_msgid ld + 1" "control_items (next_msgid ld) sctrls = control_items ld sctrls"
  "controls_ok (next_msgid ld) sctrls = controls_ok ld sctrls" "ld_sctrls (next_msgid ld) = ld_sctrls ld" "bind_name (next_msgid ld) dn mech = bind_name ld dn mech"
  by (simp_all add: next_msgid_def control_items_def server_controls_def controls_ok_def bind_name_def)

lemma with_element_ok: "with_element True ld next = next ld (fresh (ld_lberoptions ld))"
  by (simp add: with_element_def ldap_alloc_ber_with_options_def ber_alloc_t_def fresh_def)

lemma checking_clients_ok:
  "fst (ldap_int_client_controls ld cctrls) = LDAP_SUCCESS \<Longrightarrow> checking_clients ld cctrls next = next ld"
  by (auto simp: checking_clients_def ldap_int_client_controls_def ldap_codes split: option.splits if_splits)

definition writes_request :: "ldap \<Rightarrow> ber_item \<Rightarrow> issued \<times> ldap \<Rightarrow> bool" where
  "writes_request ld x r \<longleftrightarrow> (\<exists>tag dn ber. r = (Issued tag dn ber, ld) \<and> written ber = encoded (ld_lberoptions ld AND LBER_USE_DER \<noteq> 0) x
    \<and> ber_sos ber = [])"

lemma room_message:
  assumes "item_ok x" "bulk x \<le> write_limit" shows "room_for (fresh options) 0 ([], [x])"
  by (rule fresh_room) (use assms in \<open>simp_all add: bulk_building_def\<close>)

lemma finish_request_holds:
  assumes "always_allocates alloc" "holds (fresh (ld_lberoptions ld)) (in_seq xs ([], [])) b" "controls_ok ld sctrls"
    and "room_for (fresh (ld_lberoptions ld)) 0 ([], [ISeq None (xs @ control_items ld sctrls)])"
  shows "\<exists>r. finish_request alloc ld sctrls tag dn b = Some r \<and> writes_request ld (ISeq None (xs @ control_items ld sctrls)) r"
proof -
  let ?st = "([], [ISeq None (xs @ control_items ld sctrls)])" and ?f = "fresh (ld_lberoptions ld)"
  have close: "builds ''N}'' [] None (in_seq (xs @ control_items ld sctrls) ([], [])) = Some ?st" by simp
  have g: "grows (in_seq (xs @ control_items ld sctrls) ([], [])) ?st" by (rule grows_builds [OF close])
  have room: "room_for ?f 0 (add_items (control_items ld sctrls) (in_seq xs ([], [])))"
    by (rule room_grows [OF assms(4)]) (use g in simp_all)
  obtain b1 where b1: "ldap_int_put_controls alloc ld sctrls b = Some (LDAP_SUCCESS, ld, b1)"
      "holds ?f (in_seq (xs @ control_items ld sctrls) ([], [])) b1"
    using put_controls_holds [OF assms(1-3) room] by auto
  have "\<exists>r. printf_or (encoding_failed ld) (ber_printf alloc b1 ''N}'' []) (\<lambda>ber2. Some (Issued tag dn ber2, ld)) = Some r
      \<and> writes_request ld (ISeq None (xs @ control_items ld sctrls)) r"
    by (rule printf_or_holds [OF assms(1) b1(2) close _ assms(4)])
      (auto simp: grows_def writes_request_def dest!: written_fresh)
  then show ?thesis using b1(1) by (simp add: finish_request_def)
qed

lemma one_call_request:
  assumes "always_allocates alloc" "controls_ok ld sctrls" "item_ok (ISeq None ([x, y] @ control_items ld sctrls))"
    and "bulk (ISeq None ([x, y] @ control_items ld sctrls)) \<le> write_limit"
    and "builds fmt args None ([], []) = Some (in_seq [x, y] ([], []))" "openers fmt \<le> 113"
  shows "\<exists>r. printf_or bad (ber_printf alloc (fresh (ld_lberoptions ld)) fmt args) (finish_request alloc ld sctrls tag dn) = Some r
    \<and> writes_request ld (ISeq None ([x, y] @ control_items ld sctrls)) r"
proof -
  note room = room_message [OF assms(3,4), of "ld_lberoptions ld"]
  show ?thesis
  proof (rule printf_or_holds [OF assms(1) holds_fresh assms(5) _ room])
    show "grows (in_seq [x, y] ([], [])) ([], [ISeq None ([x, y] @ control_items ld sctrls)])"
      using grows_trans [OF grows_in_seq [of "[x, y]" "([], [])" "control_items ld sctrls"] grows_close] by simp
  qed (use assms(6) finish_request_holds [OF assms(1) _ assms(2) room] in simp_all)
qed

lemma items_ok:
  "list_all item_ok (map control_item cs)" "list_all item_ok (map (modification_item modify) ms)"
  "list_all item_ok (control_items ld sctrls)" "t = None \<or> tag_ok t \<Longrightarrow> list_all item_ok (optional_value t v)"
proof -
  have "item_ok (attribute_item m)" for m by (simp add: attribute_item_def list_all_iff)
  then show "list_all item_ok (map (modification_item modify) ms)" by (simp add: modification_item_def list_all_iff)
  show "list_all item_ok (map control_item cs)" for cs by (auto simp: control_item_def list_all_iff)
  then show "list_all item_ok (control_items ld sctrls)" by (simp add: control_items_def context_tags)
  show "t = None \<or> tag_ok t \<Longrightarrow> list_all item_ok (optional_value t v)" by (auto simp: optional_value_def split: option.splits)
qed

lemma message_ok: "item_ok (message ld req sctrls)"
proof -
  have "item_ok (operation ld req)"
    by (cases req) (auto simp: items_ok context_tags split: option.splits)
  then show ?thesis by (simp add: message_def items_ok)
qed

lemma modifications_request:
  assumes "always_allocates alloc" "controls_ok ld sctrls" "list_all (\<lambda>m. modification_values m \<noteq> None) ms"
    and "x = ISeq (Some tag) [IString None dn, ISeq None (map (modification_item modify) ms)]"
    and "item_ok (ISeq None ([IInt None (ld_msgid ld), x] @ control_items ld sctrls))"
    and "bulk (ISeq None ([IInt None (ld_msgid ld), x] @ control_items ld sctrls)) \<le> write_limit"
  shows "\<exists>r. printf_or bad (ber_printf alloc (fresh (ld_lberoptions ld)) ''{it{s{'' [PInt (ld_msgid ld), PTag tag, PStr dn]) (\<lambda>ber1.
      printf_or bad (put_modifications alloc modify ms ber1) (\<lambda>ber2.
      printf_or bad (ber_printf alloc ber2 ''N}N}'' []) (\<lambda>ber3.
      finish_request alloc ld sctrls msgtype (Some dn) ber3))) = Some r
    \<and> writes_request ld (ISeq None ([IInt None (ld_msgid ld), x] @ control_items ld sctrls)) r"
proof -
  let ?f = "fresh (ld_lberoptions ld)" and ?id = "IInt None (ld_msgid ld)" and ?items = "map (modification_item modify) ms"
  let ?open = "\<lambda>xs. ([(Opens_seq, None, xs), (Opens_seq, Some tag, [IString None dn]), (Opens_seq, None, [?id])], [])"
  let ?fin = "([], [ISeq None ([?id, x] @ control_items ld sctrls)])"
  note room = room_message [OF assms(5,6), of "ld_lberoptions ld"]
  have close: "builds ''N}N}'' [] None (?open ?items) = Some (in_seq [?id, x] ([], []))" by (simp add: assms(4))
  have g: "grows (in_seq [?id, x] ([], [])) ?fin"
    using grows_trans [OF grows_in_seq [of "[?id, x]" "([], [])" "control_items ld sctrls"] grows_close] by simp
  have g1: "grows (?open ?items) ?fin" by (rule grows_trans [OF grows_builds [OF close] g])
  have g0: "grows (?open []) ?fin" using grows_trans [OF _ g1] grows_add [of "?open []" ?items] by simp
  show ?thesis
  proof (rule printf_or_holds [OF assms(1) holds_fresh _ g0 room])
    fix b1 assume "holds ?f (?open []) b1"
    then obtain b2 where b2: "put_modifications alloc modify ms b1 = Some (0, b2)" "holds ?f (?open ?items) b2"
      using put_modifications_holds [OF assms(1) _ assms(3) _ room, of "?open []" b1 modify] g1 by auto
    have "\<exists>r. printf_or bad (ber_printf alloc b2 ''N}N}'' []) (\<lambda>ber3. finish_request alloc ld sctrls msgtype (Some dn) ber3) = Some r
      \<and> writes_request ld (ISeq None ([?id, x] @ control_items ld sctrls)) r"
      by (rule printf_or_holds [OF assms(1) b2(2) close g room])
        (use finish_request_holds [OF assms(1) _ assms(2) room] in simp_all)
    then show "\<exists>r. printf_or bad (put_modifications alloc modify ms b1) (\<lambda>ber2.
      printf_or bad (ber_printf alloc ber2 ''N}N}'' []) (\<lambda>ber3.
      finish_request alloc ld sctrls msgtype (Some dn) ber3)) = Some r
      \<and> writes_request ld (ISeq None ([?id, x] @ control_items ld sctrls)) r"
      by (simp add: b2(1) printf_or_Some)
  qed (simp_all add: primitive_def open_group_def)
qed

section \<open>Each request\<close>

lemma printf_neg_holds:
  assumes "always_allocates alloc" "holds b0 st b" "builds fmt args None st = Some st1" "grows st1 st'" "room_for b0 0 st'"
    and "length (ber_sos b0) + length (fst st) + openers fmt \<le> 113" "length (ber_sos b0) + length (fst st1) \<le> 113"
    and "\<And>b1. holds b0 st1 b1 \<Longrightarrow> \<exists>r. next b1 = Some r \<and> P r"
  shows "\<exists>r. printf_neg bad (ber_printf alloc b fmt args) next = Some r \<and> P r"
proof -
  obtain rc b1 where "ber_printf alloc b fmt args = Some (rc, b1)" "0 \<le> rc" "holds b0 st1 b1"
    using printf_holds [OF assms(1-3) room_grows [OF assms(5,4,7)] assms(6)] by blast
  then show ?thesis using assms(8) [of b1] by (simp add: printf_neg_def)
qed

definition request_written :: "ldap \<Rightarrow> request \<Rightarrow> ldapcontrol list option \<Rightarrow> request_result \<Rightarrow> bool" where
  "request_written ld req sctrls m \<longleftrightarrow> (\<exists>r. m = Some r \<and> writes_request (next_msgid ld) (message (next_msgid ld) req sctrls) r)"

lemma one_call_written:
  assumes "always_allocates alloc" "controls_ok ld sctrls" "bulk (message (next_msgid ld) req sctrls) \<le> write_limit"
    and "builds fmt args None ([], []) = Some (in_seq [IInt None (ld_msgid ld + 1), operation (next_msgid ld) req] ([], []))"
    and "openers fmt \<le> 113"
  shows "request_written ld req sctrls
    (printf_or bad (ber_printf alloc (fresh (ld_lberoptions ld)) fmt args) (finish_request alloc (next_msgid ld) sctrls tag dn))"
  using one_call_request [OF assms(1), of "next_msgid ld" sctrls _ _ fmt args bad tag dn] assms(2-5)
    message_ok [of "next_msgid ld" req sctrls]
  unfolding request_written_def message_def by simp

lemma rename_written:
  assumes "always_allocates alloc" "controls_ok ld sctrls" "bulk (message (next_msgid ld) req sctrls) \<le> write_limit"
    and "builds fmt args None ([], []) = Some (in_seq [IInt None (ld_msgid ld + 1), operation (next_msgid ld) req] ([], []))"
    and "openers fmt \<le> 113"
  shows "request_written ld req sctrls
    (printf_neg (encoding_failed (next_msgid ld)) (ber_printf alloc (fresh (ld_lberoptions ld)) fmt args) (\<lambda>ber1.
      case ldap_int_put_controls alloc (next_msgid ld) sctrls ber1 of None \<Rightarrow> None
      | Some (rc, ld4, ber2) \<Rightarrow>
         (if rc \<noteq> LDAP_SUCCESS then Some (Refused (ld_errno ld4), ld4)
          else printf_neg (encoding_failed ld4) (ber_printf alloc ber2 ''N}'' []) (\<lambda>ber3. Some (Issued tag dn ber3, ld4)))))"
proof -
  let ?ld = "next_msgid ld" and ?f = "fresh (ld_lberoptions ld)"
  let ?xs = "[IInt None (ld_msgid ld + 1), operation (next_msgid ld) req]" and ?cs = "control_items ld sctrls"
  let ?st = "([], [ISeq None (?xs @ ?cs)])"
  have m: "message ?ld req sctrls = ISeq None (?xs @ ?cs)" by (simp add: message_def)
  note room = room_message [OF message_ok assms(3), of "ld_lberoptions ld", unfolded m]
  have close: "builds ''N}'' [] None (in_seq (?xs @ ?cs) ([], [])) = Some ?st" by simp
  have g: "grows (in_seq (?xs @ ?cs) ([], [])) ?st" by (rule grows_builds [OF close])
  have g0: "grows (in_seq ?xs ([], [])) ?st" by (rule grows_trans [OF grows_in_seq g])
  have room1: "room_for ?f 0 (add_items (control_items ?ld sctrls) (in_seq ?xs ([], [])))"
    by (rule room_grows [OF room]) (use g in simp_all)
  show ?thesis
    unfolding request_written_def
  proof (rule printf_neg_holds [OF assms(1) holds_fresh assms(4) g0 room])
    fix b1 assume "holds ?f (in_seq ?xs ([], [])) b1"
    then obtain b2 where b2: "ldap_int_put_controls alloc ?ld sctrls b1 = Some (LDAP_SUCCESS, ?ld, b2)" "holds ?f (in_seq (?xs @ ?cs) ([], [])) b2"
      using put_controls_holds [OF assms(1) _ _ room1] assms(2) by auto
    have "\<exists>r. printf_neg (encoding_failed ?ld) (ber_printf alloc b2 ''N}'' []) (\<lambda>ber3. Some (Issued tag dn ber3, ?ld)) = Some r
        \<and> writes_request ?ld (message ?ld req sctrls) r"
      by (rule printf_neg_holds [OF assms(1) b2(2) close _ room]) (auto simp: grows_def writes_request_def m dest!: written_fresh)
    then show "\<exists>r. (case ldap_int_put_controls alloc ?ld sctrls b1 of None \<Rightarrow> None
      | Some (rc, ld4, ber2) \<Rightarrow>
         (if rc \<noteq> LDAP_SUCCESS then Some (Refused (ld_errno ld4), ld4)
          else printf_neg (encoding_failed ld4) (ber_printf alloc ber2 ''N}'' []) (\<lambda>ber3. Some (Issued tag dn ber3, ld4)))) = Some r
      \<and> writes_request ?ld (message ?ld req sctrls) r"
      by (simp add: b2(1))
  qed (use assms(5) in simp_all)
qed

lemma request_messages:
  assumes "always_allocates alloc" "request_ok ld req" "controls_ok ld sctrls" "fst (ldap_int_client_controls ld cctrls) = LDAP_SUCCESS"
    and "bulk (message (next_msgid ld) req sctrls) \<le> write_limit"
  shows "request_written ld req sctrls (issue alloc True ld req sctrls cctrls)"
proof -
  note ok = checking_clients_ok [OF assms(4)] with_element_ok
  note one = one_call_written [OF assms(1,3,5)]
  have vals: "value_ok v \<Longrightarrow> v = Some x \<Longrightarrow> value_octets x = Some (octets_of x)" for v x
    by (auto simp: value_ok_def octets_of_def)
  show ?thesis
  proof (cases req)
    case (Add dn ms)
    have "request_written ld req sctrls (issue alloc True ld req sctrls cctrls)"
      using modifications_request [OF assms(1), of "next_msgid ld" sctrls ms _ LDAP_REQ_ADD dn False
          "encoding_failed (next_msgid ld)" LDAP_REQ_ADD] assms(2,3,5) message_ok [of "next_msgid ld" req sctrls] Add
      unfolding request_written_def message_def by (simp add: ldap_add_ext_def ok Let_def)
    then show ?thesis .
  next
    case (Modify dn ms)
    show ?thesis
      using modifications_request [OF assms(1), of "next_msgid ld" sctrls ms _ LDAP_REQ_MODIFY dn True
          "encoding_failed (next_msgid ld)" LDAP_REQ_MODIFY] assms(2,3,5) message_ok [of "next_msgid ld" req sctrls] Modify
      unfolding request_written_def message_def by (simp add: ldap_modify_ext_def ok Let_def)
  next
    case (Delete dn)
    show ?thesis
      unfolding Delete issue.simps ldap_delete_ext_def ok Let_def
      by (rule one [unfolded Delete]) (simp_all add: primitive_def open_group_def)
  next
    case (Compare dn attr v)
    then obtain x where x: "v = Some x" "value_octets x = Some (octets_of x)" using assms(2) vals by auto
    show ?thesis
      unfolding Compare issue.simps ldap_compare_ext_def ok Let_def
      by (rule one [unfolded Compare]) (simp_all add: primitive_def open_group_def x optional_value_def)
  next
    case (Rename dn rdn sup' del)
    then have v: "\<not> (sup' \<noteq> None \<and> sint (ld_version ld) < LDAP_VERSION3)" using assms(2) by auto
    note w = rename_written [OF assms(1,3,5), unfolded Rename, of _ _ LDAP_REQ_MODDN "Some dn"]
    let ?args = "[PInt (ld_msgid (next_msgid ld)), PTag LDAP_REQ_MODDN, PStr dn, PStr rdn, PInt del]"
    have one_call: "(case sup' of
           Some superior \<Rightarrow> ber_printf alloc b ''{it{ssbtsN}''
             [PInt (ld_msgid (next_msgid ld)), PTag LDAP_REQ_MODDN, PStr dn, PStr rdn, PInt del, PTag LDAP_TAG_NEWSUPERIOR, PStr superior]
         | None \<Rightarrow> ber_printf alloc b ''{it{ssbN}'' ?args)
      = ber_printf alloc b (case sup' of Some _ \<Rightarrow> ''{it{ssbtsN}'' | None \<Rightarrow> ''{it{ssbN}'')
          (?args @ (case sup' of Some superior \<Rightarrow> [PTag LDAP_TAG_NEWSUPERIOR, PStr superior] | None \<Rightarrow> []))" for b
      by (cases sup') simp_all
    show ?thesis
      unfolding Rename issue.simps ldap_rename_def ok Let_def if_not_P [OF v] one_call
      by (rule w) (cases sup'; simp add: primitive_def open_group_def)+
  next
    case (Extended oid v)
    then obtain o' where o': "oid = Some o'" "o' \<noteq> []" "\<not> sint (ld_version ld) < LDAP_VERSION3" "value_ok v" using assms(2) by auto
    have one_call: "(if v \<noteq> None then ber_printf alloc b ''{it{tstON}'' (xs @ [PTag LDAP_TAG_EXOP_REQ_VALUE, PBerval v])
        else ber_printf alloc b ''{it{tsN}'' xs)
      = ber_printf alloc b (if v \<noteq> None then ''{it{tstON}'' else ''{it{tsN}'') (xs @ (if v \<noteq> None then [PTag LDAP_TAG_EXOP_REQ_VALUE, PBerval v] else []))"
      for b xs by simp
    show ?thesis
      unfolding Extended issue.simps ldap_extended_operation_def o'(1) option.case if_not_P [OF o'(3)] if_not_P [OF o'(2)] ok Let_def
        one_call [of _ "[PInt (ld_msgid (next_msgid ld)), PTag LDAP_REQ_EXTENDED, PTag LDAP_TAG_EXOP_REQ_OID, PStr o']", unfolded append.simps]
      by (rule one [unfolded Extended o'(1)])
        (use vals [OF o'(4)] in \<open>cases v; simp add: primitive_def open_group_def optional_value_def\<close>)+
  next
    case (Bind dn mech cred)
    have v: "\<not> (mech \<noteq> None \<and> sint (ld_version ld) < LDAP_VERSION3)" "mech = None \<Longrightarrow> cred \<noteq> None" "value_ok cred"
      using assms(2) Bind by (auto split: if_splits)
    have name: "(case (if mech = None \<and> dn = None \<and> cred \<noteq> None then ld_defbinddn ld else dn) of None \<Rightarrow> [] | Some d \<Rightarrow> d)
        = bind_name ld dn mech" using v(2) by (auto simp: bind_name_def)
    note defs = Bind issue.simps ldap_sasl_bind_def ok Let_def if_not_P [OF v(1)] name
    show ?thesis
    proof (cases mech)
      case None
      then obtain x where x: "cred = Some x" "value_octets x = Some (octets_of x)" using v vals by auto
      show ?thesis
        unfolding defs unfolding None option.case
        by (rule one [unfolded Bind None]) (simp_all add: primitive_def open_group_def x)
    next
      case (Some m)
      show ?thesis
      proof (cases "cred = None \<or> bv_len (the cred) = 0")
        case True
        show ?thesis
          unfolding defs unfolding Some option.case if_P [OF True]
          by (rule one [unfolded Bind Some]) (use True in \<open>simp_all add: primitive_def open_group_def optional_value_def\<close>)
      next
        case False
        then obtain x where x: "cred = Some x" "value_octets x = Some (octets_of x)" using v vals by auto
        show ?thesis
          unfolding defs unfolding Some option.case if_not_P [OF False]
          by (rule one [unfolded Bind Some]) (use False x in \<open>simp_all add: primitive_def open_group_def optional_value_def\<close>)
      qed
    qed
  next
    case (Abandon msgid)
    show ?thesis
      unfolding Abandon issue.simps abandon_message_def ok Let_def
      by (rule one [unfolded Abandon]) (simp_all add: primitive_def open_group_def)
  next
    case Unbind
    show ?thesis
      unfolding Unbind issue.simps ldap_send_unbind_def ok Let_def
      by (rule one [unfolded Unbind]) (simp_all add: primitive_def open_group_def)
  qed
qed

text \<open>
  C3: every request function, given values it can encode and controls the protocol version allows, takes the
  next message number and hands on one element that holds exactly the LDAP message of RFC 2251 for the
  request, its number and the controls, in the form of length the handle's options ask for.
\<close>

theorem requests_write_messages:
  assumes "always_allocates alloc" "request_ok ld req" "controls_ok ld sctrls" "fst (ldap_int_client_controls ld cctrls) = LDAP_SUCCESS"
    and "bulk (message (next_msgid ld) req sctrls) \<le> write_limit"
  shows "\<exists>tag dn ber. issue alloc True ld req sctrls cctrls = Some (Issued tag dn ber, next_msgid ld)
    \<and> written ber = encoded (ld_lberoptions ld AND LBER_USE_DER \<noteq> 0) (message (next_msgid ld) req sctrls)"
  using request_messages [OF assms] by (auto simp: request_written_def writes_request_def)

definition demo_ldap :: ldap where
  "demo_ldap = \<lparr>ld_version = 3, ld_lberoptions = LBER_USE_DER, ld_errno = 0, ld_error = None, ld_matched = None, ld_msgid = 6,
    ld_deref = 0, ld_sizelimit = 0, ld_timelimit = 0, ld_defbinddn = None, ld_defbase = None, ld_sctrls = None, ld_cctrls = None\<rparr>"

definition demo_control :: ldapcontrol where
  "demo_control = \<lparr>ldctl_oid = Some [0x31, 0x2e, 0x32], ldctl_value = \<lparr>bv_len = 1, bv_val = Some [7]\<rparr>, ldctl_iscritical = 1\<rparr>"

definition demo_modify :: request where
  "demo_modify = Modify [0x63, 0x6e] [\<lparr>mod_op = 2, mod_type = [0x73, 0x6e], mod_vals = Modv_strvals (Some [[0x61], [0x62]])\<rparr>,
    \<lparr>mod_op = 0x81, mod_type = [0x6c], mod_vals = Modv_bvals None\<rparr>]"

theorem requests_write_messages_witness:
  "\<exists>tag dn ber. issue ready_alloc True demo_ldap demo_modify (Some [demo_control]) None = Some (Issued tag dn ber, next_msgid demo_ldap)
    \<and> written ber = encoded True (ISeq None [IInt None 7,
        ISeq (Some 0x66) [IString None [0x63, 0x6e], ISeq None
          [ISeq None [IEnum None 2, ISeq None [IString None [0x73, 0x6e], ISet None [IString None [0x61], IString None [0x62]]]],
           ISeq None [IEnum None 1, ISeq None [IString None [0x6c], ISet None []]]]],
        ISeq (Some 0xa0) [ISeq None [IString None [0x31, 0x2e, 0x32], IBool None 1, IString None [7]]]])"
proof -
  have m: "message (next_msgid demo_ldap) demo_modify (Some [demo_control]) = ISeq None [IInt None 7,
        ISeq (Some 0x66) [IString None [0x63, 0x6e], ISeq None
          [ISeq None [IEnum None 2, ISeq None [IString None [0x73, 0x6e], ISet None [IString None [0x61], IString None [0x62]]]],
           ISeq None [IEnum None 1, ISeq None [IString None [0x6c], ISet None []]]]],
        ISeq (Some 0xa0) [ISeq None [IString None [0x31, 0x2e, 0x32], IBool None 1, IString None [7]]]]"
    by (simp add: message_def demo_modify_def demo_control_def demo_ldap_def control_items_def server_controls_def control_item_def
        modification_item_def attribute_item_def modification_values_def LDAP_MOD_BVALUES_def is_critical_def octets_of_def
        value_octets_def ldap_codes ldap_tags)
  have "request_ok demo_ldap demo_modify" "controls_ok demo_ldap (Some [demo_control])"
    by (simp_all add: demo_modify_def modification_values_def LDAP_MOD_BVALUES_def controls_ok_def control_ok_def server_controls_def
        demo_control_def demo_ldap_def value_octets_def ldap_codes)
  moreover have "fst (ldap_int_client_controls demo_ldap None) = LDAP_SUCCESS"
    by (simp add: ldap_int_client_controls_def demo_ldap_def)
  moreover have "ld_lberoptions demo_ldap AND LBER_USE_DER \<noteq> 0" by (simp add: demo_ldap_def LBER_USE_DER_def)
  ultimately show ?thesis
    using requests_write_messages [OF ready_alloc, of demo_ldap demo_modify "Some [demo_control]" None]
    by (simp add: m write_limit_def)
qed

section \<open>Controls that cannot be sent\<close>

definition refused :: "request_result \<Rightarrow> bool" where
  "refused m \<longleftrightarrow> (\<forall>r ld'. m = Some (r, ld') \<longrightarrow> (\<exists>code. r = Refused code \<and> code \<noteq> LDAP_SUCCESS))"

lemma refused_simps:
  "refused (encoding_failed ld b)" "refused None" "refused (Some (Refused code, ld)) = (code \<noteq> LDAP_SUCCESS)"
  by (simp_all add: refused_def encoding_failed_def ldap_codes)

lemma refused_calls:
  "(\<And>b. refused (bad b)) \<Longrightarrow> (\<And>b. refused (next b)) \<Longrightarrow> refused (printf_or bad m next)"
  "(\<And>b. refused (bad b)) \<Longrightarrow> (\<And>b. refused (next b)) \<Longrightarrow> refused (printf_neg bad m next)"
  by (auto simp: printf_or_def printf_neg_def refused_simps split: option.splits prod.splits)

lemma refused_start:
  "(\<And>ld'. ld_version ld' = ld_version ld \<Longrightarrow> ld_sctrls ld' = ld_sctrls ld \<Longrightarrow> refused (next ld')) \<Longrightarrow> refused (checking_clients ld cctrls next)"
  "(\<And>b. refused (next' ld b)) \<Longrightarrow> refused (with_element calloc_ok ld next')"
  by (auto simp: checking_clients_def ldap_int_client_controls_def with_element_def ldap_alloc_ber_with_options_def ldap_codes
      refused_simps set_errno_def split: option.splits)

lemma put_critical_controls:
  assumes "sint (ld_version ld) < LDAP_VERSION3" "list_ex is_critical (server_controls ld sctrls)"
  shows "ldap_int_put_controls alloc ld sctrls ber = Some (LDAP_NOT_SUPPORTED, set_errno LDAP_NOT_SUPPORTED ld, ber)"
  using assms by (cases sctrls; cases "ld_sctrls ld") (auto simp: ldap_int_put_controls_def server_controls_def Let_def)

lemma refused_finish:
  assumes "sint (ld_version ld) < LDAP_VERSION3" "list_ex is_critical (server_controls ld sctrls)"
  shows "refused (finish_request alloc ld sctrls tag dn ber)"
  using put_critical_controls [OF assms] by (simp add: finish_request_def refused_simps ldap_codes set_errno_def)

lemma critical_controls_stop:
  assumes "sint (ld_version ld) < LDAP_VERSION3" "list_ex is_critical (server_controls ld sctrls)"
  shows "refused (issue alloc calloc_ok ld req sctrls cctrls)"
proof -
  have fin: "refused (finish_request alloc (next_msgid ld') sctrls tag dn b)"
    and put: "ldap_int_put_controls alloc (next_msgid ld') sctrls b
      = Some (LDAP_NOT_SUPPORTED, set_errno LDAP_NOT_SUPPORTED (next_msgid ld'), b)"
    if "ld_version ld' = ld_version ld" "ld_sctrls ld' = ld_sctrls ld" for ld' tag dn b
  proof -
    have "server_controls (next_msgid ld') sctrls = server_controls ld sctrls" by (simp only: server_controls_def next_msgid_simps that)
    then show "refused (finish_request alloc (next_msgid ld') sctrls tag dn b)"
      "ldap_int_put_controls alloc (next_msgid ld') sctrls b
        = Some (LDAP_NOT_SUPPORTED, set_errno LDAP_NOT_SUPPORTED (next_msgid ld'), b)"
      using refused_finish [of "next_msgid ld'" sctrls] put_critical_controls [of "next_msgid ld'" sctrls] assms(1,2) that by simp_all
  qed
  show ?thesis
    by (cases req) (auto simp: ldap_add_ext_def ldap_modify_ext_def ldap_delete_ext_def ldap_compare_ext_def ldap_rename_def
        ldap_extended_operation_def ldap_sasl_bind_def abandon_message_def ldap_send_unbind_def refused_simps Let_def ldap_codes(1,2,5,7)
        put set_errno_def intro!: refused_start refused_calls fin split: option.split)
qed

text \<open>The client controls of a call: those given, or else those of the handle.  Three of the functions are not handed any that they look at.\<close>

definition client_controls :: "ldap \<Rightarrow> ldapcontrol list option \<Rightarrow> ldapcontrol list" where
  "client_controls ld cctrls = (case (if cctrls = None then ld_cctrls ld else cctrls) of None \<Rightarrow> [] | Some cs \<Rightarrow> cs)"

fun checks_clients :: "request \<Rightarrow> bool" where
  "checks_clients (Extended oid v) = False"
| "checks_clients (Abandon msgid) = False"
| "checks_clients Unbind = False"
| "checks_clients _ = True"

lemma critical_clients_stop: "list_ex is_critical (client_controls ld cctrls) \<Longrightarrow> refused (checking_clients ld cctrls next)"
  by (cases cctrls; cases "ld_cctrls ld") (auto simp: client_controls_def checking_clients_def ldap_int_client_controls_def refused_simps ldap_codes)

lemma critical_clients_stop_requests:
  "list_ex is_critical (client_controls ld cctrls) \<Longrightarrow> checks_clients req \<Longrightarrow> refused (issue alloc calloc_ok ld req sctrls cctrls)"
  by (cases req) (simp_all add: ldap_add_ext_def ldap_modify_ext_def ldap_delete_ext_def ldap_compare_ext_def ldap_rename_def
      ldap_sasl_bind_def critical_clients_stop)

end
