(* ===== verification/Ldap_Filter_Facts.thy ===== *)
theory Ldap_Filter_Facts imports Ldap_Filter Ldap_Requests_Facts begin

text \<open>
  What the filter encoder does with a filter written as RFC 2254 says: the abstract filter, its string, its
  item of RFC 2251, and the proof that \<open>put_filter\<close> takes the one to the other.
\<close>

section \<open>Escaping\<close>

definition hex_digit :: "u8 \<Rightarrow> u8" where
  "hex_digit n = (if n < 10 then 0x30 + n else 0x61 + (n - 10))"

definition escape_octet :: "u8 \<Rightarrow> octets" where
  "escape_octet c = (if c = star \<or> c = lparen \<or> c = rparen \<or> c = backslash \<or> c = 0
     then [backslash, hex_digit (c div 16), hex_digit (c mod 16)] else [c])"

definition escape_value :: "octets \<Rightarrow> octets" where
  "escape_value v = concat (map escape_octet v)"

lemma escape_value_simps [simp]: "escape_value [] = []" "escape_value (c # v) = escape_octet c @ escape_value v"
  by (simp_all add: escape_value_def)

text \<open>An octet is written as itself or as a pair of digits that are read back as the octet.\<close>

lemma escape_octet_cases:
  obtains (plain) "escape_octet c = [c]" "c \<noteq> star" "c \<noteq> lparen" "c \<noteq> rparen" "c \<noteq> backslash" "c \<noteq> 0"
  | (coded) d e v1 v2 where "escape_octet c = [backslash, d, e]" "hex2value d = Some v1" "hex2value e = Some v2" "v1 * 16 + v2 = c"
      "d \<noteq> lparen" "d \<noteq> rparen" "d \<noteq> backslash" "d \<noteq> star" "d \<noteq> 0" "e \<noteq> lparen" "e \<noteq> rparen" "e \<noteq> backslash" "e \<noteq> star" "e \<noteq> 0"
proof (cases "c = star \<or> c = lparen \<or> c = rparen \<or> c = backslash \<or> c = 0")
  case True
  define d e where "d = hex_digit (c div 16)" and "e = hex_digit (c mod 16)"
  have "escape_octet c = [backslash, d, e]" using True by (auto simp: escape_octet_def d_def e_def)
  moreover have "\<exists>v1 v2. hex2value d = Some v1 \<and> hex2value e = Some v2 \<and> v1 * 16 + v2 = c"
    "d \<noteq> lparen \<and> d \<noteq> rparen \<and> d \<noteq> backslash \<and> d \<noteq> star \<and> d \<noteq> 0 \<and> e \<noteq> lparen \<and> e \<noteq> rparen \<and> e \<noteq> backslash \<and> e \<noteq> star \<and> e \<noteq> 0"
    using True unfolding d_def e_def by (elim disjE; simp add: hex_digit_def hex2value_def digit_def; code_simp)+
  ultimately show thesis using coded by blast
qed (auto simp: escape_octet_def intro: plain)

lemma unescape_value: "ldap_pvt_filter_value_unescape (escape_value v) = Some v"
proof (induction v)
  case (Cons c v)
  then show ?case by (cases c rule: escape_octet_cases) auto
qed simp

lemma wildcard_escape: "ldap_pvt_find_wildcard (escape_value v @ s) = map_option ((+) (length (escape_value v))) (ldap_pvt_find_wildcard s)"
proof (induction v)
  case Nil
  then show ?case by (cases "ldap_pvt_find_wildcard s") simp_all
next
  case (Cons c v)
  then show ?case
    by (cases c rule: escape_octet_cases; cases "ldap_pvt_find_wildcard s") auto
qed

lemma wildcard_escape_end: "ldap_pvt_find_wildcard (escape_value v) = None"
  using wildcard_escape [of v "[]"] by simp

lemma wildcard_escape_star: "ldap_pvt_find_wildcard (escape_value v @ star # s) = Some (length (escape_value v))"
  using wildcard_escape [of v "star # s"] by simp

lemma escape_Nil [simp]: "escape_value v = [] \<longleftrightarrow> v = []"
proof (cases v)
  case (Cons c v')
  then show ?thesis by (cases c rule: escape_octet_cases) auto
qed simp

section \<open>Balanced strings\<close>

definition neutral :: "octets \<Rightarrow> bool" where
  "neutral w \<longleftrightarrow> (\<forall>b rest. 0 < b \<longrightarrow> right_paren b False (w @ rest) = map_option ((+) (length w)) (right_paren b False rest))"

lemma map_plus_0 [simp]: "map_option ((+) (0 :: nat)) x = x"
  by (cases x) simp_all

lemma neutral_Nil [simp]: "neutral []"
  by (simp add: neutral_def)

lemma neutral_append: "neutral v \<Longrightarrow> neutral w \<Longrightarrow> neutral (v @ w)"
  by (auto simp: neutral_def option.map_comp comp_def add.assoc intro!: option.map_cong)

lemma neutral_plain: "c \<noteq> lparen \<Longrightarrow> c \<noteq> rparen \<Longrightarrow> c \<noteq> backslash \<Longrightarrow> neutral [c]"
  by (auto simp: neutral_def intro!: option.map_cong)

lemma neutral_Cons: "c \<noteq> lparen \<Longrightarrow> c \<noteq> rparen \<Longrightarrow> c \<noteq> backslash \<Longrightarrow> neutral w \<Longrightarrow> neutral (c # w)"
  using neutral_append [OF neutral_plain] by simp

lemma neutral_escaped: "d \<noteq> backslash \<Longrightarrow> neutral [backslash, d]"
  by (auto simp: neutral_def option.map_comp comp_def intro!: option.map_cong)

lemma neutral_escape: "neutral (escape_value v)"
proof (induction v)
  case (Cons c v)
  have "neutral (escape_octet c)"
    using neutral_append [OF neutral_escaped neutral_plain] neutral_plain by (cases c rule: escape_octet_cases) auto
  then show ?case using Cons neutral_append by simp
qed simp

lemma neutral_parens: "neutral w \<Longrightarrow> neutral (lparen # w @ [rparen])"
  by (auto simp: neutral_def option.map_comp comp_def Let_def intro!: option.map_cong)

lemma neutral_plain_list: "list_all (\<lambda>c. c \<noteq> lparen \<and> c \<noteq> rparen \<and> c \<noteq> backslash) w \<Longrightarrow> neutral w"
  by (induction w) (auto intro: neutral_Cons)

lemma neutral_concat: "list_all neutral ws \<Longrightarrow> neutral (concat ws)"
  by (induction ws) (auto intro: neutral_append)

lemma find_right_paren_neutral: "neutral w \<Longrightarrow> find_right_paren (w @ rparen # rest) = Some (length w)"
  by (auto simp: find_right_paren_def neutral_def)

section \<open>Filters and their strings\<close>

text \<open>
  Substrings carry the initial part, the parts in between and the final one, empty where there is none; an
  extensible match the type (empty for none), the rule, whether DN attributes count and the value.
\<close>

datatype search_filter =
    F_and "search_filter list"
  | F_or "search_filter list"
  | F_not search_filter
  | F_equal octets octets
  | F_greater octets octets
  | F_less octets octets
  | F_approx octets octets
  | F_present octets
  | F_substrings octets octets "octets list" octets
  | F_extensible octets "octets option" bool octets

fun filter_body :: "search_filter \<Rightarrow> octets" where
  "filter_body (F_and fs) = 0x26 # concat (map (\<lambda>f. lparen # filter_body f @ [rparen]) fs)"
| "filter_body (F_or fs) = 0x7c # concat (map (\<lambda>f. lparen # filter_body f @ [rparen]) fs)"
| "filter_body (F_not f) = 0x21 # lparen # filter_body f @ [rparen]"
| "filter_body (F_equal a v) = a @ equals # escape_value v"
| "filter_body (F_greater a v) = a @ [0x3e, equals] @ escape_value v"
| "filter_body (F_less a v) = a @ [0x3c, equals] @ escape_value v"
| "filter_body (F_approx a v) = a @ [0x7e, equals] @ escape_value v"
| "filter_body (F_present a) = a @ [equals, star]"
| "filter_body (F_substrings a i ms f) = a @ equals # escape_value i @ star # concat (map (\<lambda>m. escape_value m @ [star]) ms) @ escape_value f"
| "filter_body (F_extensible t r dn v) = t @ (if dn then [colon, 0x64, 0x6e] else [])
     @ (case r of None \<Rightarrow> [] | Some x \<Rightarrow> colon # x) @ [colon, equals] @ escape_value v"

definition filter_text :: "search_filter \<Rightarrow> octets" where
  "filter_text f = lparen # filter_body f @ [rparen]"

definition piece :: "u32 \<Rightarrow> octets \<Rightarrow> ber_item list" where
  "piece t s = (if s = [] then [] else [IString (Some t) s])"

fun filter_item :: "search_filter \<Rightarrow> ber_item" where
  "filter_item (F_and fs) = ISeq (Some LDAP_FILTER_AND) (map filter_item fs)"
| "filter_item (F_or fs) = ISeq (Some LDAP_FILTER_OR) (map filter_item fs)"
| "filter_item (F_not f) = ISeq (Some LDAP_FILTER_NOT) [filter_item f]"
| "filter_item (F_equal a v) = ISeq (Some LDAP_FILTER_EQUALITY) [IString None a, IString None v]"
| "filter_item (F_greater a v) = ISeq (Some LDAP_FILTER_GE) [IString None a, IString None v]"
| "filter_item (F_less a v) = ISeq (Some LDAP_FILTER_LE) [IString None a, IString None v]"
| "filter_item (F_approx a v) = ISeq (Some LDAP_FILTER_APPROX) [IString None a, IString None v]"
| "filter_item (F_present a) = IString (Some LDAP_FILTER_PRESENT) a"
| "filter_item (F_substrings a i ms f) = ISeq (Some LDAP_FILTER_SUBSTRINGS) [IString None a,
     ISeq None (piece LDAP_SUBSTRING_INITIAL i @ concat (map (piece LDAP_SUBSTRING_ANY) ms) @ piece LDAP_SUBSTRING_FINAL f)]"
| "filter_item (F_extensible t r dn v) = ISeq (Some LDAP_FILTER_EXT)
     ((case r of None \<Rightarrow> [] | Some x \<Rightarrow> [IString (Some LDAP_FILTER_EXT_OID) x])
      @ (if t = [] then [] else [IString (Some LDAP_FILTER_EXT_TYPE) t])
      @ [IString (Some LDAP_FILTER_EXT_VALUE) v, IBool (Some LDAP_FILTER_EXT_DNATTRS) (if dn then 1 else 0)])"

fun filter_ok :: "search_filter \<Rightarrow> bool" where
  "filter_ok (F_and fs) = list_all filter_ok fs"
| "filter_ok (F_or fs) = list_all filter_ok fs"
| "filter_ok (F_not f) = filter_ok f"
| "filter_ok (F_equal a v) = ldap_is_attr_desc a"
| "filter_ok (F_greater a v) = ldap_is_attr_desc a"
| "filter_ok (F_less a v) = ldap_is_attr_desc a"
| "filter_ok (F_approx a v) = ldap_is_attr_desc a"
| "filter_ok (F_present a) = ldap_is_attr_desc a"
| "filter_ok (F_substrings a i ms f) = (ldap_is_attr_desc a \<and> list_all (\<lambda>m. m \<noteq> []) ms \<and> (i \<noteq> [] \<or> ms \<noteq> [] \<or> f \<noteq> []))"
| "filter_ok (F_extensible t r dn v) = ((t = [] \<or> ldap_is_attr_desc t) \<and> (t \<noteq> [] \<or> r \<noteq> None)
     \<and> (\<forall>x. r = Some x \<longrightarrow> ldap_is_attr_oid x))"

text \<open>How deep the sequences nest that the encoder opens.\<close>

fun filter_depth :: "search_filter \<Rightarrow> nat" where
  "filter_depth (F_and fs) = Suc (fold max (map filter_depth fs) 0)"
| "filter_depth (F_or fs) = Suc (fold max (map filter_depth fs) 0)"
| "filter_depth (F_not f) = Suc (filter_depth f)"
| "filter_depth _ = 2"

fun complex :: "search_filter \<Rightarrow> bool" where
  "complex (F_and fs) = True" | "complex (F_or fs) = True" | "complex (F_not f) = True" | "complex _ = False"

section \<open>Attribute descriptions\<close>

lemma attr_char_not:
  assumes "attr_char c"
  shows "c \<noteq> equals" "c \<noteq> colon" "c \<noteq> lparen" "c \<noteq> rparen" "c \<noteq> backslash" "c \<noteq> 0x3c" "c \<noteq> 0x3e" "c \<noteq> 0x7e"
    "c \<noteq> 0x20" "c \<noteq> 0x09" "c \<noteq> 0x0a" "c \<noteq> 0x26" "c \<noteq> 0x7c" "c \<noteq> 0x21" "c \<noteq> star"
  using assms by (auto simp: attr_char_def digit_def)

lemma attr_desc:
  assumes "ldap_is_attr_desc a"
  shows "a \<noteq> []" "equals \<notin> set a" "colon \<notin> set a" "attr_char (hd a)" "attr_char (last a)" "neutral a"
proof -
  have c: "\<And>x. x \<in> set a \<Longrightarrow> attr_char x" and ne: "a \<noteq> []" using assms by (auto simp: ldap_is_attr_desc_def list_all_iff)
  show "a \<noteq> []" by (rule ne)
  show "equals \<notin> set a" "colon \<notin> set a" using c attr_char_not(1,2) by blast+
  show "attr_char (hd a)" "attr_char (last a)" using c ne by simp_all
  show "neutral a" by (rule neutral_plain_list) (use c attr_char_not(3-5) in \<open>auto simp: list_all_iff\<close>)
qed

lemma oid_chars: "is_attr_oid x d \<Longrightarrow> list_all (\<lambda>c. digit c \<or> c = 0x2e) x"
  by (induction x d rule: is_attr_oid.induct) (auto split: if_splits)

lemma attr_oid:
  assumes "ldap_is_attr_oid x"
  shows "x \<noteq> []" "equals \<notin> set x" "colon \<notin> set x" "neutral x" "x \<noteq> [0x64, 0x6e]"
proof -
  have c: "list_all (\<lambda>c. digit c \<or> c = 0x2e) x" using assms oid_chars by (simp add: ldap_is_attr_oid_def)
  have "x \<noteq> []" using assms by (auto simp: ldap_is_attr_oid_def)
  moreover have "list_all attr_char x" using c by (auto simp: list_all_iff attr_char_def)
  ultimately have "ldap_is_attr_desc x" by (simp add: ldap_is_attr_desc_def)
  then show "x \<noteq> []" "equals \<notin> set x" "colon \<notin> set x" "neutral x" using attr_desc by blast+
  show "x \<noteq> [0x64, 0x6e]" using c by (auto simp: digit_def)
qed

lemma index_of_first: "c \<notin> set s \<Longrightarrow> index_of c (s @ c # rest) = Some (length s)"
  by (simp add: index_of_def) (subst takeWhile_append2; auto)

lemma index_of_none: "c \<notin> set s \<Longrightarrow> index_of c s = None"
  by (simp add: index_of_def)

lemma neutral_body: "filter_ok f \<Longrightarrow> neutral (filter_body f)"
proof (induction f)
  case (F_and fs)
  then show ?case by (auto simp: list_all_iff intro!: neutral_Cons neutral_concat neutral_parens)
next
  case (F_or fs)
  then show ?case by (auto simp: list_all_iff intro!: neutral_Cons neutral_concat neutral_parens)
next
  case (F_not f)
  then show ?case by (auto intro!: neutral_Cons neutral_parens)
next
  case (F_substrings a i ms f)
  have "neutral (concat (map (\<lambda>m. escape_value m @ [star]) ms))"
    by (rule neutral_concat) (auto simp: list_all_iff intro!: neutral_append neutral_escape neutral_plain)
  then show ?case using F_substrings attr_desc(6) by (auto intro!: neutral_append neutral_Cons neutral_escape)
next
  case (F_extensible t r dn v)
  then have "neutral t" using attr_desc(6) by auto
  then show ?case using F_extensible attr_oid(4)
    by (auto intro!: neutral_append neutral_Cons neutral_escape split: option.split)
qed (auto intro!: neutral_append neutral_Cons neutral_escape intro: attr_desc(6))

section \<open>Simple filters\<close>

definition leaves :: "berelement \<Rightarrow> building \<Rightarrow> put_result \<Rightarrow> bool" where
  "leaves b0 st m \<longleftrightarrow> (\<exists>rc b'. m = Some (rc, b') \<and> 0 \<le> rc \<and> holds b0 st b')"

lemma leaves_printf:
  assumes "always_allocates alloc" "holds b0 st b" "builds fmt args None st = Some st1" "room_for b0 0 st1"
    and "length (ber_sos b0) + length (fst st) + openers fmt \<le> 113"
  shows "leaves b0 st1 (ber_printf alloc b fmt args)"
  unfolding leaves_def by (rule printf_holds [OF assms])

lemma leaves_or:
  assumes "leaves b0 st1 m" "\<And>b1. holds b0 st1 b1 \<Longrightarrow> leaves b0 st2 (next b1)"
  shows "leaves b0 st2 (printf_or bad' m next)"
  using assms by (auto simp: leaves_def printf_or_def)

lemma leaves_done: "holds b0 st b \<Longrightarrow> leaves b0 st (Some (0, b))"
  by (auto simp: leaves_def)

lemma filter_tags_ok:
  "short_tag (Some LDAP_FILTER_AND)" "short_tag (Some LDAP_FILTER_OR)" "short_tag (Some LDAP_FILTER_NOT)"
  "short_tag (Some LDAP_FILTER_EQUALITY)" "short_tag (Some LDAP_FILTER_SUBSTRINGS)" "short_tag (Some LDAP_FILTER_GE)"
  "short_tag (Some LDAP_FILTER_LE)" "short_tag (Some LDAP_FILTER_APPROX)" "short_tag (Some LDAP_FILTER_EXT)"
  "tag_ok (Some LDAP_FILTER_PRESENT)" "tag_ok (Some LDAP_FILTER_EXT_OID)" "tag_ok (Some LDAP_FILTER_EXT_TYPE)"
  "tag_ok (Some LDAP_FILTER_EXT_VALUE)" "tag_ok (Some LDAP_FILTER_EXT_DNATTRS)" "tag_ok (Some LDAP_SUBSTRING_INITIAL)"
  "tag_ok (Some LDAP_SUBSTRING_ANY)" "tag_ok (Some LDAP_SUBSTRING_FINAL)"
  by (simp_all add: short_tag_def tag_ok_def filter_tags valid_tag_def tag_octets_def ber_calc_taglen_def
      leading_octet_numeral big_tag_def LBER_BIG_TAG_MASK_def)

text \<open>Values that fit the element fit a length.\<close>

lemma string_fits:
  assumes "room_for b0 0 (add_items [x] st)" "x = IString t v \<or> (x = ISeq t' xs \<and> IString t v \<in> set xs)"
  shows "unat (of_nat (length v) :: u32) = length v"
proof -
  have "length v \<le> length (encoded False x)"
    using assms(2)
  proof
    assume x: "x = ISeq t' xs \<and> IString t v \<in> set xs"
    have "length (encoded False (IString t v)) \<le> length (concat (map (encoded False) xs))"
      using length_in_limit [of "IString t v" xs 0 "encoded False"] x by simp
    then show ?thesis using x length_tlv_contents [of v "tag_or LBER_OCTETSTRING t"] by (simp add: constructed_def)
  qed (simp add: length_tlv_contents)
  moreover have "length (encoded False x) \<le> write_limit" using assms(1) by (simp add: room_for_def)
  ultimately have "length v \<le> write_limit" by simp
  then show ?thesis by (rule of_nat_back)
qed

lemma assertion_leaves:
  assumes "always_allocates alloc" "holds b0 st b" "room_for b0 0 (add_items [ISeq (Some t) [IString None a, IString None v]] st)"
    and "length (ber_sos b0) + length (fst st) + 1 \<le> 113"
  shows "leaves b0 (add_items [ISeq (Some t) [IString None a, IString None v]] st) (put_assertion alloc t a (escape_value v) b)"
proof -
  note n = string_fits [OF assms(3), of None v "Some t"]
  have "leaves b0 (add_items [ISeq (Some t) [IString None a, IString None v]] st)
      (ber_printf alloc b ''t{soN}'' [PTag t, PStr a, PStr v, PLen (of_nat (length v))])"
    by (rule leaves_printf [OF assms(1,2) _ assms(3)])
      (use n assms(4) in \<open>cases st; simp add: primitive_def open_group_def\<close>)+
  then show ?thesis unfolding put_assertion_def unescape_value by (auto intro: leaves_or leaves_done)
qed

lemma substring_piece_leaves:
  assumes "always_allocates alloc" "holds b0 st b" "room_for b0 0 (add_items (piece t v) st)"
    and "length (ber_sos b0) + length (fst st) \<le> 113"
  shows "leaves b0 (add_items (piece t v) st) (substring_piece alloc t (escape_value v) b)"
proof (cases "v = []")
  case True
  then show ?thesis using assms(2) by (simp add: substring_piece_def piece_def leaves_done)
next
  case False
  then have r: "room_for b0 0 (add_items [IString (Some t) v] st)" using assms(3) by (simp add: piece_def)
  note n = string_fits [OF r, of "Some t" v]
  have "leaves b0 (add_items [IString (Some t) v] st) (ber_printf alloc b ''to'' [PTag t, PStr v, PLen (of_nat (length v))])"
    by (rule leaves_printf [OF assms(1,2) _ r]) (use n assms(4) in \<open>simp_all add: primitive_def\<close>)
  then show ?thesis using False by (simp add: substring_piece_def unescape_value piece_def)
qed

abbreviation rest_of :: "octets list \<Rightarrow> octets \<Rightarrow> octets" where
  "rest_of ms f \<equiv> concat (map (\<lambda>m. escape_value m @ [star]) ms) @ escape_value f"

lemma room_add:
  assumes "room_for b0 0 (add_items (xs @ ys) st)" "length (ber_sos b0) + length (fst st) \<le> 113"
  shows "room_for b0 0 (add_items xs st)"
  by (rule room_grows [OF assms(1)]) (use grows_add [of "add_items xs st" ys] assms(2) in simp_all)

lemma put_substrings_leaves:
  assumes "always_allocates alloc" "holds b0 st b" "length (ber_sos b0) + length (fst st) \<le> 113"
    and "room_for b0 0 (add_items (concat (map (piece LDAP_SUBSTRING_ANY) ms) @ piece LDAP_SUBSTRING_FINAL f) st)"
  shows "leaves b0 (add_items (concat (map (piece LDAP_SUBSTRING_ANY) ms) @ piece LDAP_SUBSTRING_FINAL f) st)
    (put_substrings alloc True (rest_of ms f) b)"
  using assms(2-4)
proof (induction ms arbitrary: st b)
  case Nil
  then show ?case
    using leaves_or [OF substring_piece_leaves [OF assms(1)] leaves_done]
    by (simp add: put_substrings.simps [of _ _ "escape_value f"] wildcard_escape_end)
next
  case (Cons m ms)
  let ?rest = "concat (map (piece LDAP_SUBSTRING_ANY) ms) @ piece LDAP_SUBSTRING_FINAL f"
  have r: "room_for b0 0 (add_items (piece LDAP_SUBSTRING_ANY m) st)"
    by (rule room_add [of _ _ ?rest]) (use Cons.prems in simp_all)
  have "leaves b0 (add_items ?rest (add_items (piece LDAP_SUBSTRING_ANY m) st))
      (printf_or bad (substring_piece alloc LDAP_SUBSTRING_ANY (escape_value m) b) (\<lambda>ber1. put_substrings alloc True (rest_of ms f) ber1))"
    by (rule leaves_or [OF substring_piece_leaves [OF assms(1) Cons.prems(1) r Cons.prems(2)] Cons.IH]) (use Cons.prems in simp_all)
  then show ?case
    using wildcard_escape_star [of m "rest_of ms f"]
    by (simp add: put_substrings.simps [of _ _ "escape_value m @ star # rest_of ms f"])
qed

lemma substring_filter_leaves:
  assumes "always_allocates alloc" "holds b0 st b" "length (ber_sos b0) + length (fst st) + 2 \<le> 113"
    and "room_for b0 0 (add_items [filter_item (F_substrings a i ms f)] st)"
  shows "leaves b0 (add_items [filter_item (F_substrings a i ms f)] st) (put_substring_filter alloc a (escape_value i @ star # rest_of ms f) b)"
proof -
  let ?open = "\<lambda>xs. ((Opens_seq, None, xs) # (Opens_seq, Some LDAP_FILTER_SUBSTRINGS, [IString None a]) # fst st, snd st)"
  let ?rest = "concat (map (piece LDAP_SUBSTRING_ANY) ms) @ piece LDAP_SUBSTRING_FINAL f" and ?init = "piece LDAP_SUBSTRING_INITIAL i"
  let ?fin = "add_items [filter_item (F_substrings a i ms f)] st"
  have close: "builds ''N}N}'' [] None (?open (?init @ ?rest)) = Some ?fin" by (cases st) simp
  have g: "grows (?open (?init @ ?rest)) ?fin" by (rule grows_builds [OF close])
  have r: "room_for b0 0 (?open (?init @ ?rest))" by (rule room_grows [OF assms(4) g]) (use assms(3) in simp)
  have r1: "room_for b0 0 (add_items ?init (?open []))" by (rule room_add [of _ _ ?rest]) (use r assms(3) in simp_all)
  have r0: "room_for b0 0 (?open [])" using room_add [of b0 "[]" ?init "?open []"] r1 assms(3) by simp
  show ?thesis
    unfolding put_substring_filter_def
  proof (rule leaves_or)
    show "leaves b0 (?open []) (ber_printf alloc b ''t{s{'' [PTag LDAP_FILTER_SUBSTRINGS, PStr a])"
      by (rule leaves_printf [OF assms(1,2) _ r0]) (use assms(3) in \<open>simp_all add: primitive_def open_group_def\<close>)
  next
    fix b1 assume b1: "holds b0 (?open []) b1"
    have "leaves b0 (?open (?init @ ?rest)) (put_substrings alloc False (escape_value i @ star # rest_of ms f) b1)"
    proof -
      have "leaves b0 (add_items ?rest (add_items ?init (?open [])))
        (printf_or bad (substring_piece alloc LDAP_SUBSTRING_INITIAL (escape_value i) b1) (\<lambda>ber1. put_substrings alloc True (rest_of ms f) ber1))"
        by (rule leaves_or [OF substring_piece_leaves [OF assms(1) b1 r1] put_substrings_leaves [OF assms(1)]])
          (use assms(3) r in simp_all)
      then show ?thesis using wildcard_escape_star [of i "rest_of ms f"]
        by (simp add: put_substrings.simps [of _ _ "escape_value i @ star # rest_of ms f"])
    qed
    then show "leaves b0 ?fin (printf_or bad (put_substrings alloc False (escape_value i @ star # rest_of ms f) b1) (\<lambda>ber2.
        printf_or bad (ber_printf alloc ber2 ''N}N}'' []) (\<lambda>ber3. Some (0, ber3))))"
    proof (rule leaves_or)
      fix b2 assume b2: "holds b0 (?open (?init @ ?rest)) b2"
      show "leaves b0 ?fin (printf_or bad (ber_printf alloc b2 ''N}N}'' []) (\<lambda>ber3. Some (0, ber3)))"
        by (rule leaves_or [OF leaves_printf [OF assms(1) b2 close assms(4)] leaves_done]) (use assms(3) in simp_all)
    qed
  qed
qed

lemma extended_parts_text:
  assumes "filter_ok (F_extensible t r dn v)"
  shows "extended_parts (t @ (if dn then [colon, 0x64, 0x6e] else []) @ (case r of None \<Rightarrow> [] | Some x \<Rightarrow> colon # x))
    = Some (t, (if r = None \<and> dn then Some [] else r), dn)"
proof -
  have t: "colon \<notin> set t" "t = [] \<or> ldap_is_attr_desc t" "t \<noteq> [] \<or> r \<noteq> None" using assms attr_desc(3) by auto
  note i = index_of_first [OF t(1)] index_of_none [OF t(1)]
  have d: "index_of colon [0x64, 0x6e] = None" by (simp add: index_of_def)
  have dx: "index_of colon (0x64 # 0x6e # colon # x) = Some 2" for x
    using index_of_first [of colon "[0x64, 0x6e]" x] by simp
  show ?thesis
  proof (cases r)
    case None
    then show ?thesis using t i d by (cases dn) (auto simp: extended_parts_def Let_def)
  next
    case (Some x)
    then have x: "colon \<notin> set x" "x \<noteq> [0x64, 0x6e]" using assms attr_oid by auto
    then show ?thesis using Some t i dx index_of_none [OF x(1)] by (cases dn) (auto simp: extended_parts_def Let_def)
  qed
qed

lemma extensible_leaves:
  assumes "always_allocates alloc" "holds b0 st b" "length (ber_sos b0) + length (fst st) + 2 \<le> 113"
    and "room_for b0 0 (add_items [filter_item (F_extensible t r dn v)] st)" "filter_ok (F_extensible t r dn v)"
  shows "leaves b0 (add_items [filter_item (F_extensible t r dn v)] st) (put_extended_filter alloc
    (t @ (if dn then [colon, 0x64, 0x6e] else []) @ (case r of None \<Rightarrow> [] | Some x \<Rightarrow> colon # x)) (escape_value v) b)"
proof -
  let ?open = "\<lambda>xs. ((Opens_seq, Some LDAP_FILTER_EXT, xs) # fst st, snd st)"
  let ?rule = "case r of None \<Rightarrow> [] | Some x \<Rightarrow> [IString (Some LDAP_FILTER_EXT_OID) x]"
  let ?type = "if t = [] then [] else [IString (Some LDAP_FILTER_EXT_TYPE) t]"
  let ?val = "[IString (Some LDAP_FILTER_EXT_VALUE) v, IBool (Some LDAP_FILTER_EXT_DNATTRS) (if dn then 1 else 0)]"
  let ?fin = "add_items [filter_item (F_extensible t r dn v)] st" and ?r = "if r = None \<and> dn then Some [] else r"
  let ?has = "?r \<noteq> None \<and> ?r \<noteq> Some []"
  note n = string_fits [OF assms(4), of "Some LDAP_FILTER_EXT_VALUE" v "Some LDAP_FILTER_EXT"]
  have close: "builds ''totbN}'' [PTag LDAP_FILTER_EXT_VALUE, PStr v, PLen (of_nat (length v)),
      PTag LDAP_FILTER_EXT_DNATTRS, PInt (if dn then 1 else 0)] None (?open (?rule @ ?type)) = Some ?fin"
    using n by (cases st) (simp add: primitive_def)
  have r2: "room_for b0 0 (?open (?rule @ ?type))" by (rule room_grows [OF assms(4) grows_builds [OF close]]) (use assms(3) in simp)
  have r1: "room_for b0 0 (?open ?rule)" using room_add [of b0 ?rule ?type "?open []"] r2 assms(3) by simp
  have r0: "room_for b0 0 (?open [])" using room_add [of b0 "[]" ?rule "?open []"] r1 assms(3) by simp
  have oid: "\<And>x. r = Some x \<Longrightarrow> x \<noteq> [] \<and> ldap_is_attr_oid x" using assms(5) attr_oid(1) by auto
  then have has: "?has \<longleftrightarrow> r \<noteq> None" "?has \<Longrightarrow> the ?r = the r" by auto
  have guards: "\<not> (t = [] \<and> \<not> ?has)" "\<not> (t \<noteq> [] \<and> \<not> ldap_is_attr_desc t)" "\<not> (?has \<and> \<not> ldap_is_attr_oid (the ?r))"
    using assms(5) oid has by auto
  show ?thesis
    unfolding put_extended_filter_def extended_parts_text [OF assms(5)] option.case prod.case Let_def if_not_P [OF guards(1)]
      if_not_P [OF guards(2)] if_not_P [OF guards(3)] unescape_value
  proof (rule leaves_or)
    show "leaves b0 (?open []) (ber_printf alloc b ''t{'' [PTag LDAP_FILTER_EXT])"
      by (rule leaves_printf [OF assms(1,2) _ r0]) (use assms(3) in \<open>simp_all add: open_group_def\<close>)
  next
    fix b1 assume b1: "holds b0 (?open []) b1"
    have "leaves b0 (?open ?rule) (if ?has then ber_printf alloc b1 ''ts'' [PTag LDAP_FILTER_EXT_OID, PStr (the ?r)] else Some (0, b1))"
    proof (cases r)
      case None
      then show ?thesis using b1 by (auto intro: leaves_done)
    next
      case (Some x)
      then have "leaves b0 (?open ?rule) (ber_printf alloc b1 ''ts'' [PTag LDAP_FILTER_EXT_OID, PStr (the ?r)])"
        by (intro leaves_printf [OF assms(1) b1 _ r1]) (use assms(3) in \<open>simp_all add: primitive_def\<close>)
      then show ?thesis using Some oid by simp
    qed
    then show "leaves b0 ?fin (printf_or bad (if ?has then ber_printf alloc b1 ''ts'' [PTag LDAP_FILTER_EXT_OID, PStr (the ?r)] else Some (0, b1)) (\<lambda>ber2.
        printf_or bad (if t \<noteq> [] then ber_printf alloc ber2 ''ts'' [PTag LDAP_FILTER_EXT_TYPE, PStr t] else Some (0, ber2)) (\<lambda>ber3.
        ber_printf alloc ber3 ''totbN}'' [PTag LDAP_FILTER_EXT_VALUE, PStr v, PLen (of_nat (length v)),
          PTag LDAP_FILTER_EXT_DNATTRS, PInt (if dn then 1 else 0)])))"
    proof (rule leaves_or)
      fix b2 assume b2: "holds b0 (?open ?rule) b2"
      have "leaves b0 (?open (?rule @ ?type)) (if t \<noteq> [] then ber_printf alloc b2 ''ts'' [PTag LDAP_FILTER_EXT_TYPE, PStr t] else Some (0, b2))"
      proof (cases "t = []")
        case True
        then show ?thesis using b2 by (auto intro: leaves_done)
      next
        case False
        then have "leaves b0 (?open (?rule @ ?type)) (ber_printf alloc b2 ''ts'' [PTag LDAP_FILTER_EXT_TYPE, PStr t])"
          by (intro leaves_printf [OF assms(1) b2 _ r2]) (use assms(3) in \<open>simp_all add: primitive_def\<close>)
        then show ?thesis using False by simp
      qed
      then show "leaves b0 ?fin (printf_or bad (if t \<noteq> [] then ber_printf alloc b2 ''ts'' [PTag LDAP_FILTER_EXT_TYPE, PStr t] else Some (0, b2)) (\<lambda>ber3.
        ber_printf alloc ber3 ''totbN}'' [PTag LDAP_FILTER_EXT_VALUE, PStr v, PLen (of_nat (length v)),
          PTag LDAP_FILTER_EXT_DNATTRS, PInt (if dn then 1 else 0)]))"
        by (rule leaves_or) (rule leaves_printf [OF assms(1) _ close assms(4)], use assms(3) in simp_all)
    qed
  qed
qed

text \<open>The parts that the encoder finds around the equals sign.\<close>

lemma simple_parts:
  assumes "always_allocates alloc" "equals \<notin> set attr" "attr \<noteq> []" "str = attr @ equals # val"
  shows "put_simple_filter alloc str ber =
    (let body = butlast attr;
         typed = (\<lambda>ftype. if ldap_is_attr_desc body then put_assertion alloc ftype body val ber else bad ber)
     in if last attr = 0x3c then typed LDAP_FILTER_LE
        else if last attr = 0x3e then typed LDAP_FILTER_GE
        else if last attr = 0x7e then typed LDAP_FILTER_APPROX
        else if last attr = colon then put_extended_filter alloc body val ber
        else if ldap_pvt_find_wildcard val = None then put_assertion alloc LDAP_FILTER_EQUALITY attr val ber
        else if val = [star] then
          printf_or bad (ber_printf alloc ber ''ts'' [PTag LDAP_FILTER_PRESENT, PStr attr]) (\<lambda>ber1. Some (0, ber1))
        else put_substring_filter alloc attr val ber)"
proof -
  have a: "alloc (length str + 1) \<noteq> None" using assms(1) by (auto simp: always_allocates_def)
  have i: "index_of equals str = Some (length attr)" using index_of_first [OF assms(2)] assms(4) by simp
  show ?thesis unfolding put_simple_filter_def if_not_P [OF a] i option.case Let_def using assms(3,4) by simp
qed

lemma simple_typed:
  assumes "always_allocates alloc" "ldap_is_attr_desc a" "str = a @ c # equals # val" "c \<noteq> equals"
  shows "c = 0x3c \<Longrightarrow> put_simple_filter alloc str ber = put_assertion alloc LDAP_FILTER_LE a val ber"
    "c = 0x3e \<Longrightarrow> put_simple_filter alloc str ber = put_assertion alloc LDAP_FILTER_GE a val ber"
    "c = 0x7e \<Longrightarrow> put_simple_filter alloc str ber = put_assertion alloc LDAP_FILTER_APPROX a val ber"
  using simple_parts [OF assms(1), of "a @ [c]" str val ber] assms attr_desc(2) by (simp_all add: Let_def)

lemma simple_plain:
  assumes "always_allocates alloc" "ldap_is_attr_desc a" "str = a @ equals # val"
  shows "put_simple_filter alloc str ber =
    (if ldap_pvt_find_wildcard val = None then put_assertion alloc LDAP_FILTER_EQUALITY a val ber
     else if val = [star] then
       printf_or bad (ber_printf alloc ber ''ts'' [PTag LDAP_FILTER_PRESENT, PStr a]) (\<lambda>ber1. Some (0, ber1))
     else put_substring_filter alloc a val ber)"
  using simple_parts [OF assms(1) attr_desc(2,1) [OF assms(2)] assms(3)] attr_char_not [OF attr_desc(5) [OF assms(2)]]
  by (simp add: Let_def)

lemma simple_extensible:
  assumes "always_allocates alloc" "filter_ok (F_extensible t r dn v)"
  shows "put_simple_filter alloc (filter_body (F_extensible t r dn v)) ber = put_extended_filter alloc
    (t @ (if dn then [colon, 0x64, 0x6e] else []) @ (case r of None \<Rightarrow> [] | Some x \<Rightarrow> colon # x)) (escape_value v) ber"
proof -
  let ?attr = "t @ (if dn then [colon, 0x64, 0x6e] else []) @ (case r of None \<Rightarrow> [] | Some x \<Rightarrow> colon # x)"
  have "equals \<notin> set (?attr @ [colon])" using assms(2) attr_desc(2) attr_oid(2) by (cases r) auto
  moreover have "filter_body (F_extensible t r dn v) = (?attr @ [colon]) @ equals # escape_value v" by simp
  ultimately have "put_simple_filter alloc (filter_body (F_extensible t r dn v)) ber = put_extended_filter alloc
      (butlast (?attr @ [colon])) (escape_value v) ber"
    using simple_parts [OF assms(1), of "?attr @ [colon]" _ "escape_value v" ber] by (simp add: Let_def del: filter_body.simps)
  then show ?thesis by (simp only: butlast_snoc)
qed

lemma lone_star:
  assumes "escape_value i @ star # rest_of ms f = [star]" shows "i = []" "ms = []" "f = []"
proof -
  have "length (escape_value i @ star # rest_of ms f) = 1" unfolding assms by simp
  then have "escape_value i = []" "rest_of ms f = []" by simp_all
  then show "i = []" "ms = []" "f = []" by (cases ms; simp)+
qed

lemma simple_leaves:
  assumes "always_allocates alloc" "filter_ok f" "\<not> complex f" "holds b0 st b"
    and "room_for b0 0 (add_items [filter_item f] st)" "length (ber_sos b0) + length (fst st) + 2 \<le> 113"
  shows "leaves b0 (add_items [filter_item f] st) (put_simple_filter alloc (filter_body f) b)"
proof (cases f)
  case (F_equal a v)
  then show ?thesis
    using assms simple_plain [OF assms(1), of a _ "escape_value v" b] assertion_leaves [OF assms(1,4)] by (simp add: wildcard_escape_end)
next
  case (F_greater a v)
  then show ?thesis using assms simple_typed(2) [OF assms(1)] assertion_leaves [OF assms(1,4)] by simp
next
  case (F_less a v)
  then show ?thesis using assms simple_typed(1) [OF assms(1)] assertion_leaves [OF assms(1,4)] by simp
next
  case (F_approx a v)
  then show ?thesis using assms simple_typed(3) [OF assms(1)] assertion_leaves [OF assms(1,4)] by simp
next
  case (F_present a)
  have "leaves b0 (add_items [filter_item f] st) (ber_printf alloc b ''ts'' [PTag LDAP_FILTER_PRESENT, PStr a])"
    unfolding F_present by (rule leaves_printf [OF assms(1,4) _ assms(5) [unfolded F_present]]) (use assms(6) in \<open>simp_all add: primitive_def\<close>)
  then show ?thesis
    using F_present assms simple_plain [OF assms(1), of a _ "[star]" b] by (auto intro: leaves_or leaves_done)
next
  case (F_substrings a i ms e)
  let ?val = "escape_value i @ star # rest_of ms e"
  have "?val \<noteq> [star]" using lone_star [of i ms e] assms(2) F_substrings by auto
  then have "put_simple_filter alloc (filter_body f) b = put_substring_filter alloc a ?val b"
    using F_substrings assms simple_plain [OF assms(1), of a _ ?val b] by (simp add: wildcard_escape_star)
  then show ?thesis using F_substrings assms substring_filter_leaves [OF assms(1,4,6)] by simp
next
  case (F_extensible t r dn v)
  show ?thesis
    using extensible_leaves [OF assms(1,4,6), of t r dn v] assms(2,5) simple_extensible [OF assms(1), of t r dn v b]
    unfolding F_extensible by simp
qed (use assms(3) in simp_all)

section \<open>Nested filters\<close>

fun subfilters :: "search_filter \<Rightarrow> search_filter list" where
  "subfilters (F_and fs) = fs" | "subfilters (F_or fs) = fs" | "subfilters (F_not f) = [f]" | "subfilters _ = []"

fun complex_char :: "search_filter \<Rightarrow> u8" where
  "complex_char (F_and fs) = 0x26" | "complex_char (F_or fs) = 0x7c" | "complex_char _ = 0x21"

lemma complex_parts:
  assumes "complex f"
  shows "filter_body f = complex_char f # concat (map filter_text (subfilters f))"
    "filter_item f = ISeq (Some (complex_tag (complex_char f))) (map filter_item (subfilters f))"
    "filter_ok f \<Longrightarrow> list_all filter_ok (subfilters f)"
    "\<And>g. g \<in> set (subfilters f) \<Longrightarrow> size g < size f \<and> filter_depth g < filter_depth f"
    "complex_char f \<in> {0x26, 0x7c, 0x21}" "short_tag (Some (complex_tag (complex_char f)))"
proof -
  have max_le: "filter_depth g \<le> fold max (map filter_depth fs) 0" if "g \<in> set fs" for g fs
    using that Max_ge [of "set (0 # map filter_depth fs)" "filter_depth g"] unfolding Max.set_eq_fold by simp
  have size_le: "size g < Suc (size_list size fs)" if "g \<in> set fs" for g and fs :: "search_filter list"
    using size_list_estimation' [OF that, of "size g" size] by simp
  show "filter_body f = complex_char f # concat (map filter_text (subfilters f))"
    "filter_item f = ISeq (Some (complex_tag (complex_char f))) (map filter_item (subfilters f))"
    using assms by (cases f; simp add: complex_tag_def filter_text_def [abs_def])+
  show "filter_ok f \<Longrightarrow> list_all filter_ok (subfilters f)" using assms by (cases f) simp_all
  show "complex_char f \<in> {0x26, 0x7c, 0x21}" using assms by (cases f) simp_all
  show "short_tag (Some (complex_tag (complex_char f)))" using assms filter_tags_ok by (cases f) (simp_all add: complex_tag_def)
  show "size g < size f \<and> filter_depth g < filter_depth f" if "g \<in> set (subfilters f)" for g
    using assms that max_le size_le by (cases f) (auto simp: less_Suc_eq_le)
qed

lemma attr_start: "ldap_is_attr_desc a \<Longrightarrow> \<exists>c cs. a = c # cs \<and> attr_char c"
  using attr_desc(1) [of a] attr_desc(4) [of a] by (cases a) auto

lemma simple_start:
  assumes "filter_ok f" "\<not> complex f"
  obtains c cs where "filter_body f = c # cs" "\<not> filter_space c" "c \<noteq> 0x26" "c \<noteq> 0x7c" "c \<noteq> 0x21" "c \<noteq> lparen" "c \<noteq> rparen"
proof -
  have "\<exists>c cs. filter_body f = c # cs \<and> (attr_char c \<or> c = colon)"
  proof (cases f)
    case (F_extensible t r dn v)
    then show ?thesis using assms(1) by (cases "t = []") (auto dest!: attr_start split: option.splits)
  qed (use assms in \<open>auto dest!: attr_start\<close>)
  then obtain c cs where c: "filter_body f = c # cs" "attr_char c \<or> c = colon" by blast
  then have "\<not> filter_space c" "c \<noteq> 0x26" "c \<noteq> 0x7c" "c \<noteq> 0x21" "c \<noteq> lparen" "c \<noteq> rparen"
    using attr_char_not(3,4,9-14) [of c] by (auto simp: filter_space_def)
  then show thesis using that c(1) by blast
qed

lemma text_start [simp]: "dropWhile filter_space (filter_text f @ s) = filter_text f @ s"
  by (simp add: filter_text_def filter_space_def)

lemma list_leaves:
  assumes "\<And>f st b. f \<in> set fs \<Longrightarrow> holds b0 st b \<Longrightarrow> room_for b0 0 (add_items [filter_item f] st) \<Longrightarrow>
      length (ber_sos b0) + length (fst st) \<le> n \<Longrightarrow>
      leaves b0 (add_items [filter_item f] st) (put_filter_loop alloc 0 (filter_text f) b)"
    and "list_all filter_ok fs" "holds b0 st b" "room_for b0 0 (add_items (map filter_item fs) st)"
    and "length (ber_sos b0) + length (fst st) \<le> n" "n \<le> 113"
  shows "leaves b0 (add_items (map filter_item fs) st) (put_filter_list alloc (concat (map filter_text fs)) b)"
  using assms(1-5)
proof (induction fs arbitrary: st b)
  case Nil
  then show ?case by (simp add: put_filter_list.simps leaves_done)
next
  case (Cons f fs)
  let ?rest = "concat (map filter_text fs)" and ?st1 = "add_items [filter_item f] st"
  have r: "room_for b0 0 ?st1" by (rule room_add [of _ _ "map filter_item fs"]) (use Cons.prems(4,5) assms(6) in simp_all)
  have n: "find_right_paren (tl (filter_text f @ ?rest)) = Some (length (filter_body f))"
    using find_right_paren_neutral [OF neutral_body, of f] Cons.prems(2) by (simp add: filter_text_def)
  have t: "take (length (filter_body f) + 2) (filter_text f @ ?rest) = filter_text f"
    "drop (length (filter_body f) + 2) (filter_text f @ ?rest) = ?rest" by (simp_all add: filter_text_def)
  have "leaves b0 (add_items (map filter_item fs) ?st1)
      (printf_or bad (put_filter_loop alloc 0 (filter_text f) b) (\<lambda>ber1. put_filter_list alloc ?rest ber1))"
  proof (rule leaves_or)
    show "leaves b0 ?st1 (put_filter_loop alloc 0 (filter_text f) b)" using Cons.prems(1,3,5) r by simp
  next
    fix b1 assume "holds b0 ?st1 b1"
    then show "leaves b0 (add_items (map filter_item fs) ?st1) (put_filter_list alloc ?rest b1)"
      by (rule Cons.IH [rotated 2]) (use Cons.prems in simp_all)
  qed
  moreover have ne: "filter_text f @ ?rest \<noteq> []" by (simp add: filter_text_def)
  have "put_filter_list alloc (filter_text f @ ?rest) b =
      printf_or bad (put_filter_loop alloc 0 (filter_text f) b) (\<lambda>ber1. put_filter_list alloc ?rest ber1)"
    unfolding put_filter_list.simps [of alloc "filter_text f @ ?rest"] text_start Let_def if_not_P [OF ne] n option.case t ..
  ultimately show ?case by simp
qed

lemma loop_complex:
  assumes "complex f" "filter_ok f"
  shows "put_filter_loop alloc 0 (filter_text f) b =
    printf_or bad (printf_or bad (ber_printf alloc b ''t{'' [PTag (complex_tag (complex_char f))]) (\<lambda>ber1.
      printf_or bad (put_filter_list alloc (concat (map filter_text (subfilters f))) ber1) (\<lambda>ber2. ber_printf alloc ber2 ''N}'' [])))
    (\<lambda>ber1. Some (0, ber1))"
proof -
  let ?c = "complex_char f" and ?body = "concat (map filter_text (subfilters f))"
  have "neutral ?body"
    using complex_parts(3) [OF assms] by (intro neutral_concat) (auto simp: list_all_iff filter_text_def intro!: neutral_parens neutral_body)
  then have n: "find_right_paren (?body @ [rparen]) = Some (length ?body)" using find_right_paren_neutral [of ?body "[]"] by simp
  have c: "\<not> filter_space ?c" "?c = 0x26 \<or> ?c = 0x7c \<or> ?c = 0x21" using complex_parts(5) [OF assms(1)] by (auto simp: filter_space_def)
  have s: "dropWhile filter_space (?c # ?body @ [rparen]) = ?c # ?body @ [rparen]" using c(1) by simp
  have "filter_text f = lparen # ?c # ?body @ [rparen]" by (simp add: filter_text_def complex_parts(1) [OF assms(1)])
  moreover have "put_filter_loop alloc 0 (lparen # ?c # ?body @ [rparen]) b =
      printf_or bad (put_complex_filter alloc (?body @ [rparen]) (complex_tag ?c) b) (\<lambda>ber1. put_filter_loop alloc 0 [] ber1)"
    unfolding put_filter_loop.simps(2) Let_def s using c(2) by (simp add: n)
  ultimately show ?thesis by (simp add: put_filter_loop.simps(1) put_complex_filter.simps n)
qed

lemma loop_simple:
  assumes "\<not> complex f" "filter_ok f"
  shows "put_filter_loop alloc 0 (filter_text f) b = printf_or bad (put_simple_filter alloc (filter_body f) b) (\<lambda>ber1. Some (0, ber1))"
proof -
  obtain c cs where c: "filter_body f = c # cs" "\<not> filter_space c" "c \<noteq> 0x26" "c \<noteq> 0x7c" "c \<noteq> 0x21"
    using simple_start [OF assms(2,1)] .
  have n: "find_right_paren (filter_body f @ [rparen]) = Some (length (filter_body f))"
    using find_right_paren_neutral [OF neutral_body [OF assms(2)], of "[]"] .
  have s: "dropWhile filter_space (filter_body f @ [rparen]) = filter_body f @ [rparen]" using c by simp
  have h: "hd (filter_body f @ [rparen]) = c" by (simp add: c)
  show ?thesis
    unfolding filter_text_def put_filter_loop.simps(2) Let_def s h n using c
    by (simp add: put_filter_loop.simps(1) [abs_def] cong: if_cong)
qed

lemma loop_bare:
  assumes "\<not> complex f" "filter_ok f"
  shows "put_filter_loop alloc 0 (filter_body f) b = put_filter_loop alloc 0 (filter_text f) b"
proof -
  obtain c cs where c: "filter_body f = c # cs" "\<not> filter_space c" "c \<noteq> lparen" "c \<noteq> rparen"
    using simple_start [OF assms(2,1)] .
  have "c \<noteq> 0x20" using c(2) by (simp add: filter_space_def)
  then show ?thesis
    unfolding loop_simple [OF assms] c(1) using c(3,4)
    by (simp add: put_filter_loop.simps(2) put_filter_loop.simps(1) [abs_def] cong: if_cong)
qed

lemma filter_leaves:
  assumes "always_allocates alloc" "filter_ok f" "holds b0 st b"
    and "room_for b0 0 (add_items [filter_item f] st)" "length (ber_sos b0) + length (fst st) + filter_depth f \<le> 113"
  shows "leaves b0 (add_items [filter_item f] st) (put_filter_loop alloc 0 (filter_text f) b)"
  using assms(2-5)
proof (induction f arbitrary: st b rule: measure_induct_rule [where f = size])
  case (less f)
  let ?fin = "add_items [filter_item f] st"
  show ?case
  proof (cases "complex f")
    case False
    then have "filter_depth f = 2" by (cases f) simp_all
    then show ?thesis
      unfolding loop_simple [OF False less.prems(1)]
      by (intro leaves_or [OF simple_leaves [OF assms(1) less.prems(1) False less.prems(2,3)] leaves_done]) (use less.prems(4) in simp_all)
  next
    case True
    let ?open = "\<lambda>xs. ((Opens_seq, Some (complex_tag (complex_char f)), xs) # fst st, snd st)"
    let ?items = "map filter_item (subfilters f)" and ?n = "Suc (length (ber_sos b0) + length (fst st))"
    note parts = complex_parts [OF True]
    have d: "?n + filter_depth g \<le> 113" if "g \<in> set (subfilters f)" for g using parts(4) [OF that] less.prems(4) by simp
    have n: "?n \<le> 113" using less.prems(4) True by (cases f) simp_all
    have close: "builds ''N}'' [] None (?open ?items) = Some ?fin" unfolding parts(2) by (cases st) simp
    have r: "room_for b0 0 (?open ?items)" by (rule room_grows [OF less.prems(3) grows_builds [OF close]]) (use n in simp)
    have r0: "room_for b0 0 (?open [])" using room_add [of b0 "[]" ?items "?open []"] r n by simp
    show ?thesis
      unfolding loop_complex [OF True less.prems(1)]
    proof (intro leaves_or [OF leaves_or [OF _ leaves_or] leaves_done])
      show "leaves b0 (?open []) (ber_printf alloc b ''t{'' [PTag (complex_tag (complex_char f))])"
        by (rule leaves_printf [OF assms(1) less.prems(2) _ r0]) (use n parts(6) in \<open>simp_all add: open_group_def\<close>)
    next
      fix b1 assume b1: "holds b0 (?open []) b1"
      have "leaves b0 (add_items ?items (?open [])) (put_filter_list alloc (concat (map filter_text (subfilters f))) b1)"
        by (rule list_leaves [where n = ?n, OF less.IH parts(3) [OF less.prems(1)] b1])
          (use parts(3,4) less.prems(1) d n r in \<open>auto simp: list_all_iff dest: d\<close>)
      then show "leaves b0 (?open ?items) (put_filter_list alloc (concat (map filter_text (subfilters f))) b1)" by simp
    next
      fix b2 assume "holds b0 (?open ?items) b2"
      then show "leaves b0 ?fin (ber_printf alloc b2 ''N}'' [])"
        by (rule leaves_printf [OF assms(1) _ close less.prems(3)]) (use n in simp)
    qed
  qed
qed

section \<open>Search requests\<close>

definition no_filter :: search_filter where
  "no_filter = F_present [0x6f, 0x62, 0x6a, 0x65, 0x63, 0x74, 0x63, 0x6c, 0x61, 0x73, 0x73]"

lemma default_filter_text: "default_filter = filter_text no_filter" "filter_ok no_filter" "filter_depth no_filter = 2"
  by (simp_all add: default_filter_def no_filter_def filter_text_def ldap_is_attr_desc_def attr_char_def digit_def)

text \<open>The message of a search: a limit of the caller's, if it is not negative, and else the handle's.\<close>

definition search_message :: "ldap \<Rightarrow> octets option \<Rightarrow> u32 \<Rightarrow> search_filter \<Rightarrow> octets list option \<Rightarrow> u32
    \<Rightarrow> ldapcontrol list option \<Rightarrow> u32 \<Rightarrow> u32 \<Rightarrow> ber_item" where
  "search_message ld base scope f attrs attrsonly sctrls timelimit sizelimit =
    ISeq None ([IInt None (ld_msgid ld), ISeq (Some LDAP_REQ_SEARCH)
      [IString None (case (if base = None then ld_defbase ld else base) of None \<Rightarrow> [] | Some dn \<Rightarrow> dn),
       IEnum None scope, IEnum None (ld_deref ld),
       IInt None (if sint sizelimit < 0 then ld_sizelimit ld else sizelimit),
       IInt None (if sint timelimit < 0 then ld_timelimit ld else timelimit),
       IBool None attrsonly, filter_item f, ISeq None (map (IString None) (case attrs of None \<Rightarrow> [] | Some ss \<Rightarrow> ss))]]
     @ control_items ld sctrls)"

lemma leaves_next:
  assumes "leaves b0 st m" "\<And>b1. holds b0 st b1 \<Longrightarrow> \<exists>r. next b1 = Some r \<and> P r"
  shows "\<exists>r. printf_or bad' m next = Some r \<and> P r"
  using assms by (auto simp: leaves_def printf_or_def)

lemma filter_item_ok: "item_ok (filter_item f)"
  by (induction f) (auto simp: list_all_iff filter_tags_ok piece_def split: option.split)

lemma search_message_ok: "item_ok (search_message ld base scope f attrs attrsonly sctrls timelimit sizelimit)"
proof -
  have "list_all item_ok (map (IString None) ss)" for ss by (simp add: list_all_iff)
  then show ?thesis by (simp add: search_message_def filter_item_ok items_ok(3) context_tags)
qed

lemma filter_leaves_option:
  assumes "always_allocates alloc" "\<forall>g. f = Some g \<longrightarrow> filter_ok g \<and> filter_depth g \<le> 111" "holds (fresh options) st b"
    and "room_for (fresh options) 0 (add_items [filter_item (case f of None \<Rightarrow> no_filter | Some g \<Rightarrow> g)] st)" "length (fst st) \<le> 2"
  shows "leaves (fresh options) (add_items [filter_item (case f of None \<Rightarrow> no_filter | Some g \<Rightarrow> g)] st)
    (put_filter alloc (case map_option filter_text f of None \<Rightarrow> default_filter | Some s \<Rightarrow> s) b)"
proof (cases f)
  case None
  then show ?thesis using filter_leaves [OF assms(1) default_filter_text(2) assms(3)] assms(4,5)
    by (simp add: put_filter_def default_filter_text(1,3))
next
  case (Some g)
  then show ?thesis using filter_leaves [OF assms(1) _ assms(3), of g] assms(2,4,5) by (simp add: put_filter_def)
qed

lemma ldap_alloc_fresh: "ldap_alloc_ber_with_options True ld = (Some (fresh (ld_lberoptions ld)), ld)"
  by (simp add: ldap_alloc_ber_with_options_def ber_alloc_t_def fresh_def)

text \<open>The end of a search request: the controls, and the end of the message.\<close>

definition search_end :: "allocator \<Rightarrow> ldapcontrol list option \<Rightarrow> ldap \<Rightarrow> berelement \<Rightarrow> (berelement option \<times> ldap) option" where
  "search_end alloc sctrls ld ber =
    (case ldap_int_put_controls alloc ld sctrls ber of None \<Rightarrow> None
     | Some (rc, ld1, ber1) \<Rightarrow>
        (if rc \<noteq> LDAP_SUCCESS then Some (None, ld1)
         else printf_or (\<lambda>_. Some (None, set_errno LDAP_ENCODING_ERROR ld1)) (ber_printf alloc ber1 ''N}'' []) (\<lambda>ber2.
           Some (Some ber2, ld1))))"

lemma search_end_holds:
  assumes "always_allocates alloc" "holds (fresh options) (in_seq xs ([], [])) b" "controls_ok ld sctrls"
    and "room_for (fresh options) 0 ([], [ISeq None (xs @ control_items ld sctrls)])"
  shows "\<exists>r. search_end alloc sctrls ld b = Some r
    \<and> (\<exists>ber. r = (Some ber, ld) \<and> written ber = encoded (options AND LBER_USE_DER \<noteq> 0) (ISeq None (xs @ control_items ld sctrls)))"
proof -
  let ?st = "([], [ISeq None (xs @ control_items ld sctrls)])"
  have close: "builds ''N}'' [] None (in_seq (xs @ control_items ld sctrls) ([], [])) = Some ?st" by simp
  have room: "room_for (fresh options) 0 (in_seq (xs @ control_items ld sctrls) ([], []))"
    by (rule room_grows [OF assms(4) grows_builds [OF close]]) simp
  obtain b1 where b1: "ldap_int_put_controls alloc ld sctrls b = Some (LDAP_SUCCESS, ld, b1)"
      "holds (fresh options) (in_seq (xs @ control_items ld sctrls) ([], [])) b1"
    using put_controls_holds [OF assms(1-3)] room by auto
  show ?thesis
    unfolding search_end_def b1(1) option.case prod.case if_not_P [OF not_not [THEN iffD2, OF refl]]
    by (rule leaves_next [OF leaves_printf [OF assms(1) b1(2) close assms(4)]]) (auto dest: written_fresh)
qed

lemma build_search_req_leaves:
  fixes scope attrsonly timelimit sizelimit :: u32
  assumes "always_allocates alloc" "\<forall>g. f = Some g \<longrightarrow> filter_ok g \<and> filter_depth g \<le> 111" "controls_ok ld sctrls"
    and "bulk (search_message (next_msgid ld) base scope (case f of None \<Rightarrow> no_filter | Some g \<Rightarrow> g) attrs attrsonly sctrls timelimit sizelimit) \<le> write_limit"
  shows "\<exists>ber. ldap_build_search_req alloc True ld base scope (map_option filter_text f) attrs attrsonly sctrls timelimit sizelimit
      = Some (Some ber, next_msgid ld)
    \<and> written ber = encoded (ld_lberoptions ld AND LBER_USE_DER \<noteq> 0)
        (search_message (next_msgid ld) base scope (case f of None \<Rightarrow> no_filter | Some g \<Rightarrow> g) attrs attrsonly sctrls timelimit sizelimit)"
proof -
  define ld2 where "ld2 = next_msgid ld"
  define g where "g = (case f of None \<Rightarrow> no_filter | Some g \<Rightarrow> g)"
  define dn where "dn = (case (if base = None then ld_defbase ld else base) of None \<Rightarrow> [] | Some dn \<Rightarrow> dn)"
  let ?f = "fresh (ld_lberoptions ld)" and ?msg = "search_message ld2 base scope g attrs attrsonly sctrls timelimit sizelimit"
  let ?head = "[IString None dn, IEnum None scope, IEnum None (ld_deref ld2),
       IInt None (if sint sizelimit < 0 then ld_sizelimit ld2 else sizelimit),
       IInt None (if sint timelimit < 0 then ld_timelimit ld2 else timelimit), IBool None attrsonly]"
  let ?attrs = "ISeq None (map (IString None) (case attrs of None \<Rightarrow> [] | Some ss \<Rightarrow> ss))"
  let ?st1 = "\<lambda>xs. ([(Opens_seq, Some LDAP_REQ_SEARCH, xs), (Opens_seq, None, [IInt None (ld_msgid ld2)])], [])"
  let ?op = "[IInt None (ld_msgid ld2), ISeq (Some LDAP_REQ_SEARCH) (?head @ [filter_item g, ?attrs])]"
  have dn: "dn = (case (if base = None then ld_defbase ld2 else base) of None \<Rightarrow> [] | Some dn \<Rightarrow> dn)"
    by (simp add: dn_def ld2_def next_msgid_def)
  have msg: "?msg = ISeq None (?op @ control_items ld2 sctrls)" by (simp add: search_message_def dn)
  have room: "room_for ?f 0 ([], [?msg])"
    by (rule room_message [OF search_message_ok]) (use assms(4) in \<open>simp add: ld2_def g_def\<close>)
  have close: "builds ''N}'' [] None (in_seq (?op @ control_items ld2 sctrls) ([], [])) = Some ([], [?msg])" by (simp add: msg)
  have room4: "room_for ?f 0 (in_seq (?op @ control_items ld2 sctrls) ([], []))" by (rule room_grows [OF room grows_builds [OF close]]) simp
  have room3: "room_for ?f 0 (in_seq ?op ([], []))" by (rule room_grows [OF room4 grows_in_seq]) simp
  have build3: "builds ''{v}N}'' [PStrVec attrs] None (?st1 (?head @ [filter_item g])) = Some (in_seq ?op ([], []))"
    by (cases attrs) (simp_all add: primitive_def open_group_def)
  have room2: "room_for ?f 0 (?st1 (?head @ [filter_item g]))" by (rule room_grows [OF room3 grows_builds [OF build3]]) simp
  have room1: "room_for ?f 0 (?st1 ?head)" by (rule room_add [of _ _ "[filter_item g]" "?st1 []", simplified]) (use room2 in simp_all)
  have build1: "builds ''{it{seeiib'' [PInt (ld_msgid ld2), PTag LDAP_REQ_SEARCH, PStr dn, PInt scope, PInt (ld_deref ld2),
        PInt (if sint sizelimit < 0 then ld_sizelimit ld2 else sizelimit),
        PInt (if sint timelimit < 0 then ld_timelimit ld2 else timelimit), PInt attrsonly] None ([], []) = Some (?st1 ?head)"
    by (simp add: primitive_def open_group_def)
  let ?P = "\<lambda>r. \<exists>ber. r = (Some ber, ld2) \<and> written ber = encoded (ld_lberoptions ld AND LBER_USE_DER \<noteq> 0) ?msg"
  have alloc: "alloc (length s + 1) \<noteq> None" for s :: octets using assms(1) by (auto simp: always_allocates_def)
  have "\<exists>r. ldap_build_search_req alloc True ld base scope (map_option filter_text f) attrs attrsonly sctrls timelimit sizelimit = Some r \<and> ?P r"
    unfolding ldap_build_search_req_def ldap_alloc_fresh option.case prod.case Let_def
      ld2_def [symmetric] dn_def [symmetric] if_not_P [OF alloc] search_end_def [symmetric]
  proof (rule leaves_next [OF leaves_printf [OF assms(1) holds_fresh build1 room1]])
    fix b1 assume b1: "holds ?f (?st1 ?head) b1"
    have l2: "leaves ?f (?st1 (?head @ [filter_item g])) (put_filter alloc (case map_option filter_text f of None \<Rightarrow> default_filter | Some s \<Rightarrow> s) b1)"
      using filter_leaves_option [OF assms(1,2) b1, folded g_def] room2 by simp
    show "\<exists>r. printf_or (\<lambda>_. Some (None, set_errno LDAP_FILTER_ERROR ld2))
        (put_filter alloc (case map_option filter_text f of None \<Rightarrow> default_filter | Some f \<Rightarrow> f) b1) (\<lambda>ber2.
        printf_or (\<lambda>_. Some (None, set_errno LDAP_ENCODING_ERROR ld2)) (ber_printf alloc ber2 ''{v}N}'' [PStrVec attrs]) (search_end alloc sctrls ld2)) = Some r \<and> ?P r"
    proof (rule leaves_next [OF l2])
      fix b2 assume b2: "holds ?f (?st1 (?head @ [filter_item g])) b2"
      show "\<exists>r. printf_or (\<lambda>_. Some (None, set_errno LDAP_ENCODING_ERROR ld2)) (ber_printf alloc b2 ''{v}N}'' [PStrVec attrs]) (search_end alloc sctrls ld2) = Some r \<and> ?P r"
      proof (rule leaves_next [OF leaves_printf [OF assms(1) b2 build3 room3]])
        fix b3 assume "holds ?f (in_seq ?op ([], [])) b3"
        then show "\<exists>r. search_end alloc sctrls ld2 b3 = Some r \<and> ?P r"
          using search_end_holds [OF assms(1), of _ ?op b3 ld2 sctrls] room assms(3) unfolding msg by (simp add: ld2_def)
      qed simp_all
    qed
  qed simp_all
  then show ?thesis by (auto simp: ld2_def g_def)
qed

section \<open>Properties\<close>

text \<open>
  C2: the string of every filter, its values written with the escapes of RFC 2254, is encoded as the filter
  of RFC 2251 it stands for, whatever octets the values hold; a filter that is not a combination of others
  gives the same element without its parentheses.
\<close>

theorem put_filter_encodes:
  assumes "always_allocates alloc" "filter_ok f" "filter_depth f \<le> 113" "bulk (filter_item f) \<le> write_limit"
  shows "\<exists>rc ber. put_filter alloc (filter_text f) (fresh options) = Some (rc, ber) \<and> 0 \<le> rc
    \<and> written ber = encoded (options AND LBER_USE_DER \<noteq> 0) (filter_item f)
    \<and> (complex f \<or> put_filter alloc (filter_body f) (fresh options) = Some (rc, ber))"
proof -
  have "leaves (fresh options) (add_items [filter_item f] ([], [])) (put_filter_loop alloc 0 (filter_text f) (fresh options))"
    by (rule filter_leaves [OF assms(1,2) holds_fresh]) (use assms(3) room_message [OF filter_item_ok assms(4)] in simp_all)
  then show ?thesis
    using loop_bare [OF _ assms(2), of alloc "fresh options"] by (cases "complex f") (auto simp: leaves_def put_filter_def dest!: written_fresh)
qed

text \<open>The filter \<open>(&(cn=a\2a)(!(sn:dn:1.2:=b))(l=*c*))\<close>.\<close>

definition demo_filter :: search_filter where
  "demo_filter = F_and [F_equal [0x63, 0x6e] [0x61, star],
    F_not (F_extensible [0x73, 0x6e] (Some [0x31, 0x2e, 0x32]) True [0x62]), F_substrings [0x6c] [] [[0x63]] []]"

lemma demo_filter_ok: "filter_ok demo_filter" "filter_depth demo_filter = 4" "bulk (filter_item demo_filter) \<le> 200"
  by (simp_all add: demo_filter_def ldap_is_attr_desc_def attr_char_def digit_def ldap_is_attr_oid_def piece_def)

theorem put_filter_encodes_witness:
  "\<exists>rc ber. put_filter ready_alloc (filter_text demo_filter) (fresh 0) = Some (rc, ber) \<and> 0 \<le> rc
    \<and> written ber = encoded False (ISeq (Some 0xa0) [
        ISeq (Some 0xa3) [IString None [0x63, 0x6e], IString None [0x61, star]],
        ISeq (Some 0xa2) [ISeq (Some 0xa9) [IString (Some 0x81) [0x31, 0x2e, 0x32], IString (Some 0x82) [0x73, 0x6e],
          IString (Some 0x83) [0x62], IBool (Some 0x84) 1]],
        ISeq (Some 0xa4) [IString None [0x6c], ISeq None [IString (Some 0x81) [0x63]]]])"
proof -
  have i: "filter_item demo_filter = ISeq (Some 0xa0) [
        ISeq (Some 0xa3) [IString None [0x63, 0x6e], IString None [0x61, star]],
        ISeq (Some 0xa2) [ISeq (Some 0xa9) [IString (Some 0x81) [0x31, 0x2e, 0x32], IString (Some 0x82) [0x73, 0x6e],
          IString (Some 0x83) [0x62], IBool (Some 0x84) 1]],
        ISeq (Some 0xa4) [IString None [0x6c], ISeq None [IString (Some 0x81) [0x63]]]]"
    by (simp add: demo_filter_def filter_tags piece_def)
  show ?thesis
    using put_filter_encodes [OF ready_alloc demo_filter_ok(1), of 0] demo_filter_ok(2,3) by (auto simp: i write_limit_def)
qed

text \<open>
  C1: a search takes the next message number and hands on an element that holds exactly the LDAP message of
  RFC 2251 for its base, scope, limits, filter, attributes and controls; without a filter it asks for
  \<open>(objectclass=*)\<close>, and what the caller leaves out comes from the handle.
\<close>

theorem search_request_encodes:
  assumes "always_allocates alloc" "\<forall>g. f = Some g \<longrightarrow> filter_ok g \<and> filter_depth g \<le> 111"
    and "controls_ok ld sctrls" "fst (ldap_int_client_controls ld cctrls) = LDAP_SUCCESS" "timeout \<noteq> Some (0, 0)"
    and "msg = search_message (next_msgid ld) base scope (case f of None \<Rightarrow> no_filter | Some g \<Rightarrow> g) attrs attrsonly sctrls
      (case timeout of None \<Rightarrow> - 1 | Some (sec, usec) \<Rightarrow> if sec \<noteq> 0 then sec else 1) sizelimit"
    and "bulk msg \<le> write_limit"
  shows "\<exists>ber. ldap_search_ext alloc True ld base scope (map_option filter_text f) attrs attrsonly sctrls cctrls timeout sizelimit
      = Some (Issued LDAP_REQ_SEARCH base ber, next_msgid ld)
    \<and> written ber = encoded (ld_lberoptions ld AND LBER_USE_DER \<noteq> 0) msg"
  using build_search_req_leaves [OF assms(1-3), of base scope attrs attrsonly _ sizelimit] assms(5,7)
  unfolding ldap_search_ext_def checking_clients_ok [OF assms(4)] Let_def if_not_P [OF assms(5)] assms(6) by fastforce

theorem search_request_encodes_witness:
  "\<exists>ber. ldap_search_ext ready_alloc True demo_ldap (Some [0x6f]) 2 (Some (filter_text demo_filter)) (Some [[0x63, 0x6e]]) 0 None None
      (Some (0, 5)) (- 1) = Some (Issued LDAP_REQ_SEARCH (Some [0x6f]) ber, next_msgid demo_ldap)
    \<and> written ber = encoded True (ISeq None [IInt None 7, ISeq (Some 0x63) [IString None [0x6f], IEnum None 2, IEnum None 0,
        IInt None 0, IInt None 1, IBool None 0, filter_item demo_filter, ISeq None [IString None [0x63, 0x6e]]]])"
proof -
  have m: "search_message (next_msgid demo_ldap) (Some [0x6f]) 2 demo_filter (Some [[0x63, 0x6e]]) 0 None 1 (- 1) =
      ISeq None [IInt None 7, ISeq (Some 0x63) [IString None [0x6f], IEnum None 2, IEnum None 0,
        IInt None 0, IInt None 1, IBool None 0, filter_item demo_filter, ISeq None [IString None [0x63, 0x6e]]]]"
    by (simp add: search_message_def next_msgid_def demo_ldap_def control_items_def server_controls_def ldap_tags)
  moreover have "controls_ok demo_ldap None" "fst (ldap_int_client_controls demo_ldap None) = LDAP_SUCCESS"
    by (simp_all add: controls_ok_def server_controls_def demo_ldap_def ldap_int_client_controls_def)
  moreover have "ld_lberoptions demo_ldap AND LBER_USE_DER \<noteq> 0" by (simp add: demo_ldap_def LBER_USE_DER_def)
  ultimately show ?thesis
    using search_request_encodes [OF ready_alloc, of "Some demo_filter" demo_ldap None None "Some (0, 5)" _ "Some [0x6f]" 2
        "Some [[0x63, 0x6e]]" 0 "- 1", OF _ _ _ _ refl] demo_filter_ok
    by (simp add: write_limit_def)
qed

section \<open>Controls that cannot be sent\<close>





end
