(* ===== verification/Ldap_Controls_Facts.thy ===== *)
theory Ldap_Controls_Facts imports Ldap_Requests_Facts begin

text \<open>
  Reading controls: the loop always ends inside the element, and what comes back of controls that were
  written.
\<close>

section \<open>The loop ends\<close>

lemma default_not_0 [simp]: "LBER_DEFAULT \<noteq> 0" "(0 :: u32) \<noteq> LBER_DEFAULT"
  by (simp_all add: LBER_DEFAULT_def)

lemma scan_open_string:
  assumes "readable b"
  shows "\<exists>tag outs n. ber_scanf alloc b ''{a'' [SPtr] = Some (tag, outs, advance n b) \<and> n \<le> length (unread b)
    \<and> (tag \<noteq> LBER_DEFAULT \<longrightarrow> 0 < n) \<and> (outs = [ONone] \<and> tag = LBER_DEFAULT \<or> (\<exists>s. outs = [ONone, OStr s]))"
proof -
  obtain t l n where s: "ber_skip_tag b = Some (t, l, advance n b)" "within b n t (unat l)" using ber_skip_tag_within [OF assms] by blast
  show ?thesis
  proof (cases "t = LBER_DEFAULT")
    case True
    then show ?thesis using s by (auto simp: ber_scanf_def scanf_conv_simps)
  next
    case False
    then have n: "0 < n" "n \<le> length (unread b)" using s(2) by (simp_all add: within_def)
    obtain t' x m where g: "ber_get_stringa alloc (advance n b) = Some (t', x, advance m (advance n b))" "m \<le> length (unread (advance n b))"
      using get_stringa.moves [of "advance n b" alloc] assms n by auto
    then show ?thesis
      using s(1) n False by (cases "t' = LBER_DEFAULT") (auto simp: ber_scanf_def scanf_conv_simps advance_advance intro!: exI [of _ "n + m"])
  qed
qed

lemma scan_boolean:
  assumes "readable b"
  shows "\<exists>tag i n. ber_scanf alloc b ''b'' [SPtr] = Some (tag, [OInt i], advance n b) \<and> n \<le> length (unread b)"
proof -
  obtain t x n where "ber_get_boolean b = Some (t, x, advance n b)" "n \<le> length (unread b)"
    using get_boolean.moves [OF assms] by blast
  then show ?thesis by (cases "t = LBER_DEFAULT") (auto simp: ber_scanf_def scanf_conv_simps)
qed

lemma scan_value:
  assumes "readable b"
  shows "\<exists>tag l s n. ber_scanf alloc b ''o'' [SPtr] = Some (tag, [OBval l s], advance n b) \<and> n \<le> length (unread b)"
proof -
  obtain t l where p: "ber_peek_tag b = Some (t, l, b)" using ber_peek_tag_within [OF assms] by blast
  obtain t x n where "ber_get_stringa alloc b = Some (t, x, advance n b)" "n \<le> length (unread b)"
    using get_stringa.moves [OF assms] by blast
  then show ?thesis using p by (cases "t = LBER_DEFAULT") (auto simp: ber_scanf_def scanf_conv_simps)
qed

text \<open>Looking at the next tag, or passing an error on.\<close>

lemma peek_unless:
  assumes "readable b"
  shows "\<exists>t. (if tag \<noteq> LBER_DEFAULT then map_option (\<lambda>(t, l, b). (t, b)) (ber_peek_tag b) else Some (tag, b)) = Some (t, b)
    \<and> (tag = LBER_DEFAULT \<longrightarrow> t = LBER_DEFAULT)"
  using ber_peek_tag_within [OF assms] by auto

lemma get_control_moves:
  assumes "readable b"
  shows "\<exists>t c n. get_control alloc b = Some (t, c, advance n b) \<and> n \<le> length (unread b) \<and> (t \<noteq> LBER_DEFAULT \<longrightarrow> 0 < n)"
proof -
  obtain tag outs n where s: "ber_scanf alloc b ''{a'' [SPtr] = Some (tag, outs, advance n b)" "n \<le> length (unread b)"
      "tag \<noteq> LBER_DEFAULT \<longrightarrow> 0 < n" "outs = [ONone] \<and> tag = LBER_DEFAULT \<or> (\<exists>s. outs = [ONone, OStr s])"
    using scan_open_string [OF assms] by blast
  show ?thesis
  proof (cases "\<exists>s. outs = [ONone, OStr s]")
    case False
    then show ?thesis using s by (auto simp: get_control_def)
  next
    case True
    then obtain oid where oid: "outs = [ONone, OStr oid]" by blast
    let ?b1 = "advance n b"
    have r1: "readable ?b1" using assms s(2) by simp
    obtain t1 where t1: "(if tag \<noteq> LBER_DEFAULT then map_option (\<lambda>(t, l, b). (t, b)) (ber_peek_tag ?b1) else Some (tag, ?b1)) = Some (t1, ?b1)"
        "tag = LBER_DEFAULT \<longrightarrow> t1 = LBER_DEFAULT" using peek_unless [OF r1] by blast
    obtain t2 crit m where t2: "(if t1 = LBER_BOOLEAN then
                     (case ber_scanf alloc ?b1 ''b'' [SPtr] of
                        Some (t, [OInt crit], b) \<Rightarrow> Some (t, (if crit = Some 0 then -1 else 0), b)
                      | _ \<Rightarrow> None)
                   else Some (t1, 0, ?b1)) = Some (t2, crit :: u8, advance m ?b1)" "m \<le> length (unread ?b1)" "t1 = LBER_DEFAULT \<longrightarrow> t2 = LBER_DEFAULT"
      using scan_boolean [OF r1, of alloc] by (cases "t1 = LBER_BOOLEAN") (auto simp: LBER_BOOLEAN_def LBER_DEFAULT_def intro: that [of _ _ 0])
    let ?b2 = "advance m ?b1"
    have r2: "readable ?b2" using r1 t2(2) by simp
    obtain t3 where t3: "(if t2 \<noteq> LBER_DEFAULT then map_option (\<lambda>(t, l, b). (t, b)) (ber_peek_tag ?b2) else Some (t2, ?b2)) = Some (t3, ?b2)"
        "t2 = LBER_DEFAULT \<longrightarrow> t3 = LBER_DEFAULT" using peek_unless [OF r2] by blast
    obtain t4 l v k where v: "ber_scanf alloc ?b2 ''o'' [SPtr] = Some (t4, [OBval l v], advance k ?b2)" "k \<le> length (unread ?b2)"
      using scan_value [OF r2] by blast
    have le: "n + (m + k) \<le> length (unread b)" "n + m \<le> length (unread b)" using s(2) t2(2) v(2) by simp_all
    have d: "tag = LBER_DEFAULT \<Longrightarrow> t3 = LBER_DEFAULT" using t1 t2 t3 by blast
    show ?thesis
    proof (cases "t3 = LBER_OCTETSTRING")
      case True
      then have "0 < n" using d s(3) by (auto simp: LBER_OCTETSTRING_def LBER_DEFAULT_def)
      then show ?thesis
        unfolding get_control_def s(1) oid using t1(1) t2(1) t3(1) v(1) True le(1)
        by (auto simp: advance_advance add.assoc intro!: exI [of _ "n + (m + k)"])
    next
      case False
      then show ?thesis
        unfolding get_control_def s(1) oid using t1(1) t2(1) t3(1) d s(3) le(2)
        by (auto simp: advance_advance intro!: exI [of _ "n + m"])
    qed
  qed
qed

lemma get_controls_loop_ends:
  assumes "readable b" "length (unread b) + 1 < fuel"
  shows "\<exists>rc cs' n. get_controls_loop fuel alloc stop tag cs b = Some (rc, cs', advance n b) \<and> n \<le> length (unread b)
    \<and> rc \<in> {LDAP_SUCCESS, LDAP_NO_MEMORY, LDAP_DECODING_ERROR} \<and> (rc = LDAP_SUCCESS \<longleftrightarrow> cs' \<noteq> None)"
  using assms
proof (induction fuel arbitrary: tag cs b)
  case (Suc fuel)
  consider (ended) "tag = LBER_DEFAULT"
    | (full) "tag \<noteq> LBER_DEFAULT" "\<not> memalloc_ok alloc LDAPCONTROL_SIZE \<or> \<not> memalloc_ok alloc ((of_nat (length cs) + 2) * POINTER_SIZE)"
    | (next') "tag \<noteq> LBER_DEFAULT" "\<not> (\<not> memalloc_ok alloc LDAPCONTROL_SIZE \<or> \<not> memalloc_ok alloc ((of_nat (length cs) + 2) * POINTER_SIZE))"
    by blast
  then show ?case
  proof cases
    case ended
    then show ?thesis by (auto intro: exI [of _ 0])
  next
    case full
    then show ?thesis by (auto simp: ldap_codes intro: exI [of _ 0])
  next
    case next'
    obtain t c n where g: "get_control alloc b = Some (t, c, advance n b)" "n \<le> length (unread b)" "t \<noteq> LBER_DEFAULT \<longrightarrow> 0 < n"
      using get_control_moves [OF Suc.prems(1)] by blast
    let ?b = "advance n b"
    have b: "readable ?b" using g(2) Suc.prems(1) by simp
    obtain t2 l where ne: "ber_next_element ?b stop = Some (t2, l, ?b)"
      using ber_peek_tag_within [OF b] by (cases "ber_ptr ?b = stop") (auto simp: ber_next_element_def)
    show ?thesis
    proof (cases "t = LBER_DEFAULT")
      case True
      then show ?thesis using next' g by (auto simp: ldap_codes)
    next
      case False
      then have "length (unread ?b) + 1 < fuel" using g Suc.prems(2) by simp
      from Suc.IH [OF b this, of t2 "cs @ [c]"] obtain rc cs' m where
        i: "get_controls_loop fuel alloc stop t2 (cs @ [c]) ?b = Some (rc, cs', advance m ?b)" "m \<le> length (unread ?b)"
          "rc \<in> {LDAP_SUCCESS, LDAP_NO_MEMORY, LDAP_DECODING_ERROR} \<and> (rc = LDAP_SUCCESS \<longleftrightarrow> cs' \<noteq> None)" by blast
      then show ?thesis
        using next' g(1,2) False ne
        by (intro exI [of _ rc] exI [of _ cs'] exI [of _ "n + m"]) (auto simp: advance_advance)
    qed
  qed
qed simp

text \<open>
  C33: on any element, however malformed, and however the allocations go, \<open>ldap_int_get_controls\<close> ends; it
  stays within the unread octets, and hands out a vector or says what went wrong.
\<close>

theorem get_controls_ends:
  assumes "readable b"
  shows "\<exists>rc cs n. ldap_int_get_controls alloc wanted b = Some (rc, cs, advance n b) \<and> n \<le> length (unread b)
    \<and> rc \<in> {LDAP_SUCCESS, LDAP_NO_MEMORY, LDAP_DECODING_ERROR} \<and> (cs \<noteq> None \<longrightarrow> rc = LDAP_SUCCESS)"
proof -
  obtain t l where p: "ber_peek_tag b = Some (t, l, b)" using ber_peek_tag_within [OF assms] by blast
  obtain t1 l1 n where s: "ber_skip_tag b = Some (t1, l1, advance n b)" "n \<le> length (unread b)" using skip_moves [OF assms] by blast
  have r: "readable (advance n b)" using assms s(2) by simp
  obtain t2 l2 where p2: "ber_peek_tag (advance n b) = Some (t2, l2, advance n b)" using ber_peek_tag_within [OF r] by blast
  have "length (unread b) \<le> length (ber_block b)" using assms by (auto simp: length_unread) (auto simp: readable_def)
  then have fuel: "length (unread (advance n b)) + 1 < Suc (Suc (length (ber_block b)))" using s(2) by simp
  let ?go = "\<lambda>stop. get_controls_loop (Suc (Suc (length (ber_block b)))) alloc stop t2 [] (advance n b)"
  have ends: "\<exists>rc cs' m. ?go stop = Some (rc, cs', advance m b) \<and> m \<le> length (unread b)
    \<and> rc \<in> {LDAP_SUCCESS, LDAP_NO_MEMORY, LDAP_DECODING_ERROR} \<and> (rc = LDAP_SUCCESS \<longleftrightarrow> cs' \<noteq> None)" for stop
  proof -
    obtain rc cs' m where g: "?go stop = Some (rc, cs', advance m (advance n b))" "m \<le> length (unread (advance n b))"
        "rc \<in> {LDAP_SUCCESS, LDAP_NO_MEMORY, LDAP_DECODING_ERROR}" "rc = LDAP_SUCCESS \<longleftrightarrow> cs' \<noteq> None"
      using get_controls_loop_ends [OF r fuel, of alloc stop t2 "[]"] by blast
    then show ?thesis using s(2)
      by (intro exI [of _ rc] exI [of _ cs'] exI [of _ "n + m"]) (simp add: advance_advance del: get_controls_loop.simps)
  qed
  have here: "ldap_int_get_controls alloc wanted b = Some (rc, cs, b) \<Longrightarrow> rc \<in> {LDAP_SUCCESS, LDAP_NO_MEMORY, LDAP_DECODING_ERROR} \<Longrightarrow>
    (cs \<noteq> None \<longrightarrow> rc = LDAP_SUCCESS) \<Longrightarrow> ?thesis" for rc cs
    by (intro exI [of _ rc] exI [of _ cs] exI [of _ 0]) simp
  consider (none) "\<not> wanted \<or> ber_pvt_ber_remaining b = 0 \<or> t \<noteq> LDAP_TAG_CONTROLS \<or> \<not> memalloc_ok alloc POINTER_SIZE"
    | (some) "wanted" "ber_pvt_ber_remaining b \<noteq> 0" "t = LDAP_TAG_CONTROLS" "memalloc_ok alloc POINTER_SIZE" by blast
  then show ?thesis
  proof cases
    case none
    then have "\<exists>rc. ldap_int_get_controls alloc wanted b = Some (rc, None, b) \<and> rc \<in> {LDAP_SUCCESS, LDAP_NO_MEMORY, LDAP_DECODING_ERROR}"
      using p by (auto simp: ldap_int_get_controls_def)
    then show ?thesis using here by blast
  next
    case some
    then have eq: "ldap_int_get_controls alloc wanted b = (case ber_first_element b of None \<Rightarrow> None
             | Some (tag1, _, stop, ber2) \<Rightarrow>
                (if tag1 = LBER_DEFAULT then Some (LDAP_SUCCESS, Some [], ber2)
                 else case stop of None \<Rightarrow> None
                   | Some stop' \<Rightarrow> get_controls_loop (Suc (Suc (length (ber_block b)))) alloc stop' tag1 [] ber2))"
      using p by (simp add: ldap_int_get_controls_def)
    show ?thesis
    proof (cases "t1 = LBER_DEFAULT \<or> unat l1 = 0 \<or> t2 = LBER_DEFAULT")
      case True
      then have "ldap_int_get_controls alloc wanted b = Some (LDAP_SUCCESS, Some [], advance n b)"
        unfolding eq using s p2 by (auto simp: ber_first_element_def Let_def)
      then show ?thesis using s(2) by auto
    next
      case False
      then have "ldap_int_get_controls alloc wanted b = ?go (ber_ptr (advance n b) + unat l1)"
        unfolding eq using s p2 by (simp add: ber_first_element_def Let_def del: get_controls_loop.simps)
      with ends [of "ber_ptr (advance n b) + unat l1"] show ?thesis by metis
    qed
  qed
qed

theorem get_controls_ends_witness:
  "\<exists>rc cs n. ldap_int_get_controls (\<lambda>n. n < 100) True
      \<lparr>ber_options = 0, ber_usertag = 0, ber_tag = LBER_DEFAULT, ber_len = 0,
       ber_buf = Some [0xa0, 0x05, 0x30, 0x03, 0x04, 0x7f, 0xff], ber_ptr = 0, ber_end = 7, ber_sos = [], ber_rwptr = RwNull\<rparr>
      = Some (rc, cs, n) \<and> rc \<in> {LDAP_SUCCESS, LDAP_NO_MEMORY, LDAP_DECODING_ERROR}"
proof -
  let ?b = "\<lparr>ber_options = 0, ber_usertag = 0, ber_tag = LBER_DEFAULT, ber_len = 0,
    ber_buf = Some [0xa0, 0x05, 0x30, 0x03, 0x04, 0x7f, 0xff], ber_ptr = 0, ber_end = 7, ber_sos = [], ber_rwptr = RwNull\<rparr>"
  have "readable ?b" by (simp add: readable_def ber_block_def)
  then show ?thesis using get_controls_ends [of ?b "\<lambda>n. n < 100" True] by blast
qed

section \<open>What was written\<close>

lemma skip_constructed:
  assumes "readable b" "unread b = constructed der tag cs @ rest" "valid_tag tag" "length cs < 2 ^ 32"
  obtains h where "ber_skip_tag b = Some (tag, of_nat (length cs), advance h b)" "readable (advance h b)"
    "unread (advance h b) = cs @ rest" "h + length cs = length (constructed der tag cs)" "unat (of_nat (length cs) :: u32) = length cs"
proof -
  let ?H = "header der tag (of_nat (length cs))"
  have l: "unat (of_nat (length cs) :: u32) = length cs" using assms(4) by simp
  have u: "unread b = ?H @ cs @ rest" using assms(2) by (simp add: constructed_def)
  show thesis
  proof (rule that [of "length ?H"])
    show "ber_skip_tag b = Some (tag, of_nat (length cs), advance (length ?H) b)"
      by (rule read_header [OF assms(1) u assms(3)]) (simp add: l)
  qed (use assms(1) u l in \<open>simp_all add: constructed_def\<close>)
qed

lemma scanned_string:
  assumes "readable b" "unread b = constructed der LBER_SEQUENCE (tlv LBER_OCTETSTRING s @ ys) @ rest"
    and "length (tlv LBER_OCTETSTRING s @ ys) < 2 ^ 32 - 1"
  obtains h where "ber_scanf ready b ''{a'' [SPtr] = Some (LBER_OCTETSTRING, [ONone, OStr (Some (s @ [0]))], advance h b)"
    "readable (advance h b)" "unread (advance h b) = ys @ rest"
    "h + length ys = length (constructed der LBER_SEQUENCE (tlv LBER_OCTETSTRING s @ ys))"
proof -
  obtain h where h: "ber_skip_tag b = Some (LBER_SEQUENCE, of_nat (length (tlv LBER_OCTETSTRING s @ ys)), advance h b)" "readable (advance h b)"
    "unread (advance h b) = (tlv LBER_OCTETSTRING s @ ys) @ rest"
    "h + length (tlv LBER_OCTETSTRING s @ ys) = length (constructed der LBER_SEQUENCE (tlv LBER_OCTETSTRING s @ ys))"
    using skip_constructed [OF assms(1,2) valid_octetstring(6) less_le_trans [OF assms(3)]] by auto
  let ?n = "length (tlv LBER_OCTETSTRING s)"
  have u: "unread (advance h b) = tlv LBER_OCTETSTRING s @ ys @ rest" using h(3) by simp
  have "length s < 2 ^ 32 - 1" using assms(3) length_tlv_contents [of s LBER_OCTETSTRING] by simp
  then have g: "ber_get_stringa ready (advance h b) = Some (LBER_OCTETSTRING, Some (s @ [0]), advance ?n (advance h b))"
    by (intro ber_get_stringa_tlv [OF h(2) u valid_octetstring(1)]) simp_all
  show thesis
  proof (rule that [of "h + ?n"])
    show "ber_scanf ready b ''{a'' [SPtr] = Some (LBER_OCTETSTRING, [ONone, OStr (Some (s @ [0]))], advance (h + ?n) b)"
      using h(1) g valid_octetstring(1,6) [THEN valid_tag_not_default] by (simp add: ber_scanf_def scanf_conv_simps advance_advance)
    have a: "advance (h + ?n) b = advance ?n (advance h b)" by (simp add: advance_advance)
    show "readable (advance (h + ?n) b)" "unread (advance (h + ?n) b) = ys @ rest" unfolding a using h(2) u by simp_all
  qed (use h(4) in simp)
qed

lemma scanned_boolean:
  assumes "readable b" "unread b = tlv LBER_BOOLEAN [if v then 0xff else 0] @ rest"
  shows "ber_scanf alloc b ''b'' [SPtr] = Some (LBER_BOOLEAN, [OInt (Some (if v then -1 else 0))], advance (length (tlv LBER_BOOLEAN [0])) b)"
  using ber_get_boolean_tlv [OF assms valid_octetstring(3)] valid_octetstring(3) [THEN valid_tag_not_default]
  by (simp add: ber_scanf_def scanf_conv_simps)

lemma scanned_value:
  assumes "readable b" "unread b = tlv LBER_OCTETSTRING s @ rest" "length s < 2 ^ 32 - 1"
  shows "ber_scanf ready b ''o'' [SPtr]
    = Some (LBER_OCTETSTRING, [OBval (of_nat (length s)) (Some (s @ [0]))], advance (length (tlv LBER_OCTETSTRING s)) b)"
  using ber_get_stringa_tlv [OF assms(1,2) valid_octetstring(1) _ assms(3), of ready] ber_peek_tag_tlv [OF assms(1,2) valid_octetstring(1)]
    valid_octetstring(1) [THEN valid_tag_not_default]
  by (simp add: ber_scanf_def scanf_conv_simps)

lemma scast_nonzero:
  assumes "(scast (x :: u8) :: u32) = 0" shows "x = 0"
proof (rule bit_word_eqI)
  fix n assume "n < LENGTH(8)"
  moreover have "\<not> bit (scast x :: u32) n" using assms by simp
  ultimately show "bit x n = bit 0 n" by (simp add: bit_simps)
qed

text \<open>What is read of a control: the strings with their null, and never critical.\<close>

definition has_value :: "ldapcontrol \<Rightarrow> bool" where
  "has_value c \<longleftrightarrow> bv_val (ldctl_value c) \<noteq> None"

definition read_control :: "ldapcontrol \<Rightarrow> ldapcontrol" where
  "read_control c = \<lparr>ldctl_oid = Some (the (ldctl_oid c) @ [0]),
    ldctl_value = (if has_value c then \<lparr>bv_len = of_nat (length (octets_of (ldctl_value c))), bv_val = Some (octets_of (ldctl_value c) @ [0])\<rparr>
      else \<lparr>bv_len = 0, bv_val = None\<rparr>), ldctl_iscritical = 0\<rparr>"

lemma encoded_control:
  "encoded der (control_item c) = constructed der LBER_SEQUENCE (tlv LBER_OCTETSTRING (the (ldctl_oid c))
    @ (if is_critical c then tlv LBER_BOOLEAN [0xff] else []) @ (if has_value c then tlv LBER_OCTETSTRING (octets_of (ldctl_value c)) else []))"
  using scast_nonzero [of "ldctl_iscritical c"] by (auto simp: control_item_def tag_or_def has_value_def is_critical_def)

lemma get_control_reads:
  assumes "readable b" "unread b = encoded der (control_item c) @ rest" "length (encoded der (control_item c)) < 2 ^ 32 - 1"
    and "ber_peek_tag (advance (length (encoded der (control_item c))) b) = Some (t, l, advance (length (encoded der (control_item c))) b)"
    and "t \<noteq> LBER_BOOLEAN" "t \<noteq> LBER_OCTETSTRING"
  shows "get_control ready b = Some (if has_value c then LBER_OCTETSTRING else t, read_control c, advance (length (encoded der (control_item c))) b)"
proof -
  let ?oid = "the (ldctl_oid c)" and ?v = "octets_of (ldctl_value c)" and ?enc = "encoded der (control_item c)"
  let ?crit = "if is_critical c then tlv LBER_BOOLEAN [0xff] else []" and ?val = "if has_value c then tlv LBER_OCTETSTRING ?v else []"
  have inner: "length (tlv LBER_OCTETSTRING ?oid @ ?crit @ ?val) \<le> length ?enc" unfolding encoded_control by (simp add: constructed_def)
  have "unread b = constructed der LBER_SEQUENCE (tlv LBER_OCTETSTRING ?oid @ ?crit @ ?val) @ rest"
    using assms(2) unfolding encoded_control .
  then obtain h where h: "ber_scanf ready b ''{a'' [SPtr] = Some (LBER_OCTETSTRING, [ONone, OStr (Some (?oid @ [0]))], advance h b)"
      "readable (advance h b)" "unread (advance h b) = (?crit @ ?val) @ rest" "h + length (?crit @ ?val) = length ?enc"
    using scanned_string [OF assms(1) _ le_less_trans [OF inner assms(3)]] unfolding encoded_control by blast
  have nd: "LBER_OCTETSTRING \<noteq> LBER_DEFAULT" "LBER_BOOLEAN \<noteq> LBER_DEFAULT" "LBER_OCTETSTRING \<noteq> LBER_BOOLEAN"
    by (simp_all add: LBER_OCTETSTRING_def LBER_DEFAULT_def LBER_BOOLEAN_def)
  let ?b1 = "advance h b" and ?k = "length ?crit"
  let ?b2 = "advance ?k ?b1"
  have b2: "readable ?b2" "unread ?b2 = ?val @ rest" using h(2,3) by simp_all
  have e: "advance (length ?val) ?b2 = advance (length ?enc) b" using h(4) by (simp add: advance_advance add.assoc)
  have p2: "\<exists>l'. ber_peek_tag ?b2 = Some (if has_value c then LBER_OCTETSTRING else t, l', ?b2)"
  proof (cases "has_value c")
    case True
    then show ?thesis using ber_peek_tag_tlv [OF b2(1) _ valid_octetstring(1), of ?v rest] b2(2) by simp
  next
    case False
    then have "?b2 = advance (length ?enc) b" using e by (simp add: advance_def)
    then show ?thesis using assms(4) False by auto
  qed
  have s1: "(case ber_peek_tag ?b1 of None \<Rightarrow> None | Some (t1, l1, b') \<Rightarrow>
      if t1 = LBER_BOOLEAN then (case ber_scanf ready b' ''b'' [SPtr] of
           Some (t, [OInt crit], b) \<Rightarrow> Some (t, (if crit = Some 0 then -1 else 0), b) | _ \<Rightarrow> None)
      else Some (t1, 0, b')) = Some (if is_critical c then LBER_BOOLEAN else if has_value c then LBER_OCTETSTRING else t, 0 :: u8, ?b2)"
  proof (cases "is_critical c")
    case True
    have u: "unread ?b1 = tlv LBER_BOOLEAN [if True then 0xff else 0] @ ?val @ rest" using h(3) True by simp
    then show ?thesis
      using ber_peek_tag_tlv [OF h(2) u valid_octetstring(3)] scanned_boolean [OF h(2) u, of ready] True by (simp add: tlv_def)
  next
    case False
    then have "?b2 = ?b1" by (simp add: advance_def)
    then show ?thesis using p2 False assms(5) nd by auto
  qed
  obtain t1 l1 where p1: "ber_peek_tag ?b1 = Some (t1, l1, ?b1)" using ber_peek_tag_within [OF h(2)] by blast
  let ?T = "if is_critical c then LBER_BOOLEAN else if has_value c then LBER_OCTETSTRING else t"
  have s2: "(if ?T \<noteq> LBER_DEFAULT then map_option (\<lambda>(t, l, b). (t, b)) (ber_peek_tag ?b2) else Some (?T, ?b2))
      = Some (if has_value c then LBER_OCTETSTRING else t, ?b2)"
    using p2 nd by auto
  have "length ?v < 2 ^ 32 - 1" if "has_value c"
    using inner assms(3) that length_tlv_contents [of ?v LBER_OCTETSTRING] by simp
  then have s3: "has_value c \<Longrightarrow> ber_scanf ready ?b2 ''o'' [SPtr]
      = Some (LBER_OCTETSTRING, [OBval (of_nat (length ?v)) (Some (?v @ [0]))], advance (length ?enc) b)"
    using scanned_value [OF b2(1), of ?v rest] b2(2) e by simp
  have "advance (length ?enc) b = ?b2" if "\<not> has_value c" using e that by (simp add: advance_def)
  then show ?thesis
    unfolding get_control_def h(1)
    using p1 s1 s2 s3 nd assms(6) by (cases "has_value c") (simp_all add: read_control_def)
qed

lemma peek_control:
  assumes "readable b" "unread b = encoded der (control_item c) @ rest" "length (encoded der (control_item c)) < 2 ^ 32"
  shows "\<exists>l. ber_peek_tag b = Some (LBER_SEQUENCE, l, b)"
proof -
  obtain cs where cs: "encoded der (control_item c) = constructed der LBER_SEQUENCE cs" unfolding encoded_control by blast
  have "length cs < 2 ^ 32" using assms(3) unfolding cs by (simp add: constructed_def)
  then obtain h where "ber_skip_tag b = Some (LBER_SEQUENCE, of_nat (length cs), advance h b)"
    using skip_constructed [OF assms(1) _ valid_octetstring(6), of der cs rest] assms(2) cs by auto
  then show ?thesis by (simp add: ber_peek_tag_def advance_def)
qed

lemma room_for_control: "n < 2 ^ 29 \<Longrightarrow> memalloc_ok ready ((of_nat n + 2) * POINTER_SIZE)"
proof -
  assume "n < 2 ^ 29"
  then have "(of_nat ((n + 2) * 4) :: u32) \<noteq> 0" by (intro of_nat_u32_nonzero) simp_all
  moreover have "(of_nat ((n + 2) * 4) :: u32) = (of_nat n + 2) * POINTER_SIZE" by (simp add: POINTER_SIZE_def algebra_simps)
  ultimately show ?thesis by (simp add: memalloc_ok_def)
qed

abbreviation control_octets :: "bool \<Rightarrow> ldapcontrol list \<Rightarrow> octets" where
  "control_octets der cs \<equiv> coded der (map control_item cs)"

lemma control_not_Nil: "encoded der (control_item c) \<noteq> []" by (rule encoded_not_Nil)

lemma get_controls_loop_reads:
  assumes "readable b" "unread b = control_octets der cs" "length (control_octets der cs) < 2 ^ 29" "cs \<noteq> []"
    and "stop = ber_ptr b + length (control_octets der cs)" "tag \<noteq> LBER_DEFAULT" "length cs < fuel"
    and "length acc + length cs < 2 ^ 29"
  shows "get_controls_loop fuel ready stop tag acc b =
    Some (if has_value (last cs) then (LDAP_SUCCESS, Some (acc @ map read_control cs), advance (length (control_octets der cs)) b)
          else (LDAP_DECODING_ERROR, None, advance (length (control_octets der cs)) b))"
  using assms
proof (induction cs arbitrary: b fuel tag acc)
  case (Cons c cs)
  let ?enc = "encoded der (control_item c)"
  let ?b = "advance (length ?enc) b"
  obtain f where f: "fuel = Suc f" "length cs < f" using Cons.prems(7) by (cases fuel) auto
  have b: "readable ?b" "unread ?b = control_octets der cs" using Cons.prems(1,2) by simp_all
  have u: "unread b = ?enc @ control_octets der cs" using Cons.prems(2) by simp
  have len: "length ?enc < 2 ^ 32 - 1" using Cons.prems(3) by simp
  have ok: "memalloc_ok ready LDAPCONTROL_SIZE" "memalloc_ok ready ((of_nat (length acc) + 2) * POINTER_SIZE)"
    using room_for_control [of "length acc"] Cons.prems(8) by (simp_all add: memalloc_ok_def LDAPCONTROL_SIZE_def)
  have nd: "LBER_OCTETSTRING \<noteq> LBER_DEFAULT" "LBER_BOOLEAN \<noteq> LBER_DEFAULT" "LBER_SEQUENCE \<noteq> LBER_DEFAULT"
      "LBER_SEQUENCE \<noteq> LBER_BOOLEAN" "LBER_SEQUENCE \<noteq> LBER_OCTETSTRING"
    by (simp_all add: LBER_OCTETSTRING_def LBER_DEFAULT_def LBER_BOOLEAN_def LBER_SEQUENCE_def)
  show ?case
  proof (cases cs)
    case Nil
    obtain l where p: "ber_peek_tag ?b = Some (LBER_DEFAULT, l, ?b)"
      using ber_peek_tag_within [OF b(1)] b(2) Nil by auto
    have g: "get_control ready b = Some (if has_value c then LBER_OCTETSTRING else LBER_DEFAULT, read_control c, ?b)"
      by (rule get_control_reads [OF Cons.prems(1) u len p]) (use nd in auto)
    have "ber_next_element ?b stop = Some (LBER_DEFAULT, None, ?b)" using Cons.prems(5) Nil by (simp add: ber_next_element_def)
    then show ?thesis using f g ok Cons.prems(6) Nil nd by (cases f) auto
  next
    case (Cons c' cs')
    have "\<exists>l. ber_peek_tag ?b = Some (LBER_SEQUENCE, l, ?b)"
      by (rule peek_control [OF b(1), of der c' "control_octets der cs'"]) (use b(2) Cons Cons.prems(3) in simp_all)
    then obtain l where p: "ber_peek_tag ?b = Some (LBER_SEQUENCE, l, ?b)" by blast
    have g: "get_control ready b = Some (if has_value c then LBER_OCTETSTRING else LBER_SEQUENCE, read_control c, ?b)"
      by (rule get_control_reads [OF Cons.prems(1) u len p]) (use nd in auto)
    have "ber_ptr ?b \<noteq> stop" using Cons.prems(5) Cons control_not_Nil [of der c'] by simp
    then have n: "ber_next_element ?b stop = Some (LBER_SEQUENCE, Some l, ?b)" using p by (simp add: ber_next_element_def)
    have "get_controls_loop f ready stop LBER_SEQUENCE (acc @ [read_control c]) ?b =
      Some (if has_value (last cs) then (LDAP_SUCCESS, Some ((acc @ [read_control c]) @ map read_control cs), advance (length (control_octets der cs)) ?b)
          else (LDAP_DECODING_ERROR, None, advance (length (control_octets der cs)) ?b))"
      by (rule Cons.IH [OF b _ _ _ nd(3) f(2)]) (use Cons.prems Cons in simp_all)
    then show ?thesis using f(1) g ok Cons.prems(6) n nd Cons by (simp add: advance_advance)
  qed
qed simp

lemma length_control: "4 \<le> length (encoded der (control_item c))"
proof -
  have "2 \<le> length (tlv tag s)" for tag s
    using taglen_bounds [of tag] length_len_octets [of "of_nat (length s)"] ber_calc_lenlen_bounds [of "of_nat (length s)"]
    by (simp add: tlv_def tag_octets_def)
  from this [of LBER_OCTETSTRING] have "2 \<le> length (tlv LBER_OCTETSTRING (the (ldctl_oid c)))" .
  moreover have "2 \<le> length (header der LBER_SEQUENCE len)" for len
    using length_header [of der LBER_SEQUENCE len] taglen_bounds [of LBER_SEQUENCE] ber_calc_lenlen_bounds [of len] by simp
  ultimately show ?thesis unfolding encoded_control by (simp add: constructed_def add_le_mono [of 2 _ 2, simplified] trans_le_add1)
qed

lemma control_count: "length cs \<le> length (control_octets der cs)"
proof (induction cs)
  case (Cons c cs)
  then show ?case using length_control [of der c] by simp
qed simp

lemma read_controls:
  assumes "readable b" "unread b = encoded der (ISeq (Some LDAP_TAG_CONTROLS) (map control_item cs))" "cs \<noteq> []"
    and "length (control_octets der cs) < 2 ^ 29"
  shows "\<exists>b'. ldap_int_get_controls ready True b =
    Some (if has_value (last cs) then (LDAP_SUCCESS, Some (map read_control cs), b') else (LDAP_DECODING_ERROR, None, b'))"
proof -
  let ?cs = "control_octets der cs"
  have T: "valid_tag LDAP_TAG_CONTROLS" using context_tags(1) by (simp add: short_tag_def)
  have small: "length ?cs < 2 ^ 32" by (rule less_trans [OF assms(4)]) simp
  have u: "unread b = constructed der LDAP_TAG_CONTROLS ?cs @ []" using assms(2) by (simp add: tag_or_def)
  obtain h where h: "ber_skip_tag b = Some (LDAP_TAG_CONTROLS, of_nat (length ?cs), advance h b)" "readable (advance h b)"
    "unread (advance h b) = ?cs @ []" "unat (of_nat (length ?cs) :: u32) = length ?cs"
    using skip_constructed [OF assms(1) u T small] by blast
  have len: "length (unread b) < 2 ^ 32" by (rule length_unread_less [OF assms(1)])
  moreover have "unread b \<noteq> []" unfolding u by (simp add: constructed_def header_def)
  ultimately have rem: "ber_pvt_ber_remaining b \<noteq> 0"
    unfolding ber_pvt_ber_remaining_eq [OF assms(1)] by (intro of_nat_u32_nonzero) simp_all
  have p: "ber_peek_tag b = Some (LDAP_TAG_CONTROLS, of_nat (length ?cs), b)"
    using h(1) by (simp add: ber_peek_tag_def advance_def)
  obtain c cs' where cs: "cs = c # cs'" using assms(3) by (cases cs) auto
  have "\<exists>l. ber_peek_tag (advance h b) = Some (LBER_SEQUENCE, l, advance h b)"
    by (rule peek_control [OF h(2), of der c "control_octets der cs'"]) (use h(3) cs small in simp_all)
  then obtain l where p1: "ber_peek_tag (advance h b) = Some (LBER_SEQUENCE, l, advance h b)" by blast
  have pos: "length ?cs \<noteq> 0" using cs control_not_Nil [of der c] by simp
  have nd: "LDAP_TAG_CONTROLS \<noteq> LBER_DEFAULT" "LBER_SEQUENCE \<noteq> LBER_DEFAULT"
    by (simp_all add: LDAP_TAG_CONTROLS_def LBER_DEFAULT_def LBER_SEQUENCE_def)
  have f: "ber_first_element b = Some (LBER_SEQUENCE, l, Some (ber_ptr (advance h b) + length ?cs), advance h b)"
    using h(1,4) p1 pos nd by (simp add: ber_first_element_def Let_def)
  have "length ?cs \<le> length (unread b)" unfolding u by (simp add: constructed_def)
  also have "\<dots> \<le> length (ber_block b)" using assms(1) by (auto simp: length_unread) (auto simp: readable_def)
  finally have fuel: "length cs < Suc (Suc (length (ber_block b)))" using control_count [of cs der] by simp
  have "get_controls_loop (Suc (Suc (length (ber_block b)))) ready (ber_ptr (advance h b) + length ?cs) LBER_SEQUENCE [] (advance h b) =
    Some (if has_value (last cs) then (LDAP_SUCCESS, Some ([] @ map read_control cs), advance (length ?cs) (advance h b))
          else (LDAP_DECODING_ERROR, None, advance (length ?cs) (advance h b)))"
    by (rule get_controls_loop_reads [OF h(2) _ assms(4,3) refl nd(2) fuel])
      (use h(3) control_count [of cs der] assms(4) in simp_all)
  then have "ldap_int_get_controls ready True b =
    Some (if has_value (last cs) then (LDAP_SUCCESS, Some (map read_control cs), advance (length ?cs) (advance h b))
          else (LDAP_DECODING_ERROR, None, advance (length ?cs) (advance h b)))"
    using rem p f nd by (simp add: ldap_int_get_controls_def memalloc_ok_def POINTER_SIZE_def del: get_controls_loop.simps)
  then show ?thesis by auto
qed

text \<open>
  C35: controls written by \<open>ldap_int_put_controls\<close> and read by \<open>ldap_int_get_controls\<close> come back in order with
  their object identifiers and values, but none of them critical any more; when the last one has no value
  the whole vector is given up with a decoding error.
\<close>

theorem controls_round_trip:
  assumes "cs \<noteq> []" "list_all control_ok cs" "LDAP_VERSION3 \<le> sint (ld_version ld)"
    and "bulk (ISeq (Some LDAP_TAG_CONTROLS) (map control_item cs)) < 2 ^ 29"
  shows "\<exists>b b'. ldap_int_put_controls ready_alloc ld (Some cs) (fresh options) = Some (LDAP_SUCCESS, ld, b)
    \<and> ldap_int_get_controls ready True (ber_reset b True) =
        Some (if has_value (last cs) then (LDAP_SUCCESS, Some (map read_control cs), b') else (LDAP_DECODING_ERROR, None, b'))"
proof -
  let ?x = "ISeq (Some LDAP_TAG_CONTROLS) (map control_item cs)" and ?der = "options AND LBER_USE_DER \<noteq> 0"
  have items: "control_items ld (Some cs) = [?x]" using assms(1,3) by (simp add: control_items_def server_controls_def)
  have ok: "controls_ok ld (Some cs)" using assms(2,3) by (simp add: controls_ok_def server_controls_def)
  have room: "room_for (fresh options) 0 (add_items (control_items ld (Some cs)) ([], []))"
    unfolding items by (rule fresh_room) (use assms(4) items_ok(1) context_tags in \<open>simp_all add: bulk_building_def write_limit_def\<close>)
  obtain b where b: "ldap_int_put_controls ready_alloc ld (Some cs) (fresh options) = Some (LDAP_SUCCESS, ld, b)"
      "holds (fresh options) ([], [?x]) b"
    using put_controls_holds [OF ready_alloc holds_fresh ok room] items by auto
  have "ber_use_der (fresh options) = ?der" by simp
  then have w: "writes (fresh options) (encoded ?der ?x) b" using b(2) by (simp add: holds_simps)
  have enc: "length (encoded ?der ?x) \<le> bulk ?x" by (rule length_encoded_le)
  have "readable (ber_reset b True)" "unread (ber_reset b True) = encoded ?der ?x"
    using reset_written [OF w encoded_not_Nil] enc assms(4) by (simp_all add: write_limit_def)
  moreover have "length (control_octets ?der cs) < 2 ^ 29"
    using enc assms(4) by (simp add: constructed_def)
  ultimately show ?thesis using b(1) read_controls [of "ber_reset b True" ?der cs] assms(1) by blast
qed

theorem controls_round_trip_witness:
  "\<exists>b b'. ldap_int_put_controls ready_alloc demo_ldap (Some [demo_control]) (fresh 0) = Some (LDAP_SUCCESS, demo_ldap, b)
    \<and> ldap_int_get_controls ready True (ber_reset b True) = Some (LDAP_SUCCESS, Some [\<lparr>ldctl_oid = Some [0x31, 0x2e, 0x32, 0],
        ldctl_value = \<lparr>bv_len = 1, bv_val = Some [7, 0]\<rparr>, ldctl_iscritical = 0\<rparr>], b')"
proof -
  have "list_all control_ok [demo_control]" "LDAP_VERSION3 \<le> sint (ld_version demo_ldap)"
    by (simp_all add: control_ok_def demo_control_def demo_ldap_def value_octets_def ldap_codes)
  moreover have "bulk (ISeq (Some LDAP_TAG_CONTROLS) (map control_item [demo_control])) < 2 ^ 29"
    by (simp add: demo_control_def control_item_def is_critical_def octets_of_def value_octets_def)
  ultimately show ?thesis
    using controls_round_trip [of "[demo_control]" demo_ldap 0]
    by (simp add: has_value_def read_control_def demo_control_def octets_of_def value_octets_def)
qed

end
