(* ===== verification/Avl.thy ===== *)
theory Avl imports Ldap_Prelude begin

text \<open>
  The balanced trees of libraries/libavl/avl.c.  A tree of the code is a pointer to a node with
  a data pointer, a balance factor and two subtrees; here it is the datatype below, and a routine
  that updates the tree through a pointer returns the new one.  A comparison function of the code
  is a function parameter of the model.  The result \<open>None\<close> stands for a run the C language leaves
  undefined (reading an uninitialised variable, following a null pointer) or for the exit of the
  rotation macros.
\<close>

section \<open>Nodes, balance factors and rotations\<close>

datatype balance = LH | EH | RH

datatype 'a avlnode = Null | Avlnode "'a avlnode" 'a balance "'a avlnode"

fun ROTATERIGHT :: "'a avlnode \<Rightarrow> 'a avlnode option" where
  "ROTATERIGHT (Avlnode (Avlnode ll lx lb lr) x b r) = Some (Avlnode ll lx lb (Avlnode lr x b r))"
| "ROTATERIGHT _ = None"

fun ROTATELEFT :: "'a avlnode \<Rightarrow> 'a avlnode option" where
  "ROTATELEFT (Avlnode l x b (Avlnode rl rx rb rr)) = Some (Avlnode (Avlnode l x b rl) rx rb rr)"
| "ROTATELEFT _ = None"

fun set_bf :: "balance \<Rightarrow> 'a avlnode \<Rightarrow> 'a avlnode" where
  "set_bf b' Null = Null"
| "set_bf b' (Avlnode l x b r) = Avlnode l x b' r"

section \<open>Insertion\<close>

text \<open>
  The switch of \<open>ravl_insert\<close> after the right (left) subtree grew.  The flag written through the
  pointer \<open>taller\<close> is an option: \<open>None\<close> where the code leaves the caller's variable as it was,
  which for every recursive call is uninitialised.
\<close>

fun insert_grown_right :: "'a avlnode \<Rightarrow> 'a \<Rightarrow> balance \<Rightarrow> 'a avlnode
    \<Rightarrow> ('a avlnode \<times> bool option) option" where
  "insert_grown_right t x LH r = Some (Avlnode t x EH r, Some False)"
| "insert_grown_right t x EH r = Some (Avlnode t x RH r, Some True)"
| "insert_grown_right t x RH Null = None"
| "insert_grown_right t x RH (Avlnode rl rx LH rr) =
    (case rl of Null \<Rightarrow> None
     | Avlnode ll lx lb lr \<Rightarrow>
        (let (rootb, rb) = (case lb of LH \<Rightarrow> (EH, RH) | EH \<Rightarrow> (EH, EH) | RH \<Rightarrow> (LH, EH)) in
         case ROTATERIGHT (Avlnode (set_bf EH rl) rx rb rr) of None \<Rightarrow> None
         | Some r' \<Rightarrow> map_option (\<lambda>t'. (t', Some False)) (ROTATELEFT (Avlnode t x rootb r'))))"
| "insert_grown_right t x RH (Avlnode rl rx EH rr) = Some (Avlnode t x RH (Avlnode rl rx EH rr), None)"
| "insert_grown_right t x RH (Avlnode rl rx RH rr) =
    map_option (\<lambda>t'. (t', Some False)) (ROTATELEFT (Avlnode t x EH (Avlnode rl rx EH rr)))"

fun insert_grown_left :: "'a avlnode \<Rightarrow> 'a \<Rightarrow> balance \<Rightarrow> 'a avlnode
    \<Rightarrow> ('a avlnode \<times> bool option) option" where
  "insert_grown_left Null x LH t = None"
| "insert_grown_left (Avlnode ll lx LH lr) x LH t =
    map_option (\<lambda>t'. (t', Some False)) (ROTATERIGHT (Avlnode (Avlnode ll lx EH lr) x EH t))"
| "insert_grown_left (Avlnode ll lx EH lr) x LH t = Some (Avlnode (Avlnode ll lx EH lr) x LH t, None)"
| "insert_grown_left (Avlnode ll lx RH lr) x LH t =
    (case lr of Null \<Rightarrow> None
     | Avlnode rl rx rb rr \<Rightarrow>
        (let (rootb, lb) = (case rb of LH \<Rightarrow> (RH, EH) | EH \<Rightarrow> (EH, EH) | RH \<Rightarrow> (EH, LH)) in
         case ROTATELEFT (Avlnode ll lx lb (set_bf EH lr)) of None \<Rightarrow> None
         | Some l' \<Rightarrow> map_option (\<lambda>t'. (t', Some False)) (ROTATERIGHT (Avlnode l' x rootb t))))"
| "insert_grown_left l x EH t = Some (Avlnode l x LH t, Some True)"
| "insert_grown_left l x RH t = Some (Avlnode l x EH t, Some False)"

text \<open>
  \<open>alloc\<close> says whether the one allocation succeeds.  \<open>fdup\<close> is given the node's data and the
  incoming data; it returns the code's return value and the node's data after the call, since a
  duplicate handler may update it in place.
\<close>

fun ravl_insert :: "('a \<Rightarrow> 'a \<Rightarrow> int) \<Rightarrow> ('a \<Rightarrow> 'a \<Rightarrow> int \<times> 'a) \<Rightarrow> bool \<Rightarrow> 'a \<Rightarrow> 'a avlnode
    \<Rightarrow> ('a avlnode \<times> int \<times> bool option) option" where
  "ravl_insert fcmp fdup alloc data Null =
    (if \<not> alloc then Some (Null, -1, None)
     else Some (Avlnode Null data EH Null, 0, Some True))"
| "ravl_insert fcmp fdup alloc data (Avlnode l x b r) =
    (let cmp = fcmp data x in
     if cmp = 0 then
       (let (rc, x') = fdup x data in Some (Avlnode l x' b r, rc, Some False))
     else if cmp > 0 then
       (case ravl_insert fcmp fdup alloc data r of
          Some (r', rc, Some True) \<Rightarrow>
            map_option (\<lambda>(t, taller). (t, rc, taller)) (insert_grown_right l x b r')
        | Some (r', rc, Some False) \<Rightarrow> Some (Avlnode l x b r', rc, Some False)
        | _ \<Rightarrow> None)
     else
       (case ravl_insert fcmp fdup alloc data l of
          Some (l', rc, Some True) \<Rightarrow>
            map_option (\<lambda>(t, taller). (t, rc, taller)) (insert_grown_left l' x b r)
        | Some (l', rc, Some False) \<Rightarrow> Some (Avlnode l' x b r, rc, Some False)
        | _ \<Rightarrow> None))"

definition avl_insert :: "('a \<Rightarrow> 'a \<Rightarrow> int) \<Rightarrow> ('a \<Rightarrow> 'a \<Rightarrow> int \<times> 'a) \<Rightarrow> bool \<Rightarrow> 'a \<Rightarrow> 'a avlnode
    \<Rightarrow> ('a avlnode \<times> int) option" where
  "avl_insert fcmp fdup alloc data root =
    map_option (\<lambda>(t, rc, taller). (t, rc)) (ravl_insert fcmp fdup alloc data root)"

definition avl_dup_error :: "'a \<Rightarrow> 'a \<Rightarrow> int \<times> 'a" where
  "avl_dup_error left right = (-1, left)"

definition avl_dup_ok :: "'a \<Rightarrow> 'a \<Rightarrow> int \<times> 'a" where
  "avl_dup_ok left right = (0, left)"


section \<open>Deletion\<close>

text \<open>
  \<open>right_balance\<close> (\<open>left_balance\<close>) is called when the right (left) subtree got shorter; the
  flag it returns says whether the whole tree did.
\<close>

fun right_balance :: "'a avlnode \<Rightarrow> ('a avlnode \<times> bool) option" where
  "right_balance Null = None"
| "right_balance (Avlnode l x RH r) = Some (Avlnode l x EH r, True)"
| "right_balance (Avlnode l x EH r) = Some (Avlnode l x LH r, False)"
| "right_balance (Avlnode Null x LH r) = None"
| "right_balance (Avlnode (Avlnode ll lx RH lr) x LH t) =
    (case lr of Null \<Rightarrow> None
     | Avlnode rl rx rb rr \<Rightarrow>
        (let (rootb, lb) = (case rb of RH \<Rightarrow> (EH, LH) | EH \<Rightarrow> (EH, EH) | LH \<Rightarrow> (RH, EH)) in
         case ROTATELEFT (Avlnode ll lx lb (set_bf EH lr)) of None \<Rightarrow> None
         | Some l' \<Rightarrow> map_option (\<lambda>t'. (t', True)) (ROTATERIGHT (Avlnode l' x rootb t))))"
| "right_balance (Avlnode (Avlnode ll lx EH lr) x LH t) =
    map_option (\<lambda>t'. (t', False)) (ROTATERIGHT (Avlnode (Avlnode ll lx RH lr) x LH t))"
| "right_balance (Avlnode (Avlnode ll lx LH lr) x LH t) =
    map_option (\<lambda>t'. (t', True)) (ROTATERIGHT (Avlnode (Avlnode ll lx EH lr) x EH t))"

fun left_balance :: "'a avlnode \<Rightarrow> ('a avlnode \<times> bool) option" where
  "left_balance Null = None"
| "left_balance (Avlnode l x LH r) = Some (Avlnode l x EH r, True)"
| "left_balance (Avlnode l x EH r) = Some (Avlnode l x RH r, False)"
| "left_balance (Avlnode l x RH Null) = None"
| "left_balance (Avlnode t x RH (Avlnode rl rx LH rr)) =
    (case rl of Null \<Rightarrow> None
     | Avlnode ll lx lb lr \<Rightarrow>
        (let (rootb, rb) = (case lb of LH \<Rightarrow> (EH, RH) | EH \<Rightarrow> (EH, EH) | RH \<Rightarrow> (LH, EH)) in
         case ROTATERIGHT (Avlnode (set_bf EH rl) rx rb rr) of None \<Rightarrow> None
         | Some r' \<Rightarrow> map_option (\<lambda>t'. (t', True)) (ROTATELEFT (Avlnode t x rootb r'))))"
| "left_balance (Avlnode t x RH (Avlnode rl rx EH rr)) =
    map_option (\<lambda>t'. (t', False)) (ROTATELEFT (Avlnode t x RH (Avlnode rl rx LH rr)))"
| "left_balance (Avlnode t x RH (Avlnode rl rx RH rr)) =
    map_option (\<lambda>t'. (t', True)) (ROTATELEFT (Avlnode t x EH (Avlnode rl rx EH rr)))"

text \<open>
  The loop that follows left pointers from the right child, and the swap that leaves the deleted
  data in the node it ends at.
\<close>

fun minnode_data :: "'a \<Rightarrow> 'a avlnode \<Rightarrow> 'a" where
  "minnode_data d Null = d"
| "minnode_data d (Avlnode l x b r) = minnode_data x l"

fun set_minnode_data :: "'a \<Rightarrow> 'a avlnode \<Rightarrow> 'a avlnode" where
  "set_minnode_data d Null = Null"
| "set_minnode_data d (Avlnode Null x b r) = Avlnode Null d b r"
| "set_minnode_data d (Avlnode (Avlnode ll lx lb lr) x b r) =
     Avlnode (set_minnode_data d (Avlnode ll lx lb lr)) x b r"

lemma size_set_minnode_data [simp, termination_simp]: "size (set_minnode_data d t) = size t"
  by (induction d t rule: set_minnode_data.induct) auto

text \<open>
  \<open>ravl_delete\<close> returns the tree, the removed data (\<open>None\<close> for the null pointer) and the flag
  \<open>shorter\<close>, which every caller initialises to 0.
\<close>

function ravl_delete :: "('a \<Rightarrow> 'a \<Rightarrow> int) \<Rightarrow> 'a \<Rightarrow> 'a avlnode
    \<Rightarrow> ('a avlnode \<times> 'a option \<times> bool) option" where
  "ravl_delete fcmp data Null = Some (Null, None, False)"
| "ravl_delete fcmp data (Avlnode l x b r) =
    (let cmp = fcmp data x in
     if cmp = 0 then
       (if l = Null then Some (r, Some x, True)
        else if r = Null then Some (l, Some x, True)
        else
          (case ravl_delete fcmp data (set_minnode_data x r) of
             None \<Rightarrow> None
           | Some (r', saved, subshorter) \<Rightarrow>
              (let root = Avlnode l (minnode_data x r) b r' in
               if subshorter
               then map_option (\<lambda>(t, shorter). (t, saved, shorter)) (right_balance root)
               else Some (root, saved, False))))
     else if cmp < 0 then
       (case ravl_delete fcmp data l of
          None \<Rightarrow> None
        | Some (l', None, subshorter) \<Rightarrow> Some (Avlnode l' x b r, None, False)
        | Some (l', Some saved, subshorter) \<Rightarrow>
           (if subshorter
            then map_option (\<lambda>(t, shorter). (t, Some saved, shorter))
                   (left_balance (Avlnode l' x b r))
            else Some (Avlnode l' x b r, Some saved, False)))
     else
       (case ravl_delete fcmp data r of
          None \<Rightarrow> None
        | Some (r', None, subshorter) \<Rightarrow> Some (Avlnode l x b r', None, False)
        | Some (r', Some saved, subshorter) \<Rightarrow>
           (if subshorter
            then map_option (\<lambda>(t, shorter). (t, Some saved, shorter))
                   (right_balance (Avlnode l x b r'))
            else Some (Avlnode l x b r', Some saved, False))))"
  by pat_completeness auto
termination
  by (relation "measure (\<lambda>(fcmp, data, t). size t)") auto

definition avl_delete :: "('a \<Rightarrow> 'a \<Rightarrow> int) \<Rightarrow> 'a \<Rightarrow> 'a avlnode
    \<Rightarrow> ('a avlnode \<times> 'a option) option" where
  "avl_delete fcmp data root = map_option (\<lambda>(t, saved, shorter). (t, saved)) (ravl_delete fcmp data root)"

section \<open>Lookup\<close>

fun avl_find :: "('a \<Rightarrow> 'a \<Rightarrow> int) \<Rightarrow> 'a \<Rightarrow> 'a avlnode \<Rightarrow> 'a option" where
  "avl_find fcmp data Null = None"
| "avl_find fcmp data (Avlnode l x b r) =
    (let cmp = fcmp data x in
     if cmp \<noteq> 0 then (if cmp < 0 then avl_find fcmp data l else avl_find fcmp data r)
     else Some x)"

fun avl_find_lin :: "('a \<Rightarrow> 'a \<Rightarrow> int) \<Rightarrow> 'a \<Rightarrow> 'a avlnode \<Rightarrow> 'a option" where
  "avl_find_lin fcmp data Null = None"
| "avl_find_lin fcmp data (Avlnode l x b r) =
    (if fcmp data x = 0 then Some x
     else case (if l \<noteq> Null then avl_find_lin fcmp data l else None) of
            Some res \<Rightarrow> Some res
          | None \<Rightarrow> (if r = Null then None else avl_find_lin fcmp data r))"

section \<open>Traversal\<close>

text \<open>
  A visitor gets the data and the caller's argument; what it does through the argument is a state
  the model threads.  \<open>AVL_NOMORE\<close> is the value that says the traversal ran out of nodes.
\<close>

type_synonym ('a, 's) visitor = "'a \<Rightarrow> 's \<Rightarrow> int \<times> 's"

definition AVL_NOMORE :: int where
  "AVL_NOMORE = -6"

fun avl_inapply :: "('a, 's) visitor \<Rightarrow> int \<Rightarrow> 'a avlnode \<Rightarrow> 's \<Rightarrow> int \<times> 's" where
  "avl_inapply fn stopflag Null s = (AVL_NOMORE, s)"
| "avl_inapply fn stopflag (Avlnode l x b r) s =
    (let (rl, s1) = (if l \<noteq> Null then avl_inapply fn stopflag l s else (AVL_NOMORE, s)) in
     if l \<noteq> Null \<and> rl = stopflag then (stopflag, s1)
     else let (rx, s2) = fn x s1 in
       if rx = stopflag then (stopflag, s2)
       else if r = Null then (AVL_NOMORE, s2)
       else avl_inapply fn stopflag r s2)"

fun avl_postapply :: "('a, 's) visitor \<Rightarrow> int \<Rightarrow> 'a avlnode \<Rightarrow> 's \<Rightarrow> int \<times> 's" where
  "avl_postapply fn stopflag Null s = (AVL_NOMORE, s)"
| "avl_postapply fn stopflag (Avlnode l x b r) s =
    (let (rl, s1) = (if l \<noteq> Null then avl_postapply fn stopflag l s else (AVL_NOMORE, s)) in
     if l \<noteq> Null \<and> rl = stopflag then (stopflag, s1)
     else let (rr, s2) = (if r \<noteq> Null then avl_postapply fn stopflag r s1 else (AVL_NOMORE, s1)) in
       if r \<noteq> Null \<and> rr = stopflag then (stopflag, s2)
       else fn x s2)"

fun avl_preapply :: "('a, 's) visitor \<Rightarrow> int \<Rightarrow> 'a avlnode \<Rightarrow> 's \<Rightarrow> int \<times> 's" where
  "avl_preapply fn stopflag Null s = (AVL_NOMORE, s)"
| "avl_preapply fn stopflag (Avlnode l x b r) s =
    (let (rx, s1) = fn x s in
     if rx = stopflag then (stopflag, s1)
     else let (rl, s2) = (if l \<noteq> Null then avl_preapply fn stopflag l s1 else (AVL_NOMORE, s1)) in
       if l \<noteq> Null \<and> rl = stopflag then (stopflag, s2)
       else if r = Null then (AVL_NOMORE, s2)
       else avl_preapply fn stopflag r s2)"

definition AVL_PREORDER :: int where "AVL_PREORDER = 1"
definition AVL_INORDER :: int where "AVL_INORDER = 2"
definition AVL_POSTORDER :: int where "AVL_POSTORDER = 3"

definition avl_apply :: "'a avlnode \<Rightarrow> ('a, 's) visitor \<Rightarrow> int \<Rightarrow> int \<Rightarrow> 's \<Rightarrow> int \<times> 's" where
  "avl_apply root fn stopflag type s =
    (if type = AVL_INORDER then avl_inapply fn stopflag root s
     else if type = AVL_PREORDER then avl_preapply fn stopflag root s
     else if type = AVL_POSTORDER then avl_postapply fn stopflag root s
     else (-1, s))"

fun avl_prefixapply :: "('a \<Rightarrow> 'a \<Rightarrow> int) \<Rightarrow> 'a \<Rightarrow> ('a, 's) visitor \<Rightarrow> int \<Rightarrow> 'a avlnode \<Rightarrow> 's
    \<Rightarrow> int \<times> 's" where
  "avl_prefixapply fcmp data fmatch stopflag Null s = (AVL_NOMORE, s)"
| "avl_prefixapply fcmp data fmatch stopflag (Avlnode l x b r) s =
    (let cmp = fcmp data x in
     if cmp = 0 then
       (let (rx, s1) = fmatch x s in
        if rx = stopflag then (stopflag, s1)
        else
          let (rl, s2) = (if l \<noteq> Null then avl_prefixapply fcmp data fmatch stopflag l s1
                          else (AVL_NOMORE, s1)) in
          if l \<noteq> Null \<and> rl = stopflag then (stopflag, s2)
          else if r \<noteq> Null then avl_prefixapply fcmp data fmatch stopflag r s2
          else (AVL_NOMORE, s2))
     else if cmp < 0 then
       (if l \<noteq> Null then avl_prefixapply fcmp data fmatch stopflag l s else (AVL_NOMORE, s))
     else
       (if r \<noteq> Null then avl_prefixapply fcmp data fmatch stopflag r s else (AVL_NOMORE, s)))"

text \<open>\<open>dfree\<close> is \<open>None\<close> for the null function pointer; its effect is a state change.\<close>

fun avl_free :: "('a \<Rightarrow> 's \<Rightarrow> 's) option \<Rightarrow> 'a avlnode \<Rightarrow> 's \<Rightarrow> nat \<times> 's" where
  "avl_free dfree Null s = (0, s)"
| "avl_free dfree (Avlnode l x b r) s =
    (let (nleft, s1) = (if l \<noteq> Null then avl_free dfree l s else (0, s));
         (nright, s2) = (if r \<noteq> Null then avl_free dfree r s1 else (0, s1));
         s3 = (case dfree of None \<Rightarrow> s2 | Some f \<Rightarrow> f x s2)
     in (nleft + nright + 1, s3))"

section \<open>The non-reentrant iterator\<close>

text \<open>
  The static variables of the iterator.  A cell of \<open>avl_list\<close> is \<open>None\<close> until it is written;
  \<open>avl_list = None\<close> is the null pointer.
\<close>

record 'a avl_iter =
  avl_list :: "'a option list option"
  avl_maxlist :: nat
  avl_nextlist :: nat
  slots :: nat

definition AVL_GRABSIZE :: nat where
  "AVL_GRABSIZE = 100"

text \<open>
  \<open>alloc n\<close> says whether room for \<open>n\<close> pointers can be had.  The code does not check, so the write
  through a null pointer makes the run undefined.
\<close>

definition avl_buildlist :: "(nat \<Rightarrow> bool) \<Rightarrow> ('a, 'a avl_iter option) visitor" where
  "avl_buildlist alloc data st =
    (case st of None \<Rightarrow> (0, None)
     | Some s \<Rightarrow>
        (let s1 = (case avl_list s of
            None \<Rightarrow> s\<lparr>avl_list := (if alloc AVL_GRABSIZE then Some (replicate AVL_GRABSIZE None) else None),
                      slots := AVL_GRABSIZE, avl_maxlist := 0\<rparr>
          | Some cells \<Rightarrow>
              (if avl_maxlist s = slots s then
                 s\<lparr>slots := slots s + AVL_GRABSIZE,
                   avl_list := (if alloc (slots s + AVL_GRABSIZE)
                     then Some (cells @ replicate AVL_GRABSIZE None) else None)\<rparr>
               else s))
         in case avl_list s1 of
              None \<Rightarrow> (0, None)
            | Some cells \<Rightarrow>
                (if avl_maxlist s1 < length cells then
                   (0, Some (s1\<lparr>avl_list := Some (cells[avl_maxlist s1 := Some data]),
                                avl_maxlist := Suc (avl_maxlist s1)\<rparr>))
                 else (0, None))))"

text \<open>Reading the next cell; outside the array or before it was written the run is undefined.\<close>

definition next_cell :: "'a avl_iter \<Rightarrow> ('a option \<times> 'a avl_iter) option" where
  "next_cell s =
    (case avl_list s of None \<Rightarrow> None
     | Some cells \<Rightarrow>
        (if avl_nextlist s < length cells \<and> cells ! avl_nextlist s \<noteq> None
         then Some (cells ! avl_nextlist s, s\<lparr>avl_nextlist := Suc (avl_nextlist s)\<rparr>)
         else None))"

definition avl_getfirst :: "(nat \<Rightarrow> bool) \<Rightarrow> 'a avlnode \<Rightarrow> 'a avl_iter
    \<Rightarrow> ('a option \<times> 'a avl_iter) option" where
  "avl_getfirst alloc root s =
    (let s1 = s\<lparr>avl_list := None, avl_maxlist := 0, avl_nextlist := 0\<rparr> in
     if root = Null then Some (None, s1)
     else case snd (avl_apply root (avl_buildlist alloc) (-1) AVL_INORDER (Some s1)) of
            None \<Rightarrow> None
          | Some s2 \<Rightarrow> next_cell s2)"

definition avl_getnext :: "'a avl_iter \<Rightarrow> ('a option \<times> 'a avl_iter) option" where
  "avl_getnext s =
    (if avl_list s = None then Some (None, s)
     else if avl_nextlist s = avl_maxlist s then Some (None, s\<lparr>avl_list := None\<rparr>)
     else next_cell s)"

end
