(* ===== verification/C_Strings.thy ===== *)
theory C_Strings imports Ldap_Prelude begin

text \<open>
  The C library's string functions the sources call, on octet strings.  A C string is the list of
  its octets without the terminating null; \<open>strcmp\<close> orders octets as unsigned characters and the
  value it returns is fixed to -1, 0 or 1 (the standard fixes its sign).
\<close>

text \<open>A string literal of the sources.\<close>

definition ascii :: "string \<Rightarrow> octets" where
  "ascii s = map of_char s"

fun strcmp :: "octets \<Rightarrow> octets \<Rightarrow> int" where
  "strcmp [] [] = 0"
| "strcmp [] (y # ys) = -1"
| "strcmp (x # xs) [] = 1"
| "strcmp (x # xs) (y # ys) = (if x = y then strcmp xs ys else if x < y then -1 else 1)"

lemma strcmp_equal [simp]: "(strcmp xs ys = 0) = (xs = ys)"
  by (induction xs ys rule: strcmp.induct) auto

lemma strcmp_flip: "(strcmp xs ys < 0) = (0 < strcmp ys xs)"
  by (induction xs ys rule: strcmp.induct) auto

lemma strcmp_trans: "strcmp xs ys < 0 \<Longrightarrow> strcmp ys zs < 0 \<Longrightarrow> strcmp xs zs < 0"
proof (induction xs ys arbitrary: zs rule: strcmp.induct)
  case (2 y ys)
  then show ?case by (cases zs) auto
next
  case (4 x xs y ys)
  then show ?case by (cases zs) (auto split: if_splits)
qed auto

text \<open>The C locale: the classes hold octets of ASCII only, so that no negative character belongs to one.\<close>

definition tolower :: "u8 \<Rightarrow> u8" where
  "tolower c = (if 0x41 \<le> c \<and> c \<le> 0x5a then c + 0x20 else c)"

definition toupper :: "u8 \<Rightarrow> u8" where
  "toupper c = (if 0x61 \<le> c \<and> c \<le> 0x7a then c - 0x20 else c)"

definition strcasecmp :: "octets \<Rightarrow> octets \<Rightarrow> int" where
  "strcasecmp s t = strcmp (map tolower s) (map tolower t)"

definition isspace :: "u8 \<Rightarrow> bool" where
  "isspace c \<longleftrightarrow> c \<in> {0x20, 0x09, 0x0a, 0x0b, 0x0c, 0x0d}"

definition isdigit :: "u8 \<Rightarrow> bool" where
  "isdigit c \<longleftrightarrow> 0x30 \<le> c \<and> c \<le> 0x39"

text \<open>Classes of include/ldap_pvt.h.\<close>

definition LDAP_SPACE :: "u8 \<Rightarrow> bool" where "LDAP_SPACE c \<longleftrightarrow> c = 0x20 \<or> c = 0x09 \<or> c = 0x0a"
definition LDAP_DIGIT :: "u8 \<Rightarrow> bool" where "LDAP_DIGIT c \<longleftrightarrow> 0x30 \<le> c \<and> c \<le> 0x39"

definition isgraph :: "u8 \<Rightarrow> bool" where
  "isgraph c \<longleftrightarrow> 0x21 \<le> c \<and> c \<le> 0x7e"

definition isprint :: "u8 \<Rightarrow> bool" where
  "isprint c \<longleftrightarrow> 0x20 \<le> c \<and> c \<le> 0x7e"

text \<open>\<open>strncasecmp (s, t, strlen (t)) == 0\<close>\<close>

definition starts_with_case :: "octets \<Rightarrow> octets \<Rightarrow> bool" where
  "starts_with_case s t \<longleftrightarrow> map tolower (take (length t) s) = map tolower t"

text \<open>Cutting a string at the first \<open>c\<close>, as \<open>strchr\<close> and a null stored there do: what is left, and what follows.\<close>

definition cut_at :: "u8 \<Rightarrow> octets \<Rightarrow> octets \<times> octets option" where
  "cut_at c s = (takeWhile (\<lambda>x. x \<noteq> c) s, case dropWhile (\<lambda>x. x \<noteq> c) s of [] \<Rightarrow> None | _ # r \<Rightarrow> Some r)"

text \<open>
  \<open>atoi\<close>: spaces, a sign, digits.  The result is not defined by C when it does not fit an \<open>int\<close>.
\<close>

definition digits_value :: "octets \<Rightarrow> int" where
  "digits_value ds = foldl (\<lambda>v d. 10 * v + (int (unat d) - 48)) 0 ds"

definition atoi :: "octets \<Rightarrow> int option" where
  "atoi s =
    (let s1 = dropWhile isspace s;
         neg = (s1 \<noteq> [] \<and> hd s1 = 0x2d);
         s2 = (if s1 \<noteq> [] \<and> (hd s1 = 0x2d \<or> hd s1 = 0x2b) then tl s1 else s1);
         v = (if neg then - digits_value (takeWhile isdigit s2) else digits_value (takeWhile isdigit s2))
     in if - (2 ^ 31) \<le> v \<and> v < 2 ^ 31 then Some v else None)"

text \<open>Decimal digits, as \<open>printf\<close> writes them with \<open>%d\<close>.\<close>

definition digit_octet :: "nat \<Rightarrow> u8" where
  "digit_octet n = of_nat (48 + n)"

function nat_digits :: "nat \<Rightarrow> octets" where
  "nat_digits n = (if n < 10 then [digit_octet n] else nat_digits (n div 10) @ [digit_octet (n mod 10)])"
  by pat_completeness auto
termination by (relation "measure id") auto

declare nat_digits.simps [simp del]

definition int_digits :: "int \<Rightarrow> octets" where
  "int_digits i = (if i < 0 then 0x2d # nat_digits (nat (- i)) else nat_digits (nat i))"

lemma isdigit_digit: "n < 10 \<Longrightarrow> isdigit (digit_octet n)" "n < 10 \<Longrightarrow> int (unat (digit_octet n)) - 48 = int n"
proof -
  have u: "unat (digit_octet n) = 48 + n" if "n < 10" using that unfolding digit_octet_def by (simp only: unat_of_nat) simp
  then show "n < 10 \<Longrightarrow> isdigit (digit_octet n)" by (simp add: isdigit_def word_le_nat_alt)
  show "n < 10 \<Longrightarrow> int (unat (digit_octet n)) - 48 = int n" using u by simp
qed

lemma nat_digits_spec: "(\<forall>d \<in> set (nat_digits n). isdigit d) \<and> digits_value (nat_digits n) = int n \<and> nat_digits n \<noteq> []"
proof (induction n rule: nat_digits.induct)
  case (1 n)
  show ?case
  proof (cases "n < 10")
    case True
    then show ?thesis using isdigit_digit [of n] by (subst (1 2 3) nat_digits.simps) (simp add: digits_value_def)
  next
    case False
    then have ih: "\<forall>d \<in> set (nat_digits (n div 10)). isdigit d" "digits_value (nat_digits (n div 10)) = int (n div 10)" using 1 by blast+
    have e: "nat_digits n = nat_digits (n div 10) @ [digit_octet (n mod 10)]" using False by (subst nat_digits.simps) simp
    have "digits_value (nat_digits n) = 10 * int (n div 10) + int (n mod 10)"
      using ih(2) isdigit_digit(2) [of "n mod 10"] unfolding e by (simp add: digits_value_def)
    moreover have "10 * int (n div 10) + int (n mod 10) = int n" using div_mult_mod_eq [of n 10] by linarith
    ultimately have "digits_value (nat_digits n) = int n" by (rule trans)
    then show ?thesis using ih(1) isdigit_digit(1) [of "n mod 10"] unfolding e by auto
  qed
qed

lemma atoi_int_digits:
  assumes "- (2 ^ 31) \<le> i" "i < 2 ^ 31"
  shows "atoi (int_digits i) = Some i"
proof -
  have nosign: "\<not> isspace d \<and> d \<noteq> 0x2d \<and> d \<noteq> 0x2b" if "isdigit d" for d
    using that by (auto simp: isdigit_def isspace_def)
  have sp: "\<not> isspace 0x2d" by (simp add: isspace_def)
  have t: "takeWhile isdigit (nat_digits n) = nat_digits n" for n using nat_digits_spec [of n] by (simp add: takeWhile_eq_all_conv)
  have d: "dropWhile isspace (nat_digits n) = nat_digits n" "hd (nat_digits n) \<noteq> 0x2d" "hd (nat_digits n) \<noteq> 0x2b" for n
    using nat_digits_spec [of n] nosign by (cases "nat_digits n"; auto)+
  show ?thesis using assms nat_digits_spec t d sp
    by (simp add: atoi_def int_digits_def Let_def del: takeWhile_eq_all_conv)
qed

lemma int_digits_clean: "d \<in> set (int_digits i) \<Longrightarrow> isdigit d \<or> d = 0x2d" "int_digits i \<noteq> []"
  using nat_digits_spec by (auto simp: int_digits_def split: if_splits)

text \<open>Is \<open>t\<close> a part of \<open>s\<close>?\<close>

fun strstr :: "octets \<Rightarrow> octets \<Rightarrow> bool" where
  "strstr [] t = (t = [])"
| "strstr (c # s) t = (take (length t) (c # s) = t \<or> strstr s t)"

lemma strcasecmp_equal: "strcasecmp s t = 0 \<longleftrightarrow> map tolower s = map tolower t"
  by (simp add: strcasecmp_def)

end
