(* ===== verification/Avl_Facts.thy ===== *)
theory Avl_Facts imports Avl C_Strings "HOL-Library.Multiset" begin

text \<open>
  Correctness of the balanced trees: the shape invariant, the list a tree stands for, the contract
  of a comparison function (locale \<open>avl_order\<close>, interpreted for \<open>strcmp\<close>, the function
  libraries/libavl/testavl.c passes), and what insertion, deletion, lookup, traversal and the
  iterator do to that list.
\<close>

section \<open>Shape invariant and abstraction\<close>

text \<open>
  The list a tree stands for is its in-order traversal; \<open>balanced\<close> says every stored balance
  factor is the difference of the subtrees' heights.
\<close>

fun height :: "'a avlnode \<Rightarrow> nat" where
  "height Null = 0"
| "height (Avlnode l x b r) = Suc (max (height l) (height r))"

fun inorder :: "'a avlnode \<Rightarrow> 'a list" where
  "inorder Null = []"
| "inorder (Avlnode l x b r) = inorder l @ x # inorder r"

fun bf_ok :: "balance \<Rightarrow> nat \<Rightarrow> nat \<Rightarrow> bool" where
  "bf_ok LH hl hr = (hl = Suc hr)"
| "bf_ok EH hl hr = (hl = hr)"
| "bf_ok RH hl hr = (hr = Suc hl)"

fun balanced :: "'a avlnode \<Rightarrow> bool" where
  "balanced Null = True"
| "balanced (Avlnode l x b r) = (bf_ok b (height l) (height r) \<and> balanced l \<and> balanced r)"

fun tilted :: "'a avlnode \<Rightarrow> bool" where
  "tilted Null = False"
| "tilted (Avlnode l x b r) = (b \<noteq> EH)"

lemma insert_grown_right_ok:
  assumes "balanced l" "balanced r'" "bf_ok b (height l) h" "height r' = Suc h"
    and "b = RH \<Longrightarrow> tilted r'"
  shows "case insert_grown_right l x b r' of Some (t', Some g) \<Rightarrow> balanced t'
    \<and> height t' = Suc (max (height l) h) + (if g then 1 else 0) \<and> (g \<longrightarrow> tilted t')
    \<and> inorder t' = inorder l @ x # inorder r' | _ \<Rightarrow> False"
proof (cases b)
  case RH
  with assms obtain rl rx rb rr where r': "r' = Avlnode rl rx rb rr" and "rb \<noteq> EH"
    by (cases r') auto
  then show ?thesis
  proof (cases rb)
    case LH
    with r' RH assms obtain ll lx lb lr where "rl = Avlnode ll lx lb lr"
      by (cases rl) auto
    with r' RH LH assms show ?thesis
      by (cases lb) (auto simp: max_absorb1 max_absorb2)
  next
    case RH
    with r' \<open>b = RH\<close> assms show ?thesis
      by (auto simp: max_absorb1 max_absorb2)
  qed simp
qed (use assms in simp_all)

lemma insert_grown_left_ok:
  assumes "balanced l'" "balanced r" "bf_ok b h (height r)" "height l' = Suc h"
    and "b = LH \<Longrightarrow> tilted l'"
  shows "case insert_grown_left l' x b r of Some (t', Some g) \<Rightarrow> balanced t'
    \<and> height t' = Suc (max h (height r)) + (if g then 1 else 0) \<and> (g \<longrightarrow> tilted t')
    \<and> inorder t' = inorder l' @ x # inorder r | _ \<Rightarrow> False"
proof (cases b)
  case LH
  with assms obtain ll lx lb lr where l': "l' = Avlnode ll lx lb lr" and "lb \<noteq> EH"
    by (cases l') auto
  then show ?thesis
  proof (cases lb)
    case RH
    with l' LH assms obtain rl rx rb rr where "lr = Avlnode rl rx rb rr"
      by (cases lr) auto
    with l' RH LH assms show ?thesis
      by (cases rb) (auto simp: max_absorb1 max_absorb2)
  next
    case LH
    with l' \<open>b = LH\<close> assms show ?thesis
      by (auto simp: max_absorb1 max_absorb2)
  qed simp
qed (use assms in simp_all)

lemma right_balance_ok:
  assumes "balanced l" "balanced r" "bf_ok b (height l) (Suc (height r))"
  shows "case right_balance (Avlnode l x b r) of Some (t', g) \<Rightarrow> balanced t'
    \<and> Suc (max (height l) (Suc (height r))) = height t' + (if g then 1 else 0)
    \<and> inorder t' = inorder l @ x # inorder r | _ \<Rightarrow> False"
proof (cases b)
  case LH
  with assms obtain ll lx lb lr where l: "l = Avlnode ll lx lb lr"
    by (cases l) auto
  show ?thesis
  proof (cases "lb = RH")
    case True
    with l LH assms obtain rl rx rb rr where "lr = Avlnode rl rx rb rr"
      by (cases lr) auto
    with l True LH assms show ?thesis
      by (cases rb) (auto simp: max_absorb1 max_absorb2)
  next
    case False
    with l LH assms show ?thesis
      by (cases lb) (auto simp: max_absorb1 max_absorb2)
  qed
qed (use assms in \<open>simp_all add: max_absorb2\<close>)

lemma left_balance_ok:
  assumes "balanced l" "balanced r" "bf_ok b (Suc (height l)) (height r)"
  shows "case left_balance (Avlnode l x b r) of Some (t', g) \<Rightarrow> balanced t'
    \<and> Suc (max (Suc (height l)) (height r)) = height t' + (if g then 1 else 0)
    \<and> inorder t' = inorder l @ x # inorder r | _ \<Rightarrow> False"
proof (cases b)
  case RH
  with assms obtain rl rx rb rr where r: "r = Avlnode rl rx rb rr"
    by (cases r) auto
  show ?thesis
  proof (cases "rb = LH")
    case True
    with r RH assms obtain ll lx lb lr where "rl = Avlnode ll lx lb lr"
      by (cases rl) auto
    with r True RH assms show ?thesis
      by (cases lb) (auto simp: max_absorb1 max_absorb2)
  next
    case False
    with r RH assms show ?thesis
      by (cases rb) (auto simp: max_absorb1 max_absorb2)
  qed
qed (use assms in \<open>simp_all add: max_absorb1\<close>)

lemma set_minnode_data_shape [simp]:
  "height (set_minnode_data d t) = height t" "balanced (set_minnode_data d t) = balanced t"
  by (induction d t rule: set_minnode_data.induct) auto

lemma inorder_Nil_iff [simp]: "(inorder t = []) = (t = Null)" "([] = inorder t) = (t = Null)"
  by (cases t; simp)+

lemma inorder_set_minnode_data:
  "t \<noteq> Null \<Longrightarrow> inorder (set_minnode_data d t) = d # tl (inorder t)"
  by (induction d t rule: set_minnode_data.induct) (auto simp: tl_append split: list.split)

lemma minnode_data_hd: "t \<noteq> Null \<Longrightarrow> minnode_data d t = hd (inorder t)"
  by (induction d t rule: minnode_data.induct) (auto simp: hd_append)

lemma shrunk_right:
  assumes "balanced l" "balanced r'" "bf_ok b (height l) (height r)"
    "height r = height r' + (if g then 1 else 0)"
  obtains t' h where
    "(if g then map_option (\<lambda>(t, s). (t, saved, s)) (right_balance (Avlnode l x b r'))
      else Some (Avlnode l x b r', saved, False)) = Some (t', saved, h)"
    "balanced t'" "Suc (max (height l) (height r)) = height t' + (if h then 1 else 0)"
    "inorder t' = inorder l @ x # inorder r'"
  using right_balance_ok [of l r' b x] assms that
  by (cases g) (force split: option.splits prod.splits)+

lemma shrunk_left:
  assumes "balanced l'" "balanced r" "bf_ok b (height l) (height r)"
    "height l = height l' + (if g then 1 else 0)"
  obtains t' h where
    "(if g then map_option (\<lambda>(t, s). (t, saved, s)) (left_balance (Avlnode l' x b r))
      else Some (Avlnode l' x b r, saved, False)) = Some (t', saved, h)"
    "balanced t'" "Suc (max (height l) (height r)) = height t' + (if h then 1 else 0)"
    "inorder t' = inorder l' @ x # inorder r"
  using left_balance_ok [of l' r b x] assms that
  by (cases g) (force split: option.splits prod.splits)+

section \<open>What insertion and deletion do to the list\<close>

definition equal_in :: "('a \<Rightarrow> 'a \<Rightarrow> int) \<Rightarrow> 'a \<Rightarrow> 'a list \<Rightarrow> 'a option" where
  "equal_in cmp d xs = find (\<lambda>y. cmp d y = 0) xs"

definition inserted :: "('a \<Rightarrow> 'a \<Rightarrow> int) \<Rightarrow> ('a \<Rightarrow> 'a \<Rightarrow> int \<times> 'a) \<Rightarrow> 'a \<Rightarrow> 'a list \<Rightarrow> 'a list" where
  "inserted cmp fdup d xs =
    filter (\<lambda>y. 0 < cmp d y) xs
    @ (case equal_in cmp d xs of None \<Rightarrow> d | Some y \<Rightarrow> snd (fdup y d))
    # filter (\<lambda>y. cmp d y < 0) xs"

definition insert_rc :: "('a \<Rightarrow> 'a \<Rightarrow> int) \<Rightarrow> ('a \<Rightarrow> 'a \<Rightarrow> int \<times> 'a) \<Rightarrow> 'a \<Rightarrow> 'a list \<Rightarrow> int" where
  "insert_rc cmp fdup d xs = (case equal_in cmp d xs of None \<Rightarrow> 0 | Some y \<Rightarrow> fst (fdup y d))"

definition without :: "('a \<Rightarrow> 'a \<Rightarrow> int) \<Rightarrow> 'a \<Rightarrow> 'a list \<Rightarrow> 'a list" where
  "without cmp d xs = filter (\<lambda>y. cmp d y \<noteq> 0) xs"

lemma equal_in_append: "equal_in cmp d (xs @ ys) =
    (case equal_in cmp d xs of None \<Rightarrow> equal_in cmp d ys | Some y \<Rightarrow> Some y)"
  by (induction xs) (auto simp: equal_in_def)

lemma equal_in_none [simp]:
  "\<forall>y\<in>set xs. 0 < cmp d y \<Longrightarrow> equal_in cmp d xs = None"
  "\<forall>y\<in>set xs. cmp d y < 0 \<Longrightarrow> equal_in cmp d xs = None"
  by (force simp: equal_in_def find_None_iff)+

lemma equal_in_Cons: "equal_in cmp d (x # xs) = (if cmp d x = 0 then Some x else equal_in cmp d xs)"
  by (simp add: equal_in_def)

lemma filter_signs [simp]:
  "\<forall>y\<in>set xs. 0 < cmp d y \<Longrightarrow> filter (\<lambda>y. 0 < cmp d y) xs = xs"
  "\<forall>y\<in>set xs. 0 < cmp d y \<Longrightarrow> filter (\<lambda>y. cmp d y < 0) xs = []"
  "\<forall>y\<in>set xs. cmp d y < 0 \<Longrightarrow> filter (\<lambda>y. cmp d y < 0) xs = xs"
  "\<forall>y\<in>set xs. cmp d y < 0 \<Longrightarrow> filter (\<lambda>y. 0 < cmp d y) xs = []"
  "\<forall>y\<in>set xs. 0 < cmp d y \<Longrightarrow> filter (\<lambda>y. cmp d y \<noteq> 0) xs = xs"
  "\<forall>y\<in>set xs. cmp d y < 0 \<Longrightarrow> filter (\<lambda>y. cmp d y \<noteq> 0) xs = xs"
  for cmp :: "'a \<Rightarrow> 'a \<Rightarrow> int"
  by (auto simp: filter_id_conv filter_empty_conv)

lemma inserted_at_equal:
  assumes "cmp d x = 0" "\<forall>a\<in>set xs. 0 < cmp d a" "\<forall>b\<in>set ys. cmp d b < 0"
  shows "inserted cmp fdup d (xs @ x # ys) = xs @ snd (fdup x d) # ys"
    and "insert_rc cmp fdup d (xs @ x # ys) = fst (fdup x d)"
  using assms by (auto simp: inserted_def insert_rc_def equal_in_append equal_in_Cons)

lemma inserted_right:
  assumes "0 < cmp d x" "\<forall>a\<in>set xs. 0 < cmp d a"
  shows "inserted cmp fdup d (xs @ x # ys) = xs @ x # inserted cmp fdup d ys"
    and "insert_rc cmp fdup d (xs @ x # ys) = insert_rc cmp fdup d ys"
  using assms by (auto simp: inserted_def insert_rc_def equal_in_append equal_in_Cons)

lemma inserted_left:
  assumes "cmp d x < 0" "\<forall>b\<in>set ys. cmp d b < 0"
  shows "inserted cmp fdup d (xs @ x # ys) = inserted cmp fdup d xs @ x # ys"
    and "insert_rc cmp fdup d (xs @ x # ys) = insert_rc cmp fdup d xs"
  using assms by (auto simp: inserted_def insert_rc_def equal_in_append equal_in_Cons
      split: option.splits)

lemma without_append [simp]: "without cmp d (xs @ ys) = without cmp d xs @ without cmp d ys"
  by (simp add: without_def)

lemma without_Cons [simp]:
  "without cmp d (x # xs) = (if cmp d x = 0 then without cmp d xs else x # without cmp d xs)"
  by (simp add: without_def)

lemma without_id [simp]:
  "\<forall>y\<in>set xs. 0 < cmp d y \<Longrightarrow> without cmp d xs = xs"
  "\<forall>y\<in>set xs. cmp d y < 0 \<Longrightarrow> without cmp d xs = xs"
  by (simp_all add: without_def)

definition ordered :: "('a \<Rightarrow> 'a \<Rightarrow> int) \<Rightarrow> 'a list \<Rightarrow> bool" where
  "ordered cmp xs \<longleftrightarrow> sorted_wrt (\<lambda>a b. cmp a b < 0) xs"

section \<open>The ordering contract of a comparison function\<close>

text \<open>
  What every routine of avl.c expects of the comparison function it is given: the sign decides a
  total preorder.  The consequences used below are facts about lists that are sorted by it.
\<close>

locale avl_order =
  fixes cmp :: "'a \<Rightarrow> 'a \<Rightarrow> int"
  assumes cmp_flip: "(cmp a b < 0) = (0 < cmp b a)"
    and cmp_trans: "cmp a b < 0 \<Longrightarrow> cmp b c < 0 \<Longrightarrow> cmp a c < 0"
    and cmp_equal: "cmp a b = 0 \<Longrightarrow> (cmp a c < 0) = (cmp b c < 0)"
begin

lemma cmp_le_trans: "cmp a b \<le> 0 \<Longrightarrow> cmp b c < 0 \<Longrightarrow> cmp a c < 0"
  using cmp_trans [of a b c] cmp_equal [of a b c] by (cases "cmp a b = 0") auto

lemma cmp_equal_sym: "(cmp a b = 0) = (cmp b a = 0)"
  using cmp_flip [of a b] cmp_flip [of b a] by linarith

lemma cmp_ge_trans: "0 \<le> cmp a b \<Longrightarrow> cmp c b < 0 \<Longrightarrow> 0 < cmp a c"
  using cmp_le_trans [of a c b] by linarith

lemma ordered_append [simp]: "ordered cmp (xs @ x # ys) \<longleftrightarrow> ordered cmp xs \<and> ordered cmp ys
    \<and> (\<forall>a\<in>set xs. cmp a x < 0) \<and> (\<forall>b\<in>set ys. cmp x b < 0)"
  unfolding ordered_def sorted_wrt_append by (auto intro: cmp_trans)

lemma ordered_Nil [simp]: "ordered cmp []"
  by (simp add: ordered_def)

lemma before_pos: "ordered cmp (xs @ x # ys) \<Longrightarrow> 0 \<le> cmp d x \<Longrightarrow> \<forall>a\<in>set xs. 0 < cmp d a"
  by (auto intro: cmp_ge_trans)

lemma after_neg: "ordered cmp (xs @ x # ys) \<Longrightarrow> cmp d x \<le> 0 \<Longrightarrow> \<forall>b\<in>set ys. cmp d b < 0"
  by (auto intro: cmp_le_trans)


lemma ravl_insert_ok:
  assumes "balanced t"
  shows "case ravl_insert cmp fdup True d t of
      Some (t', rc, Some g) \<Rightarrow> balanced t' \<and> height t' = height t + (if g then 1 else 0)
        \<and> (g \<longrightarrow> t \<noteq> Null \<longrightarrow> tilted t')
        \<and> (ordered cmp (inorder t) \<longrightarrow>
            inorder t' = inserted cmp fdup d (inorder t) \<and> rc = insert_rc cmp fdup d (inorder t))
    | _ \<Rightarrow> False"
  using assms
proof (induction t)
  case Null
  then show ?case by (simp add: inserted_def insert_rc_def)
next
  case (Avlnode l x b r)
  let ?c = "cmp d x"
  consider "?c = 0" | "0 < ?c" | "?c < 0" by linarith
  then show ?case
  proof cases
    case 1
    then show ?thesis
      using Avlnode.prems before_pos [of "inorder l" x "inorder r" d]
        after_neg [of "inorder l" x "inorder r" d]
      by (auto simp: inserted_at_equal split: prod.split)
  next
    case 2
    with Avlnode obtain r' rc g where r': "ravl_insert cmp fdup True d r = Some (r', rc, Some g)"
        "balanced r'" "height r' = height r + (if g then 1 else 0)" "g \<longrightarrow> r \<noteq> Null \<longrightarrow> tilted r'"
        and spec: "ordered cmp (inorder r) \<longrightarrow> inorder r' = inserted cmp fdup d (inorder r)
          \<and> rc = insert_rc cmp fdup d (inorder r)"
      by (auto split: option.splits prod.splits)
    have less: "ordered cmp (inorder l @ x # inorder r) \<Longrightarrow> \<forall>a\<in>set (inorder l). 0 < cmp d a"
      using before_pos 2 by (meson order_less_imp_le)
    show ?thesis
    proof (cases g)
      case True
      have "b = RH \<Longrightarrow> tilted r'"
        using Avlnode.prems r' True by (cases r) auto
      then obtain t' g' where "insert_grown_right l x b r' = Some (t', Some g')" "balanced t'"
          "height t' = Suc (max (height l) (height r)) + (if g' then 1 else 0)"
          "g' \<longrightarrow> tilted t'" "inorder t' = inorder l @ x # inorder r'"
        using insert_grown_right_ok [of l r' b "height r" x] Avlnode.prems r' True
        by (auto split: option.splits prod.splits)
      with 2 r' True spec less show ?thesis
        by (auto simp: inserted_right)
    qed (use Avlnode.prems 2 r' spec less in \<open>auto simp: inserted_right\<close>)
  next
    case 3
    with Avlnode obtain l' rc g where l': "ravl_insert cmp fdup True d l = Some (l', rc, Some g)"
        "balanced l'" "height l' = height l + (if g then 1 else 0)" "g \<longrightarrow> l \<noteq> Null \<longrightarrow> tilted l'"
        and spec: "ordered cmp (inorder l) \<longrightarrow> inorder l' = inserted cmp fdup d (inorder l)
          \<and> rc = insert_rc cmp fdup d (inorder l)"
      by (auto split: option.splits prod.splits)
    have less: "ordered cmp (inorder l @ x # inorder r) \<Longrightarrow> \<forall>a\<in>set (inorder r). cmp d a < 0"
      using after_neg 3 by (meson order_less_imp_le)
    show ?thesis
    proof (cases g)
      case True
      have "b = LH \<Longrightarrow> tilted l'"
        using Avlnode.prems l' True by (cases l) auto
      then obtain t' g' where "insert_grown_left l' x b r = Some (t', Some g')" "balanced t'"
          "height t' = Suc (max (height l) (height r)) + (if g' then 1 else 0)"
          "g' \<longrightarrow> tilted t'" "inorder t' = inorder l' @ x # inorder r"
        using insert_grown_left_ok [of l' r b "height l" x] Avlnode.prems l' True
        by (auto split: option.splits prod.splits)
      with 3 l' True spec less show ?thesis
        by (auto simp: inserted_left)
    qed (use Avlnode.prems 3 l' spec less in \<open>auto simp: inserted_left\<close>)
  qed
qed

declare ravl_delete.simps [simp del]

definition deleted_ok :: "'a \<Rightarrow> 'a avlnode \<Rightarrow> bool" where
  "deleted_ok d t \<longleftrightarrow> (\<exists>t' g. ravl_delete cmp d t = Some (t', equal_in cmp d (inorder t), g)
    \<and> balanced t' \<and> height t = height t' + (if g then 1 else 0)
    \<and> inorder t' = without cmp d (inorder t) \<and> (equal_in cmp d (inorder t) = None \<longrightarrow> \<not> g))"

lemma deleted_okI:
  assumes "ravl_delete cmp d t = Some (t', equal_in cmp d (inorder t), g)" "balanced t'"
    "height t = height t' + (if g then 1 else 0)" "inorder t' = without cmp d (inorder t)"
    "equal_in cmp d (inorder t) = None \<Longrightarrow> \<not> g"
  shows "deleted_ok d t"
  unfolding deleted_ok_def using assms by (intro exI [of _ t'] exI [of _ g]) simp

lemma ravl_delete_here:
  assumes "balanced (Avlnode l x b r)" "ordered cmp (inorder l @ x # inorder r)" "cmp d x = 0"
    and IH: "deleted_ok d (set_minnode_data x r)"
  shows "deleted_ok d (Avlnode l x b r)"
proof -
  have neg: "\<forall>y\<in>set (inorder r). cmp d y < 0" and pos: "\<forall>y\<in>set (inorder l). 0 < cmp d y"
    using after_neg before_pos assms(2,3) by (metis order_refl)+
  consider "l = Null" | "l \<noteq> Null" "r = Null" | "l \<noteq> Null" "r \<noteq> Null" by blast
  then show ?thesis
  proof cases
    case 3
    obtain r' g where r': "ravl_delete cmp d (set_minnode_data x r) = Some (r', Some x, g)"
        "balanced r'" "height r = height r' + (if g then 1 else 0)" "inorder r' = tl (inorder r)"
    proof -
      have "\<forall>y\<in>set (tl (inorder r)). cmp d y < 0"
        using neg 3 by (auto dest: list.set_sel(2) [rotated])
      then show ?thesis
        using IH that 3 assms(3)
        by (auto simp: deleted_ok_def inorder_set_minnode_data equal_in_Cons)
    qed
    obtain t' h where
      "(if g then map_option (\<lambda>(t, s). (t, Some x, s)) (right_balance (Avlnode l (minnode_data x r) b r'))
        else Some (Avlnode l (minnode_data x r) b r', Some x, False)) = Some (t', Some x, h)"
      "balanced t'" "Suc (max (height l) (height r)) = height t' + (if h then 1 else 0)"
      "inorder t' = inorder l @ minnode_data x r # inorder r'"
      by (rule shrunk_right [of l r' b r g "Some x" "minnode_data x r"]) (use assms r' in auto)
    with 3 assms(3) r' neg pos show ?thesis
      by (intro deleted_okI [of d _ t' h]; cases g)
        (simp_all add: ravl_delete.simps minnode_data_hd equal_in_append equal_in_Cons Let_def)
  next
    case 1
    with assms neg pos show ?thesis
      by (intro deleted_okI [of d _ r True])
        (simp_all add: ravl_delete.simps equal_in_append equal_in_Cons Let_def)
  next
    case 2
    with assms neg pos show ?thesis
      by (intro deleted_okI [of d _ l True])
        (simp_all add: ravl_delete.simps equal_in_append equal_in_Cons Let_def)
  qed
qed

lemma ravl_delete_left:
  assumes "balanced (Avlnode l x b r)" "ordered cmp (inorder l @ x # inorder r)" "cmp d x < 0"
    and IH: "deleted_ok d l"
  shows "deleted_ok d (Avlnode l x b r)"
proof -
  have neg: "\<forall>y\<in>set (inorder r). cmp d y < 0"
    using after_neg assms(2,3) by (meson order_less_imp_le)
  from IH obtain l' g where l': "ravl_delete cmp d l = Some (l', equal_in cmp d (inorder l), g)"
      "balanced l'" "height l = height l' + (if g then 1 else 0)"
      "inorder l' = without cmp d (inorder l)" "equal_in cmp d (inorder l) = None \<longrightarrow> \<not> g"
    by (auto simp: deleted_ok_def)
  obtain t' h where
    "(if g then map_option (\<lambda>(t, s). (t, equal_in cmp d (inorder l), s)) (left_balance (Avlnode l' x b r))
      else Some (Avlnode l' x b r, equal_in cmp d (inorder l), False))
      = Some (t', equal_in cmp d (inorder l), h)"
    "balanced t'" "Suc (max (height l) (height r)) = height t' + (if h then 1 else 0)"
    "inorder t' = inorder l' @ x # inorder r"
    by (rule shrunk_left [of l' r b l g "equal_in cmp d (inorder l)" x]) (use assms l' in auto)
  then show ?thesis
    using assms(1,3) l' neg
    by (cases "equal_in cmp d (inorder l)")
      (auto intro!: deleted_okI [of d _ t' h] simp: ravl_delete.simps equal_in_append equal_in_Cons Let_def)
qed

lemma ravl_delete_right:
  assumes "balanced (Avlnode l x b r)" "ordered cmp (inorder l @ x # inorder r)" "0 < cmp d x"
    and IH: "deleted_ok d r"
  shows "deleted_ok d (Avlnode l x b r)"
proof -
  have pos: "\<forall>y\<in>set (inorder l). 0 < cmp d y"
    using before_pos assms(2,3) by (meson order_less_imp_le)
  from IH obtain r' g where r': "ravl_delete cmp d r = Some (r', equal_in cmp d (inorder r), g)"
      "balanced r'" "height r = height r' + (if g then 1 else 0)"
      "inorder r' = without cmp d (inorder r)" "equal_in cmp d (inorder r) = None \<longrightarrow> \<not> g"
    by (auto simp: deleted_ok_def)
  obtain t' h where
    "(if g then map_option (\<lambda>(t, s). (t, equal_in cmp d (inorder r), s)) (right_balance (Avlnode l x b r'))
      else Some (Avlnode l x b r', equal_in cmp d (inorder r), False))
      = Some (t', equal_in cmp d (inorder r), h)"
    "balanced t'" "Suc (max (height l) (height r)) = height t' + (if h then 1 else 0)"
    "inorder t' = inorder l @ x # inorder r'"
    by (rule shrunk_right [of l r' b r g "equal_in cmp d (inorder r)" x]) (use assms r' in auto)
  then show ?thesis
    using assms(1,3) r' pos
    by (cases "equal_in cmp d (inorder r)")
      (auto intro!: deleted_okI [of d _ t' h] simp: ravl_delete.simps equal_in_append equal_in_Cons Let_def)
qed

lemma ravl_delete_ok: "balanced t \<Longrightarrow> ordered cmp (inorder t) \<Longrightarrow> deleted_ok d t"
proof (induction t rule: measure_induct_rule [of size])
  case (less t)
  show ?case
  proof (cases t)
    case Null
    then show ?thesis
      by (intro deleted_okI [of d _ Null False])
        (simp_all add: ravl_delete.simps equal_in_def without_def)
  next
    case (Avlnode l x b r)
    have prems: "balanced (Avlnode l x b r)" "ordered cmp (inorder l @ x # inorder r)"
      using less.prems Avlnode by auto
    have IH: "deleted_ok d l" "deleted_ok d r"
      using less.IH [of l] less.IH [of r] prems Avlnode by auto
    have swapped: "deleted_ok d (set_minnode_data x r)"
    proof (cases "r = Null")
      case False
      then have "ordered cmp (x # tl (inorder r))"
        using prems(2) ordered_append [of "[]" x "tl (inorder r)"]
        by (cases "inorder r") (auto simp: ordered_def sorted_wrt_append)
      then show ?thesis
        using less.IH [of "set_minnode_data x r"] prems Avlnode False
        by (auto simp: inorder_set_minnode_data)
    qed (use IH in simp)
    consider "cmp d x = 0" | "cmp d x < 0" | "0 < cmp d x" by linarith
    then show ?thesis
      by cases (use prems IH swapped Avlnode in
        \<open>auto intro: ravl_delete_here ravl_delete_left ravl_delete_right\<close>)
  qed
qed

end

section \<open>Traversals as list traversals\<close>

fun preorder :: "'a avlnode \<Rightarrow> 'a list" where
  "preorder Null = []"
| "preorder (Avlnode l x b r) = x # preorder l @ preorder r"

fun postorder :: "'a avlnode \<Rightarrow> 'a list" where
  "postorder Null = []"
| "postorder (Avlnode l x b r) = postorder l @ postorder r @ [x]"

text \<open>
  \<open>visit_all fn stop rc xs s\<close> calls \<open>fn\<close> along \<open>xs\<close> until it returns \<open>stop\<close>; when it never
  does, the result is \<open>rc\<close>.  \<open>visit_last\<close> returns the last call's value instead.
\<close>

fun visit_all :: "('a, 's) visitor \<Rightarrow> int \<Rightarrow> 'a list \<Rightarrow> 's \<Rightarrow> int \<times> 's" where
  "visit_all fn stop [] s = (AVL_NOMORE, s)"
| "visit_all fn stop (x # xs) s =
    (let (rx, s') = fn x s in if rx = stop then (stop, s') else visit_all fn stop xs s')"

fun visit_last :: "('a, 's) visitor \<Rightarrow> int \<Rightarrow> int \<Rightarrow> 'a list \<Rightarrow> 's \<Rightarrow> int \<times> 's" where
  "visit_last fn stop rc [] s = (rc, s)"
| "visit_last fn stop rc (x # xs) s =
    (let (rx, s') = fn x s in if rx = stop then (stop, s') else visit_last fn stop rx xs s')"

lemma visit_all_append:
  "stop \<noteq> AVL_NOMORE \<Longrightarrow> visit_all fn stop (xs @ ys) s =
    (let (rc, s') = visit_all fn stop xs s in
     if rc = stop then (stop, s') else visit_all fn stop ys s')"
  by (induction xs arbitrary: s) (auto simp: Let_def split: prod.splits)

lemma visit_last_append:
  "stop \<noteq> rc \<Longrightarrow> visit_last fn stop rc (xs @ ys) s =
    (let (rc', s') = visit_last fn stop rc xs s in
     if rc' = stop then (stop, s') else visit_last fn stop rc' ys s')"
  by (induction xs arbitrary: s rc) (auto simp: Let_def split: prod.splits)

lemma avl_inapply_visit:
  "stop \<noteq> AVL_NOMORE \<Longrightarrow> avl_inapply fn stop t s = visit_all fn stop (inorder t) s"
  by (induction t arbitrary: s) (auto simp: visit_all_append Let_def split: prod.splits)

lemma avl_preapply_visit:
  "stop \<noteq> AVL_NOMORE \<Longrightarrow> avl_preapply fn stop t s = visit_all fn stop (preorder t) s"
  by (induction t arbitrary: s) (auto simp: visit_all_append Let_def split: prod.splits)

lemma visit_last_start: "xs \<noteq> [] \<Longrightarrow> visit_last fn stop rc xs s = visit_last fn stop rc' xs s"
  by (cases xs) auto

lemma postorder_Nil_iff [simp]: "(postorder t = []) = (t = Null)"
  by (cases t) auto

lemma visit_last_snoc:
  "stop \<noteq> rc \<Longrightarrow> visit_last fn stop rc (xs @ [x]) s =
    (let (rc', s') = visit_last fn stop rc xs s in if rc' = stop then (stop, s') else fn x s')"
  by (auto simp: visit_last_append Let_def split: prod.splits)

lemma avl_postapply_visit:
  "stop \<noteq> AVL_NOMORE \<Longrightarrow> avl_postapply fn stop t s = visit_last fn stop AVL_NOMORE (postorder t) s"
proof (induction t arbitrary: s)
  case (Avlnode l x b r)
  have r: "avl_postapply fn stop r s' = visit_last fn stop rc (postorder r) s'"
    if "r \<noteq> Null" for rc s'
    using Avlnode that by (simp add: visit_last_start [of "postorder r" _ _ rc _ AVL_NOMORE])
  show ?case
    using Avlnode.IH(1) Avlnode.prems r
    by (cases "l = Null"; cases "r = Null")
      (auto simp: visit_last_append Let_def split: prod.splits)
qed simp

lemma avl_free_spec:
  "avl_free dfree t s =
    (length (postorder t), fold (\<lambda>x. case dfree of None \<Rightarrow> id | Some f \<Rightarrow> f x) (postorder t) s)"
  by (induction t arbitrary: s) (auto simp: Let_def split: prod.splits option.splits)

lemma equal_in_Nil [simp]: "equal_in cmp d [] = None"
  by (simp add: equal_in_def)

lemma avl_find_lin_spec: "avl_find_lin cmp d t = equal_in cmp d (preorder t)"
  by (induction t) (auto simp: equal_in_append equal_in_Cons split: option.splits)

lemma mset_traversals: "mset (preorder t) = mset (inorder t)" "mset (postorder t) = mset (inorder t)"
  by (induction t) auto

text \<open>
  A prefix comparison is monotone along the tree: from the left it is positive, then zero, then
  negative.
\<close>

definition falling :: "('a \<Rightarrow> int) \<Rightarrow> 'a list \<Rightarrow> bool" where
  "falling f xs \<longleftrightarrow> sorted_wrt (\<lambda>a b. sgn (f b) \<le> sgn (f a)) xs"

lemma falling_append: "falling f (xs @ x # ys) \<longleftrightarrow> falling f xs \<and> falling f ys
    \<and> (\<forall>a\<in>set xs. sgn (f x) \<le> sgn (f a)) \<and> (\<forall>b\<in>set ys. sgn (f b) \<le> sgn (f x))"
  unfolding falling_def sorted_wrt_append by (auto intro: order_trans)

lemma filter_zero_none:
  "\<forall>a\<in>set xs. 1 \<le> sgn (f a) \<Longrightarrow> filter (\<lambda>x. f x = 0) xs = []"
  "\<forall>a\<in>set xs. sgn (f a) \<le> -1 \<Longrightarrow> filter (\<lambda>x. f x = 0) xs = []"
  for f :: "'a \<Rightarrow> int"
  by (force simp: filter_empty_conv)+

lemma set_preorder [simp]: "set (preorder t) = set (inorder t)"
  by (induction t) auto

lemma avl_prefixapply_visit:
  assumes "stop \<noteq> AVL_NOMORE" "falling (fcmp d) (inorder t)"
  shows "avl_prefixapply fcmp d fmatch stop t s
    = visit_all fmatch stop (filter (\<lambda>x. fcmp d x = 0) (preorder t)) s"
  using assms(2)
proof (induction t arbitrary: s)
  case (Avlnode l x b r)
  have IH: "\<And>s. avl_prefixapply fcmp d fmatch stop l s
      = visit_all fmatch stop (filter (\<lambda>x. fcmp d x = 0) (preorder l)) s"
    "\<And>s. avl_prefixapply fcmp d fmatch stop r s
      = visit_all fmatch stop (filter (\<lambda>x. fcmp d x = 0) (preorder r)) s"
    using Avlnode by (auto simp: falling_append)
  consider "fcmp d x = 0" | "fcmp d x < 0" | "0 < fcmp d x" by linarith
  then show ?case
  proof cases
    case 1
    then show ?thesis
      using assms(1) by (auto simp: IH visit_all_append Let_def split: prod.splits)
  next
    case 2
    then have "filter (\<lambda>x. fcmp d x = 0) (preorder r) = []"
      using Avlnode.prems by (intro filter_zero_none) (auto simp: falling_append sgn_if)
    with 2 show ?thesis by (auto simp: IH)
  next
    case 3
    then have "filter (\<lambda>x. fcmp d x = 0) (preorder l) = []"
      using Avlnode.prems by (intro filter_zero_none) (auto simp: falling_append sgn_if)
    with 3 show ?thesis by (auto simp: IH)
  qed
qed simp

section \<open>The iterator yields the in-order list\<close>

text \<open>\<open>holds xs s\<close>: the iterator's array starts with the data \<open>xs\<close> and its counters agree.\<close>

definition holds :: "'a list \<Rightarrow> 'a avl_iter \<Rightarrow> bool" where
  "holds xs s \<longleftrightarrow> (\<exists>rest. avl_list s = Some (map Some xs @ rest)
    \<and> slots s = length xs + length rest \<and> avl_maxlist s = length xs)"

lemma buildlist_first:
  "avl_list s = None \<Longrightarrow> alloc AVL_GRABSIZE \<Longrightarrow>
    \<exists>s'. avl_buildlist alloc x (Some s) = (0, Some s') \<and> holds [x] s' \<and> avl_nextlist s' = avl_nextlist s"
  by (auto simp: avl_buildlist_def holds_def AVL_GRABSIZE_def numeral_eq_Suc)

lemma buildlist_more:
  assumes "holds xs s" "\<forall>n. alloc n"
  shows "\<exists>s'. avl_buildlist alloc x (Some s) = (0, Some s') \<and> holds (xs @ [x]) s'
    \<and> avl_nextlist s' = avl_nextlist s"
proof -
  from assms(1) obtain rest where r: "avl_list s = Some (map Some xs @ rest)"
      "slots s = length xs + length rest" "avl_maxlist s = length xs"
    by (auto simp: holds_def)
  show ?thesis
  proof (cases rest)
    case Nil
    then show ?thesis
      using r assms(2)
      by (auto simp: avl_buildlist_def holds_def AVL_GRABSIZE_def numeral_eq_Suc list_update_append)
  next
    case (Cons c cs)
    then show ?thesis
      using r by (auto simp: avl_buildlist_def holds_def list_update_append)
  qed
qed

lemma visit_buildlist:
  assumes "holds xs s" "\<forall>n. alloc n"
  shows "\<exists>s'. visit_all (avl_buildlist alloc) (-1) ys (Some s) = (AVL_NOMORE, Some s')
    \<and> holds (xs @ ys) s' \<and> avl_nextlist s' = avl_nextlist s"
  using assms(1)
proof (induction ys arbitrary: xs s)
  case (Cons y ys)
  obtain s1 where s1: "avl_buildlist alloc y (Some s) = (0, Some s1)" "holds (xs @ [y]) s1"
      "avl_nextlist s1 = avl_nextlist s"
    using buildlist_more [OF Cons.prems assms(2)] by blast
  from Cons.IH [OF s1(2)] s1 show ?case by (auto simp: Let_def)
qed simp

fun avl_drain :: "nat \<Rightarrow> 'a avl_iter \<Rightarrow> ('a list \<times> 'a avl_iter) option" where
  "avl_drain 0 s = None"
| "avl_drain (Suc fuel) s =
    (case avl_getnext s of None \<Rightarrow> None
     | Some (None, s') \<Rightarrow> Some ([], s')
     | Some (Some x, s') \<Rightarrow> map_option (\<lambda>(xs, s''). (x # xs, s'')) (avl_drain fuel s'))"

lemma next_cell_holds:
  assumes "holds xs s" "avl_nextlist s < length xs"
  shows "next_cell s = Some (Some (xs ! avl_nextlist s), s\<lparr>avl_nextlist := Suc (avl_nextlist s)\<rparr>)"
  using assms by (auto simp: holds_def next_cell_def nth_append)

lemma drain_holds:
  assumes "holds xs s" "avl_nextlist s \<le> length xs" "length xs - avl_nextlist s < fuel"
  shows "\<exists>s'. avl_drain fuel s = Some (drop (avl_nextlist s) xs, s') \<and> avl_list s' = None"
  using assms
proof (induction fuel arbitrary: s)
  case (Suc fuel)
  let ?n = "avl_nextlist s"
  from Suc.prems(1) have l: "avl_list s \<noteq> None" "avl_maxlist s = length xs"
    by (auto simp: holds_def)
  show ?case
  proof (cases "?n = length xs")
    case True
    with l show ?thesis by (auto simp: avl_getnext_def)
  next
    case False
    let ?s = "s\<lparr>avl_nextlist := Suc ?n\<rparr>"
    from False Suc.prems have n: "?n < length xs" by simp
    with l Suc.prems have next_eq: "avl_getnext s = Some (Some (xs ! ?n), ?s)"
      by (simp add: avl_getnext_def next_cell_holds)
    have "holds xs ?s" using Suc.prems(1) by (auto simp: holds_def)
    moreover have "length xs - Suc ?n < fuel" using n Suc.prems(3) by linarith
    ultimately obtain s' where "avl_drain fuel ?s = Some (drop (Suc ?n) xs, s')" "avl_list s' = None"
      using Suc.IH [of ?s] n by auto
    then show ?thesis using next_eq n by (simp add: Cons_nth_drop_Suc)
  qed
qed simp

lemma getfirst_holds:
  assumes "t \<noteq> Null" "\<forall>n. alloc n"
  shows "\<exists>s'. avl_getfirst alloc t s = Some (Some (hd (inorder t)), s') \<and> holds (inorder t) s'
    \<and> avl_nextlist s' = 1"
proof -
  let ?s = "s\<lparr>avl_list := None, avl_maxlist := 0, avl_nextlist := 0\<rparr>"
  obtain x xs where xs: "inorder t = x # xs"
    using assms(1) by (cases "inorder t") auto
  obtain s1 where s1: "avl_buildlist alloc x (Some ?s) = (0, Some s1)" "holds [x] s1"
      "avl_nextlist s1 = 0"
    using buildlist_first [of ?s alloc x] assms(2) by auto
  obtain s2 where s2: "visit_all (avl_buildlist alloc) (-1) xs (Some s1) = (AVL_NOMORE, Some s2)"
      "holds (x # xs) s2" "avl_nextlist s2 = 0"
    using visit_buildlist [OF s1(2) assms(2)] s1(3) by fastforce
  have "avl_apply t (avl_buildlist alloc) (-1) AVL_INORDER (Some ?s) = (AVL_NOMORE, Some s2)"
    using s1 s2 by (simp add: avl_apply_def avl_inapply_visit AVL_NOMORE_def xs)
  then show ?thesis
    using s2 assms(1) xs next_cell_holds [OF s2(2)]
    by (auto simp: avl_getfirst_def Let_def holds_def)
qed

section \<open>Height\<close>

lemma pow2_step:
  fixes a b :: nat
  assumes "2 ^ h \<le> b\<^sup>2" "2 ^ Suc h \<le> a\<^sup>2"
  shows "2 ^ Suc (Suc h) \<le> (a + b)\<^sup>2"
proof -
  have "(2 ^ h)\<^sup>2 \<le> (a * b)\<^sup>2"
  proof -
    have "2 ^ h * 2 ^ h \<le> a\<^sup>2 * b\<^sup>2"
      using assms by (intro mult_mono) auto
    then show ?thesis by (simp add: power2_eq_square algebra_simps)
  qed
  then have "2 ^ h \<le> a * b" by (meson power2_le_imp_le zero_le)
  then show ?thesis using assms by (simp add: power2_sum)
qed

lemma sum_squares_le: "(a::nat)\<^sup>2 + b\<^sup>2 \<le> (a + b)\<^sup>2"
  by (simp add: power2_sum)

lemma height_log: "balanced t \<Longrightarrow> 2 ^ height t \<le> (length (inorder t) + 1)\<^sup>2"
proof (induction t)
  case (Avlnode l x b r)
  let ?a = "length (inorder l) + 1" and ?b = "length (inorder r) + 1"
  from Avlnode have IH: "2 ^ height l \<le> ?a\<^sup>2" "2 ^ height r \<le> ?b\<^sup>2" by auto
  have "2 ^ Suc (max (height l) (height r)) \<le> (?a + ?b)\<^sup>2"
  proof (cases b)
    case LH
    then show ?thesis
      using Avlnode.prems IH pow2_step [of "height r" ?b ?a] by (simp add: max_absorb1 add.commute)
  next
    case RH
    then show ?thesis
      using Avlnode.prems IH pow2_step [of "height l" ?a ?b] by (simp add: max_absorb2 add.commute)
  next
    case EH
    with Avlnode.prems IH sum_squares_le [of ?a ?b] show ?thesis by simp
  qed
  then show ?case by (simp add: add.commute add.left_commute)
qed simp

section \<open>Sequences of updates\<close>

text \<open>
  A driver (testavl.c is one) applies insertions and deletions in any order; \<open>avl_run\<close> does, and
  \<open>list_run\<close> is the specification on the sorted list.
\<close>

datatype 'a avl_op = Insert 'a | Delete 'a

fun avl_run :: "('a \<Rightarrow> 'a \<Rightarrow> int) \<Rightarrow> 'a avl_op list \<Rightarrow> 'a avlnode \<Rightarrow> 'a avlnode option" where
  "avl_run cmp [] t = Some t"
| "avl_run cmp (Insert d # ops) t =
    (case avl_insert cmp avl_dup_error True d t of None \<Rightarrow> None
     | Some (t', rc) \<Rightarrow> avl_run cmp ops t')"
| "avl_run cmp (Delete d # ops) t =
    (case avl_delete cmp d t of None \<Rightarrow> None | Some (t', saved) \<Rightarrow> avl_run cmp ops t')"

fun list_run :: "('a \<Rightarrow> 'a \<Rightarrow> int) \<Rightarrow> 'a avl_op list \<Rightarrow> 'a list \<Rightarrow> 'a list" where
  "list_run cmp [] xs = xs"
| "list_run cmp (Insert d # ops) xs = list_run cmp ops (inserted cmp avl_dup_error d xs)"
| "list_run cmp (Delete d # ops) xs = list_run cmp ops (without cmp d xs)"

context avl_order begin

lemma insert_correct:
  assumes "balanced t" "ordered cmp (inorder t)"
  shows "\<exists>t'. avl_insert cmp fdup True d t = Some (t', insert_rc cmp fdup d (inorder t))
    \<and> balanced t' \<and> inorder t' = inserted cmp fdup d (inorder t)"
  using ravl_insert_ok [OF assms(1), of fdup d] assms(2)
  by (auto simp: avl_insert_def split: option.splits prod.splits)

lemma delete_correct:
  assumes "balanced t" "ordered cmp (inorder t)"
  shows "\<exists>t'. avl_delete cmp d t = Some (t', equal_in cmp d (inorder t))
    \<and> balanced t' \<and> inorder t' = without cmp d (inorder t)"
  using ravl_delete_ok [OF assms, of d] by (auto simp: avl_delete_def deleted_ok_def)

lemma ordered_without: "ordered cmp xs \<Longrightarrow> ordered cmp (without cmp d xs)"
  by (simp add: ordered_def without_def sorted_wrt_filter)

lemma ordered_inserted:
  assumes "ordered cmp xs" "\<And>y. equal_in cmp d xs = Some y \<Longrightarrow> snd (fdup y d) = y"
  shows "ordered cmp (inserted cmp fdup d xs)"
proof -
  let ?y = "case equal_in cmp d xs of None \<Rightarrow> d | Some y \<Rightarrow> snd (fdup y d)"
  have y: "cmp d ?y = 0"
    using assms(2) cmp_flip [of d d]
    by (auto simp: equal_in_def find_Some_iff split: option.split)
  have "\<forall>a\<in>set (filter (\<lambda>y. 0 < cmp d y) xs). cmp a ?y < 0"
  proof
    fix a assume "a \<in> set (filter (\<lambda>y. 0 < cmp d y) xs)"
    then have "cmp a d < 0" using cmp_flip by simp
    moreover have "cmp ?y d = 0" using y cmp_equal_sym by blast
    ultimately have "0 < cmp ?y a" by (intro cmp_ge_trans [of ?y d a]) simp_all
    then show "cmp a ?y < 0" using cmp_flip by blast
  qed
  moreover have "\<forall>b\<in>set (filter (\<lambda>y. cmp d y < 0) xs). cmp ?y b < 0"
    using y cmp_equal by fastforce
  ultimately show ?thesis
    using assms(1) by (simp add: inserted_def ordered_def [of cmp xs] sorted_wrt_filter
        ordered_def [of cmp "filter _ xs"])
qed

lemma run_correct:
  assumes "balanced t" "ordered cmp (inorder t)"
  shows "\<exists>t'. avl_run cmp ops t = Some t' \<and> balanced t' \<and> ordered cmp (inorder t')
    \<and> inorder t' = list_run cmp ops (inorder t)"
  using assms
proof (induction ops arbitrary: t)
  case (Cons p ops)
  show ?case
  proof (cases p)
    case (Insert d)
    obtain t1 where t1: "avl_insert cmp avl_dup_error True d t
        = Some (t1, insert_rc cmp avl_dup_error d (inorder t))" "balanced t1"
        "inorder t1 = inserted cmp avl_dup_error d (inorder t)"
      using insert_correct [OF Cons.prems] by blast
    have "ordered cmp (inorder t1)"
      using ordered_inserted [OF Cons.prems(2)] t1 by (simp add: avl_dup_error_def)
    with Cons.IH [of t1] t1 Insert show ?thesis by auto
  next
    case (Delete d)
    obtain t1 where t1: "avl_delete cmp d t = Some (t1, equal_in cmp d (inorder t))"
        "balanced t1" "inorder t1 = without cmp d (inorder t)"
      using delete_correct [OF Cons.prems] by blast
    with Cons.IH [of t1] Cons.prems ordered_without Delete show ?thesis by auto
  qed
qed simp

lemma find_correct: "ordered cmp (inorder t) \<Longrightarrow> avl_find cmp d t = equal_in cmp d (inorder t)"
proof (induction t)
  case (Avlnode l x b r)
  consider "cmp d x = 0" | "cmp d x < 0" | "0 < cmp d x" by linarith
  then show ?case
  proof cases
    case 1
    then show ?thesis
      using Avlnode before_pos [of "inorder l" x "inorder r" d] by (simp add: equal_in_append equal_in_Cons)
  next
    case 2
    then show ?thesis
      using Avlnode after_neg [of "inorder l" x "inorder r" d]
      by (auto simp: equal_in_append equal_in_Cons split: option.split)
  next
    case 3
    then show ?thesis
      using Avlnode before_pos [of "inorder l" x "inorder r" d]
      by (auto simp: equal_in_append equal_in_Cons split: option.split)
  qed
qed simp

end

section \<open>The contract holds for strcmp\<close>

interpretation strcmp: avl_order strcmp
proof unfold_locales
  fix a b c
  show "(strcmp a b < 0) = (0 < strcmp b a)" by (rule strcmp_flip)
  show "strcmp a b < 0 \<Longrightarrow> strcmp b c < 0 \<Longrightarrow> strcmp a c < 0" by (rule strcmp_trans)
  show "strcmp a b = 0 \<Longrightarrow> (strcmp a c < 0) = (strcmp b c < 0)" by simp
qed

section \<open>Properties\<close>

text \<open>
  C9: whatever sequence of insertions and deletions is applied to the empty tree with
  \<open>strcmp\<close> as the comparison, no step follows a null pointer, reads an unset flag or reaches the
  error exit of a rotation; the tree stays balanced and ordered, holds exactly what the sorted-list
  specification holds, and its height is logarithmic in the number of its nodes.
\<close>

theorem avl_updates_refine_sorted_list:
  "\<exists>t. avl_run strcmp ops Null = Some t \<and> balanced t \<and> ordered strcmp (inorder t)
    \<and> inorder t = list_run strcmp ops [] \<and> 2 ^ height t \<le> (length (inorder t) + 1)\<^sup>2"
  using strcmp.run_correct [of Null ops] height_log by fastforce

text \<open>
  \<open>avl_insert\<close> into a balanced ordered tree, when the allocation succeeds, puts the data in its
  place, or hands a duplicate to \<open>fdup\<close> and returns its value; the tree stays balanced.
\<close>

theorem avl_insert_spec:
  assumes "avl_order cmp" "balanced t" "ordered cmp (inorder t)"
  shows "\<exists>t'. avl_insert cmp fdup True d t = Some (t', insert_rc cmp fdup d (inorder t))
    \<and> balanced t' \<and> inorder t' = inserted cmp fdup d (inorder t)"
  using avl_order.insert_correct [OF assms] .

lemma int_avl_order: "avl_order (\<lambda>a b. a - b :: int)"
  by unfold_locales auto

theorem avl_insert_spec_witness:
  "\<exists>t'. avl_insert (\<lambda>a b. a - b :: int) avl_dup_error True 7
      (Avlnode Null 3 RH (Avlnode Null 5 EH Null)) = Some (t', 0) \<and> inorder t' = [3, 5, 7]"
  using avl_insert_spec [OF int_avl_order, of "Avlnode Null 3 RH (Avlnode Null 5 EH Null)"
      avl_dup_error 7]
  by (auto simp: ordered_def inserted_def insert_rc_def equal_in_def)

text \<open>
  \<open>avl_delete\<close> on a balanced ordered tree returns the data equal to the key if there is any
  (the null pointer otherwise), removes exactly it and keeps the tree balanced and ordered.
\<close>

theorem avl_delete_spec:
  assumes "avl_order cmp" "balanced t" "ordered cmp (inorder t)"
  shows "\<exists>t'. avl_delete cmp d t = Some (t', equal_in cmp d (inorder t)) \<and> balanced t'
    \<and> inorder t' = without cmp d (inorder t) \<and> ordered cmp (inorder t')"
  using avl_order.delete_correct [OF assms] avl_order.ordered_without [OF assms(1,3)] by metis

theorem avl_delete_spec_witness:
  "\<exists>t'. avl_delete (\<lambda>a b. a - b :: int) 3
      (Avlnode (Avlnode Null 1 EH Null) 3 RH (Avlnode (Avlnode Null 4 EH Null) 5 LH Null))
    = Some (t', Some 3) \<and> balanced t' \<and> inorder t' = [1, 4, 5]"
  using avl_delete_spec [OF int_avl_order,
      of "Avlnode (Avlnode Null 1 EH Null) 3 RH (Avlnode (Avlnode Null 4 EH Null) 5 LH Null)" 3]
  by (auto simp: ordered_def without_def equal_in_def)

text \<open>
  \<open>avl_find\<close> on an ordered tree returns the data equal to the key, or the null pointer when
  there is none.
\<close>

theorem avl_find_spec:
  assumes "avl_order cmp" "ordered cmp (inorder t)"
  shows "avl_find cmp d t = equal_in cmp d (inorder t)"
  using avl_order.find_correct [OF assms] .

theorem avl_find_spec_witness:
  "avl_find (\<lambda>a b. a - b :: int) 5 (Avlnode Null 3 RH (Avlnode Null 5 EH Null)) = Some 5"
  using avl_find_spec [OF int_avl_order, of "Avlnode Null 3 RH (Avlnode Null 5 EH Null)" 5]
  by (simp add: ordered_def equal_in_def)

text \<open>
  the traversals call the visitor along the in-order, pre-order and post-order list until it
  returns the stop flag.  In-order and pre-order return \<open>AVL_NOMORE\<close> when it never does; post-order
  returns what the last call returned.
\<close>

theorem avl_apply_visits:
  assumes "stop \<noteq> AVL_NOMORE"
  shows "avl_apply t fn stop AVL_INORDER s = visit_all fn stop (inorder t) s
    \<and> avl_apply t fn stop AVL_PREORDER s = visit_all fn stop (preorder t) s
    \<and> avl_apply t fn stop AVL_POSTORDER s = visit_last fn stop AVL_NOMORE (postorder t) s"
  using assms by (simp add: avl_apply_def AVL_INORDER_def AVL_PREORDER_def AVL_POSTORDER_def
      avl_inapply_visit avl_preapply_visit avl_postapply_visit)

theorem avl_apply_visits_witness:
  "avl_apply (Avlnode Null (3 :: int) EH Null) (\<lambda>x s. (0, s @ [x])) (-1) AVL_POSTORDER []
    = (0, [3])"
  using avl_apply_visits [of "-1" "Avlnode Null (3 :: int) EH Null" "\<lambda>x s. (0, s @ [x])" "[]"]
  by (simp add: AVL_NOMORE_def)

text \<open>
  \<open>avl_getfirst\<close> and the calls of \<open>avl_getnext\<close> after it yield the in-order list, then the null
  pointer, and leave no list behind, whatever state an earlier traversal left; the growing array
  is never written or read outside its bounds.
\<close>

theorem avl_iterator_yields_inorder:
  assumes "t \<noteq> Null" "\<forall>n. alloc n"
  shows "\<exists>x s1 xs s2. avl_getfirst alloc t s = Some (Some x, s1)
    \<and> avl_drain (length (inorder t)) s1 = Some (xs, s2) \<and> x # xs = inorder t \<and> avl_list s2 = None"
proof -
  obtain s1 where s1: "avl_getfirst alloc t s = Some (Some (hd (inorder t)), s1)"
      "holds (inorder t) s1" "avl_nextlist s1 = 1"
    using getfirst_holds [OF assms] by blast
  moreover have "inorder t \<noteq> []" using assms(1) by simp
  ultimately show ?thesis
    using drain_holds [of "inorder t" s1 "length (inorder t)"]
    by (cases "inorder t") auto
qed

theorem avl_iterator_yields_inorder_witness:
  "\<exists>x s1 xs s2. avl_getfirst (\<lambda>_. True) (Avlnode (Avlnode Null (1 :: int) EH Null) 2 LH Null)
      \<lparr>avl_list = None, avl_maxlist = 0, avl_nextlist = 0, slots = 0\<rparr> = Some (Some x, s1)
    \<and> avl_drain 2 s1 = Some (xs, s2) \<and> x # xs = [1, 2] \<and> avl_list s2 = None"
  using avl_iterator_yields_inorder [of "Avlnode (Avlnode Null (1 :: int) EH Null) 2 LH Null"
      "\<lambda>_. True" "\<lparr>avl_list = None, avl_maxlist = 0, avl_nextlist = 0, slots = 0\<rparr>"]
  by (simp add: numeral_2_eq_2)

text \<open>
  When the allocation of the new node fails below the root, every caller of \<open>ravl_insert\<close> up
  the path reads the flag \<open>taller\<close> that the failing call never set: the run is undefined instead
  of returning the error -1, which only an insertion into the empty tree does.
\<close>

theorem avl_insert_failed_allocation:
  assumes "equal_in cmp d (inorder t) = None" "t \<noteq> Null"
  shows "avl_insert cmp fdup False d t = None
    \<and> avl_insert cmp fdup False d Null = Some (Null, -1)"
proof -
  have "ravl_insert cmp fdup False d t = (if t = Null then Some (Null, -1, None) else None)"
    using assms(1)
  proof (induction t)
    case (Avlnode l x b r)
    then have "equal_in cmp d (inorder l) = None" "cmp d x \<noteq> 0"
        "equal_in cmp d (inorder r) = None"
      by (auto simp: equal_in_append equal_in_Cons split: option.splits if_splits)
    with Avlnode.IH show ?case by (auto split: if_splits)
  qed simp
  with assms(2) show ?thesis by (simp add: avl_insert_def)
qed

theorem avl_insert_failed_allocation_witness:
  "avl_insert (\<lambda>a b. a - b :: int) avl_dup_error False 7 (Avlnode Null 3 EH Null) = None"
  using avl_insert_failed_allocation [of "\<lambda>a b. a - b :: int" 7 "Avlnode Null 3 EH Null" avl_dup_error]
  by (simp add: equal_in_def)

end
