(* ===== verification/Ber_Next.thy ===== *)
theory Ber_Next imports Ber_Element begin

text \<open>
  \<open>ber_get_next\<close> of libraries/liblber/io.c: the reader of one BER element from a transport that may
  stop delivering at any octet.  A call that cannot finish returns \<open>LBER_DEFAULT\<close> and leaves in
  \<open>ber_rwptr\<close> where the next call continues.

  The transport \<open>sb_read s n\<close> returns a count (\<open>\<le> 0\<close> when nothing could be read), the octets and its
  new state.  The octets of the field \<open>ber_tag\<close> are addressed as on a little-endian machine.  Whether a
  plain \<open>char\<close> is signed is the parameter \<open>schar\<close>.
\<close>

type_synonym 's reader = "'s \<Rightarrow> nat \<Rightarrow> int \<times> octets \<times> 's"

datatype ber_errno = ERANGE | EWOULDBLOCK

text \<open>
  The outcome of a call: the value returned, the output \<open>len\<close> if it was written, the error number if
  it was set, the element and the transport.
\<close>

type_synonym 's next_result = "u32 \<times> u32 option \<times> ber_errno option \<times> berelement \<times> 's"

definition next_fail :: "ber_errno option \<Rightarrow> berelement \<Rightarrow> 's \<Rightarrow> 's next_result" where
  "next_fail e ber s = (LBER_DEFAULT, None, e, ber, s)"

text \<open>\<open>BerRead\<close> reads until it has \<open>len\<close> octets or the transport gives none.\<close>

function BerRead_loop :: "'s reader \<Rightarrow> 's \<Rightarrow> nat \<Rightarrow> octets \<Rightarrow> int \<times> octets \<times> 's" where
  "BerRead_loop sb_read s len got =
    (if len = 0 then (int (length got), got, s)
     else let (c, bs, s') = sb_read s len in
       if c \<le> 0 then (if length got > 0 then (int (length got), got, s') else (c, [], s'))
       else BerRead_loop sb_read s' (len - nat c) (got @ bs))"
  by pat_completeness auto
termination
  by (relation "measure (\<lambda>(r, s, len, got). len)") auto

definition BerRead :: "'s reader \<Rightarrow> 's \<Rightarrow> nat \<Rightarrow> int \<times> octets \<times> 's" where
  "BerRead sb_read s len = BerRead_loop sb_read s len []"

text \<open>Storing octet \<open>k\<close> of a 32-bit field in memory.\<close>

definition set_octet :: "nat \<Rightarrow> u8 \<Rightarrow> u32 \<Rightarrow> u32" where
  "set_octet k b w = (w AND NOT (push_bit (8 * k) 0xff)) OR push_bit (8 * k) (ucast b)"

definition char_value :: "bool \<Rightarrow> u8 \<Rightarrow> u32" where
  "char_value schar b = (if schar then scast b else ucast b)"

section \<open>The states\<close>

text \<open>
  The last state: the buffer is filled.  A write pointer that is not in the buffer runs into the
  assertion.
\<close>

definition fill_buffer :: "'s reader \<Rightarrow> allocator \<Rightarrow> u32 \<Rightarrow> 's \<Rightarrow> berelement \<Rightarrow> 's next_result option" where
  "fill_buffer sb_read alloc sb_max_incoming s ber =
    (if ber_len ber = 0 \<or> sb_max_incoming \<noteq> 0 \<and> ber_len ber > sb_max_incoming
     then Some (next_fail (Some ERANGE) ber s)
     else
       let allocated =
         (case ber_buf ber of
            Some _ \<Rightarrow> Some ber
          | None \<Rightarrow>
             (case alloc (unat (ber_len ber)) of None \<Rightarrow> None
              | Some block \<Rightarrow> Some (ber\<lparr>ber_buf := Some block, ber_rwptr := RwBuf 0, ber_ptr := 0,
                  ber_end := unat (ber_len ber)\<rparr>)))
       in case allocated of
         None \<Rightarrow> Some (next_fail None ber s)
       | Some ber1 \<Rightarrow>
          (case ber_rwptr ber1 of
             RwBuf k \<Rightarrow>
              (if k < ber_end ber1 then
                 (let to_go = ber_end ber1 - k; (res, bs, s') = sb_read s to_go in
                  if res \<le> 0 then Some (next_fail None ber1 s')
                  else case ber_store k bs ber1 of None \<Rightarrow> None
                    | Some ber2 \<Rightarrow>
                       (if nat res < to_go
                        then Some (next_fail (Some EWOULDBLOCK)
                               (ber2\<lparr>ber_rwptr := RwBuf (k + nat res)\<rparr>) s')
                        else Some (ber_tag ber2, Some (ber_len ber2), None,
                               ber2\<lparr>ber_rwptr := RwNull\<rparr>, s')))
               else None)
           | _ \<Rightarrow> None))"

text \<open>The octets of a long length; \<open>RwLen 4\<close> points just behind the field.\<close>

definition get_length_octets :: "'s reader \<Rightarrow> allocator \<Rightarrow> u32 \<Rightarrow> 's \<Rightarrow> berelement
    \<Rightarrow> 's next_result option" where
  "get_length_octets sb_read alloc sb_max_incoming s ber =
    (case ber_rwptr ber of
       RwLen k \<Rightarrow>
        (if k < 4 then
           (let (res, netlen, s') = BerRead sb_read s (4 - k) in
            if res \<le> 0 then Some (next_fail None ber s')
            else let ber1 = ber\<lparr>ber_rwptr := RwLen (k + nat res),
                                ber_len := of_be_from (ber_len ber) netlen\<rparr>
              in if k + nat res < 4 then Some (next_fail None ber1 s')
                 else fill_buffer sb_read alloc sb_max_incoming s' ber1)
         else fill_buffer sb_read alloc sb_max_incoming s ber)
     | _ \<Rightarrow> fill_buffer sb_read alloc sb_max_incoming s ber)"

definition get_lenbyte :: "'s reader \<Rightarrow> allocator \<Rightarrow> u32 \<Rightarrow> 's \<Rightarrow> berelement
    \<Rightarrow> 's next_result option" where
  "get_lenbyte sb_read alloc sb_max_incoming s ber =
    (if ber_rwptr ber = RwUsertag then
       (let (res, bs, s') = sb_read s 1 in
        if res \<le> 0 then Some (next_fail None ber s')
        else let c = hd bs in
          if c AND 0x80 \<noteq> 0 then
            (let len = unat (c AND 0x7f) in
             if len = 0 \<or> len > 4 then Some (next_fail (Some ERANGE) ber s')
             else get_length_octets sb_read alloc sb_max_incoming s'
                    (ber\<lparr>ber_rwptr := RwLen (4 - len), ber_len := 0\<rparr>))
          else fill_buffer sb_read alloc sb_max_incoming s' (ber\<lparr>ber_len := ucast c\<rparr>))
     else get_length_octets sb_read alloc sb_max_incoming s ber)"

text \<open>
  The loop over the further octets of a tag.  It never moves the write pointer: every octet is stored
  in the same place, and the loop ends only with an octet whose top bit is clear.  It may read for
  ever, so it is a partial function.  The shift count is in octets, and negative offsets make it
  \<open>4 + k\<close>.
\<close>

partial_function (option) tag_loop :: "'s reader \<Rightarrow> 's \<Rightarrow> nat \<Rightarrow> berelement
    \<Rightarrow> (bool \<times> berelement \<times> 's) option" where
  "tag_loop sb_read s k ber =
    (let (res, bs, s') = sb_read s 1 in
     if res \<le> 0 then Some (False, ber, s')
     else let ber1 = ber\<lparr>ber_tag := set_octet k (hd bs) (ber_tag ber)\<rparr> in
       if (ucast (hd bs) :: u32) AND LBER_MORE_TAG_MASK = 0 then
         Some (True, ber1\<lparr>ber_tag := drop_bit (4 + k) (ber_tag ber1), ber_rwptr := RwUsertag\<rparr>, s')
       else tag_loop sb_read s' k ber1)"

definition ber_get_next :: "bool \<Rightarrow> 's reader \<Rightarrow> allocator \<Rightarrow> u32 \<Rightarrow> 's \<Rightarrow> berelement
    \<Rightarrow> 's next_result option" where
  "ber_get_next schar sb_read alloc sb_max_incoming s ber0 =
    (let ber = (if ber_rwptr ber0 = RwNull then ber0\<lparr>ber_rwptr := RwTag 0, ber_tag := 0\<rparr> else ber0);
         further = (\<lambda>s ber k.
           case tag_loop sb_read s k ber of None \<Rightarrow> None
           | Some (complete, ber1, s') \<Rightarrow>
              (if complete then get_lenbyte sb_read alloc sb_max_incoming s' ber1
               else Some (next_fail None ber1 s')))
     in case ber_rwptr ber of
       RwTag k \<Rightarrow>
        (if k = 0 then
           (let (res, bs, s') = sb_read s 1 in
            if res \<le> 0 then Some (next_fail None ber s')
            else let ber1 = ber\<lparr>ber_tag := set_octet 0 (hd bs) (ber_tag ber)\<rparr> in
              if (ucast (hd bs) :: u32) AND LBER_BIG_TAG_MASK \<noteq> LBER_BIG_TAG_MASK then
                get_lenbyte sb_read alloc sb_max_incoming s'
                  (ber1\<lparr>ber_tag := char_value schar (hd bs), ber_rwptr := RwUsertag\<rparr>)
              else further s' (ber1\<lparr>ber_rwptr := RwTag 1\<rparr>) 1)
         else further s ber k)
     | _ \<Rightarrow> get_lenbyte sb_read alloc sb_max_incoming s ber)"

end
