(* ===== verification/Sockbuf.thy ===== *)
theory Sockbuf imports Ber_Element begin

text \<open>
  The socket buffer of libraries/liblber/sockbuf.c: a stack of I/O layers over a descriptor, with the
  descriptor layers (TCP and plain files), the read-ahead layer and the debugging layer.

  The operating system is a parameter, the record \<open>os\<close> of its calls on a state \<open>'w\<close>.  A call returns
  the return value, the octets read where it reads, whether \<open>errno\<close> is \<open>EINTR\<close> afterwards, and the new
  state.  \<open>None\<close> stands for a null dereference, a failed assertion, an access outside a block or a loop
  that does not end.
\<close>

record 'w os =
  os_read :: "int \<Rightarrow> nat \<Rightarrow> 'w \<Rightarrow> int \<times> octets \<times> bool \<times> 'w"
  os_write :: "int \<Rightarrow> octets \<Rightarrow> 'w \<Rightarrow> int \<times> bool \<times> 'w"
  os_close :: "int \<Rightarrow> 'w \<Rightarrow> 'w"
  os_nonblock :: "int \<Rightarrow> bool \<Rightarrow> 'w \<Rightarrow> int \<times> 'w"

type_synonym 's layer_read = "'s \<Rightarrow> nat \<Rightarrow> (int \<times> octets \<times> bool \<times> 's) option"
type_synonym 's layer_write = "'s \<Rightarrow> octets \<Rightarrow> (int \<times> bool \<times> 's) option"

section \<open>Buffers\<close>

definition MIN_BUFF_SIZE :: nat where "MIN_BUFF_SIZE = 4096"
definition MAX_BUFF_SIZE :: nat where "MAX_BUFF_SIZE = 65536"
definition DEFAULT_READAHEAD :: nat where "DEFAULT_READAHEAD = 16384"

record sockbuf_buf =
  buf_size :: nat
  buf_ptr :: nat
  buf_end :: nat
  buf_base :: "octets option"

definition ber_pvt_sb_buf_init :: sockbuf_buf where
  "ber_pvt_sb_buf_init = \<lparr>buf_size = 0, buf_ptr = 0, buf_end = 0, buf_base = None\<rparr>"

definition ber_pvt_sb_buf_destroy :: "sockbuf_buf \<Rightarrow> sockbuf_buf" where
  "ber_pvt_sb_buf_destroy buf = ber_pvt_sb_buf_init"

definition buf_block :: "sockbuf_buf \<Rightarrow> octets" where
  "buf_block buf = (case buf_base buf of None \<Rightarrow> [] | Some block \<Rightarrow> block)"

text \<open>The doubling loop after \<open>k\<close> rounds.\<close>

function grow_size :: "nat \<Rightarrow> nat \<Rightarrow> nat option" where
  "grow_size minsize k =
    (let pw = push_bit k MIN_BUFF_SIZE in
     if pw < minsize then (if pw > MAX_BUFF_SIZE then None else grow_size minsize (Suc k))
     else Some pw)"
  by pat_completeness auto
termination
proof (relation "measure (\<lambda>(m, k). 5 - k)")
  fix minsize k :: nat and pw :: nat
  assume "pw = push_bit k MIN_BUFF_SIZE" "\<not> pw > MAX_BUFF_SIZE"
  then have "(2 :: nat) ^ k * 2 ^ 12 \<le> 2 ^ 4 * 2 ^ 12"
    by (simp add: push_bit_eq_mult MIN_BUFF_SIZE_def MAX_BUFF_SIZE_def)
  then have "(2 :: nat) ^ k \<le> 2 ^ 4" by simp
  then have "k \<le> 4" by (rule power_le_imp_le_exp [rotated]) simp
  then show "((minsize, Suc k), (minsize, k)) \<in> measure (\<lambda>(m, k). 5 - k)" by auto
qed simp

declare grow_size.simps [simp del]

definition ber_pvt_sb_grow_buffer :: "allocator \<Rightarrow> sockbuf_buf \<Rightarrow> nat \<Rightarrow> int \<times> sockbuf_buf" where
  "ber_pvt_sb_grow_buffer alloc buf minsize =
    (case grow_size minsize 0 of
       None \<Rightarrow> (-1, buf)
     | Some pw \<Rightarrow>
        (if buf_size buf < pw then
           (case realloc_block alloc (buf_block buf) pw of
              None \<Rightarrow> (-1, buf)
            | Some p \<Rightarrow> (0, buf\<lparr>buf_base := Some p, buf_size := pw\<rparr>))
         else (0, buf)))"

definition ber_pvt_sb_copy_out :: "sockbuf_buf \<Rightarrow> nat \<Rightarrow> (octets \<times> sockbuf_buf) option" where
  "ber_pvt_sb_copy_out sbb len =
    (let avail = buf_end sbb - buf_ptr sbb; n = (if avail < len then avail else len) in
     if n = 0 then Some ([], sbb)
     else if buf_ptr sbb + n > length (buf_block sbb) then None
     else let sbb1 = sbb\<lparr>buf_ptr := buf_ptr sbb + n\<rparr> in
       Some (take n (drop (buf_ptr sbb) (buf_block sbb)),
         if buf_ptr sbb1 \<ge> buf_end sbb1 then sbb1\<lparr>buf_ptr := 0, buf_end := 0\<rparr> else sbb1))"

text \<open>A call is repeated as long as it fails with \<open>EINTR\<close>; it may be interrupted for ever.\<close>

partial_function (option) retry_read :: "('s \<Rightarrow> (int \<times> octets \<times> bool \<times> 's) option) \<Rightarrow> 's
    \<Rightarrow> (int \<times> octets \<times> bool \<times> 's) option" where
  "retry_read call s =
    (case call s of None \<Rightarrow> None
     | Some (ret, bs, eintr, s') \<Rightarrow>
        if ret < 0 \<and> eintr then retry_read call s' else Some (ret, bs, eintr, s'))"

partial_function (option) retry_write :: "('s \<Rightarrow> (int \<times> bool \<times> 's) option) \<Rightarrow> 's
    \<Rightarrow> (int \<times> bool \<times> 's) option" where
  "retry_write call s =
    (case call s of None \<Rightarrow> None
     | Some (ret, eintr, s') \<Rightarrow>
        if ret < 0 \<and> eintr then retry_write call s' else Some (ret, eintr, s'))"

definition ber_pvt_sb_do_write :: "'s layer_write \<Rightarrow> sockbuf_buf \<Rightarrow> 's
    \<Rightarrow> (int \<times> bool \<times> sockbuf_buf \<times> 's) option" where
  "ber_pvt_sb_do_write write_next buf_out s =
    (let to_go = buf_end buf_out - buf_ptr buf_out in
     if to_go = 0 \<or> buf_end buf_out > length (buf_block buf_out) then None
     else case retry_write (\<lambda>s. write_next s (take to_go (drop (buf_ptr buf_out) (buf_block buf_out)))) s of
         None \<Rightarrow> None
       | Some (ret, eintr, s') \<Rightarrow>
          (if ret \<le> 0 then Some (ret, eintr, buf_out, s')
           else let ptr = buf_ptr buf_out + nat ret;
                    buf' = (if ptr = buf_end buf_out then buf_out\<lparr>buf_ptr := 0, buf_end := 0\<rparr>
                            else buf_out\<lparr>buf_ptr := ptr\<rparr>)
                in Some (if nat ret < to_go then -1 else ret, False, buf', s')))"

section \<open>Layers\<close>

datatype sockbuf_io = Io_tcp | Io_fd | Io_readahead | Io_debug

text \<open>The private data of a layer: null, the buffer of a read-ahead layer or the name of a debugging layer.\<close>

datatype sbiod_private = PvtNull | PvtBuf sockbuf_buf | PvtName octets

record sockbuf_io_desc =
  sbiod_level :: int
  sbiod_io :: sockbuf_io
  sbiod_pvt :: sbiod_private

text \<open>The layers are listed from \<open>sb_iod\<close> along \<open>sbiod_next\<close>.\<close>

record sockbuf =
  sb_iod :: "sockbuf_io_desc list"
  sb_fd :: int
  sb_trans_needs_read :: bool
  sb_trans_needs_write :: bool
  sb_max_incoming :: u32

definition AC_SOCKET_INVALID :: int where "AC_SOCKET_INVALID = -1"

text \<open>What the argument pointer of \<open>setup\<close> and \<open>ctrl\<close> points to.\<close>

datatype ctrl_arg = ArgNull | ArgInt int | ArgStr octets | ArgIo sockbuf_io

text \<open>The state of a layer is the descriptor and those below it, with the operating system's state.\<close>

type_synonym 'w stack = "sockbuf_io_desc list \<times> 'w"

subsection \<open>Descriptors\<close>

definition sb_stream_read :: "'w os \<Rightarrow> int \<Rightarrow> 'w stack layer_read" where
  "sb_stream_read os fd st len =
    (let (ret, bs, eintr, w') = os_read os fd len (snd st) in Some (ret, bs, eintr, fst st, w'))"

definition sb_stream_write :: "'w os \<Rightarrow> int \<Rightarrow> 'w stack layer_write" where
  "sb_stream_write os fd st buf =
    (let (ret, eintr, w') = os_write os fd buf (snd st) in Some (ret, eintr, fst st, w'))"

definition sb_fd_read :: "'w os \<Rightarrow> int \<Rightarrow> 'w stack layer_read" where
  "sb_fd_read os fd st len =
    (let (ret, bs, eintr, w') = os_read os fd len (snd st) in Some (ret, bs, eintr, fst st, w'))"

definition sb_fd_write :: "'w os \<Rightarrow> int \<Rightarrow> 'w stack layer_write" where
  "sb_fd_write os fd st buf =
    (let (ret, eintr, w') = os_write os fd buf (snd st) in Some (ret, eintr, fst st, w'))"

text \<open>A \<open>setup\<close> returns its value, the descriptor number and the private data of the new layer.\<close>

definition sb_stream_setup :: "int \<Rightarrow> ctrl_arg \<Rightarrow> (int \<times> int \<times> sbiod_private) option" where
  "sb_stream_setup fd arg =
    (case arg of ArgNull \<Rightarrow> Some (0, fd, PvtNull) | ArgInt i \<Rightarrow> Some (0, i, PvtNull) | _ \<Rightarrow> None)"

definition sb_fd_setup :: "int \<Rightarrow> ctrl_arg \<Rightarrow> (int \<times> int \<times> sbiod_private) option" where
  "sb_fd_setup fd arg =
    (case arg of ArgNull \<Rightarrow> Some (0, fd, PvtNull) | ArgInt i \<Rightarrow> Some (0, i, PvtNull) | _ \<Rightarrow> None)"

subsection \<open>Read-ahead\<close>

definition SOCKBUF_BUF_SIZE :: nat where "SOCKBUF_BUF_SIZE = 16"

definition uint_arg :: "int \<Rightarrow> nat" where
  "uint_arg i = unat (of_int i :: u32)"

definition sb_rdahead_setup :: "allocator \<Rightarrow> int \<Rightarrow> ctrl_arg \<Rightarrow> (int \<times> int \<times> sbiod_private) option" where
  "sb_rdahead_setup alloc fd arg =
    (case alloc SOCKBUF_BUF_SIZE of
       None \<Rightarrow> Some (-1, fd, PvtNull)
     | Some _ \<Rightarrow>
        (case arg of
           ArgNull \<Rightarrow> Some (0, fd, PvtBuf (snd (ber_pvt_sb_grow_buffer alloc ber_pvt_sb_buf_init DEFAULT_READAHEAD)))
         | ArgInt i \<Rightarrow> Some (0, fd, PvtBuf (snd (ber_pvt_sb_grow_buffer alloc ber_pvt_sb_buf_init (uint_arg i))))
         | _ \<Rightarrow> None))"

text \<open>Removing a layer: \<open>-1\<close> with the private data unchanged, or 0.\<close>

definition sb_rdahead_remove :: "sbiod_private \<Rightarrow> (int \<times> sbiod_private) option" where
  "sb_rdahead_remove pvt =
    (case pvt of
       PvtBuf p \<Rightarrow> Some (if buf_ptr p \<noteq> buf_end p then (-1, pvt) else (0, PvtNull))
     | _ \<Rightarrow> None)"

text \<open>The octets a layer below has put into the buffer from \<open>buf_end\<close> on.\<close>

definition rdahead_fill :: "sockbuf_buf \<Rightarrow> octets \<Rightarrow> sockbuf_buf option" where
  "rdahead_fill p bs =
    (if bs = [] then Some p
     else map_option (\<lambda>block. p\<lparr>buf_base := Some block, buf_end := buf_end p + length bs\<rparr>)
            (store (buf_end p) bs (buf_block p)))"

definition sb_rdahead_read :: "'s layer_read \<Rightarrow> (sockbuf_buf \<times> 's) layer_read" where
  "sb_rdahead_read read_next st len =
    (let (p, s) = st in
     if buf_size p = 0 then None
     else case ber_pvt_sb_copy_out p len of None \<Rightarrow> None
       | Some (got, p1) \<Rightarrow>
          (let len1 = len - length got in
           if len1 = 0 then Some (int (length got), got, False, p1, s)
           else let room = buf_size p1 - buf_end p1 in
             case (if room > 0 then retry_read (\<lambda>s. read_next s room) s else Some (0, [], False, s)) of
               None \<Rightarrow> None
             | Some (ret, bs, eintr, s') \<Rightarrow>
                (if ret < 0 then
                   Some (if got \<noteq> [] then (int (length got), got, False, p1, s')
                         else (ret, [], eintr, p1, s'))
                 else case rdahead_fill p1 bs of None \<Rightarrow> None
                   | Some p2 \<Rightarrow>
                      (case ber_pvt_sb_copy_out p2 len1 of None \<Rightarrow> None
                       | Some (further, p3) \<Rightarrow>
                          Some (int (length got + length further), got @ further, False, p3, s')))))"

definition sb_rdahead_close :: "sbiod_private \<Rightarrow> (int \<times> sbiod_private) option" where
  "sb_rdahead_close pvt =
    (case pvt of PvtBuf p \<Rightarrow> Some (0, PvtBuf (ber_pvt_sb_buf_destroy p)) | _ \<Rightarrow> None)"

definition sb_rdahead_write :: "'s layer_write \<Rightarrow> 's layer_write" where
  "sb_rdahead_write write_next s buf = write_next s buf"

subsection \<open>Debugging\<close>

text \<open>The debugging layer writes to the log and passes every call on; the log is not modelled.\<close>

definition sb_debug_setup :: "allocator \<Rightarrow> int \<Rightarrow> ctrl_arg \<Rightarrow> (int \<times> int \<times> sbiod_private) option" where
  "sb_debug_setup alloc fd arg =
    (case (case arg of ArgNull \<Rightarrow> Some [0x73, 0x6f, 0x63, 0x6b, 0x62, 0x75, 0x66, 0x5f]
           | ArgStr s \<Rightarrow> Some s | _ \<Rightarrow> None) of
       None \<Rightarrow> None
     | Some name \<Rightarrow>
        (case alloc (length name + 1) of None \<Rightarrow> Some (-1, fd, PvtNull)
         | Some _ \<Rightarrow> Some (0, fd, PvtName name)))"

definition sb_debug_remove :: "sbiod_private \<Rightarrow> (int \<times> sbiod_private) option" where
  "sb_debug_remove pvt = (if pvt = PvtNull then None else Some (0, PvtNull))"

definition sb_debug_read :: "'s layer_read \<Rightarrow> 's layer_read" where
  "sb_debug_read read_next s len = read_next s len"

definition sb_debug_write :: "'s layer_write \<Rightarrow> 's layer_write" where
  "sb_debug_write write_next s buf = write_next s buf"

section \<open>The stack\<close>

text \<open>
  The functions of a layer are called through its descriptor; \<open>k\<close> bounds the depth of the stack and
  is its length.  Past the last descriptor \<open>sbiod_next\<close> is null.
\<close>

fun sbi_read :: "'w os \<Rightarrow> int \<Rightarrow> nat \<Rightarrow> 'w stack layer_read" where
  "sbi_read os fd 0 st len = None"
| "sbi_read os fd (Suc k) st len =
    (case fst st of [] \<Rightarrow> None
     | d # below \<Rightarrow>
        (case sbiod_io d of
           Io_tcp \<Rightarrow> sb_stream_read os fd st len
         | Io_fd \<Rightarrow> sb_fd_read os fd st len
         | Io_readahead \<Rightarrow>
            (case sbiod_pvt d of
               PvtBuf p \<Rightarrow>
                (if below = [] then None
                 else map_option (\<lambda>(ret, bs, eintr, p', below', w'). (ret, bs, eintr, d\<lparr>sbiod_pvt := PvtBuf p'\<rparr> # below', w'))
                        (sb_rdahead_read (sbi_read os fd k) (p, below, snd st) len))
             | _ \<Rightarrow> None)
         | Io_debug \<Rightarrow>
            map_option (\<lambda>(ret, bs, eintr, below', w'). (ret, bs, eintr, d # below', w'))
              (sb_debug_read (sbi_read os fd k) (below, snd st) len)))"

fun sbi_write :: "'w os \<Rightarrow> int \<Rightarrow> nat \<Rightarrow> 'w stack layer_write" where
  "sbi_write os fd 0 st buf = None"
| "sbi_write os fd (Suc k) st buf =
    (case fst st of [] \<Rightarrow> None
     | d # below \<Rightarrow>
        (case sbiod_io d of
           Io_tcp \<Rightarrow> sb_stream_write os fd st buf
         | Io_fd \<Rightarrow> sb_fd_write os fd st buf
         | Io_readahead \<Rightarrow>
            map_option (\<lambda>(ret, eintr, below', w'). (ret, eintr, d # below', w'))
              (sb_rdahead_write (sbi_write os fd k) (below, snd st) buf)
         | Io_debug \<Rightarrow>
            map_option (\<lambda>(ret, eintr, below', w'). (ret, eintr, d # below', w'))
              (sb_debug_write (sbi_write os fd k) (below, snd st) buf)))"

definition sbi_setup :: "allocator \<Rightarrow> sockbuf_io \<Rightarrow> int \<Rightarrow> ctrl_arg
    \<Rightarrow> (int \<times> int \<times> sbiod_private) option" where
  "sbi_setup alloc io fd arg =
    (case io of Io_tcp \<Rightarrow> sb_stream_setup fd arg | Io_fd \<Rightarrow> sb_fd_setup fd arg
     | Io_readahead \<Rightarrow> sb_rdahead_setup alloc fd arg | Io_debug \<Rightarrow> sb_debug_setup alloc fd arg)"

text \<open>The descriptor layers have no \<open>remove\<close>, the debugging layer has no \<open>close\<close>.\<close>

definition sbi_remove :: "sockbuf_io_desc \<Rightarrow> (int \<times> sbiod_private) option" where
  "sbi_remove d =
    (case sbiod_io d of Io_readahead \<Rightarrow> sb_rdahead_remove (sbiod_pvt d)
     | Io_debug \<Rightarrow> sb_debug_remove (sbiod_pvt d) | _ \<Rightarrow> Some (0, sbiod_pvt d))"

definition sbi_close :: "'w os \<Rightarrow> int \<Rightarrow> sockbuf_io_desc \<Rightarrow> 'w \<Rightarrow> (int \<times> sbiod_private \<times> 'w) option" where
  "sbi_close os fd d w =
    (case sbiod_io d of
       Io_readahead \<Rightarrow> map_option (\<lambda>(rc, pvt). (rc, pvt, w)) (sb_rdahead_close (sbiod_pvt d))
     | Io_debug \<Rightarrow> Some (0, sbiod_pvt d, w)
     | _ \<Rightarrow> Some (0, sbiod_pvt d, os_close os fd w))"

section \<open>Operations on the socket buffer\<close>

definition ber_int_sb_init :: "sockbuf \<Rightarrow> sockbuf" where
  "ber_int_sb_init sb = sb\<lparr>sb_fd := AC_SOCKET_INVALID, sb_iod := [],
    sb_trans_needs_read := False, sb_trans_needs_write := False\<rparr>"

text \<open>The structure is cleared by \<open>calloc\<close> before it is initialised.\<close>

definition ber_sockbuf_alloc :: "bool \<Rightarrow> sockbuf option" where
  "ber_sockbuf_alloc calloc_ok =
    (if calloc_ok
     then Some (ber_int_sb_init \<lparr>sb_iod = [], sb_fd = 0, sb_trans_needs_read = False,
            sb_trans_needs_write = False, sb_max_incoming = 0\<rparr>)
     else None)"

definition SBIOD_SIZE :: nat where "SBIOD_SIZE = 20"

text \<open>A new layer goes in front of the first one whose level is not greater than its own.\<close>

definition ber_sockbuf_add_io :: "allocator \<Rightarrow> sockbuf \<Rightarrow> sockbuf_io option \<Rightarrow> int \<Rightarrow> ctrl_arg
    \<Rightarrow> (int \<times> sockbuf) option" where
  "ber_sockbuf_add_io alloc sb sbio layer arg =
    (case sbio of None \<Rightarrow> Some (-1, sb)
     | Some io \<Rightarrow>
        (case alloc SBIOD_SIZE of None \<Rightarrow> Some (-1, sb)
         | Some _ \<Rightarrow>
            map_option (\<lambda>(rc, fd, pvt).
                (if rc < 0 then -1 else 0,
                 sb\<lparr>sb_fd := fd,
                   sb_iod := takeWhile (\<lambda>p. sbiod_level p > layer) (sb_iod sb)
                     @ \<lparr>sbiod_level = layer, sbiod_io = io, sbiod_pvt = pvt\<rparr>
                     # dropWhile (\<lambda>p. sbiod_level p > layer) (sb_iod sb)\<rparr>))
              (sbi_setup alloc io (sb_fd sb) arg)))"

fun remove_layer :: "sockbuf_io \<Rightarrow> int \<Rightarrow> sockbuf_io_desc list \<Rightarrow> (int \<times> sockbuf_io_desc list) option" where
  "remove_layer io layer [] = Some (0, [])"
| "remove_layer io layer (p # ps) =
    (if layer = sbiod_level p \<and> sbiod_io p = io then
       map_option (\<lambda>(rc, pvt). if rc < 0 then (-1, p\<lparr>sbiod_pvt := pvt\<rparr> # ps) else (0, ps)) (sbi_remove p)
     else map_option (\<lambda>(rc, ps'). (rc, p # ps')) (remove_layer io layer ps))"

definition ber_sockbuf_remove_io :: "sockbuf \<Rightarrow> sockbuf_io \<Rightarrow> int \<Rightarrow> (int \<times> sockbuf) option" where
  "ber_sockbuf_remove_io sb sbio layer =
    (if sb_iod sb = [] then Some (-1, sb)
     else map_option (\<lambda>(rc, ps). (rc, sb\<lparr>sb_iod := ps\<rparr>)) (remove_layer sbio layer (sb_iod sb)))"

fun close_layers :: "'w os \<Rightarrow> int \<Rightarrow> sockbuf_io_desc list \<Rightarrow> 'w
    \<Rightarrow> (int \<times> sockbuf_io_desc list \<times> 'w) option" where
  "close_layers os fd [] w = Some (0, [], w)"
| "close_layers os fd (p # ps) w =
    (case sbi_close os fd p w of None \<Rightarrow> None
     | Some (rc, pvt, w1) \<Rightarrow>
        (if rc < 0 then Some (-1, p\<lparr>sbiod_pvt := pvt\<rparr> # ps, w1)
         else map_option (\<lambda>(rc, ps', w'). (rc, p\<lparr>sbiod_pvt := pvt\<rparr> # ps', w')) (close_layers os fd ps w1)))"

definition ber_int_sb_close :: "'w os \<Rightarrow> sockbuf \<Rightarrow> 'w \<Rightarrow> (int \<times> sockbuf \<times> 'w) option" where
  "ber_int_sb_close os sb w =
    map_option (\<lambda>(rc, ps, w').
        if rc < 0 then (-1, sb\<lparr>sb_iod := ps\<rparr>, w')
        else (0, sb\<lparr>sb_iod := ps, sb_fd := AC_SOCKET_INVALID\<rparr>, w'))
      (close_layers os (sb_fd sb) (sb_iod sb) w)"

text \<open>
  The loop of \<open>ber_int_sb_destroy\<close> removes the first layer and goes on with the one behind it, whether
  or not the removal succeeded.
\<close>

fun destroy_layers :: "sockbuf_io_desc list \<Rightarrow> unit option" where
  "destroy_layers [] = Some ()"
| "destroy_layers (p # ps) =
    (case remove_layer (sbiod_io p) (sbiod_level p) (p # ps) of None \<Rightarrow> None
     | Some _ \<Rightarrow> destroy_layers ps)"

definition ber_int_sb_destroy :: "sockbuf \<Rightarrow> sockbuf option" where
  "ber_int_sb_destroy sb = map_option (\<lambda>_. ber_int_sb_init sb) (destroy_layers (sb_iod sb))"

definition ber_sockbuf_free :: "'w os \<Rightarrow> sockbuf \<Rightarrow> 'w \<Rightarrow> 'w option" where
  "ber_sockbuf_free os sb w =
    (case ber_int_sb_close os sb w of None \<Rightarrow> None
     | Some (_, sb1, w1) \<Rightarrow> map_option (\<lambda>_. w1) (ber_int_sb_destroy sb1))"

definition ber_int_sb_read :: "'w os \<Rightarrow> (sockbuf \<times> 'w) layer_read" where
  "ber_int_sb_read os st len =
    (if sb_iod (fst st) = [] then None
     else map_option (\<lambda>(ret, bs, eintr, ps, w'). (ret, bs, eintr, (fst st)\<lparr>sb_iod := ps\<rparr>, w'))
       (retry_read (\<lambda>s. sbi_read os (sb_fd (fst st)) (length (sb_iod (fst st))) s len)
         (sb_iod (fst st), snd st)))"

definition ber_int_sb_write :: "'w os \<Rightarrow> (sockbuf \<times> 'w) layer_write" where
  "ber_int_sb_write os st buf =
    (if sb_iod (fst st) = [] then None
     else map_option (\<lambda>(ret, eintr, ps, w'). (ret, eintr, (fst st)\<lparr>sb_iod := ps\<rparr>, w'))
       (retry_write (\<lambda>s. sbi_write os (sb_fd (fst st)) (length (sb_iod (fst st))) s buf)
         (sb_iod (fst st), snd st)))"

section \<open>Control\<close>

datatype sb_opt =
    LBER_SB_OPT_GET_FD | LBER_SB_OPT_SET_FD | LBER_SB_OPT_HAS_IO | LBER_SB_OPT_SET_NONBLOCK
  | LBER_SB_OPT_GET_SSL | LBER_SB_OPT_DATA_READY | LBER_SB_OPT_SET_READAHEAD | LBER_SB_OPT_DRAIN
  | LBER_SB_OPT_NEEDS_READ | LBER_SB_OPT_NEEDS_WRITE | LBER_SB_OPT_GET_MAX_INCOMING
  | LBER_SB_OPT_SET_MAX_INCOMING

text \<open>
  The control functions; \<open>below\<close> is the call of \<open>LBER_SBIOD_CTRL_NEXT\<close>, its value with the layers it
  leaves.
\<close>

definition sb_stream_ctrl :: int where "sb_stream_ctrl = 0"

definition sb_fd_ctrl :: int where "sb_fd_ctrl = 0"

definition sb_debug_ctrl :: "(int \<times> 'd) option \<Rightarrow> (int \<times> 'd) option" where
  "sb_debug_ctrl below = below"

definition sb_rdahead_ctrl :: "allocator \<Rightarrow> sbiod_private \<Rightarrow> sb_opt \<Rightarrow> ctrl_arg \<Rightarrow> 'd \<Rightarrow> (int \<times> 'd) option
    \<Rightarrow> (int \<times> sbiod_private \<times> 'd) option" where
  "sb_rdahead_ctrl alloc pvt opt arg next below =
    (let pass = map_option (\<lambda>(rc, next'). (rc, pvt, next')) below in
     if opt = LBER_SB_OPT_DATA_READY then
       (case pvt of
          PvtBuf p \<Rightarrow> (if buf_ptr p \<noteq> buf_end p then Some (1, pvt, next) else pass)
        | _ \<Rightarrow> None)
     else if opt = LBER_SB_OPT_SET_READAHEAD then
       (case (pvt, arg) of
          (PvtBuf p, ArgInt i) \<Rightarrow>
           (if buf_size p \<ge> uint_arg i then Some (0, pvt, next)
            else let (rc, p') = ber_pvt_sb_grow_buffer alloc p (uint_arg i)
                 in Some (if rc \<noteq> 0 then -1 else 1, PvtBuf p', next))
        | _ \<Rightarrow> None)
     else pass)"

text \<open>A null \<open>sbiod_next\<close> answers 0.\<close>

fun sbi_ctrl :: "allocator \<Rightarrow> sockbuf_io_desc list \<Rightarrow> sb_opt \<Rightarrow> ctrl_arg
    \<Rightarrow> (int \<times> sockbuf_io_desc list) option" where
  "sbi_ctrl alloc [] opt arg = Some (0, [])"
| "sbi_ctrl alloc (d # below) opt arg =
    (case sbiod_io d of
       Io_tcp \<Rightarrow> Some (sb_stream_ctrl, d # below)
     | Io_fd \<Rightarrow> Some (sb_fd_ctrl, d # below)
     | Io_debug \<Rightarrow>
        map_option (\<lambda>(rc, below'). (rc, d # below')) (sb_debug_ctrl (sbi_ctrl alloc below opt arg))
     | Io_readahead \<Rightarrow>
        map_option (\<lambda>(rc, pvt, below'). (rc, d\<lparr>sbiod_pvt := pvt\<rparr> # below'))
          (sb_rdahead_ctrl alloc (sbiod_pvt d) opt arg below (sbi_ctrl alloc below opt arg)))"

text \<open>Reading and dropping everything there is; it need not come to an end.\<close>

partial_function (option) drain :: "'w os \<Rightarrow> sockbuf \<times> 'w \<Rightarrow> (sockbuf \<times> 'w) option" where
  "drain os st =
    (case ber_int_sb_read os st MIN_BUFF_SIZE of None \<Rightarrow> None
     | Some (ret, bs, eintr, st') \<Rightarrow> if ret = int MIN_BUFF_SIZE then drain os st' else Some st')"

text \<open>
  The result carries what was stored through the argument pointer.  The default branch calls through
  \<open>sb_iod\<close> without testing it.
\<close>

definition ber_sockbuf_ctrl :: "'w os \<Rightarrow> allocator \<Rightarrow> sockbuf \<Rightarrow> sb_opt \<Rightarrow> ctrl_arg \<Rightarrow> 'w
    \<Rightarrow> (int \<times> int option \<times> sockbuf \<times> 'w) option" where
  "ber_sockbuf_ctrl os alloc sb opt arg w =
    (case opt of
       LBER_SB_OPT_HAS_IO \<Rightarrow>
        (case arg of ArgIo io \<Rightarrow> Some (if \<exists>p\<in>set (sb_iod sb). sbiod_io p = io then 1 else 0, None, sb, w)
         | ArgNull \<Rightarrow> Some (0, None, sb, w) | _ \<Rightarrow> None)
     | LBER_SB_OPT_GET_FD \<Rightarrow>
        Some (if sb_fd sb = AC_SOCKET_INVALID then -1 else 1,
          if arg \<noteq> ArgNull then Some (sb_fd sb) else None, sb, w)
     | LBER_SB_OPT_SET_FD \<Rightarrow>
        (case arg of ArgInt i \<Rightarrow> Some (1, None, sb\<lparr>sb_fd := i\<rparr>, w) | _ \<Rightarrow> None)
     | LBER_SB_OPT_SET_NONBLOCK \<Rightarrow>
        (let (rc, w') = os_nonblock os (sb_fd sb) (arg \<noteq> ArgNull) w
         in Some (if rc \<noteq> 0 then -1 else 1, None, sb, w'))
     | LBER_SB_OPT_DRAIN \<Rightarrow> map_option (\<lambda>(sb', w'). (1, None, sb', w')) (drain os (sb, w))
     | LBER_SB_OPT_NEEDS_READ \<Rightarrow> Some (if sb_trans_needs_read sb then 1 else 0, None, sb, w)
     | LBER_SB_OPT_NEEDS_WRITE \<Rightarrow> Some (if sb_trans_needs_write sb then 1 else 0, None, sb, w)
     | LBER_SB_OPT_GET_MAX_INCOMING \<Rightarrow>
        Some (1, if arg \<noteq> ArgNull then Some (uint (sb_max_incoming sb)) else None, sb, w)
     | LBER_SB_OPT_SET_MAX_INCOMING \<Rightarrow>
        (case arg of ArgInt i \<Rightarrow> Some (1, None, sb\<lparr>sb_max_incoming := of_int i\<rparr>, w) | _ \<Rightarrow> None)
     | _ \<Rightarrow>
        (if sb_iod sb = [] then None
         else map_option (\<lambda>(rc, ps). (rc, None, sb\<lparr>sb_iod := ps\<rparr>, w)) (sbi_ctrl alloc (sb_iod sb) opt arg)))"

end
