(* ===== verification/Sockbuf_Facts.thy ===== *)
theory Sockbuf_Facts imports Sockbuf begin

text \<open>
  What the socket buffer guarantees.  A byte source (locale \<open>byte_source\<close>) loses, repeats and reorders
  nothing and is interrupted finitely often; the read-ahead layer over a byte source is one again, the
  other layers are, and so is every well-formed stack.  A byte sink (locale \<open>byte_sink\<close>) takes prefixes
  of what it is given.
\<close>

section \<open>Byte sources\<close>

text \<open>
  What a read of at most \<open>n\<close> octets may do to the octets still to come.  \<open>interrupts\<close> bounds how often
  the source still fails with \<open>EINTR\<close>, or, when it is \<open>live\<close>, how often it still fails at all.
\<close>

definition delivers :: "bool \<Rightarrow> ('s \<Rightarrow> bool) \<Rightarrow> ('s \<Rightarrow> octets) \<Rightarrow> ('s \<Rightarrow> nat) \<Rightarrow> nat \<Rightarrow> 's
    \<Rightarrow> int \<times> octets \<times> bool \<times> 's \<Rightarrow> bool" where
  "delivers live ok pending interrupts n s r =
    (let (ret, bs, eintr, s') = r in
     ok s' \<and> interrupts s' \<le> interrupts s \<and>
     (if ret < 0 then pending s' = pending s \<and> (eintr \<or> live \<longrightarrow> interrupts s' < interrupts s)
      else ret = int (length bs) \<and> length bs \<le> n \<and> pending s = bs @ pending s'
        \<and> (bs = [] \<longrightarrow> n = 0 \<or> pending s = [])))"

text \<open>The same, with the interrupts over.\<close>

definition settled :: "int \<times> octets \<times> bool \<times> 's \<Rightarrow> bool" where
  "settled r = (let (ret, bs, eintr, s') = r in \<not> (ret < 0 \<and> eintr))"

locale byte_source =
  fixes live :: bool and read :: "'s layer_read" and ok :: "'s \<Rightarrow> bool" and pending :: "'s \<Rightarrow> octets"
    and interrupts :: "'s \<Rightarrow> nat"
  assumes reads: "ok s \<Longrightarrow> \<exists>r. read s n = Some r \<and> delivers live ok pending interrupts n s r"
begin

lemma retry_reads:
  assumes "ok s"
  shows "\<exists>r. retry_read (\<lambda>s. read s n) s = Some r \<and> delivers live ok pending interrupts n s r \<and> settled r"
  using assms
proof (induction "interrupts s" arbitrary: s rule: less_induct)
  case less
  obtain ret bs e s' where r: "read s n = Some (ret, bs, e, s')" "delivers live ok pending interrupts n s (ret, bs, e, s')"
    using reads [OF less.prems] by (metis prod_cases4)
  show ?case
  proof (cases "ret < 0 \<and> e")
    case True
    then have s': "interrupts s' < interrupts s" "ok s'" "pending s' = pending s" using r(2) by (auto simp: delivers_def)
    then obtain r' where r': "retry_read (\<lambda>s. read s n) s' = Some r'" "delivers live ok pending interrupts n s' r'" "settled r'"
      using less.hyps by blast
    moreover have "delivers live ok pending interrupts n s r'"
      using r'(2) s' by (cases r') (auto simp: delivers_def split: if_splits)
    ultimately show ?thesis using True r(1) by (subst retry_read.simps) simp
  next
    case False
    then have "retry_read (\<lambda>s. read s n) s = Some (ret, bs, e, s')" using r(1) by (subst retry_read.simps) auto
    then show ?thesis using r(2) False by (auto simp: settled_def)
  qed
qed

end

section \<open>The read-ahead layer\<close>

definition buf_ok :: "sockbuf_buf \<Rightarrow> bool" where
  "buf_ok p \<longleftrightarrow> 0 < buf_size p \<and> length (buf_block p) = buf_size p \<and> buf_end p \<le> buf_size p
    \<and> (buf_ptr p < buf_end p \<or> buf_ptr p = 0 \<and> buf_end p = 0)"

definition buffered :: "sockbuf_buf \<Rightarrow> octets" where
  "buffered p = take (buf_end p - buf_ptr p) (drop (buf_ptr p) (buf_block p))"

lemma length_buffered: "buf_ok p \<Longrightarrow> length (buffered p) = buf_end p - buf_ptr p"
  by (auto simp: buf_ok_def buffered_def)

lemma copy_out_takes:
  assumes "buf_ok p"
  shows "\<exists>p'. ber_pvt_sb_copy_out p n = Some (take n (buffered p), p') \<and> buf_ok p'
    \<and> buf_size p' = buf_size p \<and> buffered p = take n (buffered p) @ buffered p'
    \<and> (length (buffered p) \<le> n \<longrightarrow> buf_end p' = 0)"
proof -
  consider "n = 0" | "buf_ptr p = buf_end p" | "buf_ptr p < buf_end p" "n < buf_end p - buf_ptr p" "0 < n"
    | "buf_ptr p < buf_end p" "buf_end p - buf_ptr p \<le> n"
    using assms by (auto simp: buf_ok_def) linarith+
  then show ?thesis
  proof cases
    case 1
    then show ?thesis using assms length_buffered [OF assms]
      by (auto simp: ber_pvt_sb_copy_out_def buf_ok_def Let_def)
  next
    case 2
    then show ?thesis using assms by (auto simp: ber_pvt_sb_copy_out_def buffered_def buf_ok_def)
  next
    case 3
    let ?p' = "p\<lparr>buf_ptr := buf_ptr p + n\<rparr>"
    have "ber_pvt_sb_copy_out p n = Some (take n (buffered p), ?p')"
      using 3 assms by (auto simp: ber_pvt_sb_copy_out_def buf_ok_def buffered_def Let_def min_def)
    moreover have "buf_ok ?p'" using 3 assms by (simp add: buf_ok_def buf_block_def)
    moreover have "buffered ?p' = drop n (buffered p)"
      by (simp add: buffered_def buf_block_def drop_take ac_simps)
    ultimately show ?thesis using 3 length_buffered [OF assms] by simp
  next
    case 4
    let ?p' = "p\<lparr>buf_ptr := 0, buf_end := 0\<rparr>"
    have "ber_pvt_sb_copy_out p n = Some (take n (buffered p), ?p')"
      using 4 assms by (auto simp: ber_pvt_sb_copy_out_def buf_ok_def buffered_def Let_def)
    moreover have "buf_ok ?p'" using assms by (simp add: buf_ok_def buf_block_def)
    moreover have "buffered ?p' = []" by (simp add: buffered_def)
    ultimately show ?thesis using 4 length_buffered [OF assms] by simp
  qed
qed

lemma fill_appends:
  assumes "buf_ok p" "buf_end p = 0" "length bs \<le> buf_size p"
  shows "\<exists>p'. rdahead_fill p bs = Some p' \<and> buf_ok p' \<and> buf_size p' = buf_size p \<and> buffered p' = bs"
  using assms by (auto simp: rdahead_fill_def store_def buf_ok_def buffered_def buf_block_def)

definition rdahead_pending :: "('s \<Rightarrow> octets) \<Rightarrow> sockbuf_buf \<times> 's \<Rightarrow> octets" where
  "rdahead_pending pending st = buffered (fst st) @ pending (snd st)"

context byte_source
begin

lemma rdahead_reads:
  assumes "buf_ok p" "ok s"
  shows "\<exists>r. sb_rdahead_read read (p, s) n = Some r \<and>
    delivers live (\<lambda>(p, s). buf_ok p \<and> ok s) (rdahead_pending pending) (\<lambda>(p, s). interrupts s) n (p, s) r"
proof -
  obtain p1 where p1: "ber_pvt_sb_copy_out p n = Some (take n (buffered p), p1)" "buf_ok p1"
      "buffered p = take n (buffered p) @ buffered p1" "length (buffered p) \<le> n \<longrightarrow> buf_end p1 = 0"
    using copy_out_takes [OF assms(1)] by metis
  let ?got = "take n (buffered p)"
  have size: "0 < buf_size p" using assms(1) by (simp add: buf_ok_def)
  show ?thesis
  proof (cases "n \<le> length (buffered p)")
    case True
    then show ?thesis using p1 size assms
      by (auto simp: sb_rdahead_read_def delivers_def rdahead_pending_def Let_def)
  next
    case False
    then have got: "?got = buffered p" "buf_end p1 = 0" "length (buffered p) < n" using p1(4) by auto
    have none: "buffered p1 = []" using got(2) by (simp add: buffered_def)
    have room: "0 < buf_size p1" using p1(2) by (simp add: buf_ok_def)
    obtain ret bs e s' where r: "retry_read (\<lambda>s. read s (buf_size p1)) s = Some (ret, bs, e, s')"
        "delivers live ok pending interrupts (buf_size p1) s (ret, bs, e, s')" "settled (ret, bs, e, s')"
      using retry_reads [OF assms(2), of "buf_size p1"] by (metis prod_cases4)
    show ?thesis
    proof (cases "ret < 0")
      case True
      then show ?thesis using r p1 size got room none
        by (auto simp: sb_rdahead_read_def delivers_def rdahead_pending_def settled_def Let_def)
    next
      case False
      then have d: "ok s'" "interrupts s' \<le> interrupts s" "length bs \<le> buf_size p1" "pending s = bs @ pending s'"
          "bs = [] \<longrightarrow> pending s = []"
        using r(2) room by (auto simp: delivers_def)
      obtain p2 where p2: "rdahead_fill p1 bs = Some p2" "buf_ok p2" "buffered p2 = bs"
        using fill_appends [OF p1(2) got(2) d(3)] by blast
      obtain p3 where p3: "ber_pvt_sb_copy_out p2 (n - length (buffered p)) = Some (take (n - length (buffered p)) bs, p3)"
          "buf_ok p3" "bs = take (n - length (buffered p)) bs @ buffered p3"
        using copy_out_takes [OF p2(2)] p2(3) by metis
      have "sb_rdahead_read read (p, s) n = Some (int (length (buffered p) + length (take (n - length (buffered p)) bs)),
          buffered p @ take (n - length (buffered p)) bs, False, p3, s')"
        using p1(1) r(1) False p2(1) p3(1) size got room
        by (simp add: sb_rdahead_read_def Let_def del: take_append length_take)
      moreover have "rdahead_pending pending (p, s) = (buffered p @ take (n - length (buffered p)) bs)
          @ rdahead_pending pending (p3, s')"
        using p3(3) d(4) by (simp add: rdahead_pending_def)
      ultimately show ?thesis using p3(2) d(1,2,5) got(3)
        by (auto simp: delivers_def rdahead_pending_def)
    qed
  qed
qed

end

text \<open>The read-ahead layer over any source of octets.\<close>

locale layer_below = byte_source

sublocale layer_below \<subseteq> readahead: byte_source live "sb_rdahead_read read" "\<lambda>(p, s). buf_ok p \<and> ok s"
    "rdahead_pending pending" "\<lambda>(p, s). interrupts s"
proof (unfold_locales, goal_cases)
  case (1 st n)
  then show ?case using rdahead_reads by (cases st) simp
qed

section \<open>Stacks of layers\<close>

text \<open>
  The operating system's \<open>read\<close> as POSIX describes it, for the descriptor: at most as many octets as
  asked for, in order, none on an error, 0 at the end of the stream.
\<close>

definition os_delivers :: "bool \<Rightarrow> 'w os \<Rightarrow> int \<Rightarrow> ('w \<Rightarrow> bool) \<Rightarrow> ('w \<Rightarrow> octets) \<Rightarrow> ('w \<Rightarrow> nat) \<Rightarrow> bool" where
  "os_delivers live os fd ok pending interrupts \<longleftrightarrow>
    (\<forall>w n. ok w \<longrightarrow> delivers live ok pending interrupts n w (os_read os fd n w))"

fun layer_data :: "sockbuf_io_desc \<Rightarrow> octets" where
  "layer_data d = (case sbiod_pvt d of PvtBuf p \<Rightarrow> buffered p | _ \<Rightarrow> [])"

text \<open>
  A stack whose last layer is a descriptor, whose other layers pass on and whose read-ahead layers have
  their buffer; and what reading never changes of it.
\<close>

fun stack_ok :: "sockbuf_io_desc list \<Rightarrow> bool" where
  "stack_ok [] = False"
| "stack_ok (d # below) =
    (case sbiod_io d of
       Io_readahead \<Rightarrow> (case sbiod_pvt d of PvtBuf p \<Rightarrow> buf_ok p | _ \<Rightarrow> False) \<and> stack_ok below
     | Io_debug \<Rightarrow> (case sbiod_pvt d of PvtName s \<Rightarrow> True | _ \<Rightarrow> False) \<and> stack_ok below
     | _ \<Rightarrow> sbiod_pvt d = PvtNull \<and> below = [])"

definition shape :: "sockbuf_io_desc list \<Rightarrow> (int \<times> sockbuf_io) list" where
  "shape ds = map (\<lambda>d. (sbiod_level d, sbiod_io d)) ds"

definition stack_pending :: "('w \<Rightarrow> octets) \<Rightarrow> 'w stack \<Rightarrow> octets" where
  "stack_pending pending st = concat (map layer_data (fst st)) @ pending (snd st)"

definition reads_shape :: "('w \<Rightarrow> bool) \<Rightarrow> (int \<times> sockbuf_io) list \<Rightarrow> 'w stack \<Rightarrow> bool" where
  "reads_shape ok sh st \<longleftrightarrow> stack_ok (fst st) \<and> shape (fst st) = sh \<and> ok (snd st)"

lemma reads_shape_Cons:
  "reads_shape ok (x # sh) st \<longleftrightarrow> (\<exists>d below. fst st = d # below \<and> stack_ok (d # below)
    \<and> x = (sbiod_level d, sbiod_io d) \<and> shape below = sh \<and> ok (snd st))"
  by (cases st) (auto simp: reads_shape_def shape_def Cons_eq_map_conv)

lemma length_shape [simp]: "length (shape ds) = length ds"
  by (simp add: shape_def)

lemma reads_shape_not_Nil [simp]: "\<not> reads_shape ok [] st"
  by (cases st) (auto simp: reads_shape_def shape_def)

lemma stack_ok_descriptor:
  "stack_ok (d # below) \<Longrightarrow> sbiod_io d \<in> {Io_tcp, Io_fd} \<Longrightarrow> below = [] \<and> sbiod_pvt d = PvtNull"
  by auto

lemma stack_ok_debug:
  "sbiod_io d = Io_debug \<Longrightarrow> stack_ok (d # below) \<longleftrightarrow> (\<exists>s. sbiod_pvt d = PvtName s) \<and> stack_ok below"
  by (auto split: sbiod_private.splits)

lemma stack_ok_readahead:
  "sbiod_io d = Io_readahead \<Longrightarrow> stack_ok (d # below) \<longleftrightarrow> (\<exists>p. sbiod_pvt d = PvtBuf p \<and> buf_ok p) \<and> stack_ok below"
  by (auto split: sbiod_private.splits)

lemma delivers_descriptor:
  assumes "delivers live ok pending interrupts n w (ret, bs, e, w')" "stack_ok [d]" "sbiod_pvt d = PvtNull"
  shows "delivers live (reads_shape ok (shape [d])) (stack_pending pending) (interrupts \<circ> snd) n ([d], w) (ret, bs, e, [d], w')"
  using assms(1,3) by (auto simp: delivers_def reads_shape_def stack_pending_def assms(2) simp del: stack_ok.simps)

lemma delivers_debug:
  assumes "delivers live (reads_shape ok (shape below)) (stack_pending pending) (interrupts \<circ> snd) n (below, w) (ret, bs, e, below', w')"
    and "sbiod_io d = Io_debug" "stack_ok (d # below)"
  shows "delivers live (reads_shape ok (shape (d # below))) (stack_pending pending) (interrupts \<circ> snd) n (d # below, w)
    (ret, bs, e, d # below', w')"
proof -
  have "layer_data d = []" using assms(2,3) by (auto simp: stack_ok_debug simp del: stack_ok.simps)
  moreover have "stack_ok (d # below')" if "stack_ok below'"
    using that assms(2,3) by (simp add: stack_ok_debug del: stack_ok.simps)
  ultimately show ?thesis using assms(1)
    by (auto simp: delivers_def reads_shape_def stack_pending_def shape_def simp del: stack_ok.simps layer_data.simps)
qed

lemma delivers_readahead:
  assumes "delivers live (\<lambda>(p, s). buf_ok p \<and> reads_shape ok (shape below) s) (rdahead_pending (stack_pending pending))
      (\<lambda>(p, s). (interrupts \<circ> snd) s) n (p, below, w) (ret, bs, e, p', below', w')"
    and "sbiod_io d = Io_readahead" "sbiod_pvt d = PvtBuf p"
  shows "delivers live (reads_shape ok (shape (d # below))) (stack_pending pending) (interrupts \<circ> snd) n (d # below, w)
    (ret, bs, e, d\<lparr>sbiod_pvt := PvtBuf p'\<rparr> # below', w')"
  using assms by (auto simp: delivers_def reads_shape_def stack_pending_def rdahead_pending_def shape_def stack_ok_readahead
      simp del: stack_ok.simps)

lemma stack_reads:
  assumes "os_delivers live os fd ok pending interrupts"
  shows "byte_source live (sbi_read os fd (length sh)) (reads_shape ok sh) (stack_pending pending) (interrupts \<circ> snd)"
proof (induction sh)
  case Nil
  then show ?case by unfold_locales simp
next
  case (Cons x sh)
  show ?case
  proof (unfold_locales, goal_cases)
    case (1 st n)
    then obtain d below w where st: "st = (d # below, w)" "stack_ok (d # below)" "x # sh = shape (d # below)" "ok w"
      by (cases st) (auto simp: reads_shape_Cons shape_def)
    then have sh: "sh = shape below" by (simp add: shape_def)
    obtain ret bs e w' where os: "os_read os fd n w = (ret, bs, e, w')" by (metis prod_cases4)
    then have d: "delivers live ok pending interrupts n w (ret, bs, e, w')"
      using assms st(4) by (metis os_delivers_def)
    have ready: "reads_shape ok sh (below, w)" if "stack_ok below" using st sh that by (simp add: reads_shape_def)
    show ?case
    proof (cases "sbiod_io d")
      case Io_tcp
      then have "below = []" "sbiod_pvt d = PvtNull" using stack_ok_descriptor [OF st(2)] by simp_all
      moreover from this have "delivers live (reads_shape ok (x # sh)) (stack_pending pending) (interrupts \<circ> snd) n st (ret, bs, e, [d], w')"
        unfolding st(1,3) using delivers_descriptor [OF d] st(2) by simp
      moreover have "sbi_read os fd (length (x # sh)) st n = Some (ret, bs, e, [d], w')"
        using st(1) os Io_tcp calculation(1) by (simp add: sb_stream_read_def)
      ultimately show ?thesis by blast
    next
      case Io_fd
      then have "below = []" "sbiod_pvt d = PvtNull" using stack_ok_descriptor [OF st(2)] by simp_all
      moreover from this have "delivers live (reads_shape ok (x # sh)) (stack_pending pending) (interrupts \<circ> snd) n st (ret, bs, e, [d], w')"
        unfolding st(1,3) using delivers_descriptor [OF d] st(2) by simp
      moreover have "sbi_read os fd (length (x # sh)) st n = Some (ret, bs, e, [d], w')"
        using st(1) os Io_fd calculation(1) by (simp add: sb_fd_read_def)
      ultimately show ?thesis by blast
    next
      case Io_readahead
      then obtain p where p: "sbiod_pvt d = PvtBuf p" "buf_ok p" "stack_ok below"
        using st(2) by (auto simp: stack_ok_readahead simp del: stack_ok.simps)
      then have "below \<noteq> []" by auto
      moreover obtain ret bs e p' below' w' where
          "sb_rdahead_read (sbi_read os fd (length sh)) (p, below, w) n = Some (ret, bs, e, p', below', w')"
          "delivers live (\<lambda>(p, s). buf_ok p \<and> reads_shape ok sh s) (rdahead_pending (stack_pending pending))
            (\<lambda>(p, s). (interrupts \<circ> snd) s) n (p, below, w) (ret, bs, e, p', below', w')"
        using byte_source.rdahead_reads [OF Cons p(2) ready [OF p(3)], of n] by (metis prod_cases6)
      ultimately have "sbi_read os fd (length (x # sh)) st n = Some (ret, bs, e, d\<lparr>sbiod_pvt := PvtBuf p'\<rparr> # below', w')"
          "delivers live (reads_shape ok (x # sh)) (stack_pending pending) (interrupts \<circ> snd) n st
            (ret, bs, e, d\<lparr>sbiod_pvt := PvtBuf p'\<rparr> # below', w')"
        using delivers_readahead [OF _ Io_readahead p(1)] st(1,3) Io_readahead p(1) sh by simp_all
      then show ?thesis by blast
    next
      case Io_debug
      then have "stack_ok below" using st(2) by (simp add: stack_ok_debug del: stack_ok.simps)
      then obtain ret bs e below' w' where "sbi_read os fd (length sh) (below, w) n = Some (ret, bs, e, below', w')"
         "delivers live (reads_shape ok sh) (stack_pending pending) (interrupts \<circ> snd) n (below, w) (ret, bs, e, below', w')"
        using byte_source.reads [OF Cons ready] by (metis prod_cases5)
      then have "sbi_read os fd (length (x # sh)) st n = Some (ret, bs, e, d # below', w')"
          "delivers live (reads_shape ok (x # sh)) (stack_pending pending) (interrupts \<circ> snd) n st (ret, bs, e, d # below', w')"
        using delivers_debug [OF _ Io_debug st(2)] st(1,3) Io_debug sh by (simp_all add: sb_debug_read_def)
      then show ?thesis by blast
    qed
  qed
qed

text \<open>Reading through the socket buffer, with the interrupts retried.\<close>

definition sockbuf_ok :: "('w \<Rightarrow> bool) \<Rightarrow> int \<Rightarrow> (int \<times> sockbuf_io) list \<Rightarrow> sockbuf \<times> 'w \<Rightarrow> bool" where
  "sockbuf_ok ok fd sh st \<longleftrightarrow> sb_fd (fst st) = fd \<and> reads_shape ok sh (sb_iod (fst st), snd st)"

definition sockbuf_pending :: "('w \<Rightarrow> octets) \<Rightarrow> sockbuf \<times> 'w \<Rightarrow> octets" where
  "sockbuf_pending pending st = stack_pending pending (sb_iod (fst st), snd st)"

lemma sockbuf_reads:
  assumes "os_delivers live os fd ok pending interrupts" "sockbuf_ok ok fd sh st"
  shows "\<exists>r. ber_int_sb_read os st n = Some r \<and> settled r
    \<and> delivers live (sockbuf_ok ok fd sh) (sockbuf_pending pending) (interrupts \<circ> snd) n st r"
proof -
  obtain sb w where st: "st = (sb, w)" by (cases st)
  have ok: "reads_shape ok sh (sb_iod sb, w)" "sb_fd sb = fd" using assms(2) st by (simp_all add: sockbuf_ok_def)
  then have "sb_iod sb \<noteq> []" "length (sb_iod sb) = length sh" by (auto simp: reads_shape_def)
  moreover obtain ret bs e ps w' where "retry_read (\<lambda>s. sbi_read os fd (length sh) s n) (sb_iod sb, w) = Some (ret, bs, e, ps, w')"
      "settled (ret, bs, e, ps, w')"
      "delivers live (reads_shape ok sh) (stack_pending pending) (interrupts \<circ> snd) n (sb_iod sb, w) (ret, bs, e, ps, w')"
    using byte_source.retry_reads [OF stack_reads [OF assms(1)] ok(1), of n] by (metis prod_cases5)
  ultimately show ?thesis using ok(2) st
    by (auto simp: ber_int_sb_read_def delivers_def sockbuf_ok_def sockbuf_pending_def settled_def)
qed

lemma sockbuf_source:
  assumes "os_delivers live os fd ok pending interrupts"
  shows "byte_source live (ber_int_sb_read os) (sockbuf_ok ok fd sh) (sockbuf_pending pending) (interrupts \<circ> snd)"
  using sockbuf_reads [OF assms] by unfold_locales blast

text \<open>A client's reads, one after the other.\<close>

fun read_all :: "'s layer_read \<Rightarrow> 's \<Rightarrow> nat list \<Rightarrow> ((int \<times> octets) list \<times> 's) option" where
  "read_all read s [] = Some ([], s)"
| "read_all read s (n # ns) =
    (case read s n of None \<Rightarrow> None
     | Some (ret, bs, eintr, s') \<Rightarrow>
        map_option (\<lambda>(rs, s''). ((ret, bs) # rs, s'')) (read_all read s' ns))"

definition got :: "int \<times> octets \<Rightarrow> octets" where
  "got r = (if fst r < 0 then [] else snd r)"

definition counted :: "nat \<Rightarrow> int \<times> octets \<Rightarrow> bool" where
  "counted n r \<longleftrightarrow> fst r < 0 \<or> fst r = int (length (snd r)) \<and> length (snd r) \<le> n"

context byte_source
begin

lemma read_all_delivers:
  "ok s \<Longrightarrow> \<exists>rs s'. read_all read s ns = Some (rs, s') \<and> ok s' \<and> list_all2 counted ns rs
    \<and> pending s = concat (map got rs) @ pending s'"
proof (induction ns arbitrary: s)
  case (Cons n ns)
  obtain ret bs e s1 where r: "read s n = Some (ret, bs, e, s1)" "delivers live ok pending interrupts n s (ret, bs, e, s1)"
    using reads [OF Cons.prems] by (metis prod_cases4)
  then have s1: "ok s1" "counted n (ret, bs)" "pending s = got (ret, bs) @ pending s1"
    by (auto simp: delivers_def counted_def got_def split: if_splits)
  then show ?case using Cons.IH [OF s1(1)] r(1) by auto
qed simp

end

section \<open>A scripted operating system\<close>

text \<open>
  A concrete system for evaluation: what its reads bring, one event after the other, how many octets
  its writes take, and what has been written.
\<close>

datatype event = Delivered octets | Interrupted | Failed

type_synonym script = "event list \<times> nat list \<times> octets"

fun script_read :: "int \<Rightarrow> nat \<Rightarrow> script \<Rightarrow> int \<times> octets \<times> bool \<times> script" where
  "script_read fd n ([], w) = (0, [], False, [], w)"
| "script_read fd n (Delivered bs # es, w) =
    (if length bs \<le> n then (int (length bs), bs, False, es, w)
     else (int n, take n bs, False, Delivered (drop n bs) # es, w))"
| "script_read fd n (Interrupted # es, w) = (-1, [], True, es, w)"
| "script_read fd n (Failed # es, w) = (-1, [], False, es, w)"

fun script_write :: "int \<Rightarrow> octets \<Rightarrow> script \<Rightarrow> int \<times> bool \<times> script" where
  "script_write fd bs (es, [], out) = (int (length bs), False, es, [], out @ bs)"
| "script_write fd bs (es, 0 # ns, out) = (-1, True, es, ns, out)"
| "script_write fd bs (es, n # ns, out) = (int (length (take n bs)), False, es, ns, out @ take n bs)"

definition script_os :: "script os" where
  "script_os = \<lparr>os_read = script_read, os_write = script_write, os_close = (\<lambda>fd w. w), os_nonblock = (\<lambda>fd b w. (0, w))\<rparr>"

definition script_ok :: "script \<Rightarrow> bool" where
  "script_ok w \<longleftrightarrow> Delivered [] \<notin> set (fst w)"

fun event_data :: "event \<Rightarrow> octets" where
  "event_data (Delivered bs) = bs" | "event_data e = []"

definition script_pending :: "script \<Rightarrow> octets" where
  "script_pending w = concat (map event_data (fst w))"

definition script_interrupts :: "script \<Rightarrow> nat" where
  "script_interrupts w = length (filter (\<lambda>e. e = Interrupted \<or> e = Failed) (fst w))"

lemma script_delivers: "os_delivers True script_os fd script_ok script_pending script_interrupts"
proof -
  have "delivers True script_ok script_pending script_interrupts n w (script_read fd n w)" if "script_ok w" for n w
    using that by (induction fd n w rule: script_read.induct)
      (auto simp: delivers_def script_ok_def script_pending_def script_interrupts_def)
  then show ?thesis by (simp add: os_delivers_def script_os_def)
qed

interpretation script_stack: layer_below True "sbi_read script_os fd (length sh)" "reads_shape script_ok sh"
    "stack_pending script_pending" "script_interrupts \<circ> snd" for fd sh
  using stack_reads [OF script_delivers] by (simp add: layer_below_def)

interpretation script_sockbuf: byte_source True "ber_int_sb_read script_os" "sockbuf_ok script_ok fd sh"
    "sockbuf_pending script_pending" "script_interrupts \<circ> snd" for fd sh
  by (rule sockbuf_source [OF script_delivers])

section \<open>The order of the layers\<close>

abbreviation by_level :: "sockbuf_io_desc list \<Rightarrow> bool" where
  "by_level ds \<equiv> sorted_wrt (\<ge>) (map sbiod_level ds)"

lemma by_level_insert:
  "by_level ds \<Longrightarrow> by_level (takeWhile (\<lambda>p. sbiod_level p > l) ds @ \<lparr>sbiod_level = l, sbiod_io = io, sbiod_pvt = pvt\<rparr>
    # dropWhile (\<lambda>p. sbiod_level p > l) ds)"
proof (induction ds)
  case (Cons d ds)
  have "\<forall>x\<in>set (takeWhile (\<lambda>p. sbiod_level p > l) ds). sbiod_level x \<le> sbiod_level d"
    "\<forall>x\<in>set (dropWhile (\<lambda>p. sbiod_level p > l) ds). sbiod_level x \<le> sbiod_level d"
    using Cons.prems by (auto dest: set_takeWhileD set_dropWhileD)
  then show ?case using Cons by (auto dest: order_trans)
qed simp

lemma remove_layer_by_level:
  "remove_layer io l ds = Some (rc, ds') \<Longrightarrow> by_level ds \<Longrightarrow> by_level ds' \<and> sbiod_level ` set ds' \<subseteq> sbiod_level ` set ds"
proof (induction io l ds arbitrary: rc ds' rule: remove_layer.induct)
  case (2 io l p ps)
  then show ?case by (fastforce split: if_splits)
qed simp

lemma remove_inserted:
  assumes "sbi_remove \<lparr>sbiod_level = l, sbiod_io = io, sbiod_pvt = pvt\<rparr> = Some (0, pvt')"
  shows "remove_layer io l (takeWhile (\<lambda>p. sbiod_level p > l) ds @ \<lparr>sbiod_level = l, sbiod_io = io, sbiod_pvt = pvt\<rparr>
    # dropWhile (\<lambda>p. sbiod_level p > l) ds) = Some (0, ds)"
proof (induction ds)
  case (Cons d ds)
  then show ?case using assms by auto
qed (simp add: assms)

section \<open>Growing\<close>

lemma grow_size_eq:
  "grow_size m 0 = (if m \<le> 4096 then Some 4096 else if m \<le> 8192 then Some 8192
    else if m \<le> 16384 then Some 16384 else if m \<le> 32768 then Some 32768 else if m \<le> 65536 then Some 65536
    else if m \<le> 131072 then Some 131072 else None)"
  by (simp add: grow_size.simps Let_def MIN_BUFF_SIZE_def MAX_BUFF_SIZE_def push_bit_Suc)

lemma grow_buffer_init:
  assumes "alloc_fits alloc" "ber_pvt_sb_grow_buffer alloc ber_pvt_sb_buf_init m = (0, p)"
  shows "buf_ok p \<and> buffered p = [] \<and> m \<le> buf_size p"
proof -
  obtain pw where pw: "grow_size m 0 = Some pw" "0 < pw" "m \<le> pw"
    using assms(2) by (auto simp: ber_pvt_sb_grow_buffer_def grow_size_eq split: option.splits if_splits)
  then show ?thesis using assms
    by (auto simp: ber_pvt_sb_grow_buffer_def ber_pvt_sb_buf_init_def buf_ok_def buffered_def buf_block_def
        realloc_block_def alloc_fits_def split: option.splits)
qed

lemma added_layer:
  assumes "by_level (sb_iod sb)" "ber_sockbuf_add_io alloc sb sbio layer arg = Some (rc, sb')"
  shows "by_level (sb_iod sb') \<and> (rc = 0 \<longrightarrow> ber_sockbuf_remove_io sb' (the sbio) layer = Some (0, sb'\<lparr>sb_iod := sb_iod sb\<rparr>))"
proof (cases "sbio = None \<or> alloc SBIOD_SIZE = None")
  case True
  then show ?thesis using assms by (auto simp: ber_sockbuf_add_io_def split: option.splits)
next
  case False
  then obtain io r fd pvt where su: "sbio = Some io" "sbi_setup alloc io (sb_fd sb) arg = Some (r, fd, pvt)"
      "rc = (if r < 0 then -1 else 0)"
    and sb': "sb' = sb\<lparr>sb_fd := fd, sb_iod := takeWhile (\<lambda>p. sbiod_level p > layer) (sb_iod sb)
      @ \<lparr>sbiod_level = layer, sbiod_io = io, sbiod_pvt = pvt\<rparr> # dropWhile (\<lambda>p. sbiod_level p > layer) (sb_iod sb)\<rparr>"
    using assms(2) by (auto simp: ber_sockbuf_add_io_def)
  have removable: "\<exists>pvt'. sbi_remove \<lparr>sbiod_level = layer, sbiod_io = io, sbiod_pvt = pvt\<rparr> = Some (0, pvt')" if "\<not> r < 0"
    using that su(2) by (auto simp: sbi_setup_def sbi_remove_def sb_rdahead_setup_def sb_rdahead_remove_def sb_debug_setup_def
        sb_debug_remove_def ber_pvt_sb_grow_buffer_def ber_pvt_sb_buf_init_def
        split: sockbuf_io.splits option.splits ctrl_arg.splits if_splits)
  have "by_level (sb_iod sb')" unfolding sb' using by_level_insert [OF assms(1), of layer io pvt] by simp
  moreover have "ber_sockbuf_remove_io sb' io layer = Some (0, sb'\<lparr>sb_iod := sb_iod sb\<rparr>)" if "rc = 0"
    using removable that su(3) remove_inserted [of layer io pvt _ "sb_iod sb"]
    by (auto simp: ber_sockbuf_remove_io_def sb' split: if_splits)
  ultimately show ?thesis using su(1) by simp
qed

section \<open>Properties\<close>

text \<open>
  C10: whatever the layers buffer, however short the reads of the operating system are and however often
  it is interrupted, a client that reads from the socket buffer gets the octets of the stream, in
  order, each once, and never more than it asked for.
\<close>

theorem ber_sockbuf_reads_stream:
  assumes "os_delivers live os fd ok pending interrupts" "sockbuf_ok ok fd sh (sb, w)"
  shows "\<exists>rs st'. read_all (ber_int_sb_read os) (sb, w) lens = Some (rs, st') \<and> sockbuf_ok ok fd sh st'
    \<and> list_all2 counted lens rs
    \<and> sockbuf_pending pending (sb, w) = concat (map got rs) @ sockbuf_pending pending st'"
  using byte_source.read_all_delivers [OF sockbuf_source [OF assms(1)] assms(2)] .

definition demo_sockbuf :: sockbuf where
  "demo_sockbuf = \<lparr>sb_iod = [\<lparr>sbiod_level = 30, sbiod_io = Io_debug, sbiod_pvt = PvtName [0x78]\<rparr>,
      \<lparr>sbiod_level = 10, sbiod_io = Io_readahead,
        sbiod_pvt = PvtBuf \<lparr>buf_size = 4, buf_ptr = 1, buf_end = 3, buf_base = Some [1, 2, 3, 4]\<rparr>\<rparr>,
      \<lparr>sbiod_level = 10, sbiod_io = Io_tcp, sbiod_pvt = PvtNull\<rparr>],
    sb_fd = 5, sb_trans_needs_read = False, sb_trans_needs_write = False, sb_max_incoming = 0\<rparr>"

theorem ber_sockbuf_reads_stream_witness:
  "\<exists>rs st'. read_all (ber_int_sb_read script_os)
      (demo_sockbuf, [Interrupted, Delivered [4, 5, 6, 7, 8, 9], Failed, Delivered [10]], [], []) [1, 3, 2, 100] = Some (rs, st')
    \<and> [2, 3, 4, 5, 6, 7, 8, 9, 10] = concat (map got rs) @ sockbuf_pending script_pending st'"
proof -
  let ?w = "([Interrupted, Delivered [4, 5, 6, 7, 8, 9], Failed, Delivered [10]], [], []) :: script"
  have "sockbuf_ok script_ok 5 [(30, Io_debug), (10, Io_readahead), (10, Io_tcp)] (demo_sockbuf, ?w)"
    by (simp add: sockbuf_ok_def reads_shape_def demo_sockbuf_def shape_def buf_ok_def buf_block_def script_ok_def)
  moreover have "sockbuf_pending script_pending (demo_sockbuf, ?w) = [2, 3, 4, 5, 6, 7, 8, 9, 10]"
    by (simp add: sockbuf_pending_def stack_pending_def demo_sockbuf_def script_pending_def buffered_def buf_block_def)
  ultimately show ?thesis
    using ber_sockbuf_reads_stream [OF script_delivers, of 5 _ demo_sockbuf ?w "[1, 3, 2, 100]"] by metis
qed

text \<open>
  C11: the layers stay ordered by level, the outermost first, through additions and removals, and
  removing a layer just added leaves the others as they were.
\<close>

theorem ber_sockbuf_layers_ordered:
  assumes "sorted_wrt (\<ge>) (map sbiod_level (sb_iod sb))"
  shows "(\<forall>alloc sbio layer arg rc sb'. ber_sockbuf_add_io alloc sb sbio layer arg = Some (rc, sb') \<longrightarrow>
      sorted_wrt (\<ge>) (map sbiod_level (sb_iod sb')) \<and>
      (rc = 0 \<longrightarrow> ber_sockbuf_remove_io sb' (the sbio) layer = Some (0, sb'\<lparr>sb_iod := sb_iod sb\<rparr>)))
    \<and> (\<forall>io layer rc sb'. ber_sockbuf_remove_io sb io layer = Some (rc, sb') \<longrightarrow>
      sorted_wrt (\<ge>) (map sbiod_level (sb_iod sb')))"
  using added_layer [OF assms] assms
  by (auto simp: ber_sockbuf_remove_io_def dest: remove_layer_by_level split: if_splits)

theorem ber_sockbuf_layers_ordered_witness:
  "sorted_wrt (\<ge>) (map sbiod_level (sb_iod (snd (the (ber_sockbuf_add_io (\<lambda>n. Some (replicate n 0)) demo_sockbuf (Some Io_debug) 20 ArgNull)))))
    \<and> ber_sockbuf_remove_io (snd (the (ber_sockbuf_add_io (\<lambda>n. Some (replicate n 0)) demo_sockbuf (Some Io_debug) 20 ArgNull))) Io_debug 20
      = Some (0, demo_sockbuf)"
proof -
  have "sorted_wrt (\<ge>) (map sbiod_level (sb_iod demo_sockbuf))" by (simp add: demo_sockbuf_def)
  moreover obtain sb' where "ber_sockbuf_add_io (\<lambda>n. Some (replicate n 0)) demo_sockbuf (Some Io_debug) 20 ArgNull = Some (0, sb')"
      "sb'\<lparr>sb_iod := sb_iod demo_sockbuf\<rparr> = demo_sockbuf"
    by (simp add: ber_sockbuf_add_io_def sbi_setup_def sb_debug_setup_def demo_sockbuf_def)
  ultimately show ?thesis using ber_sockbuf_layers_ordered [of demo_sockbuf] by fastforce
qed

text \<open>
  the read-ahead layer ignores that its buffer could not be had.  Asked for more than
  \<open>2 * MAX_BUFF_SIZE\<close> octets, \<open>ber_sockbuf_add_io\<close> reports success for a layer without a buffer, and
  the first read through it runs into the assertion.
\<close>

theorem rdahead_setup_ignores_failure:
  assumes "\<forall>n. alloc n \<noteq> None" "2 * MAX_BUFF_SIZE < unat (of_int i :: u32)"
    and "\<forall>d\<in>set (sb_iod sb). sbiod_level d \<le> layer"
  shows "\<exists>sb'. ber_sockbuf_add_io alloc sb (Some Io_readahead) layer (ArgInt i) = Some (0, sb')
    \<and> length (sb_iod sb') = Suc (length (sb_iod sb)) \<and> ber_int_sb_read os (sb', w) n = None"
proof -
  let ?d = "\<lparr>sbiod_level = layer, sbiod_io = Io_readahead, sbiod_pvt = PvtBuf ber_pvt_sb_buf_init\<rparr>"
  have "grow_size (uint_arg i) 0 = None" using assms(2) by (simp add: grow_size_eq uint_arg_def MAX_BUFF_SIZE_def)
  then have su: "sbi_setup alloc Io_readahead (sb_fd sb) (ArgInt i) = Some (0, sb_fd sb, PvtBuf ber_pvt_sb_buf_init)"
    using assms(1) [rule_format, of SOCKBUF_BUF_SIZE]
    by (auto simp: sbi_setup_def sb_rdahead_setup_def ber_pvt_sb_grow_buffer_def)
  have order: "takeWhile (\<lambda>p. sbiod_level p > layer) (sb_iod sb) = []" "dropWhile (\<lambda>p. sbiod_level p > layer) (sb_iod sb) = sb_iod sb"
    using assms(3) by (cases "sb_iod sb"; fastforce)+
  have "ber_sockbuf_add_io alloc sb (Some Io_readahead) layer (ArgInt i) = Some (0, sb\<lparr>sb_fd := sb_fd sb, sb_iod := ?d # sb_iod sb\<rparr>)"
    using assms(1) [rule_format, of SBIOD_SIZE] su order by (auto simp: ber_sockbuf_add_io_def)
  moreover have "ber_int_sb_read os (sb\<lparr>sb_fd := sb_fd sb, sb_iod := ?d # sb_iod sb\<rparr>, w) n = None"
    by (simp add: ber_int_sb_read_def sb_rdahead_read_def ber_pvt_sb_buf_init_def retry_read.simps)
  ultimately show ?thesis by force
qed

theorem rdahead_setup_ignores_failure_witness:
  "\<exists>sb'. ber_sockbuf_add_io (\<lambda>n. Some (replicate n 0)) demo_sockbuf (Some Io_readahead) 40 (ArgInt 200000) = Some (0, sb')
    \<and> length (sb_iod sb') = 4 \<and> ber_int_sb_read script_os (sb', [Delivered [1]], [], []) 1 = None"
proof -
  have "length (sb_iod demo_sockbuf) = 3" "\<forall>d\<in>set (sb_iod demo_sockbuf). sbiod_level d \<le> 40"
    by (simp_all add: demo_sockbuf_def)
  moreover have "2 * MAX_BUFF_SIZE < unat (of_int 200000 :: u32)" by (simp add: MAX_BUFF_SIZE_def)
  ultimately show ?thesis
    using rdahead_setup_ignores_failure [of "\<lambda>n. Some (replicate n 0)" 200000 demo_sockbuf 40 script_os "([Delivered [1]], [], [])" 1]
    by simp
qed

end
