(* ===== verification/Ber_Transport.thy ===== *)
theory Ber_Transport imports Ber_Next Sockbuf_Facts begin

text \<open>
  Elements over a transport: \<open>ber_get_next\<close> called again and again until it has an element, whatever
  the portions in which the transport delivers it, and \<open>ber_flush\<close> called until all is written.
\<close>

section \<open>Where a read stands\<close>

text \<open>The length octets of a length: short, or long with up to four octets.\<close>

definition length_coded :: "octets \<Rightarrow> nat \<Rightarrow> bool" where
  "length_coded ls n \<longleftrightarrow> (\<exists>l. ls = [l] \<and> l AND 0x80 = 0 \<and> unat l = n)
    \<or> (\<exists>l ds. ls = l # ds \<and> l AND 0x80 \<noteq> 0 \<and> unat (l AND 0x7f) = length ds \<and> ds \<noteq> [] \<and> length ds \<le> 4
        \<and> unat (of_be ds) = n)"

text \<open>
  The octets of a tag: one, or a first one that announces more and then those up to the first whose top bit is clear.
  What \<open>ber_get_next\<close> makes of them is the first octet as a \<open>char\<close>; of a longer tag the first and the last octet are
  left, moved by five bits.
\<close>

abbreviation more_to_come :: "u8 \<Rightarrow> bool" where
  "more_to_come x \<equiv> (ucast x :: u32) AND LBER_MORE_TAG_MASK \<noteq> 0"

definition further :: "octets \<Rightarrow> bool" where
  "further fs \<longleftrightarrow> fs \<noteq> [] \<and> list_all more_to_come (butlast fs) \<and> \<not> more_to_come (last fs)"

definition tag_coded :: "octets \<Rightarrow> bool" where
  "tag_coded ts \<longleftrightarrow> ts \<noteq> [] \<and>
    (if (ucast (hd ts) :: u32) AND LBER_BIG_TAG_MASK \<noteq> LBER_BIG_TAG_MASK then tl ts = [] else further (tl ts))"

definition read_tag :: "bool \<Rightarrow> octets \<Rightarrow> u32" where
  "read_tag schar ts =
    (if tl ts = [] then char_value schar (hd ts) else drop_bit 5 (set_octet 1 (last ts) (set_octet 0 (hd ts) 0)))"

lemma set_octet_twice: "set_octet k x (set_octet k y w) = set_octet k x w"
proof (rule bit_word_eqI)
  fix n assume "n < LENGTH(32)"
  have m: "(0xff :: u32) = mask 8" by (simp add: mask_eq_exp_minus_1)
  show "bit (set_octet k x (set_octet k y w)) n = bit (set_octet k x w) n"
    unfolding set_octet_def m by (auto simp: bit_simps dest: bit_imp_le_length)
qed

lemma read_tag_single [simp]: "read_tag schar [t] = char_value schar t"
  by (simp add: read_tag_def)

definition filling :: "bool \<Rightarrow> octets \<Rightarrow> octets \<Rightarrow> nat \<Rightarrow> berelement \<Rightarrow> bool" where
  "filling schar ts c k ber \<longleftrightarrow> ber_rwptr ber = RwBuf k \<and> k < length c \<and> ber_tag ber = read_tag schar ts
    \<and> ber_len ber = of_nat (length c) \<and> ber_ptr ber = 0 \<and> ber_end ber = length c
    \<and> (\<exists>block. ber_buf ber = Some block \<and> length block = length c \<and> take k block = take k c)"

text \<open>
  \<open>ber\<close> is in the middle of reading the element with the tag \<open>ts\<close> and the contents \<open>c\<close>, and
  \<open>rem\<close> is what it still has to read.
\<close>

definition awaiting :: "bool \<Rightarrow> octets \<Rightarrow> octets \<Rightarrow> berelement \<Rightarrow> octets \<Rightarrow> bool" where
  "awaiting schar ts c ber rem \<longleftrightarrow>
    (case ber_rwptr ber of
       RwNull \<Rightarrow> ber_buf ber = None \<and> (\<exists>ls. length_coded ls (length c) \<and> rem = ts @ ls @ c)
     | RwTag k \<Rightarrow> ber_buf ber = None \<and>
         (k = 0 \<and> ber_tag ber = 0 \<and> (\<exists>ls. length_coded ls (length c) \<and> rem = ts @ ls @ c)
          \<or> k = 1 \<and> tl ts \<noteq> [] \<and> (\<forall>l. set_octet 1 l (ber_tag ber) = set_octet 1 l (set_octet 0 (hd ts) 0))
            \<and> (\<exists>fs ls. further fs \<and> last fs = last ts \<and> length_coded ls (length c) \<and> rem = fs @ ls @ c))
     | RwUsertag \<Rightarrow> ber_buf ber = None \<and> ber_tag ber = read_tag schar ts
         \<and> (\<exists>ls. length_coded ls (length c) \<and> rem = ls @ c)
     | RwLen k \<Rightarrow> ber_buf ber = None \<and> ber_tag ber = read_tag schar ts \<and> k < 4
         \<and> (\<exists>ds. length ds = 4 - k \<and> unat (of_be_from (ber_len ber) ds) = length c \<and> rem = ds @ c)
     | RwBuf k \<Rightarrow> filling schar ts c k ber \<and> rem = drop k c)"

definition received :: "bool \<Rightarrow> octets \<Rightarrow> octets \<Rightarrow> u32 \<Rightarrow> u32 option \<Rightarrow> berelement \<Rightarrow> bool" where
  "received schar ts c ret len ber \<longleftrightarrow> ret = read_tag schar ts \<and> len = Some (of_nat (length c)) \<and> ber_buf ber = Some c
    \<and> ber_ptr ber = 0 \<and> ber_end ber = length c \<and> ber_rwptr ber = RwNull"

lemma char_value_not_default:
  assumes "(ucast t :: u32) AND LBER_BIG_TAG_MASK \<noteq> LBER_BIG_TAG_MASK"
  shows "char_value schar t \<noteq> LBER_DEFAULT"
proof
  have m: "LBER_BIG_TAG_MASK = mask 5" by (simp add: LBER_BIG_TAG_MASK_def mask_eq_exp_minus_1)
  assume a: "char_value schar t = LBER_DEFAULT"
  have "char_value schar t AND mask 5 = ucast t AND mask 5"
    by (rule bit_word_eqI) (auto simp: char_value_def bit_simps)
  moreover have "LBER_DEFAULT AND mask 5 = mask 5" by (simp add: LBER_DEFAULT_def mask_eq_exp_minus_1)
  ultimately show False using assms a m by simp
qed

lemma read_tag_not_default: "tag_coded ts \<Longrightarrow> read_tag schar ts \<noteq> LBER_DEFAULT"
proof (cases "tl ts = []")
  case True
  assume "tag_coded ts"
  then show ?thesis using True char_value_not_default [of "hd ts" schar] by (auto simp: tag_coded_def read_tag_def further_def split: if_splits)
next
  case False
  have "bit LBER_DEFAULT 31" by (simp add: LBER_DEFAULT_def bit_simps)
  moreover have "\<not> bit (read_tag schar ts) 31" using False by (auto simp: read_tag_def bit_simps dest: bit_imp_le_length)
  ultimately show ?thesis by metis
qed

section \<open>Readers\<close>

text \<open>
  A reader of octets as \<open>ber_get_next\<close> uses it: the law of a live byte source, for the result without
  the error number.
\<close>

locale octet_reader =
  fixes sb_read :: "'s reader" and ok :: "'s \<Rightarrow> bool" and pending :: "'s \<Rightarrow> octets" and stalls :: "'s \<Rightarrow> nat"
  assumes sb_reads: "ok s \<Longrightarrow> sb_read s n = (c, bs, s') \<Longrightarrow> ok s' \<and> stalls s' \<le> stalls s \<and>
    (if c < 0 then pending s' = pending s \<and> stalls s' < stalls s
     else c = int (length bs) \<and> length bs \<le> n \<and> pending s = bs @ pending s' \<and> (bs = [] \<longrightarrow> n = 0 \<or> pending s = []))"
begin

text \<open>While there are octets to come every read delivers some or uses up a stall.\<close>

definition effort :: "'s \<Rightarrow> nat" where
  "effort s = stalls s + length (pending s)"

lemma read_some:
  assumes "ok s" "pending s \<noteq> []" "0 < n" "sb_read s n = (c, bs, s')"
  shows "ok s'" "effort s' < effort s" "stalls s' \<le> stalls s"
    and "c \<le> 0 \<Longrightarrow> pending s' = pending s \<and> stalls s' < stalls s"
    and "0 < c \<Longrightarrow> c = int (length bs) \<and> bs \<noteq> [] \<and> length bs \<le> n \<and> pending s = bs @ pending s'"
proof -
  have "ok s'" "stalls s' \<le> stalls s" "if c \<le> 0 then pending s' = pending s \<and> stalls s' < stalls s
      else c = int (length bs) \<and> bs \<noteq> [] \<and> length bs \<le> n \<and> pending s = bs @ pending s'"
    using sb_reads [OF assms(1,4)] assms(2,3) by (auto split: if_splits)
  then show "ok s'" "effort s' < effort s" "stalls s' \<le> stalls s"
    "c \<le> 0 \<Longrightarrow> pending s' = pending s \<and> stalls s' < stalls s"
    "0 < c \<Longrightarrow> c = int (length bs) \<and> bs \<noteq> [] \<and> length bs \<le> n \<and> pending s = bs @ pending s'"
    by (auto simp: effort_def add_le_less_mono split: if_splits)
qed

lemma BerRead_loop_reads:
  assumes "ok s" "n \<le> length (pending s)" "BerRead_loop sb_read s n acc = (c, bs, s')"
  shows "ok s' \<and> stalls s' \<le> stalls s \<and> (\<exists>new. pending s = new @ pending s' \<and> length new \<le> n
    \<and> (new = [] \<and> 0 < n \<longrightarrow> stalls s' < stalls s)
    \<and> (if acc @ new = [] \<and> 0 < n then c \<le> 0 else c = int (length (acc @ new)) \<and> bs = acc @ new))"
  using assms
proof (induction n arbitrary: s acc rule: less_induct)
  case (less n)
  show ?case
  proof (cases "n = 0")
    case True
    then show ?thesis using less.prems by auto
  next
    case False
    obtain c1 bs1 s1 where r: "sb_read s n = (c1, bs1, s1)" by (metis prod_cases3)
    have ne: "pending s \<noteq> []" "0 < n" using less.prems(2) False by auto
    note facts = read_some [OF less.prems(1) ne r]
    show ?thesis
    proof (cases "c1 \<le> 0")
      case True
      then have "BerRead_loop sb_read s n acc = (if length acc > 0 then (int (length acc), acc, s1) else (c1, [], s1))"
        using False r by (subst BerRead_loop.simps) simp
      then show ?thesis using facts(1,3,4) True less.prems(3) ne by (auto split: if_splits)
    next
      case c: False
      then have l: "BerRead_loop sb_read s n acc = BerRead_loop sb_read s1 (n - length bs1) (acc @ bs1)"
        using False r facts(5) by (subst BerRead_loop.simps) simp
      have "ok s1 \<and> n - length bs1 < n \<and> n - length bs1 \<le> length (pending s1)"
        using facts c less.prems(2) False by (cases bs1) auto
      then obtain new where new: "ok s'" "stalls s' \<le> stalls s1" "pending s1 = new @ pending s'" "length new \<le> n - length bs1"
          "(if (acc @ bs1) @ new = [] \<and> 0 < n - length bs1 then c \<le> 0 else c = int (length ((acc @ bs1) @ new)) \<and> bs = (acc @ bs1) @ new)"
        using less.IH [of "n - length bs1" s1 "acc @ bs1"] less.prems(3) l by auto
      then have "pending s = (bs1 @ new) @ pending s' \<and> length (bs1 @ new) \<le> n \<and> bs1 @ new \<noteq> []
          \<and> c = int (length (acc @ bs1 @ new)) \<and> bs = acc @ bs1 @ new"
        using facts(5) c by auto
      moreover have "stalls s' \<le> stalls s" using new(2) facts(3) by simp
      ultimately show ?thesis using new(1) by (metis append_is_Nil_conv)
    qed
  qed
qed

lemma BerRead_reads:
  assumes "ok s" "n \<le> length (pending s)" "0 < n" "BerRead sb_read s n = (c, bs, s')"
  shows "ok s'" "effort s' < effort s" "c \<le> 0 \<Longrightarrow> pending s' = pending s"
    "0 < c \<Longrightarrow> c = int (length bs) \<and> bs \<noteq> [] \<and> length bs \<le> n \<and> pending s = bs @ pending s'"
proof -
  obtain new where new: "ok s'" "stalls s' \<le> stalls s" "pending s = new @ pending s'" "length new \<le> n"
      "new = [] \<longrightarrow> stalls s' < stalls s" "if new = [] then c \<le> 0 else c = int (length new) \<and> bs = new"
    using BerRead_loop_reads [OF assms(1,2) assms(4) [unfolded BerRead_def]] assms(3) by auto
  then show "ok s'" "effort s' < effort s" "c \<le> 0 \<Longrightarrow> pending s' = pending s"
    "0 < c \<Longrightarrow> c = int (length bs) \<and> bs \<noteq> [] \<and> length bs \<le> n \<and> pending s = bs @ pending s'"
    by (cases new; auto simp: effort_def)+
qed

text \<open>What one call may do.\<close>

definition outcome :: "bool \<Rightarrow> octets \<Rightarrow> octets \<Rightarrow> octets \<Rightarrow> 's \<Rightarrow> 's next_result \<Rightarrow> bool" where
  "outcome schar ts c rest s r = (let (ret, len, e, ber, s') = r in ok s' \<and>
    (ret = LBER_DEFAULT \<and> effort s' < effort s \<and> (\<exists>rem. awaiting schar ts c ber rem \<and> pending s' = rem @ rest)
     \<or> ret \<noteq> LBER_DEFAULT \<and> received schar ts c ret len ber \<and> pending s' = rest))"

lemma outcome_mono: "outcome schar ts c rest s1 r \<Longrightarrow> effort s1 \<le> effort s \<Longrightarrow> outcome schar ts c rest s r"
  by (cases r) (auto simp: outcome_def)

lemma outcome_fail:
  "ok s' \<Longrightarrow> effort s' < effort s \<Longrightarrow> awaiting schar ts c ber rem \<Longrightarrow> pending s' = rem @ rest
    \<Longrightarrow> outcome schar ts c rest s (next_fail e ber s')"
  by (auto simp: outcome_def next_fail_def)

end

locale one_message = octet_reader +
  fixes schar :: bool and alloc :: allocator and sb_max_incoming :: u32 and ts c rest :: octets
  assumes tag: "tag_coded ts"
    and contents: "c \<noteq> []" "length c < 2 ^ 32"
    and within_limit: "sb_max_incoming = 0 \<or> of_nat (length c) \<le> sb_max_incoming"
    and allocates: "\<exists>block. alloc (length c) = Some block \<and> length block = length c"
begin

abbreviation good where "good \<equiv> outcome schar ts c rest"

lemma length_not_0: "(of_nat (length c) :: u32) \<noteq> 0" "unat (of_nat (length c) :: u32) = length c"
proof -
  show u: "unat (of_nat (length c) :: u32) = length c" using contents(2) by (simp add: unat_of_nat)
  show "(of_nat (length c) :: u32) \<noteq> 0" using contents(1) u by (metis length_0_conv unat_0)
qed

lemma fill_rest:
  assumes "ok s" "filling schar ts c k ber" "pending s = drop k c @ rest"
  shows "\<exists>r. fill_buffer sb_read alloc sb_max_incoming s ber = Some r \<and> good s r"
proof -
  obtain block where b: "ber_buf ber = Some block" "length block = length c" "take k block = take k c"
    and f: "ber_rwptr ber = RwBuf k" "k < length c" "ber_tag ber = read_tag schar ts"
      "ber_len ber = of_nat (length c)" "ber_ptr ber = 0" "ber_end ber = length c"
    using assms(2) by (auto simp: filling_def)
  obtain res bs s' where r: "sb_read s (length c - k) = (res, bs, s')" by (metis prod_cases3)
  have "pending s \<noteq> []" "0 < length c - k" using assms(3) f(2) by simp_all
  note facts = read_some [OF assms(1) this r]
  have guard: "(ber_len ber = 0 \<or> sb_max_incoming \<noteq> 0 \<and> ber_len ber > sb_max_incoming) = False"
    using within_limit length_not_0 f(4) by auto
  show ?thesis
  proof (cases "res \<le> 0")
    case True
    then have "fill_buffer sb_read alloc sb_max_incoming s ber = Some (next_fail None ber s')"
      using b(1) f r by (simp add: fill_buffer_def Let_def guard [unfolded f(4)])
    moreover have "good s (next_fail None ber s')"
      using facts True assms(2,3) f(1) by (intro outcome_fail [where rem = "drop k c"]) (simp_all add: awaiting_def)
    ultimately show ?thesis by blast
  next
    case False
    then have n: "res = int (length bs)" "length bs \<le> length c - k" "drop k c @ rest = bs @ pending s'" "bs \<noteq> []"
      using facts assms(3) by simp_all
    have "take (length bs) (drop k c @ rest) = bs" "drop (length bs) (drop k c @ rest) = pending s'"
      using n(3) by simp_all
    then have bs: "take (length bs) (drop k c) = bs" "pending s' = drop (k + length bs) c @ rest"
      using n(2) by (simp_all add: add.commute)
    let ?block = "take k block @ bs @ drop (k + length bs) block"
    let ?ber = "ber\<lparr>ber_buf := Some ?block\<rparr>"
    have store: "ber_store k bs ber = Some ?ber"
      using n(2,4) b f(2) by (simp add: ber_store_def store_def ber_block_def)
    have copied: "take (k + length bs) ?block = take (k + length bs) c" "length ?block = length c"
      using b(2,3) f(2) n(2) bs(1) by (simp_all add: take_add)
    show ?thesis
    proof (cases "length bs < length c - k")
      case True
      let ?ber' = "?ber\<lparr>ber_rwptr := RwBuf (k + length bs)\<rparr>"
      have "filling schar ts c (k + length bs) ?ber'"
        using True f copied b(2) n(2) unfolding filling_def by auto
      then have "good s (next_fail (Some EWOULDBLOCK) ?ber' s')"
        using facts bs(2) by (intro outcome_fail [where rem = "drop (k + length bs) c"]) (simp_all add: awaiting_def)
      moreover have "fill_buffer sb_read alloc sb_max_incoming s ber = Some (next_fail (Some EWOULDBLOCK) ?ber' s')"
        using True b(1) f r store n(1,4) by (simp add: fill_buffer_def Let_def guard [unfolded f(4)])
      ultimately show ?thesis by blast
    next
      case full: False
      then have l: "length bs = length c - k" using n(2) by simp
      then have "?block = c" using copied f(2) by simp
      then have "good s (ber_tag ?ber, Some (ber_len ?ber), None, ?ber\<lparr>ber_rwptr := RwNull\<rparr>, s')"
        using facts(1) bs(2) f l read_tag_not_default [OF tag]
        by (simp add: outcome_def received_def)
      moreover have "fill_buffer sb_read alloc sb_max_incoming s ber
          = Some (ber_tag ?ber, Some (ber_len ?ber), None, ?ber\<lparr>ber_rwptr := RwNull\<rparr>, s')"
        using full b(1) f r store n(1,4) by (simp add: fill_buffer_def Let_def guard [unfolded f(4)])
      ultimately show ?thesis by blast
    qed
  qed
qed

text \<open>The buffer is allocated when the length is complete.\<close>

lemma fill_fresh:
  assumes "ok s" "ber_buf ber = None" "ber_tag ber = read_tag schar ts" "ber_len ber = of_nat (length c)"
    and "pending s = c @ rest"
  shows "\<exists>r. fill_buffer sb_read alloc sb_max_incoming s ber = Some r \<and> good s r"
proof -
  obtain block where a: "alloc (length c) = Some block" "length block = length c" using allocates by blast
  let ?ber = "ber\<lparr>ber_buf := Some block, ber_rwptr := RwBuf 0, ber_ptr := 0, ber_end := length c\<rparr>"
  have guard: "(ber_len ber = 0 \<or> sb_max_incoming \<noteq> 0 \<and> ber_len ber > sb_max_incoming) = False"
    using within_limit length_not_0 assms(4) by auto
  have "fill_buffer sb_read alloc sb_max_incoming s ber = fill_buffer sb_read alloc sb_max_incoming s ?ber"
    using a(1) assms(2,4) length_not_0(2) by (simp add: fill_buffer_def guard [unfolded assms(4)])
  moreover have "filling schar ts c 0 ?ber" using assms a contents(1) by (simp add: filling_def)
  ultimately show ?thesis using fill_rest [OF assms(1), of 0 ?ber] assms(5) by simp
qed

lemma length_reads:
  assumes "ok s" "ber_buf ber = None" "ber_tag ber = read_tag schar ts" "ber_rwptr ber = RwLen k" "k < 4"
    and "length ds = 4 - k" "unat (of_be_from (ber_len ber) ds) = length c" "pending s = ds @ c @ rest"
  shows "\<exists>r. get_length_octets sb_read alloc sb_max_incoming s ber = Some r \<and> good s r"
proof -
  obtain res bs s' where r: "BerRead sb_read s (4 - k) = (res, bs, s')" by (metis prod_cases3)
  have "4 - k \<le> length (pending s)" "0 < 4 - k" using assms(5,6,8) by simp_all
  note facts = BerRead_reads [OF assms(1) this r]
  show ?thesis
  proof (cases "res \<le> 0")
    case True
    then have "good s (next_fail None ber s')"
      using facts assms by (intro outcome_fail [where rem = "ds @ c"]) (auto simp: awaiting_def)
    then show ?thesis using True r assms(4,5) by (simp add: get_length_octets_def)
  next
    case False
    then have n: "res = int (length bs)" "bs \<noteq> []" "length bs \<le> 4 - k" "ds @ c @ rest = bs @ pending s'"
      using facts(4) assms(8) by auto
    let ?ber = "ber\<lparr>ber_rwptr := RwLen (k + length bs), ber_len := of_be_from (ber_len ber) bs\<rparr>"
    have "take (length bs) (ds @ c @ rest) = bs" "drop (length bs) (ds @ c @ rest) = pending s'"
      using n(4) by simp_all
    then have bs: "ds = bs @ drop (length bs) ds" "pending s' = drop (length bs) ds @ c @ rest"
      using n(3) assms(6) append_take_drop_id [of "length bs" ds] by simp_all
    show ?thesis
    proof (cases "k + length bs < 4")
      case True
      have "good s (next_fail None ?ber s')"
        using facts bs(2) True assms(2,3,6,7) bs(1)
        by (intro outcome_fail [where rem = "drop (length bs) ds @ c"])
          (auto simp: awaiting_def intro!: exI [of _ "drop (length bs) ds"] simp flip: of_be_from_append)
      then show ?thesis using True r assms(4,5) n(1,2) by (auto simp: get_length_octets_def Let_def)
    next
      case full: False
      then have "drop (length bs) ds = []" using assms(6) by simp
      then have "pending s' = c @ rest" "ber_len ?ber = of_nat (length c)"
        using bs assms(7) by (auto simp flip: assms(7))
      then obtain r where r': "fill_buffer sb_read alloc sb_max_incoming s' ?ber = Some r" "good s' r"
        using fill_fresh [OF facts(1), of ?ber] assms(2,3) by auto
      moreover have "get_length_octets sb_read alloc sb_max_incoming s ber = fill_buffer sb_read alloc sb_max_incoming s' ?ber"
        using full r assms(4,5) n(1,2) by (simp add: get_length_octets_def Let_def)
      ultimately show ?thesis using outcome_mono facts(2) by (metis less_imp_le)
    qed
  qed
qed

lemma lenbyte_reads:
  assumes "ok s" "ber_buf ber = None" "ber_tag ber = read_tag schar ts" "ber_rwptr ber = RwUsertag"
    and "length_coded ls (length c)" "pending s = ls @ c @ rest"
  shows "\<exists>r. get_lenbyte sb_read alloc sb_max_incoming s ber = Some r \<and> good s r"
proof -
  obtain res bs s' where r: "sb_read s 1 = (res, bs, s')" by (metis prod_cases3)
  have "ls \<noteq> []" using assms(5) by (auto simp: length_coded_def)
  then have "pending s \<noteq> []" "0 < (1 :: nat)" using assms(6) by simp_all
  note facts = read_some [OF assms(1) this r]
  show ?thesis
  proof (cases "res \<le> 0")
    case True
    then have "good s (next_fail None ber s')"
      using facts assms by (intro outcome_fail [where rem = "ls @ c"]) (auto simp: awaiting_def)
    then show ?thesis using True r assms(4) by (simp add: get_lenbyte_def)
  next
    case False
    then have n: "bs \<noteq> []" "length bs \<le> 1" "ls @ c @ rest = bs @ pending s'" using facts(5) assms(6) by auto
    then obtain l where l: "bs = [l]" by (cases bs) auto
    then obtain ds where ds: "ls = l # ds" "pending s' = ds @ c @ rest" using n(3) \<open>ls \<noteq> []\<close> by (cases ls) auto
    have "\<exists>r. get_lenbyte sb_read alloc sb_max_incoming s ber = Some r \<and> good s' r"
    proof (cases "l AND 0x80 = 0")
      case True
      then have "ds = []" "unat l = length c" using assms(5) ds(1) by (auto simp: length_coded_def)
      then have "(of_nat (length c) :: u32) = ucast l" "pending s' = c @ rest" using ds(2) of_nat_unat [of l] by auto
      then obtain r' where "fill_buffer sb_read alloc sb_max_incoming s' (ber\<lparr>ber_len := ucast l\<rparr>) = Some r' \<and> good s' r'"
        using fill_fresh [OF facts(1), of "ber\<lparr>ber_len := ucast l\<rparr>"] assms(2,3) by auto
      then show ?thesis using True False r l assms(4) by (simp add: get_lenbyte_def)
    next
      case long: False
      then have k: "unat (l AND 0x7f) = length ds" "ds \<noteq> []" "length ds \<le> 4" "unat (of_be ds) = length c"
        using assms(5) ds(1) by (auto simp: length_coded_def)
      let ?ber = "ber\<lparr>ber_rwptr := RwLen (4 - length ds), ber_len := 0\<rparr>"
      have k': "4 - length ds < 4" "length ds = 4 - (4 - length ds)" using k(2,3) by simp_all
      have st: "ber_buf ?ber = None" "ber_tag ?ber = read_tag schar ts" "ber_rwptr ?ber = RwLen (4 - length ds)"
          "unat (of_be_from (ber_len ?ber) ds) = length c"
        using assms(2,3) k(4) by simp_all
      from length_reads [OF facts(1) st(1-3) k' st(4) ds(2)]
      obtain r' where "get_length_octets sb_read alloc sb_max_incoming s' ?ber = Some r' \<and> good s' r'" by blast
      moreover have "get_lenbyte sb_read alloc sb_max_incoming s ber = get_length_octets sb_read alloc sb_max_incoming s' ?ber"
        using long False r l assms(4) k by (simp add: get_lenbyte_def)
      ultimately show ?thesis by auto
    qed
    then show ?thesis using outcome_mono facts(2) by (metis less_imp_le)
  qed
qed

text \<open>One call, from any place in the middle of an element.\<close>

lemma tag_loop_reads:
  assumes "ok s" "further fs" "pending s = fs @ q"
  shows "\<exists>s' ber1 complete. tag_loop sb_read s 1 ber = Some (complete, ber1, s') \<and> ok s' \<and> effort s' < effort s \<and>
    (if complete then ber1 = ber\<lparr>ber_tag := drop_bit 5 (set_octet 1 (last fs) (ber_tag ber)), ber_rwptr := RwUsertag\<rparr> \<and> pending s' = q
     else (\<exists>fs' w. ber1 = ber\<lparr>ber_tag := w\<rparr> \<and> (\<forall>l. set_octet 1 l w = set_octet 1 l (ber_tag ber))
       \<and> further fs' \<and> last fs' = last fs \<and> pending s' = fs' @ q))"
  using assms
proof (induction fs arbitrary: s ber)
  case (Cons f fs)
  obtain res bs s1 where r: "sb_read s 1 = (res, bs, s1)" by (metis prod_cases3)
  have "pending s \<noteq> []" "0 < (1 :: nat)" using Cons.prems(3) by simp_all
  note facts = read_some [OF Cons.prems(1) this r]
  show ?case
  proof (cases "res \<le> 0")
    case True
    then have "tag_loop sb_read s 1 ber = Some (False, ber, s1)" using r by (subst tag_loop.simps) simp
    then show ?thesis using facts True Cons.prems
      by (intro exI [of _ s1] exI [of _ ber] exI [of _ False]) (auto intro!: exI [of _ "f # fs"] exI [of _ "ber_tag ber"])
  next
    case False
    then have n: "bs \<noteq> []" "length bs \<le> 1" "f # fs @ q = bs @ pending s1" using facts(5) Cons.prems(3) by auto
    then have b: "bs = [f]" "pending s1 = fs @ q" by (cases bs; auto)+
    let ?ber = "ber\<lparr>ber_tag := set_octet 1 f (ber_tag ber)\<rparr>"
    have step: "tag_loop sb_read s 1 ber = (if \<not> more_to_come f then
        Some (True, ?ber\<lparr>ber_tag := drop_bit 5 (ber_tag ?ber), ber_rwptr := RwUsertag\<rparr>, s1) else tag_loop sb_read s1 1 ?ber)"
      using False r b(1) by (subst tag_loop.simps) (simp add: Let_def)
    show ?thesis
    proof (cases "fs = []")
      case True
      then have "\<not> more_to_come f" using Cons.prems(2) by (simp add: further_def)
      then show ?thesis using step facts(1,2) b(2) True by (intro exI [of _ s1] exI exI [of _ True]) simp
    next
      case fs: False
      then have m: "more_to_come f" "further fs" using Cons.prems(2) by (simp_all add: further_def)
      then obtain s' ber1 complete where i: "tag_loop sb_read s1 1 ?ber = Some (complete, ber1, s')" "ok s'" "effort s' < effort s1"
          "if complete then ber1 = ?ber\<lparr>ber_tag := drop_bit 5 (set_octet 1 (last fs) (ber_tag ?ber)), ber_rwptr := RwUsertag\<rparr> \<and> pending s' = q
           else (\<exists>fs' w. ber1 = ?ber\<lparr>ber_tag := w\<rparr> \<and> (\<forall>l. set_octet 1 l w = set_octet 1 l (ber_tag ?ber))
             \<and> further fs' \<and> last fs' = last fs \<and> pending s' = fs' @ q)"
        using Cons.IH [OF facts(1) m(2) b(2), of ?ber] by blast
      then show ?thesis using step m(1) facts(2) fs
        by (intro exI [of _ s'] exI [of _ ber1] exI [of _ complete]) (auto simp: set_octet_twice split: if_splits)
    qed
  qed
qed (simp add: further_def)

text \<open>The further octets of a tag and what follows them.\<close>

lemma further_reads:
  assumes "ok s" "ber_buf ber = None" "ber_rwptr ber = RwTag 1" "tl ts \<noteq> []"
    and "\<forall>l. set_octet 1 l (ber_tag ber) = set_octet 1 l (set_octet 0 (hd ts) 0)"
    and "further fs" "last fs = last ts" "length_coded ls (length c)" "pending s = fs @ ls @ c @ rest"
  shows "\<exists>r. (case tag_loop sb_read s 1 ber of None \<Rightarrow> None
     | Some (complete, ber1, s') \<Rightarrow>
        (if complete then get_lenbyte sb_read alloc sb_max_incoming s' ber1 else Some (next_fail None ber1 s'))) = Some r \<and> good s r"
proof -
  obtain s' ber1 complete where l: "tag_loop sb_read s 1 ber = Some (complete, ber1, s')" "ok s'" "effort s' < effort s"
      "if complete then ber1 = ber\<lparr>ber_tag := drop_bit 5 (set_octet 1 (last fs) (ber_tag ber)), ber_rwptr := RwUsertag\<rparr>
          \<and> pending s' = ls @ c @ rest
       else (\<exists>fs' w. ber1 = ber\<lparr>ber_tag := w\<rparr> \<and> (\<forall>l. set_octet 1 l w = set_octet 1 l (ber_tag ber))
         \<and> further fs' \<and> last fs' = last fs \<and> pending s' = fs' @ ls @ c @ rest)"
    using tag_loop_reads [OF assms(1,6,9), of ber] by blast
  show ?thesis
  proof (cases complete)
    case True
    then have "ber_tag ber1 = read_tag schar ts" "ber_buf ber1 = None" "ber_rwptr ber1 = RwUsertag" "pending s' = ls @ c @ rest"
      using l(4) assms(2,4,5,7) by (simp_all add: read_tag_def)
    then obtain r where "get_lenbyte sb_read alloc sb_max_incoming s' ber1 = Some r" "good s' r"
      using lenbyte_reads [OF l(2)] assms(8) by blast
    then show ?thesis using l(1) True outcome_mono [OF _ less_imp_le [OF l(3)]] by simp
  next
    case False
    then obtain fs' w where w: "ber1 = ber\<lparr>ber_tag := w\<rparr>" "\<forall>l. set_octet 1 l w = set_octet 1 l (ber_tag ber)"
        "further fs'" "last fs' = last fs" "pending s' = fs' @ ls @ c @ rest"
      using l(4) by auto
    have "awaiting schar ts c ber1 (fs' @ ls @ c)"
      using assms(2-5,7,8) w unfolding awaiting_def by auto
    then have "good s (next_fail None ber1 s')" using l(2,3) w(5) by (intro outcome_fail) simp_all
    then show ?thesis using l(1) False by simp
  qed
qed

lemma tag_reads:
  assumes "ok s" "ber_buf ber = None" "ber_rwptr ber = RwTag 0" "ber_tag ber = 0" "length_coded ls (length c)" "pending s = ts @ ls @ c @ rest"
    and "ber0 = ber \<or> ber_rwptr ber0 = RwNull \<and> ber = ber0\<lparr>ber_rwptr := RwTag 0, ber_tag := 0\<rparr>"
  shows "\<exists>r. ber_get_next schar sb_read alloc sb_max_incoming s ber0 = Some r \<and> good s r"
proof -
  obtain res bs s' where r: "sb_read s 1 = (res, bs, s')" by (metis prod_cases3)
  obtain t fs where ts: "ts = t # fs" using tag by (cases ts) (simp_all add: tag_coded_def)
  have "pending s \<noteq> []" "0 < (1 :: nat)" using assms(6) ts by simp_all
  note facts = read_some [OF assms(1) this r]
  have start: "(if ber_rwptr ber0 = RwNull then ber0\<lparr>ber_rwptr := RwTag 0, ber_tag := 0\<rparr> else ber0) = ber"
    using assms(3,7) by auto
  show ?thesis
  proof (cases "res \<le> 0")
    case True
    then have "good s (next_fail None ber s')"
      using facts assms by (intro outcome_fail [where rem = "ts @ ls @ c"]) (auto simp: awaiting_def)
    then show ?thesis using True r assms(3) by (simp add: ber_get_next_def start)
  next
    case False
    then have n: "bs \<noteq> []" "length bs \<le> 1" "t # fs @ ls @ c @ rest = bs @ pending s'" using facts(5) assms(6) ts by auto
    then have b: "bs = [t]" "pending s' = fs @ ls @ c @ rest" by (cases bs; auto)+
    have "\<exists>r'. ber_get_next schar sb_read alloc sb_max_incoming s ber0 = Some r' \<and> good s' r'"
    proof (cases "(ucast t :: u32) AND LBER_BIG_TAG_MASK \<noteq> LBER_BIG_TAG_MASK")
      case True
      then have fs: "fs = []" using tag by (simp add: tag_coded_def ts)
      let ?ber = "ber\<lparr>ber_tag := read_tag schar ts, ber_rwptr := RwUsertag\<rparr>"
      obtain r' where "get_lenbyte sb_read alloc sb_max_incoming s' ?ber = Some r'" "good s' r'"
        using lenbyte_reads [OF facts(1), of ?ber ls] assms(2,5) b(2) fs by auto
      moreover have "ber_get_next schar sb_read alloc sb_max_incoming s ber0 = get_lenbyte sb_read alloc sb_max_incoming s' ?ber"
        using False r b(1) assms(3) True fs ts by (simp add: ber_get_next_def start Let_def)
      ultimately show ?thesis by simp
    next
      case big: False
      then have fs: "further fs" "fs \<noteq> []" using tag by (auto simp: tag_coded_def ts further_def)
      let ?ber = "ber\<lparr>ber_tag := set_octet 0 t 0, ber_rwptr := RwTag 1\<rparr>"
      have "ber_get_next schar sb_read alloc sb_max_incoming s ber0 = (case tag_loop sb_read s' 1 ?ber of None \<Rightarrow> None
          | Some (complete, ber1, s') \<Rightarrow>
             (if complete then get_lenbyte sb_read alloc sb_max_incoming s' ber1 else Some (next_fail None ber1 s')))"
        using False r b(1) assms(3,4) big by (simp add: ber_get_next_def start Let_def)
      then show ?thesis
        using further_reads [OF facts(1), of ?ber fs ls] assms(2,5) b(2) fs by (simp add: ts)
    qed
    then show ?thesis using outcome_mono facts(2) by (metis less_imp_le)
  qed
qed

lemma one_call:
  assumes "ok s" "awaiting schar ts c ber rem" "pending s = rem @ rest"
  shows "\<exists>r. ber_get_next schar sb_read alloc sb_max_incoming s ber = Some r \<and> good s r"
proof (cases "ber_rwptr ber")
  case RwNull
  then show ?thesis
    using tag_reads [OF assms(1), of "ber\<lparr>ber_rwptr := RwTag 0, ber_tag := 0\<rparr>" _ ber] assms(2,3) by (auto simp: awaiting_def)
next
  case (RwTag k)
  then consider "k = 0" | "k = 1" using assms(2) by (auto simp: awaiting_def)
  then show ?thesis
  proof cases
    case 1
    then show ?thesis using RwTag tag_reads [OF assms(1), of ber _ ber] assms(2,3) by (auto simp: awaiting_def)
  next
    case 2
    then obtain fs ls where "ber_buf ber = None" "tl ts \<noteq> []" "further fs" "last fs = last ts" "length_coded ls (length c)"
        "\<forall>l. set_octet 1 l (ber_tag ber) = set_octet 1 l (set_octet 0 (hd ts) 0)" "rem = fs @ ls @ c"
      using RwTag assms(2) by (auto simp: awaiting_def)
    then show ?thesis using further_reads [OF assms(1), of ber fs ls] assms(3) RwTag 2
      by (simp add: ber_get_next_def)
  qed
next
  case RwUsertag
  then show ?thesis using lenbyte_reads [OF assms(1)] assms(2,3) by (auto simp: awaiting_def ber_get_next_def)
next
  case (RwLen k)
  then show ?thesis using length_reads [OF assms(1)] assms(2,3) by (auto simp: awaiting_def ber_get_next_def get_lenbyte_def)
next
  case (RwBuf k)
  then show ?thesis using fill_rest [OF assms(1)] assms(2,3)
    by (auto simp: awaiting_def ber_get_next_def get_lenbyte_def get_length_octets_def)
qed

end

text \<open>A client that calls again as long as it gets \<open>LBER_DEFAULT\<close>, at most \<open>n\<close> times.\<close>

fun next_calls :: "bool \<Rightarrow> 's reader \<Rightarrow> allocator \<Rightarrow> u32 \<Rightarrow> nat \<Rightarrow> 's \<Rightarrow> berelement
    \<Rightarrow> (u32 \<times> u32 option \<times> berelement \<times> 's) option" where
  "next_calls schar sb_read alloc limit 0 s ber = None"
| "next_calls schar sb_read alloc limit (Suc n) s ber =
    (case ber_get_next schar sb_read alloc limit s ber of None \<Rightarrow> None
     | Some (tag, len, e, ber', s') \<Rightarrow>
        if tag = LBER_DEFAULT then next_calls schar sb_read alloc limit n s' ber'
        else Some (tag, len, ber', s'))"

context one_message
begin

lemma calls_receive:
  assumes "ok s" "awaiting schar ts c ber rem" "pending s = rem @ rest" "effort s < n"
  shows "\<exists>len ber' s'. next_calls schar sb_read alloc sb_max_incoming n s ber = Some (read_tag schar ts, len, ber', s')
    \<and> received schar ts c (read_tag schar ts) len ber' \<and> ok s' \<and> pending s' = rest"
  using assms
proof (induction n arbitrary: s ber rem)
  case (Suc n)
  obtain ret len e ber' s' where r: "ber_get_next schar sb_read alloc sb_max_incoming s ber = Some (ret, len, e, ber', s')"
      "good s (ret, len, e, ber', s')"
    using one_call [OF Suc.prems(1-3)] by (metis prod_cases5)
  show ?case
  proof (cases "ret = LBER_DEFAULT")
    case True
    then obtain rem' where "ok s'" "awaiting schar ts c ber' rem'" "pending s' = rem' @ rest" "effort s' < n"
      using r(2) Suc.prems(4) by (auto simp: outcome_def)
    then show ?thesis using Suc.IH r(1) True by simp
  next
    case False
    then show ?thesis using r by (auto simp: outcome_def received_def)
  qed
qed simp

end

section \<open>Socket buffers as readers\<close>

definition reader_of :: "'s layer_read \<Rightarrow> 's reader" where
  "reader_of read s n = (case read s n of None \<Rightarrow> (-1, [], s) | Some (ret, bs, eintr, s') \<Rightarrow> (ret, bs, s'))"

locale live_source = byte_source True read ok pending interrupts
  for read :: "'s layer_read" and ok pending interrupts

context live_source
begin

lemma reads_octets: "octet_reader (reader_of read) ok pending interrupts"
proof (unfold_locales, goal_cases)
  case (1 s n c bs s')
  obtain ret bs1 e s1 where "read s n = Some (ret, bs1, e, s1)" "delivers True ok pending interrupts n s (ret, bs1, e, s1)"
    using reads [OF 1(1)] by (metis prod_cases4)
  then show ?case using 1(2) by (auto simp: reader_of_def delivers_def split: if_splits)
qed

end

sublocale live_source \<subseteq> octet_reader "reader_of read" ok pending interrupts
  by (rule reads_octets)

interpretation script_reader: live_source "ber_int_sb_read script_os" "sockbuf_ok script_ok fd sh"
    "sockbuf_pending script_pending" "script_interrupts \<circ> snd" for fd sh
  by (simp add: live_source_def script_sockbuf.byte_source_axioms)

lemma socket_receives:
  assumes "os_delivers True os fd ok pending interrupts" "sockbuf_ok ok fd sh (sb, w)"
    and "tag_coded ts" "length_coded ls (length c)" "c \<noteq> []" "length c < 2 ^ 32"
    and "limit = 0 \<or> of_nat (length c) \<le> limit" "\<exists>block. alloc (length c) = Some block \<and> length block = length c"
    and "ber_rwptr ber = RwNull" "ber_buf ber = None" "sockbuf_pending pending (sb, w) = ts @ ls @ c @ rest"
    and "interrupts w + length (ts @ ls @ c @ rest) < n"
  obtains ber' st' where
    "next_calls schar (reader_of (ber_int_sb_read os)) alloc limit n (sb, w) ber
      = Some (read_tag schar ts, Some (of_nat (length c)), ber', st')"
    "received schar ts c (read_tag schar ts) (Some (of_nat (length c))) ber'"
    "sockbuf_ok ok fd sh st'" "sockbuf_pending pending st' = rest"
proof -
  have src: "live_source (ber_int_sb_read os) (sockbuf_ok ok fd sh) (sockbuf_pending pending) (interrupts \<circ> snd)"
    using sockbuf_source [OF assms(1)] by (simp add: live_source_def)
  then have rd: "octet_reader (reader_of (ber_int_sb_read os)) (sockbuf_ok ok fd sh) (sockbuf_pending pending) (interrupts \<circ> snd)"
    by (rule live_source.reads_octets)
  have msg: "one_message (reader_of (ber_int_sb_read os)) (sockbuf_ok ok fd sh) (sockbuf_pending pending) (interrupts \<circ> snd)
      alloc limit ts c"
    by (rule one_message.intro [OF rd]) (unfold_locales, use assms(3,5,6,7,8) in auto)
  have "awaiting schar ts c ber (ts @ ls @ c)" using assms(4,9,10) by (auto simp: awaiting_def)
  moreover have "octet_reader.effort (sockbuf_pending pending) (interrupts \<circ> snd) (sb, w) < n"
    using assms(11,12) by (simp add: octet_reader.effort_def [OF rd])
  ultimately show thesis
    using one_message.calls_receive [OF msg assms(2), of schar ber "ts @ ls @ c" rest n] assms(11) that
    by (auto simp: received_def)
qed

section \<open>Writers\<close>

declare flush_loop.simps [simp del]

text \<open>What writing octets may do to what has been sent; \<open>stalls\<close> bounds how often nothing is taken.\<close>

definition takes_prefix :: "('s \<Rightarrow> bool) \<Rightarrow> ('s \<Rightarrow> octets) \<Rightarrow> ('s \<Rightarrow> nat) \<Rightarrow> octets \<Rightarrow> 's \<Rightarrow> int \<Rightarrow> 's \<Rightarrow> bool" where
  "takes_prefix ok sent stalls bs s rc s' \<longleftrightarrow> ok s' \<and> stalls s' \<le> stalls s \<and>
    (if rc \<le> 0 then sent s' = sent s \<and> stalls s' < stalls s
     else rc \<le> int (length bs) \<and> sent s' = sent s @ take (nat rc) bs)"

locale octet_sink =
  fixes sb_write :: "'s \<Rightarrow> octets \<Rightarrow> int \<times> 's" and ok :: "'s \<Rightarrow> bool" and sent :: "'s \<Rightarrow> octets"
    and stalls :: "'s \<Rightarrow> nat"
  assumes sb_writes: "ok s \<Longrightarrow> bs \<noteq> [] \<Longrightarrow> sb_write s bs = (rc, s') \<Longrightarrow> takes_prefix ok sent stalls bs s rc s'"
begin

lemma flush_loop_sends:
  assumes "ok s" "bs \<noteq> []"
  shows "\<exists>rc n s'. flush_loop sb_write bs s off = Some (rc, off + n, s') \<and> n \<le> length bs \<and> ok s' \<and> stalls s' \<le> stalls s
    \<and> sent s' = sent s @ take n bs \<and> (if n = length bs then rc = 0 else rc = -1 \<and> stalls s' < stalls s)"
  using assms
proof (induction "length bs" arbitrary: bs s off rule: less_induct)
  case less
  obtain rc s1 where r: "sb_write s bs = (rc, s1)" by (cases "sb_write s bs")
  note t = sb_writes [OF less.prems r]
  consider "rc \<le> 0" | "0 < rc" "nat rc = length bs" | "0 < rc" "nat rc < length bs"
    using t by (fastforce simp: takes_prefix_def split: if_splits)
  then show ?case
  proof cases
    case 1
    then show ?thesis using r t less.prems(2) by (subst flush_loop.simps) (auto simp: takes_prefix_def)
  next
    case 2
    then show ?thesis using r t by (subst flush_loop.simps) (auto simp: takes_prefix_def)
  next
    case 3
    then have s1: "ok s1" "stalls s1 \<le> stalls s" "sent s1 = sent s @ take (nat rc) bs" using t by (auto simp: takes_prefix_def)
    have "length (drop (nat rc) bs) < length bs" "drop (nat rc) bs \<noteq> []" using 3 by auto
    then obtain rc' n s' where "flush_loop sb_write (drop (nat rc) bs) s1 (off + nat rc) = Some (rc', off + nat rc + n, s')"
        "n \<le> length bs - nat rc" "ok s'" "stalls s' \<le> stalls s1" "sent s' = sent s1 @ take n (drop (nat rc) bs)"
        "if n = length bs - nat rc then rc' = 0 else rc' = -1 \<and> stalls s' < stalls s1"
      using less.hyps [OF _ s1(1), of "drop (nat rc) bs" "off + nat rc"] by auto
    moreover have "flush_loop sb_write bs s off = flush_loop sb_write (drop (nat rc) bs) s1 (off + nat rc)"
      using 3 r by (subst flush_loop.simps) simp
    ultimately show ?thesis using 3 s1
      by (intro exI [of _ rc'] exI [of _ "nat rc + n"] exI [of _ s']) (auto simp: take_add split: if_splits)
  qed
qed

end

text \<open>What is left to flush, and a client that calls until all is written.\<close>

definition unflushed :: "berelement \<Rightarrow> octets option" where
  "unflushed ber =
    (case (case ber_rwptr ber of RwNull \<Rightarrow> Some 0 | RwBuf off \<Rightarrow> Some off | _ \<Rightarrow> None) of
       Some off \<Rightarrow> (if off \<le> ber_ptr ber \<and> ber_ptr ber \<le> length (ber_block ber)
         then Some (take (ber_ptr ber - off) (drop off (ber_block ber))) else None)
     | None \<Rightarrow> None)"

fun flush_calls :: "('s \<Rightarrow> octets \<Rightarrow> int \<times> 's) \<Rightarrow> nat \<Rightarrow> 's \<Rightarrow> berelement \<Rightarrow> 's option" where
  "flush_calls sb_write 0 s ber = None"
| "flush_calls sb_write (Suc n) s ber =
    (case ber_flush sb_write s ber False of
       Some (rc, Some ber', s') \<Rightarrow> (if rc = 0 then Some s' else flush_calls sb_write n s' ber')
     | _ \<Rightarrow> None)"

context octet_sink
begin

lemma flush_sends:
  assumes "ok s" "unflushed ber = Some bs" "bs \<noteq> []"
  shows "\<exists>rc n ber' s'. ber_flush sb_write s ber False = Some (rc, Some ber', s') \<and> ok s' \<and> stalls s' \<le> stalls s
    \<and> n \<le> length bs \<and> sent s' = sent s @ take n bs \<and> unflushed ber' = Some (drop n bs)
    \<and> (if n = length bs then rc = 0 else rc = -1 \<and> stalls s' < stalls s)"
proof -
  obtain off where off: "(case ber_rwptr ber of RwNull \<Rightarrow> Some 0 | RwBuf off \<Rightarrow> Some off | _ \<Rightarrow> None) = Some off"
      "off \<le> ber_ptr ber" "ber_ptr ber \<le> length (ber_block ber)" "bs = take (ber_ptr ber - off) (drop off (ber_block ber))"
    using assms(2) by (auto simp: unflushed_def split: option.splits if_splits)
  obtain rc n s' where l: "flush_loop sb_write bs s off = Some (rc, off + n, s')" "n \<le> length bs" "ok s'" "stalls s' \<le> stalls s"
      "sent s' = sent s @ take n bs" "if n = length bs then rc = 0 else rc = -1 \<and> stalls s' < stalls s"
    using flush_loop_sends [OF assms(1,3), of off] by blast
  have "ber_flush sb_write s ber False = Some (rc, Some (ber\<lparr>ber_rwptr := RwBuf (off + n)\<rparr>), s')"
    using l(1) off by (simp add: ber_flush_def)
  moreover have "unflushed (ber\<lparr>ber_rwptr := RwBuf (off + n)\<rparr>) = Some (drop n bs)"
    using off l(2) by (auto simp: unflushed_def ber_block_def drop_take add.commute)
  ultimately show ?thesis using l by blast
qed

lemma calls_send:
  assumes "ok s" "unflushed ber = Some bs" "bs \<noteq> []" "stalls s < n"
  shows "\<exists>s'. flush_calls sb_write n s ber = Some s' \<and> ok s' \<and> sent s' = sent s @ bs"
  using assms
proof (induction n arbitrary: s ber bs)
  case (Suc n)
  obtain rc k ber' s' where f: "ber_flush sb_write s ber False = Some (rc, Some ber', s')" "ok s'" "k \<le> length bs"
      "sent s' = sent s @ take k bs" "unflushed ber' = Some (drop k bs)"
      "if k = length bs then rc = 0 else rc = -1 \<and> stalls s' < stalls s"
    using flush_sends [OF Suc.prems(1-3)] by blast
  show ?case
  proof (cases "k = length bs")
    case True
    then show ?thesis using f by simp
  next
    case False
    then have "drop k bs \<noteq> []" "stalls s' < n" "rc = -1" using f(3,6) Suc.prems(4) by auto
    then obtain s'' where "flush_calls sb_write n s' ber' = Some s'' \<and> ok s'' \<and> sent s'' = sent s' @ drop k bs"
      using Suc.IH [OF f(2,5)] by blast
    then show ?thesis using f(1,4) \<open>rc = -1\<close> by simp
  qed
qed simp

end

section \<open>Socket buffers as writers\<close>

definition os_accepts :: "'w os \<Rightarrow> int \<Rightarrow> ('w \<Rightarrow> bool) \<Rightarrow> ('w \<Rightarrow> octets) \<Rightarrow> ('w \<Rightarrow> nat) \<Rightarrow> bool" where
  "os_accepts os fd ok sent stalls \<longleftrightarrow> (\<forall>w bs rc eintr w'. ok w \<longrightarrow> bs \<noteq> [] \<longrightarrow>
    os_write os fd bs w = (rc, eintr, w') \<longrightarrow> takes_prefix ok sent stalls bs w rc w')"

definition writer_of :: "'s layer_write \<Rightarrow> 's \<Rightarrow> octets \<Rightarrow> int \<times> 's" where
  "writer_of write s bs = (case write s bs of None \<Rightarrow> (-1, s) | Some (ret, eintr, s') \<Rightarrow> (ret, s'))"

lemma stack_writes:
  "stack_ok ds \<Longrightarrow> sbi_write os fd (length ds) (ds, w) bs = (let (ret, e, w') = os_write os fd bs w in Some (ret, e, ds, w'))"
proof (induction ds)
  case (Cons d ds)
  then show ?case
    by (cases "sbiod_io d") (auto simp: sb_stream_write_def sb_fd_write_def sb_rdahead_write_def sb_debug_write_def Let_def
        split: prod.splits)
qed simp

lemma retry_writes:
  assumes "os_accepts os fd ok sent stalls" "ok w" "bs \<noteq> []" "stack_ok ds"
  shows "\<exists>rc e w'. retry_write (\<lambda>s. sbi_write os fd (length ds) s bs) (ds, w) = Some (rc, e, ds, w')
    \<and> takes_prefix ok sent stalls bs w rc w'"
  using assms(2)
proof (induction "stalls w" arbitrary: w rule: less_induct)
  case less
  obtain rc e w1 where r: "os_write os fd bs w = (rc, e, w1)" by (metis prod_cases3)
  then have t: "takes_prefix ok sent stalls bs w rc w1" using assms(1,3) less.prems by (auto simp: os_accepts_def)
  have c: "sbi_write os fd (length ds) (ds, w) bs = Some (rc, e, ds, w1)" using stack_writes [OF assms(4), of os fd w bs] r by (simp only: Let_def prod.case)
  show ?case
  proof (cases "rc < 0 \<and> e")
    case True
    then have "stalls w1 < stalls w" "ok w1" "sent w1 = sent w" using t by (auto simp: takes_prefix_def)
    then show ?thesis using less.hyps [of w1] True c
      by (subst retry_write.simps) (fastforce simp: takes_prefix_def)
  next
    case False
    then have "retry_write (\<lambda>s. sbi_write os fd (length ds) s bs) (ds, w) = Some (rc, e, ds, w1)"
      using c by (subst retry_write.simps) auto
    then show ?thesis using t by blast
  qed
qed

lemma socket_sink:
  assumes "os_accepts os fd ok sent stalls"
  shows "octet_sink (writer_of (ber_int_sb_write os)) (\<lambda>(sb, w). sb_fd sb = fd \<and> stack_ok (sb_iod sb) \<and> ok w)
    (sent \<circ> snd) (stalls \<circ> snd)"
proof (unfold_locales, goal_cases)
  case (1 s bs rc s')
  obtain sb w where s: "s = (sb, w)" "sb_fd sb = fd" "stack_ok (sb_iod sb)" "ok w" using 1(1) by (cases s) auto
  obtain rc1 e w' where "retry_write (\<lambda>s. sbi_write os fd (length (sb_iod sb)) s bs) (sb_iod sb, w) = Some (rc1, e, sb_iod sb, w')"
      "takes_prefix ok sent stalls bs w rc1 w'"
    using retry_writes [OF assms s(4) 1(2) s(3)] by blast
  moreover have "sb_iod sb \<noteq> []" using s(3) by auto
  ultimately show ?case using 1(3) s by (auto simp: writer_of_def ber_int_sb_write_def takes_prefix_def)
qed

end
