(* ===== verification/Ber_Exchange.thy ===== *)
theory Ber_Exchange imports Ber_Transport Ber_Items begin

text \<open>
  Messages between two programs: what one encodes with \<open>ber_printf\<close> and writes with \<open>ber_flush\<close> through
  its socket buffer, the other receives with \<open>ber_get_next\<close> through its own and decodes with
  \<open>ber_scanf\<close>.
\<close>

section \<open>Headers on the wire\<close>

lemma short_length_coded:
  assumes "len \<le> (127 :: u32)"
  shows "length_coded [ucast len] (unat len)"
proof -
  have "unat len = unat (ucast (ucast len :: u8) :: u32)" using short_len_octet(2) [OF assms] by simp
  also have "\<dots> = unat (ucast len :: u8)" by (simp add: unsigned_ucast_eq unsigned_take_bit_eq)
  finally show ?thesis using short_len_octet(1) [OF assms] by (auto simp: length_coded_def)
qed

lemma long_length_coded:
  assumes "of_be (be_bytes i len) = len" "1 \<le> i" "i \<le> 4"
  shows "length_coded ((of_nat i OR 0x80) # be_bytes i len) (unat len)"
proof -
  have "i = 1 \<or> i = 2 \<or> i = 3 \<or> i = 4" using assms(2,3) by linarith
  then have "unat ((of_nat i OR 0x80 :: u8) AND 0x7f) = i" by (elim disjE) simp_all
  moreover have "length (be_bytes i len) = i" "be_bytes i len \<noteq> []" using assms(2) by (metis length_be_bytes list.size(3) not_one_le_zero)+
  ultimately show ?thesis using assms lenlen_octet(1) unfolding length_coded_def by metis
qed

lemma len_octets_coded: "length_coded (len_octets len) (unat len)"
proof (cases "len \<le> 127")
  case True
  then show ?thesis by (simp add: len_octets_def short_length_coded)
next
  case False
  then show ?thesis using long_length_coded by (metis len_octets_long)
qed

lemma tag_lengths: "ber_calc_taglen LBER_SEQUENCE = 1" "ber_calc_taglen LBER_SET = 1"
  by (simp_all add: ber_calc_taglen_def leading_octet_numeral LBER_SEQUENCE_def LBER_SET_def)

lemma header_coded:
  assumes "short_tag t" "tag_or LBER_SEQUENCE t = tag \<or> tag_or LBER_SET t = tag"
  obtains ls where "header der tag len = ucast tag # ls" "length_coded ls (unat len)"
    "(ucast (ucast tag :: u8) :: u32) AND LBER_BIG_TAG_MASK \<noteq> LBER_BIG_TAG_MASK"
proof -
  have v: "valid_tag tag" "ber_calc_taglen tag = 1"
    using assms valid_octetstring tag_lengths by (cases t; fastforce simp: short_tag_def tag_or_def)+
  then have "tag_octets tag = [ucast tag]" "\<not> big_tag (ucast tag)" by (simp_all add: valid_tag_def tag_octets_def)
  moreover have "length_coded (if der then len_octets len else 0x84 # be_bytes 4 len) (unat len)"
    using len_octets_coded [of len] long_length_coded [of 4 len] of_be_be_bytes_id [of 4 len]
    by (auto simp: drop_bit_less simp del: be_bytes_numeral)
  ultimately show thesis using that by (simp add: header_def big_tag_def)
qed

section \<open>Sending and receiving\<close>

lemma unflushed_written:
  assumes "writes (fresh options) bs b" "bs \<noteq> []"
  shows "unflushed b = Some bs"
proof -
  obtain R where "ber_buf b = Some (bs @ R)" "ber_ptr b = length bs" by (rule written_block [OF assms])
  moreover have "ber_rwptr b = RwNull"
    using assms by (auto simp: writes_def moved_def fresh_def ber_alloc_t_def)
  ultimately show ?thesis by (simp add: unflushed_def ber_block_def)
qed

lemma scanned_items:
  assumes "\<forall>n. memory n" "list_all item_ok xs" "readable b" "unread b = concat (map (encoded der) xs)"
  shows "\<exists>rc b'. ber_scanf memory b (concat (map item_scan xs)) (concat (map item_pointers xs))
    = Some (rc, concat (map item_outs xs), b') \<and> rc \<noteq> LBER_DEFAULT"
proof -
  have "scans memory (concat (map item_scan xs)) (concat (map item_pointers xs))
      (concat (map (encoded der) xs)) (concat (map item_outs xs))"
    by (rule scans_items) (use assms(1,2) in \<open>simp add: scans_item list_all_iff\<close>)
  moreover have "plain []" "(0 :: u32) \<noteq> LBER_DEFAULT" "unread b = concat (map (encoded der) xs) @ []"
    using assms(4) by (simp_all add: plain_def LBER_DEFAULT_def)
  ultimately obtain rc' tr where "rc' \<noteq> LBER_DEFAULT" "map (snd \<circ> snd) tr = concat (map item_outs xs)"
      "scanf_loop memory (concat (map item_scan xs) @ []) (concat (map item_pointers xs) @ []) 0 b []
        = scanf_loop memory [] [] rc' (advance (length (concat (map (encoded der) xs))) b) ([] @ tr)"
    using assms(3) unfolding scans_def by metis
  then show ?thesis by (auto simp: ber_scanf_def)
qed

text \<open>
  C8: an element with contents sent to a socket, in whatever portions the operating system delivers it and however
  often it is interrupted or has nothing yet, is received by calling \<open>ber_get_next\<close> again and again, however many octets
  its tag has: after at most as many calls as there are failures and octets to come the element
  holds the contents and nothing else, and what follows is still unread.  The tag that is returned is the one octet
  of a short tag, as a \<open>char\<close>; of a longer tag it is made of the first and the last octet alone (\<open>read_tag\<close>), because
  the further octets are all stored in one place.  Elements without contents are refused (\<open>ber_get_next_refuses_empty\<close>).
\<close>

theorem ber_get_next_receives:
  assumes "os_delivers True os fd ok pending interrupts" "sockbuf_ok ok fd sh (sb, w)"
    and "tag_coded ts" "length_coded ls (length c)" "c \<noteq> []" "length c < 2 ^ 32"
    and "sb_max_incoming sb = 0 \<or> of_nat (length c) \<le> sb_max_incoming sb"
    and "\<exists>block. alloc (length c) = Some block \<and> length block = length c"
    and "ber_rwptr ber = RwNull" "ber_buf ber = None" "sockbuf_pending pending (sb, w) = ts @ ls @ c @ rest"
    and "interrupts w + length (ts @ ls @ c @ rest) < n"
  shows "\<exists>ber' st'. next_calls schar (reader_of (ber_int_sb_read os)) alloc (sb_max_incoming sb) n (sb, w) ber
      = Some (read_tag schar ts, Some (of_nat (length c)), ber', st')
    \<and> ber_buf ber' = Some c \<and> ber_ptr ber' = 0 \<and> ber_end ber' = length c \<and> ber_rwptr ber' = RwNull
    \<and> sockbuf_pending pending st' = rest"
  by (rule socket_receives [where limit = "sb_max_incoming sb" and c = c and ts = ts and ls = ls and rest = rest and n = n and schar = schar and alloc = alloc and interrupts = interrupts and w = w and ber = ber and pending = pending and sb = sb, OF assms])
    (auto simp: received_def)

theorem ber_get_next_receives_witness:
  "\<exists>ber' st'. next_calls True (reader_of (ber_int_sb_read script_os)) (\<lambda>n. Some (replicate n 0)) 0 20
      (demo_sockbuf\<lparr>sb_iod := [\<lparr>sbiod_level = 10, sbiod_io = Io_readahead,
          sbiod_pvt = PvtBuf \<lparr>buf_size = 4, buf_ptr = 1, buf_end = 3, buf_base = Some [1, 0x7f, 0x81, 4]\<rparr>\<rparr>,
        \<lparr>sbiod_level = 10, sbiod_io = Io_tcp, sbiod_pvt = PvtNull\<rparr>]\<rparr>,
        [Failed, Interrupted, Delivered [5], Failed, Delivered [2, 8, 9, 10]], [], []) (fresh 0)
      = Some (0x2b, Some 2, ber', st')
    \<and> ber_buf ber' = Some [8, 9] \<and> sockbuf_pending script_pending st' = [10]"
proof -
  let ?w = "([Failed, Interrupted, Delivered [5], Failed, Delivered [2, 8, 9, 10]], [], []) :: script"
  let ?sb = "demo_sockbuf\<lparr>sb_iod := [\<lparr>sbiod_level = 10, sbiod_io = Io_readahead,
          sbiod_pvt = PvtBuf \<lparr>buf_size = 4, buf_ptr = 1, buf_end = 3, buf_base = Some [1, 0x7f, 0x81, 4]\<rparr>\<rparr>,
        \<lparr>sbiod_level = 10, sbiod_io = Io_tcp, sbiod_pvt = PvtNull\<rparr>]\<rparr>"
  have 1: "sockbuf_ok script_ok 5 [(10, Io_readahead), (10, Io_tcp)] (?sb, ?w)"
    by (simp add: sockbuf_ok_def reads_shape_def demo_sockbuf_def shape_def buf_ok_def buf_block_def script_ok_def)
  have 2: "sockbuf_pending script_pending (?sb, ?w) = [0x7f, 0x81, 5] @ [2] @ [8, 9] @ [10]"
    by (simp add: sockbuf_pending_def stack_pending_def demo_sockbuf_def script_pending_def buffered_def buf_block_def)
  have 3: "length_coded [2] (length [8, 9 :: u8])"
    unfolding length_coded_def by (intro disjI1 exI [of _ "2 :: u8"]) simp
  have 4: "tag_coded [0x7f, 0x81, 5]" by (simp add: tag_coded_def further_def LBER_BIG_TAG_MASK_def LBER_MORE_TAG_MASK_def)
  have 5: "ber_rwptr (fresh 0) = RwNull" "ber_buf (fresh 0) = None" "sb_max_incoming ?sb = 0"
    by (simp_all add: fresh_def ber_alloc_t_def demo_sockbuf_def)
  have 6: "script_interrupts ?w + length ([0x7f, 0x81, 5] @ [2] @ [8, 9] @ [10 :: u8]) < 20" by (simp add: script_interrupts_def)
  have 7: "read_tag True [0x7f, 0x81, 5] = 0x2b" by code_simp
  show ?thesis
    using ber_get_next_receives [OF script_delivers 1 4 3 _ _ _ _ 5(1,2) 2 6, of "\<lambda>n. Some (replicate n 0)" True] 5(3) 7
    by auto
qed

text \<open>
  An element without contents is refused after its header was read, and the write pointer stays where the length is
  expected: the next call takes the octet behind the element for a length.
\<close>

lemma ber_get_next_refuses_empty:
  "ber_get_next schar (\<lambda>s n. (int (length (take n s)), take n s, drop n s)) alloc limit (0x42 # 0 # s) (fresh 0)
    = Some (LBER_DEFAULT, None, Some ERANGE, fresh 0\<lparr>ber_tag := 0x42, ber_len := 0, ber_rwptr := RwUsertag\<rparr>, s)"
proof -
  have "char_value schar 0x42 = 0x42" by (simp add: char_value_def)
  then show ?thesis
    by (simp add: ber_get_next_def get_lenbyte_def fill_buffer_def next_fail_def fresh_def ber_alloc_t_def set_octet_def
        LBER_BIG_TAG_MASK_def Let_def)
qed

text \<open>The message a client sends for a tree of values, as both sides see it.\<close>

lemma encoded_message:
  assumes "item_ok (ISeq t xs)"
  obtains ls where "encoded der (ISeq t xs) = ucast (tag_or LBER_SEQUENCE t) # ls @ concat (map (encoded der) xs)"
    "length (concat (map (encoded der) xs)) < 2 ^ 32 \<longrightarrow> length_coded ls (length (concat (map (encoded der) xs)))"
    "tag_coded [ucast (tag_or LBER_SEQUENCE t) :: u8]"
proof -
  let ?c = "concat (map (encoded der) xs)" and ?tag = "tag_or LBER_SEQUENCE t"
  have "short_tag t" using assms by simp
  then obtain ls where ls: "header der ?tag (of_nat (length ?c)) = ucast ?tag # ls"
      "length_coded ls (unat (of_nat (length ?c) :: u32))"
      "(ucast (ucast ?tag :: u8) :: u32) AND LBER_BIG_TAG_MASK \<noteq> LBER_BIG_TAG_MASK"
    by (rule header_coded [of t ?tag der "of_nat (length ?c)"]) simp
  moreover have "length_coded ls (length ?c)" if "length ?c < 2 ^ 32" using that ls(2) by (simp add: unat_of_nat)
  ultimately show thesis using that [of ls] by (simp add: constructed_def tag_coded_def)
qed

text \<open>The receiving side of an exchange.\<close>

lemma message_received:
  assumes "always_allocates alloc" "\<forall>m. memory m" "item_ok (ISeq t xs)" "xs \<noteq> []"
    and "length (encoded der (ISeq t xs)) \<le> write_limit"
    and "os_delivers True os fd ok pending interrupts" "sockbuf_ok ok fd sh (sb, w)" "sb_max_incoming sb = 0"
    and "ber_rwptr ber = RwNull" "ber_buf ber = None"
    and "sockbuf_pending pending (sb, w) = encoded der (ISeq t xs) @ rest"
    and "interrupts w + length (encoded der (ISeq t xs) @ rest) < n"
  shows "\<exists>tag len ber' st' rc b'. next_calls schar (reader_of (ber_int_sb_read os)) alloc 0 n (sb, w) ber = Some (tag, len, ber', st')
    \<and> ber_scanf memory ber' (concat (map item_scan xs)) (concat (map item_pointers xs)) = Some (rc, concat (map item_outs xs), b')
    \<and> rc \<noteq> LBER_DEFAULT \<and> sockbuf_pending pending st' = rest"
proof -
  let ?c = "concat (map (encoded der) xs)" and ?t = "ucast (tag_or LBER_SEQUENCE t) :: u8"
  obtain ls where ls: "encoded der (ISeq t xs) = ?t # ls @ ?c" "length ?c < 2 ^ 32 \<longrightarrow> length_coded ls (length ?c)"
      "tag_coded [?t]"
    by (rule encoded_message [OF assms(3), where der = der])
  have c: "?c \<noteq> []" using assms(4) encoded_not_Nil by (cases xs) auto
  have lim: "length ?c \<le> write_limit" using assms(5) unfolding ls(1) by simp
  then have len: "length ?c < 2 ^ 32" by (simp add: write_limit_def)
  have al: "\<exists>block. alloc (length ?c) = Some block \<and> length block = length ?c"
    using assms(1) lim by (auto simp: always_allocates_def)
  obtain ber' st' where r: "next_calls schar (reader_of (ber_int_sb_read os)) alloc (sb_max_incoming sb) n (sb, w) ber
        = Some (read_tag schar [?t], Some (of_nat (length ?c)), ber', st')"
      "received schar [?t] ?c (read_tag schar [?t]) (Some (of_nat (length ?c))) ber'" "sockbuf_pending pending st' = rest"
  proof (rule socket_receives [where limit = "sb_max_incoming sb" and c = ?c and ts = "[?t]" and ls = ls
          and rest = rest and n = n and schar = schar and alloc = alloc and interrupts = interrupts and w = w and ber = ber
          and pending = pending and sb = sb, OF assms(6,7) ls(3) ls(2) [rule_format, OF len] c len _ al assms(9,10)])
    show "sockbuf_pending pending (sb, w) = [?t] @ ls @ ?c @ rest" "interrupts w + length ([?t] @ ls @ ?c @ rest) < n"
      using assms(11,12) unfolding ls(1) by simp_all
  qed (simp_all add: assms(8))
  have "readable ber'" "unread ber' = ?c"
    using r(2) len by (simp_all add: received_def readable_def unread_def ber_block_def)
  moreover have "list_all item_ok xs" using assms(3) by simp
  ultimately show ?thesis using scanned_items [OF assms(2), of xs ber' der] r(1,3) assms(8) by metis
qed

text \<open>
  C4: a sequence of values that one program writes with \<open>ber_printf\<close> and sends with \<open>ber_flush\<close> through its
  socket, called again as long as not all is written, and that another one receives over its own socket
  with \<open>ber_get_next\<close>, called again as long as the element is not complete, is read back by \<open>ber_scanf\<close> as
  the same values, whatever portions the two operating systems write and deliver.
\<close>

theorem ber_message_exchange:
  assumes "always_allocates alloc" "\<forall>m. memory m" "item_ok (ISeq t xs)" "xs \<noteq> []" "depth (ISeq t xs) \<le> 113"
    and "length (encoded False (ISeq t xs)) \<le> write_limit"
    and "os_accepts os1 fd1 ok1 sent stalls" "sb_fd sb1 = fd1" "stack_ok (sb_iod sb1)" "ok1 w1" "sent w1 = []" "stalls w1 < n1"
    and "os_delivers True os2 fd2 ok2 pending interrupts" "sb_max_incoming sb2 = 0"
  shows "\<exists>rc b sb1' w1'. ber_printf alloc (fresh options) (item_format (ISeq t xs)) (item_args (ISeq t xs)) = Some (rc, b)
    \<and> flush_calls (writer_of (ber_int_sb_write os1)) n1 (sb1, w1) b = Some (sb1', w1')
    \<and> sent w1' = encoded (options AND LBER_USE_DER \<noteq> 0) (ISeq t xs)
    \<and> (\<forall>sh w2 rest n2. sockbuf_ok ok2 fd2 sh (sb2, w2) \<longrightarrow> sockbuf_pending pending (sb2, w2) = sent w1' @ rest \<longrightarrow>
      interrupts w2 + length (sent w1' @ rest) < n2 \<longrightarrow>
      (\<exists>tag len ber st' rc b'. next_calls schar (reader_of (ber_int_sb_read os2)) alloc 0 n2 (sb2, w2) (fresh 0) = Some (tag, len, ber, st')
        \<and> ber_scanf memory ber (concat (map item_scan xs)) (concat (map item_pointers xs)) = Some (rc, concat (map item_outs xs), b')
        \<and> rc \<noteq> LBER_DEFAULT \<and> sockbuf_pending pending st' = rest))"
proof -
  let ?x = "ISeq t xs" and ?der = "options AND LBER_USE_DER \<noteq> 0"
  obtain rc b where b: "ber_printf alloc (fresh options) (item_format ?x) (item_args ?x) = Some (rc, b)"
      "writes (fresh options) (encoded ?der ?x) b"
    by (rule printed [OF assms(1,3,5,6)])
  have "\<exists>st1. flush_calls (writer_of (ber_int_sb_write os1)) n1 (sb1, w1) b = Some st1
      \<and> (case st1 of (sb, w) \<Rightarrow> sb_fd sb = fd1 \<and> stack_ok (sb_iod sb) \<and> ok1 w)
      \<and> (sent \<circ> snd) st1 = (sent \<circ> snd) (sb1, w1) @ encoded ?der ?x"
    by (rule octet_sink.calls_send [OF socket_sink [OF assms(7)] _ unflushed_written [OF b(2) encoded_not_Nil] encoded_not_Nil])
      (use assms(8-12) in simp_all)
  then obtain sb1' w1' where f: "flush_calls (writer_of (ber_int_sb_write os1)) n1 (sb1, w1) b = Some (sb1', w1')"
      "sent w1' = encoded ?der ?x"
    using assms(11) by (auto simp del: encoded.simps)
  have "ber_rwptr (fresh 0) = RwNull" "ber_buf (fresh 0) = None" by (simp_all add: fresh_def ber_alloc_t_def)
  then show ?thesis
    using b(1) f message_received [OF assms(1,2,3,4) encoded_limit [OF assms(6)] assms(13) _ assms(14), of _ _ "fresh 0"]
    by (fastforce simp del: encoded.simps item_format.simps item_args.simps)
qed

lemma script_accepts: "os_accepts script_os fd (\<lambda>_. True) (snd \<circ> snd) (length \<circ> fst \<circ> snd)"
proof -
  have "takes_prefix (\<lambda>_. True) (snd \<circ> snd) (length \<circ> fst \<circ> snd) bs w rc w'"
    if "bs \<noteq> []" "script_write fd bs w = (rc, e, w')" for bs w rc e w'
    using that by (induction fd bs w rule: script_write.induct) (auto simp: takes_prefix_def min_def nat_add_distrib split: if_splits)
  then show ?thesis by (auto simp: os_accepts_def script_os_def)
qed

interpretation script_sink: octet_sink "writer_of (ber_int_sb_write script_os)"
    "\<lambda>(sb, w). sb_fd sb = fd \<and> stack_ok (sb_iod sb) \<and> True" "(snd \<circ> snd) \<circ> snd" "(length \<circ> fst \<circ> snd) \<circ> snd" for fd
  by (rule socket_sink [OF script_accepts])

interpretation script_message: one_message "reader_of (ber_int_sb_read script_os)" "sockbuf_ok script_ok fd sh"
    "sockbuf_pending script_pending" "script_interrupts \<circ> snd" schar "\<lambda>n. Some (replicate n 0)" 0 "[2]" "[7, 8, 9]" rest
  for fd sh schar rest
  by unfold_locales (simp_all add: tag_coded_def LBER_BIG_TAG_MASK_def)

theorem ber_message_exchange_witness:
  "\<exists>rc b sb1 w1 tag len ber st rc' b'.
    ber_printf ready_alloc (fresh LBER_USE_DER) ''{ito}'' [PInt 7, PTag 0x80, PStr [0x61, 0x62], PLen 2] = Some (rc, b)
    \<and> flush_calls (writer_of (ber_int_sb_write script_os)) 5 (demo_sockbuf, [], [3, 0, 2, 0], []) b = Some (sb1, w1)
    \<and> next_calls True (reader_of (ber_int_sb_read script_os)) ready_alloc 0 20
        (demo_sockbuf\<lparr>sb_iod := [\<lparr>sbiod_level = 10, sbiod_io = Io_tcp, sbiod_pvt = PvtNull\<rparr>]\<rparr>,
         [Interrupted, Delivered [0x30, 0x07, 0x02], Failed, Delivered [0x01, 0x07, 0x80, 0x02, 0x61, 0x62, 0x30]], [], [])
        (fresh 0) = Some (tag, len, ber, st)
    \<and> ber_scanf ready ber ''iO'' [SPtr, SPtr] = Some (rc', [OInt (Some 7), OBerval (Some (Some [0x61, 0x62, 0], 2))], b')
    \<and> sockbuf_pending script_pending st = [0x30]"
proof -
  let ?xs = "[IInt None 7, IString (Some 0x80) [0x61, 0x62]]"
  let ?sb2 = "demo_sockbuf\<lparr>sb_iod := [\<lparr>sbiod_level = 10, sbiod_io = Io_tcp, sbiod_pvt = PvtNull\<rparr>]\<rparr>"
  let ?w2 = "([Interrupted, Delivered [0x30, 0x07, 0x02], Failed, Delivered [0x01, 0x07, 0x80, 0x02, 0x61, 0x62, 0x30]], [], []) :: script"
  have enc: "encoded True (ISeq None ?xs) = [0x30, 0x07, 0x02, 0x01, 0x07, 0x80, 0x02, 0x61, 0x62]"
      "encoded False (ISeq None ?xs) = [0x30, 0x84, 0, 0, 0, 0x07, 0x02, 0x01, 0x07, 0x80, 0x02, 0x61, 0x62]"
    by code_simp+
  have io: "item_format (ISeq None ?xs) = ''{ito}''" "item_args (ISeq None ?xs) = [PInt 7, PTag 0x80, PStr [0x61, 0x62], PLen 2]"
      "concat (map item_scan ?xs) = ''iO''" "concat (map item_pointers ?xs) = [SPtr, SPtr]"
      "concat (map item_outs ?xs) = [OInt (Some 7), OBerval (Some (Some [0x61, 0x62, 0], 2))]"
    by (simp_all add: with_tag_def tag_arg_def berval_of_def)
  have ok: "item_ok (ISeq None ?xs)"
    by (simp add: tag_ok_def short_tag_def valid_tag_def tag_octets_def ber_calc_taglen_def leading_octet_numeral big_tag_def LBER_BIG_TAG_MASK_def)
  have sb: "stack_ok (sb_iod demo_sockbuf)" "sb_fd demo_sockbuf = 5" "sb_max_incoming ?sb2 = 0"
    by (simp_all add: demo_sockbuf_def buf_ok_def buf_block_def)
  have sb2: "sockbuf_ok script_ok 5 [(10, Io_tcp)] (?sb2, ?w2)"
    by (simp add: sockbuf_ok_def reads_shape_def demo_sockbuf_def shape_def script_ok_def)
  have p2: "sockbuf_pending script_pending (?sb2, ?w2) = encoded True (ISeq None ?xs) @ [0x30]"
      "script_interrupts ?w2 + length (encoded True (ISeq None ?xs) @ [0x30]) < 20"
    unfolding enc by (simp_all add: sockbuf_pending_def stack_pending_def script_pending_def script_interrupts_def)
  have der: "(LBER_USE_DER AND LBER_USE_DER \<noteq> 0) = True" by (simp add: LBER_USE_DER_def)
  obtain rc b sb1 w1 where m: "ber_printf ready_alloc (fresh LBER_USE_DER) (item_format (ISeq None ?xs)) (item_args (ISeq None ?xs)) = Some (rc, b)"
      "flush_calls (writer_of (ber_int_sb_write script_os)) 5 (demo_sockbuf, [], [3, 0, 2, 0], []) b = Some (sb1, w1)"
      "(snd \<circ> snd) w1 = encoded True (ISeq None ?xs)"
      "\<forall>sh w2 rest n2. sockbuf_ok script_ok 5 sh (?sb2, w2) \<longrightarrow> sockbuf_pending script_pending (?sb2, w2) = (snd \<circ> snd) w1 @ rest \<longrightarrow>
        script_interrupts w2 + length ((snd \<circ> snd) w1 @ rest) < n2 \<longrightarrow>
        (\<exists>tag len ber st' rc b'. next_calls True (reader_of (ber_int_sb_read script_os)) ready_alloc 0 n2 (?sb2, w2) (fresh 0) = Some (tag, len, ber, st')
        \<and> ber_scanf ready ber (concat (map item_scan ?xs)) (concat (map item_pointers ?xs)) = Some (rc, concat (map item_outs ?xs), b')
        \<and> rc \<noteq> LBER_DEFAULT \<and> sockbuf_pending script_pending st' = rest)"
    using ber_message_exchange [OF ready_alloc _ ok _ _ _ script_accepts sb(2,1) _ _ _ script_delivers sb(3),
        of ready "([], [3, 0, 2, 0], [])" 5 LBER_USE_DER 5 True] unfolding der enc(2)
    by (fastforce simp: write_limit_def simp del: item_format.simps item_args.simps encoded.simps)
  obtain tag len ber st' rc' b' where
      "next_calls True (reader_of (ber_int_sb_read script_os)) ready_alloc 0 20 (?sb2, ?w2) (fresh 0) = Some (tag, len, ber, st')"
      "ber_scanf ready ber (concat (map item_scan ?xs)) (concat (map item_pointers ?xs)) = Some (rc', concat (map item_outs ?xs), b')"
      "sockbuf_pending script_pending st' = [0x30]"
    using m(4) [rule_format, OF sb2, of "[0x30]" 20] p2 unfolding m(3) by blast
  then show ?thesis using m(1,2) unfolding io by blast
qed

text \<open>
  C12: \<open>ber_flush\<close>, called again as long as it cannot write everything, sends exactly the octets that were
  written into the element, once and in order, with at most one call more than the system refuses.
\<close>

theorem ber_flush_sends_once:
  assumes "os_accepts os fd ok sent stalls" "sb_fd sb = fd" "stack_ok (sb_iod sb)" "ok w" "stalls w < n"
    and "ber_rwptr ber = RwNull" "0 < ber_ptr ber" "ber_ptr ber \<le> length (ber_block ber)"
  shows "\<exists>sb' w'. flush_calls (writer_of (ber_int_sb_write os)) n (sb, w) ber = Some (sb', w')
    \<and> sent w' = sent w @ take (ber_ptr ber) (ber_block ber)"
proof -
  have "unflushed ber = Some (take (ber_ptr ber) (ber_block ber))" "take (ber_ptr ber) (ber_block ber) \<noteq> []"
    using assms(6-8) by (auto simp: unflushed_def)
  then show ?thesis
    using octet_sink.calls_send [OF socket_sink [OF assms(1)], of "(sb, w)" ber _ n] assms(2-5) by fastforce
qed

theorem ber_flush_sends_once_witness:
  "\<exists>sb' w'. flush_calls (writer_of (ber_int_sb_write script_os)) 4 (demo_sockbuf, [], [2, 0, 1], [])
      (fresh 0\<lparr>ber_buf := Some [1, 2, 3, 4, 5], ber_ptr := 4, ber_end := 5\<rparr>) = Some (sb', w') \<and> snd (snd w') = [1, 2, 3, 4]"
proof -
  let ?ber = "fresh 0\<lparr>ber_buf := Some [1, 2, 3, 4, 5], ber_ptr := 4, ber_end := 5\<rparr>"
  have "ber_rwptr ?ber = RwNull" "0 < ber_ptr ?ber" "ber_ptr ?ber \<le> length (ber_block ?ber)"
    "take (ber_ptr ?ber) (ber_block ?ber) = [1, 2, 3, 4]"
    by (simp_all add: fresh_def ber_alloc_t_def ber_block_def)
  moreover have "sb_fd demo_sockbuf = 5" "stack_ok (sb_iod demo_sockbuf)"
    by (simp_all add: demo_sockbuf_def buf_ok_def buf_block_def)
  ultimately show ?thesis
    using ber_flush_sends_once [OF script_accepts, of demo_sockbuf 5 "([], [2, 0, 1], [])" 4 ?ber] by simp
qed

end
