(* ===== verification/Utf8.thy ===== *)
theory Utf8 imports C_Strings begin

text \<open>
  The UTF-8 routines of libraries/libldap/utf-8.c.  A C string is the list of its octets without the
  terminating null; a pointer into it is the list of the octets from there on, so that the null is the
  empty list.  \<open>ldap_ucs4_t\<close> is a signed 32-bit integer.
\<close>

definition UCS4_INVALID :: u32 where "UCS4_INVALID = 0x80000000"

section \<open>Characters\<close>

definition LDAP_UTF8_ISASCII :: "u8 \<Rightarrow> bool" where
  "LDAP_UTF8_ISASCII c \<longleftrightarrow> c < 0x80"

definition continuation :: "u8 \<Rightarrow> bool" where
  "continuation u \<longleftrightarrow> u AND 0xc0 = 0x80"

definition first_octet :: "octets \<Rightarrow> u8" where
  "first_octet p = (case p of [] \<Rightarrow> 0 | c # _ \<Rightarrow> c)"

definition ldap_utf8_charlen :: "octets \<Rightarrow> nat" where
  "ldap_utf8_charlen p =
    (let c = first_octet p in
     if c AND 0xfe = 0xfc then 6
     else if c AND 0xfc = 0xf8 then 5
     else if c AND 0xf8 = 0xf0 then 4
     else if c AND 0xf0 = 0xe0 then 3
     else if c AND 0xe0 = 0xc0 then 2
     else if c AND 0x80 = 0x80 then 0
     else 1)"

definition LDAP_UTF8_CHARLEN :: "octets \<Rightarrow> nat" where
  "LDAP_UTF8_CHARLEN p = (if LDAP_UTF8_ISASCII (first_octet p) then 1 else ldap_utf8_charlen p)"

definition charlen_mask :: "nat \<Rightarrow> u8" where
  "charlen_mask len = [0, 0x7f, 0x1f, 0x0f, 0x07, 0x03, 0x01] ! len"

text \<open>The \<open>n\<close> octets behind the first one; the terminating null is not a continuation.\<close>

fun ucs4_rest :: "nat \<Rightarrow> octets \<Rightarrow> u32 \<Rightarrow> u32" where
  "ucs4_rest 0 c ch = ch"
| "ucs4_rest (Suc n) [] ch = UCS4_INVALID"
| "ucs4_rest (Suc n) (c # cs) ch =
    (if c AND 0xc0 \<noteq> 0x80 then UCS4_INVALID
     else ucs4_rest n cs (push_bit 6 ch OR ucast (c AND 0x3f)))"

definition ldap_utf8_to_ucs4 :: "octets \<Rightarrow> u32" where
  "ldap_utf8_to_ucs4 p =
    (let len = LDAP_UTF8_CHARLEN p in
     if len = 0 then UCS4_INVALID
     else ucs4_rest (len - 1) (tl p) (ucast (first_octet p AND charlen_mask len)))"

definition ldap_ucs4_to_utf8 :: "u32 \<Rightarrow> octets" where
  "ldap_ucs4_to_utf8 c =
    (let low = (\<lambda>n. 0x80 OR ucast (drop_bit n c AND 0x3f)) in
     if sint c < 0 then []
     else if c < 0x80 then [ucast c]
     else if c < 0x800 then [0xc0 OR ucast (drop_bit 6 c), low 0]
     else if c < 0x10000 then [0xe0 OR ucast (drop_bit 12 c), low 6, low 0]
     else if c < 0x200000 then [0xf0 OR ucast (drop_bit 18 c), low 12, low 6, low 0]
     else if c < 0x4000000 then [0xf8 OR ucast (drop_bit 24 c), low 18, low 12, low 6, low 0]
     else [0xfc OR ucast (drop_bit 30 c), low 24, low 18, low 12, low 6, low 0])"

text \<open>How many of the first \<open>n\<close> octets are continuations, up to the first that is not.\<close>

fun continuations :: "nat \<Rightarrow> octets \<Rightarrow> nat" where
  "continuations 0 u = 0"
| "continuations (Suc n) [] = 0"
| "continuations (Suc n) (c # cs) = (if c AND 0xc0 \<noteq> 0x80 then 0 else Suc (continuations n cs))"

text \<open>
  \<open>ldap_utf8_next\<close> as the number of octets it advances; from the terminating null it goes one beyond,
  and its callers test for the null first.
\<close>

definition ldap_utf8_next :: "octets \<Rightarrow> nat" where
  "ldap_utf8_next p =
    (if LDAP_UTF8_ISASCII (first_octet p) then 1 else Suc (continuations 5 (tl p)))"

definition LDAP_UTF8_NEXT :: "octets \<Rightarrow> octets" where
  "LDAP_UTF8_NEXT p = (if LDAP_UTF8_ISASCII (first_octet p) then drop 1 p else drop (ldap_utf8_next p) p)"

definition ldap_utf8_offset :: "octets \<Rightarrow> nat" where
  "ldap_utf8_offset p = (if LDAP_UTF8_ISASCII (first_octet p) then 1 else ldap_utf8_next p)"

text \<open>
  \<open>ldap_utf8_prev\<close> looks at the octets in front of the pointer, the nearest first; in front of the
  string there is nothing to read.
\<close>

fun prev_steps :: "nat \<Rightarrow> octets \<Rightarrow> nat option" where
  "prev_steps 0 before = Some 1"
| "prev_steps (Suc n) [] = None"
| "prev_steps (Suc n) (u # us) = (if u AND 0xc0 \<noteq> 0x80 then Some 1 else map_option Suc (prev_steps n us))"

definition ldap_utf8_prev :: "octets \<Rightarrow> nat option" where
  "ldap_utf8_prev before = prev_steps 5 before"

definition ldap_utf8_copy :: "octets \<Rightarrow> nat \<times> octets" where
  "ldap_utf8_copy src =
    (if LDAP_UTF8_ISASCII (first_octet src) then (1, [first_octet src])
     else let i = Suc (continuations 5 (tl src)) in (i, take i src))"

section \<open>Classes of characters\<close>

definition ldap_utf8_isascii :: "octets \<Rightarrow> bool" where
  "ldap_utf8_isascii p \<longleftrightarrow> first_octet p < 0x80"

definition ldap_utf8_isdigit :: "octets \<Rightarrow> bool" where
  "ldap_utf8_isdigit p \<longleftrightarrow> (let c = first_octet p in c < 0x80 \<and> c \<ge> 0x30 \<and> c \<le> 0x39)"

definition ldap_utf8_isxdigit :: "octets \<Rightarrow> bool" where
  "ldap_utf8_isxdigit p \<longleftrightarrow> (let c = first_octet p in c < 0x80
    \<and> (c \<ge> 0x30 \<and> c \<le> 0x39 \<or> c \<ge> 0x41 \<and> c \<le> 0x46 \<or> c \<ge> 0x61 \<and> c \<le> 0x66))"

definition ldap_utf8_isspace :: "octets \<Rightarrow> bool" where
  "ldap_utf8_isspace p \<longleftrightarrow> (let c = first_octet p in c < 0x80 \<and> c \<in> {0x20, 0x09, 0x0a, 0x0d, 0x0b, 0x0c})"

definition ldap_utf8_isalpha :: "octets \<Rightarrow> bool" where
  "ldap_utf8_isalpha p \<longleftrightarrow> (let c = first_octet p in c < 0x80 \<and> (c \<ge> 0x41 \<and> c \<le> 0x5a \<or> c \<ge> 0x61 \<and> c \<le> 0x7a))"

definition ldap_utf8_isalnum :: "octets \<Rightarrow> bool" where
  "ldap_utf8_isalnum p \<longleftrightarrow> (let c = first_octet p in c < 0x80
    \<and> (c \<ge> 0x30 \<and> c \<le> 0x39 \<or> c \<ge> 0x41 \<and> c \<le> 0x5a \<or> c \<ge> 0x61 \<and> c \<le> 0x7a))"

definition ldap_utf8_islower :: "octets \<Rightarrow> bool" where
  "ldap_utf8_islower p \<longleftrightarrow> (let c = first_octet p in c < 0x80 \<and> c \<ge> 0x61 \<and> c \<le> 0x7a)"

definition ldap_utf8_isupper :: "octets \<Rightarrow> bool" where
  "ldap_utf8_isupper p \<longleftrightarrow> (let c = first_octet p in c < 0x80 \<and> c \<ge> 0x41 \<and> c \<le> 0x5a)"

section \<open>Strings\<close>

lemma utf8_next_shorter [simp]: "p \<noteq> [] \<Longrightarrow> length (LDAP_UTF8_NEXT p) < length p"
  by (simp add: LDAP_UTF8_NEXT_def ldap_utf8_next_def)

definition ldap_utf8_bytes :: "octets \<Rightarrow> nat" where
  "ldap_utf8_bytes p = length p"

function ldap_utf8_chars :: "octets \<Rightarrow> nat" where
  "ldap_utf8_chars p = (if p = [] then 0 else Suc (ldap_utf8_chars (LDAP_UTF8_NEXT p)))"
  by pat_completeness auto
termination by (relation "measure length") auto

declare ldap_utf8_chars.simps [simp del]

text \<open>The search for the character at \<open>chr\<close>; the result points to it in \<open>str\<close>.\<close>

function ldap_utf8_strchr :: "octets \<Rightarrow> octets \<Rightarrow> octets option" where
  "ldap_utf8_strchr str chr =
    (if str = [] then None
     else if ldap_utf8_to_ucs4 str = ldap_utf8_to_ucs4 chr then Some str
     else ldap_utf8_strchr (LDAP_UTF8_NEXT str) chr)"
  by pat_completeness auto
termination by (relation "measure (\<lambda>(str, chr). length str)") auto

declare ldap_utf8_strchr.simps [simp del]

text \<open>The inner loop of the spanning functions: is the character at \<open>cstr\<close> in \<open>cset\<close>?\<close>

function in_cset :: "octets \<Rightarrow> octets \<Rightarrow> bool" where
  "in_cset cstr cset =
    (if cset = [] then False
     else if ldap_utf8_to_ucs4 cstr = ldap_utf8_to_ucs4 cset then True
     else in_cset cstr (LDAP_UTF8_NEXT cset))"
  by pat_completeness auto
termination by (relation "measure (\<lambda>(cstr, cset). length cset)") auto

declare in_cset.simps [simp del]

text \<open>Both functions below return the rest from where they stop; the value is the octets in front of it.\<close>

function cspn_rest :: "octets \<Rightarrow> octets \<Rightarrow> octets" where
  "cspn_rest cstr cset =
    (if cstr = [] then [] else if in_cset cstr cset then cstr else cspn_rest (LDAP_UTF8_NEXT cstr) cset)"
  by pat_completeness auto
termination by (relation "measure (\<lambda>(cstr, cset). length cstr)") auto

function spn_rest :: "octets \<Rightarrow> octets \<Rightarrow> octets" where
  "spn_rest cstr cset =
    (if cstr = [] then [] else if in_cset cstr cset then spn_rest (LDAP_UTF8_NEXT cstr) cset else cstr)"
  by pat_completeness auto
termination by (relation "measure (\<lambda>(cstr, cset). length cstr)") auto

declare cspn_rest.simps [simp del] spn_rest.simps [simp del]

definition ldap_utf8_strcspn :: "octets \<Rightarrow> octets \<Rightarrow> nat" where
  "ldap_utf8_strcspn str cset = length str - length (cspn_rest str cset)"

definition ldap_utf8_strspn :: "octets \<Rightarrow> octets \<Rightarrow> nat" where
  "ldap_utf8_strspn str cset = length str - length (spn_rest str cset)"

definition ldap_utf8_strpbrk :: "octets \<Rightarrow> octets \<Rightarrow> octets option" where
  "ldap_utf8_strpbrk str cset = (case cspn_rest str cset of [] \<Rightarrow> None | p \<Rightarrow> Some p)"

text \<open>
  \<open>ldap_utf8_strtok\<close> on the string it starts from: the token (cut off by a null), if there is one, and
  where \<open>*last\<close> points.
\<close>

definition ldap_utf8_strtok :: "octets \<Rightarrow> octets \<Rightarrow> octets option \<times> octets option" where
  "ldap_utf8_strtok str sep =
    (let begin' = drop (ldap_utf8_strspn str sep) str in
     if begin' = [] then (None, None)
     else let n = ldap_utf8_strcspn begin' sep; e = drop n begin'
          in (Some (take n begin'), Some (if e \<noteq> [] then LDAP_UTF8_NEXT e else e)))"

end
