(* ===== verification/Utf8_Facts.thy ===== *)
theory Utf8_Facts imports Utf8 begin

text \<open>
  Facts of the UTF-8 routines: a code point encoded and decoded is the same, an encoded character is
  skipped as a whole, and the spanning and tokenising functions cut a string without losing octets.
\<close>

section \<open>Encoding and decoding\<close>

text \<open>The continuation octets of \<open>c\<close>: six bits each, \<open>n\<close> of them.\<close>

fun continuation_octets :: "nat \<Rightarrow> u32 \<Rightarrow> octets" where
  "continuation_octets 0 c = []"
| "continuation_octets (Suc n) c = (0x80 OR ucast (drop_bit (6 * n) c AND 0x3f)) # continuation_octets n c"

lemma continuation_octets_numeral [simp]:
  "continuation_octets 1 c = [0x80 OR ucast (drop_bit 0 c AND 0x3f)]"
  "continuation_octets (numeral k) c = (0x80 OR ucast (drop_bit (6 * pred_numeral k) c AND 0x3f)) # continuation_octets (pred_numeral k) c"
  by (simp_all add: numeral_eq_Suc)

lemma bit_octet_consts [simp]:
  "bit (0x80 :: u8) n \<longleftrightarrow> n = 7" "bit (0xc0 :: u8) n \<longleftrightarrow> n = 6 \<or> n = 7" "bit (0x3f :: u8) n \<longleftrightarrow> n < 6"
  "bit (0x3f :: u32) n \<longleftrightarrow> n < 6"
proof -
  have "(0x80 :: u8) = push_bit 7 1" by simp
  then show "bit (0x80 :: u8) n \<longleftrightarrow> n = 7" by (simp only: bit_push_bit_iff bit_1_iff) auto
  have "(0xc0 :: u8) = push_bit 6 (mask 2)" by (simp add: mask_eq_exp_minus_1)
  then show "bit (0xc0 :: u8) n \<longleftrightarrow> n = 6 \<or> n = 7" by (simp only: bit_push_bit_iff bit_mask_iff) auto
  have "(0x3f :: u8) = mask 6" "(0x3f :: u32) = mask 6" by (simp_all add: mask_eq_exp_minus_1)
  then show "bit (0x3f :: u8) n \<longleftrightarrow> n < 6" "bit (0x3f :: u32) n \<longleftrightarrow> n < 6" by (simp_all only: bit_mask_iff) auto
qed

lemma continuation_octet:
  fixes d :: u32
  defines "b \<equiv> (0x80 OR ucast (d AND 0x3f) :: u8)"
  shows "b AND 0xc0 = 0x80" "ucast (b AND 0x3f) = take_bit 6 d"
  unfolding b_def by (rule bit_word_eqI, auto simp: bit_simps simp del: bit_numeral_word_iff)+

lemma six_bits: "push_bit 6 (drop_bit (k + 6) c) OR take_bit 6 (drop_bit k c) = drop_bit k c" for c :: u32
  by (rule bit_word_eqI) (auto simp: bit_simps)

lemma ucs4_rest_continuations:
  "ucs4_rest n (continuation_octets n c @ rest) (drop_bit (6 * n) c) = c"
proof (induction n)
  case (Suc n)
  have "push_bit 6 (drop_bit (6 * Suc n) c) OR take_bit 6 (drop_bit (6 * n) c) = drop_bit (6 * n) c"
    using six_bits [of "6 * n" c] by (simp add: add.commute)
  then show ?case using Suc by (simp add: continuation_octet)
qed simp

text \<open>A first octet with the prefix \<open>p\<close> announces \<open>n\<close> more octets and carries its low bits.\<close>

definition lead_ok :: "u8 \<Rightarrow> nat \<Rightarrow> u8 \<Rightarrow> bool" where
  "lead_ok p n x \<longleftrightarrow> \<not> LDAP_UTF8_ISASCII (p OR x) \<and> \<not> continuation (p OR x)
    \<and> ldap_utf8_charlen [p OR x] = Suc n \<and> (p OR x) AND charlen_mask (Suc n) = x"

lemma leads_ok:
  "list_all (lead_ok 0xc0 1) (map of_nat [0..<32])" "list_all (lead_ok 0xe0 2) (map of_nat [0..<16])"
  "list_all (lead_ok 0xf0 3) (map of_nat [0..<8])" "list_all (lead_ok 0xf8 4) (map of_nat [0..<4])"
  "list_all (lead_ok 0xfc 5) (map of_nat [0..<2])"
  by code_simp+

lemma charlen_first: "ldap_utf8_charlen (c # cs) = ldap_utf8_charlen [c]"
  by (simp add: ldap_utf8_charlen_def first_octet_def)

lemma encoded_multi:
  assumes "list_all (lead_ok p n) (map of_nat [0..<m])" "unat (drop_bit (6 * n) c) < m" "m \<le> 256"
  shows "ldap_utf8_to_ucs4 ((p OR ucast (drop_bit (6 * n) c)) # continuation_octets n c @ rest) = c"
    and "\<not> LDAP_UTF8_ISASCII (p OR ucast (drop_bit (6 * n) c))" "\<not> continuation (p OR ucast (drop_bit (6 * n) c))"
proof -
  let ?d = "drop_bit (6 * n) c"
  have u: "unat (ucast ?d :: u8) = unat ?d"
    using assms(2,3) by (simp add: unsigned_ucast_eq unsigned_take_bit_eq take_bit_nat_eq_self)
  then have "(ucast ?d :: u8) = of_nat (unat ?d)" by (metis of_nat_unat_id)
  then have l: "lead_ok p n (ucast ?d)" using assms(1,2) by (force simp: list_all_iff)
  have "(ucast (ucast ?d :: u8) :: u32) = ?d"
    using u by (metis of_nat_unat ucast_id)
  then show "ldap_utf8_to_ucs4 ((p OR ucast ?d) # continuation_octets n c @ rest) = c"
    using l ucs4_rest_continuations [of n c rest]
    by (simp add: ldap_utf8_to_ucs4_def LDAP_UTF8_CHARLEN_def lead_ok_def charlen_first [of _ "_ @ _"] first_octet_def Let_def)
  show "\<not> LDAP_UTF8_ISASCII (p OR ucast ?d)" "\<not> continuation (p OR ucast ?d)" using l by (simp_all add: lead_ok_def)
qed

text \<open>What \<open>ldap_ucs4_to_utf8\<close> writes: an ASCII octet, or a first octet with its continuations.\<close>

lemma ucs4_to_utf8_cases:
  assumes "0 \<le> sint c"
  obtains "unat c < 0x80" "ldap_ucs4_to_utf8 c = [ucast c]"
  | n p m where "n \<le> 5" "ldap_ucs4_to_utf8 c = (p OR ucast (drop_bit (6 * n) c)) # continuation_octets n c"
      "list_all (lead_ok p n) (map of_nat [0..<m])" "unat (drop_bit (6 * n) c) < m" "m \<le> 256"
proof -
  have lt: "unat c < 2 ^ 31" "\<not> sint c < 0" using assms nonneg_word [of c] by linarith+
  have u: "c < 0x80 \<longleftrightarrow> unat c < 0x80" "c < 0x800 \<longleftrightarrow> unat c < 0x800" "c < 0x10000 \<longleftrightarrow> unat c < 0x10000"
    "c < 0x200000 \<longleftrightarrow> unat c < 0x200000" "c < 0x4000000 \<longleftrightarrow> unat c < 0x4000000"
    by (simp_all add: word_less_nat_alt)
  have d: "unat (drop_bit k c) < m" if "unat c < m * 2 ^ k" for k m
    unfolding unat_drop_bit_eq unfolding drop_bit_eq_div using that by (simp add: div_less_iff_less_mult)
  note octets = ldap_ucs4_to_utf8_def Let_def u lt(2)
  consider "unat c < 0x80" | "0x80 \<le> unat c" "unat c < 0x800" | "0x800 \<le> unat c" "unat c < 0x10000"
    | "0x10000 \<le> unat c" "unat c < 0x200000" | "0x200000 \<le> unat c" "unat c < 0x4000000" | "0x4000000 \<le> unat c"
    by linarith
  then show thesis
  proof cases
    case 1
    then show thesis using that(1) lt(2) u by (simp add: ldap_ucs4_to_utf8_def)
  next
    case 2
    show thesis by (rule that(2) [OF _ _ leads_ok(1)]) (use 2 d [of 32 6] in \<open>simp_all add: octets\<close>)
  next
    case 3
    show thesis by (rule that(2) [OF _ _ leads_ok(2)]) (use 3 d [of 16 12] in \<open>simp_all add: octets\<close>)
  next
    case 4
    show thesis by (rule that(2) [OF _ _ leads_ok(3)]) (use 4 d [of 8 18] in \<open>simp_all add: octets\<close>)
  next
    case 5
    show thesis by (rule that(2) [OF _ _ leads_ok(4)]) (use 5 d [of 4 24] in \<open>simp_all add: octets\<close>)
  next
    case 6
    show thesis by (rule that(2) [OF _ _ leads_ok(5)]) (use 6 lt d [of 2 30] in \<open>simp_all add: octets\<close>)
  qed
qed

lemma continuations_octets:
  "n \<le> k \<Longrightarrow> continuations k (continuation_octets n c @ rest) = n + continuations (k - n) rest"
proof (induction n arbitrary: k)
  case (Suc n)
  then obtain k' where "k = Suc k'" by (cases k) auto
  then show ?case using Suc by (simp add: continuation_octet)
qed simp

lemma length_continuation_octets [simp]: "length (continuation_octets n c) = n"
  by (induction n) simp_all

definition starts_character :: "octets \<Rightarrow> bool" where
  "starts_character rest \<longleftrightarrow> (\<forall>c cs. rest = c # cs \<longrightarrow> \<not> continuation c)"

lemma continuations_start: "starts_character rest \<Longrightarrow> continuations k rest = 0"
  by (cases k; cases rest) (simp_all add: starts_character_def continuation_def)

lemma ascii_octets:
  "list_all (\<lambda>x :: u8. x < 0x80 \<and> x AND 0x7f = x \<and> \<not> continuation x) (map of_nat [0..<128])"
  by code_simp

text \<open>An encoded code point followed by the start of another character is decoded, skipped and copied as a whole.\<close>

lemma encoded_character:
  assumes "0 < sint c" "starts_character rest"
  shows "ldap_utf8_to_ucs4 (ldap_ucs4_to_utf8 c @ rest) = c"
    and "LDAP_UTF8_NEXT (ldap_ucs4_to_utf8 c @ rest) = rest"
    and "ldap_utf8_copy (ldap_ucs4_to_utf8 c @ rest) = (length (ldap_ucs4_to_utf8 c), ldap_ucs4_to_utf8 c)"
    and "ldap_ucs4_to_utf8 c \<noteq> []" "starts_character (ldap_ucs4_to_utf8 c)"
proof -
  have "ldap_utf8_to_ucs4 (ldap_ucs4_to_utf8 c @ rest) = c \<and> LDAP_UTF8_NEXT (ldap_ucs4_to_utf8 c @ rest) = rest
    \<and> ldap_utf8_copy (ldap_ucs4_to_utf8 c @ rest) = (length (ldap_ucs4_to_utf8 c), ldap_ucs4_to_utf8 c)
    \<and> ldap_ucs4_to_utf8 c \<noteq> [] \<and> starts_character (ldap_ucs4_to_utf8 c)"
    using order.strict_implies_order [OF assms(1)]
  proof (cases rule: ucs4_to_utf8_cases)
    case 1
    then have l: "c \<le> 127" by (simp add: word_le_nat_alt)
    have "(ucast c :: u8) < 0x80" "(ucast c :: u8) AND 0x7f = ucast c" "(ucast (ucast c :: u8) :: u32) = c" "\<not> continuation (ucast c)"
      using ascii_octets short_len_octet(2) [OF l] 1 by (auto simp: list_all_iff dest!: bspec [of _ _ "unat c"])
    then show ?thesis using 1
      by (simp add: ldap_utf8_to_ucs4_def LDAP_UTF8_CHARLEN_def LDAP_UTF8_ISASCII_def first_octet_def charlen_mask_def
          LDAP_UTF8_NEXT_def ldap_utf8_copy_def starts_character_def)
  next
    case (2 n p m)
    let ?l = "p OR ucast (drop_bit (6 * n) c)"
    note e = encoded_multi [OF 2(3-5)]
    have "continuations 5 (continuation_octets n c @ rest) = n"
      using continuations_octets [OF 2(1)] continuations_start [OF assms(2)] by simp
    then show ?thesis using e 2(2)
      by (simp add: LDAP_UTF8_NEXT_def ldap_utf8_next_def ldap_utf8_copy_def first_octet_def starts_character_def)
  qed
  then show "ldap_utf8_to_ucs4 (ldap_ucs4_to_utf8 c @ rest) = c"
    "LDAP_UTF8_NEXT (ldap_ucs4_to_utf8 c @ rest) = rest"
    "ldap_utf8_copy (ldap_ucs4_to_utf8 c @ rest) = (length (ldap_ucs4_to_utf8 c), ldap_ucs4_to_utf8 c)"
    "ldap_ucs4_to_utf8 c \<noteq> []" "starts_character (ldap_ucs4_to_utf8 c)"
    by blast+
qed

section \<open>Strings of characters\<close>

definition utf8_string :: "u32 list \<Rightarrow> octets" where
  "utf8_string cs = concat (map ldap_ucs4_to_utf8 cs)"

lemma utf8_string_simps [simp]:
  "utf8_string [] = []" "utf8_string (c # cs) = ldap_ucs4_to_utf8 c @ utf8_string cs"
  by (simp_all add: utf8_string_def)

lemma utf8_string_starts: "list_all (\<lambda>c. 0 < sint c) cs \<Longrightarrow> starts_character (utf8_string cs)"
proof (cases cs)
  case (Cons c cs')
  assume "list_all (\<lambda>c. 0 < sint c) cs"
  then have "starts_character (ldap_ucs4_to_utf8 c)" "ldap_ucs4_to_utf8 c \<noteq> []"
    using encoded_character(4,5) [of c "[]"] Cons by (simp_all add: starts_character_def)
  then show ?thesis using Cons by (cases "ldap_ucs4_to_utf8 c") (auto simp: starts_character_def)
qed (simp add: starts_character_def)

lemma utf8_string_step:
  assumes "0 < sint c" "list_all (\<lambda>c. 0 < sint c) cs"
  shows "ldap_utf8_to_ucs4 (utf8_string (c # cs)) = c" "LDAP_UTF8_NEXT (utf8_string (c # cs)) = utf8_string cs"
    "utf8_string (c # cs) \<noteq> []"
  using encoded_character [OF assms(1) utf8_string_starts [OF assms(2)]] by simp_all

lemma strchr_utf8_string:
  assumes "list_all (\<lambda>c. 0 < sint c) cs" "list_all (\<lambda>c. 0 < sint c) (d # ds)"
  shows "ldap_utf8_strchr (utf8_string cs) (utf8_string (d # ds))
    = (if d \<in> set cs then Some (utf8_string (dropWhile (\<lambda>c. c \<noteq> d) cs)) else None)"
  using assms(1)
proof (induction cs)
  case Nil
  then show ?case by (simp add: ldap_utf8_strchr.simps)
next
  case (Cons c cs)
  then have c: "0 < sint c" "list_all (\<lambda>c. 0 < sint c) cs" by simp_all
  have d: "ldap_utf8_to_ucs4 (utf8_string (d # ds)) = d" using assms(2) utf8_string_step(1) by simp
  show ?case
    using Cons.IH [OF c(2)] utf8_string_step [OF c] d
    by (subst ldap_utf8_strchr.simps) (auto simp del: utf8_string_simps)
qed

lemma chars_utf8_string: "list_all (\<lambda>c. 0 < sint c) cs \<Longrightarrow> ldap_utf8_chars (utf8_string cs) = length cs"
proof (induction cs)
  case (Cons c cs)
  then show ?case using utf8_string_step [of c cs]
    by (subst ldap_utf8_chars.simps) (auto simp del: utf8_string_simps)
qed (simp add: ldap_utf8_chars.simps)

lemma in_cset_utf8_string:
  assumes "list_all (\<lambda>c. 0 < sint c) (c # cs)" "list_all (\<lambda>c. 0 < sint c) ds"
  shows "in_cset (utf8_string (c # cs)) (utf8_string ds) = (c \<in> set ds)"
  using assms(2)
proof (induction ds)
  case (Cons d ds)
  have "ldap_utf8_to_ucs4 (utf8_string (c # cs)) = c" using assms(1) utf8_string_step(1) by simp
  then show ?case
    using Cons utf8_string_step [of d ds]
    by (subst in_cset.simps) (auto simp del: utf8_string_simps)
qed (simp add: in_cset.simps)

lemma spans_utf8_string:
  assumes "list_all (\<lambda>c. 0 < sint c) cs" "list_all (\<lambda>c. 0 < sint c) ds"
  shows "cspn_rest (utf8_string cs) (utf8_string ds) = utf8_string (dropWhile (\<lambda>c. c \<notin> set ds) cs)"
    and "spn_rest (utf8_string cs) (utf8_string ds) = utf8_string (dropWhile (\<lambda>c. c \<in> set ds) cs)"
proof -
  have "cspn_rest (utf8_string cs) (utf8_string ds) = utf8_string (dropWhile (\<lambda>c. c \<notin> set ds) cs)
    \<and> spn_rest (utf8_string cs) (utf8_string ds) = utf8_string (dropWhile (\<lambda>c. c \<in> set ds) cs)"
    using assms(1)
  proof (induction cs)
    case Nil
    then show ?case by (simp add: cspn_rest.simps spn_rest.simps)
  next
    case (Cons c cs)
    have c: "0 < sint c" "list_all (\<lambda>c. 0 < sint c) cs" using Cons.prems by simp_all
    show ?case
      using Cons.IH [OF c(2)] utf8_string_step [OF c] in_cset_utf8_string [OF Cons.prems assms(2)]
      by (subst cspn_rest.simps, subst spn_rest.simps) (simp del: utf8_string_simps)
  qed
  then show "cspn_rest (utf8_string cs) (utf8_string ds) = utf8_string (dropWhile (\<lambda>c. c \<notin> set ds) cs)"
    "spn_rest (utf8_string cs) (utf8_string ds) = utf8_string (dropWhile (\<lambda>c. c \<in> set ds) cs)" by blast+
qed

lemma utf8_string_span:
  "length (utf8_string cs) - length (utf8_string (dropWhile P cs)) = length (utf8_string (takeWhile P cs))"
proof -
  have "utf8_string (xs @ ys) = utf8_string xs @ utf8_string ys" for xs ys by (simp add: utf8_string_def)
  from this [of "takeWhile P cs" "dropWhile P cs"] show ?thesis by simp
qed

lemma strpbrk_utf8_string:
  assumes "list_all (\<lambda>c. 0 < sint c) cs" "list_all (\<lambda>c. 0 < sint c) ds"
  shows "ldap_utf8_strpbrk (utf8_string cs) (utf8_string ds)
    = (if set cs \<inter> set ds = {} then None else Some (utf8_string (dropWhile (\<lambda>c. c \<notin> set ds) cs)))"
proof (cases "dropWhile (\<lambda>c. c \<notin> set ds) cs")
  case Nil
  then have "set cs \<inter> set ds = {}" by (auto simp: dropWhile_eq_Nil_conv)
  then show ?thesis unfolding ldap_utf8_strpbrk_def spans_utf8_string [OF assms] Nil by simp
next
  case (Cons c cs')
  then have "c \<in> set ds" "c \<in> set cs" using hd_dropWhile [of "\<lambda>c. c \<notin> set ds" cs] set_dropWhileD [of c _ cs] by (metis list.distinct(1) list.sel(1) list.set_intros(1))+
  then have "set cs \<inter> set ds \<noteq> {}" "utf8_string (c # cs') \<noteq> []"
    using assms(1) utf8_string_step(3) [of c "[]"] by (auto simp: list_all_iff)
  then show ?thesis
    unfolding ldap_utf8_strpbrk_def spans_utf8_string [OF assms] Cons by (simp split: list.split del: utf8_string_simps)
qed

text \<open>
  C38: encoding a positive code point and decoding it gives the code point back, whatever character
  follows; the encoded character is stepped over and copied as a whole, in as many octets as its first
  one announces.
\<close>

theorem utf8_character_round_trip:
  assumes "0 < sint c" "list_all (\<lambda>c. 0 < sint c) cs"
  shows "ldap_utf8_to_ucs4 (ldap_ucs4_to_utf8 c @ utf8_string cs) = c
    \<and> LDAP_UTF8_NEXT (ldap_ucs4_to_utf8 c @ utf8_string cs) = utf8_string cs
    \<and> ldap_utf8_copy (ldap_ucs4_to_utf8 c @ utf8_string cs) = (length (ldap_ucs4_to_utf8 c), ldap_ucs4_to_utf8 c)"
  using encoded_character [OF assms(1) utf8_string_starts [OF assms(2)]] by blast

theorem utf8_character_round_trip_witness:
  "ldap_utf8_to_ucs4 [0xe2, 0x82, 0xac, 0xc3, 0xa9] = 0x20ac"
proof -
  have "list_all (\<lambda>c :: u32. 0 < sint c) [0xe9]" "ldap_ucs4_to_utf8 0x20ac @ utf8_string [0xe9] = [0xe2, 0x82, 0xac, 0xc3, 0xa9]"
    by (simp_all add: ldap_ucs4_to_utf8_def)
  then show ?thesis using utf8_character_round_trip [where c = "0x20ac" and cs = "[0xe9]"] by simp
qed

text \<open>
  C39: on strings of encoded code points the character functions are those on the list of code points:
  \<open>ldap_utf8_chars\<close> counts them, \<open>ldap_utf8_strchr\<close> finds the first one equal to the character it
  is asked for, or none; \<open>ldap_utf8_strspn\<close> and \<open>ldap_utf8_strcspn\<close> give the number of octets of the
  characters in front that are, or are not, in the set, and \<open>ldap_utf8_strpbrk\<close> the string from the first one
  that is in the set, or none.
\<close>

theorem utf8_strings_are_character_lists:
  assumes "list_all (\<lambda>c. 0 < sint c) cs" "list_all (\<lambda>c. 0 < sint c) (d # ds)" "list_all (\<lambda>c. 0 < sint c) es"
  shows "ldap_utf8_chars (utf8_string cs) = length cs
    \<and> ldap_utf8_strchr (utf8_string cs) (utf8_string (d # ds))
      = (if d \<in> set cs then Some (utf8_string (dropWhile (\<lambda>c. c \<noteq> d) cs)) else None)
    \<and> ldap_utf8_strspn (utf8_string cs) (utf8_string es) = length (utf8_string (takeWhile (\<lambda>c. c \<in> set es) cs))
    \<and> ldap_utf8_strcspn (utf8_string cs) (utf8_string es) = length (utf8_string (takeWhile (\<lambda>c. c \<notin> set es) cs))
    \<and> ldap_utf8_strpbrk (utf8_string cs) (utf8_string es)
      = (if set cs \<inter> set es = {} then None else Some (utf8_string (dropWhile (\<lambda>c. c \<notin> set es) cs)))"
  unfolding ldap_utf8_strspn_def ldap_utf8_strcspn_def spans_utf8_string [OF assms(1,3)] utf8_string_span
  using strchr_utf8_string [OF assms(1,2)] chars_utf8_string [OF assms(1)] strpbrk_utf8_string [OF assms(1,3)] by blast

theorem utf8_strings_are_character_lists_witness:
  "ldap_utf8_strchr [0x61, 0xc3, 0xa9, 0x62] [0xc3, 0xa9] = Some [0xc3, 0xa9, 0x62]
    \<and> ldap_utf8_strspn [0x61, 0xc3, 0xa9, 0x62] [0xc3, 0xa9, 0x61] = 3
    \<and> ldap_utf8_strcspn [0x61, 0xc3, 0xa9, 0x62] [0xc3, 0xa9, 0x61] = 0
    \<and> ldap_utf8_strpbrk [0x61, 0xc3, 0xa9, 0x62] [0xc3, 0xa9, 0x61] = Some [0x61, 0xc3, 0xa9, 0x62]"
proof -
  have "list_all (\<lambda>c :: u32. 0 < sint c) [0x61, 0xe9, 0x62]" "list_all (\<lambda>c :: u32. 0 < sint c) [0xe9]"
    "list_all (\<lambda>c :: u32. 0 < sint c) [0xe9, 0x61]"
    "utf8_string [0x61, 0xe9, 0x62] = [0x61, 0xc3, 0xa9, 0x62]" "utf8_string [0xe9] = [0xc3, 0xa9]"
    "utf8_string [0xe9, 0x62] = [0xc3, 0xa9, 0x62]" "utf8_string [0xe9, 0x61] = [0xc3, 0xa9, 0x61]"
    "utf8_string [0x61, 0xe9] = [0x61, 0xc3, 0xa9]"
    by (simp_all add: ldap_ucs4_to_utf8_def)
  then show ?thesis
    using utf8_strings_are_character_lists [where cs = "[0x61, 0xe9, 0x62]" and d = "0xe9" and ds = "[]" and es = "[0xe9, 0x61]"]
    by simp
qed

end
