(* ===== verification/Charray.thy ===== *)
theory Charray imports Utf8_Facts begin

text \<open>
  The null-terminated arrays of strings of libraries/libldap/charray.c.  An array is the list of its
  strings, the null pointer is \<open>None\<close>.  \<open>mem n\<close> says whether \<open>n\<close> octets can be had; pointers have
  four octets.  An outer \<open>None\<close> is a store outside an allocated array.
\<close>

definition LDAP_STRDUP :: "(nat \<Rightarrow> bool) \<Rightarrow> octets \<Rightarrow> octets option" where
  "LDAP_STRDUP mem s = (if mem (length s + 1) then Some s else None)"

text \<open>Copying string after string; the copies made are released when one fails.\<close>

fun dup_strings :: "(nat \<Rightarrow> bool) \<Rightarrow> octets list \<Rightarrow> octets list option" where
  "dup_strings mem [] = Some []"
| "dup_strings mem (s # ss) =
    (case LDAP_STRDUP mem s of None \<Rightarrow> None | Some t \<Rightarrow> map_option ((#) t) (dup_strings mem ss))"

definition ldap_charray_add :: "(nat \<Rightarrow> bool) \<Rightarrow> octets list option \<Rightarrow> octets \<Rightarrow> int \<times> octets list option" where
  "ldap_charray_add mem a s =
    (case (case a of None \<Rightarrow> if mem (2 * 4) then Some [] else None
           | Some xs \<Rightarrow> if mem ((length xs + 2) * 4) then Some xs else None) of
       None \<Rightarrow> (-1, a)
     | Some xs \<Rightarrow>
        (case LDAP_STRDUP mem s of None \<Rightarrow> (1, Some xs) | Some t \<Rightarrow> (0, Some (xs @ [t]))))"

definition ldap_charray_merge :: "(nat \<Rightarrow> bool) \<Rightarrow> octets list option \<Rightarrow> octets list
    \<Rightarrow> int \<times> octets list option" where
  "ldap_charray_merge mem a s =
    (let xs = (case a of None \<Rightarrow> [] | Some xs \<Rightarrow> xs) in
     if \<not> mem ((length xs + length s + 1) * 4) then (-1, a)
     else case dup_strings mem s of None \<Rightarrow> (-1, Some xs) | Some ts \<Rightarrow> (0, Some (xs @ ts)))"

definition ldap_charray_inlist :: "octets list \<Rightarrow> octets \<Rightarrow> bool" where
  "ldap_charray_inlist a s \<longleftrightarrow> list_ex (\<lambda>x. strcasecmp s x = 0) a"

definition ldap_charray_dup :: "(nat \<Rightarrow> bool) \<Rightarrow> octets list \<Rightarrow> octets list option" where
  "ldap_charray_dup mem a = (if mem ((length a + 1) * 4) then dup_strings mem a else None)"

section \<open>Splitting and joining\<close>

text \<open>The number of octets of \<open>str\<close> at which a character of \<open>brkstr\<close> is found.\<close>

fun count_breaks :: "octets \<Rightarrow> octets \<Rightarrow> nat" where
  "count_breaks brkstr [] = 0"
| "count_breaks brkstr (c # cs) =
    (if ldap_utf8_strchr brkstr (c # cs) \<noteq> None then Suc (count_breaks brkstr cs) else count_breaks brkstr cs)"

lemma utf8_next_drop: "\<exists>pre. str = pre @ LDAP_UTF8_NEXT str"
  unfolding LDAP_UTF8_NEXT_def by (metis append_take_drop_id)

lemma utf8_next_pre: "\<exists>pre. LDAP_UTF8_NEXT str = pre @ rest \<Longrightarrow> \<exists>pre. str = pre @ rest"
  using utf8_next_drop [of str] by (metis append.assoc)

lemma spn_rest_suffix: "\<exists>pre. str = pre @ spn_rest str cset"
proof (induction str cset rule: spn_rest.induct)
  case (1 cstr cset)
  have eq: "spn_rest cstr cset = (if cstr = [] then [] else if in_cset cstr cset then spn_rest (LDAP_UTF8_NEXT cstr) cset else cstr)"
    by (subst spn_rest.simps) simp
  show ?case unfolding eq using 1 utf8_next_pre [of cstr] by auto
qed

lemma cspn_rest_suffix: "\<exists>pre. str = pre @ cspn_rest str cset"
proof (induction str cset rule: cspn_rest.induct)
  case (1 cstr cset)
  have eq: "cspn_rest cstr cset = (if cstr = [] then [] else if in_cset cstr cset then cstr else cspn_rest (LDAP_UTF8_NEXT cstr) cset)"
    by (subst cspn_rest.simps) simp
  show ?case unfolding eq using 1 utf8_next_pre [of cstr] by auto
qed

lemma drop_strspn: "drop (ldap_utf8_strspn str cset) str = spn_rest str cset"
proof -
  obtain pre where "str = pre @ spn_rest str cset" using spn_rest_suffix by blast
  then have "length str - length (spn_rest str cset) = length pre" "drop (length pre) str = spn_rest str cset"
    by (metis add_diff_cancel_right' length_append, metis append_eq_conv_conj)
  then show ?thesis by (simp add: ldap_utf8_strspn_def)
qed

lemma drop_strcspn: "drop (ldap_utf8_strcspn str cset) str = cspn_rest str cset"
proof -
  obtain pre where "str = pre @ cspn_rest str cset" using cspn_rest_suffix by blast
  then have "length str - length (cspn_rest str cset) = length pre" "drop (length pre) str = cspn_rest str cset"
    by (metis add_diff_cancel_right' length_append, metis append_eq_conv_conj)
  then show ?thesis by (simp add: ldap_utf8_strcspn_def)
qed

lemma spn_rest_stops: "spn_rest str cset = [] \<or> \<not> in_cset (spn_rest str cset) cset"
proof (induction str cset rule: spn_rest.induct)
  case (1 cstr cset)
  have "spn_rest cstr cset = (if cstr = [] then [] else if in_cset cstr cset then spn_rest (LDAP_UTF8_NEXT cstr) cset else cstr)"
    by (subst spn_rest.simps) simp
  then show ?case using 1 by (cases "cstr = []"; cases "in_cset cstr cset") simp_all
qed

lemma cspn_rest_shorter:
  assumes "\<not> in_cset str cset" "str \<noteq> []"
  shows "length (cspn_rest str cset) < length str"
proof -
  have "cspn_rest str cset = cspn_rest (LDAP_UTF8_NEXT str) cset" using assms by (subst cspn_rest.simps) simp
  moreover have "length (cspn_rest (LDAP_UTF8_NEXT str) cset) \<le> length (LDAP_UTF8_NEXT str)"
    using cspn_rest_suffix by (metis le_add2 length_append)
  ultimately show ?thesis using utf8_next_shorter [OF assms(2)] by simp
qed

text \<open>\<open>ldap_utf8_strtok\<close> by the two spanning functions.\<close>

lemma strtok_eq:
  "ldap_utf8_strtok str sep = (let b = spn_rest str sep; e = cspn_rest b sep in
    if b = [] then (None, None)
    else (Some (take (length b - length e) b), Some (if e \<noteq> [] then LDAP_UTF8_NEXT e else [])))"
  unfolding ldap_utf8_strtok_def drop_strspn Let_def drop_strcspn by (simp add: ldap_utf8_strcspn_def)

lemma strtok_shorter: "ldap_utf8_strtok str sep = (Some tok, Some l) \<Longrightarrow> length l < length str"
proof -
  assume t: "ldap_utf8_strtok str sep = (Some tok, Some l)"
  let ?b = "spn_rest str sep" and ?e = "cspn_rest (spn_rest str sep) sep"
  have b: "?b \<noteq> []" and l: "l = (if ?e \<noteq> [] then LDAP_UTF8_NEXT ?e else [])"
    using t by (auto simp: strtok_eq Let_def split: if_splits)
  have "length ?b \<le> length str" using spn_rest_suffix [of str sep] by (metis le_add2 length_append)
  moreover have "length ?e < length ?b" using cspn_rest_shorter spn_rest_stops b by blast
  moreover have "length l \<le> length ?e" unfolding l by (cases "?e = []") (simp_all add: less_imp_le)
  ultimately show ?thesis by linarith
qed

text \<open>The tokens are stored from place \<open>i\<close> of an array with \<open>slots\<close> places on, the null behind them.\<close>

function store_tokens :: "(nat \<Rightarrow> bool) \<Rightarrow> nat \<Rightarrow> octets \<Rightarrow> nat \<Rightarrow> octets \<Rightarrow> octets list option option" where
  "store_tokens mem slots brkstr i str =
    (case ldap_utf8_strtok str brkstr of
       (Some s, Some lasts) \<Rightarrow>
        (if i \<ge> slots then None
         else case LDAP_STRDUP mem s of None \<Rightarrow> Some None
           | Some t \<Rightarrow> map_option (map_option ((#) t)) (store_tokens mem slots brkstr (Suc i) lasts))
     | _ \<Rightarrow> if i \<ge> slots then None else Some (Some []))"
  by pat_completeness auto
termination
  by (relation "measure (\<lambda>(m, n, b, i, s). length s)") (auto dest: strtok_shorter [OF sym])

declare store_tokens.simps [simp del]

definition ldap_str2charray :: "(nat \<Rightarrow> bool) \<Rightarrow> octets \<Rightarrow> octets \<Rightarrow> octets list option option" where
  "ldap_str2charray mem str_in brkstr =
    (case LDAP_STRDUP mem str_in of None \<Rightarrow> Some None
     | Some str \<Rightarrow>
        (let slots = 1 + count_breaks brkstr str + 1 in
         if \<not> mem (slots * 4) then Some None
         else store_tokens mem slots brkstr 0 str))"

fun joined :: "octets \<Rightarrow> octets list \<Rightarrow> octets" where
  "joined sep [] = []"
| "joined sep (v # vs) = v @ concat (map (\<lambda>w. sep @ w) vs)"

text \<open>The separator is a space when none is given.\<close>

definition ldap_charray2str :: "(nat \<Rightarrow> bool) \<Rightarrow> octets list \<Rightarrow> octets option \<Rightarrow> octets option option" where
  "ldap_charray2str mem a sep_arg =
    (let sep = (case sep_arg of None \<Rightarrow> [0x20] | Some s \<Rightarrow> s);
         total = sum_list (map (\<lambda>v. length v + length sep) a)
     in if total = 0 then Some None
        else let size = total - length sep + 1 in
          if \<not> mem size then Some None
          else if length (joined sep a) + 1 > size then None
          else Some (Some (joined sep a)))"

section \<open>No store outside the array\<close>

lemma strchr_in_cset: "ldap_utf8_strchr cset str \<noteq> None \<longleftrightarrow> in_cset str cset"
proof (induction str cset rule: in_cset.induct)
  case (1 cstr cset)
  have "in_cset cstr cset = (if cset = [] then False else if ldap_utf8_to_ucs4 cstr = ldap_utf8_to_ucs4 cset then True
      else in_cset cstr (LDAP_UTF8_NEXT cset))" by (subst in_cset.simps) simp
  moreover have "ldap_utf8_strchr cset cstr = (if cset = [] then None else if ldap_utf8_to_ucs4 cset = ldap_utf8_to_ucs4 cstr then Some cset
      else ldap_utf8_strchr (LDAP_UTF8_NEXT cset) cstr)" by (subst ldap_utf8_strchr.simps) simp
  ultimately show ?case using 1 by (cases "cset = []"; cases "ldap_utf8_to_ucs4 cstr = ldap_utf8_to_ucs4 cset") simp_all
qed

lemma count_breaks_append: "count_breaks b ys \<le> count_breaks b (xs @ ys)"
  by (induction xs) auto

lemma cspn_rest_stops: "cspn_rest str cset = [] \<or> in_cset (cspn_rest str cset) cset"
proof (induction str cset rule: cspn_rest.induct)
  case (1 cstr cset)
  have "cspn_rest cstr cset = (if cstr = [] then [] else if in_cset cstr cset then cstr else cspn_rest (LDAP_UTF8_NEXT cstr) cset)"
    by (subst cspn_rest.simps) simp
  then show ?case using 1 by (cases "cstr = []"; cases "in_cset cstr cset") simp_all
qed

lemma strtok_breaks:
  assumes "ldap_utf8_strtok str brk = (Some tok, Some l)"
  shows "l = [] \<or> count_breaks brk l < count_breaks brk str" "tok \<noteq> []"
proof -
  let ?b = "spn_rest str brk" and ?e = "cspn_rest (spn_rest str brk) brk"
  have b: "?b \<noteq> []" and l: "l = (if ?e \<noteq> [] then LDAP_UTF8_NEXT ?e else [])" and t: "tok = take (length ?b - length ?e) ?b"
    using assms by (auto simp: strtok_eq Let_def split: if_splits)
  have "length ?e < length ?b" using cspn_rest_shorter spn_rest_stops b by blast
  then show "tok \<noteq> []" using t by auto
  show "l = [] \<or> count_breaks brk l < count_breaks brk str"
  proof (cases ?e)
    case (Cons x xs)
    then have "count_breaks brk ?e = Suc (count_breaks brk xs)"
      using cspn_rest_stops [of ?b brk] strchr_in_cset [of brk ?e] by simp
    moreover have "count_breaks brk (LDAP_UTF8_NEXT ?e) \<le> count_breaks brk xs"
    proof -
      obtain pre where p: "?e = pre @ LDAP_UTF8_NEXT ?e" using utf8_next_drop by blast
      moreover have "pre \<noteq> []" using utf8_next_shorter [of ?e] Cons p by (cases pre) auto
      ultimately obtain pre' where "xs = pre' @ LDAP_UTF8_NEXT ?e" using Cons by (cases pre) auto
      then show ?thesis using count_breaks_append by metis
    qed
    moreover have "count_breaks brk ?e \<le> count_breaks brk str"
      using spn_rest_suffix [of str brk] cspn_rest_suffix [of ?b brk] count_breaks_append by (metis order_trans)
    ultimately show ?thesis using l by auto
  qed (simp add: l)
qed

lemma store_tokens_within:
  "i + count_breaks brk str + 1 < slots \<Longrightarrow> \<exists>r. store_tokens mem slots brk i str = Some r
    \<and> (\<forall>ts. r = Some ts \<longrightarrow> length ts \<le> Suc (count_breaks brk str) \<and> [] \<notin> set ts)"
proof (induction mem slots brk i str rule: store_tokens.induct)
  case (1 mem slots brk i str)
  show ?case
  proof (cases "ldap_utf8_strtok str brk")
    case (Pair t l)
    show ?thesis
    proof (cases "\<exists>tok lasts. t = Some tok \<and> l = Some lasts")
      case True
      then obtain tok lasts where t: "ldap_utf8_strtok str brk = (Some tok, Some lasts)" using Pair by auto
      note b = strtok_breaks [OF t]
      show ?thesis
      proof (cases "LDAP_STRDUP mem tok")
        case None
        then show ?thesis using t "1.prems" by (subst store_tokens.simps) simp
      next
        case (Some tok')
        have dup: "tok' = tok" using Some by (auto simp: LDAP_STRDUP_def split: if_splits)
        have "\<exists>r. store_tokens mem slots brk (Suc i) lasts = Some r \<and> (\<forall>ts. r = Some ts \<longrightarrow> length ts \<le> count_breaks brk str \<and> [] \<notin> set ts)"
        proof (cases "lasts = []")
          case True
          have "ldap_utf8_strtok [] brk = (None, None)" by (simp add: strtok_eq spn_rest.simps)
          then show ?thesis using True "1.prems" by (subst store_tokens.simps) simp
        next
          case False
          then have "Suc i + count_breaks brk lasts + 1 < slots" using b(1) "1.prems" by simp
          then show ?thesis using "1.IH" t Some b(1) False "1.prems" by fastforce
        qed
        then show ?thesis using t Some dup b(2) "1.prems" by (subst store_tokens.simps) auto
      qed
    next
      case False
      then show ?thesis using Pair "1.prems" by (subst store_tokens.simps) (auto split: option.splits)
    qed
  qed
qed

section \<open>Strings of characters\<close>

text \<open>The non-empty pieces of a list between elements with the property \<open>P\<close>.\<close>

function pieces :: "('a \<Rightarrow> bool) \<Rightarrow> 'a list \<Rightarrow> 'a list list" where
  "pieces P xs =
    (case dropWhile P xs of [] \<Rightarrow> []
     | y # ys \<Rightarrow> (y # takeWhile (\<lambda>x. \<not> P x) ys) # pieces P (dropWhile (\<lambda>x. \<not> P x) ys))"
  by pat_completeness auto
termination
proof (relation "measure (\<lambda>(P, xs). length xs)", goal_cases)
  case (2 P xs y ys)
  have "length (dropWhile (\<lambda>x. \<not> P x) ys) \<le> length ys" "length (dropWhile P xs) \<le> length xs" by (rule length_dropWhile_le)+
  then show ?case using 2 by simp
qed simp

declare pieces.simps [simp del]

abbreviation code_points :: "u32 list \<Rightarrow> bool" where
  "code_points cs \<equiv> list_all (\<lambda>c. 0 < sint c) cs"

lemma in_cset_utf8:
  assumes "code_points (c # cs)" "code_points ds"
  shows "in_cset (utf8_string (c # cs)) (utf8_string ds) \<longleftrightarrow> c \<in> set ds"
proof -
  have "in_cset (utf8_string (c # cs)) (utf8_string ds) \<longleftrightarrow> ldap_utf8_strchr (utf8_string ds) (utf8_string (c # cs)) \<noteq> None"
    by (simp only: strchr_in_cset)
  then show ?thesis by (simp only: strchr_utf8_string [OF assms(2,1)]) simp
qed

lemma code_points_dropWhile: "code_points cs \<Longrightarrow> code_points (dropWhile P cs)" "code_points cs \<Longrightarrow> code_points (takeWhile P cs)"
  by (auto simp: list_all_iff dest: set_dropWhileD set_takeWhileD)

lemma spn_rest_utf8:
  "code_points cs \<Longrightarrow> code_points ds \<Longrightarrow> spn_rest (utf8_string cs) (utf8_string ds) = utf8_string (dropWhile (\<lambda>c. c \<in> set ds) cs)"
proof (induction cs)
  case Nil
  then show ?case by (simp add: spn_rest.simps)
next
  case (Cons c cs)
  then have "0 < sint c" "code_points cs" by simp_all
  then show ?case using Cons utf8_string_step [of c cs] in_cset_utf8 [OF Cons.prems]
    by (subst spn_rest.simps) (simp del: utf8_string_simps)
qed

lemma cspn_rest_utf8:
  "code_points cs \<Longrightarrow> code_points ds \<Longrightarrow> cspn_rest (utf8_string cs) (utf8_string ds) = utf8_string (dropWhile (\<lambda>c. c \<notin> set ds) cs)"
proof (induction cs)
  case Nil
  then show ?case by (simp add: cspn_rest.simps)
next
  case (Cons c cs)
  then have "0 < sint c" "code_points cs" by simp_all
  then show ?case using Cons utf8_string_step [of c cs] in_cset_utf8 [OF Cons.prems]
    by (subst cspn_rest.simps) (simp del: utf8_string_simps)
qed

lemma utf8_string_append: "utf8_string (xs @ ys) = utf8_string xs @ utf8_string ys"
  by (simp add: utf8_string_def)

lemma strtok_utf8:
  assumes "code_points cs" "code_points ds" "dropWhile (\<lambda>c. c \<in> set ds) cs = y # ys"
  shows "ldap_utf8_strtok (utf8_string cs) (utf8_string ds)
    = (Some (utf8_string (y # takeWhile (\<lambda>c. c \<notin> set ds) ys)), Some (utf8_string (drop 1 (dropWhile (\<lambda>c. c \<notin> set ds) ys))))"
proof -
  let ?in = "\<lambda>c. c \<in> set ds" and ?out = "\<lambda>c. c \<notin> set ds"
  have y: "\<not> ?in y" using assms(3) by (metis hd_dropWhile list.discI list.sel(1))
  have cp: "code_points (y # ys)" using code_points_dropWhile(1) [OF assms(1), of ?in] assms(3) by simp
  have b: "spn_rest (utf8_string cs) (utf8_string ds) = utf8_string (y # ys)" using spn_rest_utf8 [OF assms(1,2)] assms(3) by simp
  have e: "cspn_rest (utf8_string (y # ys)) (utf8_string ds) = utf8_string (dropWhile ?out ys)"
    using cspn_rest_utf8 [OF cp assms(2)] y by simp
  have split: "utf8_string (y # ys) = utf8_string (y # takeWhile ?out ys) @ utf8_string (dropWhile ?out ys)"
    by (simp add: utf8_string_append [symmetric])
  have ne: "utf8_string (y # ys) \<noteq> []" using utf8_string_step(3) [of y ys] cp by simp
  have l: "(if utf8_string (dropWhile ?out ys) \<noteq> [] then LDAP_UTF8_NEXT (utf8_string (dropWhile ?out ys)) else [])
      = utf8_string (drop 1 (dropWhile ?out ys))"
  proof (cases "dropWhile ?out ys")
    case (Cons z zs)
    then have "code_points (z # zs)" using code_points_dropWhile(1) [of ys ?out] cp by simp
    then show ?thesis using utf8_string_step [of z zs] Cons by (simp del: utf8_string_simps)
  next
    case Nil
    show ?thesis unfolding Nil by simp
  qed
  show ?thesis unfolding strtok_eq Let_def b e l using ne split by simp
qed

lemma pieces_skip: "P x \<Longrightarrow> pieces P (x # xs) = pieces P xs"
  by (subst (1 2) pieces.simps) simp

lemma store_tokens_pieces:
  assumes "\<forall>n. mem n" "code_points ds"
  shows "code_points cs \<Longrightarrow> store_tokens mem slots (utf8_string ds) i (utf8_string cs) = Some r
    \<Longrightarrow> r = Some (map utf8_string (pieces (\<lambda>c. c \<in> set ds) cs))"
proof (induction "length cs" arbitrary: cs i r rule: less_induct)
  case less
  let ?in = "\<lambda>c. c \<in> set ds"
  show ?case
  proof (cases "dropWhile ?in cs")
    case Nil
    have "spn_rest (utf8_string cs) (utf8_string ds) = []"
      unfolding spn_rest_utf8 [OF less.prems(1) assms(2)] Nil by simp
    then have "ldap_utf8_strtok (utf8_string cs) (utf8_string ds) = (None, None)" by (simp add: strtok_eq)
    moreover have "pieces ?in cs = []" by (subst pieces.simps) (simp only: Nil list.case)
    ultimately show ?thesis using less.prems(2) by (subst (asm) store_tokens.simps) (auto split: if_splits)
  next
    case (Cons y ys)
    let ?rest = "dropWhile (\<lambda>c. c \<notin> set ds) ys"
    have "length (y # ys) \<le> length cs" "length ?rest \<le> length ys" using Cons by (metis length_dropWhile_le)+
    then have len: "length (drop 1 ?rest) < length cs" by simp
    have cp: "code_points (drop 1 ?rest)"
      using less.prems(1) Cons set_dropWhileD set_drop_subset unfolding list_all_iff by (metis list.set_intros(2) subsetD)
    have "pieces ?in ?rest = pieces ?in (drop 1 ?rest)"
    proof (cases ?rest)
      case (Cons z zs)
      then have "?in z" by (metis hd_dropWhile list.discI list.sel(1))
      then show ?thesis using Cons pieces_skip [of ?in z zs] by simp
    next
      case Nil
      show ?thesis unfolding Nil by simp
    qed
    moreover have "\<exists>r'. store_tokens mem slots (utf8_string ds) (Suc i) (utf8_string (drop 1 ?rest)) = Some r'
        \<and> r = map_option ((#) (utf8_string (y # takeWhile (\<lambda>c. c \<notin> set ds) ys))) r'"
      using less.prems(2) strtok_utf8 [OF less.prems(1) assms(2) Cons] assms(1)
      by (subst (asm) store_tokens.simps) (auto simp: LDAP_STRDUP_def split: if_splits)
    ultimately show ?thesis using less.hyps [OF len cp] Cons by (subst pieces.simps) auto
  qed
qed

lemma pieces_joined:
  assumes "P d"
  shows "list_all (\<lambda>v. v \<noteq> [] \<and> list_all (\<lambda>c. \<not> P c) v) (v # vs) \<Longrightarrow> pieces P (v @ concat (map (\<lambda>w. d # w) vs)) = v # vs"
proof (induction vs arbitrary: v)
  case Nil
  then obtain y ys where v: "v = y # ys" "\<not> P y" "list_all (\<lambda>c. \<not> P c) ys" by (cases v) auto
  have t: "takeWhile (\<lambda>x. \<not> P x) ys = ys" and d: "dropWhile (\<lambda>x. \<not> P x) ys = []"
    using v(3) by (simp_all add: list_all_iff takeWhile_eq_all_conv)
  have "pieces P (y # ys) = (y # takeWhile (\<lambda>x. \<not> P x) ys) # pieces P (dropWhile (\<lambda>x. \<not> P x) ys)"
    using v(2) by (subst pieces.simps) simp
  also have "\<dots> = [v]" unfolding t d v(1) by (simp add: pieces.simps)
  finally show ?case using v(1) by simp
next
  case (Cons w ws)
  then obtain y ys where v: "v = y # ys" "\<not> P y" "\<forall>c\<in>set ys. \<not> P c" by (cases v) (auto simp: list_all_iff)
  let ?rest = "d # w @ concat (map (\<lambda>w. d # w) ws)"
  have "takeWhile (\<lambda>x. \<not> P x) (ys @ ?rest) = ys" "dropWhile (\<lambda>x. \<not> P x) (ys @ ?rest) = ?rest"
    using v(3) assms by (simp_all add: takeWhile_append2 dropWhile_append2 del: takeWhile_append dropWhile_append)
  then show ?case using v Cons pieces_skip [of P d "w @ concat (map (\<lambda>w. d # w) ws)"] assms
    by (subst pieces.simps) simp
qed

lemma length_joined: "a \<noteq> [] \<Longrightarrow> length (joined sep a) + length sep = sum_list (map (\<lambda>v. length v + length sep) a)"
proof (cases a)
  case (Cons v vs)
  have "length (concat (map (\<lambda>w. sep @ w) vs)) = sum_list (map (\<lambda>v. length v + length sep) vs)"
    by (induction vs) simp_all
  then show ?thesis using Cons by simp
qed simp

lemma joined_utf8: "joined (utf8_string [d]) (map utf8_string (v # vs)) = utf8_string (v @ concat (map (\<lambda>w. d # w) vs))"
  by (induction vs arbitrary: v) (simp_all add: utf8_string_append)

lemma str2charray_pieces:
  assumes "\<forall>n. mem n" "list_all (\<lambda>c. 0 < sint c) cs" "list_all (\<lambda>c. 0 < sint c) ds"
  shows "ldap_str2charray mem (utf8_string cs) (utf8_string ds)
    = Some (Some (map utf8_string (pieces (\<lambda>c. c \<in> set ds) cs)))"
proof -
  obtain r where r: "ldap_str2charray mem (utf8_string cs) (utf8_string ds) = Some r"
    "store_tokens mem (1 + count_breaks (utf8_string ds) (utf8_string cs) + 1) (utf8_string ds) 0 (utf8_string cs) = Some r"
    using store_tokens_within [of 0 "utf8_string ds" "utf8_string cs" "1 + count_breaks (utf8_string ds) (utf8_string cs) + 1" mem] assms(1)
    by (auto simp: ldap_str2charray_def LDAP_STRDUP_def Let_def)
  then show ?thesis using store_tokens_pieces [OF assms(1,3,2) r(2)] by simp
qed

section \<open>Properties\<close>

text \<open>
  \<open>ldap_str2charray\<close> never stores beyond the array it allocated, whatever the string and the break
  characters, malformed ones included; it returns no empty strings, and at most one more than there
  are places with a break character.
\<close>

theorem str2charray_within:
  "\<exists>r. ldap_str2charray mem str brk = Some r
    \<and> (\<forall>ts. r = Some ts \<longrightarrow> length ts \<le> Suc (count_breaks brk str) \<and> [] \<notin> set ts)"
  using store_tokens_within [of 0 brk str "1 + count_breaks brk str + 1" mem]
  by (auto simp: ldap_str2charray_def LDAP_STRDUP_def Let_def)

theorem str2charray_within_witness:
  "\<exists>r. ldap_str2charray (\<lambda>_. True) [0xff, 0x20, 0xc0] [0x20, 0x80] = Some r"
  using str2charray_within [of "\<lambda>_. True" "[0xff, 0x20, 0xc0]" "[0x20, 0x80]"] by blast

text \<open>
  on encoded strings \<open>ldap_str2charray\<close> is the splitting of the list of code points into its
  non-empty pieces between break characters.
\<close>

theorem str2charray_splits:
  assumes "\<forall>n. mem n" "list_all (\<lambda>c. 0 < sint c) cs" "list_all (\<lambda>c. 0 < sint c) ds"
  shows "ldap_str2charray mem (utf8_string cs) (utf8_string ds)
    = Some (Some (map utf8_string (pieces (\<lambda>c. c \<in> set ds) cs)))"
  by (rule str2charray_pieces [OF assms])

theorem str2charray_splits_witness:
  "ldap_str2charray (\<lambda>_. True) [0x2c, 0xc3, 0xa9, 0x2c, 0x20, 0x62] [0x2c, 0x20] = Some (Some [[0xc3, 0xa9], [0x62]])"
proof -
  have "list_all (\<lambda>c :: u32. 0 < sint c) [0x2c, 0xe9, 0x2c, 0x20, 0x62]" "list_all (\<lambda>c :: u32. 0 < sint c) [0x2c, 0x20]"
    "utf8_string [0x2c, 0xe9, 0x2c, 0x20, 0x62] = [0x2c, 0xc3, 0xa9, 0x2c, 0x20, 0x62]" "utf8_string [0x2c, 0x20] = [0x2c, 0x20]"
    "map utf8_string (pieces (\<lambda>c. c \<in> set [0x2c, 0x20]) [0x2c, 0xe9, 0x2c, 0x20, 0x62]) = [[0xc3, 0xa9], [0x62]]"
    by (simp_all add: ldap_ucs4_to_utf8_def pieces.simps)
  then show ?thesis using str2charray_splits [of "\<lambda>_. True" "[0x2c, 0xe9, 0x2c, 0x20, 0x62]" "[0x2c, 0x20]"] by metis
qed

text \<open>
  joining an array of non-empty strings with a separator character that occurs in none of them and
  splitting the result at that character gives the array back; both fit the memory they allocate.
\<close>

theorem charray_string_round_trip:
  assumes "\<forall>n. mem n" "vs \<noteq> []" "0 < sint d" "list_all (\<lambda>v. v \<noteq> [] \<and> d \<notin> set v \<and> list_all (\<lambda>c. 0 < sint c) v) vs"
  shows "\<exists>str. ldap_charray2str mem (map utf8_string vs) (Some (utf8_string [d])) = Some (Some str)
    \<and> ldap_str2charray mem str (utf8_string [d]) = Some (Some (map utf8_string vs))"
proof -
  obtain v ws where vs: "vs = v # ws" using assms(2) by (cases vs) auto
  let ?cs = "v @ concat (map (\<lambda>w. d # w) ws)" and ?sep = "utf8_string [d]" and ?a = "map utf8_string vs"
  have cp: "list_all (\<lambda>c. 0 < sint c) ?cs" "list_all (\<lambda>c. 0 < sint c) [d]" using assms(3,4) vs by (auto simp: list_all_iff)
  have str: "joined ?sep ?a = utf8_string ?cs" unfolding vs by (rule joined_utf8)
  have sep: "?sep \<noteq> []" using utf8_string_step(3) [of d "[]"] assms(3) by simp
  have len: "length (joined ?sep ?a) + length ?sep = sum_list (map (\<lambda>v. length v + length ?sep) ?a)"
    by (rule length_joined) (use assms(2) in simp)
  then have "sum_list (map (\<lambda>v. length v + length ?sep) ?a) \<noteq> 0" using sep by (metis add_is_0 length_0_conv)
  then have "ldap_charray2str mem ?a (Some ?sep) = Some (Some (utf8_string ?cs))"
    unfolding ldap_charray2str_def Let_def option.case len [symmetric] str using assms(1) by simp
  moreover have "pieces (\<lambda>c. c \<in> set [d]) ?cs = vs"
    unfolding vs by (rule pieces_joined) (use assms(4) vs in \<open>auto simp: list_all_iff\<close>)
  ultimately show ?thesis using str2charray_pieces [OF assms(1) cp] by simp
qed

theorem charray_string_round_trip_witness:
  "\<exists>str. ldap_charray2str (\<lambda>_. True) [[0x61], [0xc3, 0xa9, 0x62]] (Some [0x24]) = Some (Some str)
    \<and> ldap_str2charray (\<lambda>_. True) str [0x24] = Some (Some [[0x61], [0xc3, 0xa9, 0x62]])"
proof -
  have "list_all (\<lambda>v. v \<noteq> [] \<and> 0x24 \<notin> set v \<and> list_all (\<lambda>c :: u32. 0 < sint c) v) [[0x61], [0xe9, 0x62]]"
    "map utf8_string [[0x61], [0xe9, 0x62]] = [[0x61], [0xc3, 0xa9, 0x62]]" "utf8_string [0x24] = [0x24]"
    by (simp_all add: ldap_ucs4_to_utf8_def)
  then show ?thesis using charray_string_round_trip [of "\<lambda>_. True" "[[0x61], [0xe9, 0x62]]" "0x24"] by simp
qed

end
