(* ===== verification/Ldap_String.thy ===== *)
theory Ldap_String imports Charray begin

text \<open>
  The one-octet string functions of libraries/libldap/string.c.  A pointer into a string is the list of
  the octets from there on, the null pointer is \<open>None\<close>.
\<close>

section \<open>The functions\<close>

text \<open>
  The pointer \<open>p\<close> stays at the delimiter found last, so that a run of one delimiter is skipped
  without a new search.
\<close>

fun int_strspn :: "octets \<Rightarrow> octets \<Rightarrow> octets \<Rightarrow> nat" where
  "int_strspn [] delim p = 0"
| "int_strspn (c # str) delim p =
    (let p' = (if p \<noteq> [] \<and> c = hd p then p else dropWhile (\<lambda>d. d \<noteq> c) delim)
     in if p' = [] then 0 else Suc (int_strspn str delim p'))"

fun int_strpbrk :: "octets \<Rightarrow> octets \<Rightarrow> octets option" where
  "int_strpbrk [] accept = None"
| "int_strpbrk (c # str) accept = (if c \<in> set accept then Some (c # str) else int_strpbrk str accept)"

text \<open>The token, and what \<open>*pos\<close> is afterwards.\<close>

definition ldap_pvt_strtok :: "octets option \<Rightarrow> octets \<Rightarrow> octets option \<Rightarrow> octets option \<times> octets option" where
  "ldap_pvt_strtok str_arg delim pos =
    (case (case str_arg of None \<Rightarrow> pos | Some s \<Rightarrow> Some s) of
       None \<Rightarrow> (None, pos)
     | Some str \<Rightarrow>
        (let str' = drop (int_strspn str delim delim) str in
         if str' = [] then (None, pos)
         else case int_strpbrk str' delim of
            None \<Rightarrow> (Some str', None)
          | Some p \<Rightarrow> (Some (take (length str' - length p) str'), Some (drop 1 p))))"

definition ldap_pvt_str2upper :: "octets \<Rightarrow> octets" where
  "ldap_pvt_str2upper str = map toupper str"

definition ldap_pvt_str2lower :: "octets \<Rightarrow> octets" where
  "ldap_pvt_str2lower str = map tolower str"

section \<open>The tokens of a string\<close>

lemma int_strspn_spec:
  "set p \<subseteq> set delim \<Longrightarrow> int_strspn str delim p = length (takeWhile (\<lambda>c. c \<in> set delim) str)"
proof (induction str arbitrary: p)
  case (Cons c str)
  define q where "q = (if p \<noteq> [] \<and> c = hd p then p else dropWhile (\<lambda>d. d \<noteq> c) delim)"
  have sub: "set q \<subseteq> set delim" unfolding q_def using Cons.prems by (auto dest: set_dropWhileD)
  have found: "q = [] \<longleftrightarrow> c \<notin> set delim"
  proof (cases "p \<noteq> [] \<and> c = hd p")
    case True
    then have "c \<in> set delim" using Cons.prems by auto
    then show ?thesis using True by (simp add: q_def)
  qed (auto simp: q_def)
  have "int_strspn (c # str) delim p = (if q = [] then 0 else Suc (int_strspn str delim q))"
    unfolding q_def by (simp only: int_strspn.simps Let_def)
  then show ?case using found by (simp add: Cons.IH [OF sub])
qed simp

lemma int_strpbrk_spec:
  "int_strpbrk str accept = (case dropWhile (\<lambda>c. c \<notin> set accept) str of [] \<Rightarrow> None | p \<Rightarrow> Some p)"
  by (induction str) auto

lemma cut_front: "xs = t @ d \<Longrightarrow> take (length xs - length d) xs = t"
  by simp

lemmas cut_takeWhile = cut_front [OF takeWhile_dropWhile_id [symmetric]]

lemma strtok_step:
  "ldap_pvt_strtok (Some str) delim pos =
    (case dropWhile (\<lambda>c. c \<in> set delim) str of [] \<Rightarrow> (None, pos)
     | y # ys \<Rightarrow> (Some (y # takeWhile (\<lambda>c. c \<notin> set delim) ys),
        case dropWhile (\<lambda>c. c \<notin> set delim) ys of [] \<Rightarrow> None | z # zs \<Rightarrow> Some zs))"
proof -
  have skip: "drop (int_strspn str delim delim) str = dropWhile (\<lambda>c. c \<in> set delim) str"
    by (simp add: int_strspn_spec dropWhile_eq_drop)
  show ?thesis
  proof (cases "dropWhile (\<lambda>c. c \<in> set delim) str")
    case (Cons y ys)
    then have y: "y \<notin> set delim" using hd_dropWhile [of "\<lambda>c. c \<in> set delim" str] by simp
    note cut = cut_takeWhile [of ys "\<lambda>c. c \<notin> set delim"]
    have le: "length (dropWhile (\<lambda>c. c \<notin> set delim) ys) \<le> length ys" by (rule length_dropWhile_le)
    show ?thesis
    proof (cases "dropWhile (\<lambda>c. c \<notin> set delim) ys")
      case Nil
      then have "takeWhile (\<lambda>c. c \<notin> set delim) ys = ys"
        by (metis append.right_neutral takeWhile_dropWhile_id)
      then show ?thesis using Cons y Nil unfolding ldap_pvt_strtok_def
        by (simp add: skip int_strpbrk_spec Let_def del: dropWhile_eq_Nil_conv takeWhile_eq_all_conv)
    next
      case (Cons z zs)
      then show ?thesis using \<open>dropWhile _ str = y # ys\<close> y cut le unfolding ldap_pvt_strtok_def
        by (simp add: skip int_strpbrk_spec take_Cons' Suc_diff_le)
    qed
  next
    case Nil
    then show ?thesis by (simp add: ldap_pvt_strtok_def skip Let_def del: dropWhile_eq_Nil_conv)
  qed
qed

text \<open>Calling until no token comes, the first time with the string, then with the null pointer.\<close>

fun strtok_calls :: "nat \<Rightarrow> octets option \<Rightarrow> octets \<Rightarrow> octets option \<Rightarrow> octets list" where
  "strtok_calls 0 str delim pos = []"
| "strtok_calls (Suc n) str delim pos =
    (case ldap_pvt_strtok str delim pos of (None, pos') \<Rightarrow> [] | (Some t, pos') \<Rightarrow> t # strtok_calls n None delim pos')"

lemma strtok_null: "ldap_pvt_strtok None delim (Some s) = ldap_pvt_strtok (Some s) delim (Some s)"
  "ldap_pvt_strtok None delim None = (None, None)"
  by (simp_all add: ldap_pvt_strtok_def)

lemma strtok_calls_pieces:
  "length str < n \<Longrightarrow> strtok_calls n (Some str) delim pos = pieces (\<lambda>c. c \<in> set delim) str"
proof (induction n arbitrary: str pos)
  case (Suc n)
  let ?P = "\<lambda>c. c \<in> set delim"
  note unfold_pieces = pieces.simps [of ?P str]
  show ?case
  proof (cases "dropWhile ?P str")
    case Nil
    then show ?thesis unfolding unfold_pieces by (simp add: strtok_step del: dropWhile_eq_Nil_conv)
  next
    case (Cons y ys)
    have "length (dropWhile ?P str) \<le> length str" by (rule length_dropWhile_le)
    then have short: "length ys < n" using Suc.prems Cons by simp
    have le: "length (dropWhile (\<lambda>c. \<not> ?P c) ys) \<le> length ys" by (rule length_dropWhile_le)
    show ?thesis
    proof (cases "dropWhile (\<lambda>c. \<not> ?P c) ys")
      case Nil
      then have "pieces ?P str = [y # takeWhile (\<lambda>c. \<not> ?P c) ys]"
        unfolding unfold_pieces Cons using Nil by (simp only: list.case) (simp add: pieces.simps [of ?P "[]"])
      moreover have "strtok_calls n None delim None = []" by (cases n) (simp_all add: strtok_null)
      ultimately show ?thesis using Cons Nil by (simp add: strtok_step del: dropWhile_eq_Nil_conv)
    next
      case (Cons z zs)
      have "?P z" using hd_dropWhile [of "\<lambda>c. \<not> ?P c" ys] Cons by simp
      then have skip: "pieces ?P (z # zs) = pieces ?P zs"
        by (simp add: pieces.simps [of ?P "z # zs"] pieces.simps [of ?P zs])
      have "length zs < n" using short le Cons by simp
      then have ih: "strtok_calls n (Some zs) delim (Some zs) = pieces ?P zs" by (rule Suc.IH)
      obtain m where m: "n = Suc m" using short by (cases n) auto
      have "strtok_calls n None delim (Some zs) = pieces ?P zs"
        using ih unfolding m by (simp add: strtok_null)
      then show ?thesis
        using \<open>dropWhile ?P str = y # ys\<close> Cons skip unfolding unfold_pieces by (simp add: strtok_step)
    qed
  qed
qed simp

section \<open>Property\<close>

text \<open>
  calling \<open>ldap_pvt_strtok\<close> on a string and then with the null pointer yields the non-empty
  pieces of the string between its delimiters, in order, and then the null pointer; the empty pieces
  between adjacent delimiters and at the ends are skipped.
\<close>

theorem strtok_yields_pieces:
  assumes "length str < n"
  shows "strtok_calls n (Some str) delim pos = pieces (\<lambda>c. c \<in> set delim) str"
  by (rule strtok_calls_pieces [OF assms])

theorem strtok_yields_pieces_witness:
  "strtok_calls 9 (Some [0x20, 0x61, 0x62, 0x2c, 0x20, 0x63]) [0x20, 0x2c] None = [[0x61, 0x62], [0x63]]"
  unfolding strtok_yields_pieces [of "[0x20, 0x61, 0x62, 0x2c, 0x20, 0x63]" 9 "[0x20, 0x2c]" None, simplified]
  by (simp add: pieces.simps)

end
