(* ===== verification/Base64.thy ===== *)
theory Base64 imports C_Strings begin

text \<open>
  The base-64 coding of libraries/liblutil/base64.c.  Encoding appends to the target as long as there is
  room; decoding is a state machine over the characters that stores into a target of as many octets as
  the list has (\<open>targsize\<close>), or into none (\<open>None\<close>, the null pointer) to only count.  The error value -1
  is \<open>None\<close>.  Characters from 0x80 on are negative there, so that they are neither spaces nor letters
  of the alphabet.
\<close>

definition Base64 :: octets where
  "Base64 = map of_char ''ABCDEFGHIJKLMNOPQRSTUVWXYZabcdefghijklmnopqrstuvwxyz0123456789+/''"

definition Pad64 :: u8 where "Pad64 = 0x3d"

section \<open>Encoding\<close>

definition digit64 :: "u8 \<Rightarrow> u8" where
  "digit64 v = Base64 ! unat v"

definition output0 :: "u8 \<Rightarrow> u8" where "output0 a = drop_bit 2 a"
definition output1 :: "u8 \<Rightarrow> u8 \<Rightarrow> u8" where "output1 a b = push_bit 4 (a AND 0x03) + drop_bit 4 b"
definition output2 :: "u8 \<Rightarrow> u8 \<Rightarrow> u8" where "output2 b c = push_bit 2 (b AND 0x0f) + drop_bit 6 c"
definition output3 :: "u8 \<Rightarrow> u8" where "output3 c = c AND 0x3f"

fun ntop_loop :: "nat \<Rightarrow> octets \<Rightarrow> octets \<Rightarrow> (octets \<times> octets) option" where
  "ntop_loop targsize (a # b # c # src) target =
    (if length target + 4 > targsize then None
     else ntop_loop targsize src
       (target @ [digit64 (output0 a), digit64 (output1 a b), digit64 (output2 b c), digit64 (output3 c)]))"
| "ntop_loop targsize src target = Some (src, target)"

text \<open>What is left (at most two octets) is padded.\<close>

definition ntop_end :: "nat \<Rightarrow> octets \<times> octets \<Rightarrow> octets option" where
  "ntop_end targsize p =
    (case p of (rest, target) \<Rightarrow>
      let padded =
         (if rest \<noteq> [] then
            (let a = hd rest; b = (case rest of [_, b] \<Rightarrow> b | _ \<Rightarrow> 0) in
             if length target + 4 > targsize then None
             else Some (target @ [digit64 (output0 a), digit64 (output1 a b),
               if length rest = 1 then Pad64 else digit64 (output2 b 0), Pad64]))
          else Some target)
      in case padded of None \<Rightarrow> None
         | Some target1 \<Rightarrow> if length target1 \<ge> targsize then None else Some target1)"

definition lutil_b64_ntop :: "octets \<Rightarrow> nat \<Rightarrow> octets option" where
  "lutil_b64_ntop src targsize =
    (case ntop_loop targsize src [] of None \<Rightarrow> None | Some p \<Rightarrow> ntop_end targsize p)"

section \<open>Decoding\<close>

definition isspace_ascii :: "u8 \<Rightarrow> bool" where
  "isspace_ascii ch \<longleftrightarrow> ch < 0x80 \<and> isspace ch"

fun strchr_index :: "octets \<Rightarrow> u8 \<Rightarrow> nat option" where
  "strchr_index [] ch = None"
| "strchr_index (c # cs) ch = (if c = ch then Some 0 else map_option Suc (strchr_index cs ch))"

type_synonym pton_state = "nat \<times> nat \<times> octets option"

text \<open>One letter of value \<open>v\<close> in the four states.\<close>

fun pton_step :: "u8 \<Rightarrow> pton_state \<Rightarrow> pton_state option" where
  "pton_step v (state, tarindex, None) =
    Some ((if state = 3 then 0 else Suc state), (if state = 0 then tarindex else Suc tarindex), None)"
| "pton_step v (state, tarindex, Some target) =
    (if state = 0 then
       (if tarindex \<ge> length target then None else Some (1, tarindex, Some (target[tarindex := push_bit 2 v])))
     else if state = 1 then
       (if tarindex + 1 \<ge> length target then None
        else Some (2, Suc tarindex, Some (target[tarindex := (target ! tarindex) OR drop_bit 4 v,
          tarindex + 1 := push_bit 4 (v AND 0x0f)])))
     else if state = 2 then
       (if tarindex + 1 \<ge> length target then None
        else Some (3, Suc tarindex, Some (target[tarindex := (target ! tarindex) OR drop_bit 2 v,
          tarindex + 1 := push_bit 6 (v AND 0x03)])))
     else
       (if tarindex \<ge> length target then None
        else Some (0, Suc tarindex, Some (target[tarindex := (target ! tarindex) OR v]))))"

text \<open>The loop stops behind a pad, or at the end; the flag says which.\<close>

fun pton_loop :: "octets \<Rightarrow> pton_state \<Rightarrow> (bool \<times> octets \<times> pton_state) option" where
  "pton_loop [] st = Some (False, [], st)"
| "pton_loop (ch # src) st =
    (if isspace_ascii ch then pton_loop src st
     else if ch = Pad64 then Some (True, src, st)
     else case strchr_index Base64 ch of None \<Rightarrow> None
       | Some pos \<Rightarrow> (case pton_step (of_nat pos) st of None \<Rightarrow> None | Some st' \<Rightarrow> pton_loop src st'))"

text \<open>Behind the last pad only spaces may follow, and the bits left over have to be zero.\<close>

definition pton_trailer :: "octets \<Rightarrow> pton_state \<Rightarrow> (nat \<times> octets option) option" where
  "pton_trailer src st =
    (case st of (state, tarindex, target) \<Rightarrow>
      if dropWhile isspace_ascii src \<noteq> [] then None
      else case target of None \<Rightarrow> Some (tarindex, None)
        | Some t \<Rightarrow> if t ! tarindex \<noteq> 0 then None else Some (tarindex, Some t))"

definition lutil_b64_pton :: "octets \<Rightarrow> octets option \<Rightarrow> (nat \<times> octets option) option" where
  "lutil_b64_pton src target =
    (case pton_loop src (0, 0, target) of None \<Rightarrow> None
     | Some (padded, rest, st) \<Rightarrow>
        (let state = fst st in
         if padded then
           (if state = 0 \<or> state = 1 then None
            else if state = 2 then
              (case dropWhile isspace_ascii rest of [] \<Rightarrow> None
               | ch # rest' \<Rightarrow> if ch \<noteq> Pad64 then None else pton_trailer rest' st)
            else pton_trailer rest st)
         else if state \<noteq> 0 then None else Some (snd st)))"

end
