(* ===== verification/Base64_Facts.thy ===== *)
theory Base64_Facts imports Base64 begin

text \<open>
  The correctness of base-64: six-bit values and octets, the encoder against its recursive specification,
  and the decoder, which accepts exactly the canonical encodings.
\<close>

section \<open>Octets and six-bit values\<close>

lemma low_masks: "(0x03 :: u8) = mask 2" "(0x0f :: u8) = mask 4" "(0x3f :: u8) = mask 6"
  by (simp_all add: mask_eq_exp_minus_1)

lemma high_bits: "\<not> bit (w :: u8) 8" "\<not> bit (w :: u8) 9" "\<not> bit (w :: u8) 10" "\<not> bit (w :: u8) 11"
  "\<not> bit (w :: u8) 12" "\<not> bit (w :: u8) 13"
  using bit_imp_le_length [of w] by fastforce+

lemma octet_eq:
  assumes "bit a 0 = bit b 0" "bit a 1 = bit b 1" "bit a 2 = bit b 2" "bit a 3 = bit b 3"
    "bit a 4 = bit b 4" "bit a 5 = bit b 5" "bit a 6 = bit b 6" "bit a 7 = bit b 7"
  shows "a = (b :: u8)"
proof (rule bit_word_eqI)
  fix n :: nat
  assume "n < LENGTH(8)"
  then have "n \<in> {0, 1, 2, 3, 4, 5, 6, 7}" by auto
  then show "bit a n = bit b n" using assms by (elim insertE emptyE) simp_all
qed

lemma octet_eq_iff: "a = b \<longleftrightarrow> bit a 0 = bit b 0 \<and> bit a 1 = bit b 1 \<and> bit a 2 = bit b 2 \<and> bit a 3 = bit b 3
    \<and> bit a 4 = bit b 4 \<and> bit a 5 = bit b 5 \<and> bit a 6 = bit b 6 \<and> bit a 7 = bit b 7" for a b :: u8
  using octet_eq [of a b] by blast

lemmas bits8 = bit_simps high_bits

lemma output_or:
  "output1 a b = push_bit 4 (a AND mask 2) OR drop_bit 4 b"
  "output2 b c = push_bit 2 (b AND mask 4) OR drop_bit 6 c"
  "output3 c = c AND mask 6"
proof -
  show "output1 a b = push_bit 4 (a AND mask 2) OR drop_bit 4 b"
    unfolding output1_def low_masks by (intro disjunctive_add_eq_or octet_eq) (simp_all add: bits8 del: add_2_eq_Suc)
  show "output2 b c = push_bit 2 (b AND mask 4) OR drop_bit 6 c"
    unfolding output2_def low_masks by (intro disjunctive_add_eq_or octet_eq) (simp_all add: bits8 del: add_2_eq_Suc)
qed (simp add: output3_def low_masks)

lemma sextet_bits: "v < (64 :: u8) \<longleftrightarrow> \<not> bit v 6 \<and> \<not> bit v 7"
proof -
  have "v < 64 \<longleftrightarrow> unat v < 2 ^ 6" by (simp add: word_less_nat_alt)
  also have "\<dots> \<longleftrightarrow> take_bit 6 v = v"
    by (metis (no_types) order_less_le take_bit_eq_mod take_bit_nat_eq_self_iff unsigned_take_bit_eq word_unat_eq_iff)
  also have "\<dots> \<longleftrightarrow> \<not> bit v 6 \<and> \<not> bit v 7"
  proof
    assume e: "take_bit 6 v = v"
    show "\<not> bit v 6 \<and> \<not> bit v 7" by (subst (1 2) e [symmetric]) (simp add: bit_take_bit_iff)
  qed (intro octet_eq; simp add: bit_take_bit_iff)
  finally show ?thesis .
qed

lemma outputs_small: "output0 a < 64" "output1 a b < 64" "output2 b c < 64" "output3 c < 64"
  unfolding sextet_bits output_or output0_def
  by (simp_all add: bits8 del: add_2_eq_Suc)

text \<open>The three octets of four values.\<close>

definition octet0 :: "u8 \<Rightarrow> u8 \<Rightarrow> u8" where "octet0 v0 v1 = push_bit 2 v0 OR drop_bit 4 v1"
definition octet1 :: "u8 \<Rightarrow> u8 \<Rightarrow> u8" where "octet1 v1 v2 = push_bit 4 (v1 AND 0x0f) OR drop_bit 2 v2"
definition octet2 :: "u8 \<Rightarrow> u8 \<Rightarrow> u8" where "octet2 v2 v3 = push_bit 6 (v2 AND 0x03) OR v3"

lemmas octet_defs = octet0_def octet1_def octet2_def low_masks output_or output0_def

lemma octets_of_outputs:
  "octet0 (output0 a) (output1 a b) = a" "octet1 (output1 a b) (output2 b c) = b"
  "octet2 (output2 b c) (output3 c) = c"
  unfolding octet_defs by (rule octet_eq; simp add: bits8 del: add_2_eq_Suc)+

lemma outputs_of_octets:
  assumes "v0 < 64" "v1 < 64" "v2 < 64" "v3 < 64"
  shows "output0 (octet0 v0 v1) = v0" "output1 (octet0 v0 v1) (octet1 v1 v2) = v1"
    "output2 (octet1 v1 v2) (octet2 v2 v3) = v2" "output3 (octet2 v2 v3) = v3"
  using assms unfolding octet_defs sextet_bits by (intro octet_eq; simp add: bits8 del: add_2_eq_Suc)+

text \<open>What is left over in the octet behind the last one.\<close>

lemma left_over_bits:
  "push_bit 4 (v AND mask 4) = (0 :: u8) \<longleftrightarrow> \<not> bit v 0 \<and> \<not> bit v (Suc 0) \<and> \<not> bit v 2 \<and> \<not> bit v 3"
  "push_bit 6 (v AND mask 2) = (0 :: u8) \<longleftrightarrow> \<not> bit v 0 \<and> \<not> bit v (Suc 0)"
  by (simp_all add: octet_eq_iff bits8 del: add_2_eq_Suc push_bit_and)

lemma left_over_zero:
  assumes "v < 64"
  shows "push_bit 4 (v AND 0x0f) = (0 :: u8) \<Longrightarrow> output1 (octet0 v0 v) 0 = v"
    and "push_bit 6 (v AND 0x03) = (0 :: u8) \<Longrightarrow> output2 (octet1 v1 v) 0 = v"
    and "push_bit 4 (output1 a 0 AND 0x0f) = 0" and "push_bit 6 (output2 a 0 AND 0x03) = 0"
proof -
  have v: "\<not> bit v 6" "\<not> bit v 7" using assms unfolding sextet_bits by simp_all
  show "output1 (octet0 v0 v) 0 = v" if "push_bit 4 (v AND 0x0f) = (0 :: u8)"
    using that [unfolded low_masks, unfolded left_over_bits] unfolding octet_defs
    by (elim conjE) (rule octet_eq; simp add: bits8 v del: add_2_eq_Suc)
  show "output2 (octet1 v1 v) 0 = v" if "push_bit 6 (v AND 0x03) = (0 :: u8)"
    using that [unfolded low_masks, unfolded left_over_bits] unfolding octet_defs
    by (elim conjE) (rule octet_eq; simp add: bits8 v del: add_2_eq_Suc)
  show "push_bit 4 (output1 a 0 AND 0x0f) = 0" "push_bit 6 (output2 a 0 AND 0x03) = 0"
    unfolding octet_defs left_over_bits by (simp_all add: bits8 del: add_2_eq_Suc)
qed

section \<open>The alphabet\<close>

lemma Base64_octets [code]:
  "Base64 = [0x41, 0x42, 0x43, 0x44, 0x45, 0x46, 0x47, 0x48, 0x49, 0x4a, 0x4b, 0x4c, 0x4d, 0x4e, 0x4f, 0x50,
    0x51, 0x52, 0x53, 0x54, 0x55, 0x56, 0x57, 0x58, 0x59, 0x5a, 0x61, 0x62, 0x63, 0x64, 0x65, 0x66,
    0x67, 0x68, 0x69, 0x6a, 0x6b, 0x6c, 0x6d, 0x6e, 0x6f, 0x70, 0x71, 0x72, 0x73, 0x74, 0x75, 0x76,
    0x77, 0x78, 0x79, 0x7a, 0x30, 0x31, 0x32, 0x33, 0x34, 0x35, 0x36, 0x37, 0x38, 0x39, 0x2b, 0x2f]"
  by (simp add: Base64_def)

lemma alphabet_facts: "list_all (\<lambda>v. strchr_index Base64 (digit64 v) = Some (unat v) \<and> \<not> isspace_ascii (digit64 v)
    \<and> digit64 v \<noteq> Pad64) (map of_nat [0..<64])"
  by code_simp

lemma digit64:
  assumes "v < 64"
  shows "strchr_index Base64 (digit64 v) = Some (unat v)" "\<not> isspace_ascii (digit64 v)" "digit64 v \<noteq> Pad64"
proof -
  have "v = of_nat (unat v)" "unat v < 64" using assms by (simp_all add: word_less_nat_alt)
  then have "v \<in> set (map of_nat [0..<64])" by (metis atLeastLessThan_iff image_eqI le0 set_map set_upt)
  then show "strchr_index Base64 (digit64 v) = Some (unat v)" "\<not> isspace_ascii (digit64 v)" "digit64 v \<noteq> Pad64"
    using alphabet_facts unfolding list_all_iff by blast+
qed

lemma strchr_index_nth: "strchr_index cs ch = Some p \<Longrightarrow> p < length cs \<and> cs ! p = ch"
  by (induction cs arbitrary: p) (auto split: if_splits)

lemma alphabet_length: "length Base64 = 64" by (simp add: Base64_def)

lemma digit_of_index:
  assumes "strchr_index Base64 ch = Some p"
  shows "(of_nat p :: u8) < 64" "digit64 (of_nat p) = ch"
proof -
  have p: "p < 64" "Base64 ! p = ch" using strchr_index_nth [OF assms] by (simp_all add: alphabet_length)
  then have "unat (of_nat p :: u8) = p" by (simp add: unat_of_nat)
  then show "(of_nat p :: u8) < 64" "digit64 (of_nat p) = ch" using p by (simp_all add: word_less_nat_alt digit64_def)
qed

lemma pad_no_space: "\<not> isspace_ascii Pad64" by (simp add: isspace_ascii_def isspace_def Pad64_def)

section \<open>The encoder\<close>

text \<open>Base 64 by recursion on the octets.\<close>

fun b64 :: "octets \<Rightarrow> octets" where
  "b64 (a # b # c # src) =
    digit64 (output0 a) # digit64 (output1 a b) # digit64 (output2 b c) # digit64 (output3 c) # b64 src"
| "b64 [a, b] = [digit64 (output0 a), digit64 (output1 a b), digit64 (output2 b 0), Pad64]"
| "b64 [a] = [digit64 (output0 a), digit64 (output1 a 0), Pad64, Pad64]"
| "b64 [] = []"

lemma b64_length: "length (b64 src) = 4 * ((length src + 2) div 3)"
  by (induction src rule: b64.induct) (simp_all, presburger)

lemma ntop_from:
  "(case ntop_loop n src t of None \<Rightarrow> None | Some p \<Rightarrow> ntop_end n p) = (if length t + length (b64 src) < n then Some (t @ b64 src) else None)"
  by (induction n src t rule: ntop_loop.induct) (auto simp: ntop_end_def Let_def)

lemma ntop_spec: "lutil_b64_ntop src n = (if length (b64 src) < n then Some (b64 src) else None)"
  using ntop_from [of n src "[]"] by (simp add: lutil_b64_ntop_def split: option.splits)

section \<open>The decoder\<close>

abbreviation unspaced :: "octets \<Rightarrow> octets" where
  "unspaced s \<equiv> filter (\<lambda>c. \<not> isspace_ascii c) s"

text \<open>The letters alone.\<close>

fun letters :: "octets \<Rightarrow> pton_state \<Rightarrow> pton_state option" where
  "letters [] st = Some st"
| "letters (ch # src) st =
    (case strchr_index Base64 ch of None \<Rightarrow> None
     | Some pos \<Rightarrow> (case pton_step (of_nat pos) st of None \<Rightarrow> None | Some st' \<Rightarrow> letters src st'))"

lemma pton_loop_letters:
  "pton_loop s st = (case letters (unspaced (takeWhile (\<lambda>c. c \<noteq> Pad64) s)) st of None \<Rightarrow> None
    | Some st' \<Rightarrow> Some (dropWhile (\<lambda>c. c \<noteq> Pad64) s \<noteq> [], tl (dropWhile (\<lambda>c. c \<noteq> Pad64) s), st'))"
  by (induction s st rule: pton_loop.induct) (auto simp: pad_no_space split: option.splits)

lemma unspaced_while:
  "takeWhile (\<lambda>c. c \<noteq> Pad64) (unspaced s) = unspaced (takeWhile (\<lambda>c. c \<noteq> Pad64) s)"
  "dropWhile (\<lambda>c. c \<noteq> Pad64) (unspaced s) = unspaced (dropWhile (\<lambda>c. c \<noteq> Pad64) s)"
  by (induction s) (auto simp: pad_no_space)

lemma dropped_spaces: "dropWhile isspace_ascii s = [] \<longleftrightarrow> unspaced s = []"
  "dropWhile isspace_ascii s = c # s' \<Longrightarrow> unspaced s = c # unspaced s'"
  by (induction s) (auto split: if_splits)

text \<open>The end of decoding, in terms of what follows the letters.\<close>

definition settled :: "octets \<Rightarrow> pton_state \<Rightarrow> (nat \<times> octets option) option" where
  "settled pads st =
    (case st of (state, i, target) \<Rightarrow>
      if pads = [] then (if state = 0 then Some (i, target) else None)
      else if (state = 2 \<and> pads = [Pad64, Pad64] \<or> 3 \<le> state \<and> pads = [Pad64])
        \<and> (case target of None \<Rightarrow> True | Some t \<Rightarrow> t ! i = 0) then Some (i, target) else None)"

lemma pton_trailer_settled:
  "pton_trailer rest (state, i, target) =
    (if unspaced rest = [] \<and> (case target of None \<Rightarrow> True | Some t \<Rightarrow> t ! i = 0) then Some (i, target) else None)"
  unfolding pton_trailer_def by (cases target) (simp_all add: dropped_spaces(1) del: dropWhile_eq_Nil_conv filter_empty_conv)

lemma pton_settled:
  "lutil_b64_pton s target =
    (case letters (takeWhile (\<lambda>c. c \<noteq> Pad64) (unspaced s)) (0, 0, target) of None \<Rightarrow> None
     | Some st \<Rightarrow> settled (dropWhile (\<lambda>c. c \<noteq> Pad64) (unspaced s)) st)"
proof (cases "letters (takeWhile (\<lambda>c. c \<noteq> Pad64) (unspaced s)) (0, 0, target)")
  case None
  then show ?thesis by (simp add: lutil_b64_pton_def pton_loop_letters unspaced_while)
next
  case (Some st)
  obtain state i t where st: "st = (state, i, t)" by (cases st)
  let ?d = "dropWhile (\<lambda>c. c \<noteq> Pad64) s"
  have loop: "pton_loop s (0, 0, target) = Some (?d \<noteq> [], tl ?d, st)"
    using Some by (simp only: pton_loop_letters unspaced_while option.case)
  show ?thesis
  proof (cases ?d)
    case Nil
    then show ?thesis using Some loop st
      by (simp add: lutil_b64_pton_def unspaced_while settled_def del: dropWhile_eq_Nil_conv)
  next
    case (Cons p rest)
    then have p: "p = Pad64" using hd_dropWhile [of "\<lambda>c. c \<noteq> Pad64" s] by simp
    have u: "dropWhile (\<lambda>c. c \<noteq> Pad64) (unspaced s) = Pad64 # unspaced rest"
      unfolding unspaced_while Cons by (simp add: p pad_no_space)
    have l: "lutil_b64_pton s target =
      (if state = 0 \<or> state = 1 then None
            else if state = 2 then
              (case dropWhile isspace_ascii rest of [] \<Rightarrow> None
               | ch # rest' \<Rightarrow> if ch \<noteq> Pad64 then None else pton_trailer rest' (state, i, t))
            else pton_trailer rest (state, i, t))"
      using loop Cons st by (simp add: lutil_b64_pton_def)
    have r: "(case letters (takeWhile (\<lambda>c. c \<noteq> Pad64) (unspaced s)) (0, 0, target) of None \<Rightarrow> None
      | Some st \<Rightarrow> settled (dropWhile (\<lambda>c. c \<noteq> Pad64) (unspaced s)) st) = settled (Pad64 # unspaced rest) st"
      using Some u by simp
    show ?thesis
    proof (cases "dropWhile isspace_ascii rest")
      case Nil
      then have "unspaced rest = []" using dropped_spaces(1) by blast
      then show ?thesis unfolding l r using Nil
        by (simp add: st settled_def pton_trailer_settled del: dropWhile_eq_Nil_conv filter_empty_conv)
    next
      case (Cons c rest')
      then show ?thesis unfolding l r using dropped_spaces(2) [OF Cons]
        by (auto simp: st settled_def pton_trailer_settled simp del: filter_empty_conv)
    qed
  qed
qed

lemma quads_induct [case_names Nil One Two Three Four]:
  assumes "P []" "\<And>a. P [a]" "\<And>a b. P [a, b]" "\<And>a b c. P [a, b, c]" "\<And>a b c d xs. P xs \<Longrightarrow> P (a # b # c # d # xs)"
  shows "P xs"
  using assms by induction_schema (pat_completeness, lexicographic_order)

lemma letters_digit:
  "v < 64 \<Longrightarrow> letters (digit64 v # L) st = (case pton_step v st of None \<Rightarrow> None | Some st' \<Rightarrow> letters L st')"
  by (simp add: digit64)

declare letters.simps(2) [simp del] push_bit_and [simp del]

lemma letters_two:
  assumes "v0 < 64" "v1 < 64"
  shows "letters (digit64 v0 # digit64 v1 # L) (0, i, Some t) =
    (if i + 1 < length t then letters L (2, Suc i, Some (t[i := octet0 v0 v1, i + 1 := push_bit 4 (v1 AND 0x0f)])) else None)"
  using assms by (simp add: letters_digit octet0_def)

lemma letters_three:
  assumes "v0 < 64" "v1 < 64" "v2 < 64"
  shows "letters (digit64 v0 # digit64 v1 # digit64 v2 # L) (0, i, Some t) =
    (if i + 2 < length t then letters L (3, i + 2, Some (t[i := octet0 v0 v1, i + 1 := octet1 v1 v2,
      i + 2 := push_bit 6 (v2 AND 0x03)])) else None)"
  using assms by (simp add: letters_two letters_digit octet0_def octet1_def)

lemma letters_four:
  assumes "v0 < 64" "v1 < 64" "v2 < 64" "v3 < 64"
  shows "letters (digit64 v0 # digit64 v1 # digit64 v2 # digit64 v3 # L) (0, i, Some t) =
    (if i + 2 < length t then letters L (0, i + 3, Some (t[i := octet0 v0 v1, i + 1 := octet1 v1 v2,
      i + 2 := octet2 v2 v3])) else None)"
  using assms by (simp add: letters_three letters_digit octet0_def octet1_def octet2_def eval_nat_numeral)

lemma letters_valid: "letters (c # L) st = Some st' \<Longrightarrow> \<exists>v. v < 64 \<and> c = digit64 v"
  by (auto simp: letters.simps(2) split: option.splits dest: digit_of_index)

definition decoded :: "octets \<Rightarrow> octets \<Rightarrow> nat \<Rightarrow> octets \<Rightarrow> (nat \<times> octets option) option" where
  "decoded L pads i t = (case letters L (0, i, Some t) of None \<Rightarrow> None | Some st \<Rightarrow> settled pads st)"

text \<open>The room the decoder needs: the last group, when it is not full, stores one octet more.\<close>

definition room :: "octets \<Rightarrow> nat" where
  "room d = length d + (if 3 dvd length d then 0 else 1)"

lemma room_3: "room (a # b # c # src) = room src + 3"
proof -
  have "3 dvd Suc (Suc (Suc n)) \<longleftrightarrow> 3 dvd n" for n :: nat by presburger
  then show ?thesis by (simp add: room_def)
qed

lemma room_small: "room [] = 0" "room [a] = 2" "room [a, b] = 3"
proof -
  have "\<not> 3 dvd (2 :: nat)" by simp
  then show "room [a, b] = 3" by (simp add: room_def numeral_2_eq_2 [symmetric])
qed (simp_all add: room_def)

abbreviation letters_of where "letters_of s \<equiv> takeWhile (\<lambda>c. c \<noteq> Pad64) s"
abbreviation pads_of where "pads_of s \<equiv> dropWhile (\<lambda>c. c \<noteq> Pad64) s"

lemma decode_encoded:
  "i + room d \<le> length t \<Longrightarrow> \<exists>t'. decoded (letters_of (b64 d)) (pads_of (b64 d)) i t = Some (i + length d, Some t')
    \<and> length t' = length t \<and> take (i + length d) t' = take i t @ d"
proof (induction d arbitrary: i t rule: b64.induct)
  case (1 a b c src)
  let ?t = "t[i := a, i + 1 := b, i + 2 := c]"
  have r: "i + 3 + room src \<le> length t" using 1(2) by (simp add: room_3)
  then obtain t' where t': "decoded (letters_of (b64 src)) (pads_of (b64 src)) (i + 3) ?t = Some (i + 3 + length src, Some t')"
      "length t' = length ?t" "take (i + 3 + length src) t' = take (i + 3) ?t @ src"
    using 1(1) [of "i + 3" ?t] by auto
  have "take (i + 3) ?t = take i t @ [a, b, c]"
    using r by (intro nth_equalityI) (auto simp: nth_append nth_list_update less_Suc_eq numeral_3_eq_3 nth_Cons' add.commute)
  then show ?case using t' r
    by (simp add: decoded_def letters_four outputs_small octets_of_outputs digit64(3) eval_nat_numeral)
next
  case (2 a b)
  then have "i + 2 < length t" by (simp add: room_small)
  moreover have "push_bit 6 (output2 b 0 AND 0x03) = 0" by (rule left_over_zero [of 0]) simp
  moreover have "octet1 (output1 a b) (output2 b 0) = b" by (rule octets_of_outputs)
  moreover have "take (i + 2) (t[i := a, i + 1 := b, i + 2 := 0]) = take i t @ [a, b]" using \<open>i + 2 < length t\<close>
    by (intro nth_equalityI) (auto simp: nth_append nth_list_update less_Suc_eq numeral_2_eq_2 nth_Cons')
  ultimately show ?case
    by (simp add: decoded_def letters_three outputs_small octets_of_outputs digit64(3) settled_def)
next
  case (3 a)
  then have "i + 1 < length t" by (simp add: room_def)
  moreover have "push_bit 4 (output1 a 0 AND 0x0f) = 0" by (rule left_over_zero [of 0]) simp
  moreover have "take (Suc i) (t[i := a, i + 1 := 0]) = take i t @ [a]" using \<open>i + 1 < length t\<close>
    by (intro nth_equalityI) (auto simp: nth_append nth_list_update less_Suc_eq nth_Cons')
  ultimately show ?case
    by (simp add: decoded_def letters_two outputs_small octets_of_outputs digit64(3) settled_def)
next
  case 4
  then show ?case by (simp add: decoded_def settled_def)
qed

lemma decoded_is_encoded:
  "decoded L pads i t = Some (j, t') \<Longrightarrow> \<exists>d. L @ pads = b64 d \<and> j = i + length d \<and> i + room d \<le> max i (length t)"
proof (induction L arbitrary: i t rule: quads_induct)
  case Nil
  then have "pads = []" "j = i" by (auto simp: decoded_def settled_def split: if_splits)
  then show ?case by (intro exI [of _ "[]"]) (simp add: room_def)
next
  case (One a)
  then obtain v where "v < 64" "a = digit64 v" using One by (auto dest!: letters_valid simp: decoded_def split: option.splits)
  then show ?case using One by (auto simp: decoded_def settled_def letters_digit split: if_splits)
next
  case (Two a b)
  obtain v0 where v0: "v0 < 64" "a = digit64 v0" using Two by (auto dest!: letters_valid simp: decoded_def split: option.splits)
  then obtain v1 where v1: "v1 < 64" "b = digit64 v1"
    using Two by (auto dest!: letters_valid simp: decoded_def letters_digit split: option.splits)
  have r: "i + 1 < length t" "pads = [Pad64, Pad64]" "push_bit 4 (v1 AND 0x0f) = 0" "j = Suc i"
    using Two v0 v1 by (auto simp: decoded_def letters_two settled_def split: if_splits)
  then show ?case using v0 v1 outputs_of_octets(1) [OF v0(1) v1(1) v0(1) v0(1)] left_over_zero(1) [OF v1(1) r(3)]
    by (intro exI [of _ "[octet0 v0 v1]"]) (simp add: room_def)
next
  case (Three a b c)
  obtain v0 where v0: "v0 < 64" "a = digit64 v0" using Three by (auto dest!: letters_valid simp: decoded_def split: option.splits)
  then obtain v1 where v1: "v1 < 64" "b = digit64 v1"
    using Three by (auto dest!: letters_valid simp: decoded_def letters_digit split: option.splits)
  then obtain v2 where v2: "v2 < 64" "c = digit64 v2"
    using Three v0 by (auto dest!: letters_valid simp: decoded_def letters_two split: option.splits if_splits)
  have r: "i + 2 < length t" "pads = [Pad64]" "push_bit 6 (v2 AND 0x03) = 0" "j = i + 2"
    using Three v0 v1 v2 by (auto simp: decoded_def letters_three settled_def split: if_splits)
  then show ?case using v0 v1 v2 outputs_of_octets(1,2) [OF v0(1) v1(1) v2(1) v2(1)] left_over_zero(2) [OF v2(1) r(3)]
    by (intro exI [of _ "[octet0 v0 v1, octet1 v1 v2]"]) (simp add: room_def)
next
  case (Four a b c e xs)
  obtain v0 where v0: "v0 < 64" "a = digit64 v0" using Four(2) by (auto dest!: letters_valid simp: decoded_def split: option.splits)
  then obtain v1 where v1: "v1 < 64" "b = digit64 v1"
    using Four(2) by (auto dest!: letters_valid simp: decoded_def letters_digit split: option.splits)
  then obtain v2 where v2: "v2 < 64" "c = digit64 v2"
    using Four(2) v0 by (auto dest!: letters_valid simp: decoded_def letters_two split: option.splits if_splits)
  then obtain v3 where v3: "v3 < 64" "e = digit64 v3"
    using Four(2) v0 v1 by (auto dest!: letters_valid simp: decoded_def letters_three split: option.splits if_splits)
  let ?t = "t[i := octet0 v0 v1, i + 1 := octet1 v1 v2, i + 2 := octet2 v2 v3]"
  have r: "i + 2 < length t" "decoded xs pads (i + 3) ?t = Some (j, t')"
    using Four(2) v0 v1 v2 v3 by (auto simp: decoded_def letters_four split: if_splits)
  then obtain d where d: "xs @ pads = b64 d" "j = i + 3 + length d" "i + 3 + room d \<le> max (i + 3) (length ?t)"
    using Four(1) by blast
  then show ?case using v0 v1 v2 v3 r(1) outputs_of_octets [OF v0(1) v1(1) v2(1) v3(1)]
    by (intro exI [of _ "octet0 v0 v1 # octet1 v1 v2 # octet2 v2 v3 # d"]) (auto simp: room_3)
qed

section \<open>Properties\<close>

lemma decoder_decoded: "lutil_b64_pton s (Some t) = decoded (letters_of (unspaced s)) (pads_of (unspaced s)) 0 t"
  by (simp add: pton_settled decoded_def)

lemma decodes:
  assumes "unspaced s = b64 d" "room d \<le> length t"
  obtains t' where "lutil_b64_pton s (Some t) = Some (length d, Some t')" "length t' = length t" "take (length d) t' = d"
proof -
  have "0 + room d \<le> length t" using assms(2) by simp
  then obtain t' where t': "decoded (letters_of (b64 d)) (pads_of (b64 d)) 0 t = Some (0 + length d, Some t')"
      "length t' = length t" "take (0 + length d) t' = take 0 t @ d"
    using decode_encoded by blast
  have "lutil_b64_pton s (Some t) = Some (length d, Some t')"
    unfolding decoder_decoded assms(1) using t'(1) by (simp only: add_0)
  moreover have "take (length d) t' = d" using t'(3) by (simp only: add_0 take_0 append_Nil)
  ultimately show thesis using t'(2) that by blast
qed

lemma b64_inject:
  assumes "b64 d = b64 e" "unspaced s = b64 d"
  shows "d = e"
proof -
  let ?t = "replicate (room d + room e) 0"
  have r: "room d \<le> length ?t" "room e \<le> length ?t" by simp_all
  obtain t1 where t1: "lutil_b64_pton s (Some ?t) = Some (length d, Some t1)" "take (length d) t1 = d"
    by (rule decodes [OF assms(2) r(1)])
  obtain t2 where t2: "lutil_b64_pton s (Some ?t) = Some (length e, Some t2)" "take (length e) t2 = e"
    by (rule decodes [OF assms(2) [unfolded assms(1)] r(2)])
  have "length d = length e" "t1 = t2" using t1(1) t2(1) by (simp_all only: option.inject prod.inject)
  then show ?thesis using t1(2) t2(2) by metis
qed

lemma decodes_fails:
  assumes "unspaced s = b64 d" "\<not> room d \<le> length t"
  shows "lutil_b64_pton s (Some t) = None"
proof (rule ccontr)
  assume "lutil_b64_pton s (Some t) \<noteq> None"
  then obtain j u where "decoded (letters_of (unspaced s)) (pads_of (unspaced s)) 0 t = Some (j, u)"
    by (auto simp: decoder_decoded)
  then obtain e where e: "letters_of (unspaced s) @ pads_of (unspaced s) = b64 e" "0 + room e \<le> max 0 (length t)"
    using decoded_is_encoded by blast
  then have "b64 d = b64 e" unfolding assms(1) by (simp only: takeWhile_dropWhile_id)
  then have "d = e" using assms(1) by (rule b64_inject)
  moreover have "room e \<le> length t" using e(2) by (simp only: add_0 max_0L)
  ultimately show False using assms(2) by blast
qed

text \<open>
  C32: the decoder succeeds on a string exactly when the string without its spaces is the base-64 encoding of
  some octets, padding and unused bits included, and the target has room for them (and one octet more
  unless their number is a multiple of three); then it stores those octets and returns their number.
\<close>

theorem b64_decodes_encodings:
  "(\<exists>t'. lutil_b64_pton s (Some t) = Some (length d, Some t') \<and> length t' = length t \<and> take (length d) t' = d)
    \<longleftrightarrow> unspaced s = b64 d \<and> room d \<le> length t"
proof
  assume "\<exists>t'. lutil_b64_pton s (Some t) = Some (length d, Some t') \<and> length t' = length t \<and> take (length d) t' = d"
  then obtain t' where t': "lutil_b64_pton s (Some t) = Some (length d, Some t')" "take (length d) t' = d" by blast
  obtain e where e: "letters_of (unspaced s) @ pads_of (unspaced s) = b64 e" "length d = 0 + length e" "0 + room e \<le> max 0 (length t)"
    using decoded_is_encoded [OF t'(1) [unfolded decoder_decoded]] by blast
  then have s: "unspaced s = b64 e" "room e \<le> length t" by (simp_all only: takeWhile_dropWhile_id add_0 max_0L)
  obtain t'' where "lutil_b64_pton s (Some t) = Some (length e, Some t'')" "take (length e) t'' = e" by (rule decodes [OF s])
  then have "d = e" using t' e(2) by (simp only: option.inject prod.inject add_0)
  then show "unspaced s = b64 d \<and> room d \<le> length t" using s by (simp only: simp_thms)
next
  assume "unspaced s = b64 d \<and> room d \<le> length t"
  then show "\<exists>t'. lutil_b64_pton s (Some t) = Some (length d, Some t') \<and> length t' = length t \<and> take (length d) t' = d"
    using decodes [of s d t] by blast
qed

lemma unspaced_b64: "unspaced (b64 d) = b64 d"
  by (induction d rule: b64.induct) (simp_all add: digit64(2) outputs_small pad_no_space)

text \<open>
  C31: the encoder succeeds exactly when the target has room for the encoding, four characters for every three
  octets or part of them, and the null; what it writes is decoded to the octets it came from, also after
  spaces have been put in anywhere, but only into a target with room for one octet more when their
  number is not a multiple of three.
\<close>

theorem b64_round_trip:
  "(lutil_b64_ntop d n = None \<longleftrightarrow> n \<le> 4 * ((length d + 2) div 3))
    \<and> (lutil_b64_ntop d n = Some e \<longrightarrow> unspaced e = e \<and> (unspaced s = e \<longrightarrow>
       (if room d \<le> length t then \<exists>t'. lutil_b64_pton s (Some t) = Some (length d, Some t') \<and> take (length d) t' = d
        else lutil_b64_pton s (Some t) = None)))"
proof (intro conjI impI)
  show "lutil_b64_ntop d n = None \<longleftrightarrow> n \<le> 4 * ((length d + 2) div 3)" by (auto simp: ntop_spec b64_length)
next
  assume "lutil_b64_ntop d n = Some e"
  then show "unspaced e = e" by (auto simp: ntop_spec unspaced_b64 simp del: filter_id_conv split: if_splits)
next
  assume "lutil_b64_ntop d n = Some e" "unspaced s = e"
  then have s: "unspaced s = b64 d" by (simp add: ntop_spec split: if_splits)
  show "if room d \<le> length t then \<exists>t'. lutil_b64_pton s (Some t) = Some (length d, Some t') \<and> take (length d) t' = d
        else lutil_b64_pton s (Some t) = None"
    using decodes_fails [OF s] by (cases "room d \<le> length t") (auto elim!: decodes [OF s])
qed

theorem b64_round_trip_witness:
  "\<exists>e t'. lutil_b64_ntop [0x4f, 0x53, 0x2f, 0x32] 9 = Some e
    \<and> lutil_b64_pton (0x20 # e @ [0x0a]) (Some [0, 0, 0, 0, 0]) = Some (4, Some t') \<and> take 4 t' = [0x4f, 0x53, 0x2f, 0x32]"
proof -
  let ?d = "[0x4f, 0x53, 0x2f, 0x32] :: octets"
  have "lutil_b64_ntop ?d 9 \<noteq> None" using b64_round_trip [of ?d 9] by simp
  then obtain e where e: "lutil_b64_ntop ?d 9 = Some e" by blast
  then have u: "unspaced e = e" using b64_round_trip [of ?d 9 e] by (blast intro: e)
  have "isspace_ascii 0x20" "isspace_ascii 0x0a" by (simp_all add: isspace_ascii_def isspace_def)
  then have s: "unspaced (0x20 # e @ [0x0a]) = e" using u by (simp del: filter_id_conv)
  have r: "room ?d \<le> length [0, 0, 0, 0, 0 :: u8]" by (simp add: room_3 room_small)
  have "\<exists>t'. lutil_b64_pton (0x20 # e @ [0x0a]) (Some [0, 0, 0, 0, 0]) = Some (length ?d, Some t') \<and> take (length ?d) t' = ?d"
    using b64_round_trip [of ?d 9 e "0x20 # e @ [0x0a]" "[0, 0, 0, 0, 0]"] e s r by (simp only: if_True simp_thms)
  moreover have "length ?d = 4" by simp
  ultimately show ?thesis using e by metis
qed

end
