(* ===== verification/Ldif.thy ===== *)
theory Ldif imports Base64 begin

text \<open>
  The LDIF lines of libraries/libldif/line64.c: writing an attribute with its value, folded and in base 64
  where it has to be, and reading the lines of a buffer back.  \<open>ber_len_t\<close> has 32 bits.
\<close>

section \<open>Writing\<close>

definition LDIF_LINE_WIDTH :: nat where "LDIF_LINE_WIDTH = 76"
definition LDIF_KLUDGE :: nat where "LDIF_KLUDGE = 1"

definition LDIF_BASE64_LEN :: "u32 \<Rightarrow> u32" where
  "LDIF_BASE64_LEN len = len * 4 div 3 + 3"

definition LDIF_SIZE_NEEDED :: "u32 \<Rightarrow> u32 \<Rightarrow> u32" where
  "LDIF_SIZE_NEEDED nlen vlen =
    nlen + 4 + LDIF_BASE64_LEN vlen + (LDIF_BASE64_LEN vlen + nlen + 3) div of_nat LDIF_LINE_WIDTH * 2"

datatype ldif_put_type = LDIF_PUT_NOVALUE | LDIF_PUT_VALUE | LDIF_PUT_TEXT | LDIF_PUT_BINARY | LDIF_PUT_B64
  | LDIF_PUT_COMMENT | LDIF_PUT_URL | LDIF_PUT_SEP

text \<open>
  Characters written one by one: when the line has more than \<open>width\<close> of them, a newline and a space come
  first.  \<open>len\<close> is what the line has.
\<close>

fun folded :: "nat \<Rightarrow> nat \<Rightarrow> octets \<Rightarrow> octets" where
  "folded width len [] = []"
| "folded width len (c # cs) =
    (if len > width then 0x0a # 0x20 # c # folded width 2 cs else c # folded width (len + 1) cs)"

definition nib2b64 :: octets where
  "nib2b64 = map of_char ''ABCDEFGHIJKLMNOPQRSTUVWXYZabcdefghijklmnopqrstuvwxyz0123456789+/''"

text \<open>Four digits from the top of 24 bits, the last \<open>pad\<close> of them padded.\<close>

fun digits :: "nat \<Rightarrow> nat \<Rightarrow> nat \<Rightarrow> u32 \<Rightarrow> octets" where
  "digits 0 pad i bits = []"
| "digits (Suc n) pad i bits =
    (if i + pad < 4 then nib2b64 ! unat (drop_bit 18 (bits AND 0xfc0000)) else 0x3d) # digits n pad (i + 1) (push_bit 6 bits)"

definition group_bits :: "u8 \<Rightarrow> u8 \<Rightarrow> u8 \<Rightarrow> u32" where
  "group_bits a b c = push_bit 16 (ucast a) OR push_bit 8 (ucast b) OR ucast c"

fun base64_digits :: "octets \<Rightarrow> octets" where
  "base64_digits (a # b # c # val) = digits 4 0 0 (group_bits a b c) @ base64_digits val"
| "base64_digits [a, b] = digits 4 1 0 (group_bits a b 0)"
| "base64_digits [a] = digits 4 2 0 (group_bits a 0 0)"
| "base64_digits [] = []"

definition binary_suffix :: octets where "binary_suffix = map of_char '';binary''"
definition user_password :: octets where "user_password = map of_char ''userPassword''"
definition password_oid :: octets where "password_oid = map of_char ''2.5.4.35''"

text \<open>The value looks printable from its ends, and the attribute may be written as it is.\<close>

definition may_be_text :: "octets \<Rightarrow> octets \<Rightarrow> bool" where
  "may_be_text name val \<longleftrightarrow> isgraph (hd val) \<and> hd val \<noteq> 0x3a \<and> hd val \<noteq> 0x3c \<and> isgraph (last val)
    \<and> \<not> strstr name binary_suffix \<and> strcasecmp name user_password \<noteq> 0 \<and> strcasecmp name password_oid \<noteq> 0"

text \<open>
  What \<open>ldif_sput\<close> writes, and how far it goes before it takes back a value that turns out not to be
  printable (0 when it never does).  Without a name only a comment can be written: \<open>None\<close> is the failed
  assertion.
\<close>

definition ldif_sput :: "ldif_put_type \<Rightarrow> octets option \<Rightarrow> octets \<Rightarrow> (octets \<times> nat) option" where
  "ldif_sput type name_arg val =
    (if type = LDIF_PUT_SEP then Some ([0x0a], 0)
     else if name_arg = None \<and> type \<noteq> LDIF_PUT_COMMENT then None
     else
       let name = (case name_arg of None \<Rightarrow> [] | Some s \<Rightarrow> s);
           start = (if type = LDIF_PUT_COMMENT then (if val \<noteq> [] then [0x23, 0x20] else [0x23]) else []);
           out = start @ name @ (if name_arg \<noteq> None \<and> type \<noteq> LDIF_PUT_COMMENT then [0x3a] else []);
           len = length out
       in if val = [] \<or> type = LDIF_PUT_NOVALUE then Some (out @ [0x0a], 0)
          else if type \<in> {LDIF_PUT_TEXT, LDIF_PUT_URL, LDIF_PUT_B64, LDIF_PUT_COMMENT} then
            (let sep = (if type = LDIF_PUT_URL then [0x3c, 0x20] else if type = LDIF_PUT_B64 then [0x3a, 0x20]
                else if type = LDIF_PUT_TEXT then [0x20] else [])
             in Some (out @ sep @ folded LDIF_LINE_WIDTH (len + length sep) val @ [0x0a], 0))
          else
            (let binary = out @ [0x3a, 0x20] @ folded (LDIF_LINE_WIDTH + LDIF_KLUDGE) (len + 2) (base64_digits val) @ [0x0a];
                 text = out @ [0x20] @ folded (LDIF_LINE_WIDTH + LDIF_KLUDGE) (len + 1) (takeWhile isprint val)
             in if type = LDIF_PUT_VALUE \<and> may_be_text name val then
                  (if takeWhile isprint val = val then Some (text @ [0x0a], 0) else Some (binary, length text))
                else Some (binary, len + 1)))"

text \<open>An outer \<open>None\<close> is a store outside the allocated buffer (or the failed assertion), an inner one no memory.\<close>

definition ldif_put :: "(nat \<Rightarrow> bool) \<Rightarrow> ldif_put_type \<Rightarrow> octets option \<Rightarrow> octets \<Rightarrow> octets option option" where
  "ldif_put mem type name val =
    (let nlen = (case name of None \<Rightarrow> 0 | Some s \<Rightarrow> of_nat (length s));
         size = unat (LDIF_SIZE_NEEDED nlen (of_nat (length val)) + 1)
     in if \<not> mem size then Some None
        else case ldif_sput type name val of None \<Rightarrow> None
          | Some (out, taken_back) \<Rightarrow>
             if length out + 1 \<le> size \<and> taken_back \<le> size then Some (Some out) else None)"

text \<open>The loop looks for the null, not at \<open>vlen\<close>; the value is null-terminated.\<close>

definition ldif_is_not_printable :: "octets option \<Rightarrow> int" where
  "ldif_is_not_printable val_arg =
    (case val_arg of None \<Rightarrow> -1
     | Some val \<Rightarrow>
        if val = [] then -1
        else if isgraph (hd val) \<and> hd val \<noteq> 0x3a \<and> hd val \<noteq> 0x3c \<and> isgraph (last val)
        then (if list_all isprint (takeWhile (\<lambda>c. c \<noteq> 0) val) then 0 else 1)
        else 1)"

section \<open>Reading\<close>

definition CONTINUED_LINE_MARKER :: u8 where "CONTINUED_LINE_MARKER = 0x01"

text \<open>To the end of the line; the rest is the null pointer at the end of the buffer.\<close>

fun line_scan :: "octets \<Rightarrow> octets \<times> octets option" where
  "line_scan [] = ([], None)"
| "line_scan [x] = (if x = 0x0a then ([], Some []) else ([x], None))"
| "line_scan (x # c # xs) =
    (if x = 0x0a then
       (if \<not> isspace c \<or> c = 0x0a then ([], Some (c # xs))
        else let (line, rest) = line_scan xs in (CONTINUED_LINE_MARKER # CONTINUED_LINE_MARKER # line, rest))
     else let (line, rest) = line_scan (c # xs) in (x # line, rest))"

lemma line_scan_shorter: "line_scan xs = (line, Some rest) \<Longrightarrow> length rest < length xs"
  by (induction xs arbitrary: line rest rule: line_scan.induct) (auto split: if_splits prod.splits)

function ldif_getline :: "octets option \<Rightarrow> octets option \<times> octets option" where
  "ldif_getline next' =
    (case next' of None \<Rightarrow> (None, None)
     | Some s \<Rightarrow>
        if s = [] \<or> hd s = 0x0a then (None, Some s)
        else case line_scan s of (line, rest) \<Rightarrow>
          if line \<noteq> [] \<and> hd line = 0x23 then ldif_getline rest else (Some line, rest))"
  by pat_completeness auto
termination
proof (relation "measure (\<lambda>next'. case next' of None \<Rightarrow> 0 | Some s \<Rightarrow> Suc (length s))", goal_cases)
  case (2 next' s line rest)
  then show ?case by (cases rest) (auto dest: line_scan_shorter [OF sym])
qed simp

declare ldif_getline.simps [simp del]

definition b642nib :: octets where
  "b642nib =
    [0xff, 0xff, 0xff, 0xff, 0xff, 0xff, 0xff, 0xff,
     0xff, 0xff, 0xff, 0xff, 0xff, 0xff, 0xff, 0xff,
     0xff, 0xff, 0xff, 0xff, 0xff, 0xff, 0xff, 0xff,
     0xff, 0xff, 0xff, 0xff, 0xff, 0xff, 0xff, 0xff,
     0xff, 0xff, 0xff, 0xff, 0xff, 0xff, 0xff, 0xff,
     0xff, 0xff, 0xff, 0x3e, 0xff, 0xff, 0xff, 0x3f,
     0x34, 0x35, 0x36, 0x37, 0x38, 0x39, 0x3a, 0x3b,
     0x3c, 0x3d, 0xff, 0xff, 0xff, 0xff, 0xff, 0xff,
     0xff, 0x00, 0x01, 0x02, 0x03, 0x04, 0x05, 0x06,
     0x07, 0x08, 0x09, 0x0a, 0x0b, 0x0c, 0x0d, 0x0e,
     0x0f, 0x10, 0x11, 0x12, 0x13, 0x14, 0x15, 0x16,
     0x17, 0x18, 0x19, 0xff, 0xff, 0xff, 0xff, 0xff,
     0xff, 0x1a, 0x1b, 0x1c, 0x1d, 0x1e, 0x1f, 0x20,
     0x21, 0x22, 0x23, 0x24, 0x25, 0x26, 0x27, 0x28,
     0x29, 0x2a, 0x2b, 0x2c, 0x2d, 0x2e, 0x2f, 0x30,
     0x31, 0x32, 0x33, 0xff, 0xff, 0xff, 0xff, 0xff]"

definition nibble :: "u8 \<Rightarrow> u8" where
  "nibble c = b642nib ! unat (c AND 0x7f)"

definition b64_valid :: "u8 \<Rightarrow> bool" where
  "b64_valid c \<longleftrightarrow> c = 0x3d \<or> \<not> (c AND 0x80 \<noteq> 0 \<or> nibble c > 0x3f)"

text \<open>
  \<open>nib\<close> is a \<open>char\<close>: where that is signed, a shift to the right keeps the sign.  The decoded octets are
  stored behind the digits still to read.  An incomplete group runs into the null, which is not valid.
\<close>

definition nib_shift :: "bool \<Rightarrow> nat \<Rightarrow> u8 \<Rightarrow> u8" where
  "nib_shift schar n nib = (if schar then signed_drop_bit n nib else drop_bit n nib)"

fun b64_decode :: "bool \<Rightarrow> octets \<Rightarrow> octets option" where
  "b64_decode schar [] = Some []"
| "b64_decode schar (p0 # p1 # p2 # p3 # rest) =
    (if \<not> (b64_valid p0 \<and> b64_valid p1 \<and> b64_valid p2 \<and> b64_valid p3) then None
     else
       let byte0 = push_bit 2 (nibble p0) OR nib_shift schar 4 (nibble p1);
           byte1 = push_bit 4 (nibble p1 AND 0x0f)
       in if p2 = 0x3d then Some [byte0]
          else let byte1' = byte1 OR nib_shift schar 2 (nibble p2); byte2 = push_bit 6 (nibble p2 AND 0x03)
            in if p3 = 0x3d then Some [byte0, byte1']
               else map_option (\<lambda>val. byte0 # byte1' # (byte2 OR nibble p3) # val) (b64_decode schar rest))"
| "b64_decode schar p = None"

text \<open>
  \<open>ldif_parse_line\<close>: the type, and the value (its first \<open>vlen\<close> octets) or the null pointer.  \<open>fetch\<close> is
  \<open>ldif_fetch_url\<close>, whose value may be the null pointer as well.
\<close>

definition trim_end :: "octets \<Rightarrow> octets" where
  "trim_end s = (if s = [] then [] else hd s # rev (dropWhile isspace (rev (tl s))))"

definition ldif_parse_line :: "bool \<Rightarrow> (nat \<Rightarrow> bool) \<Rightarrow> (octets \<Rightarrow> octets option option) \<Rightarrow> octets
    \<Rightarrow> (octets \<times> octets option) option" where
  "ldif_parse_line schar mem fetch line_arg =
    (let line = dropWhile isspace line_arg in
     if \<not> mem (length line + 1) then None
     else if 0x3a \<notin> set line then None
     else
       let type = trim_end (takeWhile (\<lambda>c. c \<noteq> 0x3a) line);
           s = drop 1 (dropWhile (\<lambda>c. c \<noteq> 0x3a) line);
           url = (s \<noteq> [] \<and> hd s = 0x3c);
           b64 = (s \<noteq> [] \<and> hd s = 0x3a);
           s1 = filter (\<lambda>c. c \<noteq> CONTINUED_LINE_MARKER) (dropWhile isspace (if url \<or> b64 then tl s else s));
           value = (if s = [] then Some (Some [])
             else if s1 = [] then Some None
             else if b64 then map_option Some (b64_decode schar s1)
             else if url then fetch s1
             else Some (Some s1))
       in case value of None \<Rightarrow> None
          | Some v \<Rightarrow>
             if \<not> mem (length type + 1) then None
             else if \<not> url \<and> v \<noteq> None \<and> \<not> mem (length (the v) + 1) then None
             else Some (type, v))"

end
