(* ===== verification/Ldif_Facts.thy ===== *)
theory Ldif_Facts imports Ldif Base64_Facts begin

text \<open>
  LDIF lines: the space \<open>ldif_put\<close> allocates is enough for what \<open>ldif_sput\<close> writes, the two base-64
  implementations agree, and what is written is read back.
\<close>

declare push_bit_and [simp del]

section \<open>The two encoders of base 64\<close>

lemma nib2b64_Base64: "nib2b64 = Base64"
  by (simp add: nib2b64_def Base64_def)

lemma top_six: "drop_bit 18 (w AND 0xfc0000) = take_bit 6 (drop_bit 18 w)" for w :: u32
proof -
  have m: "(0xfc0000 :: u32) = push_bit 18 (mask 6)" by (simp add: mask_eq_exp_minus_1)
  show ?thesis unfolding m by (rule bit_word_eqI) (auto simp: bit_simps)
qed

lemma higher_bits: "\<not> bit (w :: u8) 14" "\<not> bit (w :: u8) 15" "\<not> bit (w :: u8) 16" "\<not> bit (w :: u8) 17" "\<not> bit (w :: u8) 18" "\<not> bit (w :: u8) 19"
  "\<not> bit (w :: u8) 20" "\<not> bit (w :: u8) 21" "\<not> bit (w :: u8) 22" "\<not> bit (w :: u8) 23"
  using bit_imp_le_length [of w] by fastforce+

lemma sextet_eq:
  assumes "bit x 0 = bit v 0" "bit x 1 = bit v 1" "bit x 2 = bit v 2" "bit x 3 = bit v 3" "bit x 4 = bit v 4" "bit x 5 = bit v 5"
    and "(v :: u8) < 64"
  shows "take_bit 6 x = (ucast v :: u32)"
proof (rule bit_word_eqI)
  fix n :: nat
  assume "n < LENGTH(32)"
  consider "n \<in> {0, 1, 2, 3, 4, 5}" | "n = 6 \<or> n = 7" | "8 \<le> n" by fastforce
  then show "bit (take_bit 6 x) n = bit (ucast v :: u32) n"
  proof cases
    case 1
    then show ?thesis using assms(1-6) by (elim insertE emptyE) (simp_all add: bit_simps)
  next
    case 2
    then show ?thesis using assms(7) unfolding sextet_bits by (auto simp: bit_simps)
  next
    case 3
    then show ?thesis using bit_imp_le_length [of v n] by (auto simp: bit_simps)
  qed
qed

lemma group_digits:
  "drop_bit 18 (group_bits a b c AND 0xfc0000) = ucast (output0 a)"
  "drop_bit 18 (push_bit 6 (group_bits a b c) AND 0xfc0000) = ucast (output1 a b)"
  "drop_bit 18 (push_bit 6 (push_bit 6 (group_bits a b c)) AND 0xfc0000) = ucast (output2 b c)"
  "drop_bit 18 (push_bit 6 (push_bit 6 (push_bit 6 (group_bits a b c))) AND 0xfc0000) = ucast (output3 c)"
  unfolding top_six
  by (rule sextet_eq; simp add: group_bits_def output_or output0_def bits8 higher_bits outputs_small [unfolded output_or output0_def] del: add_2_eq_Suc push_bit_and)+

lemma digits_of_group:
  "digits 4 0 0 (group_bits a b c) = [digit64 (output0 a), digit64 (output1 a b), digit64 (output2 b c), digit64 (output3 c)]"
  "digits 4 (Suc 0) 0 (group_bits a b c) = [digit64 (output0 a), digit64 (output1 a b), digit64 (output2 b c), Pad64]"
  "digits 4 2 0 (group_bits a b c) = [digit64 (output0 a), digit64 (output1 a b), Pad64, Pad64]"
proof -
  have four: "digits 4 = digits (Suc (Suc (Suc (Suc 0))))" by (simp add: eval_nat_numeral)
  have "unat (ucast v :: u32) = unat v" for v :: u8
  proof -
    have "unat v < 2 ^ LENGTH(8)" by (rule unsigned_less)
    then show ?thesis by (simp add: unsigned_ucast_eq take_bit_nat_eq_self)
  qed
  then show "digits 4 0 0 (group_bits a b c) = [digit64 (output0 a), digit64 (output1 a b), digit64 (output2 b c), digit64 (output3 c)]"
    "digits 4 (Suc 0) 0 (group_bits a b c) = [digit64 (output0 a), digit64 (output1 a b), digit64 (output2 b c), Pad64]"
    "digits 4 2 0 (group_bits a b c) = [digit64 (output0 a), digit64 (output1 a b), Pad64, Pad64]"
    unfolding four digits.simps group_digits by (simp_all add: digit64_def nib2b64_Base64 Pad64_def)
qed

lemma base64_digits_b64: "base64_digits val = b64 val"
  by (induction val rule: b64.induct) (simp_all add: digits_of_group)

section \<open>Lengths\<close>

lemma folded_length: "2 \<le> len \<Longrightarrow> \<exists>k. length (folded width len cs) = length cs + 2 * k \<and> k * width + 2 \<le> len + length cs"
proof (induction width len cs rule: folded.induct)
  case (2 width len c cs)
  show ?case
  proof (cases "len > width")
    case True
    then obtain k where "length (folded width 2 cs) = length cs + 2 * k" "k * width + 2 \<le> 2 + length cs" using 2 by auto
    then show ?thesis using True by (intro exI [of _ "Suc k"]) simp
  next
    case False
    then obtain k where "length (folded width (len + 1) cs) = length cs + 2 * k" "k * width + 2 \<le> len + 1 + length cs" using 2 by auto
    then show ?thesis using False by (intro exI [of _ k]) simp
  qed
qed simp

lemma folded_bound:
  assumes "2 \<le> len" "0 < width"
  shows "length (folded width len cs) \<le> length cs + (len + length cs - 2) div width * 2"
proof -
  obtain k where k: "length (folded width len cs) = length cs + 2 * k" "k * width + 2 \<le> len + length cs"
    using folded_length [OF assms(1)] by blast
  then have "k * width div width \<le> (len + length cs - 2) div width" by (intro div_le_mono) linarith
  then show ?thesis using k(1) assms(2) by simp
qed

definition size_needed :: "nat \<Rightarrow> nat \<Rightarrow> nat" where
  "size_needed n v = n + 4 + (v * 4 div 3 + 3) + (v * 4 div 3 + 3 + n + 3) div 76 * 2"

lemma folded_fits:
  assumes "width = 76 \<or> width = 77" "2 \<le> len" "len \<le> n + 3" "length cs \<le> v * 4 div 3 + 3"
  shows "len + length (folded width len cs) + 1 \<le> size_needed n v"
proof -
  have w: "0 < width" "76 \<le> width" using assms(1) by auto
  have "len + length cs - 2 \<le> v * 4 div 3 + 3 + n + 3" using assms(3,4) by linarith
  then have "(len + length cs - 2) div 76 \<le> (v * 4 div 3 + 3 + n + 3) div 76" by (rule div_le_mono)
  moreover have "(len + length cs - 2) div width \<le> (len + length cs - 2) div 76" using w(2) by (intro div_le_mono2) simp
  ultimately have "(len + length cs - 2) div width \<le> (v * 4 div 3 + 3 + n + 3) div 76" by (rule order_trans [rotated])
  then show ?thesis using folded_bound [OF assms(2) w(1), of cs] assms(3,4) by (simp add: size_needed_def)
qed

lemma quotient_bounds: "3 * (x div 3) \<le> x" "x < 3 * (x div 3) + 3" for x :: nat
  by simp_all

lemma b64_length_le: "length (b64 val) \<le> length val * 4 div 3 + 3"
  using quotient_bounds [of "length val + 2"] quotient_bounds [of "length val * 4"] unfolding b64_length by linarith

lemma value_length_le: "v \<le> v * 4 div 3 + (3 :: nat)"
  using quotient_bounds [of "v * 4"] by linarith

lemma of_nat_div_word: "a < 2 ^ 32 \<Longrightarrow> b < 2 ^ 32 \<Longrightarrow> (of_nat a div of_nat b :: u32) = of_nat (a div b)"
  by (rule word_unat_eq_iff [THEN iffD2])
    (use div_le_dividend [of a b] in \<open>simp add: unat_div unat_of_nat del: div_le_dividend\<close>)

lemma size_needed_word:
  assumes "n < 2 ^ 29" "v < 2 ^ 29"
  shows "unat (LDIF_SIZE_NEEDED (of_nat n) (of_nat v) + 1) = size_needed n v + 1"
proof -
  have d: "v * 4 div 3 \<le> v * 4" by (rule div_le_dividend)
  have b: "LDIF_BASE64_LEN (of_nat v) = of_nat (v * 4 div 3 + 3)"
    using of_nat_div_word [of "v * 4" 3] assms(2) by (simp add: LDIF_BASE64_LEN_def)
  have q: "(v * 4 div 3 + 3 + n + 3) div 76 \<le> v * 4 + n + 6" using d by (intro div_le_dividend [THEN le_trans]) simp
  have e: "LDIF_SIZE_NEEDED (of_nat n) (of_nat v) + 1 = of_nat (size_needed n v + 1)"
    unfolding LDIF_SIZE_NEEDED_def b LDIF_LINE_WIDTH_def size_needed_def
    using of_nat_div_word [of "v * 4 div 3 + 3 + n + 3" 76] d assms by simp
  have "size_needed n v + 1 < 2 ^ LENGTH(32)"
  proof -
    have "x div 76 * 2 \<le> x" for x :: nat by linarith
    from this [of "v * 4 div 3 + 3 + n + 3"] show ?thesis
      using quotient_bounds [of "v * 4"] assms [simplified] unfolding size_needed_def by simp
  qed
  then show ?thesis unfolding e by (simp only: unat_of_nat) simp
qed

lemma sput_fits:
  assumes "ldif_sput type name val = Some (out, taken_back)"
  defines "n \<equiv> case name of None \<Rightarrow> 0 | Some s \<Rightarrow> length s"
  shows "length out \<le> size_needed n (length val) \<and> taken_back \<le> size_needed n (length val)"
proof -
  have raw_text: "len + length (folded 76 len val) + 1 \<le> size_needed n (length val)" if "2 \<le> len" "len \<le> n + 3" for len
    using folded_fits [OF _ that value_length_le] by blast
  have binary: "len + length (folded 77 len (b64 val)) + 1 \<le> size_needed n (length val)" if "2 \<le> len" "len \<le> n + 3" for len
    using folded_fits [OF _ that b64_length_le] by blast
  have "length (takeWhile isprint val) \<le> length val * 4 div 3 + 3"
    using length_takeWhile_le value_length_le by (rule order_trans)
  then have printed: "len + length (folded 77 len (takeWhile isprint val)) + 1 \<le> size_needed n (length val)"
    if "2 \<le> len" "len \<le> n + 3" for len using folded_fits [OF _ that] by blast
  have small: "n + 4 \<le> size_needed n (length val)" by (simp add: size_needed_def)
  show ?thesis
    using assms(1) raw_text [of "n + 2"] raw_text [of "Suc (Suc (Suc n))"] binary [of "Suc (Suc (Suc n))"] printed [of "n + 2"] small
    by (auto simp: ldif_sput_def Let_def n_def base64_digits_b64 LDIF_LINE_WIDTH_def LDIF_KLUDGE_def
        simp del: takeWhile_eq_all_conv split: if_splits option.splits)
qed

section \<open>Reading lines back\<close>

text \<open>A folded line after \<open>ldif_getline\<close>.\<close>

fun marked :: "nat \<Rightarrow> nat \<Rightarrow> octets \<Rightarrow> octets" where
  "marked width len [] = []"
| "marked width len (c # cs) =
    (if len > width then CONTINUED_LINE_MARKER # CONTINUED_LINE_MARKER # c # marked width 2 cs
     else c # marked width (len + 1) cs)"

abbreviation unmarked :: "octets \<Rightarrow> octets" where
  "unmarked s \<equiv> filter (\<lambda>c. c \<noteq> CONTINUED_LINE_MARKER) s"

lemma unmarked_marked: "unmarked (marked width len cs) = unmarked cs"
  by (induction width len cs rule: marked.induct) auto

definition starts_line :: "octets \<Rightarrow> bool" where
  "starts_line rest \<longleftrightarrow> rest = [] \<or> \<not> isspace (hd rest) \<or> hd rest = 0x0a"

lemma line_scan_char: "x \<noteq> 0x0a \<Longrightarrow> line_scan (x # xs) = (x # fst (line_scan xs), snd (line_scan xs))"
  by (cases xs) (auto split: prod.splits)

lemma line_scan_chars: "0x0a \<notin> set pre \<Longrightarrow> line_scan (pre @ xs) = (pre @ fst (line_scan xs), snd (line_scan xs))"
  by (induction pre) (simp_all add: line_scan_char del: line_scan.simps(3))

lemma line_scan_newline: "starts_line rest \<Longrightarrow> line_scan (0x0a # rest) = ([], Some rest)"
  by (cases rest) (auto simp: starts_line_def)

lemma line_scan_folded:
  "0x0a \<notin> set cs \<Longrightarrow> line_scan (folded width len cs @ xs) = (marked width len cs @ fst (line_scan xs), snd (line_scan xs))"
proof (induction width len cs rule: folded.induct)
  case (2 width len c cs)
  have "isspace 0x20" by (simp add: isspace_def)
  then show ?case using 2 by (simp add: line_scan_char del: line_scan.simps(3)) (simp add: line_scan_char split: prod.splits)
qed simp

lemma getline_line:
  assumes "0x0a \<notin> set pre" "pre \<noteq> []" "0x0a \<notin> set cs" "starts_line rest"
  shows "ldif_getline (Some (pre @ folded width len cs @ 0x0a # rest)) =
    (if hd pre = 0x23 then ldif_getline (Some rest) else (Some (pre @ marked width len cs), Some rest))"
proof -
  have "line_scan (pre @ folded width len cs @ 0x0a # rest) = (pre @ marked width len cs, Some rest)"
    using assms by (simp add: line_scan_chars line_scan_folded line_scan_newline)
  moreover have "hd pre \<noteq> 0x0a" using assms(1,2) by (metis list.set_sel(1))
  ultimately show ?thesis using assms(2) by (subst ldif_getline.simps) simp
qed

section \<open>Parsing lines\<close>

lemma nibble_facts: "list_all (\<lambda>v. nibble (digit64 v) = v \<and> b64_valid (digit64 v) \<and> digit64 v \<noteq> 0x3d \<and> digit64 v \<noteq> 0x0a
    \<and> digit64 v \<noteq> 0x01 \<and> \<not> isspace (digit64 v)) (map of_nat [0..<64])"
  by code_simp

lemma nibble_digit:
  assumes "v < 64"
  shows "nibble (digit64 v) = v" "b64_valid (digit64 v)" "digit64 v \<noteq> 0x3d" "digit64 v \<noteq> 0x0a" "digit64 v \<noteq> 0x01"
    "\<not> isspace (digit64 v)"
proof -
  have "v = of_nat (unat v)" "unat v < 64" using assms by (simp_all add: word_less_nat_alt)
  then have "v \<in> set (map of_nat [0..<64])" by (metis atLeastLessThan_iff image_eqI le0 set_map set_upt)
  then show "nibble (digit64 v) = v" "b64_valid (digit64 v)" "digit64 v \<noteq> 0x3d" "digit64 v \<noteq> 0x0a" "digit64 v \<noteq> 0x01"
      "\<not> isspace (digit64 v)"
    using nibble_facts unfolding list_all_iff by blast+
qed

lemma nib_shift_small: "v < 64 \<Longrightarrow> nib_shift schar n v = drop_bit n v"
proof -
  assume "v < 64"
  then have "\<not> bit v 7" by (simp add: sextet_bits)
  then have "bit (signed_drop_bit n v) k = bit (drop_bit n v) k" if "k < 8" for k
  proof (cases "8 - n \<le> k")
    case True
    then have "\<not> bit v (n + k)" using bit_imp_le_length [of v "n + k"] by auto
    then show ?thesis using True that \<open>\<not> bit v 7\<close> by (simp add: bit_simps)
  qed (simp add: bit_simps)
  then have "signed_drop_bit n v = drop_bit n v" by (intro bit_word_eqI) simp
  then show ?thesis by (simp add: nib_shift_def)
qed

lemma b64_decode_b64: "b64_decode schar (b64 d) = Some d"
proof (induction d rule: b64.induct)
  case (1 a b c src)
  then show ?case
    by (simp add: nibble_digit nib_shift_small outputs_small octets_of_outputs [unfolded octet0_def octet1_def octet2_def] Let_def)
next
  case (2 a b)
  have "b64_valid Pad64" by (simp add: b64_valid_def Pad64_def)
  then show ?case
    by (simp add: nibble_digit nib_shift_small outputs_small octets_of_outputs [unfolded octet0_def octet1_def octet2_def] Let_def Pad64_def)
next
  case (3 a)
  have "b64_valid Pad64" by (simp add: b64_valid_def Pad64_def)
  then show ?case
    by (simp add: nibble_digit nib_shift_small outputs_small octets_of_outputs [unfolded octet0_def octet1_def octet2_def] Let_def Pad64_def)
qed simp

text \<open>An attribute name as LDIF lines can hold it.\<close>

definition ok_name :: "octets \<Rightarrow> bool" where
  "ok_name s \<longleftrightarrow> s \<noteq> [] \<and> 0x3a \<notin> set s \<and> 0x0a \<notin> set s \<and> hd s \<noteq> 0x23 \<and> \<not> isspace (hd s) \<and> \<not> isspace (last s)"

lemma trim_end_id: "\<not> isspace (last s) \<Longrightarrow> trim_end s = s"
  by (cases s rule: rev_cases) (auto simp: trim_end_def tl_append split: list.splits)

lemma marked_start: "cs = [] \<or> \<not> isspace (hd cs) \<Longrightarrow> dropWhile isspace (marked width len cs) = marked width len cs"
proof -
  have "\<not> isspace CONTINUED_LINE_MARKER" by (simp add: isspace_def CONTINUED_LINE_MARKER_def)
  then show "cs = [] \<or> \<not> isspace (hd cs) \<Longrightarrow> dropWhile isspace (marked width len cs) = marked width len cs"
    by (cases cs) auto
qed

text \<open>A line with a name: the rest decides about the value.\<close>

lemma parse_named:
  assumes "ok_name name" "\<forall>n. mem n"
  shows "ldif_parse_line schar mem fetch (name @ 0x3a # s) =
    (let url = (s \<noteq> [] \<and> hd s = 0x3c); b64 = (s \<noteq> [] \<and> hd s = 0x3a);
         s1 = unmarked (dropWhile isspace (if url \<or> b64 then tl s else s))
     in map_option (Pair name) (if s = [] then Some (Some []) else if s1 = [] then Some None
       else if b64 then map_option Some (b64_decode schar s1) else if url then fetch s1 else Some (Some s1)))"
proof -
  have "dropWhile isspace (name @ 0x3a # s) = name @ 0x3a # s" using assms(1) by (cases name) (auto simp: ok_name_def)
  moreover have "takeWhile (\<lambda>c. c \<noteq> 0x3a) (name @ 0x3a # s) = name" "dropWhile (\<lambda>c. c \<noteq> 0x3a) (name @ 0x3a # s) = 0x3a # s"
    using assms(1) by (auto simp: ok_name_def takeWhile_append dropWhile_append)
  moreover have "trim_end name = name" using assms(1) by (intro trim_end_id) (simp add: ok_name_def)
  ultimately show ?thesis using assms(2) by (simp add: ldif_parse_line_def Let_def split: option.splits)
qed

lemma b64_first: "val \<noteq> [] \<Longrightarrow> \<exists>v cs. v < 64 \<and> b64 val = digit64 v # cs"
  by (cases val rule: b64.cases) (auto intro: outputs_small)

lemma b64_clean: "0x0a \<notin> set (b64 val)" "unmarked (b64 val) = b64 val"
  by (induction val rule: b64.induct) (auto simp: nibble_digit outputs_small Pad64_def CONTINUED_LINE_MARKER_def)

text \<open>What can be written as it is.\<close>

definition plain_text :: "octets \<Rightarrow> bool" where
  "plain_text val \<longleftrightarrow> 0x0a \<notin> set val \<and> CONTINUED_LINE_MARKER \<notin> set val \<and> (val \<noteq> [] \<longrightarrow> \<not> isspace (hd val))"

lemma printable_plain:
  assumes "takeWhile isprint val = val" "val \<noteq> []" "isgraph (hd val)"
  shows "plain_text val"
proof -
  have "\<forall>c \<in> set val. isprint c" using assms(1) by (simp add: takeWhile_eq_all_conv)
  moreover have "\<not> isprint 0x0a" "\<not> isprint CONTINUED_LINE_MARKER" by (simp_all add: isprint_def CONTINUED_LINE_MARKER_def word_le_nat_alt)
  moreover have "\<not> isspace c" if "isgraph c" for c using that by (auto simp: isspace_def isgraph_def)
  ultimately show ?thesis using assms(3) unfolding plain_text_def by blast
qed

text \<open>A line that is read back.\<close>

definition line_ok :: "octets \<Rightarrow> octets \<Rightarrow> octets \<Rightarrow> bool" where
  "line_ok out name val \<longleftrightarrow> (\<exists>s width len cs. out = name @ 0x3a # s @ folded width len cs @ [0x0a] \<and> 0x0a \<notin> set s \<and> 0x0a \<notin> set cs
    \<and> (val = [] \<and> s = [] \<and> cs = [] \<or> val \<noteq> [] \<and> s = [0x20] \<and> cs = val \<and> plain_text val
      \<or> val \<noteq> [] \<and> s = [0x3a, 0x20] \<and> cs = b64 val))"

lemma line_ok_read:
  assumes "line_ok out name val" "ok_name name" "\<forall>n. mem n" "starts_line rest"
  shows "\<exists>line. ldif_getline (Some (out @ rest)) = (Some line, Some rest)
    \<and> ldif_parse_line schar mem fetch line = Some (name, Some val)"
proof -
  obtain s width len cs where out: "out = name @ 0x3a # s @ folded width len cs @ [0x0a]" "0x0a \<notin> set s" "0x0a \<notin> set cs"
    and c: "val = [] \<and> s = [] \<and> cs = [] \<or> val \<noteq> [] \<and> s = [0x20] \<and> cs = val \<and> plain_text val
      \<or> val \<noteq> [] \<and> s = [0x3a, 0x20] \<and> cs = b64 val" using assms(1) unfolding line_ok_def by blast
  have n: "0x0a \<notin> set (name @ 0x3a # s)" "name @ 0x3a # s \<noteq> []" "hd (name @ 0x3a # s) \<noteq> 0x23"
    using assms(2) out(2) by (auto simp: ok_name_def)
  have "ldif_getline (Some (out @ rest)) = (Some ((name @ 0x3a # s) @ marked width len cs), Some rest)"
    using getline_line [OF n(1,2) out(3) assms(4), of width len] n(3) unfolding out(1) by simp
  moreover have "ldif_parse_line schar mem fetch ((name @ 0x3a # s) @ marked width len cs) = Some (name, Some val)"
  proof -
    have sp: "isspace 0x20" by (simp add: isspace_def)
    consider "val = []" "s = []" "cs = []" | "val \<noteq> []" "s = [0x20]" "cs = val" "plain_text val"
      | "val \<noteq> []" "s = [0x3a, 0x20]" "cs = b64 val" using c by blast
    then show ?thesis
    proof cases
      case 1
      then show ?thesis by (simp add: parse_named [OF assms(2,3)])
    next
      case 2
      then have "unmarked val = val" "dropWhile isspace (marked width len val) = marked width len val"
        using marked_start by (auto simp: plain_text_def intro!: filter_True)
      then show ?thesis using 2 sp by (simp add: parse_named [OF assms(2,3)] Let_def unmarked_marked del: filter_id_conv)
    next
      case 3
      obtain v ds where v: "v < 64" "b64 val = digit64 v # ds" using b64_first [OF 3(1)] by blast
      then have "dropWhile isspace (marked width len (b64 val)) = marked width len (b64 val)"
        by (intro marked_start) (simp add: nibble_digit)
      moreover have "b64 val \<noteq> []" using v by simp
      ultimately show ?thesis using 3 sp
        by (simp add: parse_named [OF assms(2,3)] Let_def unmarked_marked b64_clean b64_decode_b64 del: filter_id_conv)
    qed
  qed
  ultimately show ?thesis by blast
qed

section \<open>Properties\<close>

text \<open>What a program may write for an entry: values, and comments between them.\<close>

definition item_ok :: "ldif_put_type \<Rightarrow> octets \<Rightarrow> octets \<Rightarrow> bool" where
  "item_ok type name val \<longleftrightarrow>
    (case type of
       LDIF_PUT_VALUE \<Rightarrow> ok_name name | LDIF_PUT_BINARY \<Rightarrow> ok_name name
     | LDIF_PUT_TEXT \<Rightarrow> ok_name name \<and> plain_text val
     | LDIF_PUT_COMMENT \<Rightarrow> 0x0a \<notin> set name \<and> 0x0a \<notin> set val
     | _ \<Rightarrow> False)"

lemma sput_line_ok:
  assumes "item_ok type name val" "type \<noteq> LDIF_PUT_COMMENT"
  shows "\<exists>out taken_back. ldif_sput type (Some name) val = Some (out, taken_back) \<and> line_ok out name val \<and> ok_name name"
proof -
  have t: "type = LDIF_PUT_VALUE \<or> type = LDIF_PUT_BINARY \<or> type = LDIF_PUT_TEXT \<and> plain_text val" "ok_name name"
    using assms by (cases type; simp add: item_ok_def)+
  have nl: "val \<noteq> [] \<Longrightarrow> line_ok (name @ 0x3a # 0x3a # 0x20 # folded width len (b64 val) @ [0x0a]) name val" for width len
    unfolding line_ok_def using b64_clean(1) by (intro exI [of _ "[0x3a, 0x20]"] exI) auto
  have tx: "val \<noteq> [] \<Longrightarrow> plain_text val \<Longrightarrow> line_ok (name @ 0x3a # 0x20 # folded width len val @ [0x0a]) name val" for width len
    unfolding line_ok_def by (intro exI [of _ "[0x20]"] exI) (auto simp: plain_text_def)
  have em: "val = [] \<Longrightarrow> line_ok (name @ [0x3a, 0x0a]) name val"
    unfolding line_ok_def by (intro exI [of _ "[]"] exI [of _ 0]) simp
  show ?thesis
  proof (cases "val = []")
    case True
    then show ?thesis using t em by (auto simp: ldif_sput_def Let_def)
  next
    case False
    have "plain_text val" if "takeWhile isprint val = val" "may_be_text name val"
      using that False printable_plain by (simp add: may_be_text_def)
    then show ?thesis using t nl [OF False] tx [OF False] False
      by (auto simp: ldif_sput_def Let_def base64_digits_b64 simp del: takeWhile_eq_all_conv)
  qed
qed

lemma sput_comment:
  assumes "item_ok LDIF_PUT_COMMENT name val"
  shows "\<exists>out taken_back. ldif_sput LDIF_PUT_COMMENT (Some name) val = Some (out, taken_back) \<and> hd out = 0x23 \<and> out \<noteq> []
    \<and> (\<forall>rest. starts_line rest \<longrightarrow> ldif_getline (Some (out @ rest)) = ldif_getline (Some rest))"
proof -
  define pre where "pre = 0x23 # (if val \<noteq> [] then [0x20] else []) @ name"
  have "ldif_sput LDIF_PUT_COMMENT (Some name) val = Some (pre @ folded 76 (length pre) val @ [0x0a], 0)"
    by (simp add: ldif_sput_def Let_def pre_def LDIF_LINE_WIDTH_def)
  moreover have "0x0a \<notin> set pre" "pre \<noteq> []" "hd pre = 0x23" "0x0a \<notin> set val" using assms by (auto simp: pre_def item_ok_def)
  moreover have "ldif_getline (Some ((pre @ folded 76 (length pre) val @ [0x0a]) @ rest)) = ldif_getline (Some rest)" if "starts_line rest" for rest
    using getline_line [OF calculation(2,3,5) that, of 76 "length pre"] calculation(4) by simp
  ultimately show ?thesis by auto
qed

text \<open>Line after line until none comes, each parsed.\<close>

fun read_lines :: "(octets \<Rightarrow> (octets \<times> octets option) option) \<Rightarrow> nat \<Rightarrow> octets option \<Rightarrow> (octets \<times> octets option) list option" where
  "read_lines parse 0 next' = None"
| "read_lines parse (Suc n) next' =
    (case ldif_getline next' of
       (None, _) \<Rightarrow> Some []
     | (Some line, next'') \<Rightarrow>
        (case parse line of None \<Rightarrow> None | Some a \<Rightarrow> map_option ((#) a) (read_lines parse n next'')))"

type_synonym item = "ldif_put_type \<times> octets \<times> octets"

fun written :: "item \<Rightarrow> octets" where
  "written (type, name, val) = (case ldif_sput type (Some name) val of None \<Rightarrow> [] | Some (out, _) \<Rightarrow> out)"

fun item_valid :: "item \<Rightarrow> bool" where
  "item_valid (type, name, val) \<longleftrightarrow> item_ok type name val"

definition attributes :: "item list \<Rightarrow> (octets \<times> octets option) list" where
  "attributes items = map (\<lambda>(type, name, val). (name, Some val)) (filter (\<lambda>(type, _). type \<noteq> LDIF_PUT_COMMENT) items)"

lemma written_starts: "item_valid i \<Longrightarrow> starts_line (written i @ rest)"
proof -
  assume v: "item_valid i"
  obtain type name val where i: "i = (type, name, val)" by (cases i)
  show ?thesis
  proof (cases "type = LDIF_PUT_COMMENT")
    case True
    have "item_ok LDIF_PUT_COMMENT name val" using v i True by simp
    then obtain out tb where "ldif_sput LDIF_PUT_COMMENT (Some name) val = Some (out, tb)" "hd out = 0x23" "out \<noteq> []"
      using sput_comment by blast
    moreover have "\<not> isspace 0x23" by (simp add: isspace_def)
    ultimately show ?thesis using i True by (simp add: starts_line_def)
  next
    case False
    then obtain out tb where "ldif_sput type (Some name) val = Some (out, tb)" "line_ok out name val" "ok_name name"
      using sput_line_ok v i by (metis item_valid.simps)
    then show ?thesis using i by (cases name) (auto simp: starts_line_def line_ok_def ok_name_def)
  qed
qed

lemma read_written:
  assumes "\<forall>n. mem n" "tail = [] \<or> hd tail = 0x0a"
  shows "list_all item_valid items \<Longrightarrow> length items < n \<Longrightarrow>
    read_lines (ldif_parse_line schar mem fetch) n (Some (concat (map written items) @ tail)) = Some (attributes items)"
proof (induction items arbitrary: n)
  case Nil
  then obtain m where "n = Suc m" by (cases n) auto
  moreover have "ldif_getline (Some tail) = (None, Some tail)" using assms(2) by (subst ldif_getline.simps) auto
  ultimately show ?case by (simp add: attributes_def)
next
  case (Cons i items)
  obtain type name val where i: "i = (type, name, val)" by (cases i)
  let ?rest = "concat (map written items) @ tail"
  have st: "starts_line ?rest"
  proof (cases items)
    case Nil
    then show ?thesis using assms(2) by (auto simp: starts_line_def)
  next
    case (Cons j js)
    then show ?thesis using written_starts [of j "concat (map written js) @ tail"] \<open>list_all item_valid (i # items)\<close> by simp
  qed
  obtain m where m: "n = Suc m" "length items < m" using Cons.prems(2) by (cases n) auto
  show ?case
  proof (cases "type = LDIF_PUT_COMMENT")
    case True
    then obtain out tb where "ldif_sput LDIF_PUT_COMMENT (Some name) val = Some (out, tb)"
        "ldif_getline (Some (out @ ?rest)) = ldif_getline (Some ?rest)"
      using sput_comment [of name val] Cons.prems(1) st i by auto
    then have "read_lines (ldif_parse_line schar mem fetch) n (Some (concat (map written (i # items)) @ tail))
        = read_lines (ldif_parse_line schar mem fetch) n (Some ?rest)" using i True m(1) by simp
    then show ?thesis using Cons.IH [of n] Cons.prems i True by (simp add: attributes_def)
  next
    case False
    then obtain out tb where o: "ldif_sput type (Some name) val = Some (out, tb)" "line_ok out name val" "ok_name name"
      using sput_line_ok [of type name val] Cons.prems(1) i by auto
    then obtain line where "ldif_getline (Some (out @ ?rest)) = (Some line, Some ?rest)"
        "ldif_parse_line schar mem fetch line = Some (name, Some val)"
      using line_ok_read [OF o(2,3) assms(1) st, of schar fetch] by blast
    then show ?thesis using Cons.IH [OF _ m(2)] Cons.prems(1) i False o(1) m(1) by (simp add: attributes_def)
  qed
qed

lemma put_spec:
  assumes "case name of None \<Rightarrow> type = LDIF_PUT_COMMENT \<or> type = LDIF_PUT_SEP | Some s \<Rightarrow> length s < 2 ^ 29" "length val < 2 ^ 29"
  shows "\<exists>out taken_back size. ldif_sput type name val = Some (out, taken_back) \<and> length out < size
    \<and> ldif_put mem type name val = Some (if mem size then Some out else None)"
proof -
  define n where "n = (case name of None \<Rightarrow> 0 | Some s \<Rightarrow> length s)"
  have w: "unat (LDIF_SIZE_NEEDED (case name of None \<Rightarrow> 0 | Some s \<Rightarrow> of_nat (length s)) (of_nat (length val)) + 1)
      = size_needed n (length val) + 1"
    using size_needed_word [of n "length val"] assms by (cases name) (simp_all add: n_def)
  have "\<exists>out taken_back. ldif_sput type name val = Some (out, taken_back)"
    using assms(1) by (auto simp: ldif_sput_def Let_def split: option.splits)
  then obtain out taken_back where o: "ldif_sput type name val = Some (out, taken_back)" by blast
  then have "length out \<le> size_needed n (length val)" "taken_back \<le> size_needed n (length val)"
    using sput_fits unfolding n_def by blast+
  then show ?thesis using o w
    by (intro exI [of _ out] exI [of _ taken_back] exI [of _ "size_needed n (length val) + 1"]) (simp add: ldif_put_def Let_def)
qed

text \<open>
  \<open>ldif_put\<close> never writes outside the buffer whose size \<open>LDIF_SIZE_NEEDED\<close> computes, whatever kind of line
  it writes and however the value is folded, encoded or, after a first attempt as text, encoded after
  all, for names and values of less than 2^29 octets; it fails only when the memory cannot be had.
\<close>

theorem ldif_put_within_buffer:
  assumes "case name of None \<Rightarrow> type = LDIF_PUT_COMMENT \<or> type = LDIF_PUT_SEP | Some s \<Rightarrow> length s < 2 ^ 29" "length val < 2 ^ 29"
  shows "\<exists>out size. ldif_put mem type name val = Some (if mem size then Some out else None) \<and> length out < size"
  using put_spec [OF assms, of mem] by blast

theorem ldif_put_within_buffer_witness:
  "ldif_put (\<lambda>n. n < 100) LDIF_PUT_VALUE (Some [0x63, 0x6e]) [0x20, 0x80] \<noteq> None"
  using ldif_put_within_buffer [where name = "Some [0x63, 0x6e]" and type = LDIF_PUT_VALUE and val = "[0x20, 0x80]" and mem = "\<lambda>n. n < 100"] by auto

text \<open>
  C23: an entry written line by line with \<open>ldif_put\<close>, with any values at all under names that LDIF can hold and
  with comments in between, is read back by \<open>ldif_getline\<close> and \<open>ldif_parse_line\<close> as the same attributes
  and values in the same order, the comments skipped, whether the values were written as text or in base
  64 and wherever the lines were folded.
\<close>

theorem ldif_entry_round_trip:
  assumes "list_all item_valid items" "\<forall>(type, name, val) \<in> set items. length name < 2 ^ 29 \<and> length val < 2 ^ 29"
    and "\<forall>n. mem n" "tail = [] \<or> hd tail = 0x0a" "length items < n"
  shows "\<exists>outs. map (\<lambda>(type, name, val). ldif_put mem type (Some name) val) items = map (\<lambda>out. Some (Some out)) outs
    \<and> read_lines (ldif_parse_line schar mem fetch) n (Some (concat outs @ tail)) = Some (attributes items)"
proof -
  have "ldif_put mem type (Some name) val = Some (Some (written (type, name, val)))" if "(type, name, val) \<in> set items" for type name val
    using put_spec [where name = "Some name" and type = type and val = val and mem = mem] assms(2,3) that by fastforce
  then have "map (\<lambda>(type, name, val). ldif_put mem type (Some name) val) items = map (\<lambda>out. Some (Some out)) (map written items)"
    by auto
  then show ?thesis using read_written [OF assms(3,4,1,5)] by blast
qed

theorem ldif_entry_round_trip_witness:
  "\<exists>outs. map (\<lambda>(type, name, val). ldif_put (\<lambda>n. True) type (Some name) val)
      [(LDIF_PUT_VALUE, [0x63, 0x6e], [0x20, 0x80]), (LDIF_PUT_COMMENT, [], [0x78]), (LDIF_PUT_VALUE, [0x73, 0x6e], replicate 99 0x41)]
      = map (\<lambda>out. Some (Some out)) outs
    \<and> read_lines (ldif_parse_line True (\<lambda>n. True) (\<lambda>url. None)) 4 (Some (concat outs @ [0x0a]))
      = Some [([0x63, 0x6e], Some [0x20, 0x80]), ([0x73, 0x6e], Some (replicate 99 0x41))]"
proof -
  let ?items = "[(LDIF_PUT_VALUE, [0x63, 0x6e], [0x20, 0x80]), (LDIF_PUT_COMMENT, [], [0x78]), (LDIF_PUT_VALUE, [0x73, 0x6e], replicate 99 0x41)] :: item list"
  have "list_all item_valid ?items" by (simp add: item_ok_def ok_name_def isspace_def)
  moreover have "\<forall>(type, name, val) \<in> set ?items. length name < 2 ^ 29 \<and> length val < 2 ^ 29" by simp
  ultimately have "\<exists>outs. map (\<lambda>(type, name, val). ldif_put (\<lambda>n. True) type (Some name) val) ?items = map (\<lambda>out. Some (Some out)) outs
      \<and> read_lines (ldif_parse_line True (\<lambda>n. True) (\<lambda>url. None)) 4 (Some (concat outs @ [0x0a])) = Some (attributes ?items)"
    by (rule ldif_entry_round_trip) simp_all
  moreover have "attributes ?items = [([0x63, 0x6e], Some [0x20, 0x80]), ([0x73, 0x6e], Some (replicate 99 0x41))]"
    by (simp add: attributes_def)
  ultimately show ?thesis by (simp only:)
qed

end
