(* ===== verification/Url.thy ===== *)
theory Url imports Charray Ldap_Codes begin

text \<open>
  The LDAP URLs of libraries/libldap/url.c.  A string is the list of its octets without the null, the null
  pointer is \<open>None\<close>; \<open>mem n\<close> says whether \<open>n\<close> octets can be had.  An outer \<open>None\<close> is a run that reads
  outside a string, reads through a null pointer or converts a number that is no \<open>int\<close>.
\<close>

section \<open>Schemes and hexadecimal escapes\<close>

definition LDAP_PROTO_TCP :: int where "LDAP_PROTO_TCP = 1"
definition LDAP_PROTO_IPC :: int where "LDAP_PROTO_IPC = 3"

definition ldap_scheme :: octets where "ldap_scheme = map of_char ''ldap''"
definition ldaps_scheme :: octets where "ldaps_scheme = map of_char ''ldaps''"
definition ldapi_scheme :: octets where "ldapi_scheme = map of_char ''ldapi''"

definition ldap_pvt_url_scheme2proto :: "octets \<Rightarrow> int" where
  "ldap_pvt_url_scheme2proto scheme =
    (if strcmp ldap_scheme scheme = 0 then LDAP_PROTO_TCP
     else if strcmp ldapi_scheme scheme = 0 then LDAP_PROTO_IPC
     else if strcmp ldaps_scheme scheme = 0 then LDAP_PROTO_TCP
     else -1)"

definition ldap_pvt_url_scheme2tls :: "octets \<Rightarrow> bool" where
  "ldap_pvt_url_scheme2tls scheme \<longleftrightarrow> strcmp ldaps_scheme scheme = 0"

definition LDAP_URL_URLCOLON :: octets where "LDAP_URL_URLCOLON = map of_char ''URL:''"
definition LDAP_URL_PREFIX :: octets where "LDAP_URL_PREFIX = map of_char ''ldap://''"
definition LDAPS_URL_PREFIX :: octets where "LDAPS_URL_PREFIX = map of_char ''ldaps://''"
definition LDAPI_URL_PREFIX :: octets where "LDAPI_URL_PREFIX = map of_char ''ldapi://''"

text \<open>Whether it is enclosed in angle brackets, the scheme, and what follows the prefix.\<close>

definition skip_url_prefix :: "octets \<Rightarrow> (bool \<times> octets \<times> octets) option" where
  "skip_url_prefix url =
    (let enclosed = (url \<noteq> [] \<and> hd url = 0x3c);
         p0 = (if enclosed then tl url else url);
         p = (if starts_with_case p0 LDAP_URL_URLCOLON then drop (length LDAP_URL_URLCOLON) p0 else p0)
     in if starts_with_case p LDAP_URL_PREFIX then Some (enclosed, ldap_scheme, drop (length LDAP_URL_PREFIX) p)
        else if starts_with_case p LDAPS_URL_PREFIX then Some (enclosed, ldaps_scheme, drop (length LDAPS_URL_PREFIX) p)
        else if starts_with_case p LDAPI_URL_PREFIX then Some (enclosed, ldapi_scheme, drop (length LDAPI_URL_PREFIX) p)
        else None)"

definition ldap_is_ldap_url :: "octets option \<Rightarrow> bool" where
  "ldap_is_ldap_url url = (case url of None \<Rightarrow> False | Some s \<Rightarrow> skip_url_prefix s \<noteq> None)"

definition ldap_is_ldaps_url :: "octets option \<Rightarrow> bool" where
  "ldap_is_ldaps_url url = (case url of None \<Rightarrow> False | Some s \<Rightarrow>
    (case skip_url_prefix s of None \<Rightarrow> False | Some (_, scheme, _) \<Rightarrow> strcmp scheme ldaps_scheme = 0))"

definition ldap_is_ldapi_url :: "octets option \<Rightarrow> bool" where
  "ldap_is_ldapi_url url = (case url of None \<Rightarrow> False | Some s \<Rightarrow>
    (case skip_url_prefix s of None \<Rightarrow> False | Some (_, scheme, _) \<Rightarrow> strcmp scheme ldapi_scheme = 0))"

definition ldap_pvt_unhex :: "u8 \<Rightarrow> u8" where
  "ldap_pvt_unhex c =
    (if 0x30 \<le> c \<and> c \<le> 0x39 then c - 0x30
     else if 0x41 \<le> c \<and> c \<le> 0x46 then c - 0x41 + 10
     else c - 0x61 + 10)"

text \<open>
  The loop passes over the null, and goes on reading behind it, when fewer than two characters follow a
  percent sign.  What it stores is read as a string afterwards, up to its first null.
\<close>

fun hex_unescape_loop :: "octets \<Rightarrow> octets option" where
  "hex_unescape_loop [] = Some []"
| "hex_unescape_loop (c # s) =
    (if c = 0x25 then
       (case s of a # b # s' \<Rightarrow> map_option ((#) (push_bit 4 (ldap_pvt_unhex a) + ldap_pvt_unhex b)) (hex_unescape_loop s')
        | _ \<Rightarrow> None)
     else map_option ((#) c) (hex_unescape_loop s))"

definition ldap_pvt_hex_unescape :: "octets \<Rightarrow> octets option" where
  "ldap_pvt_hex_unescape s = map_option (takeWhile (\<lambda>c. c \<noteq> 0)) (hex_unescape_loop s)"

section \<open>Descriptions of URLs\<close>

record ldap_url_desc =
  lud_scheme :: "octets option"
  lud_host :: "octets option"
  lud_port :: int
  lud_dn :: "octets option"
  lud_attrs :: "octets list option"
  lud_scope :: int
  lud_filter :: "octets option"
  lud_exts :: "octets list option"
  lud_crit_exts :: nat

definition LDAP_PORT :: int where "LDAP_PORT = 389"
definition LDAPS_PORT :: int where "LDAPS_PORT = 636"

definition LDAP_SCOPE_DEFAULT :: int where "LDAP_SCOPE_DEFAULT = -1"
definition LDAP_SCOPE_BASE :: int where "LDAP_SCOPE_BASE = 0"
definition LDAP_SCOPE_ONELEVEL :: int where "LDAP_SCOPE_ONELEVEL = 1"
definition LDAP_SCOPE_SUBTREE :: int where "LDAP_SCOPE_SUBTREE = 2"

datatype url_error = LDAP_URL_ERR_MEM | LDAP_URL_ERR_PARAM | LDAP_URL_ERR_BADSCHEME | LDAP_URL_ERR_BADENCLOSURE
  | LDAP_URL_ERR_BADURL | LDAP_URL_ERR_BADHOST | LDAP_URL_ERR_BADATTRS | LDAP_URL_ERR_BADSCOPE | LDAP_URL_ERR_BADFILTER
  | LDAP_URL_ERR_BADEXTS

fun url_error_code :: "url_error \<Rightarrow> int" where
  "url_error_code LDAP_URL_ERR_MEM = 1"
| "url_error_code LDAP_URL_ERR_PARAM = 2"
| "url_error_code LDAP_URL_ERR_BADSCHEME = 3"
| "url_error_code LDAP_URL_ERR_BADENCLOSURE = 4"
| "url_error_code LDAP_URL_ERR_BADURL = 5"
| "url_error_code LDAP_URL_ERR_BADHOST = 6"
| "url_error_code LDAP_URL_ERR_BADATTRS = 7"
| "url_error_code LDAP_URL_ERR_BADSCOPE = 8"
| "url_error_code LDAP_URL_ERR_BADFILTER = 9"
| "url_error_code LDAP_URL_ERR_BADEXTS = 10"

type_synonym url_result = "(url_error + ldap_url_desc) option"

definition str2scope :: "octets \<Rightarrow> int" where
  "str2scope p =
    (if strcasecmp p (map of_char ''one'') = 0 then LDAP_SCOPE_ONELEVEL
     else if strcasecmp p (map of_char ''onetree'') = 0 then LDAP_SCOPE_ONELEVEL
     else if strcasecmp p (map of_char ''base'') = 0 then LDAP_SCOPE_BASE
     else if strcasecmp p (map of_char ''sub'') = 0 then LDAP_SCOPE_SUBTREE
     else if strcasecmp p (map of_char ''subtree'') = 0 then LDAP_SCOPE_SUBTREE
     else -1)"

section \<open>Parsing, from the last part to the first\<close>

text \<open>Every function below takes the description so far and the part it starts from, if there is one.\<close>

fun unescape_all :: "octets list \<Rightarrow> octets list option" where
  "unescape_all [] = Some []"
| "unescape_all (s # ss) = (case ldap_pvt_hex_unescape s of None \<Rightarrow> None | Some t \<Rightarrow> map_option ((#) t) (unescape_all ss))"

definition url_exts :: "(nat \<Rightarrow> bool) \<Rightarrow> ldap_url_desc \<Rightarrow> octets option \<Rightarrow> url_result" where
  "url_exts mem ludp q =
    (case q of None \<Rightarrow> Some (Inr ludp)
     | Some p \<Rightarrow>
        if 0x3f \<in> set p then Some (Inl LDAP_URL_ERR_BADURL)
        else case ldap_str2charray mem p [0x2c] of
          None \<Rightarrow> None
        | Some None \<Rightarrow> Some (Inl LDAP_URL_ERR_BADEXTS)
        | Some (Some exts) \<Rightarrow>
           (case unescape_all exts of None \<Rightarrow> None
            | Some exts' \<Rightarrow>
               if exts' = [] then Some (Inl LDAP_URL_ERR_BADEXTS)
               else Some (Inr (ludp\<lparr>lud_exts := Some exts',
                 lud_crit_exts := length (filter (\<lambda>e. e \<noteq> [] \<and> hd e = 0x21) exts')\<rparr>))))"

definition url_filter :: "(nat \<Rightarrow> bool) \<Rightarrow> ldap_url_desc \<Rightarrow> octets option \<Rightarrow> url_result" where
  "url_filter mem ludp q0 =
    (case q0 of None \<Rightarrow> Some (Inr ludp)
     | Some p0 \<Rightarrow>
        (let (p, q) = cut_at 0x3f p0 in
         if p = [] then url_exts mem ludp q
         else case ldap_pvt_hex_unescape p of None \<Rightarrow> None
           | Some f \<Rightarrow>
              if f = [] then Some (Inl LDAP_URL_ERR_BADFILTER)
              else case LDAP_STRDUP mem f of None \<Rightarrow> Some (Inl LDAP_URL_ERR_MEM)
                | Some f' \<Rightarrow> url_exts mem (ludp\<lparr>lud_filter := Some f'\<rparr>) q))"

definition url_scope :: "(nat \<Rightarrow> bool) \<Rightarrow> ldap_url_desc \<Rightarrow> octets option \<Rightarrow> url_result" where
  "url_scope mem ludp q0 =
    (case q0 of None \<Rightarrow> Some (Inr ludp)
     | Some p0 \<Rightarrow>
        (let (p, q) = cut_at 0x3f p0 in
         if p = [] then url_filter mem ludp q
         else case ldap_pvt_hex_unescape p of None \<Rightarrow> None
           | Some s \<Rightarrow>
              if str2scope s = -1 then Some (Inl LDAP_URL_ERR_BADSCOPE)
              else url_filter mem (ludp\<lparr>lud_scope := str2scope s\<rparr>) q))"

definition url_attrs :: "(nat \<Rightarrow> bool) \<Rightarrow> ldap_url_desc \<Rightarrow> octets option \<Rightarrow> url_result" where
  "url_attrs mem ludp q0 =
    (case q0 of None \<Rightarrow> Some (Inr ludp)
     | Some p0 \<Rightarrow>
        (let (p, q) = cut_at 0x3f p0 in
         if p = [] then url_scope mem ludp q
         else case ldap_pvt_hex_unescape p of None \<Rightarrow> None
           | Some s \<Rightarrow>
              (case ldap_str2charray mem s [0x2c] of
                 None \<Rightarrow> None
               | Some None \<Rightarrow> Some (Inl LDAP_URL_ERR_BADATTRS)
               | Some (Some attrs) \<Rightarrow> url_scope mem (ludp\<lparr>lud_attrs := Some attrs\<rparr>) q)))"

definition url_dn :: "(nat \<Rightarrow> bool) \<Rightarrow> ldap_url_desc \<Rightarrow> octets \<Rightarrow> url_result" where
  "url_dn mem ludp p0 =
    (let (p, q) = cut_at 0x3f p0 in
     case (if p \<noteq> [] then ldap_pvt_hex_unescape p else Some []) of None \<Rightarrow> None
     | Some dn \<Rightarrow>
        (case LDAP_STRDUP mem dn of None \<Rightarrow> Some (Inl LDAP_URL_ERR_MEM)
         | Some dn' \<Rightarrow> url_attrs mem (ludp\<lparr>lud_dn := Some dn'\<rparr>) q))"

text \<open>
  A distinguished name behind two question marks in the port, as some servers send; the port string has
  been unescaped already.
\<close>

definition novell_dn :: "(nat \<Rightarrow> bool) \<Rightarrow> ldap_url_desc \<Rightarrow> octets option \<Rightarrow> url_result" where
  "novell_dn mem ludp port =
    (case (case port of None \<Rightarrow> None | Some q \<Rightarrow> snd (cut_at 0x3f q)) of
       Some (c # q) \<Rightarrow>
        (if c = 0x3f then
           (case (if q \<noteq> [] then ldap_pvt_hex_unescape q else Some []) of None \<Rightarrow> None
            | Some dn \<Rightarrow> (case LDAP_STRDUP mem dn of None \<Rightarrow> Some (Inl LDAP_URL_ERR_MEM)
                | Some dn' \<Rightarrow> Some (Inr (ludp\<lparr>lud_dn := Some dn'\<rparr>))))
         else Some (Inr ludp))
     | _ \<Rightarrow> Some (Inr ludp))"

text \<open>The host and the port, in brackets or not; the brackets are looked for again after unescaping.\<close>

definition url_hostport :: "octets \<Rightarrow> (url_error + octets \<times> octets option) option" where
  "url_hostport url =
    (case (if url \<noteq> [] \<and> hd url = 0x5b then
         (case cut_at 0x5d url of (h, None) \<Rightarrow> Inl LDAP_URL_ERR_BADURL | (h, Some r) \<Rightarrow> Inr (h, snd (cut_at 0x3a r)))
       else Inr (cut_at 0x3a url)) of
       Inl e \<Rightarrow> Some (Inl e)
     | Inr (h, None) \<Rightarrow> map_option (\<lambda>h'. Inr (h', None)) (ldap_pvt_hex_unescape h)
     | Inr (h, Some q) \<Rightarrow>
        (case ldap_pvt_hex_unescape q of None \<Rightarrow> None
         | Some q' \<Rightarrow> if q' = [] then Some (Inl LDAP_URL_ERR_BADURL)
             else map_option (\<lambda>h'. Inr (h', Some q')) (ldap_pvt_hex_unescape h)))"

definition ldap_url_parse_ext :: "(nat \<Rightarrow> bool) \<Rightarrow> octets option \<Rightarrow> url_result" where
  "ldap_url_parse_ext mem url_in =
    (case url_in of None \<Rightarrow> Some (Inl LDAP_URL_ERR_PARAM)
     | Some s \<Rightarrow>
       (case skip_url_prefix s of None \<Rightarrow> Some (Inl LDAP_URL_ERR_BADSCHEME)
        | Some (enclosed, scheme, url0) \<Rightarrow>
          if LDAP_STRDUP mem url0 = None then Some (Inl LDAP_URL_ERR_MEM)
          else if enclosed \<and> url0 = [] then None
          else if enclosed \<and> last url0 \<noteq> 0x3e then Some (Inl LDAP_URL_ERR_BADENCLOSURE)
          else
            let url1 = (if enclosed then butlast url0 else url0) in
            if \<not> mem 40 \<or> LDAP_STRDUP mem scheme = None then Some (Inl LDAP_URL_ERR_MEM)
            else
              let (hostport, p) = cut_at 0x2f url1 in
              case url_hostport hostport of
                None \<Rightarrow> None
              | Some (Inl e) \<Rightarrow> Some (Inl e)
              | Some (Inr (h, port)) \<Rightarrow>
                 (case (case port of None \<Rightarrow> Some (if strcasecmp scheme ldaps_scheme = 0 then LDAPS_PORT else LDAP_PORT)
                    | Some q \<Rightarrow> atoi q) of
                    None \<Rightarrow> None
                  | Some port_no \<Rightarrow>
                     (case LDAP_STRDUP mem (if h \<noteq> [] \<and> hd h = 0x5b then tl h else h) of
                        None \<Rightarrow> Some (Inl LDAP_URL_ERR_MEM)
                      | Some host \<Rightarrow>
                         (let ludp = \<lparr>lud_scheme = Some scheme, lud_host = Some host, lud_port = port_no, lud_dn = None,
                            lud_attrs = None, lud_scope = LDAP_SCOPE_DEFAULT, lud_filter = None, lud_exts = None, lud_crit_exts = 0\<rparr>
                          in case p of None \<Rightarrow> novell_dn mem ludp port | Some p' \<Rightarrow> url_dn mem ludp p')))))"

definition ldap_url_parse :: "(nat \<Rightarrow> bool) \<Rightarrow> octets option \<Rightarrow> url_result" where
  "ldap_url_parse mem url_in =
    (case ldap_url_parse_ext mem url_in of
       Some (Inr ludp) \<Rightarrow>
        Some (Inr (ludp\<lparr>lud_scope := (if lud_scope ludp = LDAP_SCOPE_DEFAULT then LDAP_SCOPE_BASE else lud_scope ludp),
          lud_host := (if lud_host ludp = Some [] then None else lud_host ludp)\<rparr>))
     | r \<Rightarrow> r)"

section \<open>Copies\<close>

definition dup_string :: "(nat \<Rightarrow> bool) \<Rightarrow> octets option \<Rightarrow> bool" where
  "dup_string mem s = (case s of None \<Rightarrow> True | Some t \<Rightarrow> LDAP_STRDUP mem t \<noteq> None)"

definition dup_array :: "(nat \<Rightarrow> bool) \<Rightarrow> octets list option \<Rightarrow> octets list option option" where
  "dup_array mem a = (case a of None \<Rightarrow> Some None | Some ss \<Rightarrow> map_option Some (ldap_charray_dup mem ss))"

definition ldap_url_dup :: "(nat \<Rightarrow> bool) \<Rightarrow> ldap_url_desc \<Rightarrow> ldap_url_desc option" where
  "ldap_url_dup mem ludp =
    (if mem 40 \<and> dup_string mem (lud_scheme ludp) \<and> dup_string mem (lud_host ludp) \<and> dup_string mem (lud_dn ludp)
       \<and> dup_string mem (lud_filter ludp)
     then (case dup_array mem (lud_attrs ludp) of None \<Rightarrow> None
       | Some attrs \<Rightarrow> (case dup_array mem (lud_exts ludp) of None \<Rightarrow> None
           | Some exts \<Rightarrow> Some (ludp\<lparr>lud_attrs := attrs, lud_exts := exts\<rparr>)))
     else None)"

fun ldap_url_duplist :: "(nat \<Rightarrow> bool) \<Rightarrow> ldap_url_desc list \<Rightarrow> ldap_url_desc list option" where
  "ldap_url_duplist mem [] = Some []"
| "ldap_url_duplist mem (ludp # rest) =
    (case ldap_url_dup mem ludp of None \<Rightarrow> None | Some d \<Rightarrow> map_option ((#) d) (ldap_url_duplist mem rest))"

section \<open>Lists of URLs and of hosts\<close>

definition list_separators :: octets where "list_separators = [0x2c, 0x20]"

text \<open>The last one first, each put in front of the list.\<close>

fun parse_urls :: "(nat \<Rightarrow> bool) \<Rightarrow> octets list \<Rightarrow> (int \<times> ldap_url_desc list) option" where
  "parse_urls mem [] = Some (LDAP_SUCCESS, [])"
| "parse_urls mem (url # urls) =
    (case parse_urls mem urls of None \<Rightarrow> None
     | Some (rc, ludlist) \<Rightarrow>
        if rc \<noteq> LDAP_SUCCESS then Some (rc, ludlist)
        else case ldap_url_parse mem (Some url) of None \<Rightarrow> None
          | Some (Inl e) \<Rightarrow> Some (url_error_code e, [])
          | Some (Inr ludp) \<Rightarrow> Some (LDAP_SUCCESS, ludp # ludlist))"

definition ldap_url_parselist :: "(nat \<Rightarrow> bool) \<Rightarrow> octets option \<Rightarrow> (int \<times> ldap_url_desc list) option" where
  "ldap_url_parselist mem url =
    (case url of None \<Rightarrow> Some (LDAP_PARAM_ERROR, [])
     | Some s \<Rightarrow> (case ldap_str2charray mem s list_separators of
         None \<Rightarrow> None | Some None \<Rightarrow> Some (LDAP_NO_MEMORY, []) | Some (Some urls) \<Rightarrow> parse_urls mem urls))"

text \<open>
  One host specification: the host and the string of the port.  With two colons or more it is an IPv6
  address, with a port only when it is in brackets; the copy made of it is not checked.
\<close>

definition host_spec :: "(nat \<Rightarrow> bool) \<Rightarrow> octets \<Rightarrow> (int + octets \<times> octets option) option" where
  "host_spec mem spec =
    (case cut_at 0x3a spec of
       (h, None) \<Rightarrow> Some (Inr (spec, None))
     | (h, Some p) \<Rightarrow>
        if 0x3a \<notin> set p then Some (Inr (h, Some p))
        else if spec \<noteq> [] \<and> hd spec = 0x5b then
          (case LDAP_STRDUP mem (tl spec) of None \<Rightarrow> None
           | Some s \<Rightarrow>
              (case cut_at 0x5d s of
                 (h', None) \<Rightarrow> Some (Inl LDAP_PARAM_ERROR)
               | (h', Some []) \<Rightarrow> Some (Inr (h', None))
               | (h', Some (c # q)) \<Rightarrow> if c \<noteq> 0x3a then Some (Inl LDAP_PARAM_ERROR) else Some (Inr (h', Some q))))
        else Some (Inr (spec, None)))"

definition host_desc :: "(nat \<Rightarrow> bool) \<Rightarrow> int \<Rightarrow> octets \<Rightarrow> (int + ldap_url_desc) option" where
  "host_desc mem port spec =
    (case host_spec mem spec of None \<Rightarrow> None
     | Some (Inl rc) \<Rightarrow> Some (Inl rc)
     | Some (Inr (h, p)) \<Rightarrow>
        (case (case p of None \<Rightarrow> Some port | Some q \<Rightarrow> Option.bind (ldap_pvt_hex_unescape q) atoi) of None \<Rightarrow> None
         | Some port_no \<Rightarrow>
            map_option (\<lambda>host. Inr \<lparr>lud_scheme = LDAP_STRDUP mem ldap_scheme, lud_host = Some host, lud_port = port_no,
              lud_dn = None, lud_attrs = None, lud_scope = 0, lud_filter = None, lud_exts = None, lud_crit_exts = 0\<rparr>)
              (ldap_pvt_hex_unescape h)))"

fun parse_hosts :: "(nat \<Rightarrow> bool) \<Rightarrow> int \<Rightarrow> octets list \<Rightarrow> (int \<times> ldap_url_desc list) option" where
  "parse_hosts mem port [] = Some (LDAP_SUCCESS, [])"
| "parse_hosts mem port (spec # specs) =
    (case parse_hosts mem port specs of None \<Rightarrow> None
     | Some (rc, ludlist) \<Rightarrow>
        if rc \<noteq> LDAP_SUCCESS then Some (rc, ludlist)
        else if \<not> mem 40 then Some (LDAP_NO_MEMORY, [])
        else case host_desc mem port spec of None \<Rightarrow> None
          | Some (Inl e) \<Rightarrow> Some (e, ludlist)
          | Some (Inr ludp) \<Rightarrow> Some (LDAP_SUCCESS, ludp # ludlist))"

definition ldap_url_parsehosts :: "(nat \<Rightarrow> bool) \<Rightarrow> octets option \<Rightarrow> int \<Rightarrow> (int \<times> ldap_url_desc list) option" where
  "ldap_url_parsehosts mem hosts port =
    (case hosts of None \<Rightarrow> Some (LDAP_PARAM_ERROR, [])
     | Some s \<Rightarrow> (case ldap_str2charray mem s list_separators of
         None \<Rightarrow> None | Some None \<Rightarrow> Some (LDAP_NO_MEMORY, []) | Some (Some specs) \<Rightarrow> parse_hosts mem port specs))"

text \<open>The strings below are written with a space behind every element, the last of which becomes the null.\<close>

definition bracketed :: "octets \<Rightarrow> octets" where
  "bracketed host = (if 0x3a \<in> set host then 0x5b # host @ [0x5d] else host)"

definition port_string :: "int \<Rightarrow> octets" where
  "port_string port = (if port \<noteq> 0 then 0x3a # int_digits port else [])"

definition within_size :: "(nat \<Rightarrow> bool) \<Rightarrow> nat \<Rightarrow> octets \<Rightarrow> octets option option" where
  "within_size mem n s =
    (if \<not> mem n then Some None else if length s > n then None else Some (Some (butlast s)))"

fun hosts_size :: "ldap_url_desc list \<Rightarrow> nat option" where
  "hosts_size [] = Some 1"
| "hosts_size (ludp # rest) =
    (case (lud_host ludp, hosts_size rest) of (Some host, Some n) \<Rightarrow>
       Some (n + length host + 1 + (if 0x3a \<in> set host then 2 else 0) + length (port_string (lud_port ludp)))
     | _ \<Rightarrow> None)"

definition ldap_url_list2hosts :: "(nat \<Rightarrow> bool) \<Rightarrow> ldap_url_desc list \<Rightarrow> octets option option" where
  "ldap_url_list2hosts mem ludlist =
    (if ludlist = [] then Some None
     else case hosts_size ludlist of None \<Rightarrow> None
       | Some n \<Rightarrow> within_size mem n
           (concat (map (\<lambda>ludp. bracketed (the (lud_host ludp)) @ port_string (lud_port ludp) @ [0x20]) ludlist)))"

text \<open>\<open>sizeof(":/// ")\<close> is 6.\<close>

fun urls_size :: "ldap_url_desc list \<Rightarrow> nat option" where
  "urls_size [] = Some 1"
| "urls_size (ludp # rest) =
    (case (lud_scheme ludp, lud_host ludp, urls_size rest) of (Some scheme, Some host, Some n) \<Rightarrow>
       Some (n + length scheme + length host + (if 0x3a \<in> set host then 2 else 0) + 6 + length (port_string (lud_port ludp)))
     | _ \<Rightarrow> None)"

definition ldap_url_list2urls :: "(nat \<Rightarrow> bool) \<Rightarrow> ldap_url_desc list \<Rightarrow> octets option option" where
  "ldap_url_list2urls mem ludlist =
    (if ludlist = [] then Some None
     else case urls_size ludlist of None \<Rightarrow> None
       | Some n \<Rightarrow> within_size mem n
           (concat (map (\<lambda>ludp. the (lud_scheme ludp) @ [0x3a, 0x2f, 0x2f] @ bracketed (the (lud_host ludp))
             @ port_string (lud_port ludp) @ [0x2f, 0x20]) ludlist)))"

end
