(* ===== verification/Url_Facts.thy ===== *)
theory Url_Facts imports Url Utf8_Facts begin

text \<open>
  LDAP URLs: what the unescaping does, that parsing inverts the writing of a URL from its parts, and that
  lists of hosts are printed within their buffer and read back.
\<close>

section \<open>Escapes\<close>

definition hex_digit :: "nat \<Rightarrow> u8" where
  "hex_digit n = (map of_char ''0123456789ABCDEF'') ! n"

definition escape :: "(u8 \<Rightarrow> bool) \<Rightarrow> octets \<Rightarrow> octets" where
  "escape plain s = concat (map (\<lambda>c. if plain c then [c]
    else [0x25, hex_digit (unat c div 16), hex_digit (unat c mod 16)]) s)"

text \<open>The characters that mean something in a URL are not left as they are.\<close>

definition reserved :: octets where "reserved = map of_char ''%?/:[],''"

definition url_safe :: "(u8 \<Rightarrow> bool) \<Rightarrow> bool" where
  "url_safe plain \<longleftrightarrow> (\<forall>c. plain c \<longrightarrow> c \<notin> set reserved \<and> 0 < c \<and> c < 0x80)"

lemma hex_digits: "list_all (\<lambda>c. push_bit 4 (ldap_pvt_unhex (hex_digit (unat c div 16))) + ldap_pvt_unhex (hex_digit (unat c mod 16)) = c)
    (map of_nat [0..<256])"
  by code_simp

lemma hex_digit_clean: "list_all (\<lambda>n. hex_digit n \<notin> set reserved \<and> 0 < hex_digit n \<and> hex_digit n < 0x80) [0..<16]"
  by code_simp

lemma all_octets: "c \<in> set (map of_nat [0..<256])" for c :: u8
proof -
  have "c = of_nat (unat c)" "unat c < 256" using unsigned_less [of c] by simp_all
  then show ?thesis by (metis atLeastLessThan_iff image_eqI le0 set_map set_upt)
qed

lemma unhex_hex: "push_bit 4 (ldap_pvt_unhex (hex_digit (unat c div 16))) + ldap_pvt_unhex (hex_digit (unat c mod 16)) = c"
  using hex_digits all_octets [of c] unfolding list_all_iff by blast

lemma hex_digit_safe: "n < 16 \<Longrightarrow> hex_digit n \<notin> set reserved \<and> 0 < hex_digit n \<and> hex_digit n < 0x80"
  using hex_digit_clean unfolding list_all_iff by simp

lemma escape_simps [simp]: "escape plain [] = []"
  "escape plain (c # s) = (if plain c then [c] else [0x25, hex_digit (unat c div 16), hex_digit (unat c mod 16)]) @ escape plain s"
  by (simp_all add: escape_def)

lemma reserved_octets: "set reserved = {0x25, 0x3f, 0x2f, 0x3a, 0x5b, 0x5d, 0x2c}"
  by (simp add: reserved_def)

lemma escape_clean:
  assumes "url_safe plain"
  shows "c \<in> set (escape plain s) \<Longrightarrow> (c \<notin> set reserved \<or> c = 0x25) \<and> 0 < c \<and> c < 0x80"
proof (induction s)
  case (Cons d s)
  have "unat d div 16 < 16" "unat d mod 16 < 16" using unsigned_less [of d] by (simp_all add: div_less_iff_less_mult)
  then have h: "hex_digit (unat d div 16) \<notin> set reserved \<and> 0 < hex_digit (unat d div 16) \<and> hex_digit (unat d div 16) < 0x80"
    "hex_digit (unat d mod 16) \<notin> set reserved \<and> 0 < hex_digit (unat d mod 16) \<and> hex_digit (unat d mod 16) < 0x80"
    using hex_digit_safe by blast+
  have "c \<in> (if plain d then {d} else {0x25, hex_digit (unat d div 16), hex_digit (unat d mod 16)}) \<union> set (escape plain s)"
    using Cons.prems by (auto split: if_splits)
  moreover have "plain d \<Longrightarrow> d \<notin> set reserved \<and> 0 < d \<and> d < 0x80" using assms by (simp add: url_safe_def)
  moreover have "(0 :: u8) < 0x25" "(0x25 :: u8) < 0x80" by simp_all
  ultimately show ?case using h Cons.IH by (auto split: if_splits)
qed simp

lemma unescape_escape:
  assumes "url_safe plain" "0 \<notin> set s"
  shows "ldap_pvt_hex_unescape (escape plain s) = Some s"
proof -
  have p: "plain c \<Longrightarrow> c \<noteq> 0x25" for c using assms(1) by (auto simp: url_safe_def reserved_octets)
  have "hex_unescape_loop (escape plain s) = Some s"
  proof (induction s)
    case (Cons c s)
    then show ?case using p [of c] unhex_hex [of c] by simp
  qed simp
  moreover have "takeWhile (\<lambda>c. c \<noteq> 0) s = s" using assms(2) by (auto simp: takeWhile_eq_all_conv)
  ultimately show ?thesis by (simp add: ldap_pvt_hex_unescape_def)
qed

lemma unescape_plain: "0x25 \<notin> set s \<Longrightarrow> 0 \<notin> set s \<Longrightarrow> ldap_pvt_hex_unescape s = Some s"
proof -
  assume a: "0x25 \<notin> set s" "0 \<notin> set s"
  have "hex_unescape_loop s = Some s" using a(1) by (induction s) auto
  moreover have "takeWhile (\<lambda>c. c \<noteq> 0) s = s" using a(2) by (auto simp: takeWhile_eq_all_conv)
  ultimately show ?thesis by (simp add: ldap_pvt_hex_unescape_def)
qed

section \<open>Cutting strings\<close>

lemma cut_at_found: "c \<notin> set a \<Longrightarrow> cut_at c (a @ c # r) = (a, Some r)"
  by (induction a) (auto simp: cut_at_def)

lemma cut_at_missing: "c \<notin> set a \<Longrightarrow> cut_at c a = (a, None)"
  by (induction a) (auto simp: cut_at_def)

lemma joined_split: "xs \<noteq> [] \<Longrightarrow> joined sep xs = hd xs @ concat (map (\<lambda>w. sep @ w) (tl xs))"
  by (cases xs) simp_all

section \<open>Splitting ASCII strings\<close>

lemma pieces_map: "pieces P (map f xs) = map (map f) (pieces (P \<circ> f) xs)"
proof (induction "length xs" arbitrary: xs rule: less_induct)
  case less
  have d: "dropWhile P (map f xs) = map f (dropWhile (P \<circ> f) xs)" by (rule dropWhile_map)
  show ?case
  proof (cases "dropWhile (P \<circ> f) xs")
    case Nil
    then show ?thesis using d by (subst (1 2) pieces.simps) (simp del: dropWhile_eq_Nil_conv)
  next
    case (Cons y ys)
    have "length (dropWhile (\<lambda>x. \<not> P (f x)) ys) \<le> length ys" "length (dropWhile (P \<circ> f) xs) \<le> length xs"
      by (rule length_dropWhile_le)+
    then have "pieces P (map f (dropWhile (\<lambda>x. \<not> P (f x)) ys)) = map (map f) (pieces (P \<circ> f) (dropWhile (\<lambda>x. \<not> P (f x)) ys))"
      using less Cons by simp
    then show ?thesis using d Cons by (subst (1 2) pieces.simps) (simp add: takeWhile_map dropWhile_map comp_def)
  qed
qed

lemma set_pieces: "p \<in> set (pieces P xs) \<Longrightarrow> set p \<subseteq> set xs"
proof (induction "length xs" arbitrary: xs rule: less_induct)
  case less
  show ?case
  proof (cases "dropWhile P xs")
    case Nil
    then show ?thesis using less.prems by (subst (asm) pieces.simps) (simp del: dropWhile_eq_Nil_conv)
  next
    case (Cons y ys)
    then have y: "set (y # ys) \<subseteq> set xs" by (metis set_dropWhileD subsetI)
    have l: "length (dropWhile (\<lambda>x. \<not> P x) ys) < length xs"
      using length_dropWhile_le [of "\<lambda>x. \<not> P x" ys] length_dropWhile_le [of P xs] Cons by simp
    have "p = y # takeWhile (\<lambda>x. \<not> P x) ys \<or> p \<in> set (pieces P (dropWhile (\<lambda>x. \<not> P x) ys))"
      using less.prems Cons by (subst (asm) pieces.simps) simp
    then show ?thesis
    proof
      assume "p = y # takeWhile (\<lambda>x. \<not> P x) ys"
      then show ?thesis using y by (auto dest: set_takeWhileD)
    next
      assume "p \<in> set (pieces P (dropWhile (\<lambda>x. \<not> P x) ys))"
      then have "set p \<subseteq> set (dropWhile (\<lambda>x. \<not> P x) ys)" using less.hyps [OF l] by blast
      then show ?thesis using y by (auto dest: set_dropWhileD)
    qed
  qed
qed

lemma ucast_up_down: "(ucast (ucast c :: u32) :: u8) = c"
  by (rule bit_word_eqI) (auto simp: bit_simps)

definition ascii_string :: "octets \<Rightarrow> bool" where
  "ascii_string s \<longleftrightarrow> (\<forall>c \<in> set s. 0 < c \<and> c < 0x80)"

lemma ascii_code_point: "0 < c \<Longrightarrow> c < 0x80 \<Longrightarrow> 0 < sint (ucast c :: u32) \<and> ldap_ucs4_to_utf8 (ucast c) = [c]" for c :: u8
proof -
  assume c: "0 < c" "c < 0x80"
  have u: "unat (ucast c :: u32) = unat c"
  proof -
    have "unat c < 2 ^ LENGTH(8)" by (rule unsigned_less)
    then show ?thesis by (simp add: unsigned_ucast_eq take_bit_nat_eq_self)
  qed
  have "unat c < 128" "0 < unat c" using c by (simp_all add: word_less_nat_alt)
  then have s: "0 \<le> sint (ucast c :: u32)" "sint (ucast c :: u32) \<noteq> 0"
    using u by (simp_all add: nonneg_word) (metis less_irrefl sint_0 signed_eq_0_iff unat_0)
  have "(ucast c :: u32) < 0x80" using u \<open>unat c < 128\<close> by (simp add: word_less_nat_alt)
  then show "0 < sint (ucast c :: u32) \<and> ldap_ucs4_to_utf8 (ucast c) = [c]"
    using s by (simp add: ldap_ucs4_to_utf8_def ucast_up_down)
qed

lemma str2charray_ascii:
  assumes "\<forall>n. mem n" "ascii_string s" "ascii_string ds"
  shows "ldap_str2charray mem s ds = Some (Some (pieces (\<lambda>c. c \<in> set ds) s))"
proof -
  have u: "utf8_string (map ucast t) = t" if "ascii_string t" for t :: octets
    using that by (induction t) (auto simp: utf8_string_def ascii_string_def ascii_code_point)
  have cp: "list_all (\<lambda>c. 0 < sint c) (map ucast t :: u32 list)" if "ascii_string t" for t :: octets
    using that ascii_code_point by (auto simp: list_all_iff ascii_string_def)
  have "ldap_str2charray mem s ds = Some (Some (map utf8_string (pieces (\<lambda>c. c \<in> set (map ucast ds :: u32 list)) (map ucast s))))"
    using str2charray_pieces [OF assms(1) cp [OF assms(2)] cp [OF assms(3)]] u [OF assms(2)] u [OF assms(3)] by simp
  moreover have "(ucast c :: u32) \<in> set (map ucast ds) \<longleftrightarrow> c \<in> set ds" for c :: u8
  proof
    assume "(ucast c :: u32) \<in> set (map ucast ds)"
    then obtain d where "d \<in> set ds" "(ucast c :: u32) = ucast d" by auto
    then show "c \<in> set ds" using ucast_up_down by metis
  qed simp
  then have "pieces (\<lambda>c. c \<in> set (map ucast ds :: u32 list)) (map ucast s) = map (map ucast) (pieces (\<lambda>c. c \<in> set ds) s)"
    unfolding pieces_map by (simp add: comp_def)
  moreover have "map utf8_string (map (map ucast) (pieces (\<lambda>c. c \<in> set ds) s)) = pieces (\<lambda>c. c \<in> set ds) s"
  proof -
    have "ascii_string p" if "p \<in> set (pieces (\<lambda>c. c \<in> set ds) s)" for p
      using that assms(2) set_pieces unfolding ascii_string_def by blast
    then show ?thesis using u by (auto simp: map_idI)
  qed
  ultimately show ?thesis by simp
qed

section \<open>A URL from its parts\<close>

record url_parts =
  up_scheme :: octets
  up_host :: octets
  up_port :: "int option"
  up_dn :: octets
  up_attrs :: "octets list"
  up_scope :: int
  up_filter :: octets
  up_exts :: "octets list"

text \<open>What follows a part, behind a separator.\<close>

abbreviation behind :: "u8 \<Rightarrow> octets option \<Rightarrow> octets" where
  "behind c q \<equiv> (case q of None \<Rightarrow> [] | Some r \<Rightarrow> c # r)"

definition scope_name :: "int \<Rightarrow> octets" where
  "scope_name scope = (if scope = LDAP_SCOPE_BASE then map of_char ''base'' else if scope = LDAP_SCOPE_ONELEVEL then map of_char ''one''
    else if scope = LDAP_SCOPE_SUBTREE then map of_char ''sub'' else [])"

definition printed_exts :: "(u8 \<Rightarrow> bool) \<Rightarrow> url_parts \<Rightarrow> octets option" where
  "printed_exts plain u = (if up_exts u = [] then None else Some (joined [0x2c] (map (escape plain) (up_exts u))))"

definition printed_filter :: "(u8 \<Rightarrow> bool) \<Rightarrow> url_parts \<Rightarrow> octets" where
  "printed_filter plain u = escape plain (up_filter u) @ behind 0x3f (printed_exts plain u)"

definition printed_scope :: "(u8 \<Rightarrow> bool) \<Rightarrow> url_parts \<Rightarrow> octets" where
  "printed_scope plain u = scope_name (up_scope u) @ 0x3f # printed_filter plain u"

definition printed_attrs :: "(u8 \<Rightarrow> bool) \<Rightarrow> url_parts \<Rightarrow> octets" where
  "printed_attrs plain u = joined [0x2c] (map (escape plain) (up_attrs u)) @ 0x3f # printed_scope plain u"

definition printed_dn :: "(u8 \<Rightarrow> bool) \<Rightarrow> url_parts \<Rightarrow> octets" where
  "printed_dn plain u = escape plain (up_dn u) @ 0x3f # printed_attrs plain u"

definition printed_hostport :: "(u8 \<Rightarrow> bool) \<Rightarrow> bool \<Rightarrow> url_parts \<Rightarrow> octets" where
  "printed_hostport plain brackets u =
    (if brackets then 0x5b # escape plain (up_host u) @ [0x5d] else escape plain (up_host u))
      @ behind 0x3a (map_option int_digits (up_port u))"

definition printed_url :: "(u8 \<Rightarrow> bool) \<Rightarrow> bool \<Rightarrow> bool \<Rightarrow> bool \<Rightarrow> url_parts \<Rightarrow> octets" where
  "printed_url plain enclosed colon brackets u =
    (if enclosed then [0x3c] else []) @ (if colon then LDAP_URL_URLCOLON else []) @ up_scheme u @ [0x3a, 0x2f, 0x2f]
      @ printed_hostport plain brackets u @ 0x2f # printed_dn plain u @ (if enclosed then [0x3e] else [])"

definition parts_ok :: "bool \<Rightarrow> url_parts \<Rightarrow> bool" where
  "parts_ok brackets u \<longleftrightarrow> up_scheme u \<in> {ldap_scheme, ldaps_scheme, ldapi_scheme}
    \<and> 0 \<notin> set (up_host u) \<and> (\<not> brackets \<longrightarrow> up_host u = [] \<or> hd (up_host u) \<noteq> 0x5b)
    \<and> (case up_port u of None \<Rightarrow> True | Some i \<Rightarrow> - (2 ^ 31) \<le> i \<and> i < 2 ^ 31)
    \<and> 0 \<notin> set (up_dn u) \<and> 0 \<notin> set (up_filter u) \<and> up_scope u \<in> {LDAP_SCOPE_DEFAULT, LDAP_SCOPE_BASE, LDAP_SCOPE_ONELEVEL, LDAP_SCOPE_SUBTREE}
    \<and> list_all (\<lambda>a. a \<noteq> [] \<and> ascii_string a \<and> 0x2c \<notin> set a) (up_attrs u)
    \<and> list_all (\<lambda>e. e \<noteq> [] \<and> 0 \<notin> set e) (up_exts u)"

text \<open>The description of the parts.\<close>

definition described :: "url_parts \<Rightarrow> ldap_url_desc" where
  "described u = \<lparr>lud_scheme = Some (up_scheme u), lud_host = Some (up_host u),
    lud_port = (case up_port u of None \<Rightarrow> if up_scheme u = ldaps_scheme then LDAPS_PORT else LDAP_PORT | Some i \<Rightarrow> i),
    lud_dn = Some (up_dn u), lud_attrs = (if up_attrs u = [] then None else Some (up_attrs u)), lud_scope = up_scope u,
    lud_filter = (if up_filter u = [] then None else Some (up_filter u)),
    lud_exts = (if up_exts u = [] then None else Some (up_exts u)), lud_crit_exts = length (filter (\<lambda>e. hd e = 0x21) (up_exts u))\<rparr>"

lemma cut_at_behind: "c \<notin> set a \<Longrightarrow> cut_at c (a @ behind c q) = (a, q)"
  by (cases q) (simp_all add: cut_at_found cut_at_missing)

lemma unescape_loop_append: "hex_unescape_loop a = Some x \<Longrightarrow> hex_unescape_loop (a @ b) = map_option ((@) x) (hex_unescape_loop b)"
proof (induction a arbitrary: x rule: hex_unescape_loop.induct)
  case 1
  then show ?case by (cases "hex_unescape_loop b") simp_all
next
  case (2 c s)
  then show ?case by (cases "hex_unescape_loop b") (auto split: if_splits list.splits)
qed

lemma unescape_loop_escape: "url_safe plain \<Longrightarrow> hex_unescape_loop (escape plain s) = Some s"
proof (induction s)
  case (Cons c s)
  then show ?case using unhex_hex [of c] by (auto simp: url_safe_def reserved_octets)
qed simp

lemma cons_fold: "(\<lambda>w. [c] @ w) = (#) c"
  by (rule ext) simp

lemma unescape_loop_joined:
  assumes "url_safe plain"
  shows "hex_unescape_loop (joined [0x2c] (map (escape plain) vs)) = Some (joined [0x2c] vs)"
proof (cases vs)
  case (Cons v ws)
  have "hex_unescape_loop (concat (map (\<lambda>w. [0x2c] @ w) (map (escape plain) ws))) = Some (concat (map (\<lambda>w. [0x2c] @ w) ws))"
    by (induction ws) (simp_all add: unescape_loop_append [OF unescape_loop_escape [OF assms]])
  then show ?thesis using Cons unescape_loop_append [OF unescape_loop_escape [OF assms]] by (simp add: comp_def cons_fold)
qed simp

lemma pieces_of_joined:
  assumes "list_all (\<lambda>v. v \<noteq> [] \<and> 0x2c \<notin> set v) vs"
  shows "pieces (\<lambda>c. c \<in> set [0x2c]) (joined [0x2c] vs) = vs"
proof (cases vs)
  case Nil
  then show ?thesis by (simp add: pieces.simps)
next
  case (Cons v ws)
  have "list_all (\<lambda>v. v \<noteq> [] \<and> list_all (\<lambda>c. \<not> c \<in> set [0x2c]) v) (v # ws)"
    using assms unfolding Cons by (auto simp: list_all_iff)
  then show ?thesis using pieces_joined [where P = "\<lambda>c. c \<in> set [0x2c]" and d = "0x2c" and v = v and vs = ws] Cons by (simp add: cons_fold)
qed

lemma ascii_joined: "\<forall>v \<in> set vs. ascii_string v \<Longrightarrow> ascii_string (joined [0x2c] vs)"
  by (cases vs) (auto simp: ascii_string_def)

lemma set_joined: "c \<in> set (joined [0x2c] vs) \<Longrightarrow> c = 0x2c \<or> (\<exists>v \<in> set vs. c \<in> set v)"
  by (cases vs) (auto split: if_splits)

lemma escape_ascii: "url_safe plain \<Longrightarrow> ascii_string (escape plain s)" "url_safe plain \<Longrightarrow> 0x2c \<notin> set (escape plain s)"
    "url_safe plain \<Longrightarrow> 0x3f \<notin> set (escape plain s)"
  using escape_clean [of plain _ s] by (fastforce simp: ascii_string_def reserved_octets)+

lemma escape_empty [simp]: "escape plain s = [] \<longleftrightarrow> s = []"
  by (cases s) simp_all

lemma unescape_all_escape: "url_safe plain \<Longrightarrow> list_all (\<lambda>e. e \<noteq> [] \<and> 0 \<notin> set e) es \<Longrightarrow> unescape_all (map (escape plain) es) = Some es"
  by (induction es) (auto simp: unescape_escape)

text \<open>The parts from the last to the first.\<close>

lemma exts_parsed:
  assumes "\<forall>n. mem n" "url_safe plain" "list_all (\<lambda>e. e \<noteq> [] \<and> 0 \<notin> set e) (up_exts u)"
    and "lud_exts d = None" "lud_crit_exts d = 0"
  shows "url_exts mem d (printed_exts plain u) = Some (Inr (d\<lparr>lud_exts := (if up_exts u = [] then None else Some (up_exts u)),
    lud_crit_exts := length (filter (\<lambda>e. hd e = 0x21) (up_exts u))\<rparr>))"
proof (cases "up_exts u = []")
  case False
  let ?p = "joined [0x2c] (map (escape plain) (up_exts u))"
  have q: "0x3f \<notin> set ?p" using escape_ascii(3) [OF assms(2)] by (auto dest!: set_joined)
  have "ascii_string ?p" using escape_ascii(1) [OF assms(2)] by (intro ascii_joined) simp
  moreover have "ascii_string [0x2c]" by (simp add: ascii_string_def)
  moreover have "list_all (\<lambda>v. v \<noteq> [] \<and> 0x2c \<notin> set v) (map (escape plain) (up_exts u))"
    using escape_ascii(2) [OF assms(2)] assms(3) by (auto simp: list_all_iff)
  ultimately have a: "ldap_str2charray mem ?p [0x2c] = Some (Some (map (escape plain) (up_exts u)))"
    using str2charray_ascii [OF assms(1)] pieces_of_joined by simp
  have f: "filter (\<lambda>e. e \<noteq> [] \<and> hd e = 0x21) (up_exts u) = filter (\<lambda>e. hd e = 0x21) (up_exts u)"
    using assms(3) by (intro filter_cong) (auto simp: list_all_iff)
  have "printed_exts plain u = Some ?p" using False by (simp add: printed_exts_def)
  then have "url_exts mem d (printed_exts plain u) = Some (Inr (d\<lparr>lud_exts := Some (up_exts u),
      lud_crit_exts := length (filter (\<lambda>e. e \<noteq> [] \<and> hd e = 0x21) (up_exts u))\<rparr>))"
    using False q unfolding url_exts_def by (simp only: option.case a unescape_all_escape [OF assms(2,3)] if_False if_True simp_thms)
  then show ?thesis unfolding f using False by simp
qed (use assms(4,5) in \<open>simp add: url_exts_def printed_exts_def\<close>)

lemma filter_parsed:
  assumes "\<forall>n. mem n" "url_safe plain" "0 \<notin> set (up_filter u)" "lud_filter d = None"
  shows "url_filter mem d (Some (printed_filter plain u)) =
    url_exts mem (d\<lparr>lud_filter := (if up_filter u = [] then None else Some (up_filter u))\<rparr>) (printed_exts plain u)"
proof -
  have "cut_at 0x3f (printed_filter plain u) = (escape plain (up_filter u), printed_exts plain u)"
    unfolding printed_filter_def by (rule cut_at_behind [OF escape_ascii(3) [OF assms(2)]])
  moreover have e: "d\<lparr>lud_filter := None\<rparr> = d" using assms(4) by (cases d) simp
  ultimately show ?thesis using unescape_escape [OF assms(2,3)]
    by (simp add: url_filter_def LDAP_STRDUP_def e assms(1))
qed

lemma scope_parsed:
  assumes "up_scope u \<in> {LDAP_SCOPE_DEFAULT, LDAP_SCOPE_BASE, LDAP_SCOPE_ONELEVEL, LDAP_SCOPE_SUBTREE}" "lud_scope d = LDAP_SCOPE_DEFAULT"
  shows "url_scope mem d (Some (printed_scope plain u)) = url_filter mem (d\<lparr>lud_scope := up_scope u\<rparr>) (Some (printed_filter plain u))"
proof -
  have n: "0x3f \<notin> set (scope_name (up_scope u))" "0x25 \<notin> set (scope_name (up_scope u))" "0 \<notin> set (scope_name (up_scope u))"
    by (simp_all add: scope_name_def)
  have "cut_at 0x3f (printed_scope plain u) = (scope_name (up_scope u), Some (printed_filter plain u))"
    unfolding printed_scope_def by (rule cut_at_found [OF n(1)])
  moreover have "if up_scope u = LDAP_SCOPE_DEFAULT then scope_name (up_scope u) = []
      else scope_name (up_scope u) \<noteq> [] \<and> str2scope (scope_name (up_scope u)) = up_scope u \<and> up_scope u \<noteq> -1"
    using assms(1) by (auto simp: scope_name_def str2scope_def strcasecmp_def tolower_def LDAP_SCOPE_DEFAULT_def
        LDAP_SCOPE_BASE_def LDAP_SCOPE_ONELEVEL_def LDAP_SCOPE_SUBTREE_def)
  moreover have "d\<lparr>lud_scope := LDAP_SCOPE_DEFAULT\<rparr> = d" using assms(2) by (cases d) simp
  ultimately show ?thesis using unescape_plain [OF n(2,3)] by (auto simp: url_scope_def split: if_splits)
qed

lemma attrs_parsed:
  assumes "\<forall>n. mem n" "url_safe plain" "list_all (\<lambda>a. a \<noteq> [] \<and> ascii_string a \<and> 0x2c \<notin> set a) (up_attrs u)" "lud_attrs d = None"
  shows "url_attrs mem d (Some (printed_attrs plain u)) =
    url_scope mem (d\<lparr>lud_attrs := (if up_attrs u = [] then None else Some (up_attrs u))\<rparr>) (Some (printed_scope plain u))"
proof -
  let ?p = "joined [0x2c] (map (escape plain) (up_attrs u))" and ?a = "joined [0x2c] (up_attrs u)"
  have "0x3f \<notin> set ?p" using escape_ascii(3) [OF assms(2)] by (auto dest!: set_joined)
  then have c: "cut_at 0x3f (printed_attrs plain u) = (?p, Some (printed_scope plain u))"
    unfolding printed_attrs_def by (rule cut_at_found)
  have asc: "ascii_string ?a" using assms(3) by (intro ascii_joined) (auto simp: list_all_iff)
  then have "0 \<notin> set ?a" unfolding ascii_string_def by blast
  then have u: "ldap_pvt_hex_unescape ?p = Some ?a"
    using unescape_loop_joined [OF assms(2)] by (simp add: ldap_pvt_hex_unescape_def takeWhile_eq_all_conv) metis
  have "list_all (\<lambda>v. v \<noteq> [] \<and> 0x2c \<notin> set v) (up_attrs u)" using assms(3) by (auto simp: list_all_iff)
  then have s: "ldap_str2charray mem ?a [0x2c] = Some (Some (up_attrs u))"
    using str2charray_ascii [OF assms(1) asc, of "[0x2c]"] pieces_of_joined by (simp add: ascii_string_def)
  have "?p = [] \<longleftrightarrow> up_attrs u = []" using assms(3) by (cases "up_attrs u") auto
  moreover have "d\<lparr>lud_attrs := None\<rparr> = d" using assms(4) by (cases d) simp
  ultimately show ?thesis using c u s by (auto simp: url_attrs_def)
qed

lemma dn_parsed:
  assumes "\<forall>n. mem n" "url_safe plain" "0 \<notin> set (up_dn u)"
  shows "url_dn mem d (printed_dn plain u) = url_attrs mem (d\<lparr>lud_dn := Some (up_dn u)\<rparr>) (Some (printed_attrs plain u))"
proof -
  have "cut_at 0x3f (printed_dn plain u) = (escape plain (up_dn u), Some (printed_attrs plain u))"
    unfolding printed_dn_def by (rule cut_at_found [OF escape_ascii(3) [OF assms(2)]])
  then show ?thesis using assms unescape_escape [OF assms(2,3)] by (simp add: url_dn_def LDAP_STRDUP_def)
qed

lemma digits_clean:
  assumes "c \<in> {0x25, 0x3a, 0x2f, 0x5b, 0x5d, 0, 0x20, 0x2c}"
  shows "c \<notin> set (int_digits i)"
  using assms int_digits_clean(1) [of c i] by (auto simp: isdigit_def)

lemma hostport_parsed:
  assumes "url_safe plain" "parts_ok brackets u"
  shows "url_hostport (printed_hostport plain brackets u) =
    Some (Inr (if brackets then 0x5b # up_host u else up_host u, map_option int_digits (up_port u)))"
proof -
  let ?h = "escape plain (up_host u)" and ?q = "map_option int_digits (up_port u)"
  have clean: "c \<notin> set ?h" if "c \<in> {0x3a, 0x5b, 0x5d}" for c
    using escape_clean [OF assms(1), of c "up_host u"] that by (auto simp: reserved_octets)
  have h0: "0 \<notin> set (up_host u)" using assms(2) by (simp add: parts_ok_def)
  have uh: "ldap_pvt_hex_unescape ?h = Some (up_host u)" "ldap_pvt_hex_unescape (0x5b # ?h) = Some (0x5b # up_host u)"
    using unescape_escape [OF assms(1) h0] by (auto simp: ldap_pvt_hex_unescape_def)
  have uq: "ldap_pvt_hex_unescape (int_digits i) = Some (int_digits i)" "int_digits i \<noteq> []" for i
    by (rule unescape_plain; rule digits_clean; simp) (rule int_digits_clean(2))
  show ?thesis
  proof (cases brackets)
    case True
    have "cut_at 0x5d ((0x5b # ?h) @ 0x5d # behind 0x3a ?q) = (0x5b # ?h, Some (behind 0x3a ?q))"
      using clean [of "0x5d"] by (intro cut_at_found) simp
    moreover have "cut_at 0x3a (behind 0x3a ?q) = ([], ?q)" using cut_at_behind [where c = "0x3a" and a = "[]" and q = ?q] by simp
    ultimately show ?thesis using True uh uq
      by (cases "up_port u") (simp_all add: url_hostport_def printed_hostport_def)
  next
    case False
    have "cut_at 0x3a (?h @ behind 0x3a ?q) = (?h, ?q)" using clean by (intro cut_at_behind) simp
    moreover have "\<not> (?h @ behind 0x3a ?q \<noteq> [] \<and> hd (?h @ behind 0x3a ?q) = 0x5b)"
      using clean [of "0x5b"] by (cases ?h) (auto split: option.splits)
    ultimately show ?thesis using False uh uq
      by (cases "up_port u") (auto simp: url_hostport_def printed_hostport_def simp del: append_is_Nil_conv)
  qed
qed

lemma prefix_skipped:
  assumes "scheme \<in> {ldap_scheme, ldaps_scheme, ldapi_scheme}"
  shows "skip_url_prefix ((if enclosed then [0x3c] else []) @ (if colon then LDAP_URL_URLCOLON else []) @ scheme @ [0x3a, 0x2f, 0x2f] @ r) =
    Some (enclosed, scheme, r)"
proof -
  note prefixes = LDAP_URL_URLCOLON_def LDAP_URL_PREFIX_def LDAPS_URL_PREFIX_def LDAPI_URL_PREFIX_def
  have t: "starts_with_case p [] = True" "starts_with_case (c # p) (d # q) \<longleftrightarrow> tolower c = tolower d \<and> starts_with_case p q" for c d p q
    by (simp_all add: starts_with_case_def)
  have l: "map of_char s = of_char (hd s) # map of_char (tl s)" if "s \<noteq> []" for s :: string using that by (cases s) simp_all
  consider "scheme = ldap_scheme" | "scheme = ldaps_scheme" | "scheme = ldapi_scheme" using assms by blast
  then show ?thesis
    by cases (cases enclosed; cases colon; simp only: skip_url_prefix_def prefixes ldap_scheme_def ldaps_scheme_def ldapi_scheme_def
      if_True if_False append_Nil Let_def; simp add: t tolower_def)+
qed

lemma scheme_port:
  assumes "scheme \<in> {ldap_scheme, ldaps_scheme, ldapi_scheme}"
  shows "strcasecmp scheme ldaps_scheme = 0 \<longleftrightarrow> scheme = ldaps_scheme"
  using assms by (auto simp: strcasecmp_equal ldap_scheme_def ldaps_scheme_def ldapi_scheme_def tolower_def)

lemma hostport_no_slash: "url_safe plain \<Longrightarrow> 0x2f \<notin> set (printed_hostport plain brackets u)"
  using escape_clean [of plain "0x2f" "up_host u"] digits_clean [of "0x2f"]
  by (auto simp: printed_hostport_def reserved_octets split: option.splits)

lemma parts_parsed:
  assumes "\<forall>n. mem n" "url_safe plain" "parts_ok brackets u"
  shows "url_dn mem \<lparr>lud_scheme = Some (up_scheme u), lud_host = Some h, lud_port = n, lud_dn = None, lud_attrs = None,
      lud_scope = LDAP_SCOPE_DEFAULT, lud_filter = None, lud_exts = None, lud_crit_exts = 0\<rparr> (printed_dn plain u) =
    Some (Inr ((described u)\<lparr>lud_host := Some h, lud_port := n\<rparr>))"
  using assms by (simp add: parts_ok_def dn_parsed attrs_parsed scope_parsed filter_parsed exts_parsed described_def)

section \<open>Reading and writing URLs and lists of hosts\<close>

text \<open>
  C17: Parsing a URL written from its parts gives the parts back: the scheme and its default port, the host in
  brackets or not, the port, the name, the attributes, the scope, the filter and the extensions with the number
  of critical ones; whatever characters were escaped, with or without the angle brackets and the \<open>URL:\<close> in front.
\<close>

theorem ldap_url_round_trip:
  assumes "\<forall>n. mem n" "url_safe plain" "parts_ok brackets u"
  shows "ldap_url_parse_ext mem (Some (printed_url plain enclosed colon brackets u)) = Some (Inr (described u))"
proof -
  let ?r = "printed_hostport plain brackets u @ 0x2f # printed_dn plain u" and ?h = "if brackets then 0x5b # up_host u else up_host u"
  have ok: "up_scheme u \<in> {ldap_scheme, ldaps_scheme, ldapi_scheme}" using assms(3) by (simp add: parts_ok_def)
  have skip: "skip_url_prefix (printed_url plain enclosed colon brackets u) = Some (enclosed, up_scheme u, ?r @ (if enclosed then [0x3e] else []))"
    using prefix_skipped [OF ok, of enclosed colon "?r @ (if enclosed then [0x3e] else [])"] by (simp add: printed_url_def)
  have cut: "cut_at 0x2f ?r = (printed_hostport plain brackets u, Some (printed_dn plain u))"
    by (rule cut_at_found [OF hostport_no_slash [OF assms(2)]])
  have host: "\<not> brackets \<Longrightarrow> \<not> (up_host u \<noteq> [] \<and> hd (up_host u) = 0x5b)" using assms(3) by (auto simp: parts_ok_def)
  have port: "(case map_option int_digits (up_port u) of None \<Rightarrow> Some (if strcasecmp (up_scheme u) ldaps_scheme = 0 then LDAPS_PORT else LDAP_PORT)
      | Some q \<Rightarrow> atoi q) = Some (lud_port (described u))"
    using assms(3) scheme_port [OF ok] by (cases "up_port u") (simp_all add: parts_ok_def described_def atoi_int_digits)
  have tail: "(described u)\<lparr>lud_host := Some (up_host u), lud_port := lud_port (described u)\<rparr> = described u" by (simp add: described_def)
  have m: "mem = (\<lambda>n. True)" using assms(1) by auto
  have h: "(if ?h \<noteq> [] \<and> hd ?h = 0x5b then tl ?h else ?h) = up_host u" (is "?h' = _") using host by (cases brackets) auto
  have rest: "url_dn mem \<lparr>lud_scheme = Some (up_scheme u), lud_host = Some ?h', lud_port = lud_port (described u), lud_dn = None, lud_attrs = None,
      lud_scope = LDAP_SCOPE_DEFAULT, lud_filter = None, lud_exts = None, lud_crit_exts = 0\<rparr> (printed_dn plain u) = Some (Inr (described u))"
    unfolding h parts_parsed [OF assms] tail ..
  show ?thesis
    using skip cut port hostport_parsed [OF assms(2,3)] rest unfolding m
    by (simp add: ldap_url_parse_ext_def LDAP_STRDUP_def butlast_append del: append_is_Nil_conv)
qed

theorem ldap_url_round_trip_witness:
  "ldap_url_parse_ext (\<lambda>n. True) (Some (printed_url isdigit True False True
      \<lparr>up_scheme = ldaps_scheme, up_host = map of_char ''::1'', up_port = Some 6360, up_dn = map of_char ''o=A?B'',
       up_attrs = [map of_char ''cn'', map of_char ''sn''], up_scope = LDAP_SCOPE_SUBTREE, up_filter = [], up_exts = [map of_char ''!x'']\<rparr>))
    = Some (Inr \<lparr>lud_scheme = Some ldaps_scheme, lud_host = Some (map of_char ''::1''), lud_port = 6360, lud_dn = Some (map of_char ''o=A?B''),
       lud_attrs = Some [map of_char ''cn'', map of_char ''sn''], lud_scope = LDAP_SCOPE_SUBTREE, lud_filter = None,
       lud_exts = Some [map of_char ''!x''], lud_crit_exts = 1\<rparr>)"
proof -
  let ?u = "\<lparr>up_scheme = ldaps_scheme, up_host = map of_char ''::1'', up_port = Some 6360, up_dn = map of_char ''o=A?B'',
       up_attrs = [map of_char ''cn'', map of_char ''sn''], up_scope = LDAP_SCOPE_SUBTREE, up_filter = [], up_exts = [map of_char ''!x'']\<rparr>"
  have "url_safe isdigit" by (auto simp: url_safe_def isdigit_def reserved_octets word_le_nat_alt word_less_nat_alt)
  moreover have "parts_ok True ?u" by (simp add: parts_ok_def ascii_string_def)
  ultimately show ?thesis using ldap_url_round_trip [of "\<lambda>n. True" isdigit True ?u True False] by (simp add: described_def)
qed

text \<open>Lists of hosts.\<close>

definition host_ok :: "ldap_url_desc \<Rightarrow> bool" where
  "host_ok ludp \<longleftrightarrow> (case lud_host ludp of None \<Rightarrow> False
     | Some host \<Rightarrow> host \<noteq> [] \<and> ascii_string host \<and> 0x20 \<notin> set host \<and> 0x2c \<notin> set host \<and> 0x25 \<notin> set host
         \<and> (0x3a \<in> set host \<longrightarrow> 0x5d \<notin> set host \<and> (lud_port ludp = 0 \<longrightarrow> 2 \<le> count_list host 0x3a)))
     \<and> - (2 ^ 31) \<le> lud_port ludp \<and> lud_port ludp < 2 ^ 31"

definition host_element :: "ldap_url_desc \<Rightarrow> octets" where
  "host_element ludp = bracketed (the (lud_host ludp)) @ port_string (lud_port ludp)"

definition read_back :: "int \<Rightarrow> ldap_url_desc \<Rightarrow> ldap_url_desc" where
  "read_back port ludp = \<lparr>lud_scheme = Some ldap_scheme, lud_host = lud_host ludp,
     lud_port = (if lud_port ludp = 0 then port else lud_port ludp), lud_dn = None, lud_attrs = None, lud_scope = 0,
     lud_filter = None, lud_exts = None, lud_crit_exts = 0\<rparr>"

lemma hosts_size_elements:
  assumes "list_all host_ok ds"
  shows "hosts_size ds = Some (1 + length (concat (map (\<lambda>d. host_element d @ [0x20]) ds)))"
  using assms by (induction ds) (auto simp: host_ok_def host_element_def bracketed_def split: option.splits)

lemma concat_joined: "ds \<noteq> [] \<Longrightarrow> concat (map (\<lambda>d. f d @ [c]) ds) = joined [c] (map f ds) @ [c]"
proof (induction ds)
  case (Cons d ds)
  then show ?case by (cases ds) simp_all
qed simp

lemma list2hosts_joined:
  assumes "\<forall>n. mem n" "list_all host_ok ds" "ds \<noteq> []"
  shows "ldap_url_list2hosts mem ds = Some (Some (joined [0x20] (map host_element ds)))"
proof -
  have "hosts_size ds = Some (1 + length (concat (map (\<lambda>d. host_element d @ [0x20]) ds)))" by (rule hosts_size_elements [OF assms(2)])
  then show ?thesis using assms(1,3) concat_joined [OF assms(3), of host_element "0x20"]
    by (simp add: ldap_url_list2hosts_def within_size_def host_element_def)
qed

lemma cut_at_colons: "0x3a \<in> set h \<Longrightarrow> \<exists>a b. cut_at 0x3a (c # h @ r) = (a, Some b) \<and> (2 \<le> count_list h 0x3a \<or> 0x3a \<in> set r \<longrightarrow> 0x3a \<in> set b)"
  if "c \<noteq> 0x3a" for c :: u8
proof -
  assume "0x3a \<in> set h"
  then obtain a b where h: "h = a @ 0x3a # b" "0x3a \<notin> set a" by (meson split_list_first)
  have "cut_at 0x3a ((c # a) @ 0x3a # (b @ r)) = (c # a, Some (b @ r))" using that h(2) by (intro cut_at_found) auto
  moreover have "2 \<le> count_list h 0x3a \<Longrightarrow> 0x3a \<in> set b"
  proof (rule ccontr)
    assume "2 \<le> count_list h 0x3a" "0x3a \<notin> set b"
    then show False using h count_notin [of "0x3a" a] count_notin [of "0x3a" b] by simp
  qed
  ultimately show ?thesis using h(1) by auto
qed

lemma host_read_back:
  assumes "\<forall>n. mem n" "host_ok d"
  shows "host_desc mem port (host_element d) = Some (Inr (read_back port d))"
proof -
  obtain host where h: "lud_host d = Some host" using assms(2) by (auto simp: host_ok_def split: option.splits)
  let ?n = "lud_port d"
  have ok: "host \<noteq> []" "0x25 \<notin> set host" "0 \<notin> set host" "- (2 ^ 31) \<le> ?n" "?n < 2 ^ 31"
    "0x3a \<in> set host \<Longrightarrow> 0x5d \<notin> set host" "0x3a \<in> set host \<Longrightarrow> ?n = 0 \<Longrightarrow> 2 \<le> count_list host 0x3a"
    using assms(2) h by (auto simp: host_ok_def ascii_string_def)
  have uh: "ldap_pvt_hex_unescape host = Some host" by (rule unescape_plain [OF ok(2,3)])
  have uq: "ldap_pvt_hex_unescape (int_digits ?n) = Some (int_digits ?n)" by (intro unescape_plain digits_clean) simp_all
  have at: "atoi (int_digits ?n) = Some ?n" by (rule atoi_int_digits [OF ok(4,5)])
  have spec: "host_spec mem (host_element d) = Some (Inr (host, if ?n = 0 then None else Some (int_digits ?n)))"
  proof (cases "0x3a \<in> set host")
    case False
    moreover have "0x3a \<notin> set (int_digits ?n)" by (rule digits_clean) simp
    ultimately show ?thesis
      by (simp add: host_spec_def host_element_def h bracketed_def port_string_def cut_at_missing cut_at_found)
  next
    case True
    have "cut_at 0x5d (host @ 0x5d # port_string ?n) = (host, Some (port_string ?n))" by (rule cut_at_found [OF ok(6) [OF True]])
    moreover obtain a b where "cut_at 0x3a (0x5b # host @ 0x5d # port_string ?n) = (a, Some b)" "0x3a \<in> set b"
      using cut_at_colons [OF _ True, of "0x5b" "0x5d # port_string ?n"] ok(7) [OF True] by (auto simp: port_string_def split: if_splits)
    ultimately show ?thesis using True assms(1)
      by (simp add: host_spec_def host_element_def h bracketed_def LDAP_STRDUP_def port_string_def)
  qed
  show ?thesis unfolding host_desc_def spec using uh uq at h assms(1) by (simp add: read_back_def LDAP_STRDUP_def)
qed

lemma hosts_read_back:
  "\<forall>n. mem n \<Longrightarrow> list_all host_ok ds \<Longrightarrow> parse_hosts mem port (map host_element ds) = Some (LDAP_SUCCESS, map (read_back port) ds)"
  by (induction ds) (simp_all add: host_read_back)

lemma host_element_clean:
  assumes "host_ok d"
  shows "host_element d \<noteq> []" "ascii_string (host_element d)" "0x20 \<notin> set (host_element d)" "0x2c \<notin> set (host_element d)"
proof -
  obtain host where h: "lud_host d = Some host" using assms by (auto simp: host_ok_def split: option.splits)
  have ok: "host \<noteq> []" "ascii_string host" "0x20 \<notin> set host" "0x2c \<notin> set host" using assms h by (auto simp: host_ok_def)
  have a: "ascii_string (int_digits n)" for n
    using int_digits_clean(1) [of _ n] by (fastforce simp: ascii_string_def isdigit_def word_le_nat_alt word_less_nat_alt)
  have n: "0x20 \<notin> set (int_digits n)" "0x2c \<notin> set (int_digits n)" for n by (rule digits_clean; simp)+
  show "host_element d \<noteq> []" "ascii_string (host_element d)" "0x20 \<notin> set (host_element d)" "0x2c \<notin> set (host_element d)"
    using ok a n by (auto simp: host_element_def h bracketed_def port_string_def ascii_string_def)
qed

text \<open>
  A list of hosts is written within the buffer computed for it, and reading it back gives the same hosts and
  ports, the default port where none was given, for host names and for IPv6 addresses in brackets.
\<close>

theorem ldap_hosts_round_trip:
  assumes "\<forall>n. mem n" "ds \<noteq> []" "list_all host_ok ds"
  shows "\<exists>s. ldap_url_list2hosts mem ds = Some (Some s) \<and> ldap_url_parsehosts mem (Some s) port = Some (LDAP_SUCCESS, map (read_back port) ds)"
proof -
  let ?es = "map host_element ds" and ?s = "joined [0x20] (map host_element ds)"
  have clean: "list_all (\<lambda>v. v \<noteq> [] \<and> list_all (\<lambda>c. \<not> c \<in> set list_separators) v) ?es" and asc: "\<forall>v \<in> set ?es. ascii_string v"
    using assms(3) host_element_clean by (fastforce simp: list_all_iff list_separators_def)+
  have sep: "ascii_string list_separators" by (simp add: ascii_string_def list_separators_def)
  have "ascii_string ?s" using asc assms(2) by (cases ds) (auto simp: ascii_string_def)
  then have "ldap_str2charray mem ?s list_separators = Some (Some (pieces (\<lambda>c. c \<in> set list_separators) ?s))"
    using str2charray_ascii [OF assms(1) _ sep] by blast
  moreover have "pieces (\<lambda>c. c \<in> set list_separators) ?s = ?es"
  proof -
    obtain d ds' where "ds = d # ds'" using assms(2) by (cases ds) auto
    moreover have "(0x20 :: u8) \<in> set list_separators" by (simp add: list_separators_def)
    ultimately show ?thesis
      using pieces_joined [where P = "\<lambda>c. c \<in> set list_separators" and d = "0x20" and v = "host_element d" and vs = "map host_element ds'"] clean
      by (simp add: cons_fold)
  qed
  ultimately have "ldap_url_parsehosts mem (Some ?s) port = Some (LDAP_SUCCESS, map (read_back port) ds)"
    using hosts_read_back [OF assms(1,3)] by (simp add: ldap_url_parsehosts_def)
  then show ?thesis using list2hosts_joined [OF assms(1,3,2)] by blast
qed

theorem ldap_hosts_round_trip_witness:
  "\<exists>s. ldap_url_list2hosts (\<lambda>n. True) [\<lparr>lud_scheme = None, lud_host = Some (map of_char ''::1''), lud_port = 389, lud_dn = None,
      lud_attrs = None, lud_scope = 0, lud_filter = None, lud_exts = None, lud_crit_exts = 0\<rparr>] = Some (Some s)
    \<and> ldap_url_parsehosts (\<lambda>n. True) (Some s) 0 = Some (LDAP_SUCCESS, [\<lparr>lud_scheme = Some ldap_scheme,
      lud_host = Some (map of_char ''::1''), lud_port = 389, lud_dn = None, lud_attrs = None, lud_scope = 0, lud_filter = None,
      lud_exts = None, lud_crit_exts = 0\<rparr>])"
  using ldap_hosts_round_trip [of "\<lambda>n. True" "[\<lparr>lud_scheme = None, lud_host = Some (map of_char ''::1''), lud_port = 389, lud_dn = None,
      lud_attrs = None, lud_scope = 0, lud_filter = None, lud_exts = None, lud_crit_exts = 0\<rparr>]" 0]
  by (simp add: host_ok_def ascii_string_def read_back_def)

text \<open>
  The host of a URL without one is the null pointer once \<open>ldap_url_parse\<close> has returned, and writing the list
  of URLs takes its length.
\<close>

lemma null_host_is_read:
  "map_option (\<lambda>r. ldap_url_list2urls (\<lambda>n. True) (snd r)) (ldap_url_parselist (\<lambda>n. True) (Some (map of_char ''ldap:///''))) = Some None"
  by code_simp

end
