(* ===== verification/Step_Systems.thy ===== *)
theory Step_Systems imports Ldap_Prelude begin

text \<open>
  Systems of threads as step relations.  A thread keeps a mutex from one blocking call to the next, so that
  what it does in between is one step; steps of different threads come in any order.
\<close>

inductive reachable :: "('s \<Rightarrow> bool) \<Rightarrow> ('s \<Rightarrow> 's \<Rightarrow> bool) \<Rightarrow> 's \<Rightarrow> bool" for init step where
  start: "init s \<Longrightarrow> reachable init step s"
| step: "reachable init step s \<Longrightarrow> step s t \<Longrightarrow> reachable init step t"

text \<open>What holds at the start and is kept by every step holds whenever.\<close>

locale inductive_invariant =
  fixes init :: "'s \<Rightarrow> bool" and step :: "'s \<Rightarrow> 's \<Rightarrow> bool" and inv :: "'s \<Rightarrow> bool"
  assumes inv_init: "init s \<Longrightarrow> inv s" and inv_step: "inv s \<Longrightarrow> step s t \<Longrightarrow> inv t"
begin

lemma inv_reachable: "reachable init step s \<Longrightarrow> inv s"
  by (induction rule: reachable.induct) (auto intro: inv_init inv_step)

lemma inv_reachable_step: "reachable init step s \<Longrightarrow> step s t \<Longrightarrow> inv s \<and> inv t"
  using inv_reachable inv_step by blast

end

section \<open>Counting threads by what they do\<close>

definition at :: "'a list \<Rightarrow> 'a \<Rightarrow> int" where
  "at ps p = int (count_list ps p)"

lemma at_simps [simp]: "at [] p = 0" "at (q # ps) p = (if p = q then 1 else 0) + at ps p" "at (ps @ qs) p = at ps p + at qs p"
  by (simp_all add: at_def)

lemma at_replicate [simp]: "at (replicate n q) p = (if p = q then int n else 0)"
  by (induction n) simp_all

lemma at_nonneg: "0 \<le> at ps p" by (simp add: at_def)

lemma at_update: "i < length ps \<Longrightarrow> at (ps[i := q]) p = at ps p - (if ps ! i = p then 1 else 0) + (if q = p then 1 else 0)"
proof -
  assume i: "i < length ps"
  have "at ps p = at (take i ps @ ps ! i # drop (Suc i) ps) p" using id_take_nth_drop [OF i] by simp
  then show ?thesis unfolding upd_conv_take_nth_drop [OF i] by (simp only: at_simps) auto
qed

lemma at_zero: "p \<notin> set ps \<longleftrightarrow> at ps p = 0"
  by (simp add: at_def count_list_0_iff)

lemma at_pos: "i < length ps \<Longrightarrow> ps ! i = p \<Longrightarrow> 1 \<le> at ps p"
  using at_zero [of p ps] at_nonneg [of ps p] nth_mem [of i ps] by fastforce

end
