(* ===== verification/Rdwr.thy ===== *)
theory Rdwr imports Step_Systems begin

text \<open>
  The reader/writer locks of libraries/libldap_r/rdwr.c.  An operation holds the mutex of the lock from its
  beginning to its end or until it waits on a condition; each of these stretches is a function on the
  lock, and says whether the operation returns or sleeps and which condition it signals.  The lock itself is
  \<open>None\<close> when the pointer to it is null; a function's outer \<open>None\<close> is a failed assertion.
\<close>

record thread_rdwr =
  ltrw_valid :: int
  ltrw_r_active :: int
  ltrw_w_active :: int
  ltrw_r_wait :: int
  ltrw_w_wait :: int

definition LDAP_PVT_THREAD_RDWR_VALID :: int where "LDAP_PVT_THREAD_RDWR_VALID = 0x0bad"

datatype thread_result = LDAP_PVT_THREAD_OK | LDAP_PVT_THREAD_EBUSY | LDAP_PVT_THREAD_EINVAL

datatype outcome = Returns thread_result | Sleeps

datatype condition_call = No_call | Signal_write | Broadcast_read

text \<open>The assertions every operation begins with.\<close>

definition valid_rdwr :: "thread_rdwr option \<Rightarrow> thread_rdwr option" where
  "valid_rdwr rwlock = (case rwlock of None \<Rightarrow> None
     | Some rw \<Rightarrow> if ltrw_valid rw = LDAP_PVT_THREAD_RDWR_VALID then Some rw else None)"

definition counts_ok :: "thread_rdwr \<Rightarrow> bool" where
  "counts_ok rw \<longleftrightarrow> 0 \<le> ltrw_w_active rw \<and> 0 \<le> ltrw_w_wait rw \<and> 0 \<le> ltrw_r_active rw \<and> 0 \<le> ltrw_r_wait rw"

definition checked :: "thread_rdwr option \<Rightarrow> thread_rdwr option" where
  "checked rwlock = (case valid_rdwr rwlock of None \<Rightarrow> None | Some rw \<Rightarrow> if counts_ok rw then Some rw else None)"

text \<open>The block is not checked before it is used.\<close>

definition ldap_pvt_thread_rdwr_init :: "bool \<Rightarrow> thread_rdwr option" where
  "ldap_pvt_thread_rdwr_init mem =
    (if mem then Some \<lparr>ltrw_valid = LDAP_PVT_THREAD_RDWR_VALID, ltrw_r_active = 0, ltrw_w_active = 0, ltrw_r_wait = 0, ltrw_w_wait = 0\<rparr>
     else None)"

definition ldap_pvt_thread_rdwr_destroy :: "thread_rdwr option \<Rightarrow> (thread_rdwr option \<times> thread_result) option" where
  "ldap_pvt_thread_rdwr_destroy rwlock =
    (case checked rwlock of None \<Rightarrow> None
     | Some rw \<Rightarrow>
        if 0 < ltrw_r_active rw \<or> 0 < ltrw_w_active rw then Some (Some rw, LDAP_PVT_THREAD_EBUSY)
        else if 0 < ltrw_r_wait rw \<or> 0 < ltrw_w_wait rw then Some (Some rw, LDAP_PVT_THREAD_EBUSY)
        else Some (None, LDAP_PVT_THREAD_OK))"

definition ldap_pvt_thread_rdwr_rlock :: "thread_rdwr option \<Rightarrow> (thread_rdwr option \<times> outcome) option" where
  "ldap_pvt_thread_rdwr_rlock rwlock =
    (case checked rwlock of None \<Rightarrow> None
     | Some rw \<Rightarrow>
        if 0 < ltrw_w_active rw then Some (Some (rw\<lparr>ltrw_r_wait := ltrw_r_wait rw + 1\<rparr>), Sleeps)
        else Some (Some (rw\<lparr>ltrw_r_active := ltrw_r_active rw + 1\<rparr>), Returns LDAP_PVT_THREAD_OK))"

text \<open>After \<open>cond_wait\<close>.\<close>

definition rlock_woken :: "thread_rdwr option \<Rightarrow> (thread_rdwr option \<times> outcome) option" where
  "rlock_woken rwlock =
    (case rwlock of None \<Rightarrow> None
     | Some rw \<Rightarrow>
        if 0 < ltrw_w_active rw then Some (Some rw, Sleeps)
        else if ltrw_r_wait rw - 1 < 0 then None
        else Some (Some (rw\<lparr>ltrw_r_wait := ltrw_r_wait rw - 1, ltrw_r_active := ltrw_r_active rw + 1\<rparr>), Returns LDAP_PVT_THREAD_OK))"

definition ldap_pvt_thread_rdwr_rtrylock :: "thread_rdwr option \<Rightarrow> (thread_rdwr option \<times> outcome) option" where
  "ldap_pvt_thread_rdwr_rtrylock rwlock =
    (case checked rwlock of None \<Rightarrow> None
     | Some rw \<Rightarrow>
        if 0 < ltrw_w_active rw then Some (Some rw, Returns LDAP_PVT_THREAD_EBUSY)
        else Some (Some (rw\<lparr>ltrw_r_active := ltrw_r_active rw + 1\<rparr>), Returns LDAP_PVT_THREAD_OK))"

definition ldap_pvt_thread_rdwr_runlock :: "thread_rdwr option \<Rightarrow> (thread_rdwr option \<times> condition_call) option" where
  "ldap_pvt_thread_rdwr_runlock rwlock =
    (case valid_rdwr rwlock of None \<Rightarrow> None
     | Some rw0 \<Rightarrow>
        (let rw = rw0\<lparr>ltrw_r_active := ltrw_r_active rw0 - 1\<rparr> in
         if \<not> counts_ok rw then None
         else Some (Some rw, if ltrw_r_active rw = 0 \<and> 0 < ltrw_w_wait rw then Signal_write else No_call)))"

definition ldap_pvt_thread_rdwr_wlock :: "thread_rdwr option \<Rightarrow> (thread_rdwr option \<times> outcome) option" where
  "ldap_pvt_thread_rdwr_wlock rwlock =
    (case checked rwlock of None \<Rightarrow> None
     | Some rw \<Rightarrow>
        if 0 < ltrw_w_active rw \<or> 0 < ltrw_r_active rw then Some (Some (rw\<lparr>ltrw_w_wait := ltrw_w_wait rw + 1\<rparr>), Sleeps)
        else Some (Some (rw\<lparr>ltrw_w_active := ltrw_w_active rw + 1\<rparr>), Returns LDAP_PVT_THREAD_OK))"

definition wlock_woken :: "thread_rdwr option \<Rightarrow> (thread_rdwr option \<times> outcome) option" where
  "wlock_woken rwlock =
    (case rwlock of None \<Rightarrow> None
     | Some rw \<Rightarrow>
        if 0 < ltrw_w_active rw \<or> 0 < ltrw_r_active rw then Some (Some rw, Sleeps)
        else if ltrw_w_wait rw - 1 < 0 then None
        else Some (Some (rw\<lparr>ltrw_w_wait := ltrw_w_wait rw - 1, ltrw_w_active := ltrw_w_active rw + 1\<rparr>), Returns LDAP_PVT_THREAD_OK))"

definition ldap_pvt_thread_rdwr_wtrylock :: "thread_rdwr option \<Rightarrow> (thread_rdwr option \<times> outcome) option" where
  "ldap_pvt_thread_rdwr_wtrylock rwlock =
    (case checked rwlock of None \<Rightarrow> None
     | Some rw \<Rightarrow>
        if 0 < ltrw_w_active rw \<or> 0 < ltrw_r_active rw then Some (Some rw, Returns LDAP_PVT_THREAD_EBUSY)
        else Some (Some (rw\<lparr>ltrw_w_active := ltrw_w_active rw + 1\<rparr>), Returns LDAP_PVT_THREAD_OK))"

definition ldap_pvt_thread_rdwr_wunlock :: "thread_rdwr option \<Rightarrow> (thread_rdwr option \<times> condition_call) option" where
  "ldap_pvt_thread_rdwr_wunlock rwlock =
    (case valid_rdwr rwlock of None \<Rightarrow> None
     | Some rw0 \<Rightarrow>
        (let rw = rw0\<lparr>ltrw_w_active := ltrw_w_active rw0 - 1\<rparr> in
         if \<not> counts_ok rw then None
         else Some (Some rw, if 0 < ltrw_r_wait rw then Broadcast_read else if 0 < ltrw_w_wait rw then Signal_write else No_call)))"

definition ldap_pvt_thread_rdwr_readers :: "thread_rdwr option \<Rightarrow> int option" where
  "ldap_pvt_thread_rdwr_readers rwlock = map_option ltrw_r_active (checked rwlock)"

definition ldap_pvt_thread_rdwr_writers :: "thread_rdwr option \<Rightarrow> int option" where
  "ldap_pvt_thread_rdwr_writers rwlock = map_option ltrw_w_active (checked rwlock)"

section \<open>Threads that use a lock\<close>

text \<open>
  Where a thread is: outside, holding the lock, asleep on a condition, or woken and not yet running again.  A
  signal wakes one of those asleep, a broadcast all; a thread may wake without either.  A thread asks for the lock
  only from outside and releases what it holds.
\<close>

datatype place = Outside | Reading | Writing | Asleep_read | Awake_read | Asleep_write | Awake_write

record rdwr_system =
  rwlock :: "thread_rdwr option"
  places :: "place list"

definition arrive :: "place \<Rightarrow> place \<Rightarrow> place \<Rightarrow> outcome \<Rightarrow> place" where
  "arrive held asleep other out = (case out of Sleeps \<Rightarrow> asleep | Returns r \<Rightarrow> if r = LDAP_PVT_THREAD_OK then held else other)"

definition wake_readers :: "place list \<Rightarrow> place list" where
  "wake_readers ps = map (\<lambda>p. if p = Asleep_read then Awake_read else p) ps"

inductive conditions :: "condition_call \<Rightarrow> place list \<Rightarrow> place list \<Rightarrow> bool" where
  none: "conditions No_call ps ps"
| all_readers: "conditions Broadcast_read ps (wake_readers ps)"
| one_writer: "i < length ps \<Longrightarrow> ps ! i = Asleep_write \<Longrightarrow> conditions Signal_write ps (ps[i := Awake_write])"
| no_writer: "Asleep_write \<notin> set ps \<Longrightarrow> conditions Signal_write ps ps"

inductive rdwr_step :: "rdwr_system \<Rightarrow> rdwr_system \<Rightarrow> bool" where
  rlock: "i < length ps \<Longrightarrow> ps ! i = Outside \<Longrightarrow> ldap_pvt_thread_rdwr_rlock rw = Some (rw', out) \<Longrightarrow>
    rdwr_step \<lparr>rwlock = rw, places = ps\<rparr> \<lparr>rwlock = rw', places = ps[i := arrive Reading Asleep_read Outside out]\<rparr>"
| rtrylock: "i < length ps \<Longrightarrow> ps ! i = Outside \<Longrightarrow> ldap_pvt_thread_rdwr_rtrylock rw = Some (rw', out) \<Longrightarrow>
    rdwr_step \<lparr>rwlock = rw, places = ps\<rparr> \<lparr>rwlock = rw', places = ps[i := arrive Reading Asleep_read Outside out]\<rparr>"
| rwoken: "i < length ps \<Longrightarrow> ps ! i = Awake_read \<Longrightarrow> rlock_woken rw = Some (rw', out) \<Longrightarrow>
    rdwr_step \<lparr>rwlock = rw, places = ps\<rparr> \<lparr>rwlock = rw', places = ps[i := arrive Reading Asleep_read Outside out]\<rparr>"
| runlock: "i < length ps \<Longrightarrow> ps ! i = Reading \<Longrightarrow> ldap_pvt_thread_rdwr_runlock rw = Some (rw', call) \<Longrightarrow>
    conditions call (ps[i := Outside]) qs \<Longrightarrow> rdwr_step \<lparr>rwlock = rw, places = ps\<rparr> \<lparr>rwlock = rw', places = qs\<rparr>"
| wlock: "i < length ps \<Longrightarrow> ps ! i = Outside \<Longrightarrow> ldap_pvt_thread_rdwr_wlock rw = Some (rw', out) \<Longrightarrow>
    rdwr_step \<lparr>rwlock = rw, places = ps\<rparr> \<lparr>rwlock = rw', places = ps[i := arrive Writing Asleep_write Outside out]\<rparr>"
| wtrylock: "i < length ps \<Longrightarrow> ps ! i = Outside \<Longrightarrow> ldap_pvt_thread_rdwr_wtrylock rw = Some (rw', out) \<Longrightarrow>
    rdwr_step \<lparr>rwlock = rw, places = ps\<rparr> \<lparr>rwlock = rw', places = ps[i := arrive Writing Asleep_write Outside out]\<rparr>"
| wwoken: "i < length ps \<Longrightarrow> ps ! i = Awake_write \<Longrightarrow> wlock_woken rw = Some (rw', out) \<Longrightarrow>
    rdwr_step \<lparr>rwlock = rw, places = ps\<rparr> \<lparr>rwlock = rw', places = ps[i := arrive Writing Asleep_write Outside out]\<rparr>"
| wunlock: "i < length ps \<Longrightarrow> ps ! i = Writing \<Longrightarrow> ldap_pvt_thread_rdwr_wunlock rw = Some (rw', call) \<Longrightarrow>
    conditions call (ps[i := Outside]) qs \<Longrightarrow> rdwr_step \<lparr>rwlock = rw, places = ps\<rparr> \<lparr>rwlock = rw', places = qs\<rparr>"
| wakes_reader: "i < length ps \<Longrightarrow> ps ! i = Asleep_read \<Longrightarrow>
    rdwr_step \<lparr>rwlock = rw, places = ps\<rparr> \<lparr>rwlock = rw, places = ps[i := Awake_read]\<rparr>"
| wakes_writer: "i < length ps \<Longrightarrow> ps ! i = Asleep_write \<Longrightarrow>
    rdwr_step \<lparr>rwlock = rw, places = ps\<rparr> \<lparr>rwlock = rw, places = ps[i := Awake_write]\<rparr>"
| destroy: "i < length ps \<Longrightarrow> ps ! i = Outside \<Longrightarrow> ldap_pvt_thread_rdwr_destroy rw = Some (rw', r) \<Longrightarrow>
    rdwr_step \<lparr>rwlock = rw, places = ps\<rparr> \<lparr>rwlock = rw', places = ps\<rparr>"

inductive_cases rdwr_step_cases: "rdwr_step s t"

definition rdwr_init :: "nat \<Rightarrow> rdwr_system \<Rightarrow> bool" where
  "rdwr_init n s \<longleftrightarrow> s = \<lparr>rwlock = ldap_pvt_thread_rdwr_init True, places = replicate n Outside\<rparr>"

end
