(* ===== verification/Rdwr_Facts.thy ===== *)
theory Rdwr_Facts imports Rdwr begin

text \<open>
  The reader/writer locks exclude writers from readers and from each other, never fail an assertion, count
  who holds and who waits, and lose no wake-up.
\<close>

lemma at_wake_readers:
  "at (wake_readers ps) Asleep_read = 0" "at (wake_readers ps) Awake_read = at ps Asleep_read + at ps Awake_read"
  "p \<noteq> Asleep_read \<Longrightarrow> p \<noteq> Awake_read \<Longrightarrow> at (wake_readers ps) p = at ps p"
  unfolding at_def by (induction ps) (auto simp: wake_readers_def)

text \<open>Counters that agree with the threads, at most one writer and then no reader, and someone awake who will go on.\<close>

definition rdwr_inv :: "rdwr_system \<Rightarrow> bool" where
  "rdwr_inv s \<longleftrightarrow> (case rwlock s of
     None \<Rightarrow> (\<forall>p. p \<noteq> Outside \<longrightarrow> at (places s) p = 0)
   | Some rw \<Rightarrow> ltrw_valid rw = LDAP_PVT_THREAD_RDWR_VALID
      \<and> ltrw_r_active rw = at (places s) Reading \<and> ltrw_w_active rw = at (places s) Writing
      \<and> ltrw_r_wait rw = at (places s) Asleep_read + at (places s) Awake_read
      \<and> ltrw_w_wait rw = at (places s) Asleep_write + at (places s) Awake_write
      \<and> (ltrw_w_active rw = 0 \<or> ltrw_w_active rw = 1 \<and> ltrw_r_active rw = 0)
      \<and> (ltrw_w_active rw = 0 \<longrightarrow> at (places s) Asleep_read = 0)
      \<and> (ltrw_w_active rw = 0 \<and> ltrw_r_active rw = 0 \<and> 0 < at (places s) Asleep_write
          \<longrightarrow> 0 < at (places s) Awake_read + at (places s) Awake_write))"

lemmas lock_defs = checked_def valid_rdwr_def counts_ok_def ldap_pvt_thread_rdwr_rlock_def rlock_woken_def ldap_pvt_thread_rdwr_rtrylock_def
  ldap_pvt_thread_rdwr_runlock_def ldap_pvt_thread_rdwr_wlock_def wlock_woken_def ldap_pvt_thread_rdwr_wtrylock_def
  ldap_pvt_thread_rdwr_wunlock_def ldap_pvt_thread_rdwr_destroy_def

lemma rdwr_inv_init: "rdwr_init n s \<Longrightarrow> rdwr_inv s"
  by (simp add: rdwr_init_def rdwr_inv_def ldap_pvt_thread_rdwr_init_def)

lemma alive_if_used: "rdwr_inv s \<Longrightarrow> i < length (places s) \<Longrightarrow> places s ! i \<noteq> Outside \<Longrightarrow> rwlock s \<noteq> None"
  using at_pos [of i "places s"] by (auto simp: rdwr_inv_def split: option.splits)

lemma conditions_counts:
  assumes "conditions call ps qs"
  shows "at qs Outside = at ps Outside \<and> at qs Reading = at ps Reading \<and> at qs Writing = at ps Writing
    \<and> at qs Asleep_read + at qs Awake_read = at ps Asleep_read + at ps Awake_read
    \<and> at qs Asleep_write + at qs Awake_write = at ps Asleep_write + at ps Awake_write
    \<and> (call = Broadcast_read \<longrightarrow> at qs Asleep_read = 0) \<and> at qs Asleep_read \<le> at ps Asleep_read
    \<and> (call = Signal_write \<longrightarrow> at qs Asleep_write = 0 \<or> 0 < at qs Awake_write) \<and> at ps Awake_write \<le> at qs Awake_write"
  using assms
proof cases
  case (one_writer i)
  then show ?thesis using at_nonneg [of ps Awake_write] by (simp add: at_update)
qed (auto simp: at_wake_readers at_zero at_nonneg)

text \<open>What each stretch does to the lock and to the place of its thread.\<close>

lemma inv_moves:
  assumes "rdwr_inv \<lparr>rwlock = Some r, places = ps\<rparr>" "i < length ps"
  shows "ps ! i = Outside \<Longrightarrow> 0 < ltrw_w_active r \<Longrightarrow>
      rdwr_inv \<lparr>rwlock = Some (r\<lparr>ltrw_r_wait := ltrw_r_wait r + 1\<rparr>), places = ps[i := Asleep_read]\<rparr>"
    "ps ! i = Outside \<Longrightarrow> ltrw_w_active r = 0 \<Longrightarrow>
      rdwr_inv \<lparr>rwlock = Some (r\<lparr>ltrw_r_active := ltrw_r_active r + 1\<rparr>), places = ps[i := Reading]\<rparr>"
    "ps ! i = Awake_read \<Longrightarrow> 0 < ltrw_w_active r \<Longrightarrow> rdwr_inv \<lparr>rwlock = Some r, places = ps[i := Asleep_read]\<rparr>"
    "ps ! i = Awake_read \<Longrightarrow> ltrw_w_active r = 0 \<Longrightarrow>
      rdwr_inv \<lparr>rwlock = Some (r\<lparr>ltrw_r_wait := ltrw_r_wait r - 1, ltrw_r_active := ltrw_r_active r + 1\<rparr>), places = ps[i := Reading]\<rparr>"
    "ps ! i = Outside \<Longrightarrow> 0 < ltrw_w_active r \<or> 0 < ltrw_r_active r \<Longrightarrow>
      rdwr_inv \<lparr>rwlock = Some (r\<lparr>ltrw_w_wait := ltrw_w_wait r + 1\<rparr>), places = ps[i := Asleep_write]\<rparr>"
    "ps ! i = Outside \<Longrightarrow> ltrw_w_active r = 0 \<Longrightarrow> ltrw_r_active r = 0 \<Longrightarrow>
      rdwr_inv \<lparr>rwlock = Some (r\<lparr>ltrw_w_active := ltrw_w_active r + 1\<rparr>), places = ps[i := Writing]\<rparr>"
    "ps ! i = Awake_write \<Longrightarrow> 0 < ltrw_w_active r \<or> 0 < ltrw_r_active r \<Longrightarrow> rdwr_inv \<lparr>rwlock = Some r, places = ps[i := Asleep_write]\<rparr>"
    "ps ! i = Awake_write \<Longrightarrow> ltrw_w_active r = 0 \<Longrightarrow> ltrw_r_active r = 0 \<Longrightarrow>
      rdwr_inv \<lparr>rwlock = Some (r\<lparr>ltrw_w_wait := ltrw_w_wait r - 1, ltrw_w_active := ltrw_w_active r + 1\<rparr>), places = ps[i := Writing]\<rparr>"
    "ps ! i = Asleep_read \<Longrightarrow> rdwr_inv \<lparr>rwlock = Some r, places = ps[i := Awake_read]\<rparr>"
    "ps ! i = Asleep_write \<Longrightarrow> rdwr_inv \<lparr>rwlock = Some r, places = ps[i := Awake_write]\<rparr>"
  using assms at_nonneg [of ps Awake_read] at_nonneg [of ps Awake_write] at_nonneg [of ps Reading] at_pos [OF assms(2), of Asleep_read]
  by (simp_all add: rdwr_inv_def at_update) auto

lemma inv_counts:
  assumes "rdwr_inv \<lparr>rwlock = Some r, places = ps\<rparr>"
  shows "0 \<le> ltrw_w_active r" "0 \<le> ltrw_r_active r" "ltrw_w_active r = 0 \<longleftrightarrow> \<not> 0 < ltrw_w_active r" "ltrw_r_active r = 0 \<longleftrightarrow> \<not> 0 < ltrw_r_active r"
  using assms at_nonneg [of ps Reading] at_nonneg [of ps Writing] by (auto simp: rdwr_inv_def)

text \<open>Releasing the lock: \<open>p\<close> is \<open>Reading\<close> or \<open>Writing\<close>.\<close>

lemma inv_released:
  assumes "rdwr_inv \<lparr>rwlock = Some r, places = ps\<rparr>" "i < length ps" "conditions call (ps[i := Outside]) qs"
  shows "ps ! i = Reading \<Longrightarrow> call = (if ltrw_r_active r - 1 = 0 \<and> 0 < ltrw_w_wait r then Signal_write else No_call) \<Longrightarrow>
      rdwr_inv \<lparr>rwlock = Some (r\<lparr>ltrw_r_active := ltrw_r_active r - 1\<rparr>), places = qs\<rparr>"
    "ps ! i = Writing \<Longrightarrow> call = (if 0 < ltrw_r_wait r then Broadcast_read else if 0 < ltrw_w_wait r then Signal_write else No_call) \<Longrightarrow>
      rdwr_inv \<lparr>rwlock = Some (r\<lparr>ltrw_w_active := ltrw_w_active r - 1\<rparr>), places = qs\<rparr>"
proof -
  have f: "ltrw_valid r = LDAP_PVT_THREAD_RDWR_VALID" "ltrw_r_active r = at ps Reading" "ltrw_w_active r = at ps Writing"
    "ltrw_r_wait r = at ps Asleep_read + at ps Awake_read" "ltrw_w_wait r = at ps Asleep_write + at ps Awake_write"
    "at ps Writing = 0 \<or> at ps Writing = 1 \<and> at ps Reading = 0" "at ps Writing = 0 \<Longrightarrow> at ps Asleep_read = 0"
    using assms(1) by (auto simp: rdwr_inv_def)
  note c = conditions_counts [OF assms(3)]
  note n = at_nonneg [of qs Asleep_read] at_nonneg [of qs Awake_read] at_nonneg [of qs Asleep_write] at_nonneg [of qs Awake_write]
  have pn: "0 \<le> at ps Asleep_read" "0 \<le> at ps Awake_read" by (rule at_nonneg)+
  {
    assume p: "ps ! i = Reading" "call = (if ltrw_r_active r - 1 = 0 \<and> 0 < ltrw_w_wait r then Signal_write else No_call)"
    have w: "at ps Writing = 0" "at ps Asleep_read = 0" using f at_pos [OF assms(2) p(1)] by auto
    have "at qs Asleep_read = 0" "at qs Reading = at ps Reading - 1" "at qs Writing = 0"
      "at qs Asleep_write + at qs Awake_write = ltrw_w_wait r" "at qs Awake_read = ltrw_r_wait r"
      using c n w f assms(2) p(1) by (auto simp: at_update)
    moreover have "at qs Reading = 0 \<Longrightarrow> 0 < at qs Asleep_write \<Longrightarrow> 0 < at qs Awake_write"
      using c n p(2) calculation f by (auto split: if_splits)
    ultimately show "rdwr_inv \<lparr>rwlock = Some (r\<lparr>ltrw_r_active := ltrw_r_active r - 1\<rparr>), places = qs\<rparr>"
      using f w n by (auto simp: rdwr_inv_def)
  next
    assume p: "ps ! i = Writing" "call = (if 0 < ltrw_r_wait r then Broadcast_read else if 0 < ltrw_w_wait r then Signal_write else No_call)"
    have w: "at ps Writing = 1" "at ps Reading = 0" using f at_pos [OF assms(2) p(1)] by auto
    have q: "at qs Reading = 0" "at qs Writing = 0" "at qs Asleep_write + at qs Awake_write = ltrw_w_wait r"
      "at qs Asleep_read + at qs Awake_read = ltrw_r_wait r" "at qs Asleep_read \<le> at ps Asleep_read"
      using c w f assms(2) p(1) by (simp_all add: at_update)
    have "at qs Asleep_read = 0" using c q n p(2) f(4) pn by (cases "0 < ltrw_r_wait r") auto
    moreover have "0 < at qs Asleep_write \<Longrightarrow> 0 < at qs Awake_read + at qs Awake_write"
      using c q n p(2) calculation by (cases "0 < ltrw_r_wait r"; cases "0 < ltrw_w_wait r") auto
    ultimately show "rdwr_inv \<lparr>rwlock = Some (r\<lparr>ltrw_w_active := ltrw_w_active r - 1\<rparr>), places = qs\<rparr>"
      using f q w by (simp add: rdwr_inv_def)
  }
qed

lemma inv_destroyed:
  assumes "rdwr_inv \<lparr>rwlock = Some r, places = ps\<rparr>" "ltrw_r_active r = 0" "ltrw_w_active r = 0" "\<not> 0 < ltrw_r_wait r" "\<not> 0 < ltrw_w_wait r"
  shows "rdwr_inv \<lparr>rwlock = None, places = ps\<rparr>"
proof -
  have "at ps p = 0" if "p \<noteq> Outside" for p
    using that assms at_nonneg [of ps Asleep_read] at_nonneg [of ps Awake_read] at_nonneg [of ps Asleep_write] at_nonneg [of ps Awake_write]
    by (cases p) (auto simp: rdwr_inv_def)
  then show ?thesis by (simp add: rdwr_inv_def)
qed

lemma rdwr_inv_step: "rdwr_inv s \<Longrightarrow> rdwr_step s t \<Longrightarrow> rdwr_inv t"
proof -
  assume inv: "rdwr_inv s" and step: "rdwr_step s t"
  have used: "\<exists>r. rw = Some r" if "s = \<lparr>rwlock = rw, places = ps\<rparr>" "i < length ps" "ps ! i \<noteq> Outside" for rw ps i
    using alive_if_used [OF inv] that by fastforce
  have id: "ps ! i = q \<Longrightarrow> ps[i := q] = ps" for ps :: "place list" and i q by auto
  note op = lock_defs arrive_def Let_def
  from step show ?thesis
  proof cases
    case (rlock i ps rw rw' out)
    then show ?thesis using inv inv_moves(1,2) [of _ ps i] inv_counts by (auto simp: op split: option.splits if_splits)
  next
    case (rtrylock i ps rw rw' out)
    then show ?thesis using inv inv_moves(2) [of _ ps i] inv_counts id [of ps i Outside] by (auto simp: op split: option.splits if_splits)
  next
    case (rwoken i ps rw rw' out)
    then show ?thesis using inv inv_moves(3,4) [of _ ps i] inv_counts by (auto simp: op split: option.splits if_splits)
  next
    case (runlock i ps rw rw' call qs)
    then obtain r where r: "rw = Some r" using used [of rw ps i] by auto
    have "rw' = Some (r\<lparr>ltrw_r_active := ltrw_r_active r - 1\<rparr>)" "call = (if ltrw_r_active r - 1 = 0 \<and> 0 < ltrw_w_wait r then Signal_write else No_call)"
      using runlock(5) unfolding r by (auto simp: op split: if_splits)
    then show ?thesis using inv_released(1) [of r ps i call qs] inv runlock(1,2,3,4,6) unfolding r by blast
  next
    case (wlock i ps rw rw' out)
    then obtain r where r: "rw = Some r" by (auto simp: op split: option.splits)
    have inv': "rdwr_inv \<lparr>rwlock = Some r, places = ps\<rparr>" using inv unfolding wlock(1) r .
    have "(0 < ltrw_w_active r \<or> 0 < ltrw_r_active r) \<and> rw' = Some (r\<lparr>ltrw_w_wait := ltrw_w_wait r + 1\<rparr>) \<and> arrive Writing Asleep_write Outside out = Asleep_write
        \<or> \<not> (0 < ltrw_w_active r \<or> 0 < ltrw_r_active r) \<and> rw' = Some (r\<lparr>ltrw_w_active := ltrw_w_active r + 1\<rparr>) \<and> arrive Writing Asleep_write Outside out = Writing"
      using wlock(5) unfolding r by (auto simp: op split: if_splits)
    then show ?thesis using inv_moves(5,6) [OF inv' wlock(3,4)] inv_counts(3,4) [OF inv'] unfolding wlock(2) by fastforce
  next
    case (wtrylock i ps rw rw' out)
    then obtain r where r: "rw = Some r" by (auto simp: op split: option.splits)
    have inv': "rdwr_inv \<lparr>rwlock = Some r, places = ps\<rparr>" using inv unfolding wtrylock(1) r .
    have "(0 < ltrw_w_active r \<or> 0 < ltrw_r_active r) \<and> rw' = Some r \<and> arrive Writing Asleep_write Outside out = Outside
        \<or> \<not> (0 < ltrw_w_active r \<or> 0 < ltrw_r_active r) \<and> rw' = Some (r\<lparr>ltrw_w_active := ltrw_w_active r + 1\<rparr>) \<and> arrive Writing Asleep_write Outside out = Writing"
      using wtrylock(5) unfolding r by (auto simp: op split: if_splits)
    then show ?thesis using inv_moves(6) [OF inv' wtrylock(3,4)] inv_counts(3,4) [OF inv'] id [OF wtrylock(4)] inv' unfolding wtrylock(2) by fastforce
  next
    case (wwoken i ps rw rw' out)
    then obtain r where r: "rw = Some r" by (auto simp: op split: option.splits)
    have inv': "rdwr_inv \<lparr>rwlock = Some r, places = ps\<rparr>" using inv unfolding wwoken(1) r .
    have "(0 < ltrw_w_active r \<or> 0 < ltrw_r_active r) \<and> rw' = Some r \<and> arrive Writing Asleep_write Outside out = Asleep_write
        \<or> \<not> (0 < ltrw_w_active r \<or> 0 < ltrw_r_active r) \<and> rw' = Some (r\<lparr>ltrw_w_wait := ltrw_w_wait r - 1, ltrw_w_active := ltrw_w_active r + 1\<rparr>) \<and> arrive Writing Asleep_write Outside out = Writing"
      using wwoken(5) unfolding r by (auto simp: op split: if_splits)
    then show ?thesis using inv_moves(7,8) [OF inv' wwoken(3,4)] inv_counts(3,4) [OF inv'] unfolding wwoken(2) by fastforce
  next
    case (wunlock i ps rw rw' call qs)
    then obtain r where r: "rw = Some r" using used [of rw ps i] by auto
    have "rw' = Some (r\<lparr>ltrw_w_active := ltrw_w_active r - 1\<rparr>)" "call = (if 0 < ltrw_r_wait r then Broadcast_read else if 0 < ltrw_w_wait r then Signal_write else No_call)"
      using wunlock(5) unfolding r by (auto simp: op split: if_splits)
    then show ?thesis using inv_released(2) [of r ps i call qs] inv wunlock(1,2,3,4,6) unfolding r by blast
  next
    case (wakes_reader i ps rw)
    then show ?thesis using inv inv_moves(9) used [of rw ps i] by auto
  next
    case (wakes_writer i ps rw)
    then show ?thesis using inv inv_moves(10) used [of rw ps i] by auto
  next
    case (destroy i ps rw rw' r)
    then show ?thesis using inv inv_destroyed [of _ ps] inv_counts by (auto simp: op split: option.splits if_splits)
  qed
qed

interpretation rdwr: inductive_invariant "rdwr_init n" rdwr_step rdwr_inv for n
  by unfold_locales (auto intro: rdwr_inv_init rdwr_inv_step)

section \<open>What the locks guarantee\<close>

lemma rdwr_no_failure:
  assumes "rdwr_inv s" "i < length (places s)"
  shows "rwlock s \<noteq> None \<Longrightarrow> places s ! i = Outside \<Longrightarrow> ldap_pvt_thread_rdwr_rlock (rwlock s) \<noteq> None \<and> ldap_pvt_thread_rdwr_rtrylock (rwlock s) \<noteq> None
      \<and> ldap_pvt_thread_rdwr_wlock (rwlock s) \<noteq> None \<and> ldap_pvt_thread_rdwr_wtrylock (rwlock s) \<noteq> None \<and> ldap_pvt_thread_rdwr_destroy (rwlock s) \<noteq> None"
    "places s ! i = Reading \<Longrightarrow> ldap_pvt_thread_rdwr_runlock (rwlock s) \<noteq> None"
    "places s ! i = Writing \<Longrightarrow> ldap_pvt_thread_rdwr_wunlock (rwlock s) \<noteq> None"
    "places s ! i = Awake_read \<Longrightarrow> rlock_woken (rwlock s) \<noteq> None" "places s ! i = Awake_write \<Longrightarrow> wlock_woken (rwlock s) \<noteq> None"
proof -
  obtain ps rw where s: "s = \<lparr>rwlock = rw, places = ps\<rparr>" by (cases s) simp
  note nn = at_nonneg [of ps Reading] at_nonneg [of ps Writing] at_nonneg [of ps Asleep_read]
    at_nonneg [of ps Awake_read] at_nonneg [of ps Asleep_write] at_nonneg [of ps Awake_write]
  note alive = alive_if_used [OF assms, unfolded s, simplified]
  note facts = assms(1) nn at_pos [OF assms(2)]
  show "rwlock s \<noteq> None \<Longrightarrow> places s ! i = Outside \<Longrightarrow> ldap_pvt_thread_rdwr_rlock (rwlock s) \<noteq> None \<and> ldap_pvt_thread_rdwr_rtrylock (rwlock s) \<noteq> None
      \<and> ldap_pvt_thread_rdwr_wlock (rwlock s) \<noteq> None \<and> ldap_pvt_thread_rdwr_wtrylock (rwlock s) \<noteq> None \<and> ldap_pvt_thread_rdwr_destroy (rwlock s) \<noteq> None"
    using facts by (auto simp: s rdwr_inv_def lock_defs)
  show "places s ! i = Reading \<Longrightarrow> ldap_pvt_thread_rdwr_runlock (rwlock s) \<noteq> None"
    using facts(1-7) at_pos [OF assms(2), of Reading] alive by (auto simp: s rdwr_inv_def lock_defs Let_def)
  show "places s ! i = Writing \<Longrightarrow> ldap_pvt_thread_rdwr_wunlock (rwlock s) \<noteq> None"
    using facts(1-7) at_pos [OF assms(2), of Writing] alive by (auto simp: s rdwr_inv_def lock_defs Let_def)
  show "places s ! i = Awake_read \<Longrightarrow> rlock_woken (rwlock s) \<noteq> None"
    using facts(1-7) at_pos [OF assms(2), of Awake_read] alive by (auto simp: s rdwr_inv_def lock_defs)
  show "places s ! i = Awake_write \<Longrightarrow> wlock_woken (rwlock s) \<noteq> None"
    using facts(1-7) at_pos [OF assms(2), of Awake_write] alive by (auto simp: s rdwr_inv_def lock_defs)
qed

text \<open>
  C13: However any number of threads take, try, release and wait for the lock, there is at most one writer and no
  reader beside it, the counters of the lock are the numbers of threads that hold it and wait for it, and the
  operation any thread is about to do, asking, releasing or going on after its wake-up, fails no assertion.
\<close>

theorem rdwr_excludes:
  assumes "reachable (rdwr_init n) rdwr_step s" "rwlock s = Some rw"
  shows "(at (places s) Writing = 0 \<or> at (places s) Writing = 1 \<and> at (places s) Reading = 0)
    \<and> ldap_pvt_thread_rdwr_readers (rwlock s) = Some (at (places s) Reading) \<and> ldap_pvt_thread_rdwr_writers (rwlock s) = Some (at (places s) Writing)
    \<and> ltrw_r_wait rw = at (places s) Asleep_read + at (places s) Awake_read \<and> ltrw_w_wait rw = at (places s) Asleep_write + at (places s) Awake_write
    \<and> (i < length (places s) \<longrightarrow> (case places s ! i of
         Outside \<Rightarrow> ldap_pvt_thread_rdwr_rlock (rwlock s) \<noteq> None \<and> ldap_pvt_thread_rdwr_wlock (rwlock s) \<noteq> None
           \<and> ldap_pvt_thread_rdwr_rtrylock (rwlock s) \<noteq> None \<and> ldap_pvt_thread_rdwr_wtrylock (rwlock s) \<noteq> None
       | Reading \<Rightarrow> ldap_pvt_thread_rdwr_runlock (rwlock s) \<noteq> None | Writing \<Rightarrow> ldap_pvt_thread_rdwr_wunlock (rwlock s) \<noteq> None
       | Awake_read \<Rightarrow> rlock_woken (rwlock s) \<noteq> None | Awake_write \<Rightarrow> wlock_woken (rwlock s) \<noteq> None
       | Asleep_read \<Rightarrow> True | Asleep_write \<Rightarrow> True))"
proof -
  have inv: "rdwr_inv s" by (rule rdwr.inv_reachable [OF assms(1)])
  note safe = rdwr_no_failure [OF inv, of i]
  have counts: "(at (places s) Writing = 0 \<or> at (places s) Writing = 1 \<and> at (places s) Reading = 0)
    \<and> ldap_pvt_thread_rdwr_readers (rwlock s) = Some (at (places s) Reading) \<and> ldap_pvt_thread_rdwr_writers (rwlock s) = Some (at (places s) Writing)
    \<and> ltrw_r_wait rw = at (places s) Asleep_read + at (places s) Awake_read \<and> ltrw_w_wait rw = at (places s) Asleep_write + at (places s) Awake_write"
    using inv assms(2) at_nonneg [of "places s"]
    by (auto simp: rdwr_inv_def lock_defs ldap_pvt_thread_rdwr_readers_def ldap_pvt_thread_rdwr_writers_def)
  show ?thesis
    by (intro conjI impI counts [THEN conjunct1] counts [THEN conjunct2, THEN conjunct1] counts [THEN conjunct2, THEN conjunct2, THEN conjunct1]
        counts [THEN conjunct2, THEN conjunct2, THEN conjunct2, THEN conjunct1] counts [THEN conjunct2, THEN conjunct2, THEN conjunct2, THEN conjunct2])
      (cases "places s ! i"; use safe assms(2) in \<open>simp del: not_None_eq\<close>)
qed

text \<open>A reader holds the lock and a writer waits for it.\<close>

lemma reader_and_waiting_writer:
  "reachable (rdwr_init 2) rdwr_step
    \<lparr>rwlock = Some \<lparr>ltrw_valid = LDAP_PVT_THREAD_RDWR_VALID, ltrw_r_active = 1, ltrw_w_active = 0, ltrw_r_wait = 0, ltrw_w_wait = 1\<rparr>,
     places = [Reading, Asleep_write]\<rparr>"
proof -
  let ?rw = "\<lambda>r w. \<lparr>ltrw_valid = LDAP_PVT_THREAD_RDWR_VALID, ltrw_r_active = r, ltrw_w_active = 0, ltrw_r_wait = 0, ltrw_w_wait = w\<rparr>"
  have "reachable (rdwr_init 2) rdwr_step \<lparr>rwlock = Some (?rw 0 0), places = [Outside, Outside]\<rparr>"
    by (rule reachable.start) (simp add: rdwr_init_def ldap_pvt_thread_rdwr_init_def eval_nat_numeral)
  moreover have "rdwr_step \<lparr>rwlock = Some (?rw 0 0), places = [Outside, Outside]\<rparr> \<lparr>rwlock = Some (?rw 1 0), places = [Reading, Outside]\<rparr>"
    using rdwr_step.rlock [of 0 "[Outside, Outside]" "Some (?rw 0 0)" "Some (?rw 1 0)" "Returns LDAP_PVT_THREAD_OK"]
    by (simp add: lock_defs arrive_def)
  moreover have "rdwr_step \<lparr>rwlock = Some (?rw 1 0), places = [Reading, Outside]\<rparr> \<lparr>rwlock = Some (?rw 1 1), places = [Reading, Asleep_write]\<rparr>"
    using rdwr_step.wlock [of 1 "[Reading, Outside]" "Some (?rw 1 0)" "Some (?rw 1 1)" Sleeps]
    by (simp add: lock_defs arrive_def)
  ultimately show ?thesis by (blast intro: reachable.step)
qed

theorem rdwr_excludes_witness:
  "ldap_pvt_thread_rdwr_runlock (Some \<lparr>ltrw_valid = LDAP_PVT_THREAD_RDWR_VALID, ltrw_r_active = 1, ltrw_w_active = 0, ltrw_r_wait = 0, ltrw_w_wait = 1\<rparr>) \<noteq> None"
  using rdwr_excludes [OF reader_and_waiting_writer, of _ 0] by simp

text \<open>
  C16: No wake-up is lost: whenever the lock is free and threads wait for it, one of them is awake, and any of those
  awake takes the lock with its next step; and the lock is destroyed only when nobody holds or awaits it.
\<close>

theorem rdwr_no_lost_wakeup:
  assumes "reachable (rdwr_init n) rdwr_step s" "Reading \<notin> set (places s)" "Writing \<notin> set (places s)"
    and "i < length (places s)" "places s ! i \<in> {Asleep_read, Asleep_write, Awake_read, Awake_write}"
  shows "(\<exists>j < length (places s). places s ! j \<in> {Awake_read, Awake_write})
    \<and> (\<forall>j < length (places s). (places s ! j = Awake_read \<longrightarrow> map_option snd (rlock_woken (rwlock s)) = Some (Returns LDAP_PVT_THREAD_OK))
        \<and> (places s ! j = Awake_write \<longrightarrow> map_option snd (wlock_woken (rwlock s)) = Some (Returns LDAP_PVT_THREAD_OK)))
    \<and> map_option snd (ldap_pvt_thread_rdwr_destroy (rwlock s)) = Some LDAP_PVT_THREAD_EBUSY"
proof -
  have inv: "rdwr_inv s" by (rule rdwr.inv_reachable [OF assms(1)])
  have "places s ! i \<noteq> Outside" using assms(5) by auto
  then obtain rw where rw: "rwlock s = Some rw" using alive_if_used [OF inv assms(4)] by auto
  have free: "at (places s) Reading = 0" "at (places s) Writing = 0" using assms(2,3) by (simp_all add: at_zero [symmetric])
  note nn = at_nonneg [of "places s" Asleep_read] at_nonneg [of "places s" Awake_read]
    at_nonneg [of "places s" Asleep_write] at_nonneg [of "places s" Awake_write]
  have waits: "0 < at (places s) Asleep_read + at (places s) Awake_read + at (places s) Asleep_write + at (places s) Awake_write"
    using at_pos [OF assms(4)] assms(5) nn by fastforce
  then have "0 < at (places s) Awake_read + at (places s) Awake_write"
    using inv free nn by (auto simp: rdwr_inv_def rw)
  then have "at (places s) Awake_read \<noteq> 0 \<or> at (places s) Awake_write \<noteq> 0" by linarith
  then have "Awake_read \<in> set (places s) \<or> Awake_write \<in> set (places s)" unfolding at_zero [symmetric] by blast
  then have "\<exists>j < length (places s). places s ! j \<in> {Awake_read, Awake_write}" by (auto simp: in_set_conv_nth)
  moreover have "map_option snd (rlock_woken (rwlock s)) = Some (Returns LDAP_PVT_THREAD_OK)" if "j < length (places s)" "places s ! j = Awake_read" for j
    using inv free nn at_pos [OF that] by (auto simp: rdwr_inv_def rw rlock_woken_def)
  moreover have "map_option snd (wlock_woken (rwlock s)) = Some (Returns LDAP_PVT_THREAD_OK)" if "j < length (places s)" "places s ! j = Awake_write" for j
    using inv free nn at_pos [OF that] by (auto simp: rdwr_inv_def rw wlock_woken_def)
  moreover have "map_option snd (ldap_pvt_thread_rdwr_destroy (rwlock s)) = Some LDAP_PVT_THREAD_EBUSY"
    using inv free nn waits by (auto simp: rdwr_inv_def rw lock_defs)
  ultimately show ?thesis by blast
qed

theorem rdwr_no_lost_wakeup_witness:
  "\<exists>s. reachable (rdwr_init 2) rdwr_step s \<and> places s = [Outside, Awake_write]
    \<and> map_option snd (wlock_woken (rwlock s)) = Some (Returns LDAP_PVT_THREAD_OK)"
proof -
  let ?rw = "\<lambda>r. \<lparr>ltrw_valid = LDAP_PVT_THREAD_RDWR_VALID, ltrw_r_active = r, ltrw_w_active = 0, ltrw_r_wait = 0, ltrw_w_wait = 1\<rparr>"
  let ?s = "\<lparr>rwlock = Some (?rw 0), places = [Outside, Awake_write]\<rparr>"
  have "conditions Signal_write [Outside, Asleep_write] [Outside, Awake_write]"
    using conditions.one_writer [of 1 "[Outside, Asleep_write]"] by simp
  then have "rdwr_step \<lparr>rwlock = Some (?rw 1), places = [Reading, Asleep_write]\<rparr> ?s"
    using rdwr_step.runlock [of 0 "[Reading, Asleep_write]" "Some (?rw 1)" "Some (?rw 0)" Signal_write "[Outside, Awake_write]"]
    by (simp add: lock_defs)
  with reader_and_waiting_writer have r: "reachable (rdwr_init 2) rdwr_step ?s" by (rule reachable.step)
  have "map_option snd (wlock_woken (rwlock ?s)) = Some (Returns LDAP_PVT_THREAD_OK)"
    using rdwr_no_lost_wakeup [OF r, of 1] by (fastforce simp: less_Suc_eq)
  with r show ?thesis by (intro exI [of _ ?s]) simp
qed

end
