(* ===== verification/Tpool.thy ===== *)
theory Tpool imports Step_Systems begin

text \<open>
  The thread pools of libraries/libldap_r/tpool.c.  A context is a value of \<open>'c\<close>, another one for every
  submission.  What a thread does while it holds the mutex of the pool is a function on the pool; the
  functions that release it in between are cut there.  A \<open>long\<close> counts threads and contexts and is an \<open>int\<close> here.
\<close>

datatype pool_state = LDAP_INT_THREAD_POOL_RUNNING | LDAP_INT_THREAD_POOL_FINISHING | LDAP_INT_THREAD_POOL_STOPPING

record 'c thread_pool =
  ltp_pending_list :: "'c list"
  ltp_state :: pool_state
  ltp_max_count :: int
  ltp_max_pending :: int
  ltp_pending_count :: int
  ltp_active_count :: int
  ltp_open_count :: int
  ltp_starting :: int

section \<open>The operations\<close>

definition ldap_int_thread_enlist :: "'c list \<Rightarrow> 'c \<Rightarrow> 'c list" where
  "ldap_int_thread_enlist list elem = list @ [elem]"

definition ldap_int_thread_delist :: "'c list \<Rightarrow> 'c option \<Rightarrow> 'c list \<times> 'c option" where
  "ldap_int_thread_delist list elem =
    (case list of [] \<Rightarrow> ([], None)
     | x # xs \<Rightarrow> (case elem of None \<Rightarrow> (xs, Some x)
         | Some c \<Rightarrow> if c \<in> set list then (remove1 c list, Some c) else (list, None)))"

text \<open>An \<open>Inl\<close> is the code returned; the mutex and the condition are the thread library's.\<close>

definition ldap_pvt_thread_pool_init :: "bool \<Rightarrow> int \<Rightarrow> int \<Rightarrow> int \<Rightarrow> int \<Rightarrow> int + 'c thread_pool" where
  "ldap_pvt_thread_pool_init mem mutex_rc cond_rc max_threads max_pending =
    (if \<not> mem then Inl (-1)
     else if mutex_rc \<noteq> 0 then Inl mutex_rc
     else if cond_rc \<noteq> 0 then Inl cond_rc
     else Inr \<lparr>ltp_pending_list = [], ltp_state = LDAP_INT_THREAD_POOL_RUNNING, ltp_max_count = max_threads,
       ltp_max_pending = max_pending, ltp_pending_count = 0, ltp_active_count = 0, ltp_open_count = 0, ltp_starting = 0\<rparr>)"

datatype submission = Rejected | Queued | Needs_thread

definition submit_locked :: "'c thread_pool \<Rightarrow> 'c \<Rightarrow> 'c thread_pool \<times> submission" where
  "submit_locked pool ctx =
    (if ltp_state pool \<noteq> LDAP_INT_THREAD_POOL_RUNNING \<or> 0 < ltp_max_pending pool \<and> ltp_max_pending pool \<le> ltp_pending_count pool
     then (pool, Rejected)
     else
       let pool1 = pool\<lparr>ltp_pending_count := ltp_pending_count pool + 1,
             ltp_pending_list := ldap_int_thread_enlist (ltp_pending_list pool) ctx\<rparr>
       in if (ltp_open_count pool1 \<le> 0 \<or> 1 < ltp_pending_count pool1 \<or> ltp_open_count pool1 = ltp_active_count pool1)
            \<and> (ltp_max_count pool1 \<le> 0 \<or> ltp_open_count pool1 < ltp_max_count pool1)
          then (pool1\<lparr>ltp_open_count := ltp_open_count pool1 + 1, ltp_starting := ltp_starting pool1 + 1\<rparr>, Needs_thread)
          else (pool1, Queued))"

definition submit_created :: "'c thread_pool \<Rightarrow> 'c thread_pool" where
  "submit_created pool = pool\<lparr>ltp_starting := ltp_starting pool - 1\<rparr>"

text \<open>Behind the failed creation of a thread; the context is counted once more when it is taken off the list.\<close>

definition submit_failed :: "'c thread_pool \<Rightarrow> 'c \<Rightarrow> 'c thread_pool \<times> int" where
  "submit_failed pool ctx =
    (let pool1 = pool\<lparr>ltp_open_count := ltp_open_count pool - 1, ltp_starting := ltp_starting pool - 1\<rparr> in
     if ltp_open_count pool1 = 0 then
       (case ldap_int_thread_delist (ltp_pending_list pool1) (Some ctx) of
          (list, None) \<Rightarrow> (pool1, 0)
        | (list, Some c) \<Rightarrow> (pool1\<lparr>ltp_pending_list := list, ltp_pending_count := ltp_pending_count pool1 + 1\<rparr>, -1))
     else (pool1, 0))"

definition ldap_pvt_thread_pool_maxthreads :: "'c thread_pool \<Rightarrow> int \<Rightarrow> 'c thread_pool" where
  "ldap_pvt_thread_pool_maxthreads pool max_threads = pool\<lparr>ltp_max_count := max_threads\<rparr>"

definition ldap_pvt_thread_pool_backload :: "'c thread_pool \<Rightarrow> int" where
  "ldap_pvt_thread_pool_backload pool = ltp_pending_count pool + ltp_active_count pool"

text \<open>The beginning of \<open>ldap_pvt_thread_pool_destroy\<close>: the pool, and how often its condition is signalled.\<close>

definition destroy_request :: "'c thread_pool \<Rightarrow> bool \<Rightarrow> 'c thread_pool \<times> nat" where
  "destroy_request pool run_pending =
    (pool\<lparr>ltp_state := (if run_pending then LDAP_INT_THREAD_POOL_FINISHING else LDAP_INT_THREAD_POOL_STOPPING)\<rparr>,
     nat (ltp_open_count pool))"

text \<open>One turn of the loop of \<open>ldap_int_thread_pool_wrapper\<close>, to the place where the mutex is released.\<close>

datatype 'c turn = Waits | Runs 'c | Leaves

definition pool_turn :: "'c thread_pool \<Rightarrow> 'c thread_pool \<times> 'c turn" where
  "pool_turn pool =
    (let leave = (pool\<lparr>ltp_open_count := ltp_open_count pool - 1\<rparr>, Leaves) in
     if ltp_state pool = LDAP_INT_THREAD_POOL_STOPPING then leave
     else case ldap_int_thread_delist (ltp_pending_list pool) None of
       (list, None) \<Rightarrow>
         if ltp_state pool = LDAP_INT_THREAD_POOL_FINISHING then leave
         else if 0 < ltp_max_count pool \<and> ltp_max_count pool < ltp_open_count pool then leave
         else (pool, Waits)
     | (list, Some ctx) \<Rightarrow>
         (pool\<lparr>ltp_pending_list := list, ltp_pending_count := ltp_pending_count pool - 1, ltp_active_count := ltp_active_count pool + 1\<rparr>, Runs ctx))"

definition turn_after_task :: "'c thread_pool \<Rightarrow> 'c thread_pool \<times> 'c turn" where
  "turn_after_task pool = pool_turn (pool\<lparr>ltp_active_count := ltp_active_count pool - 1\<rparr>)"

section \<open>Threads that use a pool\<close>

text \<open>
  A worker waits for the condition, is about to take the mutex, runs a context or has left.  Submitting threads
  are about to create a thread, or have created one or failed to and will say so.  The last three
  components keep the contexts accepted, started and finished, in that order, and \<open>failures\<close> the creations that failed.
\<close>

datatype 'c worker = Asleep | Ready | Running 'c | Gone

record 'c pool_system =
  pool :: "'c thread_pool"
  workers :: "'c worker list"
  creating :: "'c list"
  created :: nat
  failing :: "'c list"
  failures :: nat
  accepted :: "'c list"
  started :: "'c list"
  finished :: "'c list"

text \<open>A signal wakes one of those asleep, if there is one.\<close>

inductive signals :: "nat \<Rightarrow> 'c worker list \<Rightarrow> 'c worker list \<Rightarrow> bool" where
  no_signal: "signals 0 ws ws"
| wakes: "i < length ws \<Longrightarrow> ws ! i = Asleep \<Longrightarrow> signals n (ws[i := Ready]) ws' \<Longrightarrow> signals (Suc n) ws ws'"
| nobody: "Asleep \<notin> set ws \<Longrightarrow> signals n ws ws' \<Longrightarrow> signals (Suc n) ws ws'"

fun worker_after :: "'c turn \<Rightarrow> 'c worker" where
  "worker_after Waits = Asleep"
| "worker_after (Runs ctx) = Running ctx"
| "worker_after Leaves = Gone"

fun started_by :: "'c turn \<Rightarrow> 'c list" where
  "started_by (Runs ctx) = [ctx]"
| "started_by _ = []"

inductive pool_step :: "'c pool_system \<Rightarrow> 'c pool_system \<Rightarrow> bool" where
  rejected: "submit_locked (pool s) ctx = (p, Rejected) \<Longrightarrow> pool_step s (s\<lparr>pool := p\<rparr>)"
| queued: "ctx \<notin> set (accepted s) \<Longrightarrow> ctx \<notin> set (failing s) \<Longrightarrow> submit_locked (pool s) ctx = (p, Queued) \<Longrightarrow> signals 1 (workers s) ws \<Longrightarrow>
    pool_step s (s\<lparr>pool := p, workers := ws, accepted := accepted s @ [ctx]\<rparr>)"
| needs_thread: "ctx \<notin> set (accepted s) \<Longrightarrow> ctx \<notin> set (failing s) \<Longrightarrow> submit_locked (pool s) ctx = (p, Needs_thread) \<Longrightarrow> signals 1 (workers s) ws \<Longrightarrow>
    pool_step s (s\<lparr>pool := p, workers := ws, accepted := accepted s @ [ctx], creating := creating s @ [ctx]\<rparr>)"
| creates: "ctx \<in> set (creating s) \<Longrightarrow>
    pool_step s (s\<lparr>creating := remove1 ctx (creating s), created := created s + 1, workers := workers s @ [Ready]\<rparr>)"
| creation_fails: "ctx \<in> set (creating s) \<Longrightarrow>
    pool_step s (s\<lparr>creating := remove1 ctx (creating s), failing := ctx # failing s, failures := failures s + 1\<rparr>)"
| submitted: "0 < created s \<Longrightarrow> pool_step s (s\<lparr>pool := submit_created (pool s), created := created s - 1\<rparr>)"
| backs_out: "ctx \<in> set (failing s) \<Longrightarrow> submit_failed (pool s) ctx = (p, rc) \<Longrightarrow>
    pool_step s (s\<lparr>pool := p, failing := remove1 ctx (failing s), accepted := (if rc = 0 then accepted s else remove1 ctx (accepted s))\<rparr>)"
| turns: "i < length (workers s) \<Longrightarrow> workers s ! i = Ready \<Longrightarrow> pool_turn (pool s) = (p, t) \<Longrightarrow>
    pool_step s (s\<lparr>pool := p, workers := (workers s)[i := worker_after t], started := started s @ started_by t\<rparr>)"
| finishes: "i < length (workers s) \<Longrightarrow> workers s ! i = Running ctx \<Longrightarrow> turn_after_task (pool s) = (p, t) \<Longrightarrow>
    pool_step s (s\<lparr>pool := p, workers := (workers s)[i := worker_after t], started := started s @ started_by t, finished := finished s @ [ctx]\<rparr>)"
| wakes_up: "i < length (workers s) \<Longrightarrow> workers s ! i = Asleep \<Longrightarrow> pool_step s (s\<lparr>workers := (workers s)[i := Ready]\<rparr>)"
| resized: "pool_step s (s\<lparr>pool := ldap_pvt_thread_pool_maxthreads (pool s) max_threads\<rparr>)"
| destroys: "ltp_state (pool s) = LDAP_INT_THREAD_POOL_RUNNING \<Longrightarrow> destroy_request (pool s) run_pending = (p, n) \<Longrightarrow> signals n (workers s) ws \<Longrightarrow>
    pool_step s (s\<lparr>pool := p, workers := ws\<rparr>)"

definition pool_start :: "int \<Rightarrow> int \<Rightarrow> 'c pool_system \<Rightarrow> bool" where
  "pool_start max_threads max_pending s \<longleftrightarrow> ldap_pvt_thread_pool_init True 0 0 max_threads max_pending = Inr (pool s)
    \<and> workers s = [] \<and> creating s = [] \<and> created s = 0 \<and> failing s = [] \<and> failures s = 0
    \<and> accepted s = [] \<and> started s = [] \<and> finished s = []"

end
