(* ===== verification/Tpool_Facts.thy ===== *)
theory Tpool_Facts imports Tpool "HOL-Library.Multiset" begin

text \<open>
  The thread pools run every context they accept, in the order of submission and once, lose no wake-up, and
  finish the pending ones before they are destroyed when asked to, as long as threads can be created.
\<close>

section \<open>Workers\<close>

fun task :: "'c worker \<Rightarrow> 'c list" where
  "task (Running ctx) = [ctx]"
| "task _ = []"

definition running :: "'c worker list \<Rightarrow> 'c list" where "running ws = concat (map task ws)"

lemma running_simps [simp]: "running [] = []" "running (w # ws) = task w @ running ws" "running (ws @ ws') = running ws @ running ws'"
  by (simp_all add: running_def)

lemma running_update:
  assumes "i < length ws"
  shows "mset (running (ws[i := w])) + mset (task (ws ! i)) = mset (running ws) + mset (task w)"
proof -
  have "mset (running ws) = mset (running (take i ws @ ws ! i # drop (Suc i) ws))" using id_take_nth_drop [OF assms] by simp
  then show ?thesis unfolding upd_conv_take_nth_drop [OF assms] by simp
qed

lemma running_length_update:
  assumes "i < length ws"
  shows "length (running (ws[i := w])) + length (task (ws ! i)) = length (running ws) + length (task w)"
  using arg_cong [OF running_update [OF assms, of w], of size] by simp

lemma signals_effect:
  assumes "signals n ws ws'"
  shows "mset (running ws') = mset (running ws)" "at ws' Asleep + at ws' Ready = at ws Asleep + at ws Ready" "at ws' Gone = at ws Gone"
    "at ws' Asleep = max 0 (at ws Asleep - int n)"
  using assms
proof (induction rule: signals.induct)
  case (no_signal ws)
  case 1 then show ?case by simp
  case 2 then show ?case by simp
  case 3 then show ?case by simp
  case 4 then show ?case using at_nonneg [of ws Asleep] by simp
next
  case (wakes i ws n ws')
  have u: "at (ws[i := Ready]) w = at ws w - (if Asleep = w then 1 else 0) + (if Ready = w then 1 else 0)" for w
    using at_update [OF wakes(1), of Ready w] wakes(2) by simp
  case 1 then show ?case using wakes running_update [OF wakes(1), of Ready] by simp
  case 2 then show ?case using wakes(5) u by simp
  case 3 then show ?case using wakes(6) u by simp
  case 4 then show ?case using wakes(7) u [of Asleep] by simp
next
  case (nobody ws n ws')
  case 1 then show ?case using nobody by simp
  case 2 then show ?case using nobody by simp
  case 3 then show ?case using nobody by simp
  case 4 then show ?case using nobody at_zero [of Asleep ws] by simp
qed

section \<open>The invariant\<close>

definition pool_counts :: "'c pool_system \<Rightarrow> bool" where
  "pool_counts s \<longleftrightarrow>
     ltp_open_count (pool s) = at (workers s) Asleep + at (workers s) Ready + int (length (running (workers s)))
       + int (length (creating s)) + int (length (failing s))
   \<and> ltp_active_count (pool s) = int (length (running (workers s)))
   \<and> ltp_starting (pool s) = int (length (creating s)) + int (created s) + int (length (failing s))
   \<and> int (length (ltp_pending_list (pool s))) \<le> ltp_pending_count (pool s)
   \<and> (failures s = 0 \<longrightarrow> ltp_pending_count (pool s) = int (length (ltp_pending_list (pool s))) \<and> failing s = [])
   \<and> (0 < ltp_max_pending (pool s) \<longrightarrow> int (length (ltp_pending_list (pool s))) \<le> ltp_max_pending (pool s))"

definition pool_order :: "'c pool_system \<Rightarrow> bool" where
  "pool_order s \<longleftrightarrow> accepted s = started s @ ltp_pending_list (pool s) \<and> distinct (accepted s)
   \<and> mset (started s) = mset (finished s) + mset (running (workers s))"

definition pool_wakes :: "'c pool_system \<Rightarrow> bool" where
  "pool_wakes s \<longleftrightarrow>
     (ltp_state (pool s) \<noteq> LDAP_INT_THREAD_POOL_RUNNING \<longrightarrow> at (workers s) Asleep = 0)
   \<and> (ltp_pending_list (pool s) \<noteq> [] \<and> 0 < at (workers s) Asleep \<longrightarrow> 0 < at (workers s) Ready + int (length (running (workers s))))
   \<and> (failures s = 0 \<and> ltp_state (pool s) \<noteq> LDAP_INT_THREAD_POOL_STOPPING \<and> ltp_pending_list (pool s) \<noteq> [] \<longrightarrow> 0 < ltp_open_count (pool s))"

definition pool_inv :: "'c pool_system \<Rightarrow> bool" where
  "pool_inv s \<longleftrightarrow> pool_counts s \<and> pool_order s \<and> pool_wakes s"

lemmas pool_inv_defs = pool_inv_def pool_counts_def pool_order_def pool_wakes_def

lemma pool_inv_start: "pool_start max_threads max_pending s \<Longrightarrow> pool_inv s"
  by (cases s) (auto simp: pool_start_def pool_inv_defs ldap_pvt_thread_pool_init_def)

lemma delist_head: "ldap_int_thread_delist xs None = (case xs of [] \<Rightarrow> ([], None) | x # xs \<Rightarrow> (xs, Some x))"
  by (simp add: ldap_int_thread_delist_def split: list.split)

lemma delist_elem: "ldap_int_thread_delist xs (Some c) = (if c \<in> set xs then (remove1 c xs, Some c) else (xs, None))"
  by (simp add: ldap_int_thread_delist_def split: list.split)

text \<open>A worker goes from \<open>w\<close> to \<open>w'\<close>.\<close>

lemma worker_moves:
  assumes "i < length ws" "ws ! i = w"
  shows "at (ws[i := w']) Asleep = at ws Asleep - (if w = Asleep then 1 else 0) + (if w' = Asleep then 1 else 0)"
    "at (ws[i := w']) Ready = at ws Ready - (if w = Ready then 1 else 0) + (if w' = Ready then 1 else 0)"
    "mset (running (ws[i := w'])) + mset (task w) = mset (running ws) + mset (task w')"
    "int (length (running (ws[i := w']))) = int (length (running ws)) - int (length (task w)) + int (length (task w'))"
proof -
  show "int (length (running (ws[i := w']))) = int (length (running ws)) - int (length (task w)) + int (length (task w'))"
    using running_length_update [OF assms(1), of w'] unfolding assms(2) by linarith
qed (use assms running_update [OF assms(1), of w'] at_update [OF assms(1)] in auto)

lemma worker_there:
  assumes "i < length ws" "ws ! i = w"
  shows "int (length (task w)) \<le> int (length (running ws))" "w = Ready \<Longrightarrow> 1 \<le> at ws Ready" "w = Asleep \<Longrightarrow> 1 \<le> at ws Asleep"
  using running_length_update [OF assms(1), of Gone] at_pos [OF assms] assms(2) by auto

lemma inv_submit:
  assumes "pool_inv s" "ctx \<notin> set (accepted s)" "submit_locked (pool s) ctx = (p, out)" "out \<noteq> Rejected" "signals 1 (workers s) ws"
  shows "pool_inv (s\<lparr>pool := p, workers := ws, accepted := accepted s @ [ctx], creating := creating s @ (if out = Needs_thread then [ctx] else [])\<rparr>)"
    (is "pool_inv ?s")
proof -
  have run: "ltp_state (pool s) = LDAP_INT_THREAD_POOL_RUNNING" "0 < ltp_max_pending (pool s) \<Longrightarrow> ltp_pending_count (pool s) < ltp_max_pending (pool s)"
    using assms(3,4) by (auto simp: submit_locked_def Let_def split: if_splits)
  note sig = signals_effect [OF assms(5)]
  have len: "length (running ws) = length (running (workers s))" using sig(1) by (metis size_mset)
  have awake: "0 < at ws Asleep \<Longrightarrow> 0 < at ws Ready" using sig(2,4) at_nonneg [of "workers s" Ready] by (auto simp: max_def split: if_splits)
  let ?p1 = "(pool s)\<lparr>ltp_pending_count := ltp_pending_count (pool s) + 1, ltp_pending_list := ltp_pending_list (pool s) @ [ctx]\<rparr>"
  let ?more = "(ltp_open_count (pool s) \<le> 0 \<or> 0 < ltp_pending_count (pool s) \<or> ltp_open_count (pool s) = ltp_active_count (pool s))
    \<and> (ltp_max_count (pool s) \<le> 0 \<or> ltp_open_count (pool s) < ltp_max_count (pool s))"
  have out: "if ?more then out = Needs_thread \<and> p = ?p1\<lparr>ltp_open_count := ltp_open_count (pool s) + 1, ltp_starting := ltp_starting (pool s) + 1\<rparr>
      else out = Queued \<and> p = ?p1"
    using assms(3,4) by (auto simp: submit_locked_def ldap_int_thread_enlist_def Let_def split: if_splits)
  have opened: "\<not> ?more \<Longrightarrow> 0 < ltp_open_count (pool s)" by linarith
  have o: "0 \<le> ltp_open_count (pool s)" using assms(1) at_nonneg [of "workers s"] by (simp add: pool_inv_defs)
  have p: "ltp_pending_list p = ltp_pending_list (pool s) @ [ctx]" "ltp_state p = ltp_state (pool s)" "0 < ltp_open_count p"
    "ltp_max_pending p = ltp_max_pending (pool s)" "ltp_pending_count p = ltp_pending_count (pool s) + 1" "ltp_active_count p = ltp_active_count (pool s)"
    "ltp_open_count p = ltp_open_count (pool s) + (if out = Needs_thread then 1 else 0)" "ltp_starting p = ltp_starting (pool s) + (if out = Needs_thread then 1 else 0)"
    using out opened o by (auto split: if_splits)
  have "pool_counts ?s" using assms(1) sig(2) len run(2) by (auto simp: pool_inv_def pool_counts_def p)
  moreover have "pool_order ?s" using assms(1,2) sig(1) by (auto simp: pool_inv_def pool_order_def p)
  moreover have "pool_wakes ?s" using awake run(1) p(3) by (auto simp: pool_wakes_def p(1,2))
  ultimately show ?thesis by (simp add: pool_inv_def)
qed

lemma pool_turn_cases:
  assumes "pool_turn p0 = (p, t)"
  shows "p = p0\<lparr>ltp_open_count := ltp_open_count p0 - 1\<rparr> \<and> t = Leaves \<and> (ltp_state p0 = LDAP_INT_THREAD_POOL_STOPPING \<or> ltp_pending_list p0 = [])
    \<or> p = p0 \<and> t = Waits \<and> ltp_state p0 = LDAP_INT_THREAD_POOL_RUNNING \<and> ltp_pending_list p0 = []
    \<or> (\<exists>ctx xs. ltp_pending_list p0 = ctx # xs \<and> t = Runs ctx
        \<and> p = p0\<lparr>ltp_pending_list := xs, ltp_pending_count := ltp_pending_count p0 - 1, ltp_active_count := ltp_active_count p0 + 1\<rparr>)"
proof (cases "ltp_state p0")
  case LDAP_INT_THREAD_POOL_RUNNING
  then show ?thesis using assms by (cases "ltp_pending_list p0") (auto simp: pool_turn_def delist_head split: if_splits)
next
  case LDAP_INT_THREAD_POOL_FINISHING
  then show ?thesis using assms by (cases "ltp_pending_list p0") (auto simp: pool_turn_def delist_head)
next
  case LDAP_INT_THREAD_POOL_STOPPING
  then show ?thesis using assms by (auto simp: pool_turn_def)
qed

lemma inv_turn:
  assumes inv: "pool_inv s" and i: "i < length (workers s)" "workers s ! i = w" "w = Ready \<and> fin = [] \<or> (\<exists>ctx. w = Running ctx \<and> fin = [ctx])"
    and turn: "pool_turn ((pool s)\<lparr>ltp_active_count := ltp_active_count (pool s) - int (length (task w))\<rparr>) = (p, t)"
  shows "pool_inv (s\<lparr>pool := p, workers := (workers s)[i := worker_after t], started := started s @ started_by t, finished := finished s @ fin\<rparr>)"
    (is "pool_inv ?s")
proof -
  have f: "pool_counts s" "pool_order s" "pool_wakes s" using inv by (simp_all add: pool_inv_def)
  note m = worker_moves [OF i(1,2), of "worker_after t"] and th = worker_there [OF i(1,2)]
  have w: "w \<noteq> Asleep" "task w = fin" "w = Ready \<longleftrightarrow> fin = []" "fin \<noteq> [] \<Longrightarrow> length fin = 1" using i(3) by auto
  have r: "mset (task w) + mset (running (workers ?s)) = mset (running (workers s)) + mset (task (worker_after t))"
    using m(3) by (simp add: add.commute)
  let ?p0 = "(pool s)\<lparr>ltp_active_count := ltp_active_count (pool s) - int (length (task w))\<rparr>"
  consider (leaves) "p = ?p0\<lparr>ltp_open_count := ltp_open_count (pool s) - 1\<rparr>" "t = Leaves"
      "ltp_state (pool s) = LDAP_INT_THREAD_POOL_STOPPING \<or> ltp_pending_list (pool s) = []"
    | (waits) "p = ?p0" "t = Waits" "ltp_state (pool s) = LDAP_INT_THREAD_POOL_RUNNING" "ltp_pending_list (pool s) = []"
    | (runs) ctx xs where "ltp_pending_list (pool s) = ctx # xs" "t = Runs ctx"
      "p = ?p0\<lparr>ltp_pending_list := xs, ltp_pending_count := ltp_pending_count (pool s) - 1, ltp_active_count := ltp_active_count ?p0 + 1\<rparr>"
    using pool_turn_cases [OF turn] by simp blast
  then show ?thesis
  proof cases
    case leaves
    have "pool_counts ?s" using f(1) m w unfolding pool_counts_def by (cases "fin = []") (simp_all add: leaves)
    moreover have "pool_order ?s" using f(2) r w(2) by (auto simp: pool_order_def leaves add.assoc)
    moreover have "pool_wakes ?s" using f(3) m(1) w(1) leaves(3) by (auto simp: pool_wakes_def leaves(1,2))
    ultimately show ?thesis by (simp add: pool_inv_def)
  next
    case waits
    have "pool_counts ?s" using f(1) m w unfolding pool_counts_def by (cases "fin = []") (simp_all add: waits)
    moreover have "pool_order ?s" using f(2) r w(2) by (auto simp: pool_order_def waits add.assoc)
    moreover have "pool_wakes ?s" using waits(3,4) by (simp add: pool_wakes_def waits(1,2))
    ultimately show ?thesis by (simp add: pool_inv_def)
  next
    case runs
    have "pool_counts ?s" using f(1) m w unfolding pool_counts_def by (cases "fin = []") (simp_all add: runs, linarith+)
    moreover have "pool_order ?s" using f(2) r w(2) by (auto simp: pool_order_def runs add.assoc)
    moreover have "0 < at (workers ?s) Ready + int (length (running (workers ?s)))"
      using m(4) th(1) runs(2) at_nonneg [of "workers ?s" Ready] by simp
    then have "pool_wakes ?s" using f(3) m(1) w(1) runs(1) unfolding pool_wakes_def by (simp add: runs(2,3))
    ultimately show ?thesis by (simp add: pool_inv_def)
  qed
qed

lemma length_remove1_int: "x \<in> set xs \<Longrightarrow> int (length (remove1 x xs)) = int (length xs) - 1"
  by (induction xs) auto

lemma inv_backs_out:
  assumes "pool_inv s" "ctx \<in> set (failing s)" "submit_failed (pool s) ctx = (p, rc)"
  shows "pool_inv (s\<lparr>pool := p, failing := remove1 ctx (failing s), accepted := (if rc = 0 then accepted s else remove1 ctx (accepted s))\<rparr>)"
    (is "pool_inv ?s")
proof -
  have f: "pool_counts s" "pool_order s" "pool_wakes s" using assms(1) by (simp_all add: pool_inv_def)
  have l: "int (length (remove1 ctx (failing s))) = int (length (failing s)) - 1" "failing s \<noteq> []"
    using assms(2) length_remove1_int [of ctx "failing s"] by auto
  have failed: "failures s \<noteq> 0" using f(1) l(2) by (auto simp: pool_counts_def)
  let ?p1 = "(pool s)\<lparr>ltp_open_count := ltp_open_count (pool s) - 1, ltp_starting := ltp_starting (pool s) - 1\<rparr>"
  consider (kept) "p = ?p1" "rc = 0"
    | (dropped) "ctx \<in> set (ltp_pending_list (pool s))" "rc = -1"
      "p = ?p1\<lparr>ltp_pending_list := remove1 ctx (ltp_pending_list (pool s)), ltp_pending_count := ltp_pending_count (pool s) + 1\<rparr>"
    using assms(3) by (auto simp: submit_failed_def delist_elem Let_def split: if_splits)
  then show ?thesis
  proof cases
    case kept
    then show ?thesis using f l failed by (auto simp: pool_inv_defs)
  next
    case dropped
    have r: "length (remove1 ctx (ltp_pending_list (pool s))) \<le> length (ltp_pending_list (pool s))" by (simp add: length_remove1)
    have "pool_counts ?s" using f(1) l failed r by (auto simp: pool_counts_def dropped(2,3))
    moreover have "pool_order ?s" using f(2) dropped(1) by (auto simp: pool_order_def dropped(2,3) remove1_append)
    moreover have "pool_wakes ?s" using f(3) failed by (auto simp: pool_wakes_def dropped(2,3))
    ultimately show ?thesis by (simp add: pool_inv_def)
  qed
qed

lemma pool_inv_step: "pool_inv s \<Longrightarrow> pool_step s t \<Longrightarrow> pool_inv t"
proof -
  assume inv: "pool_inv s" and step: "pool_step s t"
  have f: "pool_counts s" "pool_order s" "pool_wakes s" using inv by (simp_all add: pool_inv_def)
  from step show ?thesis
  proof cases
    case (rejected ctx p)
    then have "t = s" by (cases s) (auto simp: submit_locked_def Let_def split: if_splits)
    then show ?thesis using inv by simp
  next
    case (queued ctx p ws)
    then show ?thesis using inv_submit [OF inv queued(2,4) _ queued(5)] by simp
  next
    case (needs_thread ctx p ws)
    then show ?thesis using inv_submit [OF inv needs_thread(2,4) _ needs_thread(5)] by simp
  next
    case (creates ctx)
    have "int (length (remove1 ctx (creating s))) = int (length (creating s)) - 1" by (rule length_remove1_int [OF creates(2)])
    moreover have "at (workers t) Asleep = at (workers s) Asleep" "at (workers t) Ready = at (workers s) Ready + 1"
      "running (workers t) = running (workers s)" "pool t = pool s"
      by (simp_all add: creates(1))
    ultimately have "pool_counts t" using f(1) unfolding creates(1) by (simp add: pool_counts_def)
    moreover have "pool_order t" using f(2) unfolding creates(1) by (auto simp: pool_order_def)
    moreover have "pool_wakes t" using f(3) unfolding creates(1) by (simp add: pool_wakes_def) linarith
    ultimately show ?thesis by (simp add: pool_inv_def)
  next
    case (creation_fails ctx)
    have "int (length (remove1 ctx (creating s))) = int (length (creating s)) - 1" by (rule length_remove1_int [OF creation_fails(2)])
    then have "pool_counts t" using f(1) unfolding creation_fails(1) by (auto simp: pool_counts_def)
    moreover have "pool_order t" "pool_wakes t" using f(2,3) unfolding creation_fails(1) by (auto simp: pool_order_def pool_wakes_def)
    ultimately show ?thesis by (simp add: pool_inv_def)
  next
    case submitted
    then have "int (created s - 1) = int (created s) - 1" by simp
    then have "pool_counts t" using f(1) unfolding submitted(1) by (simp add: pool_counts_def submit_created_def)
    moreover have "pool_order t" "pool_wakes t" using f(2,3) unfolding submitted(1) by (auto simp: pool_order_def pool_wakes_def submit_created_def)
    ultimately show ?thesis by (simp add: pool_inv_def)
  next
    case (backs_out ctx p rc)
    then show ?thesis using inv_backs_out [OF inv backs_out(2,3)] by simp
  next
    case (turns i p w)
    have "(pool s)\<lparr>ltp_active_count := ltp_active_count (pool s) - int (length (task Ready))\<rparr> = pool s" by simp
    then show ?thesis using inv_turn [OF inv turns(2,3), of "[]" p w] turns(4) unfolding turns(1) by simp
  next
    case (finishes i ctx p w)
    then show ?thesis using inv_turn [OF inv finishes(2,3), of "[ctx]" p w] unfolding turn_after_task_def by simp
  next
    case (wakes_up i)
    note m = worker_moves [OF wakes_up(2,3), of Ready] and th = worker_there(3) [OF wakes_up(2,3)]
    have "pool_counts t" using f(1) m unfolding wakes_up(1) by (simp add: pool_counts_def)
    moreover have "pool_order t" using f(2) m(3) unfolding wakes_up(1) by (auto simp: pool_order_def)
    moreover have "pool_wakes t" using f(3) m th at_nonneg [of "workers s" Ready] unfolding wakes_up(1) by (auto simp: pool_wakes_def)
    ultimately show ?thesis by (simp add: pool_inv_def)
  next
    case (resized max_threads)
    then have "pool_counts t" using f(1) by (simp add: pool_counts_def ldap_pvt_thread_pool_maxthreads_def)
    moreover have "pool_order t" using f(2) unfolding resized by (auto simp: pool_order_def ldap_pvt_thread_pool_maxthreads_def)
    moreover have "pool_wakes t" using f(3) unfolding resized by (simp add: pool_wakes_def ldap_pvt_thread_pool_maxthreads_def)
    ultimately show ?thesis by (simp add: pool_inv_def)
  next
    case (destroys run_pending p n ws)
    note sig = signals_effect [OF destroys(4)]
    have len: "length (running ws) = length (running (workers s))" using sig(1) by (metis size_mset)
    have n: "n = nat (ltp_open_count (pool s))" "p = (pool s)\<lparr>ltp_state := (if run_pending then LDAP_INT_THREAD_POOL_FINISHING else LDAP_INT_THREAD_POOL_STOPPING)\<rparr>"
      using destroys(3) by (simp_all add: destroy_request_def)
    have "at (workers s) Asleep \<le> int n"
      using f(1) at_nonneg [of "workers s" Ready] at_nonneg [of "workers s" Asleep] by (simp add: n(1) pool_counts_def)
    then have "at ws Asleep = 0" using sig(4) by simp
    moreover have "pool_counts t" using f(1) sig(2) len unfolding destroys(1) by (simp add: pool_counts_def n(2))
    moreover have "pool_order t" using f(2) sig(1) unfolding destroys(1) by (auto simp: pool_order_def n(2))
    ultimately have "pool_counts t" "pool_order t" "pool_wakes t" using f(3) destroys(2) unfolding destroys(1) by (simp_all add: pool_wakes_def n(2))
    then show ?thesis by (simp add: pool_inv_def)
  qed
qed

interpretation pool: inductive_invariant "pool_start max_threads max_pending" pool_step pool_inv for max_threads max_pending
  by unfold_locales (auto intro: pool_inv_start pool_inv_step)

section \<open>What the pools guarantee\<close>

text \<open>
  C14: Whatever the order in which threads submit, create workers, work, change the limit and destroy, the counts of
  the pool are those of its threads and contexts, at most \<open>max_pending\<close> contexts wait, contexts are started in the
  order of their submission, and every accepted one is waiting, running or finished, and only one of these.
\<close>

theorem pool_runs_each_once:
  assumes "reachable (pool_start max_threads max_pending) pool_step s"
  shows "accepted s = started s @ ltp_pending_list (pool s) \<and> distinct (accepted s)
    \<and> mset (accepted s) = mset (ltp_pending_list (pool s)) + mset (running (workers s)) + mset (finished s)
    \<and> ltp_active_count (pool s) = int (length (running (workers s)))
    \<and> ltp_open_count (pool s) = at (workers s) Asleep + at (workers s) Ready + ltp_active_count (pool s) + int (length (creating s @ failing s))
    \<and> (failures s = 0 \<longrightarrow> ldap_pvt_thread_pool_backload (pool s) = int (length (ltp_pending_list (pool s) @ running (workers s))))
    \<and> (0 < ltp_max_pending (pool s) \<longrightarrow> int (length (ltp_pending_list (pool s))) \<le> ltp_max_pending (pool s))"
proof -
  have "pool_counts s" "pool_order s" using pool.inv_reachable [OF assms] by (simp_all add: pool_inv_def)
  then have c: "pool_counts s" and o: "accepted s = started s @ ltp_pending_list (pool s)" "distinct (accepted s)"
    "mset (started s) = mset (finished s) + mset (running (workers s))"
    by (auto simp: pool_order_def)
  have "mset (accepted s) = mset (ltp_pending_list (pool s)) + mset (running (workers s)) + mset (finished s)" unfolding o(1) by (simp add: o(3))
  then show ?thesis using c o(1,2) by (auto simp: pool_counts_def ldap_pvt_thread_pool_backload_def)
qed

text \<open>
  C15: As long as no thread failed to be created, no context is left behind: while contexts wait in a running pool, a
  worker is about to take one or runs and will look again, or a thread is being created; and when
  \<open>ldap_pvt_thread_pool_destroy\<close> with \<open>run_pending\<close> has seen the last thread leave, every accepted context is finished.
\<close>

theorem pool_leaves_nothing_behind:
  assumes "reachable (pool_start max_threads max_pending) pool_step s" "failures s = 0"
  shows "(ltp_state (pool s) \<noteq> LDAP_INT_THREAD_POOL_STOPPING \<and> ltp_pending_list (pool s) \<noteq> [] \<longrightarrow>
        Ready \<in> set (workers s) \<or> running (workers s) \<noteq> [] \<or> creating s \<noteq> [])
    \<and> (ltp_state (pool s) = LDAP_INT_THREAD_POOL_FINISHING \<and> ltp_open_count (pool s) \<le> 0 \<longrightarrow> mset (finished s) = mset (accepted s))
    \<and> (ltp_state (pool s) \<noteq> LDAP_INT_THREAD_POOL_RUNNING \<longrightarrow> Asleep \<notin> set (workers s))"
proof -
  have f: "pool_counts s" "pool_order s" "pool_wakes s" using pool.inv_reachable [OF assms(1)] by (simp_all add: pool_inv_def)
  have r: "Ready \<notin> set (workers s) \<Longrightarrow> at (workers s) Ready = 0" by (simp add: at_zero)
  have n: "0 \<le> at (workers s) Ready" "0 \<le> at (workers s) Asleep" by (rule at_nonneg)+
  have "Ready \<in> set (workers s) \<or> running (workers s) \<noteq> [] \<or> creating s \<noteq> []"
    if "ltp_state (pool s) \<noteq> LDAP_INT_THREAD_POOL_STOPPING" "ltp_pending_list (pool s) \<noteq> []"
  proof (rule ccontr)
    assume "\<not> ?thesis"
    then have none: "at (workers s) Ready = 0" "running (workers s) = []" "creating s = []" using r by auto
    then have "\<not> 0 < at (workers s) Asleep" using f(3) that by (simp add: pool_wakes_def)
    then have "ltp_open_count (pool s) \<le> 0" using f(1) none assms(2) by (simp add: pool_counts_def)
    then show False using f(3) that assms(2) by (simp add: pool_wakes_def)
  qed
  moreover have "mset (finished s) = mset (accepted s)"
    if "ltp_state (pool s) = LDAP_INT_THREAD_POOL_FINISHING" "ltp_open_count (pool s) \<le> 0"
  proof -
    have "ltp_pending_list (pool s) = []" using f(3) that assms(2) by (auto simp: pool_wakes_def)
    moreover have "int (length (running (workers s))) = 0" using f(1) that(2) n unfolding pool_counts_def by linarith
    ultimately show ?thesis using f(2) by (simp add: pool_order_def)
  qed
  moreover have "ltp_state (pool s) \<noteq> LDAP_INT_THREAD_POOL_RUNNING \<Longrightarrow> Asleep \<notin> set (workers s)"
    using f(3) unfolding pool_wakes_def at_zero by blast
  ultimately show ?thesis by blast
qed

text \<open>One context submitted to a new pool, before its thread is created.\<close>

definition first_submission :: "nat pool_system" where
  "first_submission = \<lparr>pool = \<lparr>ltp_pending_list = [7], ltp_state = LDAP_INT_THREAD_POOL_RUNNING, ltp_max_count = 4, ltp_max_pending = 8,
      ltp_pending_count = 1, ltp_active_count = 0, ltp_open_count = 1, ltp_starting = 1\<rparr>,
    workers = [], creating = [7], created = 0, failing = [], failures = 0, accepted = [7], started = [], finished = []\<rparr>"

lemma first_submission_reachable: "reachable (pool_start 4 8) pool_step first_submission"
proof -
  let ?p = "\<lparr>ltp_pending_list = [], ltp_state = LDAP_INT_THREAD_POOL_RUNNING, ltp_max_count = 4, ltp_max_pending = 8,
      ltp_pending_count = 0, ltp_active_count = 0, ltp_open_count = 0, ltp_starting = 0\<rparr>"
  let ?s = "\<lparr>pool = ?p, workers = [], creating = [], created = 0, failing = [], failures = 0, accepted = [], started = [], finished = []\<rparr>"
  have "reachable (pool_start 4 8) pool_step ?s"
    by (rule reachable.start) (simp add: pool_start_def ldap_pvt_thread_pool_init_def)
  moreover have "signals 1 [] []" using signals.nobody [OF _ signals.no_signal, of "[]"] by simp
  then have "pool_step ?s first_submission"
    using pool_step.needs_thread [of 7 ?s "pool first_submission" "[]"]
    by (simp add: submit_locked_def ldap_int_thread_enlist_def first_submission_def)
  ultimately show ?thesis by (rule reachable.step)
qed

theorem pool_runs_each_once_witness:
  "ltp_open_count (pool first_submission) = int (length (creating first_submission))"
  using pool_runs_each_once [OF first_submission_reachable] by (simp add: first_submission_def)

theorem pool_leaves_nothing_behind_witness: "creating first_submission \<noteq> []"
  using pool_leaves_nothing_behind [OF first_submission_reachable] by (simp add: first_submission_def)

text \<open>
  When a thread cannot be created the count of pending contexts is raised instead of lowered: the list is
  empty then and the count is two.
\<close>

lemma failed_creation_counts_up:
  "submit_failed (pool first_submission) 7 = ((pool first_submission)\<lparr>ltp_pending_list := [], ltp_pending_count := 2, ltp_open_count := 0, ltp_starting := 0\<rparr>, -1)"
  by (simp add: submit_failed_def first_submission_def ldap_int_thread_delist_def)

end
