(* ===== verification/Digest.thy ===== *)
theory Digest imports Ldap_Prelude begin

text \<open>
  The digests of libraries/liblutil/md5.c and sha1.c, on the little-endian target.  A context is a record
  with the members of the C structure; \<open>AC_MEMCPY\<close> into its buffer of 64 octets is \<open>copied_in\<close>.  The length
  argument of the update functions is the length of the list, taken to 32 bits where the code computes with it.
\<close>

section \<open>Words and buffers\<close>

definition rol :: "u32 \<Rightarrow> nat \<Rightarrow> u32" where
  "rol w s = push_bit s w OR drop_bit (32 - s) w"

definition stack_buffer :: "(nat \<Rightarrow> u8) \<Rightarrow> octets" where
  "stack_buffer junk = map junk [0..<64]"

definition copied_in :: "octets \<Rightarrow> nat \<Rightarrow> octets \<Rightarrow> octets" where
  "copied_in block i xs = take i block @ xs @ drop (i + length xs) block"

definition getu32 :: "octets \<Rightarrow> nat \<Rightarrow> u32" where
  "getu32 bs i = push_bit 8 (push_bit 8 (push_bit 8 (ucast (bs ! (i + 3))) OR ucast (bs ! (i + 2)))
     OR ucast (bs ! (i + 1))) OR ucast (bs ! i)"

definition putu32 :: "u32 \<Rightarrow> octets" where
  "putu32 data = [ucast data, ucast (drop_bit 8 data), ucast (drop_bit 16 data), ucast (drop_bit 24 data)]"

section \<open>MD5\<close>

type_synonym md5_state = "u32 \<times> u32 \<times> u32 \<times> u32"

record md5context =
  md5_buf :: md5_state
  md5_bits0 :: u32
  md5_bits1 :: u32
  md5_in :: octets

definition lutil_MD5Init :: "octets \<Rightarrow> md5context" where
  "lutil_MD5Init garbage =
    \<lparr>md5_buf = (0x67452301, 0xefcdab89, 0x98badcfe, 0x10325476), md5_bits0 = 0, md5_bits1 = 0, md5_in = garbage\<rparr>"

definition F1 :: "u32 \<Rightarrow> u32 \<Rightarrow> u32 \<Rightarrow> u32" where "F1 x y z = (z XOR (x AND (y XOR z)))"
definition F2 :: "u32 \<Rightarrow> u32 \<Rightarrow> u32 \<Rightarrow> u32" where "F2 x y z = F1 z x y"
definition F3 :: "u32 \<Rightarrow> u32 \<Rightarrow> u32 \<Rightarrow> u32" where "F3 x y z = (x XOR y XOR z)"
definition F4 :: "u32 \<Rightarrow> u32 \<Rightarrow> u32 \<Rightarrow> u32" where "F4 x y z = (y XOR (x OR NOT z))"

definition MD5STEP :: "(u32 \<Rightarrow> u32 \<Rightarrow> u32 \<Rightarrow> u32) \<Rightarrow> u32 \<Rightarrow> u32 \<Rightarrow> u32 \<Rightarrow> u32 \<Rightarrow> u32 \<Rightarrow> nat \<Rightarrow> u32" where
  "MD5STEP f w x y z data s = rol (w + (f x y z + data)) s + x"

text \<open>Four lines of the transformation: the four words take turns, and the four shifts of the round return.\<close>

definition md5_lines :: "(u32 \<Rightarrow> u32 \<Rightarrow> u32 \<Rightarrow> u32) \<Rightarrow> nat \<times> nat \<times> nat \<times> nat \<Rightarrow> (nat \<times> u32) \<times> (nat \<times> u32) \<times> (nat \<times> u32) \<times> (nat \<times> u32)
    \<Rightarrow> (nat \<Rightarrow> u32) \<Rightarrow> md5_state \<Rightarrow> md5_state" where
  "md5_lines f shifts row inw st =
    (case st of (a, b, c, d) \<Rightarrow> case shifts of (s1, s2, s3, s4) \<Rightarrow> case row of ((i1, k1), (i2, k2), (i3, k3), (i4, k4)) \<Rightarrow>
      let a1 = MD5STEP f a b c d (inw i1 + k1) s1;
          d1 = MD5STEP f d a1 b c (inw i2 + k2) s2;
          c1 = MD5STEP f c d1 a1 b (inw i3 + k3) s3;
          b1 = MD5STEP f b c1 d1 a1 (inw i4 + k4) s4
      in (a1, b1, c1, d1))"

definition md5_program :: "((u32 \<Rightarrow> u32 \<Rightarrow> u32 \<Rightarrow> u32) \<times> (nat \<times> nat \<times> nat \<times> nat) \<times> ((nat \<times> u32) \<times> (nat \<times> u32) \<times> (nat \<times> u32) \<times> (nat \<times> u32))) list" where
  "md5_program =
    [(F1, (7, 12, 17, 22), ((0, 0xd76aa478), (1, 0xe8c7b756), (2, 0x242070db), (3, 0xc1bdceee))),
     (F1, (7, 12, 17, 22), ((4, 0xf57c0faf), (5, 0x4787c62a), (6, 0xa8304613), (7, 0xfd469501))),
     (F1, (7, 12, 17, 22), ((8, 0x698098d8), (9, 0x8b44f7af), (10, 0xffff5bb1), (11, 0x895cd7be))),
     (F1, (7, 12, 17, 22), ((12, 0x6b901122), (13, 0xfd987193), (14, 0xa679438e), (15, 0x49b40821))),
     (F2, (5, 9, 14, 20), ((1, 0xf61e2562), (6, 0xc040b340), (11, 0x265e5a51), (0, 0xe9b6c7aa))),
     (F2, (5, 9, 14, 20), ((5, 0xd62f105d), (10, 0x02441453), (15, 0xd8a1e681), (4, 0xe7d3fbc8))),
     (F2, (5, 9, 14, 20), ((9, 0x21e1cde6), (14, 0xc33707d6), (3, 0xf4d50d87), (8, 0x455a14ed))),
     (F2, (5, 9, 14, 20), ((13, 0xa9e3e905), (2, 0xfcefa3f8), (7, 0x676f02d9), (12, 0x8d2a4c8a))),
     (F3, (4, 11, 16, 23), ((5, 0xfffa3942), (8, 0x8771f681), (11, 0x6d9d6122), (14, 0xfde5380c))),
     (F3, (4, 11, 16, 23), ((1, 0xa4beea44), (4, 0x4bdecfa9), (7, 0xf6bb4b60), (10, 0xbebfbc70))),
     (F3, (4, 11, 16, 23), ((13, 0x289b7ec6), (0, 0xeaa127fa), (3, 0xd4ef3085), (6, 0x04881d05))),
     (F3, (4, 11, 16, 23), ((9, 0xd9d4d039), (12, 0xe6db99e5), (15, 0x1fa27cf8), (2, 0xc4ac5665))),
     (F4, (6, 10, 15, 21), ((0, 0xf4292244), (7, 0x432aff97), (14, 0xab9423a7), (5, 0xfc93a039))),
     (F4, (6, 10, 15, 21), ((12, 0x655b59c3), (3, 0x8f0ccc92), (10, 0xffeff47d), (1, 0x85845dd1))),
     (F4, (6, 10, 15, 21), ((8, 0x6fa87e4f), (15, 0xfe2ce6e0), (6, 0xa3014314), (13, 0x4e0811a1))),
     (F4, (6, 10, 15, 21), ((4, 0xf7537e82), (11, 0xbd3af235), (2, 0x2ad7d2bb), (9, 0xeb86d391)))]"

definition md5_add :: "md5_state \<Rightarrow> md5_state \<Rightarrow> md5_state" where
  "md5_add s t = (case s of (a, b, c, d) \<Rightarrow> case t of (a', b', c', d') \<Rightarrow> (a + a', b + b', c + c', d + d'))"

definition lutil_MD5Transform :: "md5_state \<Rightarrow> octets \<Rightarrow> md5_state" where
  "lutil_MD5Transform buf inraw =
    md5_add buf (fold (\<lambda>(f, shifts, row). md5_lines f shifts row (\<lambda>i. getu32 inraw (4 * i))) md5_program buf)"

function md5_chunks :: "md5_state \<Rightarrow> octets \<Rightarrow> octets \<Rightarrow> md5_state \<times> octets" where
  "md5_chunks buf block data =
    (if 64 \<le> length data then md5_chunks (lutil_MD5Transform buf (copied_in block 0 (take 64 data)))
        (copied_in block 0 (take 64 data)) (drop 64 data)
     else (buf, copied_in block 0 data))"
  by pat_completeness auto
termination by (relation "measure (\<lambda>(buf, block, data). length data)") auto

declare md5_chunks.simps [simp del]

definition lutil_MD5Update :: "md5context \<Rightarrow> octets \<Rightarrow> md5context" where
  "lutil_MD5Update ctx data =
    (let len = of_nat (length data) :: u32; t = md5_bits0 ctx; low = t + push_bit 3 len;
         ctx1 = ctx\<lparr>md5_bits0 := low, md5_bits1 := (if low < t then md5_bits1 ctx + 1 else md5_bits1 ctx) + drop_bit 29 len\<rparr>;
         held = unat (drop_bit 3 t AND 0x3f)
     in if held \<noteq> 0 then
          (if length data < 64 - held then ctx1\<lparr>md5_in := copied_in (md5_in ctx1) held data\<rparr>
           else let block = copied_in (md5_in ctx1) held (take (64 - held) data);
                    (buf, block') = md5_chunks (lutil_MD5Transform (md5_buf ctx1) block) block (drop (64 - held) data)
                in ctx1\<lparr>md5_buf := buf, md5_in := block'\<rparr>)
        else let (buf, block') = md5_chunks (md5_buf ctx1) (md5_in ctx1) data in ctx1\<lparr>md5_buf := buf, md5_in := block'\<rparr>)"

definition md5_output :: "md5_state \<Rightarrow> octets" where
  "md5_output st = (case st of (a, b, c, d) \<Rightarrow> putu32 a @ putu32 b @ putu32 c @ putu32 d)"

definition lutil_MD5Final :: "md5context \<Rightarrow> octets" where
  "lutil_MD5Final ctx =
    (let count = unat (drop_bit 3 (md5_bits0 ctx) AND 0x3f);
         block = copied_in (md5_in ctx) count [0x80];
         left = 63 - count;
         (buf, block1) =
           (if left < 8 then
              (lutil_MD5Transform (md5_buf ctx) (copied_in block (count + 1) (replicate left 0)),
               copied_in (copied_in block (count + 1) (replicate left 0)) 0 (replicate 56 0))
            else (md5_buf ctx, copied_in block (count + 1) (replicate (left - 8) 0)));
         block2 = copied_in (copied_in block1 56 (putu32 (md5_bits0 ctx))) 60 (putu32 (md5_bits1 ctx))
     in md5_output (lutil_MD5Transform buf block2))"

section \<open>SHA-1\<close>

text \<open>The working words \<open>a\<close> to \<open>e\<close> are the list \<open>[a, b, c, d, e]\<close>, so that a line of the transformation names them by index.\<close>

definition blk0 :: "nat \<Rightarrow> u32 list \<Rightarrow> u32 list" where
  "blk0 i block = block[i := (rol (block ! i) 24 AND 0xFF00FF00) OR (rol (block ! i) 8 AND 0x00FF00FF)]"

definition blk :: "nat \<Rightarrow> u32 list \<Rightarrow> u32 list" where
  "blk i block = block[i mod 16 := rol (block ! ((i + 13) mod 16) XOR block ! ((i + 8) mod 16)
     XOR block ! ((i + 2) mod 16) XOR block ! (i mod 16)) 1]"

text \<open>\<open>mix\<close> is the function of the round, \<open>k\<close> its constant; \<open>block\<close> already has the new word at \<open>i mod 16\<close>.\<close>

definition sha1_line :: "(u32 \<Rightarrow> u32 \<Rightarrow> u32 \<Rightarrow> u32) \<Rightarrow> u32 \<Rightarrow> nat \<times> nat \<times> nat \<times> nat \<times> nat \<Rightarrow> nat \<Rightarrow> u32 list \<Rightarrow> u32 list \<Rightarrow> u32 list \<times> u32 list" where
  "sha1_line mix k regs i r block =
    (case regs of (v, w, x, y, z) \<Rightarrow>
      let r1 = r[z := r ! z + (mix (r ! w) (r ! x) (r ! y) + block ! (i mod 16) + k + rol (r ! v) 5)]
      in (r1[w := rol (r1 ! w) 30], block))"

type_synonym sha1_macro = "nat \<times> nat \<times> nat \<times> nat \<times> nat \<Rightarrow> nat \<Rightarrow> u32 list \<Rightarrow> u32 list \<Rightarrow> u32 list \<times> u32 list"

definition R0 :: sha1_macro where
  "R0 regs i r block = sha1_line (\<lambda>w x y. (w AND (x XOR y)) XOR y) 0x5A827999 regs i r (blk0 i block)"
definition R1 :: sha1_macro where
  "R1 regs i r block = sha1_line (\<lambda>w x y. (w AND (x XOR y)) XOR y) 0x5A827999 regs i r (blk i block)"
definition R2 :: sha1_macro where
  "R2 regs i r block = sha1_line (\<lambda>w x y. w XOR x XOR y) 0x6ED9EBA1 regs i r (blk i block)"
definition R3 :: sha1_macro where
  "R3 regs i r block = sha1_line (\<lambda>w x y. ((w OR x) AND y) OR (w AND x)) 0x8F1BBCDC regs i r (blk i block)"
definition R4 :: sha1_macro where
  "R4 regs i r block = sha1_line (\<lambda>w x y. w XOR x XOR y) 0xCA62C1D6 regs i r (blk i block)"

definition sha1_program :: "(sha1_macro \<times> (nat \<times> nat \<times> nat \<times> nat \<times> nat) \<times> nat) list" where
  "sha1_program = [
    (R0, (0, 1, 2, 3, 4), 0), (R0, (4, 0, 1, 2, 3), 1), (R0, (3, 4, 0, 1, 2), 2), (R0, (2, 3, 4, 0, 1), 3),
    (R0, (1, 2, 3, 4, 0), 4), (R0, (0, 1, 2, 3, 4), 5), (R0, (4, 0, 1, 2, 3), 6), (R0, (3, 4, 0, 1, 2), 7),
    (R0, (2, 3, 4, 0, 1), 8), (R0, (1, 2, 3, 4, 0), 9), (R0, (0, 1, 2, 3, 4), 10), (R0, (4, 0, 1, 2, 3), 11),
    (R0, (3, 4, 0, 1, 2), 12), (R0, (2, 3, 4, 0, 1), 13), (R0, (1, 2, 3, 4, 0), 14), (R0, (0, 1, 2, 3, 4), 15),
    (R1, (4, 0, 1, 2, 3), 16), (R1, (3, 4, 0, 1, 2), 17), (R1, (2, 3, 4, 0, 1), 18), (R1, (1, 2, 3, 4, 0), 19),
    (R2, (0, 1, 2, 3, 4), 20), (R2, (4, 0, 1, 2, 3), 21), (R2, (3, 4, 0, 1, 2), 22), (R2, (2, 3, 4, 0, 1), 23),
    (R2, (1, 2, 3, 4, 0), 24), (R2, (0, 1, 2, 3, 4), 25), (R2, (4, 0, 1, 2, 3), 26), (R2, (3, 4, 0, 1, 2), 27),
    (R2, (2, 3, 4, 0, 1), 28), (R2, (1, 2, 3, 4, 0), 29), (R2, (0, 1, 2, 3, 4), 30), (R2, (4, 0, 1, 2, 3), 31),
    (R2, (3, 4, 0, 1, 2), 32), (R2, (2, 3, 4, 0, 1), 33), (R2, (1, 2, 3, 4, 0), 34), (R2, (0, 1, 2, 3, 4), 35),
    (R2, (4, 0, 1, 2, 3), 36), (R2, (3, 4, 0, 1, 2), 37), (R2, (2, 3, 4, 0, 1), 38), (R2, (1, 2, 3, 4, 0), 39),
    (R3, (0, 1, 2, 3, 4), 40), (R3, (4, 0, 1, 2, 3), 41), (R3, (3, 4, 0, 1, 2), 42), (R3, (2, 3, 4, 0, 1), 43),
    (R3, (1, 2, 3, 4, 0), 44), (R3, (0, 1, 2, 3, 4), 45), (R3, (4, 0, 1, 2, 3), 46), (R3, (3, 4, 0, 1, 2), 47),
    (R3, (2, 3, 4, 0, 1), 48), (R3, (1, 2, 3, 4, 0), 49), (R3, (0, 1, 2, 3, 4), 50), (R3, (4, 0, 1, 2, 3), 51),
    (R3, (3, 4, 0, 1, 2), 52), (R3, (2, 3, 4, 0, 1), 53), (R3, (1, 2, 3, 4, 0), 54), (R3, (0, 1, 2, 3, 4), 55),
    (R3, (4, 0, 1, 2, 3), 56), (R3, (3, 4, 0, 1, 2), 57), (R3, (2, 3, 4, 0, 1), 58), (R3, (1, 2, 3, 4, 0), 59),
    (R4, (0, 1, 2, 3, 4), 60), (R4, (4, 0, 1, 2, 3), 61), (R4, (3, 4, 0, 1, 2), 62), (R4, (2, 3, 4, 0, 1), 63),
    (R4, (1, 2, 3, 4, 0), 64), (R4, (0, 1, 2, 3, 4), 65), (R4, (4, 0, 1, 2, 3), 66), (R4, (3, 4, 0, 1, 2), 67),
    (R4, (2, 3, 4, 0, 1), 68), (R4, (1, 2, 3, 4, 0), 69), (R4, (0, 1, 2, 3, 4), 70), (R4, (4, 0, 1, 2, 3), 71),
    (R4, (3, 4, 0, 1, 2), 72), (R4, (2, 3, 4, 0, 1), 73), (R4, (1, 2, 3, 4, 0), 74), (R4, (0, 1, 2, 3, 4), 75),
    (R4, (4, 0, 1, 2, 3), 76), (R4, (3, 4, 0, 1, 2), 77), (R4, (2, 3, 4, 0, 1), 78), (R4, (1, 2, 3, 4, 0), 79)]"

definition lutil_SHA1Transform :: "u32 list \<Rightarrow> octets \<Rightarrow> u32 list" where
  "lutil_SHA1Transform state buffer =
    map2 (+) state (fst (fold (\<lambda>(R, regs, i) (r, block). R regs i r block) sha1_program (state, map (\<lambda>i. getu32 buffer (4 * i)) [0..<16])))"

record sha1_ctx =
  sha1_state :: "u32 list"
  sha1_count0 :: u32
  sha1_count1 :: u32
  sha1_buffer :: octets

definition lutil_SHA1Init :: "octets \<Rightarrow> sha1_ctx" where
  "lutil_SHA1Init garbage =
    \<lparr>sha1_state = [0x67452301, 0xEFCDAB89, 0x98BADCFE, 0x10325476, 0xC3D2E1F0], sha1_count0 = 0, sha1_count1 = 0, sha1_buffer = garbage\<rparr>"

text \<open>The loop over the data in place, and the index it ends with; the additions of the conditions wrap around.\<close>

function sha1_chunks :: "u32 list \<Rightarrow> octets \<Rightarrow> nat \<Rightarrow> u32 list \<times> nat" where
  "sha1_chunks state data i =
    (if i + 63 < length data then sha1_chunks (lutil_SHA1Transform state (take 64 (drop i data))) data (i + 64) else (state, i))"
  by pat_completeness auto
termination by (relation "measure (\<lambda>(state, data, i). length data - i)") auto

declare sha1_chunks.simps [simp del]

definition lutil_SHA1Update :: "sha1_ctx \<Rightarrow> octets \<Rightarrow> sha1_ctx" where
  "lutil_SHA1Update ctx data =
    (let len = of_nat (length data) :: u32; j = sha1_count0 ctx; low = j + push_bit 3 len;
         ctx1 = ctx\<lparr>sha1_count0 := low, sha1_count1 := (if low < j then sha1_count1 ctx + (drop_bit 29 len + 1) else sha1_count1 ctx)\<rparr>;
         j1 = drop_bit 3 j AND 63
     in if 63 < j1 + len then
          let n = 64 - unat j1; block = copied_in (sha1_buffer ctx1) (unat j1) (take n data);
              (state, i) = sha1_chunks (lutil_SHA1Transform (sha1_state ctx1) block) data n
          in ctx1\<lparr>sha1_state := state, sha1_buffer := copied_in block 0 (drop i data)\<rparr>
        else ctx1\<lparr>sha1_buffer := copied_in (sha1_buffer ctx1) (unat j1) data\<rparr>)"

text \<open>The zeros of the padding; at most 63 are needed, which the fuel says.\<close>

fun sha1_pad :: "nat \<Rightarrow> sha1_ctx \<Rightarrow> sha1_ctx" where
  "sha1_pad 0 ctx = ctx"
| "sha1_pad (Suc n) ctx = (if sha1_count0 ctx AND 504 \<noteq> 448 then sha1_pad n (lutil_SHA1Update ctx [0]) else ctx)"

definition lutil_SHA1Final :: "sha1_ctx \<Rightarrow> octets" where
  "lutil_SHA1Final ctx =
    (let finalcount = be_bytes 4 (sha1_count1 ctx) @ be_bytes 4 (sha1_count0 ctx);
         ctx1 = sha1_pad 64 (lutil_SHA1Update ctx [0x80]);
         ctx2 = lutil_SHA1Update ctx1 finalcount
     in concat (map (be_bytes 4) (sha1_state ctx2)))"

definition hex_letter :: "u8 \<Rightarrow> u8" where
  "hex_letter n = map of_char ''0123456789abcdef'' ! unat n"

text \<open>\<open>malloc_ok\<close>: the caller gave a buffer, or the block for the 41 octets could be had.\<close>

definition lutil_SHA1End :: "bool \<Rightarrow> sha1_ctx \<Rightarrow> octets option" where
  "lutil_SHA1End malloc_ok ctx =
    (if \<not> malloc_ok then None else Some (concat (map (\<lambda>c. [hex_letter (drop_bit 4 c), hex_letter (c AND 0x0f)]) (lutil_SHA1Final ctx))))"

definition lutil_SHA1Data :: "bool \<Rightarrow> octets \<Rightarrow> octets \<Rightarrow> octets option" where
  "lutil_SHA1Data malloc_ok garbage data = lutil_SHA1End malloc_ok (lutil_SHA1Update (lutil_SHA1Init garbage) data)"

end
