(* ===== verification/Passwd.thy ===== *)
theory Passwd imports Base64 Digest begin

text \<open>
  Stored passwords: libraries/liblutil/passwd.c as h/portable.h configures it (\<^verbatim>\<open>SLAPD_CLEARTEXT\<close>, without crypt, SASL and
  Kerberos).  A value is the list of its octets; its block goes on with a null, where the string functions stop.
  \<open>mem n\<close> says whether \<open>n\<close> octets can be had, \<open>entropy n\<close> are \<open>n\<close> random octets, \<open>junk\<close> is what an uninitialised
  block holds.  An outer \<open>None\<close> is a run that reads or writes outside a block.
\<close>

section \<open>Schemes\<close>

datatype pw_functions = Fn_ssha1 | Fn_sha1 | Fn_smd5 | Fn_md5

text \<open>The pseudo scheme has length 0 and neither function.\<close>

record pw_scheme =
  sc_val :: octets
  sc_len :: nat
  sc_fn :: "pw_functions option"

definition pw_schemes :: "pw_scheme list" where
  "pw_schemes =
    [\<lparr>sc_val = ascii ''{SSHA}'', sc_len = 6, sc_fn = Some Fn_ssha1\<rparr>,
     \<lparr>sc_val = ascii ''{SHA}'', sc_len = 5, sc_fn = Some Fn_sha1\<rparr>,
     \<lparr>sc_val = ascii ''{SMD5}'', sc_len = 6, sc_fn = Some Fn_smd5\<rparr>,
     \<lparr>sc_val = ascii ''{MD5}'', sc_len = 5, sc_fn = Some Fn_md5\<rparr>,
     \<lparr>sc_val = ascii ''{CLEARTEXT}'', sc_len = 0, sc_fn = None\<rparr>]"

definition get_scheme :: "octets \<Rightarrow> pw_scheme option" where
  "get_scheme scheme = find (\<lambda>sc. sc_len sc \<noteq> 0 \<and> starts_with_case scheme (sc_val sc)) pw_schemes"

definition lutil_passwd_scheme :: "octets option \<Rightarrow> bool" where
  "lutil_passwd_scheme scheme = (case scheme of None \<Rightarrow> False | Some s \<Rightarrow> get_scheme s \<noteq> None)"

definition is_allowed_scheme :: "octets \<Rightarrow> octets list option \<Rightarrow> bool" where
  "is_allowed_scheme scheme schemes = (case schemes of None \<Rightarrow> True | Some ss \<Rightarrow> list_ex (\<lambda>s. strcasecmp scheme s = 0) ss)"

definition BERVAL_BYTES :: nat where "BERVAL_BYTES = 8"

definition passwd_scheme :: "(nat \<Rightarrow> bool) \<Rightarrow> pw_scheme \<Rightarrow> octets \<Rightarrow> octets list option \<Rightarrow> octets option" where
  "passwd_scheme mem scheme passwd allowed =
    (if \<not> is_allowed_scheme (sc_val scheme) allowed then None
     else if sc_len scheme \<le> length passwd \<and> starts_with_case passwd (take (sc_len scheme) (sc_val scheme)) \<and> mem BERVAL_BYTES
       then Some (drop (sc_len scheme) passwd)
     else None)"

section \<open>Checking\<close>

definition LUTIL_BASE64_DECODE_LEN :: "nat \<Rightarrow> nat" where "LUTIL_BASE64_DECODE_LEN n = n div 4 * 3"
definition LUTIL_BASE64_ENCODE_LEN :: "nat \<Rightarrow> nat" where "LUTIL_BASE64_ENCODE_LEN n = n div 3 * 4 + 4"

text \<open>How many octets of its target the decoder stores into before it returns: one behind the last it touches.\<close>

fun pton_reach :: "octets \<Rightarrow> pton_state \<Rightarrow> nat" where
  "pton_reach [] st = 0"
| "pton_reach (ch # src) st =
    (if isspace_ascii ch then pton_reach src st
     else if ch = Pad64 then 0
     else case strchr_index Base64 ch of None \<Rightarrow> 0
       | Some pos \<Rightarrow> (case pton_step (of_nat pos) st of None \<Rightarrow> 0
         | Some st' \<Rightarrow> max (fst (snd st) + (if fst st = 1 \<or> fst st = 2 then 2 else 1)) (pton_reach src st')))"

text \<open>
  The block for the decoded password has room for whole groups of four letters; the decoder is told the
  length of the encoded one.  \<open>Some None\<close> is the result -1.
\<close>

definition orig_pass :: "(nat \<Rightarrow> bool) \<Rightarrow> (nat \<Rightarrow> u8) \<Rightarrow> octets \<Rightarrow> (nat \<times> octets) option option" where
  "orig_pass mem junk passwd =
    (let size = LUTIL_BASE64_DECODE_LEN (length passwd) + 1; str = takeWhile (\<lambda>c. c \<noteq> 0) passwd; target = map junk [0..<length passwd]
     in if \<not> mem size then Some None
        else if size < pton_reach str (0, 0, Some target) then None
        else case lutil_b64_pton str (Some target) of
            Some (rc, Some decoded) \<Rightarrow> Some (Some (rc, decoded)) | _ \<Rightarrow> Some None)"

text \<open>The digest functions are those of the scheme, \<open>bytes\<close> is the length of their digests.  Fewer octets than a digest make the length of the salt wrap around.\<close>

definition chk_salted :: "'c \<Rightarrow> ('c \<Rightarrow> octets \<Rightarrow> 'c) \<Rightarrow> ('c \<Rightarrow> octets) \<Rightarrow> nat
    \<Rightarrow> (nat \<Rightarrow> bool) \<Rightarrow> (nat \<Rightarrow> u8) \<Rightarrow> octets \<Rightarrow> octets \<Rightarrow> int option" where
  "chk_salted init update final bytes mem junk passwd cred =
    (case orig_pass mem junk passwd of None \<Rightarrow> None | Some None \<Rightarrow> Some (-1)
     | Some (Some (rc, orig)) \<Rightarrow>
        (if rc < bytes then None
         else let digest = final (update (update init cred) (take (rc - bytes) (drop bytes orig)))
           in Some (if take bytes orig = digest then 0 else 1)))"

definition chk_plain :: "'c \<Rightarrow> ('c \<Rightarrow> octets \<Rightarrow> 'c) \<Rightarrow> ('c \<Rightarrow> octets) \<Rightarrow> nat
    \<Rightarrow> (nat \<Rightarrow> bool) \<Rightarrow> (nat \<Rightarrow> u8) \<Rightarrow> octets \<Rightarrow> octets \<Rightarrow> int option" where
  "chk_plain init update final bytes mem junk passwd cred =
    (case orig_pass mem junk passwd of None \<Rightarrow> None | Some None \<Rightarrow> Some (-1)
     | Some (Some (rc, orig)) \<Rightarrow>
        (if rc \<noteq> bytes then Some (-1)
         else Some (if take bytes orig = final (update init cred) then 0 else 1)))"

definition LUTIL_SHA1_BYTES :: nat where "LUTIL_SHA1_BYTES = 20"
definition LUTIL_MD5_BYTES :: nat where "LUTIL_MD5_BYTES = 16"

definition chk_ssha1 :: "(nat \<Rightarrow> bool) \<Rightarrow> (nat \<Rightarrow> u8) \<Rightarrow> octets \<Rightarrow> octets \<Rightarrow> int option" where
  "chk_ssha1 mem junk = chk_salted (lutil_SHA1Init (stack_buffer junk)) lutil_SHA1Update lutil_SHA1Final LUTIL_SHA1_BYTES mem junk"

definition chk_sha1 :: "(nat \<Rightarrow> bool) \<Rightarrow> (nat \<Rightarrow> u8) \<Rightarrow> octets \<Rightarrow> octets \<Rightarrow> int option" where
  "chk_sha1 mem junk = chk_plain (lutil_SHA1Init (stack_buffer junk)) lutil_SHA1Update lutil_SHA1Final LUTIL_SHA1_BYTES mem junk"

definition chk_smd5 :: "(nat \<Rightarrow> bool) \<Rightarrow> (nat \<Rightarrow> u8) \<Rightarrow> octets \<Rightarrow> octets \<Rightarrow> int option" where
  "chk_smd5 mem junk = chk_salted (lutil_MD5Init (stack_buffer junk)) lutil_MD5Update lutil_MD5Final LUTIL_MD5_BYTES mem junk"

definition chk_md5 :: "(nat \<Rightarrow> bool) \<Rightarrow> (nat \<Rightarrow> u8) \<Rightarrow> octets \<Rightarrow> octets \<Rightarrow> int option" where
  "chk_md5 mem junk = chk_plain (lutil_MD5Init (stack_buffer junk)) lutil_MD5Update lutil_MD5Final LUTIL_MD5_BYTES mem junk"

fun chk_fn :: "pw_functions \<Rightarrow> (nat \<Rightarrow> bool) \<Rightarrow> (nat \<Rightarrow> u8) \<Rightarrow> octets \<Rightarrow> octets \<Rightarrow> int option" where
  "chk_fn Fn_ssha1 = chk_ssha1" | "chk_fn Fn_sha1 = chk_sha1" | "chk_fn Fn_smd5 = chk_smd5" | "chk_fn Fn_md5 = chk_md5"

text \<open>The loop over the schemes; in its end the cleartext is compared, if that is allowed.\<close>

fun check_schemes :: "(nat \<Rightarrow> bool) \<Rightarrow> (nat \<Rightarrow> u8) \<Rightarrow> pw_scheme list \<Rightarrow> octets \<Rightarrow> octets \<Rightarrow> octets list option \<Rightarrow> int option" where
  "check_schemes mem junk [] passwd cred schemes =
    (if is_allowed_scheme (ascii ''{CLEARTEXT}'') schemes then
       Some (if length passwd = length cred then strcmp passwd cred else 1)
     else Some 1)"
| "check_schemes mem junk (sc # scs) passwd cred schemes =
    (case sc_fn sc of None \<Rightarrow> check_schemes mem junk scs passwd cred schemes
     | Some fn \<Rightarrow> (case passwd_scheme mem sc passwd schemes of None \<Rightarrow> check_schemes mem junk scs passwd cred schemes
       | Some p \<Rightarrow> chk_fn fn mem junk p cred))"

definition lutil_passwd :: "(nat \<Rightarrow> bool) \<Rightarrow> (nat \<Rightarrow> u8) \<Rightarrow> octets option \<Rightarrow> octets option \<Rightarrow> octets list option \<Rightarrow> int option" where
  "lutil_passwd mem junk passwd cred schemes =
    (if cred = None \<or> cred = Some [] \<or> passwd = None \<or> passwd = Some [] then Some (-1)
     else check_schemes mem junk pw_schemes (the passwd) (the cred) schemes)"

section \<open>Hashing\<close>

definition pw_string :: "(nat \<Rightarrow> bool) \<Rightarrow> pw_scheme \<Rightarrow> octets \<Rightarrow> octets option" where
  "pw_string mem sc passwd =
    (if mem BERVAL_BYTES \<and> mem (sc_len sc + length passwd + 1) then Some (take (sc_len sc) (sc_val sc) @ passwd) else None)"

definition pw_string64 :: "(nat \<Rightarrow> bool) \<Rightarrow> pw_scheme \<Rightarrow> octets \<Rightarrow> octets option \<Rightarrow> octets option" where
  "pw_string64 mem sc hash salt =
    (if \<not> mem BERVAL_BYTES then None
     else if salt \<noteq> None \<and> \<not> mem (length hash + length (the salt) + 1) then None
     else let str = (case salt of None \<Rightarrow> hash | Some s \<Rightarrow> hash @ s);
              b64len = LUTIL_BASE64_ENCODE_LEN (length str) + 1
       in if \<not> mem (b64len + sc_len sc + 1) then None
          else map_option (\<lambda>b64. take (sc_len sc) (sc_val sc) @ b64) (lutil_b64_ntop str b64len))"

definition hash_salted :: "'c \<Rightarrow> ('c \<Rightarrow> octets \<Rightarrow> 'c) \<Rightarrow> ('c \<Rightarrow> octets)
    \<Rightarrow> (nat \<Rightarrow> bool) \<Rightarrow> (nat \<Rightarrow> octets option) \<Rightarrow> pw_scheme \<Rightarrow> octets \<Rightarrow> octets option" where
  "hash_salted init update final mem entropy scheme passwd =
    (case entropy 4 of None \<Rightarrow> None
     | Some salt \<Rightarrow> pw_string64 mem scheme (final (update (update init passwd) salt)) (Some salt))"

definition hash_plain :: "'c \<Rightarrow> ('c \<Rightarrow> octets \<Rightarrow> 'c) \<Rightarrow> ('c \<Rightarrow> octets)
    \<Rightarrow> (nat \<Rightarrow> bool) \<Rightarrow> pw_scheme \<Rightarrow> octets \<Rightarrow> octets option" where
  "hash_plain init update final mem scheme passwd = pw_string64 mem scheme (final (update init passwd)) None"

definition hash_ssha1 :: "(nat \<Rightarrow> bool) \<Rightarrow> (nat \<Rightarrow> u8) \<Rightarrow> (nat \<Rightarrow> octets option) \<Rightarrow> pw_scheme \<Rightarrow> octets \<Rightarrow> octets option" where
  "hash_ssha1 mem junk entropy = hash_salted (lutil_SHA1Init (stack_buffer junk)) lutil_SHA1Update lutil_SHA1Final mem entropy"

definition hash_sha1 :: "(nat \<Rightarrow> bool) \<Rightarrow> (nat \<Rightarrow> u8) \<Rightarrow> pw_scheme \<Rightarrow> octets \<Rightarrow> octets option" where
  "hash_sha1 mem junk = hash_plain (lutil_SHA1Init (stack_buffer junk)) lutil_SHA1Update lutil_SHA1Final mem"

definition hash_smd5 :: "(nat \<Rightarrow> bool) \<Rightarrow> (nat \<Rightarrow> u8) \<Rightarrow> (nat \<Rightarrow> octets option) \<Rightarrow> pw_scheme \<Rightarrow> octets \<Rightarrow> octets option" where
  "hash_smd5 mem junk entropy = hash_salted (lutil_MD5Init (stack_buffer junk)) lutil_MD5Update lutil_MD5Final mem entropy"

definition hash_md5 :: "(nat \<Rightarrow> bool) \<Rightarrow> (nat \<Rightarrow> u8) \<Rightarrow> pw_scheme \<Rightarrow> octets \<Rightarrow> octets option" where
  "hash_md5 mem junk = hash_plain (lutil_MD5Init (stack_buffer junk)) lutil_MD5Update lutil_MD5Final mem"

fun hash_fn :: "pw_functions \<Rightarrow> (nat \<Rightarrow> bool) \<Rightarrow> (nat \<Rightarrow> u8) \<Rightarrow> (nat \<Rightarrow> octets option) \<Rightarrow> pw_scheme \<Rightarrow> octets \<Rightarrow> octets option" where
  "hash_fn Fn_ssha1 mem junk entropy = hash_ssha1 mem junk entropy" | "hash_fn Fn_sha1 mem junk entropy = hash_sha1 mem junk"
| "hash_fn Fn_smd5 mem junk entropy = hash_smd5 mem junk entropy" | "hash_fn Fn_md5 mem junk entropy = hash_md5 mem junk"

definition lutil_passwd_hash :: "(nat \<Rightarrow> bool) \<Rightarrow> (nat \<Rightarrow> u8) \<Rightarrow> (nat \<Rightarrow> octets option) \<Rightarrow> octets \<Rightarrow> octets \<Rightarrow> octets option" where
  "lutil_passwd_hash mem junk entropy passwd scheme =
    (case get_scheme scheme of None \<Rightarrow> None
     | Some sc \<Rightarrow> (case sc_fn sc of None \<Rightarrow> None | Some fn \<Rightarrow> hash_fn fn mem junk entropy sc passwd))"

section \<open>Generating\<close>

definition crypt64 :: octets where
  "crypt64 = ascii ''ABCDEFGHIJKLMNOPQRSTUVWXYZabcdefghijklmnopqrstuvwxyz1234567890./''"

text \<open>A random character is signed; the remainder is taken after its conversion to \<open>size_t\<close>.\<close>

definition lutil_passwd_generate :: "(nat \<Rightarrow> bool) \<Rightarrow> (nat \<Rightarrow> octets option) \<Rightarrow> nat \<Rightarrow> octets option" where
  "lutil_passwd_generate mem entropy len =
    (if len < 1 \<or> \<not> mem BERVAL_BYTES \<or> \<not> mem (len + 1) then None
     else map_option (map (\<lambda>c. crypt64 ! unat ((scast c :: u32) mod 64))) (entropy len))"

end
