(* ===== verification/Digest_Rounds.thy ===== *)
theory Digest_Rounds imports Digest begin

text \<open>
  The transformations of the digests are those of RFC 1321 and FIPS 180-1: the unrolled lines against
  the numbered operations of the standards, with the optimised round functions, the registers that change places
  and the circular message schedule.
\<close>

section \<open>Rotation\<close>

lemma rol_rotl: "s < 32 \<Longrightarrow> rol w s = word_rotl s w"
  by (rule bit_word_eqI)
    (auto simp: rol_def bit_simps bit_word_rotl_iff mod_if less_diff_conv2 add.commute [of 32] dest: bit_imp_le_length)

section \<open>MD5 as RFC 1321 has it\<close>

definition rfc_F :: "nat \<Rightarrow> u32 \<Rightarrow> u32 \<Rightarrow> u32 \<Rightarrow> u32" where
  "rfc_F i = (if i < 16 then (\<lambda>x y z. (x AND y) OR (NOT x AND z)) else if i < 32 then (\<lambda>x y z. (x AND z) OR (y AND NOT z))
     else if i < 48 then (\<lambda>x y z. x XOR y XOR z) else (\<lambda>x y z. y XOR (x OR NOT z)))"

definition rfc_index :: "nat \<Rightarrow> nat" where
  "rfc_index i = (if i < 16 then i else if i < 32 then 5 * i + 1 else if i < 48 then 3 * i + 5 else 7 * i) mod 16"

definition rfc_shift :: "nat \<Rightarrow> nat" where
  "rfc_shift i = [[7, 12, 17, 22], [5, 9, 14, 20], [4, 11, 16, 23], [6, 10, 15, 21]] ! (i div 16) ! (i mod 4)"

text \<open>The integer parts of 4294967296 times the absolute values of sin(1) to sin(64).\<close>

definition rfc_T :: "u32 list" where
  "rfc_T = [
    0xd76aa478, 0xe8c7b756, 0x242070db, 0xc1bdceee, 0xf57c0faf, 0x4787c62a, 0xa8304613, 0xfd469501,
    0x698098d8, 0x8b44f7af, 0xffff5bb1, 0x895cd7be, 0x6b901122, 0xfd987193, 0xa679438e, 0x49b40821,
    0xf61e2562, 0xc040b340, 0x265e5a51, 0xe9b6c7aa, 0xd62f105d, 0x02441453, 0xd8a1e681, 0xe7d3fbc8,
    0x21e1cde6, 0xc33707d6, 0xf4d50d87, 0x455a14ed, 0xa9e3e905, 0xfcefa3f8, 0x676f02d9, 0x8d2a4c8a,
    0xfffa3942, 0x8771f681, 0x6d9d6122, 0xfde5380c, 0xa4beea44, 0x4bdecfa9, 0xf6bb4b60, 0xbebfbc70,
    0x289b7ec6, 0xeaa127fa, 0xd4ef3085, 0x04881d05, 0xd9d4d039, 0xe6db99e5, 0x1fa27cf8, 0xc4ac5665,
    0xf4292244, 0x432aff97, 0xab9423a7, 0xfc93a039, 0x655b59c3, 0x8f0ccc92, 0xffeff47d, 0x85845dd1,
    0x6fa87e4f, 0xfe2ce6e0, 0xa3014314, 0x4e0811a1, 0xf7537e82, 0xbd3af235, 0x2ad7d2bb, 0xeb86d391]"

type_synonym md5_parameters = "(u32 \<Rightarrow> u32 \<Rightarrow> u32 \<Rightarrow> u32) \<times> nat \<times> nat \<times> u32"

definition md5_operation :: "(nat \<Rightarrow> u32) \<Rightarrow> md5_parameters \<Rightarrow> md5_state \<Rightarrow> md5_state" where
  "md5_operation X p st = (case p of (f, s, k, t) \<Rightarrow> case st of (a, b, c, d) \<Rightarrow> (d, b + word_rotl s (a + f b c d + X k + t), b, c))"

definition rfc_parameters :: "nat \<Rightarrow> md5_parameters" where
  "rfc_parameters i = (rfc_F i, rfc_shift i, rfc_index i, rfc_T ! i)"

definition rfc_md5_block :: "md5_state \<Rightarrow> octets \<Rightarrow> md5_state" where
  "rfc_md5_block st block = md5_add st (fold (\<lambda>i. md5_operation (\<lambda>j. getu32 block (4 * j)) (rfc_parameters i)) [0..<64] st)"

lemma round_functions:
  "F1 = (\<lambda>x y z. (x AND y) OR (NOT x AND z))" "F2 = (\<lambda>x y z. (x AND z) OR (y AND NOT z))"
  "F3 = (\<lambda>x y z. x XOR y XOR z)" "F4 = (\<lambda>x y z. y XOR (x OR NOT z))"
  by (intro ext bit_word_eqI; auto simp: F1_def F2_def F3_def F4_def bit_simps)+

definition unrolled :: "(u32 \<Rightarrow> u32 \<Rightarrow> u32 \<Rightarrow> u32) \<Rightarrow> nat \<times> nat \<times> nat \<times> nat \<Rightarrow> (nat \<times> u32) \<times> (nat \<times> u32) \<times> (nat \<times> u32) \<times> (nat \<times> u32)
    \<Rightarrow> md5_parameters list" where
  "unrolled f shifts row = (case shifts of (s1, s2, s3, s4) \<Rightarrow> case row of ((i1, k1), (i2, k2), (i3, k3), (i4, k4)) \<Rightarrow>
     [(f, s1, i1, k1), (f, s2, i2, k2), (f, s3, i3, k3), (f, s4, i4, k4)])"

lemma md5_lines_operations:
  assumes "list_all (\<lambda>(f, s, k, t). s < 32) (unrolled f shifts row)"
  shows "md5_lines f shifts row X st = fold (md5_operation X) (unrolled f shifts row) st"
proof -
  obtain s1 s2 s3 s4 i1 k1 i2 k2 i3 k3 i4 k4 a b c d where
    p: "shifts = (s1, s2, s3, s4)" "row = ((i1, k1), (i2, k2), (i3, k3), (i4, k4))" "st = (a, b, c, d)" by (metis prod.exhaust)
  have "s1 < 32" "s2 < 32" "s3 < 32" "s4 < 32" using assms by (simp_all add: p unrolled_def)
  then show ?thesis by (simp add: p md5_lines_def unrolled_def md5_operation_def MD5STEP_def rol_rotl Let_def ac_simps)
qed

lemma fold_lines:
  assumes "list_all (\<lambda>(f, shifts, row). list_all (\<lambda>(f, s, k, t). s < 32) (unrolled f shifts row)) prog"
  shows "fold (\<lambda>(f, shifts, row). md5_lines f shifts row X) prog st
    = fold (md5_operation X) (concat (map (\<lambda>(f, shifts, row). unrolled f shifts row) prog)) st"
  using assms by (induction prog arbitrary: st) (auto simp: md5_lines_operations)

lemma md5_program_parameters:
  "concat (map (\<lambda>(f, shifts, row). unrolled f shifts row) md5_program) = map rfc_parameters [0..<64]"
  by (simp add: md5_program_def unrolled_def rfc_parameters_def rfc_F_def rfc_shift_def rfc_index_def rfc_T_def upt_conv_Cons round_functions)

lemma md5_program_shifts:
  "list_all (\<lambda>(f, shifts, row). list_all (\<lambda>(f, s, k, t). s < 32) (unrolled f shifts row)) md5_program"
  by (simp add: md5_program_def unrolled_def)

lemma md5_transform_rfc: "lutil_MD5Transform = rfc_md5_block"
  by (intro ext) (simp add: lutil_MD5Transform_def rfc_md5_block_def fold_lines [OF md5_program_shifts] md5_program_parameters fold_map comp_def)

section \<open>SHA-1 as FIPS 180-1 has it\<close>

definition fips_f :: "nat \<Rightarrow> u32 \<Rightarrow> u32 \<Rightarrow> u32 \<Rightarrow> u32" where
  "fips_f t = (if t < 20 then (\<lambda>b c d. (b AND c) OR (NOT b AND d)) else if t < 40 then (\<lambda>b c d. b XOR c XOR d)
     else if t < 60 then (\<lambda>b c d. (b AND c) OR (b AND d) OR (c AND d)) else (\<lambda>b c d. b XOR c XOR d))"

definition fips_K :: "nat \<Rightarrow> u32" where
  "fips_K t = (if t < 20 then 0x5A827999 else if t < 40 then 0x6ED9EBA1 else if t < 60 then 0x8F1BBCDC else 0xCA62C1D6)"

function fips_W :: "octets \<Rightarrow> nat \<Rightarrow> u32" where
  "fips_W block t = (if t < 16 then of_be (take 4 (drop (4 * t) block))
     else word_rotl 1 (fips_W block (t - 3) XOR fips_W block (t - 8) XOR fips_W block (t - 14) XOR fips_W block (t - 16)))"
  by pat_completeness auto
termination by (relation "measure snd") auto

declare fips_W.simps [simp del]

type_synonym sha1_words = "u32 \<times> u32 \<times> u32 \<times> u32 \<times> u32"

definition fips_operation :: "octets \<Rightarrow> nat \<Rightarrow> sha1_words \<Rightarrow> sha1_words" where
  "fips_operation block t st = (case st of (a, b, c, d, e) \<Rightarrow>
     (word_rotl 5 a + fips_f t b c d + e + fips_W block t + fips_K t, a, word_rotl 30 b, c, d))"

definition fips_sha1_block :: "u32 list \<Rightarrow> octets \<Rightarrow> u32 list" where
  "fips_sha1_block st block =
    (case fold (fips_operation block) [0..<80] (st ! 0, st ! 1, st ! 2, st ! 3, st ! 4) of (a, b, c, d, e) \<Rightarrow>
      [st ! 0 + a, st ! 1 + b, st ! 2 + c, st ! 3 + d, st ! 4 + e])"

text \<open>The words a line names: those of line 0, turned right as often as there were lines.\<close>

definition registers :: "nat \<Rightarrow> nat \<times> nat \<times> nat \<times> nat \<times> nat" where
  "registers i = [(0, 1, 2, 3, 4), (4, 0, 1, 2, 3), (3, 4, 0, 1, 2), (2, 3, 4, 0, 1), (1, 2, 3, 4, 0)] ! (i mod 5)"

definition macro :: "nat \<Rightarrow> sha1_macro" where
  "macro i = (if i < 16 then R0 else if i < 20 then R1 else if i < 40 then R2 else if i < 60 then R3 else R4)"

lemma sha1_program_lines: "sha1_program = map (\<lambda>i. (macro i, registers i, i)) [0..<80]"
  by (simp add: sha1_program_def macro_def registers_def upt_conv_Cons)

definition view :: "nat \<Rightarrow> u32 list \<Rightarrow> sha1_words" where
  "view t r = (case registers t of (v, w, x, y, z) \<Rightarrow> (r ! v, r ! w, r ! x, r ! y, r ! z))"

lemma length_5: "length r = 5 \<Longrightarrow> \<exists>a b c d e. r = [a, b, c, d, e]"
  by (auto simp: eval_nat_numeral length_Suc_conv)

lemma view_line:
  assumes "length r = 5"
  shows "view (Suc t) (fst (sha1_line mix k (registers t) t r block))
    = (case view t r of (a, b, c, d, e) \<Rightarrow> (e + (mix b c d + block ! (t mod 16) + k + rol a 5), a, rol b 30, c, d))"
proof -
  obtain a b c d e where r: "r = [a, b, c, d, e]" using length_5 [OF assms] by blast
  have "t mod 5 \<in> {0, 1, 2, 3, 4}" by auto
  then show ?thesis by (elim insertE; simp add: r view_def registers_def sha1_line_def Let_def mod_Suc)
qed

lemma line_block: "snd (sha1_line mix k regs t r block) = block" "length (fst (sha1_line mix k regs t r block)) = length r"
  by (simp_all add: sha1_line_def Let_def split: prod.split)

text \<open>After \<open>t\<close> lines the circular block has the last words of the schedule, and octets of the message in front of line 16.\<close>

definition scheduled :: "octets \<Rightarrow> nat \<Rightarrow> u32 list \<Rightarrow> bool" where
  "scheduled msg t block \<longleftrightarrow> length block = 16 \<and> (\<forall>j < 16. block ! ((t + j) mod 16) =
     (if t + j < 16 then getu32 msg (4 * (t + j)) else fips_W msg (t + j - 16)))"

lemma index_step: "j < 15 \<Longrightarrow> (t + Suc j) mod 16 \<noteq> t mod (16 :: nat)"
  using mod_eq_dvd_iff_nat [of t "t + Suc j" 16] by (auto dest: dvd_imp_le)

lemma scheduled_next:
  assumes "scheduled msg t block" shows "scheduled msg (Suc t) (block[t mod 16 := fips_W msg t])"
  unfolding scheduled_def
proof (intro conjI allI impI)
  show "length (block[t mod 16 := fips_W msg t]) = 16" using assms by (simp add: scheduled_def)
next
  fix j :: nat assume j: "j < 16"
  show "block[t mod 16 := fips_W msg t] ! ((Suc t + j) mod 16) =
      (if Suc t + j < 16 then getu32 msg (4 * (Suc t + j)) else fips_W msg (Suc t + j - 16))"
  proof (cases "j = 15")
    case True
    then have "(Suc t + j) mod 16 = t mod 16" "Suc t + j - 16 = t" by simp_all
    then show ?thesis using assms True by (simp add: scheduled_def)
  next
    case False
    then have "j < 15" using j by simp
    have "(t + Suc j) mod 16 \<noteq> t mod 16" using \<open>j < 15\<close> by (rule index_step)
    moreover have "block ! ((t + Suc j) mod 16) = (if t + Suc j < 16 then getu32 msg (4 * (t + Suc j)) else fips_W msg (t + Suc j - 16))"
      using conjunct2 [OF assms [unfolded scheduled_def], THEN spec, THEN mp, of "Suc j"] \<open>j < 15\<close> by (simp del: add_Suc_right)
    moreover have "(Suc t + j) mod 16 = (t + Suc j) mod 16" "Suc t + j = t + Suc j" by simp_all
    ultimately show ?thesis by (metis nth_list_update_neq)
  qed
qed

lemma masks: "(0xFF00FF00 :: u32) = push_bit 8 (mask 8) OR push_bit 24 (mask 8)" "(0x00FF00FF :: u32) = mask 8 OR push_bit 16 (mask 8)"
  by (simp_all add: mask_eq_exp_minus_1)
lemma bit_octet: "bit (w :: u8) n \<Longrightarrow> n < 8" using bit_imp_le_length [of w n] by simp
lemma no_bit: "8 \<le> n \<Longrightarrow> \<not> bit (w :: u8) n" using bit_octet [of w n] by auto
lemma octet_of_word: "n < 32 \<Longrightarrow> \<exists>m < 8. n = m \<or> n = m + 8 \<or> n = m + 16 \<or> n = m + (24 :: nat)"
  by (rule exI [of _ "n mod 8"]) presburger
lemma swapped_word: "(rol (push_bit 8 (push_bit 8 (push_bit 8 (ucast d) OR ucast c) OR ucast b) OR ucast a) 24 AND 0xFF00FF00) OR
      (rol (push_bit 8 (push_bit 8 (push_bit 8 (ucast d) OR ucast c) OR ucast b) OR ucast a) 8 AND 0x00FF00FF)
      = of_be [a, b, c, d]" for a b c d :: u8
proof (rule bit_word_eqI)
  fix n assume "n < LENGTH(32)"
  then obtain m where m: "m < 8" "n = m \<or> n = m + 8 \<or> n = m + 16 \<or> n = m + 24" using octet_of_word [of n] by auto
  show "bit ((rol (push_bit 8 (push_bit 8 (push_bit 8 (ucast d) OR ucast c) OR ucast b) OR ucast a) 24 AND 0xFF00FF00) OR
      (rol (push_bit 8 (push_bit 8 (push_bit 8 (ucast d) OR ucast c) OR ucast b) OR ucast a) 8 AND 0x00FF00FF)) n
      = bit (of_be [a, b, c, d] :: u32) n"
    unfolding masks using m by (elim disjE) (simp_all add: rol_def shift_in_def bit_simps no_bit)
qed

lemma swapped:
  assumes "length msg = 64" "i < 16"
  shows "(rol (getu32 msg (4 * i)) 24 AND 0xFF00FF00) OR (rol (getu32 msg (4 * i)) 8 AND 0x00FF00FF) = fips_W msg i"
proof -
  have t: "take 4 (drop (4 * i) msg) = [msg ! (4 * i), msg ! (4 * i + 1), msg ! (4 * i + 2), msg ! (4 * i + 3)]"
    using assms by (simp add: take_Suc_conv_app_nth eval_nat_numeral(2-3) numeral_eq_Suc)
  show ?thesis using assms(2) swapped_word by (simp add: fips_W.simps [of msg i] t getu32_def)
qed

lemma scheduled_blk:
  assumes "scheduled msg i block"
  shows "i < 16 \<Longrightarrow> length msg = 64 \<Longrightarrow> blk0 i block = block[i mod 16 := fips_W msg i]"
    "16 \<le> i \<Longrightarrow> blk i block = block[i mod 16 := fips_W msg i]"
proof -
  assume "i < 16" "length msg = 64"
  then show "blk0 i block = block[i mod 16 := fips_W msg i]"
    using assms swapped [of msg i] by (auto simp: scheduled_def blk0_def dest: spec [of _ 0])
next
  assume i: "16 \<le> i"
  have w: "block ! ((i + j) mod 16) = fips_W msg (i + j - 16)" if "j < 16" for j
    using assms i that by (simp add: scheduled_def)
  show "blk i block = block[i mod 16 := fips_W msg i]"
    using i w [of 13] w [of 8] w [of 2] w [of 0] by (simp add: blk_def fips_W.simps [of msg i] rol_rotl)
qed

lemma mix_functions:
  "(\<lambda>w x y. (w AND (x XOR y)) XOR y) = (\<lambda>b c d. (b AND c) OR (NOT b AND d) :: u32)"
  "(\<lambda>w x y. ((w OR x) AND y) OR (w AND x)) = (\<lambda>b c d. (b AND c) OR (b AND d) OR (c AND d) :: u32)"
  by (intro ext bit_word_eqI; auto simp: bit_simps)+

lemma macro_line:
  assumes "scheduled msg i block" "length msg = 64"
  shows "macro i (registers i) i r block = sha1_line (fips_f i) (fips_K i) (registers i) i r (block[i mod 16 := fips_W msg i])"
  using scheduled_blk [OF assms(1)] assms(2)
  by (simp add: macro_def R0_def R1_def R2_def R3_def R4_def fips_f_def fips_K_def mix_functions)

lemma sha1_lines:
  assumes "length msg = 64" "length st = 5"
  shows "(case fold (\<lambda>i (r, block). macro i (registers i) i r block) [0..<n] (st, map (\<lambda>i. getu32 msg (4 * i)) [0..<16]) of (r, block) \<Rightarrow>
    length r = 5 \<and> scheduled msg n block \<and> view n r = fold (fips_operation msg) [0..<n] (st ! 0, st ! 1, st ! 2, st ! 3, st ! 4))"
proof (induction n)
  case 0
  then show ?case using assms(2) by (simp add: scheduled_def view_def registers_def)
next
  case (Suc n)
  obtain r block where rb: "fold (\<lambda>i (r, block). macro i (registers i) i r block) [0..<n] (st, map (\<lambda>i. getu32 msg (4 * i)) [0..<16]) = (r, block)"
    by fastforce
  then have h: "length r = 5" "scheduled msg n block" "view n r = fold (fips_operation msg) [0..<n] (st ! 0, st ! 1, st ! 2, st ! 3, st ! 4)"
    using Suc.IH by simp_all
  let ?block = "block[n mod 16 := fips_W msg n]"
  obtain r' where r': "sha1_line (fips_f n) (fips_K n) (registers n) n r ?block = (r', ?block)"
    using line_block(1) by (metis prod.collapse)
  have b: "?block ! (n mod 16) = fips_W msg n" using h(2) by (simp add: scheduled_def)
  have "view (Suc n) r' = fips_operation msg n (view n r)"
    using view_line [OF h(1), of n "fips_f n" "fips_K n" ?block] r' b
    by (simp add: fips_operation_def rol_rotl ac_simps split: prod.split)
  moreover have "length r' = 5" using line_block(2) [of "fips_f n" "fips_K n" "registers n" n r ?block] r' h(1) by simp
  ultimately show ?case using scheduled_next [OF h(2)] by (simp add: rb macro_line [OF h(2) assms(1)] r' h(3))
qed

lemma sha1_transform_fips:
  assumes "length msg = 64" "length st = 5" shows "lutil_SHA1Transform st msg = fips_sha1_block st msg"
proof -
  obtain r block where rb: "fold (\<lambda>i (r, block). macro i (registers i) i r block) [0..<80] (st, map (\<lambda>i. getu32 msg (4 * i)) [0..<16]) = (r, block)"
    by fastforce
  then have h: "length r = 5" "view 80 r = fold (fips_operation msg) [0..<80] (st ! 0, st ! 1, st ! 2, st ! 3, st ! 4)"
    using sha1_lines [OF assms, of 80] by simp_all
  obtain a b c d e where r: "r = [a, b, c, d, e]" using length_5 [OF h(1)] by blast
  obtain a' b' c' d' e' where s: "st = [a', b', c', d', e']" using length_5 [OF assms(2)] by blast
  have "view 80 r = (a, b, c, d, e)" by (simp add: view_def registers_def r)
  then show ?thesis
    using rb h(2) [symmetric] by (simp add: lutil_SHA1Transform_def fips_sha1_block_def sha1_program_lines fold_map comp_def r s)
qed

end
