(* ===== verification/Digest_Facts.thy ===== *)
theory Digest_Facts imports Digest_Rounds begin

text \<open>
  A context stands for the octets it was fed, in whatever portions; the digests are those of the standards.
  The locale \<open>digest\<close> is what a client relies on.
\<close>

section \<open>Blocks of 64 octets\<close>

function blocks :: "octets \<Rightarrow> octets list" where
  "blocks m = (if 64 \<le> length m then take 64 m # blocks (drop 64 m) else [])"
  by pat_completeness auto
termination by (relation "measure length") auto

declare blocks.simps [simp del]

definition leftover :: "octets \<Rightarrow> octets" where
  "leftover m = drop (length m - length m mod 64) m"

lemma length_leftover [simp]: "length (leftover m) = length m mod 64"
  by (simp add: leftover_def)

lemma leftover_less: "length (leftover m) < 64"
  by simp

lemma blocks_short: "length m < 64 \<Longrightarrow> blocks m = [] \<and> leftover m = m"
  by (simp add: blocks.simps leftover_def)

lemma blocks_block:
  assumes "length b = 64" shows "blocks (b @ m) = b # blocks m" "leftover (b @ m) = leftover m"
proof -
  show "blocks (b @ m) = b # blocks m" using assms by (simp add: blocks.simps [of "b @ m"])
  have "length (b @ m) - length (b @ m) mod 64 = 64 + (length m - length m mod 64)" using assms by (simp add: mod_less_eq_dividend)
  then show "leftover (b @ m) = leftover m" using assms by (simp add: leftover_def)
qed

lemma blocks_append: "blocks (m @ d) = blocks m @ blocks (leftover m @ d)" "leftover (m @ d) = leftover (leftover m @ d)"
proof (induction m rule: blocks.induct)
  case (1 m)
  {
    case 1
    show ?case
    proof (cases "64 \<le> length m")
      case True
      then have "m = take 64 m @ drop 64 m" "length (take 64 m) = 64" by simp_all
      then show ?thesis using "1.IH"(1) [OF True] blocks_block [of "take 64 m"] by (metis append_assoc append_Cons)
    qed (simp add: blocks_short)
  next
    case 2
    show ?case
    proof (cases "64 \<le> length m")
      case True
      then have "m = take 64 m @ drop 64 m" "length (take 64 m) = 64" by simp_all
      then show ?thesis using "1.IH"(2) [OF True] blocks_block [of "take 64 m"] by (metis append_assoc)
    qed (simp add: blocks_short)
  }
qed

lemma blocks_lengths: "b \<in> set (blocks m) \<Longrightarrow> length b = 64"
proof (induction m rule: blocks.induct)
  case (1 m)
  then show ?case by (cases "64 \<le> length m") (auto simp: blocks.simps [of m])
qed

lemma copied_in_simps:
  assumes "i + length xs \<le> length block"
  shows "length (copied_in block i xs) = length block" "take (i + length xs) (copied_in block i xs) = take i block @ xs"
  using assms by (simp_all add: copied_in_def)

lemma length_stack_buffer [simp]: "length (stack_buffer junk) = 64"
  by (simp add: stack_buffer_def)

section \<open>What a client relies on\<close>

text \<open>
  \<open>holds c m\<close>: the context stands for the octets \<open>m\<close>.  \<open>limit\<close> bounds the messages, \<open>size\<close> is the length of a digest.
\<close>

locale digest =
  fixes init :: 'c and update :: "'c \<Rightarrow> octets \<Rightarrow> 'c" and final :: "'c \<Rightarrow> octets"
    and holds :: "'c \<Rightarrow> octets \<Rightarrow> bool" and result :: "octets \<Rightarrow> octets" and limit :: nat and size :: nat
  assumes init_holds: "holds init []"
    and update_holds: "holds c m \<Longrightarrow> length d < 2 ^ 32 \<Longrightarrow> length (m @ d) < limit \<Longrightarrow> holds (update c d) (m @ d)"
    and final_result: "holds c m \<Longrightarrow> length m < limit \<Longrightarrow> final c = result m"
    and result_length: "length (result m) = size"
begin

lemma portions_hold:
  assumes "holds c m" "list_all (\<lambda>d. length d < 2 ^ 32) ds" "length (m @ concat ds) < limit"
  shows "holds (foldl update c ds) (m @ concat ds)"
  using assms
proof (induction ds arbitrary: c m)
  case (Cons d ds)
  then have "holds (update c d) (m @ d)" by (intro update_holds) simp_all
  then show ?case using Cons.IH [of "update c d" "m @ d"] Cons.prems by simp
qed simp

lemma digests_portions:
  assumes "list_all (\<lambda>d. length d < 2 ^ 32) ds" "length (concat ds) < limit"
  shows "final (foldl update init ds) = result (concat ds)"
  using portions_hold [OF init_holds assms(1)] final_result assms(2) by simp

lemma digests_two:
  assumes "length a < 2 ^ 32" "length b < 2 ^ 32" "length (a @ b) < limit"
  shows "final (update init a) = result a" "final (update (update init a) b) = result (a @ b)"
  using digests_portions [of "[a]"] digests_portions [of "[a, b]"] assms by simp_all

end

section \<open>MD5\<close>

definition md5_IV :: md5_state where "md5_IV = (0x67452301, 0xefcdab89, 0x98badcfe, 0x10325476)"

definition md5_holds :: "md5context \<Rightarrow> octets \<Rightarrow> bool" where
  "md5_holds ctx m \<longleftrightarrow> md5_buf ctx = foldl rfc_md5_block md5_IV (blocks m) \<and> length (md5_in ctx) = 64
    \<and> take (length m mod 64) (md5_in ctx) = leftover m
    \<and> unat (md5_bits0 ctx) + 2 ^ 32 * unat (md5_bits1 ctx) = 8 * length m"

text \<open>The padding of both standards: a one bit, zeros, and the length in bits.\<close>

definition padding :: "nat \<Rightarrow> octets" where
  "padding n = 0x80 # replicate ((119 - n mod 64) mod 64) 0"

definition le_octets :: "nat \<Rightarrow> octets" where
  "le_octets n = putu32 (of_nat n) @ putu32 (of_nat (n div 2 ^ 32))"

definition md5 :: "octets \<Rightarrow> octets" where
  "md5 m = md5_output (foldl rfc_md5_block md5_IV (blocks (m @ padding (length m) @ le_octets (8 * length m))))"

lemma copied_block: "length xs = length block \<Longrightarrow> copied_in block 0 xs = xs"
  by (simp add: copied_in_def)

lemma md5_chunks_blocks:
  assumes "length block = 64"
  obtains block' where "md5_chunks st block data = (foldl rfc_md5_block st (blocks data), block')" "length block' = 64"
    "take (length data mod 64) block' = leftover data"
  using assms
proof (induction st block data arbitrary: thesis rule: md5_chunks.induct)
  case (1 st block data)
  show ?case
  proof (cases "64 \<le> length data")
    case True
    then have d: "data = take 64 data @ drop 64 data" "length (take 64 data) = 64" by simp_all
    have c: "copied_in block 0 (take 64 data) = take 64 data" by (rule copied_block) (use d "1.prems" in simp)
    have m: "(length data - 64) mod 64 = length data mod 64" using True by (simp add: mod_if [of "length data"])
    obtain block' where b: "md5_chunks (rfc_md5_block st (take 64 data)) (take 64 data) (drop 64 data)
        = (foldl rfc_md5_block (rfc_md5_block st (take 64 data)) (blocks (drop 64 data)), block')" "length block' = 64"
        "take (length (drop 64 data) mod 64) block' = leftover (drop 64 data)"
      using "1.IH" [OF True] d(2) by (metis c md5_transform_rfc)
    have "leftover data = leftover (drop 64 data)" "blocks data = take 64 data # blocks (drop 64 data)"
      using blocks_block [OF d(2), of "drop 64 data"] by simp_all
    then show ?thesis using "1.prems"(1) [of block'] b True m by (simp add: md5_chunks.simps [of st block data] c md5_transform_rfc)
  next
    case False
    then have l: "length data < 64" by simp
    show ?thesis
      using "1.prems"(1) [of "copied_in block 0 data"] "1.prems"(2) l copied_in_simps [of 0 data block] blocks_short [OF l]
      by (simp add: md5_chunks.simps [of st block data])
  qed
qed

lemma unat_push_3: "n < 2 ^ 32 \<Longrightarrow> unat (push_bit 3 (of_nat n :: u32)) = (8 * n) mod 2 ^ 32"
  by (simp add: push_bit_eq_mult unat_word_ariths unat_of_nat mult.commute)

lemma unat_drop_29: "n < 2 ^ 32 \<Longrightarrow> unat (drop_bit 29 (of_nat n :: u32)) = (8 * n) div 2 ^ 32"
  by (simp only: unat_drop_bit_eq) (simp only: drop_bit_eq_div unat_of_nat, simp)

lemma bits_add:
  fixes t h :: u32
  assumes "n < 2 ^ 32" "unat t + 2 ^ 32 * unat h = 8 * l" "8 * (l + n) < 2 ^ 64" "low = t + push_bit 3 (of_nat n)"
  shows "unat low + 2 ^ 32 * unat ((if low < t then h + 1 else h) + drop_bit 29 (of_nat n)) = 8 * (l + n)"
proof -
  define x where "x = (8 * n) mod 2 ^ 32"
  define q where "q = (8 * n) div 2 ^ 32"
  have n: "8 * n = x + 2 ^ 32 * q" unfolding x_def q_def by (rule mod_mult_div_eq [symmetric])
  have x: "x < 2 ^ 32" by (simp add: x_def)
  have u: "unat (push_bit 3 (of_nat n :: u32)) = x" "unat (drop_bit 29 (of_nat n :: u32)) = q"
    using unat_push_3 [OF assms(1)] unat_drop_29 [OF assms(1)] by (simp_all add: x_def q_def)
  have t: "unat t < 2 ^ 32" using unsigned_less [of t] by simp
  have low: "unat low = (if unat t + x < 2 ^ 32 then unat t + x else unat t + x - 2 ^ 32)"
    using unat_plus_if' [of t "push_bit 3 (of_nat n)"] u assms(4) by simp
  define c where "c = (if low < t then 1 else 0 :: nat)"
  have c: "c = (if unat t + x < 2 ^ 32 then 0 else 1)" using low x t by (auto simp: c_def word_less_nat_alt)
  have total: "unat low + 2 ^ 32 * (unat h + c + q) = 8 * (l + n)" using low c n assms(2) by (auto simp: algebra_simps)
  then have small: "unat h + c + q < 2 ^ 32" using assms(3) by simp
  have w: "(if low < t then h + 1 else h) + drop_bit 29 (of_nat n) = (of_nat (unat h + c + q) :: u32)"
    using u(2) by (simp add: c_def flip: u(2))
  then have "unat ((if low < t then h + 1 else h) + drop_bit 29 (of_nat n)) = unat h + c + q"
    unfolding w unat_of_nat using small by simp
  then show ?thesis using total by simp
qed

lemma held_octets: "unat (t :: u32) + 2 ^ 32 * h = 8 * l \<Longrightarrow> unat (drop_bit 3 t AND 0x3f) = l mod 64"
proof -
  assume a: "unat t + 2 ^ 32 * h = 8 * l"
  have "(0x3f :: u32) = mask 6" by (simp add: mask_eq_exp_minus_1)
  then have "unat (drop_bit 3 t AND 0x3f) = unat t div 8 mod 64"
    by (simp only: take_bit_eq_mask [symmetric] unsigned_take_bit_eq unat_drop_bit_eq) (simp add: drop_bit_eq_div take_bit_eq_mod)
  also have "\<dots> = l mod 64"
  proof -
    have "l = unat t div 8 + 64 * (8388608 * h)" using a by simp
    then show ?thesis by (simp only: mod_mult_self2)
  qed
  finally show ?thesis .
qed

lemma md5_update_holds:
  assumes "md5_holds ctx m" "length d < 2 ^ 32" "8 * length (m @ d) < 2 ^ 64"
  shows "md5_holds (lutil_MD5Update ctx d) (m @ d)"
proof -
  define r where "r = length m mod 64"
  define ctx1 where "ctx1 = ctx\<lparr>md5_bits0 := md5_bits0 ctx + push_bit 3 (of_nat (length d)),
    md5_bits1 := (if md5_bits0 ctx + push_bit 3 (of_nat (length d)) < md5_bits0 ctx then md5_bits1 ctx + 1 else md5_bits1 ctx)
      + drop_bit 29 (of_nat (length d))\<rparr>"
  have buf: "md5_buf ctx = foldl rfc_md5_block md5_IV (blocks m)" "length (md5_in ctx) = 64" "take r (md5_in ctx) = leftover m"
    and bits: "unat (md5_bits0 ctx) + 2 ^ 32 * unat (md5_bits1 ctx) = 8 * length m"
    using assms(1) by (simp_all add: md5_holds_def r_def)
  have bits1: "unat (md5_bits0 ctx1) + 2 ^ 32 * unat (md5_bits1 ctx1) = 8 * length (m @ d)"
    using bits_add [OF assms(2) bits _ refl] assms(3) by (simp add: ctx1_def)
  have held: "unat (drop_bit 3 (md5_bits0 ctx) AND 0x3f) = r" using held_octets [OF bits] by (simp add: r_def)
  have r: "r < 64" "length (leftover m) = r" by (simp_all add: r_def)
  have fields: "md5_buf ctx1 = md5_buf ctx" "md5_in ctx1 = md5_in ctx" by (simp_all add: ctx1_def)
  have holds: "md5_holds (ctx1\<lparr>md5_buf := b, md5_in := i\<rparr>) (m @ d)"
    if "b = foldl rfc_md5_block md5_IV (blocks (m @ d))" "length i = 64" "take (length (m @ d) mod 64) i = leftover (m @ d)" for b i
    using that bits1 by (simp add: md5_holds_def)
  note def = lutil_MD5Update_def [of ctx d, unfolded Let_def held, folded ctx1_def]
  consider "r = 0" | "r \<noteq> 0" "length d < 64 - r" | "r \<noteq> 0" "64 - r \<le> length d" by linarith
  then show ?thesis
  proof cases
    case 1
    then have l: "leftover m = []" by (metis length_0_conv r(2))
    obtain i where "md5_chunks (md5_buf ctx) (md5_in ctx) d = (foldl rfc_md5_block (md5_buf ctx) (blocks d), i)" "length i = 64"
        "take (length d mod 64) i = leftover d" using md5_chunks_blocks [OF buf(2)] .
    then show ?thesis using 1 holds [of _ i] buf(1) blocks_append [of m d] l by (simp add: def fields r_def mod_add_eq [symmetric])
  next
    case 2
    then have s: "length (leftover m @ d) < 64" using r by simp
    then have "leftover (m @ d) = leftover m @ d" "blocks (m @ d) = blocks m"
      using blocks_append [of m d] blocks_short [OF s] by simp_all
    moreover have "length (m @ d) mod 64 = r + length d" using length_leftover [of "m @ d"] calculation(1) r(2) by simp
    ultimately have "md5_holds (ctx1\<lparr>md5_buf := md5_buf ctx, md5_in := copied_in (md5_in ctx) r d\<rparr>) (m @ d)"
      using 2 buf copied_in_simps [of r d "md5_in ctx"] by (intro holds) simp_all
    moreover have "ctx1\<lparr>md5_buf := md5_buf ctx, md5_in := i\<rparr> = ctx1\<lparr>md5_in := i\<rparr>" for i by (simp add: ctx1_def)
    ultimately show ?thesis using 2 by (simp only: def fields) simp
  next
    case 3
    let ?b = "leftover m @ take (64 - r) d"
    have b: "length ?b = 64" using 3 r by simp
    have c: "copied_in (md5_in ctx) r (take (64 - r) d) = ?b" using buf(2,3) 3 r by (simp add: copied_in_def)
    obtain i where i: "md5_chunks (rfc_md5_block (md5_buf ctx) ?b) ?b (drop (64 - r) d)
        = (foldl rfc_md5_block (rfc_md5_block (md5_buf ctx) ?b) (blocks (drop (64 - r) d)), i)" "length i = 64"
        "take (length (drop (64 - r) d) mod 64) i = leftover (drop (64 - r) d)" using md5_chunks_blocks [OF b] .
    have "leftover m @ d = ?b @ drop (64 - r) d" by simp
    then have bl: "blocks (m @ d) = blocks m @ ?b # blocks (drop (64 - r) d)" "leftover (m @ d) = leftover (drop (64 - r) d)"
      using blocks_append [of m d] blocks_block [OF b, of "drop (64 - r) d"] by simp_all
    moreover have "length (m @ d) mod 64 = length (drop (64 - r) d) mod 64" using length_leftover [of "m @ d"] bl(2) by simp
    ultimately show ?thesis
      using 3 holds [of _ i] buf(1) i c by (simp add: def fields md5_transform_rfc)
  qed
qed

lemma pad_count:
  fixes r n :: nat
  shows "r < 56 \<Longrightarrow> (119 - r) mod 64 = 55 - r" "\<not> r < 56 \<Longrightarrow> r < 64 \<Longrightarrow> (119 - r) mod 64 = (63 - r) + 56"
    "0 < r \<Longrightarrow> r < 64 \<Longrightarrow> (56 + r) mod 64 \<noteq> 56" "(n + 1 + (119 - n mod 64) mod 64) mod 64 = 56"
proof -
  show "r < 56 \<Longrightarrow> (119 - r) mod 64 = 55 - r" "\<not> r < 56 \<Longrightarrow> r < 64 \<Longrightarrow> (119 - r) mod 64 = (63 - r) + 56"
    by (simp_all add: mod_if)
  show "0 < r \<Longrightarrow> r < 64 \<Longrightarrow> (56 + r) mod 64 \<noteq> 56" by presburger
  have "n + 1 + (119 - n mod 64) = 120 + 64 * (n div 64)" using mod_mult_div_eq [of n 64] mod_less_divisor [of 64 n] by linarith
  then show "(n + 1 + (119 - n mod 64) mod 64) mod 64 = 56" unfolding mod_add_right_eq by simp
qed

lemma padded_blocks:
  assumes "length tail = 8"
  shows "length m mod 64 < 56 \<Longrightarrow> blocks (m @ padding (length m) @ tail)
      = blocks m @ [leftover m @ 0x80 # replicate (55 - length m mod 64) 0 @ tail]"
    "\<not> length m mod 64 < 56 \<Longrightarrow> blocks (m @ padding (length m) @ tail)
      = blocks m @ [leftover m @ 0x80 # replicate (63 - length m mod 64) 0, replicate 56 0 @ tail]"
proof -
  let ?r = "length m mod 64"
  assume r: "?r < 56"
  then have z: "(119 - ?r) mod 64 = 55 - ?r" by (rule pad_count)
  have "leftover m @ padding (length m) @ tail = leftover m @ 0x80 # replicate (55 - ?r) 0 @ tail" unfolding padding_def z by simp
  moreover have "length (leftover m @ 0x80 # replicate (55 - ?r) 0 @ tail) = 64" using r assms by simp
  ultimately show "blocks (m @ padding (length m) @ tail) = blocks m @ [leftover m @ 0x80 # replicate (55 - ?r) 0 @ tail]"
    using blocks_block(1) [of "leftover m @ 0x80 # replicate (55 - ?r) 0 @ tail" "[]"] blocks_short [of "[]"]
    unfolding blocks_append(1) [of m "padding (length m) @ tail"] by simp
next
  let ?r = "length m mod 64"
  let ?b = "leftover m @ 0x80 # replicate (63 - ?r) 0" and ?c = "replicate 56 0 @ tail"
  assume r: "\<not> ?r < 56"
  moreover have "?r < 64" by simp
  ultimately have z: "(119 - ?r) mod 64 = (63 - ?r) + 56" by (intro pad_count)
  have "leftover m @ padding (length m) @ tail = ?b @ ?c @ []" unfolding padding_def z replicate_add by simp
  moreover have "length ?b = 64" "length ?c = 64" using assms by simp_all
  ultimately show "blocks (m @ padding (length m) @ tail) = blocks m @ [?b, ?c]"
    using blocks_block(1) [of ?b "?c @ []"] blocks_block(1) [of ?c "[]"] blocks_short [of "[]"]
    unfolding blocks_append(1) [of m "padding (length m) @ tail"] by simp
qed

lemma length_putu32 [simp]: "length (putu32 w) = 4"
  by (simp add: putu32_def)

lemma le_octets_bits:
  assumes "unat b0 + 2 ^ 32 * unat b1 = n" shows "putu32 b0 @ putu32 b1 = le_octets n"
proof -
  have "of_nat (2 ^ 32) = (0 :: u32)" by simp
  then have "of_nat n = b0" unfolding assms [symmetric] of_nat_add of_nat_mult by (simp only: of_nat_unat_id mult_zero_left add_0_right)
  moreover have "unat b0 < 2 ^ 32" using unsigned_less [of b0] by simp
  then have "n div 2 ^ 32 = unat b1" using assms by simp
  ultimately show ?thesis by (simp add: le_octets_def)
qed

lemma copied_after: "length a = i \<Longrightarrow> copied_in (a @ b) i xs = a @ xs @ drop (length xs) b"
  by (simp add: copied_in_def)

lemma md5_final_result:
  assumes "md5_holds ctx m" shows "lutil_MD5Final ctx = md5 m"
proof -
  define r where "r = length m mod 64"
  have buf: "md5_buf ctx = foldl rfc_md5_block md5_IV (blocks m)" "length (md5_in ctx) = 64" "take r (md5_in ctx) = leftover m"
    and bits: "unat (md5_bits0 ctx) + 2 ^ 32 * unat (md5_bits1 ctx) = 8 * length m"
    using assms by (simp_all add: md5_holds_def r_def)
  have held: "unat (drop_bit 3 (md5_bits0 ctx) AND 0x3f) = r" using held_octets [OF bits] by (simp add: r_def)
  have r: "r < 64" "length (leftover m) = r" by (simp_all add: r_def)
  let ?tail = "putu32 (md5_bits0 ctx) @ putu32 (md5_bits1 ctx)"
  have md5: "md5 m = md5_output (foldl rfc_md5_block md5_IV (blocks (m @ padding (length m) @ ?tail)))"
    by (simp add: md5_def le_octets_bits [OF bits])
  have start: "copied_in (md5_in ctx) r [0x80] = leftover m @ 0x80 # drop (r + 1) (md5_in ctx)"
    using buf(3) by (simp add: copied_in_def)
  have zeros: "copied_in (copied_in (md5_in ctx) r [0x80]) (r + 1) (replicate n 0) = leftover m @ 0x80 # replicate n 0 @ drop (r + 1 + n) (md5_in ctx)"
    for n using copied_after [of "leftover m @ [0x80]" "r + 1" "drop (r + 1) (md5_in ctx)" "replicate n 0"] r(2)
    unfolding start by (simp add: add.commute)
  show ?thesis
  proof (cases "r < 56")
    case True
    let ?a = "leftover m @ 0x80 # replicate (55 - r) 0"
    have "copied_in (copied_in (?a @ drop 56 (md5_in ctx)) 56 (putu32 (md5_bits0 ctx))) 60 (putu32 (md5_bits1 ctx)) = ?a @ ?tail"
      using True r(2) buf(2) copied_after [of ?a 56] copied_after [of "?a @ putu32 (md5_bits0 ctx)" 60] by simp
    moreover have "\<not> 63 - r < 8" "63 - r - 8 = 55 - r" using True by simp_all
    ultimately show ?thesis
      using True zeros [of "55 - r"] padded_blocks(1) [of ?tail m] buf(1)
      by (simp add: lutil_MD5Final_def Let_def held md5 md5_transform_rfc r_def [symmetric])
  next
    case False
    then have full: "leftover m @ 0x80 # replicate (63 - r) 0 @ drop 64 (md5_in ctx) = leftover m @ 0x80 # replicate (63 - r) 0"
      using buf(2) by simp
    have "copied_in (copied_in (copied_in (leftover m @ 0x80 # replicate (63 - r) 0) 0 (replicate 56 0)) 56 (putu32 (md5_bits0 ctx))) 60
        (putu32 (md5_bits1 ctx)) = replicate 56 0 @ ?tail" using False r by (simp add: copied_in_def)
    moreover have "63 - r < 8" using False by simp
    ultimately show ?thesis
      using False r(1) zeros [of "63 - r"] padded_blocks(2) [of ?tail m] buf(1) full
      by (simp add: lutil_MD5Final_def Let_def held md5 md5_transform_rfc r_def [symmetric])
  qed
qed

lemma length_md5 [simp]: "length (md5 m) = 16"
  by (simp add: md5_def md5_output_def split: prod.split)

interpretation md5_digest: digest "lutil_MD5Init (stack_buffer g)" lutil_MD5Update lutil_MD5Final md5_holds md5 "2 ^ 61" 16
proof
  show "md5_holds (lutil_MD5Init (stack_buffer g)) []" by (simp add: md5_holds_def lutil_MD5Init_def md5_IV_def blocks_short)
qed (use md5_update_holds md5_final_result in simp_all)

section \<open>SHA-1\<close>

definition sha1_IV :: "u32 list" where
  "sha1_IV = [0x67452301, 0xEFCDAB89, 0x98BADCFE, 0x10325476, 0xC3D2E1F0]"

definition sha1_holds :: "sha1_ctx \<Rightarrow> octets \<Rightarrow> bool" where
  "sha1_holds ctx m \<longleftrightarrow> sha1_state ctx = foldl fips_sha1_block sha1_IV (blocks m) \<and> length (sha1_buffer ctx) = 64
    \<and> take (length m mod 64) (sha1_buffer ctx) = leftover m
    \<and> unat (sha1_count0 ctx) = 8 * length m \<and> sha1_count1 ctx = 0"

definition be_octets :: "nat \<Rightarrow> octets" where
  "be_octets n = be_bytes 4 (of_nat (n div 2 ^ 32)) @ be_bytes 4 (of_nat n)"

definition sha1 :: "octets \<Rightarrow> octets" where
  "sha1 m = concat (map (be_bytes 4) (foldl fips_sha1_block sha1_IV (blocks (m @ padding (length m) @ be_octets (8 * length m)))))"

lemma length_fips_block [simp]: "length (fips_sha1_block st b) = 5"
  by (simp add: fips_sha1_block_def split: prod.split)

lemma length_fips_blocks: "length st = 5 \<Longrightarrow> length (foldl fips_sha1_block st bs) = 5"
  by (induction bs arbitrary: st) simp_all

lemma sha1_chunks_blocks:
  "length st = 5 \<Longrightarrow> i \<le> length data \<Longrightarrow>
    sha1_chunks st data i = (foldl fips_sha1_block st (blocks (drop i data)), length data - length (drop i data) mod 64)"
proof (induction st data i rule: sha1_chunks.induct)
  case (1 st data i)
  show ?case
  proof (cases "i + 63 < length data")
    case True
    let ?b = "take 64 (drop i data)"
    have b: "length ?b = 64" "drop i data = ?b @ drop (i + 64) data" using True by simp_all (metis append_take_drop_id drop_drop add.commute)
    have "blocks (drop i data) = ?b # blocks (drop (i + 64) data)"
      using blocks_block(1) [OF b(1), of "drop (i + 64) data"] b(2) by simp
    moreover have "length (drop i data) mod 64 = length (drop (i + 64) data) mod 64"
      using True by (metis b(1,2) length_append mod_add_self1)
    ultimately show ?thesis
      using 1 True by (simp add: sha1_chunks.simps [of st data i] sha1_transform_fips [OF b(1)])
  next
    case False
    then have "length (drop i data) < 64" by simp
    then show ?thesis using False 1 blocks_short [of "drop i data"] by (simp add: sha1_chunks.simps [of st data i])
  qed
qed

lemma unat_count:
  assumes "unat (c :: u32) = 8 * l" "8 * (l + n) < 2 ^ 32"
  shows "unat (c + push_bit 3 (of_nat n)) = 8 * (l + n)" "\<not> c + push_bit 3 (of_nat n) < c"
    "unat (drop_bit 3 c AND 63) = l mod 64" "63 < (drop_bit 3 c AND 63) + of_nat n \<longleftrightarrow> 64 \<le> l mod 64 + n"
proof -
  have n: "unat (push_bit 3 (of_nat n :: u32)) = 8 * n" using unat_push_3 [of n] assms(2) by simp
  show c: "unat (c + push_bit 3 (of_nat n)) = 8 * (l + n)" using unat_plus_if' [of c "push_bit 3 (of_nat n)"] n assms by simp
  then show "\<not> c + push_bit 3 (of_nat n) < c" using assms(1) by (simp add: word_less_nat_alt)
  show h: "unat (drop_bit 3 c AND 63) = l mod 64" using held_octets [of c 0 l] assms(1) by simp
  have "unat (of_nat n :: u32) = n" using assms(2) by (simp add: unat_of_nat)
  moreover have "l mod 64 + n < 2 ^ 32" using mod_less_eq_dividend [of l 64] assms(2) by simp
  ultimately have "unat ((drop_bit 3 c AND 63) + of_nat n) = l mod 64 + n"
    using unat_plus_if' [of "drop_bit 3 c AND 63" "of_nat n"] h assms(2) by simp
  then show "63 < (drop_bit 3 c AND 63) + of_nat n \<longleftrightarrow> 64 \<le> l mod 64 + n" by (simp add: word_less_nat_alt less_eq_Suc_le)
qed

lemma sha1_update_holds:
  assumes "sha1_holds ctx m" "8 * length (m @ d) < 2 ^ 32"
  shows "sha1_holds (lutil_SHA1Update ctx d) (m @ d)"
proof -
  define r where "r = length m mod 64"
  define ctx1 where "ctx1 = ctx\<lparr>sha1_count0 := sha1_count0 ctx + push_bit 3 (of_nat (length d))\<rparr>"
  have buf: "sha1_state ctx = foldl fips_sha1_block sha1_IV (blocks m)" "length (sha1_buffer ctx) = 64" "take r (sha1_buffer ctx) = leftover m"
    and count: "unat (sha1_count0 ctx) = 8 * length m" "sha1_count1 ctx = 0"
    using assms(1) by (simp_all add: sha1_holds_def r_def)
  note c = unat_count [OF count(1), of "length d", folded r_def]
  have total: "8 * (length m + length d) < 2 ^ 32" using assms(2) by simp
  have r: "r < 64" "length (leftover m) = r" by (simp_all add: r_def)
  have st: "length (sha1_state ctx) = 5" unfolding buf(1) by (rule length_fips_blocks) (simp add: sha1_IV_def)
  have fields: "sha1_state ctx1 = sha1_state ctx" "sha1_buffer ctx1 = sha1_buffer ctx" by (simp_all add: ctx1_def)
  have eq: "ctx\<lparr>sha1_count0 := sha1_count0 ctx + push_bit 3 (of_nat (length d)), sha1_count1 := sha1_count1 ctx\<rparr> = ctx1" by (simp add: ctx1_def)
  note def = lutil_SHA1Update_def [of ctx d, unfolded Let_def c(3) [OF total] c(4) [OF total] if_not_P [OF c(2) [OF total]] eq]
  have holds: "sha1_holds (ctx1\<lparr>sha1_state := s, sha1_buffer := b\<rparr>) (m @ d)"
    if "s = foldl fips_sha1_block sha1_IV (blocks (m @ d))" "length b = 64" "take (length (m @ d) mod 64) b = leftover (m @ d)" for s b
    using that c(1) [OF total] count(2) by (simp add: sha1_holds_def ctx1_def)
  show ?thesis
  proof (cases "64 \<le> r + length d")
    case False
    then have s: "length (leftover m @ d) < 64" using r by simp
    have l: "leftover (m @ d) = leftover m @ d" "blocks (m @ d) = blocks m" using blocks_append [of m d] blocks_short [OF s] by simp_all
    moreover have "length (m @ d) mod 64 = r + length d" using length_leftover [of "m @ d"] l(1) r(2) by simp
    ultimately have "sha1_holds (ctx1\<lparr>sha1_state := sha1_state ctx, sha1_buffer := copied_in (sha1_buffer ctx) r d\<rparr>) (m @ d)"
      using False buf copied_in_simps [of r d "sha1_buffer ctx"] by (intro holds) simp_all
    moreover have "ctx1\<lparr>sha1_state := sha1_state ctx, sha1_buffer := i\<rparr> = ctx1\<lparr>sha1_buffer := i\<rparr>" for i by (simp add: ctx1_def)
    ultimately show ?thesis using False by (simp only: def fields) simp
  next
    case True
    let ?b = "leftover m @ take (64 - r) d" and ?rest = "drop (64 - r) d"
    have b: "length ?b = 64" using True r by simp
    have cp: "copied_in (sha1_buffer ctx) r (take (64 - r) d) = ?b" using buf(2,3) True r by (simp add: copied_in_def)
    have "leftover m @ d = ?b @ ?rest" by simp
    then have bl: "blocks (m @ d) = blocks m @ ?b # blocks ?rest" "leftover (m @ d) = leftover ?rest"
      using blocks_append [of m d] blocks_block [OF b, of ?rest] by simp_all
    have ch: "sha1_chunks (fips_sha1_block (sha1_state ctx) ?b) d (64 - r)
        = (foldl fips_sha1_block (fips_sha1_block (sha1_state ctx) ?b) (blocks ?rest), length d - length ?rest mod 64)"
      using True r by (intro sha1_chunks_blocks) simp_all
    have lo: "drop (length d - length ?rest mod 64) d = leftover ?rest"
    proof -
      have "length d - length ?rest mod 64 = (64 - r) + (length ?rest - length ?rest mod 64)" using True r by simp
      then show ?thesis unfolding leftover_def drop_drop by (simp add: add.commute)
    qed
    have m: "length (m @ d) mod 64 = length ?rest mod 64" by (metis bl(2) length_leftover)
    have "sha1_holds (ctx1\<lparr>sha1_state := foldl fips_sha1_block (fips_sha1_block (sha1_state ctx) ?b) (blocks ?rest),
        sha1_buffer := copied_in ?b 0 (leftover ?rest)\<rparr>) (m @ d)"
    proof (intro holds)
      have "length (leftover ?rest) \<le> length ?b" unfolding b length_leftover by simp
      then show "length (copied_in ?b 0 (leftover ?rest)) = 64" "take (length (m @ d) mod 64) (copied_in ?b 0 (leftover ?rest)) = leftover (m @ d)"
        using copied_in_simps [of 0 "leftover ?rest" ?b] b m bl(2) unfolding length_leftover by simp_all
    qed (simp add: bl(1) buf(1))
    then show ?thesis unfolding def if_P [OF True] fields cp sha1_transform_fips [OF b st] ch prod.case lo .
  qed
qed

lemma drop_448: "drop_bit 3 448 = (56 :: u32)" by (simp add: drop_bit_eq_div)

lemma count_at_56:
  assumes "unat (c :: u32) = 8 * l" shows "c AND 504 = 448 \<longleftrightarrow> l mod 64 = 56"
proof -
  have m: "(504 :: u32) = push_bit 3 (mask 6)" "(63 :: u32) = mask 6" by (simp_all add: mask_eq_exp_minus_1)
  have e: "c AND 504 = push_bit 3 (drop_bit 3 c AND 63)" unfolding m by (rule bit_word_eqI) (auto simp: bit_simps)
  have h: "unat (drop_bit 3 c AND 63) = l mod 64" using held_octets [of c 0 l] assms by simp
  have "drop_bit 3 (c AND 504) = drop_bit 3 c AND 63" unfolding m by (rule bit_word_eqI) (auto simp: bit_simps dest: bit_imp_le_length)
  then have "c AND 504 = 448 \<Longrightarrow> drop_bit 3 c AND 63 = 56" by (metis drop_448)
  moreover have "drop_bit 3 c AND 63 = 56 \<Longrightarrow> c AND 504 = 448" unfolding e by simp
  moreover have "drop_bit 3 c AND 63 = 56 \<longleftrightarrow> l mod 64 = 56" using h by (simp add: word_unat_eq_iff)
  ultimately show ?thesis by blast
qed

lemma sha1_pad_holds:
  assumes "sha1_holds ctx m" "k \<le> n" "(length m + k) mod 64 = 56" "k < 64" "8 * (length m + k) < 2 ^ 32"
  shows "sha1_holds (sha1_pad n ctx) (m @ replicate k 0)"
  using assms
proof (induction n arbitrary: ctx m k)
  case (Suc n)
  have c: "unat (sha1_count0 ctx) = 8 * length m" using Suc.prems(1) by (simp add: sha1_holds_def)
  show ?case
  proof (cases k)
    case 0
    then show ?thesis using Suc.prems count_at_56 [OF c] by simp
  next
    case (Suc k')
    have "length m mod 64 \<noteq> 56"
    proof
      assume "length m mod 64 = 56"
      then have "(56 + k) mod 64 = 56" using Suc.prems(3) by (metis mod_add_left_eq)
      then show False using Suc Suc.prems(4) pad_count(3) [of k] by simp
    qed
    moreover have "sha1_holds (lutil_SHA1Update ctx [0]) (m @ [0])" by (rule sha1_update_holds) (use Suc Suc.prems in simp_all)
    then have "sha1_holds (sha1_pad n (lutil_SHA1Update ctx [0])) ((m @ [0]) @ replicate k' 0)"
      by (rule Suc.IH) (use Suc Suc.prems in simp_all)
    ultimately show ?thesis using Suc count_at_56 [OF c] by simp
  qed
qed simp

lemma sha1_final_result:
  assumes "sha1_holds ctx m" "length m < 2 ^ 29 - 128" shows "lutil_SHA1Final ctx = sha1 m"
proof -
  define k where "k = (119 - length m mod 64) mod 64"
  let ?tail = "be_bytes 4 (sha1_count1 ctx) @ be_bytes 4 (sha1_count0 ctx)"
  have k: "k < 64" "(length m + 1 + k) mod 64 = 56"
  proof -
    show "k < 64" by (simp add: k_def)
    show "(length m + 1 + k) mod 64 = 56" unfolding k_def by (rule pad_count(4))
  qed
  have tail: "?tail = be_octets (8 * length m)"
  proof -
    have c: "unat (sha1_count0 ctx) = 8 * length m" "sha1_count1 ctx = 0" using assms(1) by (simp_all add: sha1_holds_def)
    then have "(of_nat (8 * length m) :: u32) = sha1_count0 ctx" by (metis of_nat_unat_id)
    moreover have "(8 * length m) div 2 ^ 32 = 0" using assms(2) by simp
    ultimately show ?thesis by (simp only: be_octets_def c(2)) simp
  qed
  have "sha1_holds (lutil_SHA1Update ctx [0x80]) (m @ [0x80])" by (rule sha1_update_holds [OF assms(1)]) (use assms(2) in simp)
  then have "sha1_holds (sha1_pad 64 (lutil_SHA1Update ctx [0x80])) ((m @ [0x80]) @ replicate k 0)"
    by (rule sha1_pad_holds) (use k assms(2) in simp_all)
  then have "sha1_holds (lutil_SHA1Update (sha1_pad 64 (lutil_SHA1Update ctx [0x80])) ?tail) (((m @ [0x80]) @ replicate k 0) @ ?tail)"
    by (rule sha1_update_holds) (use k assms(2) in simp)
  moreover have "((m @ [0x80]) @ replicate k 0) @ ?tail = m @ padding (length m) @ be_octets (8 * length m)"
    unfolding tail padding_def k_def by simp
  ultimately show ?thesis unfolding lutil_SHA1Final_def Let_def sha1_def sha1_holds_def by simp
qed

lemma length_sha1 [simp]: "length (sha1 m) = 20"
proof -
  have "length (foldl fips_sha1_block sha1_IV bs) = 5" for bs by (rule length_fips_blocks) (simp add: sha1_IV_def)
  moreover have "length (concat (map (be_bytes 4) ws)) = 4 * length ws" for ws by (induction ws) simp_all
  ultimately show ?thesis unfolding sha1_def by simp
qed

interpretation sha1_digest: digest "lutil_SHA1Init (stack_buffer g)" lutil_SHA1Update lutil_SHA1Final sha1_holds sha1 "2 ^ 29 - 128" 20
proof
  show "sha1_holds (lutil_SHA1Init (stack_buffer g)) []" by (simp add: sha1_holds_def lutil_SHA1Init_def sha1_IV_def blocks_short)
next
  fix c m d assume "sha1_holds c m" "length (m @ d) < 2 ^ 29 - 128"
  then show "sha1_holds (lutil_SHA1Update c d) (m @ d)" by (intro sha1_update_holds) simp_all
qed (use sha1_final_result in simp_all)

section \<open>Properties\<close>

text \<open>
  C26: the digest of a message of fewer than 2^61 octets that is fed to MD5 in any portions, empty ones included, is
  the MD5 digest RFC 1321 defines for the whole of it.
\<close>

theorem md5_digests_portions:
  assumes "list_all (\<lambda>d. length d < 2 ^ 32) ds" "length (concat ds) < 2 ^ 61"
  shows "lutil_MD5Final (foldl lutil_MD5Update (lutil_MD5Init (stack_buffer g)) ds) = md5 (concat ds)"
  using assms by (rule md5_digest.digests_portions)

theorem md5_digests_portions_witness:
  "lutil_MD5Final (lutil_MD5Update (lutil_MD5Update (lutil_MD5Init (stack_buffer (\<lambda>_. 9))) (replicate 70 1)) [2, 3]) = md5 (replicate 70 1 @ [2, 3])"
  using md5_digests_portions [of "[replicate 70 1, [2, 3]]" "\<lambda>_. 9"] by simp

text \<open>
  C27: the digest of a message of fewer than 2^29 - 128 octets that is fed to SHA-1 in any portions, empty ones
  included, is the digest FIPS 180-1 defines for the whole of it.
\<close>

theorem sha1_digests_portions:
  assumes "length (concat ds) < 2 ^ 29 - 128"
  shows "lutil_SHA1Final (foldl lutil_SHA1Update (lutil_SHA1Init (stack_buffer g)) ds) = sha1 (concat ds)"
proof (rule sha1_digest.digests_portions [OF _ assms])
  have "length d \<le> length (concat ds)" if "d \<in> set ds" for d
    using that member_le_sum_list [of "length d" "map length ds"] by (simp add: length_concat)
  then show "list_all (\<lambda>d. length d < 2 ^ 32) ds" using assms by (force simp: list_all_iff)
qed

theorem sha1_digests_portions_witness:
  "lutil_SHA1Final (lutil_SHA1Update (lutil_SHA1Update (lutil_SHA1Init (stack_buffer (\<lambda>_. 9))) (replicate 70 1)) [2, 3]) = sha1 (replicate 70 1 @ [2, 3])"
  using sha1_digests_portions [of "[replicate 70 1, [2, 3]]" "\<lambda>_. 9"] by simp

end
