(* ===== verification/Passwd_Facts.thy ===== *)
theory Passwd_Facts imports Passwd Base64_Facts Digest_Facts begin

text \<open>
  A password that was hashed is recognised, and what a check does with a stored value that is too short.  The
  lemmas on salted and plain schemes are proved once, in the locale \<open>digest\<close>, for both digests.
\<close>

section \<open>Decoding a stored password\<close>

lemma pton_step_to:
  assumes "pton_step v (s, i, t) = Some st" "s < 4"
  shows "\<exists>t'. st = ((s + 1) mod 4, if s = 0 then i else Suc i, t')"
proof -
  consider "s = 0" | "s = 1" | "s = 2" | "s = 3" using assms(2) by linarith
  then show ?thesis using assms(1) by cases (cases t; auto split: if_splits)+
qed

lemma pton_reach_bound:
  "s < 4 \<Longrightarrow> s \<le> Suc i \<Longrightarrow> pton_reach src (s, i, t) + (s - 1) + (s + length src) div 4 \<le> i + (s + length src)"
proof (induction src arbitrary: s i t)
  case Nil
  then show ?case by (cases "s = 0") simp_all
next
  case (Cons ch src)
  have groups: "(s + length (ch # src)) div 4 \<le> s + length src" "(s + length (ch # src)) div 4 \<le> Suc ((s + length src) div 4)" by simp_all
  show ?case
  proof (cases "isspace_ascii ch")
    case True
    then show ?thesis using Cons.IH [OF Cons.prems, of t] groups(2) by simp
  next
    case False
    show ?thesis
    proof (cases "ch = Pad64 \<or> strchr_index Base64 ch = None \<or> pton_step (of_nat (the (strchr_index Base64 ch))) (s, i, t) = None")
      case True
      then have "pton_reach (ch # src) (s, i, t) = 0" using False by (auto split: option.splits)
      then show ?thesis using groups(1) Cons.prems by simp
    next
      case valid: False
      then obtain p st where p: "strchr_index Base64 ch = Some p" "pton_step (of_nat p) (s, i, t) = Some st" by auto
      obtain t' where st: "st = ((s + 1) mod 4, if s = 0 then i else Suc i, t')" using pton_step_to [OF p(2) Cons.prems(1)] by blast
      have r: "pton_reach (ch # src) (s, i, t) = max (i + (if s = 1 \<or> s = 2 then 2 else 1)) (pton_reach src st)"
        using False valid p by simp
      consider "s = 0" | "s = 1" | "s = 2" | "s = 3" using Cons.prems(1) by linarith
      then show ?thesis
      proof cases
        case 1
        then show ?thesis unfolding r using Cons.IH [of 1 i t'] st groups(1) by simp
      next
        case 2
        then show ?thesis unfolding r using Cons.IH [of 2 "Suc i" t'] st Cons.prems groups(1) by (simp add: numeral_2_eq_2 [symmetric])
      next
        case 3
        then show ?thesis unfolding r using Cons.IH [of 3 "Suc i" t'] st Cons.prems groups(1) by simp
      next
        case 4
        then show ?thesis unfolding r using Cons.IH [of 0 "Suc i" t'] st groups(1) by simp
      qed
    qed
  qed
qed

lemma pton_reach_groups: "4 dvd length src \<Longrightarrow> pton_reach src (0, 0, t) \<le> LUTIL_BASE64_DECODE_LEN (length src)"
  using pton_reach_bound [of 0 0 src t] by (auto simp: LUTIL_BASE64_DECODE_LEN_def)

lemma alphabet_no_null: "list_all (\<lambda>c. c \<noteq> 0) Base64 \<and> Pad64 \<noteq> 0"
  by (simp add: Base64_def Pad64_def)

lemma b64_no_null: "c \<in> set (b64 d) \<Longrightarrow> c \<noteq> 0"
proof -
  have "digit64 v \<noteq> 0" if "v < 64" for v
  proof -
    have "unat v < length Base64" using that by (simp add: alphabet_length word_less_nat_alt)
    then show ?thesis using alphabet_no_null unfolding digit64_def list_all_length by blast
  qed
  then show "c \<in> set (b64 d) \<Longrightarrow> c \<noteq> 0"
    using alphabet_no_null by (induction d rule: b64.induct) (auto simp: outputs_small)
qed

lemma orig_pass_encoded:
  assumes "\<And>n. mem n"
  obtains t where "orig_pass mem junk (b64 d) = Some (Some (length d, t))" "take (length d) t = d"
proof -
  let ?t = "map junk [0..<length (b64 d)]"
  have l: "length (b64 d) = 4 * ((length d + 2) div 3)" by (rule b64_length)
  have "room d \<le> length ?t" unfolding length_map length_upt l room_def by presburger
  then obtain t where t: "lutil_b64_pton (b64 d) (Some ?t) = Some (length d, Some t)" "take (length d) t = d"
    by (rule decodes [OF unspaced_b64])
  have "takeWhile (\<lambda>c. c \<noteq> 0) (b64 d) = b64 d" using b64_no_null unfolding takeWhile_eq_all_conv by blast
  moreover have "pton_reach (b64 d) (0, 0, Some ?t) \<le> LUTIL_BASE64_DECODE_LEN (length (b64 d))"
    by (rule pton_reach_groups) (simp only: l dvd_triv_left)
  ultimately have "orig_pass mem junk (b64 d) = Some (Some (length d, t))"
    using assms t(1) by (simp add: orig_pass_def Let_def del: takeWhile_eq_all_conv)
  then show thesis using that t(2) by blast
qed

text \<open>Letters alone, two or three more than groups of four, make the decoder store behind the groups.\<close>

abbreviation letter64 :: "u8 \<Rightarrow> bool" where "letter64 c \<equiv> strchr_index Base64 c \<noteq> None"

lemma pton_reach_letter:
  assumes "letter64 c" "s < 4" "i + (if s = 1 \<or> s = 2 then 1 else 0) < length t"
  obtains t' where "length t' = length t"
    "pton_reach (c # src) (s, i, Some t)
      = max (i + (if s = 1 \<or> s = 2 then 2 else 1)) (pton_reach src ((s + 1) mod 4, if s = 0 then i else Suc i, Some t'))"
proof -
  obtain p where p: "strchr_index Base64 c = Some p" using assms(1) by blast
  then have "c = digit64 (of_nat p)" "(of_nat p :: u8) < 64" using digit_of_index by simp_all
  then have c: "\<not> isspace_ascii c" "c \<noteq> Pad64" using digit64 by simp_all
  consider "s = 0" | "s = 1" | "s = 2" | "s = 3" using assms(2) by linarith
  then have "\<exists>t'. length t' = length t
      \<and> pton_step (of_nat p) (s, i, Some t) = Some ((s + 1) mod 4, if s = 0 then i else Suc i, Some t')"
    using assms(3) by cases simp_all
  then show thesis using that p c by auto
qed

lemma pton_reach_odd_group:
  "list_all letter64 src \<Longrightarrow> i + length src \<le> length t \<Longrightarrow> 2 \<le> length src mod 4
    \<Longrightarrow> i + 3 * (length src div 4) + 2 \<le> pton_reach src (0, i, Some t)"
proof (induction src arbitrary: i t rule: quads_induct)
  case (Two a b)
  obtain t1 where t1: "length t1 = length t" "pton_reach [a, b] (0, i, Some t) = max (i + 1) (pton_reach [b] (1, i, Some t1))"
    using pton_reach_letter [of a 0 i t "[b]"] Two by auto
  obtain t2 where "pton_reach [b] (1, i, Some t1) = max (i + 2) (pton_reach [] (2, Suc i, Some t2))"
    using pton_reach_letter [of b 1 i t1 "[]"] Two t1(1) by (auto simp: numeral_2_eq_2)
  then show ?case using t1(2) by simp
next
  case (Three a b c)
  obtain t1 where t1: "length t1 = length t" "pton_reach [a, b, c] (0, i, Some t) = max (i + 1) (pton_reach [b, c] (1, i, Some t1))"
    using pton_reach_letter [of a 0 i t "[b, c]"] Three by auto
  obtain t2 where "pton_reach [b, c] (1, i, Some t1) = max (i + 2) (pton_reach [c] (2, Suc i, Some t2))"
    using pton_reach_letter [of b 1 i t1 "[c]"] Three t1(1) by (auto simp: numeral_2_eq_2)
  then show ?case using t1(2) by simp
next
  case (Four a b c d src)
  have l: "letter64 a" "letter64 b" "letter64 c" "letter64 d" "i + 4 \<le> length t" using Four.prems by simp_all
  obtain t1 where t1: "length t1 = length t" "pton_reach (b # c # d # src) (1, i, Some t1) \<le> pton_reach (a # b # c # d # src) (0, i, Some t)"
    by (rule pton_reach_letter [OF l(1), of 0 i t "b # c # d # src"]) (use l(5) in simp_all)
  obtain t2 where t2: "length t2 = length t" "pton_reach (c # d # src) (2, Suc i, Some t2) \<le> pton_reach (b # c # d # src) (1, i, Some t1)"
    by (rule pton_reach_letter [OF l(2), of 1 i t1 "c # d # src"]) (use l(5) t1(1) in \<open>simp_all add: numeral_2_eq_2\<close>)
  obtain t3 where t3: "length t3 = length t" "pton_reach (d # src) (3, Suc (Suc i), Some t3) \<le> pton_reach (c # d # src) (2, Suc i, Some t2)"
    by (rule pton_reach_letter [OF l(3), of 2 "Suc i" t2 "d # src"]) (use l(5) t2(1) in simp_all)
  obtain t4 where t4: "length t4 = length t" "pton_reach src (0, Suc (Suc (Suc i)), Some t4) \<le> pton_reach (d # src) (3, Suc (Suc i), Some t3)"
    by (rule pton_reach_letter [OF l(4), of 3 "Suc (Suc i)" t3 src]) (use l(5) t3(1) in simp_all)
  have "Suc (Suc (Suc i)) + 3 * (length src div 4) + 2 \<le> pton_reach src (0, Suc (Suc (Suc i)), Some t4)"
  proof (rule Four.IH)
    show "list_all letter64 src" "Suc (Suc (Suc i)) + length src \<le> length t4" using t4(1) Four.prems(1,2) by simp_all
    show "2 \<le> length src mod 4" using Four.prems(3) by simp
  qed
  also note t4(2) also note t3(2) also note t2(2) also note t1(2)
  finally have "Suc (Suc (Suc i)) + 3 * (length src div 4) + 2 \<le> pton_reach (a # b # c # d # src) (0, i, Some t)" .
  moreover have "length (a # b # c # d # src) div 4 = Suc (length src div 4)" by (simp add: div_add_self1 [of 4 "length src"])
  ultimately show ?case by (simp only: mult_Suc_right)
qed simp_all

lemma orig_pass_overruns:
  assumes "\<And>n. mem n" "list_all letter64 p" "2 \<le> length p mod 4"
  shows "orig_pass mem junk p = None"
proof -
  have "c \<noteq> 0" if "c \<in> set p" for c
  proof -
    have "letter64 c" using that assms(2) by (simp add: list_all_iff)
    then obtain i where "strchr_index Base64 c = Some i" by blast
    then have "i < length Base64" "Base64 ! i = c" using strchr_index_nth by blast+
    then show ?thesis using alphabet_no_null unfolding list_all_length by blast
  qed
  then have "takeWhile (\<lambda>c. c \<noteq> 0) p = p" unfolding takeWhile_eq_all_conv by blast
  moreover have "0 + 3 * (length p div 4) + 2 \<le> pton_reach p (0, 0, Some (map junk [0..<length p]))"
    by (rule pton_reach_odd_group [OF assms(2) _ assms(3)]) simp
  then have "LUTIL_BASE64_DECODE_LEN (length p) + 1 < pton_reach p (0, 0, Some (map junk [0..<length p]))"
    unfolding LUTIL_BASE64_DECODE_LEN_def by linarith
  moreover have "mem (LUTIL_BASE64_DECODE_LEN (length p) + 1)" by (rule assms(1))
  ultimately show ?thesis by (simp only: orig_pass_def Let_def if_True if_False simp_thms)
qed

section \<open>Salted and plain schemes\<close>

lemma room_to_encode: "length (b64 d) < LUTIL_BASE64_ENCODE_LEN (length d) + 1"
  unfolding b64_length LUTIL_BASE64_ENCODE_LEN_def by presburger

lemma pw_string64_encodes:
  assumes "pw_string64 mem sc hash salt = Some h"
  shows "h = take (sc_len sc) (sc_val sc) @ b64 (hash @ (case salt of None \<Rightarrow> [] | Some s \<Rightarrow> s))"
proof -
  let ?d = "hash @ (case salt of None \<Rightarrow> [] | Some s \<Rightarrow> s)"
  have "lutil_b64_ntop ?d (LUTIL_BASE64_ENCODE_LEN (length ?d) + 1) = Some (b64 ?d)"
    unfolding ntop_spec using room_to_encode [of ?d] by (rule if_P)
  then show ?thesis using assms by (cases salt) (auto simp: pw_string64_def Let_def split: if_splits)
qed

context digest begin

lemma hashed_salted:
  assumes "hash_salted init update final mem entropy sc pw = Some h" "\<And>n e. entropy n = Some e \<Longrightarrow> length e = n"
    "length pw < 2 ^ 32" "length pw + 4 < limit"
  obtains salt where "h = take (sc_len sc) (sc_val sc) @ b64 (result (pw @ salt) @ salt)" "length salt = 4"
proof -
  obtain salt where s: "entropy 4 = Some salt" "pw_string64 mem sc (final (update (update init pw) salt)) (Some salt) = Some h"
    using assms(1) by (auto simp: hash_salted_def split: option.splits)
  have "length salt = 4" using assms(2) s(1) .
  then show thesis using that pw_string64_encodes [OF s(2)] digests_two(2) [of pw salt] assms(3,4) by simp
qed

lemma hashed_plain:
  assumes "hash_plain init update final mem sc pw = Some h" "length pw < 2 ^ 32" "length pw < limit"
  shows "h = take (sc_len sc) (sc_val sc) @ b64 (result pw)"
  using pw_string64_encodes [OF assms(1) [unfolded hash_plain_def]] digests_portions [of "[pw]"] assms(2,3) by simp

lemma checked_salted:
  assumes "\<And>n. mem n" "length salt = 4" "length cred < 2 ^ 32" "length cred + 4 < limit"
  shows "chk_salted init update final size mem junk (b64 (result m @ salt)) cred
    = Some (if result (cred @ salt) = result m then 0 else 1)"
proof -
  let ?d = "result m @ salt"
  obtain t where t: "orig_pass mem junk (b64 ?d) = Some (Some (length ?d, t))" "take (length ?d) t = ?d"
    using orig_pass_encoded [OF assms(1)] .
  have "take size (take (length ?d) t) = result m" "drop size (take (length ?d) t) = salt" unfolding t(2) by (simp_all add: result_length)
  then have d: "take size t = result m" "take 4 (drop size t) = salt" using assms(2) by (simp_all add: result_length drop_take min_def)
  have "orig_pass mem junk (b64 ?d) = Some (Some (size + 4, t))" using t(1) assms(2) by (simp add: result_length)
  then show ?thesis using d digests_two(2) [of cred salt] assms by (auto simp: chk_salted_def)
qed

lemma checked_plain:
  assumes "\<And>n. mem n" "length cred < 2 ^ 32" "length cred < limit"
  shows "chk_plain init update final size mem junk (b64 (result m)) cred = Some (if result cred = result m then 0 else 1)"
proof -
  obtain t where t: "orig_pass mem junk (b64 (result m)) = Some (Some (length (result m), t))" "take (length (result m)) t = result m"
    using orig_pass_encoded [OF assms(1)] .
  then have "orig_pass mem junk (b64 (result m)) = Some (Some (size, t))" "take size t = result m" by (simp_all only: result_length)
  then show ?thesis using digests_portions [of "[cred]"] assms by (auto simp: chk_plain_def)
qed

end

lemma checks_overrun:
  assumes "orig_pass mem junk p = None"
  shows "chk_salted init update final bytes mem junk p cred = None" "chk_plain init update final bytes mem junk p cred = None"
  using assms by (simp_all add: chk_salted_def chk_plain_def)

lemma check_short_overruns:
  assumes "\<And>n. mem n" "length d < bytes"
  shows "chk_salted init update final bytes mem junk (b64 d) cred = None"
proof -
  obtain t where "orig_pass mem junk (b64 d) = Some (Some (length d, t))" using orig_pass_encoded [OF assms(1)] .
  then show ?thesis using assms(2) by (simp add: chk_salted_def)
qed

section \<open>The schemes\<close>





lemma scheme_names:
  "ascii ''{SSHA}'' = [0x7b, 0x53, 0x53, 0x48, 0x41, 0x7d]" "ascii ''{SHA}'' = [0x7b, 0x53, 0x48, 0x41, 0x7d]"
  "ascii ''{SMD5}'' = [0x7b, 0x53, 0x4d, 0x44, 0x35, 0x7d]" "ascii ''{MD5}'' = [0x7b, 0x4d, 0x44, 0x35, 0x7d]"
  by (simp_all add: ascii_def)

lemma starts_with_case_simps [simp]:
  "starts_with_case s []" "starts_with_case (c # s) (d # t) \<longleftrightarrow> tolower c = tolower d \<and> starts_with_case s t"
  by (simp_all add: starts_with_case_def)

lemma lowered: "tolower 0x7b = 0x7b" "tolower 0x53 = 0x73" "tolower 0x48 = 0x68" "tolower 0x41 = 0x61" "tolower 0x4d = 0x6d"
    "tolower 0x44 = 0x64" "tolower 0x35 = 0x35" "tolower 0x7d = 0x7d"
  by (simp_all add: tolower_def)

lemma check_own_scheme:
  assumes "get_scheme scheme = Some sc" "sc_fn sc = Some fn" "is_allowed_scheme (sc_val sc) schemes" "\<And>n. mem n"
  shows "check_schemes mem junk pw_schemes (take (sc_len sc) (sc_val sc) @ x) cred schemes = chk_fn fn mem junk x cred"
proof -
  have sc: "sc \<in> set pw_schemes" "sc_len sc \<noteq> 0" using assms(1) by (auto simp: get_scheme_def find_Some_iff)
  then consider "sc = pw_schemes ! 0" | "sc = pw_schemes ! 1" | "sc = pw_schemes ! 2" | "sc = pw_schemes ! 3"
    unfolding pw_schemes_def by (fastforce simp: numeral_2_eq_2 numeral_3_eq_3)
  then show ?thesis
    using assms(2-4) by cases (simp_all add: pw_schemes_def passwd_scheme_def scheme_names lowered)
qed

section \<open>Properties\<close>



text \<open>
  C29: two kinds of stored values make a check leave its block: two or three letters of base 64 more than groups of
  four (the decoder stores behind a block that has room for the groups only), and, with a salted scheme, the
  encoding of fewer octets than a digest (the length of the salt wraps around).
\<close>

theorem passwd_check_overruns:
  assumes "\<And>n. mem n" "get_scheme scheme = Some sc" "sc_fn sc = Some fn" "is_allowed_scheme (sc_val sc) schemes" "cred \<noteq> []"
    "list_all (\<lambda>c. strchr_index Base64 c \<noteq> None) p \<and> 2 \<le> length p mod 4
      \<or> p = b64 d \<and> (fn = Fn_ssha1 \<and> length d < 20 \<or> fn = Fn_smd5 \<and> length d < 16)"
  shows "lutil_passwd mem junk (Some (take (sc_len sc) (sc_val sc) @ p)) (Some cred) schemes = None"
proof -
  have "sc \<in> set pw_schemes" "sc_len sc \<noteq> 0" using assms(2) by (auto simp: get_scheme_def find_Some_iff)
  then have "take (sc_len sc) (sc_val sc) \<noteq> []" by (auto simp: pw_schemes_def scheme_names)
  then have "lutil_passwd mem junk (Some (take (sc_len sc) (sc_val sc) @ p)) (Some cred) schemes = chk_fn fn mem junk p cred"
    using assms(5) by (simp add: lutil_passwd_def check_own_scheme [OF assms(2,3,4,1)])
  also have "\<dots> = None" using assms(6)
  proof (elim disjE conjE)
    assume "list_all (\<lambda>c. strchr_index Base64 c \<noteq> None) p" "2 \<le> length p mod 4"
    then have "orig_pass mem junk p = None" by (rule orig_pass_overruns [OF assms(1)])
    then show ?thesis by (cases fn) (simp_all add: chk_ssha1_def chk_sha1_def chk_smd5_def chk_md5_def checks_overrun)
  qed (simp_all add: chk_ssha1_def chk_smd5_def LUTIL_SHA1_BYTES_def LUTIL_MD5_BYTES_def check_short_overruns [OF assms(1)])
  finally show ?thesis .
qed

theorem passwd_check_overruns_witness:
  "lutil_passwd (\<lambda>_. True) (\<lambda>_. 9) (Some (ascii ''{SHA}'' @ [0x41, 0x42, 0x43])) (Some [0x70]) None = None"
proof -
  have g: "get_scheme (ascii ''{SHA}'') = Some (pw_schemes ! 1)" "sc_fn (pw_schemes ! 1) = Some Fn_sha1"
    "take (sc_len (pw_schemes ! 1)) (sc_val (pw_schemes ! 1)) = ascii ''{SHA}''"
    by (simp_all add: get_scheme_def pw_schemes_def scheme_names lowered)
  have "list_all (\<lambda>c. strchr_index Base64 c \<noteq> None) [0x41, 0x42, 0x43]" by (simp add: Base64_octets)
  then show ?thesis
    using passwd_check_overruns [of "\<lambda>_. True", OF _ g(1,2), of None "[0x70]" "[0x41, 0x42, 0x43]"] g(3)
    by (simp add: is_allowed_scheme_def)
qed

end
