(* ===== verification/Schema.thy ===== *)
theory Schema imports C_Strings begin

text \<open>
  Descriptions of syntaxes, matching rules, attribute types and object classes: libraries/libldap/schema.c with
  the structures of include/ldap_schema.h.  A pointer into the string that is parsed is the list of the octets from
  there on; \<open>None\<close> is the pointer behind its null, where \<open>get_token\<close> leaves it at the end.  \<open>mem n\<close> says whether \<open>n\<close> octets
  can be had.
\<close>


section \<open>Structures\<close>

record extension_item =
  lsei_name :: octets
  lsei_values :: "octets list"

record ldap_syntax =
  syn_oid :: "octets option"
  syn_names :: "octets list option"
  syn_desc :: "octets option"
  syn_extensions :: "extension_item list option"

record ldap_matchingrule =
  mr_oid :: "octets option"
  mr_names :: "octets list option"
  mr_desc :: "octets option"
  mr_obsolete :: int
  mr_syntax_oid :: "octets option"
  mr_extensions :: "extension_item list option"

record ldap_attributetype =
  at_oid :: "octets option"
  at_names :: "octets list option"
  at_desc :: "octets option"
  at_obsolete :: int
  at_sup_oid :: "octets option"
  at_equality_oid :: "octets option"
  at_ordering_oid :: "octets option"
  at_substr_oid :: "octets option"
  at_syntax_oid :: "octets option"
  at_syntax_len :: int
  at_single_value :: int
  at_collective :: int
  at_no_user_mod :: int
  at_usage :: int
  at_extensions :: "extension_item list option"

record ldap_objectclass =
  oc_oid :: "octets option"
  oc_names :: "octets list option"
  oc_desc :: "octets option"
  oc_obsolete :: int
  oc_sup_oids :: "octets list option"
  oc_kind :: int
  oc_at_oids_must :: "octets list option"
  oc_at_oids_may :: "octets list option"
  oc_extensions :: "extension_item list option"

definition LDAP_SCHEMA_YES :: int where "LDAP_SCHEMA_YES = 1"
definition LDAP_SCHEMA_USER_APPLICATIONS :: int where "LDAP_SCHEMA_USER_APPLICATIONS = 0"
definition LDAP_SCHEMA_DIRECTORY_OPERATION :: int where "LDAP_SCHEMA_DIRECTORY_OPERATION = 1"
definition LDAP_SCHEMA_DISTRIBUTED_OPERATION :: int where "LDAP_SCHEMA_DISTRIBUTED_OPERATION = 2"
definition LDAP_SCHEMA_DSA_OPERATION :: int where "LDAP_SCHEMA_DSA_OPERATION = 3"
definition LDAP_SCHEMA_ABSTRACT :: int where "LDAP_SCHEMA_ABSTRACT = 0"
definition LDAP_SCHEMA_STRUCTURAL :: int where "LDAP_SCHEMA_STRUCTURAL = 1"
definition LDAP_SCHEMA_AUXILIARY :: int where "LDAP_SCHEMA_AUXILIARY = 2"

definition LDAP_SCHEMA_ALLOW_NO_OID :: u32 where "LDAP_SCHEMA_ALLOW_NO_OID = 0x01"
definition LDAP_SCHEMA_ALLOW_QUOTED :: u32 where "LDAP_SCHEMA_ALLOW_QUOTED = 0x02"
definition LDAP_SCHEMA_ALLOW_OID_MACRO :: u32 where "LDAP_SCHEMA_ALLOW_OID_MACRO = 0x10"
definition LDAP_SCHEMA_ALLOW_ALL :: u32 where "LDAP_SCHEMA_ALLOW_ALL = 0x1f"

definition LDAP_SCHERR_OUTOFMEM :: nat where "LDAP_SCHERR_OUTOFMEM = 1"
definition LDAP_SCHERR_UNEXPTOKEN :: nat where "LDAP_SCHERR_UNEXPTOKEN = 2"
definition LDAP_SCHERR_NOLEFTPAREN :: nat where "LDAP_SCHERR_NOLEFTPAREN = 3"
definition LDAP_SCHERR_NORIGHTPAREN :: nat where "LDAP_SCHERR_NORIGHTPAREN = 4"
definition LDAP_SCHERR_NODIGIT :: nat where "LDAP_SCHERR_NODIGIT = 5"
definition LDAP_SCHERR_BADNAME :: nat where "LDAP_SCHERR_BADNAME = 6"
definition LDAP_SCHERR_DUPOPT :: nat where "LDAP_SCHERR_DUPOPT = 9"
definition LDAP_SCHERR_EMPTY :: nat where "LDAP_SCHERR_EMPTY = 10"

definition err2text :: "octets list" where
  "err2text = map ascii [''Success'', ''Out of memory'', ''Unexpected token'', ''Missing opening parenthesis'',
    ''Missing closing parenthesis'', ''Expecting digit'', ''Expecting a name'', ''Bad description'', ''Bad superiors'',
    ''Duplicate option'', ''Unexpected end of data'']"

definition ldap_scherr2str :: "int \<Rightarrow> octets" where
  "ldap_scherr2str code = (if code < 0 \<or> int (length err2text) \<le> code then ascii ''Unknown error'' else err2text ! nat code)"

definition choose_name :: "octets list option \<Rightarrow> octets option \<Rightarrow> octets option" where
  "choose_name names fallback = (case names of Some (n # ns) \<Rightarrow> Some n | _ \<Rightarrow> fallback)"

definition ldap_syntax2name :: "ldap_syntax \<Rightarrow> octets option" where
  "ldap_syntax2name syn = syn_oid syn"
definition ldap_matchingrule2name :: "ldap_matchingrule \<Rightarrow> octets option" where
  "ldap_matchingrule2name mr = choose_name (mr_names mr) (mr_oid mr)"
definition ldap_attributetype2name :: "ldap_attributetype \<Rightarrow> octets option" where
  "ldap_attributetype2name at = choose_name (at_names at) (at_oid at)"
definition ldap_objectclass2name :: "ldap_objectclass \<Rightarrow> octets option" where
  "ldap_objectclass2name oc = choose_name (oc_names oc) (oc_oid oc)"

section \<open>Printing\<close>

text \<open>
  The text so far is \<open>ss_val\<close>, its length the member \<open>pos\<close>.  A failed growth releases the block but leaves the pointer
  to it (\<open>None\<close>), so that the next call works on released memory: the outer \<open>None\<close>.  The results of the \<open>print_\<close>
  functions are looked at by no caller and left out.
\<close>

record safe_string =
  ss_val :: "octets option"
  ss_size :: nat
  ss_at_whsp :: bool

type_synonym printer = "safe_string \<Rightarrow> safe_string option"

definition SAFE_STRING_BYTES :: nat where "SAFE_STRING_BYTES = 16"
definition POINTER_BYTES :: nat where "POINTER_BYTES = 4"

definition new_safe_string :: "(nat \<Rightarrow> bool) \<Rightarrow> nat \<Rightarrow> safe_string option" where
  "new_safe_string mem room =
    (if mem SAFE_STRING_BYTES \<and> mem room then Some \<lparr>ss_val = Some [], ss_size = room, ss_at_whsp = False\<rparr> else None)"

definition safe_string_val :: "safe_string \<Rightarrow> octets option" where
  "safe_string_val ss = (case ss_val ss of None \<Rightarrow> None | Some v \<Rightarrow> if length v < ss_size ss then Some v else None)"

definition append_to_safe_string :: "(nat \<Rightarrow> bool) \<Rightarrow> octets \<Rightarrow> printer" where
  "append_to_safe_string mem s ss =
    (case ss_val ss of None \<Rightarrow> None
     | Some v \<Rightarrow>
        (let pos = length v; l = length s; grow = (ss_size ss - 1 \<le> pos + l);
             room = (if grow then (if 2 * ss_size ss - 1 \<le> pos + l then pos + l + 1 else 2 * ss_size ss) else ss_size ss)
         in if grow \<and> \<not> mem room then Some (ss\<lparr>ss_val := None, ss_size := room\<rparr>)
            else if room < pos + l then None
            else Some \<lparr>ss_val = Some (v @ s), ss_size = room, ss_at_whsp = (v @ s \<noteq> [] \<and> LDAP_SPACE (last (v @ s)))\<rparr>))"

text \<open>Statements one after the other.\<close>

fun prints :: "printer list \<Rightarrow> printer" where
  "prints [] ss = Some ss"
| "prints (p # ps) ss = (case p ss of None \<Rightarrow> None | Some ss' \<Rightarrow> prints ps ss')"

abbreviation print_literal :: "(nat \<Rightarrow> bool) \<Rightarrow> string \<Rightarrow> printer" where
  "print_literal mem s \<equiv> append_to_safe_string mem (ascii s)"

definition print_whsp :: "(nat \<Rightarrow> bool) \<Rightarrow> printer" where
  "print_whsp mem ss = (if ss_at_whsp ss then append_to_safe_string mem [] ss else append_to_safe_string mem [0x20] ss)"

definition print_numericoid :: "(nat \<Rightarrow> bool) \<Rightarrow> octets option \<Rightarrow> printer" where
  "print_numericoid mem s = append_to_safe_string mem (case s of None \<Rightarrow> [] | Some s \<Rightarrow> s)"

definition print_qdstring :: "(nat \<Rightarrow> bool) \<Rightarrow> octets \<Rightarrow> printer" where
  "print_qdstring mem s =
    prints [print_whsp mem, append_to_safe_string mem [0x27], append_to_safe_string mem s, append_to_safe_string mem [0x27], print_whsp mem]"

definition print_qdescr :: "(nat \<Rightarrow> bool) \<Rightarrow> octets \<Rightarrow> printer" where
  "print_qdescr mem s =
    prints [print_whsp mem, append_to_safe_string mem [0x27], append_to_safe_string mem s, append_to_safe_string mem [0x27], print_whsp mem]"

definition print_qdescrlist :: "(nat \<Rightarrow> bool) \<Rightarrow> octets list \<Rightarrow> printer" where
  "print_qdescrlist mem sa = prints (map (print_qdescr mem) sa)"

definition print_qdescrs :: "(nat \<Rightarrow> bool) \<Rightarrow> octets list \<Rightarrow> printer" where
  "print_qdescrs mem sa =
    (if length sa \<noteq> 1 then prints [print_whsp mem, print_literal mem ''('', print_qdescrlist mem sa, print_literal mem '')'', print_whsp mem]
     else print_qdescr mem (hd sa))"

definition print_woid :: "(nat \<Rightarrow> bool) \<Rightarrow> octets \<Rightarrow> printer" where
  "print_woid mem s = prints [print_whsp mem, append_to_safe_string mem s, print_whsp mem]"

fun print_oidlist :: "(nat \<Rightarrow> bool) \<Rightarrow> octets list \<Rightarrow> printer" where
  "print_oidlist mem [] = (\<lambda>ss. None)"
| "print_oidlist mem [s] = print_woid mem s"
| "print_oidlist mem (s # sa) = prints [print_woid mem s, print_literal mem ''$'', print_oidlist mem sa]"

text \<open>An empty array hands the null pointer to \<open>strlen\<close>.\<close>

definition print_oids :: "(nat \<Rightarrow> bool) \<Rightarrow> octets list \<Rightarrow> printer" where
  "print_oids mem sa =
    (case sa of [] \<Rightarrow> (\<lambda>ss. None) | [s] \<Rightarrow> print_woid mem s
     | _ \<Rightarrow> prints [print_literal mem ''('', print_oidlist mem sa, print_whsp mem, print_literal mem '')''])"

definition print_noidlen :: "(nat \<Rightarrow> bool) \<Rightarrow> octets option \<Rightarrow> int \<Rightarrow> printer" where
  "print_noidlen mem s l =
    prints (print_numericoid mem s # (if l \<noteq> 0 then [append_to_safe_string mem (0x7b # int_digits l @ [0x7d])] else []))"

definition print_extension :: "(nat \<Rightarrow> bool) \<Rightarrow> extension_item \<Rightarrow> printer" where
  "print_extension mem ext =
    prints [append_to_safe_string mem (lsei_name ext), print_whsp mem, print_qdescrs mem (lsei_values ext), print_whsp mem]"

definition print_extensions :: "(nat \<Rightarrow> bool) \<Rightarrow> extension_item list option \<Rightarrow> printer" where
  "print_extensions mem extensions =
    (case extensions of None \<Rightarrow> Some | Some es \<Rightarrow> prints (print_whsp mem # map (print_extension mem) es))"

text \<open>\<open>if (x) { print_literal (ss, label); ... }\<close>\<close>

definition if_given :: "'a option \<Rightarrow> ('a \<Rightarrow> printer list) \<Rightarrow> printer" where
  "if_given x ps = (case x of None \<Rightarrow> Some | Some v \<Rightarrow> prints (ps v))"

definition if_yes :: "bool \<Rightarrow> printer list \<Rightarrow> printer" where
  "if_yes b ps = (if b then prints ps else Some)"

text \<open>The frame of the four functions: the inner \<open>None\<close> is the null pointer they return.\<close>

definition printed :: "(nat \<Rightarrow> bool) \<Rightarrow> printer list \<Rightarrow> octets option option" where
  "printed mem ps =
    (case new_safe_string mem 256 of None \<Rightarrow> Some None
     | Some ss \<Rightarrow> (case prints ps ss of None \<Rightarrow> None
        | Some ss' \<Rightarrow> (case safe_string_val ss' of None \<Rightarrow> None
          | Some v \<Rightarrow> Some (if mem (length v + 1) then Some v else None))))"

definition ldap_syntax2str :: "(nat \<Rightarrow> bool) \<Rightarrow> ldap_syntax \<Rightarrow> octets option option" where
  "ldap_syntax2str mem syn = printed mem
    [print_literal mem ''('', print_whsp mem, print_numericoid mem (syn_oid syn), print_whsp mem,
     if_given (syn_desc syn) (\<lambda>d. [print_literal mem ''DESC'', print_qdstring mem d]),
     print_whsp mem, print_extensions mem (syn_extensions syn), print_literal mem '')'']"

definition ldap_matchingrule2str :: "(nat \<Rightarrow> bool) \<Rightarrow> ldap_matchingrule \<Rightarrow> octets option option" where
  "ldap_matchingrule2str mem mr = printed mem
    [print_literal mem ''('', print_whsp mem, print_numericoid mem (mr_oid mr), print_whsp mem,
     if_given (mr_names mr) (\<lambda>ns. [print_literal mem ''NAME'', print_qdescrs mem ns]),
     if_given (mr_desc mr) (\<lambda>d. [print_literal mem ''DESC'', print_qdstring mem d]),
     if_yes (mr_obsolete mr = LDAP_SCHEMA_YES) [print_literal mem ''OBSOLETE'', print_whsp mem],
     if_given (mr_syntax_oid mr) (\<lambda>s. [print_literal mem ''SYNTAX'', print_whsp mem, append_to_safe_string mem s, print_whsp mem]),
     print_whsp mem, print_extensions mem (mr_extensions mr), print_literal mem '')'']"

definition kind_name :: "int \<Rightarrow> string" where
  "kind_name k =
    (if k = LDAP_SCHEMA_ABSTRACT then ''ABSTRACT'' else if k = LDAP_SCHEMA_STRUCTURAL then ''STRUCTURAL''
     else if k = LDAP_SCHEMA_AUXILIARY then ''AUXILIARY'' else ''KIND-UNKNOWN'')"

definition print_oids_of :: "(nat \<Rightarrow> bool) \<Rightarrow> string \<Rightarrow> octets list option \<Rightarrow> printer" where
  "print_oids_of mem label oids =
    if_given oids (\<lambda>os. [print_literal mem label, print_whsp mem, print_oids mem os, print_whsp mem])"

definition ldap_objectclass2str :: "(nat \<Rightarrow> bool) \<Rightarrow> ldap_objectclass \<Rightarrow> octets option option" where
  "ldap_objectclass2str mem oc = printed mem
    [print_literal mem ''('', print_whsp mem, print_numericoid mem (oc_oid oc), print_whsp mem,
     if_given (oc_names oc) (\<lambda>ns. [print_literal mem ''NAME'', print_qdescrs mem ns]),
     if_given (oc_desc oc) (\<lambda>d. [print_literal mem ''DESC'', print_qdstring mem d]),
     if_yes (oc_obsolete oc = LDAP_SCHEMA_YES) [print_literal mem ''OBSOLETE'', print_whsp mem],
     print_oids_of mem ''SUP'' (oc_sup_oids oc),
     prints [print_literal mem (kind_name (oc_kind oc)), print_whsp mem],
     print_oids_of mem ''MUST'' (oc_at_oids_must oc), print_oids_of mem ''MAY'' (oc_at_oids_may oc),
     print_whsp mem, print_extensions mem (oc_extensions oc), print_literal mem '')'']"

definition usage_name :: "int \<Rightarrow> string" where
  "usage_name u =
    (if u = LDAP_SCHEMA_DIRECTORY_OPERATION then ''directoryOperation'' else if u = LDAP_SCHEMA_DISTRIBUTED_OPERATION then ''distributedOperation''
     else if u = LDAP_SCHEMA_DSA_OPERATION then ''dSAOperation'' else ''UNKNOWN'')"

definition print_woid_of :: "(nat \<Rightarrow> bool) \<Rightarrow> string \<Rightarrow> octets option \<Rightarrow> printer" where
  "print_woid_of mem label oid = if_given oid (\<lambda>s. [print_literal mem label, print_woid mem s])"

definition ldap_attributetype2str :: "(nat \<Rightarrow> bool) \<Rightarrow> ldap_attributetype \<Rightarrow> octets option option" where
  "ldap_attributetype2str mem at = printed mem
    [print_literal mem ''('', print_whsp mem, print_numericoid mem (at_oid at), print_whsp mem,
     if_given (at_names at) (\<lambda>ns. [print_literal mem ''NAME'', print_qdescrs mem ns]),
     if_given (at_desc at) (\<lambda>d. [print_literal mem ''DESC'', print_qdstring mem d]),
     if_yes (at_obsolete at = LDAP_SCHEMA_YES) [print_literal mem ''OBSOLETE'', print_whsp mem],
     print_woid_of mem ''SUP'' (at_sup_oid at), print_woid_of mem ''EQUALITY'' (at_equality_oid at),
     print_woid_of mem ''ORDERING'' (at_ordering_oid at), print_woid_of mem ''SUBSTR'' (at_substr_oid at),
     if_given (at_syntax_oid at) (\<lambda>s. [print_literal mem ''SYNTAX'', print_whsp mem, print_noidlen mem (Some s) (at_syntax_len at), print_whsp mem]),
     if_yes (at_single_value at = LDAP_SCHEMA_YES) [print_literal mem ''SINGLE-VALUE'', print_whsp mem],
     if_yes (at_collective at = LDAP_SCHEMA_YES) [print_literal mem ''COLLECTIVE'', print_whsp mem],
     if_yes (at_no_user_mod at = LDAP_SCHEMA_YES) [print_literal mem ''NO-USER-MODIFICATION'', print_whsp mem],
     prints [if_yes (at_usage at \<noteq> LDAP_SCHEMA_USER_APPLICATIONS)
         [print_literal mem ''USAGE'', print_whsp mem, print_literal mem (usage_name (at_usage at))], print_whsp mem],
     print_extensions mem (at_extensions at), print_literal mem '')'']"

section \<open>Tokens\<close>

datatype token = TK_NOENDQUOTE | TK_OUTOFMEM | TK_EOS | TK_BAREWORD octets | TK_QDSTRING octets | TK_LEFTPAREN | TK_RIGHTPAREN | TK_DOLLAR

definition bare :: "u8 \<Rightarrow> bool" where
  "bare c \<longleftrightarrow> \<not> LDAP_SPACE c \<and> c \<noteq> 0x28 \<and> c \<noteq> 0x29 \<and> c \<noteq> 0x24 \<and> c \<noteq> 0x27"

definition get_token :: "(nat \<Rightarrow> bool) \<Rightarrow> octets \<Rightarrow> token \<times> octets" where
  "get_token mem sp =
    (case sp of [] \<Rightarrow> (TK_EOS, [])
     | c # s \<Rightarrow>
        (if c = 0x28 then (TK_LEFTPAREN, s) else if c = 0x29 then (TK_RIGHTPAREN, s) else if c = 0x24 then (TK_DOLLAR, s)
         else if c = 0x27 then
           (case dropWhile (\<lambda>x. x \<noteq> 0x27) s of [] \<Rightarrow> (TK_NOENDQUOTE, [])
            | q # r \<Rightarrow> let v = takeWhile (\<lambda>x. x \<noteq> 0x27) s in (if mem (length v + 1) then TK_QDSTRING v else TK_OUTOFMEM, r))
         else let v = takeWhile bare sp in (if mem (length v + 1) then TK_BAREWORD v else TK_OUTOFMEM, dropWhile bare sp)))"

text \<open>Where the pointer is after a token.\<close>

definition behind :: "token \<times> octets \<Rightarrow> octets option" where
  "behind t = (if fst t = TK_EOS then None else Some (snd t))"

definition parse_whsp :: "octets \<Rightarrow> octets" where
  "parse_whsp sp = dropWhile LDAP_SPACE sp"

lemma get_token_shorter:
  "get_token mem s = (t, r) \<Longrightarrow> length r \<le> length s"
  "get_token mem s = (TK_QDSTRING v, r) \<Longrightarrow> length r < length s"
  "get_token mem s = (TK_DOLLAR, r) \<Longrightarrow> length r < length s"
proof -
  have d: "length (dropWhile P s') \<le> length s'" for P :: "u8 \<Rightarrow> bool" and s' by (rule length_dropWhile_le)
  have e: "length r < length s'" if "dropWhile P s' = c # r" for P :: "u8 \<Rightarrow> bool" and s' c using d [of P s'] that by simp
  show "get_token mem s = (t, r) \<Longrightarrow> length r \<le> length s"
    using d [of bare s] by (auto simp: get_token_def Let_def split: list.splits if_splits dest!: e)
  show "get_token mem s = (TK_QDSTRING v, r) \<Longrightarrow> length r < length s"
    by (auto simp: get_token_def Let_def split: list.splits if_splits dest!: e)
  show "get_token mem s = (TK_DOLLAR, r) \<Longrightarrow> length r < length s"
    by (auto simp: get_token_def Let_def split: list.splits if_splits)
qed

lemma parse_whsp_shorter: "length (parse_whsp s) \<le> length s"
  by (simp add: parse_whsp_def length_dropWhile_le)

lemma token_measures:
  "get_token mem (parse_whsp sp) = (TK_QDSTRING v, r) \<Longrightarrow> length (parse_whsp r) < length sp"
  "get_token mem sp = (TK_DOLLAR, r) \<Longrightarrow> get_token mem (parse_whsp r) = (t, r') \<Longrightarrow> length (parse_whsp r') < length sp"
proof -
  show "get_token mem (parse_whsp sp) = (TK_QDSTRING v, r) \<Longrightarrow> length (parse_whsp r) < length sp"
    using get_token_shorter(2) [of mem "parse_whsp sp" v r] parse_whsp_shorter [of sp] parse_whsp_shorter [of r] by simp
  show "get_token mem sp = (TK_DOLLAR, r) \<Longrightarrow> get_token mem (parse_whsp r) = (t, r') \<Longrightarrow> length (parse_whsp r') < length sp"
    using get_token_shorter(3) [of mem sp r] get_token_shorter(1) [of mem "parse_whsp r" t r'] parse_whsp_shorter [of r] parse_whsp_shorter [of r'] by simp
qed

section \<open>The pieces of a description\<close>

text \<open>
  A failed parser stores the error code and leaves the pointer where it is; \<open>Undefined\<close> is a run that reads behind
  the null or frees what was never stored.
\<close>

datatype 'a parsed = Parsed 'a octets | Failed nat "octets option" | Undefined

function numeric_oid :: "octets \<Rightarrow> bool \<times> octets" where
  "numeric_oid sp =
    (case sp of [] \<Rightarrow> (True, [])
     | c # s \<Rightarrow>
        if \<not> LDAP_DIGIT c then (False, c # s)
        else case dropWhile LDAP_DIGIT s of [] \<Rightarrow> (True, []) | d # r \<Rightarrow> if d = 0x2e then numeric_oid r else (True, d # r))"
  by pat_completeness auto
termination
proof (relation "measure length")
  fix sp s r :: octets and c d
  assume "sp = c # s" "dropWhile LDAP_DIGIT s = d # r"
  then have "length (d # r) \<le> length s" by (metis length_dropWhile_le)
  then show "(r, sp) \<in> measure length" using \<open>sp = c # s\<close> by simp
qed simp

declare numeric_oid.simps [simp del]

definition parse_numericoid :: "(nat \<Rightarrow> bool) \<Rightarrow> u32 \<Rightarrow> octets \<Rightarrow> octets parsed" where
  "parse_numericoid mem flags sp =
    (let quoted = (flags AND LDAP_SCHEMA_ALLOW_QUOTED \<noteq> 0 \<and> sp \<noteq> [] \<and> hd sp = 0x27);
         start = (if quoted then tl sp else sp); (valid, r) = numeric_oid start; oid = take (length start - length r) start
     in if \<not> valid then Failed LDAP_SCHERR_NODIGIT (Some r)
        else if \<not> mem (length oid + 1) then Failed LDAP_SCHERR_OUTOFMEM (Some r)
        else if quoted then (if r \<noteq> [] \<and> hd r = 0x27 then Parsed oid (tl r) else Failed LDAP_SCHERR_UNEXPTOKEN (Some r))
        else Parsed oid r)"

text \<open>
  An array of pointers under construction, cell by cell: \<open>LDAP_CALLOC\<close> clears the cells it allocates, \<open>LDAP_REALLOC\<close>
  keeps those there were and does not clear what it adds.
\<close>

datatype cell = Uncleared | Null | Stored octets

definition calloc_cells :: "nat \<Rightarrow> cell list" where
  "calloc_cells n = replicate n Null"

definition realloc_cells :: "cell list \<Rightarrow> nat \<Rightarrow> cell list" where
  "realloc_cells res n = take n res @ replicate (n - length res) Uncleared"

text \<open>\<open>res[pos] = c\<close>; outside the block the run is not defined.\<close>

definition store_cell :: "cell list \<Rightarrow> nat \<Rightarrow> cell \<Rightarrow> cell list option" where
  "store_cell res pos c = (if pos < length res then Some (res[pos := c]) else None)"

text \<open>
  \<open>LDAP_VFREE\<close> frees what the cells point to up to the first null pointer: \<open>False\<close> when it meets a cell
  nobody stored anything in, whose contents it would free, or leaves the block.
\<close>

fun ber_memvfree :: "cell list \<Rightarrow> bool" where
  "ber_memvfree [] = False"
| "ber_memvfree (Null # res) = True"
| "ber_memvfree (Stored v # res) = ber_memvfree res"
| "ber_memvfree (Uncleared # res) = False"

definition give_up :: "cell list \<Rightarrow> nat \<Rightarrow> octets option \<Rightarrow> 'a parsed" where
  "give_up res code sp = (if ber_memvfree res then Failed code sp else Undefined)"

text \<open>What the caller reads in the finished array, again up to the first null pointer.\<close>

fun names_in :: "cell list \<Rightarrow> octets list option" where
  "names_in [] = None"
| "names_in (Null # res) = Some []"
| "names_in (Stored v # res) = map_option ((#) v) (names_in res)"
| "names_in (Uncleared # res) = None"

definition end_list :: "cell list \<Rightarrow> nat \<Rightarrow> octets \<Rightarrow> octets list parsed" where
  "end_list res pos sp =
    (case store_cell res pos Null of None \<Rightarrow> Undefined
     | Some res' \<Rightarrow> (case names_in res' of None \<Rightarrow> Undefined | Some vs \<Rightarrow> Parsed vs (parse_whsp sp)))"

text \<open>One more cell when only the last two are left, then the name is stored; the inner \<open>None\<close> is the failed growth.\<close>

definition add_name :: "(nat \<Rightarrow> bool) \<Rightarrow> cell list \<Rightarrow> nat \<Rightarrow> octets \<Rightarrow> cell list option option" where
  "add_name mem res pos v =
    (if pos = length res - 2 then
       (if mem (Suc (length res) * POINTER_BYTES) then map_option Some (store_cell (realloc_cells res (Suc (length res))) pos (Stored v))
        else Some None)
     else map_option Some (store_cell res pos (Stored v)))"

function qdescr_loop :: "(nat \<Rightarrow> bool) \<Rightarrow> cell list \<Rightarrow> nat \<Rightarrow> octets \<Rightarrow> octets list parsed" where
  "qdescr_loop mem res pos sp =
    (case get_token mem (parse_whsp sp) of
       (TK_RIGHTPAREN, r) \<Rightarrow> end_list res pos r
     | (TK_QDSTRING v, r) \<Rightarrow>
        (case add_name mem res pos v of None \<Rightarrow> Undefined
         | Some None \<Rightarrow> give_up res LDAP_SCHERR_OUTOFMEM (Some r)
         | Some (Some res') \<Rightarrow> qdescr_loop mem res' (Suc pos) (parse_whsp r))
     | t \<Rightarrow> give_up res LDAP_SCHERR_UNEXPTOKEN (behind t))"
  by pat_completeness auto
termination by (relation "measure (\<lambda>(mem, res, pos, sp). length sp)") (simp_all add: token_measures(1) [OF sym])

declare qdescr_loop.simps [simp del]

text \<open>A name alone: an array of two cells, both written.\<close>

definition one_name :: "(nat \<Rightarrow> bool) \<Rightarrow> octets \<Rightarrow> octets \<Rightarrow> octets list parsed" where
  "one_name mem v r =
    (if mem (2 * POINTER_BYTES) then
       (case store_cell (calloc_cells 2) 0 (Stored v) of None \<Rightarrow> Undefined | Some res \<Rightarrow> end_list res 1 r)
     else Failed LDAP_SCHERR_OUTOFMEM (Some r))"

definition parse_qdescrs :: "(nat \<Rightarrow> bool) \<Rightarrow> octets \<Rightarrow> octets list parsed" where
  "parse_qdescrs mem sp =
    (case get_token mem (parse_whsp sp) of
       (TK_LEFTPAREN, r) \<Rightarrow>
        (if mem (3 * POINTER_BYTES) then qdescr_loop mem (calloc_cells 3) 0 r else Failed LDAP_SCHERR_OUTOFMEM (Some r))
     | (TK_QDSTRING v, r) \<Rightarrow> one_name mem v r
     | t \<Rightarrow> Failed LDAP_SCHERR_BADNAME (behind t))"

definition parse_woid :: "(nat \<Rightarrow> bool) \<Rightarrow> octets \<Rightarrow> octets parsed" where
  "parse_woid mem sp =
    (case get_token mem (parse_whsp sp) of (TK_BAREWORD v, r) \<Rightarrow> Parsed v (parse_whsp r) | t \<Rightarrow> Failed LDAP_SCHERR_UNEXPTOKEN (behind t))"

text \<open>The length in braces; \<open>atoi\<close> of more than an \<open>int\<close> holds is not defined.\<close>

definition parse_noidlen :: "(nat \<Rightarrow> bool) \<Rightarrow> u32 \<Rightarrow> octets \<Rightarrow> int \<times> octets parsed" where
  "parse_noidlen mem allow_quoted sp =
    (let quoted = (allow_quoted \<noteq> 0 \<and> sp \<noteq> [] \<and> hd sp = 0x27);
         ending = (\<lambda>len sval r. (len, if quoted then (if r \<noteq> [] \<and> hd r = 0x27 then Parsed sval (tl r)
             else Failed LDAP_SCHERR_UNEXPTOKEN (Some r)) else Parsed sval r))
     in case parse_numericoid mem 0 (if quoted then tl sp else sp) of
          Parsed sval r \<Rightarrow>
           (if r \<noteq> [] \<and> hd r = 0x7b then
              (case atoi (tl r) of None \<Rightarrow> (0, Undefined)
               | Some len \<Rightarrow> let r' = dropWhile LDAP_DIGIT (tl r) in
                  if r' \<noteq> [] \<and> hd r' = 0x7d then ending len sval (tl r') else (len, Failed LDAP_SCHERR_UNEXPTOKEN (Some r')))
            else ending 0 sval r)
        | Failed code e \<Rightarrow> (0, Failed code e) | Undefined \<Rightarrow> (0, Undefined))"

text \<open>What \<open>parse_oids\<close> takes for a name.\<close>

fun oid_token :: "bool \<Rightarrow> token \<Rightarrow> octets option" where
  "oid_token allow_quoted (TK_BAREWORD v) = Some v"
| "oid_token allow_quoted (TK_QDSTRING v) = (if allow_quoted then Some v else None)"
| "oid_token allow_quoted _ = None"

function oid_loop :: "(nat \<Rightarrow> bool) \<Rightarrow> bool \<Rightarrow> cell list \<Rightarrow> nat \<Rightarrow> octets \<Rightarrow> octets list parsed" where
  "oid_loop mem allow_quoted res pos sp =
    (case get_token mem sp of
       (TK_RIGHTPAREN, r) \<Rightarrow> end_list res pos r
     | (TK_DOLLAR, r) \<Rightarrow>
        (case get_token mem (parse_whsp r) of (t, r') \<Rightarrow>
          (case oid_token allow_quoted t of None \<Rightarrow> give_up res LDAP_SCHERR_UNEXPTOKEN (behind (t, r'))
           | Some v \<Rightarrow>
              (case add_name mem res pos v of None \<Rightarrow> Undefined
               | Some None \<Rightarrow> give_up res LDAP_SCHERR_OUTOFMEM (Some r')
               | Some (Some res') \<Rightarrow> oid_loop mem allow_quoted res' (Suc pos) (parse_whsp r'))))
     | t \<Rightarrow> give_up res LDAP_SCHERR_UNEXPTOKEN (behind t))"
  by pat_completeness auto
termination by (relation "measure (\<lambda>(mem, allow_quoted, res, pos, sp). length sp)") (simp_all add: token_measures(2) [OF sym sym])

declare oid_loop.simps [simp del]

definition parse_oids :: "(nat \<Rightarrow> bool) \<Rightarrow> u32 \<Rightarrow> octets \<Rightarrow> octets list parsed" where
  "parse_oids mem allow_quoted sp =
    (case get_token mem (parse_whsp sp) of
       (TK_LEFTPAREN, r) \<Rightarrow>
        (if \<not> mem (3 * POINTER_BYTES) then Failed LDAP_SCHERR_OUTOFMEM (Some r)
         else case get_token mem (parse_whsp r) of (t, r') \<Rightarrow>
          (case oid_token (allow_quoted \<noteq> 0) t of None \<Rightarrow> give_up (calloc_cells 3) LDAP_SCHERR_UNEXPTOKEN (behind (t, r'))
           | Some v \<Rightarrow>
              (case store_cell (calloc_cells 3) 0 (Stored v) of None \<Rightarrow> Undefined
               | Some res \<Rightarrow> oid_loop mem (allow_quoted \<noteq> 0) res 1 (parse_whsp r'))))
     | (t, r) \<Rightarrow>
        (case oid_token (allow_quoted \<noteq> 0) t of None \<Rightarrow> Failed LDAP_SCHERR_BADNAME (behind (t, r))
         | Some v \<Rightarrow> one_name mem v r))"

definition EXTENSION_ITEM_BYTES :: nat where "EXTENSION_ITEM_BYTES = 8"

definition add_extension :: "(nat \<Rightarrow> bool) \<Rightarrow> extension_item list option \<Rightarrow> octets \<Rightarrow> octets list \<Rightarrow> extension_item list option" where
  "add_extension mem extensions name values =
    (let ext = \<lparr>lsei_name = name, lsei_values = values\<rparr>
     in if \<not> mem EXTENSION_ITEM_BYTES then None
        else case extensions of None \<Rightarrow> if mem (2 * POINTER_BYTES) then Some [ext] else None
         | Some es \<Rightarrow> if mem ((length es + 2) * POINTER_BYTES) then Some (es @ [ext]) else None)"

section \<open>The loop over the items\<close>

text \<open>
  What an item does: it goes on with the structure, the caller's code and the pointer, or ends the parser with a
  code and the place of the error, or is not defined.
\<close>

datatype 'o went = Went 'o nat octets | Stop nat "octets option" | Undefined_item

text \<open>The structure or the null pointer, \<open>*code\<close> and \<open>*errp\<close>.\<close>

datatype 'o outcome = Returned "'o option" nat "octets option" | Undefined_run

partial_function (option) parse_items ::
    "(nat \<Rightarrow> bool) \<Rightarrow> (octets \<Rightarrow> 'o \<Rightarrow> nat \<Rightarrow> octets \<Rightarrow> 'o went) \<Rightarrow> octets \<Rightarrow> 'o \<Rightarrow> nat \<Rightarrow> octets \<Rightarrow> 'o outcome option" where
  "parse_items mem item s obj code ss =
    (case get_token mem ss of
       (TK_EOS, r) \<Rightarrow> Some (Returned None LDAP_SCHERR_NORIGHTPAREN None)
     | (TK_RIGHTPAREN, r) \<Rightarrow> Some (Returned (Some obj) code (Some s))
     | (TK_BAREWORD sval, r) \<Rightarrow>
        (case item sval obj code r of
           Went obj' code' r' \<Rightarrow> parse_items mem item s obj' code' r'
         | Stop code' errp \<Rightarrow> Some (Returned None code' errp)
         | Undefined_item \<Rightarrow> Some Undefined_run)
     | (t, r) \<Rightarrow> Some (Returned None LDAP_SCHERR_UNEXPTOKEN (Some r)))"

declare parse_items.simps [code]

text \<open>An item whose value is what a parser returns.\<close>

definition store :: "'a parsed \<Rightarrow> ('a \<Rightarrow> 'o) \<Rightarrow> nat \<Rightarrow> 'o went" where
  "store p f code = (case p of Parsed v r \<Rightarrow> Went (f v) code r | Failed c errp \<Rightarrow> Stop c errp | Undefined \<Rightarrow> Undefined_item)"

text \<open>The flags \<open>seen_name\<close>, \<open>seen_desc\<close> and so on, as the list of the words seen.\<close>

definition once :: "octets \<Rightarrow> octets list \<Rightarrow> octets \<Rightarrow> 'o went \<Rightarrow> 'o went" where
  "once sval seen ss went = (if sval \<in> set seen then Stop LDAP_SCHERR_DUPOPT (Some ss) else went)"

definition parse_names :: "(nat \<Rightarrow> bool) \<Rightarrow> octets \<Rightarrow> octets list parsed" where
  "parse_names mem ss =
    (case parse_qdescrs mem ss of
       Failed code errp \<Rightarrow> Failed (if code \<noteq> LDAP_SCHERR_OUTOFMEM then LDAP_SCHERR_BADNAME else code) errp | p \<Rightarrow> p)"

definition parse_desc :: "(nat \<Rightarrow> bool) \<Rightarrow> octets \<Rightarrow> octets parsed" where
  "parse_desc mem ss =
    (case get_token mem (parse_whsp ss) of (TK_QDSTRING v, r) \<Rightarrow> Parsed v (parse_whsp r) | t \<Rightarrow> Failed LDAP_SCHERR_UNEXPTOKEN (behind t))"

definition extension_word :: "octets \<Rightarrow> bool" where
  "extension_word sval \<longleftrightarrow> take 2 sval = ascii ''X-''"

definition parse_extension :: "(nat \<Rightarrow> bool) \<Rightarrow> extension_item list option \<Rightarrow> octets \<Rightarrow> octets \<Rightarrow> extension_item list parsed" where
  "parse_extension mem extensions sval ss =
    (case parse_qdescrs mem ss of
       Parsed values r \<Rightarrow> (case add_extension mem extensions sval values of
           None \<Rightarrow> Failed LDAP_SCHERR_OUTOFMEM (Some r) | Some es \<Rightarrow> Parsed es r)
     | Failed code errp \<Rightarrow> Failed code errp | Undefined \<Rightarrow> Undefined)"

text \<open>
  The object identifier in front, which servers may leave out: if it cannot be parsed, but may be missing, the token
  there is taken for the first word or else skipped, and kept as a macro if that is allowed.
\<close>

definition missing_oid :: "(nat \<Rightarrow> bool) \<Rightarrow> octets list \<Rightarrow> bool \<Rightarrow> nat \<Rightarrow> octets \<Rightarrow> octets option went" where
  "missing_oid mem words macro code savepos =
    (case get_token mem savepos of
       (TK_BAREWORD sval, r) \<Rightarrow>
        (if sval \<in> set words \<or> extension_word sval then Went None code (parse_whsp savepos)
         else if macro then (if mem (length sval + 1) then Went (Some sval) code (parse_whsp r) else Undefined_item)
         else Went None code (parse_whsp r))
     | (TK_EOS, r) \<Rightarrow> Undefined_item
     | (t, r) \<Rightarrow> Went None code (parse_whsp r))"

definition start_oid :: "octets parsed \<Rightarrow> nat \<Rightarrow> (octets option \<Rightarrow> bool) \<Rightarrow> (nat \<Rightarrow> octets option went) \<Rightarrow> octets option went" where
  "start_oid p code optional missing =
    (case p of Parsed oid r \<Rightarrow> Went (Some oid) code (parse_whsp r)
     | Failed c ss \<Rightarrow> if optional ss then missing c else Stop c ss
     | Undefined \<Rightarrow> Undefined_item)"

text \<open>The frame of the four functions; \<open>calloc_bytes\<close> is the size of the structure.\<close>

definition parse_description ::
    "(nat \<Rightarrow> bool) \<Rightarrow> nat \<Rightarrow> octets option \<Rightarrow> nat \<Rightarrow> (octets \<Rightarrow> octets option went)
      \<Rightarrow> (octets option \<Rightarrow> 'o) \<Rightarrow> (octets \<Rightarrow> 'o \<times> octets list \<Rightarrow> nat \<Rightarrow> octets \<Rightarrow> ('o \<times> octets list) went) \<Rightarrow> 'o outcome option" where
  "parse_description mem calloc_bytes s code oid obj item =
    (case s of None \<Rightarrow> Some (Returned None LDAP_SCHERR_EMPTY (Some []))
     | Some s \<Rightarrow>
        (if \<not> mem calloc_bytes then Some (Returned None LDAP_SCHERR_OUTOFMEM (Some s))
         else case get_token mem s of
           (TK_LEFTPAREN, r) \<Rightarrow>
            (case oid (parse_whsp r) of
               Went o1 code' ss \<Rightarrow>
                map_option (\<lambda>res. case res of Returned x c e \<Rightarrow> Returned (map_option fst x) c e | Undefined_run \<Rightarrow> Undefined_run)
                  (parse_items mem item s (obj o1, []) code' ss)
             | Stop c e \<Rightarrow> Some (Returned None c e) | Undefined_item \<Rightarrow> Some Undefined_run)
         | t \<Rightarrow> Some (Returned None LDAP_SCHERR_NOLEFTPAREN (Some s))))"

section \<open>Syntaxes\<close>

definition SYNTAX_BYTES :: nat where "SYNTAX_BYTES = 16"

definition syntax_item :: "(nat \<Rightarrow> bool) \<Rightarrow> octets \<Rightarrow> ldap_syntax \<times> octets list \<Rightarrow> nat \<Rightarrow> octets \<Rightarrow> (ldap_syntax \<times> octets list) went" where
  "syntax_item mem sval st code ss =
    (case st of (syn, seen) \<Rightarrow>
      if sval = ascii ''NAME'' then once sval seen ss (store (parse_names mem ss) (\<lambda>v. (syn\<lparr>syn_names := Some v\<rparr>, sval # seen)) code)
      else if sval = ascii ''DESC'' then once sval seen ss (store (parse_desc mem ss) (\<lambda>v. (syn\<lparr>syn_desc := Some v\<rparr>, sval # seen)) code)
      else if extension_word sval then
        store (parse_extension mem (syn_extensions syn) sval ss) (\<lambda>v. (syn\<lparr>syn_extensions := Some v\<rparr>, seen)) code
      else Stop LDAP_SCHERR_UNEXPTOKEN (Some ss))"

definition ldap_str2syntax :: "(nat \<Rightarrow> bool) \<Rightarrow> octets option \<Rightarrow> nat \<Rightarrow> u32 \<Rightarrow> ldap_syntax outcome option" where
  "ldap_str2syntax mem s code flags =
    parse_description mem SYNTAX_BYTES s code
      (\<lambda>ss. start_oid (parse_numericoid mem 0 ss) code (\<lambda>_. False) (\<lambda>c. Undefined_item))
      (\<lambda>oid. \<lparr>syn_oid = oid, syn_names = None, syn_desc = None, syn_extensions = None\<rparr>) (syntax_item mem)"

section \<open>Matching rules\<close>

definition MATCHINGRULE_BYTES :: nat where "MATCHINGRULE_BYTES = 24"

definition matchingrule_words :: "octets list" where
  "matchingrule_words = map ascii [''NAME'', ''DESC'', ''OBSOLETE'', ''SYNTAX'']"

definition parse_oid_item :: "(nat \<Rightarrow> bool) \<Rightarrow> u32 \<Rightarrow> octets \<Rightarrow> octets parsed" where
  "parse_oid_item mem flags ss =
    (case parse_numericoid mem flags (parse_whsp ss) of Parsed v r \<Rightarrow> Parsed v (parse_whsp r) | p \<Rightarrow> p)"

definition matchingrule_item ::
    "(nat \<Rightarrow> bool) \<Rightarrow> u32 \<Rightarrow> octets \<Rightarrow> ldap_matchingrule \<times> octets list \<Rightarrow> nat \<Rightarrow> octets \<Rightarrow> (ldap_matchingrule \<times> octets list) went" where
  "matchingrule_item mem flags sval st code ss =
    (case st of (mr, seen) \<Rightarrow>
      if sval = ascii ''NAME'' then once sval seen ss (store (parse_names mem ss) (\<lambda>v. (mr\<lparr>mr_names := Some v\<rparr>, sval # seen)) code)
      else if sval = ascii ''DESC'' then once sval seen ss (store (parse_desc mem ss) (\<lambda>v. (mr\<lparr>mr_desc := Some v\<rparr>, sval # seen)) code)
      else if sval = ascii ''OBSOLETE'' then
        once sval seen ss (Went (mr\<lparr>mr_obsolete := LDAP_SCHEMA_YES\<rparr>, sval # seen) code (parse_whsp ss))
      else if sval = ascii ''SYNTAX'' then
        once sval seen ss (store (parse_oid_item mem flags ss) (\<lambda>v. (mr\<lparr>mr_syntax_oid := Some v\<rparr>, sval # seen)) code)
      else if extension_word sval then
        store (parse_extension mem (mr_extensions mr) sval ss) (\<lambda>v. (mr\<lparr>mr_extensions := Some v\<rparr>, seen)) code
      else Stop LDAP_SCHERR_UNEXPTOKEN (Some ss))"

definition ldap_str2matchingrule :: "(nat \<Rightarrow> bool) \<Rightarrow> octets option \<Rightarrow> nat \<Rightarrow> u32 \<Rightarrow> ldap_matchingrule outcome option" where
  "ldap_str2matchingrule mem s code flags =
    parse_description mem MATCHINGRULE_BYTES s code
      (\<lambda>ss. start_oid (parse_numericoid mem flags ss) code (\<lambda>_. flags AND LDAP_SCHEMA_ALLOW_NO_OID \<noteq> 0)
        (\<lambda>c. missing_oid mem matchingrule_words False c ss))
      (\<lambda>oid. \<lparr>mr_oid = oid, mr_names = None, mr_desc = None, mr_obsolete = 0, mr_syntax_oid = None, mr_extensions = None\<rparr>)
      (matchingrule_item mem flags)"

section \<open>Attribute types\<close>

definition ATTRIBUTETYPE_BYTES :: nat where "ATTRIBUTETYPE_BYTES = 60"

definition attributetype_words :: "octets list" where
  "attributetype_words = map ascii [''NAME'', ''DESC'', ''OBSOLETE'', ''SUP'', ''EQUALITY'', ''ORDERING'', ''SUBSTR'', ''SYNTAX'',
    ''SINGLE-VALUE'', ''COLLECTIVE'', ''NO-USER-MODIFICATION'', ''USAGE'']"

text \<open>A syntax that is no numeric identifier may be a macro; the word is looked for where the parser stopped.\<close>

definition syntax_macro :: "(nat \<Rightarrow> bool) \<Rightarrow> ldap_attributetype \<Rightarrow> octets option \<Rightarrow> nat \<Rightarrow> ldap_attributetype went" where
  "syntax_macro mem at ss code =
    (case ss of None \<Rightarrow> Undefined_item
     | Some ss \<Rightarrow>
        (case get_token mem ss of
           (TK_BAREWORD sval, r) \<Rightarrow>
            (case cut_at 0x7b sval of
               (w, None) \<Rightarrow> Went (at\<lparr>at_syntax_oid := Some w\<rparr>) code (parse_whsp r)
             | (w, Some sp) \<Rightarrow>
                (case atoi sp of None \<Rightarrow> Undefined_item
                 | Some len \<Rightarrow> let sp' = dropWhile LDAP_DIGIT sp in
                    if sp' = [] \<or> hd sp' \<noteq> 0x7d then Stop LDAP_SCHERR_UNEXPTOKEN (Some r)
                    else Went (at\<lparr>at_syntax_oid := Some w, at_syntax_len := len\<rparr>) code (parse_whsp r)))
         | (TK_EOS, r) \<Rightarrow> Undefined_item
         | (t, r) \<Rightarrow> Went at code (parse_whsp r)))"

definition syntax_of_type :: "(nat \<Rightarrow> bool) \<Rightarrow> u32 \<Rightarrow> ldap_attributetype \<Rightarrow> nat \<Rightarrow> octets \<Rightarrow> ldap_attributetype went" where
  "syntax_of_type mem flags at code ss =
    (case parse_noidlen mem flags (parse_whsp ss) of
       (len, Parsed oid r) \<Rightarrow> Went (at\<lparr>at_syntax_oid := Some oid, at_syntax_len := len\<rparr>) code (parse_whsp r)
     | (len, Failed c r) \<Rightarrow>
        (if flags AND LDAP_SCHEMA_ALLOW_OID_MACRO \<noteq> 0 then syntax_macro mem (at\<lparr>at_syntax_oid := None, at_syntax_len := len\<rparr>) r c
         else Stop c r)
     | (len, Undefined) \<Rightarrow> Undefined_item)"

definition parse_usage :: "(nat \<Rightarrow> bool) \<Rightarrow> octets \<Rightarrow> int parsed" where
  "parse_usage mem ss =
    (case get_token mem (parse_whsp ss) of
       (TK_BAREWORD w, r) \<Rightarrow>
        (if strcasecmp w (ascii ''userApplications'') = 0 then Parsed LDAP_SCHEMA_USER_APPLICATIONS (parse_whsp r)
         else if strcasecmp w (ascii ''directoryOperation'') = 0 then Parsed LDAP_SCHEMA_DIRECTORY_OPERATION (parse_whsp r)
         else if strcasecmp w (ascii ''distributedOperation'') = 0 then Parsed LDAP_SCHEMA_DISTRIBUTED_OPERATION (parse_whsp r)
         else if strcasecmp w (ascii ''dSAOperation'') = 0 then Parsed LDAP_SCHEMA_DSA_OPERATION (parse_whsp r)
         else Failed LDAP_SCHERR_UNEXPTOKEN (Some r))
     | t \<Rightarrow> Failed LDAP_SCHERR_UNEXPTOKEN (behind t))"

definition seeing :: "octets list \<Rightarrow> 'o went \<Rightarrow> ('o \<times> octets list) went" where
  "seeing seen went = (case went of Went at code r \<Rightarrow> Went (at, seen) code r | Stop c e \<Rightarrow> Stop c e | Undefined_item \<Rightarrow> Undefined_item)"

text \<open>\<open>SINGLE-VALUE\<close> and the two after it look at the member of the structure, not at a flag.\<close>

definition attributetype_item ::
    "(nat \<Rightarrow> bool) \<Rightarrow> u32 \<Rightarrow> octets \<Rightarrow> ldap_attributetype \<times> octets list \<Rightarrow> nat \<Rightarrow> octets \<Rightarrow> (ldap_attributetype \<times> octets list) went" where
  "attributetype_item mem flags sval st code ss =
    (case st of (at, seen) \<Rightarrow>
      if sval = ascii ''NAME'' then once sval seen ss (store (parse_names mem ss) (\<lambda>v. (at\<lparr>at_names := Some v\<rparr>, sval # seen)) code)
      else if sval = ascii ''DESC'' then once sval seen ss (store (parse_desc mem ss) (\<lambda>v. (at\<lparr>at_desc := Some v\<rparr>, sval # seen)) code)
      else if sval = ascii ''OBSOLETE'' then
        once sval seen ss (Went (at\<lparr>at_obsolete := LDAP_SCHEMA_YES\<rparr>, sval # seen) code (parse_whsp ss))
      else if sval = ascii ''SUP'' then once sval seen ss (store (parse_woid mem ss) (\<lambda>v. (at\<lparr>at_sup_oid := Some v\<rparr>, sval # seen)) code)
      else if sval = ascii ''EQUALITY'' then once sval seen ss (store (parse_woid mem ss) (\<lambda>v. (at\<lparr>at_equality_oid := Some v\<rparr>, sval # seen)) code)
      else if sval = ascii ''ORDERING'' then once sval seen ss (store (parse_woid mem ss) (\<lambda>v. (at\<lparr>at_ordering_oid := Some v\<rparr>, sval # seen)) code)
      else if sval = ascii ''SUBSTR'' then once sval seen ss (store (parse_woid mem ss) (\<lambda>v. (at\<lparr>at_substr_oid := Some v\<rparr>, sval # seen)) code)
      else if sval = ascii ''SYNTAX'' then once sval seen ss (seeing (sval # seen) (syntax_of_type mem flags at code ss))
      else if sval = ascii ''SINGLE-VALUE'' then
        (if at_single_value at \<noteq> 0 then Stop LDAP_SCHERR_DUPOPT (Some ss)
         else Went (at\<lparr>at_single_value := LDAP_SCHEMA_YES\<rparr>, seen) code (parse_whsp ss))
      else if sval = ascii ''COLLECTIVE'' then
        (if at_collective at \<noteq> 0 then Stop LDAP_SCHERR_DUPOPT (Some ss)
         else Went (at\<lparr>at_collective := LDAP_SCHEMA_YES\<rparr>, seen) code (parse_whsp ss))
      else if sval = ascii ''NO-USER-MODIFICATION'' then
        (if at_no_user_mod at \<noteq> 0 then Stop LDAP_SCHERR_DUPOPT (Some ss)
         else Went (at\<lparr>at_no_user_mod := LDAP_SCHEMA_YES\<rparr>, seen) code (parse_whsp ss))
      else if sval = ascii ''USAGE'' then once sval seen ss (store (parse_usage mem ss) (\<lambda>v. (at\<lparr>at_usage := v\<rparr>, sval # seen)) code)
      else if extension_word sval then
        store (parse_extension mem (at_extensions at) sval ss) (\<lambda>v. (at\<lparr>at_extensions := Some v\<rparr>, seen)) code
      else Stop LDAP_SCHERR_UNEXPTOKEN (Some ss))"

definition ldap_str2attributetype :: "(nat \<Rightarrow> bool) \<Rightarrow> octets option \<Rightarrow> nat \<Rightarrow> u32 \<Rightarrow> ldap_attributetype outcome option" where
  "ldap_str2attributetype mem s code flags =
    parse_description mem ATTRIBUTETYPE_BYTES s code
      (\<lambda>ss. start_oid (parse_numericoid mem 0 ss) code
        (\<lambda>at. flags AND (LDAP_SCHEMA_ALLOW_NO_OID OR LDAP_SCHEMA_ALLOW_OID_MACRO) \<noteq> 0 \<and> at = Some ss)
        (\<lambda>c. missing_oid mem attributetype_words (flags AND LDAP_SCHEMA_ALLOW_OID_MACRO \<noteq> 0) c ss))
      (\<lambda>oid. \<lparr>at_oid = oid, at_names = None, at_desc = None, at_obsolete = 0, at_sup_oid = None, at_equality_oid = None,
        at_ordering_oid = None, at_substr_oid = None, at_syntax_oid = None, at_syntax_len = 0, at_single_value = 0,
        at_collective = 0, at_no_user_mod = 0, at_usage = 0, at_extensions = None\<rparr>)
      (attributetype_item mem flags)"

section \<open>Object classes\<close>

definition OBJECTCLASS_BYTES :: nat where "OBJECTCLASS_BYTES = 36"

text \<open>\<open>MAY\<close> is not among the words.\<close>

definition objectclass_words :: "octets list" where
  "objectclass_words = map ascii [''NAME'', ''DESC'', ''OBSOLETE'', ''SUP'', ''ABSTRACT'', ''STRUCTURAL'', ''AUXILIARY'', ''MUST'']"

definition seen_kind :: octets where "seen_kind = ascii ''kind''"

definition objectclass_kind :: "int \<Rightarrow> ldap_objectclass \<times> octets list \<Rightarrow> nat \<Rightarrow> octets \<Rightarrow> (ldap_objectclass \<times> octets list) went" where
  "objectclass_kind kind st code ss =
    (case st of (oc, seen) \<Rightarrow> once seen_kind seen ss (Went (oc\<lparr>oc_kind := kind\<rparr>, seen_kind # seen) code (parse_whsp ss)))"

definition objectclass_item ::
    "(nat \<Rightarrow> bool) \<Rightarrow> u32 \<Rightarrow> octets \<Rightarrow> ldap_objectclass \<times> octets list \<Rightarrow> nat \<Rightarrow> octets \<Rightarrow> (ldap_objectclass \<times> octets list) went" where
  "objectclass_item mem flags sval st code ss =
    (case st of (oc, seen) \<Rightarrow>
      if sval = ascii ''NAME'' then once sval seen ss (store (parse_names mem ss) (\<lambda>v. (oc\<lparr>oc_names := Some v\<rparr>, sval # seen)) code)
      else if sval = ascii ''DESC'' then once sval seen ss (store (parse_desc mem ss) (\<lambda>v. (oc\<lparr>oc_desc := Some v\<rparr>, sval # seen)) code)
      else if sval = ascii ''OBSOLETE'' then
        once sval seen ss (Went (oc\<lparr>oc_obsolete := LDAP_SCHEMA_YES\<rparr>, sval # seen) code (parse_whsp ss))
      else if sval = ascii ''SUP'' then once sval seen ss (store (parse_oids mem flags ss) (\<lambda>v. (oc\<lparr>oc_sup_oids := Some v\<rparr>, sval # seen)) code)
      else if sval = ascii ''ABSTRACT'' then objectclass_kind LDAP_SCHEMA_ABSTRACT st code ss
      else if sval = ascii ''STRUCTURAL'' then objectclass_kind LDAP_SCHEMA_STRUCTURAL st code ss
      else if sval = ascii ''AUXILIARY'' then objectclass_kind LDAP_SCHEMA_AUXILIARY st code ss
      else if sval = ascii ''MUST'' then once sval seen ss (store (parse_oids mem 0 ss) (\<lambda>v. (oc\<lparr>oc_at_oids_must := Some v\<rparr>, sval # seen)) code)
      else if sval = ascii ''MAY'' then once sval seen ss (store (parse_oids mem 0 ss) (\<lambda>v. (oc\<lparr>oc_at_oids_may := Some v\<rparr>, sval # seen)) code)
      else if extension_word sval then
        store (parse_extension mem (oc_extensions oc) sval ss) (\<lambda>v. (oc\<lparr>oc_extensions := Some v\<rparr>, seen)) code
      else Stop LDAP_SCHERR_UNEXPTOKEN (Some ss))"

definition ldap_str2objectclass :: "(nat \<Rightarrow> bool) \<Rightarrow> octets option \<Rightarrow> nat \<Rightarrow> u32 \<Rightarrow> ldap_objectclass outcome option" where
  "ldap_str2objectclass mem s code flags =
    parse_description mem OBJECTCLASS_BYTES s code
      (\<lambda>ss. start_oid (parse_numericoid mem 0 ss) code
        (\<lambda>at. flags AND LDAP_SCHEMA_ALLOW_ALL \<noteq> 0 \<and> at = Some ss)
        (\<lambda>c. missing_oid mem objectclass_words (flags AND LDAP_SCHEMA_ALLOW_OID_MACRO \<noteq> 0) c ss))
      (\<lambda>oid. \<lparr>oc_oid = oid, oc_names = None, oc_desc = None, oc_obsolete = 0, oc_sup_oids = None, oc_kind = LDAP_SCHEMA_STRUCTURAL,
        oc_at_oids_must = None, oc_at_oids_may = None, oc_extensions = None\<rparr>)
      (objectclass_item mem flags)"

end
