(* ===== verification/Schema_Facts.thy ===== *)
theory Schema_Facts imports Schema begin

text \<open>
  What descriptions look like as text, and that parsing inverts printing; what the parsers accept when they
  are strict; what they do with the block of a list they give up.
\<close>

section \<open>Arrays of names\<close>

text \<open>
  The array while names are put into it, \<open>room\<close> cells long: behind the names the rest of the three cells that were
  cleared, then the cells that growing added.
\<close>

definition filled :: "octets list \<Rightarrow> nat \<Rightarrow> cell list" where
  "filled res room = map Stored res @ replicate (3 - length res) Null @ replicate (room - max 3 (length res)) Uncleared"

lemma filled_length: "3 \<le> room \<Longrightarrow> length res + 2 \<le> room \<Longrightarrow> length (filled res room) = room"
  by (simp add: filled_def)

lemma filled_new: "calloc_cells 3 = filled [] 3"
  by (simp add: filled_def calloc_cells_def)

lemma filled_rest:
  "3 \<le> room \<Longrightarrow> length res + 2 \<le> room \<Longrightarrow> \<exists>c. filled res room = map Stored res @ c # drop (Suc (length res)) (filled res room)
    \<and> filled (res @ [v]) room = map Stored res @ Stored v # drop (Suc (length res)) (filled res room)"
proof (cases "length res < 3")
  case True
  then have "3 - length res = Suc (2 - length res)" by simp
  then show ?thesis using True by (simp add: filled_def)
next
  case False
  assume "length res + 2 \<le> room"
  then have "room - length res = Suc (room - Suc (length res))" by simp
  then show ?thesis using False by (simp add: filled_def max_def)
qed

lemma filled_store:
  assumes "3 \<le> room" "length res + 2 \<le> room"
  shows "store_cell (filled res room) (length res) (Stored v) = Some (filled (res @ [v]) room)"
proof -
  obtain c where c: "filled res room = map Stored res @ c # drop (Suc (length res)) (filled res room)"
      "filled (res @ [v]) room = map Stored res @ Stored v # drop (Suc (length res)) (filled res room)"
    using filled_rest [OF assms] by blast
  have "length res < length (filled res room)" using assms by (simp add: filled_length)
  moreover have "(filled res room)[length res := Stored v] = filled (res @ [v]) room"
    by (subst c(1), subst c(2)) (simp add: list_update_append)
  ultimately show ?thesis by (simp add: store_cell_def)
qed

lemma filled_grow: "3 \<le> room \<Longrightarrow> length res + 2 \<le> room \<Longrightarrow> realloc_cells (filled res room) (Suc room) = filled res (Suc room)"
proof -
  assume r: "3 \<le> room" "length res + 2 \<le> room"
  then have "realloc_cells (filled res room) (Suc room) = filled res room @ [Uncleared]"
    using filled_length [OF r] by (simp add: realloc_cells_def)
  moreover have "Suc room - max 3 (length res) = Suc (room - max 3 (length res))" using r by simp
  ultimately show ?thesis by (simp add: filled_def replicate_append_same)
qed

lemma names_in_front: "names_in (map Stored res @ Null # cs) = Some res"
  by (induction res) simp_all

lemma filled_end:
  assumes "3 \<le> room" "length res + 2 \<le> room"
  shows "end_list (filled res room) (length res) sp = Parsed res (parse_whsp sp)"
proof -
  obtain c where c: "filled res room = map Stored res @ c # drop (Suc (length res)) (filled res room)"
    using filled_rest [OF assms] by blast
  have "length res < length (filled res room)" using assms by (simp add: filled_length)
  moreover have "names_in ((filled res room)[length res := Null]) = Some res"
    by (subst c) (simp add: list_update_append names_in_front)
  ultimately show ?thesis by (simp add: end_list_def store_cell_def)
qed

text \<open>Given up, an array of less than three names is freed; of a longer one, a cell that was never cleared.\<close>

definition broken_off :: "octets list \<Rightarrow> nat \<Rightarrow> octets option \<Rightarrow> 'a parsed" where
  "broken_off res code sp = (if length res < 3 then Failed code sp else Undefined)"

lemma memvfree_front: "ber_memvfree (map Stored res @ cs) = ber_memvfree cs"
  by (induction res) simp_all

lemma filled_freed:
  assumes "3 \<le> room" "length res + 2 \<le> room"
  shows "ber_memvfree (filled res room) \<longleftrightarrow> length res < 3"
proof (cases "length res < 3")
  case True
  then have "3 - length res = Suc (2 - length res)" by simp
  then show ?thesis using True by (simp add: filled_def memvfree_front)
next
  case False
  then have "room - length res = Suc (room - Suc (length res))" using assms by simp
  then show ?thesis using False by (simp add: filled_def memvfree_front max_def)
qed

lemma filled_give_up: "3 \<le> room \<Longrightarrow> length res + 2 \<le> room \<Longrightarrow> give_up (filled res room) code sp = broken_off res code sp"
  by (simp add: give_up_def broken_off_def filled_freed)

text \<open>The loops over the lists on the names themselves; \<open>room\<close> is the number of cells.\<close>

function qdescr_list :: "(nat \<Rightarrow> bool) \<Rightarrow> nat \<Rightarrow> octets list \<Rightarrow> octets \<Rightarrow> octets list parsed" where
  "qdescr_list mem room res sp =
    (case get_token mem (parse_whsp sp) of
       (TK_RIGHTPAREN, r) \<Rightarrow> Parsed res (parse_whsp r)
     | (TK_QDSTRING v, r) \<Rightarrow>
        (if length res = room - 2 then
           (if mem (Suc room * POINTER_BYTES) then qdescr_list mem (Suc room) (res @ [v]) (parse_whsp r)
            else broken_off res LDAP_SCHERR_OUTOFMEM (Some r))
         else qdescr_list mem room (res @ [v]) (parse_whsp r))
     | t \<Rightarrow> broken_off res LDAP_SCHERR_UNEXPTOKEN (behind t))"
  by pat_completeness auto
termination by (relation "measure (\<lambda>(mem, room, res, sp). length sp)") (simp_all add: token_measures(1) [OF sym])

function oid_list :: "(nat \<Rightarrow> bool) \<Rightarrow> bool \<Rightarrow> nat \<Rightarrow> octets list \<Rightarrow> octets \<Rightarrow> octets list parsed" where
  "oid_list mem allow_quoted room res sp =
    (case get_token mem sp of
       (TK_RIGHTPAREN, r) \<Rightarrow> Parsed res (parse_whsp r)
     | (TK_DOLLAR, r) \<Rightarrow>
        (case get_token mem (parse_whsp r) of (t, r') \<Rightarrow>
          (case oid_token allow_quoted t of None \<Rightarrow> broken_off res LDAP_SCHERR_UNEXPTOKEN (behind (t, r'))
           | Some v \<Rightarrow>
              (if length res = room - 2 then
                 (if mem (Suc room * POINTER_BYTES) then oid_list mem allow_quoted (Suc room) (res @ [v]) (parse_whsp r')
                  else broken_off res LDAP_SCHERR_OUTOFMEM (Some r'))
               else oid_list mem allow_quoted room (res @ [v]) (parse_whsp r'))))
     | t \<Rightarrow> broken_off res LDAP_SCHERR_UNEXPTOKEN (behind t))"
  by pat_completeness auto
termination by (relation "measure (\<lambda>(mem, allow_quoted, room, res, sp). length sp)") (simp_all add: token_measures(2) [OF sym sym])

declare qdescr_list.simps [simp del] oid_list.simps [simp del]

lemma filled_add_name:
  assumes "3 \<le> room" "length res + 2 \<le> room"
  shows "add_name mem (filled res room) (length res) v =
    Some (if length res = room - 2 then (if mem (Suc room * POINTER_BYTES) then Some (filled (res @ [v]) (Suc room)) else None)
      else Some (filled (res @ [v]) room))"
proof (cases "length res = room - 2")
  case True
  then have "length res + 2 = room" using assms by simp
  then show ?thesis using filled_store [of "Suc room" res v] assms(1) filled_length [OF assms] filled_grow [OF assms]
    by (auto simp: add_name_def)
next
  case False
  then show ?thesis using filled_store [OF assms] filled_length [OF assms] by (simp add: add_name_def)
qed

lemma qdescr_loop_names:
  "3 \<le> room \<Longrightarrow> length res + 2 \<le> room \<Longrightarrow> qdescr_loop mem (filled res room) (length res) sp = qdescr_list mem room res sp"
proof (induction "length sp" arbitrary: room res sp rule: less_induct)
  case less
  obtain t r where t: "get_token mem (parse_whsp sp) = (t, r)" by fastforce
  note facts = filled_end [OF less(2,3)] filled_give_up [OF less(2,3), where 'a = "octets list"] filled_add_name [OF less(2,3)]
  show ?case
  proof (cases t)
    case (TK_QDSTRING v)
    then have "length (parse_whsp r) < length sp" using token_measures(1) t by blast
    then have ih: "qdescr_loop mem (filled (res @ [v]) m) (Suc (length res)) (parse_whsp r) = qdescr_list mem m (res @ [v]) (parse_whsp r)"
      if "3 \<le> m" "length res + 3 \<le> m" for m
      using less(1) [of "parse_whsp r" m "res @ [v]"] that by simp
    consider "room = Suc (Suc (length res))" | "length res \<noteq> room - 2" "length res + 3 \<le> room" using less(2,3) by linarith
    then show ?thesis
      by cases (subst qdescr_loop.simps, subst qdescr_list.simps, use t TK_QDSTRING less(2) ih facts in simp)+
  qed (use t in \<open>subst qdescr_loop.simps, subst qdescr_list.simps, simp add: facts\<close>)+
qed

lemma oid_loop_names:
  "3 \<le> room \<Longrightarrow> length res + 2 \<le> room \<Longrightarrow> oid_loop mem q (filled res room) (length res) sp = oid_list mem q room res sp"
proof (induction "length sp" arbitrary: room res sp rule: less_induct)
  case less
  obtain t r where t: "get_token mem sp = (t, r)" by fastforce
  note facts = filled_end [OF less(2,3)] filled_give_up [OF less(2,3), where 'a = "octets list"] filled_add_name [OF less(2,3)]
  show ?case
  proof (cases t)
    case TK_DOLLAR
    obtain t' r' where t': "get_token mem (parse_whsp r) = (t', r')" by fastforce
    then have "length (parse_whsp r') < length sp" using token_measures(2) t TK_DOLLAR by blast
    then have ih: "oid_loop mem q (filled (res @ [v]) m) (Suc (length res)) (parse_whsp r') = oid_list mem q m (res @ [v]) (parse_whsp r')"
      if "3 \<le> m" "length res + 3 \<le> m" for m v
      using less(1) [of "parse_whsp r'" m "res @ [v]"] that by simp
    consider "room = Suc (Suc (length res))" | "length res \<noteq> room - 2" "length res + 3 \<le> room" using less(2,3) by linarith
    then show ?thesis
      by cases (subst oid_loop.simps, subst oid_list.simps, use t t' TK_DOLLAR less(2) ih facts in \<open>simp split: option.split\<close>)+
  qed (use t in \<open>subst oid_loop.simps, subst oid_list.simps, simp add: facts\<close>)+
qed

lemma one_name_parsed: "one_name mem v r = (if mem (2 * POINTER_BYTES) then Parsed [v] (parse_whsp r) else Failed LDAP_SCHERR_OUTOFMEM (Some r))"
  by (simp add: one_name_def store_cell_def calloc_cells_def end_list_def numeral_2_eq_2)

lemma parse_qdescrs_names:
  "parse_qdescrs mem sp =
    (case get_token mem (parse_whsp sp) of
       (TK_LEFTPAREN, r) \<Rightarrow> if mem (3 * POINTER_BYTES) then qdescr_list mem 3 [] r else Failed LDAP_SCHERR_OUTOFMEM (Some r)
     | (TK_QDSTRING v, r) \<Rightarrow> if mem (2 * POINTER_BYTES) then Parsed [v] (parse_whsp r) else Failed LDAP_SCHERR_OUTOFMEM (Some r)
     | t \<Rightarrow> Failed LDAP_SCHERR_BADNAME (behind t))"
proof -
  obtain t r where "get_token mem (parse_whsp sp) = (t, r)" by fastforce
  then show ?thesis using qdescr_loop_names [of 3 "[]" mem] by (cases t) (simp_all add: parse_qdescrs_def one_name_parsed filled_new)
qed

lemma parse_oids_names:
  "parse_oids mem allow_quoted sp =
    (case get_token mem (parse_whsp sp) of
       (TK_LEFTPAREN, r) \<Rightarrow>
        (if \<not> mem (3 * POINTER_BYTES) then Failed LDAP_SCHERR_OUTOFMEM (Some r)
         else case get_token mem (parse_whsp r) of (t, r') \<Rightarrow>
          (case oid_token (allow_quoted \<noteq> 0) t of None \<Rightarrow> Failed LDAP_SCHERR_UNEXPTOKEN (behind (t, r'))
           | Some v \<Rightarrow> oid_list mem (allow_quoted \<noteq> 0) 3 [v] (parse_whsp r')))
     | (t, r) \<Rightarrow>
        (case oid_token (allow_quoted \<noteq> 0) t of None \<Rightarrow> Failed LDAP_SCHERR_BADNAME (behind (t, r))
         | Some v \<Rightarrow> if mem (2 * POINTER_BYTES) then Parsed [v] (parse_whsp r) else Failed LDAP_SCHERR_OUTOFMEM (Some r)))"
proof -
  obtain t r where t: "get_token mem (parse_whsp sp) = (t, r)" by fastforce
  have "store_cell (filled [] 3) 0 (Stored v) = Some (filled [v] 3)" "oid_loop mem q (filled [v] 3) (Suc 0) s = oid_list mem q 3 [v] s"
    "give_up (filled [] 3) code sp' = Failed code sp'" for v q s code and sp' :: "octets option"
    using filled_store [of 3 "[]" v] oid_loop_names [of 3 "[v]" mem q s] filled_give_up [of 3 "[]" code sp'] by (simp_all add: broken_off_def)
  then show ?thesis using t by (cases t) (auto simp: parse_oids_def one_name_parsed filled_new split: prod.split option.split)
qed

section \<open>Well-formed descriptions\<close>

definition quotable :: "octets \<Rightarrow> bool" where
  "quotable s \<longleftrightarrow> 0x27 \<notin> set s"

definition word :: "octets \<Rightarrow> bool" where
  "word s \<longleftrightarrow> s \<noteq> [] \<and> list_all bare s"

text \<open>Numbers with dots between them.\<close>

function dotted :: "octets \<Rightarrow> bool" where
  "dotted oid =
    (case oid of [] \<Rightarrow> False
     | c # s \<Rightarrow> LDAP_DIGIT c \<and> (case dropWhile LDAP_DIGIT s of [] \<Rightarrow> True | d # r \<Rightarrow> d = 0x2e \<and> dotted r))"
  by pat_completeness auto
termination
proof (relation "measure length")
  fix oid s r :: octets and c d
  assume "oid = c # s" "dropWhile LDAP_DIGIT s = d # r"
  then have "length (d # r) \<le> length s" by (metis length_dropWhile_le)
  then show "(r, oid) \<in> measure length" using \<open>oid = c # s\<close> by simp
qed simp

declare dotted.simps [simp del]

definition extension_ok :: "extension_item \<Rightarrow> bool" where
  "extension_ok e \<longleftrightarrow> word (lsei_name e) \<and> extension_word (lsei_name e) \<and> list_all quotable (lsei_values e)"

abbreviation names_ok :: "octets list option \<Rightarrow> bool" where "names_ok \<equiv> pred_option (list_all quotable)"
abbreviation oids_ok :: "octets list option \<Rightarrow> bool" where "oids_ok \<equiv> pred_option (\<lambda>os. os \<noteq> [] \<and> list_all word os)"
abbreviation extensions_ok :: "extension_item list option \<Rightarrow> bool" where
  "extensions_ok \<equiv> pred_option (\<lambda>es. es \<noteq> [] \<and> list_all extension_ok es)"

abbreviation given_oid :: "octets option \<Rightarrow> bool" where "given_oid oid \<equiv> oid \<noteq> None \<and> pred_option dotted oid"

definition syntax_ok :: "ldap_syntax \<Rightarrow> bool" where
  "syntax_ok syn \<longleftrightarrow> given_oid (syn_oid syn) \<and> names_ok (syn_names syn) \<and> pred_option quotable (syn_desc syn)
    \<and> extensions_ok (syn_extensions syn)"

definition matchingrule_ok :: "ldap_matchingrule \<Rightarrow> bool" where
  "matchingrule_ok mr \<longleftrightarrow> given_oid (mr_oid mr) \<and> names_ok (mr_names mr) \<and> pred_option quotable (mr_desc mr)
    \<and> mr_obsolete mr \<in> {0, 1} \<and> pred_option dotted (mr_syntax_oid mr) \<and> extensions_ok (mr_extensions mr)"

definition attributetype_ok :: "ldap_attributetype \<Rightarrow> bool" where
  "attributetype_ok at \<longleftrightarrow> given_oid (at_oid at) \<and> names_ok (at_names at) \<and> pred_option quotable (at_desc at)
    \<and> at_obsolete at \<in> {0, 1} \<and> pred_option word (at_sup_oid at) \<and> pred_option word (at_equality_oid at)
    \<and> pred_option word (at_ordering_oid at) \<and> pred_option word (at_substr_oid at) \<and> pred_option dotted (at_syntax_oid at)
    \<and> 0 \<le> at_syntax_len at \<and> at_syntax_len at < 2 ^ 31 \<and> (at_syntax_oid at = None \<longrightarrow> at_syntax_len at = 0)
    \<and> at_single_value at \<in> {0, 1} \<and> at_collective at \<in> {0, 1} \<and> at_no_user_mod at \<in> {0, 1}
    \<and> at_usage at \<in> {0, 1, 2, 3} \<and> extensions_ok (at_extensions at)"

definition objectclass_ok :: "ldap_objectclass \<Rightarrow> bool" where
  "objectclass_ok oc \<longleftrightarrow> given_oid (oc_oid oc) \<and> names_ok (oc_names oc) \<and> pred_option quotable (oc_desc oc)
    \<and> oc_obsolete oc \<in> {0, 1} \<and> oids_ok (oc_sup_oids oc) \<and> oc_kind oc \<in> {0, 1, 2} \<and> oids_ok (oc_at_oids_must oc)
    \<and> oids_ok (oc_at_oids_may oc) \<and> extensions_ok (oc_extensions oc)"

section \<open>Words and spaces\<close>

lemma ascii_inject [simp]: "ascii s = ascii t \<longleftrightarrow> s = t"
proof -
  have "inj (of_char :: char \<Rightarrow> u8)"
  proof (rule injI)
    fix c d :: char assume e: "(of_char c :: u8) = of_char d"
    obtain c0 c1 c2 c3 c4 c5 c6 c7 where c: "c = Char c0 c1 c2 c3 c4 c5 c6 c7" by (cases c)
    obtain d0 d1 d2 d3 d4 d5 d6 d7 where d: "d = Char d0 d1 d2 d3 d4 d5 d6 d7" by (cases d)
    have "[c0, c1, c2, c3, c4, c5, c6, c7] ! n = [d0, d1, d2, d3, d4, d5, d6, d7] ! n" if "n < 8" for n
      using arg_cong [OF e, of "\<lambda>w. bit w n"] that
      by (simp only: c d of_char_Char bit_horner_sum_bit_word_iff) simp
    then have "[c0, c1, c2, c3, c4, c5, c6, c7] = [d0, d1, d2, d3, d4, d5, d6, d7]" by (intro nth_equalityI) simp_all
    then show "c = d" unfolding c d by simp
  qed
  then show ?thesis unfolding ascii_def by (rule inj_map_eq_map)
qed

lemma ascii_Cons: "ascii (c # s) = of_char c # ascii s" and ascii_Nil [simp]: "ascii [] = []" and ascii_append: "ascii (s @ t) = ascii s @ ascii t"
  by (simp_all add: ascii_def)

definition spacy :: "octets \<Rightarrow> bool" where
  "spacy v \<longleftrightarrow> v \<noteq> [] \<and> LDAP_SPACE (last v)"

definition spaced :: "octets \<Rightarrow> octets" where
  "spaced v = (if spacy v then v else v @ [0x20])"

lemma space_20 [simp]: "LDAP_SPACE 0x20" by (simp add: LDAP_SPACE_def)

lemma spacy_append: "t \<noteq> [] \<Longrightarrow> spacy (v @ t) = spacy t"
  by (simp add: spacy_def)

lemma spacy_end [simp]: "spacy (v @ [c]) = LDAP_SPACE c"
  by (simp add: spacy_def)

lemma spaced_word: "t \<noteq> [] \<Longrightarrow> \<not> LDAP_SPACE (last t) \<Longrightarrow> spaced (v @ t) = v @ t @ [0x20]"
  by (simp add: spaced_def spacy_def)

lemma spaced_spacy: "spacy v \<Longrightarrow> spaced v = v"
  by (simp add: spaced_def)

lemma word_last: "word s \<Longrightarrow> s \<noteq> [] \<and> \<not> LDAP_SPACE (last s)"
  by (auto simp: word_def bare_def list_all_iff)

lemma digit_bare: "LDAP_DIGIT c \<Longrightarrow> bare c" "bare 0x2e" "bare 0x7b" "bare 0x7d"
proof -
  show "LDAP_DIGIT c \<Longrightarrow> bare c" by (auto simp: LDAP_DIGIT_def bare_def LDAP_SPACE_def word_le_nat_alt)
qed (simp_all add: bare_def LDAP_SPACE_def)

lemma dotted_word: "dotted oid \<Longrightarrow> word oid"
proof (induction oid rule: dotted.induct)
  case (1 oid)
  obtain c s where oid: "oid = c # s" using 1(2) by (auto simp: dotted.simps [of oid] split: list.splits)
  have c: "LDAP_DIGIT c" using 1(2) by (simp add: oid dotted.simps [of "c # s"])
  have s: "s = takeWhile LDAP_DIGIT s @ dropWhile LDAP_DIGIT s" by simp
  have t: "list_all bare (takeWhile LDAP_DIGIT s)" using digit_bare(1) by (auto simp: list_all_iff dest: set_takeWhileD)
  have "list_all bare (dropWhile LDAP_DIGIT s)"
  proof (cases "dropWhile LDAP_DIGIT s")
    case (Cons d r)
    then have "d = 0x2e" "dotted r" using 1(2) by (simp_all add: oid dotted.simps [of "c # s"])
    then show ?thesis using 1(1) [OF oid Cons] Cons digit_bare by (simp add: word_def)
  next
    case Nil
    show ?thesis unfolding Nil by simp
  qed
  then have "list_all bare s" using t s by (metis list_all_append)
  then show ?case using c digit_bare by (simp add: oid word_def)
qed

section \<open>Printing\<close>

definition holds_text :: "safe_string \<Rightarrow> octets \<Rightarrow> bool" where
  "holds_text ss v \<longleftrightarrow> ss_val ss = Some v \<and> length v < ss_size ss \<and> ss_at_whsp ss = spacy v"

definition extends :: "printer \<Rightarrow> octets \<Rightarrow> octets \<Rightarrow> bool" where
  "extends p v v' \<longleftrightarrow> (\<forall>ss. holds_text ss v \<longrightarrow> (\<exists>ss'. p ss = Some ss' \<and> holds_text ss' v'))"

text \<open>The texts.\<close>

definition quoted :: "octets \<Rightarrow> octets" where
  "quoted s = 0x27 # s @ [0x27, 0x20]"

definition qdescrs_text :: "octets list \<Rightarrow> octets" where
  "qdescrs_text ns =
    (case ns of [] \<Rightarrow> ascii ''() '' | [n] \<Rightarrow> quoted n | _ \<Rightarrow> ascii ''( '' @ concat (map quoted ns) @ ascii '') '')"

definition oids_text :: "octets list \<Rightarrow> octets" where
  "oids_text os =
    (case os of [] \<Rightarrow> [] | [s] \<Rightarrow> s @ [0x20]
     | s # ss \<Rightarrow> ascii ''( '' @ s @ [0x20] @ concat (map (\<lambda>s. ascii ''$ '' @ s @ [0x20]) ss) @ ascii '') '')"

definition given :: "'a option \<Rightarrow> string \<Rightarrow> ('a \<Rightarrow> octets) \<Rightarrow> octets" where
  "given x label f = (case x of None \<Rightarrow> [] | Some v \<Rightarrow> ascii label @ 0x20 # f v)"

definition flagged :: "bool \<Rightarrow> string \<Rightarrow> octets" where
  "flagged b label = (if b then ascii label @ [0x20] else [])"

definition extension_text :: "extension_item \<Rightarrow> octets" where
  "extension_text e = lsei_name e @ 0x20 # qdescrs_text (lsei_values e)"

definition extensions_text :: "extension_item list option \<Rightarrow> octets" where
  "extensions_text es = (case es of None \<Rightarrow> [] | Some es \<Rightarrow> concat (map extension_text es))"

definition noidlen_text :: "octets \<Rightarrow> int \<Rightarrow> octets" where
  "noidlen_text s l = s @ (if l \<noteq> 0 then 0x7b # int_digits l @ [0x7d] else []) @ [0x20]"

definition usage_text :: "int \<Rightarrow> octets" where
  "usage_text u = given (if u = 0 then None else Some u) ''USAGE'' (\<lambda>u. ascii (usage_name u) @ [0x20])"

definition enclosed :: "octets option \<Rightarrow> octets \<Rightarrow> octets" where
  "enclosed oid items = ascii ''( '' @ the oid @ 0x20 # items @ ascii '')''"

locale memory =
  fixes mem :: "nat \<Rightarrow> bool"
  assumes enough: "mem n"
begin

lemma extends_append: "extends (append_to_safe_string mem s) v (v @ s)"
  unfolding extends_def holds_text_def append_to_safe_string_def Let_def
  using enough by (auto simp: spacy_def)

lemma extends_append': "v' = v @ s \<Longrightarrow> extends (append_to_safe_string mem s) v v'"
  using extends_append by simp

lemma extends_whsp: "extends (print_whsp mem) v (spaced v)"
proof (unfold extends_def, intro allI impI)
  fix ss assume ss: "holds_text ss v"
  show "\<exists>ss'. print_whsp mem ss = Some ss' \<and> holds_text ss' (spaced v)"
    using ss extends_append [of "[]" v] extends_append [of "[0x20]" v]
    by (auto simp: print_whsp_def spaced_def extends_def holds_text_def)
qed

lemma extends_whsp': "v' = spaced v \<Longrightarrow> extends (print_whsp mem) v v'"
  using extends_whsp by simp

end

lemma extends_eq: "extends p v w \<Longrightarrow> w = v' \<Longrightarrow> extends p v v'"
  by simp

lemma extends_prints:
  "extends (prints []) v v"
  "extends p v v' \<Longrightarrow> extends (prints ps) v' v'' \<Longrightarrow> extends (prints (p # ps)) v v''"
  by (fastforce simp: extends_def)+

lemma extends_nothing: "extends Some v v"
  by (simp add: extends_def)

lemma spacy_texts [simp]: "spacy (v @ quoted s)" "spacy (v @ qdescrs_text ns)" "os \<noteq> [] \<Longrightarrow> spacy (v @ oids_text os)"
  by (simp_all add: quoted_def qdescrs_text_def oids_text_def spacy_def ascii_def split: list.split)

lemma spacy_oids: "spacy (v @ 0x20 # concat (map (\<lambda>s. ascii ''$ '' @ s @ [0x20]) ss))"
  by (induction ss rule: rev_induct) (simp_all add: spacy_def)

lemma spaced_parenthesis: "spaced (v @ ascii ''('') = v @ ascii ''( ''"
  by (simp add: spaced_def spacy_def ascii_def LDAP_SPACE_def)

lemma numeric_oid_dotted: "dotted oid \<Longrightarrow> \<not> LDAP_DIGIT c \<Longrightarrow> c \<noteq> 0x2e \<Longrightarrow> numeric_oid (oid @ c # r) = (True, c # r)"
proof (induction oid rule: dotted.induct)
  case (1 oid)
  obtain d s where oid: "oid = d # s" using 1(2) by (auto simp: dotted.simps [of oid] split: list.splits)
  have d: "LDAP_DIGIT d" using 1(2) by (simp add: oid dotted.simps [of "d # s"])
  show ?case
  proof (cases "dropWhile LDAP_DIGIT s")
    case Nil
    then have "dropWhile LDAP_DIGIT (s @ c # r) = c # r" using 1(3) by (simp add: dropWhile_append2)
    then show ?thesis using d 1(4) by (simp add: oid numeric_oid.simps [of "d # s @ c # r"])
  next
    case (Cons e s')
    then have e: "e = 0x2e" "dotted s'" using 1(2) by (simp_all add: oid dotted.simps [of "d # s"])
    have "dropWhile LDAP_DIGIT (s @ c # r) = (e # s') @ c # r"
      unfolding Cons [symmetric] by (rule dropWhile_append3) (rule 1(3))
    then show ?thesis using d e 1(1) [OF oid Cons e(2) 1(3,4)] by (simp add: oid numeric_oid.simps [of "d # s @ c # r"])
  qed
qed

lemma dotted_start: "dotted oid \<Longrightarrow> oid \<noteq> [] \<and> hd oid \<noteq> 0x27 \<and> \<not> LDAP_SPACE (hd oid)"
  using dotted_word [of oid] by (cases oid) (auto simp: word_def bare_def)

lemma LDAP_DIGIT_isdigit: "LDAP_DIGIT = isdigit"
  by (rule ext) (simp add: LDAP_DIGIT_def isdigit_def)

lemma atoi_digits:
  assumes "0 \<le> i" "i < 2 ^ 31"
  shows "atoi (int_digits i @ 0x7d # r) = Some i" "dropWhile LDAP_DIGIT (int_digits i @ 0x7d # r) = 0x7d # r"
proof -
  let ?n = "nat_digits (nat i)"
  have e: "int_digits i = ?n" using assms(1) by (simp add: int_digits_def)
  have d: "\<forall>d \<in> set ?n. isdigit d" "digits_value ?n = i" "?n \<noteq> []" using nat_digits_spec [of "nat i"] assms(1) by simp_all
  have nd: "\<not> isdigit 0x7d" by (simp add: isdigit_def)
  then have t: "takeWhile isdigit (?n @ 0x7d # r) = ?n" "dropWhile isdigit (?n @ 0x7d # r) = 0x7d # r"
    using d(1) by (simp_all add: takeWhile_append2 dropWhile_append2)
  obtain c s where c: "?n = c # s" using d(3) by (cases ?n) simp_all
  then have "isdigit c" using d(1) by simp
  then have "\<not> isspace c" "c \<noteq> 0x2d" "c \<noteq> 0x2b" by (auto simp: isspace_def isdigit_def)
  then show "atoi (int_digits i @ 0x7d # r) = Some i"
    using t d(2) assms unfolding e by (simp add: atoi_def c)
  show "dropWhile LDAP_DIGIT (int_digits i @ 0x7d # r) = 0x7d # r" unfolding e LDAP_DIGIT_isdigit by (rule t)
qed

lemma not_digit [simp]: "\<not> LDAP_DIGIT 0x20" "\<not> LDAP_DIGIT 0x7b"
  by (simp_all add: LDAP_DIGIT_def)

definition label :: "string \<Rightarrow> bool" where
  "label l \<longleftrightarrow> ascii l \<noteq> [] \<and> \<not> LDAP_SPACE (last (ascii l))"

text \<open>The words that were seen, with one more if its item was there.\<close>

definition seen_if :: "bool \<Rightarrow> string \<Rightarrow> octets list \<Rightarrow> octets list" where
  "seen_if b l seen = (if b then ascii l # seen else seen)"

lemma seen_if [simp]: "ascii w \<in> set (seen_if b l seen) \<longleftrightarrow> b \<and> w = l \<or> ascii w \<in> set seen"
  by (auto simp: seen_if_def)

lemma labels [simp]: "label ''NAME''" "label ''DESC''" "label ''OBSOLETE''" "label ''SUP''" "label ''EQUALITY''" "label ''ORDERING''"
  "label ''SUBSTR''" "label ''SYNTAX''" "label ''SINGLE-VALUE''" "label ''COLLECTIVE''" "label ''NO-USER-MODIFICATION''" "label ''USAGE''"
  "label ''MUST''" "label ''MAY''" "label (kind_name k)" "label (usage_name k)"
  by (simp_all add: label_def ascii_def LDAP_SPACE_def kind_name_def usage_name_def)

lemma words [simp]: "word (ascii ''NAME'')" "word (ascii ''DESC'')" "word (ascii ''OBSOLETE'')" "word (ascii ''SUP'')" "word (ascii ''EQUALITY'')"
  "word (ascii ''ORDERING'')" "word (ascii ''SUBSTR'')" "word (ascii ''SYNTAX'')" "word (ascii ''SINGLE-VALUE'')" "word (ascii ''COLLECTIVE'')"
  "word (ascii ''NO-USER-MODIFICATION'')" "word (ascii ''USAGE'')" "word (ascii ''MUST'')" "word (ascii ''MAY'')" "word (ascii (kind_name k))"
  "word (ascii (usage_name k))"
  by (simp_all add: word_def bare_def ascii_def LDAP_SPACE_def kind_name_def usage_name_def)

lemma extension_words: "extension_word sval \<Longrightarrow> sval \<noteq> ascii (c # l)" if "c \<noteq> CHR ''X''"
proof -
  have "of_char c \<noteq> (of_char (CHR ''X'') :: u8)" using that ascii_inject [of "[c]" "[CHR ''X'']"] by (simp add: ascii_def)
  then show "extension_word sval \<Longrightarrow> sval \<noteq> ascii (c # l)"
    by (cases sval) (auto simp: extension_word_def ascii_def)
qed

lemma parse_whsp_simps [simp]: "parse_whsp (0x20 # r) = parse_whsp r" "\<not> LDAP_SPACE c \<Longrightarrow> parse_whsp (c # r) = c # r" "parse_whsp [] = []"
    "parse_whsp (parse_whsp r) = parse_whsp r"
  by (simp_all add: parse_whsp_def)

lemma bare_chars: "bare c \<Longrightarrow> \<not> LDAP_SPACE c \<and> c \<noteq> 0x28 \<and> c \<noteq> 0x29 \<and> c \<noteq> 0x24 \<and> c \<noteq> 0x27"
  by (simp add: bare_def)

lemma word_whsp: "word w \<Longrightarrow> parse_whsp (w @ r) = w @ r"
  by (cases w) (simp_all add: word_def bare_def)

lemma not_space [simp]: "\<not> LDAP_SPACE 0x27" "\<not> LDAP_SPACE 0x28" "\<not> LDAP_SPACE 0x29" "\<not> LDAP_SPACE 0x24"
  by (simp_all add: LDAP_SPACE_def)

lemma not_bare [simp]: "\<not> bare 0x20" "\<not> bare 0x29" "\<not> bare 0x28" "\<not> bare 0x24" "\<not> bare 0x27"
  by (simp_all add: bare_def)

context memory
begin

lemmas printing = extends_prints extends_append extends_whsp extends_nothing

lemma extends_quoted: "extends (print_qdstring mem s) v (spaced v @ quoted s)" "extends (print_qdescr mem s) v (spaced v @ quoted s)"
  unfolding print_qdstring_def print_qdescr_def
  by (rule extends_eq, (rule printing)+, simp add: quoted_def spaced_def spacy_def LDAP_SPACE_def)+

lemma extends_qdescrlist: "extends (print_qdescrlist mem ns) v (if ns = [] then v else spaced v @ concat (map quoted ns))"
proof (induction ns arbitrary: v)
  case (Cons n ns)
  have "extends (prints (map (print_qdescr mem) (n # ns))) v (if ns = [] then spaced v @ quoted n else spaced (spaced v @ quoted n) @ concat (map quoted ns))"
    unfolding list.map using extends_quoted(2) Cons.IH [unfolded print_qdescrlist_def] by (rule extends_prints)
  then show ?case by (simp add: print_qdescrlist_def spaced_spacy del: prints.simps split: if_splits)
qed (simp add: print_qdescrlist_def printing)

lemma extends_qdescrs: "extends (print_qdescrs mem ns) v (spaced v @ qdescrs_text ns)"
proof (cases "length ns = 1")
  case True
  then obtain n where "ns = [n]" by (auto simp: length_Suc_conv)
  then show ?thesis using extends_quoted(2) by (simp add: print_qdescrs_def qdescrs_text_def)
next
  case False
  show ?thesis
    unfolding print_qdescrs_def if_P [OF False]
    by (rule extends_eq, (rule printing extends_qdescrlist)+)
       (use False in \<open>auto simp: qdescrs_text_def spaced_def spacy_def ascii_def LDAP_SPACE_def quoted_def split: list.split\<close>)
qed

lemma extends_woid: "word s \<Longrightarrow> extends (print_woid mem s) v (spaced v @ s @ [0x20])"
  unfolding print_woid_def
  by (rule extends_eq, (rule printing)+) (simp add: spaced_word word_last)

lemma extends_oidlist:
  "list_all word (s # ss) \<Longrightarrow> extends (print_oidlist mem (s # ss)) v (spaced v @ s @ 0x20 # concat (map (\<lambda>s. ascii ''$ '' @ s @ [0x20]) ss))"
proof (induction ss arbitrary: s v)
  case Nil
  then show ?case using extends_woid by simp
next
  case (Cons t ss)
  have t: "list_all word (t # ss)" and w: "word s" using Cons.prems by simp_all
  show ?case
    unfolding print_oidlist.simps
    by (rule extends_eq, (rule printing extends_woid [OF w] Cons.IH [OF t])+)
       (use Cons.prems in \<open>auto simp: spaced_def spacy_def ascii_def LDAP_SPACE_def\<close>)
qed

lemma extends_oids:
  assumes "os \<noteq> []" "list_all word os" "spacy v"
  shows "extends (prints [print_oids mem os, print_whsp mem]) v (v @ oids_text os)"
proof -
  consider s where "os = [s]" | s t ss where "os = s # t # ss" using assms(1) by (metis list.exhaust)
  then show ?thesis
  proof cases
    case 1
    then show ?thesis using assms
      by (auto simp: print_oids_def oids_text_def intro!: extends_eq [OF extends_prints(2) [OF extends_woid extends_prints(2) [OF extends_whsp extends_prints(1)]]]
          simp: spaced_def spacy_def)
  next
    case 2
    have "list_all word (s # t # ss)" using assms(2) 2 by simp
    note list = extends_oidlist [OF this]
    show ?thesis unfolding 2 print_oids_def list.case
      by (rule extends_eq, (rule printing list)+)
        (use spacy_oids [of "v @ ascii ''( '' @ s" "t # ss"] in
          \<open>simp add: oids_text_def spaced_parenthesis spaced_spacy; simp add: spaced_def spacy_def ascii_def LDAP_SPACE_def\<close>)
  qed
qed

text \<open>An item of a description: what it appends to a text that ends with a space.\<close>

definition appends :: "printer \<Rightarrow> octets \<Rightarrow> bool" where
  "appends p t \<longleftrightarrow> (t = [] \<or> spacy t) \<and> (\<forall>v. spacy v \<longrightarrow> extends p v (v @ t))"

lemma appends_prints:
  "appends (prints []) []"
  "appends p t \<Longrightarrow> appends (prints ps) u \<Longrightarrow> appends (prints (p # ps)) (t @ u)"
proof -
  show "appends (prints []) []" by (simp add: appends_def extends_prints)
  assume a: "appends p t" "appends (prints ps) u"
  then have s: "spacy v \<Longrightarrow> spacy (v @ t)" for v by (cases "t = []") (simp_all add: appends_def spacy_append)
  have "extends (prints (p # ps)) v (v @ t @ u)" if "spacy v" for v
  proof -
    have "extends p v (v @ t)" "extends (prints ps) (v @ t) ((v @ t) @ u)" using a s that by (simp_all only: appends_def)
    then show ?thesis using extends_prints(2) by fastforce
  qed
  moreover have "t @ u = [] \<or> spacy (t @ u)" using a by (cases "u = []") (auto simp: appends_def spacy_append)
  ultimately show "appends (prints (p # ps)) (t @ u)" by (simp add: appends_def del: prints.simps)
qed

lemma appends_given:
  assumes "\<And>y v. x = Some y \<Longrightarrow> spacy v \<Longrightarrow> extends (prints (ps y)) v (v @ ascii l @ 0x20 # f y)" "\<And>y. x = Some y \<Longrightarrow> spacy (0x20 # f y)"
  shows "appends (if_given x ps) (given x l f)"
proof (cases x)
  case None
  then show ?thesis by (simp add: appends_def if_given_def given_def extends_nothing)
next
  case (Some y)
  then show ?thesis using assms by (auto simp: appends_def if_given_def given_def spacy_append)
qed

lemma spaced_label: "label l \<Longrightarrow> spaced (v @ ascii l) = v @ ascii l @ [0x20]"
  by (simp add: spaced_word label_def)

lemma appends_whsp: "appends (print_whsp mem) []"
  using extends_whsp by (simp add: appends_def spaced_def) metis

lemma appends_names: "label l \<Longrightarrow> appends (if_given x (\<lambda>ns. [print_literal mem l, print_qdescrs mem ns])) (given x l qdescrs_text)"
  by (rule appends_given, (rule extends_eq, (rule printing extends_qdescrs)+, simp add: spaced_label))
    (use spacy_texts(2) [of "[0x20]"] in simp)

lemma appends_desc: "label l \<Longrightarrow> appends (if_given x (\<lambda>d. [print_literal mem l, print_qdstring mem d])) (given x l quoted)"
  by (rule appends_given, (rule extends_eq, (rule printing extends_quoted)+, simp add: spaced_label))
    (use spacy_texts(1) [of "[0x20]"] in simp)

lemma appends_word: "pred_option word x \<Longrightarrow> label l \<Longrightarrow> appends (print_woid_of mem l x) (given x l (\<lambda>s. s @ [0x20]))"
  unfolding print_woid_of_def
  by (rule appends_given, (rule extends_eq, (rule printing extends_woid | simp)+, simp add: spaced_label)) (simp add: spacy_def)

lemma appends_flag: "label l \<Longrightarrow> appends (if_yes b [print_literal mem l, print_whsp mem]) (flagged b l)"
proof (cases b)
  case True
  assume l: "label l"
  have "extends (prints [print_literal mem l, print_whsp mem]) v (v @ ascii l @ [0x20])" for v
    by (rule extends_eq, (rule printing)+) (use l in \<open>simp add: spaced_label\<close>)
  then show ?thesis using True by (simp add: appends_def if_yes_def flagged_def del: prints.simps)
qed (simp add: appends_def if_yes_def flagged_def extends_nothing)

lemma appends_literal: "label l \<Longrightarrow> appends (prints [print_literal mem l, print_whsp mem]) (ascii l @ [0x20])"
  using appends_flag [of l True] by (simp add: if_yes_def flagged_def)

lemma appends_oids: "oids_ok x \<Longrightarrow> label l \<Longrightarrow> appends (print_oids_of mem l x) (given x l oids_text)"
  unfolding print_oids_of_def
proof (rule appends_given)
  fix os v assume o: "oids_ok x" "label l" "x = Some os"
  have "extends (prints [print_oids mem os, print_whsp mem]) (v @ ascii l @ [0x20]) ((v @ ascii l @ [0x20]) @ oids_text os)"
    using o by (intro extends_oids) (simp_all add: spacy_def)
  then show "extends (prints [print_literal mem l, print_whsp mem, print_oids mem os, print_whsp mem]) v (v @ ascii l @ 0x20 # oids_text os)"
    using extends_prints(2) [OF extends_append extends_prints(2) [OF extends_whsp]] o(2) by (simp add: spaced_label del: prints.simps)
next
  fix os assume "oids_ok x" "x = Some os"
  then show "spacy (0x20 # oids_text os)" using spacy_texts(3) [of os "[0x20]"] by simp
qed

lemma appends_oid:
  "pred_option word x \<Longrightarrow> label l \<Longrightarrow>
    appends (if_given x (\<lambda>s. [print_literal mem l, print_whsp mem, append_to_safe_string mem s, print_whsp mem])) (given x l (\<lambda>s. s @ [0x20]))"
  by (rule appends_given, (rule extends_eq, (rule printing)+, simp add: spaced_label))
    (auto simp: spacy_def spaced_def dest!: word_last)

lemma spaced_brace: "spaced (v @ [0x7d]) = v @ [0x7d, 0x20]"
  by (simp add: spaced_def LDAP_SPACE_def)

lemma appends_noidlen:
  "pred_option word x \<Longrightarrow> label l \<Longrightarrow>
    appends (if_given x (\<lambda>s. [print_literal mem l, print_whsp mem, print_noidlen mem (Some s) len, print_whsp mem])) (given x l (\<lambda>s. noidlen_text s len))"
proof (rule appends_given)
  fix s v assume o: "pred_option word x" "label l" "x = Some s"
  have w: "spaced (v @ s) = v @ s @ [0x20]" for v using word_last [of s] o by (intro spaced_word) simp_all
  show "extends (prints [print_literal mem l, print_whsp mem, print_noidlen mem (Some s) len, print_whsp mem]) v (v @ ascii l @ 0x20 # noidlen_text s len)"
    unfolding print_noidlen_def print_numericoid_def option.case
    by (cases "len = 0"; simp only: if_True if_False simp_thms; rule extends_eq, (rule printing)+)
      (use o(2) w [of "v @ ascii l @ [0x20]"] spaced_brace [of "v @ ascii l @ 0x20 # s @ 0x7b # int_digits len"] in \<open>simp_all add: spaced_label noidlen_text_def\<close>)
next
  fix s show "spacy (0x20 # noidlen_text s len)" by (simp add: noidlen_text_def spacy_def)
qed

lemma appends_extension: "extension_ok e \<Longrightarrow> appends (print_extension mem e) (extension_text e)"
proof -
  assume "extension_ok e"
  then have w: "spaced (v @ lsei_name e) = v @ lsei_name e @ [0x20]" for v
    using word_last [of "lsei_name e"] by (intro spaced_word) (simp_all add: extension_ok_def)
  have "extends (print_extension mem e) v (v @ extension_text e)" for v
    unfolding print_extension_def
    by (rule extends_eq, (rule printing extends_qdescrs)+)
      (use w [of v] spacy_texts(2) [of "v @ lsei_name e @ [0x20]" "lsei_values e"] in
        \<open>simp add: extension_text_def spaced_spacy; simp add: spaced_def spacy_def LDAP_SPACE_def\<close>)
  moreover have "spacy (extension_text e)"
    using spacy_texts(2) [of "lsei_name e @ [0x20]" "lsei_values e"] by (simp add: extension_text_def)
  ultimately show ?thesis by (simp add: appends_def)
qed

lemma appends_extensions: "extensions_ok es \<Longrightarrow> appends (print_extensions mem es) (extensions_text es)"
proof (cases es)
  case None
  then show ?thesis by (simp add: print_extensions_def extensions_text_def appends_def extends_nothing)
next
  case (Some l)
  assume "extensions_ok es"
  then have "list_all extension_ok l" using Some by simp
  then have "appends (prints (map (print_extension mem) l)) (concat (map extension_text l))"
  proof (induction l)
    case (Cons e l)
    then show ?case using appends_prints(2) [OF appends_extension [of e]] by (simp del: prints.simps)
  qed (simp add: appends_prints(1) del: prints.simps)
  then show ?thesis using appends_prints(2) [OF appends_whsp] Some by (simp add: print_extensions_def extensions_text_def del: prints.simps)
qed

lemma appends_end: "appends (prints ps) t \<Longrightarrow> appends (print_extensions mem es) u \<Longrightarrow> appends (prints (ps @ [print_extensions mem es])) (t @ u)"
proof -
  have prints_append: "prints (as @ bs) = prints [prints as, prints bs]" for as bs :: "printer list"
    by (rule ext) (induction as, auto split: option.split)
  assume a: "appends (prints ps) t" "appends (print_extensions mem es) u"
  have "prints [p] = p" for p :: printer by (rule ext) (simp split: option.split)
  then show ?thesis using appends_prints(2) [OF a(1) appends_prints(2) [OF a(2) appends_prints(1)]] unfolding prints_append by simp
qed

lemma printed_text:
  assumes "given_oid x" "appends (prints ps) t"
  shows "printed mem ([print_literal mem ''('', print_whsp mem, print_numericoid mem x, print_whsp mem] @ ps @ [print_literal mem '')'']) = Some (Some (enclosed x t))"
proof -
  obtain oid where x: "x = Some oid" "word oid" using assms(1) dotted_word by auto
  let ?start = "ascii ''( '' @ oid @ [0x20]"
  have prints_append: "prints (as @ bs) = prints [prints as, prints bs]" for as bs :: "printer list"
    by (rule ext) (induction as, auto split: option.split)
  have "extends (prints [print_literal mem ''('', print_whsp mem, print_numericoid mem x, print_whsp mem]) [] ?start"
    unfolding print_numericoid_def x option.case
    by (rule extends_eq, (rule printing)+)
      (use spaced_parenthesis [of "[]"] spaced_word [of oid "[0x28, 0x20]"] word_last [OF x(2)] in \<open>simp add: ascii_Cons\<close>)
  moreover have "spacy ?start" by (simp add: spacy_def)
  then have "extends (prints ps) ?start (?start @ t)" using assms(2) unfolding appends_def by blast
  moreover have "extends (prints [print_literal mem '')'']) (?start @ t) ((?start @ t) @ ascii '')'')" by (rule printing)+
  ultimately have "extends (prints [prints [print_literal mem ''('', print_whsp mem, print_numericoid mem x, print_whsp mem],
      prints [prints ps, prints [print_literal mem '')'']]]) [] ((?start @ t) @ ascii '')'')"
    by (rule extends_prints(2) [OF _ extends_prints(2) [OF extends_prints(2) [OF _ extends_prints(2) [OF _ extends_prints(1)]] extends_prints(1)]])
  then have "extends (prints ([print_literal mem ''('', print_whsp mem, print_numericoid mem x, print_whsp mem] @ ps @ [print_literal mem '')''])) []
      ((?start @ t) @ ascii '')'')"
    unfolding prints_append [of "[print_literal mem ''('', print_whsp mem, print_numericoid mem x, print_whsp mem]"] prints_append [of ps] .
  moreover have "holds_text \<lparr>ss_val = Some [], ss_size = 256, ss_at_whsp = False\<rparr> []" by (simp add: holds_text_def spacy_def)
  ultimately obtain ss where
      "prints ([print_literal mem ''('', print_whsp mem, print_numericoid mem x, print_whsp mem] @ ps @ [print_literal mem '')''])
         \<lparr>ss_val = Some [], ss_size = 256, ss_at_whsp = False\<rparr> = Some ss" "holds_text ss ((?start @ t) @ ascii '')'')"
    unfolding extends_def by blast
  then show ?thesis by (simp add: holds_text_def printed_def new_safe_string_def safe_string_val_def enclosed_def x(1) enough del: prints.simps)
qed

section \<open>Parsing what was printed\<close>

lemma get_token_word:
  assumes "word w" "r = [] \<or> \<not> bare (hd r)"
  shows "get_token mem (w @ r) = (TK_BAREWORD w, r)"
proof -
  obtain c s where w: "w = c # s" using assms(1) by (cases w) (simp_all add: word_def)
  have b: "\<forall>c \<in> set w. bare c" using assms(1) by (simp add: word_def list_all_iff)
  then have "takeWhile bare (w @ r) = w" "dropWhile bare (w @ r) = r"
    using assms(2) by (cases r; simp add: takeWhile_append dropWhile_append)+
  then show ?thesis using bare_chars [of c] b enough by (simp add: get_token_def w)
qed

lemma get_token_quoted: "quotable s \<Longrightarrow> get_token mem (0x27 # s @ 0x27 # r) = (TK_QDSTRING s, r)"
proof -
  assume "quotable s"
  then have "takeWhile (\<lambda>x. x \<noteq> 0x27) (s @ 0x27 # r) = s" "dropWhile (\<lambda>x. x \<noteq> 0x27) (s @ 0x27 # r) = 0x27 # r"
    by (auto simp: quotable_def takeWhile_append dropWhile_append)
  then show ?thesis using enough by (simp add: get_token_def)
qed

lemma get_token_chars [simp]: "get_token mem (0x28 # r) = (TK_LEFTPAREN, r)" "get_token mem (0x29 # r) = (TK_RIGHTPAREN, r)"
  "get_token mem (0x24 # r) = (TK_DOLLAR, r)"
  by (simp_all add: get_token_def)

lemma qdescr_list_text:
  "list_all quotable ns \<Longrightarrow> qdescr_list mem room res (concat (map quoted ns) @ 0x29 # r) = Parsed (res @ ns) (parse_whsp r)"
proof (induction ns arbitrary: room res)
  case Nil
  then show ?case by (simp add: qdescr_list.simps)
next
  case (Cons n ns)
  have "parse_whsp (0x20 # concat (map quoted ns) @ 0x29 # r) = concat (map quoted ns) @ 0x29 # r"
    by (cases ns) (simp_all add: quoted_def)
  moreover have "quotable n" "qdescr_list mem m (res @ [n]) (concat (map quoted ns) @ 0x29 # r) = Parsed (res @ n # ns) (parse_whsp r)" for m
    using Cons by simp_all
  ultimately show ?case using get_token_quoted [of n "0x20 # concat (map quoted ns) @ 0x29 # r"]
    by (subst qdescr_list.simps) (simp add: quoted_def [of n] enough)
qed

lemma qdescr_list_whsp: "qdescr_list mem room res (0x20 # sp) = qdescr_list mem room res sp"
  by (subst (1 2) qdescr_list.simps) simp

lemma parse_qdescrs_text: "list_all quotable ns \<Longrightarrow> parse_qdescrs mem (0x20 # qdescrs_text ns @ r) = Parsed ns (parse_whsp r)"
proof -
  assume q: "list_all quotable ns"
  consider "ns = []" | n where "ns = [n]" | a b l where "ns = a # b # l" by (metis list.exhaust)
  then show ?thesis
  proof cases
    case 1
    then show ?thesis using enough qdescr_list_text [of "[]"] by (simp add: parse_qdescrs_names qdescrs_text_def ascii_def)
  next
    case 2
    then show ?thesis using q enough get_token_quoted [of n "0x20 # r"] by (simp add: parse_qdescrs_names qdescrs_text_def quoted_def)
  next
    case 3
    then show ?thesis using enough qdescr_list_text [OF q, of 3 "[]" "0x20 # r"]
      by (simp add: parse_qdescrs_names qdescrs_text_def ascii_def qdescr_list_whsp)
  qed
qed

lemma parse_names_text: "list_all quotable ns \<Longrightarrow> parse_names mem (0x20 # qdescrs_text ns @ r) = Parsed ns (parse_whsp r)"
  by (simp add: parse_names_def parse_qdescrs_text)

lemma parse_desc_text: "quotable d \<Longrightarrow> parse_desc mem (0x20 # quoted d @ r) = Parsed d (parse_whsp r)"
  using get_token_quoted [of d "0x20 # r"] by (simp add: parse_desc_def quoted_def)

lemma parse_woid_text: "word w \<Longrightarrow> parse_woid mem (0x20 # w @ 0x20 # r) = Parsed w (parse_whsp r)"
  using get_token_word [of w "0x20 # r"] by (simp add: parse_woid_def word_whsp)

lemma oid_list_text:
  "list_all word os \<Longrightarrow> oid_list mem q room res (concat (map (\<lambda>s. ascii ''$ '' @ s @ [0x20]) os) @ 0x29 # r) = Parsed (res @ os) (parse_whsp r)"
proof (induction os arbitrary: room res)
  case Nil
  then show ?case by (simp add: oid_list.simps)
next
  case (Cons w os)
  let ?r = "concat (map (\<lambda>s. ascii ''$ '' @ s @ [0x20]) os) @ 0x29 # r"
  have "parse_whsp (0x20 # ?r) = ?r" by (cases os) (simp_all add: ascii_def)
  moreover have "word w" "oid_list mem q m (res @ [w]) ?r = Parsed (res @ w # os) (parse_whsp r)" for m using Cons by simp_all
  ultimately show ?case using get_token_word [of w "0x20 # ?r"]
    by (subst oid_list.simps) (simp add: word_whsp ascii_def enough)
qed

lemma parse_oids_text: "os \<noteq> [] \<Longrightarrow> list_all word os \<Longrightarrow> parse_oids mem q (0x20 # oids_text os @ r) = Parsed os (parse_whsp r)"
proof -
  assume o: "os \<noteq> []" "list_all word os"
  consider n where "os = [n]" | a b l where "os = a # b # l" using o(1) by (metis list.exhaust)
  then show ?thesis
  proof cases
    case 1
    then show ?thesis using o enough get_token_word [of n "0x20 # r"] by (simp add: parse_oids_names oids_text_def word_whsp)
  next
    case 2
    let ?r = "concat (map (\<lambda>s. ascii ''$ '' @ s @ [0x20]) (b # l)) @ 0x29 # 0x20 # r"
    have "word a" "list_all word (b # l)" using o(2) 2 by simp_all
    moreover have "parse_whsp ?r = ?r" by (simp add: ascii_def)
    ultimately show ?thesis using 2 enough get_token_word [of a "0x20 # ?r"] oid_list_text [of "b # l" "q \<noteq> 0" 3 "[a]" "0x20 # r"]
      by (simp add: parse_oids_names oids_text_def ascii_def word_whsp)
  qed
qed

lemma parse_numericoid_text:
  assumes "dotted oid" "\<not> LDAP_DIGIT c" "c \<noteq> 0x2e"
  shows "parse_numericoid mem flags (oid @ c # r) = Parsed oid (c # r)"
  using dotted_start [OF assms(1)] numeric_oid_dotted [OF assms, of r] by (auto simp: parse_numericoid_def enough)

lemma dotted_whsp: "dotted oid \<Longrightarrow> parse_whsp (oid @ r) = oid @ r"
  by (rule word_whsp) (rule dotted_word)

lemma parse_oid_item_text: "dotted oid \<Longrightarrow> parse_oid_item mem flags (0x20 # oid @ 0x20 # r) = Parsed oid (parse_whsp r)"
  by (simp add: parse_oid_item_def dotted_whsp parse_numericoid_text)

lemma parse_noidlen_text:
  assumes "dotted oid" "0 \<le> len" "len < 2 ^ 31"
  shows "parse_noidlen mem flags (oid @ (if len \<noteq> 0 then 0x7b # int_digits len @ [0x7d] else []) @ 0x20 # r) = (len, Parsed oid (0x20 # r))"
proof (cases "len = 0")
  case True
  then show ?thesis using dotted_start [OF assms(1)] parse_numericoid_text [OF assms(1), of "0x20" 0 r]
    by (simp add: parse_noidlen_def)
next
  case False
  then show ?thesis
    using dotted_start [OF assms(1)] parse_numericoid_text [OF assms(1), of "0x7b" 0 "int_digits len @ 0x7d # 0x20 # r"] atoi_digits [OF assms(2,3)]
    by (simp add: parse_noidlen_def)
qed

lemma parse_extension_text:
  assumes "list_all quotable values"
  shows "parse_extension mem es sval (0x20 # qdescrs_text values @ r)
    = Parsed ((case es of None \<Rightarrow> [] | Some es \<Rightarrow> es) @ [\<lparr>lsei_name = sval, lsei_values = values\<rparr>]) (parse_whsp r)"
  using assms by (simp add: parse_extension_def parse_qdescrs_text add_extension_def enough split: option.split)

text \<open>One word of a description.\<close>

lemma parse_item:
  assumes "word w" "item w st code (0x20 # t) = Went st' code (parse_whsp r)"
  shows "parse_items mem item s st code (parse_whsp (w @ 0x20 # t)) = parse_items mem item s st' code (parse_whsp r)"
  using assms get_token_word [of w "0x20 # t"] by (subst parse_items.simps) (simp add: word_whsp)

lemma parse_given:
  assumes "word (ascii l)" "x = None \<Longrightarrow> st' = st"
    "\<And>y. x = Some y \<Longrightarrow> item (ascii l) st code (0x20 # f y @ r) = Went st' code (parse_whsp r)"
  shows "parse_items mem item s st code (parse_whsp (given x l f @ r)) = parse_items mem item s st' code (parse_whsp r)"
  using assms parse_item [of "ascii l" item st code] by (cases x) (simp_all add: given_def)

lemma parse_flagged:
  assumes "word (ascii l)" "\<not> b \<Longrightarrow> st' = st" "b \<Longrightarrow> item (ascii l) st code (0x20 # r) = Went st' code (parse_whsp r)"
  shows "parse_items mem item s st code (parse_whsp (flagged b l @ r)) = parse_items mem item s st' code (parse_whsp r)"
  using assms parse_item [of "ascii l" item st code r st' r s] by (cases b) (simp_all add: flagged_def)

text \<open>The extensions come last; \<open>add\<close> puts one at the end of the list.\<close>

lemma parse_extensions:
  assumes "list_all extension_ok es"
    "\<And>es' sval ss. word sval \<Longrightarrow> extension_word sval \<Longrightarrow> item sval (obj es', seen) code ss
      = store (parse_extension mem es' sval ss) (\<lambda>v. (obj (Some v), seen)) code"
  shows "parse_items mem item s (obj es', seen) code (parse_whsp (concat (map extension_text es) @ r))
    = parse_items mem item s (obj (if es = [] then es' else Some ((case es' of None \<Rightarrow> [] | Some es' \<Rightarrow> es') @ es)), seen) code (parse_whsp r)"
  using assms(1)
proof (induction es arbitrary: es')
  case (Cons e es)
  have e: "word (lsei_name e)" "extension_word (lsei_name e)" "list_all quotable (lsei_values e)" using Cons.prems by (simp_all add: extension_ok_def)
  let ?es = "(case es' of None \<Rightarrow> [] | Some es' \<Rightarrow> es') @ [e]"
  have "item (lsei_name e) (obj es', seen) code (0x20 # qdescrs_text (lsei_values e) @ concat (map extension_text es) @ r)
      = Went (obj (Some ?es), seen) code (parse_whsp (concat (map extension_text es) @ r))"
    using parse_extension_text [OF e(3), of es' "lsei_name e"] unfolding assms(2) [OF e(1,2)] store_def by (cases e) simp
  note parse_item [of "lsei_name e" item, OF e(1) this, of s]
  then show ?case using Cons.IH [of "Some ?es"] Cons.prems by (cases es'; cases "es = []"; simp add: extension_text_def [of e])
qed simp

lemma parse_description_text:
  assumes "given_oid x" "oid (the x @ 0x20 # items @ ascii '')'') = Went x code (parse_whsp (items @ ascii '')''))"
    "\<And>s. parse_items mem item s (obj x, []) code (parse_whsp (items @ ascii '')'')) = parse_items mem item s (o', seen) code (ascii '')'')"
  shows "parse_description mem bytes (Some (enclosed x items)) code oid obj item = Some (Returned (Some o') code (Some (enclosed x items)))"
proof -
  have "dotted (the x)" using assms(1) by auto
  then have "parse_whsp (0x20 # the x @ 0x20 # items @ ascii '')'') = the x @ 0x20 # items @ ascii '')''" by (simp add: dotted_whsp)
  moreover have "parse_items mem item s st code (ascii '')'') = Some (Returned (Some st) code (Some s))" for s st
    by (subst parse_items.simps) (simp add: ascii_def)
  ultimately show ?thesis using assms(2,3) enough by (simp add: parse_description_def enclosed_def ascii_Cons)
qed

lemma start_oid_text:
  "given_oid x \<Longrightarrow> start_oid (parse_numericoid mem flags (the x @ 0x20 # r)) code optional missing = Went x code (parse_whsp r)"
  by (auto simp: start_oid_def parse_numericoid_text)

lemma parse_extensions_text:
  assumes "extensions_ok x" "\<And>es' sval ss. extension_word sval \<Longrightarrow> item sval (obj es', seen) code ss
      = store (parse_extension mem es' sval ss) (\<lambda>v. (obj (Some v), seen)) code"
  shows "parse_items mem item s (obj None, seen) code (parse_whsp (extensions_text x @ r)) = parse_items mem item s (obj x, seen) code (parse_whsp r)"
proof (cases x)
  case (Some es)
  then have "es \<noteq> []" "list_all extension_ok es" using assms(1) by simp_all
  then show ?thesis using parse_extensions [of es item obj seen code s None r, OF _ assms(2)] Some by (simp add: extensions_text_def)
qed (simp add: extensions_text_def)

lemmas item_steps = once_def store_def seen_if_def

section \<open>Syntaxes and matching rules\<close>

lemma syntax_round_trip:
  assumes "syntax_ok syn" "syn_names syn = None"
  shows "\<exists>t. ldap_syntax2str mem syn = Some (Some t) \<and> ldap_str2syntax mem (Some t) code flags = Some (Returned (Some syn) code (Some t))"
proof -
  obtain oid desc es where syn: "syn = \<lparr>syn_oid = oid, syn_names = None, syn_desc = desc, syn_extensions = es\<rparr>" using assms(2) by (cases syn) simp
  have ok: "given_oid oid" "pred_option quotable desc" "extensions_ok es" using assms(1) by (simp_all add: syn syntax_ok_def)
  let ?items = "given desc ''DESC'' quoted @ extensions_text es"
  have "appends (prints [if_given desc (\<lambda>d. [print_literal mem ''DESC'', print_qdstring mem d]), print_whsp mem, print_extensions mem es]) ?items"
    using appends_prints(2) [OF appends_desc appends_prints(2) [OF appends_whsp appends_prints(2) [OF appends_extensions [OF ok(3)] appends_prints(1)]]]
    by (simp del: prints.simps)
  from printed_text [OF ok(1) this] have p: "ldap_syntax2str mem syn = Some (Some (enclosed oid ?items))" by (simp add: ldap_syntax2str_def syn)
  have "parse_items mem (syntax_item mem) s (\<lparr>syn_oid = oid, syn_names = None, syn_desc = None, syn_extensions = None\<rparr>, []) code
      (parse_whsp (given desc ''DESC'' quoted @ extensions_text es @ ascii '')''))
    = parse_items mem (syntax_item mem) s (\<lparr>syn_oid = oid, syn_names = None, syn_desc = desc, syn_extensions = None\<rparr>, seen_if (desc \<noteq> None) ''DESC'' [])
        code (parse_whsp (extensions_text es @ ascii '')''))" for s
    by (rule parse_given) (use ok(2) in \<open>simp_all add: syntax_item_def item_steps parse_desc_text\<close>)
  also have "\<dots> s = parse_items mem (syntax_item mem) s (syn, seen_if (desc \<noteq> None) ''DESC'' []) code (parse_whsp (ascii '')''))" for s
    unfolding syn by (rule parse_extensions_text [OF ok(3)]) (simp add: syntax_item_def extension_words)
  finally have "ldap_str2syntax mem (Some (enclosed oid ?items)) code flags = Some (Returned (Some syn) code (Some (enclosed oid ?items)))"
    unfolding ldap_str2syntax_def
    by (intro parse_description_text ok(1)) (simp_all add: start_oid_text ok(1) ascii_Cons)
  then show ?thesis using p by blast
qed

lemma matchingrule_steps:
  "names_ok x0 \<Longrightarrow> mr_names mr = None \<Longrightarrow> ascii ''NAME'' \<notin> set seen
    \<Longrightarrow> parse_items mem (matchingrule_item mem flags) s (mr, seen) code (parse_whsp (given x0 ''NAME'' qdescrs_text @ r))
      = parse_items mem (matchingrule_item mem flags) s (mr\<lparr>mr_names := x0\<rparr>, seen_if (x0 \<noteq> None) ''NAME'' seen) code (parse_whsp r)"
  "pred_option quotable x1 \<Longrightarrow> mr_desc mr = None \<Longrightarrow> ascii ''DESC'' \<notin> set seen
    \<Longrightarrow> parse_items mem (matchingrule_item mem flags) s (mr, seen) code (parse_whsp (given x1 ''DESC'' quoted @ r))
      = parse_items mem (matchingrule_item mem flags) s (mr\<lparr>mr_desc := x1\<rparr>, seen_if (x1 \<noteq> None) ''DESC'' seen) code (parse_whsp r)"
  "mr_obsolete mr = 0 \<Longrightarrow> ascii ''OBSOLETE'' \<notin> set seen
    \<Longrightarrow> parse_items mem (matchingrule_item mem flags) s (mr, seen) code (parse_whsp (flagged b ''OBSOLETE'' @ r))
      = parse_items mem (matchingrule_item mem flags) s (mr\<lparr>mr_obsolete := of_bool b\<rparr>, seen_if b ''OBSOLETE'' seen) code (parse_whsp r)"
  "pred_option dotted x3 \<Longrightarrow> mr_syntax_oid mr = None \<Longrightarrow> ascii ''SYNTAX'' \<notin> set seen
    \<Longrightarrow> parse_items mem (matchingrule_item mem flags) s (mr, seen) code (parse_whsp (given x3 ''SYNTAX'' (\<lambda>s. s @ [0x20]) @ r))
      = parse_items mem (matchingrule_item mem flags) s (mr\<lparr>mr_syntax_oid := x3\<rparr>, seen_if (x3 \<noteq> None) ''SYNTAX'' seen) code (parse_whsp r)"
  by (rule parse_given parse_flagged; cases mr; simp add: matchingrule_item_def item_steps parse_names_text parse_desc_text parse_oid_item_text LDAP_SCHEMA_YES_def)+

lemma attributetype_steps:
  "names_ok x0 \<Longrightarrow> at_names at = None \<Longrightarrow> ascii ''NAME'' \<notin> set seen
    \<Longrightarrow> parse_items mem (attributetype_item mem flags) s (at, seen) code (parse_whsp (given x0 ''NAME'' qdescrs_text @ r))
      = parse_items mem (attributetype_item mem flags) s (at\<lparr>at_names := x0\<rparr>, seen_if (x0 \<noteq> None) ''NAME'' seen) code (parse_whsp r)"
  "pred_option quotable x1 \<Longrightarrow> at_desc at = None \<Longrightarrow> ascii ''DESC'' \<notin> set seen
    \<Longrightarrow> parse_items mem (attributetype_item mem flags) s (at, seen) code (parse_whsp (given x1 ''DESC'' quoted @ r))
      = parse_items mem (attributetype_item mem flags) s (at\<lparr>at_desc := x1\<rparr>, seen_if (x1 \<noteq> None) ''DESC'' seen) code (parse_whsp r)"
  "at_obsolete at = 0 \<Longrightarrow> ascii ''OBSOLETE'' \<notin> set seen
    \<Longrightarrow> parse_items mem (attributetype_item mem flags) s (at, seen) code (parse_whsp (flagged b ''OBSOLETE'' @ r))
      = parse_items mem (attributetype_item mem flags) s (at\<lparr>at_obsolete := of_bool b\<rparr>, seen_if b ''OBSOLETE'' seen) code (parse_whsp r)"
  "pred_option word x3 \<Longrightarrow> at_sup_oid at = None \<Longrightarrow> ascii ''SUP'' \<notin> set seen
    \<Longrightarrow> parse_items mem (attributetype_item mem flags) s (at, seen) code (parse_whsp (given x3 ''SUP'' (\<lambda>s. s @ [0x20]) @ r))
      = parse_items mem (attributetype_item mem flags) s (at\<lparr>at_sup_oid := x3\<rparr>, seen_if (x3 \<noteq> None) ''SUP'' seen) code (parse_whsp r)"
  "pred_option word x4 \<Longrightarrow> at_equality_oid at = None \<Longrightarrow> ascii ''EQUALITY'' \<notin> set seen
    \<Longrightarrow> parse_items mem (attributetype_item mem flags) s (at, seen) code (parse_whsp (given x4 ''EQUALITY'' (\<lambda>s. s @ [0x20]) @ r))
      = parse_items mem (attributetype_item mem flags) s (at\<lparr>at_equality_oid := x4\<rparr>, seen_if (x4 \<noteq> None) ''EQUALITY'' seen) code (parse_whsp r)"
  "pred_option word x5 \<Longrightarrow> at_ordering_oid at = None \<Longrightarrow> ascii ''ORDERING'' \<notin> set seen
    \<Longrightarrow> parse_items mem (attributetype_item mem flags) s (at, seen) code (parse_whsp (given x5 ''ORDERING'' (\<lambda>s. s @ [0x20]) @ r))
      = parse_items mem (attributetype_item mem flags) s (at\<lparr>at_ordering_oid := x5\<rparr>, seen_if (x5 \<noteq> None) ''ORDERING'' seen) code (parse_whsp r)"
  "pred_option word x6 \<Longrightarrow> at_substr_oid at = None \<Longrightarrow> ascii ''SUBSTR'' \<notin> set seen
    \<Longrightarrow> parse_items mem (attributetype_item mem flags) s (at, seen) code (parse_whsp (given x6 ''SUBSTR'' (\<lambda>s. s @ [0x20]) @ r))
      = parse_items mem (attributetype_item mem flags) s (at\<lparr>at_substr_oid := x6\<rparr>, seen_if (x6 \<noteq> None) ''SUBSTR'' seen) code (parse_whsp r)"
  "at_single_value at = 0
    \<Longrightarrow> parse_items mem (attributetype_item mem flags) s (at, seen) code (parse_whsp (flagged b ''SINGLE-VALUE'' @ r))
      = parse_items mem (attributetype_item mem flags) s (at\<lparr>at_single_value := of_bool b\<rparr>, seen) code (parse_whsp r)"
  "at_collective at = 0
    \<Longrightarrow> parse_items mem (attributetype_item mem flags) s (at, seen) code (parse_whsp (flagged b ''COLLECTIVE'' @ r))
      = parse_items mem (attributetype_item mem flags) s (at\<lparr>at_collective := of_bool b\<rparr>, seen) code (parse_whsp r)"
  "at_no_user_mod at = 0
    \<Longrightarrow> parse_items mem (attributetype_item mem flags) s (at, seen) code (parse_whsp (flagged b ''NO-USER-MODIFICATION'' @ r))
      = parse_items mem (attributetype_item mem flags) s (at\<lparr>at_no_user_mod := of_bool b\<rparr>, seen) code (parse_whsp r)"
  by (rule parse_given parse_flagged; cases at; simp add: attributetype_item_def item_steps parse_names_text parse_desc_text parse_woid_text LDAP_SCHEMA_YES_def)+

lemma objectclass_steps:
  "names_ok x0 \<Longrightarrow> oc_names oc = None \<Longrightarrow> ascii ''NAME'' \<notin> set seen
    \<Longrightarrow> parse_items mem (objectclass_item mem flags) s (oc, seen) code (parse_whsp (given x0 ''NAME'' qdescrs_text @ r))
      = parse_items mem (objectclass_item mem flags) s (oc\<lparr>oc_names := x0\<rparr>, seen_if (x0 \<noteq> None) ''NAME'' seen) code (parse_whsp r)"
  "pred_option quotable x1 \<Longrightarrow> oc_desc oc = None \<Longrightarrow> ascii ''DESC'' \<notin> set seen
    \<Longrightarrow> parse_items mem (objectclass_item mem flags) s (oc, seen) code (parse_whsp (given x1 ''DESC'' quoted @ r))
      = parse_items mem (objectclass_item mem flags) s (oc\<lparr>oc_desc := x1\<rparr>, seen_if (x1 \<noteq> None) ''DESC'' seen) code (parse_whsp r)"
  "oc_obsolete oc = 0 \<Longrightarrow> ascii ''OBSOLETE'' \<notin> set seen
    \<Longrightarrow> parse_items mem (objectclass_item mem flags) s (oc, seen) code (parse_whsp (flagged b ''OBSOLETE'' @ r))
      = parse_items mem (objectclass_item mem flags) s (oc\<lparr>oc_obsolete := of_bool b\<rparr>, seen_if b ''OBSOLETE'' seen) code (parse_whsp r)"
  "oids_ok x3 \<Longrightarrow> oc_sup_oids oc = None \<Longrightarrow> ascii ''SUP'' \<notin> set seen
    \<Longrightarrow> parse_items mem (objectclass_item mem flags) s (oc, seen) code (parse_whsp (given x3 ''SUP'' oids_text @ r))
      = parse_items mem (objectclass_item mem flags) s (oc\<lparr>oc_sup_oids := x3\<rparr>, seen_if (x3 \<noteq> None) ''SUP'' seen) code (parse_whsp r)"
  "oids_ok x4 \<Longrightarrow> oc_at_oids_must oc = None \<Longrightarrow> ascii ''MUST'' \<notin> set seen
    \<Longrightarrow> parse_items mem (objectclass_item mem flags) s (oc, seen) code (parse_whsp (given x4 ''MUST'' oids_text @ r))
      = parse_items mem (objectclass_item mem flags) s (oc\<lparr>oc_at_oids_must := x4\<rparr>, seen_if (x4 \<noteq> None) ''MUST'' seen) code (parse_whsp r)"
  "oids_ok x5 \<Longrightarrow> oc_at_oids_may oc = None \<Longrightarrow> ascii ''MAY'' \<notin> set seen
    \<Longrightarrow> parse_items mem (objectclass_item mem flags) s (oc, seen) code (parse_whsp (given x5 ''MAY'' oids_text @ r))
      = parse_items mem (objectclass_item mem flags) s (oc\<lparr>oc_at_oids_may := x5\<rparr>, seen_if (x5 \<noteq> None) ''MAY'' seen) code (parse_whsp r)"
  by (rule parse_given parse_flagged; cases oc; simp add: objectclass_item_def item_steps parse_names_text parse_desc_text parse_oids_text LDAP_SCHEMA_YES_def)+

lemma parse_usage_text: "u \<in> {1, 2, 3} \<Longrightarrow> parse_usage mem (0x20 # ascii (usage_name u) @ 0x20 # r) = Parsed u (parse_whsp r)"
proof -
  assume "u \<in> {1, 2, 3}"
  then consider "u = 1" | "u = 2" | "u = 3" by blast
  then have c: "(if strcasecmp (ascii (usage_name u)) (ascii ''userApplications'') = 0 then Parsed LDAP_SCHEMA_USER_APPLICATIONS (parse_whsp (0x20 # r))
      else if strcasecmp (ascii (usage_name u)) (ascii ''directoryOperation'') = 0 then Parsed LDAP_SCHEMA_DIRECTORY_OPERATION (parse_whsp (0x20 # r))
      else if strcasecmp (ascii (usage_name u)) (ascii ''distributedOperation'') = 0 then Parsed LDAP_SCHEMA_DISTRIBUTED_OPERATION (parse_whsp (0x20 # r))
      else if strcasecmp (ascii (usage_name u)) (ascii ''dSAOperation'') = 0 then Parsed LDAP_SCHEMA_DSA_OPERATION (parse_whsp (0x20 # r))
      else Failed LDAP_SCHERR_UNEXPTOKEN (Some (0x20 # r))) = Parsed u (parse_whsp r)"
    by cases (simp_all add: strcasecmp_equal usage_name_def LDAP_SCHEMA_DIRECTORY_OPERATION_def LDAP_SCHEMA_DISTRIBUTED_OPERATION_def
        LDAP_SCHEMA_DSA_OPERATION_def LDAP_SCHEMA_USER_APPLICATIONS_def ascii_def tolower_def)
  have "get_token mem (parse_whsp (0x20 # ascii (usage_name u) @ 0x20 # r)) = (TK_BAREWORD (ascii (usage_name u)), 0x20 # r)"
    using get_token_word [of "ascii (usage_name u)" "0x20 # r"] word_whsp [of "ascii (usage_name u)" "0x20 # r"] by simp
  then show ?thesis using c by (simp add: parse_usage_def split del: if_split)
qed

lemma attributetype_syntax:
  assumes "pred_option dotted x" "0 \<le> len" "len < 2 ^ 31" "x = None \<longrightarrow> len = 0" "at_syntax_oid at = None" "at_syntax_len at = 0"
    "ascii ''SYNTAX'' \<notin> set seen"
  shows "parse_items mem (attributetype_item mem flags) s (at, seen) code (parse_whsp (given x ''SYNTAX'' (\<lambda>s. noidlen_text s len) @ r))
    = parse_items mem (attributetype_item mem flags) s (at\<lparr>at_syntax_oid := x, at_syntax_len := len\<rparr>, seen_if (x \<noteq> None) ''SYNTAX'' seen) code (parse_whsp r)"
proof (rule parse_given)
  fix oid assume x: "x = Some oid"
  then have "dotted oid" using assms(1) by simp
  then have "syntax_of_type mem flags at code (0x20 # noidlen_text oid len @ r) = Went (at\<lparr>at_syntax_oid := x, at_syntax_len := len\<rparr>) code (parse_whsp r)"
    using parse_noidlen_text [OF _ assms(2,3), of oid flags r]
    by (simp add: syntax_of_type_def noidlen_text_def dotted_whsp x del: if_split split del: if_split)
  then show "attributetype_item mem flags (ascii ''SYNTAX'') (at, seen) code (0x20 # noidlen_text oid len @ r)
      = Went (at\<lparr>at_syntax_oid := x, at_syntax_len := len\<rparr>, seen_if (x \<noteq> None) ''SYNTAX'' seen) code (parse_whsp r)"
    using assms(7) x by (simp add: attributetype_item_def item_steps seeing_def)
qed (use assms in \<open>cases at; simp add: seen_if_def\<close>)+

lemma attributetype_usage:
  assumes "u \<in> {0, 1, 2, 3}" "at_usage at = 0" "ascii ''USAGE'' \<notin> set seen"
  shows "parse_items mem (attributetype_item mem flags) s (at, seen) code
      (parse_whsp (usage_text u @ r))
    = parse_items mem (attributetype_item mem flags) s (at\<lparr>at_usage := u\<rparr>, seen_if (u \<noteq> 0) ''USAGE'' seen) code (parse_whsp r)"
  unfolding usage_text_def
  by (rule parse_given) (use assms in \<open>cases at; auto simp: attributetype_item_def item_steps parse_usage_text split: if_splits\<close>)+

lemma objectclass_kind_step:
  assumes "k \<in> {0, 1, 2}" "seen_kind \<notin> set seen"
  shows "parse_items mem (objectclass_item mem flags) s (oc, seen) code (parse_whsp (ascii (kind_name k) @ 0x20 # r))
    = parse_items mem (objectclass_item mem flags) s (oc\<lparr>oc_kind := k\<rparr>, seen_kind # seen) code (parse_whsp r)"
  by (rule parse_item [OF words(15)])
    (use assms in \<open>auto simp: objectclass_item_def objectclass_kind_def once_def kind_name_def LDAP_SCHEMA_ABSTRACT_def
      LDAP_SCHEMA_STRUCTURAL_def LDAP_SCHEMA_AUXILIARY_def\<close>)

lemma matchingrule_extensions: "extensions_ok x \<Longrightarrow> mr_extensions mr = None \<Longrightarrow>
    parse_items mem (matchingrule_item mem flags) s (mr, seen) code (parse_whsp (extensions_text x @ r))
      = parse_items mem (matchingrule_item mem flags) s (mr\<lparr>mr_extensions := x\<rparr>, seen) code (parse_whsp r)"
  using parse_extensions_text [of x "matchingrule_item mem flags" "\<lambda>e. mr\<lparr>mr_extensions := e\<rparr>" seen code s r]
  by (cases mr) (simp add: matchingrule_item_def extension_words)

lemma attributetype_extensions: "extensions_ok x \<Longrightarrow> at_extensions at = None \<Longrightarrow>
    parse_items mem (attributetype_item mem flags) s (at, seen) code (parse_whsp (extensions_text x @ r))
      = parse_items mem (attributetype_item mem flags) s (at\<lparr>at_extensions := x\<rparr>, seen) code (parse_whsp r)"
  using parse_extensions_text [of x "attributetype_item mem flags" "\<lambda>e. at\<lparr>at_extensions := e\<rparr>" seen code s r]
  by (cases at) (simp add: attributetype_item_def extension_words)

lemma objectclass_extensions: "extensions_ok x \<Longrightarrow> oc_extensions oc = None \<Longrightarrow>
    parse_items mem (objectclass_item mem flags) s (oc, seen) code (parse_whsp (extensions_text x @ r))
      = parse_items mem (objectclass_item mem flags) s (oc\<lparr>oc_extensions := x\<rparr>, seen) code (parse_whsp r)"
  using parse_extensions_text [of x "objectclass_item mem flags" "\<lambda>e. oc\<lparr>oc_extensions := e\<rparr>" seen code s r]
  by (cases oc) (simp add: objectclass_item_def extension_words)

lemma appends_usage:
  "appends (prints [if_yes (u \<noteq> LDAP_SCHEMA_USER_APPLICATIONS) [print_literal mem ''USAGE'', print_whsp mem, print_literal mem (usage_name u)], print_whsp mem])
    (usage_text u)"
proof (cases "u = 0")
  case True
  then show ?thesis using appends_prints(2) [OF _ appends_prints(2) [OF appends_whsp appends_prints(1)], of Some "[]"]
    by (simp add: if_yes_def LDAP_SCHEMA_USER_APPLICATIONS_def usage_text_def given_def appends_def extends_nothing)
next
  case False
  have "extends (prints [prints [print_literal mem ''USAGE'', print_whsp mem, print_literal mem (usage_name u)], print_whsp mem]) v
      (v @ ascii ''USAGE'' @ 0x20 # ascii (usage_name u) @ [0x20])" for v
    by (rule extends_eq, (rule printing)+)
      (use spaced_label [of "usage_name u" "v @ ascii ''USAGE'' @ [0x20]"] in \<open>simp add: spaced_label\<close>)
  then show ?thesis using False by (simp add: if_yes_def LDAP_SCHEMA_USER_APPLICATIONS_def usage_text_def given_def appends_def spacy_def del: prints.simps)
qed

lemmas appended = appends_prints(2) [OF appends_names] appends_prints(2) [OF appends_desc] appends_prints(2) [OF appends_flag]
  appends_prints(2) [OF appends_word] appends_prints(2) [OF appends_oids] appends_prints(2) [OF appends_oid] appends_prints(2) [OF appends_noidlen]
  appends_prints(2) [OF appends_literal] appends_prints(2) [OF appends_usage] appends_prints(2) [OF appends_whsp]
  appends_prints(2) [OF appends_extensions] appends_prints(1)

lemma dotted_words: "pred_option dotted x \<Longrightarrow> pred_option word x"
  by (cases x) (simp_all add: dotted_word)

lemma matchingrule_round_trip:
  assumes "matchingrule_ok mr"
  shows "\<exists>t. ldap_matchingrule2str mem mr = Some (Some t) \<and> ldap_str2matchingrule mem (Some t) code flags = Some (Returned (Some mr) code (Some t))"
proof -
  obtain oid names desc obsolete syn es where mr: "mr = \<lparr>mr_oid = oid, mr_names = names, mr_desc = desc, mr_obsolete = obsolete,
      mr_syntax_oid = syn, mr_extensions = es\<rparr>" by (cases mr)
  have ok: "given_oid oid" "names_ok names" "pred_option quotable desc" "obsolete = of_bool (obsolete = LDAP_SCHEMA_YES)" "pred_option dotted syn"
    "extensions_ok es" using assms by (auto simp: mr matchingrule_ok_def LDAP_SCHEMA_YES_def)
  let ?items = "given names ''NAME'' qdescrs_text @ given desc ''DESC'' quoted @ flagged (obsolete = LDAP_SCHEMA_YES) ''OBSOLETE''
    @ given syn ''SYNTAX'' (\<lambda>s. s @ [0x20]) @ extensions_text es"
  have a: "appends (prints [if_given names (\<lambda>ns. [print_literal mem ''NAME'', print_qdescrs mem ns]),
     if_given desc (\<lambda>d. [print_literal mem ''DESC'', print_qdstring mem d]),
     if_yes (obsolete = LDAP_SCHEMA_YES) [print_literal mem ''OBSOLETE'', print_whsp mem],
     if_given syn (\<lambda>s. [print_literal mem ''SYNTAX'', print_whsp mem, append_to_safe_string mem s, print_whsp mem]),
     print_whsp mem, print_extensions mem es]) (given names ''NAME'' qdescrs_text @ given desc ''DESC'' quoted @ flagged (obsolete = LDAP_SCHEMA_YES) ''OBSOLETE''
    @ given syn ''SYNTAX'' (\<lambda>s. s @ [0x20]) @ [] @ extensions_text es @ [])"
    by (intro appended labels ok dotted_words)
  have p: "ldap_matchingrule2str mem mr = Some (Some (enclosed oid ?items))"
    using printed_text [OF ok(1) a] by (simp add: ldap_matchingrule2str_def mr)
  have "parse_items mem (matchingrule_item mem flags) s (\<lparr>mr_oid = oid, mr_names = None, mr_desc = None, mr_obsolete = 0, mr_syntax_oid = None, mr_extensions = None\<rparr>, [])
      code (parse_whsp (?items @ ascii '')''))
    = parse_items mem (matchingrule_item mem flags) s (mr, seen_if (syn \<noteq> None) ''SYNTAX'' (seen_if (obsolete = LDAP_SCHEMA_YES) ''OBSOLETE''
        (seen_if (desc \<noteq> None) ''DESC'' (seen_if (names \<noteq> None) ''NAME'' [])))) code (parse_whsp (ascii '')''))" for s
    using ok(2-6) by (simp add: matchingrule_steps matchingrule_extensions mr del: of_bool_eq_iff)
  then have "ldap_str2matchingrule mem (Some (enclosed oid ?items)) code flags = Some (Returned (Some mr) code (Some (enclosed oid ?items)))"
    unfolding ldap_str2matchingrule_def
    by (intro parse_description_text ok(1)) (simp_all add: start_oid_text ok(1) ascii_Cons)
  then show ?thesis using p by blast
qed

definition attributetype_text :: "ldap_attributetype \<Rightarrow> octets" where
  "attributetype_text at = given (at_names at) ''NAME'' qdescrs_text @ given (at_desc at) ''DESC'' quoted
    @ flagged (at_obsolete at = LDAP_SCHEMA_YES) ''OBSOLETE'' @ given (at_sup_oid at) ''SUP'' (\<lambda>s. s @ [0x20])
    @ given (at_equality_oid at) ''EQUALITY'' (\<lambda>s. s @ [0x20]) @ given (at_ordering_oid at) ''ORDERING'' (\<lambda>s. s @ [0x20])
    @ given (at_substr_oid at) ''SUBSTR'' (\<lambda>s. s @ [0x20]) @ given (at_syntax_oid at) ''SYNTAX'' (\<lambda>s. noidlen_text s (at_syntax_len at))
    @ flagged (at_single_value at = LDAP_SCHEMA_YES) ''SINGLE-VALUE'' @ flagged (at_collective at = LDAP_SCHEMA_YES) ''COLLECTIVE''
    @ flagged (at_no_user_mod at = LDAP_SCHEMA_YES) ''NO-USER-MODIFICATION''
    @ usage_text (at_usage at)
    @ extensions_text (at_extensions at)"

lemma attributetype_printed:
  assumes "attributetype_ok at"
  shows "ldap_attributetype2str mem at = Some (Some (enclosed (at_oid at) (attributetype_text at)))"
proof -
  let ?y = "\<lambda>b l. if_yes b [print_literal mem l, print_whsp mem]"
  have ok: "given_oid (at_oid at)" "pred_option word (at_sup_oid at)" "pred_option word (at_equality_oid at)" "pred_option word (at_ordering_oid at)"
    "pred_option word (at_substr_oid at)" "pred_option dotted (at_syntax_oid at)" "extensions_ok (at_extensions at)"
    using assms by (simp_all add: attributetype_ok_def)
  have a: "appends (prints [if_given (at_names at) (\<lambda>ns. [print_literal mem ''NAME'', print_qdescrs mem ns]),
     if_given (at_desc at) (\<lambda>d. [print_literal mem ''DESC'', print_qdstring mem d]),
     ?y (at_obsolete at = LDAP_SCHEMA_YES) ''OBSOLETE'',
     print_woid_of mem ''SUP'' (at_sup_oid at), print_woid_of mem ''EQUALITY'' (at_equality_oid at),
     print_woid_of mem ''ORDERING'' (at_ordering_oid at), print_woid_of mem ''SUBSTR'' (at_substr_oid at),
     if_given (at_syntax_oid at) (\<lambda>s. [print_literal mem ''SYNTAX'', print_whsp mem, print_noidlen mem (Some s) (at_syntax_len at), print_whsp mem]),
     ?y (at_single_value at = LDAP_SCHEMA_YES) ''SINGLE-VALUE'', ?y (at_collective at = LDAP_SCHEMA_YES) ''COLLECTIVE'',
     ?y (at_no_user_mod at = LDAP_SCHEMA_YES) ''NO-USER-MODIFICATION'',
     prints [if_yes (at_usage at \<noteq> LDAP_SCHEMA_USER_APPLICATIONS)
         [print_literal mem ''USAGE'', print_whsp mem, print_literal mem (usage_name (at_usage at))], print_whsp mem],
     print_extensions mem (at_extensions at)]) (given (at_names at) ''NAME'' qdescrs_text @ given (at_desc at) ''DESC'' quoted
    @ flagged (at_obsolete at = LDAP_SCHEMA_YES) ''OBSOLETE'' @ given (at_sup_oid at) ''SUP'' (\<lambda>s. s @ [0x20])
    @ given (at_equality_oid at) ''EQUALITY'' (\<lambda>s. s @ [0x20]) @ given (at_ordering_oid at) ''ORDERING'' (\<lambda>s. s @ [0x20])
    @ given (at_substr_oid at) ''SUBSTR'' (\<lambda>s. s @ [0x20]) @ given (at_syntax_oid at) ''SYNTAX'' (\<lambda>s. noidlen_text s (at_syntax_len at))
    @ flagged (at_single_value at = LDAP_SCHEMA_YES) ''SINGLE-VALUE'' @ flagged (at_collective at = LDAP_SCHEMA_YES) ''COLLECTIVE''
    @ flagged (at_no_user_mod at = LDAP_SCHEMA_YES) ''NO-USER-MODIFICATION''
    @ usage_text (at_usage at)
    @ extensions_text (at_extensions at) @ [])"
    by (intro appended labels ok dotted_words)
  show ?thesis using printed_text [OF ok(1) a] by (simp add: ldap_attributetype2str_def attributetype_text_def)
qed

lemma attributetype_parsed:
  assumes "attributetype_ok at"
  shows "ldap_str2attributetype mem (Some (enclosed (at_oid at) (attributetype_text at))) code flags
    = Some (Returned (Some at) code (Some (enclosed (at_oid at) (attributetype_text at))))"
proof -
  obtain oid names desc obsolete sup eq ord sub syn len single coll nomod usage es where at: "at = \<lparr>at_oid = oid, at_names = names, at_desc = desc,
      at_obsolete = obsolete, at_sup_oid = sup, at_equality_oid = eq, at_ordering_oid = ord, at_substr_oid = sub, at_syntax_oid = syn,
      at_syntax_len = len, at_single_value = single, at_collective = coll, at_no_user_mod = nomod, at_usage = usage, at_extensions = es\<rparr>"
    by (cases at)
  have ok: "given_oid oid" "names_ok names" "pred_option quotable desc" "pred_option word sup" "pred_option word eq" "pred_option word ord"
    "pred_option word sub" "pred_option dotted syn" "0 \<le> len" "len < 2 ^ 31" "syn = None \<longrightarrow> len = 0" "usage \<in> {0, 1, 2, 3}" "extensions_ok es"
    "of_bool (obsolete = LDAP_SCHEMA_YES) = obsolete" "of_bool (single = LDAP_SCHEMA_YES) = single" "of_bool (coll = LDAP_SCHEMA_YES) = coll"
    "of_bool (nomod = LDAP_SCHEMA_YES) = nomod"
    using assms by (auto simp: at attributetype_ok_def LDAP_SCHEMA_YES_def)
  let ?seen = "seen_if (usage \<noteq> 0) ''USAGE'' (seen_if (syn \<noteq> None) ''SYNTAX'' (seen_if (sub \<noteq> None) ''SUBSTR'' (seen_if (ord \<noteq> None) ''ORDERING''
    (seen_if (eq \<noteq> None) ''EQUALITY'' (seen_if (sup \<noteq> None) ''SUP'' (seen_if (obsolete = LDAP_SCHEMA_YES) ''OBSOLETE''
    (seen_if (desc \<noteq> None) ''DESC'' (seen_if (names \<noteq> None) ''NAME'' []))))))))"
  have "parse_items mem (attributetype_item mem flags) s (\<lparr>at_oid = oid, at_names = None, at_desc = None, at_obsolete = 0, at_sup_oid = None,
        at_equality_oid = None, at_ordering_oid = None, at_substr_oid = None, at_syntax_oid = None, at_syntax_len = 0, at_single_value = 0,
        at_collective = 0, at_no_user_mod = 0, at_usage = 0, at_extensions = None\<rparr>, [])
      code (parse_whsp (attributetype_text at @ ascii '')''))
    = parse_items mem (attributetype_item mem flags) s (at, ?seen) code (parse_whsp (ascii '')''))" for s
    using ok(2-) unfolding attributetype_text_def append_assoc
    by (simp add: attributetype_steps attributetype_syntax attributetype_usage attributetype_extensions at del: of_bool_eq_iff split del: if_split)
  then show ?thesis
    unfolding ldap_str2attributetype_def
    by (intro parse_description_text) (simp_all add: start_oid_text ok(1) ascii_Cons at)
qed

definition objectclass_text :: "ldap_objectclass \<Rightarrow> octets" where
  "objectclass_text oc = given (oc_names oc) ''NAME'' qdescrs_text @ given (oc_desc oc) ''DESC'' quoted
    @ flagged (oc_obsolete oc = LDAP_SCHEMA_YES) ''OBSOLETE'' @ given (oc_sup_oids oc) ''SUP'' oids_text
    @ (ascii (kind_name (oc_kind oc)) @ [0x20]) @ given (oc_at_oids_must oc) ''MUST'' oids_text
    @ given (oc_at_oids_may oc) ''MAY'' oids_text @ extensions_text (oc_extensions oc)"

lemma objectclass_printed:
  assumes "objectclass_ok oc"
  shows "ldap_objectclass2str mem oc = Some (Some (enclosed (oc_oid oc) (objectclass_text oc)))"
proof -
  have ok: "given_oid (oc_oid oc)" "oids_ok (oc_sup_oids oc)" "oids_ok (oc_at_oids_must oc)" "oids_ok (oc_at_oids_may oc)" "extensions_ok (oc_extensions oc)"
    using assms by (simp_all add: objectclass_ok_def)
  have a: "appends (prints [if_given (oc_names oc) (\<lambda>ns. [print_literal mem ''NAME'', print_qdescrs mem ns]),
     if_given (oc_desc oc) (\<lambda>d. [print_literal mem ''DESC'', print_qdstring mem d]),
     if_yes (oc_obsolete oc = LDAP_SCHEMA_YES) [print_literal mem ''OBSOLETE'', print_whsp mem],
     print_oids_of mem ''SUP'' (oc_sup_oids oc),
     prints [print_literal mem (kind_name (oc_kind oc)), print_whsp mem],
     print_oids_of mem ''MUST'' (oc_at_oids_must oc), print_oids_of mem ''MAY'' (oc_at_oids_may oc),
     print_whsp mem, print_extensions mem (oc_extensions oc)])
   (given (oc_names oc) ''NAME'' qdescrs_text @ given (oc_desc oc) ''DESC'' quoted
    @ flagged (oc_obsolete oc = LDAP_SCHEMA_YES) ''OBSOLETE'' @ given (oc_sup_oids oc) ''SUP'' oids_text
    @ (ascii (kind_name (oc_kind oc)) @ [0x20]) @ given (oc_at_oids_must oc) ''MUST'' oids_text
    @ given (oc_at_oids_may oc) ''MAY'' oids_text @ [] @ extensions_text (oc_extensions oc) @ [])"
    by (intro appended labels ok)
  show ?thesis using printed_text [OF ok(1) a] by (simp add: ldap_objectclass2str_def objectclass_text_def del: prints.simps)
qed

lemma objectclass_parsed:
  assumes "objectclass_ok oc"
  shows "ldap_str2objectclass mem (Some (enclosed (oc_oid oc) (objectclass_text oc))) code flags
    = Some (Returned (Some oc) code (Some (enclosed (oc_oid oc) (objectclass_text oc))))"
proof -
  obtain oid names desc obsolete sups kind must may es where oc: "oc = \<lparr>oc_oid = oid, oc_names = names, oc_desc = desc, oc_obsolete = obsolete,
      oc_sup_oids = sups, oc_kind = kind, oc_at_oids_must = must, oc_at_oids_may = may, oc_extensions = es\<rparr>"
    by (cases oc)
  have ok: "given_oid oid" "names_ok names" "pred_option quotable desc" "oids_ok sups" "kind \<in> {0, 1, 2}" "oids_ok must" "oids_ok may" "extensions_ok es"
    "of_bool (obsolete = LDAP_SCHEMA_YES) = obsolete"
    using assms by (auto simp: oc objectclass_ok_def LDAP_SCHEMA_YES_def)
  have k: "seen_kind \<noteq> ascii ''NAME''" "seen_kind \<noteq> ascii ''DESC''" "seen_kind \<noteq> ascii ''OBSOLETE''" "seen_kind \<noteq> ascii ''SUP''"
    "seen_kind \<noteq> ascii ''MUST''" "seen_kind \<noteq> ascii ''MAY''"
    unfolding seen_kind_def ascii_inject by simp_all
  let ?seen = "seen_kind # seen_if (sups \<noteq> None) ''SUP'' (seen_if (obsolete = LDAP_SCHEMA_YES) ''OBSOLETE''
    (seen_if (desc \<noteq> None) ''DESC'' (seen_if (names \<noteq> None) ''NAME'' [])))"
  have n: "seen_kind \<notin> set (tl ?seen)" using k by (simp add: seen_if_def)
  have "parse_items mem (objectclass_item mem flags) s (\<lparr>oc_oid = oid, oc_names = None, oc_desc = None, oc_obsolete = 0, oc_sup_oids = None,
        oc_kind = LDAP_SCHEMA_STRUCTURAL, oc_at_oids_must = None, oc_at_oids_may = None, oc_extensions = None\<rparr>, [])
      code (parse_whsp (objectclass_text oc @ ascii '')''))
    = parse_items mem (objectclass_item mem flags) s
        (oc, seen_if (may \<noteq> None) ''MAY'' (seen_if (must \<noteq> None) ''MUST'' ?seen)) code (parse_whsp (ascii '')''))" for s
    using ok(2-) k n unfolding objectclass_text_def append_assoc
    by (simp add: objectclass_steps objectclass_kind_step objectclass_extensions oc eq_commute [of _ seen_kind] del: of_bool_eq_iff split del: if_split)
  then show ?thesis
    unfolding ldap_str2objectclass_def
    by (intro parse_description_text) (simp_all add: start_oid_text ok(1) ascii_Cons oc)
qed

end

section \<open>Round trip\<close>

text \<open>With enough memory.\<close>

interpretation plentiful: memory "\<lambda>_. True"
  by unfold_locales simp

text \<open>
  C24: What the library prints of a well-formed matching rule, attribute type or object class, or of a syntax (names aside, which it does not
  print), its parser reads back as the same structure, whatever liberties it takes, leaving the caller's code alone.
\<close>

theorem schema_round_trip:
  "(syntax_ok syn \<and> syn_names syn = None \<longrightarrow>
      (\<exists>t. ldap_syntax2str (\<lambda>_. True) syn = Some (Some t) \<and> ldap_str2syntax (\<lambda>_. True) (Some t) code flags = Some (Returned (Some syn) code (Some t))))
    \<and> (matchingrule_ok mr \<longrightarrow>
      (\<exists>t. ldap_matchingrule2str (\<lambda>_. True) mr = Some (Some t)
        \<and> ldap_str2matchingrule (\<lambda>_. True) (Some t) code flags = Some (Returned (Some mr) code (Some t))))
    \<and> (attributetype_ok at \<longrightarrow>
      (\<exists>t. ldap_attributetype2str (\<lambda>_. True) at = Some (Some t)
        \<and> ldap_str2attributetype (\<lambda>_. True) (Some t) code flags = Some (Returned (Some at) code (Some t))))
    \<and> (objectclass_ok oc \<longrightarrow>
      (\<exists>t. ldap_objectclass2str (\<lambda>_. True) oc = Some (Some t)
        \<and> ldap_str2objectclass (\<lambda>_. True) (Some t) code flags = Some (Returned (Some oc) code (Some t))))"
  using plentiful.syntax_round_trip plentiful.matchingrule_round_trip plentiful.attributetype_printed plentiful.attributetype_parsed
    plentiful.objectclass_printed plentiful.objectclass_parsed by blast

text \<open>Examples.\<close>

definition sample_syntax :: ldap_syntax where
  "sample_syntax = \<lparr>syn_oid = Some (ascii ''1.2''), syn_names = None, syn_desc = Some (ascii ''Bits''), syn_extensions = None\<rparr>"

definition sample_rule :: ldap_matchingrule where
  "sample_rule = \<lparr>mr_oid = Some (ascii ''2.5''), mr_names = Some [ascii ''m''], mr_desc = None, mr_obsolete = 1,
      mr_syntax_oid = Some (ascii ''1.2''), mr_extensions = None\<rparr>"

definition sample_type :: ldap_attributetype where
  "sample_type = \<lparr>at_oid = Some (ascii ''2.5''), at_names = Some [ascii ''cn'', ascii ''c n''], at_desc = None, at_obsolete = 0,
      at_sup_oid = Some (ascii ''name''), at_equality_oid = None, at_ordering_oid = None, at_substr_oid = None,
      at_syntax_oid = Some (ascii ''1.2''), at_syntax_len = 64, at_single_value = 1, at_collective = 0, at_no_user_mod = 0, at_usage = 3,
      at_extensions = Some [\<lparr>lsei_name = ascii ''X-Y'', lsei_values = [ascii ''z'']\<rparr>]\<rparr>"

definition sample_class :: ldap_objectclass where
  "sample_class = \<lparr>oc_oid = Some (ascii ''2.6''), oc_names = Some [], oc_desc = None, oc_obsolete = 0, oc_sup_oids = Some [ascii ''top''],
      oc_kind = 2, oc_at_oids_must = Some [ascii ''cn'', ascii ''sn''], oc_at_oids_may = None, oc_extensions = None\<rparr>"

lemma schema_round_trip_witness:
  "(\<exists>t. ldap_syntax2str (\<lambda>_. True) sample_syntax = Some (Some t)
      \<and> ldap_str2syntax (\<lambda>_. True) (Some t) 0 0 = Some (Returned (Some sample_syntax) 0 (Some t)))
    \<and> (\<exists>t. ldap_matchingrule2str (\<lambda>_. True) sample_rule = Some (Some t)
      \<and> ldap_str2matchingrule (\<lambda>_. True) (Some t) 0 0 = Some (Returned (Some sample_rule) 0 (Some t)))
    \<and> (\<exists>t. ldap_attributetype2str (\<lambda>_. True) sample_type = Some (Some t)
      \<and> ldap_str2attributetype (\<lambda>_. True) (Some t) 0 0 = Some (Returned (Some sample_type) 0 (Some t)))
    \<and> (\<exists>t. ldap_objectclass2str (\<lambda>_. True) sample_class = Some (Some t)
      \<and> ldap_str2objectclass (\<lambda>_. True) (Some t) 0 0 = Some (Returned (Some sample_class) 0 (Some t)))"
proof -
  have "syntax_ok sample_syntax \<and> syn_names sample_syntax = None" "matchingrule_ok sample_rule" "attributetype_ok sample_type" "objectclass_ok sample_class"
    unfolding sample_syntax_def sample_rule_def sample_type_def sample_class_def
      syntax_ok_def matchingrule_ok_def attributetype_ok_def objectclass_ok_def
    by (simp_all add: ascii_def dotted.simps LDAP_DIGIT_def quotable_def word_def bare_def LDAP_SPACE_def extension_ok_def extension_word_def)
  then show ?thesis using schema_round_trip [of sample_syntax 0 0 sample_rule sample_type sample_class] by blast
qed

end
