(* ===== verification/Schema_Strict.thy ===== *)
theory Schema_Strict imports Schema_Facts begin

text \<open>
  The parsers of libraries/libldap/schema.c on every string: what a structure they return is like when no liberty is
  allowed (\<open>flags\<close> 0), and what they do with the array of a list they give up.
\<close>

section \<open>Pieces\<close>

lemma numeric_oid_valid: "numeric_oid s = (True, r) \<Longrightarrow> r = [] \<or> (\<exists>oid. s = oid @ r \<and> dotted oid)"
proof (induction s rule: numeric_oid.induct)
  case (1 sp)
  show ?case
  proof (cases sp)
    case Nil
    then show ?thesis using 1(2) by (simp add: numeric_oid.simps [of "[]"])
  next
    case (Cons c s)
    have c: "LDAP_DIGIT c" using 1(2) by (auto simp: Cons numeric_oid.simps [of "c # s"] split: if_splits)
    have s: "s = takeWhile LDAP_DIGIT s @ dropWhile LDAP_DIGIT s" by simp
    have t: "dropWhile LDAP_DIGIT (takeWhile LDAP_DIGIT s @ x) = dropWhile LDAP_DIGIT x" for x
      by (rule dropWhile_append2) (drule set_takeWhileD, simp)
    show ?thesis
    proof (cases "dropWhile LDAP_DIGIT s")
      case Nil
      then show ?thesis using 1(2) c by (simp add: \<open>sp = c # s\<close> numeric_oid.simps [of "c # s"] del: dropWhile_eq_Nil_conv)
    next
      case (Cons d r')
      show ?thesis
      proof (cases "d = 0x2e")
        case True
        then have "numeric_oid r' = (True, r)" using 1(2) c Cons by (simp add: \<open>sp = c # s\<close> numeric_oid.simps [of "c # s"])
        then consider "r = []" | oid where "r' = oid @ r" "dotted oid" using 1(1) [OF \<open>sp = c # s\<close> _ Cons True] c by auto
        then show ?thesis
        proof cases
          case 2
          let ?oid = "c # takeWhile LDAP_DIGIT s @ d # oid"
          have "sp = ?oid @ r" using s Cons 2 \<open>sp = c # s\<close> by simp
          moreover have "dotted ?oid" using t [of "d # oid"] c True 2(2) by (simp add: dotted.simps [of "c # takeWhile LDAP_DIGIT s @ 0x2e # oid"]) (simp add: LDAP_DIGIT_def)
          ultimately show ?thesis by blast
        qed simp
      next
        case False
        then have "r = d # r'" using 1(2) c Cons by (simp add: \<open>sp = c # s\<close> numeric_oid.simps [of "c # s"])
        moreover have "dotted (c # takeWhile LDAP_DIGIT s)" using t [of "[]"] c unfolding dotted.simps [of "c # takeWhile LDAP_DIGIT s"] list.case append_Nil2 by (simp only: dropWhile.simps list.case simp_thms)
        ultimately show ?thesis using s Cons \<open>sp = c # s\<close> by (metis append_Cons)
      qed
    qed
  qed
qed

lemma strict_numericoid: "parse_numericoid mem 0 sp = Parsed oid r \<Longrightarrow> dotted oid \<or> r = []"
  using numeric_oid_valid [of sp r] by (auto simp: parse_numericoid_def Let_def split: prod.splits if_splits)

lemma get_token_bare: "get_token mem s = (TK_BAREWORD v, r) \<Longrightarrow> list_all bare v"
  by (auto simp: get_token_def Let_def list_all_iff split: list.splits if_splits dest: set_takeWhileD)

lemma get_token_bareword: "get_token mem (parse_whsp s) = (TK_BAREWORD v, r) \<Longrightarrow> word v"
proof -
  assume t: "get_token mem (parse_whsp s) = (TK_BAREWORD v, r)"
  have "parse_whsp s \<noteq> [] \<Longrightarrow> \<not> LDAP_SPACE (hd (parse_whsp s))" by (simp add: parse_whsp_def hd_dropWhile)
  then have "v \<noteq> []" using t by (cases "parse_whsp s") (auto simp: get_token_def bare_def Let_def split: if_splits list.splits)
  then show "word v" using get_token_bare [OF t] by (simp add: word_def)
qed

lemma get_token_qdstring: "get_token mem s = (TK_QDSTRING v, r) \<Longrightarrow> quotable v"
  by (auto simp: get_token_def Let_def quotable_def split: list.splits if_splits dest: set_takeWhileD)

lemma broken_off_never [simp]: "broken_off res c e \<noteq> Parsed v r"
  by (simp add: broken_off_def)

lemma qdescr_list_quotable: "qdescr_list mem room res sp = Parsed vs r \<Longrightarrow> list_all quotable res \<Longrightarrow> list_all quotable vs"
proof (induction mem room res sp rule: qdescr_list.induct)
  case (1 mem room res sp)
  obtain t r' where t: "get_token mem (parse_whsp sp) = (t, r')" by fastforce
  show ?case
  proof (cases t)
    case (TK_QDSTRING v)
    then have "list_all quotable (res @ [v])" using 1(4) get_token_qdstring t by simp
    then show ?thesis using 1(1) [OF t [symmetric] TK_QDSTRING] 1(2) [OF t [symmetric] TK_QDSTRING] 1(3) t TK_QDSTRING
      by (simp add: qdescr_list.simps [of mem room res sp] split: if_splits)
  qed (use 1(3,4) t in \<open>simp_all add: qdescr_list.simps [of mem room]\<close>)
qed

lemma strict_qdescrs: "parse_qdescrs mem sp = Parsed vs r \<Longrightarrow> list_all quotable vs"
  by (auto simp: parse_qdescrs_names get_token_qdstring dest: qdescr_list_quotable split: prod.splits token.splits if_splits)

lemma oid_list_words: "oid_list mem False room res sp = Parsed vs r \<Longrightarrow> list_all word res \<Longrightarrow> res \<noteq> [] \<Longrightarrow> list_all word vs \<and> vs \<noteq> []"
proof (induction "length sp" arbitrary: room res sp rule: less_induct)
  case less
  obtain t r0 where t: "get_token mem sp = (t, r0)" by fastforce
  show ?case
  proof (cases t)
    case TK_DOLLAR
    obtain t' r1 where t': "get_token mem (parse_whsp r0) = (t', r1)" by fastforce
    show ?thesis
    proof (cases t')
      case (TK_BAREWORD v)
      have "list_all word (res @ [v])" using less(3) get_token_bareword t' TK_BAREWORD by simp
      moreover have "\<exists>room. oid_list mem False room (res @ [v]) (parse_whsp r1) = Parsed vs r"
        using less(2) t t' TK_DOLLAR TK_BAREWORD by (auto simp: oid_list.simps [of mem False room res sp] split: if_splits)
      ultimately show ?thesis using less(1) [of "parse_whsp r1"] token_measures(2) [of mem sp r0 t' r1] t t' TK_DOLLAR by blast
    qed (use less(2) t t' TK_DOLLAR in \<open>simp_all add: oid_list.simps [of mem False room]\<close>)
  qed (use less(2-) t in \<open>simp_all add: oid_list.simps [of mem False room]\<close>)
qed

lemma strict_oids: "parse_oids mem 0 sp = Parsed vs r \<Longrightarrow> list_all word vs \<and> vs \<noteq> []"
proof -
  assume p: "parse_oids mem 0 sp = Parsed vs r"
  obtain t r0 where t: "get_token mem (parse_whsp sp) = (t, r0)" by fastforce
  show ?thesis
  proof (cases t)
    case (TK_BAREWORD v)
    then show ?thesis using p t get_token_bareword by (auto simp: parse_oids_names split: if_splits)
  next
    case TK_LEFTPAREN
    obtain t' r1 where t': "get_token mem (parse_whsp r0) = (t', r1)" by fastforce
    show ?thesis
    proof (cases t')
      case (TK_BAREWORD v)
      then have "oid_list mem False 3 [v] (parse_whsp r1) = Parsed vs r" "word v"
        using p t t' TK_LEFTPAREN get_token_bareword by (simp_all add: parse_oids_names split: if_splits)
      then show ?thesis using oid_list_words by fastforce
    qed (use p t t' TK_LEFTPAREN in \<open>simp_all add: parse_oids_names split: if_splits\<close>)
  qed (use p t in \<open>simp_all add: parse_oids_names\<close>)
qed

lemma strict_extension:
  assumes "parse_extension mem es sval ss = Parsed es' r" "extensions_ok es" "list_all bare sval" "extension_word sval"
  shows "extensions_ok (Some es')"
proof -
  obtain vs where v: "parse_qdescrs mem ss = Parsed vs r" "add_extension mem es sval vs = Some es'"
    using assms(1) by (auto simp: parse_extension_def split: parsed.splits option.splits)
  have "sval \<noteq> []" using assms(4) by (auto simp: extension_word_def ascii_def)
  then have "extension_ok \<lparr>lsei_name = sval, lsei_values = vs\<rparr>"
    using assms(3,4) strict_qdescrs [OF v(1)] by (simp add: extension_ok_def word_def)
  then show ?thesis using v(2) assms(2) by (auto simp: add_extension_def Let_def split: option.splits if_splits)
qed

lemma digits_value_nonneg: "0 \<le> digits_value (takeWhile isdigit s)"
proof -
  have "\<forall>d \<in> set ds. isdigit d \<Longrightarrow> 0 \<le> v \<Longrightarrow> 0 \<le> foldl (\<lambda>v d. 10 * v + (int (unat d) - 48)) v ds" for ds and v :: int
    by (induction ds arbitrary: v) (simp_all add: isdigit_def word_le_def)
  then show ?thesis by (auto simp: digits_value_def dest: set_takeWhileD)
qed

lemma strict_noidlen:
  assumes "parse_noidlen mem 0 sp = (len, Parsed oid r)"
  shows "(dotted oid \<or> r = []) \<and> 0 \<le> len \<and> len < 2 ^ 31"
proof -
  have a: "0 \<le> len \<and> len < 2 ^ 31"
    if "atoi s = Some len" "dropWhile LDAP_DIGIT s \<noteq> []" "hd (dropWhile LDAP_DIGIT s) = 0x7d" for s
  proof (cases s)
    case (Cons c s')
    have sp: "\<not> isspace 0x7d" "\<not> isspace c" "c \<noteq> 0x2d" "c \<noteq> 0x2b"
      using that by (auto simp: Cons isspace_def LDAP_DIGIT_def split: if_splits)
    then show ?thesis using that(1) digits_value_nonneg [of s] by (auto simp: atoi_def Let_def Cons split: if_splits)
  qed (use that in simp)
  then show ?thesis using assms strict_numericoid [of mem sp oid]
    by (auto simp: parse_noidlen_def Let_def split: parsed.splits option.splits if_splits)
qed

section \<open>What strict parsers accept\<close>

text \<open>At the end of the string there is no right parenthesis: what was put into the structure last does not matter.\<close>

lemma parse_items_keeps:
  assumes "parse_items mem item s obj code ss = Some (Returned (Some res) c e)" "good obj \<or> ss = []"
    "\<And>sval obj code r obj' code' r'. item sval obj code r = Went obj' code' r' \<Longrightarrow> list_all bare sval \<Longrightarrow> good obj \<Longrightarrow> good obj' \<or> r' = []"
  shows "good res"
proof -
  let ?P = "\<lambda>m it (s :: octets) obj (code :: nat) (ss :: octets) o'. m = mem \<longrightarrow> it = item \<longrightarrow> good obj \<or> ss = [] \<longrightarrow>
    (\<forall>res c e. o' = Returned (Some res) c e \<longrightarrow> good res)"
  have "?P mem item s obj code ss (Returned (Some res) c e)"
  proof (rule parse_items.raw_induct [of ?P, OF _ assms(1)])
    fix self m it s obj code ss o'
    assume ih: "\<And>m it s obj code ss o'. self m it s obj code ss = Some o' \<Longrightarrow> ?P m it s obj code ss o'"
    assume run: "(case get_token m ss of
       (TK_EOS, r) \<Rightarrow> Some (Returned None LDAP_SCHERR_NORIGHTPAREN None)
     | (TK_RIGHTPAREN, r) \<Rightarrow> Some (Returned (Some obj) code (Some s))
     | (TK_BAREWORD sval, r) \<Rightarrow>
        (case it sval obj code r of
           Went obj' code' r' \<Rightarrow> self m it s obj' code' r'
         | Stop code' errp \<Rightarrow> Some (Returned None code' errp)
         | Undefined_item \<Rightarrow> Some Undefined_run)
     | (t, r) \<Rightarrow> Some (Returned None LDAP_SCHERR_UNEXPTOKEN (Some r))) = Some o'"
    obtain t r where t: "get_token m ss = (t, r)" by fastforce
    show "?P m it s obj code ss o'"
    proof (intro impI allI)
      fix res c e
      assume a: "m = mem" "it = item" "good obj \<or> ss = []" "o' = Returned (Some res) c e"
      show "good res"
      proof (cases t)
        case (TK_BAREWORD sval)
        then have g: "good obj" using a(3) t by (auto simp: get_token_def)
        obtain obj' code' r' where w: "item sval obj code r = Went obj' code' r'"
          using run t TK_BAREWORD a by (cases "item sval obj code r") simp_all
        then have "good obj' \<or> r' = []" using assms(3) get_token_bare t TK_BAREWORD g by blast
        moreover have "self m it s obj' code' r' = Some (Returned (Some res) c e)" using run t TK_BAREWORD a w by simp
        ultimately show ?thesis using ih a(1,2) by blast
      next
        case TK_RIGHTPAREN
        then show ?thesis using run t a by (auto simp: get_token_def)
      qed (use run t a in simp_all)
    qed
  qed
  then show ?thesis using assms(2) by blast
qed

lemma parse_description_keeps:
  assumes "parse_description mem n s code oid obj item = Some (Returned (Some x) c e)"
    "\<And>r o1 c' r'. oid r = Went o1 c' r' \<Longrightarrow> good (obj o1) \<or> r' = []"
    "\<And>sval o1 seen code r o2 seen' code' r'. item sval (o1, seen) code r = Went (o2, seen') code' r'
      \<Longrightarrow> list_all bare sval \<Longrightarrow> good o1 \<Longrightarrow> good o2 \<or> r' = []"
  shows "good x"
proof -
  obtain s' r where s: "s = Some s'" "get_token mem s' = (TK_LEFTPAREN, r)" "mem n"
    using assms(1) by (auto simp: parse_description_def split: option.splits if_splits prod.splits token.splits)
  obtain o1 c' r' where o1: "oid (parse_whsp r) = Went o1 c' r'"
    using assms(1) s by (cases "oid (parse_whsp r)") (simp_all add: parse_description_def)
  then obtain res where "parse_items mem item s' (obj o1, []) c' r' = Some (Returned (Some res) c e)" "x = fst res"
    using assms(1) s
    by (cases "parse_items mem item s' (obj o1, []) c' r'"; cases "the (parse_items mem item s' (obj o1, []) c' r')")
      (auto simp: parse_description_def)
  then show ?thesis
    using parse_items_keeps [of mem item s' "(obj o1, [])" c' r' res c e "\<lambda>st. good (fst st)"] assms(2) [OF o1] assms(3) by fastforce
qed

lemma Went_simps [simp]:
  "store p f code = Went o' c r \<longleftrightarrow> (\<exists>v. p = Parsed v r \<and> o' = f v \<and> c = code)"
  "once sval seen ss w = Went o' c r \<longleftrightarrow> sval \<notin> set seen \<and> w = Went o' c r"
  by (auto simp: store_def once_def split: parsed.split)

lemma strict_pieces:
  "parse_names mem ss = Parsed vs r \<Longrightarrow> list_all quotable vs"
  "parse_desc mem ss = Parsed v r \<Longrightarrow> quotable v"
  "parse_woid mem ss = Parsed v r \<Longrightarrow> word v"
  "parse_oid_item mem 0 ss = Parsed v r \<Longrightarrow> dotted v \<or> r = []"
  "parse_usage mem ss = Parsed u r \<Longrightarrow> u \<in> {0, 1, 2, 3}"
proof -
  show "parse_oid_item mem 0 ss = Parsed v r \<Longrightarrow> dotted v \<or> r = []"
    using strict_numericoid [of mem "parse_whsp ss"] by (fastforce simp: parse_oid_item_def split: parsed.splits)
qed (auto simp: parse_names_def parse_desc_def parse_woid_def parse_usage_def LDAP_SCHEMA_USER_APPLICATIONS_def LDAP_SCHEMA_DIRECTORY_OPERATION_def
    LDAP_SCHEMA_DISTRIBUTED_OPERATION_def LDAP_SCHEMA_DSA_OPERATION_def
    split: parsed.splits prod.splits token.splits if_splits dest: strict_qdescrs get_token_qdstring get_token_bareword)

lemma strict_names: "parse_names mem ss = Parsed vs r \<Longrightarrow> names_ok (Some vs)"
  using strict_pieces(1) by simp

lemma start_oid_keeps:
  assumes "start_oid (parse_numericoid mem 0 r) code opt m = Went o' c r'" "\<And>x. \<not> opt x"
  shows "given_oid o' \<or> r' = []"
  using strict_numericoid [of mem r] assms by (fastforce simp: start_oid_def split: parsed.splits)

lemma syntax_item_keeps:
  "syntax_item mem sval (syn, seen) code ss = Went (syn', seen') c r \<Longrightarrow> list_all bare sval \<Longrightarrow> syntax_ok syn \<Longrightarrow> syntax_ok syn'"
  by (auto simp: syntax_item_def syntax_ok_def strict_pieces split: if_splits dest: strict_extension)

lemma seeing_Went [simp]: "seeing seen w = Went o' c r \<longleftrightarrow> (\<exists>at. w = Went at c r \<and> o' = (at, seen))"
  by (auto simp: seeing_def split: went.split)

lemma syntax_of_type_keeps:
  assumes "syntax_of_type mem 0 at code ss = Went at' c r" "attributetype_ok at"
  shows "attributetype_ok at' \<or> r = []"
proof -
  obtain len oid r' where p: "parse_noidlen mem 0 (parse_whsp ss) = (len, Parsed oid r')"
      "at' = at\<lparr>at_syntax_oid := Some oid, at_syntax_len := len\<rparr>" "r = parse_whsp r'"
    using assms(1) by (auto simp: syntax_of_type_def split: prod.splits parsed.splits)
  have "dotted oid \<or> r = []" "0 \<le> len \<and> len < 2 ^ 31" using strict_noidlen [OF p(1)] p(3) by auto
  then show ?thesis using assms(2) by (auto simp: attributetype_ok_def p(2) simp del: insert_iff)
qed

lemma if_eqE: "(if b then x else y) = w \<Longrightarrow> (b \<Longrightarrow> x = w \<Longrightarrow> P) \<Longrightarrow> (\<not> b \<Longrightarrow> y = w \<Longrightarrow> P) \<Longrightarrow> P"
  by (simp split: if_splits)

lemma attributetype_ok_updates:
  assumes "attributetype_ok at"
  shows "names_ok (Some vs) \<Longrightarrow> attributetype_ok (at\<lparr>at_names := Some vs\<rparr>)" "quotable d \<Longrightarrow> attributetype_ok (at\<lparr>at_desc := Some d\<rparr>)"
    "attributetype_ok (at\<lparr>at_obsolete := LDAP_SCHEMA_YES\<rparr>)" "word w \<Longrightarrow> attributetype_ok (at\<lparr>at_sup_oid := Some w\<rparr>)"
    "word w \<Longrightarrow> attributetype_ok (at\<lparr>at_equality_oid := Some w\<rparr>)" "word w \<Longrightarrow> attributetype_ok (at\<lparr>at_ordering_oid := Some w\<rparr>)"
    "word w \<Longrightarrow> attributetype_ok (at\<lparr>at_substr_oid := Some w\<rparr>)" "attributetype_ok (at\<lparr>at_single_value := LDAP_SCHEMA_YES\<rparr>)"
    "attributetype_ok (at\<lparr>at_collective := LDAP_SCHEMA_YES\<rparr>)" "attributetype_ok (at\<lparr>at_no_user_mod := LDAP_SCHEMA_YES\<rparr>)"
    "u \<in> {0, 1, 2, 3} \<Longrightarrow> attributetype_ok (at\<lparr>at_usage := u\<rparr>)" "extensions_ok (Some es) \<Longrightarrow> attributetype_ok (at\<lparr>at_extensions := Some es\<rparr>)"
proof -
  have "LDAP_SCHEMA_YES \<in> {0, 1}" by (simp add: LDAP_SCHEMA_YES_def)
  note ok = this assms [unfolded attributetype_ok_def]
  show "names_ok (Some vs) \<Longrightarrow> attributetype_ok (at\<lparr>at_names := Some vs\<rparr>)" "quotable d \<Longrightarrow> attributetype_ok (at\<lparr>at_desc := Some d\<rparr>)"
    "attributetype_ok (at\<lparr>at_obsolete := LDAP_SCHEMA_YES\<rparr>)" "word w \<Longrightarrow> attributetype_ok (at\<lparr>at_sup_oid := Some w\<rparr>)"
    "word w \<Longrightarrow> attributetype_ok (at\<lparr>at_equality_oid := Some w\<rparr>)" "word w \<Longrightarrow> attributetype_ok (at\<lparr>at_ordering_oid := Some w\<rparr>)"
    "word w \<Longrightarrow> attributetype_ok (at\<lparr>at_substr_oid := Some w\<rparr>)" "attributetype_ok (at\<lparr>at_single_value := LDAP_SCHEMA_YES\<rparr>)"
    "attributetype_ok (at\<lparr>at_collective := LDAP_SCHEMA_YES\<rparr>)" "attributetype_ok (at\<lparr>at_no_user_mod := LDAP_SCHEMA_YES\<rparr>)"
    "u \<in> {0, 1, 2, 3} \<Longrightarrow> attributetype_ok (at\<lparr>at_usage := u\<rparr>)" "extensions_ok (Some es) \<Longrightarrow> attributetype_ok (at\<lparr>at_extensions := Some es\<rparr>)"
    using ok unfolding attributetype_ok_def by (simp_all del: insert_iff)
qed

lemma attributetype_item_keeps:
  assumes "attributetype_item mem 0 sval (at, seen) code ss = Went (at', seen') c r" "list_all bare sval" "attributetype_ok at"
  shows "attributetype_ok at' \<or> r = []"
proof -
  note ok = attributetype_ok_updates [OF assms(3)]
  have kept: "syntax_of_type mem 0 at code ss = Went at' c r \<Longrightarrow> r \<noteq> [] \<Longrightarrow> attributetype_ok at'" for code c
    using syntax_of_type_keeps assms(3) by blast
  have es: "extensions_ok (at_extensions at)" using assms(3) by (simp add: attributetype_ok_def)
  note keep = kept ok(1) [OF strict_names] ok(2) [OF strict_pieces(2)] ok(3)
    ok(4-7) [OF strict_pieces(3)] ok(8-10) ok(11) [OF strict_pieces(5)] ok(12) [OF strict_extension [OF _ es assms(2)]]
  note assms(1) [unfolded attributetype_item_def prod.case]
  then show ?thesis
    by (elim if_eqE; simp only: Went_simps seeing_Went went.inject went.distinct prod.inject simp_thms; safe)
      (rule keep; assumption)+
qed

lemma matchingrule_item_keeps:
  assumes "matchingrule_item mem 0 sval (mr, seen) code ss = Went (mr', seen') c r" "list_all bare sval" "matchingrule_ok mr"
  shows "matchingrule_ok mr' \<or> r = []"
proof -
  have es: "extensions_ok (mr_extensions mr)" using assms(3) by (simp add: matchingrule_ok_def)
  have ok: "names_ok (Some vs) \<Longrightarrow> matchingrule_ok (mr\<lparr>mr_names := Some vs\<rparr>)" "quotable d \<Longrightarrow> matchingrule_ok (mr\<lparr>mr_desc := Some d\<rparr>)"
    "matchingrule_ok (mr\<lparr>mr_obsolete := LDAP_SCHEMA_YES\<rparr>)" "dotted v \<Longrightarrow> matchingrule_ok (mr\<lparr>mr_syntax_oid := Some v\<rparr>)"
    "extensions_ok (Some x) \<Longrightarrow> matchingrule_ok (mr\<lparr>mr_extensions := Some x\<rparr>)" for vs d v x
    using assms(3) by (simp_all add: matchingrule_ok_def LDAP_SCHEMA_YES_def)
  have kept: "parse_oid_item mem 0 ss = Parsed v r \<Longrightarrow> r \<noteq> [] \<Longrightarrow> matchingrule_ok (mr\<lparr>mr_syntax_oid := Some v\<rparr>)" for v
    using strict_pieces(4) ok(4) by blast
  note keep = kept ok(1) [OF strict_names] ok(2) [OF strict_pieces(2)] ok(3) ok(5) [OF strict_extension [OF _ es assms(2)]]
  note assms(1) [unfolded matchingrule_item_def prod.case]
  then show ?thesis
    by (elim if_eqE; simp only: Went_simps went.inject went.distinct prod.inject simp_thms; safe) (rule keep; assumption)+
qed

lemma objectclass_item_keeps:
  assumes "objectclass_item mem 0 sval (oc, seen) code ss = Went (oc', seen') c r" "list_all bare sval" "objectclass_ok oc"
  shows "objectclass_ok oc'"
proof -
  have es: "extensions_ok (oc_extensions oc)" using assms(3) by (simp add: objectclass_ok_def)
  have "LDAP_SCHEMA_YES \<in> {0, 1}" "LDAP_SCHEMA_ABSTRACT \<in> {0, 1, 2}" "LDAP_SCHEMA_STRUCTURAL \<in> {0, 1, 2}" "LDAP_SCHEMA_AUXILIARY \<in> {0, 1, 2}"
    by (simp_all add: LDAP_SCHEMA_YES_def LDAP_SCHEMA_ABSTRACT_def LDAP_SCHEMA_STRUCTURAL_def LDAP_SCHEMA_AUXILIARY_def)
  with assms(3) have ok: "names_ok (Some vs) \<Longrightarrow> objectclass_ok (oc\<lparr>oc_names := Some vs\<rparr>)" "quotable d \<Longrightarrow> objectclass_ok (oc\<lparr>oc_desc := Some d\<rparr>)"
    "objectclass_ok (oc\<lparr>oc_obsolete := LDAP_SCHEMA_YES\<rparr>)" "oids_ok (Some os) \<Longrightarrow> objectclass_ok (oc\<lparr>oc_sup_oids := Some os\<rparr>)"
    "objectclass_ok (oc\<lparr>oc_kind := LDAP_SCHEMA_ABSTRACT\<rparr>)" "objectclass_ok (oc\<lparr>oc_kind := LDAP_SCHEMA_STRUCTURAL\<rparr>)"
    "objectclass_ok (oc\<lparr>oc_kind := LDAP_SCHEMA_AUXILIARY\<rparr>)" "oids_ok (Some os) \<Longrightarrow> objectclass_ok (oc\<lparr>oc_at_oids_must := Some os\<rparr>)"
    "oids_ok (Some os) \<Longrightarrow> objectclass_ok (oc\<lparr>oc_at_oids_may := Some os\<rparr>)"
    "extensions_ok (Some x) \<Longrightarrow> objectclass_ok (oc\<lparr>oc_extensions := Some x\<rparr>)" for vs d os x
    by (simp_all add: objectclass_ok_def del: insert_iff)
  have oids: "parse_oids mem 0 sp = Parsed vs r \<Longrightarrow> oids_ok (Some vs)" for sp vs using strict_oids by simp
  note keep = ok(1) [OF strict_names] ok(2) [OF strict_pieces(2)] ok(3) ok(4) [OF oids] ok(5-7) ok(8-9) [OF oids]
    ok(10) [OF strict_extension [OF _ es assms(2)]]
  note assms(1) [unfolded objectclass_item_def objectclass_kind_def prod.case]
  then show ?thesis
    by (elim if_eqE; simp only: Went_simps went.inject went.distinct prod.inject simp_thms; safe) (rule keep; assumption)+
qed

text \<open>
  C25: A string that is parsed without any liberty (flags 0) gives a well-formed structure, whichever allocations fail:
  the object identifier and the syntaxes are numbers with dots between them, the names of rules, classes and types are
  non-empty words, lists of them are not empty, no name or description has a quote in it, the length of a syntax is
  not negative and only stands with one, flags, kinds and usages are in range, and every extension begins with X-.
\<close>

theorem schema_strictly_typed:
  "(ldap_str2syntax mem s code 0 = Some (Returned (Some syn) c e) \<longrightarrow> syntax_ok syn)
    \<and> (ldap_str2matchingrule mem s code 0 = Some (Returned (Some mr) c e) \<longrightarrow> matchingrule_ok mr)
    \<and> (ldap_str2attributetype mem s code 0 = Some (Returned (Some at) c e) \<longrightarrow> attributetype_ok at)
    \<and> (ldap_str2objectclass mem s code 0 = Some (Returned (Some oc) c e) \<longrightarrow> objectclass_ok oc)"
proof (intro conjI impI)
  assume "ldap_str2syntax mem s code 0 = Some (Returned (Some syn) c e)"
  then show "syntax_ok syn" unfolding ldap_str2syntax_def
    by (rule parse_description_keeps) (drule start_oid_keeps, simp, force simp: syntax_ok_def, rule disjI1, rule syntax_item_keeps)
next
  assume "ldap_str2matchingrule mem s code 0 = Some (Returned (Some mr) c e)"
  then show "matchingrule_ok mr" unfolding ldap_str2matchingrule_def
    by (rule parse_description_keeps) (drule start_oid_keeps, simp, force simp: matchingrule_ok_def, rule matchingrule_item_keeps)
next
  assume "ldap_str2attributetype mem s code 0 = Some (Returned (Some at) c e)"
  then show "attributetype_ok at" unfolding ldap_str2attributetype_def
    by (rule parse_description_keeps) (drule start_oid_keeps, simp, force simp: attributetype_ok_def, rule attributetype_item_keeps)
next
  assume "ldap_str2objectclass mem s code 0 = Some (Returned (Some oc) c e)"
  then show "objectclass_ok oc" unfolding ldap_str2objectclass_def
    by (rule parse_description_keeps) (drule start_oid_keeps, simp, force simp: objectclass_ok_def LDAP_SCHEMA_STRUCTURAL_def, rule disjI1, rule objectclass_item_keeps)
qed

lemma schema_strictly_typed_witness:
  "ldap_str2syntax (\<lambda>_. True) (Some (ascii ''( 1.2 DESC 'Bits' )'')) 0 0
      = Some (Returned (Some sample_syntax) 0 (Some (ascii ''( 1.2 DESC 'Bits' )''))) \<and> syntax_ok sample_syntax
    \<and> ldap_str2matchingrule (\<lambda>_. True) (Some (ascii ''( 2.5 OBSOLETE NAME 'm' SYNTAX 1.2)'')) 0 0
      = Some (Returned (Some sample_rule) 0 (Some (ascii ''( 2.5 OBSOLETE NAME 'm' SYNTAX 1.2)''))) \<and> matchingrule_ok sample_rule
    \<and> ldap_str2attributetype (\<lambda>_. True) (Some (ascii ''(2.5 NAME('cn' 'c n') SUP name SYNTAX 1.2{64} SINGLE-VALUE USAGE dsaoperation X-Y 'z' )'')) 0 0
      = Some (Returned (Some sample_type) 0 (Some (ascii ''(2.5 NAME('cn' 'c n') SUP name SYNTAX 1.2{64} SINGLE-VALUE USAGE dsaoperation X-Y 'z' )'')))
    \<and> attributetype_ok sample_type
    \<and> ldap_str2objectclass (\<lambda>_. True) (Some (ascii ''(2.6 NAME () SUP top AUXILIARY MUST ( cn $ sn ) )'')) 0 0
      = Some (Returned (Some sample_class) 0 (Some (ascii ''(2.6 NAME () SUP top AUXILIARY MUST ( cn $ sn ) )''))) \<and> objectclass_ok sample_class"
proof -
  have "ldap_str2syntax (\<lambda>_. True) (Some (ascii ''( 1.2 DESC 'Bits' )'')) 0 0
      = Some (Returned (Some sample_syntax) 0 (Some (ascii ''( 1.2 DESC 'Bits' )'')))" by code_simp
  moreover have "ldap_str2matchingrule (\<lambda>_. True) (Some (ascii ''( 2.5 OBSOLETE NAME 'm' SYNTAX 1.2)'')) 0 0
      = Some (Returned (Some sample_rule) 0 (Some (ascii ''( 2.5 OBSOLETE NAME 'm' SYNTAX 1.2)'')))" by code_simp
  moreover have "ldap_str2attributetype (\<lambda>_. True)
      (Some (ascii ''(2.5 NAME('cn' 'c n') SUP name SYNTAX 1.2{64} SINGLE-VALUE USAGE dsaoperation X-Y 'z' )'')) 0 0
      = Some (Returned (Some sample_type) 0 (Some (ascii ''(2.5 NAME('cn' 'c n') SUP name SYNTAX 1.2{64} SINGLE-VALUE USAGE dsaoperation X-Y 'z' )'')))"
    by code_simp
  moreover have "ldap_str2objectclass (\<lambda>_. True) (Some (ascii ''(2.6 NAME () SUP top AUXILIARY MUST ( cn $ sn ) )'')) 0 0
      = Some (Returned (Some sample_class) 0 (Some (ascii ''(2.6 NAME () SUP top AUXILIARY MUST ( cn $ sn ) )'')))" by code_simp
  ultimately show ?thesis using schema_strictly_typed by blast
qed

section \<open>Lists that are given up\<close>

lemma qdescr_list_skips: "qdescr_list mem room res (parse_whsp sp) = qdescr_list mem room res sp"
  by (subst (1 2) qdescr_list.simps) simp

text \<open>
  C30: What becomes of a parenthesised list of names in quotes that breaks off, with enough memory: after at most two names the list is
  freed and the error reported at the token that does not belong there; after three or more, \<open>LDAP_VFREE\<close> frees
  pointers that \<open>realloc\<close> made room for and nobody stored, because only the first three were cleared.
\<close>

theorem schema_list_overrun:
  assumes "list_all quotable ns" "get_token (\<lambda>_. True) (parse_whsp r) = (t, r')" "t \<noteq> TK_RIGHTPAREN" "\<forall>v. t \<noteq> TK_QDSTRING v"
  shows "parse_qdescrs (\<lambda>_. True) (0x28 # concat (map quoted ns) @ r) =
    (if length ns < 3 then Failed LDAP_SCHERR_UNEXPTOKEN (if t = TK_EOS then None else Some r') else Undefined)"
proof -
  have "qdescr_list (\<lambda>_. True) room res (concat (map quoted ns) @ r) = broken_off (res @ ns) LDAP_SCHERR_UNEXPTOKEN (behind (t, r'))" for room res
    using assms(1)
  proof (induction ns arbitrary: room res)
    case Nil
    then show ?case using assms(2-4) by (cases t) (simp_all add: qdescr_list.simps)
  next
    case (Cons n ns)
    have "get_token (\<lambda>_. True) (parse_whsp (quoted n @ concat (map quoted ns) @ r)) = (TK_QDSTRING n, 0x20 # concat (map quoted ns) @ r)"
      using plentiful.get_token_quoted [of n "0x20 # concat (map quoted ns) @ r"] Cons.prems by (simp add: quoted_def)
    moreover have "parse_whsp (concat (map quoted ns) @ r) = concat (map quoted ns) @ r \<or> ns = []"
      by (cases ns) (simp_all add: quoted_def)
    ultimately show ?case
      using Cons by (subst qdescr_list.simps) (auto simp: qdescr_list_skips)
  qed
  then show ?thesis by (simp add: parse_qdescrs_names get_token_def broken_off_def behind_def)
qed

lemma schema_list_overrun_witness:
  "parse_qdescrs (\<lambda>_. True) (ascii ''('a' 'b' c'') = Failed LDAP_SCHERR_UNEXPTOKEN (Some [])
    \<and> parse_qdescrs (\<lambda>_. True) (ascii ''('a' 'b' 'c' '') = Undefined"
proof -
  have c: "get_token (\<lambda>_. True) (parse_whsp (ascii ''c'')) = (TK_BAREWORD (ascii ''c''), [])" "get_token (\<lambda>_. True) (parse_whsp []) = (TK_EOS, [])"
    by code_simp+
  have q: "ascii ''('a' 'b' c'' = 0x28 # concat (map quoted [ascii ''a'', ascii ''b'']) @ ascii ''c''"
    "ascii ''('a' 'b' 'c' '' = 0x28 # concat (map quoted [ascii ''a'', ascii ''b'', ascii ''c'']) @ []"
    by (simp_all add: quoted_def ascii_def)
  have "list_all quotable [ascii ''a'', ascii ''b'', ascii ''c'']" by (simp add: quotable_def ascii_def)
  then show ?thesis
    unfolding q using schema_list_overrun [OF _ c(1), of "[ascii ''a'', ascii ''b'']"] schema_list_overrun [OF _ c(2), of "[ascii ''a'', ascii ''b'', ascii ''c'']"]
    by simp
qed

end
