(* ===== verification/Schema_Returns.thy ===== *)
theory Schema_Returns imports Schema_Strict "HOL-Library.Sublist" begin

text \<open>
  The parsers of libraries/libldap/schema.c return on every string, because the pointer only moves forward: what is left
  is always a suffix of what was there.  When no liberty is allowed, the only runs that are not defined are those over a
  list of three names or more that breaks off and over a length that is no \<open>int\<close>.
\<close>

section \<open>The pointer only moves forward\<close>

lemma parse_whsp_suffix: "suffix (parse_whsp s) s"
  by (simp add: parse_whsp_def suffix_dropWhile)

lemma get_token_suffix: "get_token mem s = (t, r) \<Longrightarrow> suffix r s"
proof (cases s)
  case (Cons c s')
  have "suffix (dropWhile bare s) s" "suffix r' s" if "dropWhile P s' = x # r'" for P x r'
    using suffix_dropWhile [of bare s] suffix_dropWhile [of P s'] that by (auto simp: Cons dest: suffix_ConsD intro: suffix_ConsI)
  then show "get_token mem s = (t, r) \<Longrightarrow> suffix r s"
    using suffix_dropWhile [of bare s] by (auto simp: Cons get_token_def Let_def suffix_ConsI split: list.splits if_splits)
qed (simp add: get_token_def)

lemma token_forward:
  assumes "get_token mem (parse_whsp s) = (t, r)"
  shows "suffix r s" "suffix (parse_whsp r) s"
  using get_token_suffix [OF assms] parse_whsp_suffix [of s] parse_whsp_suffix [of r] suffix_order.trans by blast+

lemma tl_forward: "suffix s n \<Longrightarrow> suffix (tl s) n"
  by (rule suffix_order.trans [OF suffix_tl])

lemma qdescr_list_forward: "qdescr_list mem room res sp = Parsed vs r \<Longrightarrow> suffix r sp"
proof (induction "length sp" arbitrary: room res sp rule: less_induct)
  case less
  obtain t r0 where t: "get_token mem (parse_whsp sp) = (t, r0)" by fastforce
  show ?case
  proof (cases t)
    case (TK_QDSTRING v)
    have "\<exists>room. qdescr_list mem room (res @ [v]) (parse_whsp r0) = Parsed vs r"
      using less(2) t TK_QDSTRING by (auto simp: qdescr_list.simps [of mem room res sp] broken_off_def split: if_splits)
    then have "suffix r (parse_whsp r0)" using less(1) token_measures(1) t TK_QDSTRING by blast
    then show ?thesis using token_forward(2) [OF t] suffix_order.trans by blast
  qed (use less(2) t token_forward [OF t] in \<open>auto simp: qdescr_list.simps [of mem room res sp] broken_off_def split: if_splits\<close>)
qed

lemma parse_qdescrs_forward: "parse_qdescrs mem sp = Parsed vs r \<Longrightarrow> suffix r sp"
proof -
  assume p: "parse_qdescrs mem sp = Parsed vs r"
  obtain t r0 where t: "get_token mem (parse_whsp sp) = (t, r0)" by fastforce
  show ?thesis using p t token_forward [OF t] qdescr_list_forward [of mem 3 "[]" r0 vs r]
    by (cases t) (auto simp: parse_qdescrs_names split: if_splits intro: suffix_order.trans)
qed

lemma oid_list_forward: "oid_list mem q room res sp = Parsed vs r \<Longrightarrow> suffix r sp"
proof (induction "length sp" arbitrary: room res sp rule: less_induct)
  case less
  obtain t r0 where t: "get_token mem sp = (t, r0)" by fastforce
  have r0: "suffix r0 sp" using t by (rule get_token_suffix)
  show ?case
  proof (cases t)
    case TK_DOLLAR
    obtain t' r1 where t': "get_token mem (parse_whsp r0) = (t', r1)" by fastforce
    obtain v where v: "oid_token q t' = Some v"
      using less(2) t t' TK_DOLLAR by (auto simp: oid_list.simps [of mem q room res sp] broken_off_def split: option.splits if_splits)
    have "\<exists>room. oid_list mem q room (res @ [v]) (parse_whsp r1) = Parsed vs r"
      using less(2) t t' TK_DOLLAR v by (auto simp: oid_list.simps [of mem q room res sp] broken_off_def split: if_splits)
    moreover have m: "length (parse_whsp r1) < length sp" using token_measures(2) t t' TK_DOLLAR by blast
    ultimately have "suffix r (parse_whsp r1)" using less(1) by blast
    then show ?thesis using r0 token_forward(2) [OF t'] suffix_order.trans by blast
  next
    case TK_RIGHTPAREN
    then show ?thesis using less(2) t r0 parse_whsp_suffix [of r0] suffix_order.trans by (auto simp: oid_list.simps [of mem q room res sp])
  qed (use less(2) t in \<open>simp_all add: oid_list.simps [of mem q room res sp] broken_off_def split: if_splits\<close>)
qed

lemma parse_oids_forward: "parse_oids mem q sp = Parsed vs r \<Longrightarrow> suffix r sp"
proof -
  assume p: "parse_oids mem q sp = Parsed vs r"
  obtain t r0 where t: "get_token mem (parse_whsp sp) = (t, r0)" by fastforce
  show ?thesis
  proof (cases t)
    case TK_LEFTPAREN
    obtain t' r1 where t': "get_token mem (parse_whsp r0) = (t', r1)" by fastforce
    then obtain v where "oid_list mem (q \<noteq> 0) 3 [v] (parse_whsp r1) = Parsed vs r"
      using p t TK_LEFTPAREN by (auto simp: parse_oids_names split: if_splits option.splits)
    then show ?thesis using oid_list_forward token_forward(2) [OF t'] token_forward(1) [OF t] suffix_order.trans by blast
  qed (use p t token_forward [OF t] in \<open>auto simp: parse_oids_names split: if_splits\<close>)
qed

lemma numeric_oid_suffix: "suffix (snd (numeric_oid s)) s"
proof (induction s rule: numeric_oid.induct)
  case (1 sp)
  show ?case
  proof (cases sp)
    case (Cons c s)
    show ?thesis
    proof (cases "dropWhile LDAP_DIGIT s")
      case (Cons d r)
      then have r: "suffix (d # r) s" using suffix_dropWhile by metis
      show ?thesis using 1 [OF \<open>sp = c # s\<close> _ Cons] r Cons \<open>sp = c # s\<close>
        by (auto simp: numeric_oid.simps [of "c # s"] intro: suffix_ConsI suffix_order.trans dest: suffix_ConsD)
    qed (simp add: numeric_oid.simps [of "c # s"] Cons del: dropWhile_eq_Nil_conv)
  qed (simp add: numeric_oid.simps [of "[]"])
qed

lemma parse_numericoid_forward:
  "parse_numericoid mem flags sp = Parsed oid r \<Longrightarrow> suffix r sp"
  "parse_numericoid mem flags sp = Failed c (Some r) \<Longrightarrow> suffix r sp"
  "parse_numericoid mem flags sp \<noteq> Failed c None" "parse_numericoid mem flags sp \<noteq> Undefined"
  using numeric_oid_suffix [of sp] numeric_oid_suffix [of "tl sp"]
  by (auto simp: parse_numericoid_def Let_def split: prod.splits if_splits intro: tl_forward suffix_order.trans [OF _ suffix_tl])

lemma parse_noidlen_forward:
  "parse_noidlen mem q sp = (len, Parsed oid r) \<Longrightarrow> suffix r sp"
  "parse_noidlen mem q sp = (len, Failed c (Some r)) \<Longrightarrow> suffix r sp"
proof -
  define sp' where "sp' = (if q \<noteq> 0 \<and> sp \<noteq> [] \<and> hd sp = 0x27 then tl sp else sp)"
  have sp': "suffix sp' sp" by (simp add: sp'_def)
  have d: "suffix (dropWhile LDAP_DIGIT (tl s)) n" if "suffix s n" for s n
    using suffix_dropWhile tl_forward [OF that] suffix_order.trans by blast
  consider v r' where "parse_numericoid mem 0 sp' = Parsed v r'" | c' e where "parse_numericoid mem 0 sp' = Failed c' e"
    using parse_numericoid_forward(4) by (cases "parse_numericoid mem 0 sp'") auto
  then have "(parse_noidlen mem q sp = (len, Parsed oid r) \<longrightarrow> suffix r sp)
      \<and> (parse_noidlen mem q sp = (len, Failed c (Some r)) \<longrightarrow> suffix r sp)"
  proof cases
    case 1
    then have "suffix r' sp" using parse_numericoid_forward(1) sp' suffix_order.trans by blast
    then show ?thesis
      using 1 d [of r' sp] by (auto simp: parse_noidlen_def Let_def sp'_def [symmetric] split: option.splits if_splits intro: tl_forward)
  next
    case 2
    then show ?thesis
      using parse_numericoid_forward(2) [of mem 0 sp'] sp'
      by (auto simp: parse_noidlen_def Let_def sp'_def [symmetric] intro: suffix_order.trans)
  qed
  then show "parse_noidlen mem q sp = (len, Parsed oid r) \<Longrightarrow> suffix r sp"
    "parse_noidlen mem q sp = (len, Failed c (Some r)) \<Longrightarrow> suffix r sp"
    by blast+
qed

lemma pieces_forward:
  "parse_names mem ss = Parsed vs r \<Longrightarrow> suffix r ss"
  "parse_desc mem ss = Parsed v r \<Longrightarrow> suffix r ss"
  "parse_woid mem ss = Parsed v r \<Longrightarrow> suffix r ss"
  "parse_oid_item mem flags ss = Parsed v r \<Longrightarrow> suffix r ss"
  "parse_usage mem ss = Parsed u r \<Longrightarrow> suffix r ss"
  "parse_extension mem es sval ss = Parsed es' r \<Longrightarrow> suffix r ss"
proof -
  show "parse_oid_item mem flags ss = Parsed v r \<Longrightarrow> suffix r ss"
    using parse_numericoid_forward(1) [of mem flags "parse_whsp ss"] parse_whsp_suffix [of ss]
    by (auto simp: parse_oid_item_def split: parsed.splits intro: suffix_order.trans [OF parse_whsp_suffix] suffix_order.trans)
qed (auto simp: parse_names_def parse_desc_def parse_woid_def parse_usage_def parse_extension_def
    split: parsed.splits prod.splits token.splits option.splits if_splits dest: parse_qdescrs_forward token_forward)

lemma syntax_macro_forward: "syntax_macro mem at (Some ss) code = Went at' c r \<Longrightarrow> suffix r ss"
proof -
  assume w: "syntax_macro mem at (Some ss) code = Went at' c r"
  obtain t r0 where t: "get_token mem ss = (t, r0)" by fastforce
  have "r = parse_whsp r0" using w t by (cases t) (auto simp: syntax_macro_def Let_def split: prod.splits option.splits if_splits)
  then show ?thesis using get_token_suffix [OF t] parse_whsp_suffix [of r0] suffix_order.trans by blast
qed

lemma syntax_of_type_forward: "syntax_of_type mem flags at code ss = Went at' c r \<Longrightarrow> suffix r ss"
proof -
  assume w: "syntax_of_type mem flags at code ss = Went at' c r"
  obtain len p where p: "parse_noidlen mem flags (parse_whsp ss) = (len, p)" by fastforce
  show ?thesis
  proof (cases p)
    case (Parsed oid r')
    then have "r = parse_whsp r'" using w p by (simp add: syntax_of_type_def)
    then show ?thesis using parse_noidlen_forward(1) [of mem flags "parse_whsp ss" len oid r'] p Parsed
        parse_whsp_suffix [of r'] parse_whsp_suffix [of ss] suffix_order.trans by blast
  next
    case (Failed c' e)
    then have m: "syntax_macro mem (at\<lparr>at_syntax_oid := None, at_syntax_len := len\<rparr>) e c' = Went at' c r"
      using w p by (simp add: syntax_of_type_def split: if_splits)
    then obtain r' where e: "e = Some r'" by (auto simp: syntax_macro_def split: option.splits)
    show ?thesis
      using syntax_macro_forward [OF m [unfolded e]] parse_noidlen_forward(2) [of mem flags "parse_whsp ss" len c' r'] p Failed e
        parse_whsp_suffix [of ss] suffix_order.trans
      by blast
  qed (use w p in \<open>simp add: syntax_of_type_def\<close>)
qed

section \<open>Runs that are not defined\<close>

text \<open>
  Where a strict parser can leave its memory or the integers: at a parenthesis that opens a list of at least three
  names, if six quotes follow or two dollar signs before the list ends, and at a brace whose number is no \<open>int\<close>.
\<close>

fun names_ahead :: "nat \<Rightarrow> octets \<Rightarrow> nat" where
  "names_ahead 0 s = 0"
| "names_ahead (Suc n) s =
    (case parse_whsp s of [] \<Rightarrow> 0
     | c # r \<Rightarrow> if c = 0x27 then (case dropWhile (\<lambda>x. x \<noteq> 0x27) r of [] \<Rightarrow> 0 | q # r' \<Rightarrow> Suc (names_ahead n r')) else 0)"

definition dollars_ahead :: "octets \<Rightarrow> nat" where
  "dollars_ahead s = count_list (takeWhile (\<lambda>c. c \<noteq> 0x29) s) 0x24"

definition overlong :: "octets \<Rightarrow> bool" where
  "overlong t = (case t of [] \<Rightarrow> False
     | c # r \<Rightarrow> (c = 0x28 \<and> (names_ahead 3 r = 3 \<or> 2 \<le> dollars_ahead r)) \<or> (c = 0x7b \<and> atoi r = None))"

definition tame :: "octets \<Rightarrow> bool" where
  "tame s = list_all (\<lambda>t. \<not> overlong t) (suffixes s)"

lemma tame_suffix: "tame s \<Longrightarrow> suffix t s \<Longrightarrow> tame t"
  by (auto simp: tame_def list_all_iff intro: suffix_order.trans)

lemma tame_at: "tame s \<Longrightarrow> suffix t s \<Longrightarrow> \<not> overlong t"
  by (simp add: tame_def list_all_iff)

lemma token_texts:
  "get_token mem s = (TK_LEFTPAREN, r) \<Longrightarrow> s = 0x28 # r"
  "get_token mem s = (TK_DOLLAR, r) \<Longrightarrow> s = 0x24 # r"
  "get_token mem s = (TK_QDSTRING v, r) \<Longrightarrow> \<exists>s' q. s = 0x27 # s' \<and> dropWhile (\<lambda>x. x \<noteq> 0x27) s' = q # r"
  by (auto simp: get_token_def Let_def split: list.splits if_splits)

lemma names_ahead_whsp: "names_ahead n (parse_whsp s) = names_ahead n s"
  by (cases n) (simp_all add: parse_whsp_def)

lemma qdescr_list_undefined: "qdescr_list mem room res sp = Undefined \<Longrightarrow> names_ahead (3 - length res) sp = 3 - length res"
proof (induction "length sp" arbitrary: room res sp rule: less_induct)
  case less
  obtain t r where t: "get_token mem (parse_whsp sp) = (t, r)" by fastforce
  show ?case
  proof (cases "\<exists>v. t = TK_QDSTRING v \<and> length res < 3")
    case True
    then obtain v where v: "t = TK_QDSTRING v" "length res < 3" by blast
    obtain n where n: "3 - length res = Suc n" using v(2) by (metis Suc_diff_Suc)
    then have n': "3 - Suc (length res) = n" by simp
    have "\<exists>room. qdescr_list mem room (res @ [v]) (parse_whsp r) = Undefined"
      using less(2) t v by (auto simp: qdescr_list.simps [of mem room res sp] broken_off_def split: if_splits)
    then have "names_ahead n r = n"
      using less(1) [of "parse_whsp r"] token_measures(1) [of mem sp v r] t v(1) n' names_ahead_whsp by fastforce
    moreover obtain s' q where "parse_whsp sp = 0x27 # s'" "dropWhile (\<lambda>x. x \<noteq> 0x27) s' = q # r"
      using token_texts(3) t v(1) by blast
    ultimately show ?thesis using n by simp
  next
    case False
    then show ?thesis using less(2) t
      by (cases t) (auto simp: qdescr_list.simps [of mem room res sp] broken_off_def split: if_splits)
  qed
qed

lemma parse_qdescrs_undefined: "parse_qdescrs mem sp = Undefined \<Longrightarrow> \<not> tame sp"
proof -
  assume u: "parse_qdescrs mem sp = Undefined"
  obtain t r where t: "get_token mem (parse_whsp sp) = (t, r)" by fastforce
  have "t = TK_LEFTPAREN" "qdescr_list mem 3 [] r = Undefined"
    using u t by (cases t; simp add: parse_qdescrs_names split: if_splits)+
  then have "overlong (parse_whsp sp)"
    using qdescr_list_undefined [of mem 3 "[]" r] token_texts(1) [of mem "parse_whsp sp" r] t by (simp add: overlong_def)
  then show ?thesis using tame_at parse_whsp_suffix by blast
qed

lemma dollars_dropWhile: "(\<And>c. P c \<Longrightarrow> c \<noteq> 0x29 \<and> c \<noteq> 0x24) \<Longrightarrow> dollars_ahead (dropWhile P s) = dollars_ahead s"
  by (induction s) (auto simp: dollars_ahead_def)

lemma dollars_whsp: "dollars_ahead (parse_whsp s) = dollars_ahead s"
  unfolding parse_whsp_def by (rule dollars_dropWhile) (auto simp: LDAP_SPACE_def)

lemma dollars_word: "get_token mem s = (TK_BAREWORD v, r) \<Longrightarrow> dollars_ahead r = dollars_ahead s"
proof -
  assume "get_token mem s = (TK_BAREWORD v, r)"
  then have "r = dropWhile bare s" by (auto simp: get_token_def Let_def split: list.splits if_splits)
  then show ?thesis using dollars_dropWhile [of bare s] by (simp add: bare_def)
qed

lemma oid_list_undefined: "oid_list mem False room res sp = Undefined \<Longrightarrow> 3 \<le> length res + dollars_ahead sp"
proof (induction "length sp" arbitrary: room res sp rule: less_induct)
  case less
  obtain t r where t: "get_token mem sp = (t, r)" by fastforce
  obtain t' r' where t': "get_token mem (parse_whsp r) = (t', r')" by fastforce
  show ?case
  proof (cases "t = TK_DOLLAR \<and> (\<exists>v. t' = TK_BAREWORD v) \<and> length res < 3")
    case True
    then obtain v where v: "t = TK_DOLLAR" "t' = TK_BAREWORD v" "length res < 3" by blast
    have "\<exists>room. oid_list mem False room (res @ [v]) (parse_whsp r') = Undefined"
      using less(2) t t' v by (auto simp: oid_list.simps [of mem False room res sp] broken_off_def split: if_splits)
    then have "3 \<le> length (res @ [v]) + dollars_ahead (parse_whsp r')"
      using less(1) token_measures(2) t t' v(1) by blast
    moreover have "dollars_ahead sp = Suc (dollars_ahead r)"
      using token_texts(2) [of mem sp r] t v(1) by (simp add: dollars_ahead_def)
    ultimately show ?thesis using dollars_word [of mem "parse_whsp r" v r'] t' v(2) by (simp add: dollars_whsp)
  next
    case False
    then show ?thesis using less(2) t t'
      by (cases t; cases t') (auto simp: oid_list.simps [of mem False room res sp] broken_off_def split: if_splits)
  qed
qed

lemma parse_oids_undefined: "parse_oids mem 0 sp = Undefined \<Longrightarrow> \<not> tame sp"
proof -
  assume u: "parse_oids mem 0 sp = Undefined"
  obtain t r where t: "get_token mem (parse_whsp sp) = (t, r)" by fastforce
  obtain t' r' where t': "get_token mem (parse_whsp r) = (t', r')" by fastforce
  have p: "t = TK_LEFTPAREN" using u t by (cases t) (simp_all add: parse_oids_names split: if_splits)
  obtain v where v: "t' = TK_BAREWORD v" "oid_list mem False 3 [v] (parse_whsp r') = Undefined"
    using u t t' p by (cases t') (simp_all add: parse_oids_names split: if_splits)
  then have "2 \<le> dollars_ahead r"
    using oid_list_undefined [OF v(2)] dollars_word [of mem "parse_whsp r" v r'] t' by (simp add: dollars_whsp)
  then have "overlong (parse_whsp sp)" using token_texts(1) [of mem "parse_whsp sp" r] t p by (simp add: overlong_def)
  then show ?thesis using tame_at parse_whsp_suffix by blast
qed

lemma parse_noidlen_undefined: "parse_noidlen mem 0 sp = (len, Undefined) \<Longrightarrow> \<not> tame sp"
proof -
  assume u: "parse_noidlen mem 0 sp = (len, Undefined)"
  obtain v r where p: "parse_numericoid mem 0 sp = Parsed v r"
    using u parse_numericoid_forward(4) [of mem 0 sp] by (cases "parse_numericoid mem 0 sp") (auto simp: parse_noidlen_def Let_def)
  then obtain d where "r = 0x7b # d" "atoi d = None"
    using u by (cases r) (auto simp: parse_noidlen_def Let_def split: if_splits option.splits)
  then have "overlong r" by (simp add: overlong_def)
  then show ?thesis using tame_at parse_numericoid_forward(1) [OF p] by blast
qed

text \<open>No item of a strict parser leaves a string that is tame.\<close>

definition stays_defined :: "(octets \<Rightarrow> 'o \<Rightarrow> nat \<Rightarrow> octets \<Rightarrow> 'o went) \<Rightarrow> bool" where
  "stays_defined item \<longleftrightarrow> (\<forall>sval st code ss. tame ss \<longrightarrow> item sval st code ss \<noteq> Undefined_item)"

lemma Undefined_simps [simp]:
  "store p f code = Undefined_item \<longleftrightarrow> p = Undefined"
  "once sval seen ss w = Undefined_item \<longleftrightarrow> sval \<notin> set seen \<and> w = Undefined_item"
  "seeing seen w = Undefined_item \<longleftrightarrow> w = Undefined_item"
  by (auto simp: store_def once_def seeing_def split: parsed.split went.split)

lemma pieces_defined:
  assumes "tame ss"
  shows "parse_names mem ss \<noteq> Undefined" "parse_desc mem ss \<noteq> Undefined" "parse_woid mem ss \<noteq> Undefined"
    "parse_oid_item mem flags ss \<noteq> Undefined" "parse_usage mem ss \<noteq> Undefined" "parse_extension mem es sval ss \<noteq> Undefined"
    "parse_oids mem 0 ss \<noteq> Undefined" "syntax_of_type mem 0 at code ss \<noteq> Undefined_item"
proof -
  have "tame (parse_whsp ss)" using assms parse_whsp_suffix by (rule tame_suffix)
  then show "syntax_of_type mem 0 at code ss \<noteq> Undefined_item"
    using parse_noidlen_undefined [of mem "parse_whsp ss"] by (auto simp: syntax_of_type_def split: prod.splits parsed.splits)
qed (use assms parse_qdescrs_undefined parse_oids_undefined parse_numericoid_forward(4) in \<open>auto simp: parse_names_def parse_desc_def
    parse_woid_def parse_usage_def parse_extension_def parse_oid_item_def split: parsed.splits prod.splits token.splits option.splits if_splits\<close>)

lemma items_defined:
  "stays_defined (syntax_item mem)" "stays_defined (matchingrule_item mem 0)"
  "stays_defined (attributetype_item mem 0)" "stays_defined (objectclass_item mem 0)"
  by (auto simp: stays_defined_def syntax_item_def matchingrule_item_def attributetype_item_def objectclass_item_def objectclass_kind_def
      pieces_defined split: prod.splits if_splits)

section \<open>The parsers return\<close>

definition goes_forward :: "(octets \<Rightarrow> 'o \<Rightarrow> nat \<Rightarrow> octets \<Rightarrow> 'o went) \<Rightarrow> bool" where
  "goes_forward item \<longleftrightarrow> (\<forall>sval st code ss st' c r. item sval st code ss = Went st' c r \<longrightarrow> sval \<noteq> [] \<and> suffix r ss)"

lemma labels_not_empty: "ascii (ch # l) \<noteq> []" "extension_word sval \<Longrightarrow> sval \<noteq> []"
  by (auto simp: ascii_def extension_word_def)

lemmas item_forward = pieces_forward syntax_of_type_forward parse_oids_forward labels_not_empty

lemma syntax_item_forward: "goes_forward (syntax_item mem)"
  unfolding goes_forward_def syntax_item_def split_paired_All prod.case
  by (intro allI impI; elim if_eqE; simp only: Went_simps went.inject went.distinct simp_thms; elim exE conjE; intro conjI;
      (rule item_forward; assumption))

lemma matchingrule_item_forward: "goes_forward (matchingrule_item mem flags)"
  unfolding goes_forward_def matchingrule_item_def split_paired_All prod.case
  by (intro allI impI; elim if_eqE; simp only: Went_simps went.inject went.distinct simp_thms; elim exE conjE; intro conjI;
      (rule item_forward; assumption | (erule subst, rule parse_whsp_suffix)))

lemma attributetype_item_forward: "goes_forward (attributetype_item mem flags)"
  unfolding goes_forward_def attributetype_item_def split_paired_All prod.case
  by (intro allI impI; elim if_eqE; simp only: Went_simps seeing_Went went.inject went.distinct simp_thms; elim exE conjE; intro conjI;
      (rule item_forward; assumption | (erule subst, rule parse_whsp_suffix)))

lemma objectclass_item_forward: "goes_forward (objectclass_item mem flags)"
  unfolding goes_forward_def objectclass_item_def objectclass_kind_def split_paired_All prod.case
  by (intro allI impI; elim if_eqE; simp only: Went_simps went.inject went.distinct simp_thms; elim exE conjE; intro conjI;
      (rule item_forward; assumption | (erule subst, rule parse_whsp_suffix)))

text \<open>Every turn of the loop uses up at least the word it has read.\<close>

lemma parse_items_return:
  "goes_forward item \<Longrightarrow> \<exists>o'. parse_items mem item s st code ss = Some o' \<and> (stays_defined item \<and> tame ss \<longrightarrow> o' \<noteq> Undefined_run)"
proof (induction "length ss" arbitrary: st code ss rule: less_induct)
  case less
  obtain t r where t: "get_token mem ss = (t, r)" by fastforce
  have r: "suffix r ss" using t by (rule get_token_suffix)
  show ?case
  proof (cases t)
    case (TK_BAREWORD sval)
    show ?thesis
    proof (cases "item sval st code r")
      case (Went st' c r')
      then have w: "sval \<noteq> []" "suffix r' r" using less(2) by (auto simp: goes_forward_def)
      have "length r < length ss"
        using t TK_BAREWORD w(1)
        by (auto simp: get_token_def Let_def less_Suc_eq_le length_dropWhile_le split: list.splits if_splits)
      then have "length r' < length ss" using suffix_length_le [OF w(2)] by simp
      moreover have "tame ss \<Longrightarrow> tame r'" using tame_suffix r w(2) by blast
      ultimately show ?thesis using less t TK_BAREWORD Went by (subst parse_items.simps) fastforce
    next
      case Undefined_item
      then have "\<not> (stays_defined item \<and> tame ss)" using tame_suffix [OF _ r] unfolding stays_defined_def by blast
      then show ?thesis using t TK_BAREWORD Undefined_item by (subst parse_items.simps) simp
    qed (use t TK_BAREWORD in \<open>subst parse_items.simps, simp\<close>)
  qed (use t in \<open>subst parse_items.simps, simp\<close>)+
qed

lemma start_oid_forward:
  "start_oid (parse_numericoid mem q ss) code (\<lambda>_. False) m = Went o1 c r \<Longrightarrow> suffix r ss"
  "start_oid (parse_numericoid mem q ss) code (\<lambda>_. False) m \<noteq> Undefined_item"
  using parse_numericoid_forward(1,4) [of mem q ss] parse_whsp_suffix suffix_order.trans
  by (fastforce simp: start_oid_def split: parsed.splits)+

lemma parse_description_returns:
  assumes "goes_forward item"
  shows "\<exists>o'. parse_description mem n s code oid obj item = Some o'
    \<and> (stays_defined item \<and> (\<forall>ss. oid ss \<noteq> Undefined_item) \<and> (\<forall>ss o1 c r. oid ss = Went o1 c r \<longrightarrow> suffix r ss)
      \<and> (\<forall>str. s = Some str \<longrightarrow> tame (tl str)) \<longrightarrow> o' \<noteq> Undefined_run)"
proof (cases s)
  case (Some str)
  obtain t r where t: "get_token mem str = (t, r)" by fastforce
  show ?thesis
  proof (cases "t = TK_LEFTPAREN \<and> mem n")
    case True
    then have str: "str = 0x28 # r" using token_texts(1) t by blast
    show ?thesis
    proof (cases "oid (parse_whsp r)")
      case (Went o1 c r')
      obtain o' where o': "parse_items mem item str (obj o1, []) c r' = Some o'" "stays_defined item \<and> tame r' \<longrightarrow> o' \<noteq> Undefined_run"
        using parse_items_return [OF assms] by blast
      have "suffix r' (parse_whsp r) \<Longrightarrow> tame r \<Longrightarrow> tame r'" using tame_suffix parse_whsp_suffix suffix_order.trans by blast
      then show ?thesis using Some t True Went o' str by (cases o') (auto simp: parse_description_def)
    qed (use Some t True in \<open>auto simp: parse_description_def\<close>)
  next
    case False
    then show ?thesis using Some t by (cases t) (auto simp: parse_description_def)
  qed
qed (simp add: parse_description_def)

lemma strict_description_ends:
  assumes "goes_forward item" "b \<Longrightarrow> stays_defined item"
    "\<And>ss. b \<Longrightarrow> \<exists>q m. oid ss = start_oid (parse_numericoid mem q ss) code (\<lambda>_. False) m"
  shows "\<exists>o'. parse_description mem n s code oid obj item = Some o'
    \<and> (b \<and> (\<forall>str. s = Some str \<longrightarrow> tame (tl str)) \<longrightarrow> o' \<noteq> Undefined_run)"
proof -
  have "oid ss \<noteq> Undefined_item \<and> (\<forall>o1 c r. oid ss = Went o1 c r \<longrightarrow> suffix r ss)" if b: b for ss
  proof -
    obtain q m where "oid ss = start_oid (parse_numericoid mem q ss) code (\<lambda>_. False) m" using assms(3) [OF b] by blast
    then show ?thesis using start_oid_forward [of mem q ss code m] by simp
  qed
  then show ?thesis using parse_description_returns [OF assms(1), of mem n s code oid obj] assms(2) by blast
qed

text \<open>
  C34: Each of the four parsers comes to an end on every string, with any liberties and whichever allocations fail: each
  word that is not refused is a word the parser knows or an extension, so that the loop over the items uses up
  at least one octet of the string in every turn.  Without liberties (\<open>flags\<close> 0; for a syntax with any flags) the end is a structure or an error
  code, and not a run that has left its memory, if behind the parenthesis of the description no list begins
  with three names in quotes or more, none has two dollar signs before its end, and no number behind a brace is
  too great for an \<open>int\<close>: these are the only places where a strict parser can go wrong (\<open>schema_list_overrun\<close>
  says how).
\<close>

theorem schema_parsers_return:
  "(\<exists>o'. ldap_str2syntax mem s code flags = Some o'
      \<and> ((\<forall>str. s = Some str \<longrightarrow> tame (tl str)) \<longrightarrow> o' \<noteq> Undefined_run))
    \<and> (\<exists>o'. ldap_str2matchingrule mem s code flags = Some o'
      \<and> (flags = 0 \<and> (\<forall>str. s = Some str \<longrightarrow> tame (tl str)) \<longrightarrow> o' \<noteq> Undefined_run))
    \<and> (\<exists>o'. ldap_str2attributetype mem s code flags = Some o'
      \<and> (flags = 0 \<and> (\<forall>str. s = Some str \<longrightarrow> tame (tl str)) \<longrightarrow> o' \<noteq> Undefined_run))
    \<and> (\<exists>o'. ldap_str2objectclass mem s code flags = Some o'
      \<and> (flags = 0 \<and> (\<forall>str. s = Some str \<longrightarrow> tame (tl str)) \<longrightarrow> o' \<noteq> Undefined_run))"
  unfolding ldap_str2syntax_def ldap_str2matchingrule_def ldap_str2attributetype_def ldap_str2objectclass_def
proof (intro conjI)
  show "\<exists>o'. parse_description mem SYNTAX_BYTES s code
      (\<lambda>ss. start_oid (parse_numericoid mem 0 ss) code (\<lambda>_. False) (\<lambda>c. Undefined_item))
      (\<lambda>oid. \<lparr>syn_oid = oid, syn_names = None, syn_desc = None, syn_extensions = None\<rparr>) (syntax_item mem) = Some o'
      \<and> ((\<forall>str. s = Some str \<longrightarrow> tame (tl str)) \<longrightarrow> o' \<noteq> Undefined_run)"
    by (rule strict_description_ends [of _ True, simplified, OF syntax_item_forward items_defined(1)]) blast
qed (rule strict_description_ends, rule matchingrule_item_forward attributetype_item_forward objectclass_item_forward,
    (simp add: items_defined), (simp, blast))+

lemma schema_parsers_return_witness:
  "tame (ascii '' 2.6 NAME ( 'a' 'b' ) SUP ( top $ q ) MUST cn'')
    \<and> ldap_str2objectclass (\<lambda>n. n \<noteq> 9) (Some (ascii ''( 2.6 NAME ( 'a' 'b' ) SUP ( top $ q ) MUST cn'')) 0 0
      = Some (Returned None LDAP_SCHERR_NORIGHTPAREN None)"
proof -
  let ?s = "ascii ''( 2.6 NAME ( 'a' 'b' ) SUP ( top $ q ) MUST cn''"
  have t: "tame (ascii '' 2.6 NAME ( 'a' 'b' ) SUP ( top $ q ) MUST cn'')" "tl ?s = ascii '' 2.6 NAME ( 'a' 'b' ) SUP ( top $ q ) MUST cn''"
    by code_simp+
  then have "\<exists>o'. ldap_str2objectclass (\<lambda>n. n \<noteq> 9) (Some ?s) 0 0 = Some o' \<and> o' \<noteq> Undefined_run"
    using schema_parsers_return [of "\<lambda>n. n \<noteq> 9" "Some ?s" 0 0] by simp
  moreover have "ldap_str2objectclass (\<lambda>n. n \<noteq> 9) (Some ?s) 0 0 = Some (Returned None LDAP_SCHERR_NORIGHTPAREN None)" by code_simp
  ultimately show ?thesis using t(1) by blast
qed

end
