(* ===== verification/Getdn.thy ===== *)
theory Getdn imports Charray Ldap_Controls begin

text \<open>
  Distinguished names: libraries/libldap/getdn.c.  The pointers \<open>p\<close> and \<open>rdn\<close> are positions in the name behind its
  leading white space.  A result has three levels: the outer \<open>None\<close> is a run that is not defined, the next one the
  null pointer.
\<close>

section \<open>Splitting a name\<close>

datatype name_type = NAME_TYPE_LDAP_RDN | NAME_TYPE_LDAP_DN | NAME_TYPE_DCE_DN

definition space :: "u8 \<Rightarrow> bool" where
  "space c \<longleftrightarrow> ldap_utf8_isspace [c]"

definition ends_part :: "name_type \<Rightarrow> u8 \<Rightarrow> bool" where
  "ends_part is_type c \<longleftrightarrow> c = 0x2b \<and> is_type = NAME_TYPE_LDAP_RDN \<or> c = 0x2f \<and> is_type = NAME_TYPE_DCE_DN
    \<or> (c = 0x3b \<or> c = 0x2c) \<and> is_type = NAME_TYPE_LDAP_DN"

text \<open>
  With \<open>notypes\<close>, the part begins behind its first equality sign and an opening quote, and ends in front of a quote.
  The octet in front of \<open>p\<close> is looked at even where nothing is in front of it; \<open>skipped\<close> says that white space is.
\<close>

definition untyped :: "bool \<Rightarrow> octets \<Rightarrow> nat \<Rightarrow> nat \<Rightarrow> (nat \<times> nat \<times> bool) option" where
  "untyped skipped name rdn p =
    (let q = rdn + length (takeWhile (\<lambda>c. c \<noteq> 0x3d) (take (p - rdn) (drop rdn name)));
         rdn1 = (if q < p then q + 1 else rdn);
         rdn2 = (if rdn1 < length name \<and> name ! rdn1 = 0x22 then rdn1 + 1 else rdn1)
     in if p = 0 then (if skipped then Some (rdn2, p, False) else None)
        else if name ! (p - 1) = 0x22 then Some (rdn2, p - 1, True) else Some (rdn2, p, False))"

definition trimmed :: "octets \<Rightarrow> octets" where
  "trimmed s = rev (dropWhile space (rev s))"

text \<open>
  The string that is stored for a part.  Its length can be -1; an allocation of 0 octets yields the null
  pointer, as a failed one does, and ends the array for whoever reads it.
\<close>

definition new_part :: "(nat \<Rightarrow> bool) \<Rightarrow> bool \<Rightarrow> bool \<Rightarrow> octets \<Rightarrow> nat \<Rightarrow> nat \<Rightarrow> octets option option" where
  "new_part mem notypes skipped name rdn p =
    (case (if notypes then untyped skipped name rdn p else Some (rdn, p, False)) of None \<Rightarrow> None
     | Some (rdn', p', endquote) \<Rightarrow>
        (let s = take (p' - rdn') (drop rdn' name) in
         Some (if p' < rdn' \<or> \<not> mem (p' - rdn' + 1) then None else Some (if endquote then s else trimmed s))))"

text \<open>There is room for the array with \<open>count\<close> parts and a null pointer behind them.\<close>

definition parts_room :: "(nat \<Rightarrow> bool) \<Rightarrow> nat \<Rightarrow> bool" where
  "parts_room mem count \<longleftrightarrow> (if count = 1 then mem (8 * 4) else 8 \<le> count \<longrightarrow> mem ((count + 1) * 4))"

definition next_rdn :: "octets \<Rightarrow> nat \<Rightarrow> nat" where
  "next_rdn name p = p + 1 + length (takeWhile space (drop (p + 1) name))"

text \<open>The loop: \<open>inquote\<close> is \<open>state == INQUOTE\<close>, \<open>[]\<close> the array that was not yet allocated.\<close>

function explode_loop ::
    "(nat \<Rightarrow> bool) \<Rightarrow> name_type \<Rightarrow> bool \<Rightarrow> bool \<Rightarrow> octets \<Rightarrow> bool \<Rightarrow> nat \<Rightarrow> nat \<Rightarrow> octets option list \<Rightarrow> octets option list option option" where
  "explode_loop mem is_type notypes skipped name inquote rdn p parts =
    (if length name \<le> p then
       (if inquote then Some (Some parts)
        else if \<not> parts_room mem (Suc (length parts)) then Some None
        else case new_part mem notypes skipped name rdn p of None \<Rightarrow> None | Some part \<Rightarrow> Some (Some (parts @ [part])))
     else if name ! p = 0x5c then
       (if p + 1 < length name then
          explode_loop mem is_type notypes skipped name inquote rdn (p + 1 + ldap_utf8_offset (drop (p + 1) name)) parts
        else explode_loop mem is_type notypes skipped name inquote rdn (p + 1) parts)
     else if name ! p = 0x22 then explode_loop mem is_type notypes skipped name (\<not> inquote) rdn (p + 1) parts
     else if ends_part is_type (name ! p) \<and> \<not> inquote then
       (if \<not> parts_room mem (Suc (length parts)) then Some None
        else case new_part mem notypes skipped name rdn p of None \<Rightarrow> None
         | Some part \<Rightarrow> explode_loop mem is_type notypes skipped name inquote (next_rdn name p) (p + 1) (parts @ [part]))
     else explode_loop mem is_type notypes skipped name inquote rdn (p + 1) parts)"
  by pat_completeness auto
termination by (relation "measure (\<lambda>(mem, is_type, notypes, skipped, name, inquote, rdn, p, parts). length name - p)") auto

declare explode_loop.simps [simp del]

definition explode_name :: "(nat \<Rightarrow> bool) \<Rightarrow> octets option \<Rightarrow> bool \<Rightarrow> name_type \<Rightarrow> octets list option option" where
  "explode_name mem name_arg notypes is_type =
    (let given = (case name_arg of None \<Rightarrow> [] | Some s \<Rightarrow> s); name = dropWhile space given in
     case explode_loop mem is_type notypes (name \<noteq> given) name False 0 0 [] of None \<Rightarrow> None | Some None \<Rightarrow> Some None
     | Some (Some parts) \<Rightarrow> Some (if parts = [] then None else Some (map the (takeWhile (\<lambda>x. x \<noteq> None) parts))))"

definition ldap_explode_dn :: "(nat \<Rightarrow> bool) \<Rightarrow> octets option \<Rightarrow> bool \<Rightarrow> octets list option option" where
  "ldap_explode_dn mem dn notypes = explode_name mem dn notypes NAME_TYPE_LDAP_DN"

definition ldap_explode_rdn :: "(nat \<Rightarrow> bool) \<Rightarrow> octets option \<Rightarrow> bool \<Rightarrow> octets list option option" where
  "ldap_explode_rdn mem rdn notypes = explode_name mem rdn notypes NAME_TYPE_LDAP_RDN"

section \<open>Other forms of a name\<close>

definition ldap_get_dn :: "(u32 \<Rightarrow> bool) \<Rightarrow> ldap \<Rightarrow> berelement option \<Rightarrow> (octets option \<times> ldap) option" where
  "ldap_get_dn alloc ld entry =
    (case entry of None \<Rightarrow> Some (None, set_errno LDAP_PARAM_ERROR ld)
     | Some ber \<Rightarrow>
        (case ber_scanf alloc ber ''{a'' [SPtr] of None \<Rightarrow> None
         | Some (rc, outs, ber') \<Rightarrow>
            (if rc = LBER_DEFAULT then Some (None, set_errno LDAP_DECODING_ERROR ld)
             else case outs of [ONone, OStr dn] \<Rightarrow> Some (dn, ld) | _ \<Rightarrow> None)))"

text \<open>The loop of \<open>ldap_dn2ufn\<close>; the inner \<open>None\<close> is its early return.\<close>

fun ufn_values :: "(nat \<Rightarrow> bool) \<Rightarrow> octets list \<Rightarrow> octets option list option option" where
  "ufn_values mem [] = Some (Some [])"
| "ufn_values mem (v # vals) =
    (case ldap_explode_rdn mem (Some v) True of None \<Rightarrow> None | Some None \<Rightarrow> Some None
     | Some (Some rvals) \<Rightarrow>
        (case ldap_charray2str mem rvals (Some (ascii '' + '')) of None \<Rightarrow> None
         | Some s \<Rightarrow> map_option (map_option ((#) s)) (ufn_values mem vals)))"

definition ldap_dn2ufn :: "(nat \<Rightarrow> bool) \<Rightarrow> octets option \<Rightarrow> octets option option" where
  "ldap_dn2ufn mem dn =
    (if dn = None then Some None
     else case ldap_explode_dn mem dn False of None \<Rightarrow> None | Some None \<Rightarrow> Some None
      | Some (Some vals) \<Rightarrow>
         (case ufn_values mem vals of None \<Rightarrow> None | Some None \<Rightarrow> Some None
          | Some (Some vs) \<Rightarrow> ldap_charray2str mem (map the (takeWhile (\<lambda>x. x \<noteq> None) vs)) (Some (ascii '', ''))))"

text \<open>From the last part back to the first; with no part at all the pointer runs away in front of the array.\<close>

definition ldap_dn2dcedn :: "(nat \<Rightarrow> bool) \<Rightarrow> octets option \<Rightarrow> octets option option" where
  "ldap_dn2dcedn mem dn =
    (case explode_name mem dn False NAME_TYPE_LDAP_DN of None \<Rightarrow> None | Some None \<Rightarrow> Some None
     | Some (Some rdns) \<Rightarrow>
        (let len = sum_list (map (\<lambda>r. length r + 1) rdns); text = concat (map ((#) 0x2f) (rev rdns)) in
         if \<not> mem (len + 1) then Some None
         else if rdns = [] \<or> len < length text then None
         else Some (Some text)))"

text \<open>The last comma is taken back when the name began with a slash, even where none was written.\<close>

definition ldap_dcedn2dn :: "(nat \<Rightarrow> bool) \<Rightarrow> octets option \<Rightarrow> octets option option" where
  "ldap_dcedn2dn mem dce =
    (case explode_name mem dce False NAME_TYPE_DCE_DN of None \<Rightarrow> None | Some None \<Rightarrow> Some None
     | Some (Some rdns) \<Rightarrow>
        (let len = sum_list (map (\<lambda>r. length r + 1) rdns); text = concat (map (\<lambda>r. r @ [0x2c]) (rev (tl rdns))) in
         if len = 0 \<or> \<not> mem len then Some None
         else case dce of None \<Rightarrow> None
          | Some s \<Rightarrow>
             (if first_octet s = 0x2f then (if text = [] then None else Some (Some (butlast text)))
              else Some (Some (text @ hd rdns)))))"

end
