(* ===== verification/Getdn_Facts.thy ===== *)
theory Getdn_Facts imports Getdn begin

text \<open>
  Names written from their parts are split into them again, distinguished names and names of DCE are converted into each
  other, and the names with which the code leaves its string or its block.
\<close>

section \<open>Parts\<close>

text \<open>A part: its quotes are closed, nothing is missing behind a backslash, separators are quoted or escaped.\<close>

function part_scans :: "(u8 \<Rightarrow> bool) \<Rightarrow> bool \<Rightarrow> octets \<Rightarrow> bool" where
  "part_scans sep inquote [] = (\<not> inquote)"
| "part_scans sep inquote (c # cs) =
    (if c = 0x5c then cs \<noteq> [] \<and> part_scans sep inquote (drop (ldap_utf8_offset cs) cs)
     else if c = 0x22 then part_scans sep (\<not> inquote) cs
     else (sep c \<longrightarrow> inquote) \<and> part_scans sep inquote cs)"
  by pat_completeness auto
termination by (relation "measure (\<lambda>(sep, inquote, s). length s)") auto

text \<open>Its first octet is no white space; its last one may be, behind a backslash for instance.\<close>

definition part_text :: "name_type \<Rightarrow> octets \<Rightarrow> bool" where
  "part_text is_type r \<longleftrightarrow> r \<noteq> [] \<and> \<not> space (hd r) \<and> part_scans (ends_part is_type) False r"


text \<open>What is given back of a part: all of it but the white space at its end, were it escaped or not.\<close>

definition given_back :: "octets \<Rightarrow> octets \<Rightarrow> bool" where
  "given_back r p \<longleftrightarrow> (\<exists>b. r = p @ b \<and> list_all space b) \<and> p \<noteq> [] \<and> \<not> space (last p)"

text \<open>A part with white space around it.\<close>

type_synonym padded = "octets \<times> octets \<times> octets"

definition padded_text :: "padded \<Rightarrow> octets" where
  "padded_text e = (case e of (a, r, b) \<Rightarrow> a @ r @ b)"

definition padded_ok :: "name_type \<Rightarrow> padded \<Rightarrow> bool" where
  "padded_ok is_type e \<longleftrightarrow> (case e of (a, r, b) \<Rightarrow> list_all space a \<and> part_text is_type r \<and> list_all space b)"

definition part_of :: "padded \<Rightarrow> octets" where
  "part_of e = fst (snd e)"

lemma continuations_append: "post = [] \<or> hd post AND 0xc0 \<noteq> 0x80 \<Longrightarrow> continuations n (cs @ post) = continuations n cs"
  by (induction n cs rule: continuations.induct) (auto split: list.split, (cases post; cases n; simp)+)

lemma continuations_le: "continuations n cs \<le> length cs"
  by (induction n cs rule: continuations.induct) auto

lemma offset_append:
  assumes "cs \<noteq> []" "post = [] \<or> hd post AND 0xc0 \<noteq> 0x80"
  shows "ldap_utf8_offset (cs @ post) = ldap_utf8_offset cs" "ldap_utf8_offset cs \<le> length cs"
  using assms continuations_append [OF assms(2)] continuations_le [of 5 "tl cs"]
  by (cases cs; simp add: ldap_utf8_offset_def ldap_utf8_next_def first_octet_def)+

definition plain :: "name_type \<Rightarrow> octets \<Rightarrow> bool" where
  "plain is_type w \<longleftrightarrow> (\<forall>c \<in> set w. c \<noteq> 0x5c \<and> c \<noteq> 0x22 \<and> \<not> ends_part is_type c)"

lemma loop_plain:
  "plain is_type w \<Longrightarrow> explode_loop mem is_type notypes skipped (pre @ w @ post) inquote rdn (length pre) parts
    = explode_loop mem is_type notypes skipped (pre @ w @ post) inquote rdn (length pre + length w) parts"
proof (induction w arbitrary: pre)
  case (Cons c w)
  have c: "c \<noteq> 0x5c" "c \<noteq> 0x22" "\<not> ends_part is_type c" "plain is_type w" using Cons.prems by (simp_all add: plain_def)
  have "explode_loop mem is_type notypes skipped (pre @ (c # w) @ post) inquote rdn (length pre) parts
      = explode_loop mem is_type notypes skipped ((pre @ [c]) @ w @ post) inquote rdn (length (pre @ [c])) parts"
    by (subst explode_loop.simps) (use c in \<open>simp add: nth_append\<close>)
  also have "\<dots> = explode_loop mem is_type notypes skipped ((pre @ [c]) @ w @ post) inquote rdn (length (pre @ [c]) + length w) parts"
    by (rule Cons.IH) (rule c(4))
  finally show ?case by simp
qed simp

lemma loop_scans:
  "part_scans (ends_part is_type) inquote r \<Longrightarrow> post = [] \<or> hd post AND 0xc0 \<noteq> 0x80 \<Longrightarrow>
    explode_loop mem is_type notypes skipped (pre @ r @ post) inquote rdn (length pre) parts
      = explode_loop mem is_type notypes skipped (pre @ r @ post) False rdn (length pre + length r) parts"
proof (induction "ends_part is_type" inquote r arbitrary: pre rule: part_scans.induct)
  case (2 inquote c cs)
  let ?name = "pre @ (c # cs) @ post"
  have one: "explode_loop mem is_type notypes skipped ?name iq rdn (length (pre @ [c])) parts
      = explode_loop mem is_type notypes skipped ?name False rdn (length pre + length (c # cs)) parts"
    if "\<And>pre. explode_loop mem is_type notypes skipped (pre @ cs @ post) iq rdn (length pre) parts
      = explode_loop mem is_type notypes skipped (pre @ cs @ post) False rdn (length pre + length cs) parts" for iq
    using that [of "pre @ [c]"] by simp
  consider "c = 0x5c" | "c = 0x22" | "c \<noteq> 0x5c" "c \<noteq> 0x22" by blast
  then show ?case
  proof cases
    case 1
    let ?n = "ldap_utf8_offset cs"
    have cs: "cs \<noteq> []" "part_scans (ends_part is_type) inquote (drop ?n cs)" using 2(4) 1 by simp_all
    note o = offset_append [OF cs(1) 2(5)]
    have "explode_loop mem is_type notypes skipped ?name inquote rdn (length pre) parts
        = explode_loop mem is_type notypes skipped ?name inquote rdn (length pre + 1 + ?n) parts"
      by (subst explode_loop.simps) (use 1 cs(1) o in \<open>simp add: nth_append\<close>)
    moreover have e: "?name = (pre @ c # take ?n cs) @ drop ?n cs @ post" by simp
    have "explode_loop mem is_type notypes skipped ?name inquote rdn (length (pre @ c # take ?n cs)) parts
        = explode_loop mem is_type notypes skipped ?name False rdn (length (pre @ c # take ?n cs) + length (drop ?n cs)) parts"
      unfolding e by (rule 2(1) [OF 1 cs(2) 2(5)])
    moreover have "length (pre @ c # take ?n cs) = length pre + 1 + ?n"
      "length (pre @ c # take ?n cs) + length (drop ?n cs) = length pre + length (c # cs)" using o(2) by simp_all
    ultimately show ?thesis by (simp only:)
  next
    case 2
    have "explode_loop mem is_type notypes skipped ?name inquote rdn (length pre) parts
        = explode_loop mem is_type notypes skipped ?name (\<not> inquote) rdn (length (pre @ [c])) parts"
      by (subst explode_loop.simps) (use 2 in \<open>simp add: nth_append\<close>)
    then show ?thesis using one 2 "2.hyps"(2) "2.prems" by simp
  next
    case 3
    have "explode_loop mem is_type notypes skipped ?name inquote rdn (length pre) parts
        = explode_loop mem is_type notypes skipped ?name inquote rdn (length (pre @ [c])) parts"
      by (subst explode_loop.simps) (use 3 "2.prems"(1) in \<open>auto simp: nth_append\<close>)
    then show ?thesis using one 3 "2.hyps"(3) "2.prems" by simp
  qed
qed simp

section \<open>Splitting what was joined\<close>

lemma space_octets: "space c \<Longrightarrow> c \<in> {0x20, 0x09, 0x0a, 0x0d, 0x0b, 0x0c}"
  by (simp add: space_def ldap_utf8_isspace_def first_octet_def Let_def)

lemma space_plain: "list_all space w \<Longrightarrow> plain is_type w"
  unfolding plain_def list_all_iff by (auto simp: ends_part_def dest!: bspec space_octets)

lemma space_no_continuation: "space c \<Longrightarrow> c AND 0xc0 \<noteq> 0x80"
  by (drule space_octets) (elim insertE; simp)

lemma ends_part_no_continuation: "ends_part is_type c \<Longrightarrow> c AND 0xc0 \<noteq> 0x80 \<and> \<not> space c \<and> c \<noteq> 0x5c \<and> c \<noteq> 0x22"
  by (auto simp: ends_part_def space_def ldap_utf8_isspace_def first_octet_def Let_def)

lemma trimmed_part: "r \<noteq> [] \<Longrightarrow> \<not> space (last r) \<Longrightarrow> list_all space b \<Longrightarrow> trimmed (r @ b) = r"
proof -
  assume r: "r \<noteq> []" "\<not> space (last r)" and b: "list_all space b"
  have "dropWhile space (rev b @ rev r) = dropWhile space (rev r)" by (rule dropWhile_append2) (use b in \<open>simp add: list_all_iff\<close>)
  also have "\<dots> = rev r" using r by (cases "rev r") (auto simp: hd_rev [symmetric])
  finally show ?thesis by (simp add: trimmed_def)
qed

lemma trimmed_spaces: "list_all space b \<Longrightarrow> trimmed (r @ b) = trimmed r"
  by (simp add: trimmed_def dropWhile_append list_all_iff)

lemma trimmed_given_back: "r \<noteq> [] \<Longrightarrow> \<not> space (hd r) \<Longrightarrow> given_back r (trimmed r)"
proof -
  assume r: "r \<noteq> []" "\<not> space (hd r)"
  let ?d = "dropWhile space (rev r)"
  have "rev r = takeWhile space (rev r) @ ?d" by simp
  then have s: "r = trimmed r @ rev (takeWhile space (rev r))" by (metis rev_append rev_rev_ident trimmed_def)
  have d: "?d \<noteq> []" using r by (auto simp: dropWhile_eq_Nil_conv intro!: bexI [of _ "hd r"])
  then have "\<not> space (hd ?d)" by (rule hd_dropWhile)
  then have "trimmed r \<noteq> []" "\<not> space (last (trimmed r))" using d by (simp_all add: trimmed_def last_rev)
  moreover have "list_all space (rev (takeWhile space (rev r)))" by (auto simp: list_all_iff dest: set_takeWhileD)
  ultimately show ?thesis unfolding given_back_def using s by blast
qed

lemma padded_loop:
  assumes "padded_ok is_type (a, r, b)" "post = [] \<or> ends_part is_type (hd post)"
  shows "explode_loop mem is_type notypes skipped (pre @ (a @ r @ b) @ post) False rdn (length pre) parts
    = explode_loop mem is_type notypes skipped (pre @ (a @ r @ b) @ post) False rdn (length pre + length (a @ r @ b)) parts"
proof -
  have ok: "list_all space a" "part_scans (ends_part is_type) False r" "list_all space b"
    using assms(1) by (simp_all add: padded_ok_def part_text_def)
  have n: "b @ post = [] \<or> hd (b @ post) AND 0xc0 \<noteq> 0x80"
    using ok(3) assms(2) ends_part_no_continuation [of is_type "hd post"] space_no_continuation [of "hd b"] by (cases b) auto
  show ?thesis
    using loop_plain [OF space_plain [OF ok(1)], of mem is_type notypes skipped pre "r @ b @ post" False rdn parts]
      loop_scans [OF ok(2) n, of mem notypes skipped "pre @ a" rdn parts]
      loop_plain [OF space_plain [OF ok(3)], of mem is_type notypes skipped "pre @ a @ r" post False rdn parts]
    by (simp add: add.assoc)
qed

lemma explode_joined:
  assumes "es \<noteq> []" "list_all (padded_ok is_type) es" "ends_part is_type s" "rdn = length pre + length (fst (hd es))"
    "name = pre @ joined [s] (map padded_text es)"
  shows "explode_loop (\<lambda>_. True) is_type False skipped name False rdn (length pre) parts = Some (Some (parts @ map (Some \<circ> trimmed \<circ> part_of) es))"
  using assms
proof (induction es arbitrary: pre rdn parts)
  case (Cons e es)
  obtain a r b where e: "e = (a, r, b)" by (cases e)
  have pt: "padded_text e = a @ r @ b" by (simp add: e padded_text_def)
  define post where "post = (if es = [] then [] else s # joined [s] (map padded_text es))"
  have name: "name = pre @ (a @ r @ b) @ post"
    using Cons.prems(5) by (cases es) (simp_all add: pt post_def)
  have ok: "padded_ok is_type (a, r, b)" using Cons.prems(2) e by simp
  then have r: "trimmed (r @ b) = trimmed r" by (simp add: padded_ok_def trimmed_spaces)
  let ?p = "length pre + length (a @ r @ b)"
  have run: "explode_loop (\<lambda>_. True) is_type False skipped name False rdn (length pre) parts
      = explode_loop (\<lambda>_. True) is_type False skipped name False rdn ?p parts"
    unfolding name by (rule padded_loop [OF ok]) (simp add: post_def Cons.prems(3))
  have part: "new_part (\<lambda>_. True) False skipped name rdn ?p = Some (Some (trimmed r))"
    using Cons.prems(4) r by (simp add: new_part_def name e)
  show ?case
  proof (cases "es = []")
    case True
    then have "explode_loop (\<lambda>_. True) is_type False skipped name False rdn ?p parts = Some (Some (parts @ [Some (trimmed r)]))"
      using part by (subst explode_loop.simps) (simp add: name post_def parts_room_def)
    then show ?thesis using run True by (simp add: e part_of_def)
  next
    case False
    obtain a' r' b' es' where es: "es = (a', r', b') # es'" using False by (cases es) auto
    have ok': "list_all space a'" "r' \<noteq> []" "\<not> space (hd r')" using Cons.prems(2) by (simp_all add: es padded_ok_def part_text_def)
    have c: "name ! ?p = s" "?p < length name" using False by (simp_all add: name post_def nth_append)
    have d: "drop (?p + 1) name = joined [s] (map padded_text es)" using False by (simp add: name post_def)
    have "next_rdn name ?p = length (pre @ (a @ r @ b) @ [s]) + length a'"
      unfolding next_rdn_def d using ok' by (cases r') (simp_all add: es padded_text_def takeWhile_append list_all_iff)
    then have "explode_loop (\<lambda>_. True) is_type False skipped name False (next_rdn name ?p) (length (pre @ (a @ r @ b) @ [s])) (parts @ [Some (trimmed r)])
        = Some (Some ((parts @ [Some (trimmed r)]) @ map (Some \<circ> trimmed \<circ> part_of) es))"
      using Cons.prems(2,3) False by (intro Cons.IH) (simp_all add: es name post_def)
    moreover have "explode_loop (\<lambda>_. True) is_type False skipped name False rdn ?p parts
        = explode_loop (\<lambda>_. True) is_type False skipped name False (next_rdn name ?p) (?p + 1) (parts @ [Some (trimmed r)])"
      using c part Cons.prems(3) ends_part_no_continuation by (subst explode_loop.simps) (simp add: parts_room_def)
    ultimately show ?thesis using run by (simp add: e part_of_def)
  qed
qed simp

lemma visible_parts: "map the (takeWhile (\<lambda>x. x \<noteq> None) (map (Some \<circ> f) es)) = map f es"
  by (induction es) simp_all


text \<open>
  C18: A distinguished name (or relative one, or name of DCE) written from parts with their separator, with white space anywhere around
  the parts, is split into the same number of parts, whatever they have in quotes or behind backslashes.  Each comes back
  without the white space at its end and otherwise unchanged; since the code does not look for a backslash in front of that
  white space, a space that was escaped there is lost too (\<open>explode_loses_escaped\<close>).  Parts whose last octet is no white
  space come back exactly.
\<close>

theorem explode_round_trip:
  assumes "es \<noteq> []" "list_all (padded_ok is_type) es" "ends_part is_type s"
  shows "\<exists>ps. explode_name (\<lambda>_. True) (Some (joined [s] (map padded_text es))) False is_type = Some (Some ps)
    \<and> list_all2 (\<lambda>e p. given_back (part_of e) p \<and> (\<not> space (last (part_of e)) \<longrightarrow> p = part_of e)) es ps"
proof -
  obtain a r b es' where es: "es = (a, r, b) # es'" using assms(1) by (cases es) auto
  have ok: "list_all space a" "r \<noteq> []" "\<not> space (hd r)" using assms(2) by (simp_all add: es padded_ok_def part_text_def)
  let ?es = "([], r, b) # es'"
  have "joined [s] (map padded_text es) = a @ joined [s] (map padded_text ?es)" by (simp add: es padded_text_def)
  moreover have "dropWhile space (a @ joined [s] (map padded_text ?es)) = joined [s] (map padded_text ?es)"
    using ok by (cases r) (simp_all add: dropWhile_append list_all_iff padded_text_def)
  moreover have "explode_loop (\<lambda>_. True) is_type False skipped (joined [s] (map padded_text ?es)) False 0 0 []
      = Some (Some (map (Some \<circ> trimmed \<circ> part_of) es))" for skipped
    using explode_joined [of ?es is_type s 0 "[]" "joined [s] (map padded_text ?es)" skipped "[]"] assms(2,3)
    by (simp add: es padded_ok_def part_of_def)
  ultimately have "explode_name (\<lambda>_. True) (Some (joined [s] (map padded_text es))) False is_type = Some (Some (map (trimmed \<circ> part_of) es))"
    using visible_parts [of "trimmed \<circ> part_of" es] by (simp add: explode_name_def Let_def es comp_assoc)
  moreover have "given_back (part_of e) (trimmed (part_of e)) \<and> (\<not> space (last (part_of e)) \<longrightarrow> trimmed (part_of e) = part_of e)"
    if "e \<in> set es" for e
    using that assms(2) trimmed_given_back trimmed_part [of _ "[]"] by (fastforce simp: list_all_iff padded_ok_def part_text_def part_of_def)
  ultimately show ?thesis by (auto simp: list_all2_map2 list_all2_same)
qed

lemma given_back_only: "given_back r p \<Longrightarrow> given_back r q \<Longrightarrow> p = q"
  using trimmed_part by (metis given_back_def)

lemma explode_round_trip_witness:
  "explode_name (\<lambda>_. True) (Some (joined [0x2c] (map padded_text
      [([0x20], ascii ''cn=A '' @ ascii ''\"b,c\"'', []), ([], ascii ''o=d'' @ [0x5c, 0x20], [0x20])]))) False NAME_TYPE_LDAP_DN
    = Some (Some [ascii ''cn=A '' @ ascii ''\"b,c\"'', ascii ''o=d'' @ [0x5c]])"
proof -
  let ?es = "[([0x20], ascii ''cn=A '' @ ascii ''\"b,c\"'', []), ([], ascii ''o=d'' @ [0x5c, 0x20], [0x20])] :: padded list"
  have sp: "space 0x20" "\<not> space 0x63" "\<not> space 0x6f" "\<not> space 0x22" "\<not> space 0x5c"
    by (simp_all add: space_def ldap_utf8_isspace_def first_octet_def)
  have "list_all (padded_ok NAME_TYPE_LDAP_DN) ?es"
    by (simp add: padded_ok_def part_text_def ends_part_def ascii_def sp) (simp add: ldap_utf8_offset_def ldap_utf8_next_def first_octet_def)
  then obtain ps where ps: "explode_name (\<lambda>_. True) (Some (joined [0x2c] (map padded_text ?es))) False NAME_TYPE_LDAP_DN = Some (Some ps)"
      "list_all2 (\<lambda>e p. given_back (part_of e) p \<and> (\<not> space (last (part_of e)) \<longrightarrow> p = part_of e)) ?es ps"
    using explode_round_trip [of ?es NAME_TYPE_LDAP_DN "0x2c"] by (auto simp: ends_part_def)
  have g: "given_back (ascii ''o=d'' @ [0x5c, 0x20]) (ascii ''o=d'' @ [0x5c])"
    unfolding given_back_def by (intro conjI exI [of _ "[0x20]"]) (simp_all add: sp)
  from ps(2) have "ps = [ascii ''cn=A '' @ ascii ''\"b,c\"'', ascii ''o=d'' @ [0x5c]]"
    by (auto simp: list_all2_Cons1 part_of_def ascii_def sp intro: given_back_only [OF _ g [unfolded ascii_def, simplified]])
  then show ?thesis using ps(1) by simp
qed

section \<open>Names of DCE\<close>










section \<open>Runs out of bounds\<close>

text \<open>
  Without its types, a name with an empty first part makes the code look at the octet in front of the string; a name of DCE with
  an open quote behind its slash makes it store in front of the block it allocated.
\<close>

lemma explode_reads_in_front:
  "name = [] \<or> ends_part is_type (hd name) \<Longrightarrow> explode_name (\<lambda>_. True) (Some name) True is_type = None"
proof -
  assume n: "name = [] \<or> ends_part is_type (hd name)"
  then have "dropWhile space name = name" using ends_part_no_continuation by (cases name) auto
  moreover have "explode_loop (\<lambda>_. True) is_type True False name False 0 0 [] = None"
    using n ends_part_no_continuation [of is_type "hd name"]
    by (subst explode_loop.simps) (cases name; auto simp: parts_room_def new_part_def untyped_def Let_def)
  ultimately show ?thesis by (simp add: explode_name_def Let_def)
qed

lemma dn2ufn_reads_in_front: "ldap_dn2ufn (\<lambda>_. True) (Some []) = None"
proof -
  have "ldap_explode_dn (\<lambda>_. True) (Some []) False = Some (Some [[]])"
    by (simp add: ldap_explode_dn_def explode_name_def explode_loop.simps parts_room_def new_part_def trimmed_def)
  moreover have "ldap_explode_rdn (\<lambda>_. True) (Some []) True = None"
    unfolding ldap_explode_rdn_def by (rule explode_reads_in_front) simp
  ultimately show ?thesis by (simp add: ldap_dn2ufn_def)
qed

lemma open_quote: "0x22 \<notin> set s \<Longrightarrow> explode_loop mem is_type notypes skipped (pre @ s) True rdn (length pre) parts = Some (Some parts)"
proof (induction "length s" arbitrary: pre s rule: less_induct)
  case less
  show ?case
  proof (cases s)
    case Nil
    then show ?thesis by (subst explode_loop.simps) simp
  next
    case (Cons c cs)
    have step: "explode_loop mem is_type notypes skipped (pre @ s) True rdn (length pre + 1 + n) parts = Some (Some parts)" if "n \<le> length cs" for n
    proof -
      have "0x22 \<notin> set (drop n cs)" using less(2) Cons by (auto dest: in_set_dropD)
      then show ?thesis using less(1) [of "drop n cs" "pre @ c # take n cs"] that Cons by simp
    qed
    show ?thesis
      using step [of 0] step [of "ldap_utf8_offset cs"] offset_append(2) [of cs "[]"] less(2) Cons
      by (subst explode_loop.simps) (auto simp: nth_append)
  qed
qed

lemma dcedn2dn_stores_in_front: "0x22 \<notin> set s \<Longrightarrow> ldap_dcedn2dn (\<lambda>_. True) (Some (0x2f # 0x22 # s)) = None"
proof -
  assume s: "0x22 \<notin> set s"
  let ?name = "0x2f # 0x22 # s"
  have sp: "\<not> space 0x2f" "\<not> space 0x22" by (simp_all add: space_def ldap_utf8_isspace_def first_octet_def)
  have "explode_loop (\<lambda>_. True) NAME_TYPE_DCE_DN False False ?name False 0 0 []
      = explode_loop (\<lambda>_. True) NAME_TYPE_DCE_DN False False ?name False 1 1 [Some []]"
    using sp by (subst explode_loop.simps) (simp add: ends_part_def parts_room_def new_part_def trimmed_def next_rdn_def)
  also have "\<dots> = explode_loop (\<lambda>_. True) NAME_TYPE_DCE_DN False False ?name True 1 (Suc (Suc 0)) [Some []]"
    by (subst explode_loop.simps) simp
  also have "\<dots> = Some (Some [Some []])"
    using open_quote [OF s, of "\<lambda>_. True" NAME_TYPE_DCE_DN False False "[0x2f, 0x22]" 1] by simp
  finally show ?thesis using sp by (simp add: ldap_dcedn2dn_def explode_name_def Let_def first_octet_def)
qed

text \<open>An equality sign in quotes at the end of a part leaves a length of -1, and the array seems to end there.\<close>

lemma explode_truncates:
  "explode_name (\<lambda>_. True) (Some (ascii ''\"x=\",o=b'')) True NAME_TYPE_LDAP_DN = Some (Some [])"
  "explode_name (\<lambda>_. True) (Some (ascii ''\"x=\",o=b'')) False NAME_TYPE_LDAP_DN = Some (Some [ascii ''\"x=\"'', ascii ''o=b''])"
  by code_simp+

text \<open>A quote or a space that was escaped is lost at the end of a part.\<close>

lemma explode_loses_escaped:
  "explode_name (\<lambda>_. True) (Some (0x63 # 0x3d # [0x61, 0x5c, 0x22])) True NAME_TYPE_LDAP_DN = Some (Some [[0x61, 0x5c]])"
  "explode_name (\<lambda>_. True) (Some (0x63 # 0x3d # [0x61, 0x5c, 0x20])) False NAME_TYPE_LDAP_DN = Some (Some [[0x63, 0x3d, 0x61, 0x5c]])"
  by code_simp+

end
