(* ===== verification/List_Controls.thy ===== *)
theory List_Controls imports Ldap_Requests C_Strings begin

text \<open>
  The controls for sorted results and virtual list views: libraries/libldap/sortctrl.c and vlvctrl.c, with their
  structures of include/ldap.h.  The session handle and the pointers to results are not null.
\<close>

definition LDAP_CONTROL_NOT_FOUND :: int where "LDAP_CONTROL_NOT_FOUND = 0x5d"
definition LDAP_CONTROL_SORTREQUEST :: octets where "LDAP_CONTROL_SORTREQUEST = ascii ''1.2.840.113556.1.4.473''"
definition LDAP_CONTROL_SORTRESPONSE :: octets where "LDAP_CONTROL_SORTRESPONSE = ascii ''1.2.840.113556.1.4.474''"
definition LDAP_CONTROL_VLVREQUEST :: octets where "LDAP_CONTROL_VLVREQUEST = ascii ''2.16.840.1.113730.3.4.9''"
definition LDAP_CONTROL_VLVRESPONSE :: octets where "LDAP_CONTROL_VLVRESPONSE = ascii ''2.16.840.1.113730.3.4.10''"

definition LDAP_MATCHRULE_IDENTIFIER :: u32 where "LDAP_MATCHRULE_IDENTIFIER = 0x80"
definition LDAP_REVERSEORDER_IDENTIFIER :: u32 where "LDAP_REVERSEORDER_IDENTIFIER = 0x81"
definition LDAP_ATTRTYPES_IDENTIFIER :: u32 where "LDAP_ATTRTYPES_IDENTIFIER = 0x80"
definition LDAP_VLVBYINDEX_IDENTIFIER :: u32 where "LDAP_VLVBYINDEX_IDENTIFIER = 0xa0"
definition LDAP_VLVBYVALUE_IDENTIFIER :: u32 where "LDAP_VLVBYVALUE_IDENTIFIER = 0x81"
definition LDAP_VLVCONTEXT_IDENTIFIER :: u32 where "LDAP_VLVCONTEXT_IDENTIFIER = 0x04"

record ldapsortkey =
  attributeType :: octets
  orderingRule :: "octets option"
  reverseOrder :: u32

text \<open>The member \<open>ldvlv_extradata\<close>, a pointer for the use of the caller, is left out.\<close>

record ldapvlvinfo =
  ldvlv_version :: u32
  ldvlv_before_count :: u32
  ldvlv_after_count :: u32
  ldvlv_offset :: u32
  ldvlv_count :: u32
  ldvlv_attrvalue :: "berval option"
  ldvlv_context :: "berval option"

section \<open>Sort keys as a string\<close>

function countKeys :: "octets \<Rightarrow> nat" where
  "countKeys p =
    (case dropWhile LDAP_SPACE p of [] \<Rightarrow> 0 | c # q \<Rightarrow> Suc (countKeys (dropWhile (\<lambda>c. \<not> LDAP_SPACE c) q)))"
  by pat_completeness auto
termination
proof (relation "measure length")
  fix p q :: octets and c
  assume "dropWhile LDAP_SPACE p = c # q"
  then have "length (c # q) \<le> length p" by (metis length_dropWhile_le)
  then show "(dropWhile (\<lambda>c. \<not> LDAP_SPACE c) q, p) \<in> measure length"
    using length_dropWhile_le [of "\<lambda>c. \<not> LDAP_SPACE c" q] by simp
qed simp

declare countKeys.simps [simp del]

text \<open>
  A cell of the array of keys: \<open>Freed_key\<close> is a pointer to a block that was released, which is left there
  when an allocation inside a key fails.
\<close>

datatype key_cell = No_key | Sort_key ldapsortkey | Freed_key

definition SORTKEY_BYTES :: nat where "SORTKEY_BYTES = 12"

definition blank :: "u8 \<Rightarrow> bool" where
  "blank c \<longleftrightarrow> c = 0x20 \<or> c = 0x09"

definition readNextKey :: "(nat \<Rightarrow> bool) \<Rightarrow> octets \<Rightarrow> int \<times> octets \<times> key_cell" where
  "readNextKey mem pNextKey =
    (let p = dropWhile LDAP_SPACE pNextKey;
         rev = (p \<noteq> [] \<and> hd p = 0x2d);
         p1 = (if rev then tl p else p);
         attr = takeWhile (\<lambda>c. \<not> blank c \<and> c \<noteq> 0x3a) p1;
         p2 = dropWhile (\<lambda>c. \<not> blank c \<and> c \<noteq> 0x3a) p1;
         colon = (p2 \<noteq> [] \<and> hd p2 = 0x3a);
         oid = (if colon then takeWhile (\<lambda>c. \<not> blank c) (tl p2) else []);
         p3 = (if colon then dropWhile (\<lambda>c. \<not> blank c) (tl p2) else p2)
     in if attr = [] then (LDAP_PARAM_ERROR, pNextKey, No_key)
        else if \<not> mem SORTKEY_BYTES then (LDAP_NO_MEMORY, p3, No_key)
        else if \<not> mem (length attr + 1) \<or> oid \<noteq> [] \<and> \<not> mem (length oid + 1) then (LDAP_NO_MEMORY, p3, Freed_key)
        else (LDAP_SUCCESS, p3,
          Sort_key \<lparr>attributeType = attr, orderingRule = (if oid = [] then None else Some oid), reverseOrder = (if rev then 1 else 0)\<rparr>))"

text \<open>The loop over the keys; after an error the cells before and at the failed one are released.\<close>

fun read_keys :: "(nat \<Rightarrow> bool) \<Rightarrow> nat \<Rightarrow> octets \<Rightarrow> ldapsortkey list \<Rightarrow> (int \<times> ldapsortkey list option) option" where
  "read_keys mem 0 nextKey keyList = Some (LDAP_SUCCESS, Some keyList)"
| "read_keys mem (Suc n) nextKey keyList =
    (case readNextKey mem nextKey of
       (rc, nextKey', Sort_key k) \<Rightarrow> read_keys mem n nextKey' (keyList @ [k])
     | (rc, nextKey', No_key) \<Rightarrow> Some (rc, None)
     | (rc, nextKey', Freed_key) \<Rightarrow> None)"

definition ldap_create_sort_keylist :: "(nat \<Rightarrow> bool) \<Rightarrow> octets option \<Rightarrow> (int \<times> ldapsortkey list option) option" where
  "ldap_create_sort_keylist mem keyString =
    (case keyString of None \<Rightarrow> Some (LDAP_PARAM_ERROR, None)
     | Some s \<Rightarrow>
        (let numKeys = countKeys s in
         if numKeys = 0 then Some (LDAP_PARAM_ERROR, None)
         else if \<not> mem ((numKeys + 1) * 4) then Some (LDAP_NO_MEMORY, None)
         else read_keys mem numKeys s []))"

section \<open>Requests\<close>

type_synonym control_creation = "(int \<times> ldap \<times> ldapcontrol option) option"

definition control_failed :: "ldap \<Rightarrow> berelement \<Rightarrow> control_creation" where
  "control_failed ld ber = Some (LDAP_ENCODING_ERROR, set_errno LDAP_ENCODING_ERROR ld, None)"

definition control_made :: "allocator \<Rightarrow> (nat \<Rightarrow> bool) \<Rightarrow> ldap \<Rightarrow> octets \<Rightarrow> u8 \<Rightarrow> berelement \<Rightarrow> control_creation" where
  "control_made alloc memory ld oid iscritical ber =
    map_option (\<lambda>(rc, c). (rc, set_errno rc ld, c)) (ldap_create_control alloc memory (Some oid) (Some ber) iscritical)"

fun put_sort_keys :: "allocator \<Rightarrow> ldap \<Rightarrow> ldapsortkey list \<Rightarrow> berelement \<Rightarrow> (berelement \<Rightarrow> control_creation) \<Rightarrow> control_creation" where
  "put_sort_keys alloc ld [] ber next = next ber"
| "put_sort_keys alloc ld (k # ks) ber next =
    printf_or (control_failed ld) (ber_printf alloc ber ''{s'' [PStr (attributeType k)]) (\<lambda>ber1.
    printf_or (control_failed ld)
      (if orderingRule k \<noteq> None then ber_printf alloc ber1 ''ts'' [PTag LDAP_MATCHRULE_IDENTIFIER, PStr (the (orderingRule k))]
       else Some (0, ber1)) (\<lambda>ber2.
    printf_or (control_failed ld)
      (if reverseOrder k \<noteq> 0 then ber_printf alloc ber2 ''tb'' [PTag LDAP_REVERSEORDER_IDENTIFIER, PInt (reverseOrder k)]
       else Some (0, ber2)) (\<lambda>ber3.
    printf_or (control_failed ld) (ber_printf alloc ber3 ''N}'' []) (\<lambda>ber4.
      put_sort_keys alloc ld ks ber4 next))))"

definition ldap_create_sort_control ::
    "allocator \<Rightarrow> bool \<Rightarrow> (nat \<Rightarrow> bool) \<Rightarrow> ldap \<Rightarrow> ldapsortkey list option \<Rightarrow> u32 \<Rightarrow> control_creation" where
  "ldap_create_sort_control alloc calloc_ok memory ld keyList isCritical =
    (case keyList of None \<Rightarrow> Some (LDAP_PARAM_ERROR, set_errno LDAP_PARAM_ERROR ld, None)
     | Some keys \<Rightarrow>
        (case ldap_alloc_ber_with_options calloc_ok ld of
           (None, ld') \<Rightarrow> Some (LDAP_NO_MEMORY, set_errno LDAP_NO_MEMORY ld', None)
         | (Some ber, ld') \<Rightarrow>
            printf_or (control_failed ld') (ber_printf alloc ber ''{'' []) (\<lambda>ber1.
            put_sort_keys alloc ld' keys ber1 (\<lambda>ber2.
            printf_or (control_failed ld') (ber_printf alloc ber2 ''N}'' [])
              (control_made alloc memory ld' LDAP_CONTROL_SORTREQUEST (ucast isCritical))))))"

definition ldap_create_vlv_control :: "allocator \<Rightarrow> bool \<Rightarrow> (nat \<Rightarrow> bool) \<Rightarrow> ldap \<Rightarrow> ldapvlvinfo option \<Rightarrow> control_creation" where
  "ldap_create_vlv_control alloc calloc_ok memory ld vlvinfop =
    (case vlvinfop of None \<Rightarrow> Some (LDAP_PARAM_ERROR, set_errno LDAP_PARAM_ERROR ld, None)
     | Some vlv \<Rightarrow>
        (case ldap_alloc_ber_with_options calloc_ok ld of
           (None, ld') \<Rightarrow> Some (LDAP_NO_MEMORY, set_errno LDAP_NO_MEMORY ld', None)
         | (Some ber, ld') \<Rightarrow>
            printf_or (control_failed ld')
              (ber_printf alloc ber ''{ii'' [PInt (ldvlv_before_count vlv), PInt (ldvlv_after_count vlv)]) (\<lambda>ber1.
            printf_or (control_failed ld')
              (if ldvlv_attrvalue vlv = None
               then ber_printf alloc ber1 ''t{iiN}'' [PTag LDAP_VLVBYINDEX_IDENTIFIER, PInt (ldvlv_offset vlv), PInt (ldvlv_count vlv)]
               else ber_printf alloc ber1 ''tO'' [PTag LDAP_VLVBYVALUE_IDENTIFIER, PBerval (ldvlv_attrvalue vlv)]) (\<lambda>ber2.
            printf_or (control_failed ld')
              (if ldvlv_context vlv \<noteq> None then ber_printf alloc ber2 ''tO'' [PTag LDAP_VLVCONTEXT_IDENTIFIER, PBerval (ldvlv_context vlv)]
               else Some (0, ber2)) (\<lambda>ber3.
            printf_or (control_failed ld') (ber_printf alloc ber3 ''N}'' [])
              (control_made alloc memory ld' LDAP_CONTROL_VLVREQUEST 1))))))"

section \<open>Responses\<close>

text \<open>The first control with the identifier; the strings of decoded controls have their null with them.\<close>

fun find_control :: "octets \<Rightarrow> ldapcontrol list \<Rightarrow> ldapcontrol option option" where
  "find_control oid [] = Some None"
| "find_control oid (c # cs) =
    (case ldctl_oid c of None \<Rightarrow> None
     | Some s \<Rightarrow> if strcmp oid (takeWhile (\<lambda>x. x \<noteq> 0) s) = 0 then Some (Some c) else find_control oid cs)"

text \<open>The return value, the handle, and what was stored through the pointers (\<open>None\<close> where nothing was).\<close>

type_synonym 'a control_read = "(int \<times> ldap \<times> 'a) option"

definition with_control_value ::
    "allocator \<Rightarrow> bool \<Rightarrow> ldap \<Rightarrow> octets \<Rightarrow> ldapcontrol list option \<Rightarrow> 'a \<Rightarrow> (berelement \<Rightarrow> 'a control_read) \<Rightarrow> 'a control_read" where
  "with_control_value alloc calloc_ok ld oid ctrls nothing next =
    (case ctrls of None \<Rightarrow> Some (LDAP_CONTROL_NOT_FOUND, set_errno LDAP_CONTROL_NOT_FOUND ld, nothing)
     | Some cs \<Rightarrow>
        (case find_control oid cs of None \<Rightarrow> None
         | Some None \<Rightarrow> Some (LDAP_CONTROL_NOT_FOUND, set_errno LDAP_CONTROL_NOT_FOUND ld, nothing)
         | Some (Some c) \<Rightarrow>
            (case value_octets (ldctl_value c) of None \<Rightarrow> None
             | Some s \<Rightarrow>
                (case ber_init alloc calloc_ok s of None \<Rightarrow> None
                 | Some None \<Rightarrow> Some (LDAP_NO_MEMORY, set_errno LDAP_NO_MEMORY ld, nothing)
                 | Some (Some ber) \<Rightarrow> next ber))))"

definition ldap_parse_sort_control ::
    "allocator \<Rightarrow> bool \<Rightarrow> (u32 \<Rightarrow> bool) \<Rightarrow> ldap \<Rightarrow> ldapcontrol list option \<Rightarrow> bool \<Rightarrow> (u32 option \<times> octets option) control_read" where
  "ldap_parse_sort_control alloc calloc_ok mem ld ctrls attribute =
    with_control_value alloc calloc_ok ld LDAP_CONTROL_SORTRESPONSE ctrls (None, None) (\<lambda>ber.
      case ber_scanf mem ber ''{e'' [SPtr] of None \<Rightarrow> None
      | Some (tag, outs, ber1) \<Rightarrow>
         (let code = (case outs of [ONone, OInt i] \<Rightarrow> i | _ \<Rightarrow> None) in
          if tag = LBER_DEFAULT then Some (LDAP_DECODING_ERROR, set_errno LDAP_DECODING_ERROR ld, (code, None))
          else if \<not> attribute then Some (LDAP_SUCCESS, set_errno LDAP_SUCCESS ld, (code, None))
          else case ber_peek_tag ber1 of None \<Rightarrow> None
            | Some (t, _, ber2) \<Rightarrow>
               (if t \<noteq> LDAP_ATTRTYPES_IDENTIFIER then Some (LDAP_SUCCESS, set_errno LDAP_SUCCESS ld, (code, None))
                else case ber_scanf mem ber2 ''ta'' [SPtr, SPtr] of None \<Rightarrow> None
                  | Some (tag2, outs2, ber3) \<Rightarrow>
                     (let s = (case outs2 of [_, OStr s] \<Rightarrow> s | _ \<Rightarrow> None) in
                      if tag2 = LBER_DEFAULT then Some (LDAP_DECODING_ERROR, set_errno LDAP_DECODING_ERROR ld, (code, s))
                      else Some (LDAP_SUCCESS, set_errno LDAP_SUCCESS ld, (code, s))))))"

text \<open>The position, the count and the code are stored at the end; \<open>contextp\<close> says whether the caller wants the context.\<close>

definition ldap_parse_vlv_control ::
    "allocator \<Rightarrow> bool \<Rightarrow> (u32 \<Rightarrow> bool) \<Rightarrow> ldap \<Rightarrow> ldapcontrol list option \<Rightarrow> bool
      \<Rightarrow> ((u32 option \<times> u32 option \<times> u32 option) option \<times> (octets option \<times> u32) option) control_read" where
  "ldap_parse_vlv_control alloc calloc_ok mem ld ctrls contextp =
    with_control_value alloc calloc_ok ld LDAP_CONTROL_VLVRESPONSE ctrls (None, None) (\<lambda>ber.
      case ber_scanf mem ber ''{iie'' [SPtr, SPtr, SPtr] of None \<Rightarrow> None
      | Some (tag, outs, ber1) \<Rightarrow>
         (if tag = LBER_DEFAULT then Some (LDAP_DECODING_ERROR, set_errno LDAP_DECODING_ERROR ld, (None, None))
          else case outs of
            [ONone, OInt pos, OInt count, OInt err] \<Rightarrow>
              (if \<not> contextp then Some (LDAP_SUCCESS, set_errno LDAP_SUCCESS ld, (Some (pos, count, err), None))
               else case ber_peek_tag ber1 of None \<Rightarrow> None
                 | Some (t, _, ber2) \<Rightarrow>
                    (if t \<noteq> LDAP_VLVCONTEXT_IDENTIFIER then Some (LDAP_SUCCESS, set_errno LDAP_SUCCESS ld, (Some (pos, count, err), None))
                     else case ber_scanf mem ber2 ''tO'' [SPtr, SPtr] of None \<Rightarrow> None
                       | Some (tag2, outs2, ber3) \<Rightarrow>
                          (let bv = (case outs2 of [_, OBerval bv] \<Rightarrow> bv | _ \<Rightarrow> None) in
                           if tag2 = LBER_DEFAULT then Some (LDAP_DECODING_ERROR, set_errno LDAP_DECODING_ERROR ld, (None, bv))
                           else Some (LDAP_SUCCESS, set_errno LDAP_SUCCESS ld, (Some (pos, count, err), bv)))))
          | _ \<Rightarrow> None))"

end
