(* ===== verification/List_Controls_Facts.thy ===== *)
theory List_Controls_Facts imports List_Controls Ldap_Controls_Facts begin

text \<open>
  The string form of sort keys, and that the controls for sorting and virtual lists hold the values of RFC 2891 and
  of the draft on virtual list views; what the responses hold is read back.
\<close>

section \<open>Sort keys as a string\<close>

definition key_text :: "ldapsortkey \<Rightarrow> octets" where
  "key_text k = (if reverseOrder k \<noteq> 0 then [0x2d] else []) @ attributeType k
    @ (case orderingRule k of None \<Rightarrow> [] | Some r \<Rightarrow> 0x3a # r)"

definition clean :: "octets \<Rightarrow> bool" where
  "clean s \<longleftrightarrow> s \<noteq> [] \<and> list_all (\<lambda>c. \<not> LDAP_SPACE c) s"

definition key_ok :: "ldapsortkey \<Rightarrow> bool" where
  "key_ok k \<longleftrightarrow> clean (attributeType k) \<and> 0x3a \<notin> set (attributeType k) \<and> hd (attributeType k) \<noteq> 0x2d
    \<and> pred_option clean (orderingRule k) \<and> reverseOrder k \<in> {0, 1}"

text \<open>Keys, each with the white space in front of it.\<close>

definition keys_text :: "(octets \<times> ldapsortkey) list \<Rightarrow> octets" where
  "keys_text ks = concat (map (\<lambda>(w, k). w @ key_text k) ks)"

definition keys_ok :: "(octets \<times> ldapsortkey) list \<Rightarrow> bool" where
  "keys_ok ks \<longleftrightarrow> list_all (\<lambda>(w, k). list_all blank w \<and> key_ok k) ks \<and> list_all (\<lambda>(w, k). w \<noteq> []) (tl ks)"

lemma blank_space: "blank c \<Longrightarrow> LDAP_SPACE c"
  by (auto simp: blank_def LDAP_SPACE_def)

lemma key_text_clean: "key_ok k \<Longrightarrow> clean (key_text k)"
  by (auto simp: key_ok_def clean_def key_text_def LDAP_SPACE_def split: option.split)

lemma clean_run:
  assumes "clean s" "list_all blank w" "r = [] \<or> LDAP_SPACE (hd r)"
  shows "dropWhile LDAP_SPACE (w @ s @ r) = s @ r" "dropWhile (\<lambda>c. \<not> LDAP_SPACE c) (tl (s @ r)) = r"
proof -
  have "\<forall>c \<in> set w. LDAP_SPACE c" using assms(2) blank_space by (auto simp: list_all_iff)
  then show "dropWhile LDAP_SPACE (w @ s @ r) = s @ r" using assms(1) by (cases s) (simp_all add: clean_def)
  show "dropWhile (\<lambda>c. \<not> LDAP_SPACE c) (tl (s @ r)) = r"
    using assms(1,3) by (cases s; cases r) (auto simp: clean_def list_all_iff dropWhile_append)
qed

lemma rest_starts:
  "keys_ok ((w, k) # ks) \<Longrightarrow> (keys_text ks = [] \<and> ks = [] \<or> keys_text ks \<noteq> [] \<and> blank (hd (keys_text ks))) \<and> keys_ok ks"
proof -
  assume ok: "keys_ok ((w, k) # ks)"
  then have "keys_ok ks" by (cases ks) (auto simp: keys_ok_def)
  moreover have "keys_text ks = [] \<and> ks = [] \<or> keys_text ks \<noteq> [] \<and> blank (hd (keys_text ks))"
  proof (cases ks)
    case (Cons e ks')
    obtain w' k' where "e = (w', k')" "w' \<noteq> []" "list_all blank w'" using ok by (cases e) (auto simp: Cons keys_ok_def)
    then show ?thesis by (cases w') (simp_all add: Cons keys_text_def)
  qed (simp add: keys_text_def)
  ultimately show ?thesis by blast
qed

lemma stopping:
  assumes "\<forall>c \<in> set s. P c" "x = [] \<or> \<not> P (hd x)"
  shows "takeWhile P (s @ x) = s" "dropWhile P (s @ x) = x"
  using assms by (cases x; simp)+

lemma countKeys_text: "keys_ok ks \<Longrightarrow> list_all blank t \<Longrightarrow> countKeys (keys_text ks @ t) = length ks"
proof (induction ks)
  case Nil
  then have "dropWhile LDAP_SPACE t = []" using blank_space by (auto simp: list_all_iff)
  then show ?case by (simp add: keys_text_def countKeys.simps [of t] del: dropWhile_eq_Nil_conv)
next
  case (Cons e ks)
  obtain w k where e: "e = (w, k)" by (cases e)
  have ok: "list_all blank w" "clean (key_text k)" using Cons.prems(1) key_text_clean by (simp_all add: e keys_ok_def)
  have r: "keys_text ks @ t = [] \<or> LDAP_SPACE (hd (keys_text ks @ t))"
    using rest_starts [of w k ks] Cons.prems blank_space by (cases t) (auto simp: e)
  obtain c q where q: "key_text k @ keys_text ks @ t = c # q" using ok(2) by (cases "key_text k") (simp_all add: clean_def)
  have "countKeys (keys_text (e # ks) @ t) = Suc (countKeys (dropWhile (\<lambda>c. \<not> LDAP_SPACE c) q))"
    using clean_run(1) [OF ok(2,1) r] q by (subst countKeys.simps) (simp add: keys_text_def e)
  also have "dropWhile (\<lambda>c. \<not> LDAP_SPACE c) q = keys_text ks @ t" using clean_run(2) [OF ok(2,1) r] q by simp
  finally show ?case using Cons rest_starts [of w k ks] by (simp add: e)
qed

lemma readNextKey_text:
  assumes "key_ok k" "list_all blank w" "r = [] \<or> blank (hd r)"
  shows "readNextKey (\<lambda>_. True) (w @ key_text k @ r) = (LDAP_SUCCESS, r, Sort_key k)"
proof -
  let ?a = "attributeType k"
  have a: "?a \<noteq> []" "\<forall>c \<in> set ?a. \<not> blank c \<and> c \<noteq> 0x3a" "hd ?a \<noteq> 0x2d"
    using assms(1) blank_space by (auto simp: key_ok_def clean_def list_all_iff)
  have start: "dropWhile LDAP_SPACE (w @ key_text k @ r) = key_text k @ r"
    using assms blank_space by (intro clean_run(1) key_text_clean) auto
  have scan: "takeWhile (\<lambda>c. \<not> blank c \<and> c \<noteq> 0x3a) (?a @ x) = ?a" "dropWhile (\<lambda>c. \<not> blank c \<and> c \<noteq> 0x3a) (?a @ x) = x"
    if "x = [] \<or> blank (hd x) \<or> hd x = 0x3a" for x
    using a(2) that by (intro stopping; auto)+
  have rule: "takeWhile (\<lambda>c. \<not> blank c) (s @ r) = s" "dropWhile (\<lambda>c. \<not> blank c) (s @ r) = r" if "clean s" for s
    using that assms(3) blank_space by (intro stopping; auto simp: clean_def list_all_iff)+
  have colon: "r \<noteq> [] \<Longrightarrow> hd r \<noteq> 0x3a" using assms(3) by (auto simp: blank_def)
  define x where "x = (case orderingRule k of None \<Rightarrow> [] | Some s \<Rightarrow> 0x3a # s) @ r"
  have x: "x = [] \<or> blank (hd x) \<or> hd x = 0x3a" using assms(3) by (auto simp: x_def split: option.split)
  have t: "key_text k @ r = (if reverseOrder k \<noteq> 0 then [0x2d] else []) @ ?a @ x" by (simp add: key_text_def x_def)
  have rev: "reverseOrder k = 0 \<or> reverseOrder k = 1" using assms(1) by (auto simp: key_ok_def)
  have "readNextKey (\<lambda>_. True) (w @ key_text k @ r)
    = (LDAP_SUCCESS, r, Sort_key \<lparr>attributeType = ?a, orderingRule = orderingRule k, reverseOrder = reverseOrder k\<rparr>)"
  proof (cases "orderingRule k")
    case None
    then have "x = r" by (simp add: x_def)
    then show ?thesis
      unfolding readNextKey_def start Let_def unfolding t using scan [OF x] a(1,3) colon rev None by (elim disjE) auto
  next
    case (Some s)
    then have s: "clean s" "s \<noteq> []" "x = 0x3a # s @ r" using assms(1) by (auto simp: key_ok_def clean_def x_def)
    then show ?thesis
      unfolding readNextKey_def start Let_def unfolding t using scan [OF x] a(1,3) rule [OF s(1)] rev Some
      by (elim disjE) (simp_all add: hd_append)
  qed
  then show ?thesis by simp
qed

lemma read_keys_text:
  "keys_ok ks \<Longrightarrow> list_all blank t \<Longrightarrow>
    read_keys (\<lambda>_. True) (length ks) (keys_text ks @ t) acc = Some (LDAP_SUCCESS, Some (acc @ map snd ks))"
proof (induction ks arbitrary: acc)
  case (Cons e ks)
  obtain w k where e: "e = (w, k)" by (cases e)
  have r: "keys_text ks @ t = [] \<or> blank (hd (keys_text ks @ t))" using rest_starts [of w k ks] Cons.prems by (cases t) (auto simp: e)
  have "readNextKey (\<lambda>_. True) (w @ key_text k @ keys_text ks @ t) = (LDAP_SUCCESS, keys_text ks @ t, Sort_key k)"
    using Cons.prems(1) r by (intro readNextKey_text) (simp_all add: e keys_ok_def)
  then show ?case using Cons rest_starts [of w k ks] by (simp add: e keys_text_def)
qed simp

text \<open>
  C20: A string with the keys of a list, each as an attribute with a minus sign in front if its order is reversed and its rule
  behind a colon, and with blanks between the keys and at both ends, is read as exactly these keys.
\<close>

theorem sort_keylist_round_trip:
  assumes "ks \<noteq> []" "keys_ok ks" "list_all blank t"
  shows "ldap_create_sort_keylist (\<lambda>_. True) (Some (keys_text ks @ t)) = Some (LDAP_SUCCESS, Some (map snd ks))"
  using countKeys_text [OF assms(2,3)] read_keys_text [OF assms(2,3), of "[]"] assms(1)
  by (simp add: ldap_create_sort_keylist_def)

lemma sort_keylist_round_trip_witness:
  "ldap_create_sort_keylist (\<lambda>_. True) (Some (ascii '' sn  -cn:2.5.13.3 ''))
    = Some (LDAP_SUCCESS, Some [\<lparr>attributeType = ascii ''sn'', orderingRule = None, reverseOrder = 0\<rparr>,
        \<lparr>attributeType = ascii ''cn'', orderingRule = Some (ascii ''2.5.13.3''), reverseOrder = 1\<rparr>])"
  using sort_keylist_round_trip [of "[(ascii '' '', \<lparr>attributeType = ascii ''sn'', orderingRule = None, reverseOrder = 0\<rparr>),
      (ascii ''  '', \<lparr>attributeType = ascii ''cn'', orderingRule = Some (ascii ''2.5.13.3''), reverseOrder = 1\<rparr>)]" "ascii '' ''"]
  by (simp add: keys_ok_def key_ok_def clean_def keys_text_def key_text_def ascii_def LDAP_SPACE_def blank_def)

text \<open>
  A line feed separates keys where they are counted but not where they are read; and a key whose parts cannot be allocated is
  released twice.
\<close>

lemma sort_keylist_line_feed: "ldap_create_sort_keylist (\<lambda>_. True) (Some [0x61, 0x0a, 0x62]) = Some (LDAP_PARAM_ERROR, None)"
  by code_simp

lemma sort_keylist_released_twice: "ldap_create_sort_keylist (\<lambda>n. n \<noteq> 3) (Some (ascii ''cn'')) = None"
  by code_simp

section \<open>Requests\<close>

definition sort_key_item :: "ldapsortkey \<Rightarrow> ber_item" where
  "sort_key_item k = ISeq None ([IString None (attributeType k)]
    @ (if orderingRule k \<noteq> None then [IString (Some LDAP_MATCHRULE_IDENTIFIER) (the (orderingRule k))] else [])
    @ (if reverseOrder k \<noteq> 0 then [IBool (Some LDAP_REVERSEORDER_IDENTIFIER) (reverseOrder k)] else []))"

definition sort_item :: "ldapsortkey list \<Rightarrow> ber_item" where
  "sort_item ks = ISeq None (map sort_key_item ks)"

definition vlv_item :: "ldapvlvinfo \<Rightarrow> ber_item" where
  "vlv_item v = ISeq None ([IInt None (ldvlv_before_count v), IInt None (ldvlv_after_count v)]
    @ (case ldvlv_attrvalue v of
         None \<Rightarrow> [ISeq (Some LDAP_VLVBYINDEX_IDENTIFIER) [IInt None (ldvlv_offset v), IInt None (ldvlv_count v)]]
       | Some a \<Rightarrow> [IString (Some LDAP_VLVBYVALUE_IDENTIFIER) (octets_of a)])
    @ (case ldvlv_context v of None \<Rightarrow> [] | Some c \<Rightarrow> [IString (Some LDAP_VLVCONTEXT_IDENTIFIER) (octets_of c)]))"

text \<open>The control that holds an item, and the result of a function that makes it.\<close>

definition control_of :: "octets \<Rightarrow> u8 \<Rightarrow> octets \<Rightarrow> ldapcontrol" where
  "control_of oid crit bs = \<lparr>ldctl_oid = Some oid, ldctl_value = \<lparr>bv_len = of_nat (length bs), bv_val = Some (bs @ [0])\<rparr>,
    ldctl_iscritical = crit\<rparr>"

definition makes :: "ldap \<Rightarrow> octets \<Rightarrow> u8 \<Rightarrow> ber_item \<Rightarrow> int \<times> ldap \<times> ldapcontrol option \<Rightarrow> bool" where
  "makes ld oid crit x r \<longleftrightarrow> r = (LDAP_SUCCESS, set_errno LDAP_SUCCESS ld,
    Some (control_of oid crit (encoded (ld_lberoptions ld AND LBER_USE_DER \<noteq> 0) x)))"

lemma list_tags:
  "tag_ok (Some LDAP_MATCHRULE_IDENTIFIER)" "tag_ok (Some LDAP_REVERSEORDER_IDENTIFIER)" "short_tag (Some LDAP_VLVBYINDEX_IDENTIFIER)"
  "tag_ok (Some LDAP_VLVBYVALUE_IDENTIFIER)" "tag_ok (Some LDAP_VLVCONTEXT_IDENTIFIER)"
  by (simp_all add: short_tag_def tag_ok_def LDAP_MATCHRULE_IDENTIFIER_def LDAP_REVERSEORDER_IDENTIFIER_def
      LDAP_VLVBYINDEX_IDENTIFIER_def LDAP_VLVBYVALUE_IDENTIFIER_def LDAP_VLVCONTEXT_IDENTIFIER_def valid_tag_def tag_octets_def
      ber_calc_taglen_def leading_octet_numeral big_tag_def LBER_BIG_TAG_MASK_def)

lemma sort_item_ok: "item_ok (sort_item ks)"
  by (auto simp: sort_item_def sort_key_item_def list_all_iff list_tags)

lemma vlv_item_ok: "item_ok (vlv_item v)"
  by (auto simp: vlv_item_def list_tags split: option.split)

lemma control_made_holds:
  assumes "always_allocates alloc" "holds (fresh (ld_lberoptions ld)) ([], [x]) b" "room_for (fresh (ld_lberoptions ld)) 0 ([], [x])"
  shows "\<exists>r. control_made alloc (\<lambda>_. True) ld oid crit b = Some r \<and> makes ld oid crit x r"
proof -
  let ?der = "ld_lberoptions ld AND LBER_USE_DER \<noteq> 0"
  have "ber_use_der (fresh (ld_lberoptions ld)) = ?der" by (simp add: ber_use_der_def fresh_def ber_alloc_t_def)
  then have w: "writes (fresh (ld_lberoptions ld)) (encoded ?der x) b" using assms(2) by (simp add: holds_simps)
  have "length (encoded False x) \<le> write_limit" using assms(3) by (simp add: room_for_def)
  then show ?thesis
    using flatten_written [OF w encoded_not_Nil encoded_limit assms(1)]
    by (simp add: control_made_def ldap_create_control_def makes_def control_of_def)
qed

lemma put_sort_key_holds:
  assumes "always_allocates alloc" "holds b0 st b" "grows (add_items [sort_key_item k] st) st'"
    and "room_for b0 0 st'" "length (ber_sos b0) + length (fst st) + 1 \<le> 113"
    and "\<And>b1. holds b0 (add_items [sort_key_item k] st) b1 \<Longrightarrow> \<exists>r. put_sort_keys alloc ld ks b1 next = Some r \<and> P r"
  shows "\<exists>r. put_sort_keys alloc ld (k # ks) b next = Some r \<and> P r"
proof -
  let ?x0 = "[IString None (attributeType k)]"
  let ?x1 = "?x0 @ (if orderingRule k \<noteq> None then [IString (Some LDAP_MATCHRULE_IDENTIFIER) (the (orderingRule k))] else [])"
  let ?x2 = "?x1 @ (if reverseOrder k \<noteq> 0 then [IBool (Some LDAP_REVERSEORDER_IDENTIFIER) (reverseOrder k)] else [])"
  have item: "ISeq None ?x2 = sort_key_item k" by (simp add: sort_key_item_def)
  have g2: "grows (in_seq ?x2 st) st'" by (rule grows_trans [OF grows_close]) (unfold item, rule assms(3))
  have g1: "grows (in_seq ?x1 st) st'" by (rule grows_trans [OF grows_in_seq g2])
  have g0: "grows (in_seq ?x0 st) st'" by (rule grows_trans [OF grows_in_seq g1])
  have d: "length (ber_sos b0) + length (fst (in_seq xs st)) \<le> 113" for xs using assms(5) by simp
  show ?thesis
    unfolding put_sort_keys.simps
  proof (rule printf_or_holds [OF assms(1,2) _ g0 assms(4) _ d])
    fix b1 assume 1: "holds b0 (in_seq ?x0 st) b1"
    show "\<exists>r. printf_or (control_failed ld)
        (if orderingRule k \<noteq> None then ber_printf alloc b1 ''ts'' [PTag LDAP_MATCHRULE_IDENTIFIER, PStr (the (orderingRule k))]
         else Some (0, b1)) (\<lambda>ber2.
      printf_or (control_failed ld)
        (if reverseOrder k \<noteq> 0 then ber_printf alloc ber2 ''tb'' [PTag LDAP_REVERSEORDER_IDENTIFIER, PInt (reverseOrder k)]
         else Some (0, ber2)) (\<lambda>ber3.
      printf_or (control_failed ld) (ber_printf alloc ber3 ''N}'' []) (\<lambda>ber4.
        put_sort_keys alloc ld ks ber4 next))) = Some r \<and> P r"
    proof (rule printf_or_if_holds [OF assms(1) 1 _ _ g1 assms(4) _ d])
      fix b2 assume 2: "holds b0 (in_seq ?x1 st) b2"
      show "\<exists>r. printf_or (control_failed ld)
          (if reverseOrder k \<noteq> 0 then ber_printf alloc b2 ''tb'' [PTag LDAP_REVERSEORDER_IDENTIFIER, PInt (reverseOrder k)]
           else Some (0, b2)) (\<lambda>ber3.
        printf_or (control_failed ld) (ber_printf alloc ber3 ''N}'' []) (\<lambda>ber4. put_sort_keys alloc ld ks ber4 next)) = Some r \<and> P r"
      proof (rule printf_or_if_holds [OF assms(1) 2 _ _ g2 assms(4) _ d])
        fix b3 assume 3: "holds b0 (in_seq ?x2 st) b3"
        show "\<exists>r. printf_or (control_failed ld) (ber_printf alloc b3 ''N}'' []) (\<lambda>ber4. put_sort_keys alloc ld ks ber4 next) = Some r \<and> P r"
        proof (rule printf_or_holds [OF assms(1) 3 _ assms(3,4) _ _ assms(6)])
          show "builds ''N}'' [] None (in_seq ?x2 st) = Some (add_items [sort_key_item k] st)"
            unfolding item [symmetric] by (cases st) simp
        qed (use assms(5) in simp_all)
      qed (use assms(5) list_tags in \<open>simp_all add: primitive_def\<close>)
    qed (use assms(5) list_tags in \<open>simp_all add: primitive_def\<close>)
  qed (use assms(5) in \<open>simp_all add: primitive_def open_group_def\<close>)
qed

lemma put_sort_keys_holds:
  assumes "always_allocates alloc" "holds b0 st b" "grows (add_items (map sort_key_item ks) st) st'"
    and "room_for b0 0 st'" "length (ber_sos b0) + length (fst st) + 1 \<le> 113"
    and "\<And>b1. holds b0 (add_items (map sort_key_item ks) st) b1 \<Longrightarrow> \<exists>r. next b1 = Some r \<and> P r"
  shows "\<exists>r. put_sort_keys alloc ld ks b next = Some r \<and> P r"
  using assms(2,3,5,6)
proof (induction ks arbitrary: st b)
  case (Cons k ks)
  have g: "grows (add_items [sort_key_item k] st) st'"
    using grows_trans [OF _ Cons.prems(2)] grows_add [of "add_items [sort_key_item k] st" "map sort_key_item ks"] by simp
  show ?case
    by (rule put_sort_key_holds [OF assms(1) Cons.prems(1) g assms(4) Cons.prems(3)])
      (use Cons.prems Cons.IH [of "add_items [sort_key_item k] st"] in auto)
qed simp

lemma sort_control_made:
  assumes "always_allocates alloc" "bulk (sort_item ks) \<le> write_limit"
  shows "\<exists>r. ldap_create_sort_control alloc True (\<lambda>_. True) ld (Some ks) crit = Some r
    \<and> makes ld LDAP_CONTROL_SORTREQUEST (ucast crit) (sort_item ks) r"
proof -
  let ?f = "fresh (ld_lberoptions ld)" and ?xs = "map sort_key_item ks"
  note room = room_message [OF sort_item_ok assms(2), of "ld_lberoptions ld"]
  have close: "builds ''N}'' [] None (in_seq ?xs ([], [])) = Some ([], [sort_item ks])" by (simp add: sort_item_def)
  have g1: "grows (in_seq ?xs ([], [])) ([], [sort_item ks])" by (rule grows_builds [OF close])
  have g0: "grows (in_seq [] ([], [])) ([], [sort_item ks])"
    using grows_trans [OF _ g1] grows_add [of "in_seq [] ([], [])" ?xs] by simp
  have alloc_ber: "ldap_alloc_ber_with_options True ld = (Some ?f, ld)"
    by (simp add: ldap_alloc_ber_with_options_def fresh_def ber_alloc_t_def)
  show ?thesis
    unfolding ldap_create_sort_control_def option.case alloc_ber prod.case
  proof (rule printf_or_holds [OF assms(1) holds_fresh _ g0 room])
    fix b1 assume 1: "holds ?f (in_seq [] ([], [])) b1"
    show "\<exists>r. put_sort_keys alloc ld ks b1 (\<lambda>ber2. printf_or (control_failed ld) (ber_printf alloc ber2 ''N}'' [])
        (control_made alloc (\<lambda>_. True) ld LDAP_CONTROL_SORTREQUEST (ucast crit))) = Some r
      \<and> makes ld LDAP_CONTROL_SORTREQUEST (ucast crit) (sort_item ks) r"
    proof (rule put_sort_keys_holds [OF assms(1) 1 _ room])
      fix b2 assume "holds ?f (add_items ?xs (in_seq [] ([], []))) b2"
      then have 2: "holds ?f (in_seq ?xs ([], [])) b2" by simp
      show "\<exists>r. printf_or (control_failed ld) (ber_printf alloc b2 ''N}'' [])
          (control_made alloc (\<lambda>_. True) ld LDAP_CONTROL_SORTREQUEST (ucast crit)) = Some r
        \<and> makes ld LDAP_CONTROL_SORTREQUEST (ucast crit) (sort_item ks) r"
        by (rule printf_or_holds [OF assms(1) 2 close _ room])
          (use control_made_holds [OF assms(1) _ room] in \<open>simp_all add: grows_def\<close>)
    qed (use g1 in simp_all)
  qed (simp_all add: open_group_def)
qed

text \<open>
  C21: given keys that fit, the control for sorting is made without an error: its value is exactly the X.690 encoding of the
  sequence of the keys, each with its rule and its reversed order only where it has them, and it is as critical as asked.
\<close>

theorem sort_control_holds_keys:
  assumes "always_allocates alloc" "bulk (sort_item ks) \<le> write_limit"
  shows "ldap_create_sort_control alloc True (\<lambda>_. True) ld (Some ks) crit = Some (LDAP_SUCCESS, set_errno LDAP_SUCCESS ld,
    Some (control_of LDAP_CONTROL_SORTREQUEST (ucast crit) (encoded (ld_lberoptions ld AND LBER_USE_DER \<noteq> 0) (sort_item ks))))"
  using sort_control_made [OF assms] by (auto simp: makes_def)

theorem sort_control_holds_keys_witness:
  "ldap_create_sort_control ready_alloc True (\<lambda>_. True) demo_ldap
      (Some [\<lparr>attributeType = ascii ''sn'', orderingRule = None, reverseOrder = 0\<rparr>,
        \<lparr>attributeType = ascii ''cn'', orderingRule = Some (ascii ''2.5''), reverseOrder = 1\<rparr>]) 1
    = Some (LDAP_SUCCESS, set_errno LDAP_SUCCESS demo_ldap, Some (control_of LDAP_CONTROL_SORTREQUEST 1 (encoded True
        (ISeq None [ISeq None [IString None (ascii ''sn'')],
          ISeq None [IString None (ascii ''cn''), IString (Some 0x80) (ascii ''2.5''), IBool (Some 0x81) 1]]))))"
  using sort_control_holds_keys [OF ready_alloc, of "[\<lparr>attributeType = ascii ''sn'', orderingRule = None, reverseOrder = 0\<rparr>,
        \<lparr>attributeType = ascii ''cn'', orderingRule = Some (ascii ''2.5''), reverseOrder = 1\<rparr>]" demo_ldap 1]
  by (simp add: sort_item_def sort_key_item_def write_limit_def ascii_def demo_ldap_def LBER_USE_DER_def
      LDAP_MATCHRULE_IDENTIFIER_def LDAP_REVERSEORDER_IDENTIFIER_def)

lemma vlv_control_made:
  assumes "always_allocates alloc" "bulk (vlv_item v) \<le> write_limit"
    and "pred_option (\<lambda>a. value_octets a \<noteq> None) (ldvlv_attrvalue v)" "pred_option (\<lambda>c. value_octets c \<noteq> None) (ldvlv_context v)"
  shows "\<exists>r. ldap_create_vlv_control alloc True (\<lambda>_. True) ld (Some v) = Some r
    \<and> makes ld LDAP_CONTROL_VLVREQUEST 1 (vlv_item v) r"
proof -
  let ?f = "fresh (ld_lberoptions ld)"
  let ?x0 = "[IInt None (ldvlv_before_count v), IInt None (ldvlv_after_count v)]"
  let ?x1 = "?x0 @ (case ldvlv_attrvalue v of
      None \<Rightarrow> [ISeq (Some LDAP_VLVBYINDEX_IDENTIFIER) [IInt None (ldvlv_offset v), IInt None (ldvlv_count v)]]
    | Some a \<Rightarrow> [IString (Some LDAP_VLVBYVALUE_IDENTIFIER) (octets_of a)])"
  let ?x2 = "?x1 @ (case ldvlv_context v of None \<Rightarrow> [] | Some c \<Rightarrow> [IString (Some LDAP_VLVCONTEXT_IDENTIFIER) (octets_of c)])"
  note room = room_message [OF vlv_item_ok assms(2), of "ld_lberoptions ld"]
  have close: "builds ''N}'' [] None (in_seq ?x2 ([], [])) = Some ([], [vlv_item v])" by (simp add: vlv_item_def)
  have g2: "grows (in_seq ?x2 ([], [])) ([], [vlv_item v])" by (rule grows_builds [OF close])
  have g1: "grows (in_seq ?x1 ([], [])) ([], [vlv_item v])" by (rule grows_trans [OF grows_in_seq g2])
  have g0: "grows (in_seq ?x0 ([], [])) ([], [vlv_item v])" by (rule grows_trans [OF grows_in_seq g1])
  have alloc_ber: "ldap_alloc_ber_with_options True ld = (Some ?f, ld)"
    by (simp add: ldap_alloc_ber_with_options_def fresh_def ber_alloc_t_def)
  let ?made = "control_made alloc (\<lambda>_. True) ld LDAP_CONTROL_VLVREQUEST 1"
  let ?P = "makes ld LDAP_CONTROL_VLVREQUEST 1 (vlv_item v)"
  have last: "\<exists>r. printf_or (control_failed ld) (ber_printf alloc b ''N}'' []) ?made = Some r \<and> ?P r"
    if "holds ?f (in_seq ?x2 ([], [])) b" for b
    by (rule printf_or_holds [OF assms(1) that close _ room])
      (use control_made_holds [OF assms(1) _ room] in \<open>simp_all add: grows_def\<close>)
  have rest: "\<exists>r. printf_or (control_failed ld)
      (if ldvlv_context v \<noteq> None then ber_printf alloc b ''tO'' [PTag LDAP_VLVCONTEXT_IDENTIFIER, PBerval (ldvlv_context v)]
       else Some (0, b)) (\<lambda>ber3. printf_or (control_failed ld) (ber_printf alloc ber3 ''N}'' []) ?made) = Some r \<and> ?P r"
    if "holds ?f (in_seq ?x1 ([], [])) b" for b
  proof (rule printf_or_if_holds [OF assms(1) that _ _ g2 room _ _ last])
    show "builds ''tO'' [PTag LDAP_VLVCONTEXT_IDENTIFIER, PBerval (ldvlv_context v)] None (in_seq ?x1 ([], []))
      = Some (in_seq ?x2 ([], []))" if "ldvlv_context v \<noteq> None"
      using that assms(4) list_tags by (auto simp: primitive_def octets_of_def)
  qed auto
  show ?thesis
    unfolding ldap_create_vlv_control_def option.case alloc_ber prod.case
  proof (rule printf_or_holds [OF assms(1) holds_fresh _ g0 room])
    fix b1 assume 1: "holds ?f (in_seq ?x0 ([], [])) b1"
    note choice = printf_or_holds [OF assms(1) 1 _ g1 room _ _ rest]
    show "\<exists>r. printf_or (control_failed ld)
        (if ldvlv_attrvalue v = None
         then ber_printf alloc b1 ''t{iiN}'' [PTag LDAP_VLVBYINDEX_IDENTIFIER, PInt (ldvlv_offset v), PInt (ldvlv_count v)]
         else ber_printf alloc b1 ''tO'' [PTag LDAP_VLVBYVALUE_IDENTIFIER, PBerval (ldvlv_attrvalue v)]) (\<lambda>ber2.
      printf_or (control_failed ld)
        (if ldvlv_context v \<noteq> None then ber_printf alloc ber2 ''tO'' [PTag LDAP_VLVCONTEXT_IDENTIFIER, PBerval (ldvlv_context v)]
         else Some (0, ber2)) (\<lambda>ber3.
      printf_or (control_failed ld) (ber_printf alloc ber3 ''N}'' []) ?made)) = Some r \<and> ?P r"
    proof (cases "ldvlv_attrvalue v")
      case None
      then show ?thesis
        using choice [of "''t{iiN}''" "[PTag LDAP_VLVBYINDEX_IDENTIFIER, PInt (ldvlv_offset v), PInt (ldvlv_count v)]"] list_tags
        by (simp add: primitive_def open_group_def)
    next
      case (Some a)
      then show ?thesis
        using choice [of "''tO''" "[PTag LDAP_VLVBYVALUE_IDENTIFIER, PBerval (ldvlv_attrvalue v)]"] list_tags assms(3)
        by (auto simp: primitive_def octets_of_def)
    qed
  qed (simp_all add: primitive_def open_group_def)
qed

text \<open>The control for a virtual list, likewise.\<close>

lemma vlv_control_holds:
  assumes "always_allocates alloc" "bulk (vlv_item v) \<le> write_limit"
    and "pred_option (\<lambda>a. value_octets a \<noteq> None) (ldvlv_attrvalue v)" "pred_option (\<lambda>c. value_octets c \<noteq> None) (ldvlv_context v)"
  shows "ldap_create_vlv_control alloc True (\<lambda>_. True) ld (Some v) = Some (LDAP_SUCCESS, set_errno LDAP_SUCCESS ld,
    Some (control_of LDAP_CONTROL_VLVREQUEST 1 (encoded (ld_lberoptions ld AND LBER_USE_DER \<noteq> 0) (vlv_item v))))"
  using vlv_control_made [OF assms] by (auto simp: makes_def)

section \<open>Responses\<close>

text \<open>The values of the responses, with the attribute or the context where there is one.\<close>

definition sort_response :: "u32 \<Rightarrow> octets option \<Rightarrow> ber_item" where
  "sort_response code attr = ISeq None ([IEnum None code]
    @ (case attr of None \<Rightarrow> [] | Some s \<Rightarrow> [IString (Some LDAP_ATTRTYPES_IDENTIFIER) s]))"

definition vlv_response :: "u32 \<Rightarrow> u32 \<Rightarrow> u32 \<Rightarrow> octets option \<Rightarrow> ber_item" where
  "vlv_response pos count code ctxt = ISeq None ([IInt None pos, IInt None count, IEnum None code]
    @ (case ctxt of None \<Rightarrow> [] | Some s \<Rightarrow> [IString (Some LDAP_VLVCONTEXT_IDENTIFIER) s]))"

text \<open>A control with an identifier and a value, behind others with other identifiers.\<close>

definition other_control :: "octets \<Rightarrow> ldapcontrol \<Rightarrow> bool" where
  "other_control oid c \<longleftrightarrow> (case ldctl_oid c of None \<Rightarrow> False | Some s \<Rightarrow> takeWhile (\<lambda>x. x \<noteq> 0) s \<noteq> oid)"

definition response :: "octets \<Rightarrow> octets \<Rightarrow> ldapcontrol list \<Rightarrow> bool" where
  "response oid bs cs \<longleftrightarrow> (\<exists>before c after s. cs = before @ c # after \<and> list_all (other_control oid) before
    \<and> ldctl_oid c = Some s \<and> takeWhile (\<lambda>x. x \<noteq> 0) s = oid \<and> value_octets (ldctl_value c) = Some bs)"

lemma find_response:
  assumes "response oid bs cs" obtains c where "find_control oid cs = Some (Some c)" "value_octets (ldctl_value c) = Some bs"
proof -
  obtain before c after s where c: "cs = before @ c # after" "list_all (other_control oid) before" "ldctl_oid c = Some s"
      "takeWhile (\<lambda>x. x \<noteq> 0) s = oid" "value_octets (ldctl_value c) = Some bs"
    using assms by (auto simp: response_def)
  have "find_control oid (before @ c # after) = Some (Some c)"
    using c(2,3,4) by (induction before) (auto simp: other_control_def split: option.splits)
  then show thesis using c(1,5) that by blast
qed

lemma ber_init_reads:
  assumes "always_allocates alloc" "bs \<noteq> []" "length bs \<le> write_limit"
  obtains b where "ber_init alloc True bs = Some (Some b)" "readable b" "unread b = bs"
proof -
  have f: "ber_alloc_t 0 True = Some (fresh 0)" by (simp add: fresh_def ber_alloc_t_def)
  obtain b1 where "ber_write alloc (fresh 0) bs False = Some (int (length bs), b1)" "writes (fresh 0) bs b1"
    using ber_write_contents [OF assms(1) fresh_simps(2)] assms(3) by auto
  then show thesis using that [of "ber_reset b1 True"] reset_written [OF _ assms(2,3)] by (simp add: ber_init_def f)
qed

lemma with_response:
  assumes "always_allocates alloc" "response oid (encoded der x) cs" "length (encoded der x) \<le> write_limit"
  obtains b where "readable b" "unread b = encoded der x"
    "\<And>nothing next. with_control_value alloc True ld oid (Some cs) nothing next = next b"
proof -
  obtain c where c: "find_control oid cs = Some (Some c)" "value_octets (ldctl_value c) = Some (encoded der x)"
    by (rule find_response [OF assms(2)])
  obtain b where "ber_init alloc True (encoded der x) = Some (Some b)" "readable b" "unread b = encoded der x"
    by (rule ber_init_reads [OF assms(1) encoded_not_Nil assms(3)])
  then show thesis using c that by (simp add: with_control_value_def)
qed

text \<open>The items in front in a sequence that was opened, and a string with a tag behind them.\<close>

lemma scan_opened:
  assumes "\<forall>n. memory n" "list_all item_ok xs" "readable b" "unread b = encoded der (ISeq None (xs @ ys))"
  obtains rc k where "ber_scanf memory b (''{'' @ concat (map item_scan xs)) (concat (map item_pointers xs))
    = Some (rc, ONone # concat (map item_outs xs), advance k b)" "rc \<noteq> LBER_DEFAULT"
    "readable (advance k b)" "unread (advance k b) = concat (map (encoded der) ys)"
proof -
  let ?cx = "concat (map (encoded der) xs)" and ?cy = "concat (map (encoded der) ys)"
  have u: "unread b = constructed der LBER_SEQUENCE (?cx @ ?cy) @ []" using assms(4) by (simp add: tag_or_def)
  then have "length (?cx @ ?cy) < 2 ^ 32" using length_unread_less [OF assms(3)] by (simp add: constructed_def)
  then obtain h where h: "ber_skip_tag b = Some (LBER_SEQUENCE, of_nat (length (?cx @ ?cy)), advance h b)" "readable (advance h b)"
      "unread (advance h b) = (?cx @ ?cy) @ []"
    using skip_constructed [OF assms(3) u valid_octetstring(6)] by blast
  have nd: "LBER_SEQUENCE \<noteq> LBER_DEFAULT" by (rule valid_tag_not_default [OF valid_octetstring(6)])
  have "plain (concat (map item_scan xs) @ [])" by (rule plain_items) (simp add: plain_def)
  then have conv: "scanf_conv memory CHR ''{'' (concat (map item_scan xs)) args 0 b = Some (LBER_SEQUENCE, ONone, advance h b, args)" for args
    using h(1) by (auto simp: scanf_conv_simps plain_def)
  have "scans memory (concat (map item_scan xs)) (concat (map item_pointers xs)) ?cx (concat (map item_outs xs))"
    by (rule scans_items) (use assms(1,2) in \<open>simp add: scans_item list_all_iff\<close>)
  moreover have "plain []" "unread (advance h b) = ?cx @ ?cy" using h(3) by (simp_all add: plain_def)
  ultimately obtain rc tr where 1: "rc \<noteq> LBER_DEFAULT" "map (snd \<circ> snd) tr = concat (map item_outs xs)"
      "scanf_loop memory (concat (map item_scan xs) @ []) (concat (map item_pointers xs) @ []) LBER_SEQUENCE (advance h b)
          [(CHR ''{'', concat (map item_pointers xs), ONone)]
        = scanf_loop memory [] [] rc (advance (length ?cx) (advance h b)) ([(CHR ''{'', concat (map item_pointers xs), ONone)] @ tr)"
    using h(2) nd unfolding scans_def by metis
  show thesis
  proof (rule that [of rc "h + length ?cx"])
    show "ber_scanf memory b (''{'' @ concat (map item_scan xs)) (concat (map item_pointers xs))
        = Some (rc, ONone # concat (map item_outs xs), advance (h + length ?cx) b)"
      using 1 conv by (simp add: ber_scanf_def advance_advance)
    have a: "advance (h + length ?cx) b = advance (length ?cx) (advance h b)" by (simp add: advance_advance)
    show "readable (advance (h + length ?cx) b)" "unread (advance (h + length ?cx) b) = ?cy" unfolding a using h(2,3) by simp_all
  qed (rule 1(1))
qed

lemma scan_tagged:
  assumes "\<forall>n. memory n" "valid_tag tag" "readable b" "unread b = tlv tag s @ rest"
  shows "\<exists>k. ber_scanf memory b ''ta'' [SPtr, SPtr] = Some (tag, [OTag tag, OStr (Some (s @ [0]))], advance k b)"
    "\<exists>k. ber_scanf memory b ''tO'' [SPtr, SPtr] = Some (tag, [OTag tag, OBerval (Some (berval_of s))], advance k b)"
proof -
  have l: "length s < 2 ^ 32 - 1"
    using length_unread_less [OF assms(3)] assms(4) length_tag_octets(1) [of tag] by (simp add: tlv_def)
  note r = ber_peek_tag_tlv [OF assms(3,4,2)] valid_tag_not_default [OF assms(2)]
    ber_get_stringa_tlv [OF assms(3,4,2,1) l] ber_get_stringal_tlv [OF assms(3,4,2,1) l]
  show "\<exists>k. ber_scanf memory b ''ta'' [SPtr, SPtr] = Some (tag, [OTag tag, OStr (Some (s @ [0]))], advance k b)"
    "\<exists>k. ber_scanf memory b ''tO'' [SPtr, SPtr] = Some (tag, [OTag tag, OBerval (Some (berval_of s))], advance k b)"
    using r by (auto simp: ber_scanf_def scanf_conv_simps)
qed

lemma peek_end:
  assumes "readable b" "unread b = []" shows "\<exists>l. ber_peek_tag b = Some (LBER_DEFAULT, l, b)"
  using ber_peek_tag_within [OF assms(1)] assms(2) by blast

lemma list_tags_differ: "LDAP_ATTRTYPES_IDENTIFIER \<noteq> LBER_DEFAULT" "LDAP_VLVCONTEXT_IDENTIFIER \<noteq> LBER_DEFAULT"
  "LBER_DEFAULT \<noteq> LDAP_ATTRTYPES_IDENTIFIER" "LBER_DEFAULT \<noteq> LDAP_VLVCONTEXT_IDENTIFIER"
  by (simp_all add: LDAP_ATTRTYPES_IDENTIFIER_def LDAP_VLVCONTEXT_IDENTIFIER_def LBER_DEFAULT_def)

lemma list_tags_valid: "valid_tag LDAP_ATTRTYPES_IDENTIFIER" "valid_tag LDAP_VLVCONTEXT_IDENTIFIER"
  using list_tags(1,5) by (simp_all add: tag_ok_def LDAP_ATTRTYPES_IDENTIFIER_def LDAP_MATCHRULE_IDENTIFIER_def)

text \<open>
  C22: the code and the attribute of a server's answer to a request for sorting are read back, from the first control with the
  identifier, with the lengths in either form; the attribute is read with its null, and only where the answer has one.
\<close>

theorem sort_response_read:
  assumes "always_allocates alloc" "response LDAP_CONTROL_SORTRESPONSE (encoded der (sort_response code attr)) cs"
    and "length (encoded der (sort_response code attr)) \<le> write_limit"
  shows "ldap_parse_sort_control alloc True (\<lambda>_. True) ld (Some cs) True
    = Some (LDAP_SUCCESS, set_errno LDAP_SUCCESS ld, (Some code, map_option (\<lambda>s. s @ [0]) attr))"
proof -
  let ?ys = "case attr of None \<Rightarrow> [] | Some s \<Rightarrow> [IString (Some LDAP_ATTRTYPES_IDENTIFIER) s]"
  obtain b where b: "readable b" "unread b = encoded der (ISeq None ([IEnum None code] @ ?ys))"
    and w: "\<And>nothing (next :: berelement \<Rightarrow> (u32 option \<times> octets option) control_read).
      with_control_value alloc True ld LDAP_CONTROL_SORTRESPONSE (Some cs) nothing next = next b"
    by (rule with_response [OF assms(1) assms(2,3) [unfolded sort_response_def], where ld = ld]) (rule that)
  obtain rc k where 1: "ber_scanf (\<lambda>_. True) b ''{e'' [SPtr] = Some (rc, [ONone, OInt (Some code)], advance k b)" "rc \<noteq> LBER_DEFAULT"
      "readable (advance k b)" "unread (advance k b) = concat (map (encoded der) ?ys)"
    using scan_opened [of "\<lambda>_. True" "[IEnum None code]", OF _ _ b] by auto
  show ?thesis
  proof (cases attr)
    case None
    then obtain l where "ber_peek_tag (advance k b) = Some (LBER_DEFAULT, l, advance k b)" using peek_end [OF 1(3)] 1(4) by auto
    then show ?thesis using 1(1,2) None list_tags_differ by (simp add: ldap_parse_sort_control_def w)
  next
    case (Some s)
    then have u: "unread (advance k b) = tlv LDAP_ATTRTYPES_IDENTIFIER s @ []" using 1(4) by (simp add: tag_or_def)
    obtain k' where "ber_scanf (\<lambda>_. True) (advance k b) ''ta'' [SPtr, SPtr]
        = Some (LDAP_ATTRTYPES_IDENTIFIER, [OTag LDAP_ATTRTYPES_IDENTIFIER, OStr (Some (s @ [0]))], advance k' (advance k b))"
      using scan_tagged(1) [of "\<lambda>_. True", OF _ list_tags_valid(1) 1(3) u] by auto
    then show ?thesis
      unfolding ldap_parse_sort_control_def w 1(1) option.case prod.case ber_peek_tag_tlv [OF 1(3) u list_tags_valid(1)]
      using 1(2) Some list_tags_differ by simp
  qed
qed

theorem sort_response_read_witness:
  "ldap_parse_sort_control ready_alloc True (\<lambda>_. True) demo_ldap (Some [demo_control,
      \<lparr>ldctl_oid = Some (LDAP_CONTROL_SORTRESPONSE @ [0]), ldctl_value = \<lparr>bv_len = 9,
        bv_val = Some [0x30, 7, 0x0a, 1, 16, 0x80, 2, 0x73, 0x6e]\<rparr>, ldctl_iscritical = 0\<rparr>]) True
    = Some (LDAP_SUCCESS, set_errno LDAP_SUCCESS demo_ldap, (Some 16, Some (ascii ''sn'' @ [0])))"
proof -
  have e: "encoded True (sort_response 16 (Some (ascii ''sn''))) = [0x30, 7, 0x0a, 1, 16, 0x80, 2, 0x73, 0x6e]" by code_simp
  have "response LDAP_CONTROL_SORTRESPONSE (encoded True (sort_response 16 (Some (ascii ''sn'')))) [demo_control,
      \<lparr>ldctl_oid = Some (LDAP_CONTROL_SORTRESPONSE @ [0]), ldctl_value = \<lparr>bv_len = 9,
        bv_val = Some [0x30, 7, 0x0a, 1, 16, 0x80, 2, 0x73, 0x6e]\<rparr>, ldctl_iscritical = 0\<rparr>]"
    unfolding response_def e
    by (intro exI [of _ "[demo_control]"] exI [of _ "[]"] exI)
      (auto simp: other_control_def demo_control_def value_octets_def LDAP_CONTROL_SORTRESPONSE_def ascii_def)
  then show ?thesis using sort_response_read [OF ready_alloc, of True 16 "Some (ascii ''sn'')" _ demo_ldap]
    by (simp add: e write_limit_def)
qed

text \<open>The answer to a request for a virtual list, likewise; an empty context is read as a value without octets.\<close>

lemma vlv_response_read:
  assumes "always_allocates alloc" "response LDAP_CONTROL_VLVRESPONSE (encoded der (vlv_response pos count code ctxt)) cs"
    and "length (encoded der (vlv_response pos count code ctxt)) \<le> write_limit"
  shows "ldap_parse_vlv_control alloc True (\<lambda>_. True) ld (Some cs) True
    = Some (LDAP_SUCCESS, set_errno LDAP_SUCCESS ld, (Some (Some pos, Some count, Some code), map_option berval_of ctxt))"
proof -
  let ?ys = "case ctxt of None \<Rightarrow> [] | Some s \<Rightarrow> [IString (Some LDAP_VLVCONTEXT_IDENTIFIER) s]"
  let ?xs = "[IInt None pos, IInt None count, IEnum None code]"
  obtain b where b: "readable b" "unread b = encoded der (ISeq None (?xs @ ?ys))"
    and w: "\<And>nothing (next :: berelement \<Rightarrow> ((u32 option \<times> u32 option \<times> u32 option) option \<times> (octets option \<times> u32) option) control_read).
      with_control_value alloc True ld LDAP_CONTROL_VLVRESPONSE (Some cs) nothing next = next b"
    by (rule with_response [OF assms(1) assms(2,3) [unfolded vlv_response_def], where ld = ld]) (rule that)
  obtain rc k where 1: "ber_scanf (\<lambda>_. True) b ''{iie'' [SPtr, SPtr, SPtr]
      = Some (rc, [ONone, OInt (Some pos), OInt (Some count), OInt (Some code)], advance k b)" "rc \<noteq> LBER_DEFAULT"
      "readable (advance k b)" "unread (advance k b) = concat (map (encoded der) ?ys)"
    using scan_opened [of "\<lambda>_. True" ?xs, OF _ _ b] by auto
  show ?thesis
  proof (cases ctxt)
    case None
    then obtain l where "ber_peek_tag (advance k b) = Some (LBER_DEFAULT, l, advance k b)" using peek_end [OF 1(3)] 1(4) by auto
    then show ?thesis using 1(1,2) None list_tags_differ by (simp add: ldap_parse_vlv_control_def w)
  next
    case (Some s)
    then have u: "unread (advance k b) = tlv LDAP_VLVCONTEXT_IDENTIFIER s @ []" using 1(4) by (simp add: tag_or_def)
    obtain k' where "ber_scanf (\<lambda>_. True) (advance k b) ''tO'' [SPtr, SPtr]
        = Some (LDAP_VLVCONTEXT_IDENTIFIER, [OTag LDAP_VLVCONTEXT_IDENTIFIER, OBerval (Some (berval_of s))], advance k' (advance k b))"
      using scan_tagged(2) [of "\<lambda>_. True", OF _ list_tags_valid(2) 1(3) u] by auto
    then show ?thesis
      unfolding ldap_parse_vlv_control_def w 1(1) option.case prod.case ber_peek_tag_tlv [OF 1(3) u list_tags_valid(2)]
      using 1(2) Some list_tags_differ by simp
  qed
qed

end
