(* ===== verification/Spec2Isabelle.thy ===== *)
theory Spec2Isabelle
  imports Ldap_Prelude Ldap_Filter_Facts Ldap_Controls_Facts Avl_Facts Ber_Next Ber_Messages Ber_Exchange Sockbuf_Facts Charray Ldap_String Base64_Facts Ldif_Facts Url_Facts Rdwr_Facts Tpool_Facts Passwd_Facts Schema_Returns Getdn_Facts List_Controls_Facts
begin

text \<open>
  A verification development of the OpenLDAP SDK in src/, the C client libraries under src/libraries.

  \<^bold>\<open>Parts of the program and how they interact.\<close>  liblber encodes and decodes the BER elements all
  messages consist of (\<^verbatim>\<open>encode.c\<close>, \<^verbatim>\<open>decode.c\<close>), keeps them in a growing buffer (\<^verbatim>\<open>io.c\<close>) and moves them
  through a stack of I/O layers over a descriptor (\<^verbatim>\<open>sockbuf.c\<close>).  libldap builds requests with it, takes
  results apart, and brings its own strings: arrays of strings (\<^verbatim>\<open>charray.c\<close>), UTF-8 (\<^verbatim>\<open>utf-8.c\<close>), tokenising
  (\<^verbatim>\<open>string.c\<close>), URLs (\<^verbatim>\<open>url.c\<close>).  libavl is the balanced tree, liblutil has base 64 (\<^verbatim>\<open>base64.c\<close>), libldif the
  text form of entries (\<^verbatim>\<open>line64.c\<close>).

  \<^bold>\<open>Conventions.\<close>  A C structure is a record with the names of its members, a linked list or a
  null-terminated array a list, a C string the list of its octets without the null, a pointer into a buffer
  an offset or the list of the octets from there on.  A null pointer is \<open>None\<close>.  Integers keep their width
  where their overflow matters (\<open>u8\<close>, \<open>u32\<close>; the target is ILP32).  Return values are the integers the code
  returns, with the new state beside them.  An outermost \<open>None\<close> is a run that has no meaning in C: a failed
  assertion, a read or write outside a block, a null pointer taken for an object; \<open>partial_function\<close> adds the
  runs that do not end.  The allocator (\<open>mem n\<close>, \<open>alloc\<close>), the operating system (record \<open>os\<close>) and the callbacks
  of a caller are parameters; releasing memory is not modelled except where a claim is about it.

  \<^bold>\<open>Theories.\<close>
  \<^item> \<open>Ldap_Prelude\<close>, \<open>C_Strings\<close>: integer types, octets of a number, bits of octets; the functions of the C library.
  \<^item> \<open>Avl\<close> models libavl/avl.c (\<open>avlnode\<close> is \<^verbatim>\<open>struct avlnode\<close>; insertion, deletion, rotations, lookup, traversals,
    iterator).  \<open>Avl_Facts\<close>: the contract of a comparison function is the locale \<open>avl_order\<close>, interpreted
    for \<open>strcmp\<close>; the operations refine a sorted list and keep the tree balanced, its height logarithmic.
  \<^item> \<open>Ber_Element\<close> (liblber/io.c, the structures of lber-int.h), \<open>Ber_Encode\<close>, \<open>Ber_Decode\<close>, \<open>Ber_Next\<close>
    (\<open>ber_get_next\<close>) are the BER model.  \<open>Ber_Writing\<close> and \<open>Ber_Sequences\<close> say where octets are written while sequences
    are open and what closing one does; \<open>Ber_Reading\<close> that decoders look at unread octets only; \<open>Ber_Values\<close> the wire
    format of single values; \<open>Ber_Codec\<close> their round trips (locale \<open>ber_codec\<close>); \<open>Ber_Items\<close> trees of values: \<open>ber_printf\<close>
    writes exactly their X.690 encoding, \<open>ber_scanf\<close> reads them back; \<open>Ber_Safety\<close> what \<open>ber_scanf\<close> does with
    arbitrary octets and whichever allocations fail (locales \<open>bounded_getter\<close>, \<open>string_getter\<close>); \<open>Ber_Messages\<close> vectors and the depth at which the room for headers outruns the block.
  \<^item> \<open>Sockbuf\<close> models sockbuf.c; \<open>Sockbuf_Facts\<close> (locale \<open>byte_source\<close>) that every stack of layers delivers the stream
    in order, each octet once.
  \<^item> \<open>Ber_Transport\<close> and \<open>Ber_Exchange\<close> connect the reader, the writer and the socket buffers (locales \<open>octet_reader\<close>,
    \<open>one_message\<close>, \<open>octet_sink\<close>): what one program prints and flushes, the other receives and scans;
    elements are received with tags of any number of octets, and what the code makes of such a tag is \<open>read_tag\<close>.
  \<^item> \<open>Utf8\<close>/\<open>Utf8_Facts\<close> (utf-8.c), \<open>Charray\<close> (charray.c), \<open>Ldap_String\<close> (string.c): the string functions compute on UTF-8
    strings what list functions compute on characters; splitting and joining are inverse.
  \<^item> \<open>Base64\<close>/\<open>Base64_Facts\<close> (liblutil/base64.c): the decoder accepts exactly the canonical encodings.
  \<^item> \<open>Ldif\<close>/\<open>Ldif_Facts\<close> (libldif/line64.c): the space allocated is enough, entries written are read back.
  \<^item> \<open>Url\<close>/\<open>Url_Facts\<close> (libldap/url.c): parsing inverts the writing of a URL from its parts; lists of hosts.

  \<^item> \<open>Ber_Building\<close>: what an element holds while groups are open in it, and \<open>ber_printf\<close> as a step on that stack (\<open>printf_builds\<close>).
  \<^item> \<open>Ldap_Codes\<close>, \<open>Ldap_Controls\<close> (libldap/controls.c, the fields of the session handle the requests use), \<open>Ldap_Requests\<close> (add.c, modify.c,
    delete.c, compare.c, modrdn.c, extended.c, sasl.c, sbind.c, the messages of abandon.c and unbind.c, each up to the call
    of \<open>ldap_send_initial_request\<close>), \<open>Ldap_Filter\<close> (search.c).  \<open>Ldap_Requests_Facts\<close>: each request writes its message of
    RFC 2251.  \<open>Ldap_Controls_Facts\<close>: reading controls ends, and what it
    gives back.  \<open>Ldap_Filter_Facts\<close>: filters as a datatype, their strings with the escapes of RFC 2254, and the proof
    that \<open>put_filter\<close> and the search request write their encodings; no request, a search included, goes out with a
    critical control that cannot be honoured.
  \<^item> \<open>Step_Systems\<close>: reachable states of a step relation and the locale \<open>inductive_invariant\<close>, interpreted in the two theories below.
  \<^item> \<open>Rdwr\<close>/\<open>Rdwr_Facts\<close> (libldap_r/rdwr.c): the operations of the locks, cut where they wait for a condition, and the threads
    that use a lock as the relation \<open>rdwr_step\<close>; mutual exclusion, counters, no failed assertion, no lost wake-up.
  \<^item> \<open>Tpool\<close>/\<open>Tpool_Facts\<close> (libldap_r/tpool.c): the operations of a pool, cut where the mutex is released, and its threads as the
    relation \<open>pool_step\<close>; counts, the order of the contexts, each run once, none left behind.
  \<^item> \<open>Digest\<close> (liblutil/md5.c, sha1.c): the transformations line by line, and the contexts.  \<open>Digest_Rounds\<close> has the
    compression functions of RFC 1321 and FIPS 180-1 and proves that the unrolled lines compute them; \<open>Digest_Facts\<close> (locale
    \<open>digest\<close>, interpreted for both) that a message may be fed in any portions.  \<open>Passwd\<close>/\<open>Passwd_Facts\<close> (liblutil/passwd.c):
    stored passwords, their schemes and what a check of them does.
  \<^item> \<open>Schema\<close> (libldap/schema.c): the text under construction as a state the \<open>print_\<close> functions pass on, the tokens, the
    parsers, and the loop over the items of a description as a \<open>partial_function\<close>.  \<open>Schema_Facts\<close> (locale \<open>memory\<close>): what
    well-formed descriptions look like as text, and that parsing inverts printing; an array of names under construction is kept cell by
    cell, and the loops over it are shown to be those over the names (\<open>filled\<close>).  \<open>Schema_Strict\<close>: strict parsers accept
    well-formed descriptions only, and what giving up a list frees; \<open>Schema_Returns\<close>: the parsers come to an end on every string, and
    where a strict one can leave its memory.
  \<^item> \<open>Getdn\<close>/\<open>Getdn_Facts\<close> (libldap/getdn.c): splitting of names as the loop over positions in the string; what is joined is
    split again, names and names of DCE are converted back and forth, and the runs that leave a string or a block.
  \<^item> \<open>List_Controls\<close>/\<open>List_Controls_Facts\<close> (libldap/sortctrl.c, vlvctrl.c): strings of sort keys are read back, the controls
    hold the encodings of RFC 2891 and of the draft on virtual lists, and the answers are read from theirs.
  \<^bold>\<open>Bounds and fuel.\<close>  Elements are written while the buffer stays below \<open>write_limit\<close>, 2^30 - 1024 octets, so that
  32-bit lengths do not wrap, with at most 113 sequences open (with 171 the block is too small:
  \<open>ber_printf_deep_overflow\<close>); scanned contents are shorter than 2^29.  The loop of \<open>ber_scanf\<close> over a vector has as
  fuel the length of the block and two more, which the octets of the block bound.  The length limit of the socket
  buffers is the \<open>MAX_BUFF_SIZE\<close> of the source.  Names and values of LDIF are shorter than 2^29 octets, beyond 2^30
  \<open>LDIF_SIZE_NEEDED\<close> wraps.  Clients that call a function again and again (\<open>next_calls\<close>, \<open>flush_calls\<close>, \<open>read_lines\<close>)
  have the number of calls as fuel, and the theorems say how many are enough.

  \<^bold>\<open>Not modelled.\<close>  Test programs, diagnostics, the debug log, releasing of memory; TLS, name resolution and the
  system calls under the socket buffers (a parameter); SASL, Kerberos; the bindings of thread libraries; the
  rendering of entries as HTML; the DBM wrapper, which only renames the functions of database libraries.
  fetch.c fetches a URL over the network and is a parameter of the LDIF reader.
\<close>

end
